(* ===== verification/Prelude.thy ===== *)
theory Prelude
  imports Main "HOL-Library.Multiset"
begin

text \<open>
  The vocabulary every component shares: Go's 64-bit integers, the error-returning
  sequential programs (\<open>if err != nil { return err }\<close> is \<open>bindE\<close>), SQL statements and
  transactions over a database that may fail, and tables as lists of rows.

  A database call can go wrong in two ways the code cannot tell apart: the statement never
  ran, or it ran and its reply was lost. Each connection therefore carries a list of
  faults, one per statement; a theorem that holds for every fault list holds however the
  network behaves.
\<close>

named_theorems success_inv \<open>what a successful run of a program did\<close>
named_theorems keeps_intro \<open>programs that keep an invariant of the data\<close>

section \<open>Go integers\<close>

text \<open>The value a 64-bit two's complement result takes.\<close>

definition wrap64 :: "int \<Rightarrow> int" where
  "wrap64 x = (x + 2 ^ 63) mod 2 ^ 64 - 2 ^ 63"

definition max_int64 :: int where "max_int64 = 2 ^ 63 - 1"
definition max_int32 :: int where "max_int32 = 2 ^ 31 - 1"

text \<open>Go's \<open>/\<close> truncates towards zero.\<close>

definition go_div :: "int \<Rightarrow> int \<Rightarrow> int" where
  "go_div a b = sgn a * sgn b * (\<bar>a\<bar> div \<bar>b\<bar>)"

lemma wrap64_id: "- (2 ^ 63) \<le> x \<Longrightarrow> x < 2 ^ 63 \<Longrightarrow> wrap64 x = x"
  by (simp add: wrap64_def)

lemma wrap64_nonneg_id: "0 \<le> x \<Longrightarrow> x \<le> max_int64 \<Longrightarrow> wrap64 x = x"
  by (simp add: wrap64_id max_int64_def)

lemma go_div_nonneg: "0 \<le> a \<Longrightarrow> 0 < b \<Longrightarrow> go_div a b = a div b"
  by (cases "a = 0") (simp_all add: go_div_def)

text \<open>The guard \<open>quantity \<le> cap / unit\<close> bounds the product.\<close>

lemma le_go_div_mult:
  assumes "0 < u" and "0 \<le> c" and "q \<le> go_div c u"
  shows "u * q \<le> c"
proof -
  from assms have "q \<le> c div u" by (simp add: go_div_nonneg)
  with \<open>0 < u\<close> have "u * q \<le> u * (c div u)" by simp
  also have "\<dots> \<le> c" using \<open>0 < u\<close> by (simp add: mult.commute pos_mod_sign minus_mod_eq_mult_div [symmetric] algebra_simps)
  finally show ?thesis .
qed

section \<open>Programs that return an error or a value\<close>

type_synonym ('s, 'e, 'a) prog = "'s \<Rightarrow> ('e + 'a) \<times> 's"

definition retE :: "'a \<Rightarrow> ('s, 'e, 'a) prog" where
  "retE x s = (Inr x, s)"

definition failE :: "'e \<Rightarrow> ('s, 'e, 'a) prog" where
  "failE e s = (Inl e, s)"

definition bindE :: "('s, 'e, 'a) prog \<Rightarrow> ('a \<Rightarrow> ('s, 'e, 'b) prog) \<Rightarrow> ('s, 'e, 'b) prog" where
  "bindE m f s = (case m s of (Inl e, s1) \<Rightarrow> (Inl e, s1) | (Inr x, s1) \<Rightarrow> f x s1)"

definition thenE :: "('s, 'e, unit) prog \<Rightarrow> ('s, 'e, 'b) prog \<Rightarrow> ('s, 'e, 'b) prog" where
  "thenE m n = bindE m (\<lambda>_. n)"

text \<open>A guard clause: \<open>if bad { return err }\<close>.\<close>

definition guardE :: "bool \<Rightarrow> 'e \<Rightarrow> ('s, 'e, 'b) prog \<Rightarrow> ('s, 'e, 'b) prog" where
  "guardE bad e m = (if bad then failE e else m)"

text \<open>The error as a value, for code that logs it and goes on.\<close>

definition tryE :: "('s, 'e, 'a) prog \<Rightarrow> ('s, 'e, 'e + 'a) prog" where
  "tryE m s = (case m s of (r, t) \<Rightarrow> (Inr r, t))"

lemma tryE_Inr [success_inv]: "tryE m s = (Inr r, t) \<longleftrightarrow> m s = (r, t)"
  by (auto simp: tryE_def split: prod.splits)

lemma retE_Inr [success_inv]: "retE x s = (Inr y, t) \<longleftrightarrow> y = x \<and> t = s"
  by (auto simp: retE_def)

lemma failE_Inr [success_inv]: "failE e s = (Inr y, t) \<longleftrightarrow> False"
  by (simp add: failE_def)

lemma bindE_Inr [success_inv]:
  "bindE m f s = (Inr y, t) \<longleftrightarrow> (\<exists>x u. m s = (Inr x, u) \<and> f x u = (Inr y, t))"
  by (auto simp: bindE_def split: prod.splits sum.splits)

lemma bindE_Inl:
  "bindE m f s = (Inl e, t) \<longleftrightarrow>
     m s = (Inl e, t) \<or> (\<exists>x u. m s = (Inr x, u) \<and> f x u = (Inl e, t))"
  by (auto simp: bindE_def split: prod.splits sum.splits)

lemma thenE_Inr [success_inv]:
  "thenE m n s = (Inr y, t) \<longleftrightarrow> (\<exists>u. m s = (Inr (), u) \<and> n u = (Inr y, t))"
  by (auto simp: thenE_def bindE_Inr)

lemma guardE_Inr [success_inv]: "guardE b e m s = (Inr y, t) \<longleftrightarrow> \<not> b \<and> m s = (Inr y, t)"
  by (auto simp: guardE_def failE_def)

section \<open>Statements and transactions\<close>

datatype fault = Fine | Lost_before | Lost_after

record 'd conn =
  data :: 'd
  faults :: "fault list"

definition next_fault :: "'d conn \<Rightarrow> fault" where
  "next_fault s = (case faults s of [] \<Rightarrow> Fine | f # _ \<Rightarrow> f)"

definition pop_fault :: "'d conn \<Rightarrow> 'd conn" where
  "pop_fault s = s\<lparr>faults := tl (faults s)\<rparr>"

lemma data_pop_fault [simp]: "data (pop_fault s) = data s"
  by (simp add: pop_fault_def)

text \<open>
  One SQL statement: \<open>f\<close> is its effect and result, \<open>None\<close> when the engine itself refuses it
  (a constraint, a malformed limit); \<open>e\<close> is the error the driver reports.
\<close>

definition sql :: "'e \<Rightarrow> ('d \<Rightarrow> ('a \<times> 'd) option) \<Rightarrow> ('d conn, 'e, 'a) prog" where
  "sql e f s =
     (case f (data s) of
        None \<Rightarrow> (Inl e, pop_fault s)
      | Some (x, d) \<Rightarrow>
          (case next_fault s of
             Fine \<Rightarrow> (Inr x, (pop_fault s)\<lparr>data := d\<rparr>)
           | Lost_before \<Rightarrow> (Inl e, pop_fault s)
           | Lost_after \<Rightarrow> (Inl e, (pop_fault s)\<lparr>data := d\<rparr>)))"

definition query :: "'e \<Rightarrow> ('d \<Rightarrow> 'a) \<Rightarrow> ('d conn, 'e, 'a) prog" where
  "query e f = sql e (\<lambda>d. Some (f d, d))"

definition exec :: "'e \<Rightarrow> ('d \<Rightarrow> 'd) \<Rightarrow> ('d conn, 'e, unit) prog" where
  "exec e f = sql e (\<lambda>d. Some ((), f d))"

definition exec_opt :: "'e \<Rightarrow> ('d \<Rightarrow> 'd option) \<Rightarrow> ('d conn, 'e, unit) prog" where
  "exec_opt e f = sql e (\<lambda>d. map_option (\<lambda>d'. ((), d')) (f d))"

text \<open>\<open>QueryRow(..).Scan\<close>: no row is an error of its own.\<close>

definition query_row :: "'e \<Rightarrow> 'e \<Rightarrow> ('d \<Rightarrow> 'a option) \<Rightarrow> ('d conn, 'e, 'a) prog" where
  "query_row e norow f =
     bindE (query e f) (\<lambda>r. case r of None \<Rightarrow> failE norow | Some x \<Rightarrow> retE x)"

lemma sql_Inr [success_inv]:
  "sql e f s = (Inr x, t) \<longleftrightarrow>
     next_fault s = Fine \<and> (\<exists>d. f (data s) = Some (x, d) \<and> t = (pop_fault s)\<lparr>data := d\<rparr>)"
  by (auto simp: sql_def split: option.splits fault.splits)

lemma sql_effect: "sql e f s = (Inr x, t) \<Longrightarrow> f (data s) = Some (x, data t)"
  by (auto simp: sql_Inr)

lemma sql_data:
  "data (snd (sql e f s)) = data s \<or> (\<exists>x. f (data s) = Some (x, data (snd (sql e f s))))"
  by (auto simp: sql_def split: option.splits fault.splits)

lemma query_Inr [success_inv]:
  "query e f s = (Inr x, t) \<longleftrightarrow> next_fault s = Fine \<and> x = f (data s) \<and> t = pop_fault s"
proof -
  have "(pop_fault s)\<lparr>data := data s\<rparr> = pop_fault s" by (simp add: pop_fault_def)
  then show ?thesis by (auto simp: query_def sql_Inr)
qed

lemma exec_Inr [success_inv]:
  "exec e f s = (Inr x, t) \<longleftrightarrow> next_fault s = Fine \<and> t = (pop_fault s)\<lparr>data := f (data s)\<rparr>"
  by (auto simp: exec_def sql_Inr)

lemma exec_opt_Inr [success_inv]:
  "exec_opt e f s = (Inr x, t) \<longleftrightarrow>
     next_fault s = Fine \<and> (\<exists>d. f (data s) = Some d \<and> t = (pop_fault s)\<lparr>data := d\<rparr>)"
  by (auto simp: exec_opt_def sql_Inr)

lemma query_row_Inr [success_inv]:
  "query_row e n f s = (Inr x, t) \<longleftrightarrow>
     next_fault s = Fine \<and> f (data s) = Some x \<and> t = pop_fault s"
  by (auto simp: query_row_def bindE_Inr query_Inr retE_Inr failE_Inr split: option.splits)

lemma query_data [simp]: "data (snd (query e f s)) = data s"
  by (auto simp: query_def sql_def split: fault.splits)

lemma query_Inl: "query e f s = (Inl e', t) \<Longrightarrow> e' = e \<and> data t = data s"
  by (auto simp: query_def sql_def split: fault.splits)

lemma exec_Inl:
  "exec e f s = (Inl e', t) \<Longrightarrow> e' = e \<and> (data t = data s \<or> data t = f (data s))"
  by (auto simp: exec_def sql_def split: fault.splits)

text \<open>
  A transaction: \<open>BEGIN\<close>, the body, \<open>COMMIT\<close>; the deferred \<open>Rollback\<close> undoes the body when it
  returns an error or the commit fails. \<open>rb d0 d1\<close> is what a rollback to \<open>d0\<close> leaves when the
  body had reached \<open>d1\<close>: the old tables, but the sequences as far as they were drawn.
\<close>

definition transaction ::
    "('d \<Rightarrow> 'd \<Rightarrow> 'd) \<Rightarrow> 'e \<Rightarrow> ('d conn, 'e, 'a) prog \<Rightarrow> ('d conn, 'e, 'a) prog" where
  "transaction rb e m s =
     (case query e (\<lambda>_. ()) s of
        (Inl e', s1) \<Rightarrow> (Inl e', s1)
      | (Inr _, s1) \<Rightarrow>
          (case m s1 of
             (Inl e', s2) \<Rightarrow> (Inl e', s2\<lparr>data := rb (data s1) (data s2)\<rparr>)
           | (Inr x, s2) \<Rightarrow>
               (case next_fault s2 of
                  Fine \<Rightarrow> (Inr x, pop_fault s2)
                | Lost_before \<Rightarrow> (Inl e, (pop_fault s2)\<lparr>data := rb (data s1) (data s2)\<rparr>)
                | Lost_after \<Rightarrow> (Inl e, pop_fault s2))))"

section \<open>Invariants of programs\<close>

text \<open>\<open>keeps I m\<close>: whatever \<open>m\<close> returns, the data satisfies \<open>I\<close> if it did before.\<close>

definition keeps :: "('d \<Rightarrow> bool) \<Rightarrow> ('d conn, 'e, 'a) prog \<Rightarrow> bool" where
  "keeps I m \<longleftrightarrow> (\<forall>s. I (data s) \<longrightarrow> I (data (snd (m s))))"

text \<open>\<open>steps R m\<close>: the data before and after are related by \<open>R\<close>.\<close>

definition steps :: "('d \<Rightarrow> 'd \<Rightarrow> bool) \<Rightarrow> ('d conn, 'e, 'a) prog \<Rightarrow> bool" where
  "steps R m \<longleftrightarrow> (\<forall>s. R (data s) (data (snd (m s))))"

lemma keepsD: "keeps I m \<Longrightarrow> I (data s) \<Longrightarrow> m s = (r, t) \<Longrightarrow> I (data t)"
  unfolding keeps_def by (metis snd_conv)

lemma stepsD: "steps R m \<Longrightarrow> m s = (r, t) \<Longrightarrow> R (data s) (data t)"
  unfolding steps_def by (metis snd_conv)

lemma keeps_ret [keeps_intro, simp]: "keeps I (retE x)"
  by (simp add: keeps_def retE_def)

lemma keeps_fail [keeps_intro, simp]: "keeps I (failE e)"
  by (simp add: keeps_def failE_def)

lemma keeps_query [keeps_intro, simp]: "keeps I (query e f)"
  by (simp add: keeps_def)

lemma keeps_bind [keeps_intro]:
  "keeps I m \<Longrightarrow> (\<And>x. keeps I (f x)) \<Longrightarrow> keeps I (bindE m f)"
  unfolding keeps_def bindE_def by (auto split: prod.splits sum.splits)

lemma keeps_then [keeps_intro]: "keeps I m \<Longrightarrow> keeps I n \<Longrightarrow> keeps I (thenE m n)"
  unfolding thenE_def by (rule keeps_bind)

lemma keeps_guard [keeps_intro]: "(\<not> b \<Longrightarrow> keeps I m) \<Longrightarrow> keeps I (guardE b e m)"
  by (simp add: guardE_def)

lemma keeps_sql: "(\<And>d x d'. I d \<Longrightarrow> f d = Some (x, d') \<Longrightarrow> I d') \<Longrightarrow> keeps I (sql e f)"
  unfolding keeps_def using sql_data by metis

lemma keeps_exec: "(\<And>d. I d \<Longrightarrow> I (f d)) \<Longrightarrow> keeps I (exec e f)"
  unfolding exec_def by (rule keeps_sql) auto

lemma keeps_exec_opt: "(\<And>d d'. I d \<Longrightarrow> f d = Some d' \<Longrightarrow> I d') \<Longrightarrow> keeps I (exec_opt e f)"
  unfolding exec_opt_def by (rule keeps_sql) auto

lemma keeps_query_row [keeps_intro, simp]: "keeps I (query_row e n f)"
  unfolding query_row_def by (intro keeps_intro) (auto split: option.split)

lemma steps_ret: "(\<And>d. R d d) \<Longrightarrow> steps R (retE x)"
  by (simp add: steps_def retE_def)

lemma steps_fail: "(\<And>d. R d d) \<Longrightarrow> steps R (failE e)"
  by (simp add: steps_def failE_def)

lemma steps_query: "(\<And>d. R d d) \<Longrightarrow> steps R (query e f)"
  by (simp add: steps_def)

lemma steps_bind:
  fixes R :: "'d \<Rightarrow> 'd \<Rightarrow> bool"
  assumes "\<And>a b c. R a b \<Longrightarrow> R b c \<Longrightarrow> R a c" and "steps R m" and "\<And>x. steps R (f x)"
  shows "steps R (bindE m f)"
  unfolding steps_def
proof
  fix s :: "'d conn"
  show "R (data s) (data (snd (bindE m f s)))"
  proof (cases "m s")
    case (Pair r t)
    with assms(2) have "R (data s) (data t)" by (rule stepsD)
    with Pair assms show ?thesis
      by (cases r) (auto simp: bindE_def steps_def)
  qed
qed

lemma steps_sql:
  "(\<And>d. R d d) \<Longrightarrow> (\<And>d x d'. f d = Some (x, d') \<Longrightarrow> R d d') \<Longrightarrow> steps R (sql e f)"
  unfolding steps_def using sql_data by metis

lemma steps_exec:
  "(\<And>d. R d d) \<Longrightarrow> (\<And>d. R d (f d)) \<Longrightarrow> steps R (exec e f)"
  unfolding exec_def by (rule steps_sql) auto

section \<open>The interface of a transactional store\<close>

text \<open>
  What the repositories rely on from either database engine: a rolled back transaction is
  related to its start by the store's own growth relation (the sequences it has drawn), and
  a program whose statements only let the store grow stays within it.
\<close>

lemma transaction_Inr [success_inv]:
  "transaction rb e m s = (Inr x, t) \<longleftrightarrow>
     next_fault s = Fine \<and>
     (\<exists>v. m (pop_fault s) = (Inr x, v) \<and> next_fault v = Fine \<and> t = pop_fault v)"
  by (auto simp: transaction_def query_def sql_def pop_fault_def split: prod.splits sum.splits fault.splits)

locale store =
  fixes rb :: "'d \<Rightarrow> 'd \<Rightarrow> 'd"
    and grows :: "'d \<Rightarrow> 'd \<Rightarrow> bool"
  assumes grows_refl: "grows d d"
    and grows_trans: "grows a b \<Longrightarrow> grows b c \<Longrightarrow> grows a c"
    and rb_self: "rb d d = d"
    and rb_grows: "grows a b \<Longrightarrow> grows a (rb a b)"
begin

lemma tx_outcome:
  assumes "steps grows m" and "transaction rb e m s = (r, t)"
  obtains (undone) d e' where "r = Inl e'" and "grows (data s) d" and "data t = rb (data s) d"
  | (committed) u x v where "m u = (Inr x, v)" and "data u = data s" and "data t = data v"
      and "r = Inr x \<or> r = Inl e"
proof (cases "query e (\<lambda>_. ()) s")
  case (Pair q s1)
  then have s1: "data s1 = data s"
    by (metis query_data snd_conv)
  show ?thesis
  proof (cases q)
    case (Inl e')
    with Pair assms(2) have "r = Inl e'" and "t = s1" by (simp_all add: transaction_def)
    with s1 show ?thesis by (intro undone [of e' "data s"]) (simp_all add: rb_self grows_refl)
  next
    case (Inr b)
    obtain p v where v: "m s1 = (p, v)" by fastforce
    then have grown: "grows (data s) (data v)" using assms(1) s1 by (metis stepsD)
    show ?thesis
    proof (cases p)
      case (Inl e')
      with Pair Inr v s1 assms(2) grown show ?thesis
        by (intro undone [of e' "data v"]) (auto simp: transaction_def)
    next
      case p: (Inr x)
      show ?thesis
      proof (cases "next_fault v = Lost_before")
        case True
        with Pair Inr v p s1 assms(2) grown show ?thesis
          by (intro undone [of e "data v"]) (auto simp: transaction_def)
      next
        case False
        with Pair Inr v p s1 assms(2) show ?thesis
          by (intro committed [of s1 x v]) (auto simp: transaction_def split: fault.splits)
      qed
    qed
  qed
qed

lemma tx_keeps:
  assumes body: "\<And>u x v. I (data u) \<Longrightarrow> m u = (Inr x, v) \<Longrightarrow> I (data v)"
    and undo: "\<And>a b. I a \<Longrightarrow> grows a b \<Longrightarrow> I (rb a b)"
    and "steps grows m"
  shows "keeps I (transaction rb e m)"
  unfolding keeps_def
proof (intro allI impI)
  fix s :: "'d conn" assume I: "I (data s)"
  obtain r t where rt: "transaction rb e m s = (r, t)" by fastforce
  with \<open>steps grows m\<close> show "I (data (snd (transaction rb e m s)))"
  proof (cases rule: tx_outcome)
    case (undone d e')
    with I undo rt show ?thesis by simp
  next
    case (committed u x v)
    with I body [of u x v] rt show ?thesis by simp
  qed
qed

lemma tx_steps: "steps grows m \<Longrightarrow> steps grows (transaction rb e m)"
  unfolding steps_def [of grows "transaction rb e m"]
proof
  fix s :: "'d conn" assume m: "steps grows m"
  obtain r t where rt: "transaction rb e m s = (r, t)" by fastforce
  with m show "grows (data s) (data (snd (transaction rb e m s)))"
    by (cases rule: tx_outcome) (use m rt rb_grows in \<open>auto dest: stepsD\<close>)
qed

lemma grows_ret [intro, simp]: "steps grows (retE x)"
  by (rule steps_ret) (rule grows_refl)

lemma grows_fail [intro, simp]: "steps grows (failE e)"
  by (rule steps_fail) (rule grows_refl)

lemma grows_query [intro, simp]: "steps grows (query e f)"
  by (rule steps_query) (rule grows_refl)

lemma grows_bind [intro]: "steps grows m \<Longrightarrow> (\<And>x. steps grows (f x)) \<Longrightarrow> steps grows (bindE m f)"
  by (rule steps_bind) (auto intro: grows_trans)

lemma grows_then [intro]: "steps grows m \<Longrightarrow> steps grows n \<Longrightarrow> steps grows (thenE m n)"
  unfolding thenE_def by (rule grows_bind)

lemma grows_guard [intro]: "(\<not> b \<Longrightarrow> steps grows m) \<Longrightarrow> steps grows (guardE b e m)"
  by (simp add: guardE_def)

lemma grows_exec [intro]: "(\<And>d. grows d (f d)) \<Longrightarrow> steps grows (exec e f)"
  by (rule steps_exec) (auto intro: grows_refl)

lemma grows_exec_opt [intro]: "(\<And>d d'. f d = Some d' \<Longrightarrow> grows d d') \<Longrightarrow> steps grows (exec_opt e f)"
  unfolding exec_opt_def by (rule steps_sql) (auto intro: grows_refl)

lemma grows_query_row [intro, simp]: "steps grows (query_row e n f)"
  unfolding query_row_def by (rule grows_bind) (auto split: option.split)

lemma grows_sql [intro]: "(\<And>d x d'. f d = Some (x, d') \<Longrightarrow> grows d d') \<Longrightarrow> steps grows (sql e f)"
  by (rule steps_sql) (auto intro: grows_refl)

end

section \<open>The interface of a repository\<close>

text \<open>
  A repository runs operations against its database; its contract is an abstract state and
  an abstract step for every operation. Whatever the connection does, an operation either
  leaves the abstract state alone and reports an error, or performs its step (and may still
  report an error, when the reply of the commit was lost). What a client concludes for any
  history of operations is proved here once.
\<close>

primrec run_ops :: "('op \<Rightarrow> ('d conn, 'e, 'a) prog) \<Rightarrow> 'op list \<Rightarrow> 'd conn \<Rightarrow> 'd conn" where
  "run_ops p [] s = s"
| "run_ops p (x # xs) s = run_ops p xs (snd (p x s))"

locale repository =
  fixes inv :: "'d \<Rightarrow> bool"
    and abs :: "'d \<Rightarrow> 'l"
    and prg :: "'op \<Rightarrow> ('d conn, 'e, 'a) prog"
    and step :: "'op \<Rightarrow> 'l \<Rightarrow> 'l \<Rightarrow> bool"
  assumes simulates: "inv (data s) \<Longrightarrow> prg x s = (r, t) \<Longrightarrow>
      inv (data t) \<and>
      (abs (data t) = abs (data s) \<and> (\<exists>e. r = Inl e) \<or> step x (abs (data s)) (abs (data t)))"
begin

lemma run_inv: "inv (data s) \<Longrightarrow> inv (data (run_ops prg xs s))"
proof (induction xs arbitrary: s)
  case (Cons x xs)
  obtain r t where "prg x s = (r, t)" by fastforce
  with Cons simulates [of s x r t] show ?case by simp
qed simp

lemma run_steps:
  "inv (data s) \<Longrightarrow> (\<lambda>a b. \<exists>x \<in> set xs. step x a b)\<^sup>*\<^sup>* (abs (data s)) (abs (data (run_ops prg xs s)))"
proof (induction xs arbitrary: s)
  case (Cons x xs)
  obtain r t where t: "prg x s = (r, t)" by fastforce
  let ?R = "\<lambda>a b. \<exists>y \<in> set (x # xs). step y a b"
  from simulates [OF Cons.prems t] have inv: "inv (data t)" and
    first: "?R\<^sup>*\<^sup>* (abs (data s)) (abs (data t))" by auto
  have "?R\<^sup>*\<^sup>* (abs (data t)) (abs (data (run_ops prg xs t)))"
    by (rule rtranclp_mono [THEN predicate2D, OF _ Cons.IH [OF inv]]) auto
  with first have "?R\<^sup>*\<^sup>* (abs (data s)) (abs (data (run_ops prg xs t)))" by (rule rtranclp_trans)
  with t show ?case by simp
qed simp

lemma run_abstract_inv:
  assumes "inv (data s)" and "J (abs (data s))" and "\<And>x a b. J a \<Longrightarrow> step x a b \<Longrightarrow> J b"
  shows "J (abs (data (run_ops prg xs s)))"
proof -
  from run_steps [OF assms(1)]
  show ?thesis by (induction rule: rtranclp_induct) (use assms in blast)+
qed

end

section \<open>Pre- and postconditions\<close>

text \<open>\<open>spec P m Q E\<close>: from a state with \<open>P\<close>, a value comes with \<open>Q\<close> and an error with \<open>E\<close>.\<close>

definition spec :: "('s \<Rightarrow> bool) \<Rightarrow> ('s, 'e, 'a) prog \<Rightarrow> ('a \<Rightarrow> 's \<Rightarrow> bool) \<Rightarrow> ('s \<Rightarrow> bool) \<Rightarrow> bool" where
  "spec P m Q E \<longleftrightarrow>
     (\<forall>s. P s \<longrightarrow> (case m s of (Inl e, t) \<Rightarrow> E t | (Inr x, t) \<Rightarrow> Q x t))"

lemma specI:
  "(\<And>s x t. P s \<Longrightarrow> m s = (Inr x, t) \<Longrightarrow> Q x t) \<Longrightarrow> (\<And>s e t. P s \<Longrightarrow> m s = (Inl e, t) \<Longrightarrow> E t) \<Longrightarrow>
   spec P m Q E"
  by (auto simp: spec_def split: prod.splits sum.splits)

lemma specD: "spec P m Q E \<Longrightarrow> P s \<Longrightarrow> m s = (r, t) \<Longrightarrow> case r of Inl _ \<Rightarrow> E t | Inr x \<Rightarrow> Q x t"
  by (auto simp: spec_def split: sum.splits)

lemma spec_conseq:
  "spec P' m Q' E' \<Longrightarrow> (\<And>s. P s \<Longrightarrow> P' s) \<Longrightarrow> (\<And>x t. Q' x t \<Longrightarrow> Q x t) \<Longrightarrow> (\<And>t. E' t \<Longrightarrow> E t) \<Longrightarrow> spec P m Q E"
  by (fastforce simp: spec_def split: prod.splits sum.splits)

lemma spec_ret: "(\<And>s. P s \<Longrightarrow> Q x s) \<Longrightarrow> spec P (retE x) Q E"
  by (simp add: spec_def retE_def)

lemma spec_fail: "(\<And>s. P s \<Longrightarrow> E s) \<Longrightarrow> spec P (failE e) Q E"
  by (simp add: spec_def failE_def)

lemma spec_bind: "spec P m R E \<Longrightarrow> (\<And>x. spec (R x) (f x) Q E) \<Longrightarrow> spec P (bindE m f) Q E"
  by (fastforce simp: spec_def bindE_def split: prod.splits sum.splits)

lemma spec_then: "spec P m (\<lambda>_. R) E \<Longrightarrow> spec R n Q E \<Longrightarrow> spec P (thenE m n) Q E"
  unfolding thenE_def by (rule spec_bind)

lemma spec_guard: "(\<And>s. P s \<Longrightarrow> E s) \<Longrightarrow> (\<not> b \<Longrightarrow> spec P m Q E) \<Longrightarrow> spec P (guardE b e m) Q E"
  by (simp add: guardE_def spec_fail)

lemma spec_try:
  assumes m: "spec P m (\<lambda>x. Q (Inr x)) (\<lambda>s. \<forall>e. Q (Inl e) s)"
  shows "spec P (tryE m) Q E"
proof (rule specI)
  fix s r t assume "P s" and "tryE m s = (Inr r, t)"
  with specD [OF m, of s r t] show "Q r t" by (cases r) (auto simp: tryE_Inr)
qed (simp add: tryE_def split: prod.splits)

lemma spec_pre: "(\<And>s. P s \<Longrightarrow> b) \<Longrightarrow> (b \<Longrightarrow> spec P m Q E) \<Longrightarrow> spec P m Q E"
  by (auto simp: spec_def)

section \<open>Tables\<close>

text \<open>
  A table is the list of its rows in the order the engine scans them; every theorem holds
  for any such order. \<open>UPDATE .. WHERE\<close>, \<open>DELETE .. WHERE\<close> and sums over a table:
\<close>

definition upd_where :: "('r \<Rightarrow> bool) \<Rightarrow> ('r \<Rightarrow> 'r) \<Rightarrow> 'r list \<Rightarrow> 'r list" where
  "upd_where p f t = map (\<lambda>r. if p r then f r else r) t"

definition del_where :: "('r \<Rightarrow> bool) \<Rightarrow> 'r list \<Rightarrow> 'r list" where
  "del_where p t = filter (\<lambda>r. \<not> p r) t"

definition tsum :: "('r \<Rightarrow> int) \<Rightarrow> 'r list \<Rightarrow> int" where
  "tsum g t = sum_list (map g t)"

definition uniq :: "('r \<Rightarrow> 'k) \<Rightarrow> 'r list \<Rightarrow> bool" where
  "uniq key t \<longleftrightarrow> distinct (map key t)"

text \<open>
  An update or insert under a \<open>CHECK\<close> constraint or a column range: refused as a whole when a
  row it writes violates it.
\<close>

definition upd_checked ::
    "('r \<Rightarrow> bool) \<Rightarrow> ('r \<Rightarrow> bool) \<Rightarrow> ('r \<Rightarrow> 'r) \<Rightarrow> 'r list \<Rightarrow> 'r list option" where
  "upd_checked chk p f t =
     (if list_all (\<lambda>r. p r \<longrightarrow> chk (f r)) t then Some (upd_where p f t) else None)"

definition ins_checked :: "('r \<Rightarrow> bool) \<Rightarrow> 'r \<Rightarrow> 'r list \<Rightarrow> 'r list option" where
  "ins_checked chk r t = (if chk r then Some (t @ [r]) else None)"

lemma upd_checked_Some:
  "upd_checked chk p f t = Some u \<longleftrightarrow>
     (\<forall>r \<in> set t. p r \<longrightarrow> chk (f r)) \<and> u = upd_where p f t"
  by (auto simp: upd_checked_def list_all_iff)

lemma ins_checked_Some: "ins_checked chk r t = Some u \<longleftrightarrow> chk r \<and> u = t @ [r]"
  by (auto simp: ins_checked_def)

lemma tsum_simps [simp]:
  "tsum g [] = 0" "tsum g (r # t) = g r + tsum g t" "tsum g (t @ u) = tsum g t + tsum g u"
  by (simp_all add: tsum_def)

lemma tsum_nonneg: "(\<And>r. r \<in> set t \<Longrightarrow> 0 \<le> g r) \<Longrightarrow> 0 \<le> tsum g t"
  by (induction t) auto

lemma tsum_ge: "r \<in> set t \<Longrightarrow> (\<And>q. q \<in> set t \<Longrightarrow> 0 \<le> g q) \<Longrightarrow> g r \<le> tsum g t"
proof (induction t)
  case (Cons a t)
  then show ?case using tsum_nonneg [of t g] by (fastforce)
qed simp

lemma tsum_cong: "(\<And>r. r \<in> set t \<Longrightarrow> g r = h r) \<Longrightarrow> tsum g t = tsum h t"
  by (induction t) auto

lemma tsum_zero: "(\<And>r. r \<in> set t \<Longrightarrow> g r = 0) \<Longrightarrow> tsum g t = 0"
  by (induction t) auto

lemma uniq_simps [simp]:
  "uniq key []" "uniq key (r # t) \<longleftrightarrow> key r \<notin> key ` set t \<and> uniq key t"
  "uniq key (t @ [r]) \<longleftrightarrow> key r \<notin> key ` set t \<and> uniq key t"
  by (auto simp: uniq_def)

lemma upd_where_simps [simp]:
  "upd_where p f [] = []"
  "upd_where p f (r # t) = (if p r then f r else r) # upd_where p f t"
  by (simp_all add: upd_where_def)

lemma upd_where_none: "(\<And>r. r \<in> set t \<Longrightarrow> \<not> p r) \<Longrightarrow> upd_where p f t = t"
  by (induction t) auto

lemma del_where_none: "(\<And>r. r \<in> set t \<Longrightarrow> \<not> p r) \<Longrightarrow> del_where p t = t"
  by (simp add: del_where_def)

lemma set_del_where [simp]: "set (del_where p t) = {r \<in> set t. \<not> p r}"
  by (auto simp: del_where_def)

lemma set_upd_where: "set (upd_where p f t) = (\<lambda>r. if p r then f r else r) ` set t"
  by (simp add: upd_where_def)

lemma in_upd_where: "r \<in> set t \<Longrightarrow> p r \<Longrightarrow> f r \<in> set (upd_where p f t)"
  by (auto simp: set_upd_where intro: rev_image_eqI)

lemma upd_where_all:
  "(\<And>r. r \<in> set t \<Longrightarrow> p r \<Longrightarrow> P r \<Longrightarrow> P (f r)) \<Longrightarrow> (\<forall>r \<in> set t. P r) \<Longrightarrow>
   (\<forall>r \<in> set (upd_where p f t). P r)"
  by (auto simp: set_upd_where)

lemma length_upd_where [simp]: "length (upd_where p f t) = length t"
  by (simp add: upd_where_def)

lemma keys_upd_where: "(\<And>r. p r \<Longrightarrow> key (f r) = key r) \<Longrightarrow> map key (upd_where p f t) = map key t"
  by (induction t) auto

lemma uniq_upd_where: "(\<And>r. p r \<Longrightarrow> key (f r) = key r) \<Longrightarrow> uniq key (upd_where p f t) = uniq key t"
  by (simp add: uniq_def keys_upd_where)

lemma uniq_del_where: "uniq key t \<Longrightarrow> uniq key (del_where p t)"
  by (simp add: uniq_def del_where_def distinct_map_filter)

lemma uniq_the_row:
  "uniq key t \<Longrightarrow> r \<in> set t \<Longrightarrow> q \<in> set t \<Longrightarrow> key r = key q \<Longrightarrow> r = q"
  by (auto simp: uniq_def distinct_map dest: inj_onD)

lemma tsum_upd_row:
  assumes "uniq key t" and "r \<in> set t"
  shows "tsum g (upd_where (\<lambda>q. key q = key r) f t) = tsum g t - g r + g (f r)"
  using assms
proof (induction t)
  case (Cons a t)
  show ?case
  proof (cases "a = r")
    case True
    with Cons.prems have "key r \<notin> key ` set t" by simp
    then have "upd_where (\<lambda>q. key q = key r) f t = t"
      by (intro upd_where_none) (metis imageI)
    with True show ?thesis by simp
  next
    case False
    with Cons.prems have "key a \<noteq> key r" and "r \<in> set t" by auto
    with Cons show ?thesis by simp
  qed
qed simp

lemma tsum_del_row:
  assumes "uniq key t" and "r \<in> set t"
  shows "tsum g (del_where (\<lambda>q. key q = key r) t) = tsum g t - g r"
  using assms
proof (induction t)
  case (Cons a t)
  show ?case
  proof (cases "a = r")
    case True
    with Cons.prems have "key r \<notin> key ` set t" by simp
    then have "del_where (\<lambda>q. key q = key r) t = t"
      by (intro del_where_none) (metis imageI)
    with True show ?thesis by (simp add: del_where_def)
  next
    case False
    with Cons.prems have "key a \<noteq> key r" and "r \<in> set t" by auto
    with Cons show ?thesis by (simp add: del_where_def)
  qed
qed simp

text \<open>Two sums that differ in one row only.\<close>

lemma tsum_one_row:
  assumes "uniq key t" and "r \<in> set t" and "\<And>q. q \<in> set t \<Longrightarrow> key q \<noteq> key r \<Longrightarrow> h q = g q"
  shows "tsum h t = tsum g t - g r + h r"
  using assms
proof (induction t)
  case (Cons a t)
  show ?case
  proof (cases "a = r")
    case True
    with Cons.prems have "tsum h t = tsum g t"
      by (intro tsum_cong) (metis imageI list.set_intros(2) uniq_simps(2))
    with True show ?thesis by simp
  next
    case False
    with Cons.prems have "key a \<noteq> key r" "r \<in> set t" by auto
    with Cons show ?thesis by simp
  qed
qed simp

lemma find_key_Some:
  "find (\<lambda>r. key r = k) t = Some r \<Longrightarrow> r \<in> set t \<and> key r = k"
  by (auto simp: find_Some_iff)

lemma find_key_None: "find (\<lambda>r. key r = k) t = None \<longleftrightarrow> k \<notin> key ` set t"
  by (auto simp: find_None_iff)

lemma find_key_uniq: "uniq key t \<Longrightarrow> r \<in> set t \<Longrightarrow> find (\<lambda>q. key q = key r) t = Some r"
  by (induction t) auto

lemma find_upd_row:
  "(\<And>r. key (f r) = key r) \<Longrightarrow>
   find (\<lambda>r. key r = k) (upd_where (\<lambda>r. key r = j) f t) =
     (if k = j then map_option f (find (\<lambda>r. key r = k) t) else find (\<lambda>r. key r = k) t)"
  by (induction t) auto

lemma find_del_row:
  "find (\<lambda>r. key r = k) (del_where (\<lambda>r. key r = j) t) =
     (if k = j then None else find (\<lambda>r. key r = k) t)"
  by (induction t) (auto simp: del_where_def)

lemma find_append: "find p (t @ u) = (case find p t of None \<Rightarrow> find p u | Some r \<Rightarrow> Some r)"
  by (induction t) auto

text \<open>\<open>ORDER BY .. LIMIT 1\<close>: the head of the sorted rows.\<close>

lemma sort_key_hd: "sort_key f xs = y # ys \<Longrightarrow> y \<in> set xs \<and> (\<forall>x \<in> set xs. f y \<le> f x)"
  by (metis list.set_intros(1) set_ConsD set_sort sorted_sort_key sorted_simps(2) order_refl list.simps(9) image_eqI list.set_map)

lemma filter_hd: "filter P xs = y # ys \<Longrightarrow> y \<in> set xs \<and> P y"
  by (auto simp: filter_eq_Cons_iff)

lemma length_filter_del_where: "length (filter p (del_where q t)) \<le> length (filter p t)"
  by (induction t) (auto simp: del_where_def)

section \<open>Statements on a connection without faults\<close>

lemma no_fault: "faults s = [] \<Longrightarrow> next_fault s = Fine" "faults s = [] \<Longrightarrow> pop_fault s = s"
  by (simp_all add: next_fault_def pop_fault_def)

lemma clean_sql: "faults s = [] \<Longrightarrow> f (data s) = Some (x, d) \<Longrightarrow> sql e f s = (Inr x, s\<lparr>data := d\<rparr>)"
  by (simp add: sql_def no_fault)

lemma clean_query: "faults s = [] \<Longrightarrow> query e f s = (Inr (f (data s)), s)"
  by (simp add: query_def clean_sql)

lemma clean_exec: "faults s = [] \<Longrightarrow> exec e f s = (Inr (), s\<lparr>data := f (data s)\<rparr>)"
  by (simp add: exec_def clean_sql)

lemma clean_exec_opt: "faults s = [] \<Longrightarrow> f (data s) = Some d \<Longrightarrow> exec_opt e f s = (Inr (), s\<lparr>data := d\<rparr>)"
  by (simp add: exec_opt_def clean_sql)

lemma clean_query_row: "faults s = [] \<Longrightarrow> f (data s) = Some x \<Longrightarrow> query_row e n f s = (Inr x, s)"
  by (simp add: query_row_def bindE_def clean_query retE_def)

text \<open>\<open>returns m s t\<close>: the program returns, without faults left over.\<close>

definition returns :: "('d conn, 'e, 'a) prog \<Rightarrow> 'd conn \<Rightarrow> 'a \<Rightarrow> 'd conn \<Rightarrow> bool" where
  "returns m s x t \<longleftrightarrow> m s = (Inr x, t) \<and> faults t = []"

lemma returns_bind: "returns m s x u \<Longrightarrow> returns (f x) u y t \<Longrightarrow> returns (bindE m f) s y t"
  by (simp add: returns_def bindE_def)

lemma returns_then: "returns m s () u \<Longrightarrow> returns n u y t \<Longrightarrow> returns (thenE m n) s y t"
  unfolding thenE_def by (rule returns_bind)

lemma returns_tx:
  assumes "faults s = []" and "returns m s x t"
  shows "transaction rb e m s = (Inr x, t)"
  using assms by (simp add: transaction_def clean_query returns_def no_fault)

end
