(* ===== verification/Currency_Domain.thy ===== *)
theory Currency_Domain
  imports Prelude
begin

text \<open>
  The balance arithmetic of \<open>internal/features/account/domain/currency.go\<close>: zeny is an
  \<open>int64\<close>, cashpoints are a Go \<open>int\<close> (64 bits) kept within \<open>math.MaxInt32\<close>. Additions and
  subtractions are written with the wrap-around Go gives them; the lemmas show that the
  guards keep every result in range, so that the wrap-around never happens.
\<close>

datatype currency_error =
    ErrInsufficientBalance | ErrCurrencyInvalidAmount | ErrAmountOverflow
  | ErrWithdrawLocked | ErrDepositLocked | ErrBridgeUnavailable

record balance =
  bal_AccountID :: int
  bal_Zeny :: int
  bal_Cashpoint :: int

definition AddZeny :: "int \<Rightarrow> int \<Rightarrow> currency_error + int" where
  "AddZeny current delta =
     (if delta < 0 then Inl ErrCurrencyInvalidAmount
      else if current > wrap64 (max_int64 - delta) then Inl ErrAmountOverflow
      else Inr (wrap64 (current + delta)))"

definition AddCashpoint :: "int \<Rightarrow> int \<Rightarrow> currency_error + int" where
  "AddCashpoint current delta =
     (if delta < 0 then Inl ErrCurrencyInvalidAmount
      else if current > wrap64 (max_int32 - delta) then Inl ErrAmountOverflow
      else Inr (wrap64 (current + delta)))"

definition AddZenyCapped :: "int \<Rightarrow> int \<Rightarrow> int" where
  "AddZenyCapped current delta =
     (if delta \<le> 0 then current
      else if current > wrap64 (max_int64 - delta) then max_int64
      else wrap64 (current + delta))"

definition AddCashpointCapped :: "int \<Rightarrow> int \<Rightarrow> int" where
  "AddCashpointCapped current delta =
     (if delta \<le> 0 then current
      else if current > wrap64 (max_int32 - delta) then max_int32
      else wrap64 (current + delta))"

definition SubZeny :: "int \<Rightarrow> int \<Rightarrow> currency_error + int" where
  "SubZeny current delta =
     (if delta < 0 then Inl ErrCurrencyInvalidAmount
      else if delta > current then Inl ErrInsufficientBalance
      else Inr (wrap64 (current - delta)))"

definition SubCashpoint :: "int \<Rightarrow> int \<Rightarrow> currency_error + int" where
  "SubCashpoint current delta =
     (if delta < 0 then Inl ErrCurrencyInvalidAmount
      else if delta > current then Inl ErrInsufficientBalance
      else Inr (wrap64 (current - delta)))"

definition AddBalance :: "int \<Rightarrow> int \<Rightarrow> int \<Rightarrow> int \<Rightarrow> currency_error + (int \<times> int)" where
  "AddBalance currentZeny deltaZeny currentCashpoint deltaCashpoint =
     (case AddZeny currentZeny deltaZeny of
        Inl err \<Rightarrow> Inl err
      | Inr newZeny \<Rightarrow>
          (case AddCashpoint currentCashpoint deltaCashpoint of
             Inl err \<Rightarrow> Inl err
           | Inr newCashpoint \<Rightarrow> Inr (newZeny, newCashpoint)))"

definition SubBalance :: "int \<Rightarrow> int \<Rightarrow> int \<Rightarrow> int \<Rightarrow> currency_error + (int \<times> int)" where
  "SubBalance currentZeny deltaZeny currentCashpoint deltaCashpoint =
     (case SubZeny currentZeny deltaZeny of
        Inl err \<Rightarrow> Inl err
      | Inr newZeny \<Rightarrow>
          (case SubCashpoint currentCashpoint deltaCashpoint of
             Inl err \<Rightarrow> Inl err
           | Inr newCashpoint \<Rightarrow> Inr (newZeny, newCashpoint)))"

text \<open>The ranges a stored balance stays in, and the range of the Go types.\<close>

definition zeny_ok :: "int \<Rightarrow> bool" where
  "zeny_ok z \<longleftrightarrow> 0 \<le> z \<and> z \<le> max_int64"

definition cash_ok :: "int \<Rightarrow> bool" where
  "cash_ok c \<longleftrightarrow> 0 \<le> c \<and> c \<le> max_int32"

definition is_int64 :: "int \<Rightarrow> bool" where
  "is_int64 x \<longleftrightarrow> - (2 ^ 63) \<le> x \<and> x < 2 ^ 63"

lemmas amount_defs = zeny_ok_def cash_ok_def is_int64_def max_int64_def max_int32_def

lemma wrap64_int64: "is_int64 x \<Longrightarrow> wrap64 x = x"
  by (simp add: is_int64_def wrap64_id)

lemma AddZeny_ok:
  "zeny_ok c \<Longrightarrow> is_int64 d \<Longrightarrow>
   AddZeny c d = (if d < 0 then Inl ErrCurrencyInvalidAmount
                  else if c + d > max_int64 then Inl ErrAmountOverflow else Inr (c + d))"
  by (auto simp: AddZeny_def amount_defs wrap64_id)

lemma AddCashpoint_ok:
  "cash_ok c \<Longrightarrow> is_int64 d \<Longrightarrow>
   AddCashpoint c d = (if d < 0 then Inl ErrCurrencyInvalidAmount
                       else if c + d > max_int32 then Inl ErrAmountOverflow else Inr (c + d))"
  by (auto simp: AddCashpoint_def amount_defs wrap64_id)

lemma AddZenyCapped_ok:
  "zeny_ok c \<Longrightarrow> is_int64 d \<Longrightarrow> AddZenyCapped c d = min max_int64 (c + max 0 d)"
  by (auto simp: AddZenyCapped_def amount_defs wrap64_id)

lemma AddCashpointCapped_ok:
  "cash_ok c \<Longrightarrow> is_int64 d \<Longrightarrow> AddCashpointCapped c d = min max_int32 (c + max 0 d)"
  by (auto simp: AddCashpointCapped_def amount_defs wrap64_id)

lemma SubZeny_ok:
  "zeny_ok c \<Longrightarrow>
   SubZeny c d = (if d < 0 then Inl ErrCurrencyInvalidAmount
                  else if d > c then Inl ErrInsufficientBalance else Inr (c - d))"
  by (auto simp: SubZeny_def amount_defs wrap64_id)

lemma SubCashpoint_ok:
  "cash_ok c \<Longrightarrow>
   SubCashpoint c d = (if d < 0 then Inl ErrCurrencyInvalidAmount
                       else if d > c then Inl ErrInsufficientBalance else Inr (c - d))"
  by (auto simp: SubCashpoint_def amount_defs wrap64_id)

lemma AddBalance_Inr:
  "AddBalance z dz c dc = Inr (z', c') \<Longrightarrow> zeny_ok z \<Longrightarrow> cash_ok c \<Longrightarrow> is_int64 dz \<Longrightarrow> is_int64 dc \<Longrightarrow>
   z' = z + dz \<and> c' = c + dc \<and> 0 \<le> dz \<and> 0 \<le> dc \<and> zeny_ok z' \<and> cash_ok c'"
  by (auto simp: AddBalance_def AddZeny_ok AddCashpoint_ok zeny_ok_def cash_ok_def
      split: sum.splits if_splits)

lemma SubBalance_Inr:
  "SubBalance z dz c dc = Inr (z', c') \<Longrightarrow> zeny_ok z \<Longrightarrow> cash_ok c \<Longrightarrow>
   z' = z - dz \<and> c' = c - dc \<and> 0 \<le> dz \<and> 0 \<le> dc \<and> zeny_ok z' \<and> cash_ok c'"
  by (auto simp: SubBalance_def SubZeny_ok SubCashpoint_ok zeny_ok_def cash_ok_def
      split: sum.splits if_splits)

lemma capped_in_range:
  "zeny_ok z \<Longrightarrow> is_int64 d \<Longrightarrow> zeny_ok (AddZenyCapped z d)"
  "cash_ok c \<Longrightarrow> is_int64 d \<Longrightarrow> cash_ok (AddCashpointCapped c d)"
  by (auto simp: AddZenyCapped_ok AddCashpointCapped_ok amount_defs)

section \<open>The rows the currency workers exchange\<close>

record deposit_row =
  dep_ID :: int
  dep_AccountID :: int
  dep_Zeny :: int
  dep_Points :: int

record withdraw_request =
  wr_ID :: int
  wr_AccountID :: int
  wr_Zeny :: int
  wr_Cashpoint :: int

record delivered_withdraw =
  dw_ID :: int
  dw_DeliveredAt :: int
  dw_Zeny :: int
  dw_Points :: int

record deposit_record =
  dr_ProcessedAt :: int
  dr_DepositID :: int
  dr_AccountID :: int
  dr_Zeny :: int
  dr_Cashpoint :: int

record withdraw_record =
  wc_CreatedAt :: int
  wc_SentAt :: "int option"
  wc_DeliveredAt :: "int option"
  wc_ID :: int
  wc_AccountID :: int
  wc_Zeny :: int
  wc_Cashpoint :: int
  wc_Status :: int

end
