(* ===== verification/Market_Domain.thy ===== *)
theory Market_Domain
  imports Prelude
begin

text \<open>
  The pure types and rules of \<open>internal/features/market/domain\<close>: stash items and when they
  may be traded, stacked or merged; listings, the caps on scaled amounts and the fee policy;
  settlement legs. Go's fixed arrays are tuples.
\<close>

datatype market_error =
    ErrStorageUnlocked | ErrStashItemNotFound | ErrInsufficientStack | ErrStorageFull
  | ErrNotTradable | ErrNonStackable | ErrInsufficientFunds | ErrHoldNotFound | ErrSelfTrade
  | ErrInvalidSettlement | ErrInvalidAmount | ErrListingNotFound | ErrListingInactive
  | ErrInsufficientUnits | ErrWantMismatch | ErrItemBlacklisted | ErrInvalidOffer

section \<open>Stash items\<close>

definition DefaultMaxStorageSlots :: int where "DefaultMaxStorageSlots = 600"
definition DefaultMaxStackAmount :: int where "DefaultMaxStackAmount = 30000"

type_synonym arr4 = "int \<times> int \<times> int \<times> int"
type_synonym arr5 = "int \<times> int \<times> int \<times> int \<times> int"

definition zero4 :: arr4 where "zero4 = (0, 0, 0, 0)"
definition zero5 :: arr5 where "zero5 = (0, 0, 0, 0, 0)"

record stash_item =
  si_ID :: int
  si_UniqueID :: int
  si_ExpireTime :: int
  si_AccountID :: int
  si_NameID :: int
  si_Amount :: int
  si_Equip :: int
  si_Identify :: int
  si_Refine :: int
  si_Attribute :: int
  si_Bound :: int
  si_Grade :: int
  si_Card :: arr4
  si_OptionID :: arr5
  si_OptionVal :: arr5
  si_OptionParm :: arr5

definition empty_item :: stash_item where
  "empty_item = \<lparr>si_ID = 0, si_UniqueID = 0, si_ExpireTime = 0, si_AccountID = 0, si_NameID = 0,
     si_Amount = 0, si_Equip = 0, si_Identify = 0, si_Refine = 0, si_Attribute = 0, si_Bound = 0,
     si_Grade = 0, si_Card = zero4, si_OptionID = zero5, si_OptionVal = zero5, si_OptionParm = zero5\<rparr>"

definition IsTradable :: "stash_item \<Rightarrow> bool" where
  "IsTradable i \<longleftrightarrow> si_Bound i = 0 \<and> si_ExpireTime i = 0"

definition hasCards :: "stash_item \<Rightarrow> bool" where
  "hasCards i = (case si_Card i of (c0, c1, c2, c3) \<Rightarrow> c0 \<noteq> 0 \<or> c1 \<noteq> 0 \<or> c2 \<noteq> 0 \<or> c3 \<noteq> 0)"

definition any5 :: "arr5 \<Rightarrow> bool" where
  "any5 a = (case a of (a0, a1, a2, a3, a4) \<Rightarrow> a0 \<noteq> 0 \<or> a1 \<noteq> 0 \<or> a2 \<noteq> 0 \<or> a3 \<noteq> 0 \<or> a4 \<noteq> 0)"

definition hasOptions :: "stash_item \<Rightarrow> bool" where
  "hasOptions i \<longleftrightarrow> any5 (si_OptionID i) \<or> any5 (si_OptionVal i) \<or> any5 (si_OptionParm i)"

definition IsStackable :: "stash_item \<Rightarrow> bool" where
  "IsStackable i =
     (if si_Equip i \<noteq> 0 \<or> si_Refine i \<noteq> 0 \<or> si_Grade i \<noteq> 0 \<or> si_Bound i \<noteq> 0
         \<or> si_Attribute i \<noteq> 0 \<or> si_UniqueID i \<noteq> 0
      then False
      else \<not> hasCards i \<and> \<not> hasOptions i)"

definition Mergeable :: "stash_item \<Rightarrow> stash_item \<Rightarrow> bool" where
  "Mergeable i other \<longleftrightarrow> IsStackable i \<and> IsStackable other \<and>
     si_NameID i = si_NameID other \<and> si_Identify i = si_Identify other \<and>
     si_ExpireTime i = si_ExpireTime other"

record escrow_move =
  em_StashItemID :: int
  em_Amount :: int

section \<open>Listings, fees and settlement legs\<close>

definition KindSell :: int where "KindSell = 1"
definition KindBuy :: int where "KindBuy = 2"
definition StatusActive :: int where "StatusActive = 1"
definition StatusTaken :: int where "StatusTaken = 2"
definition StatusCancelled :: int where "StatusCancelled = 3"
definition StatusExpired :: int where "StatusExpired = 4"
definition MaxTransferZeny :: int where "MaxTransferZeny = 1000000000000"

lemmas market_consts = KindSell_def KindBuy_def StatusActive_def StatusTaken_def
  StatusCancelled_def StatusExpired_def

record want_spec =
  ws_NameID :: int
  ws_UnitAmount :: int

definition want_Matches :: "want_spec \<Rightarrow> stash_item \<Rightarrow> int \<Rightarrow> bool" where
  "want_Matches s item neededAmount =
     (if ws_NameID s \<noteq> si_NameID item then False else si_Amount item \<ge> neededAmount)"

record listing =
  li_CreatedAt :: int
  li_ExpiresAt :: int
  li_GiveHoldID :: "int option"
  li_ID :: int
  li_GiveZeny :: int
  li_WantZeny :: int
  li_SellerAccountID :: int
  li_Kind :: int
  li_Status :: int
  li_GiveNameID :: int
  li_GiveRefine :: int
  li_GiveGrade :: int
  li_GiveUnitAmount :: int
  li_GiveCashpoint :: int
  li_WantNameID :: int
  li_WantUnitAmount :: int
  li_WantCashpoint :: int
  li_TotalQuantity :: int
  li_RemainingQuantity :: int
  li_GiveCard :: arr4
  li_GiveItem :: bool
  li_Stackable :: bool

definition listing_WantSpec :: "listing \<Rightarrow> want_spec" where
  "listing_WantSpec l = \<lparr>ws_NameID = li_WantNameID l, ws_UnitAmount = li_WantUnitAmount l\<rparr>"

record fee_policy =
  fee_Bps :: int
  fee_FlatZeny :: int

definition DefaultFeePolicy :: fee_policy where
  "DefaultFeePolicy = \<lparr>fee_Bps = 200, fee_FlatZeny = 1000\<rparr>"

definition NetZeny :: "fee_policy \<Rightarrow> int \<Rightarrow> int" where
  "NetZeny p gross = wrap64 (gross - go_div (wrap64 (gross * fee_Bps p)) 10000)"

definition NetCashpoint :: "fee_policy \<Rightarrow> int \<Rightarrow> int" where
  "NetCashpoint p gross = wrap64 (gross - go_div (wrap64 (gross * fee_Bps p)) 10000)"

definition ScaledZenyWithinCap :: "int \<Rightarrow> int \<Rightarrow> bool" where
  "ScaledZenyWithinCap unit quantity =
     (if unit < 0 \<or> quantity < 0 then False
      else if unit = 0 \<or> quantity = 0 then True
      else quantity \<le> go_div MaxTransferZeny unit)"

definition ScaledCashpointWithinCap :: "int \<Rightarrow> int \<Rightarrow> bool" where
  "ScaledCashpointWithinCap unit quantity =
     (if unit < 0 \<or> quantity < 0 then False
      else if unit = 0 \<or> quantity = 0 then True
      else quantity \<le> go_div max_int32 unit)"

record settlement_leg =
  leg_ID :: int
  leg_ListingID :: int
  leg_EscrowRef :: int
  leg_RecipientAccountID :: int
  leg_DeliverAmount :: int
  leg_Whole :: bool

section \<open>Facts about the rules\<close>

lemma ScaledZeny_bound:
  assumes "ScaledZenyWithinCap u q"
  shows "0 \<le> u \<and> 0 \<le> q \<and> u * q \<le> MaxTransferZeny"
proof -
  from assms have sg: "0 \<le> u" "0 \<le> q" by (auto simp: ScaledZenyWithinCap_def split: if_splits)
  show ?thesis
  proof (cases "u = 0 \<or> q = 0")
    case True
    with sg show ?thesis by (auto simp: MaxTransferZeny_def)
  next
    case False
    with sg assms have "u * q \<le> MaxTransferZeny"
      by (intro le_go_div_mult) (auto simp: ScaledZenyWithinCap_def MaxTransferZeny_def split: if_splits)
    with sg show ?thesis by simp
  qed
qed

lemma ScaledCashpoint_bound:
  assumes "ScaledCashpointWithinCap u q"
  shows "0 \<le> u \<and> 0 \<le> q \<and> u * q \<le> max_int32"
proof -
  from assms have sg: "0 \<le> u" "0 \<le> q" by (auto simp: ScaledCashpointWithinCap_def split: if_splits)
  show ?thesis
  proof (cases "u = 0 \<or> q = 0")
    case True
    with sg show ?thesis by (auto simp: max_int32_def)
  next
    case False
    with sg assms have "u * q \<le> max_int32"
      by (intro le_go_div_mult) (auto simp: ScaledCashpointWithinCap_def max_int32_def split: if_splits)
    with sg show ?thesis by simp
  qed
qed

text \<open>A guard of the scaled caps is exact: it accepts just the products within the cap.\<close>

lemma le_go_div_iff: "0 < u \<Longrightarrow> 0 \<le> c \<Longrightarrow> q \<le> go_div c u \<longleftrightarrow> u * q \<le> c"
proof
  assume u: "0 < u" and c: "0 \<le> c"
  show "u * q \<le> c" if "q \<le> go_div c u" using le_go_div_mult u c that .
  show "q \<le> go_div c u" if "u * q \<le> c"
  proof -
    have "q = (u * q) div u" using u by simp
    also have "\<dots> \<le> c div u" using u that by (intro zdiv_mono1)
    finally show ?thesis using u c by (simp add: go_div_nonneg)
  qed
qed

lemma fee_split:
  assumes "0 \<le> fee_Bps p" and "fee_Bps p \<le> 10000" and "0 \<le> g" and "g \<le> MaxTransferZeny"
  shows "NetZeny p g = g - g * fee_Bps p div 10000 \<and> 0 \<le> NetZeny p g \<and> NetZeny p g \<le> g"
proof -
  let ?b = "fee_Bps p"
  have nn: "0 \<le> g * ?b" using assms by simp
  have "g * ?b \<le> g * 10000" using assms by (intro mult_left_mono) auto
  moreover have "g * 10000 \<le> MaxTransferZeny * 10000" using assms by simp
  ultimately have up: "g * ?b \<le> 10000 * g" "g * ?b \<le> 10000000000000000"
    by (simp_all add: MaxTransferZeny_def)
  have w: "wrap64 (g * ?b) = g * ?b" using nn up by (intro wrap64_id) auto
  have d: "go_div (g * ?b) 10000 = g * ?b div 10000" using nn by (simp add: go_div_nonneg)
  have fee: "0 \<le> g * ?b div 10000" "g * ?b div 10000 \<le> g" using nn up by auto
  have "wrap64 (g - g * ?b div 10000) = g - g * ?b div 10000"
    using fee assms by (intro wrap64_id) (auto simp: MaxTransferZeny_def)
  then show ?thesis using fee by (simp add: NetZeny_def w d)
qed

lemma NetCashpoint_NetZeny: "NetCashpoint p g = NetZeny p g"
  by (simp add: NetCashpoint_def NetZeny_def)

lemma Mergeable_sym: "Mergeable i j = Mergeable j i"
  by (auto simp: Mergeable_def)

end
