(* ===== verification/Trade_Schema.thy ===== *)
theory Trade_Schema
  imports Currency_Domain Market_Domain
begin

text \<open>
  The two databases of the currency and the market features. Postgres owns the \<open>cp_\<close>
  tables of \<open>migrations/0010\<close>, \<open>0014\<close> and \<open>0015\<close>; MariaDB owns the bridge tables of
  \<open>ra-files/migration\<close>. A table is the list of its rows; column ranges and \<open>CHECK\<close>
  constraints are the \<open>_check\<close> predicates. Sequences and auto-increment counters survive a
  rollback, so they sit in a record of their own.
\<close>

datatype err = Sql | Currency currency_error | Market market_error

section \<open>Postgres\<close>

record currency_row =
  cu_account_id :: int
  cu_zeny :: int
  cu_cashpoint :: int
  cu_locked_until :: "int option"

record hold_row =
  ho_id :: int
  ho_account_id :: int
  ho_zeny :: int
  ho_cashpoint :: int

record settlement_row =
  se_leg :: settlement_leg
  se_status :: int

record pg_seqs =
  hold_seq :: int
  ref_seq :: int
  settle_seq :: int
  withdraw_seq :: int

record pgdb =
  cp_currency :: "currency_row list"
  cp_currency_hold :: "hold_row list"
  cp_listing :: "listing list"
  cp_settlement :: "settlement_row list"
  cp_deposit_processed :: "deposit_record list"
  cp_withdraw_requests :: "withdraw_record list"
  pg_clock :: int
  pg_seq :: pg_seqs

definition currency_check :: "currency_row \<Rightarrow> bool" where
  "currency_check r \<longleftrightarrow> zeny_ok (cu_zeny r) \<and> cash_ok (cu_cashpoint r)"

definition hold_check :: "hold_row \<Rightarrow> bool" where
  "hold_check r \<longleftrightarrow> zeny_ok (ho_zeny r) \<and> cash_ok (ho_cashpoint r)"

definition listing_check :: "listing \<Rightarrow> bool" where
  "listing_check l \<longleftrightarrow> 0 \<le> li_RemainingQuantity l \<and> li_RemainingQuantity l \<le> li_TotalQuantity l"

text \<open>The widths of the columns of \<open>cp_listing\<close>: a value that does not fit is refused on insert.\<close>

definition fits :: "nat \<Rightarrow> int \<Rightarrow> bool" where
  "fits w x \<longleftrightarrow> - (2 ^ (w - 1)) \<le> x \<and> x < 2 ^ (w - 1)"

definition listing_columns :: "listing \<Rightarrow> bool" where
  "listing_columns l \<longleftrightarrow>
     (case li_GiveCard l of (a, b, c, e) \<Rightarrow> list_all (fits 32) [a, b, c, e]) \<and>
     list_all (fits 16) [li_Kind l, li_Status l, li_GiveRefine l, li_GiveGrade l] \<and>
     list_all (fits 32) [li_SellerAccountID l, li_GiveNameID l, li_GiveUnitAmount l, li_GiveCashpoint l,
       li_WantNameID l, li_WantUnitAmount l, li_WantCashpoint l, li_TotalQuantity l, li_RemainingQuantity l] \<and>
     list_all (fits 64) [li_ID l, li_GiveZeny l, li_WantZeny l] \<and>
     (case li_GiveHoldID l of None \<Rightarrow> True | Some i \<Rightarrow> fits 64 i)"

definition withdraw_check :: "withdraw_record \<Rightarrow> bool" where
  "withdraw_check r \<longleftrightarrow> zeny_ok (wc_Zeny r) \<and> cash_ok (wc_Cashpoint r)"

definition pg_rb :: "pgdb \<Rightarrow> pgdb \<Rightarrow> pgdb" where
  "pg_rb d0 d1 = d0\<lparr>pg_seq := pg_seq d1\<rparr>"

definition pg_grows :: "pgdb \<Rightarrow> pgdb \<Rightarrow> bool" where
  "pg_grows d0 d1 \<longleftrightarrow>
     hold_seq (pg_seq d0) \<le> hold_seq (pg_seq d1) \<and> ref_seq (pg_seq d0) \<le> ref_seq (pg_seq d1) \<and>
     settle_seq (pg_seq d0) \<le> settle_seq (pg_seq d1) \<and>
     withdraw_seq (pg_seq d0) \<le> withdraw_seq (pg_seq d1)"

type_synonym 'a pg_prog = "(pgdb conn, err, 'a) prog"

definition pgTx :: "'a pg_prog \<Rightarrow> 'a pg_prog" where
  "pgTx m = transaction pg_rb Sql m"

interpretation pg: store pg_rb pg_grows
  by unfold_locales (auto simp: pg_rb_def pg_grows_def)

section \<open>MariaDB\<close>

record escrow_row =
  er_item :: stash_item
  er_listing_ref :: int
  er_created_at :: int

record lock_row =
  lk_account_id :: int
  lk_is_locked :: bool

record withdraw_row =
  wq_id :: int
  wq_account_id :: int
  wq_zeny :: int
  wq_points :: int
  wq_delivered_at :: int

record my_seqs =
  storage_seq :: int
  escrow_seq :: int

record mydb =
  cp_storage :: "stash_item list"
  cp_storage_escrow :: "escrow_row list"
  cp_storage_lock :: "lock_row list"
  cp_delivery_applied :: "int list"
  cp_deposit :: "deposit_row list"
  cp_withdraw :: "withdraw_row list"
  my_clock :: int
  my_seq :: my_seqs

text \<open>\<open>amount SMALLINT UNSIGNED\<close> in both item tables.\<close>

definition amount_check :: "int \<Rightarrow> bool" where
  "amount_check a \<longleftrightarrow> 0 \<le> a \<and> a \<le> 65535"

definition my_rb :: "mydb \<Rightarrow> mydb \<Rightarrow> mydb" where
  "my_rb d0 d1 = d0\<lparr>my_seq := my_seq d1\<rparr>"

definition my_grows :: "mydb \<Rightarrow> mydb \<Rightarrow> bool" where
  "my_grows d0 d1 \<longleftrightarrow>
     storage_seq (my_seq d0) \<le> storage_seq (my_seq d1) \<and> escrow_seq (my_seq d0) \<le> escrow_seq (my_seq d1)"

type_synonym 'a my_prog = "(mydb conn, err, 'a) prog"

definition myTx :: "'a my_prog \<Rightarrow> 'a my_prog" where
  "myTx m = transaction my_rb Sql m"

interpretation my: store my_rb my_grows
  by unfold_locales (auto simp: my_rb_def my_grows_def)

section \<open>The world of an application service\<close>

text \<open>A service holds one connection to each database and reads the application's clock.\<close>

record world =
  pgc :: "pgdb conn"
  myc :: "mydb conn"
  app_now :: int

type_synonym 'a app = "(world, err, 'a) prog"

definition onPg :: "'a pg_prog \<Rightarrow> 'a app" where
  "onPg m w = (case m (pgc w) of (r, c) \<Rightarrow> (r, w\<lparr>pgc := c\<rparr>))"

definition onMy :: "'a my_prog \<Rightarrow> 'a app" where
  "onMy m w = (case m (myc w) of (r, c) \<Rightarrow> (r, w\<lparr>myc := c\<rparr>))"

lemma onPg_Inr [success_inv]:
  "onPg m w = (Inr x, v) \<longleftrightarrow> (\<exists>c. m (pgc w) = (Inr x, c) \<and> v = w\<lparr>pgc := c\<rparr>)"
  by (auto simp: onPg_def split: prod.splits)

lemma onMy_Inr [success_inv]:
  "onMy m w = (Inr x, v) \<longleftrightarrow> (\<exists>c. m (myc w) = (Inr x, c) \<and> v = w\<lparr>myc := c\<rparr>)"
  by (auto simp: onMy_def split: prod.splits)

lemma spec_onPg:
  "(\<And>w x c. P w \<Longrightarrow> m (pgc w) = (Inr x, c) \<Longrightarrow> Q x (w\<lparr>pgc := c\<rparr>)) \<Longrightarrow>
   (\<And>w e c. P w \<Longrightarrow> m (pgc w) = (Inl e, c) \<Longrightarrow> E (w\<lparr>pgc := c\<rparr>)) \<Longrightarrow> spec P (onPg m) Q E"
  by (rule specI) (auto simp: onPg_def split: prod.splits)

lemma spec_onMy:
  "(\<And>w x c. P w \<Longrightarrow> m (myc w) = (Inr x, c) \<Longrightarrow> Q x (w\<lparr>myc := c\<rparr>)) \<Longrightarrow>
   (\<And>w e c. P w \<Longrightarrow> m (myc w) = (Inl e, c) \<Longrightarrow> E (w\<lparr>myc := c\<rparr>)) \<Longrightarrow> spec P (onMy m) Q E"
  by (rule specI) (auto simp: onMy_def split: prod.splits)

end
