(* ===== verification/Wallet.thy ===== *)
theory Wallet
  imports Trade_Schema
begin

text \<open>
  The in-panel wallet of \<open>internal/features/market/infra/postgres_wallet.go\<close>: balances in
  \<open>cp_currency\<close>, money set aside for buy offers in \<open>cp_currency_hold\<close>. Functions named
  \<open>..Tx\<close> run inside a caller's transaction; the others open their own.
\<close>

section \<open>The code\<close>

definition amountsValid :: "int \<Rightarrow> int \<Rightarrow> bool" where
  "amountsValid zeny cashpoint \<longleftrightarrow>
     zeny \<ge> 0 \<and> zeny \<le> MaxTransferZeny \<and> cashpoint \<ge> 0 \<and> cashpoint \<le> max_int32"

definition wallet_Balance :: "int \<Rightarrow> (int \<times> int) pg_prog" where
  "wallet_Balance accountID =
     query Sql (\<lambda>d. case find (\<lambda>r. cu_account_id r = accountID) (cp_currency d) of
       None \<Rightarrow> (0, 0) | Some r \<Rightarrow> (cu_zeny r, cu_cashpoint r))"

text \<open>\<open>INSERT .. ON CONFLICT (account_id) DO NOTHING\<close>\<close>

definition ensure_currency :: "int \<Rightarrow> currency_row list \<Rightarrow> currency_row list" where
  "ensure_currency accountID t =
     (if list_ex (\<lambda>r. cu_account_id r = accountID) t then t
      else t @ [\<lparr>cu_account_id = accountID, cu_zeny = 0, cu_cashpoint = 0, cu_locked_until = None\<rparr>])"

definition lockBalance :: "int \<Rightarrow> (int \<times> int) pg_prog" where
  "lockBalance accountID =
     thenE (exec Sql (\<lambda>d. d\<lparr>cp_currency := ensure_currency accountID (cp_currency d)\<rparr>))
       (query_row Sql Sql (\<lambda>d.
          map_option (\<lambda>r. (cu_zeny r, cu_cashpoint r))
            (find (\<lambda>r. cu_account_id r = accountID) (cp_currency d))))"

definition applyDebit :: "int \<Rightarrow> int \<Rightarrow> int \<Rightarrow> int \<Rightarrow> int \<Rightarrow> unit pg_prog" where
  "applyDebit accountID currentZeny currentCashpoint zeny cashpoint =
     guardE (currentZeny < zeny \<or> currentCashpoint < cashpoint) (Market ErrInsufficientFunds)
       (exec_opt Sql (\<lambda>d. map_option (\<lambda>t. d\<lparr>cp_currency := t\<rparr>)
          (upd_checked currency_check (\<lambda>r. cu_account_id r = accountID)
             (\<lambda>r. r\<lparr>cu_zeny := cu_zeny r - zeny, cu_cashpoint := cu_cashpoint r - cashpoint\<rparr>)
             (cp_currency d))))"

definition applyCredit :: "int \<Rightarrow> int \<Rightarrow> int \<Rightarrow> int \<Rightarrow> int \<Rightarrow> unit pg_prog" where
  "applyCredit accountID currentZeny currentCashpoint zeny cashpoint =
     (case AddBalance currentZeny zeny currentCashpoint cashpoint of
        Inl err \<Rightarrow> failE (Currency err)
      | Inr (newZeny, newCashpoint) \<Rightarrow>
          exec_opt Sql (\<lambda>d. map_option (\<lambda>t. d\<lparr>cp_currency := t\<rparr>)
            (upd_checked currency_check (\<lambda>r. cu_account_id r = accountID)
               (\<lambda>r. r\<lparr>cu_zeny := newZeny, cu_cashpoint := newCashpoint\<rparr>)
               (cp_currency d))))"

definition debitBalance :: "int \<Rightarrow> int \<Rightarrow> int \<Rightarrow> unit pg_prog" where
  "debitBalance accountID zeny cashpoint =
     bindE (lockBalance accountID) (\<lambda>(currentZeny, currentCashpoint).
       applyDebit accountID currentZeny currentCashpoint zeny cashpoint)"

definition creditBalance :: "int \<Rightarrow> int \<Rightarrow> int \<Rightarrow> unit pg_prog" where
  "creditBalance accountID zeny cashpoint =
     bindE (lockBalance accountID) (\<lambda>(currentZeny, currentCashpoint).
       applyCredit accountID currentZeny currentCashpoint zeny cashpoint)"

text \<open>\<open>INSERT INTO cp_currency_hold .. RETURNING id\<close>\<close>

definition insert_hold :: "int \<Rightarrow> int \<Rightarrow> int \<Rightarrow> pgdb \<Rightarrow> (int \<times> pgdb) option" where
  "insert_hold accountID zeny cashpoint d =
     (let i = hold_seq (pg_seq d) + 1;
          r = \<lparr>ho_id = i, ho_account_id = accountID, ho_zeny = zeny, ho_cashpoint = cashpoint\<rparr>
      in map_option (\<lambda>t. (i, d\<lparr>cp_currency_hold := t, pg_seq := (pg_seq d)\<lparr>hold_seq := i\<rparr>\<rparr>))
           (ins_checked hold_check r (cp_currency_hold d)))"

definition wallet_Hold :: "int \<Rightarrow> int \<Rightarrow> int \<Rightarrow> int pg_prog" where
  "wallet_Hold accountID zeny cashpoint =
     guardE (\<not> amountsValid zeny cashpoint) (Market ErrInvalidAmount)
       (pgTx (thenE (debitBalance accountID zeny cashpoint)
                (sql Sql (insert_hold accountID zeny cashpoint))))"

definition readHold :: "int \<Rightarrow> (int \<times> int \<times> int) pg_prog" where
  "readHold holdID =
     query_row Sql (Market ErrHoldNotFound) (\<lambda>d.
       map_option (\<lambda>r. (ho_account_id r, ho_zeny r, ho_cashpoint r))
         (find (\<lambda>r. ho_id r = holdID) (cp_currency_hold d)))"

definition delete_hold :: "int \<Rightarrow> unit pg_prog" where
  "delete_hold holdID =
     exec Sql (\<lambda>d. d\<lparr>cp_currency_hold := del_where (\<lambda>r. ho_id r = holdID) (cp_currency_hold d)\<rparr>)"

definition ReleaseTx :: "int \<Rightarrow> unit pg_prog" where
  "ReleaseTx holdID =
     bindE (readHold holdID) (\<lambda>(accountID, zeny, cashpoint).
       thenE (creditBalance accountID zeny cashpoint) (delete_hold holdID))"

definition wallet_Release :: "int \<Rightarrow> unit pg_prog" where
  "wallet_Release holdID = pgTx (ReleaseTx holdID)"

definition SettleHold :: "int \<Rightarrow> int \<Rightarrow> int \<Rightarrow> int \<Rightarrow> unit pg_prog" where
  "SettleHold holdID payeeAccountID payeeZeny payeeCashpoint =
     guardE (\<not> amountsValid payeeZeny payeeCashpoint) (Market ErrInvalidAmount)
       (pgTx (bindE (readHold holdID) (\<lambda>(_, heldZeny, heldCashpoint).
          guardE (payeeZeny > heldZeny \<or> payeeCashpoint > heldCashpoint) (Market ErrInvalidSettlement)
            (thenE (creditBalance payeeAccountID payeeZeny payeeCashpoint) (delete_hold holdID)))))"

definition validatePartialSettle :: "int \<Rightarrow> int \<Rightarrow> int \<Rightarrow> int \<Rightarrow> market_error option" where
  "validatePartialSettle grossZeny grossCashpoint payeeZeny payeeCashpoint =
     (if \<not> amountsValid grossZeny grossCashpoint \<or> \<not> amountsValid payeeZeny payeeCashpoint
      then Some ErrInvalidAmount
      else if payeeZeny > grossZeny \<or> payeeCashpoint > grossCashpoint then Some ErrInvalidSettlement
      else None)"

definition reduceHold :: "int \<Rightarrow> int \<Rightarrow> int \<Rightarrow> unit pg_prog" where
  "reduceHold holdID remainingZeny remainingCashpoint =
     (if remainingZeny = 0 \<and> remainingCashpoint = 0 then delete_hold holdID
      else exec_opt Sql (\<lambda>d. map_option (\<lambda>t. d\<lparr>cp_currency_hold := t\<rparr>)
        (upd_checked hold_check (\<lambda>r. ho_id r = holdID)
           (\<lambda>r. r\<lparr>ho_zeny := remainingZeny, ho_cashpoint := remainingCashpoint\<rparr>)
           (cp_currency_hold d))))"

definition SettleHoldPartialTx :: "int \<Rightarrow> int \<Rightarrow> int \<Rightarrow> int \<Rightarrow> int \<Rightarrow> int \<Rightarrow> unit pg_prog" where
  "SettleHoldPartialTx holdID payeeAccountID grossZeny grossCashpoint payeeZeny payeeCashpoint =
     (case validatePartialSettle grossZeny grossCashpoint payeeZeny payeeCashpoint of
        Some err \<Rightarrow> failE (Market err)
      | None \<Rightarrow>
          bindE (readHold holdID) (\<lambda>(_, heldZeny, heldCashpoint).
            guardE (grossZeny > heldZeny \<or> grossCashpoint > heldCashpoint) (Market ErrInvalidSettlement)
              (thenE (creditBalance payeeAccountID payeeZeny payeeCashpoint)
                 (reduceHold holdID (wrap64 (heldZeny - grossZeny))
                    (wrap64 (heldCashpoint - grossCashpoint))))))"

definition SettleHoldPartial :: "int \<Rightarrow> int \<Rightarrow> int \<Rightarrow> int \<Rightarrow> int \<Rightarrow> int \<Rightarrow> unit pg_prog" where
  "SettleHoldPartial holdID payeeAccountID grossZeny grossCashpoint payeeZeny payeeCashpoint =
     pgTx (SettleHoldPartialTx holdID payeeAccountID grossZeny grossCashpoint payeeZeny payeeCashpoint)"

definition validateCharge ::
    "int \<Rightarrow> int \<Rightarrow> int \<Rightarrow> int \<Rightarrow> int \<Rightarrow> int \<Rightarrow> market_error option" where
  "validateCharge payerAccountID payeeAccountID payZeny payCashpoint payeeZeny payeeCashpoint =
     (if \<not> amountsValid payZeny payCashpoint \<or> \<not> amountsValid payeeZeny payeeCashpoint
      then Some ErrInvalidAmount
      else if payerAccountID = payeeAccountID then Some ErrSelfTrade
      else if payeeZeny > payZeny \<or> payeeCashpoint > payCashpoint then Some ErrInvalidSettlement
      else None)"

definition lockPair :: "int \<Rightarrow> int \<Rightarrow> (int \<times> int \<times> int \<times> int) pg_prog" where
  "lockPair payerAccountID payeeAccountID =
     (let (first, second) = (if payeeAccountID < payerAccountID
                             then (payeeAccountID, payerAccountID)
                             else (payerAccountID, payeeAccountID))
      in bindE (lockBalance first) (\<lambda>(firstZeny, firstCashpoint).
           bindE (lockBalance second) (\<lambda>(secondZeny, secondCashpoint).
             if payeeAccountID = first
             then retE (secondZeny, secondCashpoint, firstZeny, firstCashpoint)
             else retE (firstZeny, firstCashpoint, secondZeny, secondCashpoint))))"

definition ChargeTx :: "int \<Rightarrow> int \<Rightarrow> int \<Rightarrow> int \<Rightarrow> int \<Rightarrow> int \<Rightarrow> unit pg_prog" where
  "ChargeTx payerAccountID payeeAccountID payZeny payCashpoint payeeZeny payeeCashpoint =
     (case validateCharge payerAccountID payeeAccountID payZeny payCashpoint payeeZeny payeeCashpoint of
        Some err \<Rightarrow> failE (Market err)
      | None \<Rightarrow>
          bindE (lockPair payerAccountID payeeAccountID)
            (\<lambda>(payerZeny, payerCashpoint, payeeBalanceZeny, payeeBalanceCashpoint).
               thenE (applyDebit payerAccountID payerZeny payerCashpoint payZeny payCashpoint)
                 (applyCredit payeeAccountID payeeBalanceZeny payeeBalanceCashpoint
                    payeeZeny payeeCashpoint)))"

definition wallet_Charge :: "int \<Rightarrow> int \<Rightarrow> int \<Rightarrow> int \<Rightarrow> int \<Rightarrow> int \<Rightarrow> unit pg_prog" where
  "wallet_Charge payerAccountID payeeAccountID payZeny payCashpoint payeeZeny payeeCashpoint =
     pgTx (ChargeTx payerAccountID payeeAccountID payZeny payCashpoint payeeZeny payeeCashpoint)"

definition wallet_Burn :: "int \<Rightarrow> int \<Rightarrow> int \<Rightarrow> unit pg_prog" where
  "wallet_Burn accountID zeny cashpoint =
     guardE (\<not> amountsValid zeny cashpoint) (Market ErrInvalidAmount)
       (pgTx (debitBalance accountID zeny cashpoint))"

section \<open>What a wallet state means\<close>

text \<open>
  Abstractly the wallet is a ledger: a balance for every account (an account without a row has
  nothing) and the open holds. \<open>wallet_inv\<close> is what keeps the tables a ledger: one row per
  account and per hold, amounts in range, hold ids already drawn from the sequence.
\<close>

definition bal :: "currency_row list \<Rightarrow> int \<Rightarrow> int \<times> int" where
  "bal t a = (case find (\<lambda>r. cu_account_id r = a) t of
     None \<Rightarrow> (0, 0) | Some r \<Rightarrow> (cu_zeny r, cu_cashpoint r))"

definition hold_of :: "hold_row list \<Rightarrow> int \<Rightarrow> (int \<times> int \<times> int) option" where
  "hold_of t h = map_option (\<lambda>r. (ho_account_id r, ho_zeny r, ho_cashpoint r))
     (find (\<lambda>r. ho_id r = h) t)"

definition currency_inv :: "currency_row list \<Rightarrow> bool" where
  "currency_inv t \<longleftrightarrow> uniq cu_account_id t \<and> (\<forall>r \<in> set t. currency_check r)"

definition holds_inv :: "int \<Rightarrow> hold_row list \<Rightarrow> bool" where
  "holds_inv n t \<longleftrightarrow> uniq ho_id t \<and> (\<forall>r \<in> set t. hold_check r \<and> ho_id r \<le> n)"

definition wallet_inv :: "pgdb \<Rightarrow> bool" where
  "wallet_inv d \<longleftrightarrow> currency_inv (cp_currency d) \<and> holds_inv (hold_seq (pg_seq d)) (cp_currency_hold d)"

text \<open>All zeny (cashpoints) of the panel: on balances and on hold.\<close>

definition zeny_supply :: "pgdb \<Rightarrow> int" where
  "zeny_supply d = tsum cu_zeny (cp_currency d) + tsum ho_zeny (cp_currency_hold d)"

definition cash_supply :: "pgdb \<Rightarrow> int" where
  "cash_supply d = tsum cu_cashpoint (cp_currency d) + tsum ho_cashpoint (cp_currency_hold d)"

text \<open>\<open>adjusts a z c d d'\<close>: the only change is account \<open>a\<close>'s balance, by \<open>z\<close> and \<open>c\<close>.\<close>

definition adjusts :: "int \<Rightarrow> int \<Rightarrow> int \<Rightarrow> pgdb \<Rightarrow> pgdb \<Rightarrow> bool" where
  "adjusts a z c d d' \<longleftrightarrow>
     d'\<lparr>cp_currency := cp_currency d\<rparr> = d \<and> currency_inv (cp_currency d') \<and>
     cu_account_id ` set (cp_currency d) \<subseteq> cu_account_id ` set (cp_currency d') \<and>
     bal (cp_currency d') = (bal (cp_currency d))
       (a := (fst (bal (cp_currency d) a) + z, snd (bal (cp_currency d) a) + c)) \<and>
     tsum cu_zeny (cp_currency d') = tsum cu_zeny (cp_currency d) + z \<and>
     tsum cu_cashpoint (cp_currency d') = tsum cu_cashpoint (cp_currency d) + c"

lemma adjusts_frame:
  assumes "adjusts a z c d d'"
  shows "cp_currency_hold d' = cp_currency_hold d" "cp_listing d' = cp_listing d"
    "cp_settlement d' = cp_settlement d" "cp_deposit_processed d' = cp_deposit_processed d"
    "cp_withdraw_requests d' = cp_withdraw_requests d" "pg_clock d' = pg_clock d" "pg_seq d' = pg_seq d"
  using assms by (cases d; cases d'; simp add: adjusts_def)+

lemma ensure_present: "find (\<lambda>r. cu_account_id r = a) t = Some r \<Longrightarrow> ensure_currency a t = t"
  by (auto simp: ensure_currency_def list_ex_iff find_Some_iff)

lemma ensure_absent:
  "find (\<lambda>r. cu_account_id r = a) t = None \<Longrightarrow>
   ensure_currency a t =
     t @ [\<lparr>cu_account_id = a, cu_zeny = 0, cu_cashpoint = 0, cu_locked_until = None\<rparr>]"
  by (auto simp: ensure_currency_def list_ex_iff find_None_iff)

lemma ensure_cases:
  obtains r where "find (\<lambda>r. cu_account_id r = a) t = Some r" "ensure_currency a t = t"
  | "find (\<lambda>r. cu_account_id r = a) t = None"
    "ensure_currency a t =
       t @ [\<lparr>cu_account_id = a, cu_zeny = 0, cu_cashpoint = 0, cu_locked_until = None\<rparr>]"
  by (cases "find (\<lambda>r. cu_account_id r = a) t") (auto simp: ensure_absent dest: ensure_present)

lemma bal_ensure [simp]: "bal (ensure_currency a t) = bal t"
proof
  fix b
  show "bal (ensure_currency a t) b = bal t b"
    by (cases rule: ensure_cases [of a t]) (auto simp: bal_def find_append split: option.splits)
qed

lemma tsum_ensure [simp]:
  "tsum cu_zeny (ensure_currency a t) = tsum cu_zeny t"
  "tsum cu_cashpoint (ensure_currency a t) = tsum cu_cashpoint t"
  by (simp_all add: ensure_currency_def)

lemma currency_inv_ensure [simp]: "currency_inv t \<Longrightarrow> currency_inv (ensure_currency a t)"
  by (cases rule: ensure_cases [of a t])
     (auto simp: currency_inv_def currency_check_def amount_defs find_None_iff)

lemma bal_in_range: "currency_inv t \<Longrightarrow> bal t a = (z, c) \<Longrightarrow> zeny_ok z \<and> cash_ok c"
  by (auto simp: bal_def currency_inv_def currency_check_def amount_defs
      split: option.splits dest!: find_key_Some)

lemma ensure_has_row:
  "\<exists>r. find (\<lambda>r. cu_account_id r = a) (ensure_currency a t) = Some r \<and> bal t a = (cu_zeny r, cu_cashpoint r)"
  by (cases rule: ensure_cases [of a t]) (auto simp: bal_def find_append)

text \<open>Overwriting the amounts of an account's row.\<close>

lemma set_row:
  assumes inv: "currency_inv t" and row: "find (\<lambda>r. cu_account_id r = a) t = Some r"
    and key: "\<And>q. cu_account_id (f q) = cu_account_id q" and chk: "currency_check (f r)"
  shows "currency_inv (upd_where (\<lambda>r. cu_account_id r = a) f t)"
    and "bal (upd_where (\<lambda>r. cu_account_id r = a) f t) = (bal t)(a := (cu_zeny (f r), cu_cashpoint (f r)))"
    and "tsum g (upd_where (\<lambda>r. cu_account_id r = a) f t) = tsum g t - g r + g (f r)"
proof -
  from row have r: "r \<in> set t" "cu_account_id r = a" by (auto dest: find_key_Some)
  from inv have u: "uniq cu_account_id t" by (simp add: currency_inv_def)
  have "\<forall>q \<in> set (upd_where (\<lambda>r. cu_account_id r = a) f t). currency_check q"
  proof (rule upd_where_all)
    fix q assume "q \<in> set t" "cu_account_id q = a"
    with u r have "q = r" by (auto intro: uniq_the_row)
    with chk show "currency_check (f q)" by simp
  qed (use inv in \<open>simp add: currency_inv_def\<close>)
  with u key show "currency_inv (upd_where (\<lambda>r. cu_account_id r = a) f t)"
    by (simp add: currency_inv_def uniq_upd_where)
  show "bal (upd_where (\<lambda>r. cu_account_id r = a) f t) = (bal t)(a := (cu_zeny (f r), cu_cashpoint (f r)))"
  proof
    fix b
    show "bal (upd_where (\<lambda>r. cu_account_id r = a) f t) b
        = ((bal t)(a := (cu_zeny (f r), cu_cashpoint (f r)))) b"
      using key row by (simp add: bal_def find_upd_row split: option.splits)
  qed
  show "tsum g (upd_where (\<lambda>r. cu_account_id r = a) f t) = tsum g t - g r + g (f r)"
    using tsum_upd_row [OF u r(1), of g f] r(2) by simp
qed

lemma accounts_upd_where:
  "(\<And>q. cu_account_id (f q) = cu_account_id q) \<Longrightarrow>
   cu_account_id ` set (upd_where p f t) = cu_account_id ` set t"
  using keys_upd_where [of p cu_account_id f t] by (simp flip: set_map)

lemma accounts_ensure: "cu_account_id ` set (ensure_currency a t) = insert a (cu_account_id ` set t)"
  by (cases rule: ensure_cases [of a t]) (auto dest!: find_key_Some)

lemma account_row:
  assumes "a \<in> cu_account_id ` set t"
  obtains r where "find (\<lambda>r. cu_account_id r = a) t = Some r" "bal t a = (cu_zeny r, cu_cashpoint r)"
  using assms by (cases "find (\<lambda>r. cu_account_id r = a) t") (auto simp: bal_def find_None_iff)

lemma lockBalance_Inr:
  "lockBalance a s = (Inr p, t) \<Longrightarrow>
   p = bal (cp_currency (data s)) a \<and>
   data t = (data s)\<lparr>cp_currency := ensure_currency a (cp_currency (data s))\<rparr>"
  using ensure_has_row [of a "cp_currency (data s)"] by (auto simp: lockBalance_def success_inv)

lemma adjusts_row:
  assumes inv: "currency_inv (cp_currency d)" and t: "currency_inv t" "bal t = bal (cp_currency d)"
      "tsum cu_zeny t = tsum cu_zeny (cp_currency d)"
      "tsum cu_cashpoint t = tsum cu_cashpoint (cp_currency d)"
      "cu_account_id ` set (cp_currency d) \<subseteq> cu_account_id ` set t"
    and row: "find (\<lambda>r. cu_account_id r = a) t = Some r"
    and f: "\<And>q. cu_account_id (f q) = cu_account_id q" "currency_check (f r)"
      "cu_zeny (f r) = cu_zeny r + z" "cu_cashpoint (f r) = cu_cashpoint r + c"
  shows "adjusts a z c d (d\<lparr>cp_currency := upd_where (\<lambda>r. cu_account_id r = a) f t\<rparr>)"
proof -
  from row have "bal t a = (cu_zeny r, cu_cashpoint r)" by (simp add: bal_def)
  with t have b: "bal (cp_currency d) a = (cu_zeny r, cu_cashpoint r)" by simp
  show ?thesis
    using set_row [OF t(1) row f(1,2)] b t f
    by (simp add: adjusts_def accounts_upd_where)
qed

lemma applyDebit_Inr:
  assumes "applyDebit a cz cc z c s = (Inr u, t)" and inv: "currency_inv (cp_currency (data s))"
    and row: "find (\<lambda>r. cu_account_id r = a) (cp_currency (data s)) = Some r"
    and cur: "cz = cu_zeny r" "cc = cu_cashpoint r"
  shows "adjusts a (- z) (- c) (data s) (data t) \<and> z \<le> cz \<and> c \<le> cc"
proof -
  from row have r: "r \<in> set (cp_currency (data s))" "cu_account_id r = a" by (auto dest: find_key_Some)
  let ?f = "\<lambda>r. r\<lparr>cu_zeny := cu_zeny r - z, cu_cashpoint := cu_cashpoint r - c\<rparr>"
  from assms(1) r have le: "z \<le> cz" "c \<le> cc" and chk: "currency_check (?f r)"
    and t: "data t = (data s)\<lparr>cp_currency := upd_where (\<lambda>r. cu_account_id r = a) ?f (cp_currency (data s))\<rparr>"
    by (auto simp: applyDebit_def success_inv upd_checked_Some)
  from inv row chk have "adjusts a (- z) (- c) (data s) (data t)"
    unfolding t by (intro adjusts_row) auto
  with le show ?thesis by simp
qed

lemma applyCredit_Inr:
  assumes "applyCredit a cz cc z c s = (Inr u, t)" and inv: "currency_inv (cp_currency (data s))"
    and row: "find (\<lambda>r. cu_account_id r = a) (cp_currency (data s)) = Some r"
    and cur: "cz = cu_zeny r" "cc = cu_cashpoint r" and rng: "is_int64 z" "is_int64 c"
  shows "adjusts a z c (data s) (data t) \<and> 0 \<le> z \<and> 0 \<le> c"
proof -
  from row have r: "r \<in> set (cp_currency (data s))" "cu_account_id r = a" by (auto dest: find_key_Some)
  from assms(1) obtain nz nc where add: "AddBalance cz z cc c = Inr (nz, nc)"
    by (auto simp: applyCredit_def success_inv split: sum.splits)
  from inv r have "zeny_ok cz" "cash_ok cc"
    by (auto simp: cur currency_inv_def currency_check_def)
  with AddBalance_Inr [OF add] rng have n: "nz = cz + z" "nc = cc + c" "0 \<le> z" "0 \<le> c"
      "zeny_ok nz" "cash_ok nc" by auto
  let ?f = "\<lambda>r. r\<lparr>cu_zeny := nz, cu_cashpoint := nc\<rparr>"
  from assms(1) add
  have t: "data t = (data s)\<lparr>cp_currency := upd_where (\<lambda>r. cu_account_id r = a) ?f (cp_currency (data s))\<rparr>"
    by (auto simp: applyCredit_def success_inv upd_checked_Some)
  from inv row n cur have "adjusts a z c (data s) (data t)"
    unfolding t by (intro adjusts_row) (auto simp: currency_check_def)
  with n show ?thesis by simp
qed

section \<open>The effect of each operation\<close>

lemma amountsValid_range:
  "amountsValid z c \<Longrightarrow> zeny_ok z \<and> cash_ok c \<and> is_int64 z \<and> is_int64 c"
  by (auto simp: amountsValid_def amount_defs MaxTransferZeny_def)

lemma adjusts_ensure:
  "adjusts a z c (d\<lparr>cp_currency := ensure_currency b (cp_currency d)\<rparr>) d' \<Longrightarrow> adjusts a z c d d'"
  by (cases d; cases d') (auto simp: adjusts_def accounts_ensure)

lemma adjusts_ensure2:
  "adjusts a z c (d\<lparr>cp_currency := ensure_currency b (ensure_currency b' (cp_currency d))\<rparr>) d' \<Longrightarrow>
   adjusts a z c d d'"
  by (cases d; cases d') (auto simp: adjusts_def accounts_ensure)

lemma debitBalance_Inr:
  assumes "debitBalance a z c s = (Inr u, t)" and "currency_inv (cp_currency (data s))"
  shows "adjusts a (- z) (- c) (data s) (data t) \<and>
         z \<le> fst (bal (cp_currency (data s)) a) \<and> c \<le> snd (bal (cp_currency (data s)) a)"
proof -
  from assms(1) obtain cz cc s1 where lock: "lockBalance a s = (Inr (cz, cc), s1)"
    and deb: "applyDebit a cz cc z c s1 = (Inr u, t)"
    by (auto simp: debitBalance_def success_inv)
  from lockBalance_Inr [OF lock]
  have b: "(cz, cc) = bal (cp_currency (data s)) a"
    and d1: "data s1 = (data s)\<lparr>cp_currency := ensure_currency a (cp_currency (data s))\<rparr>" by auto
  obtain r where r: "find (\<lambda>r. cu_account_id r = a) (cp_currency (data s1)) = Some r"
      "(cz, cc) = (cu_zeny r, cu_cashpoint r)"
    using ensure_has_row [of a "cp_currency (data s)"] b d1 by auto
  have "currency_inv (cp_currency (data s1))" using assms(2) d1 by simp
  from applyDebit_Inr [OF deb this r(1)] r(2) b d1 show ?thesis
    by (auto dest: adjusts_ensure simp: prod_eq_iff)
qed

lemma creditBalance_Inr:
  assumes "creditBalance a z c s = (Inr u, t)" and "currency_inv (cp_currency (data s))"
    and rng: "is_int64 z" "is_int64 c"
  shows "adjusts a z c (data s) (data t) \<and> 0 \<le> z \<and> 0 \<le> c"
proof -
  from assms(1) obtain cz cc s1 where lock: "lockBalance a s = (Inr (cz, cc), s1)"
    and cre: "applyCredit a cz cc z c s1 = (Inr u, t)"
    by (auto simp: creditBalance_def success_inv)
  from lockBalance_Inr [OF lock]
  have b: "(cz, cc) = bal (cp_currency (data s)) a"
    and d1: "data s1 = (data s)\<lparr>cp_currency := ensure_currency a (cp_currency (data s))\<rparr>" by auto
  obtain r where r: "find (\<lambda>r. cu_account_id r = a) (cp_currency (data s1)) = Some r"
      "(cz, cc) = (cu_zeny r, cu_cashpoint r)"
    using ensure_has_row [of a "cp_currency (data s)"] b d1 by auto
  have "currency_inv (cp_currency (data s1))" using assms(2) d1 by simp
  from applyCredit_Inr [OF cre this r(1) _ _ rng] r(2) d1 show ?thesis
    by (auto dest: adjusts_ensure)
qed

lemma readHold_Inr:
  assumes "readHold h s = (Inr (a, z, c), t)"
  obtains r where "data t = data s" "find (\<lambda>r. ho_id r = h) (cp_currency_hold (data s)) = Some r"
    "a = ho_account_id r" "z = ho_zeny r" "c = ho_cashpoint r"
  using assms by (auto simp: readHold_def success_inv)

lemma delete_hold_row:
  assumes "holds_inv n t" and "find (\<lambda>r. ho_id r = h) t = Some r"
  shows "holds_inv n (del_where (\<lambda>r. ho_id r = h) t)"
    and "tsum g (del_where (\<lambda>r. ho_id r = h) t) = tsum g t - g r"
    and "hold_of (del_where (\<lambda>r. ho_id r = h) t) = (hold_of t)(h := None)"
proof -
  from assms(2) have r: "r \<in> set t" "ho_id r = h" by (auto dest: find_key_Some)
  from assms(1) have u: "uniq ho_id t" by (simp add: holds_inv_def)
  show "holds_inv n (del_where (\<lambda>r. ho_id r = h) t)"
    using assms(1) by (auto simp: holds_inv_def intro: uniq_del_where)
  show "tsum g (del_where (\<lambda>r. ho_id r = h) t) = tsum g t - g r"
    using tsum_del_row [OF u r(1), of g] r(2) by simp
  show "hold_of (del_where (\<lambda>r. ho_id r = h) t) = (hold_of t)(h := None)"
    by (rule ext) (simp add: hold_of_def find_del_row)
qed

lemma update_hold_row:
  assumes inv: "holds_inv n t" and row: "find (\<lambda>r. ho_id r = h) t = Some r"
    and key: "\<And>q. ho_id (f q) = ho_id q" and chk: "hold_check (f r)"
  shows "holds_inv n (upd_where (\<lambda>r. ho_id r = h) f t)"
    and "tsum g (upd_where (\<lambda>r. ho_id r = h) f t) = tsum g t - g r + g (f r)"
    and "hold_of (upd_where (\<lambda>r. ho_id r = h) f t) =
           (hold_of t)(h := Some (ho_account_id (f r), ho_zeny (f r), ho_cashpoint (f r)))"
proof -
  from row have r: "r \<in> set t" "ho_id r = h" by (auto dest: find_key_Some)
  from inv have u: "uniq ho_id t" by (simp add: holds_inv_def)
  have "\<forall>q \<in> set (upd_where (\<lambda>r. ho_id r = h) f t). hold_check q \<and> ho_id q \<le> n"
  proof (rule upd_where_all)
    fix q assume "q \<in> set t" "ho_id q = h"
    moreover with u r have "q = r" by (auto intro: uniq_the_row)
    ultimately show "hold_check (f q) \<and> ho_id (f q) \<le> n"
      using chk inv key by (auto simp: holds_inv_def)
  qed (use inv in \<open>simp add: holds_inv_def\<close>)
  with u key show "holds_inv n (upd_where (\<lambda>r. ho_id r = h) f t)"
    by (simp add: holds_inv_def uniq_upd_where)
  show "tsum g (upd_where (\<lambda>r. ho_id r = h) f t) = tsum g t - g r + g (f r)"
    using tsum_upd_row [OF u r(1), of g f] r(2) by simp
  show "hold_of (upd_where (\<lambda>r. ho_id r = h) f t) =
           (hold_of t)(h := Some (ho_account_id (f r), ho_zeny (f r), ho_cashpoint (f r)))"
    using key row by (intro ext) (simp add: hold_of_def find_upd_row)
qed

text \<open>
  The abstract ledger and what each operation does to it. \<open>settles d d' h a gz gc z c\<close>: hold
  \<open>h\<close> shrinks by the gross amounts (and disappears when nothing is left), account \<open>a\<close> is
  credited the net amounts, nothing else moves.
\<close>

definition settles :: "int \<Rightarrow> int \<Rightarrow> int \<Rightarrow> int \<Rightarrow> int \<Rightarrow> int \<Rightarrow> pgdb \<Rightarrow> pgdb \<Rightarrow> bool" where
  "settles h a gz gc z c d d' \<longleftrightarrow>
     d'\<lparr>cp_currency := cp_currency d, cp_currency_hold := cp_currency_hold d\<rparr> = d \<and>
     wallet_inv d' \<and>
     bal (cp_currency d') = (bal (cp_currency d))
       (a := (fst (bal (cp_currency d) a) + z, snd (bal (cp_currency d) a) + c)) \<and>
     tsum cu_zeny (cp_currency d') = tsum cu_zeny (cp_currency d) + z \<and>
     tsum cu_cashpoint (cp_currency d') = tsum cu_cashpoint (cp_currency d) + c \<and>
     tsum ho_zeny (cp_currency_hold d') = tsum ho_zeny (cp_currency_hold d) - gz \<and>
     tsum ho_cashpoint (cp_currency_hold d') = tsum ho_cashpoint (cp_currency_hold d) - gc \<and>
     (\<exists>w hz hc. hold_of (cp_currency_hold d) h = Some (w, hz, hc) \<and> gz \<le> hz \<and> gc \<le> hc \<and>
       hold_of (cp_currency_hold d') = (hold_of (cp_currency_hold d))
         (h := (if hz = gz \<and> hc = gc then None else Some (w, hz - gz, hc - gc))))"

lemma ReleaseTx_Inr:
  assumes "ReleaseTx h s = (Inr u, t)" and inv: "wallet_inv (data s)"
  obtains a z c where "hold_of (cp_currency_hold (data s)) h = Some (a, z, c)"
    "settles h a z c z c (data s) (data t)"
proof -
  from assms(1) obtain a z c s1 s2 where rd: "readHold h s = (Inr (a, z, c), s1)"
    and cr: "creditBalance a z c s1 = (Inr (), s2)" and del: "delete_hold h s2 = (Inr u, t)"
    by (auto simp: ReleaseTx_def success_inv)
  from rd obtain r where r: "data s1 = data s"
      "find (\<lambda>r. ho_id r = h) (cp_currency_hold (data s)) = Some r"
      "a = ho_account_id r" "z = ho_zeny r" "c = ho_cashpoint r" by (rule readHold_Inr)
  from inv have ci: "currency_inv (cp_currency (data s1))" and
    hi: "holds_inv (hold_seq (pg_seq (data s))) (cp_currency_hold (data s))"
    using r by (auto simp: wallet_inv_def)
  from r hi have rng: "is_int64 z" "is_int64 c"
    by (auto simp: holds_inv_def hold_check_def amount_defs dest!: find_key_Some)
  from creditBalance_Inr [OF cr ci rng] r have adj: "adjusts a z c (data s) (data s2)" by simp
  note same = adjusts_frame [OF adj]
  have "hold_of (cp_currency_hold (data s)) h = Some (a, z, c)" using r by (simp add: hold_of_def)
  moreover have "settles h a z c z c (data s) (data t)"
    using del adj delete_hold_row [OF hi r(2)] same r calculation
    by (auto simp: delete_hold_def success_inv settles_def adjusts_def wallet_inv_def)
  ultimately show ?thesis by (rule that)
qed

lemma settles_of:
  assumes inv: "wallet_inv d" and adj: "adjusts a z c d d1"
    and h: "hold_of (cp_currency_hold d) h = Some (w, hz, hc)" "gz \<le> hz" "gc \<le> hc"
    and hold: "holds_inv (hold_seq (pg_seq d)) t"
      "tsum ho_zeny t = tsum ho_zeny (cp_currency_hold d) - gz"
      "tsum ho_cashpoint t = tsum ho_cashpoint (cp_currency_hold d) - gc"
      "hold_of t = (hold_of (cp_currency_hold d))
         (h := (if hz = gz \<and> hc = gc then None else Some (w, hz - gz, hc - gc)))"
  shows "settles h a gz gc z c d (d1\<lparr>cp_currency_hold := t\<rparr>)"
  using adj h hold adjusts_frame [OF adj]
  by (auto simp: settles_def adjusts_def wallet_inv_def)

lemma reduceHold_Inr:
  assumes "reduceHold h rz rc s = (Inr u, t)" and inv: "holds_inv n (cp_currency_hold (data s))"
    and row: "find (\<lambda>r. ho_id r = h) (cp_currency_hold (data s)) = Some r"
  shows "data t = (data s)\<lparr>cp_currency_hold := cp_currency_hold (data t)\<rparr> \<and>
     holds_inv n (cp_currency_hold (data t)) \<and>
     tsum ho_zeny (cp_currency_hold (data t)) = tsum ho_zeny (cp_currency_hold (data s)) - ho_zeny r + rz \<and>
     tsum ho_cashpoint (cp_currency_hold (data t)) = tsum ho_cashpoint (cp_currency_hold (data s)) - ho_cashpoint r + rc \<and>
     hold_of (cp_currency_hold (data t)) = (hold_of (cp_currency_hold (data s)))
       (h := (if rz = 0 \<and> rc = 0 then None else Some (ho_account_id r, rz, rc)))"
proof (cases "rz = 0 \<and> rc = 0")
  case True
  with assms(1) delete_hold_row [OF inv row] show ?thesis
    by (auto simp: reduceHold_def delete_hold_def success_inv)
next
  case False
  let ?f = "\<lambda>r. r\<lparr>ho_zeny := rz, ho_cashpoint := rc\<rparr>"
  from row have r: "r \<in> set (cp_currency_hold (data s))" "ho_id r = h" by (auto dest: find_key_Some)
  from False assms(1) r have chk: "hold_check (?f r)"
    and t: "data t = (data s)\<lparr>cp_currency_hold := upd_where (\<lambda>r. ho_id r = h) ?f (cp_currency_hold (data s))\<rparr>"
    by (auto simp: reduceHold_def success_inv upd_checked_Some simp del: de_Morgan_conj)
  show ?thesis
    using update_hold_row [where f = ?f, OF inv row _ chk] False by (auto simp: t)
qed

lemma SettleHoldPartialTx_Inr:
  assumes run: "SettleHoldPartialTx h a gz gc z c s = (Inr u, t)" and inv: "wallet_inv (data s)"
  shows "settles h a gz gc z c (data s) (data t) \<and> z \<le> gz \<and> c \<le> gc \<and> 0 \<le> z \<and> 0 \<le> c"
proof -
  from run have v: "validatePartialSettle gz gc z c = None"
    by (auto simp: SettleHoldPartialTx_def success_inv split: option.splits)
  then have av: "amountsValid gz gc" "amountsValid z c" "z \<le> gz" "c \<le> gc"
    by (auto simp: validatePartialSettle_def split: if_splits)
  from run v obtain w hz hc s1 s2 where rd: "readHold h s = (Inr (w, hz, hc), s1)"
    and le: "gz \<le> hz" "gc \<le> hc"
    and cr: "creditBalance a z c s1 = (Inr (), s2)"
    and red: "reduceHold h (wrap64 (hz - gz)) (wrap64 (hc - gc)) s2 = (Inr u, t)"
    by (auto simp: SettleHoldPartialTx_def success_inv)
  from rd obtain r where r: "data s1 = data s"
      "find (\<lambda>r. ho_id r = h) (cp_currency_hold (data s)) = Some r"
      "w = ho_account_id r" "hz = ho_zeny r" "hc = ho_cashpoint r" by (rule readHold_Inr)
  from inv have ci: "currency_inv (cp_currency (data s1))" and
    hi: "holds_inv (hold_seq (pg_seq (data s))) (cp_currency_hold (data s))"
    using r by (auto simp: wallet_inv_def)
  from r hi have "hold_check r" by (auto simp: holds_inv_def dest!: find_key_Some)
  with r le av have wr: "wrap64 (hz - gz) = hz - gz" "wrap64 (hc - gc) = hc - gc"
    by (auto simp: hold_check_def amountsValid_def amount_defs intro!: wrap64_id)
  from amountsValid_range [OF av(2)] creditBalance_Inr [OF cr ci]
  have adj: "adjusts a z c (data s) (data s2)" and nn: "0 \<le> z" "0 \<le> c" using r(1) by auto
  note fr = adjusts_frame [OF adj]
  from r(2) fr have row2: "find (\<lambda>r. ho_id r = h) (cp_currency_hold (data s2)) = Some r" by simp
  from hi fr have hi2: "holds_inv (hold_seq (pg_seq (data s))) (cp_currency_hold (data s2))" by simp
  from reduceHold_Inr [OF red hi2 row2] wr r fr le
  have "settles h a gz gc z c (data s) ((data s2)\<lparr>cp_currency_hold := cp_currency_hold (data t)\<rparr>)"
    by (intro settles_of [OF inv adj, of h w hz hc]) (auto simp: hold_of_def)
  with reduceHold_Inr [OF red hi2 row2] av nn show ?thesis by simp
qed

lemma SettleHold_body_Inr:
  assumes run: "bindE (readHold h) (\<lambda>(_, hz, hc).
      guardE (z > hz \<or> c > hc) (Market ErrInvalidSettlement)
        (thenE (creditBalance a z c) (delete_hold h))) s = (Inr u, t)"
    and inv: "wallet_inv (data s)" and rng: "is_int64 z" "is_int64 c"
  obtains w hz hc where "hold_of (cp_currency_hold (data s)) h = Some (w, hz, hc)"
    "z \<le> hz" "c \<le> hc" "settles h a hz hc z c (data s) (data t)"
proof -
  from run obtain w hz hc s1 s2 where rd: "readHold h s = (Inr (w, hz, hc), s1)"
    and le: "z \<le> hz" "c \<le> hc"
    and cr: "creditBalance a z c s1 = (Inr (), s2)" and del: "delete_hold h s2 = (Inr u, t)"
    by (auto simp: success_inv)
  from rd obtain r where r: "data s1 = data s"
      "find (\<lambda>r. ho_id r = h) (cp_currency_hold (data s)) = Some r"
      "w = ho_account_id r" "hz = ho_zeny r" "hc = ho_cashpoint r" by (rule readHold_Inr)
  from inv have ci: "currency_inv (cp_currency (data s1))" and
    hi: "holds_inv (hold_seq (pg_seq (data s))) (cp_currency_hold (data s))"
    using r by (auto simp: wallet_inv_def)
  from creditBalance_Inr [OF cr ci rng] r(1) have adj: "adjusts a z c (data s) (data s2)" by simp
  have h: "hold_of (cp_currency_hold (data s)) h = Some (w, hz, hc)" using r by (simp add: hold_of_def)
  have "data t = (data s2)\<lparr>cp_currency_hold := del_where (\<lambda>r. ho_id r = h) (cp_currency_hold (data s))\<rparr>"
    using del adjusts_frame [OF adj] by (auto simp: delete_hold_def success_inv)
  with settles_of [OF inv adj h, of hz hc "del_where (\<lambda>r. ho_id r = h) (cp_currency_hold (data s))"]
    delete_hold_row [OF hi r(2)] r
  have "settles h a hz hc z c (data s) (data t)" by simp
  with h le show ?thesis by (rule that)
qed

lemma ensure_keeps_row:
  "find (\<lambda>r. cu_account_id r = a) t = Some r \<Longrightarrow>
   find (\<lambda>r. cu_account_id r = a) (ensure_currency b t) = Some r"
  by (cases rule: ensure_cases [of b t]) (auto simp: find_append)

lemma lockPair_Inr:
  assumes run: "lockPair p q s = (Inr (pz, pc, qz, qc), t)" and "p \<noteq> q"
  shows "(pz, pc) = bal (cp_currency (data s)) p \<and> (qz, qc) = bal (cp_currency (data s)) q \<and>
    (data t = (data s)\<lparr>cp_currency := ensure_currency q (ensure_currency p (cp_currency (data s)))\<rparr> \<or>
     data t = (data s)\<lparr>cp_currency := ensure_currency p (ensure_currency q (cp_currency (data s)))\<rparr>)"
proof (cases "q < p")
  case True
  with run \<open>p \<noteq> q\<close> obtain s1 where "lockBalance q s = (Inr (qz, qc), s1)" "lockBalance p s1 = (Inr (pz, pc), t)"
    by (auto simp: lockPair_def success_inv)
  then show ?thesis by (auto dest!: lockBalance_Inr)
next
  case False
  with run \<open>p \<noteq> q\<close> obtain s1 where "lockBalance p s = (Inr (pz, pc), s1)" "lockBalance q s1 = (Inr (qz, qc), t)"
    by (auto simp: lockPair_def success_inv)
  then show ?thesis by (auto dest!: lockBalance_Inr)
qed

lemma ChargeTx_Inr:
  assumes run: "ChargeTx p q pz pc z c s = (Inr u, t)" and inv: "currency_inv (cp_currency (data s))"
  obtains d where "p \<noteq> q" "z \<le> pz" "c \<le> pc" "0 \<le> z" "0 \<le> c"
    "pz \<le> fst (bal (cp_currency (data s)) p)" "pc \<le> snd (bal (cp_currency (data s)) p)"
    "adjusts p (- pz) (- pc) (data s) d" "adjusts q z c d (data t)"
proof -
  from run have v: "validateCharge p q pz pc z c = None"
    by (auto simp: ChargeTx_def success_inv split: option.splits)
  then have av: "p \<noteq> q" "amountsValid z c" "z \<le> pz" "c \<le> pc"
    by (auto simp: validateCharge_def split: if_splits)
  from run v obtain bz bc qz qc s1 s2 where lk: "lockPair p q s = (Inr (bz, bc, qz, qc), s1)"
    and deb: "applyDebit p bz bc pz pc s1 = (Inr (), s2)"
    and cre: "applyCredit q qz qc z c s2 = (Inr u, t)"
    by (auto simp: ChargeTx_def success_inv)
  from lockPair_Inr [OF lk av(1)] obtain a b where
    b: "(bz, bc) = bal (cp_currency (data s)) p" "(qz, qc) = bal (cp_currency (data s)) q" and
    d1: "data s1 = (data s)\<lparr>cp_currency := ensure_currency b (ensure_currency a (cp_currency (data s)))\<rparr>"
    and ab: "{a, b} = {p, q}" by blast
  from inv d1 have i1: "currency_inv (cp_currency (data s1))" by simp
  have "p \<in> cu_account_id ` set (cp_currency (data s1))" and qin: "q \<in> cu_account_id ` set (cp_currency (data s1))"
    using ab by (auto simp: d1 accounts_ensure)
  from account_row [OF this(1)] obtain r where
    r: "find (\<lambda>r. cu_account_id r = p) (cp_currency (data s1)) = Some r"
      "bal (cp_currency (data s1)) p = (cu_zeny r, cu_cashpoint r)" .
  from applyDebit_Inr [OF deb i1 r(1)] r(2) b d1
  have adj1: "adjusts p (- pz) (- pc) (data s1) (data s2)" and le: "pz \<le> bz" "pc \<le> bc" by auto
  from qin adj1 have "q \<in> cu_account_id ` set (cp_currency (data s2))" by (auto simp: adjusts_def)
  from account_row [OF this] obtain r2 where
    r2: "find (\<lambda>r. cu_account_id r = q) (cp_currency (data s2)) = Some r2"
      "bal (cp_currency (data s2)) q = (cu_zeny r2, cu_cashpoint r2)" .
  from adj1 av(1) d1 have "bal (cp_currency (data s2)) q = bal (cp_currency (data s)) q"
    by (auto simp: adjusts_def)
  with r2 b have cur: "qz = cu_zeny r2" "qc = cu_cashpoint r2" by auto
  from adj1 have "currency_inv (cp_currency (data s2))" by (simp add: adjusts_def)
  from applyCredit_Inr [OF cre this r2(1) cur] amountsValid_range [OF av(2)]
  have adj2: "adjusts q z c (data s2) (data t)" and nn: "0 \<le> z" "0 \<le> c" by auto
  from adj1 have "adjusts p (- pz) (- pc) (data s) (data s2)"
    unfolding d1 by (rule adjusts_ensure2)
  with av nn le b adj2 show ?thesis by (intro that [of "data s2"]) (auto simp: prod_eq_iff)
qed

section \<open>The wallet as a ledger\<close>

text \<open>The public operations, so that a history of calls is a list of them.\<close>

datatype wallet_op =
    OpHold int int int
  | OpRelease int
  | OpSettleHold int int int int
  | OpSettlePartial int int int int int int
  | OpCharge int int int int int int
  | OpBurn int int int

fun run_wallet_op :: "wallet_op \<Rightarrow> unit pg_prog" where
  "run_wallet_op (OpHold a z c) = bindE (wallet_Hold a z c) (\<lambda>_. retE ())"
| "run_wallet_op (OpRelease h) = wallet_Release h"
| "run_wallet_op (OpSettleHold h a z c) = SettleHold h a z c"
| "run_wallet_op (OpSettlePartial h a gz gc z c) = SettleHoldPartial h a gz gc z c"
| "run_wallet_op (OpCharge p q pz pc z c) = wallet_Charge p q pz pc z c"
| "run_wallet_op (OpBurn a z c) = wallet_Burn a z c"

record ledger =
  lg_bal :: "int \<Rightarrow> int \<times> int"
  lg_hold :: "int \<Rightarrow> (int \<times> int \<times> int) option"

definition ledger_of :: "pgdb \<Rightarrow> ledger" where
  "ledger_of d = \<lparr>lg_bal = bal (cp_currency d), lg_hold = hold_of (cp_currency_hold d)\<rparr>"

definition ladd :: "int \<Rightarrow> int \<Rightarrow> int \<Rightarrow> ledger \<Rightarrow> ledger" where
  "ladd a z c L = L\<lparr>lg_bal := (lg_bal L)(a := (fst (lg_bal L a) + z, snd (lg_bal L a) + c))\<rparr>"

definition lset :: "int \<Rightarrow> (int \<times> int \<times> int) option \<Rightarrow> ledger \<Rightarrow> ledger" where
  "lset h v L = L\<lparr>lg_hold := (lg_hold L)(h := v)\<rparr>"

definition affords :: "ledger \<Rightarrow> int \<Rightarrow> int \<Rightarrow> int \<Rightarrow> bool" where
  "affords L a z c \<longleftrightarrow> z \<le> fst (lg_bal L a) \<and> c \<le> snd (lg_bal L a)"

text \<open>The promised step of every operation.\<close>

inductive ledger_step :: "wallet_op \<Rightarrow> ledger \<Rightarrow> ledger \<Rightarrow> bool" where
  hold: "amountsValid z c \<Longrightarrow> affords L a z c \<Longrightarrow> lg_hold L i = None \<Longrightarrow>
    ledger_step (OpHold a z c) L (lset i (Some (a, z, c)) (ladd a (- z) (- c) L))"
| release: "lg_hold L h = Some (a, z, c) \<Longrightarrow>
    ledger_step (OpRelease h) L (lset h None (ladd a z c L))"
| settle: "amountsValid z c \<Longrightarrow> lg_hold L h = Some (w, hz, hc) \<Longrightarrow> z \<le> hz \<Longrightarrow> c \<le> hc \<Longrightarrow>
    ledger_step (OpSettleHold h a z c) L (lset h None (ladd a z c L))"
| partial: "validatePartialSettle gz gc z c = None \<Longrightarrow> lg_hold L h = Some (w, hz, hc) \<Longrightarrow>
    gz \<le> hz \<Longrightarrow> gc \<le> hc \<Longrightarrow>
    ledger_step (OpSettlePartial h a gz gc z c) L
      (lset h (if hz = gz \<and> hc = gc then None else Some (w, hz - gz, hc - gc)) (ladd a z c L))"
| charge: "validateCharge p q pz pc z c = None \<Longrightarrow> affords L p pz pc \<Longrightarrow>
    ledger_step (OpCharge p q pz pc z c) L (ladd q z c (ladd p (- pz) (- pc) L))"
| burn: "amountsValid z c \<Longrightarrow> affords L a z c \<Longrightarrow>
    ledger_step (OpBurn a z c) L (ladd a (- z) (- c) L)"

inductive_cases ledger_stepE: "ledger_step x L M"

lemmas ledger_defs = ledger_of_def ladd_def lset_def affords_def

lemma wallet_inv_rb: "wallet_inv a \<Longrightarrow> pg_grows a b \<Longrightarrow> wallet_inv (pg_rb a b)"
  by (auto simp: wallet_inv_def pg_rb_def pg_grows_def holds_inv_def)

lemma ledger_of_rb [simp]: "ledger_of (pg_rb a b) = ledger_of a"
  by (simp add: ledger_of_def pg_rb_def)

lemma supply_rb [simp]: "zeny_supply (pg_rb a b) = zeny_supply a" "cash_supply (pg_rb a b) = cash_supply a"
  by (simp_all add: zeny_supply_def cash_supply_def pg_rb_def)

lemma adjusts_ledger:
  "adjusts a z c d d' \<Longrightarrow> ledger_of d' = ladd a z c (ledger_of d)"
  using adjusts_frame [of a z c d d'] by (simp add: ledger_defs adjusts_def)

lemma adjusts_wallet_inv: "adjusts a z c d d' \<Longrightarrow> wallet_inv d \<Longrightarrow> wallet_inv d'"
  using adjusts_frame [of a z c d d'] by (simp add: wallet_inv_def adjusts_def)

lemma adjusts_supply:
  "adjusts a z c d d' \<Longrightarrow> zeny_supply d' = zeny_supply d + z \<and> cash_supply d' = cash_supply d + c"
  using adjusts_frame [of a z c d d'] by (simp add: zeny_supply_def cash_supply_def adjusts_def)

lemma settles_ledger:
  "settles h a gz gc z c d d' \<Longrightarrow> \<exists>w hz hc. lg_hold (ledger_of d) h = Some (w, hz, hc) \<and> gz \<le> hz \<and> gc \<le> hc \<and>
     ledger_of d' = lset h (if hz = gz \<and> hc = gc then None else Some (w, hz - gz, hc - gc)) (ladd a z c (ledger_of d))"
  by (auto simp: ledger_defs settles_def)

lemma settles_supply:
  "settles h a gz gc z c d d' \<Longrightarrow>
   zeny_supply d' = zeny_supply d + z - gz \<and> cash_supply d' = cash_supply d + c - gc"
  by (auto simp: zeny_supply_def cash_supply_def settles_def)

subsection \<open>Bodies\<close>

lemma Hold_body_Inr:
  assumes "thenE (debitBalance a z c) (sql Sql (insert_hold a z c)) s = (Inr i, t)" and "wallet_inv (data s)"
  shows "wallet_inv (data t) \<and> lg_hold (ledger_of (data s)) i = None \<and>
    affords (ledger_of (data s)) a z c \<and>
    ledger_of (data t) = lset i (Some (a, z, c)) (ladd a (- z) (- c) (ledger_of (data s))) \<and>
    zeny_supply (data t) = zeny_supply (data s) \<and> cash_supply (data t) = cash_supply (data s)"
proof -
  from assms(1) obtain s1 where deb: "debitBalance a z c s = (Inr (), s1)"
    and ins: "insert_hold a z c (data s1) = Some (i, data t)" by (auto simp: success_inv)
  from assms(2) have "currency_inv (cp_currency (data s))" by (simp add: wallet_inv_def)
  from debitBalance_Inr [OF deb this] have adj: "adjusts a (- z) (- c) (data s) (data s1)"
    and aff: "affords (ledger_of (data s)) a z c" by (auto simp: ledger_defs)
  note fr = adjusts_frame [OF adj]
  let ?r = "\<lparr>ho_id = i, ho_account_id = a, ho_zeny = z, ho_cashpoint = c\<rparr>"
  from ins have i: "i = hold_seq (pg_seq (data s)) + 1" and chk: "hold_check ?r"
    and t: "data t = (data s1)\<lparr>cp_currency_hold := cp_currency_hold (data s) @ [?r],
      pg_seq := (pg_seq (data s))\<lparr>hold_seq := i\<rparr>\<rparr>"
    by (auto simp: insert_hold_def Let_def ins_checked_Some fr)
  from assms(2) have fresh: "\<forall>r \<in> set (cp_currency_hold (data s)). ho_id r < i"
    by (auto simp: wallet_inv_def holds_inv_def i)
  then have none: "find (\<lambda>r. ho_id r = i) (cp_currency_hold (data s)) = None"
    by (auto simp: find_None_iff)
  have ho: "hold_of (cp_currency_hold (data s) @ [?r]) = (hold_of (cp_currency_hold (data s)))(i := Some (a, z, c))"
    using none by (intro ext) (auto simp: hold_of_def find_append split: option.splits)
  have "wallet_inv (data t)"
    using assms(2) adj chk fresh by (force simp: wallet_inv_def holds_inv_def t adjusts_def i)
  moreover have "ledger_of (data t) = lset i (Some (a, z, c)) (ladd a (- z) (- c) (ledger_of (data s)))"
    using adj by (simp add: ledger_defs t ho adjusts_def)
  moreover have "zeny_supply (data t) = zeny_supply (data s) \<and> cash_supply (data t) = cash_supply (data s)"
    using adj by (simp add: zeny_supply_def cash_supply_def t adjusts_def)
  ultimately show ?thesis using none aff by (simp add: ledger_of_def hold_of_def)
qed

lemma Release_body_Inr:
  assumes "ReleaseTx h s = (Inr u, t)" and "wallet_inv (data s)"
  shows "wallet_inv (data t) \<and> ledger_step (OpRelease h) (ledger_of (data s)) (ledger_of (data t)) \<and>
    zeny_supply (data t) = zeny_supply (data s) \<and> cash_supply (data t) = cash_supply (data s)"
proof -
  from assms obtain a z c where h: "hold_of (cp_currency_hold (data s)) h = Some (a, z, c)"
    and st: "settles h a z c z c (data s) (data t)" by (rule ReleaseTx_Inr)
  from settles_ledger [OF st] h
  have "ledger_of (data t) = lset h None (ladd a z c (ledger_of (data s)))" by (simp add: ledger_of_def)
  with h have "ledger_step (OpRelease h) (ledger_of (data s)) (ledger_of (data t))"
    by (auto simp: ledger_of_def intro: ledger_step.release)
  with st settles_supply [OF st] show ?thesis by (simp add: settles_def)
qed

lemma SettlePartial_body_Inr:
  assumes run: "SettleHoldPartialTx h a gz gc z c s = (Inr u, t)" and inv: "wallet_inv (data s)"
  shows "wallet_inv (data t) \<and>
    ledger_step (OpSettlePartial h a gz gc z c) (ledger_of (data s)) (ledger_of (data t)) \<and>
    zeny_supply (data t) = zeny_supply (data s) - (gz - z) \<and> z \<le> gz \<and>
    cash_supply (data t) = cash_supply (data s) - (gc - c) \<and> c \<le> gc"
proof -
  from run have v: "validatePartialSettle gz gc z c = None"
    by (auto simp: SettleHoldPartialTx_def success_inv split: option.splits)
  from SettleHoldPartialTx_Inr [OF run inv]
  have st: "settles h a gz gc z c (data s) (data t)" and le: "z \<le> gz" "c \<le> gc" by auto
  from settles_ledger [OF st] v
  have "ledger_step (OpSettlePartial h a gz gc z c) (ledger_of (data s)) (ledger_of (data t))"
    by (metis ledger_step.partial)
  with st settles_supply [OF st] le show ?thesis by (simp add: settles_def)
qed

lemma SettleHold_body:
  assumes run: "bindE (readHold h) (\<lambda>(_, hz, hc).
      guardE (z > hz \<or> c > hc) (Market ErrInvalidSettlement)
        (thenE (creditBalance a z c) (delete_hold h))) s = (Inr u, t)"
    and inv: "wallet_inv (data s)" and v: "amountsValid z c"
  shows "wallet_inv (data t) \<and> ledger_step (OpSettleHold h a z c) (ledger_of (data s)) (ledger_of (data t)) \<and>
    zeny_supply (data t) \<le> zeny_supply (data s) \<and> cash_supply (data t) \<le> cash_supply (data s)"
proof -
  from amountsValid_range [OF v] have "is_int64 z" "is_int64 c" by auto
  from SettleHold_body_Inr [OF run inv this] obtain w hz hc
    where h: "hold_of (cp_currency_hold (data s)) h = Some (w, hz, hc)" and le: "z \<le> hz" "c \<le> hc"
      and st: "settles h a hz hc z c (data s) (data t)" .
  from settles_ledger [OF st] h
  have "ledger_of (data t) = lset h None (ladd a z c (ledger_of (data s)))" by (simp add: ledger_of_def)
  with h le v have "ledger_step (OpSettleHold h a z c) (ledger_of (data s)) (ledger_of (data t))"
    by (auto simp: ledger_of_def intro: ledger_step.settle)
  with st settles_supply [OF st] le show ?thesis by (simp add: settles_def)
qed

lemma Charge_body_Inr:
  assumes run: "ChargeTx p q pz pc z c s = (Inr u, t)" and inv: "wallet_inv (data s)"
  shows "wallet_inv (data t) \<and>
    ledger_step (OpCharge p q pz pc z c) (ledger_of (data s)) (ledger_of (data t)) \<and>
    zeny_supply (data t) = zeny_supply (data s) - (pz - z) \<and> z \<le> pz \<and>
    cash_supply (data t) = cash_supply (data s) - (pc - c) \<and> c \<le> pc"
proof -
  from run have v: "validateCharge p q pz pc z c = None"
    by (auto simp: ChargeTx_def success_inv split: option.splits)
  from inv have ci: "currency_inv (cp_currency (data s))" by (simp add: wallet_inv_def)
  from ChargeTx_Inr [OF run ci] obtain d where le: "z \<le> pz" "c \<le> pc"
    and aff: "pz \<le> fst (bal (cp_currency (data s)) p)" "pc \<le> snd (bal (cp_currency (data s)) p)"
    and a1: "adjusts p (- pz) (- pc) (data s) d" and a2: "adjusts q z c d (data t)" by metis
  have "ledger_step (OpCharge p q pz pc z c) (ledger_of (data s)) (ledger_of (data t))"
    using ledger_step.charge [OF v, of "ledger_of (data s)"] aff
    by (simp add: adjusts_ledger [OF a1] adjusts_ledger [OF a2]) (simp add: ledger_defs)
  moreover have "wallet_inv (data t)"
    using adjusts_wallet_inv [OF a2 adjusts_wallet_inv [OF a1 inv]] .
  ultimately show ?thesis using le adjusts_supply [OF a1] adjusts_supply [OF a2] by simp
qed

lemma Burn_body_Inr:
  assumes run: "debitBalance a z c s = (Inr u, t)" and inv: "wallet_inv (data s)" and v: "amountsValid z c"
  shows "wallet_inv (data t) \<and> ledger_step (OpBurn a z c) (ledger_of (data s)) (ledger_of (data t)) \<and>
    zeny_supply (data t) = zeny_supply (data s) - z \<and> cash_supply (data t) = cash_supply (data s) - c"
proof -
  from inv have "currency_inv (cp_currency (data s))" by (simp add: wallet_inv_def)
  from debitBalance_Inr [OF run this] have adj: "adjusts a (- z) (- c) (data s) (data t)"
    and aff: "affords (ledger_of (data s)) a z c" by (auto simp: ledger_defs)
  from ledger_step.burn [OF v aff] adjusts_ledger [OF adj] adjusts_wallet_inv [OF adj inv] adjusts_supply [OF adj]
  show ?thesis by simp
qed

subsection \<open>Sequences only grow\<close>

lemma pg_grows_eq: "pg_seq d' = pg_seq d \<Longrightarrow> pg_grows d d'"
  by (simp add: pg_grows_def)

lemma lockBalance_grows [intro]: "steps pg_grows (lockBalance a)"
  unfolding lockBalance_def by (intro pg.grows_then pg.grows_exec pg.grows_query_row pg_grows_eq) simp

lemma applyDebit_grows [intro]: "steps pg_grows (applyDebit a cz cc z c)"
  unfolding applyDebit_def by (intro pg.grows_guard pg.grows_exec_opt) (auto simp: pg_grows_def)

lemma applyCredit_grows [intro]: "steps pg_grows (applyCredit a cz cc z c)"
  unfolding applyCredit_def
  by (auto split: sum.split intro!: pg.grows_exec_opt simp: pg_grows_def)

lemma debitBalance_grows [intro]: "steps pg_grows (debitBalance a z c)"
  unfolding debitBalance_def by (auto intro: pg.grows_bind)

lemma creditBalance_grows [intro]: "steps pg_grows (creditBalance a z c)"
  unfolding creditBalance_def by (auto intro: pg.grows_bind)

lemma insert_hold_grows [intro]: "steps pg_grows (sql Sql (insert_hold a z c))"
  by (rule pg.grows_sql) (auto simp: insert_hold_def Let_def pg_grows_def)

lemma delete_hold_grows [intro]: "steps pg_grows (delete_hold h)"
  unfolding delete_hold_def by (intro pg.grows_exec pg_grows_eq) simp

lemma readHold_grows [intro]: "steps pg_grows (readHold h)"
  unfolding readHold_def by (rule pg.grows_query_row)

lemma reduceHold_grows [intro]: "steps pg_grows (reduceHold h z c)"
  unfolding reduceHold_def by (auto intro!: pg.grows_exec_opt simp: pg_grows_def)

lemma ReleaseTx_grows [intro]: "steps pg_grows (ReleaseTx h)"
  unfolding ReleaseTx_def by (auto intro!: pg.grows_bind pg.grows_then)

lemma SettleHoldPartialTx_grows [intro]: "steps pg_grows (SettleHoldPartialTx h a gz gc z c)"
  unfolding SettleHoldPartialTx_def
  by (auto split: option.split intro!: pg.grows_bind pg.grows_then pg.grows_guard)

lemma lockPair_grows [intro]: "steps pg_grows (lockPair p q)"
  unfolding lockPair_def by (auto simp: Let_def intro!: pg.grows_bind)

lemma ChargeTx_grows [intro]: "steps pg_grows (ChargeTx p q pz pc z c)"
  unfolding ChargeTx_def by (auto split: option.split intro!: pg.grows_bind pg.grows_then)

subsection \<open>The wallet keeps its contract\<close>

lemma pgTx_simulates:
  assumes "steps pg_grows m" and inv: "wallet_inv (data s)" and run: "pgTx m s = (r, t)"
    and body: "\<And>u x v. wallet_inv (data u) \<Longrightarrow> m u = (Inr x, v) \<Longrightarrow>
      wallet_inv (data v) \<and> R (ledger_of (data u)) (ledger_of (data v))"
  shows "wallet_inv (data t) \<and>
    (ledger_of (data t) = ledger_of (data s) \<and> (\<exists>e. r = Inl e) \<or> R (ledger_of (data s)) (ledger_of (data t)))"
  using assms(1) run unfolding pgTx_def
proof (cases rule: pg.tx_outcome)
  case (undone d e')
  with inv show ?thesis by (simp add: wallet_inv_rb)
next
  case (committed u x v)
  with inv body [of u x v] show ?thesis by simp
qed

lemma guard_simulates:
  assumes "guardE b e m s = (r, t)" and "I (data s)"
    and "\<not> b \<Longrightarrow> m s = (r, t) \<Longrightarrow> I (data t) \<and> (f (data t) = f (data s) \<and> (\<exists>e. r = Inl e) \<or> R (f (data s)) (f (data t)))"
  shows "I (data t) \<and> (f (data t) = f (data s) \<and> (\<exists>e. r = Inl e) \<or> R (f (data s)) (f (data t)))"
  using assms by (cases b) (auto simp: guardE_def failE_def)

lemma wallet_Hold_simulates:
  assumes "wallet_Hold a z c s = (r, t)" and inv: "wallet_inv (data s)"
  shows "wallet_inv (data t) \<and> (ledger_of (data t) = ledger_of (data s) \<and> (\<exists>e. r = Inl e) \<or>
    ledger_step (OpHold a z c) (ledger_of (data s)) (ledger_of (data t)))"
  using assms unfolding wallet_Hold_def
proof (rule guard_simulates)
  assume v: "\<not> \<not> amountsValid z c"
    and run: "pgTx (thenE (debitBalance a z c) (sql Sql (insert_hold a z c))) s = (r, t)"
  show "wallet_inv (data t) \<and> (ledger_of (data t) = ledger_of (data s) \<and> (\<exists>e. r = Inl e) \<or>
    ledger_step (OpHold a z c) (ledger_of (data s)) (ledger_of (data t)))"
  proof (rule pgTx_simulates [OF _ inv run])
    fix u x v
    assume "wallet_inv (data u)" and "thenE (debitBalance a z c) (sql Sql (insert_hold a z c)) u = (Inr x, v)"
    from Hold_body_Inr [OF this(2,1)] v
    show "wallet_inv (data v) \<and> ledger_step (OpHold a z c) (ledger_of (data u)) (ledger_of (data v))"
      by (auto intro: ledger_step.hold)
  qed auto
qed

lemma SettleHold_simulates:
  assumes "SettleHold h a z c s = (r, t)" and inv: "wallet_inv (data s)"
  shows "wallet_inv (data t) \<and> (ledger_of (data t) = ledger_of (data s) \<and> (\<exists>e. r = Inl e) \<or>
    ledger_step (OpSettleHold h a z c) (ledger_of (data s)) (ledger_of (data t)))"
  using assms unfolding SettleHold_def
proof (rule guard_simulates)
  let ?body = "bindE (readHold h) (\<lambda>(_, hz, hc). guardE (z > hz \<or> c > hc) (Market ErrInvalidSettlement)
        (thenE (creditBalance a z c) (delete_hold h)))"
  assume v: "\<not> \<not> amountsValid z c" and run: "pgTx ?body s = (r, t)"
  have "steps pg_grows ?body" by (auto intro!: pg.grows_bind)
  then show "wallet_inv (data t) \<and> (ledger_of (data t) = ledger_of (data s) \<and> (\<exists>e. r = Inl e) \<or>
    ledger_step (OpSettleHold h a z c) (ledger_of (data s)) (ledger_of (data t)))"
  proof (rule pgTx_simulates [OF _ inv run])
    fix u x w
    assume "wallet_inv (data u)" and "?body u = (Inr x, w)"
    from SettleHold_body [OF this(2,1)] v
    show "wallet_inv (data w) \<and> ledger_step (OpSettleHold h a z c) (ledger_of (data u)) (ledger_of (data w))"
      by blast
  qed
qed

lemma wallet_Burn_simulates:
  assumes "wallet_Burn a z c s = (r, t)" and inv: "wallet_inv (data s)"
  shows "wallet_inv (data t) \<and> (ledger_of (data t) = ledger_of (data s) \<and> (\<exists>e. r = Inl e) \<or>
    ledger_step (OpBurn a z c) (ledger_of (data s)) (ledger_of (data t)))"
  using assms unfolding wallet_Burn_def
proof (rule guard_simulates)
  assume v: "\<not> \<not> amountsValid z c" and run: "pgTx (debitBalance a z c) s = (r, t)"
  show "wallet_inv (data t) \<and> (ledger_of (data t) = ledger_of (data s) \<and> (\<exists>e. r = Inl e) \<or>
    ledger_step (OpBurn a z c) (ledger_of (data s)) (ledger_of (data t)))"
  proof (rule pgTx_simulates [OF debitBalance_grows inv run])
    fix u x w
    assume "wallet_inv (data u)" and "debitBalance a z c u = (Inr x, w)"
    from Burn_body_Inr [OF this(2,1)] v
    show "wallet_inv (data w) \<and> ledger_step (OpBurn a z c) (ledger_of (data u)) (ledger_of (data w))"
      by blast
  qed
qed

lemma run_wallet_op_simulates:
  assumes "run_wallet_op x s = (r, t)" and inv: "wallet_inv (data s)"
  shows "wallet_inv (data t) \<and> (ledger_of (data t) = ledger_of (data s) \<and> (\<exists>e. r = Inl e) \<or>
    ledger_step x (ledger_of (data s)) (ledger_of (data t)))"
proof (cases x)
  case (OpHold a z c)
  obtain r' t' where "wallet_Hold a z c s = (r', t')" by fastforce
  with assms OpHold have "t' = t" "(\<exists>e. r = Inl e) \<longleftrightarrow> (\<exists>e. r' = Inl e)" "wallet_Hold a z c s = (r', t)"
    by (auto simp: bindE_def retE_def split: sum.splits)
  with wallet_Hold_simulates [OF this(3) inv] OpHold show ?thesis by auto
next
  case (OpRelease h)
  with assms(1) have "pgTx (ReleaseTx h) s = (r, t)" by (simp add: wallet_Release_def)
  from pgTx_simulates [where R = "ledger_step (OpRelease h)", OF ReleaseTx_grows inv this] Release_body_Inr
  show ?thesis unfolding OpRelease by metis
next
  case (OpSettleHold h a z c)
  with assms(1) SettleHold_simulates [OF _ inv] show ?thesis by simp
next
  case (OpSettlePartial h a gz gc z c)
  with assms(1) have "pgTx (SettleHoldPartialTx h a gz gc z c) s = (r, t)" by (simp add: SettleHoldPartial_def)
  from pgTx_simulates [where R = "ledger_step (OpSettlePartial h a gz gc z c)",
      OF SettleHoldPartialTx_grows inv this] SettlePartial_body_Inr
  show ?thesis unfolding OpSettlePartial by metis
next
  case (OpCharge p q pz pc z c)
  with assms(1) have "pgTx (ChargeTx p q pz pc z c) s = (r, t)" by (simp add: wallet_Charge_def)
  from pgTx_simulates [where R = "ledger_step (OpCharge p q pz pc z c)", OF ChargeTx_grows inv this]
    Charge_body_Inr
  show ?thesis unfolding OpCharge by metis
next
  case (OpBurn a z c)
  with assms(1) wallet_Burn_simulates [OF _ inv] show ?thesis by simp
qed

interpretation wallet: repository wallet_inv ledger_of run_wallet_op ledger_step
  by unfold_locales (rule run_wallet_op_simulates)

subsection \<open>No operation mints money\<close>

definition supply_le :: "int \<Rightarrow> int \<Rightarrow> pgdb \<Rightarrow> bool" where
  "supply_le Z C d \<longleftrightarrow> wallet_inv d \<and> zeny_supply d \<le> Z \<and> cash_supply d \<le> C"

lemma supply_le_rb: "supply_le Z C a \<Longrightarrow> pg_grows a b \<Longrightarrow> supply_le Z C (pg_rb a b)"
  by (simp add: supply_le_def wallet_inv_rb)

lemma pgTx_keeps:
  "steps pg_grows m \<Longrightarrow> (\<And>a b. I a \<Longrightarrow> pg_grows a b \<Longrightarrow> I (pg_rb a b)) \<Longrightarrow>
   (\<And>u x v. I (data u) \<Longrightarrow> m u = (Inr x, v) \<Longrightarrow> I (data v)) \<Longrightarrow> keeps I (pgTx m)"
  unfolding pgTx_def by (rule pg.tx_keeps)

lemma run_wallet_op_supply: "keeps (supply_le Z C) (run_wallet_op x)"
proof (cases x)
  case (OpHold a z c)
  have "keeps (supply_le Z C) (wallet_Hold a z c)" unfolding wallet_Hold_def
  proof (rule keeps_guard, rule pgTx_keeps)
    fix u i v
    assume "supply_le Z C (data u)" and "thenE (debitBalance a z c) (sql Sql (insert_hold a z c)) u = (Inr i, v)"
    then show "supply_le Z C (data v)" using Hold_body_Inr by (force simp: supply_le_def)
  qed (auto intro: supply_le_rb)
  with OpHold show ?thesis by (auto intro: keeps_bind)
next
  case (OpRelease h)
  have "keeps (supply_le Z C) (pgTx (ReleaseTx h))"
    by (rule pgTx_keeps) (auto simp: supply_le_def wallet_inv_rb dest: Release_body_Inr)
  with OpRelease show ?thesis by (simp add: wallet_Release_def)
next
  case (OpSettleHold h a z c)
  have "keeps (supply_le Z C) (SettleHold h a z c)" unfolding SettleHold_def
  proof (rule keeps_guard, rule pgTx_keeps)
    let ?body = "bindE (readHold h) (\<lambda>(_, hz, hc). guardE (z > hz \<or> c > hc) (Market ErrInvalidSettlement)
        (thenE (creditBalance a z c) (delete_hold h)))"
    show "steps pg_grows ?body" by (auto intro!: pg.grows_bind)
    fix u x v
    assume "\<not> \<not> amountsValid z c" "supply_le Z C (data u)" and "?body u = (Inr x, v)"
    then show "supply_le Z C (data v)" using SettleHold_body by (force simp: supply_le_def)
  qed (rule supply_le_rb)
  with OpSettleHold show ?thesis by simp
next
  case (OpSettlePartial h a gz gc z c)
  have "keeps (supply_le Z C) (pgTx (SettleHoldPartialTx h a gz gc z c))"
    by (rule pgTx_keeps) (auto simp: supply_le_def wallet_inv_rb dest: SettlePartial_body_Inr)
  with OpSettlePartial show ?thesis by (simp add: SettleHoldPartial_def)
next
  case (OpCharge p q pz pc z c)
  have "keeps (supply_le Z C) (pgTx (ChargeTx p q pz pc z c))"
    by (rule pgTx_keeps) (auto simp: supply_le_def wallet_inv_rb dest: Charge_body_Inr)
  with OpCharge show ?thesis by (simp add: wallet_Charge_def)
next
  case (OpBurn a z c)
  have "keeps (supply_le Z C) (wallet_Burn a z c)" unfolding wallet_Burn_def
  proof (rule keeps_guard, rule pgTx_keeps)
    fix u x v
    assume "\<not> \<not> amountsValid z c" "supply_le Z C (data u)" "debitBalance a z c u = (Inr x, v)"
    with Burn_body_Inr [of a z c u x v] amountsValid_range [of z c]
    show "supply_le Z C (data v)" by (auto simp: supply_le_def amount_defs)
  qed (auto intro: supply_le_rb)
  with OpBurn show ?thesis by simp
qed

lemma run_ops_keeps:
  "(\<And>x. keeps I (p x)) \<Longrightarrow> I (data s) \<Longrightarrow> I (data (run_ops p xs s))"
  by (induction xs arbitrary: s) (auto simp: keeps_def)

section \<open>Properties\<close>

text \<open>C1. Every public wallet operation implements its ledger step: for any behaviour of the
  database connection (any fault list) it either reports an error and leaves every balance and
  every hold unchanged, or performs exactly the step its contract promises; and the tables stay a
  ledger (one row per account and hold, every amount within its column).\<close>

theorem wallet_refines_ledger:
  assumes "wallet_inv (data s)" and "run_wallet_op x s = (r, t)"
  shows "wallet_inv (data t) \<and>
    (ledger_of (data t) = ledger_of (data s) \<and> (\<exists>e. r = Inl e) \<or>
     ledger_step x (ledger_of (data s)) (ledger_of (data t)))"
  using assms by (intro wallet.simulates)

text \<open>C2. No history of wallet operations creates money: whatever the operations, their
  arguments and the faults, the zeny and the cashpoints on balances and holds together never
  exceed what was there at the start, and no balance ever leaves its range.\<close>

theorem wallet_never_mints:
  assumes "wallet_inv (data s)"
  shows "wallet_inv (data (run_ops run_wallet_op xs s)) \<and>
    zeny_supply (data (run_ops run_wallet_op xs s)) \<le> zeny_supply (data s) \<and>
    cash_supply (data (run_ops run_wallet_op xs s)) \<le> cash_supply (data s)"
proof -
  from assms have "supply_le (zeny_supply (data s)) (cash_supply (data s)) (data s)"
    by (simp add: supply_le_def)
  from run_ops_keeps [OF run_wallet_op_supply this] show ?thesis by (simp add: supply_le_def)
qed

section \<open>Concrete instances\<close>

definition demo_bank :: "pgdb conn" where
  "demo_bank = \<lparr>data = \<lparr>cp_currency = [\<lparr>cu_account_id = 7, cu_zeny = 5000, cu_cashpoint = 20, cu_locked_until = None\<rparr>],
     cp_currency_hold = [\<lparr>ho_id = 1, ho_account_id = 8, ho_zeny = 300, ho_cashpoint = 0\<rparr>],
     cp_listing = [], cp_settlement = [], cp_deposit_processed = [], cp_withdraw_requests = [], pg_clock = 0,
     pg_seq = \<lparr>hold_seq = 1, ref_seq = 0, settle_seq = 0, withdraw_seq = 0\<rparr>\<rparr>, faults = []\<rparr>"

lemma demo_bank_inv: "wallet_inv (data demo_bank)"
  by code_simp

theorem wallet_refines_ledger_witness:
  "ledger_step (OpSettlePartial 1 7 200 0 196 0) (ledger_of (data demo_bank))
     (ledger_of (data (snd (run_wallet_op (OpSettlePartial 1 7 200 0 196 0) demo_bank))))"
proof -
  have "fst (run_wallet_op (OpSettlePartial 1 7 200 0 196 0) demo_bank) = Inr ()" by code_simp
  then have "run_wallet_op (OpSettlePartial 1 7 200 0 196 0) demo_bank =
      (Inr (), snd (run_wallet_op (OpSettlePartial 1 7 200 0 196 0) demo_bank))" by (metis prod.collapse)
  from wallet_refines_ledger [OF demo_bank_inv this] show ?thesis by simp
qed

theorem wallet_never_mints_witness:
  "zeny_supply (data (run_ops run_wallet_op [OpBurn 7 100 0, OpRelease 1, OpHold 7 1000 0] demo_bank)) \<le> 5300"
  using wallet_never_mints [OF demo_bank_inv, of "[OpBurn 7 100 0, OpRelease 1, OpHold 7 1000 0]"]
  by (simp add: demo_bank_def zeny_supply_def)

end
