(* ===== verification/Listing_Repo.thy ===== *)
theory Listing_Repo
  imports Trade_Schema
begin

text \<open>
  The listing and settlement tables of the market:
  \<open>internal/features/market/infra/postgres_listing.go\<close> and \<open>postgres_settlement.go\<close>.
  A settlement leg is an item delivery that is owed; status 1 is pending, 2 is done.
\<close>

section \<open>postgres_listing.go\<close>

definition NextRef :: "int pg_prog" where
  "NextRef = sql Sql (\<lambda>d.
     let r = ref_seq (pg_seq d) + 1
     in Some (r, d\<lparr>pg_seq := (pg_seq d)\<lparr>ref_seq := r\<rparr>\<rparr>))"

text \<open>The insert writes \<open>status = StatusActive\<close> and leaves \<open>created_at\<close> to \<open>NOW()\<close>.\<close>

definition insert_listing :: "listing \<Rightarrow> pgdb \<Rightarrow> pgdb option" where
  "insert_listing l d =
     (if list_ex (\<lambda>r. li_ID r = li_ID l) (cp_listing d) then None
      else map_option (\<lambda>t. d\<lparr>cp_listing := t\<rparr>)
        (ins_checked (\<lambda>l. listing_check l \<and> listing_columns l)
           (l\<lparr>li_Status := StatusActive, li_CreatedAt := pg_clock d\<rparr>) (cp_listing d)))"

definition listing_Create :: "listing \<Rightarrow> unit pg_prog" where
  "listing_Create l = exec_opt Sql (insert_listing l)"

definition listing_Get :: "int \<Rightarrow> listing pg_prog" where
  "listing_Get i = query_row Sql (Market ErrListingNotFound)
     (\<lambda>d. find (\<lambda>l. li_ID l = i) (cp_listing d))"

definition listPage :: "(listing \<Rightarrow> bool) \<Rightarrow> int \<Rightarrow> int \<Rightarrow> (listing list \<times> int) pg_prog" where
  "listPage cond limit offset =
     bindE (query Sql (\<lambda>d. int (length (filter cond (cp_listing d))))) (\<lambda>total.
     bindE (sql Sql (\<lambda>d.
         if limit < 0 \<or> offset < 0 then None
         else Some (take (nat limit) (drop (nat offset)
                (sort_key (\<lambda>l. - li_CreatedAt l) (filter cond (cp_listing d)))), d))) (\<lambda>out.
     retE (out, total)))"

definition listing_Browse :: "int \<Rightarrow> int \<Rightarrow> int \<Rightarrow> (listing list \<times> int) pg_prog" where
  "listing_Browse kind limit offset =
     listPage (\<lambda>l. li_Status l = 1 \<and> (kind = 0 \<or> li_Kind l = kind)) limit offset"

definition listing_BySeller :: "int \<Rightarrow> int \<Rightarrow> int \<Rightarrow> (listing list \<times> int) pg_prog" where
  "listing_BySeller accountID limit offset =
     listPage (\<lambda>l. li_SellerAccountID l = accountID) limit offset"

definition TakeUnitsTx :: "int \<Rightarrow> int \<Rightarrow> (listing \<times> bool) pg_prog" where
  "TakeUnitsTx i units =
     bindE (query_row Sql (Market ErrListingNotFound)
              (\<lambda>d. find (\<lambda>l. li_ID l = i) (cp_listing d))) (\<lambda>listing.
     guardE (li_Status listing \<noteq> StatusActive) (Market ErrListingInactive)
     (guardE (units \<le> 0 \<or> units > li_RemainingQuantity listing) (Market ErrInsufficientUnits)
     (let remaining = li_RemainingQuantity listing - units;
          depleted = (remaining = 0);
          status = (if depleted then StatusTaken else StatusActive)
      in thenE (exec_opt Sql (\<lambda>d. map_option (\<lambda>t. d\<lparr>cp_listing := t\<rparr>)
                 (upd_checked listing_check (\<lambda>l. li_ID l = i)
                    (\<lambda>l. l\<lparr>li_RemainingQuantity := remaining, li_Status := status\<rparr>)
                    (cp_listing d))))
           (retE (listing\<lparr>li_RemainingQuantity := remaining, li_Status := status\<rparr>, depleted)))))"

definition TakeUnits :: "int \<Rightarrow> int \<Rightarrow> (listing \<times> bool) pg_prog" where
  "TakeUnits i units = pgTx (TakeUnitsTx i units)"

definition SetStatusTx :: "int \<Rightarrow> int \<Rightarrow> unit pg_prog" where
  "SetStatusTx i status = exec Sql (\<lambda>d. d\<lparr>cp_listing :=
     upd_where (\<lambda>l. li_ID l = i) (\<lambda>l. l\<lparr>li_Status := status\<rparr>) (cp_listing d)\<rparr>)"

definition SetStatus :: "int \<Rightarrow> int \<Rightarrow> unit pg_prog" where
  "SetStatus i status = SetStatusTx i status"

definition DueForExpiry :: "int \<Rightarrow> int \<Rightarrow> listing list pg_prog" where
  "DueForExpiry now limit = sql Sql (\<lambda>d.
     if limit < 0 then None
     else Some (take (nat limit) (sort_key li_ExpiresAt
            (filter (\<lambda>l. li_Status l = 1 \<and> li_ExpiresAt l < now) (cp_listing d))), d))"

definition AllRefs :: "int list pg_prog" where
  "AllRefs = query Sql (\<lambda>d. map li_ID (cp_listing d))"

section \<open>postgres_settlement.go\<close>

definition EnqueueTx :: "settlement_leg \<Rightarrow> unit pg_prog" where
  "EnqueueTx leg = exec Sql (\<lambda>d.
     let i = settle_seq (pg_seq d) + 1
     in d\<lparr>cp_settlement := cp_settlement d @ [\<lparr>se_leg = leg\<lparr>leg_ID := i\<rparr>, se_status = 1\<rparr>],
          pg_seq := (pg_seq d)\<lparr>settle_seq := i\<rparr>\<rparr>)"

definition Enqueue :: "settlement_leg \<Rightarrow> unit pg_prog" where
  "Enqueue leg = EnqueueTx leg"

definition Pending :: "int \<Rightarrow> settlement_leg list pg_prog" where
  "Pending limit = sql Sql (\<lambda>d.
     if limit < 0 then None
     else Some (take (nat limit) (sort_key leg_ID
            (map se_leg (filter (\<lambda>s. se_status s = 1) (cp_settlement d)))), d))"

definition PendingRefs :: "int list pg_prog" where
  "PendingRefs = query Sql (\<lambda>d.
     remdups (map (leg_EscrowRef \<circ> se_leg) (filter (\<lambda>s. se_status s = 1) (cp_settlement d))))"

definition MarkDone :: "int \<Rightarrow> unit pg_prog" where
  "MarkDone i = exec Sql (\<lambda>d. d\<lparr>cp_settlement :=
     upd_where (\<lambda>s. leg_ID (se_leg s) = i) (\<lambda>s. s\<lparr>se_status := 2\<rparr>) (cp_settlement d)\<rparr>)"

section \<open>What a successful call did\<close>

lemma TakeUnitsTx_Inr:
  assumes "TakeUnitsTx i n s = (Inr (l', dep), t)"
  obtains l where "find (\<lambda>l. li_ID l = i) (cp_listing (data s)) = Some l"
    "li_Status l = StatusActive" "0 < n" "n \<le> li_RemainingQuantity l"
    "l' = l\<lparr>li_RemainingQuantity := li_RemainingQuantity l - n,
       li_Status := (if li_RemainingQuantity l = n then StatusTaken else StatusActive)\<rparr>"
    "data t = (data s)\<lparr>cp_listing := upd_where (\<lambda>q. li_ID q = i)
       (\<lambda>q. q\<lparr>li_RemainingQuantity := li_RemainingQuantity l',
             li_Status := li_Status l'\<rparr>) (cp_listing (data s))\<rparr>"
  using assms
  by (auto simp: TakeUnitsTx_def success_inv Let_def upd_checked_Some)

lemma NextRef_Inr:
  "NextRef s = (Inr r, t) \<Longrightarrow> r = ref_seq (pg_seq (data s)) + 1 \<and>
     data t = (data s)\<lparr>pg_seq := (pg_seq (data s))\<lparr>ref_seq := r\<rparr>\<rparr>"
  by (auto simp: NextRef_def success_inv Let_def)

lemma listing_Get_Inr:
  "listing_Get i s = (Inr l, t) \<Longrightarrow> find (\<lambda>l. li_ID l = i) (cp_listing (data s)) = Some l \<and> data t = data s"
  by (auto simp: listing_Get_def success_inv)

text \<open>Pages: what \<open>LIMIT .. OFFSET\<close> returns is a slice of one fixed order.\<close>

lemma listPage_Inr:
  "listPage p lim off s = (Inr (out, n), t) \<Longrightarrow>
   0 \<le> lim \<and> 0 \<le> off \<and> data t = data s \<and> n = int (length (filter p (cp_listing (data s)))) \<and>
   out = take (nat lim) (drop (nat off) (sort_key (\<lambda>l. - li_CreatedAt l) (filter p (cp_listing (data s)))))"
  by (auto simp: listPage_def success_inv split: if_splits)

lemma NextRef_grows [intro]: "steps pg_grows NextRef"
  unfolding NextRef_def by (rule pg.grows_sql) (auto simp: Let_def pg_grows_def)

lemma TakeUnitsTx_grows [intro]: "steps pg_grows (TakeUnitsTx i n)"
  unfolding TakeUnitsTx_def Let_def
  by (intro pg.grows_bind pg.grows_then pg.grows_guard pg.grows_exec_opt pg.grows_query_row pg.grows_ret)
     (auto simp: pg_grows_def)

lemma SetStatusTx_grows [intro]: "steps pg_grows (SetStatusTx i st)"
  unfolding SetStatusTx_def by (rule pg.grows_exec) (simp add: pg_grows_def)

lemma EnqueueTx_grows [intro]: "steps pg_grows (EnqueueTx leg)"
  unfolding EnqueueTx_def by (rule pg.grows_exec) (simp add: Let_def pg_grows_def)

end
