(* ===== verification/Escrow_Repo.thy ===== *)
theory Escrow_Repo
  imports Trade_Schema
begin

text \<open>
  The MariaDB side of the market: the stash (\<open>mysql_stash.go\<close>) and the escrow
  (\<open>mysql_escrow.go\<close>) of \<open>internal/features/market/infra\<close>. Items move from an account's stash
  into escrow under a listing reference, and from escrow into a stash; a delivery for a
  settlement leg is claimed in \<open>cp_delivery_applied\<close> in the same transaction.
\<close>

section \<open>mysql_stash.go\<close>

definition stackableMatch :: "int \<Rightarrow> int \<Rightarrow> int \<Rightarrow> int \<Rightarrow> stash_item \<Rightarrow> bool" where
  "stackableMatch accountID nameID identify expireTime r \<longleftrightarrow>
     si_AccountID r = accountID \<and> si_NameID r = nameID \<and> si_Identify r = identify \<and>
     si_ExpireTime r = expireTime \<and>
     si_Refine r = 0 \<and> si_Grade r = 0 \<and> si_Bound r = 0 \<and> si_Equip r = 0 \<and>
     si_Attribute r = 0 \<and> si_UniqueID r = 0 \<and>
     si_Card r = zero4 \<and> si_OptionID r = zero5 \<and> si_OptionVal r = zero5 \<and> si_OptionParm r = zero5"

definition ListByAccount :: "int \<Rightarrow> stash_item list my_prog" where
  "ListByAccount accountID = query Sql (\<lambda>d.
     sort_key si_ID (filter (\<lambda>i. si_AccountID i = accountID) (cp_storage d)))"

definition IsLocked :: "int \<Rightarrow> bool my_prog" where
  "IsLocked accountID = query Sql (\<lambda>d.
     case find (\<lambda>r. lk_account_id r = accountID) (cp_storage_lock d) of
       None \<Rightarrow> False | Some r \<Rightarrow> lk_is_locked r)"

definition slots_used :: "int \<Rightarrow> mydb \<Rightarrow> int" where
  "slots_used accountID d = int (length (filter (\<lambda>i. si_AccountID i = accountID) (cp_storage d)))"

definition SlotsUsed :: "int \<Rightarrow> int my_prog" where
  "SlotsUsed accountID = query Sql (slots_used accountID)"

text \<open>\<open>None\<close> is the source's \<open>found = false\<close>.\<close>

definition MergeableAmount :: "int \<Rightarrow> stash_item \<Rightarrow> int option my_prog" where
  "MergeableAmount accountID item =
     (if \<not> IsStackable item then retE None
      else query Sql (\<lambda>d. map_option si_Amount
        (find (stackableMatch accountID (si_NameID item) (si_Identify item) (si_ExpireTime item))
           (cp_storage d))))"

section \<open>mysql_escrow.go\<close>

record escrow_repo =
  MaxSlots :: int
  MaxStack :: int

definition NewEscrowRepository :: "int \<Rightarrow> int \<Rightarrow> escrow_repo" where
  "NewEscrowRepository maxSlots maxStack =
     \<lparr>MaxSlots = (if maxSlots \<le> 0 then DefaultMaxStorageSlots else maxSlots),
      MaxStack = (if maxStack \<le> 0 \<or> maxStack > DefaultMaxStackAmount
                  then DefaultMaxStackAmount else maxStack)\<rparr>"

definition requireLocked :: "int \<Rightarrow> unit my_prog" where
  "requireLocked accountID =
     bindE (query_row Sql (Market ErrStorageUnlocked) (\<lambda>d.
              map_option lk_is_locked (find (\<lambda>r. lk_account_id r = accountID) (cp_storage_lock d))))
       (\<lambda>locked. guardE (\<not> locked) (Market ErrStorageUnlocked) (retE ()))"

definition loadStashItemTx :: "int \<Rightarrow> int \<Rightarrow> stash_item my_prog" where
  "loadStashItemTx accountID i =
     bindE (query Sql (\<lambda>d. filter (\<lambda>r. si_ID r = i \<and> si_AccountID r = accountID) (cp_storage d)))
       (\<lambda>items. case items of [] \<Rightarrow> failE (Market ErrStashItemNotFound) | item # _ \<Rightarrow> retE item)"

text \<open>The copied columns are all but the id and the amount; the account is the item's.\<close>

definition insertEscrowRow :: "int \<Rightarrow> stash_item \<Rightarrow> int \<Rightarrow> unit my_prog" where
  "insertEscrowRow listingRef item amount = exec_opt Sql (\<lambda>d.
     let i = escrow_seq (my_seq d) + 1;
         r = \<lparr>er_item = item\<lparr>si_ID := i, si_Amount := amount\<rparr>, er_listing_ref = listingRef,
              er_created_at = my_clock d\<rparr>
     in map_option (\<lambda>t. d\<lparr>cp_storage_escrow := t, my_seq := (my_seq d)\<lparr>escrow_seq := i\<rparr>\<rparr>)
          (ins_checked (\<lambda>r. amount_check (si_Amount (er_item r))) r (cp_storage_escrow d)))"

definition insertStashRow :: "stash_item \<Rightarrow> int \<Rightarrow> unit my_prog" where
  "insertStashRow item amount = exec_opt Sql (\<lambda>d.
     let i = storage_seq (my_seq d) + 1;
         r = item\<lparr>si_ID := i, si_Amount := amount\<rparr>
     in map_option (\<lambda>t. d\<lparr>cp_storage := t, my_seq := (my_seq d)\<lparr>storage_seq := i\<rparr>\<rparr>)
          (ins_checked (\<lambda>r. amount_check (si_Amount r)) r (cp_storage d)))"

text \<open>\<open>ORDER BY id LIMIT 1\<close> over the stacks that still have room.\<close>

definition merge_target :: "int \<Rightarrow> stash_item \<Rightarrow> int \<Rightarrow> mydb \<Rightarrow> stash_item option" where
  "merge_target toAccountID item maxStack d =
     (case sort_key si_ID (filter (\<lambda>r.
         stackableMatch toAccountID (si_NameID item) (si_Identify item) (si_ExpireTime item) r \<and>
         si_Amount r < maxStack) (cp_storage d)) of
        [] \<Rightarrow> None | r # _ \<Rightarrow> Some r)"

definition mergeIntoExistingStack :: "int \<Rightarrow> stash_item \<Rightarrow> int \<Rightarrow> int \<Rightarrow> int my_prog" where
  "mergeIntoExistingStack toAccountID item amount maxStack =
     (if \<not> IsStackable item then retE amount
      else bindE (query Sql (merge_target toAccountID item maxStack)) (\<lambda>target.
        case target of
          None \<Rightarrow> retE amount
        | Some r \<Rightarrow>
            (let add = min amount (maxStack - si_Amount r)
             in thenE (exec_opt Sql (\<lambda>d. map_option (\<lambda>t. d\<lparr>cp_storage := t\<rparr>)
                  (upd_checked (\<lambda>q. amount_check (si_Amount q)) (\<lambda>q. si_ID q = si_ID r)
                     (\<lambda>q. q\<lparr>si_Amount := si_Amount q + add\<rparr>) (cp_storage d))))
                (retE (amount - add)))))"

text \<open>
  The loop of \<open>insertStashChunks\<close>. Each round adds one row for the account or stops, so it
  ends once the account's slots are used up, whatever the stack size: the measure is the
  number of free slots.
\<close>

lemma insertStashRow_slots:
  assumes "insertStashRow item c s = (Inr u, t)" and "si_AccountID item = a"
  shows "slots_used a (data t) = slots_used a (data s) + 1"
  using assms by (auto simp: insertStashRow_def success_inv Let_def ins_checked_Some slots_used_def)

function insertStashChunks :: "int \<Rightarrow> stash_item \<Rightarrow> int \<Rightarrow> int \<Rightarrow> int \<Rightarrow> unit my_prog" where
  "insertStashChunks toAccountID item amount maxSlots maxStack s =
     (if \<not> amount > 0 then (Inr (), s)
      else case query Sql (slots_used toAccountID) s of
        (Inl e, s1) \<Rightarrow> (Inl e, s1)
      | (Inr used, s1) \<Rightarrow>
          if used \<ge> maxSlots then (Inl (Market ErrStorageFull), s1)
          else (let chunk = (if IsStackable item \<and> amount > maxStack then maxStack else amount);
                    item' = item\<lparr>si_AccountID := toAccountID\<rparr>
                in case insertStashRow item' chunk s1 of
                     (Inl e, s2) \<Rightarrow> (Inl e, s2)
                   | (Inr _, s2) \<Rightarrow>
                       insertStashChunks toAccountID item' (amount - chunk) maxSlots maxStack s2))"
  by pat_completeness auto
termination
  by (relation "measure (\<lambda>(a, item, amount, maxSlots, maxStack, s). nat (maxSlots - slots_used a (data s)))")
    (auto dest!: sym [of _ "query _ _ _"] sym [of _ "insertStashRow _ _ _"]
       insertStashRow_slots simp: query_Inr)

declare insertStashChunks.simps [simp del]
definition upsertStashStack :: "int \<Rightarrow> stash_item \<Rightarrow> int \<Rightarrow> int \<Rightarrow> int \<Rightarrow> unit my_prog" where
  "upsertStashStack toAccountID item amount maxSlots maxStack =
     bindE (mergeIntoExistingStack toAccountID item amount maxStack) (\<lambda>remaining.
       insertStashChunks toAccountID item remaining maxSlots maxStack)"

definition validateEscrowMove :: "stash_item \<Rightarrow> escrow_move \<Rightarrow> market_error option" where
  "validateEscrowMove item move =
     (if \<not> IsTradable item then Some ErrNotTradable
      else if em_Amount move \<noteq> si_Amount item \<and> \<not> IsStackable item then Some ErrNonStackable
      else if em_Amount move \<le> 0 \<or> em_Amount move > si_Amount item then Some ErrInsufficientStack
      else None)"

definition delete_stash_row :: "int \<Rightarrow> unit my_prog" where
  "delete_stash_row i = exec Sql (\<lambda>d. d\<lparr>cp_storage := del_where (\<lambda>q. si_ID q = i) (cp_storage d)\<rparr>)"

definition reduce_stash_row :: "int \<Rightarrow> int \<Rightarrow> unit my_prog" where
  "reduce_stash_row i amount = exec_opt Sql (\<lambda>d. map_option (\<lambda>t. d\<lparr>cp_storage := t\<rparr>)
     (upd_checked (\<lambda>q. amount_check (si_Amount q)) (\<lambda>q. si_ID q = i)
        (\<lambda>q. q\<lparr>si_Amount := si_Amount q - amount\<rparr>) (cp_storage d)))"

definition moveOneToEscrow :: "int \<Rightarrow> int \<Rightarrow> escrow_move \<Rightarrow> unit my_prog" where
  "moveOneToEscrow accountID listingRef move =
     bindE (loadStashItemTx accountID (em_StashItemID move)) (\<lambda>item.
       case validateEscrowMove item move of
         Some e \<Rightarrow> failE (Market e)
       | None \<Rightarrow>
           thenE (insertEscrowRow listingRef item (em_Amount move))
             (if em_Amount move = si_Amount item then delete_stash_row (si_ID item)
              else reduce_stash_row (si_ID item) (em_Amount move)))"

primrec moveAllToEscrow :: "int \<Rightarrow> int \<Rightarrow> escrow_move list \<Rightarrow> unit my_prog" where
  "moveAllToEscrow accountID listingRef [] = retE ()"
| "moveAllToEscrow accountID listingRef (move # moves) =
     thenE (moveOneToEscrow accountID listingRef move) (moveAllToEscrow accountID listingRef moves)"

definition MoveToEscrow :: "int \<Rightarrow> int \<Rightarrow> escrow_move list \<Rightarrow> unit my_prog" where
  "MoveToEscrow accountID listingRef moves =
     myTx (thenE (requireLocked accountID) (moveAllToEscrow accountID listingRef moves))"

definition claimDelivery :: "int \<Rightarrow> bool my_prog" where
  "claimDelivery legID =
     (if legID = 0 then retE False
      else sql Sql (\<lambda>d. if legID \<in> set (cp_delivery_applied d) then Some (True, d)
             else Some (False, d\<lparr>cp_delivery_applied := cp_delivery_applied d @ [legID]\<rparr>)))"

primrec upsertAll :: "int \<Rightarrow> int \<Rightarrow> int \<Rightarrow> stash_item list \<Rightarrow> unit my_prog" where
  "upsertAll toAccountID maxSlots maxStack [] = retE ()"
| "upsertAll toAccountID maxSlots maxStack (item # items) =
     thenE (upsertStashStack toAccountID item (si_Amount item) maxSlots maxStack)
       (upsertAll toAccountID maxSlots maxStack items)"

definition escrow_of :: "int \<Rightarrow> mydb \<Rightarrow> stash_item list" where
  "escrow_of listingRef d =
     map er_item (filter (\<lambda>r. er_listing_ref r = listingRef) (cp_storage_escrow d))"

definition drainEscrowTx :: "int \<Rightarrow> int \<Rightarrow> int \<Rightarrow> int \<Rightarrow> unit my_prog" where
  "drainEscrowTx listingRef toAccountID maxSlots maxStack =
     thenE (requireLocked toAccountID)
    (bindE (query Sql (escrow_of listingRef)) (\<lambda>items.
     thenE (upsertAll toAccountID maxSlots maxStack items)
       (exec Sql (\<lambda>d. d\<lparr>cp_storage_escrow :=
          del_where (\<lambda>r. er_listing_ref r = listingRef) (cp_storage_escrow d)\<rparr>))))"

text \<open>The common shape of a delivery: claim the leg, and do the work unless it was done.\<close>

definition unlessApplied :: "int \<Rightarrow> unit my_prog \<Rightarrow> unit my_prog" where
  "unlessApplied legID work =
     bindE (claimDelivery legID) (\<lambda>applied. if \<not> applied then work else retE ())"

definition drainEscrow :: "escrow_repo \<Rightarrow> int \<Rightarrow> int \<Rightarrow> int \<Rightarrow> unit my_prog" where
  "drainEscrow r listingRef toAccountID legID =
     myTx (unlessApplied legID (drainEscrowTx listingRef toAccountID (MaxSlots r) (MaxStack r)))"

definition escrowOwner :: "int \<Rightarrow> int my_prog" where
  "escrowOwner listingRef = query_row Sql (Market ErrStashItemNotFound) (\<lambda>d.
     case escrow_of listingRef d of [] \<Rightarrow> None | item # _ \<Rightarrow> Some (si_AccountID item))"

definition ReturnToStash :: "escrow_repo \<Rightarrow> int \<Rightarrow> unit my_prog" where
  "ReturnToStash r listingRef s =
     (case escrowOwner listingRef s of
        (Inl e, s1) \<Rightarrow> if e = Market ErrStashItemNotFound then (Inr (), s1) else (Inl e, s1)
      | (Inr owner, s1) \<Rightarrow> drainEscrow r listingRef owner 0 s1)"

definition escrow_Deliver :: "escrow_repo \<Rightarrow> int \<Rightarrow> int \<Rightarrow> int \<Rightarrow> unit my_prog" where
  "escrow_Deliver r listingRef toAccountID legID = drainEscrow r listingRef toAccountID legID"

definition ByListing :: "int \<Rightarrow> stash_item list my_prog" where
  "ByListing listingRef = query Sql (\<lambda>d. sort_key si_ID (escrow_of listingRef d))"

definition OrphanRefs :: "int \<Rightarrow> int list my_prog" where
  "OrphanRefs before = query Sql (\<lambda>d.
     filter (\<lambda>ref. \<forall>r \<in> set (cp_storage_escrow d).
               er_listing_ref r = ref \<longrightarrow> er_created_at r < before)
       (remdups (map er_listing_ref (cp_storage_escrow d))))"

definition delete_escrow_row :: "int \<Rightarrow> unit my_prog" where
  "delete_escrow_row i = exec Sql (\<lambda>d. d\<lparr>cp_storage_escrow :=
     del_where (\<lambda>q. si_ID (er_item q) = i) (cp_storage_escrow d)\<rparr>)"

definition reduceEscrowRow :: "stash_item \<Rightarrow> int \<Rightarrow> unit my_prog" where
  "reduceEscrowRow item amount =
     (if amount = si_Amount item then delete_escrow_row (si_ID item)
      else exec_opt Sql (\<lambda>d. map_option (\<lambda>t. d\<lparr>cp_storage_escrow := t\<rparr>)
        (upd_checked (\<lambda>q. amount_check (si_Amount (er_item q))) (\<lambda>q. si_ID (er_item q) = si_ID item)
           (\<lambda>q. q\<lparr>er_item := (er_item q)\<lparr>si_Amount := si_Amount (er_item q) - amount\<rparr>\<rparr>)
           (cp_storage_escrow d))))"

definition deliverPartialTx :: "int \<Rightarrow> int \<Rightarrow> int \<Rightarrow> int \<Rightarrow> int \<Rightarrow> unit my_prog" where
  "deliverPartialTx listingRef toAccountID amount maxSlots maxStack =
     thenE (requireLocked toAccountID)
    (bindE (query Sql (\<lambda>d. sort_key si_ID (escrow_of listingRef d))) (\<lambda>items.
     case items of
       [] \<Rightarrow> failE (Market ErrStashItemNotFound)
     | item # _ \<Rightarrow>
         guardE (amount \<le> 0 \<or> amount > si_Amount item) (Market ErrInsufficientStack)
           (thenE (upsertStashStack toAccountID item amount maxSlots maxStack)
              (reduceEscrowRow item amount))))"

definition DeliverPartial :: "escrow_repo \<Rightarrow> int \<Rightarrow> int \<Rightarrow> int \<Rightarrow> int \<Rightarrow> unit my_prog" where
  "DeliverPartial r listingRef toAccountID amount legID =
     myTx (unlessApplied legID
       (deliverPartialTx listingRef toAccountID amount (MaxSlots r) (MaxStack r)))"

end
