(* ===== verification/Offer.thy ===== *)
theory Offer
  imports Wallet Listing_Repo Escrow_Repo
begin

text \<open>
  The market's services: \<open>internal/features/market/app/offer_service.go\<close> (create, take, cancel,
  browse) and \<open>stash_service.go\<close>. Every call is a sequence of statements and transactions
  against the two databases; products of amounts are Go's wrapping 64-bit products.
\<close>

section \<open>The service and its options\<close>

record offer_service =
  os_Blocked :: "int \<Rightarrow> bool"
  os_fee :: fee_policy
  os_listingTTL :: int
  os_slotsTotal :: int
  os_stackCap :: int

datatype offer_option =
    WithFeePolicy fee_policy
  | WithListingTTL int
  | WithBlacklist "(int \<Rightarrow> bool) option"
  | WithCapacity int int

primrec apply_option :: "offer_option \<Rightarrow> offer_service \<Rightarrow> offer_service" where
  "apply_option (WithFeePolicy policy) s = s\<lparr>os_fee := policy\<rparr>"
| "apply_option (WithListingTTL d) s = (if d > 0 then s\<lparr>os_listingTTL := d\<rparr> else s)"
| "apply_option (WithBlacklist list) s =
     (case list of None \<Rightarrow> s | Some blocked \<Rightarrow> s\<lparr>os_Blocked := blocked\<rparr>)"
| "apply_option (WithCapacity slotsTotal stackCap) s =
     (let s1 = (if slotsTotal > 0 then s\<lparr>os_slotsTotal := slotsTotal\<rparr> else s)
      in if stackCap > 0 then s1\<lparr>os_stackCap := stackCap\<rparr> else s1)"

text \<open>Times are in seconds; the default listing lifetime is seven days.\<close>

definition NewOfferService :: "offer_option list \<Rightarrow> offer_service" where
  "NewOfferService opts = fold apply_option opts
     \<lparr>os_Blocked = (\<lambda>_. False), os_fee = DefaultFeePolicy, os_listingTTL = 7 * 24 * 3600,
      os_slotsTotal = DefaultMaxStorageSlots, os_stackCap = DefaultMaxStackAmount\<rparr>"

definition clock_now :: "int app" where
  "clock_now w = (Inr (app_now w), w)"

section \<open>Creating a listing\<close>

record create_input =
  ci_SellerAccountID :: int
  ci_Kind :: int
  ci_GiveStashItemID :: int
  ci_GiveUnitAmount :: int
  ci_GiveZeny :: int
  ci_GiveCashpoint :: int
  ci_WantNameID :: int
  ci_WantUnitAmount :: int
  ci_WantZeny :: int
  ci_WantCashpoint :: int
  ci_Quantity :: int

definition validAmountBounds :: "create_input \<Rightarrow> bool" where
  "validAmountBounds i =
     (if \<not> ScaledZenyWithinCap (ci_WantZeny i) (ci_Quantity i)
         \<or> \<not> ScaledZenyWithinCap (ci_GiveZeny i) (ci_Quantity i) then False
      else if \<not> ScaledCashpointWithinCap (ci_WantCashpoint i) (ci_Quantity i)
         \<or> \<not> ScaledCashpointWithinCap (ci_GiveCashpoint i) (ci_Quantity i) then False
      else ScaledCashpointWithinCap (ci_GiveUnitAmount i) (ci_Quantity i)
         \<and> ScaledCashpointWithinCap (ci_WantUnitAmount i) (ci_Quantity i))"

definition validBuyOffer :: "create_input \<Rightarrow> bool" where
  "validBuyOffer i =
     (if ci_WantNameID i \<le> 0 \<or> ci_WantUnitAmount i \<le> 0 then False
      else ci_GiveZeny i > 0 \<or> ci_GiveCashpoint i > 0)"

definition validSellOffer :: "create_input \<Rightarrow> bool" where
  "validSellOffer i =
     (if ci_GiveUnitAmount i \<le> 0 then False else ci_WantZeny i > 0 \<or> ci_WantCashpoint i > 0)"

definition validateCreate :: "create_input \<Rightarrow> market_error option" where
  "validateCreate i =
     (if ci_Kind i \<noteq> KindSell \<and> ci_Kind i \<noteq> KindBuy then Some ErrInvalidOffer
      else if ci_Quantity i \<le> 0 then Some ErrInvalidOffer
      else if \<not> validAmountBounds i then Some ErrInvalidOffer
      else if ci_Kind i = KindBuy then (if \<not> validBuyOffer i then Some ErrInvalidOffer else None)
      else if \<not> validSellOffer i then Some ErrInvalidOffer
      else None)"

definition newListing :: "offer_service \<Rightarrow> int \<Rightarrow> create_input \<Rightarrow> listing" where
  "newListing s now i =
     \<lparr>li_CreatedAt = 0, li_ExpiresAt = now + os_listingTTL s, li_GiveHoldID = None, li_ID = 0,
      li_GiveZeny = ci_GiveZeny i, li_WantZeny = ci_WantZeny i,
      li_SellerAccountID = ci_SellerAccountID i, li_Kind = ci_Kind i, li_Status = StatusActive,
      li_GiveNameID = 0, li_GiveRefine = 0, li_GiveGrade = 0,
      li_GiveUnitAmount = ci_GiveUnitAmount i, li_GiveCashpoint = ci_GiveCashpoint i,
      li_WantNameID = ci_WantNameID i, li_WantUnitAmount = ci_WantUnitAmount i,
      li_WantCashpoint = ci_WantCashpoint i,
      li_TotalQuantity = ci_Quantity i, li_RemainingQuantity = ci_Quantity i,
      li_GiveCard = zero4, li_GiveItem = False, li_Stackable = False\<rparr>"

definition findStashItem :: "int \<Rightarrow> int \<Rightarrow> stash_item my_prog" where
  "findStashItem accountID stashItemID =
     bindE (ListByAccount accountID) (\<lambda>items.
       case find (\<lambda>item. si_ID item = stashItemID) items of
         None \<Rightarrow> failE (Market ErrStashItemNotFound)
       | Some item \<Rightarrow> retE item)"

definition prepareGiveItem :: "offer_service \<Rightarrow> create_input \<Rightarrow> listing \<Rightarrow> listing my_prog" where
  "prepareGiveItem s i l =
     bindE (IsLocked (ci_SellerAccountID i)) (\<lambda>locked.
     guardE (\<not> locked) (Market ErrStorageUnlocked)
    (bindE (findStashItem (ci_SellerAccountID i) (ci_GiveStashItemID i)) (\<lambda>giveItem.
     guardE (os_Blocked s (si_NameID giveItem)) (Market ErrItemBlacklisted)
    (let l' = l\<lparr>li_GiveItem := True, li_GiveNameID := si_NameID giveItem,
                li_GiveRefine := si_Refine giveItem, li_GiveGrade := si_Grade giveItem,
                li_GiveCard := si_Card giveItem, li_Stackable := IsStackable giveItem\<rparr>
     in guardE (\<not> li_Stackable l' \<and> ci_Quantity i \<noteq> 1) (Market ErrInvalidOffer) (retE l')))))"

definition applyGiveSide :: "create_input \<Rightarrow> listing \<Rightarrow> listing app" where
  "applyGiveSide i l =
     thenE (if li_GiveItem l
            then onMy (MoveToEscrow (ci_SellerAccountID i) (li_ID l)
                   [\<lparr>em_StashItemID = ci_GiveStashItemID i,
                     em_Amount = wrap64 (ci_GiveUnitAmount i * ci_Quantity i)\<rparr>])
            else retE ())
       (if ci_Kind i = KindBuy
        then bindE (onPg (wallet_Hold (ci_SellerAccountID i)
                      (wrap64 (ci_GiveZeny i * ci_Quantity i))
                      (wrap64 (ci_GiveCashpoint i * ci_Quantity i)))) (\<lambda>holdID.
               retE (l\<lparr>li_GiveHoldID := Some holdID\<rparr>))
        else retE l)"

text \<open>The flat fee is burnt last; its error is only logged.\<close>

definition offer_Create :: "offer_service \<Rightarrow> create_input \<Rightarrow> int app" where
  "offer_Create s i =
     (case validateCreate i of
        Some e \<Rightarrow> failE (Market e)
      | None \<Rightarrow>
          guardE (ci_WantNameID i \<noteq> 0 \<and> os_Blocked s (ci_WantNameID i)) (Market ErrItemBlacklisted)
         (bindE clock_now (\<lambda>now.
          bindE (if ci_Kind i \<noteq> KindBuy then onMy (prepareGiveItem s i (newListing s now i))
                 else retE (newListing s now i)) (\<lambda>l.
          bindE (onPg NextRef) (\<lambda>ref.
          bindE (applyGiveSide i (l\<lparr>li_ID := ref\<rparr>)) (\<lambda>l'.
          thenE (onPg (listing_Create l'))
         (bindE (tryE (onPg (wallet_Burn (ci_SellerAccountID i) (fee_FlatZeny (os_fee s)) 0))) (\<lambda>_.
          retE ref))))))))"

section \<open>Taking units of a listing\<close>

record take_input =
  ti_ListingID :: int
  ti_TakerAccountID :: int
  ti_Units :: int
  ti_TakerStashItemID :: int

definition validateTake :: "listing \<Rightarrow> take_input \<Rightarrow> market_error option" where
  "validateTake l i =
     (if li_Status l \<noteq> StatusActive then Some ErrListingInactive
      else if li_SellerAccountID l = ti_TakerAccountID i then Some ErrSelfTrade
      else if ti_Units i \<le> 0 \<or> ti_Units i > li_RemainingQuantity l then Some ErrInsufficientUnits
      else None)"

definition ensureCapacity :: "offer_service \<Rightarrow> int \<Rightarrow> stash_item \<Rightarrow> int \<Rightarrow> unit my_prog" where
  "ensureCapacity s accountID snapshot deliverAmount =
     (let slots = bindE (SlotsUsed accountID) (\<lambda>used.
            guardE (used \<ge> os_slotsTotal s) (Market ErrStorageFull) (retE ()))
      in if IsStackable snapshot
         then bindE (MergeableAmount accountID snapshot) (\<lambda>found.
            case found of
              Some existing \<Rightarrow> if wrap64 (existing + deliverAmount) \<le> os_stackCap s then retE () else slots
            | None \<Rightarrow> slots)
         else slots)"

definition escrowTakerWant :: "offer_service \<Rightarrow> listing \<Rightarrow> take_input \<Rightarrow> int app" where
  "escrowTakerWant s l i =
     bindE (onMy (findStashItem (ti_TakerAccountID i) (ti_TakerStashItemID i))) (\<lambda>item.
     let needed = wrap64 (li_WantUnitAmount l * ti_Units i);
         wantSnapshot = empty_item\<lparr>si_NameID := si_NameID item, si_Refine := si_Refine item,
            si_Grade := si_Grade item, si_Card := si_Card item, si_Amount := needed\<rparr>
     in guardE (\<not> want_Matches (listing_WantSpec l) item needed) (Market ErrWantMismatch)
       (thenE (onMy (ensureCapacity s (li_SellerAccountID l) wantSnapshot needed))
       (bindE (onPg NextRef) (\<lambda>ref.
        thenE (onMy (MoveToEscrow (ti_TakerAccountID i) ref
                 [\<lparr>em_StashItemID = ti_TakerStashItemID i, em_Amount = needed\<rparr>]))
          (retE ref)))))"

definition prepareTake :: "offer_service \<Rightarrow> listing \<Rightarrow> take_input \<Rightarrow> int app" where
  "prepareTake s l i =
     thenE (if li_GiveItem l
            then let amount = wrap64 (li_GiveUnitAmount l * ti_Units i);
                     giveSnapshot = empty_item\<lparr>si_NameID := li_GiveNameID l, si_Refine := li_GiveRefine l,
                        si_Grade := li_GiveGrade l, si_Card := li_GiveCard l, si_Amount := amount\<rparr>
                 in onMy (ensureCapacity s (ti_TakerAccountID i) giveSnapshot amount)
            else retE ())
       (if li_WantNameID l = 0 then retE 0
        else bindE (onMy (IsLocked (ti_TakerAccountID i))) (\<lambda>takerLocked.
             guardE (\<not> takerLocked) (Market ErrStorageUnlocked) (escrowTakerWant s l i)))"

definition settleCurrencyTx :: "offer_service \<Rightarrow> listing \<Rightarrow> take_input \<Rightarrow> unit pg_prog" where
  "settleCurrencyTx s l i =
     (if li_Kind l = KindSell then
        (let grossZeny = wrap64 (li_WantZeny l * ti_Units i);
             grossCashpoint = wrap64 (li_WantCashpoint l * ti_Units i)
         in if grossZeny = 0 \<and> grossCashpoint = 0 then retE ()
            else ChargeTx (ti_TakerAccountID i) (li_SellerAccountID l) grossZeny grossCashpoint
                   (NetZeny (os_fee s) grossZeny) (NetCashpoint (os_fee s) grossCashpoint))
      else if li_Kind l = KindBuy then
        (case li_GiveHoldID l of
           None \<Rightarrow> retE ()
         | Some holdID \<Rightarrow>
             let grossZeny = wrap64 (li_GiveZeny l * ti_Units i);
                 grossCashpoint = wrap64 (li_GiveCashpoint l * ti_Units i)
             in SettleHoldPartialTx holdID (ti_TakerAccountID i) grossZeny grossCashpoint
                  (NetZeny (os_fee s) grossZeny) (NetCashpoint (os_fee s) grossCashpoint))
      else failE (Market ErrInvalidOffer))"

definition give_leg :: "listing \<Rightarrow> int \<Rightarrow> int \<Rightarrow> settlement_leg" where
  "give_leg l recipient units =
     \<lparr>leg_ID = 0, leg_ListingID = li_ID l, leg_EscrowRef = li_ID l,
      leg_RecipientAccountID = recipient,
      leg_DeliverAmount = wrap64 (li_GiveUnitAmount l * units), leg_Whole = (\<not> li_Stackable l)\<rparr>"

definition want_leg :: "listing \<Rightarrow> int \<Rightarrow> settlement_leg" where
  "want_leg l wantEscrowRef =
     \<lparr>leg_ID = 0, leg_ListingID = li_ID l, leg_EscrowRef = wantEscrowRef,
      leg_RecipientAccountID = li_SellerAccountID l, leg_DeliverAmount = 0, leg_Whole = True\<rparr>"

definition enqueueLegsTx :: "listing \<Rightarrow> take_input \<Rightarrow> int \<Rightarrow> unit pg_prog" where
  "enqueueLegsTx l i wantEscrowRef =
     thenE (if li_GiveItem l then EnqueueTx (give_leg l (ti_TakerAccountID i) (ti_Units i)) else retE ())
       (if li_WantNameID l \<noteq> 0 then EnqueueTx (want_leg l wantEscrowRef) else retE ())"

text \<open>The listing read before the transaction still names the legs; the charge uses the row locked in it.\<close>

definition takeTx :: "offer_service \<Rightarrow> listing \<Rightarrow> take_input \<Rightarrow> int \<Rightarrow> unit pg_prog" where
  "takeTx s l i wantEscrowRef =
     pgTx (bindE (TakeUnitsTx (ti_ListingID i) (ti_Units i)) (\<lambda>(takenListing, _).
           thenE (settleCurrencyTx s takenListing i) (enqueueLegsTx l i wantEscrowRef)))"

definition offer_Take :: "offer_service \<Rightarrow> take_input \<Rightarrow> unit app" where
  "offer_Take s i =
     bindE (onPg (listing_Get (ti_ListingID i))) (\<lambda>l.
       case validateTake l i of
         Some e \<Rightarrow> failE (Market e)
       | None \<Rightarrow>
           bindE (prepareTake s l i) (\<lambda>wantEscrowRef.
             onPg (takeTx s l i wantEscrowRef)))"

section \<open>Cancelling and browsing\<close>

definition closeListingTx :: "listing \<Rightarrow> int \<Rightarrow> unit pg_prog" where
  "closeListingTx l status =
     thenE (SetStatusTx (li_ID l) status)
    (thenE (if li_GiveItem l then EnqueueTx (give_leg l (li_SellerAccountID l) (li_RemainingQuantity l))
            else retE ())
       (case li_GiveHoldID l of None \<Rightarrow> retE () | Some holdID \<Rightarrow> ReleaseTx holdID))"

definition cancelRead :: "int \<Rightarrow> int \<Rightarrow> listing pg_prog" where
  "cancelRead listingID byAccountID =
     bindE (listing_Get listingID) (\<lambda>l.
     guardE (li_SellerAccountID l \<noteq> byAccountID) (Market ErrListingNotFound)
    (guardE (li_Status l \<noteq> StatusActive) (Market ErrListingInactive) (retE l)))"

definition closeTx :: "listing \<Rightarrow> int \<Rightarrow> unit pg_prog" where
  "closeTx l status = pgTx (closeListingTx l status)"

definition offer_Cancel :: "int \<Rightarrow> int \<Rightarrow> unit app" where
  "offer_Cancel listingID byAccountID =
     onPg (bindE (cancelRead listingID byAccountID) (\<lambda>l. closeTx l StatusCancelled))"

definition offer_Browse :: "int \<Rightarrow> int \<Rightarrow> int \<Rightarrow> (listing list \<times> int) app" where
  "offer_Browse k limit offset = onPg (listing_Browse k limit offset)"

definition offer_BySeller :: "int \<Rightarrow> int \<Rightarrow> int \<Rightarrow> (listing list \<times> int) app" where
  "offer_BySeller accountID limit offset = onPg (listing_BySeller accountID limit offset)"

section \<open>stash_service.go\<close>

record stash_view =
  sv_Items :: "stash_item list"
  sv_Locked :: bool
  sv_SlotsUsed :: int
  sv_SlotsTotal :: int

definition NewStashService :: "int \<Rightarrow> int" where
  "NewStashService slotsTotal = (if slotsTotal \<le> 0 then DefaultMaxStorageSlots else slotsTotal)"

definition stash_View :: "int \<Rightarrow> int \<Rightarrow> stash_view my_prog" where
  "stash_View slotsTotal accountID =
     bindE (IsLocked accountID) (\<lambda>locked.
     bindE (ListByAccount accountID) (\<lambda>items.
     retE \<lparr>sv_Items = items, sv_Locked = locked, sv_SlotsUsed = int (length items),
            sv_SlotsTotal = slotsTotal\<rparr>))"

end
