(* ===== verification/Market_Workers.thy ===== *)
theory Market_Workers
  imports Offer
begin

text \<open>
  The market's background workers, \<open>internal/features/market/app/delivery_worker.go\<close>: deliver
  owed legs, return escrow no one knows about, close listings past their expiry. Each loop
  logs an item's error and goes on with the next; the result counts the successes.
\<close>

definition reconcileGrace :: int where "reconcileGrace = 5 * 60"

record workers =
  wk_escrow :: escrow_repo
  wk_extraRefs :: "int list app list"
  wk_batch :: int

definition NewWorkers :: "escrow_repo \<Rightarrow> int list app list \<Rightarrow> workers" where
  "NewWorkers escrow sources = \<lparr>wk_escrow = escrow, wk_extraRefs = sources, wk_batch = 100\<rparr>"

section \<open>Delivering\<close>

definition deliverLeg :: "workers \<Rightarrow> settlement_leg \<Rightarrow> unit my_prog" where
  "deliverLeg w leg =
     (if leg_Whole leg
      then escrow_Deliver (wk_escrow w) (leg_EscrowRef leg) (leg_RecipientAccountID leg) (leg_ID leg)
      else DeliverPartial (wk_escrow w) (leg_EscrowRef leg) (leg_RecipientAccountID leg)
             (leg_DeliverAmount leg) (leg_ID leg))"

primrec deliverLegs :: "workers \<Rightarrow> settlement_leg list \<Rightarrow> int \<Rightarrow> int app" where
  "deliverLegs w [] delivered = retE delivered"
| "deliverLegs w (leg # legs) delivered =
     bindE (tryE (onMy (deliverLeg w leg))) (\<lambda>r.
       case r of
         Inl _ \<Rightarrow> deliverLegs w legs delivered
       | Inr _ \<Rightarrow>
           bindE (tryE (onPg (MarkDone (leg_ID leg)))) (\<lambda>m.
             case m of
               Inl _ \<Rightarrow> deliverLegs w legs delivered
             | Inr _ \<Rightarrow> deliverLegs w legs (delivered + 1)))"

definition workers_Deliver :: "workers \<Rightarrow> int app" where
  "workers_Deliver w = bindE (onPg (Pending (wk_batch w))) (\<lambda>legs. deliverLegs w legs 0)"

section \<open>Reconciling\<close>

primrec allSourceRefs :: "int list app list \<Rightarrow> int list app" where
  "allSourceRefs [] = retE []"
| "allSourceRefs (source # sources) =
     bindE source (\<lambda>refs. bindE (allSourceRefs sources) (\<lambda>known. retE (refs @ known)))"

definition knownRefs :: "workers \<Rightarrow> int list app" where
  "knownRefs w =
     bindE (allSourceRefs (onPg AllRefs # wk_extraRefs w)) (\<lambda>known.
     bindE (onPg PendingRefs) (\<lambda>pending. retE (known @ pending)))"

definition returnOrphan :: "workers \<Rightarrow> int \<Rightarrow> bool app" where
  "returnOrphan w ref =
     bindE (tryE (onMy (ReturnToStash (wk_escrow w) ref))) (\<lambda>r.
       case r of Inl _ \<Rightarrow> retE False | Inr _ \<Rightarrow> retE True)"

primrec returnOrphans :: "workers \<Rightarrow> int list \<Rightarrow> int list \<Rightarrow> int \<Rightarrow> int app" where
  "returnOrphans w known [] returned = retE returned"
| "returnOrphans w known (ref # refs) returned =
     (if ref \<in> set known then returnOrphans w known refs returned
      else bindE (returnOrphan w ref) (\<lambda>ok.
             returnOrphans w known refs (if ok then returned + 1 else returned)))"

definition workers_Reconcile :: "workers \<Rightarrow> int app" where
  "workers_Reconcile w =
     bindE clock_now (\<lambda>now.
     bindE (onMy (OrphanRefs (now - reconcileGrace))) (\<lambda>orphans.
     if orphans = [] then retE 0
     else bindE (knownRefs w) (\<lambda>known. returnOrphans w known orphans 0)))"

section \<open>Expiring\<close>

definition expireListing :: "listing \<Rightarrow> unit pg_prog" where
  "expireListing l = closeTx l StatusExpired"

primrec expireAll :: "listing list \<Rightarrow> int \<Rightarrow> int app" where
  "expireAll [] expired = retE expired"
| "expireAll (l # ls) expired =
     bindE (tryE (onPg (expireListing l))) (\<lambda>r.
       case r of Inl _ \<Rightarrow> expireAll ls expired | Inr _ \<Rightarrow> expireAll ls (expired + 1))"

definition workers_Expire :: "workers \<Rightarrow> int app" where
  "workers_Expire w =
     bindE clock_now (\<lambda>now.
     bindE (onPg (DueForExpiry now (wk_batch w))) (\<lambda>due. expireAll due 0))"

end
