(* ===== verification/Escrow_Ledger.thy ===== *)
theory Escrow_Ledger
  imports Escrow_Repo
begin

text \<open>
  What the stash and the escrow promise: an item ledger. Every row of \<open>cp_storage\<close> and
  \<open>cp_storage_escrow\<close> is so many units of one exact kind of item (all columns but the row id,
  the account and the amount), belonging to an account or held under a listing reference.
  An operation moves units between the two sides and records the settlement leg it served.
\<close>

section \<open>Units\<close>

definition kind :: "stash_item \<Rightarrow> stash_item" where
  "kind i = i\<lparr>si_ID := 0, si_AccountID := 0, si_Amount := 0\<rparr>"

lemma kind_upd [simp]:
  "kind (i\<lparr>si_ID := x\<rparr>) = kind i" "kind (i\<lparr>si_AccountID := a\<rparr>) = kind i"
  "kind (i\<lparr>si_Amount := n\<rparr>) = kind i"
  by (simp_all add: kind_def)

lemma IsStackable_upd [simp]:
  "IsStackable (i\<lparr>si_ID := x\<rparr>) = IsStackable i" "IsStackable (i\<lparr>si_AccountID := a\<rparr>) = IsStackable i"
  "IsStackable (i\<lparr>si_Amount := n\<rparr>) = IsStackable i"
  by (simp_all add: IsStackable_def hasCards_def hasOptions_def)

text \<open>Weighted sums: the weight picks the accounts (or references) and kinds that count.\<close>

definition stash_sum :: "(int \<Rightarrow> stash_item \<Rightarrow> int) \<Rightarrow> mydb \<Rightarrow> int" where
  "stash_sum w d = tsum (\<lambda>i. w (si_AccountID i) (kind i) * si_Amount i) (cp_storage d)"

definition escrow_sum :: "(int \<Rightarrow> stash_item \<Rightarrow> int) \<Rightarrow> mydb \<Rightarrow> int" where
  "escrow_sum w d =
     tsum (\<lambda>r. w (er_listing_ref r) (kind (er_item r)) * si_Amount (er_item r)) (cp_storage_escrow d)"

definition one :: "int \<Rightarrow> stash_item \<Rightarrow> int \<Rightarrow> stash_item \<Rightarrow> int" where
  "one a k b q = (if b = a \<and> q = k then 1 else 0)"

definition stash_units :: "mydb \<Rightarrow> int \<Rightarrow> stash_item \<Rightarrow> int" where
  "stash_units d a k = stash_sum (one a k) d"

definition escrow_units :: "mydb \<Rightarrow> int \<Rightarrow> stash_item \<Rightarrow> int" where
  "escrow_units d ref k = escrow_sum (one ref k) d"

definition all_units :: "stash_item \<Rightarrow> mydb \<Rightarrow> int" where
  "all_units k d = stash_sum (\<lambda>_ q. if q = k then 1 else 0) d + escrow_sum (\<lambda>_ q. if q = k then 1 else 0) d"

definition row_ok :: "int \<Rightarrow> stash_item \<Rightarrow> bool" where
  "row_ok seq i \<longleftrightarrow> si_ID i \<le> seq \<and> 0 < si_Amount i \<and> si_Amount i \<le> 65535"

definition items_inv :: "mydb \<Rightarrow> bool" where
  "items_inv d \<longleftrightarrow>
     uniq si_ID (cp_storage d) \<and> (\<forall>i \<in> set (cp_storage d). row_ok (storage_seq (my_seq d)) i) \<and>
     uniq (\<lambda>r. si_ID (er_item r)) (cp_storage_escrow d) \<and>
     (\<forall>r \<in> set (cp_storage_escrow d). row_ok (escrow_seq (my_seq d)) (er_item r)) \<and>
     distinct (cp_delivery_applied d)"

definition stacks_ok :: "int \<Rightarrow> mydb \<Rightarrow> bool" where
  "stacks_ok mx d \<longleftrightarrow> (\<forall>i \<in> set (cp_storage d). IsStackable i \<longrightarrow> si_Amount i \<le> mx)"

text \<open>
  \<open>shifts ms mx F G d d'\<close>: from \<open>d\<close> to \<open>d'\<close> the stash gains \<open>F\<close> and the escrow gains \<open>G\<close>, for
  every weight; no account is pushed above \<open>ms\<close> slots, no stack above \<open>mx\<close>.
\<close>

definition shifts :: "int \<Rightarrow> int \<Rightarrow> ((int \<Rightarrow> stash_item \<Rightarrow> int) \<Rightarrow> int) \<Rightarrow>
    ((int \<Rightarrow> stash_item \<Rightarrow> int) \<Rightarrow> int) \<Rightarrow> mydb \<Rightarrow> mydb \<Rightarrow> bool" where
  "shifts ms mx F G d d' \<longleftrightarrow>
     items_inv d' \<and>
     (\<exists>S E q. d' = d\<lparr>cp_storage := S, cp_storage_escrow := E, my_seq := q\<rparr>) \<and>
     (\<forall>w. stash_sum w d' = stash_sum w d + F w) \<and>
     (\<forall>w. escrow_sum w d' = escrow_sum w d + G w) \<and>
     (\<forall>b. slots_used b d' \<le> max (slots_used b d) ms) \<and>
     (stacks_ok mx d \<longrightarrow> stacks_ok mx d')"

lemma shifts_refl: "items_inv d \<Longrightarrow> shifts ms mx (\<lambda>_. 0) (\<lambda>_. 0) d d"
  unfolding shifts_def by (auto intro!: exI [of _ "cp_storage d"] exI [of _ "cp_storage_escrow d"] exI [of _ "my_seq d"])

lemma shiftsI:
  assumes "items_inv d'" and "d' = d\<lparr>cp_storage := S, cp_storage_escrow := E, my_seq := q\<rparr>"
    and "\<And>w. stash_sum w d' = stash_sum w d + F w" and "\<And>w. escrow_sum w d' = escrow_sum w d + G w"
    and "\<And>b. slots_used b d' \<le> max (slots_used b d) ms" and "stacks_ok mx d \<Longrightarrow> stacks_ok mx d'"
  shows "shifts ms mx F G d d'"
  using assms unfolding shifts_def by blast

lemma shifts_trans:
  assumes d: "shifts ms mx F G d e" and e: "shifts ms mx F' G' e f"
  shows "shifts ms mx (\<lambda>w. F w + F' w) (\<lambda>w. G w + G' w) d f"
proof -
  from d e obtain S E q S' E' q' where
    "e = d\<lparr>cp_storage := S, cp_storage_escrow := E, my_seq := q\<rparr>"
    "f = e\<lparr>cp_storage := S', cp_storage_escrow := E', my_seq := q'\<rparr>" unfolding shifts_def by blast
  then have frame: "f = d\<lparr>cp_storage := S', cp_storage_escrow := E', my_seq := q'\<rparr>" by simp
  have slots: "slots_used b f \<le> max (slots_used b d) ms" for b
  proof -
    from d e have "slots_used b e \<le> max (slots_used b d) ms" "slots_used b f \<le> max (slots_used b e) ms"
      unfolding shifts_def by blast+
    then show ?thesis by linarith
  qed
  show ?thesis
    by (rule shiftsI [OF _ frame _ _ slots]) (use d e in \<open>simp_all add: shifts_def\<close>)
qed

lemma shifts_cong:
  "shifts ms mx F G d d' \<Longrightarrow> (\<And>w. F w = F' w) \<Longrightarrow> (\<And>w. G w = G' w) \<Longrightarrow> shifts ms mx F' G' d d'"
  by (simp add: shifts_def)

section \<open>Putting items into a stash\<close>

definition gains :: "int \<Rightarrow> stash_item \<Rightarrow> int \<Rightarrow> (int \<Rightarrow> stash_item \<Rightarrow> int) \<Rightarrow> int" where
  "gains a k n w = w a k * n"

definition stash_adds :: "int \<Rightarrow> int \<Rightarrow> ((int \<Rightarrow> stash_item \<Rightarrow> int) \<Rightarrow> int) \<Rightarrow> mydb \<Rightarrow> mydb \<Rightarrow> bool" where
  "stash_adds ms mx F d d' \<longleftrightarrow>
     shifts ms mx F (\<lambda>_. 0) d d' \<and> cp_storage_escrow d' = cp_storage_escrow d"

lemma stash_adds_refl: "items_inv d \<Longrightarrow> stash_adds ms mx (\<lambda>_. 0) d d"
  by (simp add: stash_adds_def shifts_refl)

lemma stash_adds_trans:
  "stash_adds ms mx F d e \<Longrightarrow> stash_adds ms mx F' e f \<Longrightarrow> stash_adds ms mx (\<lambda>w. F w + F' w) d f"
  unfolding stash_adds_def using shifts_trans [of ms mx F "\<lambda>_. 0" d e F' "\<lambda>_. 0" f] by auto

lemma stash_adds_cong: "stash_adds ms mx F d e \<Longrightarrow> (\<And>w. F w = F' w) \<Longrightarrow> stash_adds ms mx F' d e"
  unfolding stash_adds_def using shifts_cong [of ms mx F "\<lambda>_. 0" d e F' "\<lambda>_. 0"] by simp

lemma stash_adds_inv: "stash_adds ms mx F d e \<Longrightarrow> items_inv e"
  by (simp add: stash_adds_def shifts_def)

lemma insertStashRow_adds:
  assumes run: "insertStashRow item n s = (Inr u, t)" and "items_inv (data s)" and "0 < n"
    and "slots_used (si_AccountID item) (data s) < ms" and "IsStackable item \<longrightarrow> n \<le> mx"
  shows "stash_adds ms mx (gains (si_AccountID item) (kind item) n) (data s) (data t)"
proof -
  let ?d = "data s" let ?q = "(my_seq ?d)\<lparr>storage_seq := storage_seq (my_seq ?d) + 1\<rparr>"
  let ?r = "item\<lparr>si_ID := storage_seq (my_seq ?d) + 1, si_Amount := n\<rparr>"
  from run have t: "data t = ?d\<lparr>cp_storage := cp_storage ?d @ [?r], my_seq := ?q\<rparr>" and "n \<le> 65535"
    by (auto simp: insertStashRow_def success_inv Let_def ins_checked_Some amount_check_def)
  have fresh: "storage_seq (my_seq ?d) + 1 \<notin> si_ID ` set (cp_storage ?d)"
    using assms(2) by (auto simp: items_inv_def row_ok_def)
  show ?thesis
    unfolding stash_adds_def
  proof (intro conjI shiftsI [where S = "cp_storage ?d @ [?r]" and E = "cp_storage_escrow ?d" and q = ?q])
    show "items_inv (data t)"
      using assms(2,3) fresh \<open>n \<le> 65535\<close> by (auto simp: items_inv_def t row_ok_def)
    show "slots_used b (data t) \<le> max (slots_used b ?d) ms" for b
      using assms(4) by (auto simp: slots_used_def t)
  qed (use assms(5) in \<open>auto simp: t stash_sum_def escrow_sum_def gains_def stacks_ok_def\<close>)
qed

lemma insertStashChunks_adds:
  "insertStashChunks a item n ms mx s = (Inr u, t) \<Longrightarrow> items_inv (data s) \<Longrightarrow> 0 \<le> n \<Longrightarrow> 0 < mx \<Longrightarrow>
   stash_adds ms mx (gains a (kind item) n) (data s) (data t)"
proof (induction a item n ms mx s rule: insertStashChunks.induct)
  case (1 a item n ms mx s)
  show ?case
  proof (cases "n > 0")
    case False
    with 1 show ?thesis
      by (auto simp: insertStashChunks.simps [of a item n] gains_def intro: stash_adds_cong [OF stash_adds_refl])
  next
    case True
    let ?chunk = "if IsStackable item \<and> n > mx then mx else n"
    from True "1.prems"(1) obtain s1 s2 where q: "query Sql (slots_used a) s = (Inr (slots_used a (data s)), s1)"
      and s1: "data s1 = data s" and room: "slots_used a (data s) < ms"
      and ins: "insertStashRow (item\<lparr>si_AccountID := a\<rparr>) ?chunk s1 = (Inr (), s2)"
      and rest: "insertStashChunks a (item\<lparr>si_AccountID := a\<rparr>) (n - ?chunk) ms mx s2 = (Inr u, t)"
      by (subst (asm) insertStashChunks.simps)
        (auto simp: query_Inr Let_def split: prod.splits sum.splits if_splits)
    have first: "stash_adds ms mx (gains a (kind item) ?chunk) (data s) (data s2)"
      using insertStashRow_adds [OF ins, of ms mx] 1 True room s1 by auto
    have "stash_adds ms mx (gains a (kind item) (n - ?chunk)) (data s2) (data t)"
      using "1.IH" [OF _ q [symmetric] refl] True room ins rest stash_adds_inv [OF first] "1.prems"
      by (simp add: not_le)
    from stash_adds_trans [OF first this] show ?thesis
      by (rule stash_adds_cong) (simp add: gains_def algebra_simps)
  qed
qed

lemma stackableMatch_kind:
  assumes "stackableMatch a (si_NameID item) (si_Identify item) (si_ExpireTime item) r" and "IsStackable item"
  shows "si_AccountID r = a" and "kind r = kind item"
proof -
  show "si_AccountID r = a" using assms(1) by (simp add: stackableMatch_def)
  have "si_Card item = zero4" "si_OptionID item = zero5" "si_OptionVal item = zero5" "si_OptionParm item = zero5"
    using assms(2) by (auto simp: IsStackable_def hasCards_def hasOptions_def any5_def zero4_def zero5_def
        split: prod.splits if_splits)
  then show "kind r = kind item"
    using assms by (auto simp: stackableMatch_def IsStackable_def kind_def split: if_splits)
qed

lemma slots_used_eq_count: "slots_used b d = int (count_list (map si_AccountID (cp_storage d)) b)"
proof -
  have "length (filter (\<lambda>i. si_AccountID i = b) xs) = count_list (map si_AccountID xs) b" for xs
    by (induction xs) auto
  then show ?thesis by (simp add: slots_used_def)
qed

text \<open>Changing the amount of one stash row.\<close>

lemma set_amount_adds:
  assumes "items_inv d" and "r \<in> set (cp_storage d)" and "0 < si_Amount r + c" and "si_Amount r + c \<le> 65535"
    and "c \<le> 0 \<or> si_Amount r + c \<le> mx"
    and d': "d' = d\<lparr>cp_storage := upd_where (\<lambda>q. si_ID q = si_ID r) (\<lambda>q. q\<lparr>si_Amount := si_Amount q + c\<rparr>) (cp_storage d)\<rparr>"
  shows "stash_adds ms mx (gains (si_AccountID r) (kind r) c) d d'"
proof -
  let ?S = "upd_where (\<lambda>q. si_ID q = si_ID r) (\<lambda>q. q\<lparr>si_Amount := si_Amount q + c\<rparr>) (cp_storage d)"
  have uniq: "uniq si_ID (cp_storage d)" using assms(1) by (simp add: items_inv_def)
  have only: "q = r" if "q \<in> set (cp_storage d)" "si_ID q = si_ID r" for q
    using uniq_the_row [OF uniq that(1) assms(2) that(2)] .
  have accounts: "map si_AccountID ?S = map si_AccountID (cp_storage d)"
    by (rule keys_upd_where) simp
  show ?thesis
    unfolding stash_adds_def
  proof (intro conjI shiftsI [where S = ?S and E = "cp_storage_escrow d" and q = "my_seq d"])
    show "items_inv d'"
      using assms(1,3,4) by (auto simp: items_inv_def d' uniq_upd_where set_upd_where row_ok_def dest: only)
    show "slots_used b d' \<le> max (slots_used b d) ms" for b
      by (simp add: slots_used_eq_count d' accounts)
    show "stash_sum w d' = stash_sum w d + gains (si_AccountID r) (kind r) c w" for w
      using tsum_upd_row [OF uniq assms(2), of "\<lambda>i. w (si_AccountID i) (kind i) * si_Amount i"
          "\<lambda>q. q\<lparr>si_Amount := si_Amount q + c\<rparr>"]
      by (simp add: stash_sum_def d' gains_def algebra_simps)
    assume "stacks_ok mx d"
    then show "stacks_ok mx d'"
      using only assms(2,5) by (fastforce simp: stacks_ok_def d' set_upd_where)
  qed (simp_all add: d' escrow_sum_def)
qed

lemma mergeIntoExistingStack_adds:
  assumes run: "mergeIntoExistingStack a item n mx s = (Inr rem, t)" and inv: "items_inv (data s)" and "0 < n"
  shows "0 \<le> rem \<and> stash_adds ms mx (gains a (kind item) (n - rem)) (data s) (data t)"
proof (cases "rem = n \<and> data t = data s")
  case True
  with \<open>0 < n\<close> inv show ?thesis
    by (auto intro: stash_adds_cong [OF stash_adds_refl] simp: gains_def)
next
  case False
  with run obtain r where st: "IsStackable item" and tgt: "merge_target a item mx (data s) = Some r"
    and rem: "rem = n - min n (mx - si_Amount r)"
    and chk: "\<forall>q \<in> set (cp_storage (data s)). si_ID q = si_ID r \<longrightarrow> si_Amount q + min n (mx - si_Amount r) \<le> 65535"
    and t: "data t = (data s)\<lparr>cp_storage := upd_where (\<lambda>q. si_ID q = si_ID r)
        (\<lambda>q. q\<lparr>si_Amount := si_Amount q + min n (mx - si_Amount r)\<rparr>) (cp_storage (data s))\<rparr>"
    by (auto simp: mergeIntoExistingStack_def success_inv Let_def upd_checked_Some amount_check_def
        split: if_splits option.splits)
  from tgt obtain rs where "sort_key si_ID (filter (\<lambda>r. stackableMatch a (si_NameID item) (si_Identify item)
      (si_ExpireTime item) r \<and> si_Amount r < mx) (cp_storage (data s))) = r # rs"
    by (auto simp: merge_target_def split: list.splits)
  then have r: "r \<in> set (cp_storage (data s))" "si_Amount r < mx"
    "stackableMatch a (si_NameID item) (si_Identify item) (si_ExpireTime item) r"
    by (auto dest: sort_key_hd)
  from inv r have pos: "0 < si_Amount r" by (auto simp: items_inv_def row_ok_def)
  have "stash_adds ms mx (gains (si_AccountID r) (kind r) (min n (mx - si_Amount r))) (data s) (data t)"
    by (rule set_amount_adds [OF inv r(1) _ _ _ t]) (use pos chk r \<open>0 < n\<close> in auto)
  with stackableMatch_kind [OF r(3) st] rem \<open>0 < n\<close> r(2) show ?thesis by auto
qed

lemma upsertStashStack_adds:
  assumes "upsertStashStack a item n ms mx s = (Inr u, t)" and inv: "items_inv (data s)" and "0 < n" "0 < mx"
  shows "stash_adds ms mx (gains a (kind item) n) (data s) (data t)"
proof -
  from assms(1) obtain rem v where m: "mergeIntoExistingStack a item n mx s = (Inr rem, v)"
    and i: "insertStashChunks a item rem ms mx v = (Inr u, t)"
    by (auto simp: upsertStashStack_def success_inv)
  from mergeIntoExistingStack_adds [OF m inv \<open>0 < n\<close>, of ms] have rem: "0 \<le> rem"
    and a: "stash_adds ms mx (gains a (kind item) (n - rem)) (data s) (data v)" by auto
  from stash_adds_trans [OF a insertStashChunks_adds [OF i stash_adds_inv [OF a] rem \<open>0 < mx\<close>]]
  show ?thesis by (rule stash_adds_cong) (simp add: gains_def algebra_simps)
qed

definition gains_all :: "int \<Rightarrow> stash_item list \<Rightarrow> (int \<Rightarrow> stash_item \<Rightarrow> int) \<Rightarrow> int" where
  "gains_all a items w = sum_list (map (\<lambda>i. w a (kind i) * si_Amount i) items)"

lemma upsertAll_adds:
  "upsertAll a ms mx items s = (Inr u, t) \<Longrightarrow> items_inv (data s) \<Longrightarrow> \<forall>i \<in> set items. 0 < si_Amount i \<Longrightarrow> 0 < mx \<Longrightarrow>
   stash_adds ms mx (gains_all a items) (data s) (data t)"
proof (induction items arbitrary: s)
  case Nil
  then show ?case
    by (auto simp: retE_Inr gains_all_def intro: stash_adds_cong [OF stash_adds_refl])
next
  case (Cons i items)
  then obtain v where u: "upsertStashStack a i (si_Amount i) ms mx s = (Inr (), v)"
    and r: "upsertAll a ms mx items v = (Inr u, t)" by (auto simp: success_inv)
  have first: "stash_adds ms mx (gains a (kind i) (si_Amount i)) (data s) (data v)"
    using Cons.prems by (intro upsertStashStack_adds [OF u]) auto
  have "stash_adds ms mx (gains_all a items) (data v) (data t)"
    using Cons.prems by (intro Cons.IH [OF r stash_adds_inv [OF first]]) auto
  from stash_adds_trans [OF first this] show ?case
    by (rule stash_adds_cong) (simp add: gains_def gains_all_def)
qed

section \<open>Moving items into escrow\<close>

lemma delete_row_adds:
  assumes "items_inv d" and "r \<in> set (cp_storage d)"
    and d': "d' = d\<lparr>cp_storage := del_where (\<lambda>q. si_ID q = si_ID r) (cp_storage d)\<rparr>"
  shows "stash_adds ms mx (gains (si_AccountID r) (kind r) (- si_Amount r)) d d'"
proof -
  let ?S = "del_where (\<lambda>q. si_ID q = si_ID r) (cp_storage d)"
  have uniq: "uniq si_ID (cp_storage d)" using assms(1) by (simp add: items_inv_def)
  show ?thesis
    unfolding stash_adds_def
  proof (intro conjI shiftsI [where S = ?S and E = "cp_storage_escrow d" and q = "my_seq d"])
    show "items_inv d'"
      using assms(1) by (auto simp: items_inv_def d' uniq_del_where)
    show "slots_used b d' \<le> max (slots_used b d) ms" for b
      using length_filter_del_where [of "\<lambda>i. si_AccountID i = b" "\<lambda>q. si_ID q = si_ID r" "cp_storage d"]
      by (auto simp: slots_used_def d' le_max_iff_disj)
    show "stash_sum w d' = stash_sum w d + gains (si_AccountID r) (kind r) (- si_Amount r) w" for w
      using tsum_del_row [OF uniq assms(2), of "\<lambda>i. w (si_AccountID i) (kind i) * si_Amount i"]
      by (simp add: stash_sum_def d' gains_def)
  qed (auto simp: d' escrow_sum_def stacks_ok_def)
qed

lemma insertEscrowRow_shifts:
  assumes run: "insertEscrowRow ref item n s = (Inr u, t)" and "items_inv (data s)" and "0 < n"
  shows "shifts ms mx (\<lambda>_. 0) (gains ref (kind item) n) (data s) (data t)"
    and "cp_storage (data t) = cp_storage (data s)"
proof -
  let ?d = "data s" let ?q = "(my_seq ?d)\<lparr>escrow_seq := escrow_seq (my_seq ?d) + 1\<rparr>"
  let ?r = "\<lparr>er_item = item\<lparr>si_ID := escrow_seq (my_seq ?d) + 1, si_Amount := n\<rparr>, er_listing_ref = ref,
              er_created_at = my_clock ?d\<rparr>"
  from run have t: "data t = ?d\<lparr>cp_storage_escrow := cp_storage_escrow ?d @ [?r], my_seq := ?q\<rparr>" and "n \<le> 65535"
    by (auto simp: insertEscrowRow_def success_inv Let_def ins_checked_Some amount_check_def)
  have fresh: "escrow_seq (my_seq ?d) + 1 \<notin> (\<lambda>r. si_ID (er_item r)) ` set (cp_storage_escrow ?d)"
    using assms(2) by (auto simp: items_inv_def row_ok_def)
  show "cp_storage (data t) = cp_storage ?d" by (simp add: t)
  show "shifts ms mx (\<lambda>_. 0) (gains ref (kind item) n) ?d (data t)"
  proof (rule shiftsI [where S = "cp_storage ?d" and E = "cp_storage_escrow ?d @ [?r]" and q = ?q])
    show "items_inv (data t)"
      using assms(2,3) fresh \<open>n \<le> 65535\<close> by (auto simp: items_inv_def t row_ok_def)
  qed (auto simp: t stash_sum_def escrow_sum_def gains_def stacks_ok_def slots_used_def)
qed

lemma moveOneToEscrow_moves:
  assumes run: "moveOneToEscrow a ref mv s = (Inr u, t)" and inv: "items_inv (data s)"
  shows "0 < em_Amount mv \<and>
    (\<exists>i \<in> set (cp_storage (data s)). si_ID i = em_StashItemID mv \<and> si_AccountID i = a \<and>
       shifts ms mx (gains a (kind i) (- em_Amount mv)) (gains ref (kind i) (em_Amount mv)) (data s) (data t))"
proof -
  from run obtain i v w where load: "loadStashItemTx a (em_StashItemID mv) s = (Inr i, v)"
    and ok: "validateEscrowMove i mv = None"
    and ins: "insertEscrowRow ref i (em_Amount mv) v = (Inr (), w)"
    and rest: "(if em_Amount mv = si_Amount i then delete_stash_row (si_ID i)
              else reduce_stash_row (si_ID i) (em_Amount mv)) w = (Inr u, t)"
    by (auto simp: moveOneToEscrow_def success_inv split: option.splits)
  from load have v: "data v = data s" and i: "i \<in> set (cp_storage (data s))" "si_AccountID i = a" "si_ID i = em_StashItemID mv"
    by (auto simp: loadStashItemTx_def success_inv split: list.splits dest: filter_hd)
  from ok have n: "0 < em_Amount mv" "em_Amount mv \<le> si_Amount i"
    by (auto simp: validateEscrowMove_def split: if_splits)
  from insertEscrowRow_shifts(1) [OF ins, of ms mx] insertEscrowRow_shifts(2) [OF ins] v inv n
  have first: "shifts ms mx (\<lambda>_. 0) (gains ref (kind i) (em_Amount mv)) (data s) (data w)"
    and same: "cp_storage (data w) = cp_storage (data s)" by auto
  then have invw: "items_inv (data w)" by (simp add: shifts_def)
  have "stash_adds ms mx (gains (si_AccountID i) (kind i) (- em_Amount mv)) (data w) (data t)"
  proof (cases "em_Amount mv = si_Amount i")
    case True
    with rest have "data t = (data w)\<lparr>cp_storage := del_where (\<lambda>q. si_ID q = si_ID i) (cp_storage (data w))\<rparr>"
      by (auto simp: delete_stash_row_def success_inv)
    from delete_row_adds [OF invw _ this] i same True show ?thesis by simp
  next
    case False
    with rest have t: "data t = (data w)\<lparr>cp_storage := upd_where (\<lambda>q. si_ID q = si_ID i)
        (\<lambda>q. q\<lparr>si_Amount := si_Amount q + - em_Amount mv\<rparr>) (cp_storage (data w))\<rparr>"
      by (auto simp: reduce_stash_row_def success_inv upd_checked_Some)
    have "si_Amount i \<le> 65535" using inv i by (auto simp: items_inv_def row_ok_def)
    with False n show ?thesis
      by (intro set_amount_adds [OF invw _ _ _ _ t]) (use i same in auto)
  qed
  then have "shifts ms mx (gains a (kind i) (- em_Amount mv)) (\<lambda>_. 0) (data w) (data t)"
    by (simp add: stash_adds_def i)
  from shifts_trans [OF first this] n i show ?thesis by auto
qed

lemma moveOneToEscrow_shifts:
  "moveOneToEscrow a ref mv s = (Inr u, t) \<Longrightarrow> items_inv (data s) \<Longrightarrow> 0 < em_Amount mv \<and>
    (\<exists>k. shifts ms mx (gains a k (- em_Amount mv)) (gains ref k (em_Amount mv)) (data s) (data t))"
  using moveOneToEscrow_moves [of a ref mv s u t ms mx] by blast

text \<open>The kinds \<open>ks\<close> of the moved stacks, one per move.\<close>

definition moved :: "int \<Rightarrow> stash_item list \<Rightarrow> escrow_move list \<Rightarrow> (int \<Rightarrow> stash_item \<Rightarrow> int) \<Rightarrow> int" where
  "moved b ks moves w = sum_list (map2 (\<lambda>k m. w b k * em_Amount m) ks moves)"

lemma moveAllToEscrow_shifts:
  "moveAllToEscrow a ref moves s = (Inr u, t) \<Longrightarrow> items_inv (data s) \<Longrightarrow>
   (\<forall>m \<in> set moves. 0 < em_Amount m) \<and>
   (\<exists>ks. length ks = length moves \<and>
      shifts ms mx (\<lambda>w. - moved a ks moves w) (moved ref ks moves) (data s) (data t))"
proof (induction moves arbitrary: s)
  case Nil
  then show ?case by (auto simp: retE_Inr moved_def intro: shifts_cong [OF shifts_refl])
next
  case (Cons m moves)
  then obtain v where one: "moveOneToEscrow a ref m s = (Inr (), v)"
    and rest: "moveAllToEscrow a ref moves v = (Inr u, t)" by (auto simp: success_inv)
  from moveOneToEscrow_shifts [OF one Cons.prems(2), of ms mx] obtain k where pos: "0 < em_Amount m"
    and k: "shifts ms mx (gains a k (- em_Amount m)) (gains ref k (em_Amount m)) (data s) (data v)" by blast
  then have "items_inv (data v)" by (simp add: shifts_def)
  from Cons.IH [OF rest this] obtain ks where "length ks = length moves" "\<forall>m \<in> set moves. 0 < em_Amount m"
    and ks: "shifts ms mx (\<lambda>w. - moved a ks moves w) (moved ref ks moves) (data v) (data t)" by blast
  have "shifts ms mx (\<lambda>w. - moved a (k # ks) (m # moves) w) (moved ref (k # ks) (m # moves)) (data s) (data t)"
    by (rule shifts_cong [OF shifts_trans [OF k ks]]) (simp_all add: gains_def moved_def)
  with pos \<open>length ks = length moves\<close> \<open>\<forall>m \<in> set moves. 0 < em_Amount m\<close> show ?case
    by (intro conjI exI [of _ "k # ks"]) auto
qed

section \<open>Taking items out of escrow\<close>

lemma requireLocked_data: "requireLocked a s = (r, t) \<Longrightarrow> data t = data s"
proof -
  have "steps (\<lambda>d e. e = d) (requireLocked a)"
    unfolding requireLocked_def query_row_def guardE_def
    by (intro steps_bind) (auto intro!: steps_query steps_ret steps_fail split: option.split)
  then show "requireLocked a s = (r, t) \<Longrightarrow> data t = data s" by (rule stepsD)
qed

lemma escrow_of_pos: "items_inv d \<Longrightarrow> \<forall>i \<in> set (escrow_of ref d). 0 < si_Amount i"
  by (auto simp: items_inv_def escrow_of_def row_ok_def)

lemma gains_all_escrow_of:
  "gains_all x (escrow_of ref d) w =
     tsum (\<lambda>r. if er_listing_ref r = ref then w x (kind (er_item r)) * si_Amount (er_item r) else 0)
       (cp_storage_escrow d)"
proof -
  have "sum_list (map (\<lambda>i. w x (kind i) * si_Amount i) (map er_item (filter (\<lambda>r. er_listing_ref r = ref) E))) =
     tsum (\<lambda>r. if er_listing_ref r = ref then w x (kind (er_item r)) * si_Amount (er_item r) else 0) E" for E
    by (induction E) auto
  then show ?thesis by (simp add: gains_all_def escrow_of_def)
qed

lemma clear_escrow_sum:
  "tsum g (del_where (\<lambda>r. er_listing_ref r = ref) E) = tsum g E - tsum (\<lambda>r. if er_listing_ref r = ref then g r else 0) E"
  by (induction E) (auto simp: del_where_def)

lemma drainEscrowTx_shifts:
  assumes run: "drainEscrowTx ref to ms mx s = (Inr u, t)" and inv: "items_inv (data s)" and "0 < mx"
  shows "shifts ms mx (gains_all to (escrow_of ref (data s))) (\<lambda>w. - gains_all ref (escrow_of ref (data s)) w)
    (data s) (data t)"
proof -
  let ?I = "escrow_of ref (data s)"
  from run obtain x v v' where "requireLocked to s = (Inr (), x)" and "query Sql (escrow_of ref) x = (Inr (escrow_of ref (data x)), v)"
    and up: "upsertAll to ms mx (escrow_of ref (data x)) v = (Inr (), v')"
    and "exec Sql (\<lambda>d. d\<lparr>cp_storage_escrow := del_where (\<lambda>r. er_listing_ref r = ref) (cp_storage_escrow d)\<rparr>) v' = (Inr u, t)"
    by (auto simp: drainEscrowTx_def thenE_Inr bindE_Inr query_Inr)
  then have x: "data x = data s" and v: "data v = data s"
    and t: "data t = (data v')\<lparr>cp_storage_escrow := del_where (\<lambda>r. er_listing_ref r = ref) (cp_storage_escrow (data v'))\<rparr>"
    by (auto simp: success_inv dest: requireLocked_data)
  from upsertAll_adds [OF up] inv x v escrow_of_pos [OF inv] \<open>0 < mx\<close>
  have a: "stash_adds ms mx (gains_all to ?I) (data s) (data v')" by auto
  then have inv': "items_inv (data v')" and same: "cp_storage_escrow (data v') = cp_storage_escrow (data s)"
    by (simp_all add: stash_adds_def shifts_def)
  have "shifts ms mx (\<lambda>_. 0) (\<lambda>w. - gains_all ref ?I w) (data v') (data t)"
  proof (rule shiftsI [where S = "cp_storage (data v')" and q = "my_seq (data v')"
        and E = "del_where (\<lambda>r. er_listing_ref r = ref) (cp_storage_escrow (data v'))"])
    show "items_inv (data t)"
      using inv' by (auto simp: items_inv_def t uniq_del_where)
    show "escrow_sum w (data t) = escrow_sum w (data v') + - gains_all ref ?I w" for w
      unfolding gains_all_escrow_of same [symmetric]
      by (simp add: escrow_sum_def t clear_escrow_sum) (rule tsum_cong, simp)
  qed (auto simp: t stash_sum_def stacks_ok_def slots_used_def)
  with a show ?thesis unfolding stash_adds_def
    by (elim conjE) (rule shifts_cong [OF shifts_trans], assumption+, simp_all)
qed

lemma reduceEscrowRow_shifts:
  assumes run: "reduceEscrowRow (er_item r) n s = (Inr u, t)" and inv: "items_inv (data s)"
    and r: "r \<in> set (cp_storage_escrow (data s))" and "0 < n" and "n \<le> si_Amount (er_item r)"
  shows "shifts ms mx (\<lambda>_. 0) (gains (er_listing_ref r) (kind (er_item r)) (- n)) (data s) (data t)"
proof -
  let ?d = "data s" and ?key = "\<lambda>q. si_ID (er_item q)"
  let ?g = "\<lambda>w r. w (er_listing_ref r) (kind (er_item r)) * si_Amount (er_item r)"
  have uniq: "uniq ?key (cp_storage_escrow ?d)" using inv by (simp add: items_inv_def)
  have only: "q = r" if "q \<in> set (cp_storage_escrow ?d)" "?key q = ?key r" for q
    using uniq_the_row [OF uniq that(1) r that(2)] .
  show ?thesis
  proof (cases "n = si_Amount (er_item r)")
    case True
    let ?E = "del_where (\<lambda>q. ?key q = ?key r) (cp_storage_escrow ?d)"
    from True run have t: "data t = ?d\<lparr>cp_storage_escrow := ?E\<rparr>"
      by (auto simp: reduceEscrowRow_def delete_escrow_row_def success_inv)
    show ?thesis
    proof (rule shiftsI [where S = "cp_storage ?d" and q = "my_seq ?d" and E = ?E])
      show "items_inv (data t)"
        using inv by (auto simp: items_inv_def t uniq_del_where)
      show "escrow_sum w (data t) = escrow_sum w ?d + gains (er_listing_ref r) (kind (er_item r)) (- n) w" for w
        using tsum_del_row [OF uniq r, of "?g w"] True by (simp add: escrow_sum_def t gains_def)
    qed (auto simp: t stash_sum_def stacks_ok_def slots_used_def)
  next
    case False
    let ?f = "\<lambda>q. q\<lparr>er_item := (er_item q)\<lparr>si_Amount := si_Amount (er_item q) - n\<rparr>\<rparr>"
    let ?E = "upd_where (\<lambda>q. ?key q = ?key r) ?f (cp_storage_escrow ?d)"
    from False run have t: "data t = ?d\<lparr>cp_storage_escrow := ?E\<rparr>"
      by (auto simp: reduceEscrowRow_def success_inv upd_checked_Some)
    show ?thesis
    proof (rule shiftsI [where S = "cp_storage ?d" and q = "my_seq ?d" and E = ?E])
      have "\<forall>q \<in> set ?E. row_ok (escrow_seq (my_seq ?d)) (er_item q)"
        using inv r \<open>0 < n\<close> \<open>n \<le> si_Amount (er_item r)\<close> False
        by (auto simp: items_inv_def set_upd_where row_ok_def dest: only)
      moreover have "uniq ?key ?E"
        by (subst uniq_upd_where) (simp_all add: uniq)
      ultimately show "items_inv (data t)"
        using inv by (simp add: items_inv_def t)
      show "escrow_sum w (data t) = escrow_sum w ?d + gains (er_listing_ref r) (kind (er_item r)) (- n) w" for w
        using tsum_upd_row [OF uniq r, of "?g w" ?f] by (simp add: escrow_sum_def t gains_def algebra_simps)
    qed (auto simp: t stash_sum_def stacks_ok_def slots_used_def)
  qed
qed

lemma deliverPartialTx_shifts:
  assumes run: "deliverPartialTx ref to n ms mx s = (Inr u, t)" and inv: "items_inv (data s)" and "0 < mx"
  obtains r where "r \<in> set (cp_storage_escrow (data s))" and "er_listing_ref r = ref" and "0 < n"
    and "n \<le> si_Amount (er_item r)"
    and "shifts ms mx (gains to (kind (er_item r)) n) (gains ref (kind (er_item r)) (- n)) (data s) (data t)"
proof -
  from run obtain x js v where "requireLocked to s = (Inr (), x)"
    and "query Sql (\<lambda>d. sort_key si_ID (escrow_of ref d)) x = (Inr js, v)"
    and rest: "(case js of [] \<Rightarrow> failE (Market ErrStashItemNotFound) | item # _ \<Rightarrow>
         guardE (n \<le> 0 \<or> n > si_Amount item) (Market ErrInsufficientStack)
           (thenE (upsertStashStack to item n ms mx) (reduceEscrowRow item n))) v = (Inr u, t)"
    by (auto simp: deliverPartialTx_def thenE_Inr bindE_Inr)
  then have v: "data v = data s" and js: "js = sort_key si_ID (escrow_of ref (data s))"
    by (auto simp: query_Inr dest: requireLocked_data)
  from rest obtain i js' v' where i: "sort_key si_ID (escrow_of ref (data s)) = i # js'"
    and n: "0 < n" "n \<le> si_Amount i"
    and up: "upsertStashStack to i n ms mx v = (Inr (), v')" and red: "reduceEscrowRow i n v' = (Inr u, t)"
    unfolding js by (cases "sort_key si_ID (escrow_of ref (data s))") (auto simp: success_inv not_less not_le)
  from sort_key_hd [OF i] obtain r where r: "r \<in> set (cp_storage_escrow (data s))" "er_listing_ref r = ref" "er_item r = i"
    by (auto simp: escrow_of_def)
  from upsertStashStack_adds [OF up] inv v n \<open>0 < mx\<close>
  have a: "stash_adds ms mx (gains to (kind i) n) (data s) (data v')" by simp
  then have "items_inv (data v')" "cp_storage_escrow (data v') = cp_storage_escrow (data s)"
    and a': "shifts ms mx (gains to (kind i) n) (\<lambda>_. 0) (data s) (data v')"
    by (simp_all add: stash_adds_def shifts_def)
  with red r n have b: "shifts ms mx (\<lambda>_. 0) (gains ref (kind i) (- n)) (data v') (data t)"
    using reduceEscrowRow_shifts [of r n v' u t ms mx] by simp
  have "shifts ms mx (gains to (kind i) n) (gains ref (kind i) (- n)) (data s) (data t)"
    by (rule shifts_cong [OF shifts_trans [OF a' b]]) simp_all
  with r n show ?thesis by (intro that [of r]) auto
qed

section \<open>Counters\<close>

lemma my_seq_grows:
  "my_grows d (d\<lparr>cp_storage := S\<rparr>)" "my_grows d (d\<lparr>cp_storage_escrow := E\<rparr>)"
  "my_grows d (d\<lparr>cp_delivery_applied := A\<rparr>)"
  "my_grows d (d\<lparr>cp_storage := S, my_seq := (my_seq d)\<lparr>storage_seq := storage_seq (my_seq d) + 1\<rparr>\<rparr>)"
  "my_grows d (d\<lparr>cp_storage_escrow := E, my_seq := (my_seq d)\<lparr>escrow_seq := escrow_seq (my_seq d) + 1\<rparr>\<rparr>)"
  by (simp_all add: my_grows_def)

lemma insertStashRow_grows: "steps my_grows (insertStashRow item n)"
  unfolding insertStashRow_def by (rule my.grows_exec_opt) (auto simp: Let_def my_seq_grows)

lemma insertStashChunks_steps:
  assumes refl: "\<And>d. R d d" and trans: "\<And>c d e. R c d \<Longrightarrow> R d e \<Longrightarrow> R c e"
    and row: "\<And>item n. steps R (insertStashRow item n)"
  shows "steps R (insertStashChunks a item n ms mx)"
  unfolding steps_def
proof
  fix s show "R (data s) (data (snd (insertStashChunks a item n ms mx s)))"
  proof (induction a item n ms mx s rule: insertStashChunks.induct)
    case (1 a item n ms mx s)
    note unfold = insertStashChunks.simps [of a item n ms mx s]
    let ?chunk = "if IsStackable item \<and> n > mx then mx else n" and ?item = "item\<lparr>si_AccountID := a\<rparr>"
    obtain x s1 where q: "query Sql (slots_used a) s = (x, s1)" by fastforce
    then have s1: "data s1 = data s" by (metis query_data snd_conv)
    obtain y s2 where ins: "insertStashRow ?item ?chunk s1 = (y, s2)" by fastforce
    with row have s2: "R (data s) (data s2)" unfolding s1 [symmetric] by (rule stepsD)
    show ?case
    proof (cases "n > 0 \<and> (\<exists>used z. x = Inr used \<and> \<not> ms \<le> used \<and> y = Inr z)")
      case True
      then obtain used z where "n > 0" "x = Inr used" "\<not> ms \<le> used" "y = Inr z" by blast
      have eq: "insertStashChunks a item n ms mx s = insertStashChunks a ?item (n - ?chunk) ms mx s2"
        by (subst unfold) (simp only: Let_def q ins \<open>n > 0\<close> \<open>x = Inr used\<close> \<open>\<not> ms \<le> used\<close> \<open>y = Inr z\<close>
            not_True_eq_False if_False prod.case sum.case)
      have "R (data s2) (data (snd (insertStashChunks a ?item (n - ?chunk) ms mx s2)))"
        by (rule "1.IH" [OF _ q [symmetric] \<open>x = Inr used\<close> \<open>\<not> ms \<le> used\<close> HOL.refl HOL.refl ins [symmetric] \<open>y = Inr z\<close>])
          (simp add: \<open>n > 0\<close>)
      with s2 show ?thesis unfolding eq by (rule trans)
    next
      case False
      show ?thesis
      proof (cases "n > 0")
        case True
        with False q ins s1 s2 show ?thesis
          by (subst unfold) (cases x; cases y; simp only: Let_def; simp add: refl)
      qed (simp add: unfold refl)
    qed
  qed
qed

lemma insertStashChunks_grows: "steps my_grows (insertStashChunks a item n ms mx)"
  by (rule insertStashChunks_steps [OF my.grows_refl my.grows_trans insertStashRow_grows])

lemma mergeIntoExistingStack_grows: "steps my_grows (mergeIntoExistingStack a item n mx)"
  unfolding mergeIntoExistingStack_def Let_def
  by (auto intro!: my.grows_bind my.grows_then my.grows_exec_opt simp: my_seq_grows split: option.split)

lemma upsertStashStack_grows: "steps my_grows (upsertStashStack a item n ms mx)"
  unfolding upsertStashStack_def
  by (intro my.grows_bind mergeIntoExistingStack_grows insertStashChunks_grows)

lemma upsertAll_grows: "steps my_grows (upsertAll a ms mx items)"
  by (induction items) (auto intro: upsertStashStack_grows)

lemma requireLocked_grows: "steps my_grows (requireLocked a)"
  unfolding requireLocked_def by (intro my.grows_bind my.grows_query_row my.grows_guard my.grows_ret)

lemma drainEscrowTx_grows: "steps my_grows (drainEscrowTx ref to ms mx)"
  unfolding drainEscrowTx_def
  by (auto intro!: my.grows_then my.grows_bind my.grows_exec requireLocked_grows upsertAll_grows simp: my_seq_grows)

lemma deliverPartialTx_grows: "steps my_grows (deliverPartialTx ref to n ms mx)"
  unfolding deliverPartialTx_def reduceEscrowRow_def delete_escrow_row_def
  by (auto intro!: my.grows_then my.grows_bind my.grows_exec my.grows_exec_opt my.grows_guard
      requireLocked_grows upsertStashStack_grows simp: my_seq_grows split: list.split)

lemma moveAllToEscrow_grows: "steps my_grows (moveAllToEscrow a ref moves)"
proof (induction moves)
  case (Cons m moves)
  have "steps my_grows (moveOneToEscrow a ref m)"
    unfolding moveOneToEscrow_def loadStashItemTx_def insertEscrowRow_def delete_stash_row_def reduce_stash_row_def
    by (auto intro!: my.grows_then my.grows_bind my.grows_exec my.grows_exec_opt
        simp: my_seq_grows Let_def split: list.split option.split)
  with Cons show ?case by auto
qed simp

lemma unlessApplied_grows: "steps my_grows work \<Longrightarrow> steps my_grows (unlessApplied leg work)"
  unfolding unlessApplied_def claimDelivery_def
  by (auto intro!: my.grows_bind my.grows_sql simp: my_seq_grows my.grows_refl split: if_splits)

section \<open>The item ledger\<close>

record item_ledger =
  il_stash :: "int \<Rightarrow> stash_item \<Rightarrow> int"
  il_escrow :: "int \<Rightarrow> stash_item \<Rightarrow> int"
  il_applied :: "int set"

definition item_ledger_of :: "mydb \<Rightarrow> item_ledger" where
  "item_ledger_of d = \<lparr>il_stash = stash_units d, il_escrow = escrow_units d,
     il_applied = set (cp_delivery_applied d)\<rparr>"

datatype escrow_op =
    Move_op int int "escrow_move list"
  | Deliver_op int int int
  | Partial_op int int int int
  | Return_op int

primrec run_escrow_op :: "escrow_repo \<Rightarrow> escrow_op \<Rightarrow> unit my_prog" where
  "run_escrow_op r (Move_op a ref moves) = MoveToEscrow a ref moves"
| "run_escrow_op r (Deliver_op ref to leg) = escrow_Deliver r ref to leg"
| "run_escrow_op r (Partial_op ref to n leg) = DeliverPartial r ref to n leg"
| "run_escrow_op r (Return_op ref) = ReturnToStash r ref"

definition add_units :: "(int \<Rightarrow> stash_item \<Rightarrow> int) \<Rightarrow> int \<Rightarrow> (stash_item \<Rightarrow> int) \<Rightarrow> int \<Rightarrow> stash_item \<Rightarrow> int" where
  "add_units m a f = m(a := (\<lambda>k. m a k + f k))"

definition note_leg :: "int \<Rightarrow> int set \<Rightarrow> int set" where
  "note_leg leg A = (if leg = 0 then A else insert leg A)"

definition move_units :: "stash_item list \<Rightarrow> escrow_move list \<Rightarrow> stash_item \<Rightarrow> int" where
  "move_units ks moves q = sum_list (map2 (\<lambda>k m. if k = q then em_Amount m else 0) ks moves)"

text \<open>
  The contract. A move takes units an account has; a delivery or a return empties a
  reference; a partial delivery takes units the reference has; a leg other than 0 is served
  at most once.
\<close>

inductive item_step :: "escrow_op \<Rightarrow> item_ledger \<Rightarrow> item_ledger \<Rightarrow> bool" where
  move: "length ks = length moves \<Longrightarrow> \<forall>m \<in> set moves. 0 < em_Amount m \<Longrightarrow>
    \<forall>k. move_units ks moves k \<le> il_stash L a k \<Longrightarrow>
    item_step (Move_op a ref moves) L
      (L\<lparr>il_stash := add_units (il_stash L) a (\<lambda>k. - move_units ks moves k),
         il_escrow := add_units (il_escrow L) ref (move_units ks moves)\<rparr>)"
| deliver: "leg = 0 \<or> leg \<notin> il_applied L \<Longrightarrow>
    item_step (Deliver_op ref to leg) L
      (L\<lparr>il_stash := add_units (il_stash L) to (il_escrow L ref),
         il_escrow := (il_escrow L)(ref := (\<lambda>_. 0)),
         il_applied := note_leg leg (il_applied L)\<rparr>)"
| part: "leg = 0 \<or> leg \<notin> il_applied L \<Longrightarrow> 0 < n \<Longrightarrow> n \<le> il_escrow L ref k \<Longrightarrow>
    item_step (Partial_op ref to n leg) L
      (L\<lparr>il_stash := add_units (il_stash L) to (\<lambda>q. if q = k then n else 0),
         il_escrow := add_units (il_escrow L) ref (\<lambda>q. if q = k then - n else 0),
         il_applied := note_leg leg (il_applied L)\<rparr>)"
| give_back: "item_step (Return_op ref) L
      (L\<lparr>il_stash := add_units (il_stash L) owner (il_escrow L ref),
         il_escrow := (il_escrow L)(ref := (\<lambda>_. 0))\<rparr>)"
| deliver_again: "leg \<noteq> 0 \<Longrightarrow> leg \<in> il_applied L \<Longrightarrow> item_step (Deliver_op ref to leg) L L"
| part_again: "leg \<noteq> 0 \<Longrightarrow> leg \<in> il_applied L \<Longrightarrow> item_step (Partial_op ref to n leg) L L"
| nothing_held: "\<forall>k. il_escrow L ref k = 0 \<Longrightarrow> item_step (Return_op ref) L L"

lemma items_inv_rb:
  assumes "items_inv d" and "my_grows d e"
  shows "items_inv (my_rb d e)"
proof -
  have "row_ok q i" if "row_ok p i" "p \<le> q" for p q i using that by (simp add: row_ok_def)
  with assms show ?thesis unfolding items_inv_def my_rb_def my_grows_def by simp blast
qed

text \<open>A transaction over the item tables: undone with an error, or its body's effect.\<close>

lemma item_tx:
  assumes "steps my_grows m" and inv: "items_inv (data s)" and run: "myTx m s = (r, t)"
    and body: "\<And>u x v. items_inv (data u) \<Longrightarrow> data u = data s \<Longrightarrow> m u = (Inr x, v) \<Longrightarrow> items_inv (data v) \<and> Q (data v)"
  shows "items_inv (data t) \<and> ((\<exists>e. r = Inl e) \<and> (\<exists>q. data t = (data s)\<lparr>my_seq := q\<rparr>) \<or> Q (data t))"
  using assms(1) run [unfolded myTx_def]
proof (cases rule: my.tx_outcome)
  case (undone d e')
  with items_inv_rb [OF inv] show ?thesis by (auto simp: my_rb_def)
next
  case (committed u x v)
  with inv body [of u x v] show ?thesis by simp
qed

lemma ledger_seq [simp]: "item_ledger_of (d\<lparr>my_seq := q\<rparr>) = item_ledger_of d"
  by (simp add: item_ledger_of_def stash_units_def escrow_units_def stash_sum_def escrow_sum_def fun_eq_iff)

lemma il_applied_of: "il_applied (item_ledger_of d) = set (cp_delivery_applied d)"
  by (simp add: item_ledger_of_def)

lemma claimed_inv:
  "items_inv d \<Longrightarrow> leg \<notin> set (cp_delivery_applied d) \<Longrightarrow>
   items_inv (d\<lparr>cp_delivery_applied := cp_delivery_applied d @ [leg]\<rparr>)"
  by (simp add: items_inv_def)

text \<open>A delivery's body ran: the leg had been served, or it is noted and the work done.\<close>

lemma unlessApplied_Inr:
  assumes "unlessApplied leg work s = (Inr x, t)"
  shows "leg \<noteq> 0 \<and> leg \<in> set (cp_delivery_applied (data s)) \<and> data t = data s \<or>
    (leg = 0 \<or> leg \<notin> set (cp_delivery_applied (data s))) \<and>
    (\<exists>u. work u = (Inr x, t) \<and> data u = (if leg = 0 then data s
        else (data s)\<lparr>cp_delivery_applied := cp_delivery_applied (data s) @ [leg]\<rparr>))"
proof (cases "leg = 0")
  case True
  with assms show ?thesis by (auto simp: unlessApplied_def claimDelivery_def success_inv)
next
  case False
  from assms obtain b u where c: "claimDelivery leg s = (Inr b, u)"
    and w: "(if \<not> b then work else retE ()) u = (Inr x, t)"
    by (auto simp: unlessApplied_def bindE_Inr)
  from c False have "b \<longleftrightarrow> leg \<in> set (cp_delivery_applied (data s))"
    "data u = (if b then data s else (data s)\<lparr>cp_delivery_applied := cp_delivery_applied (data s) @ [leg]\<rparr>)"
    by (auto simp: claimDelivery_def sql_Inr split: if_splits)
  with w False show ?thesis by (cases b) (auto simp: success_inv)
qed

text \<open>What a delivery's transaction does to the data: nothing, or one \<open>shifts\<close> and the note.\<close>

definition delivered ::
    "int \<Rightarrow> int \<Rightarrow> ((int \<Rightarrow> stash_item \<Rightarrow> int) \<Rightarrow> int) \<Rightarrow> ((int \<Rightarrow> stash_item \<Rightarrow> int) \<Rightarrow> int) \<Rightarrow> int \<Rightarrow> mydb \<Rightarrow> mydb \<Rightarrow> bool" where
  "delivered ms mx F G leg d d' \<longleftrightarrow>
     (leg = 0 \<or> leg \<notin> set (cp_delivery_applied d)) \<and>
     shifts ms mx F G (if leg = 0 then d else d\<lparr>cp_delivery_applied := cp_delivery_applied d @ [leg]\<rparr>) d'"

lemma ledger_shifts:
  assumes "shifts ms mx F G d d'"
  shows "item_ledger_of d' = \<lparr>il_stash = (\<lambda>a k. stash_units d a k + F (one a k)),
     il_escrow = (\<lambda>a k. escrow_units d a k + G (one a k)), il_applied = set (cp_delivery_applied d)\<rparr>"
  using assms by (auto simp: item_ledger_of_def shifts_def stash_units_def escrow_units_def fun_eq_iff)

lemma ledger_delivered:
  assumes "delivered ms mx F G leg d d'"
  shows "item_ledger_of d' = \<lparr>il_stash = (\<lambda>a k. stash_units d a k + F (one a k)),
     il_escrow = (\<lambda>a k. escrow_units d a k + G (one a k)),
     il_applied = note_leg leg (set (cp_delivery_applied d))\<rparr>"
  using assms ledger_shifts [of ms mx F G _ d'] unfolding delivered_def
  by (auto simp: note_leg_def stash_units_def escrow_units_def stash_sum_def escrow_sum_def fun_eq_iff split: if_splits)

lemma delivery_tx:
  assumes grows: "steps my_grows work" and inv: "items_inv (data s)"
    and run: "myTx (unlessApplied leg work) s = (r, t)"
    and body: "\<And>u v. items_inv (data u) \<Longrightarrow> cp_storage_escrow (data u) = cp_storage_escrow (data s) \<Longrightarrow>
        work u = (Inr (), v) \<Longrightarrow> \<exists>p \<in> P. shifts ms mx (fst p) (snd p) (data u) (data v)"
  shows "items_inv (data t) \<and>
    ((\<exists>e. r = Inl e) \<and> (\<exists>q. data t = (data s)\<lparr>my_seq := q\<rparr>) \<or>
     leg \<noteq> 0 \<and> leg \<in> set (cp_delivery_applied (data s)) \<and> data t = data s \<or>
     (\<exists>p \<in> P. delivered ms mx (fst p) (snd p) leg (data s) (data t)))"
proof (rule item_tx [OF unlessApplied_grows [OF grows] inv run])
  fix u x v
  assume u: "items_inv (data u)" "data u = data s" "unlessApplied leg work u = (Inr x, v)"
  note cases = unlessApplied_Inr [OF u(3), unfolded u(2)]
  show "items_inv (data v) \<and> (leg \<noteq> 0 \<and> leg \<in> set (cp_delivery_applied (data s)) \<and> data v = data s \<or>
     (\<exists>p \<in> P. delivered ms mx (fst p) (snd p) leg (data s) (data v)))"
  proof (cases "leg \<noteq> 0 \<and> leg \<in> set (cp_delivery_applied (data s))")
    case True
    with cases inv show ?thesis by auto
  next
    case False
    with cases obtain w where w: "work w = (Inr (), v)"
      and d: "data w = (if leg = 0 then data s else (data s)\<lparr>cp_delivery_applied := cp_delivery_applied (data s) @ [leg]\<rparr>)"
      by auto
    with False inv claimed_inv have "items_inv (data w)" by auto
    with body [of w v] w d obtain p where p: "p \<in> P" "shifts ms mx (fst p) (snd p) (data w) (data v)"
      by (auto split: if_splits)
    then have "items_inv (data v)" by (simp add: shifts_def)
    moreover have "delivered ms mx (fst p) (snd p) leg (data s) (data v)"
      using p(2) [unfolded d] False by (auto simp only: delivered_def)
    ultimately show ?thesis using p(1) by blast
  qed
qed

section \<open>The operations meet the contract\<close>

lemma one_units:
  "gains a k n (one b q) = (if a = b \<and> k = q then n else 0)"
  "gains_all x (escrow_of ref d) (one b q) = (if x = b then escrow_units d ref q else 0)"
  "moved a ks moves (one b q) = (if a = b then move_units ks moves q else 0)"
proof -
  show "gains a k n (one b q) = (if a = b \<and> k = q then n else 0)" by (auto simp: gains_def one_def)
  show "gains_all x (escrow_of ref d) (one b q) = (if x = b then escrow_units d ref q else 0)"
    by (auto simp: gains_all_escrow_of escrow_units_def escrow_sum_def one_def intro!: tsum_cong tsum_zero)
  show "moved a ks moves (one b q) = (if a = b then move_units ks moves q else 0)"
    unfolding moved_def move_units_def
    by (induction ks moves rule: list_induct2') (auto simp: one_def)
qed

lemma stash_units_nonneg: "items_inv d \<Longrightarrow> 0 \<le> stash_units d a k"
  unfolding stash_units_def stash_sum_def
  by (rule tsum_nonneg) (auto simp: items_inv_def row_ok_def one_def)

lemma escrow_units_ge:
  assumes "items_inv d" and "r \<in> set (cp_storage_escrow d)"
  shows "si_Amount (er_item r) \<le> escrow_units d (er_listing_ref r) (kind (er_item r))"
proof -
  let ?g = "\<lambda>q. one (er_listing_ref r) (kind (er_item r)) (er_listing_ref q) (kind (er_item q)) * si_Amount (er_item q)"
  have "?g r \<le> tsum ?g (cp_storage_escrow d)"
    using assms by (intro tsum_ge) (auto simp: items_inv_def row_ok_def one_def)
  then show ?thesis by (simp add: escrow_units_def escrow_sum_def one_def)
qed

lemma MoveToEscrow_simulates:
  assumes inv: "items_inv (data s)" and run: "MoveToEscrow a ref moves s = (r, t)"
  shows "items_inv (data t) \<and>
    ((\<exists>e. r = Inl e) \<and> (\<exists>q. data t = (data s)\<lparr>my_seq := q\<rparr>) \<or>
     (\<forall>m \<in> set moves. 0 < em_Amount m) \<and>
     (\<exists>ks. length ks = length moves \<and>
       shifts ms mx (\<lambda>w. - moved a ks moves w) (moved ref ks moves) (data s) (data t)))"
proof (rule item_tx [OF _ inv run [unfolded MoveToEscrow_def]])
  show "steps my_grows (thenE (requireLocked a) (moveAllToEscrow a ref moves))"
    by (intro my.grows_then requireLocked_grows moveAllToEscrow_grows)
  fix u x v assume "items_inv (data u)" "data u = data s"
    and "thenE (requireLocked a) (moveAllToEscrow a ref moves) u = (Inr x, v)"
  then obtain w where "moveAllToEscrow a ref moves w = (Inr x, v)" "data w = data s"
    by (auto simp: thenE_Inr dest: requireLocked_data)
  with moveAllToEscrow_shifts [of a ref moves w x v ms mx] inv
  show "items_inv (data v) \<and> (\<forall>m \<in> set moves. 0 < em_Amount m) \<and>
     (\<exists>ks. length ks = length moves \<and>
       shifts ms mx (\<lambda>w. - moved a ks moves w) (moved ref ks moves) (data s) (data v))"
    by (auto simp: shifts_def)
qed

lemma bex_single: "(\<exists>p \<in> {x}. P p) \<longleftrightarrow> P x"
  by simp

lemma drainEscrow_simulates:
  assumes inv: "items_inv (data s)" and run: "drainEscrow r ref to leg s = (x, t)" and mx: "0 < MaxStack r"
  shows "items_inv (data t) \<and>
    ((\<exists>e. x = Inl e) \<and> (\<exists>q. data t = (data s)\<lparr>my_seq := q\<rparr>) \<or>
     leg \<noteq> 0 \<and> leg \<in> set (cp_delivery_applied (data s)) \<and> data t = data s \<or>
     delivered (MaxSlots r) (MaxStack r) (gains_all to (escrow_of ref (data s)))
       (\<lambda>w. - gains_all ref (escrow_of ref (data s)) w) leg (data s) (data t))"
proof -
  let ?F = "gains_all to (escrow_of ref (data s))" and ?G = "\<lambda>w. - gains_all ref (escrow_of ref (data s)) w"
  have "\<exists>p \<in> {(?F, ?G)}. shifts (MaxSlots r) (MaxStack r) (fst p) (snd p) (data u) (data v)"
    if "items_inv (data u)" "cp_storage_escrow (data u) = cp_storage_escrow (data s)"
      "drainEscrowTx ref to (MaxSlots r) (MaxStack r) u = (Inr (), v)" for u v
  proof -
    have "escrow_of ref (data u) = escrow_of ref (data s)" by (simp add: escrow_of_def that(2))
    with drainEscrowTx_shifts [OF that(3,1) mx] show ?thesis by simp
  qed
  from delivery_tx [OF drainEscrowTx_grows inv run [unfolded drainEscrow_def] this]
  show ?thesis by (simp only: bex_single fst_conv snd_conv)
qed

definition partial_shifts ::
    "int \<Rightarrow> int \<Rightarrow> int \<Rightarrow> mydb \<Rightarrow> (((int \<Rightarrow> stash_item \<Rightarrow> int) \<Rightarrow> int) \<times> ((int \<Rightarrow> stash_item \<Rightarrow> int) \<Rightarrow> int)) set" where
  "partial_shifts ref to n d =
     {(gains to k n, gains ref k (- n)) | k. 0 < n \<and> n \<le> escrow_units d ref k}"

lemma DeliverPartial_simulates:
  assumes inv: "items_inv (data s)" and run: "DeliverPartial r ref to n leg s = (x, t)" and mx: "0 < MaxStack r"
  shows "items_inv (data t) \<and>
    ((\<exists>e. x = Inl e) \<and> (\<exists>q. data t = (data s)\<lparr>my_seq := q\<rparr>) \<or>
     leg \<noteq> 0 \<and> leg \<in> set (cp_delivery_applied (data s)) \<and> data t = data s \<or>
     (\<exists>p \<in> partial_shifts ref to n (data s).
        delivered (MaxSlots r) (MaxStack r) (fst p) (snd p) leg (data s) (data t)))"
proof -
  have "\<exists>p \<in> partial_shifts ref to n (data s). shifts (MaxSlots r) (MaxStack r) (fst p) (snd p) (data u) (data v)"
    if u: "items_inv (data u)" "cp_storage_escrow (data u) = cp_storage_escrow (data s)"
      "deliverPartialTx ref to n (MaxSlots r) (MaxStack r) u = (Inr (), v)" for u v
    using u(3,1) mx
  proof (rule deliverPartialTx_shifts)
    fix q assume "q \<in> set (cp_storage_escrow (data u))" "er_listing_ref q = ref" "0 < n" "n \<le> si_Amount (er_item q)"
      and sh: "shifts (MaxSlots r) (MaxStack r) (gains to (kind (er_item q)) n) (gains ref (kind (er_item q)) (- n)) (data u) (data v)"
    with escrow_units_ge [OF inv, of q] u(2) have "n \<le> escrow_units (data s) ref (kind (er_item q))" by simp
    with \<open>0 < n\<close> sh show ?thesis by (force simp: partial_shifts_def)
  qed
  from delivery_tx [OF deliverPartialTx_grows inv run [unfolded DeliverPartial_def] this]
  show ?thesis .
qed

lemma ReturnToStash_cases:
  assumes "ReturnToStash r ref s = (x, t)"
  obtains (failed) e where "x = Inl e" and "data t = data s"
  | (none_held) "escrow_of ref (data s) = []" and "data t = data s"
  | (drained) owner u where "data u = data s" and "drainEscrow r ref owner 0 u = (x, t)"
proof (cases "escrowOwner ref s")
  case (Pair y u)
  then have u: "data u = data s"
  proof -
    have "steps (\<lambda>d e. e = d) (escrowOwner ref)"
      unfolding escrowOwner_def query_row_def
      by (intro steps_bind) (auto intro!: steps_query steps_ret steps_fail split: option.split)
    with Pair show ?thesis by (auto dest: stepsD)
  qed
  show ?thesis
  proof (cases y)
    case (Inr owner)
    with Pair assms u show ?thesis by (intro drained [of u owner]) (auto simp: ReturnToStash_def)
  next
    case (Inl e)
    show ?thesis
    proof (cases "e = Market ErrStashItemNotFound")
      case True
      with Pair Inl have "escrow_of ref (data s) = []"
        by (auto simp: escrowOwner_def query_row_def bindE_Inl query_Inr failE_def retE_def
            dest: query_Inl split: option.splits list.splits)
      moreover have "data t = data s" using Pair Inl True assms u by (simp add: ReturnToStash_def)
      ultimately show ?thesis by (rule none_held)
    next
      case False
      with Pair Inl assms u show ?thesis by (intro failed) (auto simp: ReturnToStash_def)
    qed
  qed
qed

lemma escrow_of_empty: "escrow_of ref d = [] \<Longrightarrow> escrow_units d ref k = 0"
  using one_units(2) [of ref ref d ref k] by (simp add: gains_all_def)

lemma MaxStack_pos: "0 < MaxStack (NewEscrowRepository ms mx)"
  by (simp add: NewEscrowRepository_def DefaultMaxStackAmount_def)

lemma delivered_zero: "delivered ms mx F G 0 d d' \<longleftrightarrow> shifts ms mx F G d d'"
  by (simp add: delivered_def)

lemma run_escrow_op_simulates:
  assumes inv: "items_inv (data s)" and run: "run_escrow_op r x s = (y, t)" and mx: "0 < MaxStack r"
  shows "items_inv (data t) \<and>
    (item_ledger_of (data t) = item_ledger_of (data s) \<and> (\<exists>e. y = Inl e) \<or>
     item_step x (item_ledger_of (data s)) (item_ledger_of (data t)))"
proof (cases x)
  case (Move_op a ref moves)
  from MoveToEscrow_simulates [OF inv, of a ref moves y t "MaxSlots r" "MaxStack r"] run Move_op
  have inv': "items_inv (data t)" and "(\<exists>e. y = Inl e) \<and> (\<exists>q. data t = (data s)\<lparr>my_seq := q\<rparr>) \<or>
     (\<forall>m \<in> set moves. 0 < em_Amount m) \<and> (\<exists>ks. length ks = length moves \<and>
       shifts (MaxSlots r) (MaxStack r) (\<lambda>w. - moved a ks moves w) (moved ref ks moves) (data s) (data t))" by auto
  then show ?thesis
  proof (elim disjE conjE exE)
    fix ks assume ks: "length ks = length moves" "\<forall>m \<in> set moves. 0 < em_Amount m"
      and sh: "shifts (MaxSlots r) (MaxStack r) (\<lambda>w. - moved a ks moves w) (moved ref ks moves) (data s) (data t)"
    note L = ledger_shifts [OF sh, unfolded one_units]
    have "move_units ks moves k \<le> il_stash (item_ledger_of (data s)) a k" for k
    proof -
      have "stash_units (data t) a k = stash_units (data s) a k - move_units ks moves k"
        using sh by (simp add: shifts_def stash_units_def one_units)
      with stash_units_nonneg [OF inv', of a k] show ?thesis by (simp add: item_ledger_of_def)
    qed
    with ks have "item_step (Move_op a ref moves) (item_ledger_of (data s)) ((item_ledger_of (data s))
       \<lparr>il_stash := add_units (il_stash (item_ledger_of (data s))) a (\<lambda>k. - move_units ks moves k),
         il_escrow := add_units (il_escrow (item_ledger_of (data s))) ref (move_units ks moves)\<rparr>)"
      by (intro item_step.move) auto
    moreover have "\<dots> = item_ledger_of (data t)"
      unfolding L by (auto simp: item_ledger_of_def add_units_def fun_eq_iff)
    ultimately show ?thesis using inv' Move_op by simp
  qed (use inv' in auto)
next
  case (Deliver_op ref to leg)
  from drainEscrow_simulates [OF inv _ mx, of ref to leg y t] run Deliver_op
  have inv': "items_inv (data t)" and "(\<exists>e. y = Inl e) \<and> (\<exists>q. data t = (data s)\<lparr>my_seq := q\<rparr>) \<or>
     leg \<noteq> 0 \<and> leg \<in> set (cp_delivery_applied (data s)) \<and> data t = data s \<or>
     delivered (MaxSlots r) (MaxStack r) (gains_all to (escrow_of ref (data s)))
       (\<lambda>w. - gains_all ref (escrow_of ref (data s)) w) leg (data s) (data t)"
    by (auto simp: escrow_Deliver_def)
  then show ?thesis
  proof (elim disjE)
    assume d: "delivered (MaxSlots r) (MaxStack r) (gains_all to (escrow_of ref (data s)))
       (\<lambda>w. - gains_all ref (escrow_of ref (data s)) w) leg (data s) (data t)"
    have "item_step (Deliver_op ref to leg) (item_ledger_of (data s)) ((item_ledger_of (data s))
       \<lparr>il_stash := add_units (il_stash (item_ledger_of (data s))) to (il_escrow (item_ledger_of (data s)) ref),
         il_escrow := (il_escrow (item_ledger_of (data s)))(ref := (\<lambda>_. 0)),
         il_applied := note_leg leg (il_applied (item_ledger_of (data s)))\<rparr>)"
      using d by (intro item_step.deliver) (simp add: delivered_def item_ledger_of_def)
    moreover have "\<dots> = item_ledger_of (data t)"
      unfolding ledger_delivered [OF d] by (auto simp: one_units item_ledger_of_def add_units_def fun_eq_iff)
    ultimately show ?thesis using inv' Deliver_op by simp
  qed (use inv' Deliver_op in \<open>auto intro: item_step.deliver_again simp: il_applied_of\<close>)
next
  case (Partial_op ref to n leg)
  from DeliverPartial_simulates [OF inv _ mx, of ref to n leg y t] run Partial_op
  have inv': "items_inv (data t)" and "(\<exists>e. y = Inl e) \<and> (\<exists>q. data t = (data s)\<lparr>my_seq := q\<rparr>) \<or>
     leg \<noteq> 0 \<and> leg \<in> set (cp_delivery_applied (data s)) \<and> data t = data s \<or>
     (\<exists>p \<in> partial_shifts ref to n (data s).
        delivered (MaxSlots r) (MaxStack r) (fst p) (snd p) leg (data s) (data t))" by auto
  then show ?thesis
  proof (elim disjE)
    assume "\<exists>p \<in> partial_shifts ref to n (data s).
        delivered (MaxSlots r) (MaxStack r) (fst p) (snd p) leg (data s) (data t)"
    then obtain k where k: "0 < n" "n \<le> escrow_units (data s) ref k"
      and d: "delivered (MaxSlots r) (MaxStack r) (gains to k n) (gains ref k (- n)) leg (data s) (data t)"
      by (auto simp: partial_shifts_def)
    have "item_step (Partial_op ref to n leg) (item_ledger_of (data s)) ((item_ledger_of (data s))
       \<lparr>il_stash := add_units (il_stash (item_ledger_of (data s))) to (\<lambda>q. if q = k then n else 0),
         il_escrow := add_units (il_escrow (item_ledger_of (data s))) ref (\<lambda>q. if q = k then - n else 0),
         il_applied := note_leg leg (il_applied (item_ledger_of (data s)))\<rparr>)"
      using d k by (intro item_step.part) (simp_all add: delivered_def item_ledger_of_def)
    moreover have "\<dots> = item_ledger_of (data t)"
      unfolding ledger_delivered [OF d] by (auto simp: one_units item_ledger_of_def add_units_def fun_eq_iff)
    ultimately show ?thesis using inv' Partial_op by simp
  qed (use inv' Partial_op in \<open>auto intro: item_step.part_again simp: il_applied_of\<close>)
next
  case (Return_op ref)
  with run have "ReturnToStash r ref s = (y, t)" by simp
  then show ?thesis
  proof (cases rule: ReturnToStash_cases)
    case (drained owner u)
    with drainEscrow_simulates [OF _ drained(2) mx] inv
    have inv': "items_inv (data t)" and "(\<exists>e. y = Inl e) \<and> (\<exists>q. data t = (data s)\<lparr>my_seq := q\<rparr>) \<or>
     shifts (MaxSlots r) (MaxStack r) (gains_all owner (escrow_of ref (data s)))
       (\<lambda>w. - gains_all ref (escrow_of ref (data s)) w) (data s) (data t)"
      by (auto simp: delivered_zero)
    then show ?thesis
    proof (elim disjE)
      assume d: "shifts (MaxSlots r) (MaxStack r) (gains_all owner (escrow_of ref (data s)))
       (\<lambda>w. - gains_all ref (escrow_of ref (data s)) w) (data s) (data t)"
      have "item_step (Return_op ref) (item_ledger_of (data s)) ((item_ledger_of (data s))
       \<lparr>il_stash := add_units (il_stash (item_ledger_of (data s))) owner (il_escrow (item_ledger_of (data s)) ref),
         il_escrow := (il_escrow (item_ledger_of (data s)))(ref := (\<lambda>_. 0))\<rparr>)"
        by (rule item_step.give_back)
      moreover have "\<dots> = item_ledger_of (data t)"
        unfolding ledger_shifts [OF d] by (auto simp: one_units item_ledger_of_def add_units_def fun_eq_iff)
      ultimately show ?thesis using inv' Return_op by simp
    qed (use inv' in auto)
  next
    case none_held
    then have "item_step (Return_op ref) (item_ledger_of (data s)) (item_ledger_of (data s))"
      by (intro item_step.nothing_held) (simp add: item_ledger_of_def escrow_of_empty)
    with none_held inv Return_op show ?thesis by simp
  qed (use inv in auto)
qed

interpretation escrow: repository items_inv item_ledger_of
    "run_escrow_op (NewEscrowRepository ms mx)" item_step for ms mx
  by unfold_locales (rule run_escrow_op_simulates [OF _ _ MaxStack_pos])

text \<open>
  The same operations seen as changes of the tables: what the stash gains the escrow loses,
  and the repository's limits hold.
\<close>

definition balanced ::
    "((int \<Rightarrow> stash_item \<Rightarrow> int) \<Rightarrow> int) \<Rightarrow> ((int \<Rightarrow> stash_item \<Rightarrow> int) \<Rightarrow> int) \<Rightarrow> bool" where
  "balanced F G \<longleftrightarrow> (\<forall>f. F (\<lambda>_. f) + G (\<lambda>_. f) = 0)"

definition item_effect :: "int \<Rightarrow> int \<Rightarrow> mydb \<Rightarrow> mydb \<Rightarrow> bool" where
  "item_effect ms mx d d' \<longleftrightarrow>
     (\<forall>k. all_units k d' = all_units k d) \<and> (\<forall>a. slots_used a d' \<le> max (slots_used a d) ms) \<and>
     (stacks_ok mx d \<longrightarrow> stacks_ok mx d')"

lemma item_effect_seq: "item_effect ms mx d (d\<lparr>my_seq := q\<rparr>)"
  by (simp add: item_effect_def all_units_def stash_sum_def escrow_sum_def slots_used_def stacks_ok_def)

lemma item_effect_shifts:
  assumes "shifts ms mx F G d d'" and "balanced F G"
  shows "item_effect ms mx d d'"
proof -
  have "all_units k d' = all_units k d" for k
    using assms(1) assms(2) [unfolded balanced_def, rule_format, of "\<lambda>q. if q = k then 1 else 0"]
    by (simp add: all_units_def shifts_def)
  with assms(1) show ?thesis by (simp add: item_effect_def shifts_def)
qed

lemma item_effect_delivered:
  assumes "delivered ms mx F G leg d d'" and "balanced F G"
  shows "item_effect ms mx d d'"
proof -
  have "item_effect ms mx (d\<lparr>cp_delivery_applied := A\<rparr>) d' = item_effect ms mx d d'" for A
    by (simp add: item_effect_def all_units_def stash_sum_def escrow_sum_def slots_used_def stacks_ok_def)
  with item_effect_shifts [OF _ assms(2), of ms mx _ d'] assms(1) show ?thesis
    unfolding delivered_def by (metis (full_types))
qed

lemma balanced_gains: "balanced (gains a k n) (gains b k (- n))" "balanced (gains a k (- n)) (gains b k n)"
  "balanced (gains_all a is) (\<lambda>w. - gains_all b is w)" "balanced (\<lambda>w. - moved a ks ms w) (moved b ks ms)"
  by (simp_all add: balanced_def gains_def gains_all_def moved_def)

lemma run_escrow_op_effect:
  assumes inv: "items_inv (data s)" and run: "run_escrow_op r x s = (y, t)" and mx: "0 < MaxStack r"
  shows "items_inv (data t) \<and> item_effect (MaxSlots r) (MaxStack r) (data s) (data t)"
proof (cases x)
  case (Move_op a ref moves)
  with MoveToEscrow_simulates [OF inv, of a ref moves y t "MaxSlots r" "MaxStack r"] run show ?thesis
    by (auto intro: item_effect_seq item_effect_shifts balanced_gains)
next
  case (Deliver_op ref to leg)
  with drainEscrow_simulates [OF inv _ mx, of ref to leg y t] run item_effect_seq [of "MaxSlots r" "MaxStack r" "data s" "my_seq (data s)"]
  show ?thesis
    by (auto simp: escrow_Deliver_def intro: item_effect_seq item_effect_delivered balanced_gains)
next
  case (Partial_op ref to n leg)
  with DeliverPartial_simulates [OF inv _ mx, of ref to n leg y t] run item_effect_seq [of "MaxSlots r" "MaxStack r" "data s" "my_seq (data s)"]
  show ?thesis
    by (auto simp: partial_shifts_def intro: item_effect_seq item_effect_delivered balanced_gains)
next
  case (Return_op ref)
  with run have "ReturnToStash r ref s = (y, t)" by simp
  then show ?thesis
  proof (cases rule: ReturnToStash_cases)
    case (drained owner u)
    with drainEscrow_simulates [OF _ drained(2) mx] inv show ?thesis
      by (auto intro: item_effect_seq item_effect_delivered balanced_gains)
  qed (use inv item_effect_seq [of "MaxSlots r" "MaxStack r" "data s" "my_seq (data s)"] in auto)
qed

interpretation escrow_tables: repository items_inv "\<lambda>d. d"
    "run_escrow_op (NewEscrowRepository ms mx)"
    "\<lambda>_. item_effect (MaxSlots (NewEscrowRepository ms mx)) (MaxStack (NewEscrowRepository ms mx))" for ms mx
  by unfold_locales (use run_escrow_op_effect [OF _ _ MaxStack_pos] in blast)

section \<open>Delivering a leg more than once\<close>

inductive_cases part_stepE: "item_step (Partial_op ref to n leg) L L'"

definition part_served :: "item_ledger \<Rightarrow> int \<Rightarrow> int \<Rightarrow> int \<Rightarrow> int \<Rightarrow> stash_item \<Rightarrow> item_ledger" where
  "part_served L ref to n leg k =
     L\<lparr>il_stash := add_units (il_stash L) to (\<lambda>q. if q = k then n else 0),
       il_escrow := add_units (il_escrow L) ref (\<lambda>q. if q = k then - n else 0),
       il_applied := note_leg leg (il_applied L)\<rparr>"

lemma part_step_cases:
  assumes "item_step (Partial_op ref to n leg) L L'" and "leg \<noteq> 0"
  shows "leg \<notin> il_applied L \<and> (\<exists>k. 0 < n \<and> n \<le> il_escrow L ref k \<and> L' = part_served L ref to n leg k) \<or>
    leg \<in> il_applied L \<and> L' = L"
  using assms by (elim part_stepE) (auto simp: part_served_def)

lemma part_served_applied: "leg \<noteq> 0 \<Longrightarrow> leg \<in> il_applied (part_served L ref to n leg k)"
  by (simp add: part_served_def note_leg_def)

definition served_once :: "item_ledger \<Rightarrow> int \<Rightarrow> int \<Rightarrow> int \<Rightarrow> int \<Rightarrow> item_ledger \<Rightarrow> bool" where
  "served_once L ref to n leg L' \<longleftrightarrow>
     (\<exists>k. 0 < n \<and> n \<le> il_escrow L ref k \<and> L' = part_served L ref to n leg k)"

lemma served_step:
  assumes "leg \<noteq> 0" and "leg \<notin> il_applied L" and "a = L \<or> served_once L ref to n leg a"
    and "item_step (Partial_op ref to n leg) a b"
  shows "served_once L ref to n leg b"
  using assms(3)
proof
  assume "a = L"
  with part_step_cases [OF assms(4,1)] assms(2) show ?thesis by (auto simp: served_once_def)
next
  assume s: "served_once L ref to n leg a"
  then have "leg \<in> il_applied a" using part_served_applied [OF assms(1)] by (auto simp: served_once_def)
  with part_step_cases [OF assms(4,1)] s show ?thesis by simp
qed

text \<open>Attempts at the same delivery, before and after one that reported success.\<close>

lemma attempts:
  fixes ms mx :: int
  defines "R \<equiv> NewEscrowRepository ms mx"
  assumes inv: "items_inv (data s)" and leg: "leg \<noteq> 0" "leg \<notin> il_applied (item_ledger_of (data s))"
    and u: "u = run_ops (run_escrow_op R) (replicate i (Partial_op ref to n leg)) s"
    and ok: "DeliverPartial R ref to n leg u = (Inr x, v)"
    and t: "t = run_ops (run_escrow_op R) (replicate j (Partial_op ref to n leg)) v"
  shows "served_once (item_ledger_of (data s)) ref to n leg (item_ledger_of (data t))"
proof -
  let ?L = "item_ledger_of (data s)"
  let ?T = "\<lambda>i. \<lambda>a b. \<exists>x \<in> set (replicate i (Partial_op ref to n leg)). item_step x a b"
  have steps: "?T i = (\<lambda>a b. i \<noteq> 0 \<and> item_step (Partial_op ref to n leg) a b)" for i by (auto simp: fun_eq_iff)
  have before: "a = ?L \<or> served_once ?L ref to n leg a" if "(?T i)\<^sup>*\<^sup>* ?L a" for a
    using that unfolding steps by (induction rule: rtranclp_induct) (use served_step [OF leg] in blast)+
  have after: "served_once ?L ref to n leg b" if "(?T j)\<^sup>*\<^sup>* a b" "served_once ?L ref to n leg a" for a b
    using that unfolding steps by (induction rule: rtranclp_induct) (use served_step [OF leg] in blast)+
  have invu: "items_inv (data u)" and "(?T i)\<^sup>*\<^sup>* ?L (item_ledger_of (data u))"
    unfolding u R_def by (rule escrow.run_inv [OF inv], rule escrow.run_steps [OF inv])
  with before have iu: "item_ledger_of (data u) = ?L \<or> served_once ?L ref to n leg (item_ledger_of (data u))" by blast
  have "run_escrow_op (NewEscrowRepository ms mx) (Partial_op ref to n leg) u = (Inr x, v)"
    using ok by (simp add: R_def)
  from escrow.simulates [OF invu this] have invv: "items_inv (data v)"
    and "item_step (Partial_op ref to n leg) (item_ledger_of (data u)) (item_ledger_of (data v))" by auto
  with served_step [OF leg iu] have "served_once ?L ref to n leg (item_ledger_of (data v))" by blast
  moreover have "(?T j)\<^sup>*\<^sup>* (item_ledger_of (data v)) (item_ledger_of (data t))"
    unfolding t R_def by (rule escrow.run_steps [OF invv])
  ultimately show ?thesis using after by blast
qed

section \<open>Properties\<close>

text \<open>
  C3: Under every pattern of lost statements and replies, every history of escrow operations
  is a history of item-ledger steps, the tables stay well formed, and the next operation
  either performs its ledger step or reports an error and changes no one's items; success is
  only reported for a step performed.
\<close>

theorem escrow_refines_item_ledger:
  assumes "items_inv (data s)" and "u = run_ops (run_escrow_op (NewEscrowRepository ms mx)) xs s"
    and "run_escrow_op (NewEscrowRepository ms mx) x u = (y, t)"
  shows "items_inv (data t) \<and>
    (\<lambda>a b. \<exists>x \<in> set xs. item_step x a b)\<^sup>*\<^sup>* (item_ledger_of (data s)) (item_ledger_of (data u)) \<and>
    (item_ledger_of (data t) = item_ledger_of (data u) \<and> (\<exists>e. y = Inl e) \<or>
     item_step x (item_ledger_of (data u)) (item_ledger_of (data t)))"
  using escrow.simulates [OF escrow.run_inv [OF assms(1)] assms(3) [unfolded assms(2)]]
    escrow.run_steps [OF assms(1)] assms(2) by blast

text \<open>
  C4: No history of moves, deliveries, partial deliveries and returns, whatever fails in it,
  creates, destroys or alters an item: of every exact kind, stash and escrow together hold
  the same number of units at the end as at the start.
\<close>

theorem escrow_conserves_items:
  assumes "items_inv (data s)"
  shows "all_units k (data (run_ops (run_escrow_op (NewEscrowRepository ms mx)) xs s)) = all_units k (data s)"
  by (rule escrow_tables.run_abstract_inv [OF assms, where J = "\<lambda>d. all_units k d = all_units k (data s)"])
    (simp_all add: item_effect_def)

text \<open>
  C5: A partial delivery for a settlement leg takes effect exactly once: after any number of
  attempts, one that reported success and any number of further attempts, the recipient has
  gained the leg's units and the escrow has lost them a single time.
\<close>

theorem delivery_exactly_once:
  assumes "items_inv (data s)" and "leg \<noteq> 0" and "leg \<notin> set (cp_delivery_applied (data s))"
    and "u = run_ops (run_escrow_op (NewEscrowRepository ms mx)) (replicate i (Partial_op ref to n leg)) s"
    and "DeliverPartial (NewEscrowRepository ms mx) ref to n leg u = (Inr x, v)"
    and "t = run_ops (run_escrow_op (NewEscrowRepository ms mx)) (replicate j (Partial_op ref to n leg)) v"
  shows "\<exists>k. 0 < n \<and> n \<le> escrow_units (data s) ref k \<and>
    stash_units (data t) = add_units (stash_units (data s)) to (\<lambda>q. if q = k then n else 0) \<and>
    escrow_units (data t) = add_units (escrow_units (data s)) ref (\<lambda>q. if q = k then - n else 0) \<and>
    leg \<in> set (cp_delivery_applied (data t))"
  using attempts [of s leg u ms mx i ref to n x v t j] assms
  by (auto simp: served_once_def part_served_def item_ledger_of_def note_leg_def)

text \<open>
  C6: The repository's limits hold through any history: no account is pushed above the slot
  limit, and no stackable row above the stack limit, by the escrow operations.
\<close>

theorem escrow_limits:
  assumes "items_inv (data s)" and "0 < mx" and "mx \<le> 30000" and "0 < ms"
    and "u = data (run_ops (run_escrow_op (NewEscrowRepository ms mx)) xs s)"
  shows "(\<forall>a. slots_used a u \<le> max (slots_used a (data s)) ms) \<and> (stacks_ok mx (data s) \<longrightarrow> stacks_ok mx u)"
proof -
  have r: "MaxSlots (NewEscrowRepository ms mx) = ms" "MaxStack (NewEscrowRepository ms mx) = mx"
    using assms(2-4) by (simp_all add: NewEscrowRepository_def DefaultMaxStackAmount_def)
  show ?thesis
    unfolding assms(5)
    by (rule escrow_tables.run_abstract_inv [OF assms(1), where J = "\<lambda>d. (\<forall>a. slots_used a d \<le> max (slots_used a (data s)) ms) \<and>
        (stacks_ok mx (data s) \<longrightarrow> stacks_ok mx d)"])
      (auto simp: item_effect_def r intro: order_trans le_max_iff_disj [THEN iffD2])
qed

section \<open>Concrete instances\<close>

text \<open>A small store: account 7 has 30 of an item in the stash, 10 more are in escrow.\<close>

definition demo_item :: stash_item where
  "demo_item = empty_item\<lparr>si_ID := 1, si_AccountID := 7, si_NameID := 501, si_Amount := 30\<rparr>"

definition demo_my :: "mydb conn" where
  "demo_my = \<lparr>data = \<lparr>cp_storage = [demo_item],
     cp_storage_escrow = [\<lparr>er_item = demo_item\<lparr>si_Amount := 10\<rparr>, er_listing_ref = 5, er_created_at = 0\<rparr>],
     cp_storage_lock = [\<lparr>lk_account_id = 7, lk_is_locked = True\<rparr>, \<lparr>lk_account_id = 8, lk_is_locked = True\<rparr>],
     cp_delivery_applied = [], cp_deposit = [], cp_withdraw = [], my_clock = 0,
     my_seq = \<lparr>storage_seq = 1, escrow_seq = 1\<rparr>\<rparr>, faults = []\<rparr>"

lemma demo_my_inv: "items_inv (data demo_my)"
  by (simp add: items_inv_def demo_my_def demo_item_def empty_item_def row_ok_def)

lemma demo_deliver: "fst (DeliverPartial (NewEscrowRepository 600 30000) 5 8 4 9 demo_my) = Inr ()"
  by code_simp

theorem delivery_exactly_once_witness:
  "let R = NewEscrowRepository 600 30000;
       t = run_ops (run_escrow_op R) [Partial_op 5 8 4 9] (snd (DeliverPartial R 5 8 4 9 demo_my))
   in \<exists>k. stash_units (data t) = add_units (stash_units (data demo_my)) 8 (\<lambda>q. if q = k then 4 else 0)"
proof -
  let ?R = "NewEscrowRepository 600 30000"
  have "DeliverPartial ?R 5 8 4 9 demo_my = (Inr (), snd (DeliverPartial ?R 5 8 4 9 demo_my))"
    by (rule prod_eqI) (simp_all add: demo_deliver)
  from delivery_exactly_once [OF demo_my_inv _ _ _ this, of 0 _ 1]
  show ?thesis by (simp add: demo_my_def Let_def) blast
qed

theorem escrow_refines_item_ledger_witness:
  "items_inv (data (snd (MoveToEscrow 7 6 [\<lparr>em_StashItemID = 1, em_Amount = 2\<rparr>] demo_my)))"
  using escrow_refines_item_ledger [OF demo_my_inv refl, of 600 30000 "Move_op 7 6 [\<lparr>em_StashItemID = 1, em_Amount = 2\<rparr>]" "[]"]
  by (simp add: prod_eq_iff)

theorem escrow_conserves_items_witness:
  "all_units (kind demo_item) (data (run_ops (run_escrow_op (NewEscrowRepository 600 30000))
     [Move_op 7 6 [\<lparr>em_StashItemID = 1, em_Amount = 2\<rparr>], Partial_op 5 8 4 9, Return_op 6] demo_my)) = 40"
  unfolding escrow_conserves_items [OF demo_my_inv]
  by (simp add: demo_my_def all_units_def stash_sum_def escrow_sum_def)
    (simp add: demo_item_def)

theorem escrow_limits_witness:
  "slots_used 8 (data (run_ops (run_escrow_op (NewEscrowRepository 2 30000)) [Partial_op 5 8 4 9] demo_my)) \<le> 2"
  using escrow_limits [OF demo_my_inv, of 30000 2 _ "[Partial_op 5 8 4 9]", OF _ _ _ refl]
  by (simp add: demo_my_def slots_used_def demo_item_def empty_item_def)

end
