(* ===== verification/Market_Books.thy ===== *)
theory Market_Books
  imports Market_Workers Escrow_Ledger
begin

text \<open>
  The market's bookkeeping across the two databases. For a listing that gives items, the
  units still on offer and the units owed by settlement legs make up the units put in escrow
  when it was created; and the units the escrow holds for it and the units of the legs already
  delivered make up the same total. So every open unit and every pending leg is backed. What a
  listing asks for comes from its taker under a reference of its own: as long as the leg that
  carries it to the seller is not delivered, the leg is pending and one row of the escrow holds
  the item asked for in the number of the units taken.
\<close>

section \<open>The books\<close>

definition open_units :: "listing \<Rightarrow> int" where
  "open_units l = (if li_Status l = StatusActive then li_RemainingQuantity l else 0)"

definition owed :: "int \<Rightarrow> pgdb \<Rightarrow> int" where
  "owed ref d = tsum (\<lambda>s. if leg_EscrowRef (se_leg s) = ref then leg_DeliverAmount (se_leg s) else 0)
     (cp_settlement d)"

definition served :: "int set \<Rightarrow> int \<Rightarrow> pgdb \<Rightarrow> int" where
  "served A ref d = tsum (\<lambda>s. if leg_EscrowRef (se_leg s) = ref \<and> leg_ID (se_leg s) \<in> A
     then leg_DeliverAmount (se_leg s) else 0) (cp_settlement d)"

definition held :: "int \<Rightarrow> mydb \<Rightarrow> int" where
  "held ref m = escrow_sum (\<lambda>r _. if r = ref then 1 else 0) m"

definition listing_ok :: "listing \<Rightarrow> bool" where
  "listing_ok l \<longleftrightarrow> 0 \<le> li_RemainingQuantity l \<and> li_RemainingQuantity l \<le> li_TotalQuantity l \<and>
     (li_Status l = StatusActive \<longrightarrow> 0 < li_RemainingQuantity l) \<and>
     0 \<le> li_WantUnitAmount l \<and> li_WantUnitAmount l * li_TotalQuantity l \<le> max_int32 \<and>
     (li_GiveItem l \<longrightarrow> 0 < li_GiveUnitAmount l \<and> li_GiveUnitAmount l * li_TotalQuantity l \<le> max_int32 \<and>
        (li_Stackable l \<or> li_TotalQuantity l = 1))"

definition leg_ok :: "pgdb \<Rightarrow> settlement_leg \<Rightarrow> bool" where
  "leg_ok d g \<longleftrightarrow> 0 < leg_ID g \<and> leg_ID g \<le> settle_seq (pg_seq d) \<and> leg_EscrowRef g \<le> ref_seq (pg_seq d) \<and>
     ((\<exists>l \<in> set (cp_listing d). li_GiveItem l \<and> li_ID l = leg_EscrowRef g \<and> 0 < leg_DeliverAmount g \<and>
         li_GiveUnitAmount l dvd leg_DeliverAmount g \<and> leg_Whole g = (\<not> li_Stackable l)) \<or>
      leg_EscrowRef g \<notin> li_ID ` set (cp_listing d) \<and> leg_Whole g \<and> leg_DeliverAmount g = 0)"

text \<open>\<open>book k x d\<close>: the Postgres side, with \<open>x\<close> units of listing \<open>k\<close> in transit within a transaction.\<close>

definition book :: "int \<Rightarrow> int \<Rightarrow> pgdb \<Rightarrow> bool" where
  "book k x d \<longleftrightarrow>
     uniq li_ID (cp_listing d) \<and> 0 \<le> ref_seq (pg_seq d) \<and> 0 \<le> settle_seq (pg_seq d) \<and>
     (\<forall>l \<in> set (cp_listing d). 0 < li_ID l \<and> li_ID l \<le> ref_seq (pg_seq d) \<and> listing_ok l) \<and>
     uniq (\<lambda>s. leg_ID (se_leg s)) (cp_settlement d) \<and>
     (\<forall>s \<in> set (cp_settlement d). leg_ok d (se_leg s)) \<and>
     (\<forall>l \<in> set (cp_listing d). li_GiveItem l \<longrightarrow>
        li_GiveUnitAmount l * open_units l + owed (li_ID l) d + (if li_ID l = k then x else 0) =
        li_GiveUnitAmount l * li_TotalQuantity l)"

definition cross :: "pgdb \<Rightarrow> mydb \<Rightarrow> bool" where
  "cross d m \<longleftrightarrow>
     (\<forall>i \<in> set (cp_delivery_applied m). i \<le> settle_seq (pg_seq d)) \<and>
     uniq er_listing_ref (cp_storage_escrow m) \<and>
     (\<forall>r \<in> set (cp_storage_escrow m). er_listing_ref r \<le> ref_seq (pg_seq d)) \<and>
     (\<forall>l \<in> set (cp_listing d). li_GiveItem l \<longrightarrow>
        held (li_ID l) m + served (set (cp_delivery_applied m)) (li_ID l) d =
        li_GiveUnitAmount l * li_TotalQuantity l)"

text \<open>
  The items a listing asks for are moved to the escrow under a reference of their own when units
  are taken: as many as those units ask for, of the item asked for.
\<close>

definition named :: "int \<Rightarrow> int \<Rightarrow> mydb \<Rightarrow> int" where
  "named ref i m = escrow_sum (\<lambda>r q. if r = ref \<and> si_NameID q = i then 1 else 0) m"

definition want_backed :: "pgdb \<Rightarrow> mydb \<Rightarrow> settlement_leg \<Rightarrow> bool" where
  "want_backed d m g \<longleftrightarrow> (\<exists>l \<in> set (cp_listing d). \<exists>n.
     li_ID l = leg_ListingID g \<and> li_SellerAccountID l = leg_RecipientAccountID g \<and>
     0 < n \<and> n \<le> li_TotalQuantity l - li_RemainingQuantity l \<and> 0 < li_WantUnitAmount l * n \<and>
     held (leg_EscrowRef g) m = li_WantUnitAmount l * n \<and>
     named (leg_EscrowRef g) (li_WantNameID l) m = li_WantUnitAmount l * n)"

definition own_refs :: "settlement_leg set \<Rightarrow> bool" where
  "own_refs G \<longleftrightarrow> (\<forall>g \<in> G. \<forall>h \<in> G. leg_DeliverAmount g = 0 \<longrightarrow> leg_ID h \<noteq> leg_ID g \<longrightarrow> leg_EscrowRef h \<noteq> leg_EscrowRef g)"

definition wants :: "pgdb \<Rightarrow> mydb \<Rightarrow> bool" where
  "wants d m \<longleftrightarrow> own_refs (se_leg ` set (cp_settlement d)) \<and>
     (\<forall>x \<in> set (cp_settlement d). leg_ID (se_leg x) \<notin> set (cp_delivery_applied m) \<longrightarrow>
        se_status x = 1 \<and> (leg_DeliverAmount (se_leg x) = 0 \<longrightarrow> want_backed d m (se_leg x)))"

definition trade_inv :: "pgdb \<Rightarrow> mydb \<Rightarrow> bool" where
  "trade_inv d m \<longleftrightarrow> book 0 0 d \<and> items_inv m \<and> cross d m \<and> wants d m"

lemma bookI:
  assumes "uniq li_ID (cp_listing d)" and "0 \<le> ref_seq (pg_seq d)" and "0 \<le> settle_seq (pg_seq d)"
    and "\<forall>l \<in> set (cp_listing d). 0 < li_ID l \<and> li_ID l \<le> ref_seq (pg_seq d) \<and> listing_ok l"
    and "uniq (\<lambda>s. leg_ID (se_leg s)) (cp_settlement d)"
    and "\<forall>s \<in> set (cp_settlement d). leg_ok d (se_leg s)"
    and "\<forall>l \<in> set (cp_listing d). li_GiveItem l \<longrightarrow>
        li_GiveUnitAmount l * open_units l + owed (li_ID l) d + (if li_ID l = k then x else 0) =
        li_GiveUnitAmount l * li_TotalQuantity l"
  shows "book k x d"
  using assms unfolding book_def by blast

lemma book_zero: "book k 0 d = book 0 0 d"
  by (simp add: book_def)

section \<open>Steps that leave the books alone\<close>

definition pg_idle :: "pgdb \<Rightarrow> pgdb \<Rightarrow> bool" where
  "pg_idle d e \<longleftrightarrow> cp_listing e = cp_listing d \<and> cp_settlement e = cp_settlement d \<and>
     ref_seq (pg_seq d) \<le> ref_seq (pg_seq e) \<and> settle_seq (pg_seq d) \<le> settle_seq (pg_seq e)"

interpretation idle: store pg_rb pg_idle
  by unfold_locales (auto simp: pg_rb_def pg_idle_def)

definition my_idle :: "mydb \<Rightarrow> mydb \<Rightarrow> bool" where
  "my_idle m n \<longleftrightarrow> cp_storage_escrow n = cp_storage_escrow m \<and> cp_delivery_applied n = cp_delivery_applied m \<and>
     items_inv n"

lemma owed_idle: "pg_idle d e \<Longrightarrow> owed ref e = owed ref d" "pg_idle d e \<Longrightarrow> served A ref e = served A ref d"
  by (simp_all add: pg_idle_def owed_def served_def)

lemma leg_ok_idle: "pg_idle d e \<Longrightarrow> leg_ok d g \<Longrightarrow> leg_ok e g"
  by (auto simp: pg_idle_def leg_ok_def)

lemma book_idle: "pg_idle d e \<Longrightarrow> book k x d \<Longrightarrow> book k x e"
  using leg_ok_idle [of d e] owed_idle(1) [of d e]
  by (fastforce simp: book_def pg_idle_def)

lemma cross_idle: "pg_idle d e \<Longrightarrow> cross d m \<Longrightarrow> cross e m"
  using owed_idle(2) [of d e] by (fastforce simp: cross_def pg_idle_def)

lemma wants_idle: "pg_idle d e \<Longrightarrow> wants d m \<Longrightarrow> wants e m"
  by (simp add: pg_idle_def wants_def want_backed_def)

lemma wants_my_idle: "my_idle m n \<Longrightarrow> wants d m \<Longrightarrow> wants d n"
  by (simp add: my_idle_def wants_def want_backed_def held_def named_def escrow_sum_def)

lemma trade_inv_idle: "pg_idle d e \<Longrightarrow> trade_inv d m \<Longrightarrow> trade_inv e m"
  by (simp add: trade_inv_def book_idle cross_idle wants_idle)

lemma trade_inv_my_idle: "my_idle m n \<Longrightarrow> trade_inv d m \<Longrightarrow> trade_inv d n"
  using wants_my_idle [of m n d] by (auto simp: my_idle_def trade_inv_def cross_def held_def escrow_sum_def)

lemma grows_rb_idle: "pg_grows d e \<Longrightarrow> pg_idle d (pg_rb d e)"
  by (simp add: pg_grows_def pg_idle_def pg_rb_def)

text \<open>The wallet never touches listings or legs.\<close>

lemma wallet_parts_idle:
  "steps pg_idle (lockBalance a)" "steps pg_idle (applyDebit a cz cc z c)" "steps pg_idle (applyCredit a cz cc z c)"
  "steps pg_idle (readHold h)" "steps pg_idle (delete_hold h)" "steps pg_idle (reduceHold h z c)"
  "steps pg_idle (sql Sql (insert_hold a z c))"
proof -
  show "steps pg_idle (lockBalance a)"
    unfolding lockBalance_def by (intro idle.grows_then idle.grows_exec idle.grows_query_row) (simp add: pg_idle_def)
  show "steps pg_idle (applyDebit a cz cc z c)"
    unfolding applyDebit_def by (intro idle.grows_guard idle.grows_exec_opt) (auto simp: pg_idle_def)
  show "steps pg_idle (applyCredit a cz cc z c)"
    unfolding applyCredit_def by (auto intro!: idle.grows_exec_opt simp: pg_idle_def split: sum.split)
  show "steps pg_idle (readHold h)" unfolding readHold_def by simp
  show delete: "steps pg_idle (delete_hold h)" for h
    unfolding delete_hold_def by (rule idle.grows_exec) (simp add: pg_idle_def)
  show "steps pg_idle (reduceHold h z c)"
    unfolding reduceHold_def using delete by (auto intro!: idle.grows_exec_opt simp: pg_idle_def)
  show "steps pg_idle (sql Sql (insert_hold a z c))"
    by (rule idle.grows_sql) (auto simp: insert_hold_def Let_def pg_idle_def)
qed

lemma creditBalance_idle: "steps pg_idle (creditBalance a z c)"
  unfolding creditBalance_def by (auto intro!: idle.grows_bind wallet_parts_idle)

lemma debitBalance_idle: "steps pg_idle (debitBalance a z c)"
  unfolding debitBalance_def by (auto intro!: idle.grows_bind wallet_parts_idle)

lemma ReleaseTx_idle: "steps pg_idle (ReleaseTx h)"
  unfolding ReleaseTx_def by (auto intro!: idle.grows_bind idle.grows_then wallet_parts_idle creditBalance_idle)

lemma SettleHoldPartialTx_idle: "steps pg_idle (SettleHoldPartialTx h a gz gc z c)"
  unfolding SettleHoldPartialTx_def
  by (auto intro!: idle.grows_bind idle.grows_then idle.grows_guard wallet_parts_idle creditBalance_idle split: option.split)

lemma ChargeTx_idle: "steps pg_idle (ChargeTx p q pz pc z c)"
proof -
  have "steps pg_idle (lockPair p q)"
    unfolding lockPair_def by (auto intro!: idle.grows_bind wallet_parts_idle simp: Let_def split: prod.split)
  then show ?thesis
    unfolding ChargeTx_def
    by (auto intro!: idle.grows_bind idle.grows_then wallet_parts_idle split: option.split)
qed

lemma settleCurrencyTx_idle: "steps pg_idle (settleCurrencyTx s l i)"
  unfolding settleCurrencyTx_def Let_def
  by (auto intro: ChargeTx_idle SettleHoldPartialTx_idle split: option.split)

lemma pgTx_idle: "steps pg_idle m \<Longrightarrow> steps pg_idle (pgTx m)"
  unfolding pgTx_def by (rule idle.tx_steps)

lemma wallet_Hold_idle: "steps pg_idle (wallet_Hold a z c)"
  unfolding wallet_Hold_def
  by (intro idle.grows_guard pgTx_idle idle.grows_then debitBalance_idle wallet_parts_idle)

lemma wallet_Burn_idle: "steps pg_idle (wallet_Burn a z c)"
  unfolding wallet_Burn_def by (intro idle.grows_guard pgTx_idle debitBalance_idle)

lemma NextRef_idle: "steps pg_idle NextRef"
  unfolding NextRef_def by (rule idle.grows_sql) (auto simp: Let_def pg_idle_def)

section \<open>Changing a listing, adding a leg\<close>

text \<open>An update of the quantity and status of one listing puts the difference in transit.\<close>

lemma book_update:
  assumes b: "book 0 0 d" and l: "l \<in> set (cp_listing d)"
    and f: "f = (\<lambda>q. q\<lparr>li_RemainingQuantity := rem, li_Status := st\<rparr>)" and ok: "listing_ok (f l)"
    and d': "d' = d\<lparr>cp_listing := upd_where (\<lambda>q. li_ID q = li_ID l) f (cp_listing d)\<rparr>"
  shows "book (li_ID l) (li_GiveUnitAmount l * (open_units l - open_units (f l))) d'"
proof -
  let ?L = "upd_where (\<lambda>q. li_ID q = li_ID l) f (cp_listing d)"
  have uniq: "uniq li_ID (cp_listing d)" using b by (simp add: book_def)
  have only: "q = l" if "q \<in> set (cp_listing d)" "li_ID q = li_ID l" for q
    using uniq_the_row [OF uniq that(1) l that(2)] .
  have "map li_ID ?L = map li_ID (cp_listing d)"
    by (rule keys_upd_where) (simp add: f)
  then have ids: "li_ID ` set ?L = li_ID ` set (cp_listing d)"
    by (metis set_map)
  have terms: "\<exists>q \<in> set ?L. li_GiveItem q \<and> li_ID q = ref \<and> P (li_GiveUnitAmount q) (li_Stackable q)"
    if "\<exists>q \<in> set (cp_listing d). li_GiveItem q \<and> li_ID q = ref \<and> P (li_GiveUnitAmount q) (li_Stackable q)" for ref P
  proof -
    from that obtain q where q: "q \<in> set (cp_listing d)" "li_GiveItem q" "li_ID q = ref" "P (li_GiveUnitAmount q) (li_Stackable q)" by blast
    then have "(if li_ID q = li_ID l then f q else q) \<in> set ?L" by (auto simp: set_upd_where)
    with q show ?thesis by (intro bexI [of _ "if li_ID q = li_ID l then f q else q"]) (simp_all add: f)
  qed
  have legs: "leg_ok d' g" if "leg_ok d g" for g
    using that terms [of "leg_EscrowRef g" "\<lambda>u b. 0 < leg_DeliverAmount g \<and> u dvd leg_DeliverAmount g \<and> leg_Whole g = (\<not> b)"] ids
    by (auto simp: leg_ok_def d')
  have owe: "owed r d' = owed r d" for r by (simp add: owed_def d')
  have rows: "(q = f l) \<or> (q \<in> set (cp_listing d) \<and> li_ID q \<noteq> li_ID l)" if "q \<in> set ?L" for q
    using that only by (auto simp: set_upd_where)
  have "uniq li_ID ?L" using uniq by (subst uniq_upd_where) (simp_all add: f)
  moreover have "\<forall>q \<in> set ?L. 0 < li_ID q \<and> li_ID q \<le> ref_seq (pg_seq d) \<and> listing_ok q"
  proof
    fix q assume "q \<in> set ?L"
    from rows [OF this] show "0 < li_ID q \<and> li_ID q \<le> ref_seq (pg_seq d) \<and> listing_ok q"
    proof
      assume "q = f l"
      with ok b l show ?thesis by (simp add: book_def f)
    qed (use b in \<open>simp add: book_def\<close>)
  qed
  moreover have "\<forall>q \<in> set ?L. li_GiveItem q \<longrightarrow>
      li_GiveUnitAmount q * open_units q + owed (li_ID q) d + (if li_ID q = li_ID l
        then li_GiveUnitAmount l * (open_units l - open_units (f l)) else 0) = li_GiveUnitAmount q * li_TotalQuantity q"
  proof (intro ballI impI)
    fix q assume "q \<in> set ?L" and g: "li_GiveItem q"
    with rows consider "q = f l" | "q \<in> set (cp_listing d)" "li_ID q \<noteq> li_ID l" by blast
    then show "li_GiveUnitAmount q * open_units q + owed (li_ID q) d + (if li_ID q = li_ID l
        then li_GiveUnitAmount l * (open_units l - open_units (f l)) else 0) = li_GiveUnitAmount q * li_TotalQuantity q"
    proof cases
      case 1
      with g l b have "li_GiveUnitAmount l * open_units l + owed (li_ID l) d = li_GiveUnitAmount l * li_TotalQuantity l"
        by (auto simp: book_def f)
      with 1 show ?thesis by (simp add: f algebra_simps)
    next
      case 2
      with g b show ?thesis by (auto simp: book_def)
    qed
  qed
  ultimately show ?thesis
    using b legs owe by (intro bookI) (simp_all add: book_def d')
qed

lemma cross_update:
  assumes "cross d m" and f: "f = (\<lambda>q. q\<lparr>li_RemainingQuantity := rem, li_Status := st\<rparr>)"
    and d': "d' = d\<lparr>cp_listing := upd_where P f (cp_listing d)\<rparr>"
  shows "cross d' m"
  using assms(1) by (auto simp: cross_def d' served_def set_upd_where f)

text \<open>More listings, or fewer units left on one, leave what is wanted backed.\<close>

lemma want_backed_listings:
  assumes "want_backed d m g"
    and "\<And>l. l \<in> set (cp_listing d) \<Longrightarrow> \<exists>q \<in> set (cp_listing e). li_ID q = li_ID l \<and> li_SellerAccountID q = li_SellerAccountID l \<and>
      li_TotalQuantity q = li_TotalQuantity l \<and> li_WantUnitAmount q = li_WantUnitAmount l \<and>
      li_WantNameID q = li_WantNameID l \<and> li_RemainingQuantity q \<le> li_RemainingQuantity l"
  shows "want_backed e m g"
proof -
  from assms(1) obtain l n where l: "l \<in> set (cp_listing d)"
    "li_ID l = leg_ListingID g" "li_SellerAccountID l = leg_RecipientAccountID g"
    "0 < n" "n \<le> li_TotalQuantity l - li_RemainingQuantity l" "0 < li_WantUnitAmount l * n"
    "held (leg_EscrowRef g) m = li_WantUnitAmount l * n" "named (leg_EscrowRef g) (li_WantNameID l) m = li_WantUnitAmount l * n"
    unfolding want_backed_def by blast
  from assms(2) [OF l(1)] obtain q where q: "q \<in> set (cp_listing e)" "li_ID q = li_ID l" "li_SellerAccountID q = li_SellerAccountID l"
    "li_TotalQuantity q = li_TotalQuantity l" "li_WantUnitAmount q = li_WantUnitAmount l" "li_WantNameID q = li_WantNameID l"
    "li_RemainingQuantity q \<le> li_RemainingQuantity l" by blast
  with l show ?thesis unfolding want_backed_def by (intro bexI [of _ q] exI [of _ n]) simp_all
qed

lemma wants_update:
  assumes w: "wants d m" and u: "uniq li_ID (cp_listing d)" and l: "l \<in> set (cp_listing d)" and rem: "rem \<le> li_RemainingQuantity l"
    and f: "f = (\<lambda>q. q\<lparr>li_RemainingQuantity := rem, li_Status := st\<rparr>)"
    and d': "d' = d\<lparr>cp_listing := upd_where (\<lambda>q. li_ID q = li_ID l) f (cp_listing d)\<rparr>"
  shows "wants d' m"
proof -
  have "want_backed d' m g" if "want_backed d m g" for g
  proof (rule want_backed_listings [OF that])
    fix q assume q: "q \<in> set (cp_listing d)"
    then have "(if li_ID q = li_ID l then f q else q) \<in> set (cp_listing d')" by (auto simp: d' set_upd_where)
    moreover have "q = l" if "li_ID q = li_ID l" using uniq_the_row [OF u q l that] .
    ultimately show "\<exists>r \<in> set (cp_listing d'). li_ID r = li_ID q \<and> li_SellerAccountID r = li_SellerAccountID q \<and>
      li_TotalQuantity r = li_TotalQuantity q \<and> li_WantUnitAmount r = li_WantUnitAmount q \<and>
      li_WantNameID r = li_WantNameID q \<and> li_RemainingQuantity r \<le> li_RemainingQuantity q"
      using rem by (intro bexI [of _ "if li_ID q = li_ID l then f q else q"]) (auto simp: f)
  qed
  with w show ?thesis by (simp add: wants_def d')
qed

text \<open>Appending a leg takes units out of transit.\<close>

definition with_leg :: "settlement_leg \<Rightarrow> pgdb \<Rightarrow> pgdb" where
  "with_leg g d = d\<lparr>cp_settlement := cp_settlement d @
       [\<lparr>se_leg = g\<lparr>leg_ID := settle_seq (pg_seq d) + 1\<rparr>, se_status = 1\<rparr>],
     pg_seq := (pg_seq d)\<lparr>settle_seq := settle_seq (pg_seq d) + 1\<rparr>\<rparr>"

lemma with_leg_sel:
  "cp_listing (with_leg g d) = cp_listing d" "ref_seq (pg_seq (with_leg g d)) = ref_seq (pg_seq d)"
  "settle_seq (pg_seq (with_leg g d)) = settle_seq (pg_seq d) + 1"
  by (simp_all add: with_leg_def)

lemma with_leg_set:
  "set (cp_settlement (with_leg g d)) =
     insert \<lparr>se_leg = g\<lparr>leg_ID := settle_seq (pg_seq d) + 1\<rparr>, se_status = 1\<rparr> (set (cp_settlement d))"
  by (simp add: with_leg_def)

lemma EnqueueTx_Inr: "EnqueueTx g s = (Inr u, t) \<Longrightarrow> data t = with_leg g (data s)"
  by (auto simp: EnqueueTx_def success_inv Let_def with_leg_def)

lemma book_with_leg:
  assumes b: "book k x d" and ref: "leg_EscrowRef g \<le> ref_seq (pg_seq d)"
    and g: "(\<exists>l \<in> set (cp_listing d). li_GiveItem l \<and> li_ID l = leg_EscrowRef g \<and> 0 < leg_DeliverAmount g \<and>
         li_GiveUnitAmount l dvd leg_DeliverAmount g \<and> leg_Whole g = (\<not> li_Stackable l)) \<and> leg_EscrowRef g = k \<or>
      leg_EscrowRef g \<notin> li_ID ` set (cp_listing d) \<and> leg_Whole g \<and> leg_DeliverAmount g = 0"
  shows "book k (x - leg_DeliverAmount g) (with_leg g d)"
proof -
  have owe: "owed r (with_leg g d) = owed r d + (if leg_EscrowRef g = r then leg_DeliverAmount g else 0)" for r
    by (simp add: owed_def with_leg_def)
  have legs: "leg_ok (with_leg g d) h" if "leg_ok d h" for h
    using that by (auto simp: leg_ok_def with_leg_def)
  have new: "leg_ok (with_leg g d) (g\<lparr>leg_ID := settle_seq (pg_seq d) + 1\<rparr>)"
    using b ref g by (auto simp: leg_ok_def with_leg_def book_def)
  have le: "\<forall>s \<in> set (cp_settlement d). leg_ID (se_leg s) \<le> settle_seq (pg_seq d)"
    using b by (auto simp: book_def leg_ok_def)
  have id: "settle_seq (pg_seq d) + 1 \<notin> (\<lambda>s. leg_ID (se_leg s)) ` set (cp_settlement d)"
  proof
    assume "settle_seq (pg_seq d) + 1 \<in> (\<lambda>s. leg_ID (se_leg s)) ` set (cp_settlement d)"
    then obtain s where "s \<in> set (cp_settlement d)" "leg_ID (se_leg s) = settle_seq (pg_seq d) + 1" by auto
    with le show False by fastforce
  qed
  have "\<forall>l \<in> set (cp_listing d). li_GiveItem l \<longrightarrow>
      li_GiveUnitAmount l * open_units l + owed (li_ID l) (with_leg g d) +
      (if li_ID l = k then x - leg_DeliverAmount g else 0) = li_GiveUnitAmount l * li_TotalQuantity l"
  proof (intro ballI impI)
    fix l assume l: "l \<in> set (cp_listing d)" and "li_GiveItem l"
    with b have "li_GiveUnitAmount l * open_units l + owed (li_ID l) d + (if li_ID l = k then x else 0) =
        li_GiveUnitAmount l * li_TotalQuantity l" by (simp add: book_def)
    moreover from g have "leg_EscrowRef g = k \<or> leg_DeliverAmount g = 0" by blast
    ultimately show "li_GiveUnitAmount l * open_units l + owed (li_ID l) (with_leg g d) +
      (if li_ID l = k then x - leg_DeliverAmount g else 0) = li_GiveUnitAmount l * li_TotalQuantity l"
      unfolding owe by (elim disjE) (simp_all split: if_splits)
  qed
  note acc = this
  show ?thesis
  proof (rule bookI)
    show "uniq (\<lambda>s. leg_ID (se_leg s)) (cp_settlement (with_leg g d))"
      using b id by (simp add: book_def with_leg_def)
    show "\<forall>s \<in> set (cp_settlement (with_leg g d)). leg_ok (with_leg g d) (se_leg s)"
      using b legs new by (auto simp: book_def with_leg_set)
    show "\<forall>l \<in> set (cp_listing (with_leg g d)). li_GiveItem l \<longrightarrow>
      li_GiveUnitAmount l * open_units l + owed (li_ID l) (with_leg g d) +
      (if li_ID l = k then x - leg_DeliverAmount g else 0) = li_GiveUnitAmount l * li_TotalQuantity l"
      using acc by (simp add: with_leg_sel)
  qed (use b in \<open>simp_all add: book_def with_leg_sel\<close>)
qed

lemma cross_with_leg:
  assumes c: "cross d m"
  shows "cross (with_leg g d) m"
proof -
  have new: "settle_seq (pg_seq d) + 1 \<notin> set (cp_delivery_applied m)"
    using c by (auto simp: cross_def)
  have "served (set (cp_delivery_applied m)) r (with_leg g d) = served (set (cp_delivery_applied m)) r d" for r
    using new by (simp add: served_def with_leg_def)
  with c show ?thesis by (fastforce simp: cross_def with_leg_def)
qed

lemma wants_with_leg:
  assumes w: "wants d m" and g: "leg_DeliverAmount g = 0 \<Longrightarrow> want_backed d m g"
    and own: "\<And>x. x \<in> set (cp_settlement d) \<Longrightarrow> leg_EscrowRef (se_leg x) = leg_EscrowRef g \<Longrightarrow>
      leg_DeliverAmount (se_leg x) \<noteq> 0 \<and> leg_DeliverAmount g \<noteq> 0"
  shows "wants (with_leg g d) m"
proof -
  have "want_backed (with_leg g d) m h = want_backed d m h" "want_backed d m (h\<lparr>leg_ID := i\<rparr>) = want_backed d m h" for h i
    by (simp_all add: want_backed_def with_leg_def)
  moreover have "own_refs (se_leg ` set (cp_settlement (with_leg g d)))"
    using w own by (force simp: wants_def own_refs_def with_leg_set)
  ultimately show ?thesis using w g by (auto simp: wants_def with_leg_set)
qed

section \<open>The transactions of a listing's life\<close>

lemma give_leg_amount:
  assumes "listing_ok l" and "li_GiveItem l" and "0 < n" and "n \<le> li_TotalQuantity l"
  shows "leg_DeliverAmount (give_leg l a n) = li_GiveUnitAmount l * n" and "0 < li_GiveUnitAmount l * n"
proof -
  let ?U = "li_GiveUnitAmount l"
  have U: "0 < ?U" "?U * li_TotalQuantity l \<le> max_int32" using assms by (auto simp: listing_ok_def)
  have "?U * n \<le> ?U * li_TotalQuantity l" using U assms by simp
  with U(2) have "?U * n \<le> max_int32" by (rule order_trans [rotated])
  moreover show "0 < ?U * n" using U assms by simp
  ultimately have "wrap64 (?U * n) = ?U * n"
    by (intro wrap64_nonneg_id) (simp_all only: max_int32_def max_int64_def, simp_all)
  then show "leg_DeliverAmount (give_leg l a n) = ?U * n" by (simp add: give_leg_def)
qed

lemma give_leg_sel [simp]:
  "leg_EscrowRef (give_leg l a n) = li_ID l" "leg_Whole (give_leg l a n) = (\<not> li_Stackable l)"
  by (simp_all add: give_leg_def)

lemma want_leg_sel [simp]:
  "leg_EscrowRef (want_leg l r) = r" "leg_Whole (want_leg l r)" "leg_DeliverAmount (want_leg l r) = 0"
  by (simp_all add: want_leg_def)

text \<open>Legs are enqueued on behalf of the terms of a listing: its id, unit amount and stackability.\<close>

definition same_terms :: "listing \<Rightarrow> listing \<Rightarrow> bool" where
  "same_terms l q \<longleftrightarrow> li_ID q = li_ID l \<and> li_GiveItem q = li_GiveItem l \<and>
     li_GiveUnitAmount q = li_GiveUnitAmount l \<and> li_Stackable q = li_Stackable l \<and>
     li_TotalQuantity q = li_TotalQuantity l"

lemma leg_of_listing:
  assumes "book k x d" and "s \<in> set (cp_settlement d)" and "leg_EscrowRef (se_leg s) \<in> li_ID ` set (cp_listing d)"
  shows "0 < leg_DeliverAmount (se_leg s)"
  using assms by (auto simp: book_def leg_ok_def)

lemma give_leg_inv:
  assumes "book (li_ID l) (li_GiveUnitAmount l * n) d" and "cross d m" and "wants d m" and q: "q \<in> set (cp_listing d)" "same_terms l q"
    and "0 < n" "n \<le> li_TotalQuantity l" and "listing_ok l"
    and run: "(if li_GiveItem l then EnqueueTx (give_leg l a n) else retE ()) s = (Inr u, t)" and "d = data s"
  shows "book (li_ID l) 0 (data t) \<and> cross (data t) m \<and> wants (data t) m \<and> cp_listing (data t) = cp_listing d \<and>
    ref_seq (pg_seq (data t)) = ref_seq (pg_seq d) \<and>
    (\<forall>x \<in> set (cp_settlement (data t)). x \<in> set (cp_settlement d) \<or> leg_EscrowRef (se_leg x) = li_ID l)"
proof (cases "li_GiveItem l")
  case True
  with run have t: "data t = with_leg (give_leg l a n) d" by (simp add: EnqueueTx_Inr assms)
  note amount = give_leg_amount [OF \<open>listing_ok l\<close> True \<open>0 < n\<close> \<open>n \<le> li_TotalQuantity l\<close>]
  have "li_ID l \<le> ref_seq (pg_seq d)" using assms(1) q by (auto simp: book_def same_terms_def)
  then have "book (li_ID l) (li_GiveUnitAmount l * n - leg_DeliverAmount (give_leg l a n)) (with_leg (give_leg l a n) d)"
    using q True amount by (intro book_with_leg [OF assms(1)]) (auto simp: same_terms_def)
  moreover have "wants (with_leg (give_leg l a n) d) m"
  proof (rule wants_with_leg [OF \<open>wants d m\<close>])
    fix x assume "x \<in> set (cp_settlement d)" "leg_EscrowRef (se_leg x) = leg_EscrowRef (give_leg l a n)"
    then have "x \<in> set (cp_settlement d)" "leg_EscrowRef (se_leg x) = li_ID q" using q by (simp_all add: same_terms_def)
    with leg_of_listing [OF assms(1), of x] q(1) have "0 < leg_DeliverAmount (se_leg x)" by simp
    with amount(1) [of a] amount(2)
    show "leg_DeliverAmount (se_leg x) \<noteq> 0 \<and> leg_DeliverAmount (give_leg l a n) \<noteq> 0" by linarith
  qed (use amount(1) [of a] amount(2) in auto)
  ultimately show ?thesis using cross_with_leg [OF \<open>cross d m\<close>] by (auto simp: t amount with_leg_set) (simp_all add: with_leg_def)
next
  case False
  with run have t: "data t = d" by (auto simp: retE_Inr assms)
  have "\<not> li_GiveItem p" if "p \<in> set (cp_listing d)" "li_ID p = li_ID l" for p
    using uniq_the_row [of li_ID "cp_listing d" p q] assms(1) q that False by (auto simp: book_def same_terms_def)
  then have "book (li_ID l) 0 d" using assms(1) by (intro bookI) (fastforce simp: book_def)+
  with \<open>cross d m\<close> \<open>wants d m\<close> show ?thesis by (simp add: t)
qed

text \<open>What the taker gives waits in the escrow under the reference of this purchase.\<close>

definition escrowed_for :: "listing \<Rightarrow> int \<Rightarrow> int \<Rightarrow> pgdb \<Rightarrow> mydb \<Rightarrow> bool" where
  "escrowed_for l n r d m \<longleftrightarrow> r \<le> ref_seq (pg_seq d) \<and> r \<notin> li_ID ` set (cp_listing d) \<and>
     (\<forall>x \<in> set (cp_settlement d). leg_EscrowRef (se_leg x) \<noteq> r) \<and> 0 < wrap64 (li_WantUnitAmount l * n) \<and>
     held r m = wrap64 (li_WantUnitAmount l * n) \<and> named r (li_WantNameID l) m = wrap64 (li_WantUnitAmount l * n)"

lemma escrowed_for_idle: "pg_idle d e \<Longrightarrow> escrowed_for l n r d m \<Longrightarrow> escrowed_for l n r e m"
  by (auto simp: escrowed_for_def pg_idle_def)

lemma settleCurrencyTx_grows: "steps pg_grows (settleCurrencyTx s l i)"
  unfolding settleCurrencyTx_def Let_def by (auto split: option.split)

lemma enqueueLegsTx_grows: "steps pg_grows (enqueueLegsTx l i r)"
  unfolding enqueueLegsTx_def by auto

lemma closeListingTx_grows: "steps pg_grows (closeListingTx l st)"
  unfolding closeListingTx_def by (auto split: option.split)

lemma pgTx_trade_inv:
  assumes "steps pg_grows m" and inv: "trade_inv (data s) n" and run: "pgTx m s = (r, t)"
    and body: "\<And>u x v. data u = data s \<Longrightarrow> m u = (Inr x, v) \<Longrightarrow> trade_inv (data v) n"
  shows "trade_inv (data t) n"
  using assms(1) run [unfolded pgTx_def]
proof (cases rule: pg.tx_outcome)
  case (undone d e')
  with trade_inv_idle [OF grows_rb_idle inv] show ?thesis by simp
next
  case (committed u x v)
  with body [of u x v] show ?thesis by simp
qed

lemma find_listing:
  assumes "book k x d" and "l \<in> set (cp_listing d)" and "find (\<lambda>q. li_ID q = li_ID l) (cp_listing d) = Some q"
  shows "q = l"
  using assms find_key_uniq [of li_ID "cp_listing d" l] by (simp add: book_def)

lemma enqueueLegsTx_inv:
  assumes b: "book (li_ID l) (li_GiveUnitAmount l * ti_Units i) d" and c: "cross d m" and wd: "wants d m"
    and q: "q \<in> set (cp_listing d)" "same_terms l q"
    and n: "0 < ti_Units i" "ti_Units i \<le> li_TotalQuantity l" and ok: "listing_ok l"
    and want: "li_WantNameID l \<noteq> 0 \<Longrightarrow> escrowed_for l (ti_Units i) r d m \<and> want_backed d m (want_leg l r)"
    and run: "enqueueLegsTx l i r s = (Inr u, t)" and d: "d = data s"
  shows "book 0 0 (data t) \<and> cross (data t) m \<and> wants (data t) m"
proof -
  from run obtain v where give: "(if li_GiveItem l then EnqueueTx (give_leg l (ti_TakerAccountID i) (ti_Units i)) else retE ()) s = (Inr (), v)"
    and w: "(if li_WantNameID l \<noteq> 0 then EnqueueTx (want_leg l r) else retE ()) v = (Inr u, t)"
    by (auto simp: enqueueLegsTx_def thenE_Inr)
  from give_leg_inv [OF b c wd q n ok give d] have bv: "book 0 0 (data v)" and cv: "cross (data v) m" and wv: "wants (data v) m"
    and same: "cp_listing (data v) = cp_listing d" "ref_seq (pg_seq (data v)) = ref_seq (pg_seq d)"
    and new: "\<forall>x \<in> set (cp_settlement (data v)). x \<in> set (cp_settlement d) \<or> leg_EscrowRef (se_leg x) = li_ID l"
    by (auto simp: book_zero [of "li_ID l"])
  show ?thesis
  proof (cases "li_WantNameID l \<noteq> 0")
    case True
    with w have t: "data t = with_leg (want_leg l r) (data v)" by (simp add: EnqueueTx_Inr)
    have "book 0 (0 - leg_DeliverAmount (want_leg l r)) (data t)"
      unfolding t using want [OF True] same by (intro book_with_leg [OF bv]) (auto simp: escrowed_for_def)
    moreover have "wants (data t) m"
      unfolding t
    proof (rule wants_with_leg [OF wv])
      show "want_backed (data v) m (want_leg l r)"
        using want [OF True] by (simp add: want_backed_def same)
      have "li_ID l \<in> li_ID ` set (cp_listing d)" using q unfolding same_terms_def by (metis imageI)
      then have "r \<noteq> li_ID l" using want [OF True] by (auto simp: escrowed_for_def)
      with new want [OF True] show "leg_DeliverAmount (se_leg x) \<noteq> 0 \<and> leg_DeliverAmount (want_leg l r) \<noteq> 0"
        if "x \<in> set (cp_settlement (data v))" "leg_EscrowRef (se_leg x) = leg_EscrowRef (want_leg l r)" for x
        using that by (auto simp: escrowed_for_def)
    qed
    ultimately show ?thesis using cross_with_leg [OF cv] by (simp add: t)
  next
    case False
    with w bv cv wv show ?thesis by (simp add: retE_Inr)
  qed
qed

lemma want_leg_backed:
  assumes "escrowed_for l n r d m" and ok: "listing_ok l" and n: "0 < n" "n \<le> li_TotalQuantity l - rem"
    and q: "l\<lparr>li_RemainingQuantity := rem, li_Status := st\<rparr> \<in> set (cp_listing d)" and rem: "0 \<le> rem"
  shows "want_backed d m (want_leg l r)"
proof -
  let ?U = "li_WantUnitAmount l"
  have "n \<le> li_TotalQuantity l" using n rem by linarith
  then have "?U * n \<le> ?U * li_TotalQuantity l" "0 \<le> ?U * n" using ok n by (auto simp: listing_ok_def intro: mult_left_mono)
  then have "?U * n \<le> max_int32" using ok by (auto simp: listing_ok_def)
  with \<open>0 \<le> ?U * n\<close> have "wrap64 (?U * n) = ?U * n"
    by (intro wrap64_nonneg_id) (simp_all add: max_int32_def max_int64_def)
  with assms show ?thesis
    unfolding want_backed_def escrowed_for_def
    by (intro bexI [OF _ q] exI [of _ n]) (auto simp: want_leg_def)
qed

lemma takeTx_inv:
  assumes inv: "trade_inv (data s) m" and l: "l \<in> set (cp_listing (data s))" "li_ID l = ti_ListingID i"
    and want: "li_WantNameID l \<noteq> 0 \<Longrightarrow> escrowed_for l (ti_Units i) r (data s) m"
    and run: "takeTx svc l i r s = (x, t)"
  shows "trade_inv (data t) m"
proof (rule pgTx_trade_inv [OF _ inv run [unfolded takeTx_def]])
  show "steps pg_grows (bindE (TakeUnitsTx (ti_ListingID i) (ti_Units i)) (\<lambda>(takenListing, _).
           thenE (settleCurrencyTx svc takenListing i) (enqueueLegsTx l i r)))"
    by (auto intro!: pg.grows_bind pg.grows_then settleCurrencyTx_grows enqueueLegsTx_grows)
  fix u y v assume u: "data u = data s" and "bindE (TakeUnitsTx (ti_ListingID i) (ti_Units i)) (\<lambda>(takenListing, _).
           thenE (settleCurrencyTx svc takenListing i) (enqueueLegsTx l i r)) u = (Inr y, v)"
  then obtain l' dep a b where take: "TakeUnitsTx (ti_ListingID i) (ti_Units i) u = (Inr (l', dep), a)"
    and settle: "settleCurrencyTx svc l' i a = (Inr (), b)" and legs: "enqueueLegsTx l i r b = (Inr y, v)"
    by (auto simp: bindE_Inr thenE_Inr)
  have bk: "book 0 0 (data s)" and cr: "cross (data s) m" and it: "items_inv m" and ws: "wants (data s) m"
    and ul: "uniq li_ID (cp_listing (data s))" using inv by (auto simp: trade_inv_def book_def)
  have ok: "listing_ok l" using bk l by (simp add: book_def)
  let ?n = "ti_Units i"
  from take obtain l0 where f: "find (\<lambda>l. li_ID l = ti_ListingID i) (cp_listing (data u)) = Some l0"
    and st: "li_Status l0 = StatusActive" and n: "0 < ?n" "?n \<le> li_RemainingQuantity l0"
    and l': "l' = l0\<lparr>li_RemainingQuantity := li_RemainingQuantity l0 - ?n,
       li_Status := (if li_RemainingQuantity l0 = ?n then StatusTaken else StatusActive)\<rparr>"
    and a: "data a = (data u)\<lparr>cp_listing := upd_where (\<lambda>q. li_ID q = ti_ListingID i)
       (\<lambda>q. q\<lparr>li_RemainingQuantity := li_RemainingQuantity l', li_Status := li_Status l'\<rparr>) (cp_listing (data u))\<rparr>"
    by (rule TakeUnitsTx_Inr)
  have l0: "l0 = l" using find_listing [OF bk l(1), of l0] f u l(2) by simp
  let ?f = "\<lambda>q. q\<lparr>li_RemainingQuantity := li_RemainingQuantity l', li_Status := li_Status l'\<rparr>"
  have okf: "listing_ok (?f l)" using ok n st by (auto simp: listing_ok_def l' l0 market_consts)
  have open_f: "open_units l - open_units (?f l) = ?n"
    using st n by (auto simp: open_units_def l' l0 market_consts)
  have ba: "book (li_ID l) (li_GiveUnitAmount l * ?n) (data a)"
    using book_update [OF bk l(1) refl okf a [unfolded u l(2) [symmetric]]] by (simp only: open_f)
  have ca: "cross (data a) m" using cross_update [OF cr refl a [unfolded u]] .
  have wa: "wants (data a) m"
    using wants_update [OF ws ul l(1) _ refl a [unfolded u l(2) [symmetric]]] n by (simp add: l' l0)
  have idle: "pg_idle (data a) (data b)" using settleCurrencyTx_idle settle by (rule stepsD)
  have listing_b: "cp_listing (data b) = upd_where (\<lambda>q. li_ID q = ti_ListingID i) ?f (cp_listing (data s))"
    using idle by (simp add: pg_idle_def a u)
  have inb: "?f l \<in> set (cp_listing (data b))" "same_terms l (?f l)"
    using l in_upd_where [of l _ "\<lambda>q. li_ID q = ti_ListingID i" ?f] by (simp_all add: listing_b same_terms_def)
  have ids: "li_ID ` set (cp_listing (data b)) = li_ID ` set (cp_listing (data s))"
  proof -
    have "map li_ID (cp_listing (data b)) = map li_ID (cp_listing (data s))"
      unfolding listing_b by (rule keys_upd_where) simp
    then show ?thesis by (metis set_map)
  qed
  have "ref_seq (pg_seq (data s)) \<le> ref_seq (pg_seq (data b))" using idle by (simp add: pg_idle_def a u)
  then have esc: "escrowed_for l ?n r (data b) m" if "li_WantNameID l \<noteq> 0"
    using want [OF that] ids idle by (auto simp: escrowed_for_def pg_idle_def a u)
  have want': "escrowed_for l ?n r (data b) m \<and> want_backed (data b) m (want_leg l r)" if "li_WantNameID l \<noteq> 0"
    using want_leg_backed [OF esc [OF that] ok n(1) _ inb(1)] n ok esc [OF that] by (simp add: l' l0 listing_ok_def)
  have "?n \<le> li_TotalQuantity l" using n ok by (simp add: l0 listing_ok_def)
  from enqueueLegsTx_inv [OF book_idle [OF idle ba] cross_idle [OF idle ca] wants_idle [OF idle wa] inb n(1) this ok want' legs refl] it
  show "trade_inv (data v) m" by (simp add: trade_inv_def)
qed

lemma closeTx_inv:
  assumes inv: "trade_inv (data s) m" and l: "l \<in> set (cp_listing (data s))" "li_Status l = StatusActive"
    and st: "st \<noteq> StatusActive" and run: "closeTx l st s = (x, t)"
  shows "trade_inv (data t) m"
proof (rule pgTx_trade_inv [OF closeListingTx_grows inv run [unfolded closeTx_def]])
  fix u y v assume u: "data u = data s" and "closeListingTx l st u = (Inr y, v)"
  then obtain a b where status: "SetStatusTx (li_ID l) st u = (Inr (), a)"
    and leg: "(if li_GiveItem l then EnqueueTx (give_leg l (li_SellerAccountID l) (li_RemainingQuantity l)) else retE ()) a = (Inr (), b)"
    and rel: "(case li_GiveHoldID l of None \<Rightarrow> retE () | Some holdID \<Rightarrow> ReleaseTx holdID) b = (Inr y, v)"
    by (auto simp: closeListingTx_def thenE_Inr)
  have bk: "book 0 0 (data s)" and cr: "cross (data s) m" and it: "items_inv m" and ws: "wants (data s) m"
    using inv by (auto simp: trade_inv_def)
  have ok: "listing_ok l" using bk l by (simp add: book_def)
  have uniq: "uniq li_ID (cp_listing (data s))" using bk by (simp add: book_def)
  let ?f = "\<lambda>q. q\<lparr>li_RemainingQuantity := li_RemainingQuantity l, li_Status := st\<rparr>"
  have same: "upd_where (\<lambda>q. li_ID q = li_ID l) (\<lambda>q. q\<lparr>li_Status := st\<rparr>) (cp_listing (data s)) =
      upd_where (\<lambda>q. li_ID q = li_ID l) ?f (cp_listing (data s))"
    unfolding upd_where_def
  proof (rule map_cong [OF refl])
    fix q assume "q \<in> set (cp_listing (data s))"
    with uniq l show "(if li_ID q = li_ID l then q\<lparr>li_Status := st\<rparr> else q) = (if li_ID q = li_ID l then ?f q else q)"
      using uniq_the_row [OF uniq, of q l] by auto
  qed
  from status have a: "data a = (data s)\<lparr>cp_listing := upd_where (\<lambda>q. li_ID q = li_ID l) ?f (cp_listing (data s))\<rparr>"
    by (auto simp: SetStatusTx_def success_inv u same)
  have okf: "listing_ok (?f l)" using ok st by (auto simp: listing_ok_def)
  have open_f: "open_units l - open_units (?f l) = li_RemainingQuantity l"
    using l st by (auto simp: open_units_def)
  have ba: "book (li_ID l) (li_GiveUnitAmount l * li_RemainingQuantity l) (data a)"
    using book_update [OF bk l(1) refl okf a] by (simp only: open_f)
  have ca: "cross (data a) m" using cross_update [OF cr refl a] .
  have wa: "wants (data a) m" using wants_update [OF ws uniq l(1) order_refl refl a] .
  have ina: "?f l \<in> set (cp_listing (data a))" "same_terms l (?f l)"
    using l in_upd_where [of l _ "\<lambda>q. li_ID q = li_ID l" ?f] by (simp_all add: a same_terms_def)
  have rem: "0 < li_RemainingQuantity l" "li_RemainingQuantity l \<le> li_TotalQuantity l"
    using ok l by (auto simp: listing_ok_def)
  from give_leg_inv [OF ba ca wa ina rem ok leg refl] have "trade_inv (data b) m"
    using it by (simp add: trade_inv_def book_zero [of "li_ID l"])
  moreover have "steps pg_idle (case li_GiveHoldID l of None \<Rightarrow> retE () | Some holdID \<Rightarrow> ReleaseTx holdID)"
    by (auto intro: ReleaseTx_idle split: option.split)
  then have "pg_idle (data b) (data v)" using rel by (rule stepsD)
  ultimately show "trade_inv (data v) m" by (rule trade_inv_idle [rotated])
qed

section \<open>New listings\<close>

definition fresh_ref :: "int \<Rightarrow> pgdb \<Rightarrow> bool" where
  "fresh_ref ref d \<longleftrightarrow> 0 < ref \<and> ref \<le> ref_seq (pg_seq d) \<and> ref \<notin> li_ID ` set (cp_listing d) \<and>
     (\<forall>s \<in> set (cp_settlement d). leg_EscrowRef (se_leg s) \<noteq> ref)"

lemma fresh_ref_idle: "pg_idle d e \<Longrightarrow> fresh_ref ref d \<Longrightarrow> fresh_ref ref e"
  by (auto simp: fresh_ref_def pg_idle_def)

lemma NextRef_fresh:
  assumes inv: "trade_inv (data s) m" and run: "NextRef s = (Inr ref, t)"
  shows "trade_inv (data t) m \<and> fresh_ref ref (data t) \<and> ref \<notin> er_listing_ref ` set (cp_storage_escrow m)"
proof -
  from NextRef_Inr [OF run] have r: "ref = ref_seq (pg_seq (data s)) + 1"
    and t: "data t = (data s)\<lparr>pg_seq := (pg_seq (data s))\<lparr>ref_seq := ref\<rparr>\<rparr>" by auto
  have "pg_idle (data s) (data t)" using NextRef_idle run by (rule stepsD)
  with inv have "trade_inv (data t) m" by (rule trade_inv_idle [rotated])
  moreover have old: "li_ID l < ref" if "l \<in> set (cp_listing (data s))" for l
    using inv that r by (auto simp: trade_inv_def book_def)
  moreover have legs: "leg_EscrowRef (se_leg x) < ref" if "x \<in> set (cp_settlement (data s))" for x
    using inv that r by (auto simp: trade_inv_def book_def leg_ok_def)
  moreover have rows: "er_listing_ref x < ref" if "x \<in> set (cp_storage_escrow m)" for x
    using inv that r by (auto simp: trade_inv_def cross_def)
  moreover have "0 < ref" using inv r by (simp add: trade_inv_def book_def)
  ultimately show ?thesis by (fastforce simp: fresh_ref_def t)
qed

lemma held_absent: "ref \<notin> er_listing_ref ` set (cp_storage_escrow m) \<Longrightarrow> held ref m = 0"
  unfolding held_def escrow_sum_def by (rule tsum_zero) auto

lemma named_absent: "ref \<notin> er_listing_ref ` set (cp_storage_escrow m) \<Longrightarrow> named ref i m = 0"
  unfolding named_def escrow_sum_def by (rule tsum_zero) auto

lemma owed_fresh: "fresh_ref ref d \<Longrightarrow> owed ref d = 0" "fresh_ref ref d \<Longrightarrow> served A ref d = 0"
  unfolding owed_def served_def by (auto simp: fresh_ref_def intro!: tsum_zero)

lemma listing_Create_inv:
  assumes inv: "trade_inv (data s) m" and fresh: "fresh_ref (li_ID l) (data s)"
    and ok: "listing_ok (l\<lparr>li_Status := StatusActive\<rparr>)" and full: "li_RemainingQuantity l = li_TotalQuantity l"
    and backed: "li_GiveItem l \<Longrightarrow> held (li_ID l) m = li_GiveUnitAmount l * li_TotalQuantity l"
    and run: "listing_Create l s = (r, t)"
  shows "trade_inv (data t) m"
proof -
  let ?d = "data s" and ?l = "l\<lparr>li_Status := StatusActive, li_CreatedAt := pg_clock (data s)\<rparr>"
  have "data t = ?d \<or> data t = ?d\<lparr>cp_listing := cp_listing ?d @ [?l]\<rparr>"
    using sql_data [of Sql "\<lambda>d. map_option (\<lambda>d'. ((), d')) (insert_listing l d)" s] run
    by (auto simp: listing_Create_def exec_opt_def insert_listing_def ins_checked_Some split: if_splits)
  then show ?thesis
  proof
    assume t: "data t = ?d\<lparr>cp_listing := cp_listing ?d @ [?l]\<rparr>"
    have bk: "book 0 0 ?d" and cr: "cross ?d m" and it: "items_inv m" using inv by (auto simp: trade_inv_def)
    have owe: "owed r (data t) = owed r ?d" "served A r (data t) = served A r ?d" for r A
      by (simp_all add: t owed_def served_def)
    have legs: "leg_ok (data t) (se_leg x)" if x: "x \<in> set (cp_settlement ?d)" for x
    proof -
      from fresh x have "leg_EscrowRef (se_leg x) \<noteq> li_ID l" by (auto simp: fresh_ref_def)
      moreover from bk x have "leg_ok ?d (se_leg x)" by (simp add: book_def)
      ultimately show ?thesis by (auto simp: leg_ok_def t)
    qed
    have "book 0 0 (data t)"
    proof (rule bookI)
      show "uniq li_ID (cp_listing (data t))" using bk fresh by (auto simp: t book_def fresh_ref_def)
      show "\<forall>q \<in> set (cp_listing (data t)). 0 < li_ID q \<and> li_ID q \<le> ref_seq (pg_seq (data t)) \<and> listing_ok q"
        using bk fresh ok by (auto simp: t book_def fresh_ref_def listing_ok_def)
      show "\<forall>x \<in> set (cp_settlement (data t)). leg_ok (data t) (se_leg x)" using legs by (simp add: t)
      show "\<forall>q \<in> set (cp_listing (data t)). li_GiveItem q \<longrightarrow>
        li_GiveUnitAmount q * open_units q + owed (li_ID q) (data t) + (if li_ID q = 0 then 0 else 0) =
        li_GiveUnitAmount q * li_TotalQuantity q"
      proof (intro ballI impI)
        fix q assume "q \<in> set (cp_listing (data t))" and g: "li_GiveItem q"
        then consider "q \<in> set (cp_listing ?d)" | "q = ?l" by (auto simp: t)
        then show "li_GiveUnitAmount q * open_units q + owed (li_ID q) (data t) + (if li_ID q = 0 then 0 else 0) =
          li_GiveUnitAmount q * li_TotalQuantity q"
        proof cases
          case 1
          with bk g show ?thesis by (simp add: owe book_def)
        next
          case 2
          have "open_units ?l = li_RemainingQuantity l" by (simp add: open_units_def)
          with 2 full owed_fresh(1) [OF fresh] show ?thesis by (simp add: owe)
        qed
      qed
    qed (use bk in \<open>simp_all add: t book_def\<close>)
    moreover have "cross (data t) m"
      using cr backed owed_fresh [OF fresh] by (auto simp: cross_def owe) (auto simp: t)
    moreover have "want_backed (data t) m g" if "want_backed ?d m g" for g
      by (rule want_backed_listings [OF that]) (auto simp: t)
    then have "wants (data t) m" using inv by (auto simp: trade_inv_def wants_def t)
    ultimately show ?thesis using it by (simp add: trade_inv_def)
  qed (use inv in simp)
qed

section \<open>Deliveries\<close>

lemma held_shifts: "shifts ms mx F G m n \<Longrightarrow> held ref n = held ref m + G (\<lambda>r _. if r = ref then 1 else 0)"
  by (simp add: shifts_def held_def)

text \<open>A change of the escrow that only touches the reference \<open>k\<close> leaves what is wanted under others.\<close>

definition off :: "int \<Rightarrow> ((int \<Rightarrow> stash_item \<Rightarrow> int) \<Rightarrow> int) \<Rightarrow> bool" where
  "off k G \<longleftrightarrow> (\<forall>w. (\<forall>q. w k q = 0) \<longrightarrow> G w = 0)"

lemma off_gains: "off k (gains k q n)" "off k (gains_all k items)" "off k (\<lambda>w. - gains_all k items w)"
  by (simp_all add: off_def gains_def gains_all_def)

lemma want_backed_off:
  assumes "want_backed d m g" and sums: "\<And>w. escrow_sum w n = escrow_sum w m + G w" and "off k G" and "leg_EscrowRef g \<noteq> k"
  shows "want_backed d n g"
proof -
  have "held (leg_EscrowRef g) n = held (leg_EscrowRef g) m" "named (leg_EscrowRef g) i n = named (leg_EscrowRef g) i m" for i
    using assms(3,4) by (simp_all add: held_def named_def sums off_def)
  with assms(1) show ?thesis by (simp add: want_backed_def)
qed

lemma wants_off:
  assumes w: "wants d m" and "\<And>w. escrow_sum w n = escrow_sum w m + G w" and "off k G"
    and "set (cp_delivery_applied m) \<subseteq> set (cp_delivery_applied n)"
    and "\<And>x. x \<in> set (cp_settlement d) \<Longrightarrow> leg_ID (se_leg x) \<notin> set (cp_delivery_applied n) \<Longrightarrow>
      leg_DeliverAmount (se_leg x) = 0 \<Longrightarrow> se_status x = 1 \<Longrightarrow> leg_EscrowRef (se_leg x) \<noteq> k"
  shows "wants d n"
  using w assms(4,5) want_backed_off [OF _ assms(2,3)] unfolding wants_def by blast

lemma MarkDone_inv:
  assumes inv: "trade_inv (data s) m" and made: "i \<in> set (cp_delivery_applied m)" and run: "MarkDone i s = (r, t)"
  shows "trade_inv (data t) m"
proof -
  let ?S = "upd_where (\<lambda>s. leg_ID (se_leg s) = i) (\<lambda>s. s\<lparr>se_status := 2\<rparr>) (cp_settlement (data s))"
  have legs: "map se_leg ?S = map se_leg (cp_settlement (data s))" by (rule keys_upd_where) simp
  have "data t = data s \<or> data t = (data s)\<lparr>cp_settlement := ?S\<rparr>"
    using sql_data [of Sql "\<lambda>d. Some ((), d\<lparr>cp_settlement :=
       upd_where (\<lambda>s. leg_ID (se_leg s) = i) (\<lambda>s. s\<lparr>se_status := 2\<rparr>) (cp_settlement d)\<rparr>)" s] run
    by (auto simp: MarkDone_def exec_def)
  then show ?thesis
  proof
    assume t: "data t = (data s)\<lparr>cp_settlement := ?S\<rparr>"
    have sums: "tsum (\<lambda>x. g (se_leg x)) ?S = tsum (\<lambda>x. g (se_leg x)) (cp_settlement (data s))" for g
    proof -
      have "tsum (\<lambda>x. g (se_leg x)) T = sum_list (map g (map se_leg T))" for T
        by (simp add: tsum_def comp_def)
      from this [of ?S] this [of "cp_settlement (data s)"] legs show ?thesis by simp
    qed
    have "owed ref (data t) = owed ref (data s)" "served A ref (data t) = served A ref (data s)" for ref A
      using sums [of "\<lambda>g. if leg_EscrowRef g = ref then leg_DeliverAmount g else 0"]
        sums [of "\<lambda>g. if leg_EscrowRef g = ref \<and> leg_ID g \<in> A then leg_DeliverAmount g else 0"]
      by (simp_all add: t owed_def served_def)
    moreover have "uniq (\<lambda>s. leg_ID (se_leg s)) ?S = uniq (\<lambda>s. leg_ID (se_leg s)) (cp_settlement (data s))"
      by (rule uniq_upd_where) simp
    moreover have "leg_ok (data t) g = leg_ok (data s) g" for g by (simp add: leg_ok_def t)
    moreover have same: "se_leg ` set ?S = se_leg ` set (cp_settlement (data s))" using legs by (metis set_map)
    ultimately have "book 0 0 (data t) \<and> items_inv m \<and> cross (data t) m"
      using inv unfolding trade_inv_def book_def cross_def t by (auto simp: ball_simps(9) [symmetric] simp del: ball_simps)
    moreover have "want_backed (data t) m g = want_backed (data s) m g" for g by (simp add: want_backed_def t)
    then have "wants (data t) m"
      using inv made same unfolding trade_inv_def wants_def t by (auto simp: set_upd_where)
    ultimately show ?thesis by (simp add: trade_inv_def)
  qed (use inv in simp)
qed

text \<open>Deliveries and returns never add a row to the escrow.\<close>

definition refs_shrink :: "mydb \<Rightarrow> mydb \<Rightarrow> bool" where
  "refs_shrink m n \<longleftrightarrow> (uniq er_listing_ref (cp_storage_escrow m) \<longrightarrow> uniq er_listing_ref (cp_storage_escrow n)) \<and>
     er_listing_ref ` set (cp_storage_escrow n) \<subseteq> er_listing_ref ` set (cp_storage_escrow m)"

lemma refs_shrink_trans: "refs_shrink a b \<Longrightarrow> refs_shrink b c \<Longrightarrow> refs_shrink a c"
  unfolding refs_shrink_def by (meson order_trans)

interpretation shrink: store my_rb refs_shrink
  by unfold_locales (erule (1) refs_shrink_trans | simp add: my_rb_def refs_shrink_def)+

lemma shrink_same: "cp_storage_escrow n = cp_storage_escrow m \<Longrightarrow> refs_shrink m n"
  by (simp add: refs_shrink_def)

lemma shrink_del: "refs_shrink m (m\<lparr>cp_storage_escrow := del_where p (cp_storage_escrow m)\<rparr>)"
  by (auto simp: refs_shrink_def uniq_del_where)

lemma upsertStashStack_shrink: "steps refs_shrink (upsertStashStack a item n ms mx)"
proof -
  have "steps refs_shrink (mergeIntoExistingStack a item n mx)"
    unfolding mergeIntoExistingStack_def Let_def
    by (auto intro!: shrink.grows_bind shrink.grows_then shrink.grows_exec_opt shrink_same split: option.split)
  moreover have row: "steps refs_shrink (insertStashRow i c)" for i c
    unfolding insertStashRow_def by (rule shrink.grows_exec_opt) (auto simp: Let_def intro: shrink_same)
  have "steps refs_shrink (insertStashChunks a item c ms mx)" for c
    by (rule insertStashChunks_steps [OF shrink.grows_refl shrink.grows_trans row])
  ultimately show ?thesis
    unfolding upsertStashStack_def by (intro shrink.grows_bind)
qed

lemma requireLocked_shrink: "steps refs_shrink (requireLocked a)"
  unfolding requireLocked_def by (intro shrink.grows_bind shrink.grows_query_row shrink.grows_guard shrink.grows_ret)

lemma unlessApplied_shrink: "steps refs_shrink work \<Longrightarrow> steps refs_shrink (unlessApplied leg work)"
  unfolding unlessApplied_def claimDelivery_def
  by (auto intro!: shrink.grows_bind shrink.grows_sql intro: shrink_same split: if_splits)

lemma drainEscrow_shrink: "steps refs_shrink (drainEscrow r ref to leg)"
proof -
  have "steps refs_shrink (upsertAll a ms mx items)" for a ms mx items
    by (induction items) (auto intro!: shrink.grows_then upsertStashStack_shrink)
  then have "steps refs_shrink (drainEscrowTx ref to ms mx)" for ms mx
    unfolding drainEscrowTx_def
    by (intro shrink.grows_then shrink.grows_bind shrink.grows_query requireLocked_shrink shrink.grows_exec shrink_del)
  then show ?thesis
    unfolding drainEscrow_def myTx_def by (intro shrink.tx_steps unlessApplied_shrink)
qed

lemma DeliverPartial_shrink: "steps refs_shrink (DeliverPartial r ref to n leg)"
proof -
  have "steps refs_shrink (reduceEscrowRow item n)" for item
    unfolding reduceEscrowRow_def delete_escrow_row_def
    by (auto intro!: shrink.grows_exec shrink.grows_exec_opt shrink_del
        simp: upd_checked_Some refs_shrink_def uniq_upd_where set_upd_where)
  then have "steps refs_shrink (deliverPartialTx ref to n ms mx)" for ms mx
    unfolding deliverPartialTx_def
    by (auto intro!: shrink.grows_then shrink.grows_bind shrink.grows_guard requireLocked_shrink
        upsertStashStack_shrink split: list.split)
  then show ?thesis
    unfolding DeliverPartial_def myTx_def by (intro shrink.tx_steps unlessApplied_shrink)
qed

section \<open>A leg is delivered\<close>

lemma served_insert:
  assumes u: "uniq (\<lambda>s. leg_ID (se_leg s)) (cp_settlement d)" and s: "x \<in> set (cp_settlement d)"
    and new: "leg_ID (se_leg x) \<notin> A"
  shows "served (insert (leg_ID (se_leg x)) A) ref d =
    served A ref d + (if leg_EscrowRef (se_leg x) = ref then leg_DeliverAmount (se_leg x) else 0)"
proof -
  let ?h = "\<lambda>A s. if leg_EscrowRef (se_leg s) = ref \<and> leg_ID (se_leg s) \<in> A then leg_DeliverAmount (se_leg s) else 0"
  have "tsum (?h (insert (leg_ID (se_leg x)) A)) (cp_settlement d) =
      tsum (?h A) (cp_settlement d) - ?h A x + ?h (insert (leg_ID (se_leg x)) A) x"
    by (rule tsum_one_row [OF u s]) auto
  with new show ?thesis by (simp add: served_def)
qed

lemma leg_amount_nonneg: "book k x d \<Longrightarrow> s \<in> set (cp_settlement d) \<Longrightarrow> 0 \<le> leg_DeliverAmount (se_leg s)"
  by (auto simp: book_def leg_ok_def)

text \<open>An undelivered leg is covered by what the escrow holds, and a whole one is all of it.\<close>

lemma served_owed:
  assumes b: "book k 0 d" and x: "x \<in> set (cp_settlement d)" and new: "leg_ID (se_leg x) \<notin> A"
  shows "served A (leg_EscrowRef (se_leg x)) d + leg_DeliverAmount (se_leg x) \<le> owed (leg_EscrowRef (se_leg x)) d"
    and "0 \<le> served A ref d"
proof -
  show "0 \<le> served A ref d"
    unfolding served_def by (rule tsum_nonneg) (use leg_amount_nonneg [OF b] in auto)
  have "served (insert (leg_ID (se_leg x)) A) (leg_EscrowRef (se_leg x)) d \<le> owed (leg_EscrowRef (se_leg x)) d"
  proof -
    have le: "\<forall>s \<in> set T. 0 \<le> leg_DeliverAmount (se_leg s) \<Longrightarrow>
      tsum (\<lambda>s. if leg_EscrowRef (se_leg s) = r \<and> P s then leg_DeliverAmount (se_leg s) else 0) T \<le>
      tsum (\<lambda>s. if leg_EscrowRef (se_leg s) = r then leg_DeliverAmount (se_leg s) else 0) T" for T r P
      by (induction T) auto
    show ?thesis unfolding served_def owed_def by (rule le) (use leg_amount_nonneg [OF b] in auto)
  qed
  with served_insert [OF _ x new, of "leg_EscrowRef (se_leg x)"] b
  show "served A (leg_EscrowRef (se_leg x)) d + leg_DeliverAmount (se_leg x) \<le> owed (leg_EscrowRef (se_leg x)) d"
    by (simp add: book_def)
qed

lemma leg_backed:
  assumes inv: "trade_inv d m" and x: "x \<in> set (cp_settlement d)" and g: "g = se_leg x"
    and new: "leg_ID g \<notin> set (cp_delivery_applied m)" and pos: "0 < leg_DeliverAmount g"
  shows "leg_DeliverAmount g \<le> held (leg_EscrowRef g) m \<and>
    (leg_Whole g \<longrightarrow> held (leg_EscrowRef g) m = leg_DeliverAmount g)"
proof -
  let ?A = "set (cp_delivery_applied m)" and ?r = "leg_EscrowRef g" and ?D = "leg_DeliverAmount g"
  have b: "book 0 0 d" and c: "cross d m" using inv by (auto simp: trade_inv_def)
  from b x g have "leg_ok d g" by (auto simp: book_def)
  with pos obtain l where l: "l \<in> set (cp_listing d)" "li_GiveItem l" "li_ID l = ?r"
    and dv: "li_GiveUnitAmount l dvd ?D" and wh: "leg_Whole g = (\<not> li_Stackable l)" by (auto simp: leg_ok_def)
  let ?U = "li_GiveUnitAmount l" and ?T = "li_TotalQuantity l"
  from b l have ok: "listing_ok l" and acc: "?U * open_units l + owed ?r d = ?U * ?T" by (auto simp: book_def)
  from c l have hold: "held ?r m + served ?A ?r d = ?U * ?T" by (auto simp: cross_def)
  from served_owed [OF b x new [unfolded g]] g have so: "served ?A ?r d + ?D \<le> owed ?r d" "0 \<le> served ?A ?r d" by auto
  have U: "0 < ?U" "0 \<le> open_units l" using ok l by (auto simp: listing_ok_def open_units_def)
  then have "0 \<le> ?U * open_units l" by simp
  with acc hold so have le: "?D \<le> held ?r m" by linarith
  moreover have "held ?r m = ?D" if "leg_Whole g"
  proof -
    from that wh ok l have "?T = 1" by (auto simp: listing_ok_def)
    with acc \<open>0 \<le> ?U * open_units l\<close> have "owed ?r d \<le> ?U" by simp
    moreover from dv pos have "?U \<le> ?D" by (intro zdvd_imp_le)
    ultimately show ?thesis using so hold \<open>?T = 1\<close> le by simp
  qed
  ultimately show ?thesis by blast
qed

lemma cross_delivered:
  assumes inv: "trade_inv d m" and x: "x \<in> set (cp_settlement d)" and g: "g = se_leg x"
    and del: "delivered ms mx F G (leg_ID g) m n" and sh: "refs_shrink m n"
    and gain: "\<And>ref. G (\<lambda>r _. if r = ref then 1 else 0) = (if leg_EscrowRef g = ref then - amount else 0)"
    and amount: "0 < leg_DeliverAmount g \<Longrightarrow> amount = leg_DeliverAmount g" and only: "off (leg_EscrowRef g) G"
  shows "trade_inv d n"
proof -
  let ?A = "set (cp_delivery_applied m)"
  have b: "book 0 0 d" and c: "cross d m" using inv by (auto simp: trade_inv_def)
  from b x g have ok: "leg_ok d g" by (auto simp: book_def)
  then have nz: "leg_ID g \<noteq> 0" by (auto simp: leg_ok_def)
  from del nz have new: "leg_ID g \<notin> ?A" and n: "set (cp_delivery_applied n) = insert (leg_ID g) ?A"
    and it: "items_inv n" and hd: "\<And>ref. held ref n = held ref m + G (\<lambda>r _. if r = ref then 1 else 0)"
    unfolding delivered_def shifts_def held_def by (auto simp: escrow_sum_def)
  have "held (li_ID l) n + served (set (cp_delivery_applied n)) (li_ID l) d = li_GiveUnitAmount l * li_TotalQuantity l"
    if l: "l \<in> set (cp_listing d)" "li_GiveItem l" for l
  proof -
    have u: "uniq (\<lambda>s. leg_ID (se_leg s)) (cp_settlement d)" using b by (simp add: book_def)
    from served_insert [OF u x new [unfolded g], of "li_ID l"]
    have s: "served (set (cp_delivery_applied n)) (li_ID l) d =
        served ?A (li_ID l) d + (if leg_EscrowRef g = li_ID l then leg_DeliverAmount g else 0)" by (simp add: n g)
    have "amount = leg_DeliverAmount g" if "leg_EscrowRef g = li_ID l"
      using ok that l amount by (auto simp: leg_ok_def)
    with s c l gain [of "li_ID l"] show ?thesis by (auto simp: cross_def hd)
  qed
  moreover have "\<forall>i \<in> set (cp_delivery_applied n). i \<le> settle_seq (pg_seq d)"
    using c ok by (auto simp: n cross_def leg_ok_def)
  moreover have "uniq er_listing_ref (cp_storage_escrow n)" "\<forall>r \<in> set (cp_storage_escrow n). er_listing_ref r \<le> ref_seq (pg_seq d)"
    using sh c by (auto simp: refs_shrink_def cross_def)
  moreover have "wants d n"
  proof (rule wants_off [OF _ _ only])
    show w: "wants d m" using inv by (simp add: trade_inv_def)
    show "escrow_sum w n = escrow_sum w m + G w" for w
      using del nz unfolding delivered_def shifts_def by (auto simp: escrow_sum_def)
    fix y assume "y \<in> set (cp_settlement d)" "leg_ID (se_leg y) \<notin> set (cp_delivery_applied n)" "leg_DeliverAmount (se_leg y) = 0"
    with w x g show "leg_EscrowRef (se_leg y) \<noteq> leg_EscrowRef g" unfolding wants_def own_refs_def n by (metis imageI insertI1)
  qed (auto simp: n)
  ultimately show ?thesis using b it by (simp add: trade_inv_def cross_def)
qed

lemma gain_at: "gains a k n (\<lambda>r _. if r = ref then 1 else 0) = (if a = ref then n else 0)"
  "gains_all a (escrow_of r m) (\<lambda>r _. if r = ref then 1 else 0) = (if a = ref then held r m else 0)"
  by (auto simp: gains_def gains_all_escrow_of held_def escrow_sum_def intro!: tsum_cong tsum_zero)

lemma my_seq_idle: "items_inv n \<Longrightarrow> n = m\<lparr>my_seq := q\<rparr> \<Longrightarrow> my_idle m n"
  by (simp add: my_idle_def)

lemma deliverLeg_inv:
  assumes inv: "trade_inv d (data s)" and x: "x \<in> set (cp_settlement d)" and g: "g = se_leg x"
    and mx: "0 < MaxStack (wk_escrow w)" and run: "deliverLeg w g s = (r, t)"
  shows "trade_inv d (data t)"
proof -
  let ?m = "data s" and ?n = "data t"
  have it: "items_inv ?m" using inv by (simp add: trade_inv_def)
  have seq: "trade_inv d ?n" if "items_inv ?n" "\<exists>q. ?n = ?m\<lparr>my_seq := q\<rparr>"
    using that inv my_seq_idle trade_inv_my_idle by blast
  show ?thesis
  proof (cases "leg_Whole g")
    case True
    with run have run: "drainEscrow (wk_escrow w) (leg_EscrowRef g) (leg_RecipientAccountID g) (leg_ID g) s = (r, t)"
      by (simp add: deliverLeg_def escrow_Deliver_def)
    have sh: "refs_shrink ?m ?n" using drainEscrow_shrink run by (rule stepsD)
    let ?F = "gains_all (leg_RecipientAccountID g) (escrow_of (leg_EscrowRef g) ?m)"
    let ?G = "\<lambda>w. - gains_all (leg_EscrowRef g) (escrow_of (leg_EscrowRef g) ?m) w"
    from drainEscrow_simulates [OF it run mx] have itn: "items_inv ?n"
      and "(\<exists>e. r = Inl e) \<and> (\<exists>q. ?n = ?m\<lparr>my_seq := q\<rparr>) \<or>
         leg_ID g \<noteq> 0 \<and> leg_ID g \<in> set (cp_delivery_applied ?m) \<and> ?n = ?m \<or>
         delivered (MaxSlots (wk_escrow w)) (MaxStack (wk_escrow w)) ?F ?G (leg_ID g) ?m ?n" by auto
    then consider "\<exists>q. ?n = ?m\<lparr>my_seq := q\<rparr>" | "?n = ?m"
      | "delivered (MaxSlots (wk_escrow w)) (MaxStack (wk_escrow w)) ?F ?G (leg_ID g) ?m ?n" by blast
    then show ?thesis
    proof cases
      case 3
      have "leg_ID g \<notin> set (cp_delivery_applied ?m)"
        using 3 inv x g by (auto simp: delivered_def trade_inv_def book_def leg_ok_def)
      with True leg_backed [OF inv x g] show ?thesis
        by (intro cross_delivered [OF inv x g 3 sh, where amount = "held (leg_EscrowRef g) ?m"]) (auto simp: gain_at off_gains)
    qed (use seq itn inv in auto)
  next
    case False
    with run have run: "DeliverPartial (wk_escrow w) (leg_EscrowRef g) (leg_RecipientAccountID g)
        (leg_DeliverAmount g) (leg_ID g) s = (r, t)"
      by (simp add: deliverLeg_def)
    have sh: "refs_shrink ?m ?n" using DeliverPartial_shrink run by (rule stepsD)
    from DeliverPartial_simulates [OF it run mx] have itn: "items_inv ?n"
      and "(\<exists>q. ?n = ?m\<lparr>my_seq := q\<rparr>) \<or> ?n = ?m \<or>
         (\<exists>p \<in> partial_shifts (leg_EscrowRef g) (leg_RecipientAccountID g) (leg_DeliverAmount g) ?m.
           delivered (MaxSlots (wk_escrow w)) (MaxStack (wk_escrow w)) (fst p) (snd p) (leg_ID g) ?m ?n)" by blast+
    then consider "\<exists>q. ?n = ?m\<lparr>my_seq := q\<rparr>" | "?n = ?m" | k where
      "delivered (MaxSlots (wk_escrow w)) (MaxStack (wk_escrow w)) (gains (leg_RecipientAccountID g) k (leg_DeliverAmount g))
         (gains (leg_EscrowRef g) k (- leg_DeliverAmount g)) (leg_ID g) ?m ?n"
      by (force simp: partial_shifts_def)
    then show ?thesis
    proof cases
      case 3
      then show ?thesis
        by (rule cross_delivered [OF inv x g _ sh]) (auto simp: gain_at off_gains)
    qed (use seq itn inv in auto)
  qed
qed

lemma trade_inv_unlisted:
  assumes inv: "trade_inv d m" and it: "items_inv n" and sh: "shifts ms mx F G m n"
    and u: "uniq er_listing_ref (cp_storage_escrow n)"
    and r: "\<forall>r \<in> set (cp_storage_escrow n). er_listing_ref r \<le> ref_seq (pg_seq d)"
    and only: "off k G" and un: "k \<notin> li_ID ` set (cp_listing d)"
    and pend: "\<forall>x \<in> set (cp_settlement d). se_status x = 1 \<longrightarrow> leg_EscrowRef (se_leg x) \<noteq> k"
  shows "trade_inv d n"
proof -
  have a: "cp_delivery_applied n = cp_delivery_applied m" using sh by (auto simp: shifts_def)
  have "held (li_ID l) n = held (li_ID l) m" if "l \<in> set (cp_listing d)" for l
  proof -
    have "k \<noteq> li_ID l" using un that by auto
    then have "G (\<lambda>r _. if r = li_ID l then 1 else 0) = 0" using only by (simp add: off_def)
    with held_shifts [OF sh] show ?thesis by simp
  qed
  with inv a u r have "cross d n" by (auto simp: trade_inv_def cross_def)
  moreover have "wants d n"
    by (rule wants_off [OF _ _ only]) (use inv sh pend a in \<open>auto simp: trade_inv_def shifts_def\<close>)
  ultimately show ?thesis using inv it by (simp add: trade_inv_def)
qed

lemma ReturnToStash_inv:
  assumes inv: "trade_inv d (data s)" and un: "ref \<notin> li_ID ` set (cp_listing d)"
    and pend: "\<forall>x \<in> set (cp_settlement d). se_status x = 1 \<longrightarrow> leg_EscrowRef (se_leg x) \<noteq> ref"
    and mx: "0 < MaxStack r" and run: "ReturnToStash r ref s = (y, t)"
  shows "trade_inv d (data t)"
  using run
proof (cases rule: ReturnToStash_cases)
  case (drained owner u)
  have it: "items_inv (data u)" using inv drained by (simp add: trade_inv_def)
  have sh: "refs_shrink (data s) (data t)" using drainEscrow_shrink drained(2) unfolding drained(1) [symmetric] by (rule stepsD)
  from drainEscrow_simulates [OF it drained(2) mx] have itn: "items_inv (data t)" and
    "(\<exists>q. data t = (data s)\<lparr>my_seq := q\<rparr>) \<or>
     shifts (MaxSlots r) (MaxStack r) (gains_all owner (escrow_of ref (data s))) (\<lambda>w. - gains_all ref (escrow_of ref (data s)) w)
       (data s) (data t)"
    by (auto simp: delivered_zero drained(1))
  then show ?thesis
  proof (elim disjE)
    assume sf: "shifts (MaxSlots r) (MaxStack r) (gains_all owner (escrow_of ref (data s)))
       (\<lambda>w. - gains_all ref (escrow_of ref (data s)) w) (data s) (data t)"
    show ?thesis
      by (rule trade_inv_unlisted [OF inv itn sf _ _ off_gains(3) un pend])
        (use sh inv in \<open>auto simp: refs_shrink_def trade_inv_def cross_def\<close>)
  qed (use inv itn my_seq_idle trade_inv_my_idle in blast)
qed (use inv in auto)

section \<open>A single move into a fresh reference\<close>

lemma moveOne_refs:
  assumes "moveOneToEscrow a ref mv s = (Inr u, t)"
  shows "map er_listing_ref (cp_storage_escrow (data t)) = map er_listing_ref (cp_storage_escrow (data s)) @ [ref]"
proof -
  from assms obtain i v w where load: "loadStashItemTx a (em_StashItemID mv) s = (Inr i, v)"
    and ins: "insertEscrowRow ref i (em_Amount mv) v = (Inr (), w)"
    and rest: "(if em_Amount mv = si_Amount i then delete_stash_row (si_ID i)
              else reduce_stash_row (si_ID i) (em_Amount mv)) w = (Inr u, t)"
    by (auto simp: moveOneToEscrow_def success_inv split: option.splits)
  from load have "data v = data s" by (auto simp: loadStashItemTx_def success_inv split: list.splits)
  with ins have "map er_listing_ref (cp_storage_escrow (data w)) = map er_listing_ref (cp_storage_escrow (data s)) @ [ref]"
    by (auto simp: insertEscrowRow_def success_inv Let_def ins_checked_Some)
  moreover from rest have "cp_storage_escrow (data t) = cp_storage_escrow (data w)"
    by (auto simp: delete_stash_row_def reduce_stash_row_def success_inv upd_checked_Some split: if_splits)
  ultimately show ?thesis by simp
qed

lemma MoveToEscrow_inv:
  assumes inv: "trade_inv d (data s)" and fresh: "fresh_ref ref d"
    and no: "ref \<notin> er_listing_ref ` set (cp_storage_escrow (data s))"
    and run: "MoveToEscrow a ref [mv] s = (r, t)"
  shows "trade_inv d (data t) \<and> (r = Inr x \<longrightarrow> held ref (data t) = em_Amount mv \<and> 0 < em_Amount mv \<and>
    (\<exists>i \<in> set (cp_storage (data s)). si_ID i = em_StashItemID mv \<and> si_AccountID i = a \<and>
       named ref (si_NameID i) (data t) = em_Amount mv))"
proof -
  let ?m = "data s" and ?n = "data t"
  have it: "items_inv ?m" using inv by (simp add: trade_inv_def)
  have g: "steps my_grows (thenE (requireLocked a) (moveAllToEscrow a ref [mv]))"
    by (intro my.grows_then requireLocked_grows moveAllToEscrow_grows)
  have "items_inv ?n \<and> ((\<exists>e. r = Inl e) \<and> (\<exists>q. ?n = ?m\<lparr>my_seq := q\<rparr>) \<or>
     0 < em_Amount mv \<and> (\<exists>i \<in> set (cp_storage ?m). si_ID i = em_StashItemID mv \<and> si_AccountID i = a \<and>
        shifts 0 0 (gains a (kind i) (- em_Amount mv)) (gains ref (kind i) (em_Amount mv)) ?m ?n) \<and>
     map er_listing_ref (cp_storage_escrow ?n) = map er_listing_ref (cp_storage_escrow ?m) @ [ref])"
  proof (rule item_tx [OF g it run [unfolded MoveToEscrow_def]])
    fix u y v assume u: "items_inv (data u)" "data u = ?m"
      and "thenE (requireLocked a) (moveAllToEscrow a ref [mv]) u = (Inr y, v)"
    then obtain w where w: "moveOneToEscrow a ref mv w = (Inr (), v)" "data w = ?m"
      by (auto simp: thenE_Inr retE_Inr dest: requireLocked_data)
    from moveOneToEscrow_moves [OF w(1), of 0 0] moveOne_refs [OF w(1)] w(2) it
    show "items_inv (data v) \<and> (0 < em_Amount mv \<and> (\<exists>i \<in> set (cp_storage ?m). si_ID i = em_StashItemID mv \<and> si_AccountID i = a \<and>
        shifts 0 0 (gains a (kind i) (- em_Amount mv)) (gains ref (kind i) (em_Amount mv)) ?m (data v)) \<and>
      map er_listing_ref (cp_storage_escrow (data v)) = map er_listing_ref (cp_storage_escrow ?m) @ [ref])"
      by (auto simp: shifts_def)
  qed
  then have itn: "items_inv ?n" and "(\<exists>e. r = Inl e) \<and> (\<exists>q. ?n = ?m\<lparr>my_seq := q\<rparr>) \<or>
     0 < em_Amount mv \<and> (\<exists>i \<in> set (cp_storage ?m). si_ID i = em_StashItemID mv \<and> si_AccountID i = a \<and>
        shifts 0 0 (gains a (kind i) (- em_Amount mv)) (gains ref (kind i) (em_Amount mv)) ?m ?n) \<and>
     map er_listing_ref (cp_storage_escrow ?n) = map er_listing_ref (cp_storage_escrow ?m) @ [ref]" by auto
  then show ?thesis
  proof (elim disjE conjE exE bexE)
    fix i assume pos: "0 < em_Amount mv" and i: "i \<in> set (cp_storage ?m)" "si_ID i = em_StashItemID mv" "si_AccountID i = a"
      and sf: "shifts 0 0 (gains a (kind i) (- em_Amount mv)) (gains ref (kind i) (em_Amount mv)) ?m ?n"
      and refs: "map er_listing_ref (cp_storage_escrow ?n) = map er_listing_ref (cp_storage_escrow ?m) @ [ref]"
    have u: "uniq er_listing_ref (cp_storage_escrow ?n)"
      using refs no inv by (simp add: uniq_def trade_inv_def cross_def)
    have "er_listing_ref ` set (cp_storage_escrow ?n) = insert ref (er_listing_ref ` set (cp_storage_escrow ?m))"
      using arg_cong [OF refs, of set] by simp
    moreover have "\<forall>x \<in> insert ref (er_listing_ref ` set (cp_storage_escrow ?m)). x \<le> ref_seq (pg_seq d)"
      using inv fresh by (auto simp: trade_inv_def cross_def fresh_ref_def)
    ultimately have "\<forall>x \<in> er_listing_ref ` set (cp_storage_escrow ?n). x \<le> ref_seq (pg_seq d)" by simp
    then have le: "\<forall>r \<in> set (cp_storage_escrow ?n). er_listing_ref r \<le> ref_seq (pg_seq d)" by simp
    have "trade_inv d ?n"
      by (rule trade_inv_unlisted [OF inv itn sf u le off_gains(1)]) (use fresh in \<open>auto simp: fresh_ref_def\<close>)
    moreover have "held ref ?n = em_Amount mv"
      using held_shifts [OF sf, of ref] held_absent [OF no] by (simp add: gain_at)
    moreover have "named ref (si_NameID i) ?n = em_Amount mv"
      using sf named_absent [OF no, of "si_NameID i"] by (simp add: named_def shifts_def gains_def kind_def)
    ultimately show ?thesis using pos i by auto
  next
    fix e q assume "r = Inl e" "?n = ?m\<lparr>my_seq := q\<rparr>"
    with trade_inv_my_idle [OF my_seq_idle [OF itn] inv] show ?thesis by simp
  qed
qed

end
