(* ===== verification/Market_Safety.thy ===== *)
theory Market_Safety
  imports Market_Books
begin

text \<open>
  Every call of the market's services and workers keeps the books of \<open>Market_Books\<close>, whatever
  statements and replies are lost, when calls do not overlap; so do the game server's changes
  of the stash between calls. The last sections state what follows for players, and what goes
  wrong when a cancellation overlaps a purchase.
\<close>

definition books :: "world \<Rightarrow> bool" where
  "books w \<longleftrightarrow> trade_inv (data (pgc w)) (data (myc w))"

lemma books_pg: "trade_inv (data c) (data (myc w)) \<Longrightarrow> books (w\<lparr>pgc := c\<rparr>)"
  by (simp add: books_def)

lemma books_my: "trade_inv (data (pgc w)) (data c) \<Longrightarrow> books (w\<lparr>myc := c\<rparr>)"
  by (simp add: books_def)

section \<open>Reads\<close>

lemma query_only: "m s = (r, t) \<Longrightarrow> steps (\<lambda>d e. e = d) m \<Longrightarrow> data t = data s"
  using stepsD by fastforce

lemma same_intros:
  "steps (\<lambda>d e. e = d) (retE x)" "steps (\<lambda>d e. e = d) (failE e)" "steps (\<lambda>d e. e = d) (query e f)"
  "steps (\<lambda>d e. e = d) m \<Longrightarrow> (\<And>x. steps (\<lambda>d e. e = d) (g x)) \<Longrightarrow> steps (\<lambda>d e. e = d) (bindE m g)"
  "steps (\<lambda>d e. e = d) n \<Longrightarrow> steps (\<lambda>d e. e = d) (guardE b e n)"
  by (auto intro: steps_ret steps_fail steps_query steps_bind simp: guardE_def)

lemma reads_same:
  "steps (\<lambda>d e. e = d) (IsLocked a)" "steps (\<lambda>d e. e = d) (findStashItem a i)"
  "steps (\<lambda>d e. e = d) (ensureCapacity s a sn n)" "steps (\<lambda>d e. e = d) (prepareGiveItem s ci l)"
  "steps (\<lambda>d e. e = d) (OrphanRefs b)"
proof -
  show a: "steps (\<lambda>d e. e = d) (IsLocked a)" for a unfolding IsLocked_def by (intro same_intros)
  show f: "steps (\<lambda>d e. e = d) (findStashItem a i)" for a i
    unfolding findStashItem_def ListByAccount_def by (intro same_intros) (auto intro: same_intros split: option.split)
  show "steps (\<lambda>d e. e = d) (ensureCapacity s a sn n)"
    unfolding ensureCapacity_def Let_def MergeableAmount_def SlotsUsed_def
    by (auto intro!: same_intros split: option.split)
  show "steps (\<lambda>d e. e = d) (prepareGiveItem s ci l)"
    unfolding prepareGiveItem_def Let_def by (intro same_intros a f)
  show "steps (\<lambda>d e. e = d) (OrphanRefs b)" unfolding OrphanRefs_def by (intro same_intros)
qed

lemma pg_reads_same:
  "steps (\<lambda>d e. e = d) (listing_Get i)" "steps (\<lambda>d e. e = d) (Pending n)" "steps (\<lambda>d e. e = d) AllRefs"
  "steps (\<lambda>d e. e = d) PendingRefs" "steps (\<lambda>d e. e = d) (DueForExpiry now n)" "steps (\<lambda>d e. e = d) (cancelRead i a)"
proof -
  show g: "steps (\<lambda>d e. e = d) (listing_Get i)" for i
    unfolding listing_Get_def query_row_def by (intro same_intros) (auto intro: same_intros split: option.split)
  show "steps (\<lambda>d e. e = d) (Pending n)" "steps (\<lambda>d e. e = d) (DueForExpiry now n)"
    unfolding Pending_def DueForExpiry_def by (auto intro!: steps_sql split: if_splits)
  show "steps (\<lambda>d e. e = d) AllRefs" "steps (\<lambda>d e. e = d) PendingRefs"
    unfolding AllRefs_def PendingRefs_def by (intro same_intros)+
  show "steps (\<lambda>d e. e = d) (cancelRead i a)"
    unfolding cancelRead_def by (intro same_intros g)
qed

text \<open>A read on either side keeps any fact about the two data states.\<close>

definition on_data :: "(pgdb \<Rightarrow> mydb \<Rightarrow> bool) \<Rightarrow> world \<Rightarrow> bool" where
  "on_data P w \<longleftrightarrow> P (data (pgc w)) (data (myc w))"

lemma books_on_data: "books = on_data trade_inv"
  by (simp add: fun_eq_iff books_def on_data_def)

lemma spec_read_my:
  "steps (\<lambda>d e. e = d) m \<Longrightarrow> (\<And>w. P w \<Longrightarrow> on_data I w) \<Longrightarrow> (\<And>d n. I d n \<Longrightarrow> trade_inv d n) \<Longrightarrow>
   spec P (onMy m) (\<lambda>_. on_data I) books"
  by (rule spec_onMy) (auto dest!: query_only simp: books_def on_data_def)

lemma spec_read_pg:
  "steps (\<lambda>d e. e = d) m \<Longrightarrow> (\<And>w. P w \<Longrightarrow> on_data I w) \<Longrightarrow> (\<And>d n. I d n \<Longrightarrow> trade_inv d n) \<Longrightarrow>
   spec P (onPg m) (\<lambda>_. on_data I) books"
  by (rule spec_onPg) (auto dest!: query_only simp: books_def on_data_def)

lemma spec_clock: "spec P clock_now (\<lambda>_. P) E"
  by (auto simp: spec_def clock_now_def)

section \<open>Create\<close>

definition reserved :: "int \<Rightarrow> pgdb \<Rightarrow> mydb \<Rightarrow> bool" where
  "reserved ref d m \<longleftrightarrow> trade_inv d m \<and> fresh_ref ref d \<and> ref \<notin> er_listing_ref ` set (cp_storage_escrow m)"

lemma spec_NextRef: "(\<And>w. P w \<Longrightarrow> books w) \<Longrightarrow> spec P (onPg NextRef) (\<lambda>ref. on_data (reserved ref)) books"
proof (rule spec_onPg)
  fix w ref c assume "\<And>w. P w \<Longrightarrow> books w" "P w" "NextRef (pgc w) = (Inr ref, c)"
  then show "on_data (reserved ref) (w\<lparr>pgc := c\<rparr>)"
    using NextRef_fresh [of "pgc w"] by (auto simp: on_data_def reserved_def books_def)
next
  fix w e c assume "\<And>w. P w \<Longrightarrow> books w" "P w" and run: "NextRef (pgc w) = (Inl e, c)"
  moreover have "pg_idle (data (pgc w)) (data c)" using NextRef_idle run by (rule stepsD)
  ultimately show "books (w\<lparr>pgc := c\<rparr>)" by (auto simp: books_def intro: trade_inv_idle)
qed

lemma validateCreate_ok:
  assumes "validateCreate i = None"
  shows "0 < ci_Quantity i" "ci_GiveUnitAmount i * ci_Quantity i \<le> max_int32" "0 \<le> ci_GiveUnitAmount i"
    "ci_Kind i \<noteq> KindBuy \<Longrightarrow> 0 < ci_GiveUnitAmount i"
    "0 \<le> ci_WantUnitAmount i" "ci_WantUnitAmount i * ci_Quantity i \<le> max_int32"
    "wrap64 (ci_GiveUnitAmount i * ci_Quantity i) = ci_GiveUnitAmount i * ci_Quantity i"
proof -
  from assms have s: "ScaledCashpointWithinCap (ci_GiveUnitAmount i) (ci_Quantity i)" "0 < ci_Quantity i"
    and w: "ScaledCashpointWithinCap (ci_WantUnitAmount i) (ci_Quantity i)"
    by (auto simp: validateCreate_def validAmountBounds_def split: if_splits)
  from ScaledCashpoint_bound [OF w] show "0 \<le> ci_WantUnitAmount i" "ci_WantUnitAmount i * ci_Quantity i \<le> max_int32" by auto
  from ScaledCashpoint_bound [OF s(1)] show le: "ci_GiveUnitAmount i * ci_Quantity i \<le> max_int32"
    and nn: "0 \<le> ci_GiveUnitAmount i" by auto
  show "0 < ci_Quantity i" by (rule s)
  show "ci_Kind i \<noteq> KindBuy \<Longrightarrow> 0 < ci_GiveUnitAmount i"
    using assms by (auto simp: validateCreate_def validSellOffer_def split: if_splits)
  have "0 \<le> ci_GiveUnitAmount i * ci_Quantity i" using nn s by simp
  then show "wrap64 (ci_GiveUnitAmount i * ci_Quantity i) = ci_GiveUnitAmount i * ci_Quantity i"
    using le by (intro wrap64_nonneg_id) (simp_all add: max_int32_def max_int64_def)
qed

text \<open>The listing as \<open>Create\<close> has built it before its reference is known.\<close>

definition drafted :: "create_input \<Rightarrow> listing \<Rightarrow> bool" where
  "drafted i l \<longleftrightarrow> li_Status l = StatusActive \<and> li_TotalQuantity l = ci_Quantity i \<and>
     li_RemainingQuantity l = ci_Quantity i \<and> li_GiveUnitAmount l = ci_GiveUnitAmount i \<and>
     li_WantUnitAmount l = ci_WantUnitAmount i \<and>
     (li_GiveItem l \<longrightarrow> ci_Kind i \<noteq> KindBuy \<and> (li_Stackable l \<or> ci_Quantity i = 1))"

lemma drafted_new: "drafted i (newListing s now i)"
  by (simp add: drafted_def newListing_def)

lemma prepareGiveItem_drafted:
  assumes "prepareGiveItem s i l c = (Inr l', c')" and "drafted i l" and "ci_Kind i \<noteq> KindBuy"
  shows "drafted i l'"
  using assms by (auto simp: prepareGiveItem_def success_inv Let_def drafted_def)

lemma drafted_ok:
  assumes "drafted i l" and "validateCreate i = None"
  shows "listing_ok (l\<lparr>li_Status := StatusActive\<rparr>)"
  using assms validateCreate_ok [OF assms(2)] by (auto simp: drafted_def listing_ok_def)

definition stocked :: "create_input \<Rightarrow> listing \<Rightarrow> pgdb \<Rightarrow> mydb \<Rightarrow> bool" where
  "stocked i l d m \<longleftrightarrow> trade_inv d m \<and> fresh_ref (li_ID l) d \<and> drafted i l \<and>
     (li_GiveItem l \<longrightarrow> held (li_ID l) m = li_GiveUnitAmount l * li_TotalQuantity l)"

lemma spec_applyGiveSide:
  assumes v: "validateCreate i = None" and l: "drafted i l"
  shows "spec (on_data (reserved (li_ID l))) (applyGiveSide i l) (\<lambda>l'. on_data (stocked i l')) books"
  unfolding applyGiveSide_def
proof (rule spec_then [where R = "on_data (stocked i l)"])
  let ?mv = "\<lparr>em_StashItemID = ci_GiveStashItemID i, em_Amount = wrap64 (ci_GiveUnitAmount i * ci_Quantity i)\<rparr>"
  have amount: "em_Amount ?mv = li_GiveUnitAmount l * li_TotalQuantity l"
    using validateCreate_ok(7) [OF v] l by (simp add: drafted_def)
  show "spec (on_data (reserved (li_ID l))) (if li_GiveItem l then onMy (MoveToEscrow (ci_SellerAccountID i) (li_ID l) [?mv])
      else retE ()) (\<lambda>_. on_data (stocked i l)) books"
  proof (cases "li_GiveItem l")
    case True
    have "spec (on_data (reserved (li_ID l))) (onMy (MoveToEscrow (ci_SellerAccountID i) (li_ID l) [?mv]))
      (\<lambda>_. on_data (stocked i l)) books"
    proof (rule spec_onMy)
      fix w x c assume "on_data (reserved (li_ID l)) w"
        and run: "MoveToEscrow (ci_SellerAccountID i) (li_ID l) [?mv] (myc w) = (Inr x, c)"
      then have pre: "trade_inv (data (pgc w)) (data (myc w))" "fresh_ref (li_ID l) (data (pgc w))"
        "li_ID l \<notin> er_listing_ref ` set (cp_storage_escrow (data (myc w)))"
        by (auto simp: on_data_def reserved_def)
      from MoveToEscrow_inv [OF pre run, of x] pre(2) l amount
      show "on_data (stocked i l) (w\<lparr>myc := c\<rparr>)" by (simp add: on_data_def stocked_def)
    next
      fix w e c assume "on_data (reserved (li_ID l)) w"
        and run: "MoveToEscrow (ci_SellerAccountID i) (li_ID l) [?mv] (myc w) = (Inl e, c)"
      then have pre: "trade_inv (data (pgc w)) (data (myc w))" "fresh_ref (li_ID l) (data (pgc w))"
        "li_ID l \<notin> er_listing_ref ` set (cp_storage_escrow (data (myc w)))"
        by (auto simp: on_data_def reserved_def)
      from MoveToEscrow_inv [OF pre run] show "books (w\<lparr>myc := c\<rparr>)" by (simp add: books_def)
    qed
    with True show ?thesis by simp
  next
    case False
    then show ?thesis using l by (auto intro!: spec_ret simp: on_data_def stocked_def reserved_def)
  qed
  let ?hold = "wallet_Hold (ci_SellerAccountID i) (wrap64 (ci_GiveZeny i * ci_Quantity i)) (wrap64 (ci_GiveCashpoint i * ci_Quantity i))"
  have idle: "pg_idle (data (pgc w)) (data c)" if "?hold (pgc w) = (r, c)" for w r c
    using wallet_Hold_idle that by (rule stepsD)
  have "spec (on_data (stocked i l)) (onPg ?hold) (\<lambda>_. on_data (stocked i l)) books"
    by (rule spec_onPg) (auto simp: on_data_def stocked_def books_def dest!: idle intro: trade_inv_idle fresh_ref_idle)
  then show "spec (on_data (stocked i l)) (if ci_Kind i = KindBuy then bindE (onPg ?hold) (\<lambda>holdID.
      retE (l\<lparr>li_GiveHoldID := Some holdID\<rparr>)) else retE l) (\<lambda>l'. on_data (stocked i l')) books"
    by (auto intro!: spec_bind spec_ret simp: on_data_def stocked_def drafted_def)
qed

lemma spec_Create: "spec books (offer_Create s i) (\<lambda>_. books) books"
proof (cases "validateCreate i")
  case (Some e)
  then show ?thesis by (simp add: offer_Create_def spec_fail)
next
  case v: None
  have idle: "steps pg_idle (wallet_Burn a z c)" for a z c by (rule wallet_Burn_idle)
  have burn: "spec books (onPg (wallet_Burn a z c)) (\<lambda>_. books) books" for a z c
    by (rule spec_onPg) (auto simp: books_def dest!: stepsD [OF idle] intro: trade_inv_idle)
  have prep: "spec books (if ci_Kind i \<noteq> KindBuy then onMy (prepareGiveItem s i (newListing s now i))
      else retE (newListing s now i)) (\<lambda>l w. books w \<and> drafted i l) books" for now
  proof (cases "ci_Kind i = KindBuy")
    case False
    have "spec books (onMy (prepareGiveItem s i (newListing s now i))) (\<lambda>l w. books w \<and> drafted i l) books"
      using reads_same(4) by (intro spec_onMy) (auto simp: books_def dest: query_only
          intro: prepareGiveItem_drafted [OF _ drafted_new False])
    with False show ?thesis by simp
  qed (auto intro: spec_ret drafted_new)
  have create: "spec (on_data (stocked i l)) (onPg (listing_Create l)) (\<lambda>_. books) books" for l
  proof -
    have "trade_inv (data c) (data (myc w))" if "on_data (stocked i l) w" "listing_Create l (pgc w) = (r, c)" for w r c
    proof -
      from that(1) have st: "stocked i l (data (pgc w)) (data (myc w))" by (simp add: on_data_def)
      then have d: "drafted i l" by (simp add: stocked_def)
      show ?thesis
        by (rule listing_Create_inv [OF _ _ drafted_ok [OF d v] _ _ that(2)])
          (use st d in \<open>simp_all add: stocked_def drafted_def\<close>)
    qed
    then show ?thesis by (intro spec_onPg) (auto simp: books_def)
  qed
  have tail: "spec (on_data (stocked i l)) (thenE (onPg (listing_Create l))
      (bindE (tryE (onPg (wallet_Burn a z c))) (\<lambda>_. retE ref))) (\<lambda>_. books) books" for l a z c and ref :: int
  proof (rule spec_then [OF create], rule spec_bind [where R = "\<lambda>_. books"])
    show "spec books (tryE (onPg (wallet_Burn a z c))) (\<lambda>_. books) books"
      by (rule spec_try) (rule spec_conseq [OF burn], auto)
  qed (auto intro: spec_ret)
  have rest: "spec (\<lambda>w. books w \<and> drafted i l) (bindE (onPg NextRef) (\<lambda>ref.
      bindE (applyGiveSide i (l\<lparr>li_ID := ref\<rparr>)) (\<lambda>l'. thenE (onPg (listing_Create l'))
         (bindE (tryE (onPg (wallet_Burn (ci_SellerAccountID i) (fee_FlatZeny (os_fee s)) 0))) (\<lambda>_. retE ref)))))
      (\<lambda>_. books) books" for l
  proof (rule spec_pre [where b = "drafted i l"])
    assume d: "drafted i l"
    show ?thesis
    proof (rule spec_bind [OF spec_NextRef])
      fix ref
      have "drafted i (l\<lparr>li_ID := ref\<rparr>)" using d by (simp add: drafted_def)
      from spec_applyGiveSide [OF v this]
      have "spec (on_data (reserved ref)) (applyGiveSide i (l\<lparr>li_ID := ref\<rparr>)) (\<lambda>l'. on_data (stocked i l')) books" by simp
      then show "spec (on_data (reserved ref)) (bindE (applyGiveSide i (l\<lparr>li_ID := ref\<rparr>)) (\<lambda>l'. thenE (onPg (listing_Create l'))
         (bindE (tryE (onPg (wallet_Burn (ci_SellerAccountID i) (fee_FlatZeny (os_fee s)) 0))) (\<lambda>_. retE ref)))) (\<lambda>_. books) books"
        by (rule spec_bind) (rule tail)
    qed simp
  qed simp
  show ?thesis
    unfolding offer_Create_def v option.case
    by (rule spec_guard, assumption, rule spec_bind, rule spec_clock, rule spec_bind, rule prep, rule rest)
qed

section \<open>Take\<close>

definition listed :: "listing \<Rightarrow> pgdb \<Rightarrow> mydb \<Rightarrow> bool" where
  "listed l d m \<longleftrightarrow> trade_inv d m \<and> l \<in> set (cp_listing d)"

definition readied :: "listing \<Rightarrow> int \<Rightarrow> int \<Rightarrow> pgdb \<Rightarrow> mydb \<Rightarrow> bool" where
  "readied l n ref d m \<longleftrightarrow> listed l d m \<and> (li_WantNameID l \<noteq> 0 \<longrightarrow> escrowed_for l n ref d m)"

text \<open>The stash row the taker named, as \<open>findStashItem\<close> read it.\<close>

definition offered :: "listing \<Rightarrow> int \<Rightarrow> stash_item \<Rightarrow> pgdb \<Rightarrow> mydb \<Rightarrow> bool" where
  "offered l i item d m \<longleftrightarrow> listed l d m \<and> item \<in> set (cp_storage m) \<and> si_ID item = i"

lemma findStashItem_Inr:
  assumes "findStashItem a i s = (Inr item, t)"
  shows "data t = data s \<and> item \<in> set (cp_storage (data s)) \<and> si_ID item = i"
proof -
  from assms obtain v where "find (\<lambda>x. si_ID x = i) (sort_key si_ID (filter (\<lambda>x. si_AccountID x = a) (cp_storage (data s)))) = Some item"
    and "data t = data s"
    by (auto simp: findStashItem_def ListByAccount_def success_inv split: option.splits)
  moreover from find_key_Some [OF this(1)] have "item \<in> set (cp_storage (data s))" "si_ID item = i" by auto
  ultimately show ?thesis by simp
qed

lemma spec_NextRef_listed:
  "spec (on_data (offered l i item)) (onPg NextRef) (\<lambda>ref. on_data (\<lambda>d m. reserved ref d m \<and> offered l i item d m)) books"
proof (rule spec_onPg)
  fix w x c assume w: "on_data (offered l i item) w" and run: "NextRef (pgc w) = (Inr x, c)"
  from NextRef_fresh [OF _ run, of "data (myc w)"] stepsD [OF NextRef_idle run] w
  show "on_data (\<lambda>d m. reserved x d m \<and> offered l i item d m) (w\<lparr>pgc := c\<rparr>)"
    by (auto simp: on_data_def offered_def listed_def reserved_def pg_idle_def)
next
  fix w e c assume w: "on_data (offered l i item) w" and run: "NextRef (pgc w) = (Inl e, c)"
  from stepsD [OF NextRef_idle run] w show "books (w\<lparr>pgc := c\<rparr>)"
    by (auto simp: on_data_def offered_def listed_def books_def intro: trade_inv_idle)
qed

lemma spec_move_reserved:
  assumes mv: "mv = \<lparr>em_StashItemID = i, em_Amount = wrap64 (li_WantUnitAmount l * n)\<rparr>" and name: "si_NameID item = li_WantNameID l"
  shows "spec (on_data (\<lambda>d m. reserved ref d m \<and> offered l i item d m)) (onMy (MoveToEscrow a ref [mv]))
     (\<lambda>_. on_data (readied l n ref)) books"
proof (rule spec_onMy)
  fix w x c assume w: "on_data (\<lambda>d m. reserved ref d m \<and> offered l i item d m) w"
    and run: "MoveToEscrow a ref [mv] (myc w) = (Inr x, c)"
  then have pre: "trade_inv (data (pgc w)) (data (myc w))" "fresh_ref ref (data (pgc w))"
    "ref \<notin> er_listing_ref ` set (cp_storage_escrow (data (myc w)))" and item: "item \<in> set (cp_storage (data (myc w)))" "si_ID item = i"
    and l: "l \<in> set (cp_listing (data (pgc w)))"
    by (auto simp: on_data_def reserved_def offered_def listed_def)
  from MoveToEscrow_inv [OF pre run, of x] obtain r where r: "r \<in> set (cp_storage (data (myc w)))" "si_ID r = em_StashItemID mv"
    "named ref (si_NameID r) (data c) = em_Amount mv" and ok: "trade_inv (data (pgc w)) (data c)" "held ref (data c) = em_Amount mv" "0 < em_Amount mv"
    by auto
  have "uniq si_ID (cp_storage (data (myc w)))" using pre(1) by (simp add: trade_inv_def items_inv_def)
  from uniq_the_row [OF this r(1) item(1)] have "r = item" using r(2) item(2) by (simp add: mv)
  with r(3) ok name pre(2) l show "on_data (readied l n ref) (w\<lparr>myc := c\<rparr>)"
    by (auto simp: on_data_def readied_def listed_def escrowed_for_def fresh_ref_def mv)
next
  fix w e c assume w: "on_data (\<lambda>d m. reserved ref d m \<and> offered l i item d m) w"
    and run: "MoveToEscrow a ref [mv] (myc w) = (Inl e, c)"
  then show "books (w\<lparr>myc := c\<rparr>)"
    using MoveToEscrow_inv [OF _ _ _ run, of "data (pgc w)"]
    by (auto simp: on_data_def reserved_def books_def)
qed

lemma listed_books: "on_data (listed l) w \<Longrightarrow> books w" "listed l d m \<Longrightarrow> trade_inv d m"
  by (simp_all add: on_data_def listed_def books_def)

lemma spec_listed_read:
  "steps (\<lambda>d e. e = d) m \<Longrightarrow> spec (on_data (listed l)) (onMy m) (\<lambda>_. on_data (listed l)) books"
  by (rule spec_read_my) (auto dest: listed_books)

lemma spec_offered_read:
  "steps (\<lambda>d e. e = d) m \<Longrightarrow> spec (on_data (offered l i item)) (onMy m) (\<lambda>_. on_data (offered l i item)) books"
  by (rule spec_read_my) (auto simp: offered_def dest: listed_books)

lemma spec_find_offered:
  "spec (on_data (listed l)) (onMy (findStashItem a i)) (\<lambda>item. on_data (offered l i item)) books"
  using query_only [OF _ reads_same(2)]
  by (intro spec_onMy) (auto simp: on_data_def offered_def listed_def books_def dest!: findStashItem_Inr)

lemma spec_prepareTake: "spec (on_data (listed l)) (prepareTake s l i) (\<lambda>ref. on_data (readied l (ti_Units i) ref)) books"
  unfolding prepareTake_def
proof (rule spec_then [where R = "on_data (listed l)"])
  show "spec (on_data (listed l)) (if li_GiveItem l then let amount = wrap64 (li_GiveUnitAmount l * ti_Units i);
        giveSnapshot = empty_item\<lparr>si_NameID := li_GiveNameID l, si_Refine := li_GiveRefine l,
          si_Grade := li_GiveGrade l, si_Card := li_GiveCard l, si_Amount := amount\<rparr>
      in onMy (ensureCapacity s (ti_TakerAccountID i) giveSnapshot amount) else retE ())
    (\<lambda>_. on_data (listed l)) books"
    using spec_listed_read [OF reads_same(3)] by (auto simp: Let_def intro: spec_ret)
  show "spec (on_data (listed l)) (if li_WantNameID l = 0 then retE 0
      else bindE (onMy (IsLocked (ti_TakerAccountID i))) (\<lambda>takerLocked.
        guardE (\<not> takerLocked) (Market ErrStorageUnlocked) (escrowTakerWant s l i)))
    (\<lambda>ref. on_data (readied l (ti_Units i) ref)) books"
  proof (cases "li_WantNameID l = 0")
    case True
    then show ?thesis by (auto intro!: spec_ret simp: readied_def on_data_def)
  next
    case False
    have "spec (on_data (listed l)) (escrowTakerWant s l i) (\<lambda>ref. on_data (readied l (ti_Units i) ref)) books"
      unfolding escrowTakerWant_def Let_def
    proof (rule spec_bind [OF spec_find_offered], rule spec_guard)
      fix item :: stash_item
      let ?i = "ti_TakerStashItemID i"
      let ?n = "wrap64 (li_WantUnitAmount l * ti_Units i)"
      let ?sn = "empty_item\<lparr>si_NameID := si_NameID item, si_Refine := si_Refine item,
            si_Grade := si_Grade item, si_Card := si_Card item, si_Amount := ?n\<rparr>"
      assume "\<not> \<not> want_Matches (listing_WantSpec l) item ?n"
      then have name: "si_NameID item = li_WantNameID l" by (auto simp: want_Matches_def listing_WantSpec_def split: if_splits)
      have tail: "spec (on_data (\<lambda>d m. reserved ref d m \<and> offered l ?i item d m))
        (thenE (onMy (MoveToEscrow (ti_TakerAccountID i) ref [\<lparr>em_StashItemID = ?i, em_Amount = ?n\<rparr>])) (retE ref))
        (\<lambda>ref. on_data (readied l (ti_Units i) ref)) books" for ref
        by (rule spec_then [OF spec_move_reserved [OF refl name]]) (auto intro: spec_ret)
      show "spec (on_data (offered l ?i item)) (thenE (onMy (ensureCapacity s (li_SellerAccountID l) ?sn ?n))
         (bindE (onPg NextRef) (\<lambda>ref. thenE (onMy (MoveToEscrow (ti_TakerAccountID i) ref
              [\<lparr>em_StashItemID = ti_TakerStashItemID i, em_Amount = ?n\<rparr>])) (retE ref))))
         (\<lambda>ref. on_data (readied l (ti_Units i) ref)) books"
        by (rule spec_then [OF spec_offered_read [OF reads_same(3)]], rule spec_bind [OF spec_NextRef_listed], rule tail)
    qed (auto simp: on_data_def offered_def books_def listed_def)
    then have "spec (on_data (listed l)) (bindE (onMy (IsLocked (ti_TakerAccountID i))) (\<lambda>takerLocked.
        guardE (\<not> takerLocked) (Market ErrStorageUnlocked) (escrowTakerWant s l i)))
       (\<lambda>ref. on_data (readied l (ti_Units i) ref)) books"
      by (intro spec_bind [OF spec_listed_read [OF reads_same(1)]] spec_guard) (auto dest: listed_books)
    with False show ?thesis by simp
  qed
qed

lemma spec_Take: "spec books (offer_Take s i) (\<lambda>_. books) books"
  unfolding offer_Take_def
proof (rule spec_bind [where R = "\<lambda>l w. on_data (listed l) w \<and> li_ID l = ti_ListingID i"])
  show "spec books (onPg (listing_Get (ti_ListingID i))) (\<lambda>l w. on_data (listed l) w \<and> li_ID l = ti_ListingID i) books"
    using query_only [OF _ pg_reads_same(1)]
    by (intro spec_onPg) (auto simp: books_def on_data_def listed_def dest!: listing_Get_Inr dest: find_key_Some)
  fix l
  show "spec (\<lambda>w. on_data (listed l) w \<and> li_ID l = ti_ListingID i) (case validateTake l i of Some e \<Rightarrow> failE (Market e)
     | None \<Rightarrow> bindE (prepareTake s l i) (\<lambda>ref. onPg (takeTx s l i ref))) (\<lambda>_. books) books"
  proof (rule spec_pre [where b = "li_ID l = ti_ListingID i"])
    assume id: "li_ID l = ti_ListingID i"
    have tx: "spec (on_data (readied l (ti_Units i) ref)) (onPg (takeTx s l i ref)) (\<lambda>_. books) books" for ref
    proof -
      have "trade_inv (data c) (data (myc w))" if "on_data (readied l (ti_Units i) ref) w" "takeTx s l i ref (pgc w) = (r, c)" for w r c
        by (rule takeTx_inv [OF _ _ id _ that(2)]) (use that(1) in \<open>auto simp: on_data_def readied_def listed_def\<close>)
      then show ?thesis by (intro spec_onPg) (auto simp: books_def)
    qed
    have go: "spec (on_data (listed l)) (bindE (prepareTake s l i) (\<lambda>ref. onPg (takeTx s l i ref))) (\<lambda>_. books) books"
      by (rule spec_bind [OF spec_prepareTake tx])
    show ?thesis
    proof (cases "validateTake l i")
      case None
      then show ?thesis by (simp, intro spec_conseq [OF go]) auto
    next
      case (Some e)
      then show ?thesis by (auto intro!: spec_fail dest: listed_books)
    qed
  qed simp
qed

section \<open>Cancel and Expire\<close>

lemma spec_Cancel: "spec books (offer_Cancel i a) (\<lambda>_. books) books"
proof -
  have "trade_inv (data c) (data (myc w))"
    if w: "books w" and run: "bindE (cancelRead i a) (\<lambda>l. closeTx l StatusCancelled) (pgc w) = (r, c)" for w r c
  proof (cases "cancelRead i a (pgc w)")
    case (Pair x u)
    then have u: "data u = data (pgc w)" using pg_reads_same(6) by (rule query_only)
    show ?thesis
    proof (cases x)
      case (Inl e)
      with Pair run u w show ?thesis by (simp add: bindE_def books_def)
    next
      case (Inr l)
      with Pair run have close: "closeTx l StatusCancelled u = (r, c)" by (simp add: bindE_def)
      from Pair Inr have l: "l \<in> set (cp_listing (data (pgc w)))" "li_Status l = StatusActive"
        by (auto simp: cancelRead_def bindE_Inr guardE_Inr retE_Inr dest!: listing_Get_Inr dest: find_key_Some)
      show ?thesis
        by (rule closeTx_inv [OF _ _ l(2) _ close]) (use w u l in \<open>simp_all add: books_def market_consts\<close>)
    qed
  qed
  then show ?thesis unfolding offer_Cancel_def by (intro spec_onPg) (auto simp: books_def)
qed

definition other_rows :: "int \<Rightarrow> pgdb \<Rightarrow> pgdb \<Rightarrow> bool" where
  "other_rows k d e \<longleftrightarrow> (\<forall>q \<in> set (cp_listing d). li_ID q \<noteq> k \<longrightarrow> q \<in> set (cp_listing e))"

interpretation others: store pg_rb "other_rows k" for k
  by unfold_locales (auto simp: pg_rb_def other_rows_def)

lemma closeTx_others: "steps (other_rows (li_ID l)) (closeTx l st)"
proof -
  have release: "steps (other_rows k) (ReleaseTx h)" for k h
    using ReleaseTx_idle [of h] unfolding steps_def pg_idle_def other_rows_def by simp
  have "steps (other_rows (li_ID l)) (closeListingTx l st)"
    unfolding closeListingTx_def SetStatusTx_def EnqueueTx_def
    by (auto intro!: others.grows_then others.grows_exec release split: option.split
        simp: other_rows_def set_upd_where Let_def)
  then show ?thesis unfolding closeTx_def pgTx_def by (rule others.tx_steps)
qed

definition due_ok :: "listing list \<Rightarrow> pgdb \<Rightarrow> mydb \<Rightarrow> bool" where
  "due_ok ls d m \<longleftrightarrow> trade_inv d m \<and> uniq li_ID ls \<and>
     (\<forall>l \<in> set ls. l \<in> set (cp_listing d) \<and> li_Status l = StatusActive)"

lemma expire_one:
  assumes "due_ok (l # ls) (data s) m" and run: "expireListing l s = (r, t)"
  shows "due_ok ls (data t) m"
proof -
  from run have run: "closeTx l StatusExpired s = (r, t)" by (simp add: expireListing_def)
  have "trade_inv (data t) m"
    by (rule closeTx_inv [OF _ _ _ _ run]) (use assms(1) in \<open>simp_all add: due_ok_def market_consts\<close>)
  moreover have "other_rows (li_ID l) (data s) (data t)" using closeTx_others run by (rule stepsD)
  moreover have "li_ID q \<noteq> li_ID l" if "q \<in> set ls" for q
    using assms(1) that by (metis due_ok_def imageI uniq_simps(2))
  ultimately show ?thesis using assms(1) by (auto simp: due_ok_def other_rows_def)
qed

lemma spec_expireAll: "spec (on_data (due_ok ls)) (expireAll ls n) (\<lambda>_. books) books"
proof (induction ls arbitrary: n)
  case Nil
  then show ?case by (auto intro!: spec_ret simp: on_data_def due_ok_def books_def)
next
  case (Cons l ls)
  have one: "spec (on_data (due_ok (l # ls))) (onPg (expireListing l)) (\<lambda>_. on_data (due_ok ls)) (on_data (due_ok ls))"
    using expire_one by (intro spec_onPg) (fastforce simp: on_data_def)+
  show ?case
    unfolding expireAll.simps
  proof (rule spec_bind [where R = "\<lambda>_. on_data (due_ok ls)"])
    show "spec (on_data (due_ok (l # ls))) (tryE (onPg (expireListing l))) (\<lambda>_. on_data (due_ok ls)) books"
      by (rule spec_try) (rule spec_conseq [OF one], auto)
    show "spec (on_data (due_ok ls)) (case r of Inl _ \<Rightarrow> expireAll ls n | Inr _ \<Rightarrow> expireAll ls (n + 1))
      (\<lambda>_. books) books" for r
      by (cases r) (simp_all add: Cons.IH)
  qed
qed

lemma spec_Expire: "spec books (workers_Expire w) (\<lambda>_. books) books"
proof -
  have due: "due_ok ls (data c) (data (myc x))"
    if "books x" and run: "DueForExpiry now n (pgc x) = (Inr ls, c)" for x now n ls c
  proof -
    let ?F = "filter (\<lambda>l. li_Status l = 1 \<and> li_ExpiresAt l < now) (cp_listing (data (pgc x)))"
    from run have c: "data c = data (pgc x)" and ls: "ls = take (nat n) (sort_key li_ExpiresAt ?F)"
      by (auto simp: DueForExpiry_def sql_Inr split: if_splits)
    have "set ls \<subseteq> set ?F" unfolding ls using set_take_subset [of "nat n" "sort_key li_ExpiresAt ?F"] by simp
    moreover have "uniq li_ID ls"
    proof -
      have "distinct (map li_ID (cp_listing (data (pgc x))))"
        using that(1) by (simp add: books_def trade_inv_def book_def uniq_def)
      then have "distinct (map li_ID ?F)" by (rule distinct_map_filter)
      then have "distinct (map li_ID (sort_key li_ExpiresAt ?F))"
        by (simp add: distinct_map)
      then have "distinct (take (nat n) (map li_ID (sort_key li_ExpiresAt ?F)))" by (rule distinct_take)
      then show ?thesis by (simp add: uniq_def ls take_map)
    qed
    ultimately show ?thesis using that(1) by (auto simp: due_ok_def c books_def market_consts)
  qed
  have read: "spec books (onPg (DueForExpiry now n)) (\<lambda>ls. on_data (due_ok ls)) books" for now n
    using due query_only [OF _ pg_reads_same(5)] by (intro spec_onPg) (auto simp: on_data_def books_def)
  show ?thesis
    unfolding workers_Expire_def
    by (rule spec_bind, rule spec_clock, rule spec_bind, rule read, rule spec_expireAll)
qed

section \<open>Deliver\<close>

definition legs_ok :: "settlement_leg list \<Rightarrow> pgdb \<Rightarrow> mydb \<Rightarrow> bool" where
  "legs_ok gs d m \<longleftrightarrow> trade_inv d m \<and> set gs \<subseteq> se_leg ` set (cp_settlement d)"

lemma MarkDone_legs: "steps (\<lambda>d e. se_leg ` set (cp_settlement e) = se_leg ` set (cp_settlement d)) (MarkDone i)"
proof -
  have "map se_leg (upd_where (\<lambda>s. leg_ID (se_leg s) = i) (\<lambda>s. s\<lparr>se_status := 2\<rparr>) t) = map se_leg t" for t
    by (rule keys_upd_where) simp
  then have "se_leg ` set (upd_where (\<lambda>s. leg_ID (se_leg s) = i) (\<lambda>s. s\<lparr>se_status := 2\<rparr>) t) = se_leg ` set t" for t
    by (metis set_map)
  then show ?thesis unfolding MarkDone_def by (intro steps_exec) simp_all
qed

lemma deliverLeg_applied:
  assumes inv: "trade_inv d (data s)" and x: "x \<in> set (cp_settlement d)" and g: "g = se_leg x"
    and mx: "0 < MaxStack (wk_escrow w)" and run: "deliverLeg w g s = (Inr u, t)"
  shows "leg_ID g \<in> set (cp_delivery_applied (data t))"
proof -
  have it: "items_inv (data s)" and nz: "leg_ID g \<noteq> 0"
    using inv x g by (auto simp: trade_inv_def book_def leg_ok_def)
  have made: "leg_ID g \<in> set (cp_delivery_applied n)" if "delivered ms k F G (leg_ID g) m n" for ms k F G m n
    using that nz by (auto simp: delivered_def shifts_def)
  show ?thesis
  proof (cases "leg_Whole g")
    case True
    with run have "drainEscrow (wk_escrow w) (leg_EscrowRef g) (leg_RecipientAccountID g) (leg_ID g) s = (Inr u, t)"
      by (simp add: deliverLeg_def escrow_Deliver_def)
    from drainEscrow_simulates [OF it this mx] show ?thesis by (auto dest: made)
  next
    case False
    with run have "DeliverPartial (wk_escrow w) (leg_EscrowRef g) (leg_RecipientAccountID g) (leg_DeliverAmount g) (leg_ID g) s = (Inr u, t)"
      by (simp add: deliverLeg_def)
    from DeliverPartial_simulates [OF it this mx] show ?thesis by (auto dest: made)
  qed
qed

lemma spec_deliverLegs:
  assumes mx: "0 < MaxStack (wk_escrow w)"
  shows "spec (on_data (legs_ok gs)) (deliverLegs w gs n) (\<lambda>_. books) books"
proof (induction gs arbitrary: n)
  case Nil
  then show ?case by (auto intro!: spec_ret simp: on_data_def legs_ok_def books_def)
next
  case (Cons g gs)
  let ?made = "\<lambda>d m. legs_ok gs d m \<and> leg_ID g \<in> set (cp_delivery_applied m)"
  have one: "spec (on_data (legs_ok (g # gs))) (onMy (deliverLeg w g)) (\<lambda>_. on_data ?made) (on_data (legs_ok gs))"
  proof -
    have "on_data (legs_ok gs) (x\<lparr>myc := c\<rparr>) \<and> (\<forall>u. r = Inr u \<longrightarrow> leg_ID g \<in> set (cp_delivery_applied (data c)))"
      if "on_data (legs_ok (g # gs)) x" and run: "deliverLeg w g (myc x) = (r, c)" for x r c
    proof -
      from that(1) obtain s where s: "s \<in> set (cp_settlement (data (pgc x)))" "g = se_leg s"
        and inv: "trade_inv (data (pgc x)) (data (myc x))"
        by (auto simp: on_data_def legs_ok_def)
      from deliverLeg_inv [OF inv s mx run] deliverLeg_applied [OF inv s mx] run that(1)
      show ?thesis by (auto simp: on_data_def legs_ok_def)
    qed
    then show ?thesis by (intro spec_onMy) (auto simp: on_data_def)
  qed
  have mark: "spec (on_data ?made) (onPg (MarkDone (leg_ID g))) (\<lambda>_. on_data (legs_ok gs)) (on_data (legs_ok gs))"
    using MarkDone_inv stepsD [OF MarkDone_legs] by (intro spec_onPg) (fastforce simp: on_data_def legs_ok_def)+
  have marked: "spec (on_data ?made) (tryE (onPg (MarkDone (leg_ID g)))) (\<lambda>_. on_data (legs_ok gs)) books"
    by (rule spec_try) (rule spec_conseq [OF mark], auto)
  have rest: "spec (on_data (legs_ok gs)) (case m of Inl _ \<Rightarrow> deliverLegs w gs n | Inr _ \<Rightarrow> deliverLegs w gs (n + 1))
      (\<lambda>_. books) books" for m :: "err + unit"
    by (cases m) (simp_all add: Cons.IH)
  show ?case
    unfolding deliverLegs.simps
  proof (rule spec_bind [where R = "\<lambda>r. case r of Inl _ \<Rightarrow> on_data (legs_ok gs) | Inr _ \<Rightarrow> on_data ?made"])
    show "spec (on_data (legs_ok (g # gs))) (tryE (onMy (deliverLeg w g)))
      (\<lambda>r. case r of Inl _ \<Rightarrow> on_data (legs_ok gs) | Inr _ \<Rightarrow> on_data ?made) books"
      by (rule spec_try) (rule spec_conseq [OF one], auto)
    fix r :: "err + unit"
    have "spec (on_data ?made) (bindE (tryE (onPg (MarkDone (leg_ID g)))) (\<lambda>m.
        case m of Inl _ \<Rightarrow> deliverLegs w gs n | Inr _ \<Rightarrow> deliverLegs w gs (n + 1))) (\<lambda>_. books) books"
      by (rule spec_bind [OF marked rest])
    then show "spec (case r of Inl _ \<Rightarrow> on_data (legs_ok gs) | Inr _ \<Rightarrow> on_data ?made) (case r of Inl _ \<Rightarrow> deliverLegs w gs n
       | Inr _ \<Rightarrow> bindE (tryE (onPg (MarkDone (leg_ID g)))) (\<lambda>m.
           case m of Inl _ \<Rightarrow> deliverLegs w gs n | Inr _ \<Rightarrow> deliverLegs w gs (n + 1))) (\<lambda>_. books) books"
      by (cases r) (simp_all add: Cons.IH)
  qed
qed

lemma Pending_legs:
  assumes "Pending n s = (Inr gs, t)"
  shows "data t = data s \<and> set gs \<subseteq> se_leg ` {x \<in> set (cp_settlement (data s)). se_status x = 1}"
proof -
  let ?L = "sort_key leg_ID (map se_leg (filter (\<lambda>s. se_status s = 1) (cp_settlement (data s))))"
  from assms have "gs = take (nat n) ?L" "data t = data s" by (auto simp: Pending_def sql_Inr split: if_splits)
  moreover have "set (take (nat n) ?L) \<subseteq> set ?L" by (rule set_take_subset)
  ultimately show ?thesis by auto
qed

lemma spec_Deliver:
  assumes "0 < MaxStack (wk_escrow w)"
  shows "spec books (workers_Deliver w) (\<lambda>_. books) books"
proof -
  have "spec books (onPg (Pending (wk_batch w))) (\<lambda>gs. on_data (legs_ok gs)) books"
    using query_only [OF _ pg_reads_same(2)]
    by (intro spec_onPg) (fastforce simp: books_def on_data_def legs_ok_def dest!: Pending_legs)+
  then show ?thesis
    unfolding workers_Deliver_def by (rule spec_bind) (rule spec_deliverLegs [OF assms])
qed

section \<open>Reconcile\<close>

definition read_only :: "'a app \<Rightarrow> bool" where
  "read_only m \<longleftrightarrow> (\<forall>w. data (pgc (snd (m w))) = data (pgc w) \<and> data (myc (snd (m w))) = data (myc w))"

lemma spec_read_only: "read_only m \<Longrightarrow> spec (on_data I) m (\<lambda>_. on_data I) (on_data I)"
  unfolding read_only_def by (rule specI) (metis on_data_def snd_conv)+

lemma read_only_onPg: "steps (\<lambda>d e. e = d) m \<Longrightarrow> read_only (onPg m)"
  by (auto simp: read_only_def onPg_def steps_def split: prod.split) (metis snd_conv)

lemma read_only_bind: "read_only m \<Longrightarrow> (\<And>x. read_only (f x)) \<Longrightarrow> read_only (bindE m f)"
proof -
  assume m: "read_only m" and f: "\<And>x. read_only (f x)"
  show "read_only (bindE m f)"
    unfolding read_only_def
  proof
    fix w obtain r v where v: "m w = (r, v)" by fastforce
    with m have "data (pgc v) = data (pgc w)" "data (myc v) = data (myc w)" unfolding read_only_def by (metis snd_conv)+
    with v f show "data (pgc (snd (bindE m f w))) = data (pgc w) \<and> data (myc (snd (bindE m f w))) = data (myc w)"
      by (cases r) (auto simp: bindE_def read_only_def)
  qed
qed

lemma read_only_ret: "read_only (retE x)"
  by (simp add: read_only_def retE_def)

lemma allSourceRefs_read: "\<forall>src \<in> set srcs. read_only src \<Longrightarrow> read_only (allSourceRefs srcs)"
  by (induction srcs) (auto intro!: read_only_bind read_only_ret)

lemma PendingRefs_Inr:
  "PendingRefs s = (Inr refs, t) \<Longrightarrow>
   set refs = (\<lambda>x. leg_EscrowRef (se_leg x)) ` {x \<in> set (cp_settlement (data s)). se_status x = 1} \<and> data t = data s"
  by (auto simp: PendingRefs_def query_Inr)

lemma AllRefs_Inr: "AllRefs s = (Inr refs, t) \<Longrightarrow> set refs = li_ID ` set (cp_listing (data s)) \<and> data t = data s"
  by (auto simp: AllRefs_def query_Inr)

definition unlisted :: "int list \<Rightarrow> pgdb \<Rightarrow> mydb \<Rightarrow> bool" where
  "unlisted known d m \<longleftrightarrow> trade_inv d m \<and> li_ID ` set (cp_listing d) \<subseteq> set known"

definition unknown :: "int list \<Rightarrow> pgdb \<Rightarrow> mydb \<Rightarrow> bool" where
  "unknown known d m \<longleftrightarrow> unlisted known d m \<and>
     (\<forall>x \<in> set (cp_settlement d). se_status x = 1 \<longrightarrow> leg_EscrowRef (se_leg x) \<in> set known)"

lemma spec_knownRefs:
  assumes src: "\<forall>src \<in> set (wk_extraRefs w). read_only src"
  shows "spec books (knownRefs w) (\<lambda>known. on_data (unknown known)) books"
proof -
  have all: "spec books (onPg AllRefs) (\<lambda>refs. on_data (unlisted refs)) books"
    using query_only [OF _ pg_reads_same(3)]
    by (intro spec_onPg) (auto simp: books_def on_data_def unlisted_def dest!: AllRefs_Inr)
  have keep: "spec (on_data (unlisted refs)) m (\<lambda>_. on_data (unlisted refs)) books" if "read_only m" for m :: "'a app" and refs
    by (rule spec_conseq [OF spec_read_only [OF that, where I = "unlisted refs"]]) (auto simp: on_data_def unlisted_def books_def)
  have "spec books (allSourceRefs (onPg AllRefs # wk_extraRefs w)) (\<lambda>known. on_data (unlisted known)) books"
    unfolding allSourceRefs.simps
    by (rule spec_bind [OF all], rule spec_bind, rule keep [OF allSourceRefs_read [OF src]], rule spec_ret)
      (auto simp: on_data_def unlisted_def)
  moreover have pend: "spec (on_data (unlisted known)) (onPg PendingRefs) (\<lambda>p. on_data (unknown (known @ p))) books" for known
    using query_only [OF _ pg_reads_same(4)]
    by (intro spec_onPg) (fastforce simp: on_data_def unknown_def unlisted_def books_def dest!: PendingRefs_Inr)+
  ultimately show ?thesis
    unfolding knownRefs_def by - (rule spec_bind, assumption, rule spec_bind [OF pend], rule spec_ret)
qed

lemma spec_returnOrphans:
  assumes mx: "0 < MaxStack (wk_escrow w)"
  shows "spec (on_data (unknown known)) (returnOrphans w known refs n) (\<lambda>_. books) books"
proof (induction refs arbitrary: n)
  case Nil
  then show ?case by (auto intro!: spec_ret simp: on_data_def unknown_def unlisted_def books_def)
next
  case (Cons ref refs)
  show ?case
  proof (cases "ref \<in> set known")
    case True
    with Cons show ?thesis by simp
  next
    case False
    have returned: "spec (on_data (unknown known)) (onMy (ReturnToStash (wk_escrow w) ref))
        (\<lambda>_. on_data (unknown known)) (on_data (unknown known))"
    proof -
      have "on_data (unknown known) (x\<lparr>myc := c\<rparr>)"
        if "on_data (unknown known) x" "ReturnToStash (wk_escrow w) ref (myc x) = (r, c)" for x r c
      proof -
        from that(1) False have "ref \<notin> li_ID ` set (cp_listing (data (pgc x)))"
          "\<forall>y \<in> set (cp_settlement (data (pgc x))). se_status y = 1 \<longrightarrow> leg_EscrowRef (se_leg y) \<noteq> ref"
          by (auto simp: on_data_def unknown_def unlisted_def)
        with that ReturnToStash_inv [OF _ this mx that(2)] show ?thesis by (simp add: on_data_def unknown_def unlisted_def)
      qed
      then show ?thesis by (intro spec_onMy) auto
    qed
    have "spec (on_data (unknown known)) (returnOrphan w ref) (\<lambda>_. on_data (unknown known)) books"
      unfolding returnOrphan_def
    proof (rule spec_bind [where R = "\<lambda>_. on_data (unknown known)"])
      show "spec (on_data (unknown known)) (tryE (onMy (ReturnToStash (wk_escrow w) ref)))
          (\<lambda>_. on_data (unknown known)) books"
        by (rule spec_try) (rule spec_conseq [OF returned], auto)
    qed (auto intro: spec_ret split: sum.split)
    then have "spec (on_data (unknown known)) (bindE (returnOrphan w ref)
        (\<lambda>ok. returnOrphans w known refs (if ok then n + 1 else n))) (\<lambda>_. books) books"
      by (rule spec_bind) (rule Cons.IH)
    with False show ?thesis by simp
  qed
qed

lemma spec_Reconcile:
  assumes "0 < MaxStack (wk_escrow w)" and "\<forall>src \<in> set (wk_extraRefs w). read_only src"
  shows "spec books (workers_Reconcile w) (\<lambda>_. books) books"
proof -
  have orphans: "spec books (onMy (OrphanRefs b)) (\<lambda>_. books) books" for b
    using query_only [OF _ reads_same(5)] by (intro spec_onMy) (auto simp: books_def)
  have "spec books (bindE (knownRefs w) (\<lambda>known. returnOrphans w known os 0)) (\<lambda>_. books) books" for os
    by (rule spec_bind [OF spec_knownRefs [OF assms(2)] spec_returnOrphans [OF assms(1)]])
  then show ?thesis
    unfolding workers_Reconcile_def
    by (intro spec_bind [where R = "\<lambda>_. books"] spec_clock orphans) (auto intro: spec_ret)
qed

section \<open>Every history\<close>

datatype market_call =
    Create_call create_input
  | Take_call take_input
  | Cancel_call int int
  | Deliver_call
  | Reconcile_call
  | Expire_call

definition discard :: "'a app \<Rightarrow> unit app" where
  "discard m = bindE m (\<lambda>_. retE ())"

primrec market_run :: "offer_service \<Rightarrow> workers \<Rightarrow> market_call \<Rightarrow> unit app" where
  "market_run s wk (Create_call i) = discard (offer_Create s i)"
| "market_run s wk (Take_call i) = offer_Take s i"
| "market_run s wk (Cancel_call i a) = offer_Cancel i a"
| "market_run s wk Deliver_call = discard (workers_Deliver wk)"
| "market_run s wk Reconcile_call = discard (workers_Reconcile wk)"
| "market_run s wk Expire_call = discard (workers_Expire wk)"

text \<open>
  Between calls the clock moves, new faults are drawn, the game server changes stashes and
  locks (never the escrow or the applied legs), other features change Postgres tables the
  market does not own.
\<close>

inductive market_step :: "offer_service \<Rightarrow> workers \<Rightarrow> world \<Rightarrow> world \<Rightarrow> bool"
  for s :: offer_service and wk :: workers where
  call: "market_step s wk w (snd (market_run s wk c w))"
| game: "my_idle (data (myc w)) n \<Longrightarrow> market_step s wk w (w\<lparr>myc := (myc w)\<lparr>data := n\<rparr>\<rparr>)"
| other: "pg_idle (data (pgc w)) d \<Longrightarrow> market_step s wk w (w\<lparr>pgc := (pgc w)\<lparr>data := d\<rparr>\<rparr>)"
| network: "market_step s wk w (w\<lparr>app_now := n, pgc := (pgc w)\<lparr>faults := f\<rparr>, myc := (myc w)\<lparr>faults := g\<rparr>\<rparr>)"

definition market_start :: "world \<Rightarrow> bool" where
  "market_start w \<longleftrightarrow> cp_listing (data (pgc w)) = [] \<and> cp_settlement (data (pgc w)) = [] \<and>
     0 \<le> ref_seq (pg_seq (data (pgc w))) \<and> 0 \<le> settle_seq (pg_seq (data (pgc w))) \<and>
     cp_storage_escrow (data (myc w)) = [] \<and> cp_delivery_applied (data (myc w)) = [] \<and> items_inv (data (myc w))"

lemma start_books: "market_start w \<Longrightarrow> books w"
  by (simp add: market_start_def books_def trade_inv_def book_def cross_def wants_def own_refs_def)

lemma spec_discard: "spec P m (\<lambda>_. Q) E \<Longrightarrow> spec P (discard m) (\<lambda>_. Q) E"
  unfolding discard_def by (rule spec_bind) (auto intro: spec_ret)

lemma market_run_books:
  assumes "0 < MaxStack (wk_escrow wk)" and "\<forall>src \<in> set (wk_extraRefs wk). read_only src"
  shows "spec books (market_run s wk c) (\<lambda>_. books) books"
  by (cases c) (simp_all add: spec_discard spec_Create spec_Take spec_Cancel spec_Expire
      spec_Deliver [OF assms(1)] spec_Reconcile [OF assms])

lemma market_step_books:
  assumes "market_step s wk w v" and "books w" and mx: "0 < MaxStack (wk_escrow wk)"
    and src: "\<forall>src \<in> set (wk_extraRefs wk). read_only src"
  shows "books v"
  using assms(1,2)
proof (induction rule: market_step.induct)
  case (call w c)
  obtain r v where "market_run s wk c w = (r, v)" by fastforce
  with specD [OF market_run_books [OF mx src] call this] show ?case by (cases r) auto
qed (auto simp: books_def intro: trade_inv_my_idle trade_inv_idle)

lemma reachable_books:
  assumes "(market_step s wk)\<^sup>*\<^sup>* w v" and "market_start w" and "0 < MaxStack (wk_escrow wk)"
    and "\<forall>src \<in> set (wk_extraRefs wk). read_only src"
  shows "books v"
  using assms(1)
  by (induction rule: rtranclp_induct) (use assms(2-4) start_books market_step_books in blast)+

end
