(* ===== verification/Market_Progress.thy ===== *)
theory Market_Progress
  imports Market_Safety
begin

text \<open>
  What happens on a connection without faults: every statement returns its result. An owed
  delivery then succeeds whenever the recipient's stash is locked and has room.
\<close>

section \<open>Room in the stash\<close>

definition slots_needed :: "int \<Rightarrow> int \<Rightarrow> int" where
  "slots_needed n mx = (n + mx - 1) div mx"

lemma slots_needed_step:
  assumes "0 < mx" and "0 < n"
  shows "1 \<le> slots_needed n mx" and "mx < n \<Longrightarrow> slots_needed (n - mx) mx = slots_needed n mx - 1"
proof -
  have "mx div mx \<le> (n + mx - 1) div mx" using assms by (intro zdiv_mono1) auto
  then show "1 \<le> slots_needed n mx" using assms by (simp add: slots_needed_def)
  have "(n - mx + mx - 1) div mx = (n + mx - 1) div mx - 1"
  proof -
    have "n + mx - 1 = (n - mx + mx - 1) + mx" by simp
    then have "(n + mx - 1) div mx = (n - mx + mx - 1) div mx + 1" using assms(1) by (metis div_add_self2 less_irrefl)
    then show ?thesis by simp
  qed
  then show "slots_needed (n - mx) mx = slots_needed n mx - 1" by (simp add: slots_needed_def)
qed

lemma slots_needed_mono: "0 < mx \<Longrightarrow> m \<le> n \<Longrightarrow> slots_needed m mx \<le> slots_needed n mx"
  unfolding slots_needed_def by (rule zdiv_mono1) auto

lemma insertStashRow_returns:
  assumes "faults s = []" and "0 \<le> n" and "n \<le> 65535"
  obtains t where "returns (insertStashRow item n) s () t"
    and "slots_used a (data t) = slots_used a (data s) + (if si_AccountID item = a then 1 else 0)"
  using assms
  by (fastforce simp: returns_def insertStashRow_def exec_opt_def sql_def Let_def ins_checked_def amount_check_def
      no_fault slots_used_def)

lemma insertStashChunks_returns:
  assumes "faults s = []" and "n \<le> 65535" and "0 < mx" and "slots_used a (data s) + slots_needed n mx \<le> ms"
  shows "\<exists>t. returns (insertStashChunks a item n ms mx) s () t"
  using assms
proof (induction a item n ms mx s rule: insertStashChunks.induct)
  case (1 a item n ms mx s)
  note unfold = insertStashChunks.simps [of a item n ms mx s]
  show ?case
  proof (cases "n > 0")
    case False
    with "1.prems" show ?thesis by (simp add: returns_def unfold)
  next
    case True
    let ?chunk = "if IsStackable item \<and> n > mx then mx else n" and ?item = "item\<lparr>si_AccountID := a\<rparr>"
    have q: "query Sql (slots_used a) s = (Inr (slots_used a (data s)), s)"
      using "1.prems" by (simp add: clean_query)
    have room: "\<not> slots_used a (data s) \<ge> ms"
      using slots_needed_step(1) [OF \<open>0 < mx\<close> True] "1.prems" by simp
    have "0 \<le> ?chunk" "?chunk \<le> 65535" using True "1.prems" by auto
    with "1.prems"(1) obtain s2 where ins: "returns (insertStashRow ?item ?chunk) s () s2"
      and used: "slots_used a (data s2) = slots_used a (data s) + 1"
      by (rule insertStashRow_returns [where item = ?item and a = a]) simp
    have less: "slots_needed (n - ?chunk) mx \<le> slots_needed n mx - 1"
    proof (cases "IsStackable item \<and> n > mx")
      case True
      then show ?thesis using slots_needed_step(2) [OF \<open>0 < mx\<close> \<open>n > 0\<close>] by simp
    next
      case False
      have "slots_needed 0 mx = 0" using \<open>0 < mx\<close> by (simp add: slots_needed_def)
      with False slots_needed_step(1) [OF \<open>0 < mx\<close> \<open>n > 0\<close>] show ?thesis by auto
    qed
    from ins have ins: "insertStashRow ?item ?chunk s = (Inr (), s2)" and "faults s2 = []" by (simp_all add: returns_def)
    have eq: "insertStashChunks a item n ms mx s = insertStashChunks a ?item (n - ?chunk) ms mx s2"
      by (subst unfold) (simp only: Let_def q ins \<open>n > 0\<close> room not_True_eq_False if_False prod.case sum.case)
    have "\<exists>t. returns (insertStashChunks a ?item (n - ?chunk) ms mx) s2 () t"
    proof (rule "1.IH" [OF _ q [symmetric] HOL.refl room HOL.refl HOL.refl ins [symmetric] HOL.refl])
      show "\<not> \<not> n > 0" using True by simp
      show "faults s2 = []" "0 < mx" by fact+
      show "n - ?chunk \<le> 65535" using \<open>0 \<le> ?chunk\<close> "1.prems" by linarith
      show "slots_used a (data s2) + slots_needed (n - ?chunk) mx \<le> ms" using used less "1.prems" by linarith
    qed
    then show ?thesis unfolding returns_def eq .
  qed
qed

lemma merge_returns:
  assumes c: "faults s = []" and inv: "items_inv (data s)" and n: "0 < n" and mx: "mx \<le> 65535"
  shows "\<exists>rem t. returns (mergeIntoExistingStack a item n mx) s rem t \<and> rem \<le> n \<and>
    slots_used a (data t) = slots_used a (data s)"
proof (cases "IsStackable item \<and> merge_target a item mx (data s) \<noteq> None")
  case False
  then have "returns (mergeIntoExistingStack a item n mx) s n s"
    using c by (auto simp: returns_def mergeIntoExistingStack_def bindE_def clean_query retE_def)
  then show ?thesis by auto
next
  case True
  then obtain r where tgt: "merge_target a item mx (data s) = Some r" and st: "IsStackable item" by auto
  let ?add = "min n (mx - si_Amount r)"
  let ?S = "upd_where (\<lambda>q. si_ID q = si_ID r) (\<lambda>q. q\<lparr>si_Amount := si_Amount q + ?add\<rparr>) (cp_storage (data s))"
  from tgt obtain rs where "sort_key si_ID (filter (\<lambda>r. stackableMatch a (si_NameID item) (si_Identify item)
      (si_ExpireTime item) r \<and> si_Amount r < mx) (cp_storage (data s))) = r # rs"
    by (auto simp: merge_target_def split: list.splits)
  then have r: "r \<in> set (cp_storage (data s))" "si_Amount r < mx" by (auto dest: sort_key_hd)
  have only: "q = r" if "q \<in> set (cp_storage (data s))" "si_ID q = si_ID r" for q
    using inv uniq_the_row [of si_ID "cp_storage (data s)" q r] that r by (simp add: items_inv_def)
  have "0 < si_Amount r" using inv r by (auto simp: items_inv_def row_ok_def)
  then have up: "upd_checked (\<lambda>q. amount_check (si_Amount q)) (\<lambda>q. si_ID q = si_ID r)
      (\<lambda>q. q\<lparr>si_Amount := si_Amount q + ?add\<rparr>) (cp_storage (data s)) = Some ?S"
    using r n mx by (auto simp: upd_checked_Some amount_check_def dest: only)
  have "returns (mergeIntoExistingStack a item n mx) s (n - ?add) (s\<lparr>data := (data s)\<lparr>cp_storage := ?S\<rparr>\<rparr>)"
    using c st tgt by (simp add: returns_def mergeIntoExistingStack_def bindE_def clean_query Let_def thenE_def
        clean_exec_opt up retE_def)
  moreover have "map si_AccountID ?S = map si_AccountID (cp_storage (data s))" by (rule keys_upd_where) simp
  then have "slots_used a ((data s)\<lparr>cp_storage := ?S\<rparr>) = slots_used a (data s)" by (simp add: slots_used_eq_count)
  ultimately show ?thesis using n r by (intro exI [of _ "n - ?add"]) auto
qed

lemma upsert_returns:
  assumes c: "faults s = []" and inv: "items_inv (data s)" and n: "0 < n" "n \<le> 65535" and mx: "0 < mx" "mx \<le> 65535"
    and room: "slots_used a (data s) + slots_needed n mx \<le> ms"
  shows "\<exists>t. returns (upsertStashStack a item n ms mx) s () t"
proof -
  from merge_returns [OF c inv n(1) mx(2), of a item] obtain rem u where
    m: "returns (mergeIntoExistingStack a item n mx) s rem u" and rem: "rem \<le> n"
    and used: "slots_used a (data u) = slots_used a (data s)" by blast
  have "faults u = []" using m by (simp add: returns_def)
  moreover have "slots_used a (data u) + slots_needed rem mx \<le> ms"
    using slots_needed_mono [OF mx(1) rem] room used by linarith
  ultimately obtain t where "returns (insertStashChunks a item rem ms mx) u () t"
    using insertStashChunks_returns [of u rem mx a ms item] rem n mx by auto
  from returns_bind [where f = "\<lambda>rem. insertStashChunks a item rem ms mx", OF m this]
  show ?thesis unfolding upsertStashStack_def by blast
qed

lemma requireLocked_returns:
  assumes "faults s = []" and "find (\<lambda>r. lk_account_id r = a) (cp_storage_lock (data s)) = Some k" and "lk_is_locked k"
  shows "returns (requireLocked a) s () s"
  using assms by (simp add: returns_def requireLocked_def bindE_def clean_query_row guardE_def retE_def)

section \<open>An owed delivery succeeds\<close>

lemma held_single:
  assumes u: "uniq er_listing_ref (cp_storage_escrow m)" and pos: "0 < held ref m"
  obtains r where "r \<in> set (cp_storage_escrow m)" "er_listing_ref r = ref" "escrow_of ref m = [er_item r]"
    "held ref m = si_Amount (er_item r)"
proof -
  have "0 < held ref m \<longrightarrow> (\<exists>r \<in> set E. er_listing_ref r = ref \<and> filter (\<lambda>q. er_listing_ref q = ref) E = [r] \<and>
      tsum (\<lambda>r. (if er_listing_ref r = ref then 1 else 0) * si_Amount (er_item r)) E = si_Amount (er_item r))"
    if "uniq er_listing_ref E" "0 < tsum (\<lambda>r. (if er_listing_ref r = ref then 1 else 0) * si_Amount (er_item r)) E" for E
    using that
  proof (induction E)
    case (Cons q E)
    show ?case
    proof (cases "er_listing_ref q = ref")
      case True
      with Cons.prems have "\<forall>x \<in> set E. er_listing_ref x \<noteq> ref" by (metis imageI uniq_simps(2))
      then have "filter (\<lambda>q. er_listing_ref q = ref) E = []"
        "tsum (\<lambda>r. (if er_listing_ref r = ref then 1 else 0) * si_Amount (er_item r)) E = 0"
        by (auto intro!: tsum_zero)
      with True show ?thesis by simp
    next
      case False
      with Cons show ?thesis by simp
    qed
  qed simp
  with assms obtain r where "r \<in> set (cp_storage_escrow m)" "er_listing_ref r = ref"
    "filter (\<lambda>q. er_listing_ref q = ref) (cp_storage_escrow m) = [r]" "held ref m = si_Amount (er_item r)"
    unfolding held_def escrow_sum_def by blast
  then show thesis by (intro that [of r]) (auto simp: escrow_of_def)
qed

lemma deliverPartial_returns:
  assumes c: "faults s = []" and inv: "items_inv (data s)" and lock: "find (\<lambda>r. lk_account_id r = a) (cp_storage_lock (data s)) = Some k" "lk_is_locked k"
    and row: "r \<in> set (cp_storage_escrow (data s))" "escrow_of ref (data s) = [er_item r]"
    and n: "0 < n" "n \<le> si_Amount (er_item r)" and mx: "0 < mx" "mx \<le> 65535"
    and room: "slots_used a (data s) + slots_needed n mx \<le> ms"
  shows "\<exists>t. returns (deliverPartialTx ref a n ms mx) s () t"
proof -
  let ?d = "data s"
  have le: "n \<le> 65535" using inv row n by (auto simp: items_inv_def row_ok_def)
  from upsert_returns [OF c inv n(1) le mx room] obtain u where
    up: "returns (upsertStashStack a (er_item r) n ms mx) s () u" by blast
  then have upsert: "upsertStashStack a (er_item r) n ms mx s = (Inr (), u)" and cu: "faults u = []"
    by (simp_all add: returns_def)
  from upsertStashStack_adds [OF upsert inv n(1) mx(1)] have same: "cp_storage_escrow (data u) = cp_storage_escrow ?d"
    by (simp add: stash_adds_def)
  have uniq: "uniq (\<lambda>r. si_ID (er_item r)) (cp_storage_escrow ?d)" using inv by (simp add: items_inv_def)
  have only: "q = r" if "q \<in> set (cp_storage_escrow ?d)" "si_ID (er_item q) = si_ID (er_item r)" for q
    using uniq_the_row [OF uniq that(1) row(1) that(2)] .
  have "\<exists>t. returns (reduceEscrowRow (er_item r) n) u () t"
  proof (cases "n = si_Amount (er_item r)")
    case True
    with cu show ?thesis by (auto simp: returns_def reduceEscrowRow_def delete_escrow_row_def clean_exec)
  next
    case False
    let ?f = "\<lambda>q. q\<lparr>er_item := (er_item q)\<lparr>si_Amount := si_Amount (er_item q) - n\<rparr>\<rparr>"
    have "upd_checked (\<lambda>q. amount_check (si_Amount (er_item q))) (\<lambda>q. si_ID (er_item q) = si_ID (er_item r)) ?f
        (cp_storage_escrow (data u)) = Some (upd_where (\<lambda>q. si_ID (er_item q) = si_ID (er_item r)) ?f (cp_storage_escrow (data u)))"
      using n le inv row by (auto simp: upd_checked_Some amount_check_def same items_inv_def row_ok_def dest: only)
    with False cu show ?thesis by (auto simp: returns_def reduceEscrowRow_def clean_exec_opt)
  qed
  then obtain t where red: "returns (reduceEscrowRow (er_item r) n) u () t" by blast
  have items: "returns (query Sql (\<lambda>d. sort_key si_ID (escrow_of ref d))) s [er_item r] s"
    using c by (simp add: returns_def clean_query row)
  have "returns (deliverPartialTx ref a n ms mx) s () t"
    unfolding deliverPartialTx_def
    by (rule returns_then [OF requireLocked_returns [OF c lock]], rule returns_bind [OF items])
      (use n returns_then [OF up red] in \<open>simp add: guardE_def\<close>)
  then show ?thesis ..
qed

lemma drain_returns:
  assumes c: "faults s = []" and inv: "items_inv (data s)" and lock: "find (\<lambda>r. lk_account_id r = a) (cp_storage_lock (data s)) = Some k" "lk_is_locked k"
    and row: "r \<in> set (cp_storage_escrow (data s))" "escrow_of ref (data s) = [er_item r]"
    and mx: "0 < mx" "mx \<le> 65535"
    and room: "slots_used a (data s) + slots_needed (si_Amount (er_item r)) mx \<le> ms"
  shows "\<exists>t. returns (drainEscrowTx ref a ms mx) s () t"
proof -
  have n: "0 < si_Amount (er_item r)" "si_Amount (er_item r) \<le> 65535"
    using inv row by (auto simp: items_inv_def row_ok_def)
  from upsert_returns [OF c inv n mx room] obtain u where
    up: "returns (upsertStashStack a (er_item r) (si_Amount (er_item r)) ms mx) s () u" by blast
  then have cu: "faults u = []" by (simp add: returns_def)
  have items: "returns (query Sql (escrow_of ref)) s [er_item r] s"
    using c by (simp add: returns_def clean_query row)
  have all: "returns (upsertAll a ms mx [er_item r]) s () u"
    using up by (simp add: returns_def thenE_def bindE_def retE_def)
  obtain t where clear: "returns (exec Sql (\<lambda>d. d\<lparr>cp_storage_escrow :=
      del_where (\<lambda>r. er_listing_ref r = ref) (cp_storage_escrow d)\<rparr>)) u () t"
    using cu by (auto simp: returns_def clean_exec)
  have "returns (drainEscrowTx ref a ms mx) s () t"
    unfolding drainEscrowTx_def
    by (rule returns_then [OF requireLocked_returns [OF c lock]], rule returns_bind [OF items],
        rule returns_then [OF all clear])
  then show ?thesis ..
qed

lemma delivery_returns:
  assumes c: "faults s = []" and leg: "leg \<noteq> 0" "leg \<notin> set (cp_delivery_applied (data s))"
    and work: "\<And>u. faults u = [] \<Longrightarrow> data u = (data s)\<lparr>cp_delivery_applied := cp_delivery_applied (data s) @ [leg]\<rparr> \<Longrightarrow>
        \<exists>t. returns work u () t"
  shows "\<exists>t. myTx (unlessApplied leg work) s = (Inr (), t)"
proof -
  let ?u = "s\<lparr>data := (data s)\<lparr>cp_delivery_applied := cp_delivery_applied (data s) @ [leg]\<rparr>\<rparr>"
  have claim: "returns (claimDelivery leg) s False ?u"
    using c leg by (simp add: returns_def claimDelivery_def clean_sql)
  have "faults ?u = []" using c by simp
  with work [of ?u] obtain t where t: "returns work ?u () t" by auto
  have "returns (unlessApplied leg work) s () t"
    unfolding unlessApplied_def by (rule returns_bind [OF claim]) (simp add: t)
  with c show ?thesis unfolding myTx_def by (intro exI) (rule returns_tx)
qed

text \<open>
  What a leg moves: all that is held under its reference, or the units it names. Until it is
  delivered, one row of the escrow has them.
\<close>

definition leg_units :: "mydb \<Rightarrow> settlement_leg \<Rightarrow> int" where
  "leg_units m g = (if leg_Whole g then held (leg_EscrowRef g) m else leg_DeliverAmount g)"

lemma leg_row:
  assumes inv: "trade_inv d m" and x: "x \<in> set (cp_settlement d)" and new: "leg_ID (se_leg x) \<notin> set (cp_delivery_applied m)"
  obtains r where "r \<in> set (cp_storage_escrow m)" "er_listing_ref r = leg_EscrowRef (se_leg x)"
    "escrow_of (leg_EscrowRef (se_leg x)) m = [er_item r]" "held (leg_EscrowRef (se_leg x)) m = si_Amount (er_item r)"
    "0 < leg_units m (se_leg x)" "leg_units m (se_leg x) \<le> si_Amount (er_item r)"
proof -
  let ?g = "se_leg x"
  have ok: "leg_ok d ?g" and w: "wants d m" and u: "uniq er_listing_ref (cp_storage_escrow m)"
    using inv x by (auto simp: trade_inv_def book_def cross_def)
  have "0 < held (leg_EscrowRef ?g) m \<and> 0 < leg_units m ?g \<and> leg_units m ?g \<le> held (leg_EscrowRef ?g) m"
  proof (cases "0 < leg_DeliverAmount ?g")
    case True
    with leg_backed [OF inv x refl new] show ?thesis by (auto simp: leg_units_def)
  next
    case False
    with ok have "leg_Whole ?g" "leg_DeliverAmount ?g = 0" by (auto simp: leg_ok_def)
    with w x new show ?thesis by (auto simp: wants_def want_backed_def leg_units_def)
  qed
  with held_single [OF u, of "leg_EscrowRef ?g"] that show thesis by metis
qed

lemma deliverLeg_returns:
  assumes inv: "trade_inv d (data s)" and x: "x \<in> set (cp_settlement d)" and g: "g = se_leg x"
    and new: "leg_ID g \<notin> set (cp_delivery_applied (data s))"
    and c: "faults s = []" and lock: "find (\<lambda>r. lk_account_id r = leg_RecipientAccountID g) (cp_storage_lock (data s)) = Some k" "lk_is_locked k"
    and mx: "0 < MaxStack (wk_escrow w)" "MaxStack (wk_escrow w) \<le> 65535"
    and room: "slots_used (leg_RecipientAccountID g) (data s) + slots_needed (leg_units (data s) g) (MaxStack (wk_escrow w)) \<le> MaxSlots (wk_escrow w)"
  shows "\<exists>t. deliverLeg w g s = (Inr (), t)"
proof -
  let ?ref = "leg_EscrowRef g"
  have it: "items_inv (data s)" using inv by (simp add: trade_inv_def)
  from leg_row [OF inv x new [unfolded g]] obtain r where r: "r \<in> set (cp_storage_escrow (data s))" "er_listing_ref r = ?ref"
    "escrow_of ?ref (data s) = [er_item r]" and h: "held ?ref (data s) = si_Amount (er_item r)"
    and n: "0 < leg_units (data s) g" "leg_units (data s) g \<le> si_Amount (er_item r)" unfolding g by blast
  have nz: "leg_ID g \<noteq> 0" using inv x g by (auto simp: trade_inv_def book_def leg_ok_def)
  have claimed: "items_inv (data v) \<and> cp_storage_escrow (data v) = cp_storage_escrow (data s) \<and>
      cp_storage_lock (data v) = cp_storage_lock (data s) \<and> (\<forall>a. slots_used a (data v) = slots_used a (data s)) \<and>
      escrow_of ?ref (data v) = escrow_of ?ref (data s)"
    if "data v = (data s)\<lparr>cp_delivery_applied := cp_delivery_applied (data s) @ [leg_ID g]\<rparr>" for v
    using claimed_inv [OF it new] by (simp add: that slots_used_def escrow_of_def)
  show ?thesis
  proof (cases "leg_Whole g")
    case True
    have "\<exists>t. myTx (unlessApplied (leg_ID g) (drainEscrowTx ?ref (leg_RecipientAccountID g)
        (MaxSlots (wk_escrow w)) (MaxStack (wk_escrow w)))) s = (Inr (), t)"
    proof (rule delivery_returns [OF c nz new])
      fix v :: "mydb conn" assume cv: "faults v = []"
        and dv: "data v = (data s)\<lparr>cp_delivery_applied := cp_delivery_applied (data s) @ [leg_ID g]\<rparr>"
      show "\<exists>t. returns (drainEscrowTx ?ref (leg_RecipientAccountID g) (MaxSlots (wk_escrow w)) (MaxStack (wk_escrow w))) v () t"
        by (rule drain_returns [OF cv _ _ lock(2), where r = r])
          (use claimed [OF dv] lock r mx room True h in \<open>simp_all add: leg_units_def\<close>)
    qed
    with True show ?thesis by (simp add: deliverLeg_def escrow_Deliver_def drainEscrow_def)
  next
    case False
    have "\<exists>t. myTx (unlessApplied (leg_ID g) (deliverPartialTx ?ref (leg_RecipientAccountID g) (leg_DeliverAmount g)
        (MaxSlots (wk_escrow w)) (MaxStack (wk_escrow w)))) s = (Inr (), t)"
    proof (rule delivery_returns [OF c nz new])
      fix v :: "mydb conn" assume cv: "faults v = []"
        and dv: "data v = (data s)\<lparr>cp_delivery_applied := cp_delivery_applied (data s) @ [leg_ID g]\<rparr>"
      show "\<exists>t. returns (deliverPartialTx ?ref (leg_RecipientAccountID g) (leg_DeliverAmount g)
          (MaxSlots (wk_escrow w)) (MaxStack (wk_escrow w))) v () t"
        by (rule deliverPartial_returns [OF cv _ _ lock(2), where r = r])
          (use claimed [OF dv] lock r mx room n False h in \<open>simp_all add: leg_units_def\<close>)
    qed
    with False show ?thesis by (simp add: deliverLeg_def DeliverPartial_def)
  qed
qed

text \<open>A delivery that succeeds moves the leg's units from the escrow to the recipient's stash, and notes the leg.\<close>

definition stash_of :: "int \<Rightarrow> mydb \<Rightarrow> int" where
  "stash_of a m = stash_sum (\<lambda>b _. if b = a then 1 else 0) m"

lemma delivered_moves:
  assumes "delivered ms mx F G i m n" and "i \<noteq> 0"
    and "\<And>w. G w = (if b then - gains_all ref (escrow_of ref m) w else gains ref k (- c) w)"
    and "\<And>w. F w = (if b then gains_all to (escrow_of ref m) w else gains to k c w)"
  shows "i \<in> set (cp_delivery_applied n) \<and> held ref n = held ref m - (if b then held ref m else c) \<and>
    stash_of a n = stash_of a m + (if a = to then if b then held ref m else c else 0)"
proof -
  have g: "gains_all to (escrow_of ref m) (\<lambda>b _. if b = a then 1 else 0) = (if a = to then held ref m else 0)"
    by (auto simp: gains_all_escrow_of held_def escrow_sum_def intro!: tsum_cong tsum_zero)
  let ?m = "m\<lparr>cp_delivery_applied := cp_delivery_applied m @ [i]\<rparr>"
  have s: "shifts ms mx F G ?m n" using assms(1,2) by (simp add: delivered_def)
  then have "i \<in> set (cp_delivery_applied n)" by (auto simp: shifts_def)
  moreover have "stash_sum w n = stash_sum w m + F w" "escrow_sum w n = escrow_sum w m + G w" for w
    using s by (simp_all add: shifts_def stash_sum_def escrow_sum_def)
  ultimately show ?thesis by (simp add: held_def stash_of_def assms(3,4) g gain_at gains_def)
qed

lemma deliverLeg_moves:
  assumes inv: "trade_inv d (data s)" and x: "x \<in> set (cp_settlement d)" and g: "g = se_leg x"
    and new: "leg_ID g \<notin> set (cp_delivery_applied (data s))" and mx: "0 < MaxStack (wk_escrow w)"
    and run: "deliverLeg w g s = (Inr u, t)"
  shows "leg_ID g \<in> set (cp_delivery_applied (data t)) \<and>
    held (leg_EscrowRef g) (data t) = held (leg_EscrowRef g) (data s) - leg_units (data s) g \<and>
    stash_of a (data t) = stash_of a (data s) + (if a = leg_RecipientAccountID g then leg_units (data s) g else 0)"
proof -
  have it: "items_inv (data s)" and nz: "leg_ID g \<noteq> 0"
    using inv x g by (auto simp: trade_inv_def book_def leg_ok_def)
  show ?thesis
  proof (cases "leg_Whole g")
    case True
    with run have "drainEscrow (wk_escrow w) (leg_EscrowRef g) (leg_RecipientAccountID g) (leg_ID g) s = (Inr u, t)"
      by (simp add: deliverLeg_def escrow_Deliver_def)
    from drainEscrow_simulates [OF it this mx] new obtain ms k where
      "delivered ms k (gains_all (leg_RecipientAccountID g) (escrow_of (leg_EscrowRef g) (data s)))
        (\<lambda>w. - gains_all (leg_EscrowRef g) (escrow_of (leg_EscrowRef g) (data s)) w) (leg_ID g) (data s) (data t)" by auto
    from delivered_moves [OF this nz, of True "leg_EscrowRef g" _ 0 "leg_RecipientAccountID g" a] True
    show ?thesis by (simp add: leg_units_def)
  next
    case False
    with run have "DeliverPartial (wk_escrow w) (leg_EscrowRef g) (leg_RecipientAccountID g) (leg_DeliverAmount g) (leg_ID g) s = (Inr u, t)"
      by (simp add: deliverLeg_def)
    from DeliverPartial_simulates [OF it this mx] new obtain ms j k where
      "delivered ms j (gains (leg_RecipientAccountID g) k (leg_DeliverAmount g))
        (gains (leg_EscrowRef g) k (- leg_DeliverAmount g)) (leg_ID g) (data s) (data t)"
      by (auto simp: partial_shifts_def)
    from delivered_moves [OF this nz, of False "leg_EscrowRef g" k "leg_DeliverAmount g" "leg_RecipientAccountID g" a] False
    show ?thesis by (simp add: leg_units_def)
  qed
qed

end
