(* ===== verification/Market_Claims.thy ===== *)
theory Market_Claims
  imports Market_Progress
begin

text \<open>The properties of the market that span both databases, with concrete instances.\<close>

section \<open>A demonstration world\<close>

text \<open>Account 7 sells, account 8 buys; both stashes are locked by the panel.\<close>

definition stall_item :: stash_item where
  "stall_item = empty_item\<lparr>si_ID := 1, si_AccountID := 7, si_NameID := 501, si_Amount := 30\<rparr>"

definition demo_pg :: pgdb where
  "demo_pg = \<lparr>cp_currency = [\<lparr>cu_account_id = 7, cu_zeny = 5000, cu_cashpoint = 0, cu_locked_until = None\<rparr>,
       \<lparr>cu_account_id = 8, cu_zeny = 100000, cu_cashpoint = 0, cu_locked_until = None\<rparr>],
     cp_currency_hold = [], cp_listing = [], cp_settlement = [], cp_deposit_processed = [],
     cp_withdraw_requests = [], pg_clock = 0,
     pg_seq = \<lparr>hold_seq = 0, ref_seq = 0, settle_seq = 0, withdraw_seq = 0\<rparr>\<rparr>"

definition demo_mdb :: mydb where
  "demo_mdb = \<lparr>cp_storage = [stall_item], cp_storage_escrow = [],
     cp_storage_lock = [\<lparr>lk_account_id = 7, lk_is_locked = True\<rparr>, \<lparr>lk_account_id = 8, lk_is_locked = True\<rparr>],
     cp_delivery_applied = [], cp_deposit = [], cp_withdraw = [], my_clock = 0,
     my_seq = \<lparr>storage_seq = 1, escrow_seq = 0\<rparr>\<rparr>"

definition demo_world :: world where
  "demo_world = \<lparr>pgc = \<lparr>data = demo_pg, faults = []\<rparr>, myc = \<lparr>data = demo_mdb, faults = []\<rparr>, app_now = 0\<rparr>"

definition demo_sale :: create_input where
  "demo_sale = \<lparr>ci_SellerAccountID = 7, ci_Kind = KindSell, ci_GiveStashItemID = 1, ci_GiveUnitAmount = 2,
     ci_GiveZeny = 0, ci_GiveCashpoint = 0, ci_WantNameID = 0, ci_WantUnitAmount = 0, ci_WantZeny = 1000,
     ci_WantCashpoint = 0, ci_Quantity = 5\<rparr>"

definition demo_buy :: create_input where
  "demo_buy = \<lparr>ci_SellerAccountID = 8, ci_Kind = KindBuy, ci_GiveStashItemID = 0, ci_GiveUnitAmount = 0,
     ci_GiveZeny = 1000, ci_GiveCashpoint = 0, ci_WantNameID = 501, ci_WantUnitAmount = 1, ci_WantZeny = 0,
     ci_WantCashpoint = 0, ci_Quantity = 5\<rparr>"

definition demo_purchase :: "int \<Rightarrow> take_input" where
  "demo_purchase n = \<lparr>ti_ListingID = 1, ti_TakerAccountID = 8, ti_Units = n, ti_TakerStashItemID = 0\<rparr>"

abbreviation demo_service :: offer_service where "demo_service \<equiv> NewOfferService []"
abbreviation demo_workers :: workers where "demo_workers \<equiv> NewWorkers (NewEscrowRepository 600 30000) []"

text \<open>The world with the sale listed, then with three of its five units bought.\<close>

definition listed_world :: world where
  "listed_world = snd (market_run demo_service demo_workers (Create_call demo_sale) demo_world)"

definition sold_world :: world where
  "sold_world = snd (market_run demo_service demo_workers (Take_call (demo_purchase 3)) listed_world)"

lemma demo_start: "market_start demo_world"
  by (simp add: market_start_def demo_world_def demo_pg_def demo_mdb_def items_inv_def row_ok_def
      stall_item_def empty_item_def)

lemma demo_workers_ok: "0 < MaxStack (wk_escrow demo_workers)" "\<forall>src \<in> set (wk_extraRefs demo_workers). read_only src"
  by (simp_all add: NewWorkers_def MaxStack_pos)

lemma listed_reachable: "(market_step demo_service demo_workers)\<^sup>*\<^sup>* demo_world listed_world"
  unfolding listed_world_def by (rule r_into_rtranclp) (rule market_step.call)

section \<open>Lemmas for the properties\<close>

lemma reachable_trade_inv:
  assumes "(market_step s wk)\<^sup>*\<^sup>* w v" and "market_start w" and "0 < MaxStack (wk_escrow wk)"
    and "\<forall>src \<in> set (wk_extraRefs wk). read_only src"
  shows "trade_inv (data (pgc v)) (data (myc v))"
  using reachable_books [OF assms] by (simp add: books_def)

text \<open>The parts of a committed purchase.\<close>

definition keeps_money :: "pgdb \<Rightarrow> pgdb \<Rightarrow> bool" where
  "keeps_money d e \<longleftrightarrow> cp_listing e = cp_listing d \<and> cp_currency e = cp_currency d \<and>
     cp_currency_hold e = cp_currency_hold d \<and> hold_seq (pg_seq e) = hold_seq (pg_seq d)"

lemma enqueueLegsTx_money: "steps keeps_money (enqueueLegsTx l i r)"
proof -
  have leg: "steps keeps_money (EnqueueTx g)" for g
    unfolding EnqueueTx_def by (rule steps_exec) (simp_all add: Let_def keeps_money_def)
  have nop: "steps keeps_money (retE ())" by (rule steps_ret) (simp add: keeps_money_def)
  show ?thesis
    unfolding enqueueLegsTx_def thenE_def using leg nop by (intro steps_bind) (auto simp: keeps_money_def)
qed

lemma takeTx_parts:
  assumes b: "book 0 0 (data s)" and l: "l \<in> set (cp_listing (data s))" "li_ID l = ti_ListingID i"
    and run: "takeTx svc l i r s = (Inr (), t)"
  obtains u v st where "0 < ti_Units i" and "ti_Units i \<le> li_RemainingQuantity l"
    and "st = (if li_RemainingQuantity l = ti_Units i then StatusTaken else StatusActive)"
    and "data u = (data s)\<lparr>cp_listing := upd_where (\<lambda>q. li_ID q = ti_ListingID i)
       (\<lambda>q. q\<lparr>li_RemainingQuantity := li_RemainingQuantity l - ti_Units i, li_Status := st\<rparr>) (cp_listing (data s))\<rparr>"
    and "settleCurrencyTx svc (l\<lparr>li_RemainingQuantity := li_RemainingQuantity l - ti_Units i, li_Status := st\<rparr>) i u = (Inr (), v)"
    and "keeps_money (data v) (data t)"
proof -
  let ?n = "ti_Units i"
  from run obtain a u v y l' dep where take: "TakeUnitsTx (ti_ListingID i) ?n a = (Inr (l', dep), u)"
    and a: "data a = data s" and settle: "settleCurrencyTx svc l' i u = (Inr (), v)"
    and legs: "enqueueLegsTx l i r v = (Inr (), y)" and t: "data t = data y"
    by (auto simp: takeTx_def pgTx_def transaction_Inr bindE_Inr thenE_Inr)
  from take obtain l0 where f: "find (\<lambda>l. li_ID l = ti_ListingID i) (cp_listing (data a)) = Some l0"
    and n: "0 < ?n" "?n \<le> li_RemainingQuantity l0"
    and l': "l' = l0\<lparr>li_RemainingQuantity := li_RemainingQuantity l0 - ?n,
       li_Status := (if li_RemainingQuantity l0 = ?n then StatusTaken else StatusActive)\<rparr>"
    and u: "data u = (data a)\<lparr>cp_listing := upd_where (\<lambda>q. li_ID q = ti_ListingID i)
       (\<lambda>q. q\<lparr>li_RemainingQuantity := li_RemainingQuantity l', li_Status := li_Status l'\<rparr>) (cp_listing (data a))\<rparr>"
    by (rule TakeUnitsTx_Inr)
  have l0: "l0 = l" using find_listing [OF b l(1), of l0] f a l(2) by simp
  show thesis
    by (rule that [OF _ _ refl, of u v]) (use n u settle l' l0 a t stepsD [OF enqueueLegsTx_money legs] in simp_all)
qed

lemma takeTx_listing:
  assumes b: "book 0 0 (data s)" and l: "l \<in> set (cp_listing (data s))" "li_ID l = ti_ListingID i"
    and run: "takeTx svc l i r s = (Inr (), t)"
  shows "0 < ti_Units i \<and> ti_Units i \<le> li_RemainingQuantity l \<and>
    (\<exists>q \<in> set (cp_listing (data t)). same_terms l q \<and> open_units q = li_RemainingQuantity l - ti_Units i)"
  using b l run
proof (rule takeTx_parts)
  fix u v st
  let ?n = "ti_Units i"
  let ?f = "\<lambda>q. q\<lparr>li_RemainingQuantity := li_RemainingQuantity l - ?n, li_Status := st\<rparr>"
  assume n: "0 < ?n" "?n \<le> li_RemainingQuantity l"
    and st: "st = (if li_RemainingQuantity l = ?n then StatusTaken else StatusActive)"
    and u: "data u = (data s)\<lparr>cp_listing := upd_where (\<lambda>q. li_ID q = ti_ListingID i) ?f (cp_listing (data s))\<rparr>"
    and settle: "settleCurrencyTx svc (?f l) i u = (Inr (), v)" and m: "keeps_money (data v) (data t)"
  have "cp_listing (data t) = upd_where (\<lambda>q. li_ID q = ti_ListingID i) ?f (cp_listing (data s))"
    using stepsD [OF settleCurrencyTx_idle settle] m by (simp add: pg_idle_def keeps_money_def u)
  then have "?f l \<in> set (cp_listing (data t))"
    using l in_upd_where [of l _ "\<lambda>q. li_ID q = ti_ListingID i" ?f] by simp
  moreover have "same_terms l (?f l)" by (simp add: same_terms_def)
  moreover have "open_units (?f l) = li_RemainingQuantity l - ?n"
    by (auto simp: open_units_def st market_consts)
  ultimately show ?thesis using n by blast
qed

lemma closeTx_owed:
  assumes run: "closeTx l st s = (Inr (), t)" and "li_GiveItem l"
  shows "owed (li_ID l) (data t) = owed (li_ID l) (data s) +
    wrap64 (li_GiveUnitAmount l * li_RemainingQuantity l)"
proof -
  let ?g = "give_leg l (li_SellerAccountID l) (li_RemainingQuantity l)"
  from run obtain a b c y where a: "data a = data s" and status: "SetStatusTx (li_ID l) st a = (Inr (), b)"
    and leg: "EnqueueTx ?g b = (Inr (), c)"
    and rel: "(case li_GiveHoldID l of None \<Rightarrow> retE () | Some holdID \<Rightarrow> ReleaseTx holdID) c = (Inr (), y)"
    and t: "data t = data y"
    using assms(2) by (auto simp: closeTx_def pgTx_def transaction_Inr closeListingTx_def thenE_Inr) (metis data_pop_fault)
  have "steps pg_idle (case li_GiveHoldID l of None \<Rightarrow> retE () | Some holdID \<Rightarrow> ReleaseTx holdID)"
    by (auto intro: ReleaseTx_idle split: option.split)
  then have "pg_idle (data c) (data y)" using rel by (rule stepsD)
  then have "owed (li_ID l) (data t) = owed (li_ID l) (data c)" by (simp add: t owed_idle)
  also have "\<dots> = owed (li_ID l) (data b) + leg_DeliverAmount ?g"
    using EnqueueTx_Inr [OF leg] by (simp add: owed_def with_leg_def)
  also have "owed (li_ID l) (data b) = owed (li_ID l) (data s)"
    using status by (auto simp: SetStatusTx_def success_inv a owed_def)
  finally show ?thesis by (simp add: give_leg_def)
qed

lemma amountsValid_scaled:
  assumes "ScaledZenyWithinCap z q" and "ScaledCashpointWithinCap c q" and "0 \<le> n" and "n \<le> q"
  shows "wrap64 (z * n) = z * n" "wrap64 (c * n) = c * n" "amountsValid (z * n) (c * n)"
proof -
  from ScaledZeny_bound [OF assms(1)] ScaledCashpoint_bound [OF assms(2)]
  have b: "0 \<le> z" "z * q \<le> MaxTransferZeny" "0 \<le> c" "c * q \<le> max_int32" by auto
  have "z * n \<le> z * q" "c * n \<le> c * q" using b assms(4) by (auto intro: mult_left_mono)
  with b assms(3) have r: "0 \<le> z * n" "z * n \<le> MaxTransferZeny" "0 \<le> c * n" "c * n \<le> max_int32" by auto
  then show "amountsValid (z * n) (c * n)" by (simp add: amountsValid_def)
  show "wrap64 (z * n) = z * n" "wrap64 (c * n) = c * n"
    using r by (auto intro!: wrap64_nonneg_id simp: MaxTransferZeny_def max_int32_def max_int64_def)
qed


lemma named_single:
  assumes "escrow_of ref m = [q]"
  shows "named ref i m = (if si_NameID q = i then si_Amount q else 0)"
proof -
  have "tsum (\<lambda>r. (if er_listing_ref r = ref \<and> si_NameID (kind (er_item r)) = i then 1 else 0) * si_Amount (er_item r)) E =
      sum_list (map (\<lambda>q. if si_NameID q = i then si_Amount q else 0) (map er_item (filter (\<lambda>r. er_listing_ref r = ref) E)))" for E
    by (induction E) (auto simp: kind_def)
  from this [of "cp_storage_escrow m"]
  have "named ref i m = sum_list (map (\<lambda>q. if si_NameID q = i then si_Amount q else 0) (escrow_of ref m))"
    by (simp only: named_def escrow_sum_def escrow_of_def)
  with assms show ?thesis by simp
qed

definition fee_ok :: "fee_policy \<Rightarrow> bool" where
  "fee_ok p \<longleftrightarrow> 0 \<le> fee_Bps p \<and> fee_Bps p \<le> 10000"


lemma untakeable:
  assumes "li_WantNameID l \<noteq> 0" and "li_WantUnitAmount l = 0"
  shows "prepareTake s l i w \<noteq> (Inr ref, v)"
proof
  assume "prepareTake s l i w = (Inr ref, v)"
  with assms obtain x y where
    "MoveToEscrow (ti_TakerAccountID i) ref [\<lparr>em_StashItemID = ti_TakerStashItemID i, em_Amount = wrap64 0\<rparr>] x = (Inr (), y)"
    by (auto simp: prepareTake_def escrowTakerWant_def success_inv Let_def)
  then obtain x' y' where "moveOneToEscrow (ti_TakerAccountID i) ref
      \<lparr>em_StashItemID = ti_TakerStashItemID i, em_Amount = wrap64 0\<rparr> x' = (Inr (), y')"
    by (auto simp: MoveToEscrow_def myTx_def transaction_Inr thenE_Inr)
  then show False
    by (auto simp: moveOneToEscrow_def success_inv validateEscrowMove_def wrap64_id split: option.splits if_splits)
qed

lemma deliverLeg_unlocked:
  assumes lock: "\<forall>k. find (\<lambda>r. lk_account_id r = leg_RecipientAccountID g) (cp_storage_lock (data s)) = Some k \<longrightarrow> \<not> lk_is_locked k"
    and leg: "leg_ID g \<noteq> 0" "leg_ID g \<notin> set (cp_delivery_applied (data s))"
    and run: "deliverLeg w g s = (r, t)"
  shows "(\<exists>e. r = Inl e) \<and> (\<exists>q. data t = (data s)\<lparr>my_seq := q\<rparr>)"
proof -
  have closed: "requireLocked (leg_RecipientAccountID g) u \<noteq> (Inr (), v)"
    if "cp_storage_lock (data u) = cp_storage_lock (data s)" for u v
    using lock that by (auto simp: requireLocked_def success_inv)
  have go: "(\<exists>e. r = Inl e) \<and> (\<exists>q. data t = (data s)\<lparr>my_seq := q\<rparr>)"
    if "steps my_grows work" and "myTx (unlessApplied (leg_ID g) (thenE (requireLocked (leg_RecipientAccountID g)) rest)) s = (r, t)"
      and "work = thenE (requireLocked (leg_RecipientAccountID g)) rest" for work rest
    using unlessApplied_grows [OF that(1)] that(2) [unfolded myTx_def that(3) [symmetric]]
  proof (cases rule: my.tx_outcome)
    case (undone d e')
    then show ?thesis by (auto simp: my_rb_def)
  next
    case (committed u x v)
    from unlessApplied_Inr [OF committed(1)] leg obtain c where "work c = (Inr x, v)"
      and "cp_storage_lock (data c) = cp_storage_lock (data s)"
      by (auto simp: committed(2))
    with closed that(3) show ?thesis by (auto simp: thenE_Inr)
  qed
  show ?thesis
  proof (cases "leg_Whole g")
    case True
    with run show ?thesis
      by (intro go [OF drainEscrowTx_grows _ drainEscrowTx_def])
        (simp add: deliverLeg_def escrow_Deliver_def drainEscrow_def drainEscrowTx_def)
  next
    case False
    with run show ?thesis
      by (intro go [OF deliverPartialTx_grows _ deliverPartialTx_def])
        (simp add: deliverLeg_def DeliverPartial_def deliverPartialTx_def)
  qed
qed

definition blocked_leg :: "mydb \<Rightarrow> settlement_leg \<Rightarrow> bool" where
  "blocked_leg m g \<longleftrightarrow> leg_ID g \<noteq> 0 \<and> leg_ID g \<notin> set (cp_delivery_applied m) \<and>
     \<not> list_ex (\<lambda>r. lk_account_id r = leg_RecipientAccountID g \<and> lk_is_locked r) (cp_storage_lock m)"

lemma deliverLegs_blocked:
  assumes "\<forall>g \<in> set gs. blocked_leg (data (myc w)) g" and "deliverLegs wk gs n w = (r, v)"
  shows "r = Inr n \<and> data (pgc v) = data (pgc w) \<and> (\<exists>q. data (myc v) = (data (myc w))\<lparr>my_seq := q\<rparr>)"
  using assms
proof (induction gs arbitrary: w)
  case Nil
  then show ?case by (auto simp: retE_def intro: exI [of _ "my_seq (data (myc w))"])
next
  case (Cons g gs)
  obtain x c where one: "deliverLeg wk g (myc w) = (x, c)" by fastforce
  have "\<forall>k. find (\<lambda>r. lk_account_id r = leg_RecipientAccountID g) (cp_storage_lock (data (myc w))) = Some k \<longrightarrow> \<not> lk_is_locked k"
    using Cons.prems(1) by (auto simp: blocked_leg_def list_ex_iff dest: find_key_Some)
  with deliverLeg_unlocked [OF _ _ _ one] Cons.prems(1) obtain e q where x: "x = Inl e"
    and c: "data c = (data (myc w))\<lparr>my_seq := q\<rparr>" by (auto simp: blocked_leg_def)
  have "deliverLegs wk gs n (w\<lparr>myc := c\<rparr>) = (r, v)"
    using Cons.prems(2) one x by (simp add: bindE_def tryE_def onMy_def)
  with Cons.IH [of "w\<lparr>myc := c\<rparr>"] Cons.prems(1) c show ?case by (simp add: blocked_leg_def)
qed

section \<open>Properties\<close>

text \<open>
  C7: Through every history of market calls that do not overlap, with any statements and
  replies lost and with the game server changing stashes in between, the books of both
  databases balance: for a listing that gives items, the open units and the owed units are the
  units put up for it, and so are the units in escrow and the units delivered.
\<close>

theorem market_books_balance:
  assumes "(market_step s wk)\<^sup>*\<^sup>* w v" and "market_start w" and "0 < MaxStack (wk_escrow wk)"
    and "\<forall>src \<in> set (wk_extraRefs wk). read_only src"
    and "l \<in> set (cp_listing (data (pgc v)))" and "li_GiveItem l"
  shows "li_GiveUnitAmount l * open_units l + owed (li_ID l) (data (pgc v)) =
      li_GiveUnitAmount l * li_TotalQuantity l \<and>
    held (li_ID l) (data (myc v)) + served (set (cp_delivery_applied (data (myc v)))) (li_ID l) (data (pgc v)) =
      li_GiveUnitAmount l * li_TotalQuantity l"
  using reachable_trade_inv [OF assms(1-4)] assms(5,6) by (auto simp: trade_inv_def book_def cross_def)

text \<open>
  C8: In every such history each leg that has not been delivered is still pending and is covered
  by one row of the escrow under its reference. For what a listing gives, the row has at least the
  leg's units, and exactly those when the whole reference is owed. For what a listing asks for, the
  leg goes to the account that made the listing and the row is of the item asked for, in the number
  asked for by some of the units taken. A delivery therefore never fails for want of items.
\<close>

theorem owed_deliveries_covered:
  assumes "(market_step s wk)\<^sup>*\<^sup>* w v" and "market_start w" and "0 < MaxStack (wk_escrow wk)"
    and "\<forall>src \<in> set (wk_extraRefs wk). read_only src"
    and "x \<in> set (cp_settlement (data (pgc v)))" and "g = se_leg x"
    and "leg_ID g \<notin> set (cp_delivery_applied (data (myc v)))"
  shows "se_status x = 1 \<and>
    (\<exists>r \<in> set (cp_storage_escrow (data (myc v))). er_listing_ref r = leg_EscrowRef g \<and>
       held (leg_EscrowRef g) (data (myc v)) = si_Amount (er_item r) \<and>
       (if 0 < leg_DeliverAmount g
        then leg_DeliverAmount g \<le> si_Amount (er_item r) \<and> (leg_Whole g \<longrightarrow> si_Amount (er_item r) = leg_DeliverAmount g)
        else leg_Whole g \<and> (\<exists>l \<in> set (cp_listing (data (pgc v))). \<exists>n.
          li_ID l = leg_ListingID g \<and> li_SellerAccountID l = leg_RecipientAccountID g \<and>
          si_NameID (er_item r) = li_WantNameID l \<and> si_Amount (er_item r) = li_WantUnitAmount l * n \<and>
          0 < n \<and> n \<le> li_TotalQuantity l - li_RemainingQuantity l)))"
proof -
  let ?d = "data (pgc v)" and ?m = "data (myc v)"
  have inv: "trade_inv ?d ?m" by (rule reachable_trade_inv [OF assms(1-4)])
  have new: "leg_ID (se_leg x) \<notin> set (cp_delivery_applied ?m)" using assms(6,7) by simp
  have w: "wants ?d ?m" and ok: "leg_ok ?d g" using inv assms(5,6) by (auto simp: trade_inv_def book_def)
  from leg_row [OF inv assms(5) new] obtain r where r: "r \<in> set (cp_storage_escrow ?m)" "er_listing_ref r = leg_EscrowRef g"
    "escrow_of (leg_EscrowRef g) ?m = [er_item r]" "held (leg_EscrowRef g) ?m = si_Amount (er_item r)"
    unfolding assms(6) by blast
  have st: "se_status x = 1" using w assms(5) new by (simp add: wants_def)
  show ?thesis
  proof (cases "0 < leg_DeliverAmount g")
    case True
    with leg_backed [OF inv assms(5,6,7)] st r show ?thesis by auto
  next
    case False
    with ok have z: "leg_DeliverAmount g = 0" "leg_Whole g" by (auto simp: leg_ok_def)
    with w assms(5,6) new have "want_backed ?d ?m g" by (simp add: wants_def)
    then obtain l n where l: "l \<in> set (cp_listing ?d)" "li_ID l = leg_ListingID g" "li_SellerAccountID l = leg_RecipientAccountID g"
      "0 < n" "n \<le> li_TotalQuantity l - li_RemainingQuantity l" "0 < li_WantUnitAmount l * n"
      "held (leg_EscrowRef g) ?m = li_WantUnitAmount l * n" "named (leg_EscrowRef g) (li_WantNameID l) ?m = li_WantUnitAmount l * n"
      unfolding want_backed_def by blast
    have "named (leg_EscrowRef g) (li_WantNameID l) ?m = (if si_NameID (er_item r) = li_WantNameID l then si_Amount (er_item r) else 0)"
      by (rule named_single [OF r(3)])
    with l(6,8) have "si_NameID (er_item r) = li_WantNameID l" by (auto split: if_splits)
    then have "\<exists>l \<in> set (cp_listing ?d). \<exists>n. li_ID l = leg_ListingID g \<and> li_SellerAccountID l = leg_RecipientAccountID g \<and>
        si_NameID (er_item r) = li_WantNameID l \<and> si_Amount (er_item r) = li_WantUnitAmount l * n \<and>
        0 < n \<and> n \<le> li_TotalQuantity l - li_RemainingQuantity l"
      using l r(4) by (intro bexI [OF _ l(1)] exI [of _ n]) simp
    then show ?thesis using z st r by (intro conjI bexI [OF _ r(1)]) simp_all
  qed
qed

text \<open>
  C9: An owed delivery goes through, of what a listing gives or of what it asked for: in every such
  history, when the connection loses nothing, the recipient's stash is locked by the panel and has
  the slots for the leg's units, delivering the leg succeeds. The units are then gone from the
  escrow and in the recipient's stash, every other stash is as large as before, and the leg is noted
  as delivered.
\<close>

theorem owed_delivery_succeeds:
  assumes "(market_step s wk)\<^sup>*\<^sup>* w v" and "market_start w" and "0 < MaxStack (wk_escrow wk)"
    and "\<forall>src \<in> set (wk_extraRefs wk). read_only src"
    and "x \<in> set (cp_settlement (data (pgc v)))" and "g = se_leg x"
    and "leg_ID g \<notin> set (cp_delivery_applied (data (myc v)))"
    and "faults (myc v) = []" and "MaxStack (wk_escrow wk) \<le> 65535"
    and "find (\<lambda>r. lk_account_id r = leg_RecipientAccountID g) (cp_storage_lock (data (myc v))) = Some k" and "lk_is_locked k"
    and "n = leg_units (data (myc v)) g"
    and "slots_used (leg_RecipientAccountID g) (data (myc v)) + slots_needed n (MaxStack (wk_escrow wk)) \<le> MaxSlots (wk_escrow wk)"
  shows "\<exists>t. deliverLeg wk g (myc v) = (Inr (), t) \<and> leg_ID g \<in> set (cp_delivery_applied (data t)) \<and> 0 < n \<and>
    held (leg_EscrowRef g) (data t) = held (leg_EscrowRef g) (data (myc v)) - n \<and>
    (\<forall>a. stash_of a (data t) = stash_of a (data (myc v)) + (if a = leg_RecipientAccountID g then n else 0))"
proof -
  have inv: "trade_inv (data (pgc v)) (data (myc v))" by (rule reachable_trade_inv [OF assms(1-4)])
  from deliverLeg_returns [OF inv assms(5,6,7,8,10,11,3,9) assms(13) [unfolded assms(12)]] obtain t where
    t: "deliverLeg wk g (myc v) = (Inr (), t)" ..
  have "0 < n" using leg_row [OF inv assms(5)] assms(6,7,12) by metis
  with t deliverLeg_moves [OF inv assms(5,6,7,3) t] assms(12) show ?thesis by auto
qed


text \<open>
  C11: A purchase from a sell listing that commits moves the money exactly: the buyer pays the
  unit price times the units, the seller receives that less the fee, no other balance and no
  hold changes, and the fee is gone from the supply.
\<close>

theorem sale_settles_exactly:
  assumes "book 0 0 (data s)" and "wallet_inv (data s)" and "l \<in> set (cp_listing (data s))"
    and "li_ID l = ti_ListingID i" and "li_Kind l = KindSell" and "fee_ok (os_fee svc)"
    and "ScaledZenyWithinCap (li_WantZeny l) (li_TotalQuantity l)"
    and "ScaledCashpointWithinCap (li_WantCashpoint l) (li_TotalQuantity l)"
    and "takeTx svc l i r s = (Inr (), t)" and "0 < li_WantZeny l \<or> 0 < li_WantCashpoint l"
  shows "let z = li_WantZeny l * ti_Units i; c = li_WantCashpoint l * ti_Units i;
      nz = z - z * fee_Bps (os_fee svc) div 10000; nc = c - c * fee_Bps (os_fee svc) div 10000;
      B = bal (cp_currency (data s))
    in ti_TakerAccountID i \<noteq> li_SellerAccountID l \<and>
      bal (cp_currency (data t)) = B
        (ti_TakerAccountID i := (fst (B (ti_TakerAccountID i)) - z, snd (B (ti_TakerAccountID i)) - c),
         li_SellerAccountID l := (fst (B (li_SellerAccountID l)) + nz, snd (B (li_SellerAccountID l)) + nc)) \<and>
      z \<le> fst (B (ti_TakerAccountID i)) \<and> c \<le> snd (B (ti_TakerAccountID i)) \<and>
      cp_currency_hold (data t) = cp_currency_hold (data s) \<and>
      zeny_supply (data t) = zeny_supply (data s) - (z - nz)"
  using assms(1,3,4,9)
proof (rule takeTx_parts)
  fix u v st
  let ?z = "li_WantZeny l * ti_Units i" and ?c = "li_WantCashpoint l * ti_Units i" and ?p = "os_fee svc"
  let ?a = "ti_TakerAccountID i" and ?b = "li_SellerAccountID l"
  assume n: "0 < ti_Units i" "ti_Units i \<le> li_RemainingQuantity l"
    and u: "data u = (data s)\<lparr>cp_listing := upd_where (\<lambda>q. li_ID q = ti_ListingID i)
       (\<lambda>q. q\<lparr>li_RemainingQuantity := li_RemainingQuantity l - ti_Units i, li_Status := st\<rparr>) (cp_listing (data s))\<rparr>"
    and settle: "settleCurrencyTx svc (l\<lparr>li_RemainingQuantity := li_RemainingQuantity l - ti_Units i, li_Status := st\<rparr>) i u = (Inr (), v)"
    and m: "keeps_money (data v) (data t)"
  have "listing_ok l" using assms(1,3) by (simp add: book_def)
  then have nt: "0 \<le> ti_Units i" "ti_Units i \<le> li_TotalQuantity l" using n by (auto simp: listing_ok_def)
  note sc = amountsValid_scaled [OF assms(7,8) nt]
  from ScaledZeny_bound [OF assms(7)] ScaledCashpoint_bound [OF assms(8)] have "0 \<le> li_WantZeny l" "0 \<le> li_WantCashpoint l" by auto
  then have nz: "\<not> (?z = 0 \<and> ?c = 0)" using n assms(10) by auto
  from settle nz sc assms(5) have "ChargeTx ?a ?b ?z ?c (NetZeny ?p ?z) (NetCashpoint ?p ?c) u = (Inr (), v)"
    by (auto simp: settleCurrencyTx_def Let_def split: if_splits)
  moreover have "currency_inv (cp_currency (data u))" using assms(2) by (simp add: u wallet_inv_def)
  ultimately show ?thesis
  proof (rule ChargeTx_Inr)
    fix d assume ne: "?a \<noteq> ?b" and aff: "?z \<le> fst (bal (cp_currency (data u)) ?a)" "?c \<le> snd (bal (cp_currency (data u)) ?a)"
      and a1: "adjusts ?a (- ?z) (- ?c) (data u) d" and a2: "adjusts ?b (NetZeny ?p ?z) (NetCashpoint ?p ?c) d (data v)"
    from assms(6) sc(3) have f: "0 \<le> fee_Bps ?p" "fee_Bps ?p \<le> 10000" "0 \<le> ?z" "?z \<le> MaxTransferZeny" "0 \<le> ?c" "?c \<le> MaxTransferZeny"
      by (auto simp: fee_ok_def amountsValid_def MaxTransferZeny_def max_int32_def)
    have net: "NetZeny ?p ?z = ?z - ?z * fee_Bps ?p div 10000" "NetCashpoint ?p ?c = ?c - ?c * fee_Bps ?p div 10000"
      using fee_split [OF f(1-4)] fee_split [OF f(1,2,5,6)] by (simp_all add: NetCashpoint_NetZeny)
    have b1: "bal (cp_currency d) = (bal (cp_currency (data u)))
        (?a := (fst (bal (cp_currency (data u)) ?a) - ?z, snd (bal (cp_currency (data u)) ?a) - ?c))"
      using a1 by (simp add: adjusts_def)
    have b2: "bal (cp_currency (data v)) = (bal (cp_currency d))
        (?b := (fst (bal (cp_currency d) ?b) + NetZeny ?p ?z, snd (bal (cp_currency d) ?b) + NetCashpoint ?p ?c))"
      using a2 by (simp add: adjusts_def)
    have cur: "cp_currency (data t) = cp_currency (data v)" "cp_currency_hold (data t) = cp_currency_hold (data s)"
      using m adjusts_frame [OF a1] adjusts_frame [OF a2] by (simp_all add: keeps_money_def u)
    have "tsum cu_zeny (cp_currency (data v)) = tsum cu_zeny (cp_currency (data s)) - ?z + NetZeny ?p ?z"
      using a1 a2 by (simp add: adjusts_def u)
    then have "zeny_supply (data t) = zeny_supply (data s) - (?z - NetZeny ?p ?z)"
      by (simp add: zeny_supply_def cur)
    with ne aff show ?thesis
      by (simp add: Let_def cur b2 b1 u net)
  qed
qed

text \<open>
  A listing that asks for an item but for zero of it per unit passes validation and can
  never be taken: every attempt ends in an error before the transaction.
\<close>

theorem zero_want_unit_never_taken:
  assumes "find (\<lambda>l. li_ID l = ti_ListingID i) (cp_listing (data (pgc w))) = Some l"
    and "li_WantNameID l \<noteq> 0" and "li_WantUnitAmount l = 0"
  shows "\<exists>e. fst (offer_Take svc i w) = Inl e"
proof -
  obtain r c where g: "listing_Get (ti_ListingID i) (pgc w) = (r, c)" by fastforce
  show ?thesis
  proof (cases r)
    case (Inl e)
    with g show ?thesis by (simp add: offer_Take_def bindE_def onPg_def)
  next
    case (Inr q)
    with g listing_Get_Inr assms(1) have "q = l" by fastforce
    have "fst (prepareTake svc l i v) \<noteq> Inr ref" for v ref
      using untakeable [OF assms(2,3), of svc i v ref] by (metis prod.collapse)
    then have "\<exists>e. fst (prepareTake svc l i v) = Inl e" for v by (metis sum.exhaust_sel sum.collapse)
    then have "\<exists>e x. prepareTake svc l i v = (Inl e, x)" for v by (metis prod.collapse)
    with g Inr \<open>q = l\<close> show ?thesis
      by (auto simp: offer_Take_def bindE_def onPg_def failE_def split: option.split prod.split sum.split)
        (metis prod.inject sum.distinct(1))
  qed
qed

text \<open>
  Cancelling and expiring act on the listing as it was read before their transaction. If a
  purchase commits in between, the close returns the units read, not the units left: the legs
  owed for the listing then exceed the units put in escrow by exactly the units bought.
\<close>

theorem stale_close_overcommits:
  assumes "trade_inv (data s) m" and "l \<in> set (cp_listing (data s))" and "li_Status l = StatusActive"
    and "li_GiveItem l" and "li_ID l = ti_ListingID i"
    and "li_WantNameID l = 0" and "takeTx svc l i r s = (Inr (), t)" and "closeTx l StatusCancelled t = (Inr (), u)"
  shows "owed (li_ID l) (data u) =
    li_GiveUnitAmount l * li_TotalQuantity l + li_GiveUnitAmount l * ti_Units i"
proof -
  have bk: "book 0 0 (data s)" using assms(1) by (simp add: trade_inv_def)
  have ok: "listing_ok l" using bk assms(2) by (simp add: book_def)
  have bt: "book 0 0 (data t)"
    using takeTx_inv [OF assms(1,2,5) _ assms(7)] assms(6) by (simp add: trade_inv_def)
  from takeTx_listing [OF bk assms(2,5,7)] obtain q where q: "q \<in> set (cp_listing (data t))" "same_terms l q"
    and left: "open_units q = li_RemainingQuantity l - ti_Units i" by blast
  from bt q assms(4) have "li_GiveUnitAmount l * open_units q + owed (li_ID l) (data t) =
      li_GiveUnitAmount l * li_TotalQuantity l" by (auto simp: book_def same_terms_def)
  moreover have "leg_DeliverAmount (give_leg l 0 (li_RemainingQuantity l)) = li_GiveUnitAmount l * li_RemainingQuantity l"
    using ok assms(3,4) by (intro give_leg_amount) (auto simp: listing_ok_def)
  then have "wrap64 (li_GiveUnitAmount l * li_RemainingQuantity l) = li_GiveUnitAmount l * li_RemainingQuantity l"
    by (simp add: give_leg_def)
  ultimately show ?thesis
    using closeTx_owed [OF assms(8,4)] left by (simp add: algebra_simps)
qed

text \<open>
  The delivery worker reads the oldest pending legs, up to its batch. While the stashes of
  all their recipients are open in the game, a run delivers nothing and leaves everything as it
  was, however many deliverable legs wait behind them.
\<close>

theorem first_batch_blocks_delivery:
  assumes "\<forall>g \<in> set (take (nat (wk_batch wk)) (sort_key leg_ID (map se_leg
      (filter (\<lambda>s. se_status s = 1) (cp_settlement (data (pgc w))))))). blocked_leg (data (myc w)) g"
    and "workers_Deliver wk w = (r, v)"
  shows "(r = Inr 0 \<or> r = Inl Sql) \<and> data (pgc v) = data (pgc w) \<and>
    (\<exists>q. data (myc v) = (data (myc w))\<lparr>my_seq := q\<rparr>)"
proof -
  obtain x c where p: "Pending (wk_batch wk) (pgc w) = (x, c)" by fastforce
  then have c: "data c = data (pgc w)" using pg_reads_same(2) by (rule query_only)
  show ?thesis
  proof (cases x)
    case (Inl e)
    with p have "e = Sql" by (auto simp: Pending_def sql_def split: option.splits fault.splits if_splits)
    with p Inl c assms(2) show ?thesis
      by (auto simp: workers_Deliver_def bindE_def onPg_def intro: exI [of _ "my_seq (data (myc w))"])
  next
    case (Inr gs)
    with p have "gs = take (nat (wk_batch wk)) (sort_key leg_ID (map se_leg
      (filter (\<lambda>s. se_status s = 1) (cp_settlement (data (pgc w))))))"
      by (auto simp: Pending_def sql_Inr split: if_splits)
    with assms(1) have g: "\<forall>g \<in> set gs. blocked_leg (data (myc (w\<lparr>pgc := c\<rparr>))) g" by simp
    have "deliverLegs wk gs 0 (w\<lparr>pgc := c\<rparr>) = (r, v)"
      using assms(2) p Inr by (simp add: workers_Deliver_def bindE_def onPg_def)
    from deliverLegs_blocked [OF g this] c show ?thesis by simp
  qed
qed

definition failing_world :: world where
  "failing_world = demo_world\<lparr>pgc := \<lparr>data = demo_pg, faults = [Fine, Fine, Fine, Fine, Fine, Fine, Fine, Lost_before]\<rparr>\<rparr>"

text \<open>
  A buy offer whose listing row cannot be written leaves the buyer's money on hold: the
  call reports the error, the balance has been debited, and no listing names the hold, so no
  later market call gives it back.
\<close>

theorem failed_create_strands_hold:
  "let (r, v) = offer_Create demo_service demo_buy failing_world; d = data (pgc v)
   in r = Inl Sql \<and> cp_listing d = [] \<and> map ho_zeny (cp_currency_hold d) = [5000] \<and>
      bal (cp_currency d) 8 = (95000, 0) \<and> bal (cp_currency (data (pgc failing_world))) 8 = (100000, 0)"
  by code_simp

section \<open>Instances of the properties\<close>

definition sale_listing :: listing where
  "sale_listing = hd (cp_listing (data (pgc listed_world)))"

lemma sale_listing_facts:
  "cp_listing (data (pgc listed_world)) = [sale_listing]" "li_ID sale_listing = 1" "li_GiveItem sale_listing"
  "li_Status sale_listing = StatusActive" "li_Kind sale_listing = KindSell" "li_WantNameID sale_listing = 0"
  "li_WantZeny sale_listing = 1000" "li_WantCashpoint sale_listing = 0" "li_TotalQuantity sale_listing = 5"
  "li_GiveUnitAmount sale_listing = 2" "li_SellerAccountID sale_listing = 7"
  by code_simp+

lemma listed_trade_inv: "trade_inv (data (pgc listed_world)) (data (myc listed_world))"
  by (rule reachable_trade_inv [OF listed_reachable demo_start demo_workers_ok])

theorem market_books_balance_witness:
  "2 * open_units sale_listing + owed 1 (data (pgc listed_world)) = 10 \<and>
   held 1 (data (myc listed_world)) +
     served (set (cp_delivery_applied (data (myc listed_world)))) 1 (data (pgc listed_world)) = 10"
  using market_books_balance [OF listed_reachable demo_start demo_workers_ok, of sale_listing]
  by (simp add: sale_listing_facts)

text \<open>Account 8 asks for five of an item that account 7 has; account 7 gives two of them.\<close>

definition wanted_world :: world where
  "wanted_world = snd (market_run demo_service demo_workers (Create_call demo_buy) demo_world)"

definition given_world :: world where
  "given_world = snd (market_run demo_service demo_workers
     (Take_call \<lparr>ti_ListingID = 1, ti_TakerAccountID = 7, ti_Units = 2, ti_TakerStashItemID = 1\<rparr>) wanted_world)"

lemma given_reachable: "(market_step demo_service demo_workers)\<^sup>*\<^sup>* demo_world given_world"
  unfolding given_world_def wanted_world_def by (blast intro: rtranclp.rtrancl_into_rtrancl rtranclp.rtrancl_refl market_step.call)

definition given_leg :: settlement_row where
  "given_leg = \<lparr>se_leg = \<lparr>leg_ID = 1, leg_ListingID = 1, leg_EscrowRef = 2, leg_RecipientAccountID = 8,
     leg_DeliverAmount = 0, leg_Whole = True\<rparr>, se_status = 1\<rparr>"

lemma given_facts: "given_leg \<in> set (cp_settlement (data (pgc given_world)))"
  "leg_ID (se_leg given_leg) \<notin> set (cp_delivery_applied (data (myc given_world)))"
  "held 2 (data (myc given_world)) = 2" "map li_WantNameID (cp_listing (data (pgc given_world))) = [501]"
proof -
  have "cp_settlement (data (pgc given_world)) = [given_leg]" by code_simp
  then show "given_leg \<in> set (cp_settlement (data (pgc given_world)))" by simp
  have "cp_delivery_applied (data (myc given_world)) = []" by code_simp
  then show "leg_ID (se_leg given_leg) \<notin> set (cp_delivery_applied (data (myc given_world)))" by simp
  show "held 2 (data (myc given_world)) = 2" "map li_WantNameID (cp_listing (data (pgc given_world))) = [501]" by code_simp+
qed

theorem owed_deliveries_covered_witness:
  "\<exists>r \<in> set (cp_storage_escrow (data (myc given_world))). er_listing_ref r = 2 \<and> si_NameID (er_item r) = 501 \<and> si_Amount (er_item r) = 2"
proof -
  have "\<forall>l \<in> set (cp_listing (data (pgc given_world))). li_WantNameID l = 501"
    using arg_cong [OF given_facts(4), of set] by auto
  with owed_deliveries_covered [OF given_reachable demo_start demo_workers_ok given_facts(1) refl given_facts(2)] given_facts(3)
  show ?thesis by (auto simp: given_leg_def)
qed

theorem owed_delivery_succeeds_witness:
  "\<exists>t. deliverLeg demo_workers (se_leg given_leg) (myc given_world) = (Inr (), t) \<and>
     held 2 (data t) = 0 \<and> stash_of 8 (data t) = stash_of 8 (data (myc given_world)) + 2"
proof -
  have n: "leg_units (data (myc given_world)) (se_leg given_leg) = 2"
    using given_facts(3) by (simp add: leg_units_def given_leg_def)
  have f: "faults (myc given_world) = []" by code_simp
  have mx: "MaxStack (wk_escrow demo_workers) \<le> 65535" by code_simp
  have lock: "find (\<lambda>r. lk_account_id r = leg_RecipientAccountID (se_leg given_leg)) (cp_storage_lock (data (myc given_world))) =
      Some \<lparr>lk_account_id = 8, lk_is_locked = True\<rparr>" by code_simp
  have room: "slots_used (leg_RecipientAccountID (se_leg given_leg)) (data (myc given_world)) +
      slots_needed 2 (MaxStack (wk_escrow demo_workers)) \<le> MaxSlots (wk_escrow demo_workers)" by code_simp
  show ?thesis
    using owed_delivery_succeeds [OF given_reachable demo_start demo_workers_ok given_facts(1) refl given_facts(2) f mx lock _ n [symmetric] room]
      given_facts(3)
    by (auto simp: given_leg_def)
qed


lemma sale_commits: "fst (takeTx demo_service sale_listing (demo_purchase 3) 0 (pgc listed_world)) = Inr ()"
  by code_simp

definition after_sale :: "pgdb conn" where
  "after_sale = snd (takeTx demo_service sale_listing (demo_purchase 3) 0 (pgc listed_world))"

lemma sale_run: "takeTx demo_service sale_listing (demo_purchase 3) 0 (pgc listed_world) = (Inr (), after_sale)"
  unfolding after_sale_def by (rule prod_eqI) (simp_all add: sale_commits)

theorem sale_settles_exactly_witness:
  "bal (cp_currency (data after_sale)) 8 = (97000, 0) \<and> bal (cp_currency (data after_sale)) 7 = (6940, 0)"
proof -
  have b: "book 0 0 (data (pgc listed_world))" using listed_trade_inv by (simp add: trade_inv_def)
  have i: "wallet_inv (data (pgc listed_world))" by code_simp
  have f: "fee_ok (os_fee demo_service)" by code_simp
  have z: "ScaledZenyWithinCap (li_WantZeny sale_listing) (li_TotalQuantity sale_listing)"
    "ScaledCashpointWithinCap (li_WantCashpoint sale_listing) (li_TotalQuantity sale_listing)" by code_simp+
  have bps: "fee_Bps (os_fee demo_service) = 200" by code_simp
  have B: "bal (cp_currency (data (pgc listed_world))) 7 = (4000, 0)"
    "bal (cp_currency (data (pgc listed_world))) 8 = (100000, 0)" by code_simp+
  show ?thesis
    using sale_settles_exactly [OF b i _ _ _ f z sale_run]
    by (simp add: sale_listing_facts demo_purchase_def Let_def bps B)
qed

definition free_sale :: create_input where
  "free_sale = demo_sale\<lparr>ci_WantNameID := 502\<rparr>"

definition free_world :: world where
  "free_world = snd (market_run demo_service demo_workers (Create_call free_sale) demo_world)"

theorem zero_want_unit_never_taken_witness:
  "\<exists>e. fst (offer_Take demo_service (demo_purchase 1) free_world) = Inl e"
proof (rule zero_want_unit_never_taken)
  let ?l = "hd (cp_listing (data (pgc free_world)))"
  have "cp_listing (data (pgc free_world)) = [?l]" "li_ID ?l = 1" by code_simp+
  then show "find (\<lambda>l. li_ID l = ti_ListingID (demo_purchase 1)) (cp_listing (data (pgc free_world))) = Some ?l"
    by (metis (mono_tags, lifting) find.simps(2) demo_purchase_def take_input.select_convs(1))
  show "li_WantNameID ?l \<noteq> 0" "li_WantUnitAmount ?l = 0" by code_simp+
qed

lemma stale_close_commits: "fst (closeTx sale_listing StatusCancelled after_sale) = Inr ()"
  by code_simp

theorem stale_close_overcommits_witness:
  "owed 1 (data (snd (closeTx sale_listing StatusCancelled after_sale))) = 16 \<and> held 1 (data (myc listed_world)) = 10"
proof
  have close: "closeTx sale_listing StatusCancelled after_sale = (Inr (), snd (closeTx sale_listing StatusCancelled after_sale))"
    by (rule prod_eqI) (simp_all add: stale_close_commits)
  show "owed 1 (data (snd (closeTx sale_listing StatusCancelled after_sale))) = 16"
    using stale_close_overcommits [OF listed_trade_inv _ _ _ _ _ sale_run close]
    by (simp add: sale_listing_facts demo_purchase_def)
  show "held 1 (data (myc listed_world)) = 10" by code_simp
qed

definition unlocked_world :: world where
  "unlocked_world = sold_world\<lparr>myc := (myc sold_world)\<lparr>data := (data (myc sold_world))\<lparr>cp_storage_lock := []\<rparr>\<rparr>\<rparr>"

theorem first_batch_blocks_delivery_witness:
  "data (pgc (snd (workers_Deliver demo_workers unlocked_world))) = data (pgc unlocked_world)"
proof -
  have "\<forall>g \<in> set (take (nat (wk_batch demo_workers)) (sort_key leg_ID (map se_leg
      (filter (\<lambda>s. se_status s = 1) (cp_settlement (data (pgc unlocked_world))))))). blocked_leg (data (myc unlocked_world)) g"
    by code_simp
  from first_batch_blocks_delivery [OF this, of "fst (workers_Deliver demo_workers unlocked_world)"]
  show ?thesis by simp
qed

end
