(* ===== verification/Currency_Repo.thy ===== *)
theory Currency_Repo
  imports Wallet
begin

text \<open>
  The currency store of \<open>internal/features/account/infra\<close>: \<open>postgres_currency.go\<close> (balances,
  processed deposits, withdraw requests) and the two queues shared with the game server,
  \<open>mysql_deposit.go\<close> and \<open>mysql_withdraw.go\<close>. The balances are the wallet's \<open>cp_currency\<close>.
\<close>

section \<open>Balances and the cooldown\<close>

definition currency_Balance :: "int \<Rightarrow> balance pg_prog" where
  "currency_Balance accountID =
     query Sql (\<lambda>d. case find (\<lambda>r. cu_account_id r = accountID) (cp_currency d) of
       None \<Rightarrow> \<lparr>bal_AccountID = accountID, bal_Zeny = 0, bal_Cashpoint = 0\<rparr>
     | Some r \<Rightarrow> \<lparr>bal_AccountID = cu_account_id r, bal_Zeny = cu_zeny r, bal_Cashpoint = cu_cashpoint r\<rparr>)"

definition lockCurrency :: "int \<Rightarrow> (int \<times> int \<times> int option) pg_prog" where
  "lockCurrency accountID =
     thenE (exec Sql (\<lambda>d. d\<lparr>cp_currency := ensure_currency accountID (cp_currency d)\<rparr>))
       (query_row Sql Sql (\<lambda>d.
          map_option (\<lambda>r. (cu_zeny r, cu_cashpoint r, cu_locked_until r))
            (find (\<lambda>r. cu_account_id r = accountID) (cp_currency d))))"

definition cooldownActive :: "int option \<Rightarrow> int \<Rightarrow> bool" where
  "cooldownActive until now = (case until of None \<Rightarrow> False | Some u \<Rightarrow> u > now)"

definition set_currency :: "int \<Rightarrow> int \<Rightarrow> int \<Rightarrow> int \<Rightarrow> unit pg_prog" where
  "set_currency accountID newZeny newCashpoint lockUntil =
     exec_opt Sql (\<lambda>d. map_option (\<lambda>t. d\<lparr>cp_currency := t\<rparr>)
       (upd_checked currency_check (\<lambda>r. cu_account_id r = accountID)
          (\<lambda>r. r\<lparr>cu_zeny := newZeny, cu_cashpoint := newCashpoint, cu_locked_until := Some lockUntil\<rparr>)
          (cp_currency d)))"

section \<open>Crediting deposits\<close>

text \<open>The columns of \<open>cp_deposit_processed\<close>; \<open>INSERT .. ON CONFLICT (deposit_id) DO NOTHING\<close>.\<close>

definition deposit_check :: "deposit_record \<Rightarrow> bool" where
  "deposit_check r \<longleftrightarrow> is_int64 (dr_Zeny r) \<and> - (2 ^ 31) \<le> dr_Cashpoint r \<and> dr_Cashpoint r \<le> max_int32"

definition mark_processed :: "deposit_record \<Rightarrow> pgdb \<Rightarrow> (bool \<times> pgdb) option" where
  "mark_processed r d =
     (if list_ex (\<lambda>q. dr_DepositID q = dr_DepositID r) (cp_deposit_processed d) then Some (False, d)
      else map_option (\<lambda>t. (True, d\<lparr>cp_deposit_processed := t\<rparr>))
             (ins_checked deposit_check r (cp_deposit_processed d)))"

definition creditDepositTx :: "int \<Rightarrow> int \<Rightarrow> int \<Rightarrow> int \<Rightarrow> int \<Rightarrow> int \<Rightarrow> bool pg_prog" where
  "creditDepositTx depositID accountID zeny cashpoint lockUntil now =
     bindE (lockCurrency accountID) (\<lambda>(currentZeny, currentCashpoint, lockedUntil).
       guardE (cooldownActive lockedUntil now) (Currency ErrDepositLocked)
      (bindE (sql Sql (mark_processed
          \<lparr>dr_ProcessedAt = now, dr_DepositID = depositID, dr_AccountID = accountID,
           dr_Zeny = zeny, dr_Cashpoint = cashpoint\<rparr>)) (\<lambda>fresh.
       if \<not> fresh then retE False
       else thenE (set_currency accountID (AddZenyCapped currentZeny zeny)
                     (AddCashpointCapped currentCashpoint cashpoint) lockUntil)
              (retE True))))"

definition CreditDeposit :: "int \<Rightarrow> int \<Rightarrow> int \<Rightarrow> int \<Rightarrow> int \<Rightarrow> int \<Rightarrow> bool pg_prog" where
  "CreditDeposit depositID accountID zeny cashpoint lockUntil now =
     pgTx (creditDepositTx depositID accountID zeny cashpoint lockUntil now)"

section \<open>Withdraw requests\<close>

definition insert_request :: "int \<Rightarrow> int \<Rightarrow> int \<Rightarrow> int \<Rightarrow> pgdb \<Rightarrow> (int \<times> pgdb) option" where
  "insert_request accountID zeny cashpoint now d =
     (let i = withdraw_seq (pg_seq d) + 1;
          r = \<lparr>wc_CreatedAt = now, wc_SentAt = None, wc_DeliveredAt = None, wc_ID = i,
               wc_AccountID = accountID, wc_Zeny = zeny, wc_Cashpoint = cashpoint, wc_Status = 1\<rparr>
      in map_option (\<lambda>t. (i, d\<lparr>cp_withdraw_requests := t, pg_seq := (pg_seq d)\<lparr>withdraw_seq := i\<rparr>\<rparr>))
           (ins_checked withdraw_check r (cp_withdraw_requests d)))"

definition requestWithdrawTx :: "int \<Rightarrow> int \<Rightarrow> int \<Rightarrow> int \<Rightarrow> int \<Rightarrow> int pg_prog" where
  "requestWithdrawTx accountID zeny cashpoint lockUntil now =
     bindE (lockCurrency accountID) (\<lambda>(currentZeny, currentCashpoint, lockedUntil).
       guardE (cooldownActive lockedUntil now) (Currency ErrWithdrawLocked)
      (case SubBalance currentZeny zeny currentCashpoint cashpoint of
         Inl err \<Rightarrow> failE (Currency err)
       | Inr (newZeny, newCashpoint) \<Rightarrow>
           thenE (set_currency accountID newZeny newCashpoint lockUntil)
             (sql Sql (insert_request accountID zeny cashpoint now))))"

definition repo_RequestWithdraw :: "int \<Rightarrow> int \<Rightarrow> int \<Rightarrow> int \<Rightarrow> int \<Rightarrow> int pg_prog" where
  "repo_RequestWithdraw accountID zeny cashpoint lockUntil now =
     pgTx (requestWithdrawTx accountID zeny cashpoint lockUntil now)"

definition request_of :: "withdraw_record \<Rightarrow> withdraw_request" where
  "request_of r = \<lparr>wr_ID = wc_ID r, wr_AccountID = wc_AccountID r, wr_Zeny = wc_Zeny r, wr_Cashpoint = wc_Cashpoint r\<rparr>"

text \<open>\<open>ORDER BY .. LIMIT\<close>: a negative limit is an error of the engine.\<close>

definition first_rows :: "int \<Rightarrow> ('d \<Rightarrow> 'r list) \<Rightarrow> ('d conn, err, 'r list) prog" where
  "first_rows limit rows = sql Sql (\<lambda>d. if limit < 0 then None else Some (take (nat limit) (rows d), d))"

definition PendingWithdraws :: "int \<Rightarrow> withdraw_request list pg_prog" where
  "PendingWithdraws limit = first_rows limit (\<lambda>d.
     map request_of (sort_key wc_ID (filter (\<lambda>r. wc_Status r = 1) (cp_withdraw_requests d))))"

definition MarkWithdrawSent :: "int \<Rightarrow> int \<Rightarrow> unit pg_prog" where
  "MarkWithdrawSent i now = exec Sql (\<lambda>d. d\<lparr>cp_withdraw_requests :=
     upd_where (\<lambda>r. wc_ID r = i \<and> wc_Status r = 1) (\<lambda>r. r\<lparr>wc_Status := 2, wc_SentAt := Some now\<rparr>)
       (cp_withdraw_requests d)\<rparr>)"

definition MarkWithdrawDelivered :: "int \<Rightarrow> int \<Rightarrow> bool pg_prog" where
  "MarkWithdrawDelivered i deliveredAt =
     bindE (sql Sql (\<lambda>d. Some (list_ex (\<lambda>r. wc_ID r = i \<and> wc_Status r = 2) (cp_withdraw_requests d),
        d\<lparr>cp_withdraw_requests := upd_where (\<lambda>r. wc_ID r = i \<and> wc_Status r = 2)
           (\<lambda>r. r\<lparr>wc_Status := 3, wc_DeliveredAt := Some deliveredAt\<rparr>) (cp_withdraw_requests d)\<rparr>))) (\<lambda>affected.
     if affected then retE True
     else bindE (query_row Sql Sql (\<lambda>d. map_option wc_Status
            (find (\<lambda>r. wc_ID r = i) (cp_withdraw_requests d)))) (\<lambda>status.
          retE (status = 3)))"

text \<open>\<open>sent_at < $1\<close> is not true of a row without \<open>sent_at\<close>.\<close>

definition sent_before :: "int \<Rightarrow> withdraw_record \<Rightarrow> bool" where
  "sent_before t r = (case wc_SentAt r of None \<Rightarrow> False | Some s \<Rightarrow> s < t)"

definition SentBefore :: "int \<Rightarrow> int \<Rightarrow> withdraw_record list pg_prog" where
  "SentBefore before limit = first_rows limit (\<lambda>d.
     sort_key (\<lambda>r. the (wc_SentAt r))
       (filter (\<lambda>r. wc_Status r = 2 \<and> sent_before before r) (cp_withdraw_requests d)))"

definition RecentWithdraws :: "int \<Rightarrow> int \<Rightarrow> withdraw_request list pg_prog" where
  "RecentWithdraws accountID limit = first_rows limit (\<lambda>d.
     map request_of (sort_key (\<lambda>r. - wc_ID r) (filter (\<lambda>r. wc_AccountID r = accountID) (cp_withdraw_requests d))))"

section \<open>Totals and histories\<close>

text \<open>\<open>SUM(..)::bigint\<close> is refused when the sum leaves the type.\<close>

definition Totals :: "(int \<times> int) pg_prog" where
  "Totals = sql Sql (\<lambda>d.
     let z = tsum cu_zeny (cp_currency d); c = tsum cu_cashpoint (cp_currency d)
     in if is_int64 z \<and> is_int64 c then Some ((z, c), d) else None)"

definition counted_page :: "(pgdb \<Rightarrow> 'r list) \<Rightarrow> int \<Rightarrow> int \<Rightarrow> ('r list \<times> int) pg_prog" where
  "counted_page rows limit offset =
     bindE (query Sql (\<lambda>d. int (length (rows d)))) (\<lambda>total.
     bindE (sql Sql (\<lambda>d. if limit < 0 \<or> offset < 0 then None
              else Some (take (nat limit) (drop (nat offset) (rows d)), d))) (\<lambda>records.
     retE (records, total)))"

text \<open>\<open>ORDER BY processed_at DESC, deposit_id DESC\<close>\<close>

definition deposit_order :: "deposit_record list \<Rightarrow> deposit_record list" where
  "deposit_order t = sort_key (\<lambda>r. - dr_ProcessedAt r) (sort_key (\<lambda>r. - dr_DepositID r) t)"

definition ListDeposits :: "int \<Rightarrow> int \<Rightarrow> (deposit_record list \<times> int) pg_prog" where
  "ListDeposits limit offset = counted_page (\<lambda>d. deposit_order (cp_deposit_processed d)) limit offset"

definition ListWithdraws :: "int \<Rightarrow> int \<Rightarrow> (withdraw_record list \<times> int) pg_prog" where
  "ListWithdraws limit offset = counted_page (\<lambda>d. sort_key (\<lambda>r. - wc_ID r) (cp_withdraw_requests d)) limit offset"

definition ListDepositsByAccount :: "int \<Rightarrow> int \<Rightarrow> int \<Rightarrow> (deposit_record list \<times> int) pg_prog" where
  "ListDepositsByAccount accountID limit offset = counted_page (\<lambda>d.
     deposit_order (filter (\<lambda>r. dr_AccountID r = accountID) (cp_deposit_processed d))) limit offset"

definition ListWithdrawsByAccount :: "int \<Rightarrow> int \<Rightarrow> int \<Rightarrow> (withdraw_record list \<times> int) pg_prog" where
  "ListWithdrawsByAccount accountID limit offset = counted_page (\<lambda>d.
     sort_key (\<lambda>r. - wc_ID r) (filter (\<lambda>r. wc_AccountID r = accountID) (cp_withdraw_requests d))) limit offset"

section \<open>The queues shared with the game server\<close>

definition deposit_Batch :: "int \<Rightarrow> deposit_row list my_prog" where
  "deposit_Batch limit = first_rows limit (\<lambda>d. sort_key dep_ID (cp_deposit d))"

definition deposit_Delete :: "int \<Rightarrow> unit my_prog" where
  "deposit_Delete i = exec Sql (\<lambda>d. d\<lparr>cp_deposit := del_where (\<lambda>r. dep_ID r = i) (cp_deposit d)\<rparr>)"

text \<open>\<open>INSERT .. ON DUPLICATE KEY UPDATE id = id\<close> leaves an existing row as it is.\<close>

definition withdraw_Insert :: "int \<Rightarrow> int \<Rightarrow> int \<Rightarrow> int \<Rightarrow> unit my_prog" where
  "withdraw_Insert i accountID zeny points = exec Sql (\<lambda>d.
     if list_ex (\<lambda>r. wq_id r = i) (cp_withdraw d) then d
     else d\<lparr>cp_withdraw := cp_withdraw d @ [\<lparr>wq_id = i, wq_account_id = accountID, wq_zeny = zeny,
            wq_points = points, wq_delivered_at = 0\<rparr>]\<rparr>)"

definition withdraw_Delivered :: "int \<Rightarrow> delivered_withdraw list my_prog" where
  "withdraw_Delivered limit = first_rows limit (\<lambda>d.
     map (\<lambda>r. \<lparr>dw_ID = wq_id r, dw_DeliveredAt = wq_delivered_at r, dw_Zeny = wq_zeny r, dw_Points = wq_points r\<rparr>)
       (sort_key wq_id (filter (\<lambda>r. wq_delivered_at r > 0) (cp_withdraw d))))"

definition ResetDelivered :: "int \<Rightarrow> unit my_prog" where
  "ResetDelivered i = exec Sql (\<lambda>d. d\<lparr>cp_withdraw :=
     upd_where (\<lambda>r. wq_id r = i) (\<lambda>r. r\<lparr>wq_delivered_at := 0\<rparr>) (cp_withdraw d)\<rparr>)"

definition withdraw_Delete :: "int \<Rightarrow> unit my_prog" where
  "withdraw_Delete i = exec Sql (\<lambda>d. d\<lparr>cp_withdraw := del_where (\<lambda>r. wq_id r = i) (cp_withdraw d)\<rparr>)"

end
