(* ===== verification/Currency_Bridge.thy ===== *)
theory Currency_Bridge
  imports Currency_Repo
begin

text \<open>
  The currency bridge of \<open>internal/features/account/app/currency\<close>: the service players and
  staff call (\<open>service.go\<close>, \<open>economy.go\<close>) and the two workers that exchange money with the
  game server (\<open>deposit_worker.go\<close>, \<open>withdraw_worker.go\<close>).

  The workers run while everything else does. Before each of their database calls the other
  parties may act: the schedule of a run lists, call by call, what they do in between. The
  game server's part is \<open>ra-files/script\<close>; what it has taken from players and given to them
  is recorded beside the databases.
\<close>

section \<open>The service\<close>

record currency_service =
  cs_bridge :: "unit app option"
  cs_cooldown :: int
  cs_reapAfter :: int
  cs_maxZeny :: int
  cs_maxCashpoint :: int

datatype currency_option =
    WithCooldown int
  | WithLimits int int
  | WithBridge "unit app"
  | WithReapAfter int

primrec apply_currency_option :: "currency_option \<Rightarrow> currency_service \<Rightarrow> currency_service" where
  "apply_currency_option (WithCooldown d) s = s\<lparr>cs_cooldown := d\<rparr>"
| "apply_currency_option (WithLimits maxZeny maxCashpoint) s =
     s\<lparr>cs_maxZeny := maxZeny, cs_maxCashpoint := maxCashpoint\<rparr>"
| "apply_currency_option (WithBridge pinger) s = s\<lparr>cs_bridge := Some pinger\<rparr>"
| "apply_currency_option (WithReapAfter d) s = s\<lparr>cs_reapAfter := d\<rparr>"

definition NewCurrencyService :: "currency_option list \<Rightarrow> currency_service" where
  "NewCurrencyService opts = fold apply_currency_option opts
     \<lparr>cs_bridge = None, cs_cooldown = 0, cs_reapAfter = 0, cs_maxZeny = 0, cs_maxCashpoint = 0\<rparr>"

definition app_clock :: "int app" where
  "app_clock w = (Inr (app_now w), w)"

definition currency_service_Balance :: "int \<Rightarrow> (int \<times> int) app" where
  "currency_service_Balance accountID =
     bindE (onPg (currency_Balance accountID)) (\<lambda>b. retE (bal_Zeny b, bal_Cashpoint b))"

definition RequestWithdraw :: "currency_service \<Rightarrow> int \<Rightarrow> int \<Rightarrow> int \<Rightarrow> unit app" where
  "RequestWithdraw s accountID zeny cashpoint =
     guardE (zeny < 0 \<or> cashpoint < 0) (Currency ErrCurrencyInvalidAmount)
    (guardE (zeny = 0 \<and> cashpoint = 0) (Currency ErrCurrencyInvalidAmount)
    (guardE (zeny > cs_maxZeny s \<or> cashpoint > cs_maxCashpoint s) (Currency ErrCurrencyInvalidAmount)
    (thenE (case cs_bridge s of
              None \<Rightarrow> retE ()
            | Some ping \<Rightarrow>
                bindE (tryE ping) (\<lambda>r. case r of
                  Inl _ \<Rightarrow> failE (Currency ErrBridgeUnavailable) | Inr _ \<Rightarrow> retE ()))
    (bindE app_clock (\<lambda>now.
     bindE (onPg (repo_RequestWithdraw accountID zeny cashpoint (now + cs_cooldown s) now)) (\<lambda>_.
     retE ()))))))"

record withdraw_dto =
  wd_ID :: int
  wd_Zeny :: int
  wd_Cashpoint :: int

definition service_RecentWithdraws :: "int \<Rightarrow> int \<Rightarrow> withdraw_dto list app" where
  "service_RecentWithdraws accountID limit =
     bindE (onPg (RecentWithdraws accountID limit)) (\<lambda>requests.
       retE (map (\<lambda>r. \<lparr>wd_ID = wr_ID r, wd_Zeny = wr_Zeny r, wd_Cashpoint = wr_Cashpoint r\<rparr>) requests))"

section \<open>The staff's view\<close>

record deposit_dto =
  dd_ProcessedAt :: int
  dd_Email :: string
  dd_DepositID :: int
  dd_AccountID :: int
  dd_Zeny :: int
  dd_Cashpoint :: int

record admin_withdraw_dto =
  aw_CreatedAt :: int
  aw_SentAt :: "int option"
  aw_DeliveredAt :: "int option"
  aw_Email :: string
  aw_ID :: int
  aw_AccountID :: int
  aw_Zeny :: int
  aw_Cashpoint :: int
  aw_Status :: int

record 'r history_page =
  hp_Rows :: "'r list"
  hp_Total :: int
  hp_Page :: int
  hp_PerPage :: int
  hp_TotalPages :: int

definition toDepositDTOs :: "deposit_record list \<Rightarrow> deposit_dto list" where
  "toDepositDTOs records = map (\<lambda>r. \<lparr>dd_ProcessedAt = dr_ProcessedAt r, dd_Email = [],
     dd_DepositID = dr_DepositID r, dd_AccountID = dr_AccountID r, dd_Zeny = dr_Zeny r,
     dd_Cashpoint = dr_Cashpoint r\<rparr>) records"

definition toWithdrawDTOs :: "withdraw_record list \<Rightarrow> admin_withdraw_dto list" where
  "toWithdrawDTOs records = map (\<lambda>r. \<lparr>aw_CreatedAt = wc_CreatedAt r, aw_SentAt = wc_SentAt r,
     aw_DeliveredAt = wc_DeliveredAt r, aw_Email = [], aw_ID = wc_ID r, aw_AccountID = wc_AccountID r,
     aw_Zeny = wc_Zeny r, aw_Cashpoint = wc_Cashpoint r, aw_Status = wc_Status r\<rparr>) records"

definition normalizePage :: "int \<Rightarrow> int" where
  "normalizePage page = (if page < 1 then 1 else page)"

definition pageCount :: "int \<Rightarrow> int \<Rightarrow> int" where
  "pageCount n perPage =
     (if perPage \<le> 0 then 0 else go_div (wrap64 (wrap64 (n + perPage) - 1)) perPage)"

definition page_offset :: "int \<Rightarrow> int \<Rightarrow> int" where
  "page_offset page perPage = wrap64 (wrap64 (page - 1) * perPage)"

definition history :: "('r list \<Rightarrow> 'd list) \<Rightarrow> (int \<Rightarrow> int \<Rightarrow> ('r list \<times> int) pg_prog) \<Rightarrow> int \<Rightarrow> int \<Rightarrow> 'd history_page app" where
  "history dto listing page0 perPage =
     (let page = normalizePage page0
      in bindE (onPg (listing perPage (page_offset page perPage))) (\<lambda>(records, found).
           retE \<lparr>hp_Rows = dto records, hp_Total = found, hp_Page = page, hp_PerPage = perPage,
                 hp_TotalPages = pageCount found perPage\<rparr>))"

definition DepositHistory :: "int \<Rightarrow> int \<Rightarrow> deposit_dto history_page app" where
  "DepositHistory page perPage = history toDepositDTOs ListDeposits page perPage"

definition WithdrawHistory :: "int \<Rightarrow> int \<Rightarrow> admin_withdraw_dto history_page app" where
  "WithdrawHistory page perPage = history toWithdrawDTOs ListWithdraws page perPage"

definition DepositHistoryByAccount :: "int \<Rightarrow> int \<Rightarrow> int \<Rightarrow> deposit_dto history_page app" where
  "DepositHistoryByAccount accountID page perPage =
     history toDepositDTOs (ListDepositsByAccount accountID) page perPage"

definition WithdrawHistoryByAccount :: "int \<Rightarrow> int \<Rightarrow> int \<Rightarrow> admin_withdraw_dto history_page app" where
  "WithdrawHistoryByAccount accountID page perPage =
     history toWithdrawDTOs (ListWithdrawsByAccount accountID) page perPage"

definition stuckWithdrawLimit :: int where "stuckWithdrawLimit = 50"

definition StuckWithdraws :: "currency_service \<Rightarrow> admin_withdraw_dto list app" where
  "StuckWithdraws s =
     (if cs_reapAfter s \<le> 0 then retE []
      else bindE app_clock (\<lambda>now.
           bindE (onPg (SentBefore (now - cs_reapAfter s) stuckWithdrawLimit)) (\<lambda>records.
           retE (toWithdrawDTOs records))))"

definition service_Totals :: "(int \<times> int) app" where
  "service_Totals = onPg Totals"

section \<open>The other parties\<close>

text \<open>
  What can happen between two database calls of a worker. The \<open>Game_\<close> events are the
  statements of \<open>ra-files/script\<close>: a player's deposit becomes a row of \<open>cp_deposit\<close>; the poller
  pays out the zeny, then the points, of a row of \<open>cp_withdraw\<close> and sets what it paid to zero;
  it closes the row. It may close a row it has not emptied. A pay-out, the script's update of the
  row and its credit, is one event: that the script's own statements are lost is not modelled. The panel's events are the
  request of a player's withdrawal, a wallet call, cash points bought through billing, and the
  single calls of the two workers, so that each worker can be run beside the other.
\<close>

datatype bridge_event =
    Time_passes nat
  | Game_deposits int int int
  | Game_pays_zeny int
  | Game_pays_points int
  | Game_closes int nat
  | Player_withdraws int int int int int
  | Wallet_call wallet_op
  | Points_bought int int
  | Deposit_credited deposit_row int int
  | Deposit_deleted int
  | Withdraw_inserted int int int int
  | Withdraw_sent int int
  | Withdraw_delivered int int
  | Withdraw_reset int
  | Withdraw_deleted int

primrec by_deposit_worker :: "bridge_event \<Rightarrow> bool" where
  "by_deposit_worker (Time_passes _) = False"
| "by_deposit_worker (Game_deposits _ _ _) = False"
| "by_deposit_worker (Game_pays_zeny _) = False"
| "by_deposit_worker (Game_pays_points _) = False"
| "by_deposit_worker (Game_closes _ _) = False"
| "by_deposit_worker (Player_withdraws _ _ _ _ _) = False"
| "by_deposit_worker (Wallet_call _) = False"
| "by_deposit_worker (Points_bought _ _) = False"
| "by_deposit_worker (Deposit_credited _ _ _) = True"
| "by_deposit_worker (Deposit_deleted _) = True"
| "by_deposit_worker (Withdraw_inserted _ _ _ _) = False"
| "by_deposit_worker (Withdraw_sent _ _) = False"
| "by_deposit_worker (Withdraw_delivered _ _) = False"
| "by_deposit_worker (Withdraw_reset _) = False"
| "by_deposit_worker (Withdraw_deleted _) = False"

primrec by_withdraw_worker :: "bridge_event \<Rightarrow> bool" where
  "by_withdraw_worker (Time_passes _) = False"
| "by_withdraw_worker (Game_deposits _ _ _) = False"
| "by_withdraw_worker (Game_pays_zeny _) = False"
| "by_withdraw_worker (Game_pays_points _) = False"
| "by_withdraw_worker (Game_closes _ _) = False"
| "by_withdraw_worker (Player_withdraws _ _ _ _ _) = False"
| "by_withdraw_worker (Wallet_call _) = False"
| "by_withdraw_worker (Points_bought _ _) = False"
| "by_withdraw_worker (Deposit_credited _ _ _) = False"
| "by_withdraw_worker (Deposit_deleted _) = False"
| "by_withdraw_worker (Withdraw_inserted _ _ _ _) = True"
| "by_withdraw_worker (Withdraw_sent _ _) = True"
| "by_withdraw_worker (Withdraw_delivered _ _) = True"
| "by_withdraw_worker (Withdraw_reset _) = True"
| "by_withdraw_worker (Withdraw_deleted _) = True"

record bridge =
  br_world :: world
  br_schedule :: "bridge_event list list"
  br_paid :: "int \<Rightarrow> int \<times> int"
  br_posted :: "deposit_row list"
  br_bought :: "(int \<times> int) list"
  br_others :: "(currency_row list \<times> currency_row list) list"

abbreviation pg_of :: "bridge \<Rightarrow> pgdb" where "pg_of b \<equiv> data (pgc (br_world b))"
abbreviation my_of :: "bridge \<Rightarrow> mydb" where "my_of b \<equiv> data (myc (br_world b))"

definition in_world :: "'a app \<Rightarrow> bridge \<Rightarrow> bridge" where
  "in_world m b = b\<lparr>br_world := snd (m (br_world b))\<rparr>"

definition in_game :: "(mydb \<Rightarrow> mydb) \<Rightarrow> bridge \<Rightarrow> bridge" where
  "in_game f b = (let w = br_world b; c = myc w in b\<lparr>br_world := w\<lparr>myc := c\<lparr>data := f (data c)\<rparr>\<rparr>\<rparr>)"

text \<open>The id of the next deposit: \<open>AUTO_INCREMENT\<close> goes past every id it has given.\<close>

definition next_deposit :: "deposit_row list \<Rightarrow> int" where
  "next_deposit t = foldr (\<lambda>r m. max (dep_ID r) m) t 0 + 1"

definition game_deposits :: "int \<Rightarrow> int \<Rightarrow> int \<Rightarrow> bridge \<Rightarrow> bridge" where
  "game_deposits accountID zeny points b =
     (let r = \<lparr>dep_ID = next_deposit (br_posted b), dep_AccountID = accountID, dep_Zeny = zeny, dep_Points = points\<rparr>
      in (in_game (\<lambda>d. d\<lparr>cp_deposit := cp_deposit d @ [r]\<rparr>) b)\<lparr>br_posted := br_posted b @ [r]\<rparr>)"

definition game_pays :: "bool \<Rightarrow> int \<Rightarrow> bridge \<Rightarrow> bridge" where
  "game_pays zeny i b =
     (case find (\<lambda>r. wq_id r = i) (cp_withdraw (my_of b)) of
        None \<Rightarrow> b
      | Some q \<Rightarrow>
          if wq_delivered_at q \<noteq> 0 then b
          else if zeny
          then (in_game (\<lambda>d. d\<lparr>cp_withdraw := upd_where (\<lambda>r. wq_id r = i) (\<lambda>r. r\<lparr>wq_zeny := 0\<rparr>) (cp_withdraw d)\<rparr>) b)
                 \<lparr>br_paid := (br_paid b)(i := (fst (br_paid b i) + wq_zeny q, snd (br_paid b i)))\<rparr>
          else (in_game (\<lambda>d. d\<lparr>cp_withdraw := upd_where (\<lambda>r. wq_id r = i) (\<lambda>r. r\<lparr>wq_points := 0\<rparr>) (cp_withdraw d)\<rparr>) b)
                 \<lparr>br_paid := (br_paid b)(i := (fst (br_paid b i), snd (br_paid b i) + wq_points q))\<rparr>)"

text \<open>
  What \<open>Complete\<close> of \<open>billing/infra/postgres_purchase.go\<close> does to the balances: the cash points
  of a paid purchase, in one transaction. The purchases that took effect are recorded.
\<close>

definition buyPoints :: "int \<Rightarrow> int \<Rightarrow> unit pg_prog" where
  "buyPoints accountID cashPoints =
     pgTx (thenE (exec Sql (\<lambda>d. d\<lparr>cp_currency := ensure_currency accountID (cp_currency d)\<rparr>))
       (exec_opt Sql (\<lambda>d. map_option (\<lambda>t. d\<lparr>cp_currency := t\<rparr>)
          (upd_checked currency_check (\<lambda>q. cu_account_id q = accountID)
             (\<lambda>q. q\<lparr>cu_cashpoint := cu_cashpoint q + cashPoints\<rparr>) (cp_currency d)))))"

definition points_bought :: "int \<Rightarrow> int \<Rightarrow> bridge \<Rightarrow> bridge" where
  "points_bought a n b =
     (let c = in_world (onPg (buyPoints a n)) b
      in if pg_of c = pg_of b then c else c\<lparr>br_bought := br_bought b @ [(a, n)]\<rparr>)"

definition game_closes :: "int \<Rightarrow> nat \<Rightarrow> bridge \<Rightarrow> bridge" where
  "game_closes i t = in_game (\<lambda>d. d\<lparr>cp_withdraw :=
     upd_where (\<lambda>r. wq_id r = i) (\<lambda>r. r\<lparr>wq_delivered_at := int t\<rparr>) (cp_withdraw d)\<rparr>)"

primrec run_event :: "bridge_event \<Rightarrow> bridge \<Rightarrow> bridge" where
  "run_event (Time_passes n) b = b\<lparr>br_world := (br_world b)\<lparr>app_now := app_now (br_world b) + int n\<rparr>\<rparr>"
| "run_event (Game_deposits a z p) b = game_deposits a z p b"
| "run_event (Game_pays_zeny i) b = game_pays True i b"
| "run_event (Game_pays_points i) b = game_pays False i b"
| "run_event (Game_closes i t) b = game_closes i t b"
| "run_event (Player_withdraws a z c until now) b = in_world (onPg (repo_RequestWithdraw a z c until now)) b"
| "run_event (Wallet_call x) b = in_world (onPg (run_wallet_op x)) b"
| "run_event (Points_bought a n) b = points_bought a n b"
| "run_event (Deposit_credited r lockUntil now) b =
     in_world (onPg (CreditDeposit (dep_ID r) (dep_AccountID r) (dep_Zeny r) (dep_Points r) lockUntil now)) b"
| "run_event (Deposit_deleted i) b = in_world (onMy (deposit_Delete i)) b"
| "run_event (Withdraw_inserted i a z p) b = in_world (onMy (withdraw_Insert i a z p)) b"
| "run_event (Withdraw_sent i now) b = in_world (onPg (MarkWithdrawSent i now)) b"
| "run_event (Withdraw_delivered i t) b = in_world (onPg (MarkWithdrawDelivered i t)) b"
| "run_event (Withdraw_reset i) b = in_world (onMy (ResetDelivered i)) b"
| "run_event (Withdraw_deleted i) b = in_world (onMy (withdraw_Delete i)) b"

type_synonym 'a bridge_prog = "(bridge, err, 'a) prog"

text \<open>
  A worker's call: first what the schedule has the others do, then the call itself. The
  balances before and after the others' turn are recorded.
\<close>

definition interfere :: "bridge \<Rightarrow> bridge" where
  "interfere b = (case br_schedule b of [] \<Rightarrow> b
     | es # rest \<Rightarrow>
         (let c = fold run_event es (b\<lparr>br_schedule := rest\<rparr>)
          in c\<lparr>br_others := br_others b @ [(cp_currency (pg_of b), cp_currency (pg_of c))]\<rparr>))"

definition call :: "'a app \<Rightarrow> 'a bridge_prog" where
  "call m b = (let c = interfere b in case m (br_world c) of (r, w) \<Rightarrow> (r, c\<lparr>br_world := w\<rparr>))"

text \<open>A call whose error is logged and whose result is used only on success.\<close>

definition logged :: "'a app \<Rightarrow> 'a option bridge_prog" where
  "logged m = bindE (tryE (call m)) (\<lambda>r. retE (case r of Inl _ \<Rightarrow> None | Inr x \<Rightarrow> Some x))"

definition bridge_now :: "int bridge_prog" where
  "bridge_now b = (Inr (app_now (br_world b)), b)"

section \<open>deposit_worker.go\<close>

record deposit_worker =
  dwk_Cooldown :: int
  dwk_Batch :: int

definition NewDepositWorker :: "deposit_worker \<Rightarrow> deposit_worker" where
  "NewDepositWorker cfg = (if dwk_Batch cfg \<le> 0 then cfg\<lparr>dwk_Batch := 100\<rparr> else cfg)"

definition validDepositRow :: "deposit_row \<Rightarrow> bool" where
  "validDepositRow r =
     (if dep_Zeny r < 0 \<or> dep_Points r < 0 then False else dep_Zeny r > 0 \<or> dep_Points r > 0)"

definition deleteDeposit :: "int \<Rightarrow> unit bridge_prog" where
  "deleteDeposit i = bindE (logged (onMy (deposit_Delete i))) (\<lambda>_. retE ())"

definition applyDeposit :: "deposit_worker \<Rightarrow> deposit_row \<Rightarrow> bool bridge_prog" where
  "applyDeposit w r =
     bindE bridge_now (\<lambda>now.
     bindE (tryE (call (onPg (CreditDeposit (dep_ID r) (dep_AccountID r) (dep_Zeny r) (dep_Points r)
        (now + dwk_Cooldown w) now)))) (\<lambda>res.
     case res of
       Inr _ \<Rightarrow> retE True
     | Inl e \<Rightarrow> if e = Currency ErrDepositLocked then retE False else retE False))"

primrec drainDeposits :: "deposit_worker \<Rightarrow> deposit_row list \<Rightarrow> unit bridge_prog" where
  "drainDeposits w [] = retE ()"
| "drainDeposits w (r # rows) =
     thenE (if \<not> validDepositRow r then deleteDeposit (dep_ID r)
            else bindE (applyDeposit w r) (\<lambda>remove.
                 if remove then deleteDeposit (dep_ID r) else retE ()))
       (drainDeposits w rows)"

definition deposit_drainOnce :: "deposit_worker \<Rightarrow> unit bridge_prog" where
  "deposit_drainOnce w =
     bindE (logged (onMy (deposit_Batch (dwk_Batch w)))) (\<lambda>rows.
       case rows of None \<Rightarrow> retE () | Some rs \<Rightarrow> drainDeposits w rs)"

text \<open>\<open>runLoop\<close>: a tick at once and one for each of the \<open>n\<close> times the ticker fires before the shutdown.\<close>

primrec runLoop :: "nat \<Rightarrow> unit bridge_prog \<Rightarrow> unit bridge_prog" where
  "runLoop 0 tick = tick"
| "runLoop (Suc n) tick = thenE tick (runLoop n tick)"

section \<open>withdraw_worker.go\<close>

record withdraw_worker =
  wwk_ReapAfter :: int
  wwk_Batch :: int

definition NewWithdrawWorker :: "withdraw_worker \<Rightarrow> withdraw_worker" where
  "NewWithdrawWorker cfg = (if wwk_Batch cfg \<le> 0 then cfg\<lparr>wwk_Batch := 100\<rparr> else cfg)"

primrec enqueueAll :: "withdraw_request list \<Rightarrow> unit bridge_prog" where
  "enqueueAll [] = retE ()"
| "enqueueAll (r # rs) =
     bindE (logged (onMy (withdraw_Insert (wr_ID r) (wr_AccountID r) (wr_Zeny r) (wr_Cashpoint r)))) (\<lambda>ok.
       case ok of
         None \<Rightarrow> enqueueAll rs
       | Some _ \<Rightarrow>
           bindE bridge_now (\<lambda>now.
           bindE (logged (onPg (MarkWithdrawSent (wr_ID r) now))) (\<lambda>_. enqueueAll rs)))"

definition enqueue :: "withdraw_worker \<Rightarrow> unit bridge_prog" where
  "enqueue w =
     bindE (logged (onPg (PendingWithdraws (wwk_Batch w)))) (\<lambda>requests.
       case requests of None \<Rightarrow> retE () | Some rs \<Rightarrow> enqueueAll rs)"

primrec confirmAll :: "delivered_withdraw list \<Rightarrow> unit bridge_prog" where
  "confirmAll [] = retE ()"
| "confirmAll (r # rs) =
     (if dw_Zeny r \<noteq> 0 \<or> dw_Points r \<noteq> 0
      then bindE (logged (onMy (ResetDelivered (dw_ID r)))) (\<lambda>_. confirmAll rs)
      else bindE (logged (onPg (MarkWithdrawDelivered (dw_ID r) (dw_DeliveredAt r)))) (\<lambda>delivered.
           if delivered = Some True
           then bindE (logged (onMy (withdraw_Delete (dw_ID r)))) (\<lambda>_. confirmAll rs)
           else confirmAll rs))"

definition confirm :: "withdraw_worker \<Rightarrow> unit bridge_prog" where
  "confirm w =
     bindE (logged (onMy (withdraw_Delivered (wwk_Batch w)))) (\<lambda>delivered.
       case delivered of None \<Rightarrow> retE () | Some rs \<Rightarrow> confirmAll rs)"

primrec reinsertAll :: "withdraw_record list \<Rightarrow> unit bridge_prog" where
  "reinsertAll [] = retE ()"
| "reinsertAll (r # rs) =
     bindE (logged (onMy (withdraw_Insert (wc_ID r) (wc_AccountID r) (wc_Zeny r) (wc_Cashpoint r)))) (\<lambda>_.
       reinsertAll rs)"

definition reap :: "withdraw_worker \<Rightarrow> unit bridge_prog" where
  "reap w =
     (if wwk_ReapAfter w \<le> 0 then retE ()
      else bindE bridge_now (\<lambda>now.
           bindE (logged (onPg (SentBefore (now - wwk_ReapAfter w) (wwk_Batch w)))) (\<lambda>stale.
             case stale of None \<Rightarrow> retE () | Some rs \<Rightarrow> reinsertAll rs)))"

definition withdraw_drainOnce :: "withdraw_worker \<Rightarrow> unit bridge_prog" where
  "withdraw_drainOnce w = thenE (enqueue w) (thenE (confirm w) (reap w))"

end
