(* ===== verification/Currency_Ledger.thy ===== *)
theory Currency_Ledger
  imports Currency_Repo
begin

text \<open>
  The contract of the currency store: a bank that knows, beside the wallet's ledger, the
  cooldown of every account, the deposits it has credited and the withdrawals requested of it.
  Every operation is a step of the bank, credits a deposit at most once and debits a request
  when it records it.
\<close>

section \<open>The bank\<close>

record bank =
  bk_ledger :: ledger
  bk_lock :: "int \<Rightarrow> int option"
  bk_done :: "deposit_record list"
  bk_reqs :: "withdraw_record list"

definition lock_of :: "currency_row list \<Rightarrow> int \<Rightarrow> int option" where
  "lock_of t a = (case find (\<lambda>r. cu_account_id r = a) t of None \<Rightarrow> None | Some r \<Rightarrow> cu_locked_until r)"

definition bank_of :: "pgdb \<Rightarrow> bank" where
  "bank_of d = \<lparr>bk_ledger = ledger_of d, bk_lock = lock_of (cp_currency d),
     bk_done = cp_deposit_processed d, bk_reqs = cp_withdraw_requests d\<rparr>"

definition requests_inv :: "int \<Rightarrow> withdraw_record list \<Rightarrow> bool" where
  "requests_inv n t \<longleftrightarrow> uniq wc_ID t \<and>
     (\<forall>r \<in> set t. 0 < wc_ID r \<and> wc_ID r \<le> n \<and> withdraw_check r \<and> wc_Status r \<in> {1, 2, 3})"

definition bank_inv :: "pgdb \<Rightarrow> bool" where
  "bank_inv d \<longleftrightarrow> wallet_inv d \<and> 0 \<le> withdraw_seq (pg_seq d) \<and>
     uniq dr_DepositID (cp_deposit_processed d) \<and> (\<forall>r \<in> set (cp_deposit_processed d). deposit_check r) \<and>
     requests_inv (withdraw_seq (pg_seq d)) (cp_withdraw_requests d)"

datatype currency_op =
    OpCredit int int int int int int
  | OpRequest int int int int int
  | OpSent int int
  | OpDelivered int int
  | OpWallet wallet_op

primrec run_currency_op :: "currency_op \<Rightarrow> unit pg_prog" where
  "run_currency_op (OpCredit i a z c lockUntil now) = bindE (CreditDeposit i a z c lockUntil now) (\<lambda>_. retE ())"
| "run_currency_op (OpRequest a z c lockUntil now) = bindE (repo_RequestWithdraw a z c lockUntil now) (\<lambda>_. retE ())"
| "run_currency_op (OpSent i now) = MarkWithdrawSent i now"
| "run_currency_op (OpDelivered i t) = bindE (MarkWithdrawDelivered i t) (\<lambda>_. retE ())"
| "run_currency_op (OpWallet x) = run_wallet_op x"

text \<open>Setting an account's balance together with its cooldown.\<close>

definition lput :: "int \<Rightarrow> int \<times> int \<Rightarrow> ledger \<Rightarrow> ledger" where
  "lput a p L = L\<lparr>lg_bal := (lg_bal L)(a := p)\<rparr>"

inductive currency_step :: "currency_op \<Rightarrow> bank \<Rightarrow> bank \<Rightarrow> bool" where
  credit: "i \<notin> dr_DepositID ` set (bk_done B) \<Longrightarrow> \<not> cooldownActive (bk_lock B a) now \<Longrightarrow>
    lg_bal (bk_ledger B) a = (bz, bc) \<Longrightarrow>
    currency_step (OpCredit i a z c until now) B
      (B\<lparr>bk_ledger := lput a (min max_int64 (bz + max 0 z), min max_int32 (bc + max 0 c)) (bk_ledger B),
         bk_lock := (bk_lock B)(a := Some until),
         bk_done := bk_done B @ [\<lparr>dr_ProcessedAt = now, dr_DepositID = i, dr_AccountID = a, dr_Zeny = z, dr_Cashpoint = c\<rparr>]\<rparr>)"
| repeated: "i \<in> dr_DepositID ` set (bk_done B) \<Longrightarrow> \<not> cooldownActive (bk_lock B a) now \<Longrightarrow>
    currency_step (OpCredit i a z c until now) B B"
| request: "\<not> cooldownActive (bk_lock B a) now \<Longrightarrow> lg_bal (bk_ledger B) a = (bz, bc) \<Longrightarrow>
    0 \<le> z \<Longrightarrow> z \<le> bz \<Longrightarrow> 0 \<le> c \<Longrightarrow> c \<le> bc \<Longrightarrow> i \<notin> wc_ID ` set (bk_reqs B) \<Longrightarrow>
    currency_step (OpRequest a z c until now) B
      (B\<lparr>bk_ledger := lput a (bz - z, bc - c) (bk_ledger B), bk_lock := (bk_lock B)(a := Some until),
         bk_reqs := bk_reqs B @ [\<lparr>wc_CreatedAt = now, wc_SentAt = None, wc_DeliveredAt = None, wc_ID = i,
               wc_AccountID = a, wc_Zeny = z, wc_Cashpoint = c, wc_Status = 1\<rparr>]\<rparr>)"
| sent: "currency_step (OpSent i now) B (B\<lparr>bk_reqs := upd_where (\<lambda>r. wc_ID r = i \<and> wc_Status r = 1)
    (\<lambda>r. r\<lparr>wc_Status := 2, wc_SentAt := Some now\<rparr>) (bk_reqs B)\<rparr>)"
| delivered: "currency_step (OpDelivered i t) B (B\<lparr>bk_reqs := upd_where (\<lambda>r. wc_ID r = i \<and> wc_Status r = 2)
    (\<lambda>r. r\<lparr>wc_Status := 3, wc_DeliveredAt := Some t\<rparr>) (bk_reqs B)\<rparr>)"
| wallet: "ledger_step x (bk_ledger B) L \<Longrightarrow> currency_step (OpWallet x) B (B\<lparr>bk_ledger := L\<rparr>)"

inductive_cases currency_stepE: "currency_step x A B"

section \<open>What the wallet leaves alone\<close>

definition aside :: "pgdb \<Rightarrow> pgdb \<Rightarrow> bool" where
  "aside a b \<longleftrightarrow> lock_of (cp_currency b) = lock_of (cp_currency a) \<and>
     cp_deposit_processed b = cp_deposit_processed a \<and> cp_withdraw_requests b = cp_withdraw_requests a \<and>
     withdraw_seq (pg_seq b) = withdraw_seq (pg_seq a)"

interpretation aside: store pg_rb aside
  by unfold_locales (auto simp: aside_def pg_rb_def)

lemma lock_of_ensure [simp]: "lock_of (ensure_currency a t) = lock_of t"
proof
  fix b
  show "lock_of (ensure_currency a t) b = lock_of t b"
    by (cases rule: ensure_cases [of a t]) (auto simp: lock_of_def find_append split: option.splits)
qed

lemma lock_of_upd:
  "(\<And>q. cu_account_id (f q) = cu_account_id q) \<Longrightarrow> (\<And>q. cu_locked_until (f q) = cu_locked_until q) \<Longrightarrow>
   lock_of (upd_where (\<lambda>r. cu_account_id r = a) f t) = lock_of t"
  by (rule ext) (auto simp: lock_of_def find_upd_row split: option.splits)

lemma lockBalance_aside [intro]: "steps aside (lockBalance a)"
  unfolding lockBalance_def by (intro aside.grows_then aside.grows_exec aside.grows_query_row) (simp add: aside_def)

lemma applyDebit_aside [intro]: "steps aside (applyDebit a cz cc z c)"
  unfolding applyDebit_def
  by (intro aside.grows_guard aside.grows_exec_opt) (auto simp: aside_def upd_checked_Some lock_of_upd)

lemma applyCredit_aside [intro]: "steps aside (applyCredit a cz cc z c)"
  unfolding applyCredit_def
  by (auto split: sum.split intro!: aside.grows_exec_opt simp: aside_def upd_checked_Some lock_of_upd)

lemma debitBalance_aside [intro]: "steps aside (debitBalance a z c)"
  unfolding debitBalance_def by (auto intro: aside.grows_bind)

lemma creditBalance_aside [intro]: "steps aside (creditBalance a z c)"
  unfolding creditBalance_def by (auto intro: aside.grows_bind)

lemma insert_hold_aside [intro]: "steps aside (sql Sql (insert_hold a z c))"
  by (rule aside.grows_sql) (auto simp: insert_hold_def Let_def aside_def)

lemma delete_hold_aside [intro]: "steps aside (delete_hold h)"
  unfolding delete_hold_def by (rule aside.grows_exec) (simp add: aside_def)

lemma readHold_aside [intro]: "steps aside (readHold h)"
  unfolding readHold_def by (rule aside.grows_query_row)

lemma reduceHold_aside [intro]: "steps aside (reduceHold h z c)"
  unfolding reduceHold_def by (auto intro!: aside.grows_exec_opt simp: aside_def)

lemma SettleHoldPartialTx_aside [intro]: "steps aside (SettleHoldPartialTx h a gz gc z c)"
  unfolding SettleHoldPartialTx_def
  by (auto split: option.split intro!: aside.grows_bind aside.grows_then aside.grows_guard)

lemma lockPair_aside [intro]: "steps aside (lockPair p q)"
  unfolding lockPair_def by (auto simp: Let_def intro!: aside.grows_bind)

lemma ChargeTx_aside [intro]: "steps aside (ChargeTx p q pz pc z c)"
  unfolding ChargeTx_def by (auto split: option.split intro!: aside.grows_bind aside.grows_then)

lemma pgTx_aside: "steps aside m \<Longrightarrow> steps aside (pgTx m)"
  unfolding pgTx_def by (rule aside.tx_steps)

lemma run_wallet_op_aside: "steps aside (run_wallet_op x)"
  by (cases x) (auto simp: wallet_Hold_def wallet_Release_def ReleaseTx_def SettleHold_def SettleHoldPartial_def
      wallet_Charge_def wallet_Burn_def intro!: aside.grows_bind aside.grows_guard pgTx_aside aside.grows_then)

section \<open>The store keeps the contract\<close>

lemma requests_inv_mono: "requests_inv n t \<Longrightarrow> n \<le> m \<Longrightarrow> requests_inv m t"
  by (force simp: requests_inv_def)

lemma bank_inv_rb: "bank_inv a \<Longrightarrow> pg_grows a b \<Longrightarrow> bank_inv (pg_rb a b)"
  using wallet_inv_rb [of a b] requests_inv_mono
  by (auto simp: bank_inv_def pg_rb_def pg_grows_def)

lemma bank_of_rb [simp]: "bank_of (pg_rb a b) = bank_of a"
  by (simp add: bank_of_def ledger_of_def pg_rb_def)

lemma bank_wallet_inv: "bank_inv d \<Longrightarrow> currency_inv (cp_currency d)"
  by (simp add: bank_inv_def wallet_inv_def)

lemma lockCurrency_Inr:
  "lockCurrency a s = (Inr (z, c, l), t) \<Longrightarrow>
   (z, c) = bal (cp_currency (data s)) a \<and> l = lock_of (cp_currency (data s)) a \<and>
   data t = (data s)\<lparr>cp_currency := ensure_currency a (cp_currency (data s))\<rparr> \<and>
   (\<exists>r. find (\<lambda>r. cu_account_id r = a) (cp_currency (data t)) = Some r)"
  by (cases rule: ensure_cases [of a "cp_currency (data s)"])
     (auto simp: lockCurrency_def success_inv bal_def lock_of_def find_append)

lemma set_currency_Inr:
  assumes "set_currency a z c until s = (Inr u, t)" and inv: "currency_inv (cp_currency (data s))"
    and row: "find (\<lambda>r. cu_account_id r = a) (cp_currency (data s)) = Some r"
  shows "\<exists>C. data t = (data s)\<lparr>cp_currency := C\<rparr> \<and> currency_inv C \<and>
    bal C = (bal (cp_currency (data s)))(a := (z, c)) \<and>
    lock_of C = (lock_of (cp_currency (data s)))(a := Some until) \<and>
    tsum cu_zeny C = tsum cu_zeny (cp_currency (data s)) - fst (bal (cp_currency (data s)) a) + z \<and>
    tsum cu_cashpoint C = tsum cu_cashpoint (cp_currency (data s)) - snd (bal (cp_currency (data s)) a) + c"
proof -
  let ?f = "\<lambda>r. r\<lparr>cu_zeny := z, cu_cashpoint := c, cu_locked_until := Some until\<rparr>"
  let ?C = "upd_where (\<lambda>r. cu_account_id r = a) ?f (cp_currency (data s))"
  from row have r: "r \<in> set (cp_currency (data s))" "cu_account_id r = a" by (auto dest: find_key_Some)
  from assms(1) r have t: "data t = (data s)\<lparr>cp_currency := ?C\<rparr>" and chk: "currency_check (?f r)"
    by (auto simp: set_currency_def success_inv upd_checked_Some)
  have "lock_of ?C = (lock_of (cp_currency (data s)))(a := Some until)"
    using row by (intro ext) (simp add: lock_of_def find_upd_row split: option.splits)
  with set_row [where f = ?f, OF inv row _ chk] t row show ?thesis
    by (intro exI [of _ ?C]) (simp add: bal_def)
qed

text \<open>What the money of a state is worth against a state before it.\<close>

definition worth :: "pgdb \<Rightarrow> int \<times> int" where
  "worth d = (zeny_supply d + tsum wc_Zeny (cp_withdraw_requests d) - tsum (\<lambda>r. max 0 (dr_Zeny r)) (cp_deposit_processed d),
              cash_supply d + tsum wc_Cashpoint (cp_withdraw_requests d) - tsum (\<lambda>r. max 0 (dr_Cashpoint r)) (cp_deposit_processed d))"

definition no_richer :: "pgdb \<Rightarrow> pgdb \<Rightarrow> bool" where
  "no_richer a b \<longleftrightarrow> fst (worth b) \<le> fst (worth a) \<and> snd (worth b) \<le> snd (worth a)"

lemma no_richer_refl [simp]: "no_richer d d"
  by (simp add: no_richer_def)

lemma worth_rb [simp]: "worth (pg_rb a b) = worth a"
  by (simp add: worth_def zeny_supply_def cash_supply_def pg_rb_def)

lemma creditDepositTx_Inr:
  assumes run: "creditDepositTx i a z c until now s = (Inr x, t)" and inv: "bank_inv (data s)"
  shows "bank_inv (data t) \<and> currency_step (OpCredit i a z c until now) (bank_of (data s)) (bank_of (data t)) \<and>
    no_richer (data s) (data t) \<and>
    (x \<longleftrightarrow> i \<notin> dr_DepositID ` set (cp_deposit_processed (data s)))"
proof -
  from run obtain bz bc l s1 s2 where lk: "lockCurrency a s = (Inr (bz, bc, l), s1)"
    and open': "\<not> cooldownActive l now"
    and rest: "bindE (sql Sql (mark_processed \<lparr>dr_ProcessedAt = now, dr_DepositID = i, dr_AccountID = a,
           dr_Zeny = z, dr_Cashpoint = c\<rparr>)) (\<lambda>fresh. if \<not> fresh then retE False
       else thenE (set_currency a (AddZenyCapped bz z) (AddCashpointCapped bc c) until) (retE True)) s1 = (Inr x, t)"
    by (auto simp: creditDepositTx_def success_inv)
  from lockCurrency_Inr [OF lk] obtain r where b: "(bz, bc) = bal (cp_currency (data s)) a"
    and l: "l = lock_of (cp_currency (data s)) a"
    and d1: "data s1 = (data s)\<lparr>cp_currency := ensure_currency a (cp_currency (data s))\<rparr>"
    and r: "find (\<lambda>r. cu_account_id r = a) (cp_currency (data s1)) = Some r" by blast
  let ?rec = "\<lparr>dr_ProcessedAt = now, dr_DepositID = i, dr_AccountID = a, dr_Zeny = z, dr_Cashpoint = c\<rparr>"
  have ci: "currency_inv (cp_currency (data s))" using inv by (rule bank_wallet_inv)
  show ?thesis
  proof (cases "i \<in> dr_DepositID ` set (cp_deposit_processed (data s))")
    case True
    then have dup: "list_ex (\<lambda>q. dr_DepositID q = i) (cp_deposit_processed (data s))"
      by (auto simp: list_ex_iff)
    with rest d1 have x: "\<not> x" and t: "data t = data s1"
      by (auto simp: success_inv mark_processed_def split: if_splits)
    have "bank_of (data t) = bank_of (data s)" and "bank_inv (data t)" and "worth (data t) = worth (data s)"
      using inv by (simp_all add: t d1 bank_of_def ledger_of_def bank_inv_def wallet_inv_def worth_def
          zeny_supply_def cash_supply_def)
    with True x open' l currency_step.repeated [of i "bank_of (data s)" a now z c until] show ?thesis
      by (simp add: bank_of_def no_richer_def)
  next
    case False
    then have fresh: "\<not> list_ex (\<lambda>q. dr_DepositID q = i) (cp_deposit_processed (data s))"
      by (auto simp: list_ex_iff)
    from rest obtain f s2 where sq: "sql Sql (mark_processed ?rec) s1 = (Inr f, s2)"
      and go: "(if \<not> f then retE False else thenE (set_currency a (AddZenyCapped bz z)
        (AddCashpointCapped bc c) until) (retE True)) s2 = (Inr x, t)" by (auto simp only: bindE_Inr)
    from sql_effect [OF sq] fresh d1 have f: f and chk: "deposit_check ?rec"
      and d2: "data s2 = (data s1)\<lparr>cp_deposit_processed := cp_deposit_processed (data s) @ [?rec]\<rparr>"
      by (auto simp: mark_processed_def ins_checked_Some)
    from go f have x: x and st: "set_currency a (AddZenyCapped bz z) (AddCashpointCapped bc c) until s2 = (Inr (), t)"
      by (auto simp: success_inv)
    have ci2: "currency_inv (cp_currency (data s2))" using ci d1 d2 by simp
    have r2: "find (\<lambda>r. cu_account_id r = a) (cp_currency (data s2)) = Some r" using r d2 by simp
    from set_currency_Inr [OF st ci2 r2] d1 d2 obtain C where
      t: "data t = (data s2)\<lparr>cp_currency := C\<rparr>" "currency_inv C"
        "bal C = (bal (cp_currency (data s)))(a := (AddZenyCapped bz z, AddCashpointCapped bc c))"
        "lock_of C = (lock_of (cp_currency (data s)))(a := Some until)"
        "tsum cu_zeny C = tsum cu_zeny (cp_currency (data s)) - bz + AddZenyCapped bz z"
        "tsum cu_cashpoint C = tsum cu_cashpoint (cp_currency (data s)) - bc + AddCashpointCapped bc c"
      by (auto simp flip: b)
    have "zeny_ok bz" "cash_ok bc" using bal_in_range [OF ci b [symmetric]] by auto
    moreover have "is_int64 z" "is_int64 c" using chk by (auto simp: deposit_check_def amount_defs)
    ultimately have cap: "AddZenyCapped bz z = min max_int64 (bz + max 0 z)"
        "AddCashpointCapped bc c = min max_int32 (bc + max 0 c)"
      by (auto simp: AddZenyCapped_ok AddCashpointCapped_ok)
    then have le: "AddZenyCapped bz z \<le> bz + max 0 z" "AddCashpointCapped bc c \<le> bc + max 0 c" by simp_all
    have "bank_inv (data t)"
      using inv t chk False by (auto simp: bank_inv_def wallet_inv_def d1 d2)
    moreover have "no_richer (data s) (data t)"
      using t(5,6) le
      by (simp add: no_richer_def worth_def zeny_supply_def cash_supply_def t(1) d1 d2)
    moreover have "currency_step (OpCredit i a z c until now) (bank_of (data s)) (bank_of (data t))"
    proof -
      have "bank_of (data t) = (bank_of (data s))\<lparr>bk_ledger := lput a (min max_int64 (bz + max 0 z), min max_int32 (bc + max 0 c)) (bk_ledger (bank_of (data s))),
         bk_lock := (bk_lock (bank_of (data s)))(a := Some until),
         bk_done := bk_done (bank_of (data s)) @ [?rec]\<rparr>"
        using t by (simp add: bank_of_def ledger_of_def lput_def d1 d2 cap)
      moreover have "lg_bal (bk_ledger (bank_of (data s))) a = (bz, bc)" using b by (simp add: bank_of_def ledger_of_def)
      ultimately show ?thesis
        using currency_step.credit [of i "bank_of (data s)" a now bz bc z c until] False open' l
        by (simp add: bank_of_def)
    qed
    ultimately show ?thesis using x False by simp
  qed
qed

lemma requestWithdrawTx_Inr:
  assumes run: "requestWithdrawTx a z c until now s = (Inr i, t)" and inv: "bank_inv (data s)"
  shows "bank_inv (data t) \<and> currency_step (OpRequest a z c until now) (bank_of (data s)) (bank_of (data t)) \<and>
    no_richer (data s) (data t) \<and> i = withdraw_seq (pg_seq (data s)) + 1 \<and>
    cp_withdraw_requests (data t) = cp_withdraw_requests (data s) @ [\<lparr>wc_CreatedAt = now, wc_SentAt = None,
       wc_DeliveredAt = None, wc_ID = i, wc_AccountID = a, wc_Zeny = z, wc_Cashpoint = c, wc_Status = 1\<rparr>] \<and>
    withdraw_seq (pg_seq (data t)) = i \<and> cp_deposit_processed (data t) = cp_deposit_processed (data s)"
proof -
  from run obtain bz bc l s1 where lk: "lockCurrency a s = (Inr (bz, bc, l), s1)"
    and open': "\<not> cooldownActive l now"
    and rest: "(case SubBalance bz z bc c of Inl err \<Rightarrow> failE (Currency err) | Inr (newZeny, newCashpoint) \<Rightarrow>
           thenE (set_currency a newZeny newCashpoint until) (sql Sql (insert_request a z c now))) s1 = (Inr i, t)"
    by (auto simp: requestWithdrawTx_def success_inv)
  from rest obtain nz nc where sub: "SubBalance bz z bc c = Inr (nz, nc)"
    by (cases "SubBalance bz z bc c") (auto simp: success_inv)
  with rest obtain s2 where st: "set_currency a nz nc until s1 = (Inr (), s2)"
    and ins: "insert_request a z c now (data s2) = Some (i, data t)"
    by (auto simp: success_inv)
  from lockCurrency_Inr [OF lk] obtain r where b: "(bz, bc) = bal (cp_currency (data s)) a"
    and l: "l = lock_of (cp_currency (data s)) a"
    and d1: "data s1 = (data s)\<lparr>cp_currency := ensure_currency a (cp_currency (data s))\<rparr>"
    and r: "find (\<lambda>r. cu_account_id r = a) (cp_currency (data s1)) = Some r" by blast
  have ci: "currency_inv (cp_currency (data s))" using inv by (rule bank_wallet_inv)
  then have ci1: "currency_inv (cp_currency (data s1))" using d1 by simp
  from bal_in_range [OF ci b [symmetric]] SubBalance_Inr [OF sub]
  have n: "nz = bz - z" "nc = bc - c" "0 \<le> z" "0 \<le> c" "z \<le> bz" "c \<le> bc" by (auto simp: zeny_ok_def cash_ok_def)
  from set_currency_Inr [OF st ci1 r] d1 obtain C where
    t: "data s2 = (data s1)\<lparr>cp_currency := C\<rparr>" "currency_inv C"
      "bal C = (bal (cp_currency (data s)))(a := (nz, nc))"
      "lock_of C = (lock_of (cp_currency (data s)))(a := Some until)"
      "tsum cu_zeny C = tsum cu_zeny (cp_currency (data s)) - bz + nz"
      "tsum cu_cashpoint C = tsum cu_cashpoint (cp_currency (data s)) - bc + nc"
    by (auto simp flip: b)
  let ?rec = "\<lparr>wc_CreatedAt = now, wc_SentAt = None, wc_DeliveredAt = None, wc_ID = i,
               wc_AccountID = a, wc_Zeny = z, wc_Cashpoint = c, wc_Status = 1\<rparr>"
  from ins have i: "i = withdraw_seq (pg_seq (data s)) + 1" and chk: "withdraw_check ?rec"
    and dt: "data t = (data s2)\<lparr>cp_withdraw_requests := cp_withdraw_requests (data s) @ [?rec],
       pg_seq := (pg_seq (data s))\<lparr>withdraw_seq := i\<rparr>\<rparr>"
    by (auto simp: insert_request_def Let_def ins_checked_Some t(1) d1)
  have fresh: "i \<notin> wc_ID ` set (cp_withdraw_requests (data s))"
    using inv by (auto simp: bank_inv_def requests_inv_def i)
  have "requests_inv i (cp_withdraw_requests (data s) @ [?rec])"
    using inv chk fresh by (force simp: bank_inv_def requests_inv_def i)
  then have "bank_inv (data t)"
    using inv t by (simp add: bank_inv_def wallet_inv_def dt d1 i)
  moreover have "no_richer (data s) (data t)"
    using t(5,6) n by (simp add: no_richer_def worth_def zeny_supply_def cash_supply_def dt t(1) d1)
  moreover have "currency_step (OpRequest a z c until now) (bank_of (data s)) (bank_of (data t))"
  proof -
    have "bank_of (data t) = (bank_of (data s))\<lparr>bk_ledger := lput a (bz - z, bc - c) (bk_ledger (bank_of (data s))),
        bk_lock := (bk_lock (bank_of (data s)))(a := Some until), bk_reqs := bk_reqs (bank_of (data s)) @ [?rec]\<rparr>"
      using t n by (simp add: bank_of_def ledger_of_def lput_def dt d1)
    moreover have "lg_bal (bk_ledger (bank_of (data s))) a = (bz, bc)" using b by (simp add: bank_of_def ledger_of_def)
    ultimately show ?thesis
      using currency_step.request [of "bank_of (data s)" a now bz bc z c i until] open' l n fresh
      by (simp add: bank_of_def)
  qed
  ultimately show ?thesis using i dt t(1) d1 by simp
qed

lemma lockCurrency_grows [intro]: "steps pg_grows (lockCurrency a)"
  unfolding lockCurrency_def by (intro pg.grows_then pg.grows_exec pg.grows_query_row pg_grows_eq) simp

lemma set_currency_grows [intro]: "steps pg_grows (set_currency a z c until)"
  unfolding set_currency_def by (auto intro!: pg.grows_exec_opt simp: pg_grows_def)

lemma mark_processed_grows [intro]: "steps pg_grows (sql Sql (mark_processed r))"
  by (rule pg.grows_sql) (auto simp: mark_processed_def pg_grows_def split: if_splits)

lemma insert_request_grows [intro]: "steps pg_grows (sql Sql (insert_request a z c now))"
  by (rule pg.grows_sql) (auto simp: insert_request_def Let_def pg_grows_def)

lemma creditDepositTx_grows [intro]: "steps pg_grows (creditDepositTx i a z c until now)"
  unfolding creditDepositTx_def by (auto intro!: pg.grows_bind pg.grows_guard pg.grows_then)

lemma requestWithdrawTx_grows [intro]: "steps pg_grows (requestWithdrawTx a z c until now)"
  unfolding requestWithdrawTx_def by (auto intro!: pg.grows_bind pg.grows_guard pg.grows_then split: sum.splits)

text \<open>One shape for every transaction: undone, or its body's step.\<close>

lemma bank_tx:
  assumes "steps pg_grows m" and inv: "bank_inv (data s)" and run: "pgTx m s = (r, t)"
    and body: "\<And>u x v. bank_inv (data u) \<Longrightarrow> m u = (Inr x, v) \<Longrightarrow>
      bank_inv (data v) \<and> R (bank_of (data u)) (bank_of (data v)) \<and> no_richer (data u) (data v)"
  shows "bank_inv (data t) \<and> no_richer (data s) (data t) \<and>
    (bank_of (data t) = bank_of (data s) \<and> (\<exists>e. r = Inl e) \<or> R (bank_of (data s)) (bank_of (data t)))"
  using assms(1) run unfolding pgTx_def
proof (cases rule: pg.tx_outcome)
  case (undone d e')
  with inv show ?thesis by (simp add: bank_inv_rb no_richer_def)
next
  case (committed u x v)
  with inv body [of u x v] show ?thesis by (simp add: no_richer_def)
qed

lemma drop_result:
  "bindE m (\<lambda>_. retE ()) s = (r, t) \<Longrightarrow> \<exists>q. m s = (q, t) \<and> ((\<exists>e. r = Inl e) \<longleftrightarrow> (\<exists>e. q = Inl e))"
  by (auto simp: bindE_def retE_def split: prod.splits sum.splits)

lemma CreditDeposit_simulates:
  assumes "CreditDeposit i a z c until now s = (r, t)" and "bank_inv (data s)"
  shows "bank_inv (data t) \<and> no_richer (data s) (data t) \<and>
    (bank_of (data t) = bank_of (data s) \<and> (\<exists>e. r = Inl e) \<or>
     currency_step (OpCredit i a z c until now) (bank_of (data s)) (bank_of (data t)))"
  by (rule bank_tx [OF creditDepositTx_grows assms(2) assms(1) [unfolded CreditDeposit_def]])
    (use creditDepositTx_Inr in blast)

lemma RequestWithdraw_simulates:
  assumes "repo_RequestWithdraw a z c until now s = (r, t)" and "bank_inv (data s)"
  shows "bank_inv (data t) \<and> no_richer (data s) (data t) \<and>
    (bank_of (data t) = bank_of (data s) \<and> (\<exists>e. r = Inl e) \<or>
     currency_step (OpRequest a z c until now) (bank_of (data s)) (bank_of (data t)))"
  by (rule bank_tx [OF requestWithdrawTx_grows assms(2) assms(1) [unfolded repo_RequestWithdraw_def]])
    (use requestWithdrawTx_Inr in blast)

lemma requests_status:
  assumes "requests_inv n t" and "k \<in> {1, 2, 3}"
    and "\<And>q. wc_ID (f q) = wc_ID q \<and> wc_Zeny (f q) = wc_Zeny q \<and> wc_Cashpoint (f q) = wc_Cashpoint q \<and> wc_Status (f q) = k"
  shows "requests_inv n (upd_where p f t)" and "tsum wc_Zeny (upd_where p f t) = tsum wc_Zeny t"
    and "tsum wc_Cashpoint (upd_where p f t) = tsum wc_Cashpoint t"
proof -
  show "requests_inv n (upd_where p f t)"
    unfolding requests_inv_def
  proof
    show "uniq wc_ID (upd_where p f t)" using assms by (simp add: requests_inv_def uniq_upd_where)
    show "\<forall>r \<in> set (upd_where p f t). 0 < wc_ID r \<and> wc_ID r \<le> n \<and> withdraw_check r \<and> wc_Status r \<in> {1, 2, 3}"
      by (rule upd_where_all) (use assms in \<open>simp_all add: requests_inv_def withdraw_check_def\<close>)
  qed
  show "tsum wc_Zeny (upd_where p f t) = tsum wc_Zeny t" "tsum wc_Cashpoint (upd_where p f t) = tsum wc_Cashpoint t"
    using assms(3) by (induction t) auto
qed

lemma mark_simulates:
  assumes "data t = data s \<or> data t = (data s)\<lparr>cp_withdraw_requests := upd_where p f (cp_withdraw_requests (data s))\<rparr>"
    and "bank_inv (data s)" and "k \<in> {1, 2, 3}"
    and "\<And>q. wc_ID (f q) = wc_ID q \<and> wc_Zeny (f q) = wc_Zeny q \<and> wc_Cashpoint (f q) = wc_Cashpoint q \<and> wc_Status (f q) = k"
  shows "bank_inv (data t) \<and> no_richer (data s) (data t) \<and> (bank_of (data t) = bank_of (data s) \<or>
    bank_of (data t) = (bank_of (data s))\<lparr>bk_reqs := upd_where p f (bk_reqs (bank_of (data s)))\<rparr>)"
  using assms(1,2) requests_status [OF _ assms(3,4)]
  by (auto simp: bank_inv_def wallet_inv_def bank_of_def ledger_of_def no_richer_def worth_def
      zeny_supply_def cash_supply_def)

lemma MarkWithdrawSent_data:
  "MarkWithdrawSent i now s = (r, t) \<Longrightarrow>
   (data t = data s \<and> (\<exists>e. r = Inl e)) \<or>
   data t = (data s)\<lparr>cp_withdraw_requests := upd_where (\<lambda>r. wc_ID r = i \<and> wc_Status r = 1)
     (\<lambda>r. r\<lparr>wc_Status := 2, wc_SentAt := Some now\<rparr>) (cp_withdraw_requests (data s))\<rparr>"
  by (auto simp: MarkWithdrawSent_def exec_def sql_def split: fault.splits)

lemma MarkWithdrawDelivered_data:
  assumes "MarkWithdrawDelivered i u s = (r, t)"
  shows "(data t = data s \<and> (\<exists>e. r = Inl e)) \<or>
   data t = (data s)\<lparr>cp_withdraw_requests := upd_where (\<lambda>r. wc_ID r = i \<and> wc_Status r = 2)
     (\<lambda>r. r\<lparr>wc_Status := 3, wc_DeliveredAt := Some u\<rparr>) (cp_withdraw_requests (data s))\<rparr>"
  using assms
  by (auto simp: MarkWithdrawDelivered_def bindE_def sql_def query_row_def query_def retE_def failE_def
      split: fault.splits if_splits option.splits prod.splits sum.splits)

text \<open>\<open>True\<close> is only answered for a request that is delivered.\<close>

lemma MarkWithdrawDelivered_True:
  assumes "MarkWithdrawDelivered i u s = (Inr True, t)"
  shows "\<exists>r \<in> set (cp_withdraw_requests (data t)). wc_ID r = i \<and> wc_Status r = 3"
proof -
  let ?p = "\<lambda>r. wc_ID r = i \<and> wc_Status r = 2"
  let ?f = "\<lambda>r. r\<lparr>wc_Status := 3, wc_DeliveredAt := Some u\<rparr>"
  from assms obtain v where
    d: "data v = (data s)\<lparr>cp_withdraw_requests := upd_where ?p ?f (cp_withdraw_requests (data s))\<rparr>"
    and rest: "(if list_ex ?p (cp_withdraw_requests (data s)) then retE True
       else bindE (query_row Sql Sql (\<lambda>d. map_option wc_Status
            (find (\<lambda>r. wc_ID r = i) (cp_withdraw_requests d)))) (\<lambda>status. retE (status = 3))) v = (Inr True, t)"
    by (auto simp: MarkWithdrawDelivered_def bindE_Inr [of "sql _ _"] dest!: sql_effect)
  show ?thesis
  proof (cases "list_ex ?p (cp_withdraw_requests (data s))")
    case True
    then obtain r where r: "r \<in> set (cp_withdraw_requests (data s))" "?p r" by (auto simp: list_ex_iff)
    from in_upd_where [of r _ ?p ?f] r d have "?f r \<in> set (cp_withdraw_requests (data v))" by simp
    with rest True r show ?thesis by (intro bexI [of _ "?f r"]) (auto simp: retE_def)
  next
    case False
    with rest have "map_option wc_Status (find (\<lambda>r. wc_ID r = i) (cp_withdraw_requests (data v))) = Some 3"
      and "data t = data v" by (auto simp: success_inv)
    then show ?thesis by (auto dest!: find_key_Some)
  qed
qed

lemma wallet_op_simulates:
  assumes run: "run_wallet_op x s = (r, t)" and inv: "bank_inv (data s)"
  shows "bank_inv (data t) \<and> no_richer (data s) (data t) \<and>
    (bank_of (data t) = bank_of (data s) \<and> (\<exists>e. r = Inl e) \<or>
     currency_step (OpWallet x) (bank_of (data s)) (bank_of (data t)))"
proof -
  from stepsD [OF run_wallet_op_aside run] have a: "aside (data s) (data t)" .
  from inv have wi: "wallet_inv (data s)" by (simp add: bank_inv_def)
  from keepsD [OF run_wallet_op_supply [of "zeny_supply (data s)" "cash_supply (data s)"] _ run] wi
  have le: "zeny_supply (data t) \<le> zeny_supply (data s)" "cash_supply (data t) \<le> cash_supply (data s)"
    by (auto simp: supply_le_def)
  from wallet.simulates [OF wi run] have wt: "wallet_inv (data t)"
    and st: "ledger_of (data t) = ledger_of (data s) \<and> (\<exists>e. r = Inl e) \<or>
      ledger_step x (ledger_of (data s)) (ledger_of (data t))" by auto
  have b: "bank_of (data t) = (bank_of (data s))\<lparr>bk_ledger := ledger_of (data t)\<rparr>"
    using a by (simp add: bank_of_def aside_def)
  have "bank_of (data t) = bank_of (data s) \<and> (\<exists>e. r = Inl e) \<or>
      currency_step (OpWallet x) (bank_of (data s)) (bank_of (data t))"
    using st currency_step.wallet [of x "bank_of (data s)" "ledger_of (data t)"] unfolding b
    by (auto simp: bank_of_def)
  with inv wt a le show ?thesis
    by (auto simp: bank_inv_def aside_def no_richer_def worth_def)
qed

lemma currency_simulates:
  assumes inv: "bank_inv (data s)" and run: "run_currency_op x s = (r, t)"
  shows "bank_inv (data t) \<and> no_richer (data s) (data t) \<and>
    (bank_of (data t) = bank_of (data s) \<and> (\<exists>e. r = Inl e) \<or>
     currency_step x (bank_of (data s)) (bank_of (data t)))"
proof (cases x)
  case (OpCredit i a z c until now)
  with run drop_result obtain q where "CreditDeposit i a z c until now s = (q, t)"
    "(\<exists>e. r = Inl e) \<longleftrightarrow> (\<exists>e. q = Inl e)" by fastforce
  with CreditDeposit_simulates [OF _ inv] OpCredit show ?thesis by simp
next
  case (OpRequest a z c until now)
  with run drop_result obtain q where "repo_RequestWithdraw a z c until now s = (q, t)"
    "(\<exists>e. r = Inl e) \<longleftrightarrow> (\<exists>e. q = Inl e)" by fastforce
  with RequestWithdraw_simulates [OF _ inv] OpRequest show ?thesis by simp
next
  case (OpSent i now)
  with run have m: "MarkWithdrawSent i now s = (r, t)" by simp
  from MarkWithdrawSent_data [OF this] show ?thesis
  proof
    assume "data t = data s \<and> (\<exists>e. r = Inl e)"
    with inv show ?thesis by simp
  next
    assume t: "data t = (data s)\<lparr>cp_withdraw_requests := upd_where (\<lambda>r. wc_ID r = i \<and> wc_Status r = 1)
       (\<lambda>r. r\<lparr>wc_Status := 2, wc_SentAt := Some now\<rparr>) (cp_withdraw_requests (data s))\<rparr>"
    have "bank_of (data t) = (bank_of (data s))\<lparr>bk_reqs := upd_where (\<lambda>r. wc_ID r = i \<and> wc_Status r = 1)
       (\<lambda>r. r\<lparr>wc_Status := 2, wc_SentAt := Some now\<rparr>) (bk_reqs (bank_of (data s)))\<rparr>"
      by (simp add: t bank_of_def ledger_of_def)
    with currency_step.sent [of i now "bank_of (data s)"] mark_simulates [OF disjI2 [OF t] inv, of 2] OpSent
    show ?thesis by simp
  qed
next
  case (OpDelivered i u)
  with run drop_result obtain q where m: "MarkWithdrawDelivered i u s = (q, t)"
    and q: "(\<exists>e. r = Inl e) \<longleftrightarrow> (\<exists>e. q = Inl e)" by fastforce
  from MarkWithdrawDelivered_data [OF m] show ?thesis
  proof
    assume "data t = data s \<and> (\<exists>e. q = Inl e)"
    with inv q show ?thesis by simp
  next
    assume t: "data t = (data s)\<lparr>cp_withdraw_requests := upd_where (\<lambda>r. wc_ID r = i \<and> wc_Status r = 2)
       (\<lambda>r. r\<lparr>wc_Status := 3, wc_DeliveredAt := Some u\<rparr>) (cp_withdraw_requests (data s))\<rparr>"
    have "bank_of (data t) = (bank_of (data s))\<lparr>bk_reqs := upd_where (\<lambda>r. wc_ID r = i \<and> wc_Status r = 2)
       (\<lambda>r. r\<lparr>wc_Status := 3, wc_DeliveredAt := Some u\<rparr>) (bk_reqs (bank_of (data s)))\<rparr>"
      by (simp add: t bank_of_def ledger_of_def)
    with currency_step.delivered [of i u "bank_of (data s)"] mark_simulates [OF disjI2 [OF t] inv, of 3] OpDelivered
    show ?thesis by simp
  qed
next
  case (OpWallet w)
  with run wallet_op_simulates [OF _ inv] show ?thesis by simp
qed

interpretation currency: repository bank_inv bank_of run_currency_op currency_step
  by unfold_locales (use currency_simulates in blast)

lemma run_no_richer:
  "bank_inv (data s) \<Longrightarrow> no_richer (data s) (data (run_ops run_currency_op xs s))"
proof (induction xs arbitrary: s)
  case (Cons x xs)
  obtain r t where t: "run_currency_op x s = (r, t)" by fastforce
  from currency_simulates [OF Cons.prems this] Cons.IH [of t] t show ?case by (auto simp: no_richer_def)
qed simp

end
