(* ===== verification/Currency_Safety.thy ===== *)
theory Currency_Safety
  imports Currency_Bridge Currency_Ledger
begin

text \<open>
  What each of the two bridge workers keeps true while the other one, the game server, the
  wallet and the players act between its calls. A fact a worker has read from the databases
  and relies on later is one the others cannot break: \<open>evolves\<close> is what they are allowed to do.
\<close>

section \<open>What a call did\<close>

lemma exec_cases:
  "exec e f s = (r, t) \<Longrightarrow> (data t = data s \<and> (\<exists>x. r = Inl x)) \<or> data t = f (data s)"
  by (auto simp: exec_def sql_def split: fault.splits)

lemma first_rows_cases:
  "first_rows n f s = (r, t) \<Longrightarrow> data t = data s \<and> (\<forall>x. r = Inr x \<longrightarrow> x = take (nat n) (f (data s)))"
  by (auto simp: first_rows_def sql_def split: fault.splits if_splits)

lemma spec_logged:
  assumes "\<And>b. P b \<Longrightarrow> P (interfere b)"
    and "\<And>b r w. P b \<Longrightarrow> m (br_world b) = (r, w) \<Longrightarrow>
      Q (case r of Inl _ \<Rightarrow> None | Inr x \<Rightarrow> Some x) (b\<lparr>br_world := w\<rparr>)"
  shows "spec P (logged m) Q (\<lambda>_. False)"
  unfolding logged_def
proof (rule spec_bind)
  show "spec P (tryE (call m)) (\<lambda>r. Q (case r of Inl _ \<Rightarrow> None | Inr x \<Rightarrow> Some x)) (\<lambda>_. False)"
    by (rule specI) (use assms in \<open>auto simp: tryE_def call_def Let_def split: prod.splits\<close>)
qed (auto intro: spec_ret)

lemma onPg_cases:
  "onPg m w = (r, v) \<Longrightarrow> \<exists>c. m (pgc w) = (r, c) \<and> v = w\<lparr>pgc := c\<rparr>"
  by (auto simp: onPg_def split: prod.splits)

lemma onMy_cases:
  "onMy m w = (r, v) \<Longrightarrow> \<exists>c. m (myc w) = (r, c) \<and> v = w\<lparr>myc := c\<rparr>"
  by (auto simp: onMy_def split: prod.splits)

lemma in_world_onPg:
  "\<exists>r c. m (pgc (br_world b)) = (r, c) \<and> in_world (onPg m) b = b\<lparr>br_world := (br_world b)\<lparr>pgc := c\<rparr>\<rparr>"
  by (cases "m (pgc (br_world b))") (simp add: in_world_def onPg_def)

lemma in_world_onMy:
  "\<exists>r c. m (myc (br_world b)) = (r, c) \<and> in_world (onMy m) b = b\<lparr>br_world := (br_world b)\<lparr>myc := c\<rparr>\<rparr>"
  by (cases "m (myc (br_world b))") (simp add: in_world_def onMy_def)

section \<open>Requests, queue rows and payments\<close>

text \<open>
  A request's row in the queue and what the game has paid for it add up to the request; a
  request without a row has been paid nothing, or everything when it is delivered.
\<close>

definition request_ok :: "withdraw_row list \<Rightarrow> (int \<Rightarrow> int \<times> int) \<Rightarrow> withdraw_record \<Rightarrow> bool" where
  "request_ok Q paid r \<longleftrightarrow>
     (case find (\<lambda>q. wq_id q = wc_ID r) Q of
        None \<Rightarrow> wc_Status r \<noteq> 2 \<and> paid (wc_ID r) = (if wc_Status r = 3 then (wc_Zeny r, wc_Cashpoint r) else (0, 0))
      | Some q \<Rightarrow> paid (wc_ID r) = (wc_Zeny r - wq_zeny q, wc_Cashpoint r - wq_points q) \<and>
          0 \<le> wq_zeny q \<and> 0 \<le> wq_points q \<and> (wc_Status r = 3 \<longrightarrow> wq_zeny q = 0 \<and> wq_points q = 0))"

definition queue_ok :: "withdraw_record list \<Rightarrow> withdraw_row list \<Rightarrow> (int \<Rightarrow> int \<times> int) \<Rightarrow> bool" where
  "queue_ok P Q paid \<longleftrightarrow> uniq wc_ID P \<and> uniq wq_id Q \<and> wq_id ` set Q \<subseteq> wc_ID ` set P \<and>
     (\<forall>r \<in> set P. withdraw_check r \<and> request_ok Q paid r) \<and> (\<forall>i. i \<notin> wc_ID ` set P \<longrightarrow> paid i = (0, 0))"

definition bridge_inv :: "bridge \<Rightarrow> bool" where
  "bridge_inv b \<longleftrightarrow> bank_inv (pg_of b) \<and>
     queue_ok (cp_withdraw_requests (pg_of b)) (cp_withdraw (my_of b)) (br_paid b)"

lemma request_ok_find:
  "find (\<lambda>q. wq_id q = wc_ID r) Q' = find (\<lambda>q. wq_id q = wc_ID r) Q \<Longrightarrow> paid' (wc_ID r) = paid (wc_ID r) \<Longrightarrow>
   request_ok Q' paid' r = request_ok Q paid r"
  by (simp only: request_ok_def)

lemma queue_ok_append:
  assumes "queue_ok P Q paid" and "wc_ID r \<notin> wc_ID ` set P" and "wc_Status r = 1" and "withdraw_check r"
  shows "queue_ok (P @ [r]) Q paid"
proof -
  from assms have "wc_ID r \<notin> wq_id ` set Q" by (auto simp: queue_ok_def)
  then have "find (\<lambda>q. wq_id q = wc_ID r) Q = None" by (simp add: find_key_None)
  moreover from assms have "paid (wc_ID r) = (0, 0)" by (simp add: queue_ok_def)
  ultimately have "request_ok Q paid r" using assms(3) by (simp add: request_ok_def)
  with assms show ?thesis by (simp add: queue_ok_def subset_insertI2)
qed

lemma queue_ok_pays:
  assumes ok: "queue_ok P Q paid" and q: "find (\<lambda>r. wq_id r = i) Q = Some q"
    and f: "\<And>r. wq_id (f r) = wq_id r" "0 \<le> wq_zeny (f q)" "wq_zeny (f q) \<le> wq_zeny q"
      "0 \<le> wq_points (f q)" "wq_points (f q) \<le> wq_points q"
  shows "queue_ok P (upd_where (\<lambda>r. wq_id r = i) f Q)
    (paid(i := (fst (paid i) + (wq_zeny q - wq_zeny (f q)), snd (paid i) + (wq_points q - wq_points (f q)))))"
proof -
  let ?Q = "upd_where (\<lambda>r. wq_id r = i) f Q"
  let ?paid = "paid(i := (fst (paid i) + (wq_zeny q - wq_zeny (f q)), snd (paid i) + (wq_points q - wq_points (f q))))"
  from q have qi: "q \<in> set Q" "wq_id q = i" by (auto dest: find_key_Some)
  with ok have i: "i \<in> wc_ID ` set P" by (auto simp: queue_ok_def)
  have "request_ok ?Q ?paid r" if "r \<in> set P" for r
  proof -
    from ok that have r: "request_ok Q paid r" by (simp add: queue_ok_def)
    show ?thesis
    proof (cases "wc_ID r = i")
      case True
      have "find (\<lambda>x. wq_id x = i) ?Q = Some (f q)" using f(1) q by (simp add: find_upd_row)
      with r q f True show ?thesis by (auto simp: request_ok_def)
    next
      case False
      with r f(1) request_ok_find [of r ?Q Q ?paid paid] show ?thesis by (simp add: find_upd_row)
    qed
  qed
  with ok i f(1) show ?thesis
    by (auto simp: queue_ok_def uniq_upd_where set_upd_where image_image)
qed

lemma queue_ok_same_amounts:
  assumes ok: "queue_ok P Q paid"
    and f: "\<And>r. wq_id (f r) = wq_id r \<and> wq_zeny (f r) = wq_zeny r \<and> wq_points (f r) = wq_points r"
  shows "queue_ok P (upd_where (\<lambda>r. wq_id r = i) f Q) paid"
proof -
  have "request_ok (upd_where (\<lambda>r. wq_id r = i) f Q) paid r = request_ok Q paid r" for r
    using f by (auto simp: request_ok_def find_upd_row split: option.splits)
  with ok f show ?thesis by (auto simp: queue_ok_def uniq_upd_where set_upd_where)
qed

lemma queue_ids: "(\<And>r. wq_id (g r) = wq_id r) \<Longrightarrow> wq_id ` set (upd_where p g Q) = wq_id ` set Q"
  using keys_upd_where [of p wq_id g Q] by (simp flip: set_map)

section \<open>What the others may do\<close>

definition same_request :: "withdraw_record \<Rightarrow> withdraw_record \<Rightarrow> bool" where
  "same_request r s \<longleftrightarrow> wc_ID s = wc_ID r \<and> wc_Zeny s = wc_Zeny r \<and> wc_Cashpoint s = wc_Cashpoint r \<and>
     wc_Status s = wc_Status r"

definition evolves :: "bridge \<Rightarrow> bridge \<Rightarrow> bool" where
  "evolves a b \<longleftrightarrow>
     set (cp_withdraw_requests (pg_of a)) \<subseteq> set (cp_withdraw_requests (pg_of b)) \<and>
     wq_id ` set (cp_withdraw (my_of b)) = wq_id ` set (cp_withdraw (my_of a)) \<and>
     (\<forall>q \<in> set (cp_withdraw (my_of b)). \<exists>p \<in> set (cp_withdraw (my_of a)). wq_id p = wq_id q \<and>
        (wq_zeny p = 0 \<longrightarrow> wq_zeny q = 0) \<and> (wq_points p = 0 \<longrightarrow> wq_points q = 0))"

lemma evolves_refl [simp]: "evolves b b"
  by (auto simp: evolves_def)

lemma evolves_trans:
  assumes "evolves a b" and "evolves b c"
  shows "evolves a c"
  unfolding evolves_def
proof (intro conjI ballI)
  fix q assume "q \<in> set (cp_withdraw (my_of c))"
  with assms(2) obtain p where p: "p \<in> set (cp_withdraw (my_of b))" "wq_id p = wq_id q"
    "wq_zeny p = 0 \<longrightarrow> wq_zeny q = 0" "wq_points p = 0 \<longrightarrow> wq_points q = 0" by (auto simp: evolves_def)
  with assms(1) obtain n where "n \<in> set (cp_withdraw (my_of a))" "wq_id n = wq_id p"
    "wq_zeny n = 0 \<longrightarrow> wq_zeny p = 0" "wq_points n = 0 \<longrightarrow> wq_points p = 0" by (auto simp: evolves_def)
  with p show "\<exists>p \<in> set (cp_withdraw (my_of a)). wq_id p = wq_id q \<and>
      (wq_zeny p = 0 \<longrightarrow> wq_zeny q = 0) \<and> (wq_points p = 0 \<longrightarrow> wq_points q = 0)" by auto
qed (use assms in \<open>auto simp: evolves_def\<close>)

lemma evolves_upd:
  assumes "cp_withdraw (my_of b) = upd_where p g (cp_withdraw (my_of a))"
    and "cp_withdraw_requests (pg_of b) = cp_withdraw_requests (pg_of a)"
    and g: "\<And>r. wq_id (g r) = wq_id r" "\<And>r. wq_zeny r = 0 \<Longrightarrow> wq_zeny (g r) = 0" "\<And>r. wq_points r = 0 \<Longrightarrow> wq_points (g r) = 0"
  shows "evolves a b"
  unfolding evolves_def assms(1,2)
proof (intro conjI ballI)
  fix q assume "q \<in> set (upd_where p g (cp_withdraw (my_of a)))"
  then obtain r where "r \<in> set (cp_withdraw (my_of a))" "q = (if p r then g r else r)" by (auto simp: set_upd_where)
  with g show "\<exists>p \<in> set (cp_withdraw (my_of a)). wq_id p = wq_id q \<and>
      (wq_zeny p = 0 \<longrightarrow> wq_zeny q = 0) \<and> (wq_points p = 0 \<longrightarrow> wq_points q = 0)" by (intro bexI [of _ r]) auto
qed (use queue_ids [of g p, OF g(1)] in simp_all)

text \<open>The panel's own transactions, as seen from the withdrawals.\<close>

lemma currency_op_requests:
  assumes "run_currency_op x s = (r, t)" and "bank_inv (data s)" and "\<And>i n. x \<noteq> OpSent i n" "\<And>i n. x \<noteq> OpDelivered i n"
  shows "bank_inv (data t) \<and> (cp_withdraw_requests (data t) = cp_withdraw_requests (data s) \<or>
    (\<exists>q. cp_withdraw_requests (data t) = cp_withdraw_requests (data s) @ [q] \<and> wc_Status q = 1 \<and>
       wc_ID q \<notin> wc_ID ` set (cp_withdraw_requests (data s))))"
proof -
  have R: "cp_withdraw_requests d = bk_reqs (bank_of d)" for d by (simp add: bank_of_def)
  from currency_simulates [OF assms(2,1)] show ?thesis
  proof (elim conjE disjE)
    assume "bank_of (data t) = bank_of (data s)" "bank_inv (data t)"
    then show ?thesis by (simp add: R)
  next
    assume "bank_inv (data t)" and "currency_step x (bank_of (data s)) (bank_of (data t))"
    from this(2,1) show ?thesis
      by (cases rule: currency_step.cases) (use assms(3,4) in \<open>auto simp: R\<close>)
  qed
qed

lemma pg_event:
  assumes "run_currency_op x (pgc (br_world b)) = (r, c)" and "bridge_inv b"
    and "\<And>i n. x \<noteq> OpSent i n" "\<And>i n. x \<noteq> OpDelivered i n"
  shows "bridge_inv (b\<lparr>br_world := (br_world b)\<lparr>pgc := c\<rparr>\<rparr>) \<and> evolves b (b\<lparr>br_world := (br_world b)\<lparr>pgc := c\<rparr>\<rparr>)"
proof -
  from assms(2) have inv: "bank_inv (pg_of b)" and ok: "queue_ok (cp_withdraw_requests (pg_of b)) (cp_withdraw (my_of b)) (br_paid b)"
    by (simp_all add: bridge_inv_def)
  from currency_op_requests [OF assms(1) inv assms(3,4)] have bi: "bank_inv (data c)"
    and P: "cp_withdraw_requests (data c) = cp_withdraw_requests (pg_of b) \<or>
      (\<exists>q. cp_withdraw_requests (data c) = cp_withdraw_requests (pg_of b) @ [q] \<and> wc_Status q = 1 \<and>
         wc_ID q \<notin> wc_ID ` set (cp_withdraw_requests (pg_of b)))" by auto
  from P show ?thesis
  proof
    assume "cp_withdraw_requests (data c) = cp_withdraw_requests (pg_of b)"
    with ok bi show ?thesis by (auto simp: bridge_inv_def evolves_def)
  next
    assume "\<exists>q. cp_withdraw_requests (data c) = cp_withdraw_requests (pg_of b) @ [q] \<and> wc_Status q = 1 \<and>
         wc_ID q \<notin> wc_ID ` set (cp_withdraw_requests (pg_of b))"
    then obtain q where q: "cp_withdraw_requests (data c) = cp_withdraw_requests (pg_of b) @ [q]" "wc_Status q = 1"
      "wc_ID q \<notin> wc_ID ` set (cp_withdraw_requests (pg_of b))" by blast
    from bi q(1) have "withdraw_check q" by (simp add: bank_inv_def requests_inv_def)
    with queue_ok_append [OF ok q(3,2)] bi q(1) show ?thesis by (auto simp: bridge_inv_def evolves_def)
  qed
qed

text \<open>Points that are bought add to the cash points and touch nothing else the workers rely on.\<close>

lemma bought_row:
  assumes "bank_inv d" and "upd_checked currency_check (\<lambda>q. cu_account_id q = a)
    (\<lambda>q. q\<lparr>cu_cashpoint := cu_cashpoint q + n\<rparr>) (ensure_currency a (cp_currency d)) = Some C"
  shows "bank_inv (d\<lparr>cp_currency := C\<rparr>) \<and> worth (d\<lparr>cp_currency := C\<rparr>) = (fst (worth d), snd (worth d) + n)"
proof -
  let ?e = "ensure_currency a (cp_currency d)"
  let ?f = "\<lambda>q :: currency_row. q\<lparr>cu_cashpoint := cu_cashpoint q + n\<rparr>"
  from assms(2) have C: "C = upd_where (\<lambda>q. cu_account_id q = a) ?f ?e"
    and chk: "\<forall>q \<in> set ?e. cu_account_id q = a \<longrightarrow> currency_check (?f q)" by (simp_all add: upd_checked_Some)
  from assms(1) have e: "currency_inv ?e" by (simp add: bank_inv_def wallet_inv_def)
  obtain q where q: "find (\<lambda>r. cu_account_id r = a) ?e = Some q" using ensure_has_row by blast
  with chk have "currency_check (?f q)" by (auto dest: find_key_Some)
  note row = set_row [where f = ?f, OF e q _ this]
  from row(1) have "currency_inv C" by (simp add: C)
  moreover have "tsum cu_zeny C = tsum cu_zeny (cp_currency d)" "tsum cu_cashpoint C = tsum cu_cashpoint (cp_currency d) + n"
    using row(3) [of cu_zeny] row(3) [of cu_cashpoint] by (simp_all add: C)
  ultimately show ?thesis using assms(1)
    by (simp add: bank_inv_def wallet_inv_def worth_def zeny_supply_def cash_supply_def)
qed

lemma buyPoints_keeps:
  assumes run: "buyPoints a n s = (r, t)" and inv: "bank_inv (data s)"
  shows "bank_inv (data t) \<and> cp_withdraw_requests (data t) = cp_withdraw_requests (data s) \<and>
    cp_deposit_processed (data t) = cp_deposit_processed (data s) \<and>
    fst (worth (data t)) = fst (worth (data s)) \<and> snd (worth (data t)) \<le> snd (worth (data s)) + max 0 n"
proof -
  let ?m = "thenE (exec Sql (\<lambda>d. d\<lparr>cp_currency := ensure_currency a (cp_currency d)\<rparr>))
    (exec_opt Sql (\<lambda>d. map_option (\<lambda>t. d\<lparr>cp_currency := t\<rparr>) (upd_checked currency_check (\<lambda>q. cu_account_id q = a)
       (\<lambda>q. q\<lparr>cu_cashpoint := cu_cashpoint q + n\<rparr>) (cp_currency d))))"
  have "steps pg_grows ?m"
    by (intro pg.grows_then pg.grows_exec pg.grows_exec_opt) (auto simp: pg_grows_def)
  then show ?thesis using run unfolding buyPoints_def pgTx_def
  proof (cases rule: pg.tx_outcome)
    case (undone d e')
    with inv show ?thesis by (simp add: bank_inv_rb) (simp add: pg_rb_def)
  next
    case (committed u x v)
    then obtain C where C: "upd_checked currency_check (\<lambda>q. cu_account_id q = a)
        (\<lambda>q. q\<lparr>cu_cashpoint := cu_cashpoint q + n\<rparr>) (ensure_currency a (cp_currency (data s))) = Some C"
      "data t = (data s)\<lparr>cp_currency := C\<rparr>" by (auto simp: success_inv)
    with bought_row [OF inv C(1)] show ?thesis by simp
  qed
qed

lemma game_event:
  assumes "bridge_inv b" and "cp_withdraw (f (my_of b)) = cp_withdraw (my_of b)"
  shows "bridge_inv (in_game f b) \<and> evolves b (in_game f b)"
  using assms by (auto simp: bridge_inv_def in_game_def Let_def evolves_def)

lemma game_pays_ok:
  assumes "bridge_inv b"
  shows "bridge_inv (game_pays z i b) \<and> evolves b (game_pays z i b)"
proof (cases "find (\<lambda>r. wq_id r = i) (cp_withdraw (my_of b))")
  case (Some q)
  from Some have q: "q \<in> set (cp_withdraw (my_of b))" "wq_id q = i" by (auto dest: find_key_Some)
  from assms have ok: "queue_ok (cp_withdraw_requests (pg_of b)) (cp_withdraw (my_of b)) (br_paid b)"
    by (simp add: bridge_inv_def)
  with q obtain r where "r \<in> set (cp_withdraw_requests (pg_of b))" "wc_ID r = i" "request_ok (cp_withdraw (my_of b)) (br_paid b) r"
    by (auto simp: queue_ok_def)
  with Some have nn: "0 \<le> wq_zeny q" "0 \<le> wq_points q" by (auto simp: request_ok_def)
  show ?thesis
  proof (cases "wq_delivered_at q = 0")
    case True
    show ?thesis
    proof (cases z)
      case z: True
      have qp: "queue_ok (cp_withdraw_requests (pg_of b)) (upd_where (\<lambda>r. wq_id r = i) (\<lambda>r. r\<lparr>wq_zeny := 0\<rparr>) (cp_withdraw (my_of b)))
        ((br_paid b)(i := (fst (br_paid b i) + wq_zeny q, snd (br_paid b i))))"
        using queue_ok_pays [where f = "\<lambda>r. r\<lparr>wq_zeny := 0\<rparr>", OF ok Some] nn by simp
      have "evolves b (game_pays z i b)"
        by (rule evolves_upd [where p = "\<lambda>r. wq_id r = i" and g = "\<lambda>r. r\<lparr>wq_zeny := 0\<rparr>"])
          (use True z Some in \<open>simp_all add: game_pays_def in_game_def Let_def\<close>)
      with qp assms True z Some show ?thesis
        by (simp add: game_pays_def bridge_inv_def in_game_def Let_def)
    next
      case z: False
      have qp: "queue_ok (cp_withdraw_requests (pg_of b)) (upd_where (\<lambda>r. wq_id r = i) (\<lambda>r. r\<lparr>wq_points := 0\<rparr>) (cp_withdraw (my_of b)))
        ((br_paid b)(i := (fst (br_paid b i), snd (br_paid b i) + wq_points q)))"
        using queue_ok_pays [where f = "\<lambda>r. r\<lparr>wq_points := 0\<rparr>", OF ok Some] nn by simp
      have "evolves b (game_pays z i b)"
        by (rule evolves_upd [where p = "\<lambda>r. wq_id r = i" and g = "\<lambda>r. r\<lparr>wq_points := 0\<rparr>"])
          (use True z Some in \<open>simp_all add: game_pays_def in_game_def Let_def\<close>)
      with qp assms True z Some show ?thesis
        by (simp add: game_pays_def bridge_inv_def in_game_def Let_def)
    qed
  qed (use assms Some in \<open>simp add: game_pays_def\<close>)
qed (use assms in \<open>simp add: game_pays_def\<close>)

lemma game_closes_ok:
  assumes "bridge_inv b"
  shows "bridge_inv (game_closes i t b) \<and> evolves b (game_closes i t b)"
proof -
  have "queue_ok (cp_withdraw_requests (pg_of b)) (upd_where (\<lambda>r. wq_id r = i) (\<lambda>r. r\<lparr>wq_delivered_at := int t\<rparr>) (cp_withdraw (my_of b))) (br_paid b)"
    using assms by (intro queue_ok_same_amounts) (simp_all add: bridge_inv_def)
  moreover have "evolves b (game_closes i t b)"
    by (rule evolves_upd [where p = "\<lambda>r. wq_id r = i" and g = "\<lambda>r. r\<lparr>wq_delivered_at := int t\<rparr>"])
      (simp_all add: game_closes_def in_game_def Let_def)
  ultimately show ?thesis using assms
    by (simp add: game_closes_def bridge_inv_def in_game_def Let_def)
qed

lemma run_event_requests:
  assumes inv: "bridge_inv b" and "\<not> by_withdraw_worker e"
  shows "bridge_inv (run_event e b) \<and> evolves b (run_event e b)"
proof -
  have pg: ?thesis if run: "run_event e b = in_world (onPg (run_currency_op x)) b"
    and "\<And>i n. x \<noteq> OpSent i n" "\<And>i n. x \<noteq> OpDelivered i n" for x
    using in_world_onPg [of "run_currency_op x" b] pg_event [OF _ inv that(2,3)] run by metis
  have world_only: "in_world (onPg m) b = in_world (onPg (bindE m (\<lambda>_. retE ()))) b" for m :: "'x pg_prog"
    by (auto simp: in_world_def onPg_def bindE_def retE_def split: prod.splits sum.splits)
  show ?thesis
  proof (cases e)
    case (Time_passes n)
    with inv show ?thesis by (auto simp: bridge_inv_def evolves_def)
  next
    case (Game_deposits a z p)
    with inv show ?thesis
      by (auto simp: game_deposits_def Let_def in_game_def bridge_inv_def evolves_def)
  next
    case (Player_withdraws a z c until now)
    then have "run_event e b = in_world (onPg (run_currency_op (OpRequest a z c until now))) b"
      unfolding run_currency_op.simps by (simp only: run_event.simps, intro world_only)
    then show ?thesis by (rule pg) simp_all
  next
    case (Wallet_call x)
    with pg [of "OpWallet x"] show ?thesis by simp
  next
    case (Points_bought a n)
    from in_world_onPg [of "buyPoints a n" b] obtain r c where c: "buyPoints a n (pgc (br_world b)) = (r, c)"
      "in_world (onPg (buyPoints a n)) b = b\<lparr>br_world := (br_world b)\<lparr>pgc := c\<rparr>\<rparr>" by blast
    from inv have "bank_inv (pg_of b)" by (simp add: bridge_inv_def)
    from buyPoints_keeps [OF c(1) this] c(2) inv Points_bought show ?thesis
      by (auto simp: points_bought_def bridge_inv_def evolves_def Let_def)
  next
    case (Deposit_credited r until now)
    then have "run_event e b = in_world (onPg (run_currency_op
        (OpCredit (dep_ID r) (dep_AccountID r) (dep_Zeny r) (dep_Points r) until now))) b"
      unfolding run_currency_op.simps by (simp only: run_event.simps, intro world_only)
    then show ?thesis by (rule pg) simp_all
  next
    case (Deposit_deleted i)
    from in_world_onMy [of "deposit_Delete i" b] obtain r c where c: "deposit_Delete i (myc (br_world b)) = (r, c)"
      "in_world (onMy (deposit_Delete i)) b = b\<lparr>br_world := (br_world b)\<lparr>myc := c\<rparr>\<rparr>" by blast
    then have "cp_withdraw (data c) = cp_withdraw (my_of b)"
      by (auto simp: deposit_Delete_def dest: exec_cases)
    with c inv Deposit_deleted show ?thesis by (auto simp: bridge_inv_def evolves_def)
  qed (use assms game_pays_ok game_closes_ok in simp_all)
qed

text \<open>Between two calls of a worker.\<close>

definition quiet :: "(bridge_event \<Rightarrow> bool) \<Rightarrow> bridge \<Rightarrow> bool" where
  "quiet mine b \<longleftrightarrow> (\<forall>es \<in> set (br_schedule b). \<forall>e \<in> set es. \<not> mine e)"

lemma run_event_schedule [simp]: "br_schedule (run_event e b) = br_schedule b"
  by (cases e) (auto simp: game_deposits_def game_pays_def game_closes_def points_bought_def in_game_def in_world_def Let_def split: option.splits)

lemma run_event_others [simp]: "br_others (run_event e b) = br_others b"
  by (cases e) (auto simp: game_deposits_def game_pays_def game_closes_def points_bought_def in_game_def in_world_def Let_def split: option.splits)

lemma fold_events_schedule [simp]: "br_schedule (fold run_event es b) = br_schedule b"
  by (induction es arbitrary: b) simp_all

lemma quiet_interfere: "quiet mine b \<Longrightarrow> quiet mine (interfere b)"
  by (auto simp: quiet_def interfere_def Let_def split: list.splits)

lemma bridge_inv_notes [simp]:
  "bridge_inv (b\<lparr>br_schedule := s\<rparr>) = bridge_inv b" "bridge_inv (b\<lparr>br_others := o'\<rparr>) = bridge_inv b"
  "bridge_inv (b\<lparr>br_bought := p\<rparr>) = bridge_inv b"
  by (simp_all add: bridge_inv_def)

lemma evolves_notes [simp]:
  "evolves (b\<lparr>br_schedule := s\<rparr>) c = evolves b c" "evolves b (c\<lparr>br_others := o'\<rparr>) = evolves b c"
  "evolves b (c\<lparr>br_bought := p\<rparr>) = evolves b c"
  by (simp_all add: evolves_def)

lemma interfere_requests:
  assumes inv: "bridge_inv b" and q: "quiet by_withdraw_worker b"
  shows "bridge_inv (interfere b) \<and> evolves b (interfere b)"
proof -
  have "bridge_inv (fold run_event es c) \<and> evolves c (fold run_event es c)"
    if "bridge_inv c" "\<forall>e \<in> set es. \<not> by_withdraw_worker e" for es c
    using that
  proof (induction es arbitrary: c)
    case (Cons e es)
    from run_event_requests [of c e] Cons.prems have "bridge_inv (run_event e c)" "evolves c (run_event e c)" by auto
    with Cons.IH [of "run_event e c"] Cons.prems(2) show ?case by (auto intro: evolves_trans)
  qed simp
  from this [of "b\<lparr>br_schedule := tl (br_schedule b)\<rparr>" "hd (br_schedule b)"] inv q
  show ?thesis by (auto simp: interfere_def quiet_def Let_def split: list.splits)
qed

section \<open>The withdrawal worker\<close>

definition queued :: "int \<Rightarrow> int \<Rightarrow> int \<Rightarrow> bridge \<Rightarrow> bool" where
  "queued i z c b \<longleftrightarrow> (\<exists>r \<in> set (cp_withdraw_requests (pg_of b)). wc_ID r = i \<and> wc_Zeny r = z \<and> wc_Cashpoint r = c \<and>
     (wc_Status r = 1 \<or> i \<in> wq_id ` set (cp_withdraw (my_of b))))"

definition emptied :: "int \<Rightarrow> bridge \<Rightarrow> bool" where
  "emptied i b \<longleftrightarrow> (\<forall>q \<in> set (cp_withdraw (my_of b)). wq_id q = i \<longrightarrow> wq_zeny q = 0 \<and> wq_points q = 0)"

definition settled :: "int \<Rightarrow> bridge \<Rightarrow> bool" where
  "settled i b \<longleftrightarrow> (\<exists>r \<in> set (cp_withdraw_requests (pg_of b)). wc_ID r = i \<and> wc_Status r = 3)"

definition ready :: "bridge \<Rightarrow> bool" where
  "ready b \<longleftrightarrow> bridge_inv b \<and> quiet by_withdraw_worker b"

lemma ready_interfere: "ready b \<Longrightarrow> ready (interfere b) \<and> evolves b (interfere b)"
  using interfere_requests quiet_interfere by (simp add: ready_def)

lemma evolves_facts:
  assumes "evolves a b"
  shows "queued i z c a \<Longrightarrow> queued i z c b" "emptied i a \<Longrightarrow> emptied i b" "settled i a \<Longrightarrow> settled i b"
    "i \<in> wq_id ` set (cp_withdraw (my_of a)) \<Longrightarrow> i \<in> wq_id ` set (cp_withdraw (my_of b))"
  using assms by (fastforce simp: evolves_def queued_def emptied_def settled_def)+

lemma queue_ok_insert:
  assumes ok: "queue_ok P Q paid" and r: "r \<in> set P" "wc_ID r = i" "wc_Status r = 1" and new: "i \<notin> wq_id ` set Q"
  shows "queue_ok P (Q @ [\<lparr>wq_id = i, wq_account_id = a, wq_zeny = wc_Zeny r, wq_points = wc_Cashpoint r, wq_delivered_at = 0\<rparr>]) paid"
    (is "queue_ok P (Q @ [?q]) paid")
proof -
  from new have none: "find (\<lambda>q. wq_id q = i) Q = None" by (simp add: find_key_None)
  have "request_ok (Q @ [?q]) paid x" if "x \<in> set P" for x
  proof (cases "wc_ID x = i")
    case True
    with ok r that have x: "x = r" by (auto simp: queue_ok_def intro: uniq_the_row [of wc_ID P])
    from ok r(1) have rr: "request_ok Q paid r" and chk: "withdraw_check r" by (auto simp: queue_ok_def)
    from rr none r have "paid i = (0, 0)" by (simp add: request_ok_def)
    with none chk r x show ?thesis
      by (simp add: request_ok_def find_append withdraw_check_def zeny_ok_def cash_ok_def)
  next
    case False
    then have "find (\<lambda>q. wq_id q = wc_ID x) (Q @ [?q]) = find (\<lambda>q. wq_id q = wc_ID x) Q"
      by (auto simp: find_append split: option.splits)
    with ok that request_ok_find [of x "Q @ [?q]" Q paid paid] show ?thesis by (simp add: queue_ok_def)
  qed
  with ok r new show ?thesis by (auto simp: queue_ok_def)
qed

lemma queue_ok_mark:
  assumes ok: "queue_ok P Q paid"
    and f: "\<And>r. wc_ID (f r) = wc_ID r \<and> wc_Zeny (f r) = wc_Zeny r \<and> wc_Cashpoint (f r) = wc_Cashpoint r"
    and good: "\<And>r. r \<in> set P \<Longrightarrow> p r \<Longrightarrow> request_ok Q paid r \<Longrightarrow> request_ok Q paid (f r)"
  shows "queue_ok (upd_where p f P) Q paid"
proof -
  have "\<forall>r \<in> set (upd_where p f P). withdraw_check r \<and> request_ok Q paid r"
    by (rule upd_where_all) (use ok f good in \<open>auto simp: queue_ok_def withdraw_check_def\<close>)
  moreover have "wc_ID ` set (upd_where p f P) = wc_ID ` set P"
    using keys_upd_where [of p wc_ID f P] f by (simp flip: set_map)
  ultimately show ?thesis using ok f by (simp add: queue_ok_def uniq_upd_where)
qed

lemma queue_ok_delete:
  assumes ok: "queue_ok P Q paid" and empty: "\<forall>q \<in> set Q. wq_id q = i \<longrightarrow> wq_zeny q = 0 \<and> wq_points q = 0"
    and r: "r \<in> set P" "wc_ID r = i" "wc_Status r = 3"
  shows "queue_ok P (del_where (\<lambda>q. wq_id q = i) Q) paid"
proof -
  have "request_ok (del_where (\<lambda>q. wq_id q = i) Q) paid x" if "x \<in> set P" for x
  proof (cases "wc_ID x = i")
    case True
    with ok r that have x: "x = r" by (auto simp: queue_ok_def intro: uniq_the_row [of wc_ID P])
    from ok r(1) have rr: "request_ok Q paid r" by (simp add: queue_ok_def)
    have "paid i = (wc_Zeny r, wc_Cashpoint r)"
    proof (cases "find (\<lambda>q. wq_id q = i) Q")
      case (Some q)
      with rr r have "paid i = (wc_Zeny r - wq_zeny q, wc_Cashpoint r - wq_points q)" by (simp add: request_ok_def)
      with empty find_key_Some [OF Some] show ?thesis by simp
    qed (use rr r in \<open>simp add: request_ok_def\<close>)
    with x r show ?thesis by (simp add: request_ok_def find_del_row)
  next
    case False
    with ok that request_ok_find [of x "del_where (\<lambda>q. wq_id q = i) Q" Q paid paid]
    show ?thesis by (simp add: queue_ok_def find_del_row)
  qed
  with ok show ?thesis by (auto simp: queue_ok_def uniq_del_where)
qed

text \<open>The worker's calls.\<close>

lemma ready_myc:
  assumes "ready b" and "queue_ok (cp_withdraw_requests (pg_of b)) (cp_withdraw (data c)) (br_paid b)"
  shows "ready (b\<lparr>br_world := (br_world b)\<lparr>myc := c\<rparr>\<rparr>)"
  using assms by (simp add: ready_def bridge_inv_def quiet_def)

lemma ready_pgc:
  assumes "ready b" and "bank_inv (data c)"
    and "queue_ok (cp_withdraw_requests (data c)) (cp_withdraw (my_of b)) (br_paid b)"
  shows "ready (b\<lparr>br_world := (br_world b)\<lparr>pgc := c\<rparr>\<rparr>)"
  using assms by (simp add: ready_def bridge_inv_def quiet_def)

lemma ready_queue_ok: "ready b \<Longrightarrow> queue_ok (cp_withdraw_requests (pg_of b)) (cp_withdraw (my_of b)) (br_paid b)"
  by (simp add: ready_def bridge_inv_def)

lemma withdraw_Insert_cases:
  assumes "withdraw_Insert i a z c s = (r, t)"
  shows "(data t = data s \<and> ((\<exists>e. r = Inl e) \<or> i \<in> wq_id ` set (cp_withdraw (data s)))) \<or>
    (i \<notin> wq_id ` set (cp_withdraw (data s)) \<and> cp_withdraw (data t) = cp_withdraw (data s) @
       [\<lparr>wq_id = i, wq_account_id = a, wq_zeny = z, wq_points = c, wq_delivered_at = 0\<rparr>])"
proof (cases "list_ex (\<lambda>r. wq_id r = i) (cp_withdraw (data s))")
  case True
  with assms [unfolded withdraw_Insert_def, THEN exec_cases] show ?thesis by (auto simp: list_ex_iff)
next
  case False
  with assms [unfolded withdraw_Insert_def, THEN exec_cases] show ?thesis by (auto simp: list_ex_iff)
qed

lemma Insert_call:
  assumes b: "ready b" "queued i z c b" and run: "onMy (withdraw_Insert i a z c) (br_world b) = (r, w)"
  shows "ready (b\<lparr>br_world := w\<rparr>) \<and> (\<forall>j y d. queued j y d b \<longrightarrow> queued j y d (b\<lparr>br_world := w\<rparr>)) \<and>
    (r = Inr () \<longrightarrow> i \<in> wq_id ` set (cp_withdraw (my_of (b\<lparr>br_world := w\<rparr>))))"
proof -
  from onMy_cases [OF run] obtain v where v: "withdraw_Insert i a z c (myc (br_world b)) = (r, v)"
    and w: "w = (br_world b)\<lparr>myc := v\<rparr>" by blast
  let ?Q = "cp_withdraw (my_of b)"
  from withdraw_Insert_cases [OF v]
  consider "data v = my_of b" "r \<noteq> Inr ()" | "data v = my_of b" "i \<in> wq_id ` set ?Q"
    | "i \<notin> wq_id ` set ?Q" "cp_withdraw (data v) = ?Q @ [\<lparr>wq_id = i, wq_account_id = a, wq_zeny = z, wq_points = c, wq_delivered_at = 0\<rparr>]"
    by blast
  then show ?thesis
  proof cases
    case 3
    from b(2) 3(1) obtain p where p: "p \<in> set (cp_withdraw_requests (pg_of b))" "wc_ID p = i" "wc_Zeny p = z"
      "wc_Cashpoint p = c" "wc_Status p = 1" by (auto simp: queued_def)
    from queue_ok_insert [OF ready_queue_ok [OF b(1)] p(1,2,5) 3(1), of a] p 3
    have "ready (b\<lparr>br_world := w\<rparr>)" unfolding w by (intro ready_myc [OF b(1)]) simp
    with 3 w show ?thesis by (fastforce simp: queued_def)
  qed (use b w ready_myc [OF b(1)] ready_queue_ok [OF b(1)] in \<open>auto simp: queued_def\<close>)
qed

lemma Sent_call:
  assumes b: "ready b" "i \<in> wq_id ` set (cp_withdraw (my_of b))"
    and run: "onPg (MarkWithdrawSent i now) (br_world b) = (r, w)"
  shows "ready (b\<lparr>br_world := w\<rparr>) \<and> (\<forall>j y d. queued j y d b \<longrightarrow> queued j y d (b\<lparr>br_world := w\<rparr>))"
proof -
  from onPg_cases [OF run] obtain v where v: "MarkWithdrawSent i now (pgc (br_world b)) = (r, v)"
    and w: "w = (br_world b)\<lparr>pgc := v\<rparr>" by blast
  from b(1) have inv: "bank_inv (pg_of b)" by (simp add: ready_def bridge_inv_def)
  with v currency_simulates [of "pgc (br_world b)" "OpSent i now" r v] have bi: "bank_inv (data v)" by simp
  let ?f = "\<lambda>r. r\<lparr>wc_Status := 2, wc_SentAt := Some now\<rparr>"
  from MarkWithdrawSent_data [OF v] show ?thesis
  proof
    assume "data v = pg_of b \<and> (\<exists>e. r = Inl e)"
    with b(1) ready_pgc [OF b(1) bi] ready_queue_ok [OF b(1)] show ?thesis by (simp add: w queued_def)
  next
    assume d: "data v = (pg_of b)\<lparr>cp_withdraw_requests := upd_where (\<lambda>r. wc_ID r = i \<and> wc_Status r = 1) ?f
       (cp_withdraw_requests (pg_of b))\<rparr>"
    from b(2) obtain q where q: "find (\<lambda>q. wq_id q = i) (cp_withdraw (my_of b)) = Some q"
      by (cases "find (\<lambda>q. wq_id q = i) (cp_withdraw (my_of b))") (auto simp: find_key_None)
    have "queue_ok (cp_withdraw_requests (data v)) (cp_withdraw (my_of b)) (br_paid b)"
      unfolding d using ready_queue_ok [OF b(1)] q
      by (simp, intro queue_ok_mark) (auto simp: request_ok_def)
    with ready_pgc [OF b(1) bi] have "ready (b\<lparr>br_world := w\<rparr>)" by (simp add: w)
    moreover have "queued j y e (b\<lparr>br_world := w\<rparr>)" if jq: "queued j y e b" for j y e
    proof -
      from jq obtain p where p: "p \<in> set (cp_withdraw_requests (pg_of b))" "wc_ID p = j" "wc_Zeny p = y" "wc_Cashpoint p = e"
        "wc_Status p = 1 \<or> j \<in> wq_id ` set (cp_withdraw (my_of b))" by (auto simp: queued_def)
      let ?g = "if wc_ID p = i \<and> wc_Status p = 1 then ?f p else p"
      from p(1) have "?g \<in> set (cp_withdraw_requests (data v))" by (simp add: d set_upd_where)
      with p b(2) show ?thesis unfolding queued_def w by (intro bexI [of _ ?g]) auto
    qed
    ultimately show ?thesis by blast
  qed
qed

lemma Delivered_call:
  assumes b: "ready b" "emptied i b"
    and run: "onPg (MarkWithdrawDelivered i u) (br_world b) = (r, w)"
  shows "ready (b\<lparr>br_world := w\<rparr>) \<and> (\<forall>j. emptied j b \<longrightarrow> emptied j (b\<lparr>br_world := w\<rparr>)) \<and>
    (r = Inr True \<longrightarrow> settled i (b\<lparr>br_world := w\<rparr>))"
proof -
  from onPg_cases [OF run] obtain v where v: "MarkWithdrawDelivered i u (pgc (br_world b)) = (r, v)"
    and w: "w = (br_world b)\<lparr>pgc := v\<rparr>" by blast
  from b(1) have inv: "bank_inv (pg_of b)" by (simp add: ready_def bridge_inv_def)
  have "run_currency_op (OpDelivered i u) (pgc (br_world b)) = (map_sum id (\<lambda>_. ()) r, v)"
    using v by (cases r) (simp_all add: bindE_def retE_def)
  with currency_simulates [OF inv] have bi: "bank_inv (data v)" by blast
  let ?f = "\<lambda>r. r\<lparr>wc_Status := 3, wc_DeliveredAt := Some u\<rparr>"
  have fin: "settled i (b\<lparr>br_world := w\<rparr>)" if "r = Inr True"
    using MarkWithdrawDelivered_True [of i u _ v] v that by (auto simp: settled_def w)
  from MarkWithdrawDelivered_data [OF v] show ?thesis
  proof
    assume "data v = pg_of b \<and> (\<exists>e. r = Inl e)"
    with b(1) fin ready_pgc [OF b(1) bi] ready_queue_ok [OF b(1)] show ?thesis by (simp add: w emptied_def)
  next
    assume d: "data v = (pg_of b)\<lparr>cp_withdraw_requests := upd_where (\<lambda>r. wc_ID r = i \<and> wc_Status r = 2) ?f
       (cp_withdraw_requests (pg_of b))\<rparr>"
    have "request_ok (cp_withdraw (my_of b)) (br_paid b) (?f x)"
      if "wc_ID x = i \<and> wc_Status x = 2" "request_ok (cp_withdraw (my_of b)) (br_paid b) x" for x
    proof (cases "find (\<lambda>q. wq_id q = i) (cp_withdraw (my_of b))")
      case (Some q)
      with find_key_Some [OF Some] b(2) have "wq_zeny q = 0" "wq_points q = 0" by (auto simp: emptied_def)
      with that Some show ?thesis by (simp add: request_ok_def)
    qed (use that in \<open>simp add: request_ok_def\<close>)
    then have "queue_ok (cp_withdraw_requests (data v)) (cp_withdraw (my_of b)) (br_paid b)"
      unfolding d using ready_queue_ok [OF b(1)] by (simp, intro queue_ok_mark) auto
    with ready_pgc [OF b(1) bi] fin show ?thesis by (simp add: w emptied_def)
  qed
qed

lemma Reset_call:
  assumes b: "ready b" and run: "onMy (ResetDelivered i) (br_world b) = (r, w)"
  shows "ready (b\<lparr>br_world := w\<rparr>) \<and> (\<forall>j. emptied j b \<longrightarrow> emptied j (b\<lparr>br_world := w\<rparr>))"
proof -
  from onMy_cases [OF run] obtain v where v: "ResetDelivered i (myc (br_world b)) = (r, v)"
    and w: "w = (br_world b)\<lparr>myc := v\<rparr>" by blast
  from v [unfolded ResetDelivered_def, THEN exec_cases]
  have "cp_withdraw (data v) = cp_withdraw (my_of b) \<or> cp_withdraw (data v) =
      upd_where (\<lambda>r. wq_id r = i) (\<lambda>r. r\<lparr>wq_delivered_at := 0\<rparr>) (cp_withdraw (my_of b))" by auto
  then show ?thesis
    using ready_myc [OF b, of v] ready_queue_ok [OF b]
      queue_ok_same_amounts [OF ready_queue_ok [OF b], of "\<lambda>r. r\<lparr>wq_delivered_at := 0\<rparr>" i]
    by (auto simp: w emptied_def set_upd_where)
qed

lemma Delete_call:
  assumes b: "ready b" "emptied i b" "settled i b" and run: "onMy (withdraw_Delete i) (br_world b) = (r, w)"
  shows "ready (b\<lparr>br_world := w\<rparr>) \<and> (\<forall>j. emptied j b \<longrightarrow> emptied j (b\<lparr>br_world := w\<rparr>))"
proof -
  from onMy_cases [OF run] obtain v where v: "withdraw_Delete i (myc (br_world b)) = (r, v)"
    and w: "w = (br_world b)\<lparr>myc := v\<rparr>" by blast
  from b(3) obtain p where p: "p \<in> set (cp_withdraw_requests (pg_of b))" "wc_ID p = i" "wc_Status p = 3"
    by (auto simp: settled_def)
  from v [unfolded withdraw_Delete_def, THEN exec_cases]
  have "cp_withdraw (data v) = cp_withdraw (my_of b) \<or>
      cp_withdraw (data v) = del_where (\<lambda>q. wq_id q = i) (cp_withdraw (my_of b))" by auto
  then show ?thesis
    using ready_myc [OF b(1), of v] ready_queue_ok [OF b(1)]
      queue_ok_delete [OF ready_queue_ok [OF b(1)] b(2) [unfolded emptied_def] p]
    by (auto simp: w emptied_def)
qed

lemma read_pg:
  assumes "ready b" and "onPg (first_rows n f) (br_world b) = (r, w)"
  shows "ready (b\<lparr>br_world := w\<rparr>) \<and> pg_of (b\<lparr>br_world := w\<rparr>) = pg_of b \<and> my_of (b\<lparr>br_world := w\<rparr>) = my_of b \<and>
    (\<forall>x. r = Inr x \<longrightarrow> x = take (nat n) (f (pg_of b)))"
proof -
  from onPg_cases [OF assms(2)] obtain c where c: "first_rows n f (pgc (br_world b)) = (r, c)" "w = (br_world b)\<lparr>pgc := c\<rparr>"
    by blast
  from first_rows_cases [OF c(1)] assms(1) c(2) show ?thesis
    by (simp add: ready_def bridge_inv_def quiet_def)
qed

lemma read_my:
  assumes "ready b" and "onMy (first_rows n f) (br_world b) = (r, w)"
  shows "ready (b\<lparr>br_world := w\<rparr>) \<and> pg_of (b\<lparr>br_world := w\<rparr>) = pg_of b \<and> my_of (b\<lparr>br_world := w\<rparr>) = my_of b \<and>
    (\<forall>x. r = Inr x \<longrightarrow> x = take (nat n) (f (my_of b)))"
proof -
  from onMy_cases [OF assms(2)] obtain c where c: "first_rows n f (myc (br_world b)) = (r, c)" "w = (br_world b)\<lparr>myc := c\<rparr>"
    by blast
  from first_rows_cases [OF c(1)] assms(1) c(2) show ?thesis
    by (simp add: ready_def bridge_inv_def quiet_def)
qed

lemma spec_now: "spec P bridge_now (\<lambda>_. P) E"
  by (rule specI) (simp_all add: bridge_now_def)

lemma enqueueAll_spec:
  "spec (\<lambda>b. ready b \<and> (\<forall>x \<in> set xs. queued (wr_ID x) (wr_Zeny x) (wr_Cashpoint x) b)) (enqueueAll xs) (\<lambda>_. ready) (\<lambda>_. False)"
proof (induction xs)
  case Nil
  show ?case by (simp add: spec_ret)
next
  case (Cons y ys)
  let ?R = "\<lambda>b. ready b \<and> (\<forall>x \<in> set (y # ys). queued (wr_ID x) (wr_Zeny x) (wr_Cashpoint x) b)"
  have ins: "spec ?R (logged (onMy (withdraw_Insert (wr_ID y) (wr_AccountID y) (wr_Zeny y) (wr_Cashpoint y))))
      (\<lambda>ok b. ?R b \<and> (ok \<noteq> None \<longrightarrow> wr_ID y \<in> wq_id ` set (cp_withdraw (my_of b)))) (\<lambda>_. False)"
  proof (rule spec_logged)
    fix b assume "?R b"
    with ready_interfere [of b] show "?R (interfere b)" by (auto dest: evolves_facts)
  next
    fix b r w assume "?R b" and run: "onMy (withdraw_Insert (wr_ID y) (wr_AccountID y) (wr_Zeny y) (wr_Cashpoint y)) (br_world b) = (r, w)"
    then have "ready b" "queued (wr_ID y) (wr_Zeny y) (wr_Cashpoint y) b"
      and all: "\<forall>x \<in> set (y # ys). queued (wr_ID x) (wr_Zeny x) (wr_Cashpoint x) b" by auto
    from Insert_call [OF this(1,2) run] all
    show "?R (b\<lparr>br_world := w\<rparr>) \<and> ((case r of Inl _ \<Rightarrow> None | Inr x \<Rightarrow> Some x) \<noteq> None \<longrightarrow>
        wr_ID y \<in> wq_id ` set (cp_withdraw (my_of (b\<lparr>br_world := w\<rparr>))))"
      by (auto split: sum.splits)
  qed
  have sent: "spec (\<lambda>b. ?R b \<and> wr_ID y \<in> wq_id ` set (cp_withdraw (my_of b))) (logged (onPg (MarkWithdrawSent (wr_ID y) now)))
      (\<lambda>_. ?R) (\<lambda>_. False)" for now
  proof (rule spec_logged)
    fix b assume b: "?R b \<and> wr_ID y \<in> wq_id ` set (cp_withdraw (my_of b))"
    with ready_interfere [of b] have i: "ready (interfere b)" and ev: "evolves b (interfere b)" by auto
    from b i evolves_facts(1,4) [OF ev]
    show "?R (interfere b) \<and> wr_ID y \<in> wq_id ` set (cp_withdraw (my_of (interfere b)))" by blast
  next
    fix b r w assume b: "?R b \<and> wr_ID y \<in> wq_id ` set (cp_withdraw (my_of b))"
      and run: "onPg (MarkWithdrawSent (wr_ID y) now) (br_world b) = (r, w)"
    with Sent_call [of b "wr_ID y" now r w] show "?R (b\<lparr>br_world := w\<rparr>)" by auto
  qed
  have rest: "spec ?R (enqueueAll ys) (\<lambda>_. ready) (\<lambda>_. False)"
    by (rule spec_conseq [OF Cons.IH]) auto
  show ?case
    unfolding enqueueAll.simps
  proof (rule spec_bind [OF ins])
    fix ok :: "unit option"
    show "spec (\<lambda>b. ?R b \<and> (ok \<noteq> None \<longrightarrow> wr_ID y \<in> wq_id ` set (cp_withdraw (my_of b))))
      (case ok of None \<Rightarrow> enqueueAll ys | Some _ \<Rightarrow> bindE bridge_now (\<lambda>now.
           bindE (logged (onPg (MarkWithdrawSent (wr_ID y) now))) (\<lambda>_. enqueueAll ys))) (\<lambda>_. ready) (\<lambda>_. False)"
    proof (cases ok)
      case None
      then show ?thesis by (simp, intro spec_conseq [OF rest]) auto
    next
      case (Some u)
      have "spec (\<lambda>b. ?R b \<and> wr_ID y \<in> wq_id ` set (cp_withdraw (my_of b))) (bindE bridge_now (\<lambda>now.
           bindE (logged (onPg (MarkWithdrawSent (wr_ID y) now))) (\<lambda>_. enqueueAll ys))) (\<lambda>_. ready) (\<lambda>_. False)"
        by (rule spec_bind [OF spec_now], rule spec_bind [OF sent], rule rest)
      with Some show ?thesis by simp
    qed
  qed
qed

lemma reinsertAll_spec:
  "spec (\<lambda>b. ready b \<and> (\<forall>x \<in> set xs. queued (wc_ID x) (wc_Zeny x) (wc_Cashpoint x) b)) (reinsertAll xs) (\<lambda>_. ready) (\<lambda>_. False)"
proof (induction xs)
  case Nil
  show ?case by (simp add: spec_ret)
next
  case (Cons y ys)
  let ?R = "\<lambda>b. ready b \<and> (\<forall>x \<in> set (y # ys). queued (wc_ID x) (wc_Zeny x) (wc_Cashpoint x) b)"
  have ins: "spec ?R (logged (onMy (withdraw_Insert (wc_ID y) (wc_AccountID y) (wc_Zeny y) (wc_Cashpoint y)))) (\<lambda>_. ?R) (\<lambda>_. False)"
  proof (rule spec_logged)
    fix b assume "?R b"
    with ready_interfere [of b] show "?R (interfere b)" by (auto dest: evolves_facts)
  next
    fix b r w assume "?R b" and "onMy (withdraw_Insert (wc_ID y) (wc_AccountID y) (wc_Zeny y) (wc_Cashpoint y)) (br_world b) = (r, w)"
    with Insert_call [of b "wc_ID y" "wc_Zeny y" "wc_Cashpoint y"] show "?R (b\<lparr>br_world := w\<rparr>)" by auto
  qed
  show ?case
    unfolding reinsertAll.simps
    by (rule spec_bind [OF ins], rule spec_conseq [OF Cons.IH]) auto
qed

lemma confirmAll_spec:
  "spec (\<lambda>b. ready b \<and> (\<forall>x \<in> set xs. dw_Zeny x = 0 \<and> dw_Points x = 0 \<longrightarrow> emptied (dw_ID x) b)) (confirmAll xs) (\<lambda>_. ready) (\<lambda>_. False)"
proof (induction xs)
  case Nil
  show ?case by (simp add: spec_ret)
next
  case (Cons y ys)
  let ?R = "\<lambda>b. ready b \<and> (\<forall>x \<in> set (y # ys). dw_Zeny x = 0 \<and> dw_Points x = 0 \<longrightarrow> emptied (dw_ID x) b)"
  have stable: "?R (interfere b)" if "?R b" for b
    using ready_interfere [of b] that by (auto dest: evolves_facts)
  have rest: "spec ?R (confirmAll ys) (\<lambda>_. ready) (\<lambda>_. False)" by (rule spec_conseq [OF Cons.IH]) auto
  show ?case
  proof (cases "dw_Zeny y \<noteq> 0 \<or> dw_Points y \<noteq> 0")
    case True
    have "spec ?R (logged (onMy (ResetDelivered (dw_ID y)))) (\<lambda>_. ?R) (\<lambda>_. False)"
    proof (rule spec_logged)
      show "?R (interfere b)" if "?R b" for b using that by (rule stable)
    next
      fix b r w assume "?R b" and "onMy (ResetDelivered (dw_ID y)) (br_world b) = (r, w)"
      with Reset_call [of b "dw_ID y" r w] show "?R (b\<lparr>br_world := w\<rparr>)" by auto
    qed
    with True show ?thesis unfolding confirmAll.simps by (simp only: if_True, intro spec_bind [OF _ rest])
  next
    case False
    let ?S = "\<lambda>b. ?R b \<and> settled (dw_ID y) b"
    have mark: "spec ?R (logged (onPg (MarkWithdrawDelivered (dw_ID y) (dw_DeliveredAt y))))
        (\<lambda>d b. ?R b \<and> (d = Some True \<longrightarrow> settled (dw_ID y) b)) (\<lambda>_. False)"
    proof (rule spec_logged)
      show "?R (interfere b)" if "?R b" for b using that by (rule stable)
    next
      fix b r w assume "?R b" and run: "onPg (MarkWithdrawDelivered (dw_ID y) (dw_DeliveredAt y)) (br_world b) = (r, w)"
      with False Delivered_call [of b "dw_ID y" _ r w]
      show "?R (b\<lparr>br_world := w\<rparr>) \<and> ((case r of Inl _ \<Rightarrow> None | Inr x \<Rightarrow> Some x) = Some True \<longrightarrow> settled (dw_ID y) (b\<lparr>br_world := w\<rparr>))"
        by (auto split: sum.splits)
    qed
    have del: "spec ?S (logged (onMy (withdraw_Delete (dw_ID y)))) (\<lambda>_. ?R) (\<lambda>_. False)"
    proof (rule spec_logged)
      fix b assume "?S b"
      with stable [of b] ready_interfere [of b] show "?S (interfere b)" by (auto dest: evolves_facts(3))
    next
      fix b r w assume "?S b" and "onMy (withdraw_Delete (dw_ID y)) (br_world b) = (r, w)"
      with False Delete_call [of b "dw_ID y" r w] show "?R (b\<lparr>br_world := w\<rparr>)" by auto
    qed
    have "spec (\<lambda>b. ?R b \<and> (d = Some True \<longrightarrow> settled (dw_ID y) b))
      (if d = Some True then bindE (logged (onMy (withdraw_Delete (dw_ID y)))) (\<lambda>_. confirmAll ys) else confirmAll ys)
      (\<lambda>_. ready) (\<lambda>_. False)" for d
    proof (cases "d = Some True")
      case True
      have "spec ?S (bindE (logged (onMy (withdraw_Delete (dw_ID y)))) (\<lambda>_. confirmAll ys)) (\<lambda>_. ready) (\<lambda>_. False)"
        by (rule spec_bind [OF del], rule rest)
      with True show ?thesis by simp
    qed (simp, rule spec_conseq [OF rest], auto)
    with False mark show ?thesis unfolding confirmAll.simps by (simp only: if_False, intro spec_bind)
  qed
qed

lemma withdraw_drainOnce_spec: "spec ready (withdraw_drainOnce w) (\<lambda>_. ready) (\<lambda>_. False)"
proof -
  have pend: "spec ready (logged (onPg (PendingWithdraws (wwk_Batch w))))
      (\<lambda>xs b. ready b \<and> (\<forall>ys. xs = Some ys \<longrightarrow> (\<forall>x \<in> set ys. queued (wr_ID x) (wr_Zeny x) (wr_Cashpoint x) b))) (\<lambda>_. False)"
  proof (rule spec_logged)
    fix b r v assume b: "ready b" and run: "onPg (PendingWithdraws (wwk_Batch w)) (br_world b) = (r, v)"
    from read_pg [OF b run [unfolded PendingWithdraws_def]]
    show "ready (b\<lparr>br_world := v\<rparr>) \<and> (\<forall>ys. (case r of Inl _ \<Rightarrow> None | Inr x \<Rightarrow> Some x) = Some ys \<longrightarrow>
        (\<forall>x \<in> set ys. queued (wr_ID x) (wr_Zeny x) (wr_Cashpoint x) (b\<lparr>br_world := v\<rparr>)))"
      by (force simp: queued_def request_of_def split: sum.splits dest!: in_set_takeD)
  qed (simp add: ready_interfere)
  have deliv: "spec ready (logged (onMy (withdraw_Delivered (wwk_Batch w))))
      (\<lambda>xs b. ready b \<and> (\<forall>ys. xs = Some ys \<longrightarrow> (\<forall>x \<in> set ys. dw_Zeny x = 0 \<and> dw_Points x = 0 \<longrightarrow> emptied (dw_ID x) b))) (\<lambda>_. False)"
  proof (rule spec_logged)
    fix b r v assume b: "ready b" and run: "onMy (withdraw_Delivered (wwk_Batch w)) (br_world b) = (r, v)"
    have u: "uniq wq_id (cp_withdraw (my_of b))" using ready_queue_ok [OF b] by (simp add: queue_ok_def)
    from read_my [OF b run [unfolded withdraw_Delivered_def]]
    have rv: "ready (b\<lparr>br_world := v\<rparr>)" "my_of (b\<lparr>br_world := v\<rparr>) = my_of b"
      and x: "\<forall>x. r = Inr x \<longrightarrow> x = take (nat (wwk_Batch w)) (map (\<lambda>r. \<lparr>dw_ID = wq_id r, dw_DeliveredAt = wq_delivered_at r,
        dw_Zeny = wq_zeny r, dw_Points = wq_points r\<rparr>) (sort_key wq_id (filter (\<lambda>r. wq_delivered_at r > 0) (cp_withdraw (my_of b)))))" by auto
    have "emptied (dw_ID y) b" if "r = Inr ys" "y \<in> set ys" "dw_Zeny y = 0" "dw_Points y = 0" for ys y
    proof -
      from that x obtain q where "q \<in> set (cp_withdraw (my_of b))" "dw_ID y = wq_id q" "wq_zeny q = 0" "wq_points q = 0"
        by (auto dest!: in_set_takeD)
      with u show ?thesis by (auto simp: emptied_def dest: uniq_the_row)
    qed
    with rv show "ready (b\<lparr>br_world := v\<rparr>) \<and> (\<forall>ys. (case r of Inl _ \<Rightarrow> None | Inr x \<Rightarrow> Some x) = Some ys \<longrightarrow>
        (\<forall>x \<in> set ys. dw_Zeny x = 0 \<and> dw_Points x = 0 \<longrightarrow> emptied (dw_ID x) (b\<lparr>br_world := v\<rparr>)))"
      by (auto simp: emptied_def split: sum.splits)
  qed (simp add: ready_interfere)
  have stale: "spec ready (logged (onPg (SentBefore t (wwk_Batch w))))
      (\<lambda>xs b. ready b \<and> (\<forall>ys. xs = Some ys \<longrightarrow> (\<forall>x \<in> set ys. queued (wc_ID x) (wc_Zeny x) (wc_Cashpoint x) b))) (\<lambda>_. False)" for t
  proof (rule spec_logged)
    fix b r v assume b: "ready b" and run: "onPg (SentBefore t (wwk_Batch w)) (br_world b) = (r, v)"
    note rd = read_pg [OF b run [unfolded SentBefore_def]]
    then have rv: "ready (b\<lparr>br_world := v\<rparr>)" "my_of (b\<lparr>br_world := v\<rparr>) = my_of b" "pg_of (b\<lparr>br_world := v\<rparr>) = pg_of b"
      by (simp_all only:)
    have x: "set x \<subseteq> {q \<in> set (cp_withdraw_requests (pg_of b)). wc_Status q = 2}" if "r = Inr x" for x
    proof -
      from rd that have "x = take (nat (wwk_Batch w)) (sort_key (\<lambda>r. the (wc_SentAt r))
         (filter (\<lambda>r. wc_Status r = 2 \<and> sent_before t r) (cp_withdraw_requests (pg_of b))))" by blast
      then show ?thesis by (auto dest: in_set_takeD)
    qed
    have "queued (wc_ID y) (wc_Zeny y) (wc_Cashpoint y) b" if "r = Inr ys" "y \<in> set ys" for ys y
    proof -
      from that x have y: "y \<in> set (cp_withdraw_requests (pg_of b))" "wc_Status y = 2" by auto
      with ready_queue_ok [OF b] have "request_ok (cp_withdraw (my_of b)) (br_paid b) y" by (auto simp: queue_ok_def)
      with y have "find (\<lambda>q. wq_id q = wc_ID y) (cp_withdraw (my_of b)) \<noteq> None"
        by (auto simp: request_ok_def split: option.splits)
      then have "wc_ID y \<in> wq_id ` set (cp_withdraw (my_of b))" by (simp add: find_key_None)
      with y show ?thesis by (auto simp: queued_def)
    qed
    with rv show "ready (b\<lparr>br_world := v\<rparr>) \<and> (\<forall>ys. (case r of Inl _ \<Rightarrow> None | Inr x \<Rightarrow> Some x) = Some ys \<longrightarrow>
        (\<forall>x \<in> set ys. queued (wc_ID x) (wc_Zeny x) (wc_Cashpoint x) (b\<lparr>br_world := v\<rparr>)))"
      by (auto simp: queued_def split: sum.splits)
  qed (simp add: ready_interfere)
  have opt: "spec (\<lambda>b. ready b \<and> (\<forall>ys. xs = Some ys \<longrightarrow> (\<forall>x \<in> set ys. F x b))) (case xs of None \<Rightarrow> retE () | Some rs \<Rightarrow> m rs) (\<lambda>_. ready) (\<lambda>_. False)"
    if "\<And>rs. spec (\<lambda>b. ready b \<and> (\<forall>x \<in> set rs. F x b)) (m rs) (\<lambda>_. ready) (\<lambda>_. False)"
    for xs :: "'x list option" and F :: "'x \<Rightarrow> bridge \<Rightarrow> bool" and m :: "'x list \<Rightarrow> unit bridge_prog"
    using that by (cases xs) (auto intro: spec_ret)
  have "spec ready (enqueue w) (\<lambda>_. ready) (\<lambda>_. False)" unfolding enqueue_def
    by (rule spec_bind [OF pend], rule opt, rule enqueueAll_spec)
  moreover have "spec ready (confirm w) (\<lambda>_. ready) (\<lambda>_. False)" unfolding confirm_def
    by (rule spec_bind [OF deliv], rule opt, rule confirmAll_spec)
  moreover have "spec ready (reap w) (\<lambda>_. ready) (\<lambda>_. False)" unfolding reap_def
  proof (cases "wwk_ReapAfter w \<le> 0")
    case False
    have "spec ready (bindE bridge_now (\<lambda>now. bindE (logged (onPg (SentBefore (now - wwk_ReapAfter w) (wwk_Batch w))))
        (\<lambda>stale. case stale of None \<Rightarrow> retE () | Some rs \<Rightarrow> reinsertAll rs))) (\<lambda>_. ready) (\<lambda>_. False)"
      by (rule spec_bind [OF spec_now], rule spec_bind [OF stale], rule opt, rule reinsertAll_spec)
    with False show "spec ready (if wwk_ReapAfter w \<le> 0 then retE () else bindE bridge_now (\<lambda>now.
        bindE (logged (onPg (SentBefore (now - wwk_ReapAfter w) (wwk_Batch w))))
        (\<lambda>stale. case stale of None \<Rightarrow> retE () | Some rs \<Rightarrow> reinsertAll rs))) (\<lambda>_. ready) (\<lambda>_. False)" by simp
  qed (simp add: spec_ret)
  ultimately show ?thesis unfolding withdraw_drainOnce_def by (intro spec_then)
qed

lemma runLoop_spec: "spec I tick (\<lambda>_. I) (\<lambda>_. False) \<Longrightarrow> spec I (runLoop n tick) (\<lambda>_. I) (\<lambda>_. False)"
proof (induction n)
  case (Suc n)
  from spec_then [OF Suc.prems Suc.IH [OF Suc.prems]] show ?case by simp
qed simp

end
