(* ===== verification/Deposit_Safety.thy ===== *)
theory Deposit_Safety
  imports Currency_Safety
begin

text \<open>
  The deposit worker beside everything else: no deposit the game server has taken from a
  player is lost, none is credited twice, the balances change by the credits and by what the
  others do and by nothing else, and the panel never holds more money than it was given.
\<close>

section \<open>Deposits taken, waiting and credited\<close>

definition credited_row :: "deposit_row list \<Rightarrow> deposit_record \<Rightarrow> bool" where
  "credited_row posted x \<longleftrightarrow> (\<exists>r \<in> set posted. dep_ID r = dr_DepositID x \<and> dep_AccountID r = dr_AccountID x \<and>
     dep_Zeny r = dr_Zeny x \<and> dep_Points r = dr_Cashpoint x \<and> validDepositRow r)"

definition deposits_ok :: "deposit_row list \<Rightarrow> deposit_row list \<Rightarrow> deposit_record list \<Rightarrow> bool" where
  "deposits_ok posted waiting credited \<longleftrightarrow>
     uniq dep_ID posted \<and> set waiting \<subseteq> set posted \<and> (\<forall>x \<in> set credited. credited_row posted x) \<and>
     (\<forall>r \<in> set posted. validDepositRow r \<longrightarrow> r \<in> set waiting \<or> dep_ID r \<in> dr_DepositID ` set credited)"

text \<open>The cash points of the purchases that took effect.\<close>

definition bought_points :: "bridge \<Rightarrow> int" where
  "bought_points b = tsum (\<lambda>(a, n). max 0 n) (br_bought b)"

definition deposit_inv :: "int \<Rightarrow> int \<Rightarrow> bridge \<Rightarrow> bool" where
  "deposit_inv Z C b \<longleftrightarrow> bank_inv (pg_of b) \<and> fst (worth (pg_of b)) \<le> Z \<and>
     snd (worth (pg_of b)) \<le> C + bought_points b \<and>
     deposits_ok (br_posted b) (cp_deposit (my_of b)) (cp_deposit_processed (pg_of b))"

text \<open>
  The story of the balances: a deposit credited to its account up to the caps, and what the
  others did between two calls of the worker. An account of a state starts from the balances of
  an earlier one and has each deposit that is newly processed, and each recorded turn of the
  others, once and in order.
\<close>

datatype money_event = Credited deposit_record | Others "currency_row list \<times> currency_row list"

fun play :: "money_event \<Rightarrow> (int \<Rightarrow> int \<times> int) \<Rightarrow> int \<Rightarrow> int \<times> int" where
  "play (Credited x) B = B(dr_AccountID x := (min max_int64 (fst (B (dr_AccountID x)) + max 0 (dr_Zeny x)),
     min max_int32 (snd (B (dr_AccountID x)) + max 0 (dr_Cashpoint x))))"
| "play (Others (t, u)) B = (\<lambda>a. (fst (B a) + (fst (bal u a) - fst (bal t a)), snd (B a) + (snd (bal u a) - snd (bal t a))))"

definition credits_in :: "money_event list \<Rightarrow> deposit_record list" where
  "credits_in h = concat (map (\<lambda>e. case e of Credited x \<Rightarrow> [x] | Others _ \<Rightarrow> []) h)"

definition turns_in :: "money_event list \<Rightarrow> (currency_row list \<times> currency_row list) list" where
  "turns_in h = concat (map (\<lambda>e. case e of Credited _ \<Rightarrow> [] | Others p \<Rightarrow> [p]) h)"

definition story :: "bridge \<Rightarrow> money_event list \<Rightarrow> bridge \<Rightarrow> bool" where
  "story a h b \<longleftrightarrow> cp_deposit_processed (pg_of b) = cp_deposit_processed (pg_of a) @ credits_in h \<and>
     br_others b = br_others a @ turns_in h \<and>
     bal (cp_currency (pg_of b)) = fold play h (bal (cp_currency (pg_of a)))"

lemma story_refl: "story b [] b"
  by (simp add: story_def credits_in_def turns_in_def)

lemma story_credit:
  assumes "story a h b" and "bal (cp_currency (pg_of c)) = play (Credited x) (bal (cp_currency (pg_of b)))"
    and "cp_deposit_processed (pg_of c) = cp_deposit_processed (pg_of b) @ [x]" and "br_others c = br_others b"
  shows "story a (h @ [Credited x]) c"
  using assms by (simp add: story_def credits_in_def turns_in_def del: play.simps)

lemma story_others:
  assumes "story a h b" and "cp_deposit_processed (pg_of c) = cp_deposit_processed (pg_of b)"
    and "br_others c = br_others b @ [(cp_currency (pg_of b), cp_currency (pg_of c))]"
  shows "story a (h @ [Others (cp_currency (pg_of b), cp_currency (pg_of c))]) c"
  using assms by (simp add: story_def credits_in_def turns_in_def fun_eq_iff)

lemma story_same:
  "story a h b \<Longrightarrow> bal (cp_currency (pg_of c)) = bal (cp_currency (pg_of b)) \<Longrightarrow>
   cp_deposit_processed (pg_of c) = cp_deposit_processed (pg_of b) \<Longrightarrow> br_others c = br_others b \<Longrightarrow> story a h c"
  by (simp add: story_def)

definition dep_ready :: "bridge \<Rightarrow> int \<Rightarrow> int \<Rightarrow> bridge \<Rightarrow> bool" where
  "dep_ready a Z C b \<longleftrightarrow> deposit_inv Z C b \<and> quiet by_deposit_worker b \<and> (\<exists>h. story a h b)"

definition dep_evolves :: "bridge \<Rightarrow> bridge \<Rightarrow> bool" where
  "dep_evolves a b \<longleftrightarrow> set (br_posted a) \<subseteq> set (br_posted b) \<and>
     dr_DepositID ` set (cp_deposit_processed (pg_of a)) \<subseteq> dr_DepositID ` set (cp_deposit_processed (pg_of b))"

lemma dep_evolves_refl [simp]: "dep_evolves b b"
  by (simp add: dep_evolves_def)

lemma dep_evolves_trans: "dep_evolves a b \<Longrightarrow> dep_evolves b c \<Longrightarrow> dep_evolves a c"
  unfolding dep_evolves_def by (meson subset_trans)

lemma next_deposit_fresh: "r \<in> set t \<Longrightarrow> dep_ID r < next_deposit t"
  by (induction t) (auto simp: next_deposit_def)

lemma deposits_ok_post:
  assumes "deposits_ok posted waiting credited" and "dep_ID r = next_deposit posted"
  shows "deposits_ok (posted @ [r]) (waiting @ [r]) credited"
proof -
  from assms(2) have "dep_ID r \<notin> dep_ID ` set posted" using next_deposit_fresh by fastforce
  with assms(1) show ?thesis by (fastforce simp: deposits_ok_def credited_row_def)
qed

lemma deposits_ok_credit:
  assumes ok: "deposits_ok posted waiting credited" and r: "r \<in> set posted" "validDepositRow r"
  shows "deposits_ok posted waiting (credited @ [\<lparr>dr_ProcessedAt = now, dr_DepositID = dep_ID r,
    dr_AccountID = dep_AccountID r, dr_Zeny = dep_Zeny r, dr_Cashpoint = dep_Points r\<rparr>])"
  using ok r by (auto simp: deposits_ok_def credited_row_def)

lemma deposits_ok_delete:
  assumes ok: "deposits_ok posted waiting credited" and r: "r \<in> set posted"
    and "\<not> validDepositRow r \<or> dep_ID r \<in> dr_DepositID ` set credited"
  shows "deposits_ok posted (del_where (\<lambda>q. dep_ID q = dep_ID r) waiting) credited"
proof -
  have "q = r" if "q \<in> set posted" "dep_ID q = dep_ID r" for q
    using ok r that by (auto simp: deposits_ok_def dest: uniq_the_row)
  with ok assms(3) show ?thesis by (auto simp: deposits_ok_def)
qed

lemma currency_op_deposits:
  assumes "run_currency_op x s = (r, t)" and "bank_inv (data s)" and "\<And>i a z c u n. x \<noteq> OpCredit i a z c u n"
  shows "bank_inv (data t) \<and> no_richer (data s) (data t) \<and> cp_deposit_processed (data t) = cp_deposit_processed (data s)"
proof -
  have R: "cp_deposit_processed d = bk_done (bank_of d)" for d by (simp add: bank_of_def)
  from currency_simulates [OF assms(2,1)] show ?thesis
    by (auto simp: R elim!: currency_stepE) (use assms(3) in \<open>auto elim: currency_step.cases\<close>)
qed

lemma dep_pg_event:
  assumes "run_currency_op x (pgc (br_world b)) = (r, c)" and inv: "deposit_inv Z C b"
    and "\<And>i a z c u n. x \<noteq> OpCredit i a z c u n"
  shows "deposit_inv Z C (b\<lparr>br_world := (br_world b)\<lparr>pgc := c\<rparr>\<rparr>) \<and> dep_evolves b (b\<lparr>br_world := (br_world b)\<lparr>pgc := c\<rparr>\<rparr>) \<and>
    cp_deposit_processed (data c) = cp_deposit_processed (pg_of b)"
proof -
  from inv have "bank_inv (pg_of b)" by (simp add: deposit_inv_def)
  from currency_op_deposits [OF assms(1) this assms(3)] inv show ?thesis
    by (auto simp: deposit_inv_def dep_evolves_def no_richer_def bought_points_def)
qed

lemma dep_my_event:
  assumes inv: "deposit_inv Z C b" and "cp_deposit (data c) = cp_deposit (my_of b)"
  shows "deposit_inv Z C (b\<lparr>br_world := (br_world b)\<lparr>myc := c\<rparr>\<rparr>) \<and> dep_evolves b (b\<lparr>br_world := (br_world b)\<lparr>myc := c\<rparr>\<rparr>)"
  using assms by (simp add: deposit_inv_def dep_evolves_def bought_points_def)

lemma bought_points_cong: "br_bought c = br_bought b \<Longrightarrow> bought_points c = bought_points b"
  by (simp add: bought_points_def)

text \<open>An operation and the call that drops its result do the same.\<close>

lemma in_world_drop: "in_world (onPg m) b = in_world (onPg (bindE m (\<lambda>_. retE ()))) b"
  by (auto simp: in_world_def onPg_def bindE_def retE_def split: prod.splits sum.splits)

lemma queue_calls_keep_deposits:
  "withdraw_Insert i a z p s = (r, t) \<Longrightarrow> cp_deposit (data t) = cp_deposit (data s)"
  "ResetDelivered i s = (r', t) \<Longrightarrow> cp_deposit (data t) = cp_deposit (data s)"
  "withdraw_Delete i s = (r', t) \<Longrightarrow> cp_deposit (data t) = cp_deposit (data s)"
  by (auto simp: withdraw_Insert_def ResetDelivered_def withdraw_Delete_def dest!: exec_cases)

lemma run_event_deposits:
  assumes inv: "deposit_inv Z C b" and e: "\<not> by_deposit_worker e"
  shows "deposit_inv Z C (run_event e b) \<and> dep_evolves b (run_event e b) \<and>
    cp_deposit_processed (pg_of (run_event e b)) = cp_deposit_processed (pg_of b)"
proof -
  have pg: ?thesis if run: "run_event e b = in_world (onPg (run_currency_op x)) b"
    and "\<And>i a z c u n. x \<noteq> OpCredit i a z c u n" for x
    using in_world_onPg [of "run_currency_op x" b] dep_pg_event [OF _ inv that(2)] run by fastforce
  have my: ?thesis if run: "run_event e b = in_world (onMy m) b"
    and "\<And>r t. m (myc (br_world b)) = (r, t) \<Longrightarrow> cp_deposit (data t) = cp_deposit (my_of b)" for m :: "unit my_prog"
    using in_world_onMy [of m b] dep_my_event [OF inv that(2)] run by fastforce
  show ?thesis
  proof (cases e)
    case (Time_passes n)
    with inv show ?thesis by (simp add: deposit_inv_def dep_evolves_def bought_points_def)
  next
    case (Game_deposits a z p)
    with inv deposits_ok_post [of "br_posted b" "cp_deposit (my_of b)" "cp_deposit_processed (pg_of b)"]
    show ?thesis by (auto simp: game_deposits_def Let_def in_game_def deposit_inv_def dep_evolves_def bought_points_def)
  next
    case (Game_pays_zeny i)
    with inv show ?thesis
      by (simp add: game_pays_def in_game_def Let_def deposit_inv_def dep_evolves_def bought_points_def split: option.splits)
  next
    case (Game_pays_points i)
    with inv show ?thesis
      by (simp add: game_pays_def in_game_def Let_def deposit_inv_def dep_evolves_def bought_points_def split: option.splits)
  next
    case (Game_closes i t)
    with inv show ?thesis by (simp add: game_closes_def in_game_def Let_def deposit_inv_def dep_evolves_def bought_points_def)
  next
    case (Player_withdraws a z c until now)
    then have "run_event e b = in_world (onPg (run_currency_op (OpRequest a z c until now))) b"
      unfolding run_currency_op.simps by (simp only: run_event.simps, intro in_world_drop)
    then show ?thesis by (rule pg) simp
  next
    case (Wallet_call x)
    with pg [of "OpWallet x"] show ?thesis by simp
  next
    case (Points_bought a n)
    from in_world_onPg [of "buyPoints a n" b] obtain r c where c: "buyPoints a n (pgc (br_world b)) = (r, c)"
      "in_world (onPg (buyPoints a n)) b = b\<lparr>br_world := (br_world b)\<lparr>pgc := c\<rparr>\<rparr>" by blast
    from inv have "bank_inv (pg_of b)" by (simp add: deposit_inv_def)
    from buyPoints_keeps [OF c(1) this] c(2) inv Points_bought show ?thesis
      by (auto simp: points_bought_def deposit_inv_def dep_evolves_def bought_points_def Let_def)
  next
    case (Withdraw_inserted i a z p)
    then show ?thesis by (intro my [of "withdraw_Insert i a z p"]) (auto dest: queue_calls_keep_deposits)
  next
    case (Withdraw_sent i now)
    with pg [of "OpSent i now"] show ?thesis by simp
  next
    case (Withdraw_delivered i t)
    then have "run_event e b = in_world (onPg (run_currency_op (OpDelivered i t))) b"
      unfolding run_currency_op.simps by (simp only: run_event.simps, intro in_world_drop)
    then show ?thesis by (rule pg) simp
  next
    case (Withdraw_reset i)
    then show ?thesis by (intro my [of "ResetDelivered i"]) (auto dest: queue_calls_keep_deposits)
  next
    case (Withdraw_deleted i)
    then show ?thesis by (intro my [of "withdraw_Delete i"]) (auto dest: queue_calls_keep_deposits)
  qed (use e in simp_all)
qed

lemma dep_ready_interfere:
  assumes ready: "dep_ready s Z C b"
  shows "dep_ready s Z C (interfere b) \<and> dep_evolves b (interfere b)"
proof (cases "br_schedule b")
  case (Cons now later)
  have folded: "deposit_inv Z C (fold run_event es c) \<and> dep_evolves c (fold run_event es c) \<and>
      cp_deposit_processed (pg_of (fold run_event es c)) = cp_deposit_processed (pg_of c) \<and>
      br_others (fold run_event es c) = br_others c"
    if "deposit_inv Z C c" "\<forall>e \<in> set es. \<not> by_deposit_worker e" for es c
    using that
  proof (induction es arbitrary: c)
    case (Cons e es)
    from run_event_deposits [of Z C c e] Cons.prems
    have "deposit_inv Z C (run_event e c)" "dep_evolves c (run_event e c)"
      "cp_deposit_processed (pg_of (run_event e c)) = cp_deposit_processed (pg_of c)" by auto
    with Cons.IH [of "run_event e c"] Cons.prems(2) show ?case by (auto intro: dep_evolves_trans)
  qed simp
  let ?a = "b\<lparr>br_schedule := later\<rparr>"
  let ?c = "fold run_event now ?a"
  from ready Cons have a: "deposit_inv Z C ?a" "\<forall>e \<in> set now. \<not> by_deposit_worker e" and q: "quiet by_deposit_worker b"
    by (auto simp: dep_ready_def quiet_def deposit_inv_def bought_points_def)
  from ready obtain h where h: "story s h b" by (auto simp: dep_ready_def)
  note c = folded [OF a]
  from Cons have i: "interfere b = ?c\<lparr>br_others := br_others b @ [(cp_currency (pg_of b), cp_currency (pg_of ?c))]\<rparr>"
    by (simp add: interfere_def Let_def)
  have "story s (h @ [Others (cp_currency (pg_of b), cp_currency (pg_of (interfere b)))]) (interfere b)"
    by (rule story_others [OF h]) (use c in \<open>simp_all add: i\<close>)
  moreover have "deposit_inv Z C (interfere b)" "dep_evolves b (interfere b)"
    using c by (auto simp: i deposit_inv_def bought_points_def dep_evolves_def)
  ultimately show ?thesis using quiet_interfere [OF q] by (auto simp: dep_ready_def)
qed (use assms in \<open>simp add: interfere_def\<close>)

section \<open>The worker's calls\<close>

lemma Credit_call:
  assumes b: "dep_ready s Z C b" "r \<in> set (br_posted b)" "validDepositRow r"
    and run: "onPg (CreditDeposit (dep_ID r) (dep_AccountID r) (dep_Zeny r) (dep_Points r) until now) (br_world b) = (y, w)"
  shows "dep_ready s Z C (b\<lparr>br_world := w\<rparr>) \<and> dep_evolves b (b\<lparr>br_world := w\<rparr>) \<and>
    (\<forall>x. y = Inr x \<longrightarrow> dep_ID r \<in> dr_DepositID ` set (cp_deposit_processed (pg_of (b\<lparr>br_world := w\<rparr>))))"
proof -
  from onPg_cases [OF run] obtain v where
    v: "CreditDeposit (dep_ID r) (dep_AccountID r) (dep_Zeny r) (dep_Points r) until now (pgc (br_world b)) = (y, v)"
    and w: "w = (br_world b)\<lparr>pgc := v\<rparr>" by blast
  have R: "cp_deposit_processed d = bk_done (bank_of d)" for d by (simp add: bank_of_def)
  from b(1) have inv: "bank_inv (pg_of b)" and ok: "deposits_ok (br_posted b) (cp_deposit (my_of b)) (cp_deposit_processed (pg_of b))"
    by (simp_all add: dep_ready_def deposit_inv_def)
  from CreditDeposit_simulates [OF v inv] have bi: "bank_inv (data v)" and nr: "no_richer (pg_of b) (data v)"
    and st: "bank_of (data v) = bank_of (pg_of b) \<and> (\<exists>e. y = Inl e) \<or>
      currency_step (OpCredit (dep_ID r) (dep_AccountID r) (dep_Zeny r) (dep_Points r) until now) (bank_of (pg_of b)) (bank_of (data v))" by auto
  let ?x = "\<lparr>dr_ProcessedAt = now, dr_DepositID = dep_ID r,
    dr_AccountID = dep_AccountID r, dr_Zeny = dep_Zeny r, dr_Cashpoint = dep_Points r\<rparr>"
  have B: "bal (cp_currency d) = lg_bal (bk_ledger (bank_of d))" for d by (simp add: bank_of_def ledger_of_def)
  from b(1) obtain h where h: "story s h b" by (auto simp: dep_ready_def)
  from st consider "cp_deposit_processed (data v) = cp_deposit_processed (pg_of b)" "bal (cp_currency (data v)) = bal (cp_currency (pg_of b))"
      "(\<exists>e. y = Inl e) \<or> dep_ID r \<in> dr_DepositID ` set (cp_deposit_processed (pg_of b))"
    | "cp_deposit_processed (data v) = cp_deposit_processed (pg_of b) @ [?x]"
      "bal (cp_currency (data v)) = play (Credited ?x) (bal (cp_currency (pg_of b)))"
    by (auto simp: R B lput_def elim!: currency_stepE)
  then show ?thesis
  proof cases
    case 1
    with story_same [OF h, of "b\<lparr>br_world := w\<rparr>"] have "\<exists>h. story s h (b\<lparr>br_world := w\<rparr>)" by (auto simp: w)
    with 1 b bi nr ok show ?thesis
      by (auto simp: w dep_ready_def deposit_inv_def quiet_def no_richer_def dep_evolves_def bought_points_def)
  next
    case 2
    with story_credit [OF h, of "b\<lparr>br_world := w\<rparr>" ?x] have "\<exists>h. story s h (b\<lparr>br_world := w\<rparr>)" by (auto simp: w)
    with 2(1) b bi nr deposits_ok_credit [OF ok b(2,3), of now] show ?thesis
      by (auto simp: w dep_ready_def deposit_inv_def quiet_def no_richer_def dep_evolves_def bought_points_def)
  qed
qed

lemma Deposit_Delete_call:
  assumes b: "dep_ready s Z C b" "r \<in> set (br_posted b)"
    and d: "\<not> validDepositRow r \<or> dep_ID r \<in> dr_DepositID ` set (cp_deposit_processed (pg_of b))"
    and run: "onMy (deposit_Delete (dep_ID r)) (br_world b) = (y, w)"
  shows "dep_ready s Z C (b\<lparr>br_world := w\<rparr>) \<and> dep_evolves b (b\<lparr>br_world := w\<rparr>)"
proof -
  from onMy_cases [OF run] obtain v where v: "deposit_Delete (dep_ID r) (myc (br_world b)) = (y, v)"
    and w: "w = (br_world b)\<lparr>myc := v\<rparr>" by blast
  from b(1) have ok: "deposits_ok (br_posted b) (cp_deposit (my_of b)) (cp_deposit_processed (pg_of b))"
    by (simp add: dep_ready_def deposit_inv_def)
  from v [unfolded deposit_Delete_def, THEN exec_cases]
  have "cp_deposit (data v) = cp_deposit (my_of b) \<or>
    cp_deposit (data v) = del_where (\<lambda>q. dep_ID q = dep_ID r) (cp_deposit (my_of b))" by auto
  with b(1) ok deposits_ok_delete [OF ok b(2) d] show ?thesis
    by (auto simp: w dep_ready_def deposit_inv_def quiet_def dep_evolves_def bought_points_def story_def)
qed

lemma drainDeposits_spec:
  "spec (\<lambda>b. dep_ready s Z C b \<and> set rs \<subseteq> set (br_posted b)) (drainDeposits w rs) (\<lambda>_. dep_ready s Z C) (\<lambda>_. False)"
proof (induction rs)
  case Nil
  show ?case by (simp add: spec_ret)
next
  case (Cons r rs)
  let ?R = "\<lambda>b. dep_ready s Z C b \<and> set (r # rs) \<subseteq> set (br_posted b)"
  let ?D = "\<lambda>b. ?R b \<and> (\<not> validDepositRow r \<or> dep_ID r \<in> dr_DepositID ` set (cp_deposit_processed (pg_of b)))"
  have stable: "?R (interfere b)" if "?R b" for b
    using dep_ready_interfere [of s Z C b] that by (auto simp: dep_evolves_def)
  have stableD: "?D (interfere b)" if "?D b" for b
    using dep_ready_interfere [of s Z C b] that unfolding dep_evolves_def by blast
  have del: "spec ?D (deleteDeposit (dep_ID r)) (\<lambda>_. ?R) (\<lambda>_. False)"
    unfolding deleteDeposit_def
  proof (rule spec_bind, rule spec_logged)
    fix b y v assume "?D b" and "onMy (deposit_Delete (dep_ID r)) (br_world b) = (y, v)"
    with Deposit_Delete_call [of s Z C b r y v] show "?R (b\<lparr>br_world := v\<rparr>)" by auto
  qed (use stableD in \<open>auto intro: spec_ret\<close>)
  have credit: "spec ?R (applyDeposit w r) (\<lambda>remove b. ?R b \<and> (remove \<longrightarrow> dep_ID r \<in> dr_DepositID ` set (cp_deposit_processed (pg_of b)))) (\<lambda>_. False)"
    if v: "validDepositRow r"
    unfolding applyDeposit_def
  proof (rule spec_bind [OF spec_now], rule spec_bind)
    fix now
    show "spec ?R (tryE (call (onPg (CreditDeposit (dep_ID r) (dep_AccountID r) (dep_Zeny r) (dep_Points r) (now + dwk_Cooldown w) now))))
      (\<lambda>y b. ?R b \<and> (\<forall>x. y = Inr x \<longrightarrow> dep_ID r \<in> dr_DepositID ` set (cp_deposit_processed (pg_of b)))) (\<lambda>_. False)"
    proof (rule specI)
      fix b y t assume b: "?R b" and run: "tryE (call (onPg (CreditDeposit (dep_ID r) (dep_AccountID r) (dep_Zeny r) (dep_Points r) (now + dwk_Cooldown w) now))) b = (Inr y, t)"
      from run obtain v where cr: "onPg (CreditDeposit (dep_ID r) (dep_AccountID r) (dep_Zeny r) (dep_Points r) (now + dwk_Cooldown w) now)
          (br_world (interfere b)) = (y, v)" and t: "t = (interfere b)\<lparr>br_world := v\<rparr>"
        by (auto simp: tryE_Inr call_def Let_def split: prod.splits)
      from stable [OF b] have i: "dep_ready s Z C (interfere b)" "r \<in> set (br_posted (interfere b))" "set rs \<subseteq> set (br_posted (interfere b))" by auto
      from Credit_call [OF i(1,2) v cr] i(2,3) show "?R t \<and> (\<forall>x. y = Inr x \<longrightarrow> dep_ID r \<in> dr_DepositID ` set (cp_deposit_processed (pg_of t)))"
        by (auto simp: t)
    qed (simp add: tryE_def split: prod.splits)
  qed (auto intro: spec_ret split: sum.splits)
  have rest: "spec ?R (drainDeposits w rs) (\<lambda>_. dep_ready s Z C) (\<lambda>_. False)" by (rule spec_conseq [OF Cons.IH]) auto
  show ?case
    unfolding drainDeposits.simps
  proof (rule spec_then [OF _ rest])
    show "spec ?R (if \<not> validDepositRow r then deleteDeposit (dep_ID r)
            else bindE (applyDeposit w r) (\<lambda>remove. if remove then deleteDeposit (dep_ID r) else retE ())) (\<lambda>_. ?R) (\<lambda>_. False)"
    proof (cases "validDepositRow r")
      case True
      have last: "spec (\<lambda>b. ?R b \<and> (remove \<longrightarrow> dep_ID r \<in> dr_DepositID ` set (cp_deposit_processed (pg_of b))))
          (if remove then deleteDeposit (dep_ID r) else retE ()) (\<lambda>_. ?R) (\<lambda>_. False)" for remove
        by (cases remove) (use del True in \<open>auto intro: spec_ret\<close>)
      have "spec ?R (bindE (applyDeposit w r) (\<lambda>remove. if remove then deleteDeposit (dep_ID r) else retE ())) (\<lambda>_. ?R) (\<lambda>_. False)"
        by (rule spec_bind [OF credit [OF True]], rule last)
      with True show ?thesis by simp
    next
      case False
      with del show ?thesis by simp
    qed
  qed
qed

lemma deposit_drainOnce_spec: "spec (dep_ready s Z C) (deposit_drainOnce w) (\<lambda>_. dep_ready s Z C) (\<lambda>_. False)"
proof -
  have batch: "spec (dep_ready s Z C) (logged (onMy (deposit_Batch (dwk_Batch w))))
      (\<lambda>xs b. dep_ready s Z C b \<and> (\<forall>rs. xs = Some rs \<longrightarrow> set rs \<subseteq> set (br_posted b))) (\<lambda>_. False)"
  proof (rule spec_logged)
    fix b r v assume b: "dep_ready s Z C b" and run: "onMy (deposit_Batch (dwk_Batch w)) (br_world b) = (r, v)"
    from onMy_cases [OF run] obtain c where c: "deposit_Batch (dwk_Batch w) (myc (br_world b)) = (r, c)" "v = (br_world b)\<lparr>myc := c\<rparr>"
      by blast
    from first_rows_cases [OF c(1) [unfolded deposit_Batch_def]] have d: "data c = my_of b"
      and x: "\<forall>x. r = Inr x \<longrightarrow> x = take (nat (dwk_Batch w)) (sort_key dep_ID (cp_deposit (my_of b)))" by auto
    have "set rs \<subseteq> set (br_posted b)" if "r = Inr rs" for rs
    proof -
      from that x have "set rs \<subseteq> set (cp_deposit (my_of b))" using set_take_subset by fastforce
      with b show ?thesis by (auto simp: dep_ready_def deposit_inv_def deposits_ok_def)
    qed
    with b d show "dep_ready s Z C (b\<lparr>br_world := v\<rparr>) \<and> (\<forall>rs. (case r of Inl _ \<Rightarrow> None | Inr x \<Rightarrow> Some x) = Some rs \<longrightarrow>
        set rs \<subseteq> set (br_posted (b\<lparr>br_world := v\<rparr>)))"
      by (auto simp: c(2) dep_ready_def deposit_inv_def quiet_def bought_points_def story_def split: sum.splits)
  qed (simp add: dep_ready_interfere)
  show ?thesis unfolding deposit_drainOnce_def
  proof (rule spec_bind [OF batch])
    fix xs
    show "spec (\<lambda>b. dep_ready s Z C b \<and> (\<forall>rs. xs = Some rs \<longrightarrow> set rs \<subseteq> set (br_posted b)))
      (case xs of None \<Rightarrow> retE () | Some rs \<Rightarrow> drainDeposits w rs) (\<lambda>_. dep_ready s Z C) (\<lambda>_. False)"
      using drainDeposits_spec by (cases xs) (auto intro: spec_ret)
  qed
qed

section \<open>Sums\<close>

lemma tsum_injected:
  assumes "uniq k t" and "\<forall>x \<in> set t. \<exists>r \<in> set u. h r = k x \<and> f x = g r" and "\<forall>r \<in> set u. 0 \<le> g r"
  shows "tsum f t \<le> tsum g u"
  using assms
proof (induction u arbitrary: t)
  case Nil
  then have "t = []" by (cases t) auto
  then show ?case by simp
next
  case (Cons r u)
  show ?case
  proof (cases "h r \<in> k ` set t")
    case True
    then obtain x where x: "x \<in> set t" "k x = h r" by auto
    show ?thesis
    proof (cases "f x = g r")
      case eq: True
      let ?t = "del_where (\<lambda>q. k q = k x) t"
      have "tsum f ?t \<le> tsum g u"
      proof (rule Cons.IH)
        show "\<forall>y \<in> set ?t. \<exists>q \<in> set u. h q = k y \<and> f y = g q" using Cons.prems(2) x by fastforce
      qed (use Cons.prems in \<open>auto intro: uniq_del_where\<close>)
      with tsum_del_row [OF Cons.prems(1) x(1), of f] eq show ?thesis by simp
    next
      case False
      have "tsum f t \<le> tsum g u"
      proof (rule Cons.IH)
        show "\<forall>y \<in> set t. \<exists>q \<in> set u. h q = k y \<and> f y = g q"
        proof
          fix y assume y: "y \<in> set t"
          with Cons.prems(2) obtain q where q: "q \<in> set (r # u)" "h q = k y" "f y = g q" by blast
          moreover have "q \<noteq> r"
          proof
            assume "q = r"
            with q x have "k y = k x" by simp
            with uniq_the_row [OF Cons.prems(1) y x(1)] have "y = x" by simp
            with q \<open>q = r\<close> False show False by simp
          qed
          ultimately show "\<exists>q \<in> set u. h q = k y \<and> f y = g q" by auto
        qed
      qed (use Cons.prems in auto)
      with Cons.prems(3) show ?thesis by simp
    qed
  next
    case False
    have "tsum f t \<le> tsum g u"
    proof (rule Cons.IH)
      show "\<forall>y \<in> set t. \<exists>q \<in> set u. h q = k y \<and> f y = g q" using Cons.prems(2) False by fastforce
    qed (use Cons.prems in auto)
    with Cons.prems(3) show ?thesis by simp
  qed
qed

end
