(* ===== verification/Currency_Claims.thy ===== *)
theory Currency_Claims
  imports Deposit_Safety
begin

text \<open>
  The properties of the currency store and the bridge to the game server, with an instance of
  each at a concrete state.
\<close>

section \<open>Facts the properties rest on\<close>

lemma runLoop_withdraw:
  assumes "ready b" and "runLoop n (withdraw_drainOnce w) b = (r, c)"
  shows "r = Inr () \<and> ready c"
  using specD [OF runLoop_spec [OF withdraw_drainOnce_spec] assms] by (cases r) auto

lemma runLoop_deposit:
  assumes "deposit_inv Z C b" and "quiet by_deposit_worker b" and "runLoop n (deposit_drainOnce w) b = (r, c)"
  shows "r = Inr () \<and> deposit_inv Z C c \<and> (\<exists>h. story b h c)"
proof -
  from assms(1,2) have "dep_ready b Z C b" using story_refl [of b] by (auto simp: dep_ready_def)
  from specD [OF runLoop_spec [OF deposit_drainOnce_spec] this assms(3)] show ?thesis
    by (cases r) (auto simp: dep_ready_def)
qed

text \<open>Operations that come before an account's cooldown ends.\<close>

definition before_unlock :: "int \<Rightarrow> int \<Rightarrow> currency_op \<Rightarrow> bool" where
  "before_unlock a L x = (case x of OpCredit _ b _ _ _ now \<Rightarrow> b = a \<longrightarrow> now < L
     | OpRequest b _ _ _ now \<Rightarrow> b = a \<longrightarrow> now < L | _ \<Rightarrow> True)"

lemma locked_step:
  "currency_step x A B \<Longrightarrow> before_unlock a L x \<Longrightarrow> bk_lock A a = Some L \<Longrightarrow> bk_lock B a = Some L"
  by (cases rule: currency_step.cases) (auto simp: before_unlock_def cooldownActive_def split: if_splits)

lemma locked_run:
  assumes "bank_inv (data s)" and "bk_lock (bank_of (data s)) a = Some L" and "\<forall>x \<in> set xs. before_unlock a L x"
  shows "bk_lock (bank_of (data (run_ops run_currency_op xs s))) a = Some L"
proof -
  from currency.run_steps [OF assms(1), of xs]
  show ?thesis by (induction rule: rtranclp_induct) (use assms(2,3) locked_step in blast)+
qed

lemma pgTx_fails:
  assumes "\<And>u q v. data u = data s \<Longrightarrow> m u = (q, v) \<Longrightarrow> \<exists>e. q = Inl e \<and> P e" and "P Sql" and run: "pgTx m s = (r, t)"
  shows "\<exists>e. r = Inl e \<and> P e"
proof -
  obtain q u where b: "query Sql (\<lambda>_. ()) s = (q, u)" by fastforce
  then have u: "data u = data s" by (metis query_data snd_conv)
  obtain y v where m: "m u = (y, v)" by fastforce
  from assms(1) [OF u m] obtain e where "y = Inl e" "P e" by blast
  with b m run query_Inl [of Sql "\<lambda>_. ()" s _ u] assms(2) show ?thesis
    by (cases q) (auto simp: pgTx_def transaction_def)
qed

lemma locked_request_fails:
  assumes "lock_of (cp_currency (data s)) a = Some L" and "now < L"
    and run: "repo_RequestWithdraw a z c until now s = (r, t)"
  shows "(r = Inl (Currency ErrWithdrawLocked) \<or> r = Inl Sql) \<and> bank_of (data t) = bank_of (data s)"
proof -
  have fails: "\<exists>e. q = Inl e \<and> (e = Currency ErrWithdrawLocked \<or> e = Sql)"
    if u: "data u = data s" and m: "requestWithdrawTx a z c until now u = (q, v)" for u q v
  proof -
    obtain p x where l: "lockCurrency a u = (p, x)" by fastforce
    show ?thesis
    proof (cases p)
      case (Inl e)
      with l have "e = Sql"
        by (auto simp: lockCurrency_def thenE_def bindE_def query_row_def exec_def query_def sql_def failE_def retE_def
            split: fault.splits option.splits prod.splits sum.splits)
      with l Inl m show ?thesis by (auto simp: requestWithdrawTx_def bindE_def)
    next
      case (Inr y)
      obtain bz bc k where y: "y = (bz, bc, k)" by (cases y) auto
      from l Inr y have "lockCurrency a u = (Inr (bz, bc, k), x)" by simp
      from lockCurrency_Inr [OF this] u assms(1,2) have "cooldownActive k now" by (simp add: cooldownActive_def)
      with l Inr y m show ?thesis by (auto simp: requestWithdrawTx_def bindE_def guardE_def failE_def)
    qed
  qed
  have "\<exists>e. r = Inl e \<and> (e = Currency ErrWithdrawLocked \<or> e = Sql)"
    by (rule pgTx_fails [OF _ _ run [unfolded repo_RequestWithdraw_def]], erule (1) fails) simp
  then have r: "r = Inl (Currency ErrWithdrawLocked) \<or> r = Inl Sql" by blast
  from requestWithdrawTx_grows run [unfolded repo_RequestWithdraw_def pgTx_def]
  have "bank_of (data t) = bank_of (data s)"
  proof (cases rule: pg.tx_outcome)
    case (committed u x v)
    with fails [of u "Inr x" v] show ?thesis by auto
  qed simp
  with r show ?thesis by blast
qed

section \<open>Pages\<close>

lemma concat_slices: "concat (map (\<lambda>k. take p (drop (k * p) xs)) [0..<m]) = take (m * p) xs"
proof (induction m)
  case (Suc m)
  have "take (m * p) xs @ take p (drop (m * p) xs) = take (m * p + p) xs" by (simp add: take_add)
  with Suc show ?case by (simp add: add.commute)
qed simp

lemma pages_cover: "0 < p \<Longrightarrow> n \<le> (n + p - 1) div p * (p :: nat)"
proof -
  assume p: "0 < p"
  have "n + p - 1 < ((n + p - 1) div p + 1) * p" using p by (metis dividend_less_times_div mult.commute add.commute mult_Suc_right Suc_eq_plus1)
  then show ?thesis by (simp add: algebra_simps)
qed

lemma history_page:
  assumes l: "listing = counted_page rows" and "faults (pgc w) = []" and "0 < p"
    and "int j * int p < 2 ^ 63" and "j < 2 ^ 62"
  shows "\<exists>h. fst (history dto listing (int j + 1) (int p) w) = Inr h \<and>
    hp_Rows h = dto (take p (drop (j * p) (rows (data (pgc w))))) \<and>
    hp_Total h = int (length (rows (data (pgc w)))) \<and> hp_TotalPages h = pageCount (int (length (rows (data (pgc w))))) (int p)"
proof -
  have "wrap64 (int j + 1 - 1) = int j" using assms(5) by (simp add: wrap64_id)
  moreover have "- (2 ^ 63) \<le> int j * int p" by (rule order_trans [of _ 0]) simp_all
  with assms(4) have "wrap64 (int j * int p) = int j * int p" by (intro wrap64_id)
  ultimately have "page_offset (int j + 1) (int p) = int (j * p)" by (simp add: page_offset_def)
  then show ?thesis using assms(2)
    by (simp add: l history_def normalizePage_def counted_page_def bindE_def onPg_def query_def sql_def next_fault_def
        pop_fault_def retE_def Let_def del: of_nat_mult)
qed

lemma history_pages:
  assumes l: "listing = counted_page rows" and f: "faults (pgc w) = []" and p: "0 < p"
    and small: "int (length (rows (data (pgc w)))) + int p < 2 ^ 62"
    and dto: "\<And>xs ys. dto (xs @ ys) = dto xs @ dto ys" "dto [] = []"
  shows "concat (map (\<lambda>j. case fst (history dto listing (int j + 1) (int p) w) of Inl _ \<Rightarrow> [] | Inr h \<Rightarrow> hp_Rows h)
    [0..<nat (pageCount (int (length (rows (data (pgc w))))) (int p))]) = dto (rows (data (pgc w)))"
proof -
  let ?xs = "rows (data (pgc w))" and ?n = "length (rows (data (pgc w)))"
  let ?m = "(?n + p - 1) div p"
  have w1: "wrap64 (int ?n + int p) = int ?n + int p" using small by (simp add: wrap64_id)
  have w2: "wrap64 (int ?n + int p - 1) = int (?n + p - 1)" using small p by (simp add: wrap64_id of_nat_diff)
  have "pageCount (int ?n) (int p) = int ?m"
    using p by (simp add: pageCount_def w1 w2 go_div_nonneg zdiv_int)
  then have m: "nat (pageCount (int ?n) (int p)) = ?m" by simp
  have mp: "?m * p \<le> ?n + p - 1" by (rule div_times_less_eq_dividend)
  have pg: "(case fst (history dto listing (int j + 1) (int p) w) of Inl _ \<Rightarrow> [] | Inr h \<Rightarrow> hp_Rows h) = dto (take p (drop (j * p) ?xs))"
    if "j < ?m" for j
  proof -
    from that p have "j * p < ?m * p" by (rule mult_less_mono1)
    with mp p have "j * p < ?n + p" by linarith
    then have "int j * int p < int ?n + int p" by (simp flip: of_nat_mult of_nat_add)
    with small have a: "int j * int p < 2 ^ 63" by simp
    have "j \<le> j * p" using p by simp
    with \<open>j * p < ?n + p\<close> have "j < ?n + p" by linarith
    then have "int j < int ?n + int p" by (simp flip: of_nat_add)
    with small have "int j < 2 ^ 62" by (rule less_trans [rotated])
    then have "j < 2 ^ 62" by simp
    from history_page [OF l f p a this, of dto] show ?thesis by auto
  qed
  have "concat (map (\<lambda>j. case fst (history dto listing (int j + 1) (int p) w) of Inl _ \<Rightarrow> [] | Inr h \<Rightarrow> hp_Rows h) [0..<?m])
      = concat (map (\<lambda>j. dto (take p (drop (j * p) ?xs))) [0..<?m])"
    by (rule arg_cong [where f = concat], rule map_cong) (use pg in auto)
  also have "\<dots> = dto (concat (map (\<lambda>j. take p (drop (j * p) ?xs)) [0..<?m]))"
  proof -
    have "concat (map (\<lambda>j. dto (f j)) js) = dto (concat (map f js))" for f js
      by (induction js) (simp_all add: dto)
    then show ?thesis by simp
  qed
  also have "\<dots> = dto (take (?m * p) ?xs)" by (simp only: concat_slices)
  also have "\<dots> = dto ?xs" using pages_cover [OF p, of ?n] by simp
  finally show ?thesis unfolding m .
qed

section \<open>Properties\<close>

text \<open>
  C12: The currency store implements the bank: under every pattern of lost statements and
  replies a history of deposits credited, withdrawals requested, marks and wallet calls is a
  history of bank steps, and the next operation performs its step or reports an error and
  changes no balance, cooldown, processed deposit or request.
\<close>

theorem currency_refines_bank:
  assumes "bank_inv (data s)" and "u = run_ops run_currency_op xs s" and "run_currency_op x u = (y, t)"
  shows "bank_inv (data t) \<and>
    (\<lambda>a b. \<exists>x \<in> set xs. currency_step x a b)\<^sup>*\<^sup>* (bank_of (data s)) (bank_of (data u)) \<and>
    (bank_of (data t) = bank_of (data u) \<and> (\<exists>e. y = Inl e) \<or> currency_step x (bank_of (data u)) (bank_of (data t)))"
  using currency.simulates [OF currency.run_inv [OF assms(1)] assms(3) [unfolded assms(2)]]
    currency.run_steps [OF assms(1)] assms(2) by blast

text \<open>
  C13: A withdrawal is paid out once. Whatever the game server, the players, the wallet and
  the deposit worker do between any two calls of the withdrawal worker, and whatever statements
  and replies are lost, after any number of its ticks no request has been paid more than was
  requested, a request waiting in the queue has been paid exactly what its row is short of, and
  a request marked delivered has been paid in full. No tick fails.
\<close>

theorem withdrawal_paid_once:
  assumes "bridge_inv b" and "quiet by_withdraw_worker b"
    and "runLoop n (withdraw_drainOnce w) b = (r, c)" and "q \<in> set (cp_withdraw_requests (pg_of c))"
  shows "r = Inr () \<and> fst (br_paid c (wc_ID q)) \<le> wc_Zeny q \<and> snd (br_paid c (wc_ID q)) \<le> wc_Cashpoint q \<and>
    (wc_Status q = 3 \<longrightarrow> br_paid c (wc_ID q) = (wc_Zeny q, wc_Cashpoint q)) \<and>
    (\<forall>x \<in> set (cp_withdraw (my_of c)). wq_id x = wc_ID q \<longrightarrow>
       br_paid c (wc_ID q) = (wc_Zeny q - wq_zeny x, wc_Cashpoint q - wq_points x))"
proof -
  from runLoop_withdraw [OF _ assms(3)] assms(1,2) have r: "r = Inr ()" and ok: "ready c" by (auto simp: ready_def)
  from ready_queue_ok [OF ok] assms(4) have q: "request_ok (cp_withdraw (my_of c)) (br_paid c) q" "withdraw_check q"
    and u: "uniq wq_id (cp_withdraw (my_of c))" by (auto simp: queue_ok_def)
  show ?thesis
  proof (cases "find (\<lambda>x. wq_id x = wc_ID q) (cp_withdraw (my_of c))")
    case None
    with q r show ?thesis
      by (auto simp: request_ok_def find_None_iff withdraw_check_def zeny_ok_def cash_ok_def split: if_splits)
  next
    case (Some x)
    with u have "y = x" if "y \<in> set (cp_withdraw (my_of c))" "wq_id y = wc_ID q" for y
      using that find_key_Some [OF Some] by (auto dest: uniq_the_row)
    with Some q r show ?thesis by (auto simp: request_ok_def)
  qed
qed

text \<open>
  C14: A deposit is credited once and never lost. Whatever happens between any two calls of the
  deposit worker, and whatever statements and replies are lost, after any number of its ticks
  every deposit the game took with an amount is still waiting or has been processed, no deposit
  is processed twice, and each was taken by the game for this account and these amounts. And the
  balances are those of the start with every newly processed deposit added once to its account,
  up to the caps of the columns, and nothing else but what the others did between the calls:
  there is a story of the balances whose credits are exactly the new rows of the processed
  deposits, in order, and whose other turns are exactly the recorded ones.
\<close>

theorem deposit_credited_once:
  assumes "deposit_inv Z C b" and "quiet by_deposit_worker b" and "runLoop n (deposit_drainOnce w) b = (r, c)"
  shows "r = Inr () \<and>
    (\<forall>q \<in> set (br_posted c). validDepositRow q \<longrightarrow>
       q \<in> set (cp_deposit (my_of c)) \<or> dep_ID q \<in> dr_DepositID ` set (cp_deposit_processed (pg_of c))) \<and>
    uniq dr_DepositID (cp_deposit_processed (pg_of c)) \<and>
    (\<forall>x \<in> set (cp_deposit_processed (pg_of c)). credited_row (br_posted c) x) \<and>
    (\<exists>h. cp_deposit_processed (pg_of c) = cp_deposit_processed (pg_of b) @ credits_in h \<and>
       br_others c = br_others b @ turns_in h \<and>
       bal (cp_currency (pg_of c)) = fold play h (bal (cp_currency (pg_of b))))"
proof -
  from runLoop_deposit [OF assms] have "r = Inr ()" and "deposit_inv Z C c" and "\<exists>h. story b h c" by auto
  then show ?thesis unfolding story_def by (simp add: deposit_inv_def deposits_ok_def bank_inv_def)
qed

text \<open>
  C15: The panel holds no more than it was given: through any run of the deposit worker beside
  the game, the withdrawal worker, the players, the wallet and the purchases of cash points, the
  zeny on balances, on hold and in requested withdrawals is at most what was there before and what
  the game took from the players, and the cash points at most that and what was bought meanwhile.
\<close>

theorem panel_money_backed:
  assumes "deposit_inv (fst (worth (pg_of b))) (snd (worth (pg_of b)) - bought_points b) b" and "quiet by_deposit_worker b"
    and "runLoop n (deposit_drainOnce w) b = (r, c)"
  shows "zeny_supply (pg_of c) + tsum wc_Zeny (cp_withdraw_requests (pg_of c)) \<le>
      fst (worth (pg_of b)) + tsum (\<lambda>q. max 0 (dep_Zeny q)) (br_posted c) \<and>
    cash_supply (pg_of c) + tsum wc_Cashpoint (cp_withdraw_requests (pg_of c)) \<le>
      snd (worth (pg_of b)) + tsum (\<lambda>q. max 0 (dep_Points q)) (br_posted c) + (bought_points c - bought_points b)"
proof -
  from runLoop_deposit [OF assms]
  have inv: "deposit_inv (fst (worth (pg_of b))) (snd (worth (pg_of b)) - bought_points b) c" by simp
  then have u: "uniq dr_DepositID (cp_deposit_processed (pg_of c))"
    and cr: "\<forall>x \<in> set (cp_deposit_processed (pg_of c)). credited_row (br_posted c) x"
    by (auto simp: deposit_inv_def deposits_ok_def bank_inv_def)
  have "tsum (\<lambda>r. max 0 (dr_Zeny r)) (cp_deposit_processed (pg_of c)) \<le> tsum (\<lambda>q. max 0 (dep_Zeny q)) (br_posted c)"
    by (rule tsum_injected [OF u, where h = dep_ID]) (use cr in \<open>fastforce simp: credited_row_def\<close>)+
  moreover have "tsum (\<lambda>r. max 0 (dr_Cashpoint r)) (cp_deposit_processed (pg_of c)) \<le> tsum (\<lambda>q. max 0 (dep_Points q)) (br_posted c)"
    by (rule tsum_injected [OF u, where h = dep_ID]) (use cr in \<open>fastforce simp: credited_row_def\<close>)+
  moreover from inv have "fst (worth (pg_of c)) \<le> fst (worth (pg_of b))"
    "snd (worth (pg_of c)) \<le> snd (worth (pg_of b)) - bought_points b + bought_points c"
    by (simp_all add: deposit_inv_def)
  ultimately show ?thesis by (simp add: worth_def)
qed

text \<open>
  The cooldown holds: once an account is locked until a time, then whatever operations
  follow (its own deposits and withdrawals being tried before that time), a request to
  withdraw from it before that time is refused as locked, or fails with the database, and
  nothing changes.
\<close>

theorem cooldown_holds:
  assumes "bank_inv (data s)" and "lock_of (cp_currency (data s)) a = Some L"
    and "\<forall>x \<in> set xs. before_unlock a L x" and "u = run_ops run_currency_op xs s"
    and "now < L" and "repo_RequestWithdraw a z c until now u = (r, t)"
  shows "(r = Inl (Currency ErrWithdrawLocked) \<or> r = Inl Sql) \<and> bank_of (data t) = bank_of (data u)"
proof -
  have "lock_of (cp_currency (data u)) a = Some L"
    using locked_run [OF assms(1) _ assms(3)] assms(2) unfolding assms(4) by (simp add: bank_of_def)
  from locked_request_fails [OF this assms(5,6)] show ?thesis .
qed

text \<open>
  The staff's history is complete and without repetition: read page by page, for any page
  size, the pages up to the reported number of pages are the withdrawals, newest first, each
  once.
\<close>

theorem history_pages_complete:
  assumes "faults (pgc w) = []" and "0 < p" and "int (length (cp_withdraw_requests (data (pgc w)))) + int p < 2 ^ 62"
  shows "concat (map (\<lambda>j. case fst (WithdrawHistory (int j + 1) (int p) w) of Inl _ \<Rightarrow> [] | Inr h \<Rightarrow> hp_Rows h)
      [0..<nat (pageCount (int (length (cp_withdraw_requests (data (pgc w))))) (int p))]) =
    toWithdrawDTOs (sort_key (\<lambda>r. - wc_ID r) (cp_withdraw_requests (data (pgc w))))"
  unfolding WithdrawHistory_def
  using history_pages [of ListWithdraws "\<lambda>d. sort_key (\<lambda>r. - wc_ID r) (cp_withdraw_requests d)" w p toWithdrawDTOs] assms
  by (simp add: ListWithdraws_def toWithdrawDTOs_def fun_eq_iff)

lemma RequestWithdraw_Inr:
  assumes "RequestWithdraw svc a z c w = (Inr (), v)"
    and ping: "\<And>m u. cs_bridge svc = Some m \<Longrightarrow> pgc (snd (m u)) = pgc u \<and> app_now (snd (m u)) = app_now u"
  obtains i where "0 \<le> z" "0 \<le> c" "z \<noteq> 0 \<or> c \<noteq> 0" "z \<le> cs_maxZeny svc" "c \<le> cs_maxCashpoint svc"
    "repo_RequestWithdraw a z c (app_now w + cs_cooldown svc) (app_now w) (pgc w) = (Inr i, pgc v)"
proof -
  let ?ping = "case cs_bridge svc of None \<Rightarrow> retE ()
    | Some m \<Rightarrow> bindE (tryE m) (\<lambda>r. case r of Inl _ \<Rightarrow> failE (Currency ErrBridgeUnavailable) | Inr _ \<Rightarrow> retE ())"
  from assms(1) obtain u where g: "0 \<le> z" "0 \<le> c" "z \<noteq> 0 \<or> c \<noteq> 0" "z \<le> cs_maxZeny svc" "c \<le> cs_maxCashpoint svc"
    and p: "?ping w = (Inr (), u)"
    and rest: "bindE app_clock (\<lambda>now. bindE (onPg (repo_RequestWithdraw a z c (now + cs_cooldown svc) now)) (\<lambda>_. retE ())) u = (Inr (), v)"
    by (auto simp: RequestWithdraw_def guardE_Inr thenE_Inr)
  have u: "pgc u = pgc w \<and> app_now u = app_now w"
  proof (cases "cs_bridge svc")
    case (Some m)
    with p have "u = snd (m w)" by (auto simp: bindE_def tryE_def retE_def failE_def split: prod.splits sum.splits)
    with ping [OF Some] show ?thesis by simp
  qed (use p in \<open>simp add: retE_def\<close>)
  from rest u obtain i where "repo_RequestWithdraw a z c (app_now w + cs_cooldown svc) (app_now w) (pgc w) = (Inr i, pgc v)"
    by (auto simp: bindE_Inr app_clock_def onPg_Inr retE_Inr)
  with g show ?thesis by (rule that)
qed

text \<open>
  A withdrawal the service accepts is exactly what was asked: amounts within the
  configured limits and not both zero, the account debited by them and no other balance
  changed, one new pending request for these amounts, and the account locked for the cooldown.
\<close>

theorem accepted_withdrawal_exact:
  assumes "bank_inv (data (pgc w))" and "RequestWithdraw svc a z c w = (Inr (), v)"
    and "\<And>m u. cs_bridge svc = Some m \<Longrightarrow> pgc (snd (m u)) = pgc u \<and> app_now (snd (m u)) = app_now u"
  shows "0 \<le> z \<and> z \<le> cs_maxZeny svc \<and> 0 \<le> c \<and> c \<le> cs_maxCashpoint svc \<and> (z \<noteq> 0 \<or> c \<noteq> 0) \<and>
    (let d = data (pgc w); e = data (pgc v)
     in bal (cp_currency e) = (bal (cp_currency d))(a := (fst (bal (cp_currency d) a) - z, snd (bal (cp_currency d) a) - c)) \<and>
        z \<le> fst (bal (cp_currency d) a) \<and> c \<le> snd (bal (cp_currency d) a) \<and>
        \<not> cooldownActive (lock_of (cp_currency d) a) (app_now w) \<and>
        lock_of (cp_currency e) a = Some (app_now w + cs_cooldown svc) \<and>
        (\<exists>i. cp_withdraw_requests e = cp_withdraw_requests d @ [\<lparr>wc_CreatedAt = app_now w, wc_SentAt = None,
           wc_DeliveredAt = None, wc_ID = i, wc_AccountID = a, wc_Zeny = z, wc_Cashpoint = c, wc_Status = 1\<rparr>] \<and>
           i \<notin> wc_ID ` set (cp_withdraw_requests d)))"
proof -
  obtain i where
    g: "0 \<le> z" "0 \<le> c" "z \<noteq> 0 \<or> c \<noteq> 0" "z \<le> cs_maxZeny svc" "c \<le> cs_maxCashpoint svc"
    and r: "repo_RequestWithdraw a z c (app_now w + cs_cooldown svc) (app_now w) (pgc w) = (Inr i, pgc v)"
    by (rule RequestWithdraw_Inr [OF assms(2)], erule assms(3))
  from RequestWithdraw_simulates [OF r assms(1)]
  have "currency_step (OpRequest a z c (app_now w + cs_cooldown svc) (app_now w)) (bank_of (data (pgc w))) (bank_of (data (pgc v)))"
    by simp
  then show ?thesis
    by (cases rule: currency_step.cases) (use g in \<open>auto simp: bank_of_def ledger_of_def lput_def Let_def\<close>)
qed

section \<open>Instances of the properties\<close>

definition demo_pgdb :: pgdb where
  "demo_pgdb = \<lparr>cp_currency = [\<lparr>cu_account_id = 7, cu_zeny = 5000, cu_cashpoint = 20, cu_locked_until = None\<rparr>],
     cp_currency_hold = [], cp_listing = [], cp_settlement = [], cp_deposit_processed = [],
     cp_withdraw_requests = [\<lparr>wc_CreatedAt = 5, wc_SentAt = None, wc_DeliveredAt = None, wc_ID = 1,
       wc_AccountID = 7, wc_Zeny = 900, wc_Cashpoint = 3, wc_Status = 1\<rparr>], pg_clock = 0,
     pg_seq = \<lparr>hold_seq = 0, ref_seq = 0, settle_seq = 0, withdraw_seq = 1\<rparr>\<rparr>"

definition demo_mydb :: mydb where
  "demo_mydb = \<lparr>cp_storage = [], cp_storage_escrow = [], cp_storage_lock = [], cp_delivery_applied = [],
     cp_deposit = [], cp_withdraw = [], my_clock = 0, my_seq = \<lparr>storage_seq = 0, escrow_seq = 0\<rparr>\<rparr>"

definition demo_bridge :: "bridge_event list list \<Rightarrow> bridge" where
  "demo_bridge es = \<lparr>br_world = \<lparr>pgc = \<lparr>data = demo_pgdb, faults = []\<rparr>,
      myc = \<lparr>data = demo_mydb, faults = []\<rparr>, app_now = 100\<rparr>,
    br_schedule = es, br_paid = (\<lambda>_. (0, 0)), br_posted = [], br_bought = [], br_others = []\<rparr>"

abbreviation demo_withdraw_worker :: withdraw_worker where
  "demo_withdraw_worker \<equiv> NewWithdrawWorker \<lparr>wwk_ReapAfter = 60, wwk_Batch = 0\<rparr>"

abbreviation demo_deposit_worker :: deposit_worker where
  "demo_deposit_worker \<equiv> NewDepositWorker \<lparr>dwk_Cooldown = 30, dwk_Batch = 0\<rparr>"

text \<open>The game pays the request between the worker's calls, and closes the row before it is emptied.\<close>

definition demo_payment :: "bridge_event list list" where
  "demo_payment = [[], [], [], [Game_pays_zeny 1, Game_closes 1 50], [Time_passes 10], [], [], [Game_pays_points 1, Game_closes 1 60]]"

text \<open>A player deposits while the worker runs; the wallet spends in between, and points are bought.\<close>

definition demo_deposits :: "bridge_event list list" where
  "demo_deposits = [[Game_deposits 7 250 0], [Wallet_call (OpBurn 7 100 0), Game_deposits 7 0 5, Points_bought 7 50], [], [Time_passes 40]]"

definition demo_slow_worker :: "bridge_event list list" where
  "demo_slow_worker = [[], [Withdraw_inserted 1 7 900 3, Withdraw_sent 1 100, Game_pays_zeny 1, Game_pays_points 1,
     Game_closes 1 50, Withdraw_delivered 1 50, Withdraw_deleted 1], [], [Game_pays_zeny 1]]"

lemmas currency_demo_defs = demo_pgdb_def demo_mydb_def demo_bridge_def

lemma demo_bank_ok: "bank_inv demo_pgdb"
  by (simp add: demo_pgdb_def bank_inv_def wallet_inv_def currency_inv_def holds_inv_def currency_check_def
      requests_inv_def withdraw_check_def amount_defs)

lemma demo_bridge_ok: "bridge_inv (demo_bridge es)"
  by (simp add: bridge_inv_def demo_bridge_def demo_bank_ok)
    (simp add: demo_pgdb_def demo_mydb_def queue_ok_def request_ok_def withdraw_check_def amount_defs)

lemma demo_nothing_bought [simp]: "bought_points (demo_bridge es) = 0"
  by (simp add: bought_points_def demo_bridge_def)

lemma demo_deposit_ok: "deposit_inv (fst (worth demo_pgdb)) (snd (worth demo_pgdb)) (demo_bridge es)"
proof -
  have "pg_of (demo_bridge es) = demo_pgdb" "my_of (demo_bridge es) = demo_mydb" "br_posted (demo_bridge es) = []"
    by (simp_all add: demo_bridge_def)
  moreover have "deposits_ok [] (cp_deposit demo_mydb) (cp_deposit_processed demo_pgdb)"
    by (simp add: demo_pgdb_def demo_mydb_def deposits_ok_def)
  ultimately show ?thesis by (simp add: deposit_inv_def demo_bank_ok)
qed

text \<open>
  Two withdrawal workers can pay a request twice. While one instance has read a pending
  request and not yet inserted it, a second one inserts it, the game pays it and the second one
  confirms and deletes it; the first then inserts the paid request again, and the game pays
  again.
\<close>

theorem second_worker_pays_twice:
  "br_paid (snd (withdraw_drainOnce demo_withdraw_worker (demo_bridge demo_slow_worker))) 1 = (1800, 3) \<and>
   map wc_Zeny (cp_withdraw_requests (pg_of (demo_bridge demo_slow_worker))) = [900]"
  by code_simp

theorem currency_refines_bank_witness:
  "bank_inv (data (snd (run_currency_op (OpCredit 4 8 70 0 130 100) (pgc (br_world (demo_bridge []))))))"
  using currency_refines_bank [of "pgc (br_world (demo_bridge []))" _ "[]" "OpCredit 4 8 70 0 130 100"
      "fst (run_currency_op (OpCredit 4 8 70 0 130 100) (pgc (br_world (demo_bridge []))))"
      "snd (run_currency_op (OpCredit 4 8 70 0 130 100) (pgc (br_world (demo_bridge []))))"] demo_bank_ok
  by (simp add: demo_bridge_def)

theorem withdrawal_paid_once_witness:
  "let c = snd (runLoop 1 (withdraw_drainOnce demo_withdraw_worker) (demo_bridge demo_payment))
   in br_paid c 1 = (900, 3) \<and> cp_withdraw (my_of c) = [] \<and> map wc_Status (cp_withdraw_requests (pg_of c)) = [3]"
proof -
  let ?c = "snd (runLoop 1 (withdraw_drainOnce demo_withdraw_worker) (demo_bridge demo_payment))"
  let ?q = "\<lparr>wc_CreatedAt = 5, wc_SentAt = Some 100, wc_DeliveredAt = Some 60, wc_ID = 1,
       wc_AccountID = 7, wc_Zeny = 900, wc_Cashpoint = 3, wc_Status = 3\<rparr>"
  have e: "cp_withdraw_requests (pg_of ?c) = [?q]" "cp_withdraw (my_of ?c) = []" by code_simp+
  have "quiet by_withdraw_worker (demo_bridge demo_payment)"
    by (simp add: quiet_def demo_bridge_def demo_payment_def)
  from withdrawal_paid_once [OF demo_bridge_ok this surjective_pairing, where n = 1 and w = demo_withdraw_worker and q = ?q] e
  have "br_paid ?c 1 = (900, 3)" by simp
  with e show ?thesis by (simp add: Let_def)
qed

theorem deposit_credited_once_witness:
  "let c = snd (runLoop 1 (deposit_drainOnce demo_deposit_worker) (demo_bridge demo_deposits))
   in uniq dr_DepositID (cp_deposit_processed (pg_of c)) \<and>
      (\<exists>h. bal (cp_currency (pg_of c)) = fold play h (bal (cp_currency demo_pgdb)) \<and> map dr_Zeny (credits_in h) = [250, 0] \<and>
         length (turns_in h) = 4) \<and>
      map dr_DepositID (cp_deposit_processed (pg_of c)) = [1, 2] \<and> bal (cp_currency (pg_of c)) 7 = (5150, 75)"
proof -
  let ?c = "snd (runLoop 1 (deposit_drainOnce demo_deposit_worker) (demo_bridge demo_deposits))"
  have "quiet by_deposit_worker (demo_bridge demo_deposits)"
    by (simp add: quiet_def demo_bridge_def demo_deposits_def)
  from deposit_credited_once [OF demo_deposit_ok this surjective_pairing, of 1 demo_deposit_worker]
  obtain h where u: "uniq dr_DepositID (cp_deposit_processed (pg_of ?c))"
    and h: "cp_deposit_processed (pg_of ?c) = credits_in h" "br_others ?c = turns_in h"
      "bal (cp_currency (pg_of ?c)) = fold play h (bal (cp_currency demo_pgdb))"
    by (auto simp: demo_bridge_def demo_pgdb_def)
  have "map dr_Zeny (cp_deposit_processed (pg_of ?c)) = [250, 0]" "length (br_others ?c) = 4"
    "map dr_DepositID (cp_deposit_processed (pg_of ?c)) = [1, 2]" "bal (cp_currency (pg_of ?c)) 7 = (5150, 75)"
    by code_simp+
  with u h show ?thesis unfolding Let_def by (metis)
qed

theorem panel_money_backed_witness:
  "let c = snd (runLoop 0 (deposit_drainOnce demo_deposit_worker) (demo_bridge demo_deposits))
   in cash_supply (pg_of c) + tsum wc_Cashpoint (cp_withdraw_requests (pg_of c)) \<le>
        23 + tsum (\<lambda>q. max 0 (dep_Points q)) (br_posted c) + bought_points c \<and> bought_points c = 50"
proof -
  let ?b = "demo_bridge demo_deposits"
  have q: "quiet by_deposit_worker ?b" by (simp add: quiet_def demo_bridge_def demo_deposits_def)
  have "pg_of ?b = demo_pgdb" by (simp add: demo_bridge_def)
  moreover have "snd (worth demo_pgdb) = 23" by (simp add: worth_def demo_pgdb_def cash_supply_def)
  moreover have "bought_points (snd (runLoop 0 (deposit_drainOnce demo_deposit_worker) ?b)) = 50" by code_simp
  ultimately show ?thesis
    using panel_money_backed [OF _ q surjective_pairing, of 0 demo_deposit_worker] demo_deposit_ok [of demo_deposits]
    by (simp add: Let_def)
qed

theorem cooldown_holds_witness:
  "fst (repo_RequestWithdraw 7 10 0 160 130 (run_ops run_currency_op [OpWallet (OpBurn 7 5 0)]
     (snd (run_currency_op (OpRequest 7 100 0 150 120) (pgc (br_world (demo_bridge []))))))) = Inl (Currency ErrWithdrawLocked)"
proof -
  let ?s = "snd (run_currency_op (OpRequest 7 100 0 150 120) (pgc (br_world (demo_bridge []))))"
  let ?u = "run_ops run_currency_op [OpWallet (OpBurn 7 5 0)] ?s"
  have "bank_inv (data ?s)"
    using currency.simulates [of "pgc (br_world (demo_bridge []))" "OpRequest 7 100 0 150 120"] demo_bank_ok
    by (metis currency.simulates demo_bridge_def bridge.select_convs(1) world.select_convs(1) conn.select_convs(1) prod.collapse)
  moreover have "lock_of (cp_currency (data ?s)) 7 = Some 150" by code_simp
  ultimately have "fst (repo_RequestWithdraw 7 10 0 160 130 ?u) = Inl (Currency ErrWithdrawLocked) \<or>
      fst (repo_RequestWithdraw 7 10 0 160 130 ?u) = Inl Sql"
    using cooldown_holds [of ?s 7 150 "[OpWallet (OpBurn 7 5 0)]" ?u 130 10 0 160
        "fst (repo_RequestWithdraw 7 10 0 160 130 ?u)" "snd (repo_RequestWithdraw 7 10 0 160 130 ?u)"]
    by (simp add: before_unlock_def)
  moreover have "fst (repo_RequestWithdraw 7 10 0 160 130 ?u) \<noteq> Inl Sql" by code_simp
  ultimately show ?thesis by blast
qed

theorem history_pages_complete_witness:
  "concat (map (\<lambda>j. case fst (WithdrawHistory (int j + 1) (int 1) (br_world (demo_bridge []))) of Inl _ \<Rightarrow> [] | Inr h \<Rightarrow> hp_Rows h)
      [0..<nat (pageCount (int (length (cp_withdraw_requests demo_pgdb))) (int 1))]) =
    toWithdrawDTOs (sort_key (\<lambda>r. - wc_ID r) (cp_withdraw_requests demo_pgdb))"
  using history_pages_complete [of "br_world (demo_bridge [])" 1] by (simp add: demo_bridge_def) (simp add: demo_pgdb_def)

theorem accepted_withdrawal_exact_witness:
  "bal (cp_currency (data (pgc (snd (RequestWithdraw (NewCurrencyService [WithLimits 1000 10, WithCooldown 30]) 7 400 2
     (br_world (demo_bridge []))))))) 7 = (4600, 18)"
proof -
  let ?w = "br_world (demo_bridge [])"
  let ?svc = "NewCurrencyService [WithLimits 1000 10, WithCooldown 30]"
  have i: "bank_inv (data (pgc ?w))" using demo_bank_ok by (simp add: demo_bridge_def)
  have r: "RequestWithdraw ?svc 7 400 2 ?w = (Inr (), snd (RequestWithdraw ?svc 7 400 2 ?w))"
    by (rule prod_eqI) (simp_all, code_simp)
  have b: "bal (cp_currency (data (pgc ?w))) 7 = (5000, 20)" by code_simp
  from accepted_withdrawal_exact [OF i r] b show ?thesis by (simp add: Let_def NewCurrencyService_def)
qed

end
