(* ===== verification/Http.thy ===== *)
theory Http
  imports Main
begin

text \<open>
  What the request-handling code uses of Go's standard library: a request as the handlers see
  it, the \<open>strings\<close> functions, numbers in decimal and hexadecimal, and \<open>path.Clean\<close>. A Go
  string is its list of bytes, written as a \<open>string\<close>; letter case is that of ASCII.
\<close>

section \<open>strings and strconv\<close>

definition has_prefix :: "string \<Rightarrow> string \<Rightarrow> bool" where
  "has_prefix p s \<longleftrightarrow> take (length p) s = p"

definition has_suffix :: "string \<Rightarrow> string \<Rightarrow> bool" where
  "has_suffix p s \<longleftrightarrow> has_prefix (rev p) (rev s)"

definition trim_suffix :: "string \<Rightarrow> string \<Rightarrow> string" where
  "trim_suffix p s = (if has_suffix p s then take (length s - length p) s else s)"

fun split_on :: "char \<Rightarrow> string \<Rightarrow> string list" where
  "split_on c [] = [[]]"
| "split_on c (x # xs) =
     (if x = c then [] # split_on c xs
      else case split_on c xs of [] \<Rightarrow> [[x]] | y # ys \<Rightarrow> (x # y) # ys)"

fun join_with :: "string \<Rightarrow> string list \<Rightarrow> string" where
  "join_with sep [] = []"
| "join_with sep [x] = x"
| "join_with sep (x # y # ys) = x @ sep @ join_with sep (y # ys)"

text \<open>\<open>strings.Cut\<close> at a byte: what is before its first occurrence and what is after.\<close>

fun cut_at :: "char \<Rightarrow> string \<Rightarrow> (string \<times> string) option" where
  "cut_at c [] = None"
| "cut_at c (x # xs) = (if x = c then Some ([], xs) else map_option (\<lambda>(a, b). (x # a, b)) (cut_at c xs))"

definition is_space :: "char \<Rightarrow> bool" where
  "is_space c \<longleftrightarrow> of_char c \<in> {9 .. 13 :: nat} \<or> c = CHR '' ''"

text \<open>\<open>unicode.IsSpace\<close> beyond ASCII, by the bytes of a character in UTF-8.\<close>

definition wide_space :: "nat list \<Rightarrow> bool" where
  "wide_space b \<longleftrightarrow> b \<in> {[194, 133], [194, 160], [225, 154, 128], [226, 129, 159], [227, 128, 128]} \<or>
     length b = 3 \<and> take 2 b = [226, 128] \<and> (b ! 2 \<in> {128 .. 138} \<or> b ! 2 \<in> {168, 169, 175})"

text \<open>The bytes of the white space a string starts with, if it does; read from its end, \<open>f\<close> reverses them.\<close>

definition space_at :: "(string \<Rightarrow> string) \<Rightarrow> string \<Rightarrow> nat" where
  "space_at f s =
     (if s = [] then 0 else if is_space (hd s) then 1
      else if wide_space (map of_char (f (take 2 s))) then 2
      else if wide_space (map of_char (f (take 3 s))) then 3 else 0)"

function trim_start :: "(string \<Rightarrow> string) \<Rightarrow> string \<Rightarrow> string" where
  "trim_start f s = (let n = space_at f s in if n = 0 then s else trim_start f (drop n s))"
  by pat_completeness auto
termination
  by (relation "measure (\<lambda>(f, s). length s)") (auto simp: space_at_def split: if_splits)

declare trim_start.simps [simp del]

definition trim_space :: "string \<Rightarrow> string" where
  "trim_space s = rev (trim_start rev (rev (trim_start id s)))"

lemma trim_space_Nil [simp]: "trim_space [] = []"
  by (simp add: trim_space_def trim_start.simps space_at_def)

definition to_lower :: "string \<Rightarrow> string" where
  "to_lower = map (\<lambda>c. if (of_char c :: nat) \<in> {65 .. 90} then char_of ((of_char c :: nat) + 32) else c)"

definition is_digit :: "char \<Rightarrow> bool" where
  "is_digit c \<longleftrightarrow> (of_char c :: nat) \<in> {48 .. 57}"

definition is_hex :: "char \<Rightarrow> bool" where
  "is_hex c \<longleftrightarrow> is_digit c \<or> (of_char c :: nat) \<in> {97 .. 102} \<or> (of_char c :: nat) \<in> {65 .. 70}"

definition hex_value :: "char \<Rightarrow> nat" where
  "hex_value c = (let n = of_char c in if n < 58 then n - 48 else if n < 71 then n - 55 else n - 87)"

definition number_of :: "nat \<Rightarrow> string \<Rightarrow> nat" where
  "number_of b s = foldl (\<lambda>v c. v * b + hex_value c) 0 s"

definition digit_char :: "nat \<Rightarrow> char" where
  "digit_char n = (if n < 10 then char_of (n + 48) else char_of (n + 87))"

function radix_string :: "nat \<Rightarrow> nat \<Rightarrow> string" where
  "radix_string b n = (if n < b \<or> b < 2 then [digit_char n] else radix_string b (n div b) @ [digit_char (n mod b)])"
  by pat_completeness auto
termination by (relation "measure (\<lambda>(b, n). n)") (auto intro: div_less_dividend)

declare radix_string.simps [simp del]

definition FormatInt :: "int \<Rightarrow> string" where
  "FormatInt i = (if i < 0 then CHR ''-'' # radix_string 10 (nat (- i)) else radix_string 10 (nat i))"

text \<open>\<open>ParseInt(s, 10, 64)\<close>: an optional sign and digits, within 64 bits.\<close>

definition ParseInt :: "string \<Rightarrow> int option" where
  "ParseInt s =
     (let neg = has_prefix ''-'' s; ds = (if neg \<or> has_prefix ''+'' s then tl s else s);
          v = (if neg then - int (number_of 10 ds) else int (number_of 10 ds))
      in if ds = [] \<or> \<not> list_all is_digit ds \<or> v < - (2 ^ 63) \<or> 2 ^ 63 \<le> v then None else Some v)"

text \<open>\<open>Atoi\<close> with its error ignored: 0 for what is no number, the nearest \<open>int\<close> for one out of range.\<close>

definition Atoi_value :: "string \<Rightarrow> int" where
  "Atoi_value s =
     (let neg = has_prefix ''-'' s; ds = (if neg \<or> has_prefix ''+'' s then tl s else s);
          v = (if neg then - int (number_of 10 ds) else int (number_of 10 ds))
      in if ds = [] \<or> \<not> list_all is_digit ds then 0 else max (- (2 ^ 63)) (min (2 ^ 63 - 1) v))"

section \<open>path.Clean\<close>

text \<open>
  The elements of a path are kept reversed: empty ones and \<open>.\<close> are dropped, \<open>..\<close> takes the one
  before it away, except at the root, and is kept at the start of a relative path.
\<close>

fun clean_step :: "bool \<Rightarrow> string \<Rightarrow> string list \<Rightarrow> string list" where
  "clean_step rooted e es =
     (if e = '''' \<or> e = ''.'' then es
      else if e = ''..'' then
        (case es of
           [] \<Rightarrow> if rooted then [] else [e]
         | x # xs \<Rightarrow> if x = ''..'' then e # es else xs)
      else e # es)"

definition path_Clean :: "string \<Rightarrow> string" where
  "path_Clean p =
     (let rooted = has_prefix ''/'' p;
          out = (if rooted then ''/'' else '''') @ join_with ''/'' (rev (fold (clean_step rooted) (split_on CHR ''/'' p) []))
      in if out = '''' then ''.'' else out)"

section \<open>net/http\<close>

text \<open>\<open>Header.Get\<close> returns the first value of a name; names are canonical.\<close>

type_synonym header = "(string \<times> string) list"

definition header_Get :: "string \<Rightarrow> header \<Rightarrow> string" where
  "header_Get n h = (case map_of h n of None \<Rightarrow> '''' | Some v \<Rightarrow> v)"

record request =
  rq_Method :: string
  rq_Path :: string
  rq_Query :: string
  rq_Host :: string
  rq_RemoteAddr :: string
  rq_Header :: header
  rq_Cookies :: "(string \<times> string) list"
  rq_Body :: string

section \<open>Facts about them\<close>

lemma has_prefix_append [simp]: "has_prefix p (p @ s)"
  by (simp add: has_prefix_def)

lemma has_prefix_iff: "has_prefix p s \<longleftrightarrow> (\<exists>t. s = p @ t)"
  by (metis append_eq_conv_conj append_take_drop_id has_prefix_def)

lemma has_suffix_iff: "has_suffix p s \<longleftrightarrow> (\<exists>t. s = t @ p)"
  unfolding has_suffix_def has_prefix_iff by (metis rev_append rev_rev_ident)

lemma split_on_Nil [simp]: "split_on c s \<noteq> []"
  by (cases s) (auto split: list.splits)

lemma split_on_single [simp]: "c \<notin> set s \<Longrightarrow> split_on c s = [s]"
  by (induction s) auto

lemma split_on_append [simp]: "split_on c (s @ c # t) = split_on c s @ split_on c t"
  by (induction s) (auto split: list.splits)

lemma split_on_join: "\<forall>s \<in> set ss. c \<notin> set s \<Longrightarrow> ss \<noteq> [] \<Longrightarrow> split_on c (join_with [c] ss) = ss"
  by (induction "[c]" ss rule: join_with.induct) auto

lemma join_with_split: "join_with [c] (split_on c s) = s"
proof (induction s)
  case (Cons x s)
  then show ?case by (cases "split_on c s" rule: list.exhaust) (auto, metis join_with.simps(2,3) append_Cons list.exhaust)+
qed simp

lemma split_on_parts: "s \<in> set (split_on c t) \<Longrightarrow> c \<notin> set s"
  by (induction t arbitrary: s) (auto split: if_splits list.splits)

lemma join_with_append: "xs \<noteq> [] \<Longrightarrow> ys \<noteq> [] \<Longrightarrow> join_with sep (xs @ ys) = join_with sep xs @ sep @ join_with sep ys"
  by (induction sep xs rule: join_with.induct) (auto simp: neq_Nil_conv)

lemma cut_at_append [simp]: "c \<notin> set s \<Longrightarrow> cut_at c (s @ c # t) = Some (s, t)"
  by (induction s) auto

lemma cut_at_Some: "cut_at c s = Some (x, y) \<Longrightarrow> s = x @ c # y \<and> c \<notin> set x"
  by (induction s arbitrary: x) (auto split: if_splits)

end
