(* ===== verification/Client_IP.thy ===== *)
theory Client_IP
  imports Http "HOL-Library.Word"
begin

text \<open>
  \<open>internal/platform/security/clientip.go\<close>: the address a request comes from, given the
  proxies that are trusted to name it in \<open>X-Forwarded-For\<close>, with what \<open>net\<close> has of
  addresses and networks. An address is its bytes, 16 or 4 of them, as a \<open>net.IP\<close> is.
\<close>

unbundle bit_operations_syntax

section \<open>net: addresses\<close>

type_synonym ip = "8 word list"

definition v4_in_v6 :: ip where
  "v4_in_v6 = replicate 10 0 @ [255, 255]"

definition To4 :: "ip \<Rightarrow> ip option" where
  "To4 ip =
     (if length ip = 4 then Some ip
      else if length ip = 16 \<and> take 12 ip = v4_in_v6 then Some (drop 12 ip) else None)"

text \<open>An octet: one to three digits, no leading zero, at most 255.\<close>

definition parse_octet :: "string \<Rightarrow> 8 word option" where
  "parse_octet s =
     (if s = [] \<or> \<not> list_all is_digit s \<or> 1 < length s \<and> hd s = CHR ''0'' \<or> 255 < number_of 10 s then None
      else Some (of_nat (number_of 10 s)))"

definition parse_v4 :: "string \<Rightarrow> ip option" where
  "parse_v4 s = (let fields = split_on CHR ''.'' s in
     if length fields = 4 then those (map parse_octet fields) else None)"

text \<open>
  The fields of an IPv6 address, after a leading \<open>::\<close>. The bytes read so far grow to 16 at
  most; the position of \<open>::\<close> is remembered.
\<close>

definition group_bytes :: "nat \<Rightarrow> ip" where
  "group_bytes g = [of_nat (g div 256), of_nat (g mod 256)]"

lemma dropWhile_shorter: "dropWhile P s = c # t \<Longrightarrow> length t < length s"
  by (metis Suc_le_lessD length_Cons length_dropWhile_le)

function parse_groups :: "string \<Rightarrow> ip \<Rightarrow> nat option \<Rightarrow> (ip \<times> nat option) option" where
  "parse_groups s ip ell =
     (if 16 \<le> length ip then (if s = [] then Some (ip, ell) else None)
      else
        let h = takeWhile is_hex s; ip' = ip @ group_bytes (number_of 16 h)
        in if h = [] \<or> 4 < length h then None
           else case dropWhile is_hex s of
             [] \<Rightarrow> Some (ip', ell)
           | c # t \<Rightarrow>
               if c = CHR ''.'' then
                 (if ell = None \<and> length ip \<noteq> 12 \<or> 16 < length ip + 4 then None
                  else map_option (\<lambda>v4. (ip @ v4, ell)) (parse_v4 s))
               else if c \<noteq> CHR '':'' then None
               else (case t of
                  [] \<Rightarrow> None
                | d # rest \<Rightarrow>
                    if d \<noteq> CHR '':'' then parse_groups t ip' ell
                    else if ell \<noteq> None then None
                    else if rest = [] then Some (ip', Some (length ip'))
                    else parse_groups rest ip' (Some (length ip'))))"
  by pat_completeness auto
termination
  by (relation "measure (\<lambda>(s, ip, ell). length s)") (auto dest: dropWhile_shorter)

declare parse_groups.simps [simp del]

definition expand_ellipsis :: "ip \<times> nat option \<Rightarrow> ip option" where
  "expand_ellipsis = (\<lambda>(ip, ell).
     case ell of
       None \<Rightarrow> if length ip < 16 then None else Some ip
     | Some k \<Rightarrow> if length ip < 16 then Some (take k ip @ replicate (16 - length ip) 0 @ drop k ip) else None)"

definition parse_v6 :: "string \<Rightarrow> ip option" where
  "parse_v6 s =
     (if s = ''::'' then Some (replicate 16 0)
      else if has_prefix ''::'' s then Option.bind (parse_groups (drop 2 s) [] (Some 0)) expand_ellipsis
      else Option.bind (parse_groups s [] None) expand_ellipsis)"

text \<open>\<open>ParseIP\<close>: the first separator tells the families apart; an address with a zone is none.\<close>

definition ParseIP :: "string \<Rightarrow> ip option" where
  "ParseIP s =
     (case dropWhile (\<lambda>c. c \<notin> {CHR ''.'', CHR '':'', CHR ''%''}) s of
        [] \<Rightarrow> None
      | c # _ \<Rightarrow>
          if c = CHR ''.'' then map_option (\<lambda>v4. v4_in_v6 @ v4) (parse_v4 s)
          else if c = CHR '':'' then (if CHR ''%'' \<in> set s then None else parse_v6 s)
          else None)"

text \<open>
  \<open>IP.String\<close>: dotted for IPv4; otherwise 16-bit groups in hexadecimal, with the first of the
  longest runs of two or more zero groups written \<open>::\<close>.
\<close>

fun groups :: "ip \<Rightarrow> nat list" where
  "groups (a # b # bs) = (unat a * 256 + unat b) # groups bs"
| "groups _ = []"

definition zero_run :: "nat list \<Rightarrow> nat \<Rightarrow> nat" where
  "zero_run gs i = length (takeWhile (\<lambda>g. g = 0) (drop i gs))"

definition longest_run :: "nat list \<Rightarrow> nat \<times> nat" where
  "longest_run gs = fold (\<lambda>i (s, n). let l = zero_run gs i in if 2 \<le> l \<and> n < l then (i, l) else (s, n)) [0..<length gs] (0, 0)"

definition hex_groups :: "nat list \<Rightarrow> string" where
  "hex_groups gs = join_with '':'' (map (radix_string 16) gs)"

definition v6_String :: "nat list \<Rightarrow> string" where
  "v6_String gs = (case longest_run gs of (s, n) \<Rightarrow>
     if n = 0 then hex_groups gs else hex_groups (take s gs) @ ''::'' @ hex_groups (drop (s + n) gs))"

definition v4_String :: "ip \<Rightarrow> string" where
  "v4_String v4 = join_with ''.'' (map (\<lambda>b. radix_string 10 (unat b)) v4)"

definition ip_String :: "ip \<Rightarrow> string" where
  "ip_String ip = (case To4 ip of Some v4 \<Rightarrow> v4_String v4 | None \<Rightarrow> v6_String (groups ip))"

section \<open>net: networks\<close>

record ip_net =
  in_IP :: ip
  in_Mask :: ip

text \<open>\<open>CIDRMask\<close>: the first bits set, over so many bytes.\<close>

definition CIDRMask :: "nat \<Rightarrow> nat \<Rightarrow> ip" where
  "CIDRMask ones bytes =
     map (\<lambda>i. if 8 * (i + 1) \<le> ones then 255 else if ones \<le> 8 * i then 0 else NOT (drop_bit (ones - 8 * i) 255)) [0..<bytes]"

definition mask_with :: "ip \<Rightarrow> ip \<Rightarrow> ip" where
  "mask_with m ip = map2 (\<lambda>a b. a AND b) ip m"

definition parse_prefix_len :: "string \<Rightarrow> nat \<Rightarrow> nat option" where
  "parse_prefix_len s bound =
     (if s = [] \<or> \<not> list_all is_digit s \<or> bound < number_of 10 s then None else Some (number_of 10 s))"

definition ParseCIDR :: "string \<Rightarrow> ip_net option" where
  "ParseCIDR s =
     (case cut_at CHR ''/'' s of
        None \<Rightarrow> None
      | Some (a, m) \<Rightarrow>
          (case ParseIP a of
             None \<Rightarrow> None
           | Some ip \<Rightarrow>
               let v4 = CHR '':'' \<notin> set a; bytes = (if v4 then 4 else 16)
               in (case parse_prefix_len m (8 * bytes) of
                     None \<Rightarrow> None
                   | Some n \<Rightarrow>
                       let mask = CIDRMask n bytes
                       in Some \<lparr>in_IP = mask_with mask (if v4 then drop 12 ip else ip), in_Mask = mask\<rparr>)))"

text \<open>\<open>IPNet.Contains\<close>, with the number and mask brought to the same form first.\<close>

definition net_Contains :: "ip_net \<Rightarrow> ip \<Rightarrow> bool" where
  "net_Contains n ip =
     (let nn = (case To4 (in_IP n) of Some v \<Rightarrow> v | None \<Rightarrow> in_IP n);
          m = (if length (in_Mask n) = 16 \<and> length nn = 4 then drop 12 (in_Mask n) else in_Mask n);
          x = (case To4 ip of Some v \<Rightarrow> v | None \<Rightarrow> ip)
      in length m = length nn \<and> length x = length nn \<and> mask_with m nn = mask_with m x)"

text \<open>\<open>SplitHostPort\<close>, as far as the host.\<close>

definition split_host :: "string \<Rightarrow> string option" where
  "split_host s =
     (if CHR '':'' \<notin> set s then None
      else
        let port = takeWhile (\<lambda>c. c \<noteq> CHR '':'') (rev s); host = take (length s - length port - 1) s
        in if hd s = CHR ''['' then
             (case cut_at CHR '']'' s of
                None \<Rightarrow> None
              | Some (h, t) \<Rightarrow>
                  if t \<noteq> CHR '':'' # rev port then None
                  else if CHR ''['' \<in> set (tl h) \<union> set port \<or> CHR '']'' \<in> set port then None
                  else Some (tl h))
           else if CHR '':'' \<in> set host \<or> CHR ''['' \<in> set s \<or> CHR '']'' \<in> set s then None
           else Some host)"

section \<open>clientip.go\<close>

definition ParseTrustedProxies :: "string list \<Rightarrow> ip_net list option" where
  "ParseTrustedProxies cidrs = those (map ParseCIDR cidrs)"

definition ipInCIDRs :: "ip option \<Rightarrow> ip_net list \<Rightarrow> bool" where
  "ipInCIDRs ip cidrs = (case ip of None \<Rightarrow> False | Some a \<Rightarrow> list_ex (\<lambda>n. net_Contains n a) cidrs)"

definition remoteIP :: "string \<Rightarrow> ip option" where
  "remoteIP remoteAddr = ParseIP (case split_host remoteAddr of None \<Rightarrow> remoteAddr | Some host \<Rightarrow> host)"

text \<open>The loop over the hops, last one first; \<open>ip\<close> is the peer's address.\<close>

primrec last_untrusted :: "ip_net list \<Rightarrow> ip option \<Rightarrow> string list \<Rightarrow> ip option" where
  "last_untrusted trusted ip [] = ip"
| "last_untrusted trusted ip (hop # hops) =
     (case ParseIP (trim_space hop) of
        None \<Rightarrow> ip
      | Some candidate \<Rightarrow>
          if \<not> ipInCIDRs (Some candidate) trusted then Some candidate
          else last_untrusted trusted ip hops)"

definition ClientIP :: "request \<Rightarrow> ip_net list \<Rightarrow> ip option" where
  "ClientIP r trustedProxies =
     (let ip = remoteIP (rq_RemoteAddr r)
      in if ip = None \<or> \<not> ipInCIDRs ip trustedProxies then ip
         else
           let forwardedFor = header_Get ''X-Forwarded-For'' (rq_Header r)
           in if forwardedFor = '''' then ip
              else last_untrusted trustedProxies ip (rev (split_on CHR '','' forwardedFor)))"

end
