(* ===== verification/Simulation.thy ===== *)
theory Simulation
  imports Main
begin

text \<open>
  Histories of operations that answer, and the simulation of one system by another: as long as
  the operations are admissible for the abstract state, the concrete system returns, and with
  the same answers.
\<close>

primrec run_history :: "('x \<Rightarrow> 's \<Rightarrow> ('y \<times> 's) option) \<Rightarrow> 'x list \<Rightarrow> 's \<Rightarrow> ('y list \<times> 's) option" where
  "run_history step [] s = Some ([], s)"
| "run_history step (x # xs) s =
     (case step x s of
        None \<Rightarrow> None
      | Some (y, t) \<Rightarrow> map_option (apfst (Cons y)) (run_history step xs t))"

primrec answers :: "('x \<Rightarrow> 'a \<Rightarrow> 'y \<times> 'a) \<Rightarrow> 'x list \<Rightarrow> 'a \<Rightarrow> 'y list" where
  "answers step [] a = []"
| "answers step (x # xs) a = (case step x a of (y, b) \<Rightarrow> y # answers step xs b)"

definition outcome :: "('x \<Rightarrow> 'a \<Rightarrow> 'y \<times> 'a) \<Rightarrow> 'x list \<Rightarrow> 'a \<Rightarrow> 'a" where
  "outcome step xs a = fold (\<lambda>x a. snd (step x a)) xs a"

primrec admissible :: "('x \<Rightarrow> 'a \<Rightarrow> bool) \<Rightarrow> ('x \<Rightarrow> 'a \<Rightarrow> 'y \<times> 'a) \<Rightarrow> 'x list \<Rightarrow> 'a \<Rightarrow> bool" where
  "admissible ok step [] a \<longleftrightarrow> True"
| "admissible ok step (x # xs) a \<longleftrightarrow> ok x a \<and> admissible ok step xs (snd (step x a))"

lemma outcome_simps [simp]:
  "outcome step [] a = a" "outcome step (x # xs) a = outcome step xs (snd (step x a))"
  by (simp_all add: outcome_def)

lemma answers_length [simp]: "length (answers step xs a) = length xs"
  by (induction xs arbitrary: a) (auto split: prod.splits)

lemma admissible_True [simp]: "admissible (\<lambda>_ _. True) step xs a"
  by (induction xs arbitrary: a) auto

locale simulation =
  fixes rel :: "'s \<Rightarrow> 'a \<Rightarrow> bool"
    and step :: "'x \<Rightarrow> 's \<Rightarrow> ('y \<times> 's) option"
    and astep :: "'x \<Rightarrow> 'a \<Rightarrow> 'y \<times> 'a"
    and ok :: "'x \<Rightarrow> 'a \<Rightarrow> bool"
  assumes sim: "rel s a \<Longrightarrow> ok x a \<Longrightarrow> \<exists>t. step x s = Some (fst (astep x a), t) \<and> rel t (snd (astep x a))"
begin

lemma same_answers:
  assumes "rel s a" and "admissible ok astep xs a"
  shows "\<exists>t. run_history step xs s = Some (answers astep xs a, t) \<and> rel t (outcome astep xs a)"
  using assms
proof (induction xs arbitrary: s a)
  case (Cons x xs)
  then obtain t where t: "step x s = Some (fst (astep x a), t)" "rel t (snd (astep x a))"
    using sim by fastforce
  from Cons.prems have "admissible ok astep xs (snd (astep x a))" by simp
  from Cons.IH [OF t(2) this] t(1) show ?case by (auto split: prod.splits)
qed simp

end

end
