(* ===== verification/Rate_Limiter.thy ===== *)
theory Rate_Limiter
  imports Client_IP Simulation "HOL-Library.Mapping" "HOL-Library.AList_Mapping"
begin

text \<open>
  \<open>internal/platform/security/ratelimit.go\<close>: a token bucket per client, kept in a table of at
  most \<open>defaultMaxEntries\<close> entries that are threaded, most recently used first, on a doubly
  linked list.

  The entries live in a memory from addresses to entries; a nil pointer is \<open>None\<close>. The token
  bucket itself is \<open>golang.org/x/time/rate\<close>, which is not part of the repository: its
  operations are the parameter \<open>rate_pkg\<close>, and a rate in events per minute stands for the
  quotient handed to it. Requests are handled one at a time; every reading of the clock is an
  input of its own.
\<close>

section \<open>State\<close>

record ('l, 'r) rate_pkg =
  NewLimiter :: "int \<Rightarrow> int \<Rightarrow> 'l"
  Reserve :: "int \<Rightarrow> 'l \<Rightarrow> 'r \<times> 'l"
  Delay :: "int \<Rightarrow> 'r \<Rightarrow> int"
  Cancel :: "int \<Rightarrow> 'r \<Rightarrow> 'l \<Rightarrow> 'l"

definition defaultMaxEntries :: nat where "defaultMaxEntries = 2000"
definition defaultIdle :: int where "defaultIdle = 600000000000"

record 'l bucket_entry =
  be_limiter :: 'l
  be_prev :: "nat option"
  be_next :: "nat option"
  be_key :: string
  be_lastSeen :: int

record 'l rate_limiter =
  rl_keyFn :: "(request \<Rightarrow> string) option"
  rl_buckets :: "(string, nat) mapping"
  rl_head :: "nat option"
  rl_tail :: "nat option"
  rl_trusted :: "ip_net list"
  rl_limit :: int
  rl_burst :: int
  rl_mem :: "nat \<rightharpoonup> 'l bucket_entry"
  rl_fresh :: nat

abbreviation at :: "'l rate_limiter \<Rightarrow> nat \<Rightarrow> 'l bucket_entry" where
  "at rl a \<equiv> the (rl_mem rl a)"

definition store :: "nat \<Rightarrow> ('l bucket_entry \<Rightarrow> 'l bucket_entry) \<Rightarrow> 'l rate_limiter \<Rightarrow> 'l rate_limiter" where
  "store a f rl = rl\<lparr>rl_mem := (rl_mem rl)(a \<mapsto> f (at rl a))\<rparr>"

record limiter_options =
  lo_KeyFunc :: "(request \<Rightarrow> string) option"
  lo_TrustedProxies :: "string list"
  lo_RatePerMinute :: int
  lo_Burst :: int

datatype limiter_error = RateNotPositive | BurstNotPositive | InvalidProxies

definition NewRateLimiter :: "limiter_options \<Rightarrow> limiter_error + 'l rate_limiter" where
  "NewRateLimiter opts =
     (if lo_RatePerMinute opts \<le> 0 then Inl RateNotPositive
      else if lo_Burst opts \<le> 0 then Inl BurstNotPositive
      else case ParseTrustedProxies (lo_TrustedProxies opts) of
             None \<Rightarrow> Inl InvalidProxies
           | Some trusted \<Rightarrow> Inr \<lparr>rl_keyFn = lo_KeyFunc opts, rl_buckets = Mapping.empty, rl_head = None, rl_tail = None,
               rl_trusted = trusted, rl_limit = lo_RatePerMinute opts, rl_burst = lo_Burst opts, rl_mem = Map.empty, rl_fresh = 0\<rparr>)"

section \<open>The list\<close>

definition pushFrontLocked :: "nat \<Rightarrow> 'l rate_limiter \<Rightarrow> 'l rate_limiter" where
  "pushFrontLocked entry rl =
     (let rl = store entry (\<lambda>e. e\<lparr>be_prev := None, be_next := rl_head rl\<rparr>) rl;
          rl = (case rl_head rl of None \<Rightarrow> rl | Some h \<Rightarrow> store h (\<lambda>e. e\<lparr>be_prev := Some entry\<rparr>) rl);
          rl = rl\<lparr>rl_head := Some entry\<rparr>
      in if rl_tail rl = None then rl\<lparr>rl_tail := Some entry\<rparr> else rl)"

definition unlinkLocked :: "nat \<Rightarrow> 'l rate_limiter \<Rightarrow> 'l rate_limiter" where
  "unlinkLocked entry rl =
     (let rl = (case be_prev (at rl entry) of
                  Some p \<Rightarrow> store p (\<lambda>e. e\<lparr>be_next := be_next (at rl entry)\<rparr>) rl
                | None \<Rightarrow> rl\<lparr>rl_head := be_next (at rl entry)\<rparr>);
          rl = (case be_next (at rl entry) of
                  Some n \<Rightarrow> store n (\<lambda>e. e\<lparr>be_prev := be_prev (at rl entry)\<rparr>) rl
                | None \<Rightarrow> rl\<lparr>rl_tail := be_prev (at rl entry)\<rparr>)
      in store entry (\<lambda>e. e\<lparr>be_prev := None, be_next := None\<rparr>) rl)"

definition moveToFrontLocked :: "nat \<Rightarrow> 'l rate_limiter \<Rightarrow> 'l rate_limiter" where
  "moveToFrontLocked entry rl =
     (if rl_head rl = Some entry then rl else pushFrontLocked entry (unlinkLocked entry rl))"

definition forget :: "nat \<Rightarrow> 'l rate_limiter \<Rightarrow> 'l rate_limiter" where
  "forget a rl = (let rl = unlinkLocked a rl in rl\<lparr>rl_buckets := Mapping.delete (be_key (at rl a)) (rl_buckets rl)\<rparr>)"

definition evictOldestLocked :: "'l rate_limiter \<Rightarrow> 'l rate_limiter" where
  "evictOldestLocked rl = (case rl_tail rl of None \<Rightarrow> rl | Some oldest \<Rightarrow> forget oldest rl)"

text \<open>\<open>bucket\<close>: the entry of a key, moved to the front, or a new one there.\<close>

definition bucket :: "('l, 'r) rate_pkg \<Rightarrow> string \<Rightarrow> int \<Rightarrow> 'l rate_limiter \<Rightarrow> nat \<times> 'l rate_limiter" where
  "bucket P key now rl =
     (case Mapping.lookup (rl_buckets rl) key of
        Some existing \<Rightarrow> (existing, moveToFrontLocked existing (store existing (\<lambda>e. e\<lparr>be_lastSeen := now\<rparr>) rl))
      | None \<Rightarrow>
          let rl = (if defaultMaxEntries \<le> Mapping.size (rl_buckets rl) then evictOldestLocked rl else rl);
              a = rl_fresh rl;
              entry = \<lparr>be_limiter = NewLimiter P (rl_limit rl) (rl_burst rl), be_prev = None, be_next = None,
                be_key = key, be_lastSeen = now\<rparr>;
              rl = rl\<lparr>rl_mem := (rl_mem rl)(a \<mapsto> entry), rl_fresh := Suc a\<rparr>;
              rl = rl\<lparr>rl_buckets := Mapping.update key a (rl_buckets rl)\<rparr>
          in (a, pushFrontLocked a rl))"

text \<open>
  \<open>gcOnce\<close>: drop entries from the tail while they are older than the cutoff. The loop follows
  pointers, so that it ends is a theorem.
\<close>

partial_function (option) gcOnce :: "int \<Rightarrow> 'l rate_limiter \<Rightarrow> 'l rate_limiter option" where
  "gcOnce cutoff rl =
     (case rl_tail rl of
        None \<Rightarrow> Some rl
      | Some stale \<Rightarrow> if be_lastSeen (at rl stale) < cutoff then gcOnce cutoff (forget stale rl) else Some rl)"

declare gcOnce.simps [code]

section \<open>Requests\<close>

definition normalizeIP :: "ip option \<Rightarrow> string" where
  "normalizeIP ip =
     (case ip of
        None \<Rightarrow> ''unknown''
      | Some a \<Rightarrow>
          (case To4 a of
             Some v4 \<Rightarrow> v4_String v4
           | None \<Rightarrow> ip_String (mask_with (CIDRMask 64 16) a) @ ''/64''))"

definition realClientIP :: "'l rate_limiter \<Rightarrow> request \<Rightarrow> ip option" where
  "realClientIP rl r = ClientIP r (rl_trusted rl)"

definition clientIPKey :: "'l rate_limiter \<Rightarrow> request \<Rightarrow> string" where
  "clientIPKey rl r = normalizeIP (realClientIP rl r)"

definition resolveKey :: "'l rate_limiter \<Rightarrow> request \<Rightarrow> string" where
  "resolveKey rl r =
     (case rl_keyFn rl of
        Some keyFn \<Rightarrow> if keyFn r \<noteq> '''' then ''u:'' @ keyFn r else ''ip:'' @ clientIPKey rl r
      | None \<Rightarrow> ''ip:'' @ clientIPKey rl r)"

text \<open>The readings of the clock while one request is handled.\<close>

record reads =
  rd_bucket :: int
  rd_reserve :: int
  rd_delay :: int
  rd_cancel :: int

definition reserve_on :: "('l, 'r) rate_pkg \<Rightarrow> reads \<Rightarrow> 'l \<Rightarrow> int \<times> 'l" where
  "reserve_on P t l =
     (case Reserve P (rd_reserve t) l of (reservation, l') \<Rightarrow>
        let delay = Delay P (rd_delay t) reservation
        in if 0 < delay then (delay, Cancel P (rd_cancel t) reservation l') else (0, l'))"

text \<open>
  \<open>Allow\<close>: the delay a refused request is told to wait, or \<open>None\<close> when it is let through.
\<close>

definition Allow :: "('l, 'r) rate_pkg \<Rightarrow> reads \<Rightarrow> string \<Rightarrow> 'l rate_limiter \<Rightarrow> int option \<times> 'l rate_limiter" where
  "Allow P t key rl =
     (case bucket P key (rd_bucket t) rl of (entry, rl) \<Rightarrow>
      case reserve_on P t (be_limiter (at rl entry)) of (delay, l) \<Rightarrow>
        (if 0 < delay then Some delay else None, store entry (\<lambda>e. e\<lparr>be_limiter := l\<rparr>) rl))"

definition AllowRequest :: "('l, 'r) rate_pkg \<Rightarrow> reads \<Rightarrow> request \<Rightarrow> 'l rate_limiter \<Rightarrow> int option \<times> 'l rate_limiter" where
  "AllowRequest P t r rl = Allow P t (resolveKey rl r) rl"

text \<open>\<open>Duration.Round\<close> to a second, half away from zero, and the header a refusal carries.\<close>

definition round_seconds :: "int \<Rightarrow> int" where
  "round_seconds d =
     (let r = d mod 1000000000 in if 2 * r < 1000000000 then (d - r) div 1000000000 else (d - r) div 1000000000 + 1)"

datatype reply = Next_handler | Too_many_requests string

definition reject :: "int \<Rightarrow> reply" where
  "reject retry = Too_many_requests (radix_string 10 (nat (max (round_seconds retry) 1)))"

definition Middleware :: "('l, 'r) rate_pkg \<Rightarrow> reads \<Rightarrow> request \<Rightarrow> 'l rate_limiter \<Rightarrow> reply \<times> 'l rate_limiter" where
  "Middleware P t r rl =
     (case Allow P t (resolveKey rl r) rl of (delay, rl) \<Rightarrow>
        (case delay of None \<Rightarrow> Next_handler | Some d \<Rightarrow> reject d, rl))"

section \<open>Histories\<close>

text \<open>What is done to a limiter: the three ways to ask it, and a tick of \<open>Run\<close> at a time.\<close>

datatype limiter_op = Ask_key reads string | Ask_request reads request | Serve reads request | Tick int

datatype answer = Answer "int option" | Reply reply | Collected

definition run_limiter_op :: "('l, 'r) rate_pkg \<Rightarrow> limiter_op \<Rightarrow> 'l rate_limiter \<Rightarrow> (answer \<times> 'l rate_limiter) option" where
  "run_limiter_op P x rl =
     (case x of
        Ask_key t key \<Rightarrow> Some (apfst Answer (Allow P t key rl))
      | Ask_request t r \<Rightarrow> Some (apfst Answer (AllowRequest P t r rl))
      | Serve t r \<Rightarrow> Some (apfst Reply (Middleware P t r rl))
      | Tick now \<Rightarrow> map_option (\<lambda>rl. (Collected, rl)) (gcOnce (now - defaultIdle) rl))"

definition run_limiter :: "('l, 'r) rate_pkg \<Rightarrow> limiter_op list \<Rightarrow> 'l rate_limiter \<Rightarrow> (answer list \<times> 'l rate_limiter) option" where
  "run_limiter P = run_history (run_limiter_op P)"

end
