(* ===== verification/Limiter_Refine.thy ===== *)
theory Limiter_Refine
  imports Rate_Limiter
begin

text \<open>
  The rate limiter's table against a plain list of the clients, most recently seen first, and
  against one limiter of their own for every client.
\<close>

section \<open>Doubly linked lists in memory\<close>

text \<open>
  The nodes \<open>as\<close> from \<open>h\<close> up to \<open>e\<close>: the first points back to \<open>p\<close>, and \<open>t\<close> is the last.
\<close>

primrec chain ::
  "(nat \<rightharpoonup> 'l bucket_entry) \<Rightarrow> nat option \<Rightarrow> nat option \<Rightarrow> nat list \<Rightarrow> nat option \<Rightarrow> nat option \<Rightarrow> bool" where
  "chain m p h [] e t \<longleftrightarrow> h = e \<and> t = p"
| "chain m p h (a # as) e t \<longleftrightarrow> h = Some a \<and> (\<exists>b. m a = Some b \<and> be_prev b = p \<and> chain m (Some a) (be_next b) as e t)"

lemma chain_append [simp]:
  "chain m p h (xs @ ys) e t \<longleftrightarrow> (\<exists>h' t'. chain m p h xs h' t' \<and> chain m t' h' ys e t)"
  by (induction xs arbitrary: p h) auto

lemma chain_upd [simp]: "a \<notin> set as \<Longrightarrow> chain (m(a \<mapsto> v)) p h as e t = chain m p h as e t"
  by (induction as arbitrary: p h) auto

lemma chain_mem: "chain m p h as e t \<Longrightarrow> a \<in> set as \<Longrightarrow> \<exists>b. m a = Some b"
  by (induction as arbitrary: p h) auto

lemma chain_tail: "chain m p h as e t \<Longrightarrow> t = (if as = [] then p else Some (last as))"
  by (induction as arbitrary: p h) auto

lemma chain_no_tail [simp]: "chain m (Some x) h as e None \<longleftrightarrow> False"
  by (auto dest: chain_tail split: if_splits)

text \<open>What an entry holds besides its place on the list.\<close>

abbreviation payload :: "'l bucket_entry \<Rightarrow> string \<times> int \<times> 'l" where
  "payload b \<equiv> (be_key b, be_lastSeen b, be_limiter b)"

definition on_list :: "'l rate_limiter \<Rightarrow> nat list \<Rightarrow> bool" where
  "on_list rl as \<longleftrightarrow> chain (rl_mem rl) None (rl_head rl) as None (rl_tail rl) \<and> distinct as"

definition same_payloads :: "'l rate_limiter \<Rightarrow> 'l rate_limiter \<Rightarrow> bool" where
  "same_payloads rl rl' \<longleftrightarrow> (\<forall>a. map_option payload (rl_mem rl' a) = map_option payload (rl_mem rl a)) \<and>
     rl_keyFn rl' = rl_keyFn rl \<and> rl_trusted rl' = rl_trusted rl \<and> rl_limit rl' = rl_limit rl \<and>
     rl_burst rl' = rl_burst rl \<and> rl_fresh rl' = rl_fresh rl"

lemma unlink_list:
  assumes "on_list rl (xs @ a # ys)"
  shows "on_list (unlinkLocked a rl) (xs @ ys)"
proof (cases xs rule: rev_cases)
  case Nil
  show ?thesis
    by (cases ys) (use assms Nil in \<open>auto simp: on_list_def unlinkLocked_def store_def Let_def\<close>)
next
  case (snoc zs p)
  show ?thesis
    by (cases ys) (use assms snoc in \<open>auto simp: on_list_def unlinkLocked_def store_def Let_def\<close>)
qed

lemma unlink_payloads:
  assumes "on_list rl (xs @ a # ys)"
  shows "same_payloads rl (unlinkLocked a rl)" "rl_buckets (unlinkLocked a rl) = rl_buckets rl"
proof -
  show "rl_buckets (unlinkLocked a rl) = rl_buckets rl"
    by (simp add: unlinkLocked_def store_def Let_def split: option.splits)
  show "same_payloads rl (unlinkLocked a rl)"
  proof (cases xs rule: rev_cases)
    case Nil
    show ?thesis
      by (cases ys) (use assms Nil in \<open>auto simp: on_list_def unlinkLocked_def store_def Let_def same_payloads_def\<close>)
  next
    case (snoc zs p)
    show ?thesis
      by (cases ys) (use assms snoc in \<open>auto simp: on_list_def unlinkLocked_def store_def Let_def same_payloads_def\<close>)
  qed
qed

lemma push_list:
  assumes "on_list rl as" and "a \<notin> set as" and "rl_mem rl a = Some b"
  shows "on_list (pushFrontLocked a rl) (a # as)" "same_payloads rl (pushFrontLocked a rl)"
    "rl_buckets (pushFrontLocked a rl) = rl_buckets rl"
proof -
  show "on_list (pushFrontLocked a rl) (a # as)"
    by (cases as) (use assms in \<open>auto simp: on_list_def pushFrontLocked_def store_def Let_def\<close>)
  show "same_payloads rl (pushFrontLocked a rl)"
    by (cases as) (use assms in \<open>auto simp: on_list_def pushFrontLocked_def store_def Let_def same_payloads_def\<close>)
  show "rl_buckets (pushFrontLocked a rl) = rl_buckets rl"
    by (simp add: pushFrontLocked_def store_def Let_def split: option.splits)
qed

section \<open>The table as a list of clients\<close>

type_synonym 'l clients = "(string \<times> int \<times> 'l) list"

definition view :: "'l rate_limiter \<Rightarrow> nat list \<Rightarrow> 'l clients" where
  "view rl as = map (\<lambda>a. payload (at rl a)) as"

definition table_inv :: "'l rate_limiter \<Rightarrow> nat list \<Rightarrow> bool" where
  "table_inv rl as \<longleftrightarrow> on_list rl as \<and> (\<forall>a b. rl_mem rl a = Some b \<longrightarrow> a < rl_fresh rl) \<and>
     (\<forall>k a. Mapping.lookup (rl_buckets rl) k = Some a \<longleftrightarrow> a \<in> set as \<and> be_key (at rl a) = k)"

definition config :: "'l rate_limiter \<Rightarrow> (request \<Rightarrow> string) option \<times> ip_net list \<times> int \<times> int" where
  "config rl = (rl_keyFn rl, rl_trusted rl, rl_limit rl, rl_burst rl)"

lemma same_payloads_config: "same_payloads rl rl' \<Longrightarrow> config rl' = config rl"
  by (simp add: same_payloads_def config_def)

lemma same_payloads_mem: "same_payloads rl rl' \<Longrightarrow> map_option payload (rl_mem rl' a) = map_option payload (rl_mem rl a)"
  unfolding same_payloads_def by blast

lemma same_payloads_at:
  assumes "same_payloads rl rl'" and "rl_mem rl a = Some b"
  shows "payload (at rl' a) = payload b"
proof -
  from same_payloads_mem [OF assms(1), of a] assms(2) show ?thesis by auto
qed

lemma same_payloads_view:
  assumes "same_payloads rl rl'" and "on_list rl as"
  shows "view rl' as = view rl as"
proof -
  have "payload (at rl' a) = payload (at rl a)" if a: "a \<in> set as" for a
  proof -
    from assms(2) a obtain b where "rl_mem rl a = Some b" unfolding on_list_def by (blast dest: chain_mem)
    with same_payloads_at [OF assms(1)] show ?thesis by simp
  qed
  then show ?thesis by (simp add: view_def)
qed

lemma table_at: "table_inv rl as \<Longrightarrow> a \<in> set as \<Longrightarrow> Mapping.lookup (rl_buckets rl) (be_key (at rl a)) = Some a"
  unfolding table_inv_def by blast

lemma table_found: "table_inv rl as \<Longrightarrow> Mapping.lookup (rl_buckets rl) k = Some a \<Longrightarrow> a \<in> set as \<and> be_key (at rl a) = k"
  unfolding table_inv_def by blast

lemma table_key_inj:
  assumes "table_inv rl as" "a \<in> set as" "b \<in> set as" "be_key (at rl a) = be_key (at rl b)"
  shows "a = b"
proof -
  have "Some a = Some b"
    unfolding table_at [OF assms(1,2), symmetric] assms(4) by (rule table_at [OF assms(1,3)])
  then show ?thesis by simp
qed

lemma table_keys:
  assumes "table_inv rl as"
  shows "distinct (map fst (view rl as))"
proof -
  have "inj_on (\<lambda>a. be_key (at rl a)) (set as)"
    by (rule inj_onI) (rule table_key_inj [OF assms])
  with assms show ?thesis by (simp add: view_def distinct_map table_inv_def on_list_def comp_def)
qed

lemma table_lookup:
  assumes "table_inv rl as"
  shows "map_of (view rl as) k =
    map_option (\<lambda>a. snd (payload (at rl a))) (Mapping.lookup (rl_buckets rl) k)"
proof (cases "Mapping.lookup (rl_buckets rl) k")
  case None
  then have "k \<notin> fst ` set (view rl as)" using table_at [OF assms] by (auto simp: view_def)
  with None show ?thesis by (simp add: map_of_eq_None_iff)
next
  case (Some a)
  from table_found [OF assms this] have "(k, snd (payload (at rl a))) \<in> set (view rl as)"
    by (auto simp: view_def)
  with Some table_keys [OF assms] show ?thesis by simp
qed

lemma table_size:
  assumes "table_inv rl as"
  shows "Mapping.size (rl_buckets rl) = length as"
proof -
  have "Mapping.keys (rl_buckets rl) = fst ` set (view rl as)"
    using table_at [OF assms] table_found [OF assms] by (force simp: keys_dom_lookup view_def)
  then have "Mapping.size (rl_buckets rl) = card (set (map fst (view rl as)))" by (simp add: Mapping.size_def)
  with distinct_card [OF table_keys [OF assms]] show ?thesis by (simp add: view_def)
qed

text \<open>Writes that leave the pointers of an entry alone.\<close>

lemma chain_payload:
  assumes "\<And>a. map_option (\<lambda>b. (be_prev b, be_next b)) (m' a) = map_option (\<lambda>b. (be_prev b, be_next b)) (m a)"
  shows "chain m' p h as e t = chain m p h as e t"
proof (induction as arbitrary: p h)
  case (Cons a as)
  from assms [of a] Cons.IH show ?case by (cases "m a"; cases "m' a") auto
qed simp

lemma store_list:
  assumes "on_list rl as" and "a \<in> set as" and "\<And>b. be_prev (f b) = be_prev b \<and> be_next (f b) = be_next b"
  shows "on_list (store a f rl) as"
proof -
  from assms(1,2) obtain b where "rl_mem rl a = Some b" unfolding on_list_def by (blast dest: chain_mem)
  then have "map_option (\<lambda>b. (be_prev b, be_next b)) (rl_mem (store a f rl) x) = map_option (\<lambda>b. (be_prev b, be_next b)) (rl_mem rl x)" for x
    by (simp add: store_def assms(3))
  then have "chain (rl_mem (store a f rl)) p h as e t = chain (rl_mem rl) p h as e t" for p h e t
    by (rule chain_payload)
  with assms(1) show ?thesis by (simp add: on_list_def store_def)
qed

lemma table_inv_transfer:
  assumes "table_inv rl as" and "same_payloads rl rl'" and "on_list rl' as'" and "set as' \<subseteq> set as"
    and "\<And>k a. Mapping.lookup (rl_buckets rl') k = Some a \<longleftrightarrow> a \<in> set as' \<and> Mapping.lookup (rl_buckets rl) k = Some a"
  shows "table_inv rl' as'"
proof -
  have key: "be_key (at rl' a) = be_key (at rl a)" if "a \<in> set as'" for a
  proof -
    from assms(1,4) that obtain b where "rl_mem rl a = Some b" unfolding on_list_def table_inv_def by (blast dest: chain_mem)
    with same_payloads_at [OF assms(2)] show ?thesis by simp
  qed
  have "a < rl_fresh rl'" if "rl_mem rl' a = Some b" for a b
  proof -
    from same_payloads_mem [OF assms(2), of a] that obtain c where "rl_mem rl a = Some c" by (cases "rl_mem rl a") auto
    with assms(1,2) show ?thesis by (simp add: table_inv_def same_payloads_def)
  qed
  moreover have "Mapping.lookup (rl_buckets rl') k = Some a \<longleftrightarrow> a \<in> set as' \<and> be_key (at rl' a) = k" for k a
    unfolding assms(5) using key [of a] table_at [OF assms(1), of a] table_found [OF assms(1), of k a] assms(4) by auto
  ultimately show ?thesis using assms(3) by (simp add: table_inv_def)
qed

lemma forget_table:
  assumes "table_inv rl (xs @ a # ys)"
  shows "table_inv (forget a rl) (xs @ ys)" "view (forget a rl) (xs @ ys) = view rl (xs @ ys)"
    "config (forget a rl) = config rl"
proof -
  let ?u = "unlinkLocked a rl"
  from assms have l: "on_list rl (xs @ a # ys)" by (simp add: table_inv_def)
  note p = unlink_payloads [OF l] and o' = unlink_list [OF l]
  from l obtain b where b: "rl_mem rl a = Some b" unfolding on_list_def by (auto dest: chain_mem)
  have f: "forget a rl = ?u\<lparr>rl_buckets := Mapping.delete (be_key (at rl a)) (rl_buckets rl)\<rparr>"
    using same_payloads_at [OF p(1) b] b p(2) by (simp add: forget_def Let_def)
  have o'': "on_list (forget a rl) (xs @ ys)" using o' by (simp add: f on_list_def)
  have p': "same_payloads rl (forget a rl)" using p(1) by (simp add: f same_payloads_def)
  show "config (forget a rl) = config rl" using same_payloads_config [OF p'] .
  show "table_inv (forget a rl) (xs @ ys)"
  proof (rule table_inv_transfer [OF assms p' o''])
    fix k x
    have a: "a \<in> set (xs @ a # ys)" by simp
    from l have n: "a \<notin> set (xs @ ys)" by (simp add: on_list_def)
    show "Mapping.lookup (rl_buckets (forget a rl)) k = Some x \<longleftrightarrow>
        x \<in> set (xs @ ys) \<and> Mapping.lookup (rl_buckets rl) k = Some x"
    proof (cases "k = be_key (at rl a)")
      case True
      with table_at [OF assms a] n show ?thesis by (auto simp: f)
    next
      case False
      with table_found [OF assms, of k x] show ?thesis by (auto simp: f)
    qed
  qed auto
  have "view (forget a rl) (xs @ a # ys) = view rl (xs @ a # ys)"
    using same_payloads_view [OF p' l] .
  then show "view (forget a rl) (xs @ ys) = view rl (xs @ ys)" by (simp add: view_def)
qed
section \<open>The operations on the list of clients\<close>

text \<open>A client seen: to the front, with a limiter as new when it was not there.\<close>

definition lru_touch :: "'l \<Rightarrow> string \<Rightarrow> int \<Rightarrow> 'l clients \<Rightarrow> 'l clients" where
  "lru_touch new k now L =
     (case map_of L k of
        Some (_, l) \<Rightarrow> (k, now, l) # filter (\<lambda>e. fst e \<noteq> k) L
      | None \<Rightarrow> (k, now, new) # (if defaultMaxEntries \<le> length L then butlast L else L))"

definition lru_collect :: "int \<Rightarrow> 'l clients \<Rightarrow> 'l clients" where
  "lru_collect cutoff L = rev (dropWhile (\<lambda>(k, s, l). s < cutoff) (rev L))"

lemma view_simps [simp]: "view rl [] = []" "view rl (a # as) = payload (at rl a) # view rl as"
  "view rl (as @ bs) = view rl as @ view rl bs" "length (view rl as) = length as"
  by (simp_all add: view_def)

lemma list_ends:
  assumes "on_list rl as"
  shows "rl_head rl = (if as = [] then None else Some (hd as))" "rl_tail rl = (if as = [] then None else Some (last as))"
  using assms by (auto simp: on_list_def neq_Nil_conv dest: chain_tail)

lemma table_tail: "table_inv rl as \<Longrightarrow> rl_tail rl = (if as = [] then None else Some (last as))"
  using list_ends(2) unfolding table_inv_def by blast

lemma filter_view:
  assumes "table_inv rl (xs @ a # ys)"
  shows "filter (\<lambda>e. fst e \<noteq> be_key (at rl a)) (view rl (xs @ a # ys)) = view rl (xs @ ys)"
proof -
  have "be_key (at rl x) \<noteq> be_key (at rl a)" if "x \<in> set (xs @ ys)" for x
  proof
    assume "be_key (at rl x) = be_key (at rl a)"
    with table_key_inj [OF assms, of x a] that have "x = a" by auto
    with that assms show False by (auto simp: table_inv_def on_list_def)
  qed
  then have "\<forall>e \<in> set (view rl (xs @ ys)). fst e \<noteq> be_key (at rl a)" by (auto simp: view_def)
  then show ?thesis by (simp add: filter_id_conv)
qed

lemma move_to_front_table:
  assumes "table_inv rl (xs @ a # ys)"
  shows "table_inv (moveToFrontLocked a rl) (a # xs @ ys)" "view (moveToFrontLocked a rl) (a # xs @ ys) = view rl (a # xs @ ys)"
    "config (moveToFrontLocked a rl) = config rl"
proof -
  let ?u = "unlinkLocked a rl" and ?m = "moveToFrontLocked a rl"
  from assms have l: "on_list rl (xs @ a # ys)" by (simp add: table_inv_def)
  have *: "on_list ?m (a # xs @ ys) \<and> same_payloads rl ?m \<and> rl_buckets ?m = rl_buckets rl"
  proof (cases "xs = []")
    case True
    with l list_ends(1) [OF l] show ?thesis by (simp add: moveToFrontLocked_def same_payloads_def)
  next
    case False
    with l have "hd xs \<noteq> a" by (auto simp: on_list_def)
    with False list_ends(1) [OF l] have m: "?m = pushFrontLocked a ?u" by (simp add: moveToFrontLocked_def)
    from l obtain b where "rl_mem rl a = Some b" unfolding on_list_def by (auto dest: chain_mem)
    with same_payloads_mem [OF unlink_payloads(1) [OF l], of a] obtain c where "rl_mem ?u a = Some c" by auto
    moreover from l have "a \<notin> set (xs @ ys)" by (simp add: on_list_def)
    ultimately have p: "on_list ?m (a # xs @ ys)" "same_payloads ?u ?m" "rl_buckets ?m = rl_buckets ?u"
      unfolding m using push_list [OF unlink_list [OF l]] by blast+
    then show ?thesis using unlink_payloads [OF l] by (simp add: same_payloads_def)
  qed
  then show t: "table_inv ?m (a # xs @ ys)"
    by (intro table_inv_transfer [OF assms, where rl' = ?m]) (auto dest: table_found [OF assms])
  from * same_payloads_view [of rl ?m "xs @ a # ys"] l
  show "view ?m (a # xs @ ys) = view rl (a # xs @ ys)" by simp
  from * same_payloads_config show "config ?m = config rl" by blast
qed
lemma store_table:
  assumes "table_inv rl as" and "a \<in> set as"
    and f: "\<And>b. be_prev (f b) = be_prev b \<and> be_next (f b) = be_next b \<and> be_key (f b) = be_key b"
  shows "table_inv (store a f rl) as" "config (store a f rl) = config rl"
    "at (store a f rl) a = f (at rl a)" "x \<noteq> a \<Longrightarrow> at (store a f rl) x = at rl x"
proof -
  from assms have "on_list (store a f rl) as" by (intro store_list) (auto simp: table_inv_def)
  moreover from assms obtain b where "rl_mem rl a = Some b" unfolding table_inv_def on_list_def by (blast dest: chain_mem)
  moreover have "be_key (at (store a f rl) x) = be_key (at rl x)" for x by (simp add: store_def f)
  ultimately show "table_inv (store a f rl) as" using assms(1) by (auto simp: table_inv_def store_def)
qed (simp_all add: store_def config_def)

lemma view_store_other: "a \<notin> set as \<Longrightarrow> view (store a f rl) as = view rl as"
  by (induction as) (auto simp: store_def view_def)

lemma evict_table:
  assumes "table_inv rl as"
  shows "table_inv (evictOldestLocked rl) (butlast as)" "view (evictOldestLocked rl) (butlast as) = butlast (view rl as)"
    "config (evictOldestLocked rl) = config rl"
proof -
  have "table_inv (evictOldestLocked rl) (butlast as) \<and> view (evictOldestLocked rl) (butlast as) = butlast (view rl as) \<and>
    config (evictOldestLocked rl) = config rl"
  proof (cases as rule: rev_cases)
    case Nil
    with table_tail [OF assms] have "evictOldestLocked rl = rl" by (simp add: evictOldestLocked_def)
    with Nil assms show ?thesis by simp
  next
    case (snoc bs a)
    with table_tail [OF assms] have "rl_tail rl = Some a" by simp
    with forget_table [of rl bs a "[]"] assms snoc show ?thesis by (simp add: evictOldestLocked_def butlast_append)
  qed
  then show "table_inv (evictOldestLocked rl) (butlast as)" "view (evictOldestLocked rl) (butlast as) = butlast (view rl as)"
    "config (evictOldestLocked rl) = config rl" by auto
qed

text \<open>A new entry, at a fresh address.\<close>

lemma insert_table:
  assumes "table_inv rl as" and "Mapping.lookup (rl_buckets rl) (be_key e) = None"
    and rl': "rl' = pushFrontLocked (rl_fresh rl) (rl\<lparr>rl_mem := (rl_mem rl)(rl_fresh rl \<mapsto> e), rl_fresh := Suc (rl_fresh rl),
      rl_buckets := Mapping.update (be_key e) (rl_fresh rl) (rl_buckets rl)\<rparr>)"
  shows "table_inv rl' (rl_fresh rl # as)" "view rl' (rl_fresh rl # as) = payload e # view rl as" "config rl' = config rl"
proof -
  let ?a = "rl_fresh rl"
  let ?n = "rl\<lparr>rl_mem := (rl_mem rl)(?a \<mapsto> e), rl_fresh := Suc ?a, rl_buckets := Mapping.update (be_key e) ?a (rl_buckets rl)\<rparr>"
  have mem: "\<exists>b. rl_mem rl x = Some b \<and> x < ?a" if "x \<in> set as" for x
    using assms(1) that unfolding table_inv_def on_list_def by (blast dest: chain_mem)
  then have fresh: "?a \<notin> set as" by blast
  with assms(1) have "on_list ?n as" by (simp add: table_inv_def on_list_def)
  from push_list [OF this fresh, of e]
  have p: "on_list rl' (?a # as)" "same_payloads ?n rl'" "rl_buckets rl' = rl_buckets ?n" by (simp_all add: rl')
  have at_a: "payload (at rl' ?a) = payload e" using same_payloads_at [OF p(2), of ?a e] by simp
  have at_x: "payload (at rl' x) = payload (at rl x)" if "x \<in> set as" for x
  proof -
    from mem [OF that] obtain b where "rl_mem rl x = Some b" "x \<noteq> ?a" by auto
    with same_payloads_at [OF p(2), of x b] show ?thesis by simp
  qed
  show "config rl' = config rl" using same_payloads_config [OF p(2)] by (simp add: config_def)
  from at_x have "view rl' as = view rl as" by (simp add: view_def)
  with at_a show "view rl' (?a # as) = payload e # view rl as" by simp
  have "Mapping.lookup (rl_buckets rl') k = Some x \<longleftrightarrow> x \<in> set (?a # as) \<and> be_key (at rl' x) = k" for k x
  proof (cases "x = ?a")
    case True
    with at_a fresh table_found [OF assms(1), of k x] show ?thesis by (auto simp: p(3) lookup_update')
  next
    case False
    with at_x [of x] table_found [OF assms(1), of k x] table_at [OF assms(1), of x] assms(2)
    show ?thesis by (auto simp: p(3) lookup_update')
  qed
  moreover have "x < rl_fresh rl'" if "rl_mem rl' x = Some b" for x b
  proof -
    from same_payloads_mem [OF p(2), of x] that obtain c where "rl_mem ?n x = Some c" by (cases "rl_mem ?n x") auto
    with assms(1) have "x < Suc ?a" by (auto simp: table_inv_def less_Suc_eq split: if_splits)
    with p(2) show ?thesis by (simp add: same_payloads_def)
  qed
  ultimately show "table_inv rl' (?a # as)" using p(1) by (simp add: table_inv_def)
qed

lemma bucket_table:
  assumes "table_inv rl as" and "bucket P k now rl = (a, rl')"
  shows "\<exists>as'. table_inv rl' (a # as') \<and> config rl' = config rl \<and>
    view rl' (a # as') = lru_touch (NewLimiter P (rl_limit rl) (rl_burst rl)) k now (view rl as)"
proof (cases "Mapping.lookup (rl_buckets rl) k")
  case (Some x)
  let ?s = "store x (\<lambda>e. e\<lparr>be_lastSeen := now\<rparr>) rl"
  from table_found [OF assms(1) Some] have x: "x \<in> set as" "be_key (at rl x) = k" by auto
  then obtain xs ys where as: "as = xs @ x # ys" by (meson split_list)
  with assms(1) have n: "x \<notin> set (xs @ ys)" by (simp add: table_inv_def on_list_def)
  note s = store_table [OF assms(1) x(1), where f = "\<lambda>e. e\<lparr>be_lastSeen := now\<rparr>"]
  have "table_inv ?s (xs @ x # ys)" using s(1) as by simp
  note m = move_to_front_table [OF this]
  from assms(2) Some have a: "a = x" "rl' = moveToFrontLocked x ?s" by (auto simp: bucket_def)
  have "view ?s (xs @ ys) = view rl (xs @ ys)" using n by (rule view_store_other)
  moreover have "map_of (view rl as) k = Some (be_lastSeen (at rl x), be_limiter (at rl x))"
    using table_lookup [OF assms(1), of k] Some by simp
  moreover have "filter (\<lambda>e. fst e \<noteq> k) (view rl as) = view rl (xs @ ys)"
    using filter_view [of rl xs x ys] assms(1) as x(2) by simp
  ultimately have "view rl' (x # xs @ ys) = lru_touch (NewLimiter P (rl_limit rl) (rl_burst rl)) k now (view rl as)"
    using m(2) s(3) x(2) by (simp add: a lru_touch_def)
  with m s(2) show ?thesis by (auto simp: a)
next
  case None
  let ?e = "if defaultMaxEntries \<le> Mapping.size (rl_buckets rl) then evictOldestLocked rl else rl"
  let ?as = "if defaultMaxEntries \<le> length as then butlast as else as"
  have e: "table_inv ?e ?as" "view ?e ?as = (if defaultMaxEntries \<le> length as then butlast (view rl as) else view rl as)"
    "config ?e = config rl"
    using evict_table [OF assms(1)] assms(1) table_size [OF assms(1)] by auto
  from None table_lookup [OF assms(1), of k] have k: "map_of (view rl as) k = None" by simp
  then have "k \<notin> fst ` set (view rl as)" by (simp add: map_of_eq_None_iff)
  moreover have "set (butlast (view rl as)) \<subseteq> set (view rl as)" by (meson in_set_butlastD subsetI)
  ultimately have "map_of (view ?e ?as) k = None" using e(2) by (auto simp: map_of_eq_None_iff)
  with table_lookup [OF e(1), of k] have n: "Mapping.lookup (rl_buckets ?e) k = None" by simp
  define new where "new = \<lparr>be_limiter = NewLimiter P (rl_limit ?e) (rl_burst ?e), be_prev = None, be_next = None, be_key = k, be_lastSeen = now\<rparr>"
  have nk: "be_key new = k" by (simp add: new_def)
  from assms(2) None have a: "a = rl_fresh ?e" and rl': "rl' = pushFrontLocked (rl_fresh ?e) (?e\<lparr>rl_mem := (rl_mem ?e)(rl_fresh ?e \<mapsto> new),
      rl_fresh := Suc (rl_fresh ?e), rl_buckets := Mapping.update (be_key new) (rl_fresh ?e) (rl_buckets ?e)\<rparr>)"
    by (auto simp: bucket_def Let_def new_def)
  note i = insert_table [OF e(1) n [folded nk] rl']
  from e(3) have "payload new = (k, now, NewLimiter P (rl_limit rl) (rl_burst rl))" by (simp add: new_def config_def)
  with i(2) e(2) k have "view rl' (a # ?as) = lru_touch (NewLimiter P (rl_limit rl) (rl_burst rl)) k now (view rl as)"
    by (simp add: a lru_touch_def)
  with i(1,3) e(3) show ?thesis unfolding a by metis
qed

lemma gcOnce_table:
  assumes "table_inv rl as"
  shows "\<exists>rl' as'. gcOnce cutoff rl = Some rl' \<and> table_inv rl' as' \<and> config rl' = config rl \<and>
    view rl' as' = lru_collect cutoff (view rl as)"
  using assms
proof (induction as arbitrary: rl rule: rev_induct)
  case Nil
  with table_tail have "rl_tail rl = None" by fastforce
  with Nil show ?case by (subst gcOnce.simps) (auto simp: lru_collect_def)
next
  case (snoc a as)
  have t: "rl_tail rl = Some a" using table_tail [OF snoc.prems] by simp
  note f = forget_table [of rl as a "[]", simplified, OF snoc.prems]
  show ?case
  proof (cases "be_lastSeen (at rl a) < cutoff")
    case True
    with t have "gcOnce cutoff rl = gcOnce cutoff (forget a rl)" by (subst gcOnce.simps) simp
    with snoc.IH [OF f(1)] f(2,3) True show ?thesis by (auto simp: lru_collect_def)
  next
    case False
    with t snoc.prems show ?thesis by (subst gcOnce.simps) (auto simp: lru_collect_def)
  qed
qed
section \<open>The limiter simulates the list\<close>

text \<open>A limiter's configuration does not change; \<open>c\<close> is any limiter that has it.\<close>

definition lru_ask :: "('l, 'r) rate_pkg \<Rightarrow> 'l rate_limiter \<Rightarrow> reads \<Rightarrow> string \<Rightarrow> 'l clients \<Rightarrow> int option \<times> 'l clients" where
  "lru_ask P c t k L =
     (case lru_touch (NewLimiter P (rl_limit c) (rl_burst c)) k (rd_bucket t) L of
        [] \<Rightarrow> (None, [])
      | (key, s, l) # rest \<Rightarrow>
          (case reserve_on P t l of (delay, l') \<Rightarrow> (if 0 < delay then Some delay else None, (key, s, l') # rest)))"

definition reply_of :: "int option \<Rightarrow> reply" where
  "reply_of delay = (case delay of None \<Rightarrow> Next_handler | Some d \<Rightarrow> reject d)"

definition lru_step :: "('l, 'r) rate_pkg \<Rightarrow> 'l rate_limiter \<Rightarrow> limiter_op \<Rightarrow> 'l clients \<Rightarrow> answer \<times> 'l clients" where
  "lru_step P c x L =
     (case x of
        Ask_key t k \<Rightarrow> apfst Answer (lru_ask P c t k L)
      | Ask_request t r \<Rightarrow> apfst Answer (lru_ask P c t (resolveKey c r) L)
      | Serve t r \<Rightarrow> apfst (\<lambda>d. Reply (reply_of d)) (lru_ask P c t (resolveKey c r) L)
      | Tick now \<Rightarrow> (Collected, lru_collect (now - defaultIdle) L))"

definition lru_rel :: "'l rate_limiter \<Rightarrow> 'l rate_limiter \<Rightarrow> 'l clients \<Rightarrow> bool" where
  "lru_rel c rl L \<longleftrightarrow> config rl = config c \<and> (\<exists>as. table_inv rl as \<and> L = view rl as)"

lemma lru_touch_Cons: "\<exists>s l rest. lru_touch new k now L = (k, s, l) # rest"
  by (auto simp: lru_touch_def split: option.splits)

lemma Allow_lru:
  assumes "lru_rel c rl L"
  shows "fst (Allow P t k rl) = fst (lru_ask P c t k L)" "lru_rel c (snd (Allow P t k rl)) (snd (lru_ask P c t k L))"
proof -
  from assms obtain as where as: "table_inv rl as" "L = view rl as" and c: "config rl = config c"
    by (auto simp: lru_rel_def)
  obtain a r1 where b: "bucket P k (rd_bucket t) rl = (a, r1)" by fastforce
  let ?L = "lru_touch (NewLimiter P (rl_limit c) (rl_burst c)) k (rd_bucket t) L"
  from bucket_table [OF as(1) b] c as(2) obtain as' where i: "table_inv r1 (a # as')" "config r1 = config c" "view r1 (a # as') = ?L"
    by (auto simp: config_def)
  obtain d l where r: "reserve_on P t (be_limiter (at r1 a)) = (d, l)" by fastforce
  let ?f = "be_limiter_update (\<lambda>_. l)"
  have s: "table_inv (store a ?f r1) (a # as')" "config (store a ?f r1) = config r1" "at (store a ?f r1) a = ?f (at r1 a)"
    using store_table [OF i(1), of a ?f] by simp_all
  have "a \<notin> set as'" using i(1) by (simp add: table_inv_def on_list_def)
  then have "view (store a ?f r1) (a # as') = (be_key (at r1 a), be_lastSeen (at r1 a), l) # view r1 as'"
    using s(3) by (simp add: view_store_other)
  moreover have "Allow P t k rl = (if 0 < d then Some d else None, store a ?f r1)" using b r by (simp add: Allow_def)
  moreover have "lru_ask P c t k L = (if 0 < d then Some d else None, (be_key (at r1 a), be_lastSeen (at r1 a), l) # view r1 as')"
    using r i(3) [symmetric] by (simp add: lru_ask_def)
  ultimately show "fst (Allow P t k rl) = fst (lru_ask P c t k L)" "lru_rel c (snd (Allow P t k rl)) (snd (lru_ask P c t k L))"
    using s i(2) unfolding lru_rel_def by (simp, force)
qed

lemma resolveKey_config: "config rl = config c \<Longrightarrow> resolveKey rl r = resolveKey c r"
proof -
  assume c: "config rl = config c"
  then have "clientIPKey rl r = clientIPKey c r" by (simp add: clientIPKey_def realClientIP_def config_def)
  with c show ?thesis by (simp add: resolveKey_def config_def split: option.splits)
qed

interpretation limiter: simulation "lru_rel c" "run_limiter_op P" "lru_step P c" "\<lambda>_ _. True"
  for P :: "('l, 'r) rate_pkg" and c :: "'l rate_limiter"
proof
  fix rl :: "'l rate_limiter" and L and x :: limiter_op
  assume rel: "lru_rel c rl L"
  then have k: "resolveKey rl r = resolveKey c r" for r by (intro resolveKey_config) (simp add: lru_rel_def)
  show "\<exists>rl'. run_limiter_op P x rl = Some (fst (lru_step P c x L), rl') \<and> lru_rel c rl' (snd (lru_step P c x L))"
  proof (cases x)
    case (Tick now)
    from rel obtain as where as: "table_inv rl as" "L = view rl as" "config rl = config c" by (auto simp: lru_rel_def)
    from gcOnce_table [OF as(1), of "now - defaultIdle"] as(3) obtain rl' as' where
      g: "gcOnce (now - defaultIdle) rl = Some rl'" and r: "table_inv rl' as'" "config rl' = config c"
      "view rl' as' = lru_collect (now - defaultIdle) L" by (auto simp: as(2))
    from r have "lru_rel c rl' (lru_collect (now - defaultIdle) L)" unfolding lru_rel_def by metis
    with g Tick show ?thesis by (simp add: run_limiter_op_def lru_step_def)
  next
    case (Serve t r)
    obtain d r1 where "Allow P t (resolveKey c r) rl = (d, r1)" by fastforce
    with Allow_lru [OF rel, of P t "resolveKey c r"] k Serve show ?thesis
      by (simp add: run_limiter_op_def lru_step_def Middleware_def reply_of_def)
  qed (use Allow_lru [OF rel] k in \<open>auto simp: run_limiter_op_def lru_step_def AllowRequest_def prod_eq_iff\<close>)
qed

lemma NewRateLimiter_rel:
  assumes "NewRateLimiter opts = Inr rl"
  shows "lru_rel rl rl []"
proof -
  from assms have "table_inv rl []"
    by (auto simp: NewRateLimiter_def table_inv_def on_list_def split: if_splits option.splits)
  moreover have "[] = view rl []" by simp
  ultimately show ?thesis unfolding lru_rel_def by blast
qed

text \<open>One entry per client, and never more than the table may hold.\<close>

definition lru_inv :: "'l clients \<Rightarrow> bool" where
  "lru_inv L \<longleftrightarrow> distinct (map fst L) \<and> length L \<le> defaultMaxEntries"

lemma max_entries_pos: "0 < defaultMaxEntries"
  by (simp add: defaultMaxEntries_def)

lemma lru_touch_inv:
  assumes "lru_inv L"
  shows "lru_inv (lru_touch new k now L)"
proof (cases "map_of L k")
  case None
  have "distinct (map fst (butlast L))" "k \<notin> fst ` set (butlast L)"
    using assms None by (auto simp: lru_inv_def map_of_eq_None_iff map_butlast distinct_butlast dest: in_set_butlastD)
  moreover from None have "k \<notin> fst ` set L" by (simp add: map_of_eq_None_iff)
  moreover have "lru_touch new k now L = (k, now, new) # (if defaultMaxEntries \<le> length L then butlast L else L)"
    by (simp add: lru_touch_def None)
  ultimately show ?thesis using assms max_entries_pos by (auto simp: lru_inv_def)
next
  case (Some v)
  then have "(k, v) \<in> set L" by (rule map_of_SomeD)
  then have "length (filter (\<lambda>e. fst e \<noteq> k) L) < length L" by (intro length_filter_less) auto
  moreover have "distinct (map fst (filter (\<lambda>e. fst e \<noteq> k) L))" using assms by (simp add: lru_inv_def distinct_map_filter)
  ultimately show ?thesis using assms Some by (auto simp: lru_inv_def lru_touch_def split: prod.splits)
qed

lemma lru_ask_keys:
  "map fst (snd (lru_ask P c t k L)) = map fst (lru_touch (NewLimiter P (rl_limit c) (rl_burst c)) k (rd_bucket t) L)"
  using lru_touch_Cons [of "NewLimiter P (rl_limit c) (rl_burst c)" k "rd_bucket t" L]
  by (auto simp: lru_ask_def split: prod.splits)

lemma lru_collect_inv: "lru_inv L \<Longrightarrow> lru_inv (lru_collect c L)"
proof -
  assume i: "lru_inv L"
  let ?P = "\<lambda>(k, s, l). s < c"
  have "rev L = takeWhile ?P (rev L) @ dropWhile ?P (rev L)" by simp
  then have L: "L = lru_collect c L @ rev (takeWhile ?P (rev L))"
    unfolding lru_collect_def by (metis rev_append rev_rev_ident)
  from i show ?thesis by (subst (asm) L) (auto simp: lru_inv_def)
qed

lemma lru_inv_keys: "lru_inv L \<longleftrightarrow> distinct (map fst L) \<and> length (map fst L) \<le> defaultMaxEntries"
  by (simp add: lru_inv_def)

lemma lru_ask_inv: "lru_inv L \<Longrightarrow> lru_inv (snd (lru_ask P c t k L))"
  using lru_touch_inv [of L "NewLimiter P (rl_limit c) (rl_burst c)" k "rd_bucket t"]
  unfolding lru_inv_keys lru_ask_keys by blast

lemma lru_step_inv: "lru_inv L \<Longrightarrow> lru_inv (snd (lru_step P c x L))"
  by (cases x) (simp_all add: lru_step_def lru_ask_inv lru_collect_inv)

lemma lru_outcome_inv: "lru_inv L \<Longrightarrow> lru_inv (outcome (lru_step P c) xs L)"
  by (induction xs arbitrary: L) (auto simp: lru_step_inv)

end
