(* ===== verification/Limiter_Clients.thy ===== *)
theory Limiter_Clients
  imports Limiter_Refine
begin

text \<open>
  What the table is for: every client has a token bucket of its own. The reference keeps, for
  each client, the requests it has made, and decides a request with the bucket these were fed
  to. The table agrees with it as long as no more clients ask than it may hold and a bucket that
  has been idle for the time after which it is dropped is full again.
\<close>

section \<open>The reference\<close>

definition fed :: "('l, 'r) rate_pkg \<Rightarrow> 'l rate_limiter \<Rightarrow> reads list \<Rightarrow> 'l" where
  "fed P c ts = fold (\<lambda>t l. snd (reserve_on P t l)) ts (NewLimiter P (rl_limit c) (rl_burst c))"

type_synonym requests = "(string \<Rightarrow> reads list) \<times> int"

definition own_ask :: "('l, 'r) rate_pkg \<Rightarrow> 'l rate_limiter \<Rightarrow> reads \<Rightarrow> string \<Rightarrow> requests \<Rightarrow> int option \<times> requests" where
  "own_ask P c t k = (\<lambda>(h, _).
     let delay = fst (reserve_on P t (fed P c (h k)))
     in (if 0 < delay then Some delay else None, h(k := h k @ [t]), rd_cancel t))"

definition own_step :: "('l, 'r) rate_pkg \<Rightarrow> 'l rate_limiter \<Rightarrow> limiter_op \<Rightarrow> requests \<Rightarrow> answer \<times> requests" where
  "own_step P c x h =
     (case x of
        Ask_key t k \<Rightarrow> apfst Answer (own_ask P c t k h)
      | Ask_request t r \<Rightarrow> apfst Answer (own_ask P c t (resolveKey c r) h)
      | Serve t r \<Rightarrow> apfst (\<lambda>d. Reply (reply_of d)) (own_ask P c t (resolveKey c r) h)
      | Tick now \<Rightarrow> (Collected, fst h, now))"

text \<open>The client an operation is for, and the readings of the clock it makes.\<close>

definition asked :: "'l rate_limiter \<Rightarrow> limiter_op \<Rightarrow> string option" where
  "asked c x = (case x of Ask_key t k \<Rightarrow> Some k | Ask_request t r \<Rightarrow> Some (resolveKey c r)
     | Serve t r \<Rightarrow> Some (resolveKey c r) | Tick now \<Rightarrow> None)"

definition readings :: "reads \<Rightarrow> int list" where
  "readings t = [rd_bucket t, rd_reserve t, rd_delay t, rd_cancel t]"

definition op_readings :: "limiter_op \<Rightarrow> int list" where
  "op_readings x = (case x of Ask_key t k \<Rightarrow> readings t | Ask_request t r \<Rightarrow> readings t
     | Serve t r \<Rightarrow> readings t | Tick now \<Rightarrow> [now])"

definition chronological :: "reads list \<Rightarrow> bool" where
  "chronological ts \<longleftrightarrow> sorted (concat (map readings ts))"

text \<open>
  A bucket left alone for \<open>D\<close> is as good as new. The package's token bucket is, once \<open>D\<close>
  is the time in which it fills.
\<close>

definition refills :: "('l, 'r) rate_pkg \<Rightarrow> 'l rate_limiter \<Rightarrow> int \<Rightarrow> bool" where
  "refills P c D \<longleftrightarrow> (\<forall>ts t. chronological (ts @ [t]) \<longrightarrow> ts \<noteq> [] \<longrightarrow> rd_cancel (last ts) + D \<le> rd_reserve t \<longrightarrow>
     reserve_on P t (fed P c ts) = reserve_on P t (fed P c []))"

text \<open>
  An operation admissible after the requests so far: the clock does not run backwards, handling
  a request takes at most \<open>d\<close>, and its client is among \<open>K\<close>.
\<close>

definition orderly :: "'l rate_limiter \<Rightarrow> int \<Rightarrow> string set \<Rightarrow> limiter_op \<Rightarrow> requests \<Rightarrow> bool" where
  "orderly c d K x = (\<lambda>(_, T). sorted (T # op_readings x) \<and> last (op_readings x) \<le> hd (op_readings x) + d \<and>
     (\<forall>k. asked c x = Some k \<longrightarrow> k \<in> K))"

section \<open>The list of clients agrees with the reference\<close>

definition client_ok :: "('l, 'r) rate_pkg \<Rightarrow> 'l rate_limiter \<Rightarrow> reads list \<Rightarrow> int \<times> 'l \<Rightarrow> bool" where
  "client_ok P c ts = (\<lambda>(s, l). ts \<noteq> [] \<and> l = fed P c ts \<and> s = rd_bucket (last ts))"

definition past_ok :: "int \<Rightarrow> int \<Rightarrow> string set \<Rightarrow> string \<Rightarrow> reads list \<Rightarrow> bool" where
  "past_ok d T K k ts \<longleftrightarrow> chronological ts \<and> (\<forall>x \<in> set (concat (map readings ts)). x \<le> T) \<and>
     (ts \<noteq> [] \<longrightarrow> k \<in> K \<and> rd_cancel (last ts) \<le> rd_bucket (last ts) + d)"

definition own_rel :: "('l, 'r) rate_pkg \<Rightarrow> 'l rate_limiter \<Rightarrow> int \<Rightarrow> string set \<Rightarrow> 'l clients \<Rightarrow> requests \<Rightarrow> bool" where
  "own_rel P c d K L = (\<lambda>(h, T). distinct (map fst L) \<and> (\<forall>(k, v) \<in> set L. client_ok P c (h k) v) \<and>
     (\<forall>k. past_ok d T K k (h k)) \<and>
     (\<forall>k. h k \<noteq> [] \<longrightarrow> k \<notin> fst ` set L \<longrightarrow> rd_cancel (last (h k)) + (defaultIdle - d) \<le> T))"

lemma fed_snoc: "fed P c (ts @ [t]) = snd (reserve_on P t (fed P c ts))"
  by (simp add: fed_def)

lemma past_ok_later: "past_ok d T K k ts \<Longrightarrow> T \<le> T' \<Longrightarrow> past_ok d T' K k ts"
  by (force simp: past_ok_def)

lemma past_ok_snoc:
  assumes "past_ok d T K k ts" and "sorted (T # readings t)" and "rd_cancel t \<le> rd_bucket t + d" and "k \<in> K"
  shows "past_ok d (rd_cancel t) K k (ts @ [t])" "chronological (ts @ [t])"
proof -
  from assms(2) have T: "T \<le> rd_bucket t" "\<forall>x \<in> set (readings t). T \<le> x \<and> x \<le> rd_cancel t" "sorted (readings t)" "T \<le> rd_cancel t"
    by (auto simp: readings_def)
  from assms(1) have "sorted (concat (map readings ts))" "\<forall>x \<in> set (concat (map readings ts)). x \<le> T"
    by (auto simp: past_ok_def chronological_def)
  with T show c: "chronological (ts @ [t])" by (fastforce simp: chronological_def sorted_append)
  from assms(1) T(2,4) have "\<forall>x \<in> set (concat (map readings (ts @ [t]))). x \<le> rd_cancel t"
    by (fastforce simp: past_ok_def)
  with c assms(3,4) show "past_ok d (rd_cancel t) K k (ts @ [t])" by (simp add: past_ok_def)
qed

text \<open>No client is evicted: there is room for all of them.\<close>

lemma room:
  assumes "own_rel P c d K L (h, T)" and "finite K" and "card K \<le> defaultMaxEntries" and "k \<in> K" and "k \<notin> fst ` set L"
  shows "length L < defaultMaxEntries"
proof -
  have "x \<in> K" if "x \<in> fst ` set L" for x
  proof -
    from that obtain v where "(x, v) \<in> set L" by force
    with assms(1) have "h x \<noteq> []" "past_ok d T K x (h x)" by (auto simp: own_rel_def client_ok_def)
    then show ?thesis by (simp add: past_ok_def)
  qed
  with assms(4,5) have "fst ` set L \<subset> K" by blast
  with assms(2) have "card (fst ` set L) < card K" by (simp add: psubset_card_mono)
  moreover have "card (fst ` set L) = length L"
    using assms(1) distinct_card [of "map fst L"] by (simp add: own_rel_def)
  ultimately show ?thesis using assms(3) by simp
qed
lemma own_rel_ask:
  assumes rel: "own_rel P c d K L (h, T)" and K: "finite K" "card K \<le> defaultMaxEntries" "k \<in> K"
    and t: "sorted (T # readings t)" "rd_cancel t \<le> rd_bucket t + d" and full: "refills P c (defaultIdle - d)"
  shows "fst (lru_ask P c t k L) = fst (own_ask P c t k (h, T))"
    "own_rel P c d K (snd (lru_ask P c t k L)) (snd (own_ask P c t k (h, T)))"
proof -
  let ?new = "NewLimiter P (rl_limit c) (rl_burst c)"
  let ?r = "reserve_on P t (fed P c (h k))"
  from rel have past: "past_ok d T K x (h x)" for x by (simp add: own_rel_def)
  note chr = past_ok_snoc [OF past t K(3)]
  define rest where "rest = filter (\<lambda>e. fst e \<noteq> k) L"
  have touch: "\<exists>l. lru_touch ?new k (rd_bucket t) L = (k, rd_bucket t, l) # rest \<and> reserve_on P t l = ?r"
  proof (cases "map_of L k")
    case None
    then have out: "k \<notin> fst ` set L" by (simp add: map_of_eq_None_iff)
    then have "rest = L" unfolding rest_def by (force simp: filter_id_conv)
    moreover have "length L < defaultMaxEntries" by (rule room [OF rel K out])
    moreover have "reserve_on P t ?new = ?r"
    proof (cases "h k = []")
      case False
      with rel out have "rd_cancel (last (h k)) + (defaultIdle - d) \<le> T" by (simp add: own_rel_def)
      also from t(1) have "T \<le> rd_reserve t" by (simp add: readings_def)
      finally show ?thesis using full chr(2) False by (simp add: refills_def fed_def)
    qed (simp add: fed_def)
    ultimately show ?thesis using None by (simp add: lru_touch_def)
  next
    case (Some v)
    from rel map_of_SomeD [OF Some] have "snd v = fed P c (h k)" by (auto simp: own_rel_def client_ok_def)
    with Some show ?thesis by (cases v) (simp add: lru_touch_def rest_def)
  qed
  then obtain l where l: "lru_touch ?new k (rd_bucket t) L = (k, rd_bucket t, l) # rest" "reserve_on P t l = ?r" by blast
  then have ask: "lru_ask P c t k L = (if 0 < fst ?r then Some (fst ?r) else None, (k, rd_bucket t, snd ?r) # rest)"
    by (simp add: lru_ask_def split: prod.splits)
  then show "fst (lru_ask P c t k L) = fst (own_ask P c t k (h, T))" by (simp add: own_ask_def Let_def)
  have T: "T \<le> rd_cancel t" using t(1) by (simp add: readings_def)
  have "distinct (map fst ((k, rd_bucket t, snd ?r) # rest))"
    using rel by (auto simp: own_rel_def rest_def distinct_map_filter)
  moreover have "\<forall>(x, v) \<in> set ((k, rd_bucket t, snd ?r) # rest). client_ok P c ((h(k := h k @ [t])) x) v"
    using rel by (auto simp: own_rel_def rest_def client_ok_def fed_snoc)
  moreover have "past_ok d (rd_cancel t) K x ((h(k := h k @ [t])) x)" for x
    using chr(1) past_ok_later [OF past T] by simp
  moreover have "rd_cancel (last ((h(k := h k @ [t])) x)) + (defaultIdle - d) \<le> rd_cancel t"
    if "(h(k := h k @ [t])) x \<noteq> []" "x \<notin> fst ` set ((k, rd_bucket t, snd ?r) # rest)" for x
  proof -
    from that have "x \<noteq> k" "h x \<noteq> []" by auto
    moreover from that(2) \<open>x \<noteq> k\<close> have "x \<notin> fst ` set L" by (force simp: rest_def)
    ultimately have "rd_cancel (last (h x)) + (defaultIdle - d) \<le> T" using rel by (simp add: own_rel_def)
    with T \<open>x \<noteq> k\<close> show ?thesis by simp
  qed
  ultimately show "own_rel P c d K (snd (lru_ask P c t k L)) (snd (own_ask P c t k (h, T)))"
    unfolding ask own_ask_def own_rel_def by (simp add: Let_def)
qed

lemma own_rel_collect:
  assumes rel: "own_rel P c d K L (h, T)" and T: "T \<le> now"
  shows "own_rel P c d K (lru_collect (now - defaultIdle) L) (h, now)"
proof -
  let ?P = "\<lambda>(k, s, l). s < now - defaultIdle" and ?L = "lru_collect (now - defaultIdle) L"
  have "rev L = takeWhile ?P (rev L) @ dropWhile ?P (rev L)" by simp
  then have L: "L = ?L @ rev (takeWhile ?P (rev L))"
    unfolding lru_collect_def by (metis rev_append rev_rev_ident)
  have gone: "s < now - defaultIdle" if "(k, s, l) \<in> set (rev (takeWhile ?P (rev L)))" for k s l
    using that by (auto dest: set_takeWhileD)
  have sub: "set ?L \<subseteq> set L" by (subst (2) L) simp
  have "distinct (map fst ?L)" using rel by (subst (asm) L) (simp add: own_rel_def)
  moreover have "\<forall>(k, v) \<in> set ?L. client_ok P c (h k) v" using rel sub by (auto simp: own_rel_def)
  moreover have "past_ok d now K k (h k)" for k using rel T by (auto simp: own_rel_def intro: past_ok_later)
  moreover have "rd_cancel (last (h k)) + (defaultIdle - d) \<le> now" if k: "h k \<noteq> []" "k \<notin> fst ` set ?L" for k
  proof (cases "k \<in> fst ` set L")
    case True
    then obtain s l where "(k, s, l) \<in> set L" by force
    moreover from this k(2) have "(k, s, l) \<in> set (rev (takeWhile ?P (rev L)))" by (subst (asm) L) force
    ultimately have "s < now - defaultIdle" "s = rd_bucket (last (h k))" using gone rel by (auto simp: own_rel_def client_ok_def)
    moreover from rel k(1) have "rd_cancel (last (h k)) \<le> rd_bucket (last (h k)) + d" by (simp add: own_rel_def past_ok_def)
    ultimately show ?thesis by simp
  next
    case False
    with rel k(1) have "rd_cancel (last (h k)) + (defaultIdle - d) \<le> T" by (simp add: own_rel_def)
    with T show ?thesis by simp
  qed
  ultimately show ?thesis by (simp add: own_rel_def)
qed

text \<open>
  The list of clients is the concrete system here; the side conditions of the reference are
  part of the relation, since they concern the parameters only.
\<close>

definition roomy :: "('l, 'r) rate_pkg \<Rightarrow> 'l rate_limiter \<Rightarrow> int \<Rightarrow> string set \<Rightarrow> bool" where
  "roomy P c d K \<longleftrightarrow> finite K \<and> card K \<le> defaultMaxEntries \<and> refills P c (defaultIdle - d)"

interpretation clients: simulation "\<lambda>L s. roomy P c d K \<and> own_rel P c d K L s" "\<lambda>x L. Some (lru_step P c x L)"
    "own_step P c" "orderly c d K"
  for P :: "('l, 'r) rate_pkg" and c :: "'l rate_limiter" and d :: int and K :: "string set"
proof
  fix L :: "'l clients" and s :: requests and x :: limiter_op
  assume rel: "roomy P c d K \<and> own_rel P c d K L s" and ok: "orderly c d K x s"
  obtain h T where s: "s = (h, T)" by fastforce
  from rel have K: "finite K" "card K \<le> defaultMaxEntries" "refills P c (defaultIdle - d)" by (simp_all add: roomy_def)
  from rel s have r: "own_rel P c d K L (h, T)" by simp
  have ask: "fst (lru_ask P c t k L) = fst (own_ask P c t k (h, T))"
      "own_rel P c d K (snd (lru_ask P c t k L)) (snd (own_ask P c t k (h, T)))"
    if "k \<in> K" "sorted (T # readings t)" "rd_cancel t \<le> rd_bucket t + d" for t k
    using own_rel_ask [OF r K(1,2) that K(3)] by blast+
  show "\<exists>t. Some (lru_step P c x L) = Some (fst (own_step P c x s), t) \<and> roomy P c d K \<and> own_rel P c d K t (snd (own_step P c x s))"
    using rel ok ask own_rel_collect [OF r]
    by (cases x) (auto simp: s lru_step_def own_step_def orderly_def op_readings_def asked_def readings_def prod_eq_iff)
qed

lemma clients_start: "own_rel P c d K [] (\<lambda>_. [], T)"
  by (simp add: own_rel_def past_ok_def chronological_def)

lemma run_lru: "run_history (\<lambda>x L. Some (lru_step P c x L)) xs L = Some (answers (lru_step P c) xs L, outcome (lru_step P c) xs L)"
  by (induction xs arbitrary: L) (auto split: prod.splits)

lemma lru_is_own:
  assumes "roomy P c d K" and "admissible (orderly c d K) (own_step P c) xs (\<lambda>_. [], T)"
  shows "answers (lru_step P c) xs [] = answers (own_step P c) xs (\<lambda>_. [], T)"
  using clients.same_answers [of P c d K "[]" "(\<lambda>_. [], T)" xs] assms clients_start [of P c d K T]
  by (auto simp: run_lru)

end
