(* ===== verification/Address_Keys.thy ===== *)
theory Address_Keys
  imports Rate_Limiter
begin

text \<open>
  Which addresses share a bucket: the text \<open>normalizeIP\<close> makes of an address determines the
  IPv4 address, or the first 64 bits of an IPv6 address, and nothing more.
\<close>

section \<open>Numbers as text\<close>

lemma digit_facts:
  "n < 16 \<Longrightarrow> hex_value (digit_char n) = n \<and> digit_char n \<noteq> CHR '':'' \<and> digit_char n \<noteq> CHR ''.'' \<and> digit_char n \<noteq> CHR ''/''"
proof -
  assume n: "n < 16"
  have code: "(of_char (digit_char n) :: nat) = (if n < 10 then n + 48 else n + 87)" using n by (simp add: digit_char_def)
  have "digit_char n \<noteq> c" if "(of_char c :: nat) \<in> {46, 47, 58}" for c using code that n by (auto split: if_splits)
  then show ?thesis using n code by (auto simp: hex_value_def Let_def)
qed

lemma radix_parts:
  assumes b: "2 \<le> b" "b \<le> 16"
  shows "number_of b (radix_string b n) = n \<and> radix_string b n \<noteq> [] \<and>
    set (radix_string b n) \<inter> {CHR '':'', CHR ''.'', CHR ''/''} = {}"
proof (induction n rule: less_induct)
  case (less n)
  show ?case
  proof (cases "n < b")
    case True
    with b digit_facts [of n] show ?thesis by (auto simp: radix_string.simps [of b n] number_of_def)
  next
    case False
    have "n mod b < 16" using b by (intro less_le_trans [OF mod_less_divisor]) auto
    note d = digit_facts [OF this]
    from False b have "n div b < n" by (intro div_less_dividend) auto
    from less [OF this] d False b show ?thesis
      by (auto simp: radix_string.simps [of b n] number_of_def)
  qed
qed

lemma radix_inj: "2 \<le> b \<Longrightarrow> b \<le> 16 \<Longrightarrow> radix_string b m = radix_string b n \<longleftrightarrow> m = n"
  using radix_parts by metis

lemma radix_free: "2 \<le> b \<Longrightarrow> b \<le> 16 \<Longrightarrow> c \<in> {CHR '':'', CHR ''.'', CHR ''/''} \<Longrightarrow> c \<notin> set (radix_string b n)"
  using radix_parts by blast

text \<open>Numbers joined by a separator are told apart.\<close>

lemma join_radix:
  assumes "2 \<le> b" "b \<le> 16" "c \<in> {CHR '':'', CHR ''.'', CHR ''/''}"
  shows "join_with [c] (map (radix_string b) xs) = join_with [c] (map (radix_string b) ys) \<longleftrightarrow> xs = ys"
proof
  have split: "split_on c (join_with [c] (map (radix_string b) zs)) = map (radix_string b) zs" if "zs \<noteq> []" for zs
    using radix_free [OF assms] that by (intro split_on_join) auto
  have empty: "join_with [c] (map (radix_string b) zs) = [] \<longleftrightarrow> zs = []" for zs
    using radix_parts [OF assms(1,2)] by (cases zs rule: remdups_adj.cases) auto
  assume eq: "join_with [c] (map (radix_string b) xs) = join_with [c] (map (radix_string b) ys)"
  then have "xs = [] \<longleftrightarrow> ys = []" using empty by metis
  moreover have "xs = ys" if "xs \<noteq> []" "ys \<noteq> []"
  proof -
    have "inj (radix_string b)" using radix_inj [OF assms(1,2)] by (simp add: inj_def)
    moreover have "map (radix_string b) xs = map (radix_string b) ys"
      using split [OF that(1)] split [OF that(2)] unfolding eq by (rule trans [OF sym])
    ultimately show ?thesis by (rule inj_map_eq_map [THEN iffD1])
  qed
  ultimately show "xs = ys" by blast
qed simp

lemma set_join_with: "set (join_with sep xs) \<subseteq> set sep \<union> (\<Union>x \<in> set xs. set x)"
  by (induction sep xs rule: join_with.induct) auto

lemma join_radix_free:
  "2 \<le> b \<Longrightarrow> b \<le> 16 \<Longrightarrow> c \<in> {CHR '':'', CHR ''.'', CHR ''/''} \<Longrightarrow> c \<notin> set sep \<Longrightarrow>
     c \<notin> set (join_with sep (map (radix_string b) xs))"
  using radix_free [of b c] set_join_with [of sep "map (radix_string b) xs"] by auto

section \<open>Networks of 64 bits\<close>

lemma mask64: "CIDRMask 64 16 = replicate 8 255 @ replicate 8 0"
  by code_simp

lemma mask_ones: "length xs = n \<Longrightarrow> mask_with (replicate n 255) xs = xs"
proof (induction xs arbitrary: n)
  case (Cons x xs)
  have "(255 :: 8 word) = - 1" by simp
  then have "x AND 255 = x" for x :: "8 word" by (simp only: and.right_neutral)
  with Cons show ?case by (cases n) (auto simp: mask_with_def)
qed (simp add: mask_with_def)

lemma mask_append: "length m = length xs \<Longrightarrow> mask_with (m @ m') (xs @ ys) = mask_with m xs @ mask_with m' ys"
  by (simp add: mask_with_def)

lemma mask_zeros: "length ys = n \<Longrightarrow> mask_with (replicate n 0) ys = replicate n 0"
  by (induction ys arbitrary: n) (auto simp: mask_with_def length_Suc_conv)

lemma mask_network:
  assumes "length a = 16"
  shows "mask_with (CIDRMask 64 16) a = take 8 a @ replicate 8 0"
proof -
  from assms have "mask_with (replicate 8 255 @ replicate 8 0) (take 8 a @ drop 8 a) = take 8 a @ replicate 8 0"
    by (subst mask_append) (simp_all add: mask_ones mask_zeros)
  then show ?thesis by (simp add: mask64)
qed

lemma groups_append: "even (length xs) \<Longrightarrow> groups (xs @ ys) = groups xs @ groups ys"
  by (induction xs rule: groups.induct) auto

lemma byte_pair: "b < 256 \<Longrightarrow> d < 256 \<Longrightarrow> a * 256 + b = c * 256 + d \<Longrightarrow> a = c \<and> b = (d :: nat)"
proof -
  assume bd: "b < 256" "d < 256" and eq: "a * 256 + b = c * 256 + d"
  from bd have "(a * 256 + b) div 256 = a" "(c * 256 + d) div 256 = c" by simp_all
  with eq show ?thesis by simp
qed

lemma groups_inj:
  "length xs = length ys \<Longrightarrow> even (length xs) \<Longrightarrow> groups xs = groups ys \<Longrightarrow> xs = ys"
proof (induction xs arbitrary: ys rule: groups.induct)
  case (1 a b bs)
  then obtain c d ds where ys: "ys = c # d # ds" by (cases ys rule: groups.cases) auto
  have "unat x < 256" for x :: "8 word" using unsigned_less [of x] by simp
  moreover from 1(4) ys have "unat a * 256 + unat b = unat c * 256 + unat d" by simp
  ultimately have "unat a = unat c \<and> unat b = unat d" by (intro byte_pair)
  then have "a = c" "b = d" by (simp_all add: word_unat_eq_iff)
  with 1 ys show ?case by auto
qed (auto simp: length_Suc_conv)

text \<open>With the last four groups zero, the run written \<open>::\<close> is the one at the end.\<close>

definition network_part :: "nat list \<Rightarrow> nat list" where
  "network_part gs = rev (dropWhile (\<lambda>g. g = 0) (rev gs))"

lemma four: "length gs = 4 \<Longrightarrow> \<exists>a b c d. gs = [a, b, c, d]"
  by (auto simp: numeral_eq_Suc length_Suc_conv)

lemma v6_network:
  assumes "length gs = 4"
  shows "v6_String (gs @ [0, 0, 0, 0]) = hex_groups (network_part gs) @ ''::''"
proof -
  from four [OF assms] obtain a b c d where gs: "gs = [a, b, c, d]" by blast
  have upt: "[0..<8] = [0, 1, 2, 3, 4, 5, 6, 7]" by (simp add: upt_rec)
  show ?thesis
    by (cases "a = 0"; cases "b = 0"; cases "c = 0"; cases "d = 0")
      (simp_all add: gs v6_String_def longest_run_def zero_run_def network_part_def upt Let_def hex_groups_def)
qed

lemma network_part_inj:
  assumes "length xs = length ys" "network_part xs = network_part ys"
  shows "xs = ys"
proof -
  have "zs = network_part zs @ replicate (length zs - length (network_part zs)) 0" for zs
  proof -
    have z: "zs = network_part zs @ rev (takeWhile (\<lambda>g. g = 0) (rev zs))"
      unfolding network_part_def by (metis rev_append rev_rev_ident takeWhile_dropWhile_id)
    have "\<forall>x \<in> set (rev (takeWhile (\<lambda>g. g = 0) (rev zs))). x = 0" by (auto dest: set_takeWhileD)
    then have "rev (takeWhile (\<lambda>g. g = 0) (rev zs)) = replicate (length (rev (takeWhile (\<lambda>g. g = 0) (rev zs)))) 0"
      by (metis replicate_length_same)
    moreover have "length (rev (takeWhile (\<lambda>g. g = 0) (rev zs))) = length zs - length (network_part zs)"
      using arg_cong [OF z, of length] by simp
    ultimately show ?thesis using z by simp
  qed
  then show ?thesis using assms by metis
qed

lemma hex_network: "hex_groups xs @ ''::'' = hex_groups ys @ ''::'' \<longleftrightarrow> xs = ys"
  by (simp add: hex_groups_def join_radix)

lemma normalize_v6:
  assumes "length a = 16" "To4 a = None"
  shows "normalizeIP (Some a) = hex_groups (network_part (groups (take 8 a))) @ ''::/64''"
proof -
  have m: "mask_with (CIDRMask 64 16) a = take 8 a @ replicate 8 0" by (rule mask_network [OF assms(1)])
  have "take 12 (take 8 a @ replicate 8 (0 :: 8 word)) ! 10 \<noteq> v4_in_v6 ! 10"
    using assms(1) by (simp add: v4_in_v6_def nth_append)
  then have "To4 (take 8 a @ replicate 8 0) = None" using assms(1) by (auto simp: To4_def)
  moreover have "groups (take 8 a @ replicate 8 0) = groups (take 8 a) @ [0, 0, 0, 0]"
    using assms(1) by (simp add: groups_append) (simp add: numeral_eq_Suc)
  moreover have "length (groups (take 8 a)) = 4"
  proof -
    have "length (groups xs) = length xs div 2" for xs by (induction xs rule: groups.induct) auto
    with assms(1) show ?thesis by simp
  qed
  ultimately show ?thesis using assms(2) v6_network by (simp add: normalizeIP_def m ip_String_def)
qed

lemma normalize_v4: "To4 a = Some v \<Longrightarrow> normalizeIP (Some a) = v4_String v"
  by (simp add: normalizeIP_def)

lemma v4_String_eq: "v4_String v = v4_String w \<longleftrightarrow> v = w"
proof -
  have u: "v4_String u = join_with ''.'' (map (radix_string 10) (map unat u))" for u by (simp add: v4_String_def comp_def)
  have "v4_String v = v4_String w \<longleftrightarrow> map unat v = map unat w" unfolding u by (rule join_radix) auto
  moreover have "inj (unat :: 8 word \<Rightarrow> nat)" by (simp add: inj_def word_unat_eq_iff)
  ultimately show ?thesis using inj_map_eq_map by metis
qed

lemma v4_String_no_slash: "CHR ''/'' \<notin> set (v4_String v)"
  using join_radix_free [of 10 "CHR ''/''" "''.''" "map unat v"] by (simp add: v4_String_def comp_def)

lemma normalizeIP_eq:
  assumes "length a = 16" "length b = 16"
  shows "normalizeIP (Some a) = normalizeIP (Some b) \<longleftrightarrow>
    (case (To4 a, To4 b) of (Some v, Some w) \<Rightarrow> v = w | (None, None) \<Rightarrow> take 8 a = take 8 b | _ \<Rightarrow> False)"
proof -
  have slash: "CHR ''/'' \<in> set (s @ ''::/64'')" for s by simp
  have v6: "normalizeIP (Some a) = normalizeIP (Some b) \<longleftrightarrow> take 8 a = take 8 b" if "To4 a = None" "To4 b = None"
  proof -
    have "normalizeIP (Some a) = normalizeIP (Some b) \<longleftrightarrow> network_part (groups (take 8 a)) = network_part (groups (take 8 b))"
      unfolding normalize_v6 [OF assms(1) that(1)] normalize_v6 [OF assms(2) that(2)] hex_network [symmetric] by simp
    moreover have "length (groups (take 8 a)) = length (groups (take 8 b))"
    proof -
      have "length (groups xs) = length xs div 2" for xs by (induction xs rule: groups.induct) auto
      with assms show ?thesis by simp
    qed
    ultimately show ?thesis using network_part_inj groups_inj [of "take 8 a" "take 8 b"] assms by auto
  qed
  show ?thesis
  proof (cases "To4 a"; cases "To4 b")
    fix w assume "To4 a = None" "To4 b = Some w"
    with normalize_v6 [OF assms(1)] normalize_v4 [of b w] v4_String_no_slash [of w] slash
    have "normalizeIP (Some a) \<noteq> normalizeIP (Some b)" by metis
    with \<open>To4 a = None\<close> \<open>To4 b = Some w\<close> show ?thesis by simp
  next
    fix v assume "To4 a = Some v" "To4 b = None"
    with normalize_v6 [OF assms(2)] normalize_v4 [of a v] v4_String_no_slash [of v] slash
    have "normalizeIP (Some a) \<noteq> normalizeIP (Some b)" by metis
    with \<open>To4 a = Some v\<close> \<open>To4 b = None\<close> show ?thesis by simp
  qed (use v6 normalize_v4 v4_String_eq in auto)
qed

end
