(* ===== verification/Route_Match.thy ===== *)
theory Route_Match
  imports Http
begin

text \<open>
  \<open>internal/platform/security/routematch.go\<close>: the routes that are open to requests without
  an origin or a token. A route with \<open>*\<close> is compiled to the regular expression that has its
  parts literally and \<open>.*\<close> between them, anchored at both ends; the model keeps the parts and
  matches as that expression does (\<open>.\<close> is any character but a newline).
\<close>

record route_matcher =
  rm_exact :: "string list"
  rm_patterns :: "string list list"

datatype route_error = NoLeadingSlash | TooBroad | NotAtBoundary

fun glob :: "string list \<Rightarrow> string \<Rightarrow> bool" where
  "glob [] s = (s = [])"
| "glob [p] s = (s = p)"
| "glob (p # q # ps) s =
     (has_prefix p s \<and>
      (let r = drop (length p) s
       in list_ex (\<lambda>n. glob (q # ps) (drop n r)) [0..<Suc (length (takeWhile (\<lambda>c. c \<noteq> CHR 0x0A) r))]))"

definition add_route :: "string \<Rightarrow> route_matcher \<Rightarrow> route_error + route_matcher" where
  "add_route route m =
     (if \<not> has_prefix ''/'' route then Inl NoLeadingSlash
      else
        let parts = split_on CHR ''*'' route
        in if length parts = 1 then Inr (m\<lparr>rm_exact := path_Clean route # rm_exact m\<rparr>)
           else if hd parts = ''/'' then Inl TooBroad
           else if \<not> list_all (has_suffix ''/'') (butlast parts) then Inl NotAtBoundary
           else Inr (m\<lparr>rm_patterns := rm_patterns m @ [parts]\<rparr>))"

fun add_routes :: "string list \<Rightarrow> route_matcher \<Rightarrow> route_error + route_matcher" where
  "add_routes [] m = Inr m"
| "add_routes (route # routes) m =
     (case add_route route m of Inl e \<Rightarrow> Inl e | Inr m' \<Rightarrow> add_routes routes m')"

definition NewRouteMatcher :: "string list \<Rightarrow> route_error + route_matcher" where
  "NewRouteMatcher routes = add_routes routes \<lparr>rm_exact = [], rm_patterns = []\<rparr>"

definition route_Matches :: "route_matcher \<Rightarrow> string \<Rightarrow> bool" where
  "route_Matches m requestPath =
     (let clean = path_Clean requestPath
      in clean \<in> set (rm_exact m) \<or> list_ex (\<lambda>parts. glob parts clean) (rm_patterns m))"

definition Allows :: "route_matcher option \<Rightarrow> request \<Rightarrow> bool" where
  "Allows m r = (case m of None \<Rightarrow> False | Some m \<Rightarrow> route_Matches m (rq_Path r))"

section \<open>Cleaned paths\<close>

text \<open>The elements kept of a rooted path: plain names, never empty, \<open>.\<close> or \<open>..\<close>.\<close>

definition plain :: "string \<Rightarrow> bool" where
  "plain e \<longleftrightarrow> e \<noteq> '''' \<and> e \<noteq> ''.'' \<and> e \<noteq> ''..'' \<and> CHR ''/'' \<notin> set e"

lemma clean_step_plain:
  "\<forall>x \<in> set es. plain x \<Longrightarrow> CHR ''/'' \<notin> set e \<Longrightarrow> \<forall>x \<in> set (clean_step True e es). plain x"
proof -
  assume *: "\<forall>x \<in> set es. plain x" "CHR ''/'' \<notin> set e"
  have "plain e" if "e \<noteq> ''''" "e \<noteq> ''.''" "e \<noteq> ''..''" using that *(2) by (simp add: plain_def)
  with *(1) show ?thesis by (cases es) auto
qed

lemma clean_fold_plain:
  "\<forall>x \<in> set es. plain x \<Longrightarrow> \<forall>e \<in> set parts. CHR ''/'' \<notin> set e \<Longrightarrow>
     \<forall>x \<in> set (fold (clean_step True) parts es). plain x"
proof (induction parts arbitrary: es)
  case (Cons e parts)
  have "\<forall>x \<in> set (clean_step True e es). plain x" using Cons.prems by (intro clean_step_plain) auto
  from Cons.IH [OF this] Cons.prems(2) show ?case by simp
qed simp

lemma path_Clean_rooted:
  assumes "has_prefix ''/'' p"
  obtains es where "path_Clean p = ''/'' @ join_with ''/'' es" "\<forall>e \<in> set es. plain e"
proof
  let ?es = "rev (fold (clean_step True) (split_on CHR ''/'' p) [])"
  show "path_Clean p = ''/'' @ join_with ''/'' ?es" using assms by (simp add: path_Clean_def Let_def)
  show "\<forall>e \<in> set ?es. plain e"
    using clean_fold_plain [of "[]" "split_on CHR ''/'' p"] by (auto dest: split_on_parts)
qed

lemma clean_elements:
  assumes "has_prefix ''/'' p"
  shows "\<forall>e \<in> set (tl (split_on CHR ''/'' (path_Clean p))). plain e \<or> path_Clean p = ''/''"
proof -
  from path_Clean_rooted [OF assms] obtain es where es: "path_Clean p = ''/'' @ join_with ''/'' es" "\<forall>e \<in> set es. plain e" .
  show ?thesis
  proof (cases "es = []")
    case False
    with es(2) have "split_on CHR ''/'' (join_with ''/'' es) = es" by (intro split_on_join) (auto simp: plain_def)
    with es show ?thesis by simp
  qed (use es in simp)
qed

section \<open>Which routes a matcher was built from\<close>

lemma glob_prefix: "glob (p # q # ps) s \<Longrightarrow> has_prefix p s"
  by simp

lemma split_on_star:
  assumes "length (split_on c s) \<noteq> 1"
  obtains t where "s = hd (split_on c s) @ c # t"
proof -
  have "c \<in> set s" using assms split_on_single by fastforce
  then obtain u t where s: "s = u @ c # t" "c \<notin> set u" by (meson split_list_first)
  have "hd (split_on c s) = u" unfolding s(1) using s(2) by simp
  have "s = hd (split_on c s) @ c # t" unfolding \<open>hd (split_on c s) = u\<close> by (rule s(1))
  then show ?thesis by (rule that)
qed

definition built_from :: "string list \<Rightarrow> route_matcher \<Rightarrow> bool" where
  "built_from routes m \<longleftrightarrow>
     (\<forall>e \<in> set (rm_exact m). \<exists>r \<in> set routes. CHR ''*'' \<notin> set r \<and> has_prefix ''/'' r \<and> e = path_Clean r) \<and>
     (\<forall>parts \<in> set (rm_patterns m). \<exists>r \<in> set routes. \<exists>dir rest. r = dir @ CHR ''*'' # rest \<and> hd parts = dir \<and> 2 \<le> length parts \<and>
        has_prefix ''/'' dir \<and> has_suffix ''/'' dir \<and> dir \<noteq> ''/'')"

lemma built_from_mono: "built_from routes m \<Longrightarrow> set routes \<subseteq> set routes' \<Longrightarrow> built_from routes' m"
  unfolding built_from_def by blast

lemma add_route_built:
  assumes "built_from routes m" and "add_route r m = Inr m'"
  shows "built_from (r # routes) m'"
proof -
  let ?parts = "split_on CHR ''*'' r"
  from assms(1) have m: "built_from (r # routes) m" by (rule built_from_mono) auto
  show ?thesis
  proof (cases "length ?parts = 1")
    case True
    then have "?parts = [r]" using join_with_split [of "CHR ''*''" r] by (cases ?parts) auto
    then have "CHR ''*'' \<notin> set r" using split_on_parts [of r "CHR ''*''" r] by simp
    with True assms(2) m show ?thesis by (auto simp: add_route_def built_from_def split: if_splits)
  next
    case False
    then obtain t where t: "r = hd ?parts @ CHR ''*'' # t" by (rule split_on_star)
    from assms(2) False have g: "has_prefix ''/'' r" "hd ?parts \<noteq> ''/''" "list_all (has_suffix ''/'') (butlast ?parts)"
      "m' = m\<lparr>rm_patterns := rm_patterns m @ [?parts]\<rparr>"
      by (auto simp: add_route_def Let_def split: if_splits)
    from False have l: "2 \<le> length ?parts" using split_on_Nil [of "CHR ''*''" r] by (cases ?parts rule: list.exhaust) (auto simp: Suc_le_eq)
    then have "hd ?parts \<in> set (butlast ?parts)" by (cases ?parts) (auto split: if_splits)
    with g(3) have suffix: "has_suffix ''/'' (hd ?parts)" by (simp add: list_all_iff)
    then have "hd ?parts \<noteq> []" by (auto simp: has_suffix_iff)
    with g(1) t have "has_prefix ''/'' (hd ?parts)" by (metis has_prefix_iff append_Cons append_Nil list.exhaust list.inject)
    with t g suffix l m show ?thesis by (auto simp: built_from_def)
  qed
qed

lemma add_routes_built: "built_from rs m \<Longrightarrow> add_routes routes m = Inr m' \<Longrightarrow> built_from (rev routes @ rs) m'"
proof (induction routes arbitrary: rs m)
  case (Cons r routes)
  then obtain m1 where m1: "add_route r m = Inr m1" "add_routes routes m1 = Inr m'" by (auto split: sum.splits)
  from Cons.IH [OF add_route_built [OF Cons.prems(1) m1(1)] m1(2)] show ?case by simp
qed simp

lemma NewRouteMatcher_built: "NewRouteMatcher routes = Inr m \<Longrightarrow> built_from routes m"
  unfolding NewRouteMatcher_def
  by (drule add_routes_built [rotated, where rs = "[]"]) (auto simp: built_from_def)

end
