(* ===== verification/Csrf.thy ===== *)
theory Csrf
  imports Route_Match
begin

text \<open>
  \<open>internal/platform/security/origin.go\<close> and \<open>csrf.go\<close>: the two middlewares a request passes
  before the application sees it, in the order \<open>server/server.go\<close> installs them.

  The keyed hash, the media type and form decoders and the URL parser of the standard library
  are the parameter \<open>web\<close>: nothing is assumed of them, so what is proved holds whatever they
  return.
\<close>

record web =
  hmac_sha256 :: "string \<Rightarrow> string \<Rightarrow> string"
  ParseMediaType :: "string \<Rightarrow> string \<times> bool"
  ParseQuery :: "string \<Rightarrow> (string \<times> string) list option"
  url_Parse :: "string \<Rightarrow> (string \<times> string) option"

datatype 'a outcome = Handled 'a | Refused nat

definition isSafeMethod :: "string \<Rightarrow> bool" where
  "isSafeMethod m \<longleftrightarrow> m \<in> set [''GET'', ''HEAD'', ''OPTIONS'']"

section \<open>origin.go\<close>

record origin_options =
  oo_OpenRoutes :: "route_matcher option"
  oo_TrustedOrigins :: "string list"

definition trusted_origins :: "origin_options \<Rightarrow> string list" where
  "trusted_origins opts = map (\<lambda>o'. to_lower (trim_suffix ''/'' o')) (oo_TrustedOrigins opts)"

definition hostMatches :: "web \<Rightarrow> string \<Rightarrow> string \<Rightarrow> string list \<Rightarrow> bool" where
  "hostMatches W raw expectedHost trusted =
     (case url_Parse W raw of
        None \<Rightarrow> False
      | Some (scheme, host) \<Rightarrow>
          host \<noteq> '''' \<and>
          (to_lower (scheme @ ''://'' @ host) \<in> set trusted \<or> to_lower host = to_lower expectedHost))"

definition originMatches :: "web \<Rightarrow> request \<Rightarrow> string list \<Rightarrow> bool" where
  "originMatches W r trusted =
     (if header_Get ''Sec-Fetch-Site'' (rq_Header r) = ''same-origin'' then True
      else
        let expectedHost = to_lower (rq_Host r); origin = header_Get ''Origin'' (rq_Header r);
            ref = header_Get ''Referer'' (rq_Header r)
        in if origin \<noteq> '''' \<and> origin \<noteq> ''null'' then hostMatches W origin expectedHost trusted
           else if ref \<noteq> '''' then hostMatches W ref expectedHost trusted
           else False)"

definition Origin :: "web \<Rightarrow> origin_options \<Rightarrow> (request \<Rightarrow> 'a outcome) \<Rightarrow> request \<Rightarrow> 'a outcome" where
  "Origin W opts handler r =
     (if Allows (oo_OpenRoutes opts) r then handler r
      else if isSafeMethod (rq_Method r) then handler r
      else if \<not> originMatches W r (trusted_origins opts) then Refused 403
      else handler r)"

section \<open>csrf.go\<close>

text \<open>\<open>base64.RawURLEncoding\<close>.\<close>

definition url_alphabet :: string where
  "url_alphabet = ''ABCDEFGHIJKLMNOPQRSTUVWXYZabcdefghijklmnopqrstuvwxyz0123456789-_''"

definition sextet :: "nat \<Rightarrow> char" where
  "sextet n = url_alphabet ! (n mod 64)"

fun base64url :: "string \<Rightarrow> string" where
  "base64url (x # y # z # s) =
     (let a = of_char x; b = of_char y; c = of_char z
      in sextet (a div 4) # sextet (a * 16 + b div 16) # sextet (b * 4 + c div 64) # sextet c # base64url s)"
| "base64url [x, y] = (let a = of_char x; b = of_char y in [sextet (a div 4), sextet (a * 16 + b div 16), sextet (b * 4)])"
| "base64url [x] = (let a = of_char x in [sextet (a div 4), sextet (a * 16)])"
| "base64url [] = []"

definition csrfHeaderName :: string where "csrfHeaderName = ''X-CSRF-Token''"
definition csrfFormField :: string where "csrfFormField = ''_csrf''"
definition csrfCookieMaxAge :: nat where "csrfCookieMaxAge = 60 * 60 * 12"
definition csrfMinSecretLen :: nat where "csrfMinSecretLen = 32"
definition csrfRandomLen :: nat where "csrfRandomLen = 32"
definition csrfMaxFormBytes :: nat where "csrfMaxFormBytes = 128 * 1024"

record csrf_options =
  co_OpenRoutes :: "route_matcher option"
  co_Secret :: string
  co_Secure :: bool

text \<open>
  What a request brings that is not in it: the fingerprint of its session, if it has one, and
  the bytes the random generator has for it (\<open>None\<close> when it fails).
\<close>

record surroundings =
  su_finger :: "string option"
  su_random :: "string option"

definition cookieName :: "bool \<Rightarrow> string" where
  "cookieName secure = (if secure then ''__Host-racp_csrf'' else ''racp_csrf'')"

definition newAnonymousToken :: "web \<Rightarrow> string \<Rightarrow> string option \<Rightarrow> string option" where
  "newAnonymousToken W secret random =
     map_option (\<lambda>buffer. let raw = base64url buffer in raw @ ''.'' @ base64url (hmac_sha256 W secret raw)) random"

definition verifyAnonymousToken :: "web \<Rightarrow> string \<Rightarrow> string \<Rightarrow> bool" where
  "verifyAnonymousToken W token secret =
     (case cut_at CHR ''.'' token of
        None \<Rightarrow> False
      | Some (raw, signature) \<Rightarrow>
          raw \<noteq> '''' \<and> signature \<noteq> '''' \<and> signature = base64url (hmac_sha256 W secret raw))"

definition isTopLevelNavigation :: "request \<Rightarrow> bool" where
  "isTopLevelNavigation r \<longleftrightarrow> header_Get ''Sec-Fetch-Mode'' (rq_Header r) = ''navigate'' \<and>
     header_Get ''Sec-Fetch-Dest'' (rq_Header r) = ''document''"

definition shouldMintAnonymousToken :: "request \<Rightarrow> bool" where
  "shouldMintAnonymousToken r =
     (if header_Get ''Sec-Fetch-Site'' (rq_Header r) \<in> {''cross-site'', ''same-site''} then isTopLevelNavigation r else True)"

text \<open>\<open>None\<close> is the error, \<open>Some []\<close> that there is no token to expect.\<close>

definition resolveExpectedToken :: "web \<Rightarrow> csrf_options \<Rightarrow> surroundings \<Rightarrow> request \<Rightarrow> string option" where
  "resolveExpectedToken W opts su r =
     (case su_finger su of
        Some fingerprint \<Rightarrow> Some (base64url (hmac_sha256 W (co_Secret opts) fingerprint))
      | None \<Rightarrow>
          let anonymous = (if \<not> shouldMintAnonymousToken r then Some ''''
                           else newAnonymousToken W (co_Secret opts) (su_random su))
          in (case map_of (rq_Cookies r) (cookieName (co_Secure opts)) of
                None \<Rightarrow> anonymous
              | Some v \<Rightarrow> if v \<noteq> '''' \<and> verifyAnonymousToken W v (co_Secret opts) then Some v else anonymous))"

record cookie =
  ck_Name :: string
  ck_Value :: string
  ck_HttpOnly :: bool
  ck_Secure :: bool
  ck_SameSiteLax :: bool
  ck_MaxAge :: nat

definition ensureCSRFCookie :: "request \<Rightarrow> string \<Rightarrow> bool \<Rightarrow> cookie option" where
  "ensureCSRFCookie r token secure =
     (if map_of (rq_Cookies r) (cookieName secure) = Some token then None
      else Some \<lparr>ck_Name = cookieName secure, ck_Value = token, ck_HttpOnly = True, ck_Secure = secure,
        ck_SameSiteLax = True, ck_MaxAge = csrfCookieMaxAge\<rparr>)"

text \<open>
  \<open>ParseForm\<close>: the form of the body, for the methods that have one and only when it is url
  encoded, no longer than \<open>MaxBytesReader\<close> lets through. The query must parse too.
\<close>

definition ParseForm :: "web \<Rightarrow> request \<Rightarrow> (string \<times> string) list option" where
  "ParseForm W r =
     (let contentType = header_Get ''Content-Type'' (rq_Header r);
          (mediaType, ok) = ParseMediaType W (if contentType = '''' then ''application/octet-stream'' else contentType);
          post = (if rq_Method r \<notin> {''POST'', ''PUT'', ''PATCH''} then Some []
                  else if mediaType = ''application/x-www-form-urlencoded'' then
                    (if csrfMaxFormBytes < length (rq_Body r) \<or> \<not> ok then None else ParseQuery W (rq_Body r))
                  else if ok then Some [] else None)
      in if ParseQuery W (rq_Query r) = None then None else post)"

definition form_value :: "string \<Rightarrow> (string \<times> string) list \<Rightarrow> string" where
  "form_value k form = (case map_of form k of None \<Rightarrow> '''' | Some v \<Rightarrow> v)"

definition constantTimeEqual :: "string \<Rightarrow> string \<Rightarrow> bool" where
  "constantTimeEqual left right = (if length left \<noteq> length right then False else left = right)"

definition tokenValid :: "web \<Rightarrow> request \<Rightarrow> string \<Rightarrow> bool" where
  "tokenValid W r expected =
     (let header = header_Get csrfHeaderName (rq_Header r)
      in if header \<noteq> '''' then constantTimeEqual header expected
         else
           let contentType = fst (ParseMediaType W (header_Get ''Content-Type'' (rq_Header r)))
           in if contentType \<noteq> ''application/x-www-form-urlencoded'' \<and> contentType \<noteq> ''multipart/form-data'' then False
              else case ParseForm W r of
                     None \<Rightarrow> False
                   | Some form \<Rightarrow> constantTimeEqual (form_value csrfFormField form) expected)"

text \<open>The handler is given the token for the context; a cookie may be set whatever comes of it.\<close>

definition CSRF :: "web \<Rightarrow> csrf_options \<Rightarrow> surroundings \<Rightarrow> (string option \<Rightarrow> request \<Rightarrow> 'a outcome) \<Rightarrow> request \<Rightarrow>
    cookie option \<times> 'a outcome" where
  "CSRF W opts su handler r =
     (if Allows (co_OpenRoutes opts) r then (None, handler None r)
      else case resolveExpectedToken W opts su r of
        None \<Rightarrow> (None, Refused 500)
      | Some expected \<Rightarrow>
          (if expected \<noteq> '''' then ensureCSRFCookie r expected (co_Secure opts) else None,
           if \<not> isSafeMethod (rq_Method r) \<and> (expected = '''' \<or> \<not> tokenValid W r expected) then Refused 403
           else handler (Some expected) r))"

text \<open>The configuration \<open>CSRF\<close> accepts; otherwise it panics at start-up.\<close>

definition csrf_config_ok :: "csrf_options \<Rightarrow> bool" where
  "csrf_config_ok opts \<longleftrightarrow> csrfMinSecretLen \<le> length (co_Secret opts)"

section \<open>The order they are installed in\<close>

definition protect :: "web \<Rightarrow> origin_options \<Rightarrow> csrf_options \<Rightarrow> (request \<Rightarrow> surroundings) \<Rightarrow>
    (string option \<Rightarrow> request \<Rightarrow> 'a outcome) \<Rightarrow> request \<Rightarrow> 'a outcome" where
  "protect W oo co su handler = Origin W oo (\<lambda>r. snd (CSRF W co (su r) handler r))"

section \<open>Tokens\<close>

lemma sextet_not_dot [simp]: "sextet n \<noteq> CHR ''.''"
proof -
  have "length url_alphabet = 64" by (simp add: url_alphabet_def)
  then have "sextet n \<in> set url_alphabet" by (simp add: sextet_def)
  moreover have "CHR ''.'' \<notin> set url_alphabet" by (simp add: url_alphabet_def)
  ultimately show ?thesis by auto
qed

lemma base64url_no_dot: "CHR ''.'' \<notin> set (base64url s)"
  by (induction s rule: base64url.induct) (simp_all add: Let_def sextet_not_dot [symmetric])

lemma base64url_empty: "base64url s = [] \<longleftrightarrow> s = []"
  by (cases s rule: base64url.cases) (simp_all add: Let_def)

lemma constantTimeEqual_iff [simp]: "constantTimeEqual x y \<longleftrightarrow> x = y"
  by (auto simp: constantTimeEqual_def)

end
