(* ===== verification/Security_Claims.thy ===== *)
theory Security_Claims
  imports Limiter_Clients Address_Keys Csrf
begin

text \<open>
  The properties of the request protection of \<open>internal/platform/security\<close>: rate limits,
  client addresses, open routes, origins and tokens.
\<close>

section \<open>Rate limits\<close>

text \<open>
  C16: The table of the rate limiter, a map of entries threaded on a doubly linked list, is a
  list of clients, last seen first: any history of requests and collections is answered as the
  list answers it, evictions and dropped buckets included, and the map has one entry for each
  client on the list.
\<close>

theorem limiter_is_lru:
  assumes "NewRateLimiter opts = Inr c"
  shows "\<exists>rl. run_limiter P xs c = Some (answers (lru_step P c) xs [], rl) \<and>
    (\<forall>k. map_option (\<lambda>a. (be_lastSeen (at rl a), be_limiter (at rl a))) (Mapping.lookup (rl_buckets rl) k) =
       map_of (outcome (lru_step P c) xs []) k)"
proof -
  from limiter.same_answers [OF NewRateLimiter_rel [OF assms], of P xs] obtain rl where
    r: "run_limiter P xs c = Some (answers (lru_step P c) xs [], rl)" "lru_rel c rl (outcome (lru_step P c) xs [])"
    by (auto simp: run_limiter_def)
  from r(2) obtain as where "table_inv rl as" "outcome (lru_step P c) xs [] = view rl as" by (auto simp: lru_rel_def)
  with table_lookup [of rl as] r(1) show ?thesis by simp
qed

text \<open>
  C17: The limiter always answers, within bounded memory: any history of requests and
  collections is answered in full, the collector's loop over the list included, and the table
  never has more than \<open>defaultMaxEntries\<close> entries.
\<close>

theorem limiter_returns:
  assumes "NewRateLimiter opts = Inr c"
  shows "\<exists>ys rl. run_limiter P xs c = Some (ys, rl) \<and> length ys = length xs \<and>
    Mapping.size (rl_buckets rl) \<le> defaultMaxEntries \<and>
    (\<forall>cutoff. \<exists>rl'. gcOnce cutoff rl = Some rl' \<and> Mapping.size (rl_buckets rl') \<le> Mapping.size (rl_buckets rl))"
proof -
  from limiter.same_answers [OF NewRateLimiter_rel [OF assms], of P xs] obtain rl where
    r: "run_limiter P xs c = Some (answers (lru_step P c) xs [], rl)" "lru_rel c rl (outcome (lru_step P c) xs [])"
    by (auto simp: run_limiter_def)
  from r(2) obtain as where as: "table_inv rl as" "outcome (lru_step P c) xs [] = view rl as" by (auto simp: lru_rel_def)
  have "lru_inv (outcome (lru_step P c) xs [])" by (rule lru_outcome_inv) (simp add: lru_inv_def)
  then have "Mapping.size (rl_buckets rl) \<le> defaultMaxEntries" using as by (simp add: lru_inv_def table_size)
  moreover have "\<exists>rl'. gcOnce k rl = Some rl' \<and> Mapping.size (rl_buckets rl') \<le> Mapping.size (rl_buckets rl)" for k
  proof -
    from gcOnce_table [OF as(1), of k] obtain rl' as' where g: "gcOnce k rl = Some rl'" "table_inv rl' as'"
      "view rl' as' = lru_collect k (view rl as)" by blast
    have "length (lru_collect k (view rl as)) \<le> length as"
      unfolding lru_collect_def using length_dropWhile_le [of _ "rev (view rl as)"] by simp
    with g(3) have "length as' \<le> length as" by (metis view_simps(4))
    with g(1,2) as(1) show ?thesis by (simp add: table_size)
  qed
  ultimately show ?thesis using r(1) by (simp add: answers_length)
qed

text \<open>
  C18: Every client has a limiter of its own: as long as the clients that ask are no more than
  the table holds, the clock does not run backwards, handling a request takes at most \<open>d\<close>, and
  a bucket fills in the time after which it is dropped (less \<open>d\<close>), each request is decided by
  the client's own earlier requests, as if nothing were ever evicted or collected.
\<close>

theorem clients_have_own_limiters:
  assumes "NewRateLimiter opts = Inr c" and "finite K" and "card K \<le> defaultMaxEntries"
    and "refills P c (defaultIdle - d)" and "admissible (orderly c d K) (own_step P c) xs (\<lambda>_. [], T)"
  shows "map_option fst (run_limiter P xs c) = Some (answers (own_step P c) xs (\<lambda>_. [], T))"
proof -
  have "roomy P c d K" using assms(2-4) by (simp add: roomy_def)
  from lru_is_own [OF this assms(5)] limiter.same_answers [OF NewRateLimiter_rel [OF assms(1)], of P xs]
  show ?thesis by (auto simp: run_limiter_def)
qed

section \<open>Client addresses\<close>

text \<open>An entry of the header that names a trusted proxy.\<close>

definition trusted_hop :: "ip_net list \<Rightarrow> string \<Rightarrow> bool" where
  "trusted_hop trusted t \<longleftrightarrow> (case ParseIP (trim_space t) of None \<Rightarrow> False | Some b \<Rightarrow> ipInCIDRs (Some b) trusted)"

definition forwarded_line :: "request \<Rightarrow> string" where
  "forwarded_line r = header_Get ''X-Forwarded-For'' (rq_Header r)"

text \<open>What a proxy sends on of the line it received: the address it saw goes to the end.\<close>

definition add_hop :: "string \<Rightarrow> string \<Rightarrow> string" where
  "add_hop seen line = (if line = '''' then seen else line @ CHR '','' # seen)"

lemma last_untrusted_skips:
  assumes "\<forall>t \<in> set ts. trusted_hop trusted t"
  shows "last_untrusted trusted ip (ts @ hops) = last_untrusted trusted ip hops"
  using assms by (induction ts) (auto simp: trusted_hop_def split: option.splits)

lemma split_add_hop:
  "CHR '','' \<notin> set seen \<Longrightarrow> seen \<noteq> '''' \<Longrightarrow>
   add_hop seen line \<noteq> '''' \<and> (\<exists>before. split_on CHR '','' (add_hop seen line) = before @ [seen])"
  by (simp add: add_hop_def)

lemma hops_of_line:
  assumes "\<forall>t \<in> set ts. CHR '','' \<notin> set t" and "line \<noteq> ''''"
  shows "split_on CHR '','' (fold add_hop ts line) = split_on CHR '','' line @ ts \<and> fold add_hop ts line \<noteq> ''''"
  using assms by (induction ts arbitrary: line) (auto simp: add_hop_def)

text \<open>
  C19: A client cannot forge its address. From a peer that is not a trusted proxy the header is
  not looked at: whatever it says, the address is the peer's. From a trusted proxy, when the
  proxies on the way are trusted and each adds the address it saw at the end of the line, the
  address is the client's, whatever was there before: nothing, if the client sent no header, or
  anything the client wrote. With no header, when every entry is a trusted proxy's, or when the
  last one is no address, it is the peer's.
\<close>

theorem client_address_unforgeable:
  assumes "remoteIP (rq_RemoteAddr r) = Some peer"
  shows "(\<not> ipInCIDRs (Some peer) trusted \<longrightarrow> ClientIP r trusted = Some peer) \<and>
    (ipInCIDRs (Some peer) trusted \<longrightarrow>
       (\<forall>sent client proxies a. forwarded_line r = fold add_hop (client # proxies) sent \<longrightarrow>
          ParseIP (trim_space client) = Some a \<longrightarrow> \<not> ipInCIDRs (Some a) trusted \<longrightarrow> list_all (trusted_hop trusted) proxies \<longrightarrow>
          (\<forall>t \<in> set (client # proxies). CHR '','' \<notin> set t) \<longrightarrow> ClientIP r trusted = Some a) \<and>
       (forwarded_line r = '''' \<or> list_all (trusted_hop trusted) (split_on CHR '','' (forwarded_line r)) \<or>
          ParseIP (trim_space (last (split_on CHR '','' (forwarded_line r)))) = None \<longrightarrow> ClientIP r trusted = Some peer))"
proof (intro conjI impI allI)
  assume "\<not> ipInCIDRs (Some peer) trusted"
  then show "ClientIP r trusted = Some peer" using assms by (simp add: ClientIP_def Let_def)
next
  fix sent client proxies a
  assume p: "ipInCIDRs (Some peer) trusted" and l: "forwarded_line r = fold add_hop (client # proxies) sent"
    and c: "ParseIP (trim_space client) = Some a" "\<not> ipInCIDRs (Some a) trusted"
    and t: "list_all (trusted_hop trusted) proxies" and m: "\<forall>t \<in> set (client # proxies). CHR '','' \<notin> set t"
  from c(1) have "client \<noteq> []" by (auto simp: ParseIP_def)
  with l m hops_of_line [of proxies "add_hop client sent"] split_add_hop [of client sent] obtain before where
    "split_on CHR '','' (forwarded_line r) = before @ client # proxies" "forwarded_line r \<noteq> []" by auto
  with c last_untrusted_skips [of "rev proxies"] t show "ClientIP r trusted = Some a"
    using assms p by (simp add: ClientIP_def Let_def forwarded_line_def list_all_iff)
next
  assume p: "ipInCIDRs (Some peer) trusted"
    and l: "forwarded_line r = '''' \<or> list_all (trusted_hop trusted) (split_on CHR '','' (forwarded_line r)) \<or>
      ParseIP (trim_space (last (split_on CHR '','' (forwarded_line r)))) = None"
  have "split_on CHR '','' (forwarded_line r) \<noteq> []" by simp
  then obtain hs h where h: "split_on CHR '','' (forwarded_line r) = hs @ [h]" by (metis rev_exhaust)
  have "last_untrusted trusted (Some peer) (rev (split_on CHR '','' (forwarded_line r))) = Some peer" if "forwarded_line r \<noteq> []"
  proof (cases "list_all (trusted_hop trusted) (split_on CHR '','' (forwarded_line r))")
    case True
    with last_untrusted_skips [of "rev (split_on CHR '','' (forwarded_line r))" trusted "Some peer" "[]"] show ?thesis
      by (simp add: list_all_iff)
  qed (use l that h in \<open>auto split: option.splits\<close>)
  then show "ClientIP r trusted = Some peer"
    using assms p by (auto simp: ClientIP_def Let_def forwarded_line_def)
qed

text \<open>
  Only the first line of the header counts: when the client sends a line of its own and the
  trusted proxy adds another instead of extending it, the address is the client's to choose.
\<close>

theorem first_forwarded_line_wins:
  assumes "remoteIP (rq_RemoteAddr r) = Some peer" and "ipInCIDRs (Some peer) trusted"
    and "rq_Header r = (''X-Forwarded-For'', client) # lines"
    and "CHR '','' \<notin> set client" and "ParseIP (trim_space client) = Some a" and "\<not> ipInCIDRs (Some a) trusted"
  shows "ClientIP r trusted = Some a"
proof -
  have "client \<noteq> []" using assms(5) by (auto simp: ParseIP_def)
  with assms show ?thesis by (simp add: ClientIP_def header_Get_def)
qed

section \<open>Open routes\<close>

text \<open>
  What a route opens stays where the route says: a path a matcher lets through is, after
  cleaning, an exact route or lies under the directory before a route's first \<open>*\<close>, which is
  never the root; and no element of the cleaned path leads up or is empty.
\<close>

theorem open_routes_confined:
  assumes "NewRouteMatcher routes = Inr m" and "route_Matches m p" and "has_prefix ''/'' p"
  shows "(\<exists>route \<in> set routes. CHR ''*'' \<notin> set route \<and> path_Clean p = path_Clean route) \<or>
    (\<exists>route \<in> set routes. \<exists>dir more sub. route = dir @ CHR ''*'' # more \<and> has_prefix ''/'' dir \<and> has_suffix ''/'' dir \<and>
       dir \<noteq> ''/'' \<and> path_Clean p = dir @ sub \<and> (\<forall>e \<in> set (tl (split_on CHR ''/'' (path_Clean p))). plain e))"
proof (cases "path_Clean p \<in> set (rm_exact m)")
  case True
  with NewRouteMatcher_built [OF assms(1)] show ?thesis unfolding built_from_def by metis
next
  case False
  with assms(2) obtain parts where parts: "parts \<in> set (rm_patterns m)" "glob parts (path_Clean p)"
    by (auto simp: route_Matches_def Let_def list_ex_iff)
  with NewRouteMatcher_built [OF assms(1)] obtain route dir more where
    r: "route \<in> set routes" "route = dir @ CHR ''*'' # more" "hd parts = dir" "2 \<le> length parts"
      "has_prefix ''/'' dir" "has_suffix ''/'' dir" "dir \<noteq> ''/''" unfolding built_from_def by metis
  from r(4) obtain q ps where "parts = dir # q # ps" using r(3) by (cases parts rule: remdups_adj.cases) auto
  with parts(2) obtain sub where sub: "path_Clean p = dir @ sub" by (auto simp: has_prefix_iff)
  with r(5,7) have "path_Clean p \<noteq> ''/''" by (auto simp: has_prefix_iff)
  with clean_elements [OF assms(3)] r sub show ?thesis by blast
qed

section \<open>Shared buckets\<close>

text \<open>
  Clients without an account share a bucket exactly when they have the same IPv4 address, or
  IPv6 addresses in the same /64 network: moving within its network does not give a client a
  new bucket, and clients of different networks do not use up each other's.
\<close>

theorem bucket_of_network:
  assumes "rl_keyFn rl = None" and "realClientIP rl r = Some a" and "realClientIP rl r' = Some b"
    and "length a = 16" and "length b = 16"
  shows "resolveKey rl r = resolveKey rl r' \<longleftrightarrow>
    (case (To4 a, To4 b) of (Some v, Some w) \<Rightarrow> v = w | (None, None) \<Rightarrow> take 8 a = take 8 b | _ \<Rightarrow> False)"
  using normalizeIP_eq [OF assms(4,5)] assms(1-3) by (simp add: resolveKey_def clientIPKey_def)

section \<open>Origins and tokens\<close>

text \<open>
  C20: A request that may change something is handled only when it comes from the panel's own
  pages: unless its route is open, it shows an origin that matches and carries, in the header or
  the form, the token of its session or one signed with the secret (the value of its cookie, or
  the one minted for it).
\<close>

theorem unsafe_requests_protected:
  assumes "protect W oo co su handler r = Handled x" and "\<not> isSafeMethod (rq_Method r)"
    and "oo_OpenRoutes oo = co_OpenRoutes co" and "\<not> Allows (co_OpenRoutes co) r"
  shows "originMatches W r (trusted_origins oo) \<and>
    (\<exists>tok. tok \<noteq> '''' \<and>
       (header_Get csrfHeaderName (rq_Header r) = tok \<or>
        (\<exists>form. ParseForm W r = Some form \<and> form_value csrfFormField form = tok)) \<and>
       (case su_finger (su r) of
          Some fingerprint \<Rightarrow> tok = base64url (hmac_sha256 W (co_Secret co) fingerprint)
        | None \<Rightarrow> map_of (rq_Cookies r) (cookieName (co_Secure co)) = Some tok \<and> verifyAnonymousToken W tok (co_Secret co) \<or>
            newAnonymousToken W (co_Secret co) (su_random (su r)) = Some tok))"
proof -
  from assms have o': "originMatches W r (trusted_origins oo)" and c: "snd (CSRF W co (su r) handler r) = Handled x"
    by (auto simp: protect_def Origin_def split: if_splits)
  from c assms(2,4) obtain tok where t: "resolveExpectedToken W co (su r) r = Some tok" "tok \<noteq> ''''" "tokenValid W r tok"
    by (auto simp: CSRF_def split: option.splits if_splits)
  from t(3) have "header_Get csrfHeaderName (rq_Header r) = tok \<or>
      (\<exists>form. ParseForm W r = Some form \<and> form_value csrfFormField form = tok)"
    by (auto simp: tokenValid_def Let_def split: if_splits option.splits)
  moreover from t(1,2) have "case su_finger (su r) of
      Some fingerprint \<Rightarrow> tok = base64url (hmac_sha256 W (co_Secret co) fingerprint)
    | None \<Rightarrow> map_of (rq_Cookies r) (cookieName (co_Secure co)) = Some tok \<and> verifyAnonymousToken W tok (co_Secret co) \<or>
        newAnonymousToken W (co_Secret co) (su_random (su r)) = Some tok"
    by (auto simp: resolveExpectedToken_def Let_def split: option.splits if_splits)
  ultimately show ?thesis using o' t(2) by blast
qed

lemma new_token_verifies:
  assumes "newAnonymousToken W secret (Some buffer) = Some tok" "buffer \<noteq> []" "\<And>s. hmac_sha256 W secret s \<noteq> []"
  shows "verifyAnonymousToken W tok secret"
  using assms by (auto simp: newAnonymousToken_def verifyAnonymousToken_def Let_def base64url_no_dot base64url_empty)

text \<open>
  The tokens the panel hands out come back valid: once a response has set the cookie, a
  later request of the same session (or of none) that carries the cookie and repeats its value
  in the header reaches the handler, and is not given another cookie.
\<close>

theorem token_round_trip:
  assumes "fst (CSRF W co su handler r) = Some ck" and "\<And>s. hmac_sha256 W (co_Secret co) s \<noteq> []"
    and "su_random su \<noteq> Some []" and "su_finger su' = su_finger su"
    and "map_of (rq_Cookies r') (ck_Name ck) = Some (ck_Value ck)"
    and "header_Get csrfHeaderName (rq_Header r') = ck_Value ck" and "\<not> Allows (co_OpenRoutes co) r'"
  shows "CSRF W co su' handler' r' = (None, handler' (Some (ck_Value ck)) r')"
proof -
  from assms(1) obtain tok where t: "resolveExpectedToken W co su r = Some tok" "tok \<noteq> ''''"
    "ck_Name ck = cookieName (co_Secure co)" "ck_Value ck = tok" "map_of (rq_Cookies r) (cookieName (co_Secure co)) \<noteq> Some tok"
    by (auto simp: CSRF_def ensureCSRFCookie_def split: if_splits option.splits)
  have "resolveExpectedToken W co su' r' = Some tok"
  proof (cases "su_finger su")
    case None
    with t(1,2,5) have "newAnonymousToken W (co_Secret co) (su_random su) = Some tok"
      by (auto simp: resolveExpectedToken_def Let_def split: option.splits if_splits)
    moreover from this obtain buffer where "su_random su = Some buffer" by (auto simp: newAnonymousToken_def)
    ultimately have "verifyAnonymousToken W tok (co_Secret co)" using new_token_verifies assms(2,3) by metis
    with None t assms(4,5) show ?thesis by (simp add: resolveExpectedToken_def)
  qed (use t(1) assms(4) in \<open>simp add: resolveExpectedToken_def\<close>)
  then show ?thesis using assms(5-7) t(2-4) by (simp add: CSRF_def ensureCSRFCookie_def tokenValid_def)
qed

text \<open>
  A form sent as \<open>multipart/form-data\<close> is never accepted by its token field: the media type
  is let through, but \<open>ParseForm\<close> does not read such a body.
\<close>

theorem multipart_token_never_valid:
  assumes "header_Get csrfHeaderName (rq_Header r) = ''''" and "expected \<noteq> ''''"
    and "fst (ParseMediaType W (header_Get ''Content-Type'' (rq_Header r))) = ''multipart/form-data''"
    and "fst (ParseMediaType W ''application/octet-stream'') = ''application/octet-stream''"
  shows "\<not> tokenValid W r expected"
proof -
  have "ParseForm W r = None \<or> ParseForm W r = Some []"
    using assms(3,4) by (auto simp: ParseForm_def Let_def split: prod.splits)
  then show ?thesis using assms(1,2) by (auto simp: tokenValid_def form_value_def Let_def)
qed

section \<open>Instances of the properties\<close>

text \<open>
  A token bucket in integers: a token is \<open>token_unit\<close>, the number of nanoseconds in a minute, so
  that \<open>rate\<close> tokens a minute are \<open>rate\<close> units a nanosecond.
\<close>

definition token_unit :: int where "token_unit = 60000000000"

definition demo_rate :: "(int \<times> int \<times> int \<times> int, int) rate_pkg" where
  "demo_rate = \<lparr>
     NewLimiter = (\<lambda>rate burst. (rate, burst, burst * token_unit, 0)),
     Reserve = (\<lambda>t (rate, burst, level, last).
       let level' = min (burst * token_unit) (level + max 0 (t - last) * rate)
       in if token_unit \<le> level' then (0, (rate, burst, level' - token_unit, t))
          else ((token_unit - level') div rate + 1, (rate, burst, level', t))),
     Delay = (\<lambda>_ d. d),
     Cancel = (\<lambda>_ _ l. l)\<rparr>"

definition demo_options :: limiter_options where
  "demo_options = \<lparr>lo_KeyFunc = None, lo_TrustedProxies = [], lo_RatePerMinute = 60, lo_Burst = 2\<rparr>"

definition demo_limiter :: "(int \<times> int \<times> int \<times> int) rate_limiter" where
  "demo_limiter = \<lparr>rl_keyFn = None, rl_buckets = Mapping.empty, rl_head = None, rl_tail = None,
     rl_trusted = [], rl_limit = 60, rl_burst = 2, rl_mem = Map.empty, rl_fresh = 0\<rparr>"

definition at_time :: "int \<Rightarrow> reads" where
  "at_time t = \<lparr>rd_bucket = t, rd_reserve = t, rd_delay = t, rd_cancel = t\<rparr>"

definition demo_history :: "limiter_op list" where
  "demo_history = [Ask_key (at_time 10) ''a'', Ask_key (at_time 20) ''a'', Ask_key (at_time 30) ''b'', Ask_key (at_time 40) ''a'',
     Tick 600000000035, Ask_key (at_time 600000000050) ''a'', Ask_key (at_time 600000000060) ''b'']"

definition demo_answers :: "answer list" where
  "demo_answers = [Answer None, Answer None, Answer None, Answer (Some 999999971), Collected, Answer None, Answer None]"

lemma demo_new: "NewRateLimiter demo_options = Inr demo_limiter"
  by (simp add: NewRateLimiter_def demo_options_def demo_limiter_def ParseTrustedProxies_def)

theorem limiter_is_lru_witness:
  "map_option fst (run_limiter demo_rate demo_history demo_limiter) = Some demo_answers"
proof -
  have "answers (lru_step demo_rate demo_limiter) demo_history [] = demo_answers" by code_simp
  with limiter_is_lru [OF demo_new, of demo_rate demo_history] show ?thesis by auto
qed

theorem limiter_returns_witness:
  "\<exists>ys rl. run_limiter demo_rate demo_history demo_limiter = Some (ys, rl) \<and> length ys = 7 \<and>
     Mapping.size (rl_buckets rl) \<le> 2000"
proof -
  have "length demo_history = 7" by (simp add: demo_history_def)
  with limiter_returns [OF demo_new, of demo_rate demo_history] show ?thesis by (auto simp: defaultMaxEntries_def)
qed

lemma demo_fed:
  "\<exists>v. fed demo_rate demo_limiter ts = (60, 2, v, if ts = [] then 0 else rd_reserve (last ts)) \<and> 0 \<le> v"
proof (induction ts rule: rev_induct)
  case Nil
  show ?case by (simp add: fed_def demo_rate_def demo_limiter_def token_unit_def)
next
  case (snoc t ts)
  then obtain v where "fed demo_rate demo_limiter ts = (60, 2, v, if ts = [] then 0 else rd_reserve (last ts))" "0 \<le> v" by blast
  then show ?case
    by (auto simp: fed_snoc reserve_on_def demo_rate_def token_unit_def Let_def)
qed

lemma demo_refills: "refills demo_rate demo_limiter (defaultIdle - 1000000000)"
  unfolding refills_def
proof (intro allI impI)
  fix ts t
  assume c: "chronological (ts @ [t])" "ts \<noteq> []" "rd_cancel (last ts) + (defaultIdle - 1000000000) \<le> rd_reserve t"
  obtain v where v: "fed demo_rate demo_limiter ts = (60, 2, v, rd_reserve (last ts))" "0 \<le> v" using demo_fed [of ts] c(2) by auto
  from c(2) obtain us u where ts: "ts = us @ [u]" by (cases ts rule: rev_cases) auto
  with c(1) have "rd_reserve (last ts) \<le> rd_cancel (last ts)"
    by (simp add: chronological_def readings_def sorted_append)
  with c(3) have "120000000000 \<le> v + max 0 (rd_reserve t - rd_reserve (last ts)) * 60"
    using v(2) by (simp add: defaultIdle_def)
  moreover have "fed demo_rate demo_limiter [] = (60, 2, 120000000000, 0)"
    by (simp add: fed_def demo_rate_def demo_limiter_def token_unit_def)
  ultimately show "reserve_on demo_rate t (fed demo_rate demo_limiter ts) = reserve_on demo_rate t (fed demo_rate demo_limiter [])"
    using v(1) by (simp add: reserve_on_def demo_rate_def token_unit_def Let_def min_def)
qed

theorem clients_have_own_limiters_witness:
  "map_option fst (run_limiter demo_rate demo_history demo_limiter) = Some demo_answers"
proof -
  have "admissible (orderly demo_limiter 1000000000 {''a'', ''b''}) (own_step demo_rate demo_limiter) demo_history (\<lambda>_. [], 0)"
    by (simp add: demo_history_def orderly_def op_readings_def asked_def readings_def at_time_def own_step_def own_ask_def Let_def)
  moreover have "answers (own_step demo_rate demo_limiter) demo_history (\<lambda>_. [], 0) = demo_answers" by code_simp
  ultimately show ?thesis
    using clients_have_own_limiters [OF demo_new _ _ demo_refills, of "{''a'', ''b''}" demo_history 0]
    by (simp add: defaultMaxEntries_def)
qed

definition demo_request :: "string \<Rightarrow> header \<Rightarrow> request" where
  "demo_request method header = \<lparr>rq_Method = method, rq_Path = ''/account'', rq_Query = '''', rq_Host = ''panel.example'',
     rq_RemoteAddr = ''10.0.0.5:4711'', rq_Header = header, rq_Cookies = [], rq_Body = ''''\<rparr>"

definition demo_proxies :: "ip_net list" where
  "demo_proxies = [\<lparr>in_IP = [10, 0, 0, 0], in_Mask = [255, 0, 0, 0]\<rparr>]"

definition demo_forwarded :: string where
  "demo_forwarded = ''1.2.3.4, 8.8.8.8'' @ CHR '','' # join_with '','' ['' 203.0.113.9'', '' 10.0.0.7'']"

lemma demo_addresses:
  "remoteIP ''10.0.0.5:4711'' = Some (v4_in_v6 @ [10, 0, 0, 5])"
  "ParseIP (trim_space '' 203.0.113.9'') = Some (v4_in_v6 @ [203, 0, 113, 9])"
  "ParseIP (trim_space '' 10.0.0.7'') = Some (v4_in_v6 @ [10, 0, 0, 7])"
  "ParseIP (trim_space ''1.2.3.4'') = Some (v4_in_v6 @ [1, 2, 3, 4])"
  by code_simp+

lemma demo_trust:
  "ipInCIDRs (Some (v4_in_v6 @ [10, 0, 0, 5])) demo_proxies" "ipInCIDRs (Some (v4_in_v6 @ [10, 0, 0, 7])) demo_proxies"
  "\<not> ipInCIDRs (Some (v4_in_v6 @ [203, 0, 113, 9])) demo_proxies" "\<not> ipInCIDRs (Some (v4_in_v6 @ [1, 2, 3, 4])) demo_proxies"
  by code_simp+

theorem client_address_unforgeable_witness:
  "ClientIP (demo_request ''GET'' [(''X-Forwarded-For'', demo_forwarded)]) demo_proxies = Some (v4_in_v6 @ [203, 0, 113, 9]) \<and>
   ClientIP (demo_request ''GET'' [(''X-Forwarded-For'', '' 203.0.113.9'')]) demo_proxies = Some (v4_in_v6 @ [203, 0, 113, 9]) \<and>
   ClientIP (demo_request ''GET'' [(''X-Forwarded-For'', ''1.2.3.4'')]) [] = Some (v4_in_v6 @ [10, 0, 0, 5])"
proof -
  let ?r = "\<lambda>h. demo_request ''GET'' [(''X-Forwarded-For'', h)]"
  have p: "remoteIP (rq_RemoteAddr (?r h)) = Some (v4_in_v6 @ [10, 0, 0, 5])" for h by (simp add: demo_request_def demo_addresses)
  have h: "forwarded_line (?r h) = h" for h by (simp add: forwarded_line_def demo_request_def header_Get_def)
  have f: "demo_forwarded = fold add_hop ['' 203.0.113.9'', '' 10.0.0.7''] ''1.2.3.4, 8.8.8.8''"
    by (simp add: demo_forwarded_def add_hop_def)
  have o: "'' 203.0.113.9'' = fold add_hop ['' 203.0.113.9''] ''''" by (simp add: add_hop_def)
  have "list_all (trusted_hop demo_proxies) ['' 10.0.0.7'']"
    by (simp add: trusted_hop_def demo_addresses(3) demo_trust(2))
  then have "ClientIP (?r demo_forwarded) demo_proxies = Some (v4_in_v6 @ [203, 0, 113, 9])"
    using client_address_unforgeable [OF p [of demo_forwarded], of demo_proxies] demo_trust(1,3) demo_addresses(2) f
    unfolding h by fastforce
  moreover have "ClientIP (?r '' 203.0.113.9'') demo_proxies = Some (v4_in_v6 @ [203, 0, 113, 9])"
    using client_address_unforgeable [OF p [of "'' 203.0.113.9''"], of demo_proxies] demo_trust(1,3) demo_addresses(2) o
    unfolding h by fastforce
  moreover have "ClientIP (?r ''1.2.3.4'') [] = Some (v4_in_v6 @ [10, 0, 0, 5])"
    using client_address_unforgeable [OF p [of "''1.2.3.4''"], of "[]"] by (simp add: ipInCIDRs_def)
  ultimately show ?thesis by blast
qed

theorem first_forwarded_line_wins_witness:
  "ClientIP (demo_request ''GET'' [(''X-Forwarded-For'', ''1.2.3.4''), (''X-Forwarded-For'', '' 203.0.113.9'')]) demo_proxies =
    Some (v4_in_v6 @ [1, 2, 3, 4])"
  by (rule first_forwarded_line_wins [OF _ demo_trust(1) _ _ demo_addresses(4) demo_trust(4)])
    (simp_all add: demo_request_def demo_addresses)

theorem open_routes_confined_witness:
  "case NewRouteMatcher [''/webhooks/*''] of Inl _ \<Rightarrow> False
   | Inr m \<Rightarrow> route_Matches m ''/webhooks/./stripe'' \<and> \<not> route_Matches m ''/webhooks/../account''"
proof -
  define m where "m = \<lparr>rm_exact = [], rm_patterns = [[''/webhooks/'', '''']]\<rparr>"
  have m: "NewRouteMatcher [''/webhooks/*''] = Inr m"
    by (simp add: NewRouteMatcher_def add_route_def m_def has_prefix_def has_suffix_def)
  have c: "path_Clean ''/webhooks/../account'' = ''/account''" by code_simp
  have "\<not> route_Matches m ''/webhooks/../account''"
  proof
    assume "route_Matches m ''/webhooks/../account''"
    from open_routes_confined [OF m this] c show False by (auto simp: has_prefix_def Cons_eq_append_conv)
  qed
  moreover have "route_Matches m ''/webhooks/./stripe''" unfolding m_def by code_simp
  ultimately show ?thesis by (simp add: m)
qed

theorem bucket_of_network_witness:
  "resolveKey (demo_limiter\<lparr>rl_trusted := demo_proxies\<rparr>) (demo_request ''GET'' [(''X-Forwarded-For'', ''1.2.3.4'')]) \<noteq>
   resolveKey (demo_limiter\<lparr>rl_trusted := demo_proxies\<rparr>) (demo_request ''GET'' [(''X-Forwarded-For'', '' 203.0.113.9'')])"
proof -
  let ?l = "demo_limiter\<lparr>rl_trusted := demo_proxies\<rparr>"
  have a: "realClientIP ?l (demo_request ''GET'' [(''X-Forwarded-For'', ''1.2.3.4'')]) = Some (v4_in_v6 @ [1, 2, 3, 4])"
    "realClientIP ?l (demo_request ''GET'' [(''X-Forwarded-For'', '' 203.0.113.9'')]) = Some (v4_in_v6 @ [203, 0, 113, 9])"
    using demo_addresses demo_trust by (simp_all add: realClientIP_def ClientIP_def demo_request_def header_Get_def)
  have "To4 (v4_in_v6 @ [1, 2, 3, 4]) = Some [1, 2, 3, 4]" "To4 (v4_in_v6 @ [203, 0, 113, 9]) = Some [203, 0, 113, 9]"
    by (simp_all add: To4_def v4_in_v6_def)
  then show ?thesis
    by (subst bucket_of_network [OF _ a]) (simp_all add: demo_limiter_def v4_in_v6_def)
qed

text \<open>A hash and decoders to run the middlewares with.\<close>

definition demo_web :: web where
  "demo_web = \<lparr>hmac_sha256 = (\<lambda>k s. take 4 (k @ s)), ParseMediaType = (\<lambda>s. (s, True)), ParseQuery = (\<lambda>_. Some []),
     url_Parse = (\<lambda>s. if has_prefix ''https://'' s then Some (''https'', drop 8 s) else None)\<rparr>"

definition demo_csrf :: csrf_options where
  "demo_csrf = \<lparr>co_OpenRoutes = None, co_Secret = replicate 32 CHR ''k'', co_Secure = True\<rparr>"

definition demo_origin :: origin_options where
  "demo_origin = \<lparr>oo_OpenRoutes = None, oo_TrustedOrigins = []\<rparr>"

definition no_session :: "request \<Rightarrow> surroundings" where
  "no_session r = \<lparr>su_finger = None, su_random = Some ''random''\<rparr>"

theorem unsafe_requests_protected_witness:
  "protect demo_web demo_origin demo_csrf no_session (\<lambda>_ _. Handled ())
     (demo_request ''POST'' [(''Origin'', ''https://evil.example''), (csrfHeaderName, ''guess'')]) \<noteq> Handled ()"
proof -
  let ?r = "demo_request ''POST'' [(''Origin'', ''https://evil.example''), (csrfHeaderName, ''guess'')]"
  have "\<not> originMatches demo_web ?r (trusted_origins demo_origin)" by code_simp
  moreover have "\<not> isSafeMethod (rq_Method ?r)" "\<not> Allows (co_OpenRoutes demo_csrf) ?r" "oo_OpenRoutes demo_origin = co_OpenRoutes demo_csrf"
    by (simp_all add: isSafeMethod_def demo_request_def demo_csrf_def demo_origin_def Allows_def)
  ultimately show ?thesis
    using unsafe_requests_protected [of demo_web demo_origin demo_csrf no_session "\<lambda>_ _. Handled ()" ?r "()"] by blast
qed

definition demo_token :: string where
  "demo_token = base64url ''random'' @ ''.'' @ base64url (hmac_sha256 demo_web (co_Secret demo_csrf) (base64url ''random''))"

definition demo_cookie :: cookie where
  "demo_cookie = \<lparr>ck_Name = cookieName True, ck_Value = demo_token, ck_HttpOnly = True, ck_Secure = True,
     ck_SameSiteLax = True, ck_MaxAge = csrfCookieMaxAge\<rparr>"

theorem token_round_trip_witness:
  "let r = (demo_request ''POST'' [(csrfHeaderName, ck_Value demo_cookie)])\<lparr>rq_Cookies := [(ck_Name demo_cookie, ck_Value demo_cookie)]\<rparr>
   in CSRF demo_web demo_csrf (no_session r) (\<lambda>t _. Handled t) r = (None, Handled (Some (ck_Value demo_cookie)))"
proof -
  let ?first = "demo_request ''GET'' []"
  let ?r = "(demo_request ''POST'' [(csrfHeaderName, ck_Value demo_cookie)])\<lparr>rq_Cookies := [(ck_Name demo_cookie, ck_Value demo_cookie)]\<rparr>"
  have "newAnonymousToken demo_web (co_Secret demo_csrf) (Some ''random'') = Some demo_token"
    by (simp add: newAnonymousToken_def demo_token_def Let_def del: base64url.simps)
  moreover have "demo_token \<noteq> ''''" by (simp add: demo_token_def del: base64url.simps)
  ultimately have "fst (CSRF demo_web demo_csrf (no_session ?first) (\<lambda>t _. Handled t) ?first) = Some demo_cookie"
    by (simp add: CSRF_def resolveExpectedToken_def ensureCSRFCookie_def no_session_def demo_request_def Allows_def
        shouldMintAnonymousToken_def header_Get_def demo_cookie_def demo_csrf_def)
  moreover have "hmac_sha256 demo_web (co_Secret demo_csrf) s \<noteq> []" for s by (simp add: demo_web_def demo_csrf_def)
  ultimately show ?thesis
    using token_round_trip [of demo_web demo_csrf "no_session ?first" "\<lambda>t _. Handled t" ?first demo_cookie "no_session ?r" ?r "\<lambda>t _. Handled t"]
    by (simp add: no_session_def header_Get_def demo_request_def demo_csrf_def Allows_def Let_def)
qed

theorem multipart_token_never_valid_witness:
  "\<not> tokenValid demo_web (demo_request ''POST'' [(''Content-Type'', ''multipart/form-data'')]) ''token''"
  by (rule multipart_token_never_valid) (simp_all add: demo_request_def header_Get_def csrfHeaderName_def demo_web_def)

end
