(* ===== verification/Billing_Repo.thy ===== *)
theory Billing_Repo
  imports Wallet Http
begin

text \<open>
  The purchases of the billing feature: \<open>billing/domain/purchase.go\<close> and \<open>money.go\<close>, and the
  store \<open>billing/infra/postgres_purchase.go\<close>. A completed purchase credits the cash points of
  the panel's balances, the \<open>cp_currency\<close> rows of the wallet, in the same transaction.
\<close>

section \<open>domain\<close>

definition StatusPending :: int where "StatusPending = 1"
definition StatusCompleted :: int where "StatusCompleted = 2"
definition StatusDisputed :: int where "StatusDisputed = 3"
definition StatusRefunded :: int where "StatusRefunded = 4"
definition StatusFailed :: int where "StatusFailed = 5"

lemmas purchase_status_defs = StatusPending_def StatusCompleted_def StatusDisputed_def StatusRefunded_def StatusFailed_def

definition StatusLabel :: "int \<Rightarrow> string" where
  "StatusLabel s =
     (if s = StatusPending then ''Pending'' else if s = StatusCompleted then ''Completed''
      else if s = StatusDisputed then ''Disputed'' else if s = StatusRefunded then ''Refunded''
      else if s = StatusFailed then ''Failed'' else ''Unknown'')"

record package =
  pk_Key :: string
  pk_Name :: string
  pk_Currency :: string
  pk_Price :: int
  pk_CashPoints :: int

record catalog =
  ct_byKey :: "(string \<times> package) list"
  ct_order :: "package list"

definition NewCatalog :: "package list \<Rightarrow> catalog" where
  "NewCatalog packages = \<lparr>ct_byKey = rev (map (\<lambda>p. (pk_Key p, p)) packages), ct_order = packages\<rparr>"

definition catalog_List :: "catalog \<Rightarrow> package list" where
  "catalog_List c = ct_order c"

definition catalog_Lookup :: "catalog \<Rightarrow> string \<Rightarrow> package option" where
  "catalog_Lookup c key = map_of (ct_byKey c) key"

record purchase =
  pu_CreatedAt :: int
  pu_CompletedAt :: "int option"
  pu_DisputedAt :: "int option"
  pu_PackageKey :: string
  pu_Provider :: string
  pu_ProviderRef :: string
  pu_ProviderPaymentID :: string
  pu_Currency :: string
  pu_ID :: int
  pu_Amount :: int
  pu_AccountID :: int
  pu_CashPoints :: int
  pu_Status :: int

record purchase_filter =
  pf_From :: "int option"
  pf_To :: "int option"
  pf_Provider :: string
  pf_Status :: int
  pf_AccountID :: int

datatype billing_error = ErrProviderUnavailable | ErrUnknownPackage | ErrPurchaseNotFound

text \<open>What a billing call may fail with: the store, its own errors, a provider, the banner, a bad resource.\<close>

datatype bill_err = Store | Billing billing_error | Provider_failed | Ban_failed | Unresolvable

definition minorUnitExponent :: "(string \<times> int) list" where
  "minorUnitExponent = [(''USD'', 100), (''EUR'', 100), (''JPY'', 1)]"

definition to_upper :: "string \<Rightarrow> string" where
  "to_upper = map (\<lambda>c. if (of_char c :: nat) \<in> {97 .. 122} then char_of ((of_char c :: nat) - 32) else c)"

definition minorFactor :: "string \<Rightarrow> int option" where
  "minorFactor currency = map_of minorUnitExponent (to_upper currency)"

definition ToMinorUnits :: "int \<Rightarrow> string \<Rightarrow> int option" where
  "ToMinorUnits amount currency = map_option (\<lambda>factor. wrap64 (amount * factor)) (minorFactor currency)"

definition ToDecimalString :: "int \<Rightarrow> string \<Rightarrow> string option" where
  "ToDecimalString amount currency = map_option (\<lambda>factor.
     if factor = 1 then FormatInt amount
     else FormatInt amount @ ''.'' @ replicate (length (FormatInt factor) - 1) CHR ''0'') (minorFactor currency)"

definition IsSupportedCurrency :: "string \<Rightarrow> bool" where
  "IsSupportedCurrency currency \<longleftrightarrow> minorFactor currency \<noteq> None"

section \<open>The table\<close>

text \<open>A row; the nullable texts are options, and read as empty when null.\<close>

record purchase_row =
  pr_id :: int
  pr_account_id :: int
  pr_package_key :: string
  pr_provider :: string
  pr_provider_ref :: "string option"
  pr_provider_payment_id :: "string option"
  pr_amount :: int
  pr_currency :: string
  pr_cash_points :: int
  pr_status :: int
  pr_created_at :: int
  pr_completed_at :: "int option"
  pr_disputed_at :: "int option"
  pr_refunded_at :: "int option"
  pr_failed_at :: "int option"

definition purchase_check :: "purchase_row \<Rightarrow> bool" where
  "purchase_check r \<longleftrightarrow> pr_status r \<in> {1, 2, 3, 4, 5} \<and> 0 < pr_amount r \<and> pr_amount r \<le> max_int64 \<and>
     0 < pr_cash_points r \<and> pr_cash_points r \<le> max_int32"

record billdb =
  bl_pg :: pgdb
  cp_purchases :: "purchase_row list"
  purchase_seq :: int

type_synonym 'a bill_prog = "(billdb conn, bill_err, 'a) prog"

definition bill_rb :: "billdb \<Rightarrow> billdb \<Rightarrow> billdb" where
  "bill_rb d0 d1 = d0\<lparr>bl_pg := pg_rb (bl_pg d0) (bl_pg d1), purchase_seq := purchase_seq d1\<rparr>"

text \<open>No billing transaction draws from a sequence.\<close>

definition same_seqs :: "billdb \<Rightarrow> billdb \<Rightarrow> bool" where
  "same_seqs d d' \<longleftrightarrow> pg_seq (bl_pg d') = pg_seq (bl_pg d) \<and> purchase_seq d' = purchase_seq d"

definition billTx :: "'a bill_prog \<Rightarrow> 'a bill_prog" where
  "billTx m = transaction bill_rb Store m"

interpretation bill: store bill_rb same_seqs
  by unfold_locales (auto simp: bill_rb_def same_seqs_def pg.rb_self pg_rb_def)

lemma bill_rb_same: "same_seqs d d' \<Longrightarrow> bill_rb d d' = d"
  by (cases d; cases d') (simp add: bill_rb_def same_seqs_def pg_rb_def)

section \<open>postgres_purchase.go\<close>

definition purchase_of :: "purchase_row \<Rightarrow> purchase" where
  "purchase_of r = \<lparr>pu_CreatedAt = pr_created_at r, pu_CompletedAt = pr_completed_at r, pu_DisputedAt = pr_disputed_at r,
     pu_PackageKey = pr_package_key r, pu_Provider = pr_provider r,
     pu_ProviderRef = (case pr_provider_ref r of None \<Rightarrow> '''' | Some s \<Rightarrow> s),
     pu_ProviderPaymentID = (case pr_provider_payment_id r of None \<Rightarrow> '''' | Some s \<Rightarrow> s),
     pu_Currency = pr_currency r, pu_ID = pr_id r, pu_Amount = pr_amount r, pu_AccountID = pr_account_id r,
     pu_CashPoints = pr_cash_points r, pu_Status = pr_status r\<rparr>"

definition insert_purchase :: "purchase \<Rightarrow> billdb \<Rightarrow> (int \<times> billdb) option" where
  "insert_purchase p d =
     (let i = purchase_seq d + 1;
          r = \<lparr>pr_id = i, pr_account_id = pu_AccountID p, pr_package_key = pu_PackageKey p, pr_provider = pu_Provider p,
            pr_provider_ref = None, pr_provider_payment_id = None, pr_amount = pu_Amount p, pr_currency = pu_Currency p,
            pr_cash_points = pu_CashPoints p, pr_status = pu_Status p, pr_created_at = pu_CreatedAt p,
            pr_completed_at = None, pr_disputed_at = None, pr_refunded_at = None, pr_failed_at = None\<rparr>
      in map_option (\<lambda>t. (i, d\<lparr>cp_purchases := t, purchase_seq := i\<rparr>)) (ins_checked purchase_check r (cp_purchases d)))"

definition purchase_Create :: "purchase \<Rightarrow> int bill_prog" where
  "purchase_Create p = sql Store (insert_purchase p)"

text \<open>A reference is unique among those of a provider.\<close>

definition SetProviderRef :: "int \<Rightarrow> string \<Rightarrow> unit bill_prog" where
  "SetProviderRef i ref = exec_opt Store (\<lambda>d.
     let t = upd_where (\<lambda>r. pr_id r = i) (\<lambda>r. r\<lparr>pr_provider_ref := Some ref\<rparr>) (cp_purchases d)
     in if uniq (\<lambda>r. (pr_provider r, pr_provider_ref r)) (filter (\<lambda>r. pr_provider_ref r \<noteq> None) t)
        then Some (d\<lparr>cp_purchases := t\<rparr>) else None)"

definition GetByID :: "int \<Rightarrow> purchase bill_prog" where
  "GetByID i = query_row Store (Billing ErrPurchaseNotFound)
     (\<lambda>d. map_option purchase_of (find (\<lambda>r. pr_id r = i) (cp_purchases d)))"

definition GetByPaymentID :: "string \<Rightarrow> string \<Rightarrow> purchase bill_prog" where
  "GetByPaymentID provider paymentID = query_row Store (Billing ErrPurchaseNotFound)
     (\<lambda>d. map_option purchase_of
        (find (\<lambda>r. pr_provider r = provider \<and> pr_provider_payment_id r = Some paymentID) (cp_purchases d)))"

text \<open>\<open>UPDATE .. WHERE id AND status\<close>: whether a row was in the status and has left it.\<close>

definition leave_status :: "int \<Rightarrow> int \<Rightarrow> (purchase_row \<Rightarrow> purchase_row) \<Rightarrow> billdb \<Rightarrow> purchase_row option \<times> billdb" where
  "leave_status i s f d =
     (find (\<lambda>r. pr_id r = i \<and> pr_status r = s) (cp_purchases d),
      d\<lparr>cp_purchases := upd_where (\<lambda>r. pr_id r = i \<and> pr_status r = s) f (cp_purchases d)\<rparr>)"

definition completeTx :: "int \<Rightarrow> string \<Rightarrow> int \<Rightarrow> (bool \<times> int \<times> int) bill_prog" where
  "completeTx i paymentID now =
     bindE (sql Store (\<lambda>d. Some (leave_status i 1
         (\<lambda>r. r\<lparr>pr_status := 2, pr_provider_payment_id := Some paymentID, pr_completed_at := Some now\<rparr>) d))) (\<lambda>row.
       case row of
         None \<Rightarrow> retE (False, 0, 0)
       | Some r \<Rightarrow>
           thenE (exec Store (\<lambda>d. d\<lparr>bl_pg := (bl_pg d)\<lparr>cp_currency := ensure_currency (pr_account_id r) (cp_currency (bl_pg d))\<rparr>\<rparr>))
          (thenE (exec_opt Store (\<lambda>d. map_option (\<lambda>t. d\<lparr>bl_pg := (bl_pg d)\<lparr>cp_currency := t\<rparr>\<rparr>)
              (upd_checked currency_check (\<lambda>q. cu_account_id q = pr_account_id r)
                 (\<lambda>q. q\<lparr>cu_cashpoint := cu_cashpoint q + pr_cash_points r\<rparr>) (cp_currency (bl_pg d)))))
             (retE (True, pr_account_id r, pr_cash_points r))))"

definition purchase_Complete :: "int \<Rightarrow> string \<Rightarrow> int \<Rightarrow> (bool \<times> int \<times> int) bill_prog" where
  "purchase_Complete i paymentID now = billTx (completeTx i paymentID now)"

definition mark_status :: "int \<Rightarrow> int \<Rightarrow> (purchase_row \<Rightarrow> purchase_row) \<Rightarrow> bool bill_prog" where
  "mark_status i s f = sql Store (\<lambda>d. Some (apfst (\<lambda>r. r \<noteq> None) (leave_status i s f d)))"

definition MarkDisputed :: "int \<Rightarrow> int \<Rightarrow> bool bill_prog" where
  "MarkDisputed i now = mark_status i 2 (\<lambda>r. r\<lparr>pr_status := 3, pr_disputed_at := Some now\<rparr>)"

definition MarkRefunded :: "int \<Rightarrow> int \<Rightarrow> bool bill_prog" where
  "MarkRefunded i now = mark_status i 2 (\<lambda>r. r\<lparr>pr_status := 4, pr_refunded_at := Some now\<rparr>)"

definition MarkFailed :: "int \<Rightarrow> int \<Rightarrow> bool bill_prog" where
  "MarkFailed i now = mark_status i 1 (\<lambda>r. r\<lparr>pr_status := 5, pr_failed_at := Some now\<rparr>)"

text \<open>Lists, newest first; a negative \<open>LIMIT\<close> or \<open>OFFSET\<close> is refused by the engine.\<close>

definition page_of :: "int \<Rightarrow> int \<Rightarrow> ('d \<Rightarrow> 'r list) \<Rightarrow> ('d conn, bill_err, 'r list) prog" where
  "page_of limit offset f = sql Store (\<lambda>d. if limit < 0 \<or> offset < 0 then None else Some (take (nat limit) (drop (nat offset) (f d)), d))"

definition newest_first :: "purchase_row list \<Rightarrow> purchase_row list" where
  "newest_first = sort_key (\<lambda>r. - pr_id r)"

definition ListPaidByAccount :: "int \<Rightarrow> int \<Rightarrow> purchase list bill_prog" where
  "ListPaidByAccount accountID limit = page_of limit 0 (\<lambda>d. map purchase_of (newest_first
     (filter (\<lambda>r. pr_account_id r = accountID \<and> pr_status r \<in> {2, 3, 4}) (cp_purchases d))))"

definition buildPurchaseFilter :: "purchase_filter \<Rightarrow> purchase_row \<Rightarrow> bool" where
  "buildPurchaseFilter f r \<longleftrightarrow>
     (pf_Status f \<noteq> 0 \<longrightarrow> pr_status r = pf_Status f) \<and> (pf_AccountID f \<noteq> 0 \<longrightarrow> pr_account_id r = pf_AccountID f) \<and>
     (pf_Provider f \<noteq> '''' \<longrightarrow> pr_provider r = pf_Provider f) \<and>
     (case pf_From f of None \<Rightarrow> True | Some t \<Rightarrow> t \<le> pr_created_at r) \<and> (case pf_To f of None \<Rightarrow> True | Some t \<Rightarrow> pr_created_at r < t)"

definition ListFiltered :: "purchase_filter \<Rightarrow> int \<Rightarrow> int \<Rightarrow> (purchase list \<times> int) bill_prog" where
  "ListFiltered f limit offset =
     bindE (query Store (\<lambda>d. int (length (filter (buildPurchaseFilter f) (cp_purchases d))))) (\<lambda>total.
     bindE (page_of limit offset (\<lambda>d. map purchase_of (newest_first (filter (buildPurchaseFilter f) (cp_purchases d))))) (\<lambda>rows.
       retE (rows, total)))"

record earnings =
  ea_Today :: int
  ea_Week :: int
  ea_Month :: int
  ea_AllTime :: int

definition repo_Earnings :: "int \<Rightarrow> int \<Rightarrow> int \<Rightarrow> earnings bill_prog" where
  "repo_Earnings dayStart weekStart monthStart = query Store (\<lambda>d.
     let sold = filter (\<lambda>r. pr_status r = 2) (cp_purchases d);
         since = (\<lambda>t. tsum pr_amount (filter (\<lambda>r. case pr_completed_at r of None \<Rightarrow> False | Some c \<Rightarrow> t \<le> c) sold))
     in \<lparr>ea_Today = since dayStart, ea_Week = since weekStart, ea_Month = since monthStart, ea_AllTime = tsum pr_amount sold\<rparr>)"

end
