(* ===== verification/Billing_Service.thy ===== *)
theory Billing_Service
  imports Billing_Repo
begin

text \<open>
  \<open>billing/app/service.go\<close> and the webhooks of \<open>billing/transport\<close>: checkouts, and what the
  payment providers report of them. The providers' networks, signatures and message decoding
  are outside: a provider is what it answers, an event what its message decodes to.
\<close>

section \<open>The world of the service\<close>

record billing_world =
  bw_conn :: "billdb conn"
  bw_now :: int
  bw_banned :: "int list"

type_synonym 'a billing = "(billing_world, bill_err, 'a) prog"

definition onBill :: "'a bill_prog \<Rightarrow> 'a billing" where
  "onBill m w = (case m (bw_conn w) of (r, c) \<Rightarrow> (r, w\<lparr>bw_conn := c\<rparr>))"

definition billing_now :: "int billing" where
  "billing_now w = (Inr (bw_now w), w)"

section \<open>service.go\<close>

record checkout_request =
  cr_PackageKey :: string
  cr_Description :: string
  cr_Currency :: string
  cr_SuccessURL :: string
  cr_CancelURL :: string
  cr_PurchaseID :: int
  cr_Amount :: int

record checkout_result =
  cx_RedirectURL :: string
  cx_Reference :: string

record capture_outcome =
  co_PaymentID :: string
  co_Completed :: bool

text \<open>
  \<open>None\<close> is a failed call; \<open>pv_Capture\<close> is there for a \<open>Capturer\<close>, \<open>pv_ConfirmsAsync\<close> for an
  \<open>AsyncConfirmer\<close>. A confirmation is the purchase and whether it is paid.
\<close>

record provider =
  pv_Name :: string
  pv_CreateCheckout :: "checkout_request \<Rightarrow> checkout_result option"
  pv_RetrieveCheckout :: "(string \<times> string) list \<Rightarrow> (int \<times> bool) option"
  pv_Capture :: "(string \<Rightarrow> capture_outcome option) option"
  pv_ConfirmsAsync :: bool

record billing_service =
  bs_providers :: "(string \<times> provider) list"
  bs_banner :: "(int \<Rightarrow> string \<Rightarrow> bool) option"
  bs_catalog :: catalog

datatype billing_option = WithProvider provider | WithBanner "int \<Rightarrow> string \<Rightarrow> bool"

definition SetProvider :: "provider \<Rightarrow> billing_service \<Rightarrow> billing_service" where
  "SetProvider p s = s\<lparr>bs_providers := (pv_Name p, p) # bs_providers s\<rparr>"

primrec apply_billing_option :: "billing_option \<Rightarrow> billing_service \<Rightarrow> billing_service" where
  "apply_billing_option (WithProvider p) s = SetProvider p s"
| "apply_billing_option (WithBanner b) s = s\<lparr>bs_banner := Some b\<rparr>"

definition NewBillingService :: "catalog \<Rightarrow> billing_option list \<Rightarrow> billing_service" where
  "NewBillingService c opts = fold apply_billing_option opts \<lparr>bs_providers = [], bs_banner = None, bs_catalog = c\<rparr>"

definition Packages :: "billing_service \<Rightarrow> package list" where
  "Packages s = catalog_List (bs_catalog s)"

definition Available :: "billing_service \<Rightarrow> bool" where
  "Available s \<longleftrightarrow> bs_providers s \<noteq> []"

definition ProviderEnabled :: "billing_service \<Rightarrow> string \<Rightarrow> bool" where
  "ProviderEnabled s key \<longleftrightarrow> map_of (bs_providers s) key \<noteq> None"

definition ProviderConfirmsAsync :: "billing_service \<Rightarrow> string \<Rightarrow> bool" where
  "ProviderConfirmsAsync s key = (case map_of (bs_providers s) key of None \<Rightarrow> False | Some p \<Rightarrow> pv_ConfirmsAsync p)"

definition StartCheckout :: "billing_service \<Rightarrow> int \<Rightarrow> string \<Rightarrow> string \<Rightarrow> string \<Rightarrow> string \<Rightarrow> string billing" where
  "StartCheckout s accountID providerKey packageKey successURL cancelURL =
     (case catalog_Lookup (bs_catalog s) packageKey of
        None \<Rightarrow> failE (Billing ErrUnknownPackage)
      | Some pkg \<Rightarrow>
          (case map_of (bs_providers s) providerKey of
             None \<Rightarrow> failE (Billing ErrProviderUnavailable)
           | Some p \<Rightarrow>
               bindE billing_now (\<lambda>now.
               bindE (onBill (purchase_Create
                   \<lparr>pu_CreatedAt = now, pu_CompletedAt = None, pu_DisputedAt = None, pu_PackageKey = pk_Key pkg,
                    pu_Provider = pv_Name p, pu_ProviderRef = '''', pu_ProviderPaymentID = '''', pu_Currency = pk_Currency pkg,
                    pu_ID = 0, pu_Amount = pk_Price pkg, pu_AccountID = accountID, pu_CashPoints = pk_CashPoints pkg,
                    pu_Status = StatusPending\<rparr>)) (\<lambda>i.
                 case pv_CreateCheckout p \<lparr>cr_PackageKey = pk_Key pkg, cr_Description = pk_Name pkg, cr_Currency = pk_Currency pkg,
                   cr_SuccessURL = successURL, cr_CancelURL = cancelURL, cr_PurchaseID = i, cr_Amount = pk_Price pkg\<rparr> of
                   None \<Rightarrow> failE Provider_failed
                 | Some result \<Rightarrow> thenE (onBill (SetProviderRef i (cx_Reference result))) (retE (cx_RedirectURL result))))))"

definition ConfirmCheckout :: "billing_service \<Rightarrow> string \<Rightarrow> (string \<times> string) list \<Rightarrow> int \<Rightarrow> package option billing" where
  "ConfirmCheckout s providerKey values accountID =
     (case map_of (bs_providers s) providerKey of
        None \<Rightarrow> retE None
      | Some p \<Rightarrow>
          (case pv_RetrieveCheckout p values of
             None \<Rightarrow> retE None
           | Some (purchaseID, paid) \<Rightarrow>
               if \<not> paid then retE None
               else bindE (tryE (onBill (GetByID purchaseID))) (\<lambda>r.
                 case r of
                   Inl e \<Rightarrow> if e = Billing ErrPurchaseNotFound then retE None else failE e
                 | Inr purchase \<Rightarrow>
                     if pu_AccountID purchase \<noteq> accountID then retE None
                     else retE (catalog_Lookup (bs_catalog s) (pu_PackageKey purchase)))))"

definition CompletePurchase :: "int \<Rightarrow> string \<Rightarrow> unit billing" where
  "CompletePurchase purchaseID paymentID =
     bindE billing_now (\<lambda>now. bindE (onBill (purchase_Complete purchaseID paymentID now)) (\<lambda>_. retE ()))"

definition CaptureApprovedOrder :: "billing_service \<Rightarrow> string \<Rightarrow> string \<Rightarrow> int \<Rightarrow> unit billing" where
  "CaptureApprovedOrder s providerKey reference purchaseID =
     (case map_of (bs_providers s) providerKey of
        None \<Rightarrow> failE (Billing ErrProviderUnavailable)
      | Some p \<Rightarrow>
          (case pv_Capture p of
             None \<Rightarrow> retE ()
           | Some capture \<Rightarrow>
               (case capture reference of
                  None \<Rightarrow> failE Provider_failed
                | Some outcome \<Rightarrow>
                    if co_Completed outcome \<and> 0 < purchaseID then CompletePurchase purchaseID (co_PaymentID outcome)
                    else retE ())))"

text \<open>The banner bans or fails; that it banned is recorded.\<close>

definition ban :: "(int \<Rightarrow> string \<Rightarrow> bool) option \<Rightarrow> int \<Rightarrow> unit billing" where
  "ban banner accountID w =
     (case banner of
        None \<Rightarrow> (Inr (), w)
      | Some b \<Rightarrow> if b accountID ''payment chargeback'' then (Inr (), w\<lparr>bw_banned := accountID # bw_banned w\<rparr>) else (Inl Ban_failed, w))"

definition DisputePurchase :: "billing_service \<Rightarrow> string \<Rightarrow> string \<Rightarrow> unit billing" where
  "DisputePurchase s provider paymentID =
     bindE (onBill (GetByPaymentID provider paymentID)) (\<lambda>purchase.
       if pu_Status purchase = StatusDisputed then retE ()
       else if pu_Status purchase \<noteq> StatusCompleted then retE ()
       else thenE (ban (bs_banner s) (pu_AccountID purchase))
              (bindE billing_now (\<lambda>now. bindE (onBill (MarkDisputed (pu_ID purchase) now)) (\<lambda>_. retE ()))))"

definition RefundPurchase :: "string \<Rightarrow> string \<Rightarrow> unit billing" where
  "RefundPurchase provider paymentID =
     bindE (onBill (GetByPaymentID provider paymentID)) (\<lambda>purchase.
     bindE billing_now (\<lambda>now. bindE (onBill (MarkRefunded (pu_ID purchase) now)) (\<lambda>_. retE ())))"

definition FailPurchase :: "int \<Rightarrow> unit billing" where
  "FailPurchase purchaseID = bindE billing_now (\<lambda>now. bindE (onBill (MarkFailed purchaseID now)) (\<lambda>_. retE ()))"

definition maxHistoryLimit :: int where "maxHistoryLimit = 100"

definition clampHistoryLimit :: "int \<Rightarrow> int" where
  "clampHistoryLimit limit = (if limit \<le> 0 \<or> maxHistoryLimit < limit then maxHistoryLimit else limit)"

definition HistoryByAccount :: "int \<Rightarrow> int \<Rightarrow> purchase list billing" where
  "HistoryByAccount accountID limit = onBill (ListPaidByAccount accountID (clampHistoryLimit limit))"

definition AdminHistory :: "purchase_filter \<Rightarrow> int \<Rightarrow> int \<Rightarrow> (purchase list \<times> int) billing" where
  "AdminHistory f page pageSize =
     (let size = clampHistoryLimit pageSize; p = (if page < 1 then 1 else page)
      in onBill (ListFiltered f size (wrap64 (wrap64 (p - 1) * size))))"

section \<open>The webhooks\<close>

definition webhookRetryWindow :: int where "webhookRetryWindow = 15 * 60"

definition isTerminalFulfillmentError :: "bill_err \<Rightarrow> bool" where
  "isTerminalFulfillmentError e \<longleftrightarrow> e = Billing ErrPurchaseNotFound \<or> e = Billing ErrUnknownPackage"

definition parsePurchaseID :: "string \<Rightarrow> int option" where
  "parsePurchaseID raw = (if raw = '''' then None else ParseInt raw)"

text \<open>
  Each provider has its own \<open>ack\<close> with the same text: an error the provider cannot mend is
  swallowed, any other is returned so that it sends the event again.
\<close>

definition ackFulfillment :: "unit billing \<Rightarrow> unit billing" where
  "ackFulfillment m = bindE (tryE m) (\<lambda>r.
     case r of Inr _ \<Rightarrow> retE () | Inl e \<Rightarrow> if isTerminalFulfillmentError e then retE () else failE e)"

text \<open>
  A refund or dispute whose purchase is not there yet is asked for again, but not for ever. The
  time of an event is \<open>None\<close> when it has none.
\<close>

definition ackPaymentMatch :: "int option \<Rightarrow> unit billing \<Rightarrow> unit billing" where
  "ackPaymentMatch created m = bindE (tryE m) (\<lambda>r.
     case r of
       Inr _ \<Rightarrow> retE ()
     | Inl e \<Rightarrow>
         if e = Billing ErrPurchaseNotFound
         then bindE billing_now (\<lambda>now.
                case created of
                  None \<Rightarrow> failE e
                | Some t \<Rightarrow> if now - t < webhookRetryWindow then failE e else retE ())
         else if isTerminalFulfillmentError e then retE () else failE e)"

text \<open>
  A Stripe event after its signature check; \<open>None\<close> as an object is a payload that does not
  decode. \<open>sn_Metadata\<close> is the \<open>purchase_id\<close> of the metadata.
\<close>

record stripe_session =
  sn_Paid :: bool
  sn_Metadata :: "string option"
  sn_PaymentIntent :: "string option"

record stripe_event =
  se_Type :: string
  se_Created :: int
  se_Session :: "stripe_session option"
  se_Intent :: "string option option"

definition purchaseIDFromMetadata :: "string option \<Rightarrow> int option" where
  "purchaseIDFromMetadata m = (case m of None \<Rightarrow> None | Some raw \<Rightarrow> ParseInt raw)"

definition handleCheckoutCompleted :: "stripe_event \<Rightarrow> unit billing" where
  "handleCheckoutCompleted ev =
     (case se_Session ev of
        None \<Rightarrow> retE ()
      | Some sess \<Rightarrow>
          if \<not> sn_Paid sess then retE ()
          else case purchaseIDFromMetadata (sn_Metadata sess) of
                 None \<Rightarrow> retE ()
               | Some i \<Rightarrow> ackFulfillment (CompletePurchase i (case sn_PaymentIntent sess of None \<Rightarrow> '''' | Some p \<Rightarrow> p)))"

definition handleCheckoutFailed :: "stripe_event \<Rightarrow> unit billing" where
  "handleCheckoutFailed ev =
     (case se_Session ev of
        None \<Rightarrow> retE ()
      | Some sess \<Rightarrow>
          (case purchaseIDFromMetadata (sn_Metadata sess) of None \<Rightarrow> retE () | Some i \<Rightarrow> ackFulfillment (FailPurchase i)))"

definition handleChargeRefunded :: "stripe_event \<Rightarrow> unit billing" where
  "handleChargeRefunded ev =
     (case se_Intent ev of
        Some (Some p) \<Rightarrow> ackPaymentMatch (Some (se_Created ev)) (RefundPurchase ''stripe'' p)
      | _ \<Rightarrow> retE ())"

definition handleDisputeCreated :: "billing_service \<Rightarrow> stripe_event \<Rightarrow> unit billing" where
  "handleDisputeCreated s ev =
     (case se_Intent ev of
        Some (Some p) \<Rightarrow> ackPaymentMatch (Some (se_Created ev)) (DisputePurchase s ''stripe'' p)
      | _ \<Rightarrow> retE ())"

definition dispatchStripeEvent :: "billing_service \<Rightarrow> stripe_event \<Rightarrow> unit billing" where
  "dispatchStripeEvent s ev =
     (if se_Type ev \<in> {''checkout.session.completed'', ''checkout.session.async_payment_succeeded''} then handleCheckoutCompleted ev
      else if se_Type ev \<in> {''checkout.session.expired'', ''checkout.session.async_payment_failed''} then handleCheckoutFailed ev
      else if se_Type ev = ''charge.refunded'' then handleChargeRefunded ev
      else if se_Type ev = ''charge.dispute.created'' then handleDisputeCreated s ev
      else retE ())"

text \<open>
  A PayPal event: the order of an approval (its id and the \<open>custom_id\<close> of its first unit), the
  capture (id, \<open>custom_id\<close>), the links of a refund (relation, and the last element of the path,
  \<open>None\<close> where the URL does not parse), the transactions of a dispute.
\<close>

record paypal_event =
  pe_Type :: string
  pe_Time :: "int option"
  pe_Order :: "(string \<times> string option) option"
  pe_Capture :: "(string \<times> string) option"
  pe_Links :: "(string \<times> string option) list option"
  pe_Transactions :: "string list option"

fun paypalCaptureIDFromLinks :: "(string \<times> string option) list \<Rightarrow> string" where
  "paypalCaptureIDFromLinks [] = ''''"
| "paypalCaptureIDFromLinks ((rel, last_element) # links) =
     (if rel \<noteq> ''up'' then paypalCaptureIDFromLinks links else case last_element of None \<Rightarrow> '''' | Some s \<Rightarrow> s)"

definition handlePaypalApproved :: "billing_service \<Rightarrow> paypal_event \<Rightarrow> unit billing" where
  "handlePaypalApproved s ev =
     (case pe_Order ev of
        None \<Rightarrow> retE ()
      | Some (orderID, custom) \<Rightarrow>
          if orderID = '''' then retE ()
          else
            let purchaseID = (case custom of None \<Rightarrow> 0 | Some c \<Rightarrow> (case parsePurchaseID c of None \<Rightarrow> 0 | Some i \<Rightarrow> i))
            in ackFulfillment (CaptureApprovedOrder s ''paypal'' orderID purchaseID))"

definition handlePaypalCaptureCompleted :: "paypal_event \<Rightarrow> unit billing" where
  "handlePaypalCaptureCompleted ev =
     (case pe_Capture ev of
        None \<Rightarrow> retE ()
      | Some (captureID, custom) \<Rightarrow>
          (case parsePurchaseID custom of None \<Rightarrow> retE () | Some i \<Rightarrow> ackFulfillment (CompletePurchase i captureID)))"

definition handlePaypalCaptureDenied :: "paypal_event \<Rightarrow> unit billing" where
  "handlePaypalCaptureDenied ev =
     (case pe_Capture ev of
        None \<Rightarrow> retE ()
      | Some (captureID, custom) \<Rightarrow>
          (case parsePurchaseID custom of None \<Rightarrow> retE () | Some i \<Rightarrow> ackFulfillment (FailPurchase i)))"

definition handlePaypalCaptureRefunded :: "paypal_event \<Rightarrow> unit billing" where
  "handlePaypalCaptureRefunded ev =
     (case pe_Links ev of
        None \<Rightarrow> retE ()
      | Some links \<Rightarrow>
          let captureID = paypalCaptureIDFromLinks links
          in if captureID = '''' then failE Unresolvable else ackPaymentMatch (pe_Time ev) (RefundPurchase ''paypal'' captureID))"

definition handlePaypalDisputeCreated :: "billing_service \<Rightarrow> paypal_event \<Rightarrow> unit billing" where
  "handlePaypalDisputeCreated s ev =
     (case pe_Transactions ev of
        None \<Rightarrow> retE ()
      | Some ts \<Rightarrow>
          (case find (\<lambda>t. t \<noteq> '''') ts of
             None \<Rightarrow> failE Unresolvable
           | Some captureID \<Rightarrow> ackPaymentMatch (pe_Time ev) (DisputePurchase s ''paypal'' captureID)))"

definition dispatchPaypalEvent :: "billing_service \<Rightarrow> paypal_event \<Rightarrow> unit billing" where
  "dispatchPaypalEvent s ev =
     (if pe_Type ev = ''CHECKOUT.ORDER.APPROVED'' then handlePaypalApproved s ev
      else if pe_Type ev = ''PAYMENT.CAPTURE.COMPLETED'' then handlePaypalCaptureCompleted ev
      else if pe_Type ev = ''PAYMENT.CAPTURE.DENIED'' then handlePaypalCaptureDenied ev
      else if pe_Type ev = ''PAYMENT.CAPTURE.REFUNDED'' then handlePaypalCaptureRefunded ev
      else if pe_Type ev = ''CUSTOMER.DISPUTE.CREATED'' then handlePaypalDisputeCreated s ev
      else retE ())"

definition dispatchNowpaymentsIPN :: "string \<Rightarrow> string \<Rightarrow> string \<Rightarrow> unit billing" where
  "dispatchNowpaymentsIPN status orderID paymentID =
     (case parsePurchaseID orderID of
        None \<Rightarrow> retE ()
      | Some i \<Rightarrow>
          if status = ''finished'' then ackFulfillment (CompletePurchase i paymentID)
          else if status = ''partially_paid'' then ackFulfillment (FailPurchase i)
          else if status \<in> {''failed'', ''expired''} then ackFulfillment (FailPurchase i)
          else if status = ''refunded'' then ackFulfillment (RefundPurchase ''crypto'' paymentID)
          else retE ())"

text \<open>
  The webhooks: an unconfigured one answers 503, a body that cannot be read or a bad signature
  400, an error of the handler 500, which asks the provider to send the event again. For PayPal
  the signature is checked by a call that may itself fail. An event is \<open>None\<close> when the signed
  message has nothing that decodes.
\<close>

datatype verdict = Bad_signature | Check_failed | Signed

definition answer_webhook :: "bool \<Rightarrow> bool \<Rightarrow> nat option \<Rightarrow> ('e \<Rightarrow> unit billing) \<Rightarrow> 'e option \<Rightarrow> billing_world \<Rightarrow> nat \<times> billing_world" where
  "answer_webhook configured readable rejected dispatch event w =
     (if \<not> configured then (503, w)
      else if \<not> readable then (400, w)
      else case rejected of
        Some status \<Rightarrow> (status, w)
      | None \<Rightarrow>
          (case event of
             None \<Rightarrow> (200, w)
           | Some ev \<Rightarrow> (case dispatch ev w of (Inr _, v) \<Rightarrow> (200, v) | (Inl _, v) \<Rightarrow> (500, v))))"

definition stripeWebhook :: "billing_service \<Rightarrow> bool \<Rightarrow> bool \<Rightarrow> verdict \<Rightarrow> stripe_event option \<Rightarrow> billing_world \<Rightarrow> nat \<times> billing_world" where
  "stripeWebhook s configured readable v =
     answer_webhook configured readable (if v = Signed then None else Some 400) (dispatchStripeEvent s)"

definition paypalWebhook :: "billing_service \<Rightarrow> bool \<Rightarrow> bool \<Rightarrow> verdict \<Rightarrow> paypal_event option \<Rightarrow> billing_world \<Rightarrow> nat \<times> billing_world" where
  "paypalWebhook s configured readable v =
     answer_webhook configured readable
       (case v of Signed \<Rightarrow> None | Check_failed \<Rightarrow> Some 500 | Bad_signature \<Rightarrow> Some 400) (dispatchPaypalEvent s)"

definition nowpaymentsWebhook :: "bool \<Rightarrow> bool \<Rightarrow> verdict \<Rightarrow> (string \<times> string \<times> string) option \<Rightarrow> billing_world \<Rightarrow> nat \<times> billing_world" where
  "nowpaymentsWebhook configured readable v =
     answer_webhook configured readable (if v = Signed then None else Some 400)
       (\<lambda>(status, orderID, paymentID). dispatchNowpaymentsIPN status orderID paymentID)"

section \<open>Histories\<close>

text \<open>
  What happens to the panel, in any order: checkouts, messages to the webhooks, time passing.
  Each call comes with the service as it is then, since providers and the banner answer anew.
\<close>

datatype webhook_message =
    Stripe_message bool bool verdict "stripe_event option"
  | Paypal_message bool bool verdict "paypal_event option"
  | Crypto_message bool bool verdict "(string \<times> string \<times> string) option"

primrec answer :: "billing_service \<Rightarrow> webhook_message \<Rightarrow> billing_world \<Rightarrow> nat \<times> billing_world" where
  "answer s (Stripe_message c r v ev) = stripeWebhook s c r v ev"
| "answer s (Paypal_message c r v ev) = paypalWebhook s c r v ev"
| "answer s (Crypto_message c r v ev) = nowpaymentsWebhook c r v ev"

datatype billing_call = Checkout int string string string string | Webhook webhook_message | Wait nat

primrec run_billing_call :: "billing_service \<Rightarrow> billing_call \<Rightarrow> billing_world \<Rightarrow> billing_world" where
  "run_billing_call s (Checkout a p k su ca) w = snd (StartCheckout s a p k su ca w)"
| "run_billing_call s (Webhook m) w = snd (answer s m w)"
| "run_billing_call s (Wait n) w = w\<lparr>bw_now := bw_now w + int n\<rparr>"

definition run_billing :: "(billing_service \<times> billing_call) list \<Rightarrow> billing_world \<Rightarrow> billing_world" where
  "run_billing = fold (\<lambda>(s, x). run_billing_call s x)"

end
