(* ===== verification/Billing_Safety.thy ===== *)
theory Billing_Safety
  imports Billing_Service
begin

text \<open>
  What the billing store keeps true: every cash point a purchase was completed for is on the
  buyer's balance, once, and a purchase only ever moves forward through its statuses.
\<close>

section \<open>The books\<close>

text \<open>The points of an account's paid purchases: completed, or completed and later disputed or refunded.\<close>

definition paid_points :: "purchase_row list \<Rightarrow> int \<Rightarrow> int" where
  "paid_points t a = tsum (\<lambda>r. if pr_account_id r = a \<and> pr_status r \<in> {2, 3, 4} then pr_cash_points r else 0) t"

definition bill_inv :: "billdb \<Rightarrow> bool" where
  "bill_inv d \<longleftrightarrow> wallet_inv (bl_pg d) \<and> uniq pr_id (cp_purchases d) \<and>
     (\<forall>r \<in> set (cp_purchases d). purchase_check r \<and> pr_id r \<le> purchase_seq d)"

definition status_leads :: "int \<Rightarrow> int \<Rightarrow> bool" where
  "status_leads s s' \<longleftrightarrow> s' = s \<or> (s, s') \<in> {(1, 2), (1, 3), (1, 4), (1, 5), (2, 3), (2, 4)}"

text \<open>The same purchase later: its terms are the same and its status has only moved forward.\<close>

definition same_purchase :: "purchase_row \<Rightarrow> purchase_row \<Rightarrow> bool" where
  "same_purchase r r' \<longleftrightarrow> pr_id r' = pr_id r \<and> pr_account_id r' = pr_account_id r \<and> pr_package_key r' = pr_package_key r \<and>
     pr_provider r' = pr_provider r \<and> pr_amount r' = pr_amount r \<and> pr_currency r' = pr_currency r \<and>
     pr_cash_points r' = pr_cash_points r \<and> status_leads (pr_status r) (pr_status r')"

definition same_wallet_but :: "(int \<Rightarrow> int) \<Rightarrow> pgdb \<Rightarrow> pgdb \<Rightarrow> bool" where
  "same_wallet_but g p p' \<longleftrightarrow> p'\<lparr>cp_currency := cp_currency p, pg_seq := pg_seq p\<rparr> = p \<and>
     bal (cp_currency p') = (\<lambda>a. (fst (bal (cp_currency p) a), snd (bal (cp_currency p) a) + g a))"

text \<open>\<open>books d d'\<close>: from \<open>d\<close> the panel may come to \<open>d'\<close>.\<close>

definition books :: "billdb \<Rightarrow> billdb \<Rightarrow> bool" where
  "books d d' \<longleftrightarrow> (bill_inv d \<longrightarrow> bill_inv d' \<and>
     same_wallet_but (\<lambda>a. paid_points (cp_purchases d') a - paid_points (cp_purchases d) a) (bl_pg d) (bl_pg d') \<and>
     (\<forall>r \<in> set (cp_purchases d). \<exists>r' \<in> set (cp_purchases d'). same_purchase r r'))"

lemma status_leads_trans: "status_leads a b \<Longrightarrow> status_leads b c \<Longrightarrow> status_leads a c"
  by (auto simp: status_leads_def)

lemma same_purchase_refl [simp]: "same_purchase r r"
  by (simp add: same_purchase_def status_leads_def)

lemma same_purchase_trans: "same_purchase a b \<Longrightarrow> same_purchase b c \<Longrightarrow> same_purchase a c"
  by (auto simp: same_purchase_def intro: status_leads_trans)

lemma same_wallet_refl [simp]: "(\<And>a. g a = 0) \<Longrightarrow> same_wallet_but g p p"
  by (simp add: same_wallet_but_def)

lemma same_wallet_trans:
  "same_wallet_but g p q \<Longrightarrow> same_wallet_but h q r \<Longrightarrow> (\<And>a. k a = g a + h a) \<Longrightarrow> same_wallet_but k p r"
  by (cases p; cases q; cases r) (simp add: same_wallet_but_def add.assoc)

lemma books_refl [simp]: "books d d"
  using same_purchase_refl unfolding books_def by (meson same_wallet_refl diff_self)

lemma books_trans:
  assumes "books a b" and "books b c"
  shows "books a c"
  unfolding books_def
proof (intro impI conjI ballI)
  assume a: "bill_inv a"
  with assms(1) have b: "bill_inv b" by (simp add: books_def)
  with assms(2) show "bill_inv c" by (simp add: books_def)
  have "same_wallet_but (\<lambda>x. paid_points (cp_purchases b) x - paid_points (cp_purchases a) x) (bl_pg a) (bl_pg b)"
    "same_wallet_but (\<lambda>x. paid_points (cp_purchases c) x - paid_points (cp_purchases b) x) (bl_pg b) (bl_pg c)"
    using a b assms by (simp_all add: books_def)
  then show "same_wallet_but (\<lambda>x. paid_points (cp_purchases c) x - paid_points (cp_purchases a) x) (bl_pg a) (bl_pg c)"
    by (rule same_wallet_trans) simp
  fix r assume "r \<in> set (cp_purchases a)"
  with a assms(1) obtain r' where r': "r' \<in> set (cp_purchases b)" "same_purchase r r'" by (auto simp: books_def)
  with b assms(2) obtain r'' where "r'' \<in> set (cp_purchases c)" "same_purchase r' r''" by (auto simp: books_def)
  with r'(2) show "\<exists>r' \<in> set (cp_purchases c). same_purchase r r'" by (blast intro: same_purchase_trans)
qed

lemma booksD:
  assumes "books d d'" and "bill_inv d"
  shows "bill_inv d'"
    and "snd (bal (cp_currency (bl_pg d')) a) =
      snd (bal (cp_currency (bl_pg d)) a) + (paid_points (cp_purchases d') a - paid_points (cp_purchases d) a)"
    and "r \<in> set (cp_purchases d) \<Longrightarrow> \<exists>r' \<in> set (cp_purchases d'). same_purchase r r'"
  using assms by (simp_all add: books_def same_wallet_but_def)

section \<open>Statements that keep the books\<close>

lemma the_purchase:
  assumes "uniq pr_id t" and "find (\<lambda>r. pr_id r = i \<and> pr_status r = s) t = Some r"
  shows "r \<in> set t" and "pr_id r = i" and "pr_status r = s"
    and "upd_where (\<lambda>r. pr_id r = i \<and> pr_status r = s) f t = upd_where (\<lambda>q. pr_id q = pr_id r) f t"
proof -
  from assms(2) show r: "r \<in> set t" "pr_id r = i" "pr_status r = s" by (auto simp: find_Some_iff)
  have "(pr_id q = i \<and> pr_status q = s) = (pr_id q = pr_id r)" if "q \<in> set t" for q
    using uniq_the_row [OF assms(1) that r(1)] r by auto
  then show "upd_where (\<lambda>r. pr_id r = i \<and> pr_status r = s) f t = upd_where (\<lambda>q. pr_id q = pr_id r) f t"
    by (simp add: upd_where_def)
qed

lemma paid_upd:
  assumes "uniq pr_id t" and "r \<in> set t"
  shows "paid_points (upd_where (\<lambda>q. pr_id q = pr_id r) f t) a = paid_points t a -
    (if pr_account_id r = a \<and> pr_status r \<in> {2, 3, 4} then pr_cash_points r else 0) +
    (if pr_account_id (f r) = a \<and> pr_status (f r) \<in> {2, 3, 4} then pr_cash_points (f r) else 0)"
  unfolding paid_points_def by (rule tsum_upd_row [OF assms])

lemma no_purchase: "find p t = None \<Longrightarrow> upd_where p f t = t"
  by (rule upd_where_none) (auto simp: find_None_iff)

text \<open>One purchase moves on; its points go to the wallet when it comes to be paid.\<close>

lemma books_row:
  assumes inv: "bill_inv d" and r: "r \<in> set (cp_purchases d)" and f: "same_purchase r (f r)" "purchase_check (f r)"
    and d': "cp_purchases d' = upd_where (\<lambda>q. pr_id q = pr_id r) f (cp_purchases d)" "purchase_seq d' = purchase_seq d"
    and w: "wallet_inv (bl_pg d')"
    and g: "same_wallet_but (\<lambda>a. if pr_account_id r = a \<and> pr_status r \<notin> {2, 3, 4} \<and> pr_status (f r) \<in> {2, 3, 4}
        then pr_cash_points r else 0) (bl_pg d) (bl_pg d')"
  shows "books d d'"
proof -
  let ?f = "\<lambda>q. if pr_id q = pr_id r then f q else q"
  from inv have u: "uniq pr_id (cp_purchases d)" by (simp add: bill_inv_def)
  have one: "q = r" if "q \<in> set (cp_purchases d)" "pr_id q = pr_id r" for q using uniq_the_row [OF u that(1) r that(2)] .
  have ids: "map pr_id (cp_purchases d') = map pr_id (cp_purchases d)"
    unfolding d' upd_where_def using one f(1) by (auto simp: same_purchase_def)
  have rows: "purchase_check q' \<and> pr_id q' \<le> purchase_seq d'" if "q' \<in> set (cp_purchases d')" for q'
  proof -
    from that obtain q where q: "q \<in> set (cp_purchases d)" "q' = ?f q" by (auto simp: d' set_upd_where)
    show ?thesis
    proof (cases "pr_id q = pr_id r")
      case True
      with q one have "q' = f r" by auto
      with f r inv show ?thesis by (simp add: bill_inv_def d' same_purchase_def)
    next
      case False
      with q inv show ?thesis by (simp add: bill_inv_def d')
    qed
  qed
  have "same_purchase q (?f q)" "?f q \<in> set (cp_purchases d')" if "q \<in> set (cp_purchases d)" for q
    using that one f by (auto simp: d' set_upd_where)
  moreover have "bill_inv d'"
    unfolding bill_inv_def
  proof (intro conjI ballI)
    show "uniq pr_id (cp_purchases d')" using u ids by (simp add: uniq_def)
    fix q' assume "q' \<in> set (cp_purchases d')"
    with rows show "purchase_check q'" "pr_id q' \<le> purchase_seq d'" by auto
  qed (rule w)
  moreover have "same_wallet_but (\<lambda>a. paid_points (cp_purchases d') a - paid_points (cp_purchases d) a) (bl_pg d) (bl_pg d')"
  proof -
    have "(\<lambda>a. paid_points (cp_purchases d') a - paid_points (cp_purchases d) a) =
        (\<lambda>a. if pr_account_id r = a \<and> pr_status r \<notin> {2, 3, 4} \<and> pr_status (f r) \<in> {2, 3, 4} then pr_cash_points r else 0)"
    proof
      fix a
      show "paid_points (cp_purchases d') a - paid_points (cp_purchases d) a =
          (if pr_account_id r = a \<and> pr_status r \<notin> {2, 3, 4} \<and> pr_status (f r) \<in> {2, 3, 4} then pr_cash_points r else 0)"
        unfolding d' paid_upd [OF u r] using f(1) by (auto simp: same_purchase_def status_leads_def)
    qed
    with g show ?thesis by simp
  qed
  ultimately show ?thesis by (auto simp: books_def)
qed
lemma books_insert:
  assumes "insert_purchase p d = Some (i, d')" and "pu_Status p = StatusPending"
  shows "books d d'"
proof -
  from assms obtain r where r: "cp_purchases d' = cp_purchases d @ [r]" "pr_id r = purchase_seq d + 1" "purchase_check r"
    "pr_status r = 1" "purchase_seq d' = purchase_seq d + 1" "bl_pg d' = bl_pg d"
    by (auto simp: insert_purchase_def Let_def ins_checked_Some StatusPending_def)
  show ?thesis
    unfolding books_def
  proof (intro impI conjI ballI)
    assume inv: "bill_inv d"
    with r show "bill_inv d'" by (auto simp: bill_inv_def)
    from r show "same_wallet_but (\<lambda>a. paid_points (cp_purchases d') a - paid_points (cp_purchases d) a) (bl_pg d) (bl_pg d')"
      by (simp add: paid_points_def)
    fix q assume "q \<in> set (cp_purchases d)"
    with r show "\<exists>q' \<in> set (cp_purchases d'). same_purchase q q'" by (intro bexI [of _ q]) simp_all
  qed
qed

lemma books_leave:
  assumes "leave_status i s f d = (ro, d')" and "\<And>r. pr_status r = s \<Longrightarrow> same_purchase r (f r) \<and> pr_status (f r) \<in> {1, 2, 3, 4, 5}"
    and "s \<in> {2, 3, 4} \<or> (\<forall>r. pr_status (f r) \<notin> {2, 3, 4})"
  shows "books d d'"
proof (cases "bill_inv d")
  case inv: True
  then have u: "uniq pr_id (cp_purchases d)" by (simp add: bill_inv_def)
  show ?thesis
  proof (cases ro)
    case None
    with assms(1) have "d' = d" by (auto simp: leave_status_def no_purchase)
    then show ?thesis by simp
  next
    case (Some r)
    with assms(1) have fr: "find (\<lambda>r. pr_id r = i \<and> pr_status r = s) (cp_purchases d) = Some r" by (simp add: leave_status_def)
    note r = the_purchase [OF u fr]
    from r(1) inv have "purchase_check r" by (simp add: bill_inv_def)
    with r assms(2) have "same_purchase r (f r)" "purchase_check (f r)" by (auto simp: purchase_check_def same_purchase_def)
    with inv r assms show ?thesis
      by (intro books_row [of d r f d']) (auto simp: leave_status_def bill_inv_def)
  qed
qed (simp add: books_def)

section \<open>The repository\<close>

lemma Create_books: "pu_Status p = StatusPending \<Longrightarrow> steps books (purchase_Create p)"
  unfolding purchase_Create_def by (rule steps_sql) (auto intro: books_insert)

lemma mark_books:
  assumes "\<And>r. pr_status r = s \<Longrightarrow> same_purchase r (f r) \<and> pr_status (f r) \<in> {1, 2, 3, 4, 5}"
    and "s \<in> {2, 3, 4} \<or> (\<forall>r. pr_status (f r) \<notin> {2, 3, 4})"
  shows "steps books (mark_status i s f)"
  unfolding mark_status_def
proof (rule steps_sql)
  fix d x d' assume "Some (apfst (\<lambda>r. r \<noteq> None) (leave_status i s f d)) = Some (x, d')"
  then obtain ro where "leave_status i s f d = (ro, d')" by (cases "leave_status i s f d") auto
  from books_leave [OF this assms] show "books d d'" .
qed simp

lemmas same_purchase_defs = same_purchase_def status_leads_def

lemma mark_all_books [intro]:
  "steps books (MarkDisputed i n)" "steps books (MarkRefunded i n)" "steps books (MarkFailed i n)"
  unfolding MarkDisputed_def MarkRefunded_def MarkFailed_def
  by (rule mark_books; simp add: same_purchase_defs)+

lemma SetProviderRef_books [intro]: "steps books (SetProviderRef i ref)"
  unfolding SetProviderRef_def exec_opt_def
proof (rule steps_sql)
  fix d d' :: billdb and x
  let ?f = "\<lambda>r :: purchase_row. r\<lparr>pr_provider_ref := Some ref\<rparr>"
  assume "map_option (\<lambda>d'. ((), d')) (let t = upd_where (\<lambda>r. pr_id r = i) ?f (cp_purchases d)
     in if uniq (\<lambda>r. (pr_provider r, pr_provider_ref r)) (filter (\<lambda>r. pr_provider_ref r \<noteq> None) t)
        then Some (d\<lparr>cp_purchases := t\<rparr>) else None) = Some (x, d')"
  then have d': "d' = d\<lparr>cp_purchases := upd_where (\<lambda>r. pr_id r = i) ?f (cp_purchases d)\<rparr>"
    by (auto simp: Let_def split: if_splits)
  show "books d d'"
  proof (cases "bill_inv d \<and> (\<exists>r \<in> set (cp_purchases d). pr_id r = i)")
    case True
    then obtain r where "r \<in> set (cp_purchases d)" "pr_id r = i" by blast
    with True d' show ?thesis
      by (intro books_row [of d r ?f d']) (auto simp: bill_inv_def purchase_check_def same_purchase_defs)
  next
    case False
    then consider "\<not> bill_inv d" | "d' = d" using d' upd_where_none [of "cp_purchases d" "\<lambda>r. pr_id r = i" ?f] by auto
    then show ?thesis by (metis books_def books_refl)
  qed
qed simp
text \<open>What a committed \<open>Complete\<close> did.\<close>

lemma completeTx_Inr:
  assumes "completeTx i p now u = (Inr (credited, a, c), v)"
  obtains (other) "\<not> credited" "data v = data u" "find (\<lambda>r. pr_id r = i \<and> pr_status r = 1) (cp_purchases (data u)) = None"
  | (credit) r t where "credited" "a = pr_account_id r" "c = pr_cash_points r"
      "find (\<lambda>r. pr_id r = i \<and> pr_status r = 1) (cp_purchases (data u)) = Some r"
      "upd_checked currency_check (\<lambda>q. cu_account_id q = pr_account_id r)
         (\<lambda>q. q\<lparr>cu_cashpoint := cu_cashpoint q + pr_cash_points r\<rparr>)
         (ensure_currency (pr_account_id r) (cp_currency (bl_pg (data u)))) = Some t"
      "data v = (data u)\<lparr>cp_purchases := upd_where (\<lambda>r. pr_id r = i \<and> pr_status r = 1)
           (\<lambda>r. r\<lparr>pr_status := 2, pr_provider_payment_id := Some p, pr_completed_at := Some now\<rparr>) (cp_purchases (data u)),
         bl_pg := (bl_pg (data u))\<lparr>cp_currency := t\<rparr>\<rparr>"
proof (cases "find (\<lambda>r. pr_id r = i \<and> pr_status r = 1) (cp_purchases (data u))")
  case None
  with no_purchase [OF None] assms show ?thesis
    by (intro other) (auto simp: completeTx_def leave_status_def success_inv split: option.splits)
next
  case (Some r)
  let ?t = "upd_checked currency_check (\<lambda>q. cu_account_id q = pr_account_id r)
    (\<lambda>q. q\<lparr>cu_cashpoint := cu_cashpoint q + pr_cash_points r\<rparr>) (ensure_currency (pr_account_id r) (cp_currency (bl_pg (data u))))"
  from Some assms show ?thesis
    by (cases ?t; intro credit [of r "the ?t"]) (auto simp: completeTx_def leave_status_def success_inv)
qed

text \<open>The credit on the wallet: the account's balance grows by the points and nothing else moves.\<close>

lemma credit_wallet:
  assumes "currency_inv c" and "upd_checked currency_check (\<lambda>q. cu_account_id q = a)
    (\<lambda>q. q\<lparr>cu_cashpoint := cu_cashpoint q + n\<rparr>) (ensure_currency a c) = Some t"
  shows "currency_inv t"
    and "bal t = (\<lambda>b. (fst (bal c b), snd (bal c b) + (if a = b then n else 0)))"
    and "snd (bal c a) + n \<le> max_int32"
proof -
  let ?f = "\<lambda>q :: currency_row. q\<lparr>cu_cashpoint := cu_cashpoint q + n\<rparr>"
  let ?e = "ensure_currency a c"
  from assms(2) have t: "t = upd_where (\<lambda>q. cu_account_id q = a) ?f ?e"
    and chk: "\<forall>q \<in> set ?e. cu_account_id q = a \<longrightarrow> currency_check (?f q)" by (simp_all add: upd_checked_Some)
  from assms(1) have e: "currency_inv ?e" by simp
  with chk show "currency_inv t"
    unfolding currency_inv_def t by (auto simp: uniq_upd_where set_upd_where)
  obtain q where q: "find (\<lambda>r. cu_account_id r = a) ?e = Some q" using ensure_has_row by blast
  have "bal t b = (fst (bal ?e b), snd (bal ?e b) + (if a = b then n else 0))" for b
    unfolding t bal_def using q by (auto simp: find_upd_row split: option.splits)
  then show b: "bal t = (\<lambda>b. (fst (bal c b), snd (bal c b) + (if a = b then n else 0)))" by auto
  from q chk have "currency_check (?f q)" by (auto dest: find_key_Some)
  moreover from q have "bal c a = (cu_zeny q, cu_cashpoint q)" using bal_ensure [of a c] by (metis bal_def option.simps(5))
  ultimately show "snd (bal c a) + n \<le> max_int32" by (simp add: currency_check_def cash_ok_def max_int32_def)
qed

lemma completeTx_books:
  assumes "completeTx i p now u = (Inr x, v)"
  shows "books (data u) (data v)"
proof (cases "bill_inv (data u)")
  case inv: True
  obtain k a c where "x = (k, a, c)" by (cases x)
  with assms have "completeTx i p now u = (Inr (k, a, c), v)" by simp
  then show ?thesis
  proof (cases rule: completeTx_Inr)
    case (credit r t)
    let ?f = "\<lambda>r :: purchase_row. r\<lparr>pr_status := 2, pr_provider_payment_id := Some p, pr_completed_at := Some now\<rparr>"
    from inv have u: "uniq pr_id (cp_purchases (data u))" and cu: "currency_inv (cp_currency (bl_pg (data u)))"
      by (simp_all add: bill_inv_def wallet_inv_def)
    note r = the_purchase [OF u credit(4)] and w = credit_wallet [OF cu credit(5)]
    from r(1) inv have "purchase_check r" by (simp add: bill_inv_def)
    then show ?thesis
      using inv r(1-3) w(1,2) credit(6) r(4) [of ?f]
      by (intro books_row [of "data u" r ?f "data v"])
        (auto simp: same_purchase_defs purchase_check_def bill_inv_def wallet_inv_def same_wallet_but_def)
  qed simp
qed (simp add: books_def)

lemma completeTx_seqs: "steps same_seqs (completeTx i p now)"
  unfolding completeTx_def
  by (intro bill.grows_bind bill.grows_sql)
    (auto simp: same_seqs_def leave_status_def split: option.split intro!: bill.grows_then bill.grows_exec bill.grows_exec_opt)

lemma Complete_cases:
  assumes "purchase_Complete i p now s = (r, t)"
  obtains (undone) e where "r = Inl e" "data t = data s"
  | (committed) u x v where "completeTx i p now u = (Inr x, v)" "data u = data s" "data t = data v" "r = Inr x \<or> r = Inl Store"
proof -
  from assms have "transaction bill_rb Store (completeTx i p now) s = (r, t)" by (simp add: purchase_Complete_def billTx_def)
  with completeTx_seqs show ?thesis
  proof (cases rule: bill.tx_outcome)
    case (undone d e')
    then show ?thesis by (intro that(1)) (simp_all add: bill_rb_same)
  next
    case (committed u x v)
    then show ?thesis by (intro that(2))
  qed
qed

lemma Complete_books [intro]: "steps books (purchase_Complete i p now)"
  unfolding steps_def
proof
  fix s
  obtain r t where rt: "purchase_Complete i p now s = (r, t)" by fastforce
  then have "books (data s) (data t)"
  proof (cases rule: Complete_cases)
    case (committed u x v)
    with completeTx_books [OF committed(1)] show ?thesis by simp
  qed simp
  with rt show "books (data s) (data (snd (purchase_Complete i p now s)))" by simp
qed

lemma Get_books [intro]: "steps books (GetByID i)" "steps books (GetByPaymentID pr p)"
  unfolding GetByID_def GetByPaymentID_def query_row_def
  by (intro steps_bind [where R = books, OF books_trans] steps_query; auto intro: steps_ret steps_fail split: option.split)+
section \<open>The service and its webhooks\<close>

text \<open>\<open>moves m\<close>: whatever \<open>m\<close> answers, the panel has only moved along its books.\<close>

definition moves :: "'a billing \<Rightarrow> bool" where
  "moves m \<longleftrightarrow> (\<forall>w. books (data (bw_conn w)) (data (bw_conn (snd (m w)))))"

named_theorems moves_intro \<open>programs that keep the books\<close>

lemma movesD: "moves m \<Longrightarrow> m w = (r, v) \<Longrightarrow> books (data (bw_conn w)) (data (bw_conn v))"
  unfolding moves_def by (metis snd_conv)

lemma moves_ret [moves_intro]: "moves (retE x)"
  by (simp add: moves_def retE_def)

lemma moves_fail [moves_intro]: "moves (failE e)"
  by (simp add: moves_def failE_def)

lemma moves_now [moves_intro]: "moves billing_now"
  by (simp add: moves_def billing_now_def)

lemma moves_ban [moves_intro]: "moves (ban b a)"
  by (simp add: moves_def ban_def split: option.split)

lemma moves_onBill [moves_intro]: "steps books m \<Longrightarrow> moves (onBill m)"
  unfolding moves_def onBill_def by (auto dest: stepsD split: prod.split)

lemma moves_bind [moves_intro]:
  assumes "moves m" and "\<And>x. moves (f x)"
  shows "moves (bindE m f)"
  unfolding moves_def
proof
  fix w
  obtain r v where rv: "m w = (r, v)" by fastforce
  with assms(1) have "books (data (bw_conn w)) (data (bw_conn v))" by (rule movesD)
  moreover from assms(2) have "books (data (bw_conn v)) (data (bw_conn (snd (f x v))))" for x by (simp add: moves_def)
  ultimately show "books (data (bw_conn w)) (data (bw_conn (snd (bindE m f w))))"
    using rv by (auto simp: bindE_def split: sum.split intro: books_trans)
qed

lemma moves_then [moves_intro]: "moves m \<Longrightarrow> moves n \<Longrightarrow> moves (thenE m n)"
  unfolding thenE_def by (rule moves_bind)

lemma moves_try [moves_intro]: "moves m \<Longrightarrow> moves (tryE m)"
  by (simp add: moves_def tryE_def split_beta)

lemma moves_if [moves_intro]: "(b \<Longrightarrow> moves m) \<Longrightarrow> (\<not> b \<Longrightarrow> moves n) \<Longrightarrow> moves (if b then m else n)"
  by simp

lemma moves_option [moves_intro]: "moves n \<Longrightarrow> (\<And>x. moves (f x)) \<Longrightarrow> moves (case x of None \<Rightarrow> n | Some y \<Rightarrow> f y)"
  by (cases x) simp_all

lemma moves_sum [moves_intro]: "(\<And>e. moves (f e)) \<Longrightarrow> (\<And>x. moves (g x)) \<Longrightarrow> moves (case x of Inl e \<Rightarrow> f e | Inr y \<Rightarrow> g y)"
  by (cases x) simp_all

lemma moves_pair [moves_intro]: "(\<And>a b. moves (f a b)) \<Longrightarrow> moves (case x of (a, b) \<Rightarrow> f a b)"
  by (cases x) simp

lemmas repo_books = Create_books SetProviderRef_books Get_books mark_all_books Complete_books

lemma moves_service [moves_intro]:
  "moves (StartCheckout s a p k su ca)" "moves (CompletePurchase i pay)" "moves (FailPurchase i)" "moves (RefundPurchase pr pay)"
  "moves (DisputePurchase s pr pay)"
  unfolding StartCheckout_def CompletePurchase_def FailPurchase_def RefundPurchase_def DisputePurchase_def
  by (intro moves_intro repo_books; simp)+

lemma moves_capture [moves_intro]: "moves (CaptureApprovedOrder s pr ref i)"
  unfolding CaptureApprovedOrder_def by (intro moves_intro)

lemma moves_ack [moves_intro]: "moves m \<Longrightarrow> moves (ackFulfillment m)" "moves m \<Longrightarrow> moves (ackPaymentMatch t m)"
  unfolding ackFulfillment_def ackPaymentMatch_def by (intro moves_intro; assumption)+

lemma moves_stripe [moves_intro]: "moves (dispatchStripeEvent s ev)"
  unfolding dispatchStripeEvent_def handleCheckoutCompleted_def handleCheckoutFailed_def handleChargeRefunded_def handleDisputeCreated_def
  by (intro moves_intro)

lemma moves_paypal [moves_intro]: "moves (dispatchPaypalEvent s ev)"
  unfolding dispatchPaypalEvent_def handlePaypalApproved_def handlePaypalCaptureCompleted_def handlePaypalCaptureDenied_def
    handlePaypalCaptureRefunded_def handlePaypalDisputeCreated_def Let_def
  by (intro moves_intro)

lemma moves_crypto [moves_intro]: "moves (dispatchNowpaymentsIPN st o_id pay)"
  unfolding dispatchNowpaymentsIPN_def by (intro moves_intro)

lemma answer_moves:
  assumes "\<And>ev. moves (dispatch ev)"
  shows "books (data (bw_conn w)) (data (bw_conn (snd (answer_webhook c r rej dispatch ev w))))"
  using assms unfolding answer_webhook_def by (auto split: option.split prod.split sum.split dest: movesD)

lemma call_moves: "books (data (bw_conn w)) (data (bw_conn (run_billing_call s x w)))"
proof (cases x)
  case (Checkout a p k su ca)
  then show ?thesis using moves_service(1) by (simp add: moves_def)
next
  case (Webhook m)
  then show ?thesis
    by (cases m) (auto simp: stripeWebhook_def paypalWebhook_def nowpaymentsWebhook_def intro!: answer_moves moves_intro)
qed simp

lemma run_moves: "books (data (bw_conn w)) (data (bw_conn (run_billing xs w)))"
  unfolding run_billing_def
proof (induction xs arbitrary: w)
  case (Cons x xs)
  obtain s c where x: "x = (s, c)" by (cases x)
  from books_trans [OF call_moves [of w s c] Cons.IH] x show ?case by simp
qed simp

end
