(* ===== verification/Billing_Claims.thy ===== *)
theory Billing_Claims
  imports Billing_Safety
begin

text \<open>
  What buying cash points guarantees: what the books say over any history, and what the
  webhooks answer and do for a payment, a late payment, a payment that does not fit in the
  balance and a chargeback.
\<close>

section \<open>Messages that report a payment\<close>

text \<open>The purchase and the payment that a signed message reports as paid in full.\<close>

definition stripe_paid :: "stripe_event \<Rightarrow> (int \<times> string) option" where
  "stripe_paid ev =
     (if se_Type ev \<in> {''checkout.session.completed'', ''checkout.session.async_payment_succeeded''}
      then case se_Session ev of
             None \<Rightarrow> None
           | Some sess \<Rightarrow>
               if sn_Paid sess
               then map_option (\<lambda>i. (i, case sn_PaymentIntent sess of None \<Rightarrow> '''' | Some p \<Rightarrow> p)) (purchaseIDFromMetadata (sn_Metadata sess))
               else None
      else None)"

definition paypal_paid :: "paypal_event \<Rightarrow> (int \<times> string) option" where
  "paypal_paid ev =
     (if pe_Type ev = ''PAYMENT.CAPTURE.COMPLETED''
      then case pe_Capture ev of
             None \<Rightarrow> None
           | Some (captureID, custom) \<Rightarrow> map_option (\<lambda>i. (i, captureID)) (parsePurchaseID custom)
      else None)"

definition crypto_paid :: "string \<times> string \<times> string \<Rightarrow> (int \<times> string) option" where
  "crypto_paid ev = (case ev of (status, orderID, paymentID) \<Rightarrow>
     if status = ''finished'' then map_option (\<lambda>i. (i, paymentID)) (parsePurchaseID orderID) else None)"

fun reports_paid :: "webhook_message \<Rightarrow> (int \<times> string) option" where
  "reports_paid (Stripe_message True True Signed (Some ev)) = stripe_paid ev"
| "reports_paid (Paypal_message True True Signed (Some ev)) = paypal_paid ev"
| "reports_paid (Crypto_message True True Signed (Some ev)) = crypto_paid ev"
| "reports_paid _ = None"

text \<open>The status a handler's result is answered with.\<close>

definition http_status :: "bill_err + unit \<Rightarrow> nat" where
  "http_status r = (case r of Inl _ \<Rightarrow> 500 | Inr _ \<Rightarrow> 200)"

lemma answer_signed: "answer_webhook True True None f (Some ev) w = apfst http_status (f ev w)"
  by (auto simp: answer_webhook_def http_status_def split: prod.split sum.split)

lemma answer_paid:
  "reports_paid m = Some (i, p) \<Longrightarrow> answer s m w = apfst http_status (ackFulfillment (CompletePurchase i p) w)"
  by (cases m rule: reports_paid.cases)
    (auto simp: stripe_paid_def paypal_paid_def crypto_paid_def stripeWebhook_def paypalWebhook_def nowpaymentsWebhook_def
      answer_signed dispatchStripeEvent_def dispatchPaypalEvent_def dispatchNowpaymentsIPN_def handleCheckoutCompleted_def
      handlePaypalCaptureCompleted_def split: if_splits option.splits)

lemma ack_Complete:
  "ackFulfillment (CompletePurchase i p) w =
     (case purchase_Complete i p (bw_now w) (bw_conn w) of
        (Inr _, c) \<Rightarrow> (Inr (), w\<lparr>bw_conn := c\<rparr>)
      | (Inl e, c) \<Rightarrow> (if isTerminalFulfillmentError e then Inr () else Inl e, w\<lparr>bw_conn := c\<rparr>))"
  by (auto simp: ackFulfillment_def CompletePurchase_def bindE_def tryE_def billing_now_def onBill_def retE_def failE_def
      split: prod.split sum.split)

section \<open>What a reported payment does\<close>

lemma no_pending:
  assumes "bill_inv d" and "r \<in> set (cp_purchases d)" and "pr_id r = i" and "pr_status r \<noteq> 1"
  shows "find (\<lambda>q. pr_id q = i \<and> pr_status q = 1) (cp_purchases d) = None"
proof -
  from assms(1) have u: "uniq pr_id (cp_purchases d)" by (simp add: bill_inv_def)
  have "\<not> (pr_id q = i \<and> pr_status q = 1)" if "q \<in> set (cp_purchases d)" for q
    using uniq_the_row [OF u that assms(2)] assms(3,4) by auto
  then show ?thesis by (auto simp: find_None_iff)
qed

lemma the_pending:
  assumes "bill_inv d" and "find (\<lambda>q. pr_id q = i) (cp_purchases d) = Some r" and "pr_status r = 1"
  shows "find (\<lambda>q. pr_id q = i \<and> pr_status q = 1) (cp_purchases d) = Some r"
proof -
  from assms(2) have r: "r \<in> set (cp_purchases d)" "pr_id r = i" by (auto dest: find_key_Some)
  obtain q where q: "find (\<lambda>q. pr_id q = i \<and> pr_status q = 1) (cp_purchases d) = Some q"
    using r assms(3) by (cases "find (\<lambda>q. pr_id q = i \<and> pr_status q = 1) (cp_purchases d)") (auto simp: find_None_iff)
  from assms(1) have u: "uniq pr_id (cp_purchases d)" by (simp add: bill_inv_def)
  from the_purchase(1,2) [OF u q] have "q = r" using uniq_the_row [OF u _ r(1)] r(2) by auto
  with q show ?thesis by simp
qed

lemma Complete_returns:
  "faults s = [] \<Longrightarrow> returns (completeTx i p now) s x t \<Longrightarrow> purchase_Complete i p now s = (Inr x, t)"
  unfolding purchase_Complete_def billTx_def by (rule returns_tx)

lemma Complete_idle:
  assumes "faults s = []" and "find (\<lambda>r. pr_id r = i \<and> pr_status r = 1) (cp_purchases (data s)) = None"
  shows "purchase_Complete i p now s = (Inr (False, 0, 0), s)"
proof (rule Complete_returns [OF assms(1)])
  show "returns (completeTx i p now) s (False, 0, 0) s"
    using assms by (simp add: returns_def completeTx_def bindE_def clean_sql leave_status_def no_purchase retE_def)
qed

lemma credit_fits:
  assumes "currency_inv c" and "0 \<le> n" and "snd (bal c a) + n \<le> max_int32"
  shows "\<exists>t. upd_checked currency_check (\<lambda>q. cu_account_id q = a)
    (\<lambda>q. q\<lparr>cu_cashpoint := cu_cashpoint q + n\<rparr>) (ensure_currency a c) = Some t"
proof -
  let ?e = "ensure_currency a c"
  from assms(1) have e: "currency_inv ?e" by simp
  obtain r where r: "find (\<lambda>r. cu_account_id r = a) ?e = Some r" "bal c a = (cu_zeny r, cu_cashpoint r)"
    using ensure_has_row [of a c] by blast
  have "currency_check (q\<lparr>cu_cashpoint := cu_cashpoint q + n\<rparr>)" if "q \<in> set ?e" "cu_account_id q = a" for q
  proof -
    from e have u: "uniq cu_account_id ?e" by (simp add: currency_inv_def)
    from r(1) have "r \<in> set ?e" "cu_account_id r = a" by (auto dest: find_key_Some)
    with that have "q = r" using uniq_the_row [OF u that(1)] by simp
    with e that r(2) assms show ?thesis by (auto simp: currency_inv_def currency_check_def cash_ok_def max_int32_def)
  qed
  then show ?thesis by (simp add: upd_checked_Some)
qed

definition completed_row :: "string \<Rightarrow> int \<Rightarrow> purchase_row \<Rightarrow> purchase_row" where
  "completed_row p now r = r\<lparr>pr_status := 2, pr_provider_payment_id := Some p, pr_completed_at := Some now\<rparr>"

lemma none_pending:
  "find (\<lambda>q. pr_id q = i \<and> pr_status q = 1) (upd_where (\<lambda>q. pr_id q = i) (completed_row p n) t) = None"
  by (induction t) (simp_all add: completed_row_def)

lemma Complete_credits:
  assumes inv: "bill_inv (data s)" and s: "faults s = []" and r: "find (\<lambda>r. pr_id r = i) (cp_purchases (data s)) = Some r" "pr_status r = 1"
    and room: "snd (bal (cp_currency (bl_pg (data s))) (pr_account_id r)) + pr_cash_points r \<le> max_int32"
  obtains t where "purchase_Complete i p now s = (Inr (True, pr_account_id r, pr_cash_points r), t)" and "faults t = []"
    and "cp_purchases (data t) = upd_where (\<lambda>q. pr_id q = i) (completed_row p now) (cp_purchases (data s))"
    and "bal (cp_currency (bl_pg (data t))) = (\<lambda>a. (fst (bal (cp_currency (bl_pg (data s))) a),
      snd (bal (cp_currency (bl_pg (data s))) a) + (if pr_account_id r = a then pr_cash_points r else 0)))"
proof -
  let ?d = "data s" and ?c = "cp_currency (bl_pg (data s))"
  from inv have c: "currency_inv ?c" and u: "uniq pr_id (cp_purchases ?d)" by (simp_all add: bill_inv_def wallet_inv_def)
  note fs = the_pending [OF inv r] and q = the_purchase [OF u the_pending [OF inv r]]
  from q(1) inv have "0 \<le> pr_cash_points r" by (auto simp: bill_inv_def purchase_check_def)
  from credit_fits [OF c this room] obtain t where t: "upd_checked currency_check (\<lambda>q. cu_account_id q = pr_account_id r)
    (\<lambda>q. q\<lparr>cu_cashpoint := cu_cashpoint q + pr_cash_points r\<rparr>) (ensure_currency (pr_account_id r) ?c) = Some t" by blast
  let ?d' = "?d\<lparr>cp_purchases := upd_where (\<lambda>q. pr_id q = i) (completed_row p now) (cp_purchases ?d),
    bl_pg := (bl_pg ?d)\<lparr>cp_currency := t\<rparr>\<rparr>"
  have "returns (completeTx i p now) s (True, pr_account_id r, pr_cash_points r) (s\<lparr>data := ?d'\<rparr>)"
    using s fs t q(2) q(4) [of "completed_row p now"]
    by (simp add: returns_def completeTx_def bindE_def thenE_def clean_sql clean_exec clean_exec_opt leave_status_def retE_def
      completed_row_def [abs_def])
  from that [OF Complete_returns [OF s this]] credit_wallet(2) [OF c t] s show ?thesis by simp
qed

lemma Complete_Inl: "purchase_Complete i p now s = (Inl e, t) \<Longrightarrow> e = Store"
  by (auto simp: purchase_Complete_def billTx_def transaction_def completeTx_def thenE_def bindE_Inl query_def exec_def exec_opt_def
      sql_def retE_def split: prod.splits sum.splits fault.splits option.splits)
lemma Complete_none:
  assumes "purchase_Complete i p now s = (x, t)"
    and "find (\<lambda>r. pr_id r = i \<and> pr_status r = 1) (cp_purchases (data s)) = None"
  shows "data t = data s"
  using assms(1)
proof (cases rule: Complete_cases)
  case (committed u y v)
  obtain k a n where "y = (k, a, n)" by (cases y)
  with committed(1) have "completeTx i p now u = (Inr (k, a, n), v)" by simp
  then show ?thesis by (cases rule: completeTx_Inr) (use committed assms(2) in auto)
qed

section \<open>Payments given up and chargebacks\<close>

lemma mark_Inl: "mark_status i n f c = (Inl e, d) \<Longrightarrow> e = Store"
  by (auto simp: mark_status_def sql_def split: fault.splits prod.splits)

lemma FailPurchase_marks:
  assumes ok: "ackFulfillment (FailPurchase i) w = (Inr y, w1)" and inv: "bill_inv (data (bw_conn w))"
    and r: "find (\<lambda>r. pr_id r = i) (cp_purchases (data (bw_conn w))) = Some r" "pr_status r = 1"
  shows "\<exists>q \<in> set (cp_purchases (data (bw_conn w1))). pr_id q = i \<and> pr_status q = 5"
proof -
  have "MarkFailed i n c = (Inl e, d) \<Longrightarrow> e = Store" for n c e d
    unfolding MarkFailed_def by (rule mark_Inl)
  then obtain b c where c: "MarkFailed i (bw_now w) (bw_conn w) = (Inr b, c)" "w1 = w\<lparr>bw_conn := c\<rparr>"
    using ok by (auto simp: ackFulfillment_def FailPurchase_def bindE_def tryE_def billing_now_def onBill_def retE_def failE_def
      isTerminalFulfillmentError_def split: prod.splits sum.splits if_splits)
  from r have "r \<in> set (cp_purchases (data (bw_conn w)))" "pr_id r = i" by (auto dest: find_key_Some)
  then have "r\<lparr>pr_status := 5, pr_failed_at := Some (bw_now w)\<rparr> \<in> set (cp_purchases (data c))"
    using c(1) r(2) by (auto simp: MarkFailed_def mark_status_def success_inv leave_status_def
      intro!: in_upd_where [where f = "\<lambda>r. r\<lparr>pr_status := 5, pr_failed_at := Some (bw_now w)\<rparr>"])
  with c(2) \<open>pr_id r = i\<close> show ?thesis by (intro bexI) auto
qed

text \<open>The payment that a signed message reports as charged back, with its provider.\<close>

fun reports_dispute :: "webhook_message \<Rightarrow> (string \<times> string) option" where
  "reports_dispute (Stripe_message True True Signed (Some ev)) =
     (if se_Type ev = ''charge.dispute.created''
      then (case se_Intent ev of Some (Some p) \<Rightarrow> Some (''stripe'', p) | _ \<Rightarrow> None) else None)"
| "reports_dispute (Paypal_message True True Signed (Some ev)) =
     (if pe_Type ev = ''CUSTOMER.DISPUTE.CREATED''
      then (case pe_Transactions ev of None \<Rightarrow> None | Some ts \<Rightarrow> map_option (\<lambda>p. (''paypal'', p)) (find (\<lambda>t. t \<noteq> '''') ts)) else None)"
| "reports_dispute _ = None"

lemma answer_dispute:
  "reports_dispute m = Some (pr, p) \<Longrightarrow> \<exists>t. answer s m w = apfst http_status (ackPaymentMatch t (DisputePurchase s pr p) w)"
  by (cases m rule: reports_dispute.cases)
    (auto simp: stripeWebhook_def paypalWebhook_def answer_signed dispatchStripeEvent_def dispatchPaypalEvent_def
      handleDisputeCreated_def handlePaypalDisputeCreated_def split: if_splits option.splits)

lemma Dispute_Inl:
  assumes "DisputePurchase s pr p w = (Inl e, v)"
    and "find (\<lambda>r. pr_provider r = pr \<and> pr_provider_payment_id r = Some p) (cp_purchases (data (bw_conn w))) = Some r"
  shows "e \<noteq> Billing x"
proof -
  have m: "MarkDisputed i n c = (Inl e, d) \<Longrightarrow> e = Store" for i n c e d
    unfolding MarkDisputed_def by (rule mark_Inl)
  have g: "GetByPaymentID pr p (bw_conn w) = (Inl e, d) \<Longrightarrow> e = Store" for e d
    using assms(2) by (auto simp: GetByPaymentID_def query_row_def bindE_def retE_def dest: query_Inl split: prod.splits sum.splits)
      (auto simp: query_def sql_def retE_def split: fault.splits)
  show ?thesis
    using assms(1) by (auto simp: DisputePurchase_def bindE_def thenE_def billing_now_def onBill_def retE_def ban_def
      split: prod.splits sum.splits if_splits option.splits dest: m g)
qed

lemma ack_Dispute:
  assumes "ackPaymentMatch t (DisputePurchase s pr p) w = (Inr (), w')"
    and "find (\<lambda>r. pr_provider r = pr \<and> pr_provider_payment_id r = Some p) (cp_purchases (data (bw_conn w))) = Some r"
  shows "DisputePurchase s pr p w = (Inr (), w')"
  using assms(1) Dispute_Inl [OF _ assms(2)]
  by (cases "DisputePurchase s pr p w")
    (auto simp: ackPaymentMatch_def bindE_def tryE_def retE_def failE_def isTerminalFulfillmentError_def split: sum.splits)

lemma Dispute_bans:
  assumes run: "DisputePurchase s pr p w = (Inr (), w')" and inv: "bill_inv (data (bw_conn w))" and b: "bs_banner s = Some b"
    and f: "find (\<lambda>r. pr_provider r = pr \<and> pr_provider_payment_id r = Some p) (cp_purchases (data (bw_conn w))) = Some r"
    and two: "pr_status r = 2"
  shows "pr_account_id r \<in> set (bw_banned w') \<and>
    (\<exists>r' \<in> set (cp_purchases (data (bw_conn w'))). pr_id r' = pr_id r \<and> pr_status r' = 3) \<and>
    bl_pg (data (bw_conn w')) = bl_pg (data (bw_conn w))"
proof -
  from f have r: "r \<in> set (cp_purchases (data (bw_conn w)))" by (auto simp: find_Some_iff)
  have get: "GetByPaymentID pr p c = (Inr x, d) \<Longrightarrow> c = bw_conn w \<Longrightarrow> x = purchase_of r \<and> data d = data (bw_conn w)" for c x d
    using f by (auto simp: GetByPaymentID_def success_inv)
  obtain x d where g: "GetByPaymentID pr p (bw_conn w) = (Inr x, d)"
    using run by (auto simp: DisputePurchase_def bindE_def onBill_def split: prod.splits sum.splits)
  from get [OF g] have x: "x = purchase_of r" "data d = data (bw_conn w)" by simp_all
  from run g x two b obtain c k where c: "MarkDisputed (pr_id r) (bw_now w) d = (Inr k, c)"
    and w': "w' = w\<lparr>bw_conn := c, bw_banned := pr_account_id r # bw_banned w\<rparr>"
    by (auto simp: DisputePurchase_def bindE_def thenE_def onBill_def ban_def billing_now_def retE_def purchase_of_def
        StatusDisputed_def StatusCompleted_def split: prod.splits sum.splits if_splits)
  let ?f = "\<lambda>r :: purchase_row. r\<lparr>pr_status := 3, pr_disputed_at := Some (bw_now w)\<rparr>"
  from c x have d: "cp_purchases (data c) = upd_where (\<lambda>q. pr_id q = pr_id r \<and> pr_status q = 2) ?f (cp_purchases (data (bw_conn w)))"
    "bl_pg (data c) = bl_pg (data (bw_conn w))" by (auto simp: MarkDisputed_def mark_status_def success_inv leave_status_def)
  have "?f r \<in> set (cp_purchases (data c))" unfolding d(1) by (rule in_upd_where) (use r two in auto)
  with d(2) w' show ?thesis by (intro conjI bexI [of _ "?f r"]) simp_all
qed

section \<open>Properties\<close>

text \<open>C21. Over any history of the panel - checkouts, webhook messages of any content and in any order, time passing -
  and whatever the database connection loses, an account's cash points grow by exactly the points of those of its
  purchases that have come to be paid, and its zeny does not change: no payment is credited twice, and none is
  recorded without its credit. Every purchase keeps its terms, and its status only moves forward: from pending to
  completed or failed, from completed to disputed or refunded.\<close>

theorem paid_purchases_are_credited_once:
  assumes "bill_inv (data (bw_conn w))"
  shows "bill_inv (data (bw_conn (run_billing xs w))) \<and>
    (\<forall>a. bal (cp_currency (bl_pg (data (bw_conn (run_billing xs w))))) a =
       (fst (bal (cp_currency (bl_pg (data (bw_conn w)))) a),
        snd (bal (cp_currency (bl_pg (data (bw_conn w)))) a) +
          (paid_points (cp_purchases (data (bw_conn (run_billing xs w)))) a - paid_points (cp_purchases (data (bw_conn w))) a))) \<and>
    (\<forall>r \<in> set (cp_purchases (data (bw_conn w))). \<exists>r' \<in> set (cp_purchases (data (bw_conn (run_billing xs w)))). same_purchase r r')"
  using run_moves [of w xs] assms by (simp add: books_def same_wallet_but_def)

text \<open>C22. A message that reports a pending purchase as paid - Stripe's completed session, PayPal's completed capture,
  a finished crypto payment - is answered 200 on a connection that loses nothing, completes exactly that purchase and
  credits its points to the buyer; any later message that reports the same purchase as paid is answered 200 as well
  and changes nothing.\<close>

theorem reported_payment_is_credited:
  assumes "bill_inv (data (bw_conn w))" and "faults (bw_conn w) = []" and "reports_paid m = Some (i, p)"
    and "find (\<lambda>r. pr_id r = i) (cp_purchases (data (bw_conn w))) = Some r" and "pr_status r = 1"
    and "snd (bal (cp_currency (bl_pg (data (bw_conn w)))) (pr_account_id r)) + pr_cash_points r \<le> max_int32"
  shows "\<exists>w'. answer s m w = (200, w') \<and>
    cp_purchases (data (bw_conn w')) = upd_where (\<lambda>q. pr_id q = i) (completed_row p (bw_now w)) (cp_purchases (data (bw_conn w))) \<and>
    bal (cp_currency (bl_pg (data (bw_conn w')))) = (\<lambda>a. (fst (bal (cp_currency (bl_pg (data (bw_conn w)))) a),
      snd (bal (cp_currency (bl_pg (data (bw_conn w)))) a) + (if pr_account_id r = a then pr_cash_points r else 0))) \<and>
    (\<forall>s' m' p'. reports_paid m' = Some (i, p') \<longrightarrow> answer s' m' w' = (200, w'))"
proof -
  obtain t where t: "purchase_Complete i p (bw_now w) (bw_conn w) = (Inr (True, pr_account_id r, pr_cash_points r), t)"
    "faults t = []" "cp_purchases (data t) = upd_where (\<lambda>q. pr_id q = i) (completed_row p (bw_now w)) (cp_purchases (data (bw_conn w)))"
    "bal (cp_currency (bl_pg (data t))) = (\<lambda>a. (fst (bal (cp_currency (bl_pg (data (bw_conn w)))) a),
      snd (bal (cp_currency (bl_pg (data (bw_conn w)))) a) + (if pr_account_id r = a then pr_cash_points r else 0)))"
    by (rule Complete_credits [OF assms(1,2,4,5,6), of p "bw_now w"]) (rule that)
  have "find (\<lambda>q. pr_id q = i \<and> pr_status q = 1) (cp_purchases (data t)) = None"
    unfolding t(3) by (rule none_pending)
  note idle = Complete_idle [OF t(2) this]
  have "answer s m w = (200, w\<lparr>bw_conn := t\<rparr>)"
    using t(1) by (simp add: answer_paid [OF assms(3)] ack_Complete http_status_def)
  moreover have "answer s' m' (w\<lparr>bw_conn := t\<rparr>) = (200, w\<lparr>bw_conn := t\<rparr>)" if "reports_paid m' = Some (i, p')" for s' m' p'
    using idle by (simp add: answer_paid [OF that] ack_Complete http_status_def)
  ultimately show ?thesis using t(3,4) by (intro exI [of _ "w\<lparr>bw_conn := t\<rparr>"]) auto
qed

text \<open>C23. A payment that does not fit in the buyer's cash points (a 32-bit column) is never credited: every message that
  reports it is answered 500, whatever the connection does, and leaves the database as it is, so the purchase stays
  pending, the provider sends the message again, and gets the same answer.\<close>

theorem payment_over_the_cap_never_completes:
  assumes "bill_inv (data (bw_conn w))" and "reports_paid m = Some (i, p)"
    and "find (\<lambda>r. pr_id r = i) (cp_purchases (data (bw_conn w))) = Some r" and "pr_status r = 1"
    and "max_int32 < snd (bal (cp_currency (bl_pg (data (bw_conn w)))) (pr_account_id r)) + pr_cash_points r"
  shows "fst (answer s m w) = 500 \<and> data (bw_conn (snd (answer s m w))) = data (bw_conn w)"
proof -
  note pending = the_pending [OF assms(1,3,4)]
  from assms(1) have c: "currency_inv (cp_currency (bl_pg (data (bw_conn w))))" by (simp add: bill_inv_def wallet_inv_def)
  obtain x t where xt: "purchase_Complete i p (bw_now w) (bw_conn w) = (x, t)" by fastforce
  then have "x = Inl Store \<and> data t = data (bw_conn w)"
  proof (cases rule: Complete_cases)
    case (undone e)
    with xt Complete_Inl show ?thesis by auto
  next
    case (committed u y v)
    obtain k a n where "y = (k, a, n)" by (cases y)
    with committed(1) have "completeTx i p (bw_now w) u = (Inr (k, a, n), v)" by simp
    then show ?thesis
    proof (cases rule: completeTx_Inr)
      case other
      with pending committed(2) show ?thesis by simp
    next
      case (credit q z)
      with pending committed(2) have "q = r" by simp
      with credit_wallet(3) [OF c] credit(5) committed(2) assms(5) show ?thesis by fastforce
    qed
  qed
  with xt show ?thesis by (simp add: answer_paid [OF assms(2)] ack_Complete isTerminalFulfillmentError_def http_status_def)
qed
text \<open>A crypto purchase that was reported as partly paid, failed or expired is given up for good: once that message
  has been answered 200, a later message that reports the whole amount as paid changes nothing, whatever happened in
  between, and is answered 200, so that the provider does not send it again.\<close>

theorem payment_after_giving_up_is_dropped:
  assumes "bill_inv (data (bw_conn w))" and "find (\<lambda>r. pr_id r = i) (cp_purchases (data (bw_conn w))) = Some r"
    and "status \<in> {''partially_paid'', ''failed'', ''expired''}" and "parsePurchaseID orderID = Some i" and "pr_status r = 1"
    and "answer s (Crypto_message True True Signed (Some (status, orderID, paymentID))) w = (200, w1)"
    and "reports_paid m = Some (i, p)"
  shows "data (bw_conn (snd (answer s' m (run_billing xs w1)))) = data (bw_conn (run_billing xs w1)) \<and>
    (faults (bw_conn (run_billing xs w1)) = [] \<longrightarrow> fst (answer s' m (run_billing xs w1)) = 200)"
proof -
  let ?w2 = "run_billing xs w1"
  from assms(6) obtain y where y: "ackFulfillment (FailPurchase i) w = (Inr y, w1)"
    using assms(3,4) by (cases "ackFulfillment (FailPurchase i) w")
      (auto simp: nowpaymentsWebhook_def answer_signed dispatchNowpaymentsIPN_def http_status_def split: sum.splits)
  from FailPurchase_marks [OF y assms(1,2,5)] obtain q
    where q: "q \<in> set (cp_purchases (data (bw_conn w1)))" "pr_id q = i" "pr_status q = 5" by auto
  have "moves (ackFulfillment (FailPurchase i))" by (intro moves_intro)
  note inv1 = booksD(1) [OF movesD [OF this y] assms(1)]
  note run = booksD [OF run_moves [of w1 xs] inv1]
  from run(3) [OF q(1)] obtain q' where q': "q' \<in> set (cp_purchases (data (bw_conn ?w2)))" "same_purchase q q'" by auto
  with q have "pr_id q' = i" "pr_status q' \<noteq> 1" by (simp_all add: same_purchase_def status_leads_def)
  note none = no_pending [OF run(1) q'(1) this]
  obtain x t where xt: "purchase_Complete i p (bw_now ?w2) (bw_conn ?w2) = (x, t)" by fastforce
  have "data t = data (bw_conn ?w2)" using Complete_none [OF xt none] .
  moreover have "faults (bw_conn ?w2) = [] \<Longrightarrow> x = Inr (False, 0, 0)" using Complete_idle [OF _ none] xt by simp
  ultimately show ?thesis
    using xt by (cases x) (auto simp: answer_paid [OF assms(7)] ack_Complete http_status_def)
qed

text \<open>C24. When a chargeback of a completed purchase is answered 200, the buyer has been banned and the purchase is
  disputed; the points stay on the balance.\<close>

theorem chargeback_bans_the_buyer:
  assumes "bill_inv (data (bw_conn w))" and "bs_banner s = Some b" and "reports_dispute m = Some (pr, p)"
    and "find (\<lambda>r. pr_provider r = pr \<and> pr_provider_payment_id r = Some p) (cp_purchases (data (bw_conn w))) = Some r"
    and "pr_status r = 2" and "answer s m w = (200, w')"
  shows "pr_account_id r \<in> set (bw_banned w') \<and>
    (\<exists>r' \<in> set (cp_purchases (data (bw_conn w'))). pr_id r' = pr_id r \<and> pr_status r' = 3) \<and>
    bl_pg (data (bw_conn w')) = bl_pg (data (bw_conn w))"
proof -
  from answer_dispute [OF assms(3)] obtain t
    where t: "answer s m w = apfst http_status (ackPaymentMatch t (DisputePurchase s pr p) w)" by blast
  with assms(6) have "ackPaymentMatch t (DisputePurchase s pr p) w = (Inr (), w')"
    by (cases "ackPaymentMatch t (DisputePurchase s pr p) w") (auto simp: http_status_def split: sum.splits)
  from ack_Dispute [OF this assms(4)] have "DisputePurchase s pr p w = (Inr (), w')" .
  from Dispute_bans [OF this assms(1,2,4,5)] show ?thesis .
qed

section \<open>Concrete instances\<close>

definition demo_purchase :: "int \<Rightarrow> int \<Rightarrow> int \<Rightarrow> int \<Rightarrow> string option \<Rightarrow> purchase_row" where
  "demo_purchase i account points status payment =
     \<lparr>pr_id = i, pr_account_id = account, pr_package_key = ''small'', pr_provider = ''stripe'', pr_provider_ref = None,
      pr_provider_payment_id = payment, pr_amount = 500, pr_currency = ''USD'', pr_cash_points = points, pr_status = status,
      pr_created_at = 100, pr_completed_at = None, pr_disputed_at = None, pr_refunded_at = None, pr_failed_at = None\<rparr>"

text \<open>Purchase 1 of account 7 is pending and fits, purchase 2 of account 8 is completed, purchase 3 of account 7 does not fit.\<close>

definition demo_shop :: billing_world where
  "demo_shop = \<lparr>bw_conn = \<lparr>data = \<lparr>bl_pg = data demo_bank,
       cp_purchases = [demo_purchase 1 7 100 1 None, demo_purchase 2 8 100 2 (Some ''pi_2''), demo_purchase 3 7 max_int32 1 None],
       purchase_seq = 3\<rparr>, faults = []\<rparr>, bw_now = 200, bw_banned = []\<rparr>"

definition demo_service :: billing_service where
  "demo_service = NewBillingService (NewCatalog []) [WithBanner (\<lambda>_ _. True)]"

definition demo_paid :: "string \<Rightarrow> webhook_message" where
  "demo_paid i = Crypto_message True True Signed (Some (''finished'', i, ''9001''))"

definition demo_chargeback :: webhook_message where
  "demo_chargeback = Stripe_message True True Signed
     (Some \<lparr>se_Type = ''charge.dispute.created'', se_Created = 150, se_Session = None, se_Intent = Some (Some ''pi_2'')\<rparr>)"

lemma demo_shop_inv: "bill_inv (data (bw_conn demo_shop))"
proof -
  have "wallet_inv (data demo_bank)" by (rule demo_bank_inv)
  then show ?thesis by (simp add: bill_inv_def demo_shop_def demo_purchase_def purchase_check_def max_int32_def max_int64_def)
qed

lemma demo_paid_ids: "reports_paid (demo_paid ''1'') = Some (1, ''9001'')" "reports_paid (demo_paid ''3'') = Some (3, ''9001'')"
  "parsePurchaseID ''1'' = Some 1"
  by code_simp+

lemma demo_balance: "bal (cp_currency (bl_pg (data (bw_conn demo_shop)))) 7 = (5000, 20)"
  by (simp add: demo_shop_def demo_bank_def bal_def)

theorem paid_purchases_are_credited_once_witness:
  "snd (bal (cp_currency (bl_pg (data (bw_conn (run_billing [(demo_service, Webhook (demo_paid ''1''))] demo_shop))))) 7) =
     20 + (paid_points (cp_purchases (data (bw_conn (run_billing [(demo_service, Webhook (demo_paid ''1''))] demo_shop)))) 7 - 0)"
  using paid_purchases_are_credited_once [OF demo_shop_inv, of "[(demo_service, Webhook (demo_paid ''1''))]"] demo_balance
  by (simp add: demo_shop_def paid_points_def demo_purchase_def)

theorem reported_payment_is_credited_witness:
  "\<exists>w'. answer demo_service (demo_paid ''1'') demo_shop = (200, w') \<and> snd (bal (cp_currency (bl_pg (data (bw_conn w')))) 7) = 120"
proof -
  have "find (\<lambda>r. pr_id r = 1) (cp_purchases (data (bw_conn demo_shop))) = Some (demo_purchase 1 7 100 1 None)"
    by (simp add: demo_shop_def demo_purchase_def)
  from reported_payment_is_credited [OF demo_shop_inv _ demo_paid_ids(1) this, of demo_service] demo_balance
  show ?thesis by (auto simp: demo_shop_def demo_purchase_def max_int32_def)
qed

theorem payment_over_the_cap_never_completes_witness:
  "fst (answer demo_service (demo_paid ''3'') demo_shop) = 500"
proof -
  have "find (\<lambda>r. pr_id r = 3) (cp_purchases (data (bw_conn demo_shop))) = Some (demo_purchase 3 7 max_int32 1 None)"
    by (simp add: demo_shop_def demo_purchase_def)
  from payment_over_the_cap_never_completes [OF demo_shop_inv demo_paid_ids(2) this, of demo_service] demo_balance
  show ?thesis by (simp add: demo_purchase_def)
qed

theorem payment_after_giving_up_is_dropped_witness:
  "\<exists>w1. answer demo_service (Crypto_message True True Signed (Some (''partially_paid'', ''1'', ''9001''))) demo_shop = (200, w1) \<and>
     data (bw_conn (snd (answer demo_service (demo_paid ''1'') (run_billing [] w1)))) = data (bw_conn (run_billing [] w1))"
proof -
  let ?m = "Crypto_message True True Signed (Some (''partially_paid'', ''1'', ''9001''))"
  have f: "find (\<lambda>r. pr_id r = 1) (cp_purchases (data (bw_conn demo_shop))) = Some (demo_purchase 1 7 100 1 None)"
    by (simp add: demo_shop_def demo_purchase_def)
  have "fst (answer demo_service ?m demo_shop) = 200" by code_simp
  then have "answer demo_service ?m demo_shop = (200, snd (answer demo_service ?m demo_shop))" by (metis prod.collapse)
  from payment_after_giving_up_is_dropped [OF demo_shop_inv f _ demo_paid_ids(3) _ this demo_paid_ids(1), of demo_service "[]"] this
  show ?thesis by (auto simp: demo_purchase_def)
qed

theorem chargeback_bans_the_buyer_witness:
  "8 \<in> set (bw_banned (snd (answer demo_service demo_chargeback demo_shop)))"
proof -
  have f: "find (\<lambda>r. pr_provider r = ''stripe'' \<and> pr_provider_payment_id r = Some ''pi_2'') (cp_purchases (data (bw_conn demo_shop))) =
      Some (demo_purchase 2 8 100 2 (Some ''pi_2''))" by (simp add: demo_shop_def demo_purchase_def)
  have b: "bs_banner demo_service = Some (\<lambda>_ _. True)" by (simp add: demo_service_def NewBillingService_def)
  have d: "reports_dispute demo_chargeback = Some (''stripe'', ''pi_2'')" by (simp add: demo_chargeback_def)
  have "fst (answer demo_service demo_chargeback demo_shop) = 200" by code_simp
  then have "answer demo_service demo_chargeback demo_shop = (200, snd (answer demo_service demo_chargeback demo_shop))"
    by (metis prod.collapse)
  from chargeback_bans_the_buyer [OF demo_shop_inv b d f _ this] show ?thesis by (simp add: demo_purchase_def)
qed

end
