(* ===== verification/Utf8.thy ===== *)
theory Utf8
  imports Main "HOL-Library.Char_ord"
begin

text \<open>
  Text of the standard library: a Go string is its bytes, \<open>unicode/utf8\<close> reads runes from
  them, \<open>strings.TrimSpace\<close> removes white space in Unicode's sense. A byte that starts no
  encoded rune is read as the replacement rune, of width one.
\<close>

definition byte :: "char \<Rightarrow> nat" where "byte = of_char"

definition continues :: "char \<Rightarrow> bool" where "continues c \<longleftrightarrow> byte c \<in> {128 .. 191}"

definition RuneError :: nat where "RuneError = 65533"

text \<open>\<open>DecodeRuneInString\<close>: the rune and its width.\<close>

fun DecodeRune :: "string \<Rightarrow> nat \<times> nat" where
  "DecodeRune [] = (RuneError, 0)"
| "DecodeRune (a # s) =
     (let x = byte a
      in if x < 128 then (x, 1)
         else if x \<in> {194 .. 223} then
           (case s of b # _ \<Rightarrow> if continues b then ((x - 192) * 64 + (byte b - 128), 2) else (RuneError, 1) | [] \<Rightarrow> (RuneError, 1))
         else if x \<in> {224 .. 239} then
           (case s of b # c # _ \<Rightarrow>
              if byte b \<in> {(if x = 224 then 160 else 128) .. (if x = 237 then 159 else 191)} \<and> continues c
              then ((x - 224) * 4096 + (byte b - 128) * 64 + (byte c - 128), 3) else (RuneError, 1)
            | _ \<Rightarrow> (RuneError, 1))
         else if x \<in> {240 .. 244} then
           (case s of b # c # d # _ \<Rightarrow>
              if byte b \<in> {(if x = 240 then 144 else 128) .. (if x = 244 then 143 else 191)} \<and> continues c \<and> continues d
              then ((x - 240) * 262144 + (byte b - 128) * 4096 + (byte c - 128) * 64 + (byte d - 128), 4) else (RuneError, 1)
            | _ \<Rightarrow> (RuneError, 1))
         else (RuneError, 1))"

declare DecodeRune.simps(2) [simp del]

lemma DecodeRune_width: "s \<noteq> [] \<Longrightarrow> 1 \<le> snd (DecodeRune s) \<and> snd (DecodeRune s) \<le> length s"
  by (cases s) (auto simp: DecodeRune.simps Let_def split: list.split)

text \<open>The runes of a string, each with its bytes.\<close>

function runes :: "string \<Rightarrow> (nat \<times> string) list" where
  "runes s = (if s = [] then []
     else (fst (DecodeRune s), take (snd (DecodeRune s)) s) # runes (drop (snd (DecodeRune s)) s))"
  by pat_completeness auto
termination
  by (relation "measure length") (use DecodeRune_width in \<open>auto simp: Suc_le_eq\<close>)

declare runes.simps [simp del]

definition rune_text :: "(nat \<times> string) list \<Rightarrow> string" where "rune_text rs = concat (map snd rs)"

lemma rune_text_runes: "rune_text (runes s) = s"
proof (induction s rule: runes.induct)
  case (1 s)
  then show ?case by (subst runes.simps) (simp add: rune_text_def)
qed

lemma runes_ascii: "list_all (\<lambda>c. byte c < 128) s \<Longrightarrow> runes s = map (\<lambda>c. (byte c, [c])) s"
  by (induction s) (simp_all add: runes.simps DecodeRune.simps)

definition RuneCount :: "string \<Rightarrow> nat" where "RuneCount s = length (runes s)"

definition valid_utf8 :: "string \<Rightarrow> bool" where
  "valid_utf8 s \<longleftrightarrow> (\<forall>(r, b) \<in> set (runes s). r \<noteq> RuneError \<or> length b \<noteq> 1)"

text \<open>\<open>unicode.IsSpace\<close>\<close>

definition IsSpace :: "nat \<Rightarrow> bool" where
  "IsSpace r \<longleftrightarrow> r \<in> {9 .. 13} \<union> {8192 .. 8202} \<or> r \<in> {32, 133, 160, 5760, 8232, 8233, 8239, 8287, 12288}"

definition TrimSpace :: "string \<Rightarrow> string" where
  "TrimSpace s = (let sp = (\<lambda>r. IsSpace (fst r)) in rune_text (rev (dropWhile sp (rev (dropWhile sp (runes s))))))"

text \<open>What the text columns of Postgres take: valid UTF-8 without the zero byte.\<close>

definition storable :: "string \<Rightarrow> bool" where
  "storable s \<longleftrightarrow> valid_utf8 s \<and> CHR 0x00 \<notin> set s"

definition varchar :: "nat \<Rightarrow> string \<Rightarrow> bool" where
  "varchar n s \<longleftrightarrow> storable s \<and> RuneCount s \<le> n"

text \<open>Text in ASCII is one byte a rune.\<close>

lemma ascii_text:
  assumes "list_all (\<lambda>c. byte c < 128) s"
  shows "valid_utf8 s" "RuneCount s = length s" "list_all (\<lambda>c. \<not> IsSpace (byte c)) s \<Longrightarrow> TrimSpace s = s"
proof -
  show "valid_utf8 s" using assms by (auto simp: valid_utf8_def runes_ascii list_all_iff RuneError_def)
  show "RuneCount s = length s" using assms by (simp add: RuneCount_def runes_ascii)
  assume n: "list_all (\<lambda>c. \<not> IsSpace (byte c)) s"
  let ?sp = "\<lambda>r :: nat \<times> string. IsSpace (fst r)"
  have "dropWhile ?sp (runes s) = runes s" "dropWhile ?sp (rev (runes s)) = rev (runes s)"
    using n assms by (auto simp: runes_ascii list_all_iff dropWhile_eq_self_iff hd_map hd_rev last_map)
  then show "TrimSpace s = s" by (simp add: TrimSpace_def rune_text_runes Let_def)
qed

end
