(* ===== verification/Account_Domain.thy ===== *)
theory Account_Domain
  imports Prelude Utf8 Csrf
begin

text \<open>
  \<open>internal/features/account/domain\<close> and \<open>internal/platform/actiontoken/domain\<close>: accounts and
  the rules for their names, mail addresses and passwords, the lockout after failed logins, bans,
  sessions and the tokens of mailed links. Times and durations are counted in nanoseconds; a time
  that was never set is \<open>None\<close>.

  What the code has from outside is in one parameter, of which nothing is assumed: letter case
  and digits beyond ASCII, the parser of mail addresses, the calendar, SHA-256 and the random
  bytes, and how the game's database compares text and which rows it takes.
\<close>

type_synonym date = "int \<times> int \<times> int"

section \<open>errors.go\<close>

datatype account_error =
    ErrUserNotFound | ErrInvalidCredentials | ErrAccountLocked | ErrSessionNotFound | ErrSessionExpired
  | ErrAccountUnverified | ErrAccountPermaBanned | ErrAccountTempBanned | ErrAccountDeleted | ErrEmailTaken
  | ErrPasswordRecentlyChanged | ErrEmailRecentlyChanged | ErrInvalidCurrentSessionToken
  | ErrUsernameEmpty | ErrUsernameTooLong | ErrUsernameBadCharset | ErrEmailEmpty | ErrEmailTooLong | ErrEmailShape
  | ErrPasswordEmpty | ErrPasswordTooLong | ErrGenderInvalid
  | ErrBirthdateEmpty | ErrBirthdateShape | ErrBirthdateFuture | ErrBirthdateTooOld
  | ErrRegUsernameTooShort | ErrRegPasswordTooShort | ErrRegPasswordNoUpper | ErrRegPasswordNoDigit | ErrRegPasswordNoSymbol
  | ErrInvalidDuration | ErrSelfAction | ErrTargetIsAdmin | ErrInvalidRole | ErrEmptyReason | ErrInvalidState | ErrTargetProtected
  | ErrEmailChangeCooldown | ErrTokenInvalid | ErrTokenExpired | ErrTokenAlreadyUsed

datatype field_problem = Broken account_error | Says string

type_synonym field_errors = "(string \<times> field_problem) list"

definition fe_Add :: "string \<Rightarrow> field_problem \<Rightarrow> field_errors \<Rightarrow> field_errors" where
  "fe_Add field p fe = (field, p) # filter (\<lambda>q. fst q \<noteq> field) fe"

definition fe_Has :: "field_errors \<Rightarrow> bool" where "fe_Has fe \<longleftrightarrow> 0 < length fe"

text \<open>An error of the accounts, fields of a form that were refused, or a database that failed.\<close>

datatype account_failure = Account account_error | Invalid field_errors | Account_store

section \<open>user.go, ban.go, session.go\<close>

record user =
  us_Birthdate :: date
  us_UnbanTime :: "int option"
  us_LastLogin :: "int option"
  us_Username :: string
  us_Email :: string
  us_Gender :: string
  us_LastIP :: string
  us_ID :: int
  us_GroupID :: int
  us_State :: int

definition user_IsAdmin :: "user \<Rightarrow> bool" where "user_IsAdmin u \<longleftrightarrow> us_GroupID u = 99"
definition user_IsPlayer :: "user \<Rightarrow> bool" where "user_IsPlayer u \<longleftrightarrow> us_GroupID u = 0"

definition seconds :: "int \<Rightarrow> int" where "seconds n = n * 1000000000"

definition maxBanDays :: int where "maxBanDays = 10 * 365"

record ban_duration =
  bd_Duration :: int
  bd_Permanent :: bool

definition ParseBanDays :: "int \<Rightarrow> account_error + ban_duration" where
  "ParseBanDays days =
     (if days \<le> 0 \<or> maxBanDays < days then Inl ErrInvalidDuration
      else Inr \<lparr>bd_Duration = wrap64 (days * seconds (24 * 3600)), bd_Permanent = False\<rparr>)"

record session =
  se_ExpiresAt :: int
  se_CreatedAt :: int
  se_LastSeenAt :: int
  se_TokenHash :: string
  se_UserID :: int

definition session_IsExpired :: "session \<Rightarrow> int \<Rightarrow> bool" where "session_IsExpired s now \<longleftrightarrow> se_ExpiresAt s \<le> now"

section \<open>tier.go\<close>

definition StateActive :: int where "StateActive = 0"
definition StateUnverified :: int where "StateUnverified = 1"
definition StatePermaBanned :: int where "StatePermaBanned = 5"

datatype tier = TierActive | TierUnverified | TierTempBanned | TierPermaBanned | TierDeleted

definition ClassifyTier :: "int \<Rightarrow> int option \<Rightarrow> int \<Rightarrow> tier" where
  "ClassifyTier state unbanTime now =
     (if state = StateUnverified then TierUnverified
      else if state = StatePermaBanned then TierPermaBanned
      else if state = StateActive then
        (case unbanTime of Some u \<Rightarrow> if now < u then TierTempBanned else TierActive | None \<Rightarrow> TierActive)
      else TierActive)"

section \<open>lockout.go\<close>

record lockout_policy =
  lp_Window :: int
  lp_BaseBackoff :: int
  lp_MaxBackoff :: int
  lp_Threshold :: int

definition DefaultLockoutPolicy :: lockout_policy where
  "DefaultLockoutPolicy = \<lparr>lp_Window = seconds (15 * 60), lp_BaseBackoff = seconds 30, lp_MaxBackoff = seconds (30 * 60), lp_Threshold = 5\<rparr>"

definition Backoff :: "lockout_policy \<Rightarrow> int \<Rightarrow> int" where
  "Backoff p failures =
     (if failures < lp_Threshold p then 0
      else
        let over = min (failures - lp_Threshold p) 16;
            backoff = wrap64 (lp_BaseBackoff p * 2 ^ nat over)
        in if backoff \<le> 0 \<or> lp_MaxBackoff p < backoff then lp_MaxBackoff p else backoff)"

section \<open>changelog.go, audit.go, action.go\<close>

datatype change_type = ChangeTypeUnknown | ChangeTypePassword | ChangeTypeEmail

datatype audit_kind = AuditBan | AuditUnban | AuditSetRole

record audit_entry =
  au_At :: int
  au_Kind :: audit_kind
  au_Reason :: string
  au_BeforeValue :: string
  au_AfterValue :: string
  au_ID :: int
  au_ActorUserID :: int
  au_TargetUserID :: int

datatype action_kind = Unknown_action | EmailVerification | PasswordReset | EmailChange

record action_token =
  ak_ExpiresAt :: int
  ak_CreatedAt :: int
  ak_ConsumedAt :: "int option"
  ak_Payload :: "string option"
  ak_TokenHash :: string
  ak_AccountID :: int
  ak_Action :: action_kind

definition token_IsExpired :: "action_token \<Rightarrow> int \<Rightarrow> bool" where "token_IsExpired t now \<longleftrightarrow> ak_ExpiresAt t \<le> now"
definition token_IsConsumed :: "action_token \<Rightarrow> bool" where "token_IsConsumed t \<longleftrightarrow> ak_ConsumedAt t \<noteq> None"

section \<open>What comes from outside\<close>

record world =
  wo_lower :: "string \<Rightarrow> string"
  wo_sql_lower :: "string \<Rightarrow> string"
  wo_fold :: "string \<Rightarrow> string \<Rightarrow> bool"
  wo_IsUpper :: "nat \<Rightarrow> bool"
  wo_IsDigit :: "nat \<Rightarrow> bool"
  wo_ParseAddress :: "string \<Rightarrow> bool"
  wo_civil :: "int \<Rightarrow> date"
  wo_sha256 :: "string \<Rightarrow> string"
  wo_random :: "nat \<Rightarrow> string"
  wo_same :: "string \<Rightarrow> string \<Rightarrow> bool"
  wo_like :: "string \<Rightarrow> string \<Rightarrow> bool"
  wo_row_ok :: "string \<Rightarrow> string \<Rightarrow> string \<Rightarrow> bool"

definition ascii :: "string \<Rightarrow> bool" where "ascii s \<longleftrightarrow> list_all (\<lambda>c. byte c < 128) s"

definition ToLower :: "world \<Rightarrow> string \<Rightarrow> string" where
  "ToLower w s = (if ascii s then to_lower s else wo_lower w s)"

definition sql_LOWER :: "world \<Rightarrow> string \<Rightarrow> string" where
  "sql_LOWER w s = (if ascii s then to_lower s else wo_sql_lower w s)"

definition EqualFold :: "world \<Rightarrow> string \<Rightarrow> string \<Rightarrow> bool" where
  "EqualFold w s t = (if ascii s \<and> ascii t then to_lower s = to_lower t else wo_fold w s t)"

definition IsUpper :: "world \<Rightarrow> nat \<Rightarrow> bool" where
  "IsUpper w r = (if r < 128 then r \<in> {65 .. 90} else wo_IsUpper w r)"

definition IsDigit :: "world \<Rightarrow> nat \<Rightarrow> bool" where
  "IsDigit w r = (if r < 128 then r \<in> {48 .. 57} else wo_IsDigit w r)"

section \<open>validation.go\<close>

definition UsernameMaxLen :: nat where "UsernameMaxLen = 23"
definition emailMaxLen :: nat where "emailMaxLen = 39"
definition passwordMaxLen :: nat where "passwordMaxLen = 32"
definition BirthdateMaxAgeYears :: int where "BirthdateMaxAgeYears = 120"

definition usernameCharset :: "string \<Rightarrow> bool" where
  "usernameCharset s \<longleftrightarrow> s \<noteq> '''' \<and> list_all (\<lambda>c. byte c \<in> {65 .. 90} \<union> {97 .. 122} \<union> {48 .. 57} \<or> c = CHR ''_'') s"

definition ValidateUsername :: "string \<Rightarrow> account_error option" where
  "ValidateUsername s =
     (if s = '''' then Some ErrUsernameEmpty
      else if UsernameMaxLen < RuneCount s then Some ErrUsernameTooLong
      else if \<not> usernameCharset s then Some ErrUsernameBadCharset else None)"

definition ValidateEmail :: "world \<Rightarrow> string \<Rightarrow> account_error + string" where
  "ValidateEmail w s =
     (if s = '''' then Inl ErrEmailEmpty
      else let lowered = ToLower w s
        in if emailMaxLen < RuneCount lowered then Inl ErrEmailTooLong
           else if \<not> wo_ParseAddress w lowered then Inl ErrEmailShape else Inr lowered)"

definition ValidatePassword :: "string \<Rightarrow> account_error option" where
  "ValidatePassword s =
     (if s = '''' then Some ErrPasswordEmpty else if passwordMaxLen < RuneCount s then Some ErrPasswordTooLong else None)"

definition ValidateGender :: "string \<Rightarrow> account_error option" where
  "ValidateGender s = (if s \<noteq> ''M'' \<and> s \<noteq> ''F'' then Some ErrGenderInvalid else None)"

definition leap :: "int \<Rightarrow> bool" where "leap y \<longleftrightarrow> y mod 4 = 0 \<and> (y mod 100 \<noteq> 0 \<or> y mod 400 = 0)"

definition days_in :: "int \<Rightarrow> int \<Rightarrow> int" where
  "days_in y m = (if m = 2 then (if leap y then 29 else 28) else if m \<in> {4, 6, 9, 11} then 30 else 31)"

text \<open>\<open>time.Parse("2006-01-02", s)\<close>.\<close>

definition Parse_date :: "string \<Rightarrow> date option" where
  "Parse_date s =
     (let part = (\<lambda>i n. take n (drop i s)); num = (\<lambda>i n. int (number_of 10 (part i n)));
          y = num 0 4; m = num 5 2; d = num 8 2
      in if length s = 10 \<and> list_all is_digit (part 0 4 @ part 5 2 @ part 8 2) \<and> s ! 4 = CHR ''-'' \<and> s ! 7 = CHR ''-'' \<and>
            1 \<le> m \<and> m \<le> 12 \<and> 1 \<le> d \<and> d \<le> days_in y m
         then Some (y, m, d) else None)"

definition date_before :: "date \<Rightarrow> date \<Rightarrow> bool" where
  "date_before a b = (case a of (y, m, d) \<Rightarrow> case b of (y', m', d') \<Rightarrow> y < y' \<or> y = y' \<and> (m < m' \<or> m = m' \<and> d < d'))"

text \<open>\<open>AddDate(years, 0, 0)\<close>: the 29th of February becomes the 1st of March in a common year.\<close>

definition AddYears :: "int \<Rightarrow> date \<Rightarrow> date" where
  "AddYears n a = (case a of (y, m, d) \<Rightarrow> if days_in (y + n) m < d then (y + n, m + 1, 1) else (y + n, m, d))"

definition ValidateBirthdate :: "world \<Rightarrow> string \<Rightarrow> int \<Rightarrow> account_error + date" where
  "ValidateBirthdate w s now =
     (if s = '''' then Inl ErrBirthdateEmpty
      else case Parse_date s of
        None \<Rightarrow> Inl ErrBirthdateShape
      | Some parsed \<Rightarrow>
          let today = wo_civil w now
          in if date_before today parsed then Inl ErrBirthdateFuture
             else if date_before parsed (AddYears (- BirthdateMaxAgeYears) today) then Inl ErrBirthdateTooOld
             else Inr parsed)"

section \<open>registration_policy.go\<close>

definition regUsernameMinLen :: nat where "regUsernameMinLen = 6"
definition regPasswordMinLen :: nat where "regPasswordMinLen = 8"

text \<open>The runes of \<open>passwordSpecials\<close>: the punctuation of ASCII.\<close>

definition passwordSpecials :: "nat set" where "passwordSpecials = {33 .. 47} \<union> {58 .. 64} \<union> {91 .. 96} \<union> {123 .. 126}"

definition CheckRegistrationUsername :: "string \<Rightarrow> account_error option" where
  "CheckRegistrationUsername username = (if RuneCount username < regUsernameMinLen then Some ErrRegUsernameTooShort else None)"

definition CheckRegistrationPassword :: "world \<Rightarrow> string \<Rightarrow> account_error option" where
  "CheckRegistrationPassword w password =
     (let rs = map fst (runes password); upper = IsUpper w; digit = (\<lambda>r. \<not> IsUpper w r \<and> IsDigit w r);
          symbol = (\<lambda>r. \<not> IsUpper w r \<and> \<not> IsDigit w r \<and> r \<in> passwordSpecials)
      in if length rs < regPasswordMinLen then Some ErrRegPasswordTooShort
         else if \<not> list_ex upper rs then Some ErrRegPasswordNoUpper
         else if \<not> list_ex digit rs then Some ErrRegPasswordNoDigit
         else if \<not> list_ex symbol rs then Some ErrRegPasswordNoSymbol else None)"

section \<open>Tokens as text\<close>

text \<open>\<open>base64.RawURLEncoding.DecodeString\<close>: line breaks are skipped, the last bits are not checked.\<close>

definition sextet_of :: "char \<Rightarrow> nat option" where
  "sextet_of c = (let n = byte c in
     if n \<in> {65 .. 90} then Some (n - 65)
     else if n \<in> {97 .. 122} then Some (n - 71)
     else if n \<in> {48 .. 57} then Some (n + 4)
     else if c = CHR ''-'' then Some 62 else if c = CHR ''_'' then Some 63 else None)"

fun unsextets :: "nat list \<Rightarrow> string option" where
  "unsextets (a # b # c # d # r) = map_option (\<lambda>s.
     char_of (a * 4 + b div 16) # char_of (b * 16 + c div 4) # char_of (c * 64 + d) # s) (unsextets r)"
| "unsextets [a, b, c] = Some [char_of (a * 4 + b div 16), char_of (b * 16 + c div 4)]"
| "unsextets [a, b] = Some [char_of (a * 4 + b div 16)]"
| "unsextets [a] = None"
| "unsextets [] = Some []"

definition unbase64url :: "string \<Rightarrow> string option" where
  "unbase64url s =
     (let cs = filter (\<lambda>c. byte c \<noteq> 10 \<and> byte c \<noteq> 13) s
      in if list_all (\<lambda>c. sextet_of c \<noteq> None) cs then unsextets (map (the \<circ> sextet_of) cs) else None)"

text \<open>\<open>decodeTokenToHash\<close>\<close>

definition decodeTokenToHash :: "world \<Rightarrow> string \<Rightarrow> string option" where
  "decodeTokenToHash w rawToken =
     (case unbase64url rawToken of
        None \<Rightarrow> None
      | Some raw \<Rightarrow> if length raw \<noteq> 32 then None else Some (wo_sha256 w raw))"

text \<open>A token reads back from its text.\<close>

lemma alphabet_back: "map sextet_of url_alphabet = map Some [0..<64]" "list_all (\<lambda>c. byte c \<noteq> 10 \<and> byte c \<noteq> 13) url_alphabet"
  by (simp_all add: url_alphabet_def sextet_of_def byte_def Let_def upt_rec)

lemma sextet_back [simp]: "sextet_of (sextet n) = Some (n mod 64)" "byte (sextet n) \<noteq> 10" "byte (sextet n) \<noteq> 13"
proof -
  have len: "n mod 64 < length url_alphabet" using alphabet_back(1) by (metis length_map length_upt diff_zero mod_less_divisor zero_less_numeral)
  have "map sextet_of url_alphabet ! (n mod 64) = map Some [0..<64] ! (n mod 64)" by (simp only: alphabet_back(1))
  then show "sextet_of (sextet n) = Some (n mod 64)" using len by (simp add: sextet_def)
  show "byte (sextet n) \<noteq> 10" "byte (sextet n) \<noteq> 13"
    using alphabet_back(2) len by (auto simp: sextet_def list_all_length)
qed

lemma base64url_chars: "c \<in> set (base64url s) \<Longrightarrow> \<exists>n. c = sextet n"
  by (induction s rule: base64url.induct) (auto simp: Let_def)

lemma char_of_mod [simp]: "char_of ((k * 256 + n :: nat)) = (char_of n :: char)"
  by (simp add: char_of_eq_iff take_bit_eq_mod)

lemma sextets_join:
  fixes a b c :: nat
  assumes "a < 256" "b < 256" "c < 256"
  shows "char_of (a div 4 mod 64 * 4 + (a * 16 + b div 16) mod 64 div 16) = (char_of a :: char)"
    "char_of ((a * 16 + b div 16) mod 64 * 16 + (b * 4 + c div 64) mod 64 div 4) = (char_of b :: char)"
    "char_of ((b * 4 + c div 64) mod 64 * 64 + c mod 64) = (char_of c :: char)"
    "char_of (a div 4 mod 64 * 4 + a * 16 mod 64 div 16) = (char_of a :: char)"
    "char_of ((a * 16 + b div 16) mod 64 * 16 + b * 4 mod 64 div 4) = (char_of b :: char)"
proof -
  have low: "(x * m + y) mod (m * n) = x mod n * m + y" if "y < m" for x m n y :: nat
    using that by (simp add: mod_mult2_eq)
  have s2: "(a * 16 + b div 16) mod 64 = a mod 4 * 16 + b div 16" "a * 16 mod 64 = a mod 4 * 16"
    using low [of "b div 16" 16 a 4] low [of 0 16 a 4] assms by simp_all
  have s3: "(b * 4 + c div 64) mod 64 = b mod 16 * 4 + c div 64" "b * 4 mod 64 = b mod 16 * 4"
    using low [of "c div 64" 4 b 16] low [of 0 4 b 16] assms by simp_all
  have "a div 4 mod 64 = a div 4" using assms by simp
  moreover have "(a mod 4 * 16 + b div 16) div 16 = a mod 4" using assms by simp
  ultimately have "a div 4 mod 64 * 4 + (a mod 4 * 16 + b div 16) div 16 = a" "a div 4 mod 64 * 4 + a mod 4 * 16 div 16 = a" by simp_all
  then show "char_of (a div 4 mod 64 * 4 + (a * 16 + b div 16) mod 64 div 16) = (char_of a :: char)"
    "char_of (a div 4 mod 64 * 4 + a * 16 mod 64 div 16) = (char_of a :: char)" by (simp_all only: s2)
  have "(b mod 16 * 4 + c div 64) div 4 = b mod 16" using assms by simp
  then have "(a mod 4 * 16 + b div 16) * 16 + (b mod 16 * 4 + c div 64) div 4 = a mod 4 * 256 + b"
    "(a mod 4 * 16 + b div 16) * 16 + b mod 16 * 4 div 4 = a mod 4 * 256 + b" by simp_all
  then show "char_of ((a * 16 + b div 16) mod 64 * 16 + (b * 4 + c div 64) mod 64 div 4) = (char_of b :: char)"
    "char_of ((a * 16 + b div 16) mod 64 * 16 + b * 4 mod 64 div 4) = (char_of b :: char)" by (simp_all only: s2 s3 char_of_mod)
  have "(b mod 16 * 4 + c div 64) * 64 + c mod 64 = b mod 16 * 256 + c" by simp
  then show "char_of ((b * 4 + c div 64) mod 64 * 64 + c mod 64) = (char_of c :: char)" by (simp only: s3 char_of_mod)
qed

lemma unsextets_base64url: "unsextets (map (the \<circ> sextet_of) (base64url s)) = Some s"
proof -
  have lt: "(of_char c :: nat) < 256" for c by simp
  show ?thesis
    by (induction s rule: base64url.induct) (simp_all add: Let_def sextets_join [OF lt lt lt] del: mult_numeral_1)
qed

lemma unbase64url_base64url: "unbase64url (base64url s) = Some s"
proof -
  have "list_all (\<lambda>c. sextet_of c \<noteq> None \<and> byte c \<noteq> 10 \<and> byte c \<noteq> 13) (base64url s)"
    by (auto simp: list_all_iff dest!: base64url_chars)
  then have "filter (\<lambda>c. byte c \<noteq> 10 \<and> byte c \<noteq> 13) (base64url s) = base64url s" "list_all (\<lambda>c. sextet_of c \<noteq> None) (base64url s)"
    by (auto simp: list_all_iff filter_id_conv)
  then show ?thesis by (simp add: unbase64url_def unsextets_base64url Let_def)
qed

lemma decode_issued: "length raw = 32 \<Longrightarrow> decodeTokenToHash w (base64url raw) = Some (wo_sha256 w raw)"
  by (simp add: decodeTokenToHash_def unbase64url_base64url)

end
