(* ===== verification/Account_Repo.thy ===== *)
theory Account_Repo
  imports Account_Domain
begin

text \<open>
  \<open>account/infra\<close>, \<open>actiontoken/infra\<close> and \<open>internal/infra/postgres/record.go\<close>: the accounts in
  the game's database (\<open>mysql_user.go\<close>), and in the panel's own the sessions, the tokens of
  mailed links, the times of the last changes, the login attempts and the audit log. Every
  statement is a program of its own; functions of two are put together where requests run.
  The database's clock is the panel's.
\<close>

section \<open>The tables\<close>

record login_row =
  lo_account_id :: int
  lo_userid :: string
  lo_user_pass :: string
  lo_sex :: string
  lo_email :: string
  lo_group_id :: int
  lo_state :: int
  lo_unban_time :: int
  lo_last_ip :: "string option"
  lo_lastlogin :: "int option"
  lo_birthdate :: date

record character =
  ch_LastLogin :: "int option"
  ch_Name :: string
  ch_LastMap :: string
  ch_ID :: int
  ch_AccountID :: int
  ch_Class :: int
  ch_BaseLevel :: int
  ch_JobLevel :: int
  ch_Zeny :: int
  ch_Online :: bool

text \<open>The game's tables: accounts, and characters with their slots.\<close>

record logindb =
  lo_login :: "login_row list"
  lo_char :: "(int \<times> character) list"
  lo_seq :: int

type_synonym 'a login_prog = "(logindb conn, account_failure, 'a) prog"

record attempt =
  la_username :: string
  la_account_id :: "int option"
  la_ip :: string
  la_user_agent :: string
  la_success :: bool
  la_attempted_at :: int

record change_row =
  cr_account_id :: int
  cr_change_type :: change_type
  cr_changed_at :: int

record paneldb =
  cp_sessions :: "session list"
  cp_action_tokens :: "action_token list"
  cp_account_record :: "change_row list"
  cp_login_attempts :: "attempt list"
  cp_audit_log :: "audit_entry list"
  audit_seq :: int
  db_now :: int

type_synonym 'a panel_prog = "(paneldb conn, account_failure, 'a) prog"

definition session_check :: "session \<Rightarrow> bool" where "session_check s \<longleftrightarrow> length (se_TokenHash s) = 32 \<and> \<bar>se_UserID s\<bar> \<le> max_int32"
definition token_check :: "action_token \<Rightarrow> bool" where "token_check t \<longleftrightarrow> length (ak_TokenHash t) = 32 \<and> \<bar>ak_AccountID t\<bar> \<le> max_int32"
definition attempt_check :: "attempt \<Rightarrow> bool" where "attempt_check a \<longleftrightarrow> varchar 64 (la_username a) \<and> storable (la_user_agent a)"
definition audit_check :: "audit_entry \<Rightarrow> bool" where "audit_check a \<longleftrightarrow> storable (au_Reason a)"

section \<open>mysql_user.go\<close>

definition unbanTimeFromSeconds :: "int \<Rightarrow> int option" where
  "unbanTimeFromSeconds secs = (if secs = 0 then None else Some (seconds secs))"

definition user_of :: "login_row \<Rightarrow> user" where
  "user_of r =
     \<lparr>us_Birthdate = lo_birthdate r, us_UnbanTime = unbanTimeFromSeconds (lo_unban_time r), us_LastLogin = lo_lastlogin r,
      us_Username = lo_userid r, us_Email = lo_email r, us_Gender = '''',
      us_LastIP = (case lo_last_ip r of None \<Rightarrow> '''' | Some ip \<Rightarrow> ip),
      us_ID = lo_account_id r, us_GroupID = lo_group_id r, us_State = lo_state r\<rparr>"

text \<open>A new account is a player's, not verified and not banned; the game's columns may refuse its texts.\<close>

definition insert_login :: "world \<Rightarrow> string \<Rightarrow> string \<Rightarrow> string \<Rightarrow> string \<Rightarrow> date \<Rightarrow> logindb \<Rightarrow> (int \<times> logindb) option" where
  "insert_login w username email password gender birthdate d =
     (let i = lo_seq d + 1
      in if \<not> wo_row_ok w username email password then None
         else Some (i, d\<lparr>lo_login := lo_login d @
           [\<lparr>lo_account_id = i, lo_userid = username, lo_user_pass = password, lo_sex = gender, lo_email = email, lo_group_id = 0,
             lo_state = 1, lo_unban_time = 0, lo_last_ip = None, lo_lastlogin = None, lo_birthdate = birthdate\<rparr>], lo_seq := i\<rparr>))"

definition user_Create :: "world \<Rightarrow> string \<Rightarrow> string \<Rightarrow> string \<Rightarrow> string \<Rightarrow> date \<Rightarrow> int login_prog" where
  "user_Create w username email password gender birthdate = sql Account_store (insert_login w username email password gender birthdate)"

definition user_GetAll :: "user list login_prog" where
  "user_GetAll = query Account_store (\<lambda>d. map user_of (lo_login d))"

definition selectLoginRow :: "(login_row \<Rightarrow> bool) \<Rightarrow> user login_prog" where
  "selectLoginRow p = query_row Account_store (Account ErrUserNotFound) (\<lambda>d. map_option user_of (find p (lo_login d)))"

definition user_GetByID :: "int \<Rightarrow> user login_prog" where "user_GetByID i = selectLoginRow (\<lambda>r. lo_account_id r = i)"
definition GetByUsername :: "world \<Rightarrow> string \<Rightarrow> user login_prog" where "GetByUsername w name = selectLoginRow (\<lambda>r. wo_same w (lo_userid r) name)"
definition user_GetByEmail :: "world \<Rightarrow> string \<Rightarrow> user login_prog" where "user_GetByEmail w email = selectLoginRow (\<lambda>r. wo_same w (lo_email r) email)"

definition VerifyPassword :: "int \<Rightarrow> string \<Rightarrow> bool login_prog" where
  "VerifyPassword i password =
     bindE (query_row Account_store (Account ErrUserNotFound) (\<lambda>d. map_option lo_user_pass (find (\<lambda>r. lo_account_id r = i) (lo_login d))))
       (\<lambda>stored. retE (stored = password))"

definition GetCredentials :: "world \<Rightarrow> string \<Rightarrow> (user \<times> string) login_prog" where
  "GetCredentials w username = query_row Account_store (Account ErrInvalidCredentials)
     (\<lambda>d. map_option (\<lambda>r. (user_of r, lo_user_pass r)) (find (\<lambda>r. wo_same w (lo_userid r) username) (lo_login d)))"

text \<open>An update tells how many rows it matched (the connection asks for found rows).\<close>

definition update_login :: "int \<Rightarrow> (login_row \<Rightarrow> bool) \<Rightarrow> (login_row \<Rightarrow> login_row) \<Rightarrow> logindb \<Rightarrow> (int \<times> logindb) option" where
  "update_login i ok f d =
     (let rs = filter (\<lambda>r. lo_account_id r = i) (lo_login d)
      in if list_all (\<lambda>r. ok (f r)) rs then Some (int (length rs), d\<lparr>lo_login := upd_where (\<lambda>r. lo_account_id r = i) f (lo_login d)\<rparr>) else None)"

definition found_one :: "int login_prog \<Rightarrow> unit login_prog" where
  "found_one m = bindE m (\<lambda>n. if n = 0 then failE (Account ErrUserNotFound) else retE ())"

definition row_ok :: "world \<Rightarrow> login_row \<Rightarrow> bool" where "row_ok w r = wo_row_ok w (lo_userid r) (lo_email r) (lo_user_pass r)"

text \<open>The two statements of \<open>MarkVerified\<close>.\<close>

definition account_exists :: "int \<Rightarrow> int login_prog" where
  "account_exists accountID = query_row Account_store (Account ErrUserNotFound)
     (\<lambda>d. map_option lo_account_id (find (\<lambda>r. lo_account_id r = accountID) (lo_login d)))"

definition set_verified :: "int \<Rightarrow> unit login_prog" where
  "set_verified accountID = exec Account_store (\<lambda>d.
     d\<lparr>lo_login := upd_where (\<lambda>r. lo_account_id r = accountID \<and> lo_state r = 1) (\<lambda>r. r\<lparr>lo_state := 0\<rparr>) (lo_login d)\<rparr>)"

definition user_UpdatePassword :: "world \<Rightarrow> int \<Rightarrow> string \<Rightarrow> unit login_prog" where
  "user_UpdatePassword w accountID newPassword =
     found_one (sql Account_store (update_login accountID (row_ok w) (\<lambda>r. r\<lparr>lo_user_pass := newPassword\<rparr>)))"

definition UpdateEmail :: "world \<Rightarrow> int \<Rightarrow> string \<Rightarrow> unit login_prog" where
  "UpdateEmail w accountID newEmail = found_one (sql Account_store (update_login accountID (row_ok w) (\<lambda>r. r\<lparr>lo_email := newEmail\<rparr>)))"

definition user_Delete :: "int \<Rightarrow> unit login_prog" where
  "user_Delete i = found_one (sql Account_store (\<lambda>d.
     Some (int (length (filter (\<lambda>r. lo_account_id r = i) (lo_login d))), d\<lparr>lo_login := del_where (\<lambda>r. lo_account_id r = i) (lo_login d)\<rparr>)))"

definition UpdateBan :: "int \<Rightarrow> int \<Rightarrow> int \<Rightarrow> unit login_prog" where
  "UpdateBan i state unbanTime =
     found_one (sql Account_store (update_login i (\<lambda>_. True) (\<lambda>r. r\<lparr>lo_state := state, lo_unban_time := unbanTime\<rparr>)))"

definition UpdateGroup :: "int \<Rightarrow> int \<Rightarrow> unit login_prog" where
  "UpdateGroup i groupID = found_one (sql Account_store (update_login i (\<lambda>_. True) (\<lambda>r. r\<lparr>lo_group_id := groupID\<rparr>)))"

record list_query =
  lq_Query :: string
  lq_Page :: int
  lq_PerPage :: int
  lq_ExcludeID :: int

record user_page =
  up_Users :: "user list"
  up_Total :: int
  up_Page :: int
  up_PerPage :: int
  up_TotalPages :: int

definition DefaultPerPage :: int where "DefaultPerPage = 20"
definition MaxPerPage :: int where "MaxPerPage = 100"

definition buildListWhere :: "world \<Rightarrow> list_query \<Rightarrow> login_row \<Rightarrow> bool" where
  "buildListWhere w q r =
     (let needle = TrimSpace (lq_Query q); like = ''%'' @ needle @ ''%''
      in (needle = '''' \<or> wo_like w (lo_userid r) like \<or> wo_like w (lo_email r) like) \<and> (lq_ExcludeID q \<le> 0 \<or> lo_account_id r \<noteq> lq_ExcludeID q))"

definition user_List :: "world \<Rightarrow> list_query \<Rightarrow> user_page login_prog" where
  "user_List w q0 =
     (let perPage = min (if lq_PerPage q0 \<le> 0 then DefaultPerPage else lq_PerPage q0) MaxPerPage;
          page = (if lq_Page q0 \<le> 0 then 1 else lq_Page q0);
          sel = (\<lambda>d. filter (buildListWhere w q0) (lo_login d));
          offset = wrap64 (wrap64 (page - 1) * perPage)
      in bindE (query Account_store (\<lambda>d. int (length (sel d)))) (\<lambda>total.
         bindE (sql Account_store (\<lambda>d. if offset < 0 then None
                 else Some (take (nat perPage) (drop (nat offset) (sort_key lo_account_id (sel d))), d))) (\<lambda>rows.
         retE \<lparr>up_Users = map user_of rows, up_Total = total, up_Page = page, up_PerPage = perPage,
               up_TotalPages = go_div (total + perPage - 1) perPage\<rparr>)))"

definition EmailsByIDs :: "int list \<Rightarrow> (int \<times> string) list login_prog" where
  "EmailsByIDs ids =
     (if ids = [] then retE []
      else query Account_store (\<lambda>d. map (\<lambda>r. (lo_account_id r, lo_email r)) (filter (\<lambda>r. lo_account_id r \<in> set ids) (lo_login d))))"

section \<open>mysql_char.go\<close>

definition ListByAccount :: "int \<Rightarrow> character list login_prog" where
  "ListByAccount accountID = query Account_store (\<lambda>d. map snd (sort_key fst (filter (\<lambda>c. ch_AccountID (snd c) = accountID) (lo_char d))))"

section \<open>postgres_session.go\<close>

definition session_Create :: "session \<Rightarrow> unit panel_prog" where
  "session_Create s = exec_opt Account_store (\<lambda>d.
     if \<not> session_check s \<or> list_ex (\<lambda>r. se_TokenHash r = se_TokenHash s) (cp_sessions d) then None
     else Some (d\<lparr>cp_sessions := cp_sessions d @ [s]\<rparr>))"

definition GetByTokenHash :: "string \<Rightarrow> session panel_prog" where
  "GetByTokenHash h = query_row Account_store (Account ErrSessionNotFound) (\<lambda>d. find (\<lambda>s. se_TokenHash s = h) (cp_sessions d))"

definition affected :: "account_error \<Rightarrow> nat panel_prog \<Rightarrow> unit panel_prog" where
  "affected e m = bindE m (\<lambda>n. if n = 0 then failE (Account e) else retE ())"

definition session_Refresh :: "string \<Rightarrow> int \<Rightarrow> int \<Rightarrow> unit panel_prog" where
  "session_Refresh h lastSeen expiresAt = affected ErrSessionNotFound (sql Account_store (\<lambda>d.
     Some (length (filter (\<lambda>s. se_TokenHash s = h) (cp_sessions d)),
       d\<lparr>cp_sessions := upd_where (\<lambda>s. se_TokenHash s = h) (\<lambda>s. s\<lparr>se_LastSeenAt := lastSeen, se_ExpiresAt := expiresAt\<rparr>) (cp_sessions d)\<rparr>)))"

definition session_Delete :: "string \<Rightarrow> unit panel_prog" where
  "session_Delete h = affected ErrSessionNotFound (sql Account_store (\<lambda>d.
     Some (length (filter (\<lambda>s. se_TokenHash s = h) (cp_sessions d)), d\<lparr>cp_sessions := del_where (\<lambda>s. se_TokenHash s = h) (cp_sessions d)\<rparr>)))"

definition DeleteByUserID :: "int \<Rightarrow> unit panel_prog" where
  "DeleteByUserID i = exec Account_store (\<lambda>d. d\<lparr>cp_sessions := del_where (\<lambda>s. se_UserID s = i) (cp_sessions d)\<rparr>)"

definition DeleteByUserIDExcept :: "int \<Rightarrow> string \<Rightarrow> unit panel_prog" where
  "DeleteByUserIDExcept i h = exec Account_store (\<lambda>d. d\<lparr>cp_sessions := del_where (\<lambda>s. se_UserID s = i \<and> se_TokenHash s \<noteq> h) (cp_sessions d)\<rparr>)"

definition DeleteExpired :: "nat panel_prog" where
  "DeleteExpired = sql Account_store (\<lambda>d. Some (length (filter (\<lambda>s. se_ExpiresAt s < db_now d) (cp_sessions d)),
     d\<lparr>cp_sessions := del_where (\<lambda>s. se_ExpiresAt s < db_now d) (cp_sessions d)\<rparr>))"

section \<open>actiontoken/infra/postgres.go\<close>

definition token_Insert :: "action_token \<Rightarrow> unit panel_prog" where
  "token_Insert t = exec_opt Account_store (\<lambda>d.
     if \<not> token_check t \<or> list_ex (\<lambda>r. ak_TokenHash r = ak_TokenHash t) (cp_action_tokens d) then None
     else Some (d\<lparr>cp_action_tokens := cp_action_tokens d @ [t]\<rparr>))"

definition GetByHash :: "string \<Rightarrow> action_token panel_prog" where
  "GetByHash h = query_row Account_store (Account ErrTokenInvalid) (\<lambda>d. find (\<lambda>t. ak_TokenHash t = h) (cp_action_tokens d))"

definition DeleteUnconsumed :: "int \<Rightarrow> action_kind \<Rightarrow> unit panel_prog" where
  "DeleteUnconsumed accountID a = exec Account_store (\<lambda>d.
     d\<lparr>cp_action_tokens := del_where (\<lambda>t. ak_AccountID t = accountID \<and> ak_Action t = a \<and> \<not> token_IsConsumed t) (cp_action_tokens d)\<rparr>)"

definition MarkConsumed :: "string \<Rightarrow> int \<Rightarrow> unit panel_prog" where
  "MarkConsumed h now = affected ErrTokenAlreadyUsed (sql Account_store (\<lambda>d.
     Some (length (filter (\<lambda>t. ak_TokenHash t = h \<and> \<not> token_IsConsumed t) (cp_action_tokens d)),
       d\<lparr>cp_action_tokens := upd_where (\<lambda>t. ak_TokenHash t = h \<and> \<not> token_IsConsumed t) (\<lambda>t. t\<lparr>ak_ConsumedAt := Some now\<rparr>) (cp_action_tokens d)\<rparr>)))"

definition latest :: "int list \<Rightarrow> int option" where
  "latest xs = (if xs = [] then None else Some (foldr max (tl xs) (hd xs)))"

definition token_MostRecentIssuedAt :: "int \<Rightarrow> action_kind \<Rightarrow> int option panel_prog" where
  "token_MostRecentIssuedAt accountID a = query Account_store (\<lambda>d.
     latest (map ak_CreatedAt (filter (\<lambda>t. ak_AccountID t = accountID \<and> ak_Action t = a) (cp_action_tokens d))))"

section \<open>record.go\<close>

definition record_Record :: "int \<Rightarrow> change_type \<Rightarrow> int \<Rightarrow> unit panel_prog" where
  "record_Record i kind now = exec Account_store (\<lambda>d.
     d\<lparr>cp_account_record := del_where (\<lambda>r. cr_account_id r = i \<and> cr_change_type r = kind) (cp_account_record d) @
        [\<lparr>cr_account_id = i, cr_change_type = kind, cr_changed_at = now\<rparr>]\<rparr>)"

definition MostRecent :: "int \<Rightarrow> change_type \<Rightarrow> int option panel_prog" where
  "MostRecent i kind = query Account_store (\<lambda>d.
     map_option cr_changed_at (find (\<lambda>r. cr_account_id r = i \<and> cr_change_type r = kind) (cp_account_record d)))"

section \<open>postgres_login_attempts.go\<close>

text \<open>The address is the text of the client's, or the zero address when there is none.\<close>

definition insert_attempt :: "string \<Rightarrow> int option \<Rightarrow> string option \<Rightarrow> bool \<Rightarrow> string \<Rightarrow> unit panel_prog" where
  "insert_attempt username accountID ip success userAgent = exec_opt Account_store (\<lambda>d.
     let a = \<lparr>la_username = username, la_account_id = accountID, la_ip = (case ip of None \<Rightarrow> ''0.0.0.0'' | Some a \<Rightarrow> a),
              la_user_agent = userAgent, la_success = success, la_attempted_at = db_now d\<rparr>
     in if attempt_check a then Some (d\<lparr>cp_login_attempts := cp_login_attempts d @ [a]\<rparr>) else None)"

definition clear_failures :: "world \<Rightarrow> string \<Rightarrow> unit panel_prog" where
  "clear_failures w username = exec_opt Account_store (\<lambda>d.
     if storable (ToLower w username)
     then Some (d\<lparr>cp_login_attempts := del_where (\<lambda>a. sql_LOWER w (la_username a) = ToLower w username \<and> \<not> la_success a) (cp_login_attempts d)\<rparr>)
     else None)"

definition DeleteOlderThan :: "int \<Rightarrow> nat panel_prog" where
  "DeleteOlderThan cutoff = sql Account_store (\<lambda>d. Some (length (filter (\<lambda>a. la_attempted_at a < cutoff) (cp_login_attempts d)),
     d\<lparr>cp_login_attempts := del_where (\<lambda>a. la_attempted_at a < cutoff) (cp_login_attempts d)\<rparr>))"

definition failures_since :: "world \<Rightarrow> string \<Rightarrow> int \<Rightarrow> attempt list \<Rightarrow> int list" where
  "failures_since w key cutoff as =
     map la_attempted_at (filter (\<lambda>a. sql_LOWER w (la_username a) = key \<and> cutoff < la_attempted_at a \<and> \<not> la_success a) as)"

definition ConsecutiveFailures :: "world \<Rightarrow> string \<Rightarrow> int \<Rightarrow> int \<Rightarrow> (int \<times> int) panel_prog" where
  "ConsecutiveFailures w username window now =
     (let key = ToLower w username; cutoff = now - window
      in sql Account_store (\<lambda>d. if \<not> storable key then None
           else let ts = failures_since w key cutoff (cp_login_attempts d)
             in Some ((int (length ts), case latest ts of None \<Rightarrow> 0 | Some t \<Rightarrow> t), d)))"

section \<open>postgres_audit.go\<close>

definition audit_Record :: "audit_entry \<Rightarrow> unit panel_prog" where
  "audit_Record a = exec_opt Account_store (\<lambda>d.
     if audit_check a then Some (d\<lparr>cp_audit_log := cp_audit_log d @ [a\<lparr>au_At := db_now d, au_ID := audit_seq d + 1\<rparr>], audit_seq := audit_seq d + 1\<rparr>)
     else None)"

definition ListByTarget :: "int \<Rightarrow> int \<Rightarrow> audit_entry list panel_prog" where
  "ListByTarget targetID limit0 =
     (let limit = (if limit0 \<le> 0 then 10 else limit0)
      in query Account_store (\<lambda>d. take (nat limit)
           (rev (sort_key au_At (sort_key au_ID (filter (\<lambda>a. au_TargetUserID a = targetID) (cp_audit_log d)))))))"

end
