(* ===== verification/Tasks.thy ===== *)
theory Tasks
  imports Prelude
begin

text \<open>
  Requests that run at the same time. A request is a task: it ends with an error or a value, has
  an atomic step to do (a database statement or transaction, a look at the clock) that
  changes the shared state and says how to go on, or waits for a condition (a free mutex). A
  panel is the shared state and the tasks
  under way; a schedule picks, step by step, which of them moves, when the clock does, and when
  a new request arrives.
\<close>

section \<open>Tasks\<close>

datatype ('s, 'e, 'a) task =
    Ended "'e + 'a"
  | Step "fault list \<Rightarrow> 's \<Rightarrow> 's" "fault list \<Rightarrow> 's \<Rightarrow> ('s, 'e, 'a) task"
  | Await "'s \<Rightarrow> bool" "'s \<Rightarrow> 's" "('s, 'e, 'a) task"

definition ret :: "'a \<Rightarrow> ('s, 'e, 'a) task" where "ret x = Ended (Inr x)"
definition fail :: "'e \<Rightarrow> ('s, 'e, 'a) task" where "fail e = Ended (Inl e)"

primrec bindT :: "('s, 'e, 'a) task \<Rightarrow> ('e + 'a \<Rightarrow> ('s, 'f, 'b) task) \<Rightarrow> ('s, 'f, 'b) task" where
  "bindT (Ended r) g = g r"
| "bindT (Step e k) g = Step e (\<lambda>fs s. bindT (k fs s) g)"
| "bindT (Await c e k) g = Await c e (bindT k g)"

text \<open>\<open>if err != nil { return err }\<close>\<close>

definition andThen :: "('s, 'e, 'a) task \<Rightarrow> ('a \<Rightarrow> ('s, 'e, 'b) task) \<Rightarrow> ('s, 'e, 'b) task" where
  "andThen m g = bindT m (\<lambda>r. case r of Inl e \<Rightarrow> fail e | Inr x \<Rightarrow> g x)"

text \<open>One step that looks at the state, and one that changes it.\<close>

definition look :: "('s \<Rightarrow> 'a) \<Rightarrow> ('s, 'e, 'a) task" where
  "look f = Step (\<lambda>_ s. s) (\<lambda>_ s. ret (f s))"

definition change :: "('s \<Rightarrow> 's) \<Rightarrow> ('s, 'e, unit) task" where
  "change f = Step (\<lambda>_. f) (\<lambda>_ _. ret ())"

text \<open>A program of the store as one step; what the connection loses in it is the step's fault list.\<close>

definition atomic :: "('s \<Rightarrow> 'd) \<Rightarrow> ('d \<Rightarrow> 's \<Rightarrow> 's) \<Rightarrow> ('d conn, 'e, 'a) prog \<Rightarrow> ('s, 'e, 'a) task" where
  "atomic get put m =
     Step (\<lambda>fs s. put (data (snd (m \<lparr>data = get s, faults = fs\<rparr>))) s)
          (\<lambda>fs s. Ended (fst (m \<lparr>data = get s, faults = fs\<rparr>)))"

text \<open>
  A task that has the panel to itself, on a connection that loses nothing: \<open>None\<close> when it waits
  for what never comes.
\<close>

primrec alone :: "('s, 'e, 'a) task \<Rightarrow> 's \<Rightarrow> (('e + 'a) \<times> 's) option" where
  "alone (Ended r) s = Some (r, s)"
| "alone (Step e k) s = alone (k [] s) (e [] s)"
| "alone (Await c e k) s = (if c s then alone k (e s) else None)"

lemma alone_simps [simp]:
  "alone (ret x) s = Some (Inr x, s)" "alone (fail e) s = Some (Inl e, s)" "alone (look f) s = Some (Inr (f s), s)"
  "alone (change g) s = Some (Inr (), g s)"
  by (simp_all add: ret_def fail_def look_def change_def)

lemma task_induct [case_names Ended Step Await]:
  assumes "\<And>r. P (Ended r)" and "\<And>e k. (\<And>fs s. P (k fs s)) \<Longrightarrow> P (Step e k)" and "\<And>c e k. P k \<Longrightarrow> P (Await c e k)"
  shows "P t"
proof (induction t)
  case (Step e k)
  then show ?case by (intro assms(2)) blast
qed (rule assms(1), rule assms(3))

lemma bindT_assoc: "bindT (bindT m f) g = bindT m (\<lambda>r. bindT (f r) g)"
  by (induction m rule: task_induct) simp_all

lemma bindT_ended [simp]: "bindT (ret x) g = g (Inr x)" "bindT (fail e) g = g (Inl e)"
  by (simp_all add: ret_def fail_def)

lemma alone_bind: "alone (bindT m g) s = (case alone m s of None \<Rightarrow> None | Some (r, t) \<Rightarrow> alone (g r) t)"
  by (induction m arbitrary: s rule: task_induct) simp_all

lemma alone_andThen:
  "alone (andThen m g) s = (case alone m s of None \<Rightarrow> None | Some (Inl e, t) \<Rightarrow> Some (Inl e, t) | Some (Inr x, t) \<Rightarrow> alone (g x) t)"
  by (auto simp: andThen_def alone_bind split: prod.split sum.split option.split)

lemma alone_atomic:
  "alone (atomic get put m) s = (case m \<lparr>data = get s, faults = []\<rparr> of (r, c) \<Rightarrow> Some (r, put (data c) s))"
  by (simp add: atomic_def split: prod.split)

section \<open>Panels\<close>

datatype 'q move = Advance nat "fault list" | Arrive 'q | Elapse nat

type_synonym ('s, 'e, 'a) panel = "'s \<times> ('s, 'e, 'a) task list"

text \<open>One step of a task: nothing, when it has ended or what it waits for does not hold.\<close>

primrec step_task :: "fault list \<Rightarrow> ('s, 'e, 'a) task \<Rightarrow> 's \<Rightarrow> 's \<times> ('s, 'e, 'a) task" where
  "step_task fs (Ended r) s = (s, Ended r)"
| "step_task fs (Step e k) s = (e fs s, k fs s)"
| "step_task fs (Await c e k) s = (if c s then (e s, k) else (s, Await c e k))"

definition run_move :: "(nat \<Rightarrow> 's \<Rightarrow> 's) \<Rightarrow> ('q \<Rightarrow> ('s, 'e, 'a) task) \<Rightarrow> 'q move \<Rightarrow> ('s, 'e, 'a) panel \<Rightarrow> ('s, 'e, 'a) panel" where
  "run_move elapse handle x p = (case p of (s, ts) \<Rightarrow>
     (case x of
        Arrive q \<Rightarrow> (s, ts @ [handle q])
      | Elapse n \<Rightarrow> (elapse n s, ts)
      | Advance i fs \<Rightarrow>
          if i < length ts then (case step_task fs (ts ! i) s of (s', t) \<Rightarrow> (s', ts[i := t])) else (s, ts)))"

definition run_panel :: "(nat \<Rightarrow> 's \<Rightarrow> 's) \<Rightarrow> ('q \<Rightarrow> ('s, 'e, 'a) task) \<Rightarrow> 'q move list \<Rightarrow> ('s, 'e, 'a) panel \<Rightarrow> ('s, 'e, 'a) panel" where
  "run_panel elapse handle = fold (run_move elapse handle)"

text \<open>The requests of a schedule, in the order of their tasks.\<close>

definition arrivals :: "'q move list \<Rightarrow> 'q list" where
  "arrivals xs = concat (map (\<lambda>x. case x of Arrive q \<Rightarrow> [q] | _ \<Rightarrow> []) xs)"

text \<open>Handlers that agree on the requests of a schedule run it alike.\<close>

lemma run_panel_cong:
  assumes "\<forall>q \<in> set (arrivals xs). h q = h' q"
  shows "run_panel elapse h xs p = run_panel elapse h' xs p"
  using assms
proof (induction xs arbitrary: p)
  case (Cons x xs)
  have "run_move elapse h x p = run_move elapse h' x p" using Cons.prems by (cases x) (auto simp: run_move_def arrivals_def)
  with Cons show ?case by (simp add: run_panel_def arrivals_def)
qed (simp add: run_panel_def)

section \<open>Rely and guarantee\<close>

text \<open>
  \<open>safe Q t s\<close>: the task last saw the state \<open>s\<close>; wherever the others may have taken the state
  since, its next step keeps the invariant, is one that the task does, and leaves a safe task. When
  it ends, its result satisfies \<open>Q\<close>. What a task does is among what the others must reckon with.
\<close>

locale rely_guarantee =
  fixes inv :: "'s \<Rightarrow> bool"
    and may :: "'s \<Rightarrow> 's \<Rightarrow> bool"
    and does :: "'s \<Rightarrow> 's \<Rightarrow> bool"
  assumes may_refl: "may s s"
    and may_trans: "may a b \<Longrightarrow> may b c \<Longrightarrow> may a c"
    and does_refl: "does s s"
    and does_may: "does a b \<Longrightarrow> may a b"
begin

primrec safe :: "('e + 'a \<Rightarrow> bool) \<Rightarrow> ('s, 'e, 'a) task \<Rightarrow> 's \<Rightarrow> bool" where
  "safe Q (Ended r) = (\<lambda>s. Q r)"
| "safe Q (Step e k) = (\<lambda>s. \<forall>s'. may s s' \<longrightarrow> inv s' \<longrightarrow>
     (\<forall>fs. inv (e fs s') \<and> does s' (e fs s') \<and> safe Q (k fs s') (e fs s')))"
| "safe Q (Await c e k) = (\<lambda>s. \<forall>s'. may s s' \<longrightarrow> inv s' \<longrightarrow> c s' \<longrightarrow> inv (e s') \<and> does s' (e s') \<and> safe Q k (e s'))"

lemma safe_later: "safe Q t s \<Longrightarrow> may s s' \<Longrightarrow> safe Q t s'"
  by (cases t) (auto intro: may_trans)

lemma safe_ended [simp]: "safe Q (ret x) s = Q (Inr x)" "safe Q (fail e) s = Q (Inl e)"
  by (simp_all add: ret_def fail_def)

lemma safe_bind:
  assumes "safe P m s" and "\<And>r t. P r \<Longrightarrow> safe Q (g r) t"
  shows "safe Q (bindT m g) s"
  using assms(1) by (induction m arbitrary: s rule: task_induct) (use assms(2) in auto)

lemma safe_andThen:
  assumes "safe P m s" and "\<And>x t. P (Inr x) \<Longrightarrow> safe Q (g x) t" and "\<And>e. P (Inl e) \<Longrightarrow> Q (Inl e)"
  shows "safe Q (andThen m g) s"
  unfolding andThen_def by (rule safe_bind [OF assms(1)]) (auto split: sum.split intro: assms(2,3))

text \<open>What a step saw is known to the rest of the task.\<close>

lemma safe_look: "(\<And>s'. may s s' \<Longrightarrow> inv s' \<Longrightarrow> safe Q (g (f s')) s') \<Longrightarrow> safe Q (andThen (look f) g) s"
  using does_refl by (simp add: andThen_def look_def ret_def)

lemma safe_change: "(\<And>s'. inv s' \<Longrightarrow> inv (f s') \<and> does s' (f s')) \<Longrightarrow> Q (Inr ()) \<Longrightarrow> safe Q (change f) s"
  by (simp add: change_def)

lemma safe_atomic_bind:
  assumes "\<And>s' fs r c. may s s' \<Longrightarrow> inv s' \<Longrightarrow> m \<lparr>data = get s', faults = fs\<rparr> = (r, c) \<Longrightarrow>
    inv (put (data c) s') \<and> does s' (put (data c) s') \<and> safe Q (g r) (put (data c) s')"
  shows "safe Q (bindT (atomic get put m) g) s"
proof -
  have "inv t \<and> does s' t \<and> safe Q (g r) t"
    if "may s s'" "inv s'" "r = fst (m \<lparr>data = get s', faults = fs\<rparr>)" "t = put (data (snd (m \<lparr>data = get s', faults = fs\<rparr>))) s'" for s' fs r t
    using assms [OF that(1,2), of fs "fst (m \<lparr>data = get s', faults = fs\<rparr>)" "snd (m \<lparr>data = get s', faults = fs\<rparr>)"] that(3,4)
    by simp
  then show ?thesis by (simp add: atomic_def)
qed

text \<open>Whatever the schedule, a panel of safe tasks keeps the invariant and goes where it may.\<close>

definition all_safe :: "('q \<Rightarrow> 'e + 'a \<Rightarrow> bool) \<Rightarrow> 'q list \<Rightarrow> ('s, 'e, 'a) task list \<Rightarrow> 's \<Rightarrow> bool" where
  "all_safe Q qs ts s \<longleftrightarrow> list_all2 (\<lambda>q t. safe (Q q) t s) qs ts"

lemma all_safe_later: "all_safe Q qs ts s \<Longrightarrow> may s s' \<Longrightarrow> all_safe Q qs ts s'"
  unfolding all_safe_def by (erule list_all2_mono) (rule safe_later)

lemma step_task_safe:
  assumes "safe Q t s" and "inv s" and "step_task fs t s = (s', t')"
  shows "inv s' \<and> may s s' \<and> safe Q t' s'"
  using assms may_refl does_may by (cases t) (auto split: if_splits)

lemma run_move_safe:
  assumes env: "\<And>n s. inv s \<Longrightarrow> inv (elapse n s) \<and> may s (elapse n s)" and new: "\<And>q s. safe (Q q) (handle q) s"
    and "inv s" and ts: "all_safe Q qs ts s" and x: "run_move elapse handle x (s, ts) = (s', ts')"
  shows "inv s' \<and> may s s' \<and> all_safe Q (qs @ arrivals [x]) ts' s'"
proof (cases x)
  case (Advance i fs)
  show ?thesis
  proof (cases "i < length ts")
    case True
    obtain s1 t1 where t: "step_task fs (ts ! i) s = (s1, t1)" by fastforce
    from True ts have "i < length qs" "safe (Q (qs ! i)) (ts ! i) s" by (auto simp: all_safe_def dest: list_all2_nthD2 list_all2_lengthD)
    with step_task_safe [OF _ assms(3) t] have next_: "inv s1 \<and> may s s1 \<and> safe (Q (qs ! i)) t1 s1" by blast
    with all_safe_later [OF ts] have "all_safe Q qs ts s1" by blast
    with next_ have "all_safe Q (qs[i := qs ! i]) (ts[i := t1]) s1"
      unfolding all_safe_def by (intro list_all2_update_cong) auto
    with next_ True t x Advance show ?thesis by (auto simp: run_move_def arrivals_def)
  next
    case False
    with x Advance have "s' = s" "ts' = ts" by (auto simp: run_move_def)
    with assms Advance may_refl show ?thesis by (auto simp: arrivals_def)
  qed
next
  case (Arrive q)
  with assms may_refl show ?thesis by (auto simp: run_move_def arrivals_def all_safe_def intro: list_all2_appendI)
next
  case (Elapse n)
  with x have "s' = elapse n s" "ts' = ts" by (simp_all add: run_move_def)
  with env [OF assms(3)] all_safe_later [OF ts, of s'] Elapse show ?thesis by (auto simp: arrivals_def)
qed

lemma run_moves_safe:
  assumes "\<And>n s. inv s \<Longrightarrow> inv (elapse n s) \<and> may s (elapse n s)" and "\<And>q s. safe (Q q) (handle q) s"
    and "inv s" and "all_safe Q qs ts s" and "run_panel elapse handle xs (s, ts) = (s', ts')"
  shows "inv s' \<and> may s s' \<and> all_safe Q (qs @ arrivals xs) ts' s'"
  using assms(3-5) unfolding run_panel_def
proof (induction xs arbitrary: s qs ts)
  case (Cons x xs)
  obtain s1 ts1 where x: "run_move elapse handle x (s, ts) = (s1, ts1)" by fastforce
  from run_move_safe [where Q = Q, OF assms(1,2) Cons.prems(1,2) x]
  have 1: "inv s1" "may s s1" "all_safe Q (qs @ arrivals [x]) ts1 s1" by simp_all
  from Cons.IH [OF 1(1,3)] Cons.prems(3) x have "inv s' \<and> may s1 s' \<and> all_safe Q ((qs @ arrivals [x]) @ arrivals xs) ts' s'" by simp
  with 1(2) may_trans show ?case by (auto simp: arrivals_def)
qed (simp add: may_refl arrivals_def)

lemma run_panel_safe:
  assumes "\<And>n s. inv s \<Longrightarrow> inv (elapse n s) \<and> may s (elapse n s)" and "\<And>q s. safe (Q q) (handle q) s" and "inv s"
    and "run_panel elapse handle xs (s, []) = (s', ts')"
  shows "inv s' \<and> may s s' \<and> all_safe Q (arrivals xs) ts' s'"
  using run_moves_safe [where Q = Q and qs = "[]", OF assms(1-3) _ assms(4)] by (simp add: all_safe_def)

text \<open>A request that has ended was answered as its specification says.\<close>

lemma ended_answer: "all_safe Q qs ts s \<Longrightarrow> i < length ts \<Longrightarrow> ts ! i = Ended r \<Longrightarrow> Q (qs ! i) r"
  by (auto simp: all_safe_def dest: list_all2_nthD2)

end

end
