(* ===== verification/Account_Site.thy ===== *)
theory Account_Site
  imports Account_Repo Tasks
begin

text \<open>
  What the requests to the panel share, and the two services the account service builds on: the
  tokens of mailed links (\<open>platform/actiontoken/app/manager.go\<close>) and the sessions
  (\<open>account/app/self/session_service.go\<close>). Between any two statements of a request the others
  may run.
\<close>

section \<open>The state requests share\<close>

record site =
  st_login :: logindb
  st_panel :: paneldb
  st_mail :: "(string \<times> string \<times> string) list"
  st_drawn :: nat
  st_emailUniqueMu :: bool

type_synonym 'a serving = "(site, account_failure, 'a) task"

definition on_login :: "'a login_prog \<Rightarrow> 'a serving" where "on_login = atomic st_login (\<lambda>d s. s\<lparr>st_login := d\<rparr>)"
definition on_panel :: "'a panel_prog \<Rightarrow> 'a serving" where "on_panel = atomic st_panel (\<lambda>d s. s\<lparr>st_panel := d\<rparr>)"

definition time_Now :: "int serving" where "time_Now = look (\<lambda>s. db_now (st_panel s))"

definition let_pass :: "nat \<Rightarrow> site \<Rightarrow> site" where
  "let_pass n s = s\<lparr>st_panel := (st_panel s)\<lparr>db_now := db_now (st_panel s) + int n\<rparr>\<rparr>"

text \<open>\<open>rand.Read\<close>: the next of the random values.\<close>

definition draw :: "world \<Rightarrow> string serving" where
  "draw w = Step (\<lambda>_ s. s\<lparr>st_drawn := st_drawn s + 1\<rparr>) (\<lambda>_ s. ret (wo_random w (st_drawn s)))"

definition SendAsync :: "string \<Rightarrow> string \<Rightarrow> string \<Rightarrow> unit serving" where
  "SendAsync to subject url = change (\<lambda>s. s\<lparr>st_mail := (to, subject, url) # st_mail s\<rparr>)"

text \<open>\<open>Lock\<close>, the body, and the deferred \<open>Unlock\<close>.\<close>

definition exclusively :: "'a serving \<Rightarrow> 'a serving" where
  "exclusively m = Await (\<lambda>s. \<not> st_emailUniqueMu s) (\<lambda>s. s\<lparr>st_emailUniqueMu := True\<rparr>)
     (bindT m (\<lambda>r. Step (\<lambda>_ s. s\<lparr>st_emailUniqueMu := False\<rparr>) (\<lambda>_ _. Ended r)))"

section \<open>Functions of two statements\<close>

definition MarkVerified :: "int \<Rightarrow> unit serving" where
  "MarkVerified accountID = andThen (on_login (account_exists accountID)) (\<lambda>_. on_login (set_verified accountID))"

definition attempt_Record :: "world \<Rightarrow> string \<Rightarrow> int option \<Rightarrow> string option \<Rightarrow> bool \<Rightarrow> string \<Rightarrow> unit serving" where
  "attempt_Record w username accountID ip success userAgent =
     andThen (on_panel (insert_attempt username accountID ip success userAgent)) (\<lambda>_.
       if success then on_panel (clear_failures w username) else ret ())"

section \<open>manager.go\<close>

definition token_Issue :: "world \<Rightarrow> action_kind \<Rightarrow> int \<Rightarrow> string option \<Rightarrow> int \<Rightarrow> string serving" where
  "token_Issue w a accountID payload ttl =
     andThen (on_panel (DeleteUnconsumed accountID a)) (\<lambda>_.
     andThen (draw w) (\<lambda>raw.
     andThen time_Now (\<lambda>now.
     andThen (on_panel (token_Insert
        \<lparr>ak_ExpiresAt = now + ttl, ak_CreatedAt = now, ak_ConsumedAt = None, ak_Payload = payload,
         ak_TokenHash = wo_sha256 w raw, ak_AccountID = accountID, ak_Action = a\<rparr>)) (\<lambda>_.
     ret (base64url raw)))))"

definition token_lookup :: "world \<Rightarrow> action_kind \<Rightarrow> string \<Rightarrow> int \<Rightarrow> action_token serving" where
  "token_lookup w a rawToken now =
     (case decodeTokenToHash w rawToken of
        None \<Rightarrow> fail (Account ErrTokenInvalid)
      | Some h \<Rightarrow>
          andThen (on_panel (GetByHash h)) (\<lambda>token.
            if ak_Action token \<noteq> a then fail (Account ErrTokenInvalid)
            else if token_IsConsumed token then fail (Account ErrTokenAlreadyUsed)
            else if token_IsExpired token now then fail (Account ErrTokenExpired)
            else ret token))"

definition token_Consume :: "world \<Rightarrow> action_kind \<Rightarrow> string \<Rightarrow> action_token serving" where
  "token_Consume w a rawToken =
     andThen time_Now (\<lambda>now.
     andThen (token_lookup w a rawToken now) (\<lambda>token.
     andThen (on_panel (MarkConsumed (ak_TokenHash token) now)) (\<lambda>_.
     ret (token\<lparr>ak_ConsumedAt := Some now\<rparr>))))"

definition token_Peek :: "world \<Rightarrow> action_kind \<Rightarrow> string \<Rightarrow> action_token serving" where
  "token_Peek w a rawToken = andThen time_Now (token_lookup w a rawToken)"

section \<open>session_service.go\<close>

record session_service =
  ss_world :: world
  ss_ttl :: int

definition NewSessionService :: "world \<Rightarrow> int \<Rightarrow> session_service option" where
  "NewSessionService w ttl = (if ttl \<le> 0 then None else Some \<lparr>ss_world = w, ss_ttl = ttl\<rparr>)"

definition sessions_Create :: "session_service \<Rightarrow> int \<Rightarrow> (string \<times> session) serving" where
  "sessions_Create ss userID =
     andThen (draw (ss_world ss)) (\<lambda>raw.
     andThen time_Now (\<lambda>now.
       let sess = \<lparr>se_ExpiresAt = now + ss_ttl ss, se_CreatedAt = now, se_LastSeenAt = now,
                   se_TokenHash = wo_sha256 (ss_world ss) raw, se_UserID = userID\<rparr>
       in andThen (on_panel (session_Create sess)) (\<lambda>_. ret (base64url raw, sess))))"

definition sessions_Validate :: "session_service \<Rightarrow> string \<Rightarrow> session serving" where
  "sessions_Validate ss rawToken =
     (case decodeTokenToHash (ss_world ss) rawToken of
        None \<Rightarrow> fail (Account ErrSessionNotFound)
      | Some h \<Rightarrow>
          andThen (on_panel (GetByTokenHash h)) (\<lambda>sess.
          andThen time_Now (\<lambda>now.
            if session_IsExpired sess now
            then bindT (on_panel (session_Delete h)) (\<lambda>_. fail (Account ErrSessionExpired))
            else let newExp = now + ss_ttl ss
              in andThen (on_panel (session_Refresh h now newExp)) (\<lambda>_.
                 ret (sess\<lparr>se_ExpiresAt := newExp, se_LastSeenAt := now\<rparr>)))))"

definition sessions_Destroy :: "session_service \<Rightarrow> string \<Rightarrow> unit serving" where
  "sessions_Destroy ss rawToken =
     (case decodeTokenToHash (ss_world ss) rawToken of
        None \<Rightarrow> ret ()
      | Some h \<Rightarrow> bindT (on_panel (session_Delete h)) (\<lambda>r.
          case r of Inr _ \<Rightarrow> ret () | Inl e \<Rightarrow> if e = Account ErrSessionNotFound then ret () else fail e))"

definition InvalidateAll :: "int \<Rightarrow> unit serving" where "InvalidateAll userID = on_panel (DeleteByUserID userID)"

definition InvalidateOthers :: "session_service \<Rightarrow> int \<Rightarrow> string \<Rightarrow> unit serving" where
  "InvalidateOthers ss userID rawCurrentToken =
     (case decodeTokenToHash (ss_world ss) rawCurrentToken of
        None \<Rightarrow> fail (Account ErrInvalidCurrentSessionToken)
      | Some h \<Rightarrow> on_panel (DeleteByUserIDExcept userID h))"

end
