(* ===== verification/Account_Service.thy ===== *)
theory Account_Service
  imports Account_Site
begin

text \<open>
  \<open>account/app/self/service.go\<close>: registration, verification of the mail address, password reset,
  login, and changes of password and mail address. Mails are their recipient, what they are for
  and the link; how they are rendered is left out.
\<close>

section \<open>The service and its options\<close>

record mail_config =
  mc_AppURL :: string
  mc_ServerName :: string
  mc_TokenTTL :: int
  mc_ResendCooldown :: int
  mc_ChangeCooldown :: int
  mc_PasswordCooldown :: int

record account_service =
  as_world :: world
  as_TokenManager :: bool
  as_Mail :: bool
  as_ChangeLog :: bool
  as_SessionInvalidator :: "session_service option"
  as_attempts :: bool
  as_verifyCfg :: mail_config
  as_resetCfg :: mail_config
  as_emailCfg :: mail_config
  as_enableVerify :: bool
  as_enableReset :: bool
  as_enableEmailChange :: bool

text \<open>
  Options, with the token manager and the mailer they bring or not. The configuration of one that
  has fewer durations leaves the others unused; the request cooldown of an email change is the
  resend cooldown here.
\<close>

datatype account_option =
    WithVerification bool bool mail_config
  | WithPasswordReset bool bool mail_config
  | WithEmailChange bool bool mail_config
  | WithChangeLog
  | WithSessionInvalidator session_service
  | WithLoginAttempts bool

primrec option_ok :: "account_option \<Rightarrow> bool" where
  "option_ok (WithVerification m l c) \<longleftrightarrow> 0 < mc_TokenTTL c \<and> 0 < mc_ResendCooldown c"
| "option_ok (WithPasswordReset m l c) \<longleftrightarrow> 0 < mc_TokenTTL c \<and> 0 < mc_ResendCooldown c \<and> 0 < mc_ChangeCooldown c"
| "option_ok (WithEmailChange m l c) \<longleftrightarrow> 0 < mc_TokenTTL c \<and> 0 < mc_ResendCooldown c \<and> 0 < mc_ChangeCooldown c \<and> 0 < mc_PasswordCooldown c"
| "option_ok WithChangeLog \<longleftrightarrow> True"
| "option_ok (WithSessionInvalidator i) \<longleftrightarrow> True"
| "option_ok (WithLoginAttempts a) \<longleftrightarrow> a"

primrec apply_account_option :: "account_option \<Rightarrow> account_service \<Rightarrow> account_service" where
  "apply_account_option (WithVerification m l c) s = s\<lparr>as_TokenManager := m, as_Mail := l, as_verifyCfg := c, as_enableVerify := True\<rparr>"
| "apply_account_option (WithPasswordReset m l c) s = s\<lparr>as_TokenManager := m, as_Mail := l, as_resetCfg := c, as_enableReset := True\<rparr>"
| "apply_account_option (WithEmailChange m l c) s = s\<lparr>as_TokenManager := m, as_Mail := l, as_emailCfg := c, as_enableEmailChange := True\<rparr>"
| "apply_account_option WithChangeLog s = s\<lparr>as_ChangeLog := True\<rparr>"
| "apply_account_option (WithSessionInvalidator i) s = s\<lparr>as_SessionInvalidator := Some i\<rparr>"
| "apply_account_option (WithLoginAttempts a) s = s\<lparr>as_attempts := a\<rparr>"

definition no_mail_config :: mail_config where
  "no_mail_config = \<lparr>mc_AppURL = '''', mc_ServerName = '''', mc_TokenTTL = 0, mc_ResendCooldown = 0, mc_ChangeCooldown = 0, mc_PasswordCooldown = 0\<rparr>"

text \<open>\<open>None\<close> where the code panics.\<close>

definition NewAccountService :: "world \<Rightarrow> bool \<Rightarrow> account_option list \<Rightarrow> account_service option" where
  "NewAccountService w repo opts =
     (let s = fold apply_account_option opts
            \<lparr>as_world = w, as_TokenManager = False, as_Mail = False, as_ChangeLog = False, as_SessionInvalidator = None, as_attempts = False,
             as_verifyCfg = no_mail_config, as_resetCfg = no_mail_config, as_emailCfg = no_mail_config,
             as_enableVerify = False, as_enableReset = False, as_enableEmailChange = False\<rparr>
      in if repo \<and> list_all option_ok opts \<and>
            (as_enableVerify s \<longrightarrow> as_TokenManager s \<and> as_Mail s) \<and>
            (as_enableReset s \<longrightarrow> as_TokenManager s \<and> as_Mail s \<and> as_ChangeLog s \<and> as_SessionInvalidator s \<noteq> None) \<and>
            (as_enableEmailChange s \<longrightarrow> as_TokenManager s \<and> as_Mail s \<and> as_ChangeLog s \<and> as_SessionInvalidator s \<noteq> None)
         then Some s else None)"

definition mail_link :: "mail_config \<Rightarrow> string \<Rightarrow> string \<Rightarrow> string" where
  "mail_link c path raw = rev (dropWhile (\<lambda>x. x = CHR ''/'') (rev (mc_AppURL c))) @ path @ raw"

definition too_soon :: "int option \<Rightarrow> int \<Rightarrow> int \<Rightarrow> bool" where
  "too_soon prev now cooldown = (case prev of None \<Rightarrow> False | Some t \<Rightarrow> now - t < cooldown)"

section \<open>Registration\<close>

record create_command =
  cc_Username :: string
  cc_Password :: string
  cc_PasswordConfirm :: string
  cc_Email :: string
  cc_Gender :: string
  cc_Birthdate :: string

record get_dto =
  gd_Username :: string
  gd_Email :: string
  gd_ID :: int

definition dto_of :: "user \<Rightarrow> get_dto" where "dto_of u = \<lparr>gd_Username = us_Username u, gd_Email = us_Email u, gd_ID = us_ID u\<rparr>"

definition add_broken :: "string \<Rightarrow> account_error option \<Rightarrow> field_errors \<Rightarrow> field_errors" where
  "add_broken field e fe = (case e of None \<Rightarrow> fe | Some err \<Rightarrow> fe_Add field (Broken err) fe)"

definition error_of :: "'e + 'a \<Rightarrow> 'e option" where "error_of r = (case r of Inl e \<Rightarrow> Some e | Inr _ \<Rightarrow> None)"

definition validateRegistrationInvariants :: "world \<Rightarrow> create_command \<Rightarrow> int \<Rightarrow> field_errors" where
  "validateRegistrationInvariants w cmd now =
     add_broken ''birthdate'' (error_of (ValidateBirthdate w (cc_Birthdate cmd) now))
    (add_broken ''gender'' (ValidateGender (cc_Gender cmd))
    (add_broken ''password'' (ValidatePassword (cc_Password cmd))
    (add_broken ''email'' (error_of (ValidateEmail w (cc_Email cmd)))
    (add_broken ''username'' (ValidateUsername (cc_Username cmd)) []))))"

definition applyRegistrationPolicies :: "world \<Rightarrow> create_command \<Rightarrow> field_errors \<Rightarrow> field_errors" where
  "applyRegistrationPolicies w cmd fe =
     (let fe1 = (if map_of fe ''username'' = None then add_broken ''username'' (CheckRegistrationUsername (cc_Username cmd)) fe else fe)
      in if map_of fe1 ''password'' = None then add_broken ''password'' (CheckRegistrationPassword w (cc_Password cmd)) fe1 else fe1)"

definition validateRegistration :: "world \<Rightarrow> create_command \<Rightarrow> int \<Rightarrow> field_errors + string \<times> date" where
  "validateRegistration w cmd now =
     (let fe1 = applyRegistrationPolicies w cmd (validateRegistrationInvariants w cmd now);
          fe = (if cc_Password cmd \<noteq> cc_PasswordConfirm cmd then fe_Add ''password_confirm'' (Says ''passwords do not match'') fe1 else fe1)
      in if fe_Has fe then Inl fe
         else case (ValidateEmail w (cc_Email cmd), ValidateBirthdate w (cc_Birthdate cmd) now) of
             (Inr email, Inr birthdate) \<Rightarrow> Inr (email, birthdate)
           | _ \<Rightarrow> Inl fe)"

text \<open>What a lookup found, when finding nothing is no error.\<close>

definition if_found :: "user serving \<Rightarrow> user option serving" where
  "if_found m = bindT m (\<lambda>r. case r of Inr u \<Rightarrow> ret (Some u) | Inl e \<Rightarrow> if e = Account ErrUserNotFound then ret None else fail e)"

definition checkRegistrationUniqueness :: "world \<Rightarrow> string \<Rightarrow> string \<Rightarrow> unit serving" where
  "checkRegistrationUniqueness w username email =
     andThen (if_found (on_login (GetByUsername w username))) (\<lambda>byName.
     andThen (if_found (on_login (user_GetByEmail w email))) (\<lambda>byEmail.
       let fe1 = (if byName \<noteq> None then fe_Add ''username'' (Says ''username already taken'') [] else []);
           fe = (if byEmail \<noteq> None then fe_Add ''email'' (Says ''email already in use'') fe1 else fe1)
       in if fe_Has fe then fail (Invalid fe) else ret ()))"

definition IssueVerification :: "account_service \<Rightarrow> int \<Rightarrow> string \<Rightarrow> unit serving" where
  "IssueVerification s accountID email =
     andThen (token_Issue (as_world s) EmailVerification accountID None (mc_TokenTTL (as_verifyCfg s))) (\<lambda>raw.
       SendAsync email (mc_ServerName (as_verifyCfg s) @ '' - verify your email'') (mail_link (as_verifyCfg s) ''/verify?token='' raw))"

definition account_Create :: "account_service \<Rightarrow> create_command \<Rightarrow> get_dto serving" where
  "account_Create s cmd =
     andThen time_Now (\<lambda>now.
       case validateRegistration (as_world s) cmd now of
         Inl fe \<Rightarrow> fail (Invalid fe)
       | Inr (normalizedEmail, birthdate) \<Rightarrow> exclusively
          (andThen (checkRegistrationUniqueness (as_world s) (cc_Username cmd) normalizedEmail) (\<lambda>_.
           andThen (on_login (user_Create (as_world s) (cc_Username cmd) normalizedEmail (cc_Password cmd) (cc_Gender cmd) birthdate)) (\<lambda>i.
           andThen (if as_enableVerify s then IssueVerification s i normalizedEmail else ret ()) (\<lambda>_.
           ret \<lparr>gd_Username = cc_Username cmd, gd_Email = normalizedEmail, gd_ID = i\<rparr>)))))"

section \<open>Verification\<close>

definition ConsumeVerification :: "account_service \<Rightarrow> string \<Rightarrow> unit serving" where
  "ConsumeVerification s rawToken =
     andThen (token_Consume (as_world s) EmailVerification rawToken) (\<lambda>token. MarkVerified (ak_AccountID token))"

definition ResendVerification :: "account_service \<Rightarrow> int \<Rightarrow> unit serving" where
  "ResendVerification s accountID =
     andThen (on_login (user_GetByID accountID)) (\<lambda>u.
     andThen time_Now (\<lambda>now.
       if ClassifyTier (us_State u) (us_UnbanTime u) now \<noteq> TierUnverified then ret ()
       else andThen (on_panel (token_MostRecentIssuedAt accountID EmailVerification)) (\<lambda>last.
            andThen time_Now (\<lambda>now'.
              if too_soon last now' (mc_ResendCooldown (as_verifyCfg s)) then ret ()
              else IssueVerification s accountID (us_Email u)))))"

section \<open>Password reset\<close>

definition assertUnrestricted :: "int \<Rightarrow> unit serving" where
  "assertUnrestricted accountID =
     bindT (on_login (user_GetByID accountID)) (\<lambda>r.
       case r of
         Inl e \<Rightarrow> if e = Account ErrUserNotFound then fail (Account ErrAccountDeleted) else fail e
       | Inr u \<Rightarrow> andThen time_Now (\<lambda>now.
           case ClassifyTier (us_State u) (us_UnbanTime u) now of
             TierPermaBanned \<Rightarrow> fail (Account ErrAccountPermaBanned)
           | TierTempBanned \<Rightarrow> fail (Account ErrAccountTempBanned)
           | _ \<Rightarrow> ret ()))"

definition RequestPasswordReset :: "account_service \<Rightarrow> string \<Rightarrow> unit serving" where
  "RequestPasswordReset s email =
     (case ValidateEmail (as_world s) email of
        Inl err \<Rightarrow> fail (Invalid [(''email'', Broken err)])
      | Inr normalizedEmail \<Rightarrow>
          andThen (if_found (on_login (user_GetByEmail (as_world s) normalizedEmail))) (\<lambda>found.
            case found of
              None \<Rightarrow> ret ()
            | Some u \<Rightarrow>
                andThen (on_panel (MostRecent (us_ID u) ChangeTypePassword)) (\<lambda>lastChange.
                andThen time_Now (\<lambda>now.
                  if too_soon lastChange now (mc_ChangeCooldown (as_resetCfg s)) then ret ()
                  else andThen (on_panel (token_MostRecentIssuedAt (us_ID u) PasswordReset)) (\<lambda>last.
                       andThen time_Now (\<lambda>now'.
                         if too_soon last now' (mc_ResendCooldown (as_resetCfg s)) then ret ()
                         else andThen (token_Issue (as_world s) PasswordReset (us_ID u) None (mc_TokenTTL (as_resetCfg s))) (\<lambda>raw.
                           SendAsync (us_Email u) (mc_ServerName (as_resetCfg s) @ '' - reset your password'')
                             (mail_link (as_resetCfg s) ''/reset-password?token='' raw))))))))"

text \<open>What \<open>ValidatePassword\<close> and the registration policy have against a new password.\<close>

definition new_password_error :: "world \<Rightarrow> string \<Rightarrow> account_error option" where
  "new_password_error w password = (case ValidatePassword password of Some e \<Rightarrow> Some e | None \<Rightarrow> CheckRegistrationPassword w password)"

definition ConsumePasswordReset :: "account_service \<Rightarrow> string \<Rightarrow> string \<Rightarrow> unit serving" where
  "ConsumePasswordReset s rawToken newPassword =
     (case new_password_error (as_world s) newPassword of
        Some e \<Rightarrow> fail (Invalid [(''password'', Broken e)])
      | None \<Rightarrow>
          andThen (token_Consume (as_world s) PasswordReset rawToken) (\<lambda>token.
          andThen (assertUnrestricted (ak_AccountID token)) (\<lambda>_.
          andThen (on_login (user_UpdatePassword (as_world s) (ak_AccountID token) newPassword)) (\<lambda>_.
          andThen time_Now (\<lambda>now.
          andThen (on_panel (record_Record (ak_AccountID token) ChangeTypePassword now)) (\<lambda>_.
          andThen (MarkVerified (ak_AccountID token)) (\<lambda>_.
          InvalidateAll (ak_AccountID token))))))))"

section \<open>Login\<close>

record login_command =
  lc_Username :: string
  lc_Password :: string
  lc_UserAgent :: string
  lc_IP :: "string option"

text \<open>An error of the record of attempts is logged and forgotten.\<close>

definition record_attempt :: "account_service \<Rightarrow> string \<Rightarrow> int option \<Rightarrow> login_command \<Rightarrow> bool \<Rightarrow> unit serving" where
  "record_attempt s username accountID cmd success =
     bindT (attempt_Record (as_world s) username accountID (lc_IP cmd) success (lc_UserAgent cmd)) (\<lambda>_. ret ())"

text \<open>The record of attempts is there, as it is when the panel starts; a service without one panics here.\<close>

definition Authenticate :: "account_service \<Rightarrow> login_command \<Rightarrow> (get_dto \<times> tier) serving" where
  "Authenticate s cmd =
     (let username = TrimSpace (lc_Username cmd); policy = DefaultLockoutPolicy
      in if username = '''' \<or> UsernameMaxLen < length username then fail (Account ErrInvalidCredentials)
         else
           andThen time_Now (\<lambda>now.
           andThen (on_panel (ConsecutiveFailures (as_world s) username (lp_Window policy) now)) (\<lambda>(failures, lastFail).
           andThen time_Now (\<lambda>now'.
             if 0 < Backoff policy failures \<and> now' - lastFail < Backoff policy failures then fail (Account ErrAccountLocked)
             else
               bindT (on_login (GetCredentials (as_world s) username)) (\<lambda>r.
                 let refused = andThen (record_attempt s username (case r of Inr (u, _) \<Rightarrow> Some (us_ID u) | Inl _ \<Rightarrow> None) cmd False)
                       (\<lambda>_. fail (Account ErrInvalidCredentials))
                 in case r of
                      Inl e \<Rightarrow> if e \<noteq> Account ErrInvalidCredentials then fail e else refused
                    | Inr (u, storedPassword) \<Rightarrow>
                        if storedPassword \<noteq> lc_Password cmd then refused
                        else
                          andThen (record_attempt s username (Some (us_ID u)) cmd True) (\<lambda>_.
                          andThen time_Now (\<lambda>now''.
                          ret (dto_of u, ClassifyTier (us_State u) (us_UnbanTime u) now''))))))))"

section \<open>The account's own page\<close>

record account_dto =
  ad_RestrictedUntil :: "int option"
  ad_Username :: string
  ad_Email :: string
  ad_Verified :: bool
  ad_Restricted :: bool

definition GetAccount :: "int \<Rightarrow> account_dto serving" where
  "GetAccount userID =
     andThen (on_login (user_GetByID userID)) (\<lambda>u.
     andThen time_Now (\<lambda>now.
       let tier = ClassifyTier (us_State u) (us_UnbanTime u) now
       in ret \<lparr>ad_RestrictedUntil = us_UnbanTime u, ad_Username = us_Username u, ad_Email = us_Email u,
               ad_Verified = (tier \<noteq> TierUnverified), ad_Restricted = (tier = TierTempBanned)\<rparr>))"

definition self_GetAll :: "get_dto list serving" where
  "self_GetAll = andThen (on_login user_GetAll) (\<lambda>us. ret (map dto_of us))"

definition self_GetByID :: "int \<Rightarrow> get_dto serving" where "self_GetByID i = andThen (on_login (user_GetByID i)) (\<lambda>u. ret (dto_of u))"

definition self_GetByEmail :: "account_service \<Rightarrow> string \<Rightarrow> get_dto serving" where
  "self_GetByEmail s email = andThen (on_login (user_GetByEmail (as_world s) email)) (\<lambda>u. ret (dto_of u))"

definition self_Delete :: "int \<Rightarrow> unit serving" where "self_Delete i = on_login (user_Delete i)"

section \<open>Changes\<close>

definition UpdatePassword :: "account_service \<Rightarrow> session_service \<Rightarrow> int \<Rightarrow> string \<Rightarrow> string \<Rightarrow> string \<Rightarrow> string \<Rightarrow> unit serving" where
  "UpdatePassword s ss userID currentRawToken currentPassword newPassword confirmPassword =
     (case new_password_error (as_world s) newPassword of
        Some e \<Rightarrow> fail (Invalid [(''new_password'', Broken e)])
      | None \<Rightarrow>
          if newPassword \<noteq> confirmPassword then fail (Invalid [(''new_password_confirm'', Says ''passwords do not match'')])
          else
            andThen (on_login (VerifyPassword userID currentPassword)) (\<lambda>ok.
              if \<not> ok then fail (Invalid [(''current_password'', Says ''incorrect'')])
              else
                andThen (on_panel (MostRecent userID ChangeTypePassword)) (\<lambda>lastChange.
                andThen time_Now (\<lambda>now.
                  if too_soon lastChange now (mc_PasswordCooldown (as_emailCfg s)) then fail (Account ErrPasswordRecentlyChanged)
                  else
                    andThen (on_login (user_UpdatePassword (as_world s) userID newPassword)) (\<lambda>_.
                    andThen time_Now (\<lambda>now'.
                    andThen (on_panel (record_Record userID ChangeTypePassword now')) (\<lambda>_.
                    InvalidateOthers ss userID currentRawToken)))))))"

definition RequestEmailChange :: "account_service \<Rightarrow> int \<Rightarrow> string \<Rightarrow> string \<Rightarrow> unit serving" where
  "RequestEmailChange s userID currentPassword newEmail =
     (case ValidateEmail (as_world s) newEmail of
        Inl err \<Rightarrow> fail (Invalid [(''new_email'', Broken err)])
      | Inr normalizedNewEmail \<Rightarrow>
          andThen (on_login (VerifyPassword userID currentPassword)) (\<lambda>ok.
            if \<not> ok then fail (Invalid [(''current_password'', Says ''incorrect'')])
            else
              andThen (on_login (user_GetByID userID)) (\<lambda>u.
                if EqualFold (as_world s) normalizedNewEmail (us_Email u) then fail (Invalid [(''new_email'', Says ''same as current'')])
                else
                  andThen (if_found (on_login (user_GetByEmail (as_world s) normalizedNewEmail))) (\<lambda>existing.
                    if (case existing of None \<Rightarrow> False | Some e \<Rightarrow> us_ID e \<noteq> userID) then fail (Invalid [(''new_email'', Says ''already in use'')])
                    else
                      andThen (on_panel (MostRecent userID ChangeTypeEmail)) (\<lambda>lastChange.
                      andThen time_Now (\<lambda>now.
                        if too_soon lastChange now (mc_ChangeCooldown (as_emailCfg s)) then fail (Account ErrEmailRecentlyChanged)
                        else
                          andThen (on_panel (token_MostRecentIssuedAt userID EmailChange)) (\<lambda>last.
                          andThen time_Now (\<lambda>now'.
                            if too_soon last now' (mc_ResendCooldown (as_emailCfg s)) then fail (Account ErrEmailChangeCooldown)
                            else
                              andThen (token_Issue (as_world s) EmailChange userID (Some normalizedNewEmail) (mc_TokenTTL (as_emailCfg s))) (\<lambda>raw.
                                SendAsync normalizedNewEmail (mc_ServerName (as_emailCfg s) @ '' - confirm your new email'')
                                  (mail_link (as_emailCfg s) ''/verify-email-change?token='' raw))))))))))"

definition ConsumeEmailChange :: "account_service \<Rightarrow> string \<Rightarrow> user serving" where
  "ConsumeEmailChange s rawToken =
     andThen (token_Consume (as_world s) EmailChange rawToken) (\<lambda>token.
       let newEmail = (case ak_Payload token of None \<Rightarrow> '''' | Some p \<Rightarrow> p); accountID = ak_AccountID token
       in case ValidateEmail (as_world s) newEmail of
            Inl _ \<Rightarrow> fail (Account ErrTokenInvalid)
          | Inr _ \<Rightarrow>
              andThen (assertUnrestricted accountID) (\<lambda>_. exclusively
               (andThen (if_found (on_login (user_GetByEmail (as_world s) newEmail))) (\<lambda>existing.
                  if (case existing of None \<Rightarrow> False | Some e \<Rightarrow> us_ID e \<noteq> accountID) then fail (Account ErrEmailTaken)
                  else
                    andThen (on_login (UpdateEmail (as_world s) accountID newEmail)) (\<lambda>_.
                    andThen time_Now (\<lambda>now.
                    andThen (on_panel (record_Record accountID ChangeTypeEmail now)) (\<lambda>_.
                    on_login (user_GetByID accountID))))))))"

end
