(* ===== verification/Roles.thy ===== *)
theory Roles
  imports Main
begin

text \<open>\<open>account/domain/role.go\<close>: the panel's roles, by name and by the game's group of an account.\<close>

record role =
  ro_Name :: string
  ro_GroupID :: int

definition RoleAuthenticated :: role where "RoleAuthenticated = \<lparr>ro_Name = ''Member'', ro_GroupID = -1\<rparr>"
definition RolePublic :: role where "RolePublic = \<lparr>ro_Name = ''Public'', ro_GroupID = -2\<rparr>"
definition RolePlayer :: role where "RolePlayer = \<lparr>ro_Name = ''Player'', ro_GroupID = 0\<rparr>"
definition RoleAdmin :: role where "RoleAdmin = \<lparr>ro_Name = ''Admin'', ro_GroupID = 99\<rparr>"

definition role_String :: "role \<Rightarrow> string" where
  "role_String r = (if ro_Name r = '''' then ''unknown'' else ro_Name r)"

record role_resolver =
  rr_byGroupID :: "(int \<times> role) list"
  rr_byName :: "(string \<times> role) list"

text \<open>The configured roles in the order the map is gone through; a later one replaces an earlier.\<close>

definition add_role :: "string \<times> int \<Rightarrow> role_resolver \<Rightarrow> role_resolver" where
  "add_role c r = (case c of (name, groupID) \<Rightarrow>
     let role = \<lparr>ro_Name = name, ro_GroupID = groupID\<rparr>
     in \<lparr>rr_byGroupID = (groupID, role) # rr_byGroupID r, rr_byName = (name, role) # rr_byName r\<rparr>)"

definition NewRoleResolver :: "(string \<times> int) list \<Rightarrow> role_resolver" where
  "NewRoleResolver roles = fold add_role roles
     \<lparr>rr_byGroupID = [(ro_GroupID RoleAdmin, RoleAdmin)], rr_byName = [(ro_Name RoleAdmin, RoleAdmin)]\<rparr>"

definition Resolve :: "role_resolver \<Rightarrow> int \<Rightarrow> role" where
  "Resolve r groupID = (case map_of (rr_byGroupID r) groupID of Some role \<Rightarrow> role | None \<Rightarrow> RolePlayer)"

definition GetRole :: "role_resolver \<Rightarrow> string \<Rightarrow> role option" where
  "GetRole r name =
     (if name = ro_Name RolePublic then Some RolePublic
      else if name = ''Member'' \<or> name = ''Verified'' then Some RoleAuthenticated
      else map_of (rr_byName r) name)"

end
