(* ===== verification/Access_Control.thy ===== *)
theory Access_Control
  imports Account_Service Roles
begin

text \<open>
  Who may use a route: the access configuration and its checks (\<open>server/config/access.go\<close>), how
  routes are mounted (\<open>platform/routes/registry.go\<close>), and the gate a request passes
  (\<open>account/transport/middleware\<close>). Reading YAML and the rate limits of routes are left out.
\<close>

section \<open>access.go\<close>

record rate_limit_rule =
  rr_RatePerMinute :: int
  rr_Burst :: int

record access_entry =
  ae_Roles :: "string list"
  ae_RateLimit :: "rate_limit_rule option"
  ae_Requires :: "string list"

type_synonym access_config = "(string \<times> (string \<times> access_entry) list) list"

definition RequiresUnrestricted :: "access_entry \<Rightarrow> bool" where "RequiresUnrestricted e \<longleftrightarrow> ''Unrestricted'' \<in> set (ae_Requires e)"
definition RequiresAPIKey :: "access_entry \<Rightarrow> bool" where "RequiresAPIKey e \<longleftrightarrow> ''APIKey'' \<in> set (ae_Requires e)"
definition RequiresVerified :: "access_entry \<Rightarrow> bool" where
  "RequiresVerified e \<longleftrightarrow> list_all (\<lambda>role. \<not> (role = ''Public'' \<or> role = ''Member'')) (ae_Roles e)"

definition ManageRoles :: "access_config \<Rightarrow> string \<Rightarrow> string list" where
  "ManageRoles c grp =
     (case map_of c grp of None \<Rightarrow> [] | Some actions \<Rightarrow> (case map_of actions ''Manage'' of None \<Rightarrow> [] | Some e \<Rightarrow> ae_Roles e))"

definition combined_role :: "string \<Rightarrow> string list \<Rightarrow> bool" where
  "combined_role name roles \<longleftrightarrow> name \<in> set roles \<and> 1 < length roles"

text \<open>An entry without a list of roles passes (\<open>nil\<close>); the registry refuses it. Its list is empty here.\<close>

definition entry_ok :: "access_entry \<Rightarrow> bool" where
  "entry_ok e \<longleftrightarrow>
     list_all (\<lambda>tag. tag = ''Unrestricted'' \<or> tag = ''APIKey'') (ae_Requires e) \<and>
     (case ae_RateLimit e of None \<Rightarrow> True | Some r \<Rightarrow> 0 < rr_RatePerMinute r \<and> 0 < rr_Burst r) \<and>
     (ae_Roles e = [] \<or>
      (let hasPublic = ''Public'' \<in> set (ae_Roles e); soleAdmin = (ae_Roles e = [''Admin''])
       in \<not> combined_role ''Public'' (ae_Roles e) \<and> \<not> combined_role ''Member'' (ae_Roles e) \<and> \<not> combined_role ''Verified'' (ae_Roles e) \<and>
          (RequiresAPIKey e \<longrightarrow> hasPublic) \<and> \<not> (hasPublic \<and> RequiresUnrestricted e) \<and>
          list_all (\<lambda>role. \<not> (role = ''Admin'' \<and> \<not> soleAdmin) \<and> role \<noteq> '''') (ae_Roles e) \<and>
          \<not> (soleAdmin \<and> RequiresUnrestricted e)))"

definition validateAccessConfig :: "access_config \<Rightarrow> bool" where
  "validateAccessConfig cfg \<longleftrightarrow> map_of cfg ''Admin'' = None \<and> list_all (\<lambda>(_, actions). list_all (\<lambda>(_, e). entry_ok e) actions) cfg"

definition validateThemeAccessConfig :: "access_config \<Rightarrow> bool" where
  "validateThemeAccessConfig cfg \<longleftrightarrow> list_all (\<lambda>(grp, _). grp = ''ThemePages'') cfg"

text \<open>\<open>None\<close> when an action is defined on both sides.\<close>

fun merge_groups :: "access_config \<Rightarrow> access_config \<Rightarrow> access_config option" where
  "merge_groups out [] = Some out"
| "merge_groups out ((grp, actions) # rest) =
     (let existing = (case map_of out grp of None \<Rightarrow> [] | Some xs \<Rightarrow> xs)
      in if list_ex (\<lambda>(action, _). map_of existing action \<noteq> None) actions then None
         else merge_groups ((grp, existing @ actions) # filter (\<lambda>g. fst g \<noteq> grp) out) rest)"

definition mergeAccessConfigs :: "access_config \<Rightarrow> access_config \<Rightarrow> access_config option" where
  "mergeAccessConfigs root theme = merge_groups root theme"

definition ProcessAccessConfig :: "access_config \<Rightarrow> access_config \<Rightarrow> access_config option" where
  "ProcessAccessConfig root theme =
     (if \<not> validateThemeAccessConfig theme then None
      else case mergeAccessConfigs root theme of None \<Rightarrow> None | Some merged \<Rightarrow> if validateAccessConfig merged then Some merged else None)"

text \<open>\<open>validateRolesConfig\<close> of \<open>app.go\<close>: names of their own, group ids that are positive, not the administrators', and distinct.\<close>

definition reservedRoleNames :: "string list" where
  "reservedRoleNames = [''Admin'', ''Player'', ''Public'', ''Member'', ''Verified'']"

definition validateRolesConfig :: "(string \<times> int) list \<Rightarrow> bool" where
  "validateRolesConfig roles \<longleftrightarrow>
     list_all (\<lambda>(name, value). name \<noteq> '''' \<and> name \<notin> set reservedRoleNames \<and> 0 < value \<and> value \<noteq> 99) roles \<and> distinct (map snd roles)"

section \<open>registry.go\<close>

record auth_policy =
  ap_AllowTempBannedLogin :: bool
  ap_Unrestricted :: bool
  ap_RequireVerified :: bool

text \<open>How a route is mounted: open, behind the API key gate, or behind the role gate (hidden or not).\<close>

datatype mounting = Open_to_all | Behind_api_key | Behind_roles bool auth_policy "role list"

record registry =
  rg_cfg :: access_config
  rg_resolver :: role_resolver
  rg_allowTempBannedLogin :: bool
  rg_apiKeyGate :: bool

record resolved_entry =
  re_roles :: "role list"
  re_unrestricted :: bool
  re_requiresAPIKey :: bool
  re_requireVerified :: bool

definition parseTag :: "string \<Rightarrow> (string \<times> string) option" where
  "parseTag tag = (case split_on CHR ''.'' tag of [g, a] \<Rightarrow> if g = '''' \<or> a = '''' then None else Some (g, a) | _ \<Rightarrow> None)"

fun all_roles :: "role_resolver \<Rightarrow> string list \<Rightarrow> role list option" where
  "all_roles r [] = Some []"
| "all_roles r (n # ns) = (case GetRole r n of None \<Rightarrow> None | Some role \<Rightarrow> map_option (\<lambda>rs. role # rs) (all_roles r ns))"

text \<open>\<open>Inl ()\<close> where the code panics, \<open>Inr None\<close> when nothing is configured.\<close>

definition registry_lookup :: "registry \<Rightarrow> string \<Rightarrow> string \<Rightarrow> unit + resolved_entry option" where
  "registry_lookup rg grp action =
     (case map_of (rg_cfg rg) grp of
        None \<Rightarrow> Inr None
      | Some actions \<Rightarrow>
          (case map_of actions action of
             None \<Rightarrow> Inr None
           | Some e \<Rightarrow>
               if ae_Roles e = [] then Inl ()
               else case all_roles (rg_resolver rg) (ae_Roles e) of
                   None \<Rightarrow> Inl ()
                 | Some roles \<Rightarrow> Inr (Some \<lparr>re_roles = roles, re_unrestricted = RequiresUnrestricted e,
                     re_requiresAPIKey = RequiresAPIKey e, re_requireVerified = RequiresVerified e\<rparr>)))"

definition mountAdminOnly :: "registry \<Rightarrow> mounting" where
  "mountAdminOnly rg = Behind_roles True \<lparr>ap_AllowTempBannedLogin = rg_allowTempBannedLogin rg, ap_Unrestricted = True, ap_RequireVerified = True\<rparr> []"

definition mountPublic :: "registry \<Rightarrow> bool \<Rightarrow> mounting option" where
  "mountPublic rg requiresAPIKey =
     (if \<not> requiresAPIKey then Some Open_to_all else if \<not> rg_apiKeyGate rg then None else Some Behind_api_key)"

definition registry_wrap :: "registry \<Rightarrow> string \<Rightarrow> bool \<Rightarrow> mounting option" where
  "registry_wrap rg tag hidden =
     (case parseTag tag of
        None \<Rightarrow> None
      | Some (grp, action) \<Rightarrow>
          if grp = ''Admin'' then Some (mountAdminOnly rg)
          else case registry_lookup rg grp action of
              Inl _ \<Rightarrow> None
            | Inr None \<Rightarrow> Some (Behind_roles False
                \<lparr>ap_AllowTempBannedLogin = rg_allowTempBannedLogin rg, ap_Unrestricted = False, ap_RequireVerified = True\<rparr> [RoleAuthenticated])
            | Inr (Some e) \<Rightarrow>
                if re_roles e = [RoleAdmin] then Some (mountAdminOnly rg)
                else if re_roles e = [RolePublic] then mountPublic rg (re_requiresAPIKey e)
                else Some (Behind_roles hidden \<lparr>ap_AllowTempBannedLogin = rg_allowTempBannedLogin rg,
                   ap_Unrestricted = re_unrestricted e, ap_RequireVerified = re_requireVerified e\<rparr> (re_roles e)))"

text \<open>\<open>Finalize\<close>: every entry has a route (those of a theme's pages apart), every route outside \<open>Admin\<close> an entry.\<close>

definition Finalize :: "registry \<Rightarrow> string list \<Rightarrow> bool" where
  "Finalize rg registered \<longleftrightarrow>
     list_all (\<lambda>(grp, actions). grp = ''ThemePages'' \<or> list_all (\<lambda>(action, _). grp @ ''.'' @ action \<in> set registered) actions) (rg_cfg rg) \<and>
     list_all (\<lambda>tag. case parseTag tag of None \<Rightarrow> False
        | Some (grp, action) \<Rightarrow> grp = ''Admin'' \<or> registry_lookup rg grp action \<noteq> Inr None) registered"

section \<open>The gate\<close>

datatype cookie_change = Keep_cookie | Set_session string | Clear_session

record account_snapshot =
  sn_UnbanTime :: "int option"
  sn_Username :: string
  sn_UserID :: int
  sn_GroupID :: int
  sn_State :: int

definition snapshot_IsAdmin :: "account_snapshot \<Rightarrow> bool" where "snapshot_IsAdmin s \<longleftrightarrow> sn_GroupID s = 99"

text \<open>A request the gate turns away: where it is sent or what status it gets, and what becomes of its cookie.\<close>

datatype turned_away = To string | Hidden_404 | Status nat

definition roleAllowed :: "role \<Rightarrow> role list \<Rightarrow> bool" where
  "roleAllowed r allowed \<longleftrightarrow> r = RoleAdmin \<or> RoleAuthenticated \<in> set allowed \<or> r \<in> set allowed"

definition rejectRedirect :: "bool \<Rightarrow> string \<Rightarrow> turned_away" where "rejectRedirect hidden target = (if hidden then Hidden_404 else To target)"
definition rejectUnauthenticated :: "bool \<Rightarrow> turned_away" where "rejectUnauthenticated hidden = (if hidden then Hidden_404 else To ''/login'')"
definition rejectForbidden :: "bool \<Rightarrow> turned_away" where "rejectForbidden hidden = (if hidden then Hidden_404 else Status 403)"

definition rejectBanned :: "session_service \<Rightarrow> bool \<Rightarrow> string \<Rightarrow> string \<Rightarrow> (cookie_change \<times> turned_away) serving" where
  "rejectBanned ss hidden notice sessRaw =
     bindT (sessions_Destroy ss sessRaw) (\<lambda>_. ret (Clear_session, rejectRedirect hidden (''/login?notice='' @ notice)))"

definition handleSessionError :: "bool \<Rightarrow> account_failure \<Rightarrow> cookie_change \<times> turned_away" where
  "handleSessionError hidden e =
     (if e = Account ErrSessionNotFound \<or> e = Account ErrSessionExpired then (Clear_session, rejectUnauthenticated hidden)
      else (Keep_cookie, Status 500))"

definition requireRoleCore ::
    "session_service \<Rightarrow> role_resolver \<Rightarrow> bool \<Rightarrow> auth_policy \<Rightarrow> role list \<Rightarrow> string option \<Rightarrow>
     (session \<Rightarrow> account_snapshot \<Rightarrow> 'a serving) \<Rightarrow> (cookie_change \<times> turned_away \<Rightarrow> 'a serving) \<Rightarrow> 'a serving" where
  "requireRoleCore ss resolver hidden policy allowed cookie next reject =
     (case cookie of
        None \<Rightarrow> reject (Keep_cookie, rejectUnauthenticated hidden)
      | Some value \<Rightarrow>
          if value = '''' then reject (Keep_cookie, rejectUnauthenticated hidden)
          else bindT (sessions_Validate ss value) (\<lambda>r. case r of
              Inl e \<Rightarrow> reject (handleSessionError hidden e)
            | Inr sess \<Rightarrow>
                bindT (on_login (user_GetByID (se_UserID sess))) (\<lambda>r. case r of
                    Inl e \<Rightarrow> if e = Account ErrUserNotFound then andThen (rejectBanned ss hidden ''deleted'' value) reject
                             else reject (Keep_cookie, Status 500)
                  | Inr u \<Rightarrow>
                      andThen time_Now (\<lambda>now.
                        let tier = ClassifyTier (us_State u) (us_UnbanTime u) now;
                            snap = \<lparr>sn_UnbanTime = us_UnbanTime u, sn_Username = us_Username u, sn_UserID = us_ID u,
                                    sn_GroupID = us_GroupID u, sn_State = us_State u\<rparr>
                        in if tier = TierPermaBanned then andThen (rejectBanned ss hidden ''banned'' value) reject
                           else if tier = TierUnverified \<and> ap_RequireVerified policy then reject (Keep_cookie, rejectRedirect hidden ''/verify-account'')
                           else if tier = TierTempBanned \<and> \<not> ap_AllowTempBannedLogin policy then andThen (rejectBanned ss hidden ''banned'' value) reject
                           else if tier = TierTempBanned \<and> ap_Unrestricted policy then reject (Keep_cookie, rejectRedirect hidden ''/account?notice=ban_blocked'')
                           else if \<not> roleAllowed (Resolve resolver (us_GroupID u)) allowed then reject (Keep_cookie, rejectForbidden hidden)
                           else next sess snap))))"

end
