(* ===== verification/Ticket_Domain.thy ===== *)
theory Ticket_Domain
  imports Prelude Utf8
begin

text \<open>
  \<open>tickets/domain\<close>: support tickets and their threads of messages, the transitions of a ticket,
  categories and who may handle them.
\<close>

section \<open>ticket.go, errors.go, category.go\<close>

datatype ticket_status = StatusOpen | StatusResolved | StatusClosed
datatype actor = ActorPlayer | ActorStaff
datatype visibility = VisibilityPublic | VisibilityInternal | VisibilitySystem

datatype ticket_error =
    ErrTicketNotFound | ErrNotTicketOwner | ErrTicketTerminal | ErrPlayerCannotReply | ErrUnknownCategory
  | ErrCategoryNotPermitted | ErrTooManyOpenTickets | ErrTicketCooldown
  | ErrSubjectEmpty | ErrSubjectTooLong | ErrSubjectUnchanged | ErrBodyEmpty | ErrBodyTooLong | ErrCategoryUnchanged
  | ErrPlayerLookupFailed

text \<open>What a ticket call may fail with: the store, an error of the feature, a field that does not validate.\<close>

datatype ticket_failure = Tickets_store | Tickets ticket_error | ValidationError string ticket_error

text \<open>The JSON of a system message, by its fields.\<close>

datatype ticket_event = Recategorized string string | Subject_edited string string | Ended_with string

record ticket =
  tk_ClosedBy :: "int option"
  tk_LastActivity :: int
  tk_CreatedAt :: int
  tk_AuthorUsername :: string
  tk_Category :: string
  tk_Subject :: string
  tk_Status :: ticket_status
  tk_LastActor :: actor
  tk_ID :: int
  tk_AccountID :: int
  tk_MessageCount :: int

record message =
  ms_CreatedAt :: int
  ms_Body :: string
  ms_AuthorRole :: actor
  ms_Visibility :: visibility
  ms_Event :: "ticket_event option"
  ms_ID :: int
  ms_TicketID :: int
  ms_AuthorID :: int

definition ticket_IsTerminal :: "ticket \<Rightarrow> bool" where
  "ticket_IsTerminal t \<longleftrightarrow> tk_Status t = StatusResolved \<or> tk_Status t = StatusClosed"

definition CanPlayerReply :: "ticket \<Rightarrow> bool" where
  "CanPlayerReply t \<longleftrightarrow> \<not> ticket_IsTerminal t \<and> tk_LastActor t = ActorStaff"

text \<open>A time that was never set is \<open>None\<close>.\<close>

definition IsUnreadFor :: "ticket \<Rightarrow> int option \<Rightarrow> bool" where
  "IsUnreadFor t lastViewed = (case lastViewed of None \<Rightarrow> True | Some v \<Rightarrow> v < tk_LastActivity t)"

record category =
  ca_Key :: string
  ca_Display :: string
  ca_Roles :: "string list"

type_synonym category_resolver = "(string \<times> category) list"

definition NewCategoryResolver :: "category list \<Rightarrow> category_resolver" where
  "NewCategoryResolver categories = rev (map (\<lambda>c. (ca_Key c, c)) categories)"

definition category_Get :: "category_resolver \<Rightarrow> string \<Rightarrow> category option" where
  "category_Get r key = map_of r key"

definition permits :: "category \<Rightarrow> string \<Rightarrow> bool \<Rightarrow> bool" where
  "permits c roleName isAdmin \<longleftrightarrow> isAdmin \<or> list_ex (\<lambda>role. role = ''*'' \<or> role = roleName) (ca_Roles c)"

definition Permits :: "category_resolver \<Rightarrow> string \<Rightarrow> string \<Rightarrow> bool \<Rightarrow> bool" where
  "Permits r key roleName isAdmin = (case map_of r key of None \<Rightarrow> isAdmin | Some c \<Rightarrow> permits c roleName isAdmin)"

text \<open>Each key of the map once, in no order that matters.\<close>

definition AllowedForRole :: "category_resolver \<Rightarrow> string \<Rightarrow> bool \<Rightarrow> string list" where
  "AllowedForRole r roleName isAdmin = filter (\<lambda>key. Permits r key roleName isAdmin) (remdups (map fst r))"

section \<open>validation.go\<close>

definition MaxSubjectLen :: nat where "MaxSubjectLen = 150"
definition MaxBodyLen :: nat where "MaxBodyLen = 1000"
definition PageSize :: int where "PageSize = 20"

definition ValidateSubject :: "string \<Rightarrow> ticket_error + string" where
  "ValidateSubject raw = (let trimmed = TrimSpace raw in
     if trimmed = '''' then Inl ErrSubjectEmpty
     else if MaxSubjectLen < RuneCount trimmed then Inl ErrSubjectTooLong else Inr trimmed)"

definition ValidateBody :: "string \<Rightarrow> ticket_error + string" where
  "ValidateBody raw = (let trimmed = TrimSpace raw in
     if trimmed = '''' then Inl ErrBodyEmpty
     else if MaxBodyLen < RuneCount trimmed then Inl ErrBodyTooLong else Inr trimmed)"

section \<open>transitions.go\<close>

definition NewTicket :: "int \<Rightarrow> string \<Rightarrow> string \<Rightarrow> string \<Rightarrow> string \<Rightarrow> int \<Rightarrow> ticket_failure + ticket \<times> message" where
  "NewTicket accountID authorUsername cat subject body now =
     (case ValidateSubject subject of
        Inl err \<Rightarrow> Inl (ValidationError ''subject'' err)
      | Inr cleanSubject \<Rightarrow>
          (case ValidateBody body of
             Inl err \<Rightarrow> Inl (ValidationError ''body'' err)
           | Inr cleanBody \<Rightarrow> Inr
               (\<lparr>tk_ClosedBy = None, tk_LastActivity = now, tk_CreatedAt = now, tk_AuthorUsername = authorUsername, tk_Category = cat,
                 tk_Subject = cleanSubject, tk_Status = StatusOpen, tk_LastActor = ActorPlayer, tk_ID = 0, tk_AccountID = accountID,
                 tk_MessageCount = 1\<rparr>,
                \<lparr>ms_CreatedAt = now, ms_Body = cleanBody, ms_AuthorRole = ActorPlayer, ms_Visibility = VisibilityPublic,
                 ms_Event = None, ms_ID = 0, ms_TicketID = 0, ms_AuthorID = accountID\<rparr>)))"

definition AppendPublic :: "ticket \<Rightarrow> int \<Rightarrow> actor \<Rightarrow> string \<Rightarrow> int \<Rightarrow> ticket_failure + ticket \<times> message" where
  "AppendPublic t authorID role body now =
     (if ticket_IsTerminal t then Inl (Tickets ErrTicketTerminal)
      else if role = ActorPlayer \<and> \<not> CanPlayerReply t then Inl (Tickets ErrPlayerCannotReply)
      else case ValidateBody body of
        Inl err \<Rightarrow> Inl (ValidationError ''body'' err)
      | Inr cleanBody \<Rightarrow> Inr
          (t\<lparr>tk_LastActor := role, tk_MessageCount := wrap64 (tk_MessageCount t + 1), tk_LastActivity := now\<rparr>,
           \<lparr>ms_CreatedAt = now, ms_Body = cleanBody, ms_AuthorRole = role, ms_Visibility = VisibilityPublic,
            ms_Event = None, ms_ID = 0, ms_TicketID = tk_ID t, ms_AuthorID = authorID\<rparr>))"

definition domain_AppendInternalNote :: "ticket \<Rightarrow> int \<Rightarrow> string \<Rightarrow> int \<Rightarrow> ticket_failure + message" where
  "domain_AppendInternalNote t staffID body now =
     (if ticket_IsTerminal t then Inl (Tickets ErrTicketTerminal)
      else case ValidateBody body of
        Inl err \<Rightarrow> Inl (ValidationError ''body'' err)
      | Inr cleanBody \<Rightarrow> Inr
          \<lparr>ms_CreatedAt = now, ms_Body = cleanBody, ms_AuthorRole = ActorStaff, ms_Visibility = VisibilityInternal,
           ms_Event = None, ms_ID = 0, ms_TicketID = tk_ID t, ms_AuthorID = staffID\<rparr>)"

definition systemMessage :: "int \<Rightarrow> int \<Rightarrow> ticket_event \<Rightarrow> string \<Rightarrow> int \<Rightarrow> message" where
  "systemMessage ticketID staffID payload fallback now =
     \<lparr>ms_CreatedAt = now, ms_Body = fallback, ms_AuthorRole = ActorStaff, ms_Visibility = VisibilitySystem,
      ms_Event = Some payload, ms_ID = 0, ms_TicketID = ticketID, ms_AuthorID = staffID\<rparr>"

definition Recategorize :: "ticket \<Rightarrow> int \<Rightarrow> string \<Rightarrow> int \<Rightarrow> ticket_failure + ticket \<times> message" where
  "Recategorize t staffID newCategory now =
     (if ticket_IsTerminal t then Inl (Tickets ErrTicketTerminal)
      else if newCategory = tk_Category t then Inl (Tickets ErrCategoryUnchanged)
      else Inr
        (t\<lparr>tk_Category := newCategory, tk_LastActivity := now\<rparr>,
         systemMessage (tk_ID t) staffID (Recategorized (tk_Category t) newCategory)
           (''Category changed from '' @ tk_Category t @ '' to '' @ newCategory) now))"

definition EditSubject :: "ticket \<Rightarrow> int \<Rightarrow> string \<Rightarrow> int \<Rightarrow> ticket_failure + ticket \<times> message" where
  "EditSubject t staffID newSubject now =
     (if ticket_IsTerminal t then Inl (Tickets ErrTicketTerminal)
      else case ValidateSubject newSubject of
        Inl err \<Rightarrow> Inl (ValidationError ''subject'' err)
      | Inr cleanSubject \<Rightarrow>
          if cleanSubject = tk_Subject t then Inl (Tickets ErrSubjectUnchanged)
          else Inr
            (t\<lparr>tk_Subject := cleanSubject, tk_LastActivity := now\<rparr>,
             systemMessage (tk_ID t) staffID (Subject_edited (tk_Subject t) cleanSubject) ''Subject changed'' now))"

definition ticket_terminate :: "ticket \<Rightarrow> int \<Rightarrow> ticket_status \<Rightarrow> string \<Rightarrow> string \<Rightarrow> int \<Rightarrow> ticket_failure + ticket \<times> message" where
  "ticket_terminate t staffID status eventType fallback now =
     (if ticket_IsTerminal t then Inl (Tickets ErrTicketTerminal)
      else Inr (t\<lparr>tk_Status := status, tk_ClosedBy := Some staffID, tk_LastActivity := now\<rparr>,
                systemMessage (tk_ID t) staffID (Ended_with eventType) fallback now))"

definition domain_Resolve :: "ticket \<Rightarrow> int \<Rightarrow> int \<Rightarrow> ticket_failure + ticket \<times> message" where
  "domain_Resolve t staffID now = ticket_terminate t staffID StatusResolved ''resolve'' ''Ticket resolved'' now"

definition domain_Close :: "ticket \<Rightarrow> int \<Rightarrow> int \<Rightarrow> ticket_failure + ticket \<times> message" where
  "domain_Close t staffID now = ticket_terminate t staffID StatusClosed ''close'' ''Ticket closed'' now"

end
