(* ===== verification/Ticket_Repo.thy ===== *)
theory Ticket_Repo
  imports Ticket_Domain
begin

text \<open>
  The tables of migration \<open>0004_cp_tickets.sql\<close> and the repositories \<open>postgres_tickets.go\<close>,
  \<open>postgres_messages.go\<close> and \<open>postgres_views.go\<close>.
\<close>

section \<open>The tables\<close>

text \<open>A ticket's row has the fields of a ticket.\<close>

definition ticket_check :: "ticket \<Rightarrow> bool" where
  "ticket_check t \<longleftrightarrow> varchar 23 (tk_AuthorUsername t) \<and> varchar 64 (tk_Category t) \<and> varchar 150 (tk_Subject t) \<and>
     tk_MessageCount t \<le> max_int32"

definition event_texts :: "ticket_event option \<Rightarrow> string list" where
  "event_texts e = (case e of None \<Rightarrow> [] | Some (Recategorized a b) \<Rightarrow> [a, b] | Some (Subject_edited a b) \<Rightarrow> [a, b] | Some (Ended_with a) \<Rightarrow> [a])"

definition message_check :: "message \<Rightarrow> bool" where
  "message_check m \<longleftrightarrow> storable (ms_Body m) \<and> (\<forall>s \<in> set (event_texts (ms_Event m)). CHR 0x00 \<notin> set s)"

record view_row =
  vw_account_id :: int
  vw_ticket_id :: int
  vw_last_viewed :: int

record ticketdb =
  cp_tickets :: "ticket list"
  cp_ticket_messages :: "message list"
  cp_ticket_views :: "view_row list"
  ticket_seq :: int
  message_seq :: int

type_synonym 'a ticket_prog = "(ticketdb conn, ticket_failure, 'a) prog"

definition ticket_rb :: "ticketdb \<Rightarrow> ticketdb \<Rightarrow> ticketdb" where
  "ticket_rb d0 d1 = d0\<lparr>ticket_seq := ticket_seq d1, message_seq := message_seq d1\<rparr>"

definition ticket_grows :: "ticketdb \<Rightarrow> ticketdb \<Rightarrow> bool" where
  "ticket_grows d0 d1 \<longleftrightarrow> ticket_seq d0 \<le> ticket_seq d1 \<and> message_seq d0 \<le> message_seq d1"

definition ticketTx :: "'a ticket_prog \<Rightarrow> 'a ticket_prog" where
  "ticketTx m = transaction ticket_rb Tickets_store m"

interpretation tickets: store ticket_rb ticket_grows
  by unfold_locales (auto simp: ticket_rb_def ticket_grows_def)

section \<open>postgres_tickets.go\<close>

definition has_ticket :: "int \<Rightarrow> ticketdb \<Rightarrow> bool" where
  "has_ticket i d \<longleftrightarrow> list_ex (\<lambda>t. tk_ID t = i) (cp_tickets d)"

definition insert_ticket :: "ticket \<Rightarrow> ticketdb \<Rightarrow> (int \<times> ticketdb) option" where
  "insert_ticket t d =
     (let i = ticket_seq d + 1
      in map_option (\<lambda>ts. (i, d\<lparr>cp_tickets := ts, ticket_seq := i\<rparr>))
           (ins_checked ticket_check (t\<lparr>tk_ID := i, tk_MessageCount := 1, tk_ClosedBy := None\<rparr>) (cp_tickets d)))"

text \<open>A message refers to a ticket that exists.\<close>

definition insert_message :: "int \<Rightarrow> message \<Rightarrow> ticketdb \<Rightarrow> (int \<times> ticketdb) option" where
  "insert_message ticketID m d =
     (let i = message_seq d + 1
      in if \<not> has_ticket ticketID d then None
         else map_option (\<lambda>ms. (i, d\<lparr>cp_ticket_messages := ms, message_seq := i\<rparr>))
           (ins_checked message_check (m\<lparr>ms_ID := i, ms_TicketID := ticketID\<rparr>) (cp_ticket_messages d)))"

definition repo_Create :: "ticket \<Rightarrow> message \<Rightarrow> int ticket_prog" where
  "repo_Create t initial =
     ticketTx (bindE (sql Tickets_store (insert_ticket t)) (\<lambda>ticketID.
       bindE (sql Tickets_store (insert_message ticketID initial)) (\<lambda>_. retE ticketID)))"

definition ticket_Get :: "int \<Rightarrow> ticket ticket_prog" where
  "ticket_Get i = query_row Tickets_store (Tickets ErrTicketNotFound) (\<lambda>d. find (\<lambda>t. tk_ID t = i) (cp_tickets d))"

text \<open>\<open>LIMIT\<close> and \<open>OFFSET\<close>: negative ones are refused.\<close>

definition ticket_page :: "int \<Rightarrow> int \<Rightarrow> (ticketdb \<Rightarrow> ticket list) \<Rightarrow> ticket list ticket_prog" where
  "ticket_page limit offset f = sql Tickets_store (\<lambda>d.
     if limit < 0 \<or> offset < 0 then None
     else Some (take (nat limit) (drop (nat offset) (sort_key (\<lambda>t. - tk_LastActivity t) (f d))), d))"

definition repo_ListForPlayer :: "int \<Rightarrow> int \<Rightarrow> int \<Rightarrow> (ticket list \<times> int) ticket_prog" where
  "repo_ListForPlayer accountID limit offset =
     (let mine = (\<lambda>d. filter (\<lambda>t. tk_AccountID t = accountID) (cp_tickets d))
      in bindE (query Tickets_store (\<lambda>d. int (length (mine d)))) (\<lambda>total.
         bindE (ticket_page limit offset mine) (\<lambda>rows. retE (rows, total))))"

datatype staff_tab = TabOpenNoResponse | TabActive | TabTerminal

definition staffTabWhere :: "staff_tab \<Rightarrow> string list \<Rightarrow> ticket \<Rightarrow> bool" where
  "staffTabWhere tab categoryKeys t \<longleftrightarrow> tk_Category t \<in> set categoryKeys \<and>
     (case tab of
        TabOpenNoResponse \<Rightarrow> tk_Status t = StatusOpen \<and> tk_MessageCount t = 1
      | TabActive \<Rightarrow> tk_Status t = StatusOpen \<and> 1 < tk_MessageCount t
      | TabTerminal \<Rightarrow> tk_Status t = StatusResolved \<or> tk_Status t = StatusClosed)"

definition repo_ListForStaff :: "staff_tab \<Rightarrow> string list \<Rightarrow> int \<Rightarrow> int \<Rightarrow> (ticket list \<times> int) ticket_prog" where
  "repo_ListForStaff tab categoryKeys limit offset =
     (if categoryKeys = [] then retE ([], 0)
      else let those = (\<lambda>d. filter (staffTabWhere tab categoryKeys) (cp_tickets d))
      in bindE (query Tickets_store (\<lambda>d. int (length (those d)))) (\<lambda>total.
         bindE (ticket_page limit offset those) (\<lambda>rows. retE (rows, total))))"

definition CountOpenForPlayer :: "int \<Rightarrow> int ticket_prog" where
  "CountOpenForPlayer accountID = query Tickets_store (\<lambda>d.
     int (length (filter (\<lambda>t. tk_AccountID t = accountID \<and> tk_Status t = StatusOpen) (cp_tickets d))))"

text \<open>\<open>MAX\<close>, null of no rows.\<close>

definition sql_max :: "int list \<Rightarrow> int option" where
  "sql_max xs = (if xs = [] then None else Some (foldr max (tl xs) (hd xs)))"

definition MostRecentOpenedAt :: "int \<Rightarrow> int option ticket_prog" where
  "MostRecentOpenedAt accountID = query Tickets_store (\<lambda>d.
     sql_max (map tk_CreatedAt (filter (\<lambda>t. tk_AccountID t = accountID) (cp_tickets d))))"

text \<open>\<open>UPDATE cp_tickets .. WHERE id = RETURNING\<close>: the row as it is then, if there is one.\<close>

definition update_ticket :: "int \<Rightarrow> (ticket \<Rightarrow> ticket) \<Rightarrow> ticketdb \<Rightarrow> (ticket option \<times> ticketdb) option" where
  "update_ticket i f d = map_option (\<lambda>ts. (find (\<lambda>t. tk_ID t = i) ts, d\<lparr>cp_tickets := ts\<rparr>))
     (upd_checked ticket_check (\<lambda>t. tk_ID t = i) f (cp_tickets d))"

definition returning :: "ticket option \<Rightarrow> ticket ticket_prog" where
  "returning row = (case row of None \<Rightarrow> failE (Tickets ErrTicketNotFound) | Some t \<Rightarrow> retE t)"

definition AppendPublicMessage :: "int \<Rightarrow> message \<Rightarrow> ticket ticket_prog" where
  "AppendPublicMessage ticketID m =
     ticketTx (bindE (sql Tickets_store (insert_message ticketID (m\<lparr>ms_Visibility := VisibilityPublic, ms_Event := None\<rparr>))) (\<lambda>_.
       bindE (sql Tickets_store (update_ticket ticketID (\<lambda>t. t\<lparr>tk_LastActor := ms_AuthorRole m,
           tk_MessageCount := tk_MessageCount t + 1, tk_LastActivity := ms_CreatedAt m\<rparr>))) returning))"

definition AppendInternalNote :: "int \<Rightarrow> message \<Rightarrow> unit ticket_prog" where
  "AppendInternalNote ticketID m =
     bindE (sql Tickets_store (insert_message ticketID
       (m\<lparr>ms_AuthorRole := ActorStaff, ms_Visibility := VisibilityInternal, ms_Event := None\<rparr>))) (\<lambda>_. retE ())"

definition AppendSystemEvent :: "int \<Rightarrow> ticket \<Rightarrow> message \<Rightarrow> unit ticket_prog" where
  "AppendSystemEvent ticketID updated m =
     ticketTx (bindE (sql Tickets_store (insert_message ticketID
         (m\<lparr>ms_AuthorRole := ActorStaff, ms_Visibility := VisibilitySystem\<rparr>))) (\<lambda>_.
       bindE (sql Tickets_store (update_ticket ticketID (\<lambda>t. t\<lparr>tk_Category := tk_Category updated,
           tk_Subject := tk_Subject updated, tk_LastActivity := tk_LastActivity updated\<rparr>))) (\<lambda>_. retE ())))"

definition SetTerminal :: "int \<Rightarrow> ticket_status \<Rightarrow> int \<Rightarrow> int \<Rightarrow> (ticket \<times> message) ticket_prog" where
  "SetTerminal ticketID status staffID now =
     (let (eventType, fallback) =
            (if status = StatusClosed then (''close'', ''Ticket closed'') else (''resolve'', ''Ticket resolved''));
          m = \<lparr>ms_CreatedAt = now, ms_Body = fallback, ms_AuthorRole = ActorStaff, ms_Visibility = VisibilitySystem,
            ms_Event = Some (Ended_with eventType), ms_ID = 0, ms_TicketID = ticketID, ms_AuthorID = staffID\<rparr>
      in ticketTx (bindE (sql Tickets_store (insert_message ticketID m)) (\<lambda>messageID.
           bindE (sql Tickets_store (update_ticket ticketID (\<lambda>t. t\<lparr>tk_Status := status, tk_ClosedBy := Some staffID,
               tk_LastActivity := now\<rparr>))) (\<lambda>row.
           bindE (returning row) (\<lambda>updated. retE (updated, m\<lparr>ms_ID := messageID\<rparr>))))))"

section \<open>postgres_messages.go\<close>

definition message_List :: "int \<Rightarrow> bool \<Rightarrow> message list ticket_prog" where
  "message_List ticketID includeInternal = query Tickets_store (\<lambda>d.
     sort_key ms_CreatedAt (sort_key ms_ID (filter (\<lambda>m. ms_TicketID m = ticketID \<and>
       (includeInternal \<or> ms_Visibility m \<noteq> VisibilityInternal)) (cp_ticket_messages d))))"

section \<open>postgres_views.go\<close>

definition view_at :: "int \<Rightarrow> int \<Rightarrow> ticketdb \<Rightarrow> int option" where
  "view_at accountID ticketID d = map_option vw_last_viewed
     (find (\<lambda>v. vw_account_id v = accountID \<and> vw_ticket_id v = ticketID) (cp_ticket_views d))"

definition view_Get :: "int \<Rightarrow> int \<Rightarrow> int option ticket_prog" where
  "view_Get accountID ticketID = query Tickets_store (view_at accountID ticketID)"

definition view_Upsert :: "int \<Rightarrow> int \<Rightarrow> int \<Rightarrow> unit ticket_prog" where
  "view_Upsert accountID ticketID now = exec_opt Tickets_store (\<lambda>d.
     if \<not> has_ticket ticketID d then None
     else Some (d\<lparr>cp_ticket_views :=
       (if view_at accountID ticketID d = None
        then cp_ticket_views d @ [\<lparr>vw_account_id = accountID, vw_ticket_id = ticketID, vw_last_viewed = now\<rparr>]
        else upd_where (\<lambda>v. vw_account_id v = accountID \<and> vw_ticket_id v = ticketID)
               (\<lambda>v. v\<lparr>vw_last_viewed := max (vw_last_viewed v) now\<rparr>) (cp_ticket_views d))\<rparr>))"

definition count_unread :: "int \<Rightarrow> (ticket \<Rightarrow> bool) \<Rightarrow> ticketdb \<Rightarrow> int" where
  "count_unread accountID p d = int (length (filter (\<lambda>t. p t \<and>
     (case view_at accountID (tk_ID t) d of None \<Rightarrow> True | Some v \<Rightarrow> v < tk_LastActivity t)) (cp_tickets d)))"

definition repo_UnreadCountForPlayer :: "int \<Rightarrow> int ticket_prog" where
  "repo_UnreadCountForPlayer accountID = query Tickets_store (count_unread accountID (\<lambda>t. tk_AccountID t = accountID))"

definition repo_UnreadCountForStaff :: "int \<Rightarrow> string list \<Rightarrow> int ticket_prog" where
  "repo_UnreadCountForStaff accountID categoryKeys =
     (if categoryKeys = [] then retE 0
      else query Tickets_store (count_unread accountID (\<lambda>t. tk_Category t \<in> set categoryKeys)))"

definition OtherSeenAt :: "int \<Rightarrow> int \<Rightarrow> bool \<Rightarrow> int option ticket_prog" where
  "OtherSeenAt ticketID ownerID viewerIsStaff = query Tickets_store (\<lambda>d.
     if viewerIsStaff then view_at ownerID ticketID d
     else sql_max (map vw_last_viewed (filter (\<lambda>v. vw_ticket_id v = ticketID \<and> vw_account_id v \<noteq> ownerID) (cp_ticket_views d))))"

end
