(* ===== verification/Ticket_Service.thy ===== *)
theory Ticket_Service
  imports Ticket_Repo Tasks Http
begin

text \<open>
  \<open>tickets/app/service.go\<close> and \<open>notification.go\<close>, and the handlers of \<open>tickets/transport\<close>, as
  tasks: between any two of a request's database calls the other requests may run. A transaction
  is one step. The accounts are outside: a lookup answers a name and an email, or fails.
\<close>

section \<open>The state requests share\<close>

record desk =
  dk_db :: ticketdb
  dk_now :: int
  dk_mail :: "(string \<times> int \<times> string) list"

type_synonym 'a ticketing = "(desk, ticket_failure, 'a) task"

definition db :: "'a ticket_prog \<Rightarrow> 'a ticketing" where
  "db = atomic dk_db (\<lambda>d s. s\<lparr>dk_db := d\<rparr>)"

definition clock :: "int ticketing" where "clock = look dk_now"

definition elapse :: "nat \<Rightarrow> desk \<Rightarrow> desk" where "elapse n s = s\<lparr>dk_now := dk_now s + int n\<rparr>"

record ticket_service =
  ts_users :: "int \<Rightarrow> (string \<times> string) option"
  ts_mailer :: bool
  ts_categories :: category_resolver
  ts_MaxOpenPerPlayer :: int
  ts_TicketOpenCooldown :: int

section \<open>notification.go\<close>

definition sendEmail :: "ticket_service \<Rightarrow> ticket \<Rightarrow> string \<Rightarrow> unit ticketing" where
  "sendEmail s t eventLabel =
     (if \<not> ts_mailer s then ret ()
      else case ts_users s (tk_AccountID t) of
        None \<Rightarrow> ret ()
      | Some (_, email) \<Rightarrow> if email = '''' then ret () else change (\<lambda>w. w\<lparr>dk_mail := (email, tk_ID t, eventLabel) # dk_mail w\<rparr>))"

definition notifyStaffReply :: "ticket_service \<Rightarrow> ticket \<Rightarrow> unit ticketing" where
  "notifyStaffReply s t = sendEmail s t ''Staff replied to your ticket.''"

definition notifyTerminal :: "ticket_service \<Rightarrow> ticket \<Rightarrow> unit ticketing" where
  "notifyTerminal s t = sendEmail s t (if tk_Status t = StatusClosed then ''Your ticket was closed.'' else ''Your ticket was resolved.'')"

section \<open>service.go\<close>

definition categoryDisplay :: "ticket_service \<Rightarrow> string \<Rightarrow> string" where
  "categoryDisplay s key = (case category_Get (ts_categories s) key of Some c \<Rightarrow> ca_Display c | None \<Rightarrow> key)"

definition checkOpenGate :: "ticket_service \<Rightarrow> int \<Rightarrow> string \<Rightarrow> unit ticketing" where
  "checkOpenGate s accountID cat =
     (if category_Get (ts_categories s) cat = None then fail (Tickets ErrUnknownCategory)
      else andThen (db (CountOpenForPlayer accountID)) (\<lambda>openCount.
        if ts_MaxOpenPerPlayer s \<le> openCount then fail (Tickets ErrTooManyOpenTickets)
        else if 0 < ts_TicketOpenCooldown s
        then andThen (db (MostRecentOpenedAt accountID)) (\<lambda>latest.
               case latest of
                 None \<Rightarrow> ret ()
               | Some t \<Rightarrow> andThen clock (\<lambda>now. if now - t < ts_TicketOpenCooldown s then fail (Tickets ErrTicketCooldown) else ret ()))
        else ret ()))"

definition OpenTicket :: "ticket_service \<Rightarrow> int \<Rightarrow> string \<Rightarrow> string \<Rightarrow> string \<Rightarrow> int ticketing" where
  "OpenTicket s accountID cat subject body =
     andThen (checkOpenGate s accountID cat) (\<lambda>_.
       case ts_users s accountID of
         None \<Rightarrow> fail (Tickets ErrPlayerLookupFailed)
       | Some (username, _) \<Rightarrow>
           andThen clock (\<lambda>now.
             case NewTicket accountID username cat subject body now of
               Inl e \<Rightarrow> fail e
             | Inr (t, m) \<Rightarrow> db (repo_Create t m)))"

definition PlayerReply :: "int \<Rightarrow> int \<Rightarrow> string \<Rightarrow> unit ticketing" where
  "PlayerReply accountID ticketID body =
     andThen (db (ticket_Get ticketID)) (\<lambda>t.
       if tk_AccountID t \<noteq> accountID then fail (Tickets ErrNotTicketOwner)
       else andThen clock (\<lambda>now.
         case AppendPublic t accountID ActorPlayer body now of
           Inl e \<Rightarrow> fail e
         | Inr (_, m) \<Rightarrow> andThen (db (AppendPublicMessage ticketID m)) (\<lambda>_. ret ())))"

definition StaffReply :: "ticket_service \<Rightarrow> int \<Rightarrow> int \<Rightarrow> string \<Rightarrow> unit ticketing" where
  "StaffReply s staffID ticketID body =
     andThen (db (ticket_Get ticketID)) (\<lambda>t.
     andThen clock (\<lambda>now.
       case AppendPublic t staffID ActorStaff body now of
         Inl e \<Rightarrow> fail e
       | Inr (_, m) \<Rightarrow> andThen (db (AppendPublicMessage ticketID m)) (notifyStaffReply s)))"

definition StaffNote :: "int \<Rightarrow> int \<Rightarrow> string \<Rightarrow> unit ticketing" where
  "StaffNote staffID ticketID body =
     andThen (db (ticket_Get ticketID)) (\<lambda>t.
     andThen clock (\<lambda>now.
       case domain_AppendInternalNote t staffID body now of
         Inl e \<Rightarrow> fail e
       | Inr m \<Rightarrow> db (AppendInternalNote ticketID m)))"

definition StaffRecategorize :: "ticket_service \<Rightarrow> int \<Rightarrow> int \<Rightarrow> string \<Rightarrow> unit ticketing" where
  "StaffRecategorize s staffID ticketID newCategory =
     (if category_Get (ts_categories s) newCategory = None then fail (Tickets ErrUnknownCategory)
      else andThen (db (ticket_Get ticketID)) (\<lambda>t.
      andThen clock (\<lambda>now.
        case Recategorize t staffID newCategory now of
          Inl e \<Rightarrow> fail e
        | Inr (updated, m) \<Rightarrow> db (AppendSystemEvent ticketID updated m))))"

definition StaffEditSubject :: "int \<Rightarrow> int \<Rightarrow> string \<Rightarrow> unit ticketing" where
  "StaffEditSubject staffID ticketID newSubject =
     andThen (db (ticket_Get ticketID)) (\<lambda>t.
     andThen clock (\<lambda>now.
       case EditSubject t staffID newSubject now of
         Inl e \<Rightarrow> fail e
       | Inr (updated, m) \<Rightarrow> db (AppendSystemEvent ticketID updated m)))"

definition setTerminal :: "ticket_service \<Rightarrow> int \<Rightarrow> int \<Rightarrow> ticket_status \<Rightarrow> unit ticketing" where
  "setTerminal s staffID ticketID status =
     andThen (db (ticket_Get ticketID)) (\<lambda>t.
       if ticket_IsTerminal t then fail (Tickets ErrTicketTerminal)
       else andThen clock (\<lambda>now.
            andThen (db (SetTerminal ticketID status staffID now)) (\<lambda>(updated, _). notifyTerminal s updated)))"

definition StaffResolve :: "ticket_service \<Rightarrow> int \<Rightarrow> int \<Rightarrow> unit ticketing" where
  "StaffResolve s staffID ticketID = setTerminal s staffID ticketID StatusResolved"

definition StaffClose :: "ticket_service \<Rightarrow> int \<Rightarrow> int \<Rightarrow> unit ticketing" where
  "StaffClose s staffID ticketID = setTerminal s staffID ticketID StatusClosed"

record ticket_detail =
  td_OtherSeenAt :: "int option"
  td_Messages :: "message list"
  td_Ticket :: ticket

text \<open>An error that is logged and passed over.\<close>

definition best_effort :: "'a ticketing \<Rightarrow> 'a \<Rightarrow> 'a ticketing" where
  "best_effort m x = bindT m (\<lambda>r. case r of Inl _ \<Rightarrow> ret x | Inr y \<Rightarrow> ret y)"

definition GetTicketForPlayer :: "int \<Rightarrow> int \<Rightarrow> ticket_detail ticketing" where
  "GetTicketForPlayer accountID ticketID =
     andThen (db (ticket_Get ticketID)) (\<lambda>t.
       if tk_AccountID t \<noteq> accountID then fail (Tickets ErrNotTicketOwner)
       else andThen (db (message_List ticketID False)) (\<lambda>messages.
            andThen (best_effort (db (OtherSeenAt ticketID (tk_AccountID t) False)) None) (\<lambda>seen.
              ret \<lparr>td_OtherSeenAt = seen, td_Messages = messages, td_Ticket = t\<rparr>)))"

definition GetTicketForStaff :: "int \<Rightarrow> ticket_detail ticketing" where
  "GetTicketForStaff ticketID =
     andThen (db (ticket_Get ticketID)) (\<lambda>t.
     andThen (db (message_List ticketID True)) (\<lambda>messages.
     andThen (best_effort (db (OtherSeenAt ticketID (tk_AccountID t) True)) None) (\<lambda>seen.
       ret \<lparr>td_OtherSeenAt = seen, td_Messages = messages, td_Ticket = t\<rparr>)))"

record ticket_item =
  ti_ticket :: ticket
  ti_CategoryDisplay :: string
  ti_Unread :: bool

fun toListItems :: "ticket_service \<Rightarrow> int \<Rightarrow> ticket list \<Rightarrow> ticket_item list ticketing" where
  "toListItems s viewerID [] = ret []"
| "toListItems s viewerID (t # ts) =
     andThen (best_effort (db (view_Get viewerID (tk_ID t))) None) (\<lambda>lastViewed.
     andThen (toListItems s viewerID ts) (\<lambda>items.
       ret (\<lparr>ti_ticket = t, ti_CategoryDisplay = categoryDisplay s (tk_Category t), ti_Unread = IsUnreadFor t lastViewed\<rparr> # items)))"

definition service_ListForPlayer :: "ticket_service \<Rightarrow> int \<Rightarrow> int \<Rightarrow> int \<Rightarrow> (ticket_item list \<times> int) ticketing" where
  "service_ListForPlayer s accountID offset limit =
     andThen (db (repo_ListForPlayer accountID limit offset)) (\<lambda>(ts, total).
     andThen (toListItems s accountID ts) (\<lambda>items. ret (items, total)))"

definition service_ListForStaff ::
    "ticket_service \<Rightarrow> int \<Rightarrow> staff_tab \<Rightarrow> string list \<Rightarrow> int \<Rightarrow> int \<Rightarrow> (ticket_item list \<times> int) ticketing" where
  "service_ListForStaff s staffID tab categoryKeys offset limit =
     andThen (db (repo_ListForStaff tab categoryKeys limit offset)) (\<lambda>(ts, total).
     andThen (toListItems s staffID ts) (\<lambda>items. ret (items, total)))"

definition MarkViewed :: "int \<Rightarrow> int \<Rightarrow> unit ticketing" where
  "MarkViewed accountID ticketID = andThen clock (\<lambda>now. best_effort (db (view_Upsert accountID ticketID now)) ())"

definition service_UnreadCountForPlayer :: "int \<Rightarrow> int ticketing" where
  "service_UnreadCountForPlayer accountID = best_effort (db (repo_UnreadCountForPlayer accountID)) 0"

definition service_UnreadCountForStaff :: "int \<Rightarrow> string list \<Rightarrow> int ticketing" where
  "service_UnreadCountForStaff accountID categoryKeys = best_effort (db (repo_UnreadCountForStaff accountID categoryKeys)) 0"

end
