(* ===== verification/Ticket_Handlers.thy ===== *)
theory Ticket_Handlers
  imports Access_Control Ticket_Service
begin

text \<open>
  The handlers of \<open>tickets/transport\<close> and the routes they stand behind: who is asking, which role
  that is, what may be done with the ticket, and what is answered. Sessions, accounts and form
  decoding are outside: a request carries what the gate finds out about its visitor, its texts,
  and whether its form could be read.
\<close>

section \<open>handler.go\<close>

datatype who = Anonymous | Unknown_user | User int int

record ticket_handler =
  th_svc :: ticket_service
  th_manageRoles :: "string list"
  th_roles :: role_resolver
  th_registry :: registry

text \<open>What is answered: a redirection, an error status, or a page with what it shows.\<close>

datatype form_error = No_error | Form_error string | Field_error string ticket_error

datatype ticket_answer =
    Redirect_to string
  | Refused nat
  | New_form form_error
  | Player_list "ticket_item list" int int
  | Staff_list staff_tab "ticket_item list" int int
  | Player_detail ticket_detail
  | Player_reply ticket_detail
  | Staff_detail ticket_detail
  | Staff_thread ticket_detail

type_synonym ticket_task = "ticket_answer ticketing"

text \<open>The account and its role.\<close>

definition resolveUser :: "ticket_handler \<Rightarrow> who \<Rightarrow> (int \<Rightarrow> role \<Rightarrow> ticket_task) \<Rightarrow> ticket_task" where
  "resolveUser h w k =
     (case w of
        Anonymous \<Rightarrow> ret (Redirect_to ''/login'')
      | Unknown_user \<Rightarrow> ret (Refused 500)
      | User i groupID \<Rightarrow> k i (Resolve (th_roles h) groupID))"

definition categoryAllowed :: "ticket_handler \<Rightarrow> role \<Rightarrow> string \<Rightarrow> bool" where
  "categoryAllowed h r key = Permits (ts_categories (th_svc h)) key (ro_Name r) (r = RoleAdmin)"

definition isStaff :: "ticket_handler \<Rightarrow> role \<Rightarrow> bool" where
  "isStaff h r \<longleftrightarrow> r = RoleAdmin \<or> ro_Name r \<in> set (th_manageRoles h)"

definition with_id :: "string \<Rightarrow> (int \<Rightarrow> ticket_task) \<Rightarrow> ticket_task" where
  "with_id raw k = (case ParseInt raw of None \<Rightarrow> ret (Refused 404) | Some i \<Rightarrow> k i)"

definition page_number :: "string \<Rightarrow> int" where
  "page_number raw = (let page = Atoi_value raw in if page < 1 then 1 else page)"

definition page_offset :: "int \<Rightarrow> int" where
  "page_offset page = wrap64 (wrap64 (page - 1) * PageSize)"

section \<open>player_list.go, player_new.go, player_detail.go\<close>

definition playerList :: "ticket_handler \<Rightarrow> who \<Rightarrow> string \<Rightarrow> ticket_task" where
  "playerList h w rawPage = resolveUser h w (\<lambda>user _.
     let page = page_number rawPage
     in bindT (service_ListForPlayer (th_svc h) user (page_offset page) PageSize) (\<lambda>r.
          case r of Inl _ \<Rightarrow> ret (Refused 500) | Inr (items, n) \<Rightarrow> ret (Player_list items page n)))"

definition playerNewForm :: "ticket_handler \<Rightarrow> who \<Rightarrow> ticket_task" where
  "playerNewForm h w = resolveUser h w (\<lambda>_ _. ret (New_form No_error))"

definition create_error :: "ticket_failure \<Rightarrow> form_error" where
  "create_error e =
     (case e of
        ValidationError field err \<Rightarrow> Field_error field err
      | Tickets x \<Rightarrow> Form_error
          (if x = ErrTooManyOpenTickets then ''You have too many open tickets.''
           else if x = ErrTicketCooldown then ''Please wait before opening another ticket.''
           else if x = ErrUnknownCategory then ''Unknown category.'' else ''Something went wrong.'')
      | Tickets_store \<Rightarrow> Form_error ''Something went wrong.'')"

definition playerCreate :: "ticket_handler \<Rightarrow> who \<Rightarrow> bool \<Rightarrow> string \<Rightarrow> string \<Rightarrow> string \<Rightarrow> ticket_task" where
  "playerCreate h w formRead cat subject body = resolveUser h w (\<lambda>user _.
     if \<not> formRead then ret (New_form (Form_error ''Invalid form data.''))
     else bindT (OpenTicket (th_svc h) user cat subject body) (\<lambda>r.
       case r of
         Inl e \<Rightarrow> ret (New_form (create_error e))
       | Inr i \<Rightarrow> ret (Redirect_to (''/tickets/'' @ FormatInt i))))"

definition playerDetail :: "ticket_handler \<Rightarrow> who \<Rightarrow> string \<Rightarrow> ticket_task" where
  "playerDetail h w rawID = resolveUser h w (\<lambda>user _. with_id rawID (\<lambda>ticketID.
     bindT (GetTicketForPlayer user ticketID) (\<lambda>r.
       case r of
         Inl e \<Rightarrow> ret (Refused (if e = Tickets ErrTicketNotFound \<or> e = Tickets ErrNotTicketOwner then 404 else 500))
       | Inr detail \<Rightarrow> ret (Player_detail detail))))"

definition playerReply :: "ticket_handler \<Rightarrow> who \<Rightarrow> string \<Rightarrow> bool \<Rightarrow> string \<Rightarrow> ticket_task" where
  "playerReply h w rawID formRead body = resolveUser h w (\<lambda>user _. with_id rawID (\<lambda>ticketID.
     if \<not> formRead then ret (Refused 400)
     else bindT (PlayerReply user ticketID body) (\<lambda>r.
       case r of
         Inl e \<Rightarrow> ret (Refused
           (if e = Tickets ErrTicketNotFound \<or> e = Tickets ErrNotTicketOwner then 404
            else if e = Tickets ErrTicketTerminal \<or> e = Tickets ErrPlayerCannotReply then 409 else 500))
       | Inr _ \<Rightarrow> bindT (GetTicketForPlayer user ticketID) (\<lambda>d.
           case d of Inl _ \<Rightarrow> ret (Refused 500) | Inr detail \<Rightarrow> ret (Player_reply detail)))))"

section \<open>staff_list.go, staff_detail.go, staff_actions.go\<close>

definition parseTab :: "string \<Rightarrow> staff_tab" where
  "parseTab s = (if s = ''active'' then TabActive else if s = ''terminal'' then TabTerminal else TabOpenNoResponse)"

definition staffList :: "ticket_handler \<Rightarrow> who \<Rightarrow> string \<Rightarrow> string \<Rightarrow> ticket_task" where
  "staffList h w rawTab rawPage = resolveUser h w (\<lambda>user r.
     let allowed = AllowedForRole (ts_categories (th_svc h)) (ro_Name r) (r = RoleAdmin); tab = parseTab rawTab; page = page_number rawPage
     in bindT (service_ListForStaff (th_svc h) user tab allowed (page_offset page) PageSize) (\<lambda>x.
          case x of Inl _ \<Rightarrow> ret (Refused 500) | Inr (items, n) \<Rightarrow> ret (Staff_list tab items page n)))"

definition staffDetail :: "ticket_handler \<Rightarrow> who \<Rightarrow> string \<Rightarrow> ticket_task" where
  "staffDetail h w rawID = resolveUser h w (\<lambda>_ r. with_id rawID (\<lambda>ticketID.
     bindT (GetTicketForStaff ticketID) (\<lambda>x.
       case x of
         Inl e \<Rightarrow> ret (Refused (if e = Tickets ErrTicketNotFound then 404 else 500))
       | Inr detail \<Rightarrow>
           if \<not> categoryAllowed h r (tk_Category (td_Ticket detail)) then ret (Refused 404) else ret (Staff_detail detail))))"

definition assertCategoryAllowed :: "ticket_handler \<Rightarrow> role \<Rightarrow> int \<Rightarrow> ticket_task \<Rightarrow> ticket_task" where
  "assertCategoryAllowed h r ticketID k =
     bindT (GetTicketForStaff ticketID) (\<lambda>x.
       case x of
         Inl e \<Rightarrow> ret (Refused (if e = Tickets ErrTicketNotFound then 404 else 500))
       | Inr current \<Rightarrow> if \<not> categoryAllowed h r (tk_Category (td_Ticket current)) then ret (Refused 404) else k)"

definition respondActionError :: "ticket_failure \<Rightarrow> nat" where
  "respondActionError e =
     (case e of
        ValidationError _ _ \<Rightarrow> 400
      | Tickets x \<Rightarrow>
          if x = ErrTicketTerminal \<or> x = ErrSubjectUnchanged \<or> x = ErrCategoryUnchanged then 409
          else if x = ErrUnknownCategory then 400 else 500
      | Tickets_store \<Rightarrow> 500)"

definition respondStaffMutateSuccess :: "ticket_handler \<Rightarrow> role \<Rightarrow> int \<Rightarrow> ticket_task" where
  "respondStaffMutateSuccess h r ticketID =
     bindT (GetTicketForStaff ticketID) (\<lambda>x.
       case x of
         Inl _ \<Rightarrow> ret (Refused 500)
       | Inr refreshed \<Rightarrow>
           if \<not> categoryAllowed h r (tk_Category (td_Ticket refreshed)) then ret (Redirect_to ''/tickets'')
           else ret (Staff_thread refreshed))"

text \<open>Actions without a body (\<open>maxBytes\<close> of 0) read no form.\<close>

definition staffMutate :: "ticket_handler \<Rightarrow> who \<Rightarrow> string \<Rightarrow> bool \<Rightarrow> (int \<Rightarrow> int \<Rightarrow> unit ticketing) \<Rightarrow> ticket_task" where
  "staffMutate h w rawID formRead act = resolveUser h w (\<lambda>user r. with_id rawID (\<lambda>ticketID.
     if \<not> formRead then ret (Refused 400)
     else assertCategoryAllowed h r ticketID
       (bindT (act ticketID user) (\<lambda>x.
          case x of
            Inl e \<Rightarrow> ret (Refused (respondActionError e))
          | Inr _ \<Rightarrow> respondStaffMutateSuccess h r ticketID))))"

definition staffReply :: "ticket_handler \<Rightarrow> who \<Rightarrow> string \<Rightarrow> bool \<Rightarrow> string \<Rightarrow> ticket_task" where
  "staffReply h w rawID formRead body = staffMutate h w rawID formRead (\<lambda>ticketID staffID. StaffReply (th_svc h) staffID ticketID body)"

definition staffNote :: "ticket_handler \<Rightarrow> who \<Rightarrow> string \<Rightarrow> bool \<Rightarrow> string \<Rightarrow> ticket_task" where
  "staffNote h w rawID formRead body = staffMutate h w rawID formRead (\<lambda>ticketID staffID. StaffNote staffID ticketID body)"

definition staffResolve :: "ticket_handler \<Rightarrow> who \<Rightarrow> string \<Rightarrow> ticket_task" where
  "staffResolve h w rawID = staffMutate h w rawID True (\<lambda>ticketID staffID. StaffResolve (th_svc h) staffID ticketID)"

definition staffClose :: "ticket_handler \<Rightarrow> who \<Rightarrow> string \<Rightarrow> ticket_task" where
  "staffClose h w rawID = staffMutate h w rawID True (\<lambda>ticketID staffID. StaffClose (th_svc h) staffID ticketID)"

definition staffRecategorize :: "ticket_handler \<Rightarrow> who \<Rightarrow> string \<Rightarrow> bool \<Rightarrow> string \<Rightarrow> ticket_task" where
  "staffRecategorize h w rawID formRead cat =
     staffMutate h w rawID formRead (\<lambda>ticketID staffID. StaffRecategorize (th_svc h) staffID ticketID cat)"

definition staffEditSubject :: "ticket_handler \<Rightarrow> who \<Rightarrow> string \<Rightarrow> bool \<Rightarrow> string \<Rightarrow> ticket_task" where
  "staffEditSubject h w rawID formRead subject =
     staffMutate h w rawID formRead (\<lambda>ticketID staffID. StaffEditSubject staffID ticketID subject)"

section \<open>The routes\<close>

text \<open>By role, a request on a shared route goes to the staff's or to the player's handler.\<close>

definition by_role :: "ticket_handler \<Rightarrow> who \<Rightarrow> ticket_task \<Rightarrow> ticket_task \<Rightarrow> ticket_task" where
  "by_role h w staff player = resolveUser h w (\<lambda>_ r. if isStaff h r then staff else player)"

definition tickets_list :: "ticket_handler \<Rightarrow> who \<Rightarrow> string \<Rightarrow> string \<Rightarrow> ticket_task" where
  "tickets_list h w tab page = by_role h w (staffList h w tab page) (playerList h w page)"

definition tickets_newForm :: "ticket_handler \<Rightarrow> who \<Rightarrow> ticket_task" where
  "tickets_newForm h w = by_role h w (ret (Redirect_to ''/tickets'')) (playerNewForm h w)"

definition tickets_create :: "ticket_handler \<Rightarrow> who \<Rightarrow> bool \<Rightarrow> string \<Rightarrow> string \<Rightarrow> string \<Rightarrow> ticket_task" where
  "tickets_create h w formRead cat subject body = by_role h w (ret (Redirect_to ''/tickets'')) (playerCreate h w formRead cat subject body)"

definition tickets_detail :: "ticket_handler \<Rightarrow> who \<Rightarrow> string \<Rightarrow> ticket_task" where
  "tickets_detail h w rawID = by_role h w (staffDetail h w rawID) (playerDetail h w rawID)"

definition tickets_reply :: "ticket_handler \<Rightarrow> who \<Rightarrow> string \<Rightarrow> bool \<Rightarrow> string \<Rightarrow> ticket_task" where
  "tickets_reply h w rawID formRead body = by_role h w (staffReply h w rawID formRead body) (playerReply h w rawID formRead body)"

text \<open>
  What the gate of a route finds out about a visitor (\<open>requireRoleCore\<close>): no cookie, a session or
  an account it cannot get, or an account with its group and tier. One it lets through is known
  to the handler, who reads account and group from the gate's snapshot.
\<close>

datatype visitor = No_cookie | No_session account_failure | No_account account_failure | Visitor int int tier

definition gate_refuses :: "role_resolver \<Rightarrow> bool \<Rightarrow> auth_policy \<Rightarrow> role list \<Rightarrow> visitor \<Rightarrow> turned_away option" where
  "gate_refuses resolver hidden policy allowed v =
     (case v of
        No_cookie \<Rightarrow> Some (rejectUnauthenticated hidden)
      | No_session e \<Rightarrow> Some (snd (handleSessionError hidden e))
      | No_account e \<Rightarrow> Some (if e = Account ErrUserNotFound then rejectRedirect hidden ''/login?notice=deleted'' else Status 500)
      | Visitor i groupID t \<Rightarrow>
          if t = TierPermaBanned then Some (rejectRedirect hidden ''/login?notice=banned'')
          else if t = TierUnverified \<and> ap_RequireVerified policy then Some (rejectRedirect hidden ''/verify-account'')
          else if t = TierTempBanned \<and> \<not> ap_AllowTempBannedLogin policy then Some (rejectRedirect hidden ''/login?notice=banned'')
          else if t = TierTempBanned \<and> ap_Unrestricted policy then Some (rejectRedirect hidden ''/account?notice=ban_blocked'')
          else if \<not> roleAllowed (Resolve resolver groupID) allowed then Some (rejectForbidden hidden)
          else None)"

primrec turned_answer :: "turned_away \<Rightarrow> ticket_answer" where
  "turned_answer (To url) = Redirect_to url"
| "turned_answer Hidden_404 = Refused 404"
| "turned_answer (Status n) = Refused n"

primrec as_who :: "visitor \<Rightarrow> who" where
  "as_who No_cookie = Anonymous"
| "as_who (No_session e) = Anonymous"
| "as_who (No_account e) = Anonymous"
| "as_who (Visitor i groupID t) = User i groupID"

text \<open>
  \<open>reg.Wrap\<close>: a handler behind the gate of its tag. A route that does not mount is not there; one
  that is open, or open to programs with a key, puts no session into the request.
\<close>

definition behind :: "ticket_handler \<Rightarrow> string \<Rightarrow> visitor \<Rightarrow> (who \<Rightarrow> ticket_task) \<Rightarrow> ticket_task" where
  "behind h tag v k =
     (case registry_wrap (th_registry h) tag False of
        None \<Rightarrow> ret (Refused 404)
      | Some m \<Rightarrow>
          (case m of
             Open_to_all \<Rightarrow> k Anonymous
           | Behind_api_key \<Rightarrow> k Anonymous
           | Behind_roles hidden policy allowed \<Rightarrow>
               (case gate_refuses (rg_resolver (th_registry h)) hidden policy allowed v of
                  Some t \<Rightarrow> ret (turned_answer t)
                | None \<Rightarrow> k (as_who v))))"

text \<open>
  Requests to the panel. The mark that a shown ticket has been viewed runs beside the answer: it
  arrives as a request of its own.
\<close>

datatype ticket_request =
    List_tickets visitor string string
  | New_ticket_form visitor
  | Create_ticket visitor bool string string string
  | Show_ticket visitor string
  | Reply_ticket visitor string bool string
  | Note_ticket visitor string bool string
  | Resolve_ticket visitor string
  | Close_ticket visitor string
  | Set_category visitor string bool string
  | Set_subject visitor string bool string
  | Viewed int int

primrec handle_ticket :: "ticket_handler \<Rightarrow> ticket_request \<Rightarrow> ticket_task" where
  "handle_ticket h (List_tickets v tab page) = behind h ''Tickets.View'' v (\<lambda>w. tickets_list h w tab page)"
| "handle_ticket h (New_ticket_form v) = behind h ''Tickets.Open'' v (\<lambda>w. tickets_newForm h w)"
| "handle_ticket h (Create_ticket v f c s b) = behind h ''Tickets.Open'' v (\<lambda>w. tickets_create h w f c s b)"
| "handle_ticket h (Show_ticket v i) = behind h ''Tickets.View'' v (\<lambda>w. tickets_detail h w i)"
| "handle_ticket h (Reply_ticket v i f b) = behind h ''Tickets.Reply'' v (\<lambda>w. tickets_reply h w i f b)"
| "handle_ticket h (Note_ticket v i f b) = behind h ''Tickets.Manage'' v (\<lambda>w. staffNote h w i f b)"
| "handle_ticket h (Resolve_ticket v i) = behind h ''Tickets.Manage'' v (\<lambda>w. staffResolve h w i)"
| "handle_ticket h (Close_ticket v i) = behind h ''Tickets.Manage'' v (\<lambda>w. staffClose h w i)"
| "handle_ticket h (Set_category v i f c) = behind h ''Tickets.Manage'' v (\<lambda>w. staffRecategorize h w i f c)"
| "handle_ticket h (Set_subject v i f s) = behind h ''Tickets.Manage'' v (\<lambda>w. staffEditSubject h w i f s)"
| "handle_ticket h (Viewed a i) = bindT (MarkViewed a i) (\<lambda>_. ret (Refused 200))"

definition run_tickets :: "ticket_handler \<Rightarrow> ticket_request move list \<Rightarrow> desk \<Rightarrow> desk \<times> ticket_task list" where
  "run_tickets h xs s = run_panel elapse (handle_ticket h) xs (s, [])"

end
