(* ===== verification/Ticket_Safety.thy ===== *)
theory Ticket_Safety
  imports Ticket_Handlers
begin

text \<open>
  What the ticket requests keep true of the threads while they run beside each other, and what
  their answers may show.
\<close>

section \<open>Threads\<close>

definition public_count :: "message list \<Rightarrow> int \<Rightarrow> int" where
  "public_count ms i = int (length (filter (\<lambda>m. ms_TicketID m = i \<and> ms_Visibility m = VisibilityPublic) ms))"

text \<open>
  Every message belongs to a ticket, a player's to a ticket of his; a ticket counts its public
  messages.
\<close>

definition threads_ok :: "ticketdb \<Rightarrow> bool" where
  "threads_ok d \<longleftrightarrow> uniq tk_ID (cp_tickets d) \<and> (\<forall>t \<in> set (cp_tickets d). tk_ID t \<le> ticket_seq d) \<and>
     (\<forall>m \<in> set (cp_ticket_messages d). \<exists>t \<in> set (cp_tickets d). tk_ID t = ms_TicketID m \<and>
        (ms_AuthorRole m = ActorPlayer \<longrightarrow> ms_AuthorID m = tk_AccountID t \<and> ms_Visibility m = VisibilityPublic)) \<and>
     (\<forall>t \<in> set (cp_tickets d). tk_MessageCount t = public_count (cp_ticket_messages d) (tk_ID t))"

text \<open>The same ticket later: it keeps its owner, and does not reopen.\<close>

definition same_ticket :: "ticket \<Rightarrow> ticket \<Rightarrow> bool" where
  "same_ticket t t' \<longleftrightarrow> tk_ID t' = tk_ID t \<and> tk_AccountID t' = tk_AccountID t \<and> tk_CreatedAt t' = tk_CreatedAt t \<and>
     tk_AuthorUsername t' = tk_AuthorUsername t \<and> (ticket_IsTerminal t \<longrightarrow> ticket_IsTerminal t')"

definition threads_go :: "ticketdb \<Rightarrow> ticketdb \<Rightarrow> bool" where
  "threads_go d d' \<longleftrightarrow> (\<forall>t \<in> set (cp_tickets d). \<exists>t' \<in> set (cp_tickets d'). same_ticket t t') \<and>
     (\<exists>ms. cp_ticket_messages d' = cp_ticket_messages d @ ms)"

lemma same_ticket_refl [simp]: "same_ticket t t"
  by (simp add: same_ticket_def)

lemma same_ticket_trans: "same_ticket a b \<Longrightarrow> same_ticket b c \<Longrightarrow> same_ticket a c"
  by (simp add: same_ticket_def)

lemma threads_go_refl [simp]: "threads_go d d"
  unfolding threads_go_def by (metis append_Nil2 same_ticket_refl)

lemma threads_go_trans:
  assumes "threads_go a b" and "threads_go b c"
  shows "threads_go a c"
  unfolding threads_go_def
proof (intro conjI ballI)
  fix t assume "t \<in> set (cp_tickets a)"
  with assms(1) obtain t' where t': "t' \<in> set (cp_tickets b)" "same_ticket t t'" by (auto simp: threads_go_def)
  with assms(2) obtain t'' where "t'' \<in> set (cp_tickets c)" "same_ticket t' t''" by (auto simp: threads_go_def)
  with t'(2) same_ticket_trans show "\<exists>t' \<in> set (cp_tickets c). same_ticket t t'" by blast
qed (use assms in \<open>auto simp: threads_go_def\<close>)

interpretation desk: rely_guarantee "\<lambda>s :: desk. threads_ok (dk_db s)" "\<lambda>s s'. threads_go (dk_db s) (dk_db s')" "\<lambda>s s'. threads_go (dk_db s) (dk_db s')"
  by unfold_locales (auto intro: threads_go_trans)

section \<open>The repository\<close>

text \<open>\<open>goes m P\<close>: where \<open>P\<close> holds at its start, \<open>m\<close> keeps the threads right and its change is allowed.\<close>

definition goes :: "(ticketdb \<Rightarrow> bool) \<Rightarrow> 'a ticket_prog \<Rightarrow> bool" where
  "goes P m \<longleftrightarrow> (\<forall>s r c. threads_ok (data s) \<longrightarrow> P (data s) \<longrightarrow> m s = (r, c) \<longrightarrow>
     threads_ok (data c) \<and> threads_go (data s) (data c))"

lemma goesD: "goes P m \<Longrightarrow> m s = (r, c) \<Longrightarrow> threads_ok (data s) \<Longrightarrow> P (data s) \<Longrightarrow> threads_ok (data c) \<and> threads_go (data s) (data c)"
  by (simp add: goes_def)

lemma rb_threads [simp]:
  "threads_ok d \<Longrightarrow> ticket_grows d e \<Longrightarrow> threads_ok (ticket_rb d e)" "threads_go d (ticket_rb d e)"
  by (force simp: threads_ok_def ticket_rb_def ticket_grows_def) (simp add: threads_go_def ticket_rb_def, metis same_ticket_refl)

text \<open>A transaction goes where its committed body goes.\<close>

lemma goes_tx:
  assumes "steps ticket_grows m"
    and "\<And>u x v. threads_ok (data u) \<Longrightarrow> P (data u) \<Longrightarrow> m u = (Inr x, v) \<Longrightarrow> threads_ok (data v) \<and> threads_go (data u) (data v)"
  shows "goes P (ticketTx m)"
  unfolding goes_def ticketTx_def
proof (intro allI impI)
  fix s r c assume s: "threads_ok (data s)" "P (data s)" and run: "transaction ticket_rb Tickets_store m s = (r, c)"
  from assms(1) run show "threads_ok (data c) \<and> threads_go (data s) (data c)"
  proof (cases rule: tickets.tx_outcome)
    case (undone d e)
    with s show ?thesis by simp
  next
    case (committed u x v)
    with assms(2) [of u x v] s show ?thesis by simp
  qed
qed

lemma goes_look: "(\<And>s. data (snd (m s)) = data s) \<Longrightarrow> goes P m"
  unfolding goes_def by (metis snd_conv threads_go_refl)

text \<open>A program that changes nothing.\<close>

definition reads :: "('d conn, 'e, 'a) prog \<Rightarrow> bool" where "reads m \<longleftrightarrow> (\<forall>s. data (snd (m s)) = data s)"

lemma goes_reads: "reads m \<Longrightarrow> goes P m"
  by (simp add: goes_look reads_def)

lemma reads_query [simp]: "reads (query e f)" "reads (retE x)" "reads (failE e)"
  by (simp_all add: reads_def retE_def failE_def)

lemma reads_bind [intro]: "reads m \<Longrightarrow> (\<And>x. reads (f x)) \<Longrightarrow> reads (bindE m f)"
  by (auto simp: reads_def bindE_def split: prod.split sum.split) (metis snd_conv)+

lemma reads_row [simp]: "reads (query_row e n f)"
  unfolding query_row_def by (rule reads_bind) (auto split: option.split)

lemma reads_page [simp]: "reads (ticket_page l off f)"
  unfolding reads_def ticket_page_def by (auto simp: sql_def split: fault.split)

lemma repo_reads [simp]:
  "reads (ticket_Get i)" "reads (repo_ListForPlayer a l off)" "reads (repo_ListForStaff tab cs l off)" "reads (CountOpenForPlayer a)"
  "reads (MostRecentOpenedAt a)" "reads (message_List i b)" "reads (view_Get a i)" "reads (OtherSeenAt i a b)"
  "reads (repo_UnreadCountForPlayer a)" "reads (repo_UnreadCountForStaff a cs)"
  unfolding ticket_Get_def repo_ListForPlayer_def repo_ListForStaff_def CountOpenForPlayer_def MostRecentOpenedAt_def message_List_def
    view_Get_def OtherSeenAt_def repo_UnreadCountForPlayer_def repo_UnreadCountForStaff_def Let_def
  by (auto intro!: reads_bind)
text \<open>A message is added and its ticket brought up to date.\<close>

lemma threads_append:
  assumes ok: "threads_ok d" and t: "t \<in> set (cp_tickets d)" "tk_ID t = i"
    and d': "cp_tickets d' = upd_where (\<lambda>t. tk_ID t = i) f (cp_tickets d)" "cp_ticket_messages d' = cp_ticket_messages d @ [m]"
      "ticket_seq d' = ticket_seq d"
    and m: "ms_TicketID m = i" "ms_AuthorRole m = ActorPlayer \<Longrightarrow> ms_AuthorID m = tk_AccountID t \<and> ms_Visibility m = VisibilityPublic"
    and f: "\<And>t. same_ticket t (f t)"
      "\<And>t. tk_MessageCount (f t) = tk_MessageCount t + (if ms_Visibility m = VisibilityPublic then 1 else 0)"
  shows "threads_ok d' \<and> threads_go d d'"
proof
  define g where "g t = (if tk_ID t = i then f t else t)" for t
  have f': "same_ticket t (g t)" for t using f(1) by (simp add: g_def)
  have ts: "cp_tickets d' = map g (cp_tickets d)" by (simp add: d' upd_where_def g_def)
  have ids: "tk_ID (g t) = tk_ID t" "tk_AccountID (g t) = tk_AccountID t" for t
    using f' [of t] by (simp_all add: same_ticket_def)
  have "uniq tk_ID (cp_tickets d')" using ok ids by (simp add: threads_ok_def uniq_def ts o_def)
  moreover have "\<forall>t \<in> set (cp_tickets d'). tk_ID t \<le> ticket_seq d'" using ok ids by (auto simp: threads_ok_def ts d'(3))
  moreover have "\<exists>t \<in> set (cp_tickets d'). tk_ID t = ms_TicketID x \<and>
      (ms_AuthorRole x = ActorPlayer \<longrightarrow> ms_AuthorID x = tk_AccountID t \<and> ms_Visibility x = VisibilityPublic)"
    if "x \<in> set (cp_ticket_messages d')" for x
  proof -
    from that ok t m d' obtain q where q: "q \<in> set (cp_tickets d)" "tk_ID q = ms_TicketID x"
      "ms_AuthorRole x = ActorPlayer \<longrightarrow> ms_AuthorID x = tk_AccountID q \<and> ms_Visibility x = VisibilityPublic"
      by (auto simp: threads_ok_def)
    from q(1) have "g q \<in> set (cp_tickets d')" by (simp add: ts)
    with q(2,3) ids [of q] show ?thesis by (intro bexI [of _ "g q"]) simp_all
  qed
  moreover have "tk_MessageCount x = public_count (cp_ticket_messages d') (tk_ID x)" if "x \<in> set (cp_tickets d')" for x
  proof -
    from that obtain q where q: "q \<in> set (cp_tickets d)" "x = g q" by (auto simp: ts)
    with ok have "tk_MessageCount q = public_count (cp_ticket_messages d) (tk_ID q)" by (simp add: threads_ok_def)
    with q(2) ids(1) [of q] f(2) [of q] m(1) d'(2) show ?thesis by (auto simp: public_count_def g_def)
  qed
  ultimately show "threads_ok d'" by (auto simp: threads_ok_def)
  show "threads_go d d'"
    unfolding threads_go_def using d'(2) f' by (auto simp: ts intro!: bexI)
qed

lemma insert_message_effect:
  "insert_message i m d = Some (k, d') \<Longrightarrow>
     (\<exists>t \<in> set (cp_tickets d). tk_ID t = i) \<and> cp_tickets d' = cp_tickets d \<and> ticket_seq d' = ticket_seq d \<and>
     cp_ticket_messages d' = cp_ticket_messages d @ [m\<lparr>ms_ID := k, ms_TicketID := i\<rparr>]"
  by (auto simp: insert_message_def Let_def ins_checked_Some has_ticket_def list_ex_iff split: if_splits)

lemma update_ticket_effect:
  "update_ticket i f d = Some (row, d') \<Longrightarrow>
     cp_tickets d' = upd_where (\<lambda>t. tk_ID t = i) f (cp_tickets d) \<and> cp_ticket_messages d' = cp_ticket_messages d \<and>
     ticket_seq d' = ticket_seq d \<and> row = find (\<lambda>t. tk_ID t = i) (cp_tickets d')"
  by (auto simp: update_ticket_def upd_checked_Some)

lemma threads_note:
  assumes "threads_ok d" and "insert_message i m d = Some (k, d')" and "ms_AuthorRole m = ActorStaff" and "ms_Visibility m \<noteq> VisibilityPublic"
  shows "threads_ok d' \<and> threads_go d d'"
proof -
  from insert_message_effect [OF assms(2)] obtain t where t: "t \<in> set (cp_tickets d)" "tk_ID t = i" by blast
  have "upd_where (\<lambda>t. tk_ID t = i) (\<lambda>t. t) (cp_tickets d) = cp_tickets d" by (simp add: upd_where_def)
  with insert_message_effect [OF assms(2)] assms(3,4) show ?thesis
    by (intro threads_append [OF assms(1) t, where f = "\<lambda>t. t" and m = "m\<lparr>ms_ID := k, ms_TicketID := i\<rparr>"]) auto
qed

text \<open>A message and an update of its ticket, in one transaction.\<close>

lemma message_and_update:
  assumes "threads_ok (data u)" and "sql Tickets_store (insert_message i m) u = (Inr k, v)"
    and "sql Tickets_store (update_ticket i f) v = (Inr row, w)"
    and "ms_AuthorRole m = ActorPlayer \<Longrightarrow> \<exists>t \<in> set (cp_tickets (data u)). tk_ID t = i \<and> ms_AuthorID m = tk_AccountID t \<and> ms_Visibility m = VisibilityPublic"
    and f: "\<And>t. same_ticket t (f t)" "\<And>t. tk_MessageCount (f t) = tk_MessageCount t + (if ms_Visibility m = VisibilityPublic then 1 else 0)"
  shows "threads_ok (data w) \<and> threads_go (data u) (data w)"
proof -
  note i = insert_message_effect [OF sql_effect [OF assms(2)]] and up = update_ticket_effect [OF sql_effect [OF assms(3)]]
  from i assms(4) obtain t where t: "t \<in> set (cp_tickets (data u))" "tk_ID t = i"
    "ms_AuthorRole m = ActorPlayer \<Longrightarrow> ms_AuthorID m = tk_AccountID t \<and> ms_Visibility m = VisibilityPublic"
    by (cases "ms_AuthorRole m") auto
  from i up t(3) f show ?thesis
    by (intro threads_append [OF assms(1) t(1,2), where f = f and m = "m\<lparr>ms_ID := k, ms_TicketID := i\<rparr>"]) auto
qed

lemma insert_grows [intro]: "steps ticket_grows (sql Tickets_store (insert_message i m))" "steps ticket_grows (sql Tickets_store (insert_ticket t))"
  "steps ticket_grows (sql Tickets_store (update_ticket i f))" "steps ticket_grows (returning row)"
  by (auto simp: insert_message_def insert_ticket_def update_ticket_def ticket_grows_def Let_def returning_def
      intro!: tickets.grows_sql split: if_splits option.split)

lemma goes_public:
  assumes "ms_AuthorRole m = ActorPlayer \<Longrightarrow> \<forall>d. P d \<longrightarrow> (\<exists>t \<in> set (cp_tickets d). tk_ID t = i \<and> ms_AuthorID m = tk_AccountID t)"
  shows "goes P (AppendPublicMessage i m)"
  unfolding AppendPublicMessage_def
proof (rule goes_tx)
  fix u x v
  let ?f = "\<lambda>t. t\<lparr>tk_LastActor := ms_AuthorRole m, tk_MessageCount := tk_MessageCount t + 1, tk_LastActivity := ms_CreatedAt m\<rparr>"
  assume u: "threads_ok (data u)" "P (data u)"
    and "bindE (sql Tickets_store (insert_message i (m\<lparr>ms_Visibility := VisibilityPublic, ms_Event := None\<rparr>))) (\<lambda>_.
      bindE (sql Tickets_store (update_ticket i ?f)) returning) u = (Inr x, v)"
  then obtain k w row w' where s: "sql Tickets_store (insert_message i (m\<lparr>ms_Visibility := VisibilityPublic, ms_Event := None\<rparr>)) u = (Inr k, w)"
    "sql Tickets_store (update_ticket i ?f) w = (Inr row, w')" "data v = data w'"
    by (auto simp: bindE_Inr returning_def retE_def failE_def split: option.splits)
  have "same_ticket t (?f t)" for t by (simp add: same_ticket_def ticket_IsTerminal_def)
  with message_and_update [OF u(1) s(1,2)] assms u(2) s(3)
  show "threads_ok (data v) \<and> threads_go (data u) (data v)" by auto
qed (auto intro!: tickets.grows_bind)

lemma goes_event: "goes P (AppendSystemEvent i up m)"
  unfolding AppendSystemEvent_def
proof (rule goes_tx)
  fix u x v
  let ?f = "\<lambda>t. t\<lparr>tk_Category := tk_Category up, tk_Subject := tk_Subject up, tk_LastActivity := tk_LastActivity up\<rparr>"
  assume u: "threads_ok (data u)" "P (data u)"
    and "bindE (sql Tickets_store (insert_message i (m\<lparr>ms_AuthorRole := ActorStaff, ms_Visibility := VisibilitySystem\<rparr>))) (\<lambda>_.
      bindE (sql Tickets_store (update_ticket i ?f)) (\<lambda>_. retE ())) u = (Inr x, v)"
  then obtain k w row w' where s: "sql Tickets_store (insert_message i (m\<lparr>ms_AuthorRole := ActorStaff, ms_Visibility := VisibilitySystem\<rparr>)) u = (Inr k, w)"
    "sql Tickets_store (update_ticket i ?f) w = (Inr row, w')" "data v = data w'" by (auto simp: bindE_Inr retE_def)
  have "same_ticket t (?f t)" for t by (simp add: same_ticket_def ticket_IsTerminal_def)
  with message_and_update [OF u(1) s(1,2)] s(3)
  show "threads_ok (data v) \<and> threads_go (data u) (data v)" by auto
qed (auto intro!: tickets.grows_bind)

lemma goes_terminal: "st \<noteq> StatusOpen \<Longrightarrow> goes P (SetTerminal i st staff now)"
  unfolding SetTerminal_def Let_def split_def
proof (rule goes_tx)
  fix u x v
  let ?e = "if st = StatusClosed then (''close'', ''Ticket closed'') else (''resolve'', ''Ticket resolved'')"
  let ?f = "\<lambda>t. t\<lparr>tk_Status := st, tk_ClosedBy := Some staff, tk_LastActivity := now\<rparr>"
  let ?m = "\<lparr>ms_CreatedAt = now, ms_Body = snd ?e, ms_AuthorRole = ActorStaff, ms_Visibility = VisibilitySystem,
     ms_Event = Some (Ended_with (fst ?e)), ms_ID = 0, ms_TicketID = i, ms_AuthorID = staff\<rparr>"
  assume st: "st \<noteq> StatusOpen" and u: "threads_ok (data u)" "P (data u)"
    and "bindE (sql Tickets_store (insert_message i ?m)) (\<lambda>k. bindE (sql Tickets_store (update_ticket i ?f)) (\<lambda>row.
      bindE (returning row) (\<lambda>up. retE (up, ?m\<lparr>ms_ID := k\<rparr>)))) u = (Inr x, v)"
  then obtain k w row w' where s: "sql Tickets_store (insert_message i ?m) u = (Inr k, w)"
    "sql Tickets_store (update_ticket i ?f) w = (Inr row, w')" "data v = data w'"
    by (auto simp: bindE_Inr returning_def retE_def failE_def split: option.splits)
  have "same_ticket t (?f t)" for t using st by (cases st) (auto simp: same_ticket_def ticket_IsTerminal_def)
  with message_and_update [OF u(1) s(1,2)] s(3)
  show "threads_ok (data v) \<and> threads_go (data u) (data v)" by auto
qed (auto intro!: tickets.grows_bind)
lemma goes_note: "ms_AuthorRole m = ActorStaff \<Longrightarrow> goes P (AppendInternalNote i m)"
  unfolding goes_def AppendInternalNote_def
proof (intro allI impI)
  fix s r c
  let ?i = "insert_message i (m\<lparr>ms_AuthorRole := ActorStaff, ms_Visibility := VisibilityInternal, ms_Event := None\<rparr>)"
  assume s: "threads_ok (data s)" and run: "bindE (sql Tickets_store ?i) (\<lambda>_. retE ()) s = (r, c)"
  from run have "data c = data (snd (sql Tickets_store ?i s))"
    by (auto simp: bindE_def retE_def split: prod.splits sum.splits)
  with sql_data [of Tickets_store ?i s] have "data c = data s \<or> (\<exists>k. ?i (data s) = Some (k, data c))" by auto
  then show "threads_ok (data c) \<and> threads_go (data s) (data c)" using s threads_note [OF s] by auto
qed

lemma goes_upsert: "goes P (view_Upsert a i now)"
  unfolding goes_def view_Upsert_def exec_opt_def
proof (intro allI impI)
  fix s r c
  let ?u = "\<lambda>d. map_option (Pair ()) (if \<not> has_ticket i d then None else Some (d\<lparr>cp_ticket_views :=
       (if view_at a i d = None then cp_ticket_views d @ [\<lparr>vw_account_id = a, vw_ticket_id = i, vw_last_viewed = now\<rparr>]
        else upd_where (\<lambda>v. vw_account_id v = a \<and> vw_ticket_id v = i)
               (\<lambda>v. v\<lparr>vw_last_viewed := max (vw_last_viewed v) now\<rparr>) (cp_ticket_views d))\<rparr>))"
  assume s: "threads_ok (data s)" and run: "sql Tickets_store ?u s = (r, c)"
  then have "data s = data c \<or> (\<exists>v. (data s)\<lparr>cp_ticket_views := v\<rparr> = data c)"
    using sql_data [of Tickets_store ?u s] by (auto split: if_splits)
  moreover have "threads_ok (d\<lparr>cp_ticket_views := v\<rparr>) = threads_ok d" for d v by (simp add: threads_ok_def)
  moreover have "threads_go d (d\<lparr>cp_ticket_views := v\<rparr>)" for d v by (simp add: threads_go_def) (metis same_ticket_refl)
  ultimately show "threads_ok (data c) \<and> threads_go (data s) (data c)" using s by (elim disjE exE) (simp, metis)
qed

lemma insert_ticket_effect:
  "insert_ticket t d = Some (i, d') \<Longrightarrow>
     i = ticket_seq d + 1 \<and> cp_tickets d' = cp_tickets d @ [t\<lparr>tk_ID := i, tk_MessageCount := 1, tk_ClosedBy := None\<rparr>] \<and>
     ticket_seq d' = i \<and> cp_ticket_messages d' = cp_ticket_messages d"
  by (auto simp: insert_ticket_def Let_def ins_checked_Some)

lemma goes_create:
  assumes "ms_AuthorRole m = ActorPlayer" and "ms_AuthorID m = tk_AccountID t" and "ms_Visibility m = VisibilityPublic"
  shows "goes P (repo_Create t m)"
  unfolding repo_Create_def
proof (rule goes_tx)
  fix u v :: "ticketdb conn" and x
  assume u: "threads_ok (data u)"
    and "bindE (sql Tickets_store (insert_ticket t)) (\<lambda>i. bindE (sql Tickets_store (insert_message i m)) (\<lambda>_. retE i)) u = (Inr x, v)"
  then obtain w k where s: "sql Tickets_store (insert_ticket t) u = (Inr x, w)" "sql Tickets_store (insert_message x m) w = (Inr k, v)"
    by (auto simp: bindE_Inr retE_def)
  let ?t = "t\<lparr>tk_ID := x, tk_MessageCount := 1, tk_ClosedBy := None\<rparr>" and ?m = "m\<lparr>ms_ID := k, ms_TicketID := x\<rparr>"
  note t = insert_ticket_effect [OF sql_effect [OF s(1)]]
  note m = insert_message_effect [OF sql_effect [OF s(2)]]
  have T: "cp_tickets (data v) = cp_tickets (data u) @ [?t]" and M: "cp_ticket_messages (data v) = cp_ticket_messages (data u) @ [?m]"
    and S: "ticket_seq (data v) = x" using m t by simp_all
  have fresh: "tk_ID q < x" if "q \<in> set (cp_tickets (data u))" for q using that u t by (auto simp: threads_ok_def)
  have old: "ms_TicketID y < x" if "y \<in> set (cp_ticket_messages (data u))" for y
    using that u fresh by (fastforce simp: threads_ok_def)
  then have none: "filter (\<lambda>y. ms_TicketID y = x \<and> ms_Visibility y = VisibilityPublic) (cp_ticket_messages (data u)) = []"
    by (auto simp: filter_empty_conv)
  have "uniq tk_ID (cp_tickets (data v))" using u fresh by (fastforce simp: T threads_ok_def)
  moreover have "\<forall>q \<in> set (cp_tickets (data v)). tk_ID q \<le> ticket_seq (data v)" using fresh by (auto simp: T S intro: less_imp_le)
  moreover have "\<exists>q \<in> set (cp_tickets (data v)). tk_ID q = ms_TicketID y \<and>
      (ms_AuthorRole y = ActorPlayer \<longrightarrow> ms_AuthorID y = tk_AccountID q \<and> ms_Visibility y = VisibilityPublic)"
    if "y \<in> set (cp_ticket_messages (data v))" for y
    using that u assms by (auto simp: T M threads_ok_def)
  moreover have "tk_MessageCount q = public_count (cp_ticket_messages (data v)) (tk_ID q)" if "q \<in> set (cp_tickets (data v))" for q
    using that u fresh [of q] none assms(3) by (auto simp: T M threads_ok_def public_count_def)
  ultimately show "threads_ok (data v) \<and> threads_go (data u) (data v)"
    unfolding threads_ok_def threads_go_def T M by (auto intro: same_ticket_refl)
qed (auto intro!: tickets.grows_bind)

section \<open>The tasks\<close>

lemma safe_db_bind:
  fixes s :: desk
  assumes m: "goes P m" and P: "\<And>s' :: desk. threads_go (dk_db s) (dk_db s') \<Longrightarrow> threads_ok (dk_db s') \<Longrightarrow> P (dk_db s')"
    and g: "\<And>(s' :: desk) fs r c. threads_go (dk_db s) (dk_db s') \<Longrightarrow> m \<lparr>data = dk_db s', faults = fs\<rparr> = (r, c) \<Longrightarrow>
      desk.safe Q (g r) (s'\<lparr>dk_db := data c\<rparr>)"
  shows "desk.safe Q (bindT (db m) g) s"
  unfolding db_def
proof (rule desk.safe_atomic_bind)
  fix s' :: desk and fs r c
  assume s': "threads_go (dk_db s) (dk_db s')" "threads_ok (dk_db s')" and run: "m \<lparr>data = dk_db s', faults = fs\<rparr> = (r, c)"
  from goesD [OF m run] P [OF s'] s'(2) g [OF s'(1) run]
  show "threads_ok (dk_db (s'\<lparr>dk_db := data c\<rparr>)) \<and> threads_go (dk_db s') (dk_db (s'\<lparr>dk_db := data c\<rparr>)) \<and>
      desk.safe Q (g r) (s'\<lparr>dk_db := data c\<rparr>)" by simp
qed

lemma safe_db:
  fixes s :: desk
  assumes "goes P m" and "\<And>s' :: desk. threads_go (dk_db s) (dk_db s') \<Longrightarrow> threads_ok (dk_db s') \<Longrightarrow> P (dk_db s')"
    and "\<And>(s' :: desk) fs x c. threads_go (dk_db s) (dk_db s') \<Longrightarrow> m \<lparr>data = dk_db s', faults = fs\<rparr> = (Inr x, c) \<Longrightarrow>
      desk.safe Q (g x) (s'\<lparr>dk_db := data c\<rparr>)" and "\<And>e. Q (Inl e)"
  shows "desk.safe Q (andThen (db m) g) s"
  unfolding andThen_def by (rule safe_db_bind [OF assms(1,2)]) (auto split: sum.split intro: assms(3,4))

text \<open>A read, of which nothing is kept in mind.\<close>

lemma safe_read:
  assumes "reads m" and "\<And>x t. desk.safe Q (g x) t" and "\<And>e. Q (Inl e)"
  shows "desk.safe Q (andThen (db m) g) s"
  by (rule safe_db [OF goes_reads [OF assms(1)], where P = "\<lambda>_. True"]) (auto intro: assms(2,3))

lemma safe_clock: "(\<And>now t. desk.safe Q (g now) t) \<Longrightarrow> desk.safe Q (andThen clock g) s"
  unfolding clock_def by (rule desk.safe_look) simp

lemma safe_last: "goes (\<lambda>_. True) m \<Longrightarrow> (\<And>r. Q r) \<Longrightarrow> desk.safe Q (db m) s"
  using safe_db_bind [of "\<lambda>_. True" m s Q Ended] by (simp add: db_def atomic_def)
named_theorems task_intro \<open>tasks that keep the threads right\<close>

abbreviation keeps_threads :: "'a ticketing \<Rightarrow> desk \<Rightarrow> bool" where
  "keeps_threads t s \<equiv> desk.safe (\<lambda>_. True) t s"

lemma threads_ret [task_intro]: "keeps_threads (ret x) s" "keeps_threads (fail e) s"
  by simp_all

lemma threads_bind [task_intro]: "keeps_threads m s \<Longrightarrow> (\<And>r t. keeps_threads (g r) t) \<Longrightarrow> keeps_threads (bindT m g) s"
  by (rule desk.safe_bind [where P = "\<lambda>_. True"])

lemma keeps_andThen [task_intro]: "keeps_threads m s \<Longrightarrow> (\<And>x t. keeps_threads (g x) t) \<Longrightarrow> keeps_threads (andThen m g) s"
  by (rule desk.safe_andThen [where P = "\<lambda>_. True"]) auto

lemma keeps_clock [task_intro]: "keeps_threads clock s"
  by (simp add: clock_def look_def)

lemma keeps_db [task_intro]: "goes (\<lambda>_. True) m \<Longrightarrow> keeps_threads (db m) s"
  by (rule safe_last) simp_all

lemma keeps_if [task_intro]: "(b \<Longrightarrow> keeps_threads m s) \<Longrightarrow> (\<not> b \<Longrightarrow> keeps_threads n s) \<Longrightarrow> keeps_threads (if b then m else n) s"
  by simp

lemma keeps_option [task_intro]:
  "(x = None \<Longrightarrow> keeps_threads n s) \<Longrightarrow> (\<And>y. x = Some y \<Longrightarrow> keeps_threads (f y) s) \<Longrightarrow>
   keeps_threads (case x of None \<Rightarrow> n | Some y \<Rightarrow> f y) s"
  by (cases x) simp_all

lemma keeps_sum [task_intro]:
  "(\<And>e. x = Inl e \<Longrightarrow> keeps_threads (f e) s) \<Longrightarrow> (\<And>y. x = Inr y \<Longrightarrow> keeps_threads (g y) s) \<Longrightarrow>
   keeps_threads (case x of Inl e \<Rightarrow> f e | Inr y \<Rightarrow> g y) s"
  by (cases x) simp_all

lemma keeps_pair [task_intro]: "(\<And>a b. x = (a, b) \<Longrightarrow> keeps_threads (f a b) s) \<Longrightarrow> keeps_threads (case x of (a, b) \<Rightarrow> f a b) s"
  by (cases x) simp_all

lemma keeps_mail [task_intro]: "keeps_threads (change (\<lambda>w. w\<lparr>dk_mail := f w\<rparr>)) s"
  by (rule desk.safe_change) simp_all

lemmas repo_goes [task_intro] = goes_reads [OF repo_reads(1)] goes_reads [OF repo_reads(2)] goes_reads [OF repo_reads(3)]
  goes_reads [OF repo_reads(4)] goes_reads [OF repo_reads(5)] goes_reads [OF repo_reads(6)] goes_reads [OF repo_reads(7)]
  goes_reads [OF repo_reads(8)] goes_reads [OF repo_reads(9)] goes_reads [OF repo_reads(10)] goes_event goes_upsert

lemma keeps_notify [task_intro]: "keeps_threads (notifyStaffReply sv t) s" "keeps_threads (notifyTerminal sv t) s"
  unfolding notifyStaffReply_def notifyTerminal_def sendEmail_def by (intro task_intro)+

lemma keeps_best_effort [task_intro]: "keeps_threads m s \<Longrightarrow> keeps_threads (best_effort m x) s"
  unfolding best_effort_def by (intro task_intro)

lemma keeps_OpenTicket [task_intro]: "keeps_threads (OpenTicket sv a c su b) s"
  unfolding OpenTicket_def checkOpenGate_def
  by (intro task_intro goes_create) (auto simp: NewTicket_def split: sum.splits)

lemma keeps_PlayerReply [task_intro]: "keeps_threads (PlayerReply a i body) s"
  unfolding PlayerReply_def
proof (rule safe_db [OF goes_reads [OF repo_reads(1)], where P = "\<lambda>_. True"])
  fix s' :: desk and fs t c
  assume "ticket_Get i \<lparr>data = dk_db s', faults = fs\<rparr> = (Inr t, c)"
  then have t: "t \<in> set (cp_tickets (data c))" "tk_ID t = i" by (auto simp: ticket_Get_def query_row_Inr dest: find_key_Some)
  show "keeps_threads (if tk_AccountID t \<noteq> a then fail (Tickets ErrNotTicketOwner) else andThen clock (\<lambda>now.
      case AppendPublic t a ActorPlayer body now of Inl e \<Rightarrow> fail e
      | Inr (_, m) \<Rightarrow> andThen (db (AppendPublicMessage i m)) (\<lambda>_. ret ()))) (s'\<lparr>dk_db := data c\<rparr>)"
  proof (cases "tk_AccountID t = a")
    case True
    let ?mine = "\<lambda>d. \<exists>t \<in> set (cp_tickets d). tk_ID t = i \<and> a = tk_AccountID t"
    have mine: "?mine (dk_db w)" if "threads_go (data c) (dk_db w)" for w :: desk
      using that t True by (fastforce simp: threads_go_def same_ticket_def)
    have "keeps_threads (andThen clock (\<lambda>now. case AppendPublic t a ActorPlayer body now of Inl e \<Rightarrow> fail e
        | Inr (_, m) \<Rightarrow> andThen (db (AppendPublicMessage i m)) (\<lambda>_. ret ()))) (s'\<lparr>dk_db := data c\<rparr>)"
      unfolding clock_def
    proof (rule desk.safe_look)
      fix w :: desk
      assume w: "threads_go (dk_db (s'\<lparr>dk_db := data c\<rparr>)) (dk_db w)"
      have "keeps_threads (andThen (db (AppendPublicMessage i m)) (\<lambda>_. ret ())) w"
        if "AppendPublic t a ActorPlayer body (dk_now w) = Inr (u, m)" for u m
      proof (rule safe_db [where P = ?mine])
        from that have "ms_AuthorID m = a" by (auto simp: AppendPublic_def split: if_splits sum.splits)
        then show "goes ?mine (AppendPublicMessage i m)" by (intro goes_public) simp
        show "?mine (dk_db w')" if "threads_go (dk_db w) (dk_db w')" for w' :: desk
          by (rule mine) (use threads_go_trans [OF _ that] w in simp)
      qed simp_all
      then show "keeps_threads (case AppendPublic t a ActorPlayer body (dk_now w) of Inl e \<Rightarrow> fail e
          | Inr (_, m) \<Rightarrow> andThen (db (AppendPublicMessage i m)) (\<lambda>_. ret ())) w" by (auto split: sum.split)
    qed
    with True show ?thesis by simp
  qed simp
qed simp_all

lemma keeps_StaffReply [task_intro]: "keeps_threads (StaffReply sv a i body) s"
  unfolding StaffReply_def
  by (intro task_intro goes_public) (auto simp: AppendPublic_def split: if_splits sum.splits)

lemma keeps_StaffNote [task_intro]: "keeps_threads (StaffNote a i body) s"
  unfolding StaffNote_def
  by (intro task_intro goes_note) (auto simp: domain_AppendInternalNote_def split: if_splits sum.splits)

lemma keeps_StaffRecategorize [task_intro]: "keeps_threads (StaffRecategorize sv a i c) s"
  unfolding StaffRecategorize_def by (intro task_intro)

lemma keeps_StaffEditSubject [task_intro]: "keeps_threads (StaffEditSubject a i su) s"
  unfolding StaffEditSubject_def by (intro task_intro)

lemma keeps_setTerminal [task_intro]: "keeps_threads (StaffResolve sv a i) s" "keeps_threads (StaffClose sv a i) s"
  unfolding StaffResolve_def StaffClose_def setTerminal_def by (intro task_intro goes_terminal; simp)+

lemma keeps_MarkViewed [task_intro]: "keeps_threads (MarkViewed a i) s"
  unfolding MarkViewed_def by (intro task_intro)
section \<open>What answers show\<close>

text \<open>A player is shown tickets of his, without the notes the staff keeps among itself.\<close>

definition own_detail :: "int \<Rightarrow> ticket_detail \<Rightarrow> bool" where
  "own_detail a d \<longleftrightarrow> tk_AccountID (td_Ticket d) = a \<and>
     (\<forall>m \<in> set (td_Messages d). ms_TicketID m = tk_ID (td_Ticket d) \<and> ms_Visibility m \<noteq> VisibilityInternal)"

primrec requester :: "ticket_request \<Rightarrow> who option" where
  "requester (List_tickets v tab page) = Some (as_who v)"
| "requester (New_ticket_form v) = Some (as_who v)"
| "requester (Create_ticket v f c s b) = Some (as_who v)"
| "requester (Show_ticket v i) = Some (as_who v)"
| "requester (Reply_ticket v i f b) = Some (as_who v)"
| "requester (Note_ticket v i f b) = Some (as_who v)"
| "requester (Resolve_ticket v i) = Some (as_who v)"
| "requester (Close_ticket v i) = Some (as_who v)"
| "requester (Set_category v i f c) = Some (as_who v)"
| "requester (Set_subject v i f s) = Some (as_who v)"
| "requester (Viewed a i) = None"

text \<open>What an answer may show to an account in a group of the game; a staff's page only to roles that are staff.\<close>

definition may_show :: "ticket_handler \<Rightarrow> (role \<Rightarrow> bool) \<Rightarrow> int \<Rightarrow> int \<Rightarrow> ticket_answer \<Rightarrow> bool" where
  "may_show h staff a g ans =
     (let allowed = (\<lambda>t. staff (Resolve (th_roles h) g) \<and> categoryAllowed h (Resolve (th_roles h) g) (tk_Category t))
      in case ans of
        Player_list items _ _ \<Rightarrow> \<forall>x \<in> set items. tk_AccountID (ti_ticket x) = a
      | Player_detail d \<Rightarrow> own_detail a d
      | Player_reply d \<Rightarrow> own_detail a d
      | Staff_list _ items _ _ \<Rightarrow> \<forall>x \<in> set items. allowed (ti_ticket x)
      | Staff_detail d \<Rightarrow> allowed (td_Ticket d)
      | Staff_thread d \<Rightarrow> allowed (td_Ticket d)
      | _ \<Rightarrow> True)"

primrec shows_tickets :: "ticket_answer \<Rightarrow> bool" where
  "shows_tickets (Redirect_to u) = False"
| "shows_tickets (Refused n) = False"
| "shows_tickets (New_form e) = False"
| "shows_tickets (Player_list items p n) = True"
| "shows_tickets (Staff_list t items p n) = True"
| "shows_tickets (Player_detail d) = True"
| "shows_tickets (Player_reply d) = True"
| "shows_tickets (Staff_detail d) = True"
| "shows_tickets (Staff_thread d) = True"

text \<open>Nothing is shown to who is not known; to others what they may see.\<close>

definition answer_ok :: "ticket_handler \<Rightarrow> (role \<Rightarrow> bool) \<Rightarrow> who option \<Rightarrow> ticket_failure + ticket_answer \<Rightarrow> bool" where
  "answer_ok h staff w r = (case r of Inl _ \<Rightarrow> False | Inr ans \<Rightarrow>
     shows_tickets ans \<longrightarrow> (\<exists>a g. w = Some (User a g) \<and> may_show h staff a g ans))"

definition shown_to :: "ticket_handler \<Rightarrow> (role \<Rightarrow> bool) \<Rightarrow> int \<Rightarrow> int \<Rightarrow> ticket_failure + ticket_answer \<Rightarrow> bool" where
  "shown_to h staff a g r = (case r of Inl _ \<Rightarrow> False | Inr ans \<Rightarrow> may_show h staff a g ans)"

lemma Get_row: "ticket_Get i s = (Inr t, c) \<Longrightarrow> tk_ID t = i"
  by (auto simp: ticket_Get_def query_row_Inr dest: find_key_Some)

lemma List_rows: "message_List i b s = (Inr ms, c) \<Longrightarrow> m \<in> set ms \<Longrightarrow> ms_TicketID m = i \<and> (b \<or> ms_Visibility m \<noteq> VisibilityInternal)"
  by (auto simp: message_List_def query_Inr)

lemma safe_read_row:
  assumes "reads m" and "\<And>u x c t. m u = (Inr x, c) \<Longrightarrow> desk.safe Q (g x) t" and "\<And>e. Q (Inl e)"
  shows "desk.safe Q (andThen (db m) g) s"
  by (rule safe_db [OF goes_reads [OF assms(1)], where P = "\<lambda>_. True"]) (auto intro: assms(2,3))

lemma safe_with_seen: "(\<And>seen. Q (Inr (f seen))) \<Longrightarrow> (\<And>e. Q (Inl e)) \<Longrightarrow> reads m \<Longrightarrow>
   desk.safe Q (andThen (best_effort (db m) x) (\<lambda>seen. ret (f seen))) s"
  by (rule desk.safe_andThen [where P = "\<lambda>_. True"]) (auto intro!: task_intro goes_reads)

lemma GetTicketForPlayer_safe: "desk.safe (\<lambda>r. \<forall>d. r = Inr d \<longrightarrow> own_detail a d) (GetTicketForPlayer a i) s"
  unfolding GetTicketForPlayer_def
proof (rule safe_read_row)
  fix u t c and v :: desk
  assume "ticket_Get i u = (Inr t, c)"
  then have t: "tk_ID t = i" by (rule Get_row)
  show "desk.safe (\<lambda>r. \<forall>d. r = Inr d \<longrightarrow> own_detail a d) (if tk_AccountID t \<noteq> a then fail (Tickets ErrNotTicketOwner)
      else andThen (db (message_List i False)) (\<lambda>messages. andThen (best_effort (db (OtherSeenAt i (tk_AccountID t) False)) None)
        (\<lambda>seen. ret \<lparr>td_OtherSeenAt = seen, td_Messages = messages, td_Ticket = t\<rparr>))) v"
  proof (cases "tk_AccountID t = a")
    case True
    have "desk.safe (\<lambda>r. \<forall>d. r = Inr d \<longrightarrow> own_detail a d) (andThen (db (message_List i False)) (\<lambda>messages.
        andThen (best_effort (db (OtherSeenAt i (tk_AccountID t) False)) None)
        (\<lambda>seen. ret \<lparr>td_OtherSeenAt = seen, td_Messages = messages, td_Ticket = t\<rparr>))) v"
    proof (rule safe_read_row)
      fix w ms c' and v' :: desk
      assume ms: "message_List i False w = (Inr ms, c')"
      show "desk.safe (\<lambda>r. \<forall>d. r = Inr d \<longrightarrow> own_detail a d) (andThen (best_effort (db (OtherSeenAt i (tk_AccountID t) False)) None)
        (\<lambda>seen. ret \<lparr>td_OtherSeenAt = seen, td_Messages = ms, td_Ticket = t\<rparr>)) v'"
        by (rule safe_with_seen) (use True t List_rows [OF ms] in \<open>auto simp: own_detail_def\<close>)
    qed simp_all
    with True show ?thesis by simp
  qed simp
qed simp_all

lemma GetTicketForStaff_safe [task_intro]: "keeps_threads (GetTicketForStaff i) s"
  unfolding GetTicketForStaff_def by (intro task_intro)

lemma toListItems_safe: "desk.safe (\<lambda>r. \<forall>items. r = Inr items \<longrightarrow> map ti_ticket items = ts) (toListItems sv a ts) s"
proof (induction ts arbitrary: s)
  case (Cons t ts)
  show ?case
    unfolding toListItems.simps
  proof (rule desk.safe_andThen [where P = "\<lambda>_. True"])
    fix v :: desk and seen
    show "desk.safe (\<lambda>r. \<forall>items. r = Inr items \<longrightarrow> map ti_ticket items = t # ts) (andThen (toListItems sv a ts) (\<lambda>items.
        ret (\<lparr>ti_ticket = t, ti_CategoryDisplay = categoryDisplay sv (tk_Category t), ti_Unread = IsUnreadFor t seen\<rparr> # items))) v"
      by (rule desk.safe_andThen [OF Cons.IH]) auto
  qed (auto intro!: task_intro)
qed simp
lemma AllowedForRole_permits: "k \<in> set (AllowedForRole r name adm) \<Longrightarrow> Permits r k name adm"
  by (simp add: AllowedForRole_def)

lemma safe_mono: "desk.safe P t s \<Longrightarrow> (\<And>r. P r \<Longrightarrow> Q r) \<Longrightarrow> desk.safe Q t s" for t :: "(desk, 'e, 'x) task"
  by (induction t arbitrary: s rule: task_induct) auto

lemma resolveUser_ok:
  "(\<And>a g. w = User a g \<Longrightarrow> desk.safe (shown_to h staff a g) (k a (Resolve (th_roles h) g)) s) \<Longrightarrow>
   desk.safe (answer_ok h staff (Some w)) (resolveUser h w k) s"
proof (cases w)
  case (User a g)
  assume "\<And>a g. w = User a g \<Longrightarrow> desk.safe (shown_to h staff a g) (k a (Resolve (th_roles h) g)) s"
  with User have "desk.safe (shown_to h staff a g) (k a (Resolve (th_roles h) g)) s" by simp
  with User show ?thesis
    by (auto simp: resolveUser_def elim!: safe_mono) (auto simp: answer_ok_def shown_to_def split: sum.splits)
qed (simp_all add: resolveUser_def answer_ok_def)

lemma with_id_ok: "(\<And>i. desk.safe (shown_to h staff a g) (k i) s) \<Longrightarrow> desk.safe (shown_to h staff a g) (with_id raw k) s"
  by (cases "ParseInt raw") (simp_all add: with_id_def shown_to_def may_show_def)

lemma ended_ok [simp]:
  "shown_to h staff a g (Inr (Refused n))" "shown_to h staff a g (Inr (Redirect_to u))" "shown_to h staff a g (Inr (New_form e))"
  by (simp_all add: shown_to_def may_show_def)

lemma playerList_ok: "desk.safe (answer_ok h staff (Some w)) (playerList h w p) s"
  unfolding playerList_def Let_def
proof (rule resolveUser_ok)
  fix a g and v :: desk
  let ?own = "\<lambda>r. \<forall>items n. r = Inr (items, n) \<longrightarrow> (\<forall>x \<in> set items. tk_AccountID (ti_ticket x) = a)"
  have "desk.safe ?own (service_ListForPlayer (th_svc h) a off l) s" for off l
    unfolding service_ListForPlayer_def
  proof (rule safe_read_row)
    fix u x c and t :: desk
    assume "repo_ListForPlayer a l off u = (Inr x, c)"
    then have "\<forall>q \<in> set (fst x). tk_AccountID q = a"
      by (auto simp: repo_ListForPlayer_def Let_def success_inv ticket_page_def dest!: in_set_takeD in_set_dropD split: if_splits)
    then show "desk.safe ?own (case x of (ts, n) \<Rightarrow> andThen (toListItems (th_svc h) a ts) (\<lambda>items. ret (items, n))) t"
      by (cases x) (auto intro!: desk.safe_andThen [OF toListItems_safe])
  qed simp_all
  then show "desk.safe (shown_to h staff a g) (bindT (service_ListForPlayer (th_svc h) a (page_offset (page_number p)) PageSize) (\<lambda>r.
      case r of Inl _ \<Rightarrow> ret (Refused 500) | Inr (items, n) \<Rightarrow> ret (Player_list items (page_number p) n))) s"
    by (rule desk.safe_bind) (auto simp: shown_to_def may_show_def split: sum.split)
qed

lemma staffList_ok:
  assumes st: "\<And>a g. w = User a g \<Longrightarrow> staff (Resolve (th_roles h) g)"
  shows "desk.safe (answer_ok h staff (Some w)) (staffList h w tab p) s"
  unfolding staffList_def Let_def
proof (rule resolveUser_ok)
  fix a g and v :: desk
  assume w: "w = User a g"
  let ?r = "Resolve (th_roles h) g"
  let ?keys = "AllowedForRole (ts_categories (th_svc h)) (ro_Name ?r) (?r = RoleAdmin)"
  let ?own = "\<lambda>r. \<forall>items n. r = Inr (items, n) \<longrightarrow> (\<forall>x \<in> set items. tk_Category (ti_ticket x) \<in> set ?keys)"
  have "desk.safe ?own (service_ListForStaff (th_svc h) a tb ?keys off l) s" for tb off l
    unfolding service_ListForStaff_def
  proof (rule safe_read_row)
    fix u x c and t :: desk
    assume "repo_ListForStaff tb ?keys l off u = (Inr x, c)"
    then have "\<forall>q \<in> set (fst x). tk_Category q \<in> set ?keys"
      by (auto simp: repo_ListForStaff_def Let_def success_inv ticket_page_def staffTabWhere_def dest!: in_set_takeD in_set_dropD split: if_splits)
    then show "desk.safe ?own (case x of (ts, n) \<Rightarrow> andThen (toListItems (th_svc h) a ts) (\<lambda>items. ret (items, n))) t"
      by (cases x) (auto intro!: desk.safe_andThen [OF toListItems_safe])
  qed simp_all
  then show "desk.safe (shown_to h staff a g) (bindT (service_ListForStaff (th_svc h) a (parseTab tab) ?keys (page_offset (page_number p)) PageSize) (\<lambda>x.
      case x of Inl _ \<Rightarrow> ret (Refused 500) | Inr (items, n) \<Rightarrow> ret (Staff_list (parseTab tab) items (page_number p) n))) s"
    by (rule desk.safe_bind) (auto simp: shown_to_def may_show_def categoryAllowed_def split: sum.split dest: AllowedForRole_permits intro: st [OF w])
qed

lemma playerDetail_ok: "desk.safe (answer_ok h staff (Some w)) (playerDetail h w raw) s"
  unfolding playerDetail_def
  by (intro resolveUser_ok with_id_ok desk.safe_bind [OF GetTicketForPlayer_safe])
    (auto simp: shown_to_def may_show_def split: sum.split)

lemma playerReply_ok: "desk.safe (answer_ok h staff (Some w)) (playerReply h w raw f body) s"
  unfolding playerReply_def
proof (intro resolveUser_ok with_id_ok)
  fix a g i
  have "desk.safe (shown_to h staff a g) (bindT (GetTicketForPlayer a i) (\<lambda>d. case d of Inl _ \<Rightarrow> ret (Refused 500) | Inr detail \<Rightarrow> ret (Player_reply detail))) t"
    for t by (rule desk.safe_bind [OF GetTicketForPlayer_safe]) (auto simp: shown_to_def may_show_def split: sum.split)
  then show "desk.safe (shown_to h staff a g) (if \<not> f then ret (Refused 400) else bindT (PlayerReply a i body) (\<lambda>r.
      case r of Inl e \<Rightarrow> ret (Refused
        (if e = Tickets ErrTicketNotFound \<or> e = Tickets ErrNotTicketOwner then 404
         else if e = Tickets ErrTicketTerminal \<or> e = Tickets ErrPlayerCannotReply then 409 else 500))
      | Inr _ \<Rightarrow> bindT (GetTicketForPlayer a i) (\<lambda>d. case d of Inl _ \<Rightarrow> ret (Refused 500) | Inr detail \<Rightarrow> ret (Player_reply detail)))) s"
    by (auto intro!: desk.safe_bind [OF keeps_PlayerReply] split: sum.split)
qed

lemma playerCreate_ok: "desk.safe (answer_ok h staff (Some w)) (playerCreate h w f c su body) s"
  unfolding playerCreate_def
  by (intro resolveUser_ok) (auto intro!: desk.safe_bind [OF keeps_OpenTicket] split: sum.split)

lemma staffDetail_ok: "(\<And>a g. w = User a g \<Longrightarrow> staff (Resolve (th_roles h) g)) \<Longrightarrow> desk.safe (answer_ok h staff (Some w)) (staffDetail h w raw) s"
  unfolding staffDetail_def
  by (intro resolveUser_ok with_id_ok desk.safe_bind [OF GetTicketForStaff_safe])
    (auto simp: shown_to_def may_show_def split: sum.split)

lemma staffMutate_ok:
  assumes act: "\<And>i a t. keeps_threads (act i a) t" and st: "\<And>a g. w = User a g \<Longrightarrow> staff (Resolve (th_roles h) g)"
  shows "desk.safe (answer_ok h staff (Some w)) (staffMutate h w raw f act) s"
proof -
  have "desk.safe (shown_to h staff a g) (respondStaffMutateSuccess h (Resolve (th_roles h) g) i) t" if "w = User a g" for a g i t
    unfolding respondStaffMutateSuccess_def
    by (rule desk.safe_bind [OF GetTicketForStaff_safe]) (use st [OF that] in \<open>auto simp: shown_to_def may_show_def split: sum.split\<close>)
  then have "desk.safe (shown_to h staff a g) (bindT (act i a) (\<lambda>x. case x of Inl e \<Rightarrow> ret (Refused (respondActionError e))
      | Inr _ \<Rightarrow> respondStaffMutateSuccess h (Resolve (th_roles h) g) i)) t" if "w = User a g" for a g i t
    using that by (intro desk.safe_bind [OF act]) (auto split: sum.split)
  then show ?thesis
    unfolding staffMutate_def assertCategoryAllowed_def
    by (intro resolveUser_ok with_id_ok) (auto intro!: desk.safe_bind [OF GetTicketForStaff_safe] split: sum.split)
qed

lemma by_role_ok:
  assumes "\<And>r. isStaff h r \<Longrightarrow> staff r"
    and "(\<And>a g. w = User a g \<Longrightarrow> staff (Resolve (th_roles h) g)) \<Longrightarrow> desk.safe (answer_ok h staff (Some w)) m s"
    and "desk.safe (answer_ok h staff (Some w)) n s"
  shows "desk.safe (answer_ok h staff (Some w)) (by_role h w m n) s"
  using assms by (cases w) (simp_all add: by_role_def resolveUser_def answer_ok_def)

section \<open>The gate in front of the handlers\<close>

definition let_in :: "ticket_handler \<Rightarrow> string \<Rightarrow> int \<Rightarrow> bool" where
  "let_in h tag g \<longleftrightarrow> (\<exists>hidden policy allowed. registry_wrap (th_registry h) tag False = Some (Behind_roles hidden policy allowed) \<and>
     roleAllowed (Resolve (rg_resolver (th_registry h)) g) allowed)"

lemma behind_ok:
  assumes "\<And>w. (\<And>a g. w = User a g \<Longrightarrow> let_in h tag g) \<Longrightarrow> desk.safe (answer_ok h staff (Some w)) (k w) s"
  shows "desk.safe (answer_ok h staff (Some (as_who v))) (behind h tag v k) s"
proof -
  have turned: "desk.safe (answer_ok h staff (Some (as_who v))) (ret (turned_answer t)) s" for t
    by (cases t) (simp_all add: answer_ok_def)
  have open': "desk.safe (answer_ok h staff (Some (as_who v))) (k Anonymous) s"
    by (rule safe_mono [OF assms]) (auto simp: answer_ok_def split: sum.split)
  show ?thesis
  proof (cases "registry_wrap (th_registry h) tag False")
    case (Some m)
    show ?thesis
    proof (cases m)
      case (Behind_roles hidden policy allowed)
      show ?thesis
      proof (cases "gate_refuses (rg_resolver (th_registry h)) hidden policy allowed v")
        case None
        then have "let_in h tag g" if "as_who v = User a g" for a g
          using that Some Behind_roles by (cases v) (auto simp: gate_refuses_def let_in_def split: if_splits)
        with assms [of "as_who v"] Some Behind_roles None show ?thesis by (simp add: behind_def)
      qed (use Some Behind_roles turned in \<open>simp add: behind_def\<close>)
    qed (use Some open' in \<open>simp_all add: behind_def\<close>)
  qed (simp add: behind_def answer_ok_def)
qed

lemma handle_shows:
  assumes st: "\<And>r. isStaff h r \<Longrightarrow> staff r" and gate: "\<And>g. let_in h ''Tickets.Manage'' g \<Longrightarrow> staff (Resolve (th_roles h) g)"
  shows "desk.safe (answer_ok h staff (requester q)) (handle_ticket h q) s"
proof -
  have manage: "desk.safe (answer_ok h staff (Some (as_who v))) (behind h ''Tickets.Manage'' v (\<lambda>w. staffMutate h w raw f act)) s"
    if "\<And>i a t. keeps_threads (act i a) t" for v raw f act
    by (intro behind_ok staffMutate_ok gate that)
  note shared = behind_ok by_role_ok [OF st] staffList_ok playerList_ok playerCreate_ok staffDetail_ok playerDetail_ok playerReply_ok
    staffMutate_ok resolveUser_ok keeps_StaffReply
  show ?thesis
  proof (cases q)
    case (Note_ticket v i f b)
    then show ?thesis by (simp add: staffNote_def manage keeps_StaffNote)
  next
    case (Resolve_ticket v i)
    then show ?thesis by (simp add: staffResolve_def manage keeps_setTerminal)
  next
    case (Close_ticket v i)
    then show ?thesis by (simp add: staffClose_def manage keeps_setTerminal)
  next
    case (Set_category v i f c)
    then show ?thesis by (simp add: staffRecategorize_def manage keeps_StaffRecategorize)
  next
    case (Set_subject v i f c)
    then show ?thesis by (simp add: staffEditSubject_def manage keeps_StaffEditSubject)
  next
    case (Viewed a i)
    then show ?thesis by (auto intro!: desk.safe_bind [OF keeps_MarkViewed] simp: answer_ok_def)
  qed (auto simp: tickets_list_def tickets_newForm_def tickets_create_def tickets_detail_def tickets_reply_def staffReply_def
      playerNewForm_def answer_ok_def intro!: shared)
qed

text \<open>
  Who works on tickets: administrators and the roles that the access configuration names for
  \<open>Tickets.Manage\<close> (\<open>Member\<close> and \<open>Verified\<close> name everyone). The handlers and the registry are
  built from one configuration, which has the entry.
\<close>

definition manages :: "ticket_handler \<Rightarrow> role \<Rightarrow> bool" where
  "manages h r \<longleftrightarrow> r = RoleAdmin \<or>
     (\<exists>n \<in> set (ManageRoles (rg_cfg (th_registry h)) ''Tickets''). n = ''Member'' \<or> n = ''Verified'' \<or> n = ro_Name r)"

definition tickets_wired :: "(string \<times> int) list \<Rightarrow> ticket_handler \<Rightarrow> bool" where
  "tickets_wired roles h \<longleftrightarrow> th_roles h = NewRoleResolver roles \<and> rg_resolver (th_registry h) = th_roles h \<and>
     th_manageRoles h = ManageRoles (rg_cfg (th_registry h)) ''Tickets'' \<and> th_manageRoles h \<noteq> []"

lemma named_role: "(n, r) \<in> set (rr_byName (NewRoleResolver roles)) \<Longrightarrow> ro_Name r = n"
proof -
  have "\<forall>(n, r) \<in> set (rr_byName (fold add_role xs R)). ro_Name r = n" if "\<forall>(n, r) \<in> set (rr_byName R). ro_Name r = n" for xs R
    using that
  proof (induction xs arbitrary: R)
    case (Cons x xs)
    have "\<forall>(n, r) \<in> set (rr_byName (add_role x R)). ro_Name r = n"
      using Cons.prems by (cases x) (auto simp: add_role_def Let_def)
    from Cons.IH [OF this] show ?case by simp
  qed simp
  from this [of "\<lparr>rr_byGroupID = [(ro_GroupID RoleAdmin, RoleAdmin)], rr_byName = [(ro_Name RoleAdmin, RoleAdmin)]\<rparr>" roles]
  show "(n, r) \<in> set (rr_byName (NewRoleResolver roles)) \<Longrightarrow> ro_Name r = n" by (auto simp: NewRoleResolver_def)
qed

lemma role_of_name:
  "GetRole (NewRoleResolver roles) n = Some r \<Longrightarrow> ro_Name r = n \<or> n = ''Member'' \<or> n = ''Verified''"
  by (auto simp: GetRole_def RolePublic_def split: if_splits dest!: map_of_SomeD named_role)

lemma all_roles_named: "all_roles R ns = Some rs \<Longrightarrow> r \<in> set rs \<Longrightarrow> \<exists>n \<in> set ns. GetRole R n = Some r"
  by (induction ns arbitrary: rs) (auto split: option.splits)

lemma managers_let_in:
  assumes w: "tickets_wired roles h" and l: "let_in h ''Tickets.Manage'' g"
  shows "manages h (Resolve (th_roles h) g)"
proof -
  let ?reg = "th_registry h" and ?r = "Resolve (th_roles h) g"
  have t: "parseTag ''Tickets.Manage'' = Some (''Tickets'', ''Manage'')" by code_simp
  from w obtain actions e where e: "map_of (rg_cfg ?reg) ''Tickets'' = Some actions" "map_of actions ''Manage'' = Some e"
    "ManageRoles (rg_cfg ?reg) ''Tickets'' = ae_Roles e" "ae_Roles e \<noteq> []"
    by (auto simp: tickets_wired_def ManageRoles_def split: option.splits)
  from l w obtain hidden policy allowed where m: "registry_wrap ?reg ''Tickets.Manage'' False = Some (Behind_roles hidden policy allowed)"
    and ok: "roleAllowed ?r allowed" by (auto simp: let_in_def tickets_wired_def)
  have lk: "registry_lookup ?reg ''Tickets'' ''Manage'' = (case all_roles (rg_resolver ?reg) (ae_Roles e) of
      None \<Rightarrow> Inl () | Some rs \<Rightarrow> Inr (Some \<lparr>re_roles = rs, re_unrestricted = RequiresUnrestricted e,
        re_requiresAPIKey = RequiresAPIKey e, re_requireVerified = RequiresVerified e\<rparr>))"
    unfolding registry_lookup_def e option.case using e(4) by (rule if_not_P)
  have wrap: "registry_wrap ?reg ''Tickets.Manage'' False = (case registry_lookup ?reg ''Tickets'' ''Manage'' of Inl _ \<Rightarrow> None
      | Inr None \<Rightarrow> Some (Behind_roles False
          \<lparr>ap_AllowTempBannedLogin = rg_allowTempBannedLogin ?reg, ap_Unrestricted = False, ap_RequireVerified = True\<rparr> [RoleAuthenticated])
      | Inr (Some e) \<Rightarrow> if re_roles e = [RoleAdmin] then Some (mountAdminOnly ?reg)
          else if re_roles e = [RolePublic] then mountPublic ?reg (re_requiresAPIKey e)
          else Some (Behind_roles False \<lparr>ap_AllowTempBannedLogin = rg_allowTempBannedLogin ?reg,
             ap_Unrestricted = re_unrestricted e, ap_RequireVerified = re_requireVerified e\<rparr> (re_roles e)))"
    by (simp add: registry_wrap_def t)
  obtain rs where rs: "all_roles (rg_resolver ?reg) (ae_Roles e) = Some rs"
    using m unfolding wrap lk by (cases "all_roles (rg_resolver ?reg) (ae_Roles e)") simp_all
  with m have a: "allowed = [] \<or> allowed = rs"
    unfolding wrap lk by (auto simp: mountAdminOnly_def mountPublic_def split: if_splits)
  have "r = RoleAuthenticated \<or> r = ?r \<Longrightarrow> r \<in> set rs \<Longrightarrow> manages h ?r" for r
  proof -
    assume r: "r = RoleAuthenticated \<or> r = ?r" "r \<in> set rs"
    from all_roles_named [OF rs r(2)] obtain n where n: "n \<in> set (ae_Roles e)" "GetRole (rg_resolver ?reg) n = Some r" by blast
    from w n(2) have "GetRole (NewRoleResolver roles) n = Some r" unfolding tickets_wired_def by metis
    from role_of_name [OF this] have "n = ro_Name r \<or> n = ''Member'' \<or> n = ''Verified''" by blast
    moreover have "ro_Name RoleAuthenticated = ''Member''" by (simp add: RoleAuthenticated_def)
    ultimately have "n = ''Member'' \<or> n = ''Verified'' \<or> n = ro_Name ?r" using r(1) by metis
    with n(1) show "manages h ?r" unfolding manages_def e(3) by blast
  qed
  with ok a show ?thesis by (auto simp: roleAllowed_def manages_def)
qed

lemma staff_manages: "tickets_wired roles h \<Longrightarrow> isStaff h r \<Longrightarrow> manages h r"
  by (auto simp: tickets_wired_def isStaff_def manages_def)

end
