(* ===== verification/Ticket_Claims.thy ===== *)
theory Ticket_Claims
  imports Ticket_Safety
begin

text \<open>
  What the tickets guarantee however the requests to them overlap, and what they lose when two of
  the staff work on a ticket at the same time.
\<close>

section \<open>Two changes of a ticket at the same time\<close>

lemma has_ticket_found: "find (\<lambda>t. tk_ID t = i) (cp_tickets d) = Some t \<Longrightarrow> has_ticket i d"
  by (auto simp: has_ticket_def list_ex_iff dest: find_key_Some)

lemma message_check_upd [simp]:
  "message_check (m\<lparr>ms_ID := k\<rparr>) = message_check m" "message_check (m\<lparr>ms_TicketID := i\<rparr>) = message_check m"
  "message_check (m\<lparr>ms_AuthorRole := r\<rparr>) = message_check m" "message_check (m\<lparr>ms_Visibility := v\<rparr>) = message_check m"
  by (simp_all add: message_check_def)

text \<open>What the store does with a system message, when nothing is lost.\<close>

lemma event_clean:
  assumes t: "find (\<lambda>t. tk_ID t = i) (cp_tickets d) = Some t" and u: "uniq tk_ID (cp_tickets d)"
    and m: "message_check m"
    and c: "ticket_check (t\<lparr>tk_Category := tk_Category up, tk_Subject := tk_Subject up, tk_LastActivity := tk_LastActivity up\<rparr>)"
  shows "\<exists>c. AppendSystemEvent i up m \<lparr>data = d, faults = []\<rparr> = (Inr (), c) \<and>
    find (\<lambda>t. tk_ID t = i) (cp_tickets (data c)) =
      Some (t\<lparr>tk_Category := tk_Category up, tk_Subject := tk_Subject up, tk_LastActivity := tk_LastActivity up\<rparr>) \<and>
    uniq tk_ID (cp_tickets (data c)) \<and> message_seq (data c) = message_seq d + 1 \<and>
    (\<exists>k. cp_ticket_messages (data c) = cp_ticket_messages d @
      [m\<lparr>ms_AuthorRole := ActorStaff, ms_Visibility := VisibilitySystem, ms_ID := k, ms_TicketID := i\<rparr>])"
proof -
  let ?f = "\<lambda>t. t\<lparr>tk_Category := tk_Category up, tk_Subject := tk_Subject up, tk_LastActivity := tk_LastActivity up\<rparr>"
  let ?m = "m\<lparr>ms_AuthorRole := ActorStaff, ms_Visibility := VisibilitySystem, ms_ID := message_seq d + 1, ms_TicketID := i\<rparr>"
  let ?d1 = "d\<lparr>cp_ticket_messages := cp_ticket_messages d @ [?m], message_seq := message_seq d + 1\<rparr>"
  let ?d2 = "?d1\<lparr>cp_tickets := upd_where (\<lambda>t. tk_ID t = i) ?f (cp_tickets d)\<rparr>"
  from t have ti: "t \<in> set (cp_tickets d)" "tk_ID t = i" by (auto dest: find_key_Some)
  have "q = t" if "q \<in> set (cp_tickets d)" "tk_ID q = i" for q using uniq_the_row [OF u that(1) ti(1)] that(2) ti(2) by simp
  with c have "upd_checked ticket_check (\<lambda>t. tk_ID t = i) ?f (cp_tickets d) = Some (cp_tickets ?d2)" by (auto simp: upd_checked_Some)
  moreover have "insert_message i (m\<lparr>ms_AuthorRole := ActorStaff, ms_Visibility := VisibilitySystem\<rparr>) d = Some (message_seq d + 1, ?d1)"
    using has_ticket_found [OF t] m by (simp add: insert_message_def Let_def ins_checked_def)
  ultimately have "AppendSystemEvent i up m \<lparr>data = d, faults = []\<rparr> = (Inr (), \<lparr>data = ?d2, faults = []\<rparr>)"
    by (simp add: AppendSystemEvent_def ticketTx_def transaction_def clean_query bindE_def clean_sql update_ticket_def retE_def no_fault)
  moreover have "find (\<lambda>t. tk_ID t = i) (cp_tickets ?d2) = Some (?f t)" using t by (simp add: find_upd_row)
  moreover have "uniq tk_ID (cp_tickets ?d2)" using u by (simp add: uniq_upd_where)
  ultimately show ?thesis by auto
qed

text \<open>
  Two of the staff change a ticket, one its subject, the other its category. Each reads the
  ticket before the other writes.
\<close>

definition both_read :: "ticket_service \<Rightarrow> int \<Rightarrow> int \<Rightarrow> string \<Rightarrow> int \<Rightarrow> string \<Rightarrow> unit ticketing move list" where
  "both_read sv i a subject b cat =
     [Arrive (StaffEditSubject a i subject), Arrive (StaffRecategorize sv b i cat),
      Advance 0 [], Advance 1 [], Advance 0 [], Advance 1 [], Advance 0 [], Advance 1 []]"

lemma Get_clean: "ticket_Get i \<lparr>data = d, faults = []\<rparr> =
    (case find (\<lambda>t. tk_ID t = i) (cp_tickets d) of None \<Rightarrow> Inl (Tickets ErrTicketNotFound) | Some t \<Rightarrow> Inr t, \<lparr>data = d, faults = []\<rparr>)"
  by (auto simp: ticket_Get_def query_row_def bindE_def clean_query retE_def failE_def split: option.split)

text \<open>Two of the staff change a ticket, one its subject and one its category, and each reads the ticket before the other
  writes: both requests succeed, but the second write puts the old subject back. The message that says the subject was
  changed stays in the thread.\<close>

theorem subject_change_is_lost:
  assumes "uniq tk_ID (cp_tickets (dk_db s))" and "find (\<lambda>t. tk_ID t = i) (cp_tickets (dk_db s)) = Some t"
    and "category_Get (ts_categories sv) cat \<noteq> None"
    and "EditSubject t a subject (dk_now s) = Inr (u1, m1)" and "Recategorize t b cat (dk_now s) = Inr (u2, m2)"
    and "message_check m1" and "message_check m2"
    and "ticket_check (t\<lparr>tk_Subject := tk_Subject u1, tk_LastActivity := dk_now s\<rparr>)"
    and "ticket_check (t\<lparr>tk_Category := cat, tk_LastActivity := dk_now s\<rparr>)"
  shows "\<exists>s'. run_panel elapse (\<lambda>task. task) (both_read sv i a subject b cat) (s, []) = (s', [Ended (Inr ()), Ended (Inr ())]) \<and>
    find (\<lambda>t. tk_ID t = i) (cp_tickets (dk_db s')) = Some (t\<lparr>tk_Category := cat, tk_LastActivity := dk_now s\<rparr>) \<and>
    (\<exists>m \<in> set (cp_ticket_messages (dk_db s')). ms_TicketID m = i \<and> ms_Event m = Some (Subject_edited (tk_Subject t) (tk_Subject u1)))"
proof -
  let ?d = "dk_db s"
  from assms(4) have u1: "tk_Category u1 = tk_Category t" "tk_LastActivity u1 = dk_now s" "ms_Event m1 = Some (Subject_edited (tk_Subject t) (tk_Subject u1))"
    by (auto simp: EditSubject_def systemMessage_def split: if_splits sum.splits)
  from assms(5) have u2: "tk_Category u2 = cat" "tk_Subject u2 = tk_Subject t" "tk_LastActivity u2 = dk_now s"
    by (auto simp: Recategorize_def split: if_splits)
  from event_clean [OF assms(2,1,6), of u1] assms(8) u1 obtain c1 k1 where c1: "AppendSystemEvent i u1 m1 \<lparr>data = ?d, faults = []\<rparr> = (Inr (), c1)"
    "find (\<lambda>t. tk_ID t = i) (cp_tickets (data c1)) = Some (t\<lparr>tk_Subject := tk_Subject u1, tk_LastActivity := dk_now s\<rparr>)"
    "uniq tk_ID (cp_tickets (data c1))"
    "cp_ticket_messages (data c1) = cp_ticket_messages ?d @ [m1\<lparr>ms_AuthorRole := ActorStaff, ms_Visibility := VisibilitySystem, ms_ID := k1, ms_TicketID := i\<rparr>]"
    by auto
  from event_clean [OF c1(2,3) assms(7), of u2] assms(9) u2 obtain c2 k2 where c2: "AppendSystemEvent i u2 m2 \<lparr>data = data c1, faults = []\<rparr> = (Inr (), c2)"
    "find (\<lambda>t. tk_ID t = i) (cp_tickets (data c2)) = Some (t\<lparr>tk_Category := cat, tk_LastActivity := dk_now s\<rparr>)"
    "cp_ticket_messages (data c2) = cp_ticket_messages (data c1) @ [m2\<lparr>ms_AuthorRole := ActorStaff, ms_Visibility := VisibilitySystem, ms_ID := k2, ms_TicketID := i\<rparr>]"
    by auto
  have "run_panel elapse (\<lambda>task. task) (both_read sv i a subject b cat) (s, []) = (s\<lparr>dk_db := data c2\<rparr>, [Ended (Inr ()), Ended (Inr ())])"
    using assms(2-5) c1(1) c2(1)
    by (auto simp: run_panel_def both_read_def run_move_def StaffEditSubject_def StaffRecategorize_def andThen_def db_def atomic_def clock_def
      look_def ret_def Get_clean)
  with c1 c2 u1 show ?thesis by auto
qed

section \<open>What holds however requests overlap\<close>

text \<open>C25. However requests overlap, whatever the connection loses and in any order of their steps: threads stay right (every
  message belongs to a ticket, a player's to a ticket of his own, and a ticket's count is the number of its public
  messages), no message is ever changed or removed, a ticket keeps its owner, and a resolved or closed ticket never
  opens again.\<close>

theorem threads_stay_right:
  assumes "threads_ok (dk_db s)" and "run_tickets h xs s = (s', ts)"
  shows "threads_ok (dk_db s') \<and>
    (\<exists>ms. cp_ticket_messages (dk_db s') = cp_ticket_messages (dk_db s) @ ms) \<and>
    (\<forall>t \<in> set (cp_tickets (dk_db s)). \<exists>t' \<in> set (cp_tickets (dk_db s')). tk_ID t' = tk_ID t \<and> tk_AccountID t' = tk_AccountID t \<and>
       (ticket_IsTerminal t \<longrightarrow> ticket_IsTerminal t'))"
proof -
  have "desk.safe (answer_ok h (\<lambda>_. True) (requester q)) (handle_ticket h q) s" for q s
    by (rule handle_shows) simp_all
  from desk.run_panel_safe [where Q = "\<lambda>q. answer_ok h (\<lambda>_. True) (requester q)", OF _ this assms(1) assms(2) [unfolded run_tickets_def]]
  have "threads_ok (dk_db s') \<and> threads_go (dk_db s) (dk_db s')" by (simp add: elapse_def)
  then show ?thesis unfolding threads_go_def same_ticket_def by blast
qed


section \<open>Concrete instances\<close>

definition demo_ticket :: ticket where
  "demo_ticket = \<lparr>tk_ClosedBy = None, tk_LastActivity = 50, tk_CreatedAt = 40, tk_AuthorUsername = ''alice'', tk_Category = ''bug'',
     tk_Subject = ''lag'', tk_Status = StatusOpen, tk_LastActor = ActorStaff, tk_ID = 1, tk_AccountID = 7, tk_MessageCount = 1\<rparr>"

definition demo_desk :: desk where
  "demo_desk = \<lparr>dk_db = \<lparr>cp_tickets = [demo_ticket], cp_ticket_messages =
       [\<lparr>ms_CreatedAt = 40, ms_Body = ''help'', ms_AuthorRole = ActorPlayer, ms_Visibility = VisibilityPublic, ms_Event = None,
         ms_ID = 1, ms_TicketID = 1, ms_AuthorID = 7\<rparr>,
        \<lparr>ms_CreatedAt = 45, ms_Body = ''odd'', ms_AuthorRole = ActorStaff, ms_Visibility = VisibilityInternal, ms_Event = None,
         ms_ID = 2, ms_TicketID = 1, ms_AuthorID = 9\<rparr>],
     cp_ticket_views = [], ticket_seq = 1, message_seq = 2\<rparr>, dk_now = 60, dk_mail = []\<rparr>"

definition demo_entry :: "string list \<Rightarrow> access_entry" where
  "demo_entry roles = \<lparr>ae_Roles = roles, ae_RateLimit = None, ae_Requires = []\<rparr>"

definition demo_registry :: registry where
  "demo_registry = \<lparr>rg_cfg = [(''Tickets'', [(''View'', demo_entry [''Verified'']), (''Open'', demo_entry [''Verified'']),
       (''Reply'', demo_entry [''Verified'']), (''Manage'', demo_entry [''Support''])])],
     rg_resolver = NewRoleResolver [(''Support'', 10)], rg_allowTempBannedLogin = False, rg_apiKeyGate = False\<rparr>"

definition demo_tickets :: ticket_handler where
  "demo_tickets = \<lparr>th_svc = \<lparr>ts_users = (\<lambda>_. None), ts_mailer = False, ts_categories = NewCategoryResolver
       [\<lparr>ca_Key = ''bug'', ca_Display = ''Bugs'', ca_Roles = [''Support'']\<rparr>, \<lparr>ca_Key = ''item'', ca_Display = ''Items'', ca_Roles = [''Support'']\<rparr>],
     ts_MaxOpenPerPlayer = 3, ts_TicketOpenCooldown = 0\<rparr>, th_manageRoles = [''Support''], th_roles = NewRoleResolver [(''Support'', 10)],
     th_registry = demo_registry\<rparr>"

definition demo_requests :: "ticket_request move list" where
  "demo_requests = [Arrive (Show_ticket (Visitor 7 0 TierActive) ''1''), Arrive (Viewed 7 1),
     Arrive (Note_ticket (Visitor 7 0 TierActive) ''1'' True ''mine''),
     Advance 0 [], Advance 1 [], Advance 0 [], Advance 1 [], Advance 0 []]"



lemma demo_desk_ok: "threads_ok (dk_db demo_desk)"
  by (simp add: demo_desk_def demo_ticket_def threads_ok_def public_count_def)

theorem threads_stay_right_witness:
  "threads_ok (dk_db (fst (run_tickets demo_tickets demo_requests demo_desk)))"
  using threads_stay_right [OF demo_desk_ok, of demo_tickets demo_requests "fst (run_tickets demo_tickets demo_requests demo_desk)"
    "snd (run_tickets demo_tickets demo_requests demo_desk)"] by simp






lemma demo_text:
  "varchar 23 ''alice''" "varchar 64 ''bug''" "varchar 64 ''item''" "varchar 150 ''lag''" "varchar 150 ''crash''"
  "storable ''Subject changed''" "storable ''Category changed from bug to item''" "ValidateSubject ''crash'' = Inr ''crash''"
  by (simp_all add: varchar_def storable_def ascii_text byte_def ValidateSubject_def IsSpace_def MaxSubjectLen_def Let_def)

theorem subject_change_is_lost_witness:
  "\<exists>s'. run_panel elapse (\<lambda>task. task) (both_read (th_svc demo_tickets) 1 9 ''crash'' 10 ''item'') (demo_desk, []) =
       (s', [Ended (Inr ()), Ended (Inr ())]) \<and>
     find (\<lambda>t. tk_ID t = 1) (cp_tickets (dk_db s')) = Some (demo_ticket\<lparr>tk_Category := ''item'', tk_LastActivity := 60\<rparr>)"
proof -
  have f: "find (\<lambda>t. tk_ID t = 1) (cp_tickets (dk_db demo_desk)) = Some demo_ticket" by (simp add: demo_desk_def demo_ticket_def)
  have u: "uniq tk_ID (cp_tickets (dk_db demo_desk))" by (simp add: demo_desk_def)
  have c: "category_Get (ts_categories (th_svc demo_tickets)) ''item'' \<noteq> None" by code_simp
  have n: "dk_now demo_desk = 60" by (simp add: demo_desk_def)
  let ?e = "EditSubject demo_ticket 9 ''crash'' (dk_now demo_desk)" and ?r = "Recategorize demo_ticket 10 ''item'' (dk_now demo_desk)"
  have "case ?e of Inr (u, m) \<Rightarrow> message_check m \<and> ticket_check (demo_ticket\<lparr>tk_Subject := tk_Subject u, tk_LastActivity := dk_now demo_desk\<rparr>)
      | Inl _ \<Rightarrow> False"
    by (simp add: EditSubject_def demo_ticket_def ticket_IsTerminal_def demo_text systemMessage_def message_check_def ticket_check_def
      event_texts_def demo_desk_def max_int32_def)
  then obtain u1 m1 where e: "?e = Inr (u1, m1)" "message_check m1"
    "ticket_check (demo_ticket\<lparr>tk_Subject := tk_Subject u1, tk_LastActivity := dk_now demo_desk\<rparr>)" by (auto split: sum.splits)
  have "case ?r of Inr (u, m) \<Rightarrow> message_check m | Inl _ \<Rightarrow> False"
    by (simp add: Recategorize_def demo_ticket_def ticket_IsTerminal_def demo_text systemMessage_def message_check_def event_texts_def)
  then obtain u2 m2 where r: "?r = Inr (u2, m2)" "message_check m2" by (auto split: sum.splits)
  have t: "ticket_check (demo_ticket\<lparr>tk_Category := ''item'', tk_LastActivity := dk_now demo_desk\<rparr>)"
    by (simp add: demo_ticket_def ticket_check_def demo_text max_int32_def)
  from subject_change_is_lost [OF u f c e(1) r(1) e(2) r(2) e(3) t] n show ?thesis by auto
qed

end
