(* ===== verification/Account_Moderation.thy ===== *)
theory Account_Moderation
  imports Account_Service
begin

text \<open>
  \<open>account/app/moderation/service.go\<close>: what the staff may do to an account (ban, unban, set its
  role), the ban after a chargeback, and the audit log of all that.
\<close>

record user_detail =
  ud_User :: user
  ud_Characters :: "character list"
  ud_Recent :: "audit_entry list"

record ban_command =
  bc_Reason :: string
  bc_Days :: int
  bc_ActorUserID :: int
  bc_TargetUserID :: int
  bc_ActorIsAdmin :: bool
  bc_Permanent :: bool

record unban_command =
  uc_Reason :: string
  uc_ActorUserID :: int
  uc_TargetUserID :: int
  uc_ActorIsAdmin :: bool

record set_role_command =
  rc_Reason :: string
  rc_ActorUserID :: int
  rc_TargetUserID :: int
  rc_NewGroupID :: int
  rc_ActorIsAdmin :: bool

type_synonym allowed_roles = "(int \<times> string) list"

definition unbanSeconds :: "int option \<Rightarrow> int" where
  "unbanSeconds t = (case t of None \<Rightarrow> 0 | Some n \<Rightarrow> (n div seconds 1) mod 2 ^ 32)"

definition moderation_List :: "world \<Rightarrow> list_query \<Rightarrow> user_page serving" where "moderation_List w q = on_login (user_List w q)"

definition moderation_Get :: "int \<Rightarrow> user_detail serving" where
  "moderation_Get i =
     andThen (on_login (user_GetByID i)) (\<lambda>u.
     andThen (on_login (ListByAccount i)) (\<lambda>chars.
     andThen (on_panel (ListByTarget i 10)) (\<lambda>recent.
     ret \<lparr>ud_User = u, ud_Characters = chars, ud_Recent = recent\<rparr>)))"

definition GetUser :: "int \<Rightarrow> user serving" where "GetUser i = on_login (user_GetByID i)"

definition loadMutableTarget :: "int \<Rightarrow> int \<Rightarrow> bool \<Rightarrow> user serving" where
  "loadMutableTarget actorID targetID actorIsAdmin =
     (if actorID = targetID then fail (Account ErrSelfAction)
      else andThen (on_login (user_GetByID targetID)) (\<lambda>target.
        if user_IsAdmin target then fail (Account ErrTargetIsAdmin)
        else if \<not> actorIsAdmin \<and> \<not> user_IsPlayer target then fail (Account ErrTargetProtected)
        else ret target))"

text \<open>An entry that cannot be written is logged and forgotten.\<close>

definition recordAudit :: "int \<Rightarrow> int \<Rightarrow> audit_kind \<Rightarrow> string \<Rightarrow> string \<Rightarrow> string \<Rightarrow> unit serving" where
  "recordAudit actor target kind reason before' after =
     bindT (on_panel (audit_Record \<lparr>au_At = 0, au_Kind = kind, au_Reason = reason, au_BeforeValue = before', au_AfterValue = after,
       au_ID = 0, au_ActorUserID = actor, au_TargetUserID = target\<rparr>)) (\<lambda>_. ret ())"

definition state_text :: "int \<Rightarrow> int \<Rightarrow> string" where "state_text state unban = FormatInt state @ '','' @ FormatInt unban"

definition ban_length :: "ban_command \<Rightarrow> account_error + ban_duration" where
  "ban_length cmd = (if bc_Permanent cmd then Inr \<lparr>bd_Duration = 0, bd_Permanent = True\<rparr> else ParseBanDays (bc_Days cmd))"

definition Ban :: "ban_command \<Rightarrow> user_detail serving" where
  "Ban cmd =
     (let reason = TrimSpace (bc_Reason cmd); target = bc_TargetUserID cmd
      in if reason = '''' then fail (Account ErrEmptyReason)
         else andThen (loadMutableTarget (bc_ActorUserID cmd) target (bc_ActorIsAdmin cmd)) (\<lambda>u.
           case ban_length cmd of
             Inl e \<Rightarrow> fail (Account e)
           | Inr dur \<Rightarrow>
               andThen (if bd_Permanent dur then ret (StatePermaBanned, 0)
                        else andThen time_Now (\<lambda>now. ret (StateActive, unbanSeconds (Some (now + bd_Duration dur))))) (\<lambda>(newState, newUnban).
               andThen (on_login (UpdateBan target newState newUnban)) (\<lambda>_.
               andThen (recordAudit (bc_ActorUserID cmd) target AuditBan reason
                 (state_text (us_State u) (unbanSeconds (us_UnbanTime u))) (state_text newState newUnban)) (\<lambda>_.
               moderation_Get target)))))"

definition Unban :: "unban_command \<Rightarrow> user_detail serving" where
  "Unban cmd =
     (let target = uc_TargetUserID cmd
      in andThen (loadMutableTarget (uc_ActorUserID cmd) target (uc_ActorIsAdmin cmd)) (\<lambda>u.
         andThen time_Now (\<lambda>now.
           let banned = (us_State u = StatePermaBanned \<or>
                 us_State u = StateActive \<and> (case us_UnbanTime u of None \<Rightarrow> False | Some t \<Rightarrow> now < t))
           in if \<not> banned then fail (Account ErrInvalidState)
              else
                andThen (on_login (UpdateBan target StateActive 0)) (\<lambda>_.
                andThen (recordAudit (uc_ActorUserID cmd) target AuditUnban (TrimSpace (uc_Reason cmd))
                  (state_text (us_State u) (unbanSeconds (us_UnbanTime u))) ''0,0'') (\<lambda>_.
                moderation_Get target)))))"

definition SetRole :: "allowed_roles \<Rightarrow> set_role_command \<Rightarrow> user_detail serving" where
  "SetRole allowed cmd =
     (let target = rc_TargetUserID cmd
      in if map_of allowed (rc_NewGroupID cmd) = None then fail (Account ErrInvalidRole)
         else andThen (loadMutableTarget (rc_ActorUserID cmd) target (rc_ActorIsAdmin cmd)) (\<lambda>u.
           if us_GroupID u = rc_NewGroupID cmd then fail (Account ErrInvalidState)
           else
             andThen (on_login (UpdateGroup target (rc_NewGroupID cmd))) (\<lambda>_.
             andThen (recordAudit (rc_ActorUserID cmd) target AuditSetRole (TrimSpace (rc_Reason cmd))
               (FormatInt (us_GroupID u)) (FormatInt (rc_NewGroupID cmd))) (\<lambda>_.
             moderation_Get target))))"

definition BanForChargeback :: "int \<Rightarrow> string \<Rightarrow> unit serving" where
  "BanForChargeback accountID reason =
     andThen (on_login (user_GetByID accountID)) (\<lambda>u.
       if user_IsAdmin u then ret ()
       else if us_State u = StatePermaBanned then ret ()
       else
         andThen (on_login (UpdateBan accountID StatePermaBanned 0)) (\<lambda>_.
         recordAudit 0 accountID AuditBan reason (state_text (us_State u) (unbanSeconds (us_UnbanTime u))) (FormatInt StatePermaBanned @ '',0'')))"

end
