(* ===== verification/Account_Handlers.thy ===== *)
theory Account_Handlers
  imports Account_Moderation Access_Control
begin

text \<open>
  The handlers of \<open>account/transport/self\<close> and \<open>account/transport/moderation\<close> behind their routes.
  A request brings its session cookie, what the API key gate makes of it, and its fields; a page
  is what it shows. The welcome notification, the balance, the characters and the histories on
  the account's page belong to other features and are left out, as is a form's own encoding.
\<close>

section \<open>Requests and answers\<close>

record envelope =
  en_cookie :: "string option"
  en_api_key :: bool
  en_form_read :: bool
  en_ip :: "string option"
  en_agent :: string

datatype link_result = Link_success | Link_expired | Link_already_used | Link_invalid | Link_restricted | Link_taken

datatype shown =
    Redirected string
  | Failed nat
  | Page_404
  | Register_page field_errors string
  | Login_page string string
  | Forgot_page field_errors bool
  | Reset_form field_errors
  | Reset_result link_result
  | Verify_account_page string string
  | Verify_confirm
  | Verify_result link_result
  | Email_change_confirm string
  | Email_change_result link_result string
  | Account_page account_dto
  | Password_form field_errors
  | Email_form field_errors
  | User_page user_detail bool
  | User_modal user string
  | User_missing string
  | Action_error nat string

type_synonym answering = "(cookie_change \<times> shown) serving"

record handlers =
  hd_svc :: account_service
  hd_sess :: session_service
  hd_registry :: registry
  hd_allowTempBannedLogin :: bool
  hd_allowed :: allowed_roles

definition page :: "shown \<Rightarrow> answering" where "page p = ret (Keep_cookie, p)"

definition genericErrorMessage :: string where "genericErrorMessage = ''Something went wrong. Please try again.''"
definition invalidFormDataMsg :: string where "invalidFormDataMsg = ''Invalid form data.''"

section \<open>handler.go\<close>

definition hasActiveSession :: "handlers \<Rightarrow> envelope \<Rightarrow> bool serving" where
  "hasActiveSession h en =
     (case en_cookie en of
        None \<Rightarrow> ret False
      | Some v \<Rightarrow> if v = '''' then ret False else bindT (sessions_Validate (hd_sess h) v) (\<lambda>r. ret (case r of Inl _ \<Rightarrow> False | Inr _ \<Rightarrow> True)))"

definition showRegister :: "handlers \<Rightarrow> envelope \<Rightarrow> answering" where
  "showRegister h en = andThen (hasActiveSession h en) (\<lambda>active. page (if active then Redirected ''/'' else Register_page [] ''''))"

definition doRegister :: "handlers \<Rightarrow> envelope \<Rightarrow> create_command \<Rightarrow> answering" where
  "doRegister h en cmd =
     (if \<not> en_form_read en then page (Register_page [] invalidFormDataMsg)
      else bindT (account_Create (hd_svc h) cmd) (\<lambda>r. case r of
          Inl (Invalid fe) \<Rightarrow> page (Register_page fe '''')
        | Inl _ \<Rightarrow> page (Register_page [] genericErrorMessage)
        | Inr created \<Rightarrow> bindT (sessions_Create (hd_sess h) (gd_ID created)) (\<lambda>r. case r of
              Inl _ \<Rightarrow> page (Redirected ''/login'')
            | Inr (token, _) \<Rightarrow> ret (Set_session token, Redirected ''/''))))"

definition loginNoticeText :: "string \<Rightarrow> string" where
  "loginNoticeText n =
     (if n = ''banned'' then ''You were signed out. This account is permanently banned.''
      else if n = ''deleted'' then ''You were signed out. This account no longer exists.'' else '''')"

definition showLogin :: "handlers \<Rightarrow> envelope \<Rightarrow> string \<Rightarrow> answering" where
  "showLogin h en notice = andThen (hasActiveSession h en) (\<lambda>active. page (if active then Redirected ''/'' else Login_page '''' (loginNoticeText notice)))"

definition doLogin :: "handlers \<Rightarrow> envelope \<Rightarrow> string \<Rightarrow> string \<Rightarrow> answering" where
  "doLogin h en username password =
     (if \<not> en_form_read en then page (Login_page invalidFormDataMsg '''')
      else
        let cmd = \<lparr>lc_Username = username, lc_Password = password, lc_UserAgent = en_agent en, lc_IP = en_ip en\<rparr>
        in bindT (Authenticate (hd_svc h) cmd) (\<lambda>r. case r of
            Inl e \<Rightarrow> page (Login_page
              (if e = Account ErrAccountLocked then ''Too many recent attempts. Please try again later.''
               else if e = Account ErrInvalidCredentials then ''Invalid username or password.'' else genericErrorMessage) '''')
          | Inr (u, tier) \<Rightarrow>
              if tier = TierPermaBanned then page (Login_page ''This account is permanently banned.'' '''')
              else if tier = TierTempBanned \<and> \<not> hd_allowTempBannedLogin h
              then page (Login_page ''This account is currently restricted. Please try again later.'' '''')
              else bindT (sessions_Create (hd_sess h) (gd_ID u)) (\<lambda>r. case r of
                  Inl _ \<Rightarrow> page (Login_page genericErrorMessage '''')
                | Inr (token, _) \<Rightarrow> ret (Set_session token, Redirected (if tier = TierUnverified then ''/verify-account'' else ''/'')))))"

definition doLogout :: "handlers \<Rightarrow> envelope \<Rightarrow> answering" where
  "doLogout h en =
     bindT (case en_cookie en of None \<Rightarrow> ret () | Some v \<Rightarrow> sessions_Destroy (hd_sess h) v) (\<lambda>_. ret (Clear_session, Redirected ''/login''))"

section \<open>forgot_password.go, reset_password.go, token_link.go\<close>

definition showForgotPassword :: "handlers \<Rightarrow> envelope \<Rightarrow> answering" where
  "showForgotPassword h en = andThen (hasActiveSession h en) (\<lambda>active. page (if active then Redirected ''/'' else Forgot_page [] False))"

definition doForgotPassword :: "handlers \<Rightarrow> envelope \<Rightarrow> string \<Rightarrow> answering" where
  "doForgotPassword h en email =
     (if \<not> en_form_read en then page (Forgot_page [(''email'', Says invalidFormDataMsg)] False)
      else bindT (RequestPasswordReset (hd_svc h) email) (\<lambda>r. case r of
          Inl (Invalid fe) \<Rightarrow> page (Forgot_page fe False)
        | Inl _ \<Rightarrow> page (Forgot_page [(''email'', Says genericErrorMessage)] False)
        | Inr _ \<Rightarrow> page (Forgot_page [] True)))"

definition validateTokenLink :: "handlers \<Rightarrow> action_kind \<Rightarrow> string \<Rightarrow> shown \<Rightarrow> shown \<Rightarrow> answering" where
  "validateTokenLink h kind token expired valid =
     (if token = '''' then page Page_404
      else bindT (token_Peek (as_world (hd_svc h)) kind token) (\<lambda>r. case r of
          Inl e \<Rightarrow> page (if e = Account ErrTokenExpired then expired else Page_404)
        | Inr _ \<Rightarrow> page valid))"

definition showResetPassword :: "handlers \<Rightarrow> string \<Rightarrow> answering" where
  "showResetPassword h token = validateTokenLink h PasswordReset token (Reset_result Link_expired) (Reset_form [])"

text \<open>What a failed link shows; an account that may not be changed is told apart.\<close>

definition link_failure :: "account_failure \<Rightarrow> link_result" where
  "link_failure e =
     (if e = Account ErrTokenExpired then Link_expired
      else if e = Account ErrTokenAlreadyUsed then Link_already_used
      else if e = Account ErrTokenInvalid then Link_invalid
      else if e = Account ErrAccountPermaBanned \<or> e = Account ErrAccountTempBanned \<or> e = Account ErrAccountDeleted then Link_restricted
      else Link_invalid)"

definition doResetPassword :: "handlers \<Rightarrow> envelope \<Rightarrow> string \<Rightarrow> string \<Rightarrow> string \<Rightarrow> answering" where
  "doResetPassword h en token password confirm =
     (if \<not> en_form_read en then page (Reset_result Link_invalid)
      else if password \<noteq> confirm then page (Reset_form [(''password_confirm'', Says ''passwords do not match'')])
      else bindT (ConsumePasswordReset (hd_svc h) token password) (\<lambda>r. case r of
          Inl (Invalid fe) \<Rightarrow> page (Reset_form fe)
        | Inl e \<Rightarrow> page (Reset_result (link_failure e))
        | Inr _ \<Rightarrow> page (Reset_result Link_success)))"

section \<open>verify.go, verify_email_change.go\<close>

definition requireUnverifiedSession :: "handlers \<Rightarrow> envelope \<Rightarrow> (user \<Rightarrow> answering) \<Rightarrow> answering" where
  "requireUnverifiedSession h en k =
     (case en_cookie en of
        None \<Rightarrow> page (Redirected ''/login'')
      | Some v \<Rightarrow> if v = '''' then page (Redirected ''/login'')
          else bindT (sessions_Validate (hd_sess h) v) (\<lambda>r. case r of
              Inl _ \<Rightarrow> page (Redirected ''/login'')
            | Inr sess \<Rightarrow> bindT (on_login (user_GetByID (se_UserID sess))) (\<lambda>r. case r of
                  Inl _ \<Rightarrow> page (Redirected ''/login'')
                | Inr u \<Rightarrow> if us_State u \<noteq> StateUnverified then page (Redirected ''/'') else k u)))"

definition resendNoticeText :: "string \<Rightarrow> string" where
  "resendNoticeText n =
     (if n = ''sent'' then ''Verification email sent. Check your inbox.''
      else if n = ''failed'' then ''Couldn'' @ [CHR 0x27] @ ''t send verification email. Please try again in a moment.'' else '''')"

definition showVerifyAccount :: "handlers \<Rightarrow> envelope \<Rightarrow> string \<Rightarrow> answering" where
  "showVerifyAccount h en notice = requireUnverifiedSession h en (\<lambda>u. page (Verify_account_page (us_Email u) (resendNoticeText notice)))"

definition showVerify :: "handlers \<Rightarrow> envelope \<Rightarrow> string \<Rightarrow> answering" where
  "showVerify h en token = requireUnverifiedSession h en (\<lambda>_. validateTokenLink h EmailVerification token (Verify_result Link_expired) Verify_confirm)"

definition doVerify :: "handlers \<Rightarrow> envelope \<Rightarrow> string \<Rightarrow> answering" where
  "doVerify h en token =
     (if \<not> en_form_read en \<or> token = '''' then page (Verify_result Link_invalid)
      else bindT (ConsumeVerification (hd_svc h) token) (\<lambda>r.
        let result = (case r of Inr _ \<Rightarrow> Link_success | Inl e \<Rightarrow> if e = Account ErrTokenExpired then Link_expired else Link_invalid)
        in if r = Inr () \<or> r = Inl (Account ErrTokenAlreadyUsed)
           then andThen (hasActiveSession h en) (\<lambda>active. page (if active then Redirected ''/'' else Verify_result result))
           else page (Verify_result result)))"

definition doResendVerification :: "handlers \<Rightarrow> envelope \<Rightarrow> answering" where
  "doResendVerification h en =
     (case en_cookie en of
        None \<Rightarrow> page (Redirected ''/login'')
      | Some v \<Rightarrow> if v = '''' then page (Redirected ''/login'')
          else bindT (sessions_Validate (hd_sess h) v) (\<lambda>r. case r of
              Inl _ \<Rightarrow> page (Redirected ''/login'')
            | Inr sess \<Rightarrow> bindT (ResendVerification (hd_svc h) (se_UserID sess)) (\<lambda>r.
                page (Redirected (''/verify-account?notice='' @ (case r of Inl _ \<Rightarrow> ''failed'' | Inr _ \<Rightarrow> ''sent''))))))"

definition showVerifyEmailChange :: "handlers \<Rightarrow> string \<Rightarrow> answering" where
  "showVerifyEmailChange h token =
     (if token = '''' then page (Email_change_result Link_invalid '''')
      else bindT (token_Peek (as_world (hd_svc h)) EmailChange token) (\<lambda>r. case r of
          Inl e \<Rightarrow> page (Email_change_result
            (if e = Account ErrTokenExpired then Link_expired else if e = Account ErrTokenAlreadyUsed then Link_already_used else Link_invalid) '''')
        | Inr peeked \<Rightarrow> page (Email_change_confirm (case ak_Payload peeked of None \<Rightarrow> '''' | Some p \<Rightarrow> p))))"

definition doVerifyEmailChange :: "handlers \<Rightarrow> envelope \<Rightarrow> string \<Rightarrow> answering" where
  "doVerifyEmailChange h en token =
     (if \<not> en_form_read en \<or> token = '''' then page (Email_change_result Link_invalid '''')
      else bindT (ConsumeEmailChange (hd_svc h) token) (\<lambda>r. case r of
          Inl e \<Rightarrow> page (Email_change_result (if e = Account ErrEmailTaken then Link_taken else link_failure e) '''')
        | Inr u \<Rightarrow> page (Email_change_result Link_success (us_Email u))))"

section \<open>account.go, change_password.go, change_email.go\<close>

text \<open>The session of a request is there when its route is gated.\<close>

definition showAccount :: "session option \<Rightarrow> answering" where
  "showAccount sess =
     (case sess of
        None \<Rightarrow> page (Redirected ''/login'')
      | Some se \<Rightarrow> bindT (GetAccount (se_UserID se)) (\<lambda>r. case r of Inl _ \<Rightarrow> page (Failed 500) | Inr account \<Rightarrow> page (Account_page account)))"

definition doChangePassword :: "handlers \<Rightarrow> envelope \<Rightarrow> session option \<Rightarrow> string \<Rightarrow> string \<Rightarrow> string \<Rightarrow> answering" where
  "doChangePassword h en sess current new confirm =
     (case sess of
        None \<Rightarrow> page (Redirected ''/login'')
      | Some se \<Rightarrow>
          if \<not> en_form_read en then page (Password_form [(''new_password'', Says invalidFormDataMsg)])
          else case en_cookie en of
              None \<Rightarrow> page (Redirected ''/login'')
            | Some v \<Rightarrow> if v = '''' then page (Redirected ''/login'')
                else bindT (UpdatePassword (hd_svc h) (hd_sess h) (se_UserID se) v current new confirm) (\<lambda>r. case r of
                    Inl (Invalid fe) \<Rightarrow> page (Password_form fe)
                  | Inl e \<Rightarrow> page (if e = Account ErrPasswordRecentlyChanged
                      then Password_form [(''current_password'', Says ''Password was changed recently. Please try again later.'')] else Failed 500)
                  | Inr _ \<Rightarrow> page (Redirected ''/account?notice=password_changed'')))"

definition doChangeEmail :: "handlers \<Rightarrow> envelope \<Rightarrow> session option \<Rightarrow> string \<Rightarrow> string \<Rightarrow> answering" where
  "doChangeEmail h en sess current newEmail =
     (case sess of
        None \<Rightarrow> page (Redirected ''/login'')
      | Some se \<Rightarrow>
          if \<not> en_form_read en then page (Email_form [(''new_email'', Says invalidFormDataMsg)])
          else bindT (RequestEmailChange (hd_svc h) (se_UserID se) current newEmail) (\<lambda>r. case r of
              Inl (Invalid fe) \<Rightarrow> page (Email_form fe)
            | Inl e \<Rightarrow> page (if e = Account ErrEmailChangeCooldown then Redirected ''/account?notice=email_change_cooldown''
                else if e = Account ErrEmailRecentlyChanged then Redirected ''/account?notice=email_change_locked'' else Failed 500)
            | Inr _ \<Rightarrow> page (Redirected ''/account?notice=email_change_sent'')))"
section \<open>moderation/actions.go, moderation/detail.go\<close>

definition pathID :: "string \<Rightarrow> int option" where
  "pathID raw = (case ParseInt raw of None \<Rightarrow> None | Some i \<Rightarrow> if i \<le> 0 then None else Some i)"

definition targetAndActor :: "string \<Rightarrow> account_snapshot option \<Rightarrow> (int \<Rightarrow> int \<Rightarrow> bool \<Rightarrow> answering) \<Rightarrow> answering" where
  "targetAndActor raw snap k =
     (case pathID raw of
        None \<Rightarrow> page (Failed 400)
      | Some targetID \<Rightarrow>
          (case snap of None \<Rightarrow> page (Action_error 401 ''Session missing.'') | Some s \<Rightarrow> k targetID (sn_UserID s) (snapshot_IsAdmin s)))"

definition actionErrorMessage :: "account_failure \<Rightarrow> string" where
  "actionErrorMessage e =
     (if e = Account ErrSelfAction then ''You can'' @ [CHR 0x27] @ ''t perform admin actions on your own account.''
      else if e = Account ErrTargetIsAdmin then ''Admin-on-admin actions must go through the database.''
      else if e = Account ErrTargetProtected then ''You can only act on player accounts.''
      else if e = Account ErrEmptyReason then ''Reason is required.''
      else if e = Account ErrInvalidDuration then ''Invalid ban duration.''
      else if e = Account ErrInvalidRole then ''Selected role is not allowed.''
      else if e = Account ErrInvalidState then ''Action not allowed in the current state.''
      else if e = Account ErrUserNotFound then ''Account not found.''
      else ''Action failed. Check server logs.'')"

definition actionModalError :: "int \<Rightarrow> string \<Rightarrow> answering" where
  "actionModalError targetID message =
     bindT (GetUser targetID) (\<lambda>r. case r of Inl _ \<Rightarrow> page (Action_error 400 message) | Inr u \<Rightarrow> page (User_modal u message))"

definition acted :: "int \<Rightarrow> bool \<Rightarrow> user_detail serving \<Rightarrow> answering" where
  "acted targetID viewerIsAdmin m =
     bindT m (\<lambda>r. case r of Inl e \<Rightarrow> actionModalError targetID (actionErrorMessage e) | Inr detail \<Rightarrow> page (User_page detail viewerIsAdmin))"

definition doBan :: "envelope \<Rightarrow> account_snapshot option \<Rightarrow> string \<Rightarrow> string \<Rightarrow> string \<Rightarrow> string \<Rightarrow> answering" where
  "doBan en snap rawID days permanent reason = targetAndActor rawID snap (\<lambda>targetID actorID isAdmin.
     if \<not> en_form_read en then actionModalError targetID invalidFormDataMsg
     else acted targetID isAdmin (Ban
       \<lparr>bc_Reason = reason, bc_Days = Atoi_value days, bc_ActorUserID = actorID, bc_TargetUserID = targetID,
        bc_ActorIsAdmin = isAdmin, bc_Permanent = (permanent \<noteq> '''')\<rparr>))"

definition doUnban :: "envelope \<Rightarrow> account_snapshot option \<Rightarrow> string \<Rightarrow> string \<Rightarrow> answering" where
  "doUnban en snap rawID reason = targetAndActor rawID snap (\<lambda>targetID actorID isAdmin.
     if \<not> en_form_read en then actionModalError targetID invalidFormDataMsg
     else acted targetID isAdmin (Unban
       \<lparr>uc_Reason = reason, uc_ActorUserID = actorID, uc_TargetUserID = targetID, uc_ActorIsAdmin = isAdmin\<rparr>))"

definition doSetRole :: "handlers \<Rightarrow> envelope \<Rightarrow> account_snapshot option \<Rightarrow> string \<Rightarrow> string \<Rightarrow> string \<Rightarrow> answering" where
  "doSetRole h en snap rawID rawGroup reason = targetAndActor rawID snap (\<lambda>targetID actorID isAdmin.
     if \<not> en_form_read en then actionModalError targetID invalidFormDataMsg
     else case ParseInt rawGroup of
         None \<Rightarrow> actionModalError targetID ''Invalid role selection.''
       | Some groupID \<Rightarrow> acted targetID isAdmin (SetRole (hd_allowed h)
           \<lparr>rc_Reason = reason, rc_ActorUserID = actorID, rc_TargetUserID = targetID, rc_NewGroupID = groupID, rc_ActorIsAdmin = isAdmin\<rparr>))"

definition showDetail :: "account_snapshot option \<Rightarrow> string \<Rightarrow> answering" where
  "showDetail snap rawID =
     (case pathID rawID of
        None \<Rightarrow> page (Failed 400)
      | Some i \<Rightarrow> bindT (moderation_Get i) (\<lambda>r. case r of
            Inl e \<Rightarrow> page (if e = Account ErrUserNotFound then User_missing (FormatInt i) else Failed 500)
          | Inr detail \<Rightarrow> page (User_page detail (case snap of None \<Rightarrow> False | Some s \<Rightarrow> snapshot_IsAdmin s))))"

definition showActionModal :: "bool \<Rightarrow> string \<Rightarrow> answering" where
  "showActionModal isHTMX rawID =
     (case pathID rawID of
        None \<Rightarrow> page (Failed 400)
      | Some i \<Rightarrow>
          if \<not> isHTMX then page (Redirected (''/users/'' @ FormatInt i))
          else bindT (GetUser i) (\<lambda>r. case r of
              Inl e \<Rightarrow> page (Failed (if e = Account ErrUserNotFound then 404 else 500))
            | Inr u \<Rightarrow> page (User_modal u '''')))"

section \<open>The routes\<close>

datatype user_action = Ban_action | Unban_action | Role_action

datatype account_request =
    Register_form | Register create_command
  | Login_form string | Login string string | Logout
  | Forgot_form | Forgot string
  | Reset_link string | Reset string string string
  | Verify_page string | Verify_link string | Verify string | Resend
  | Email_link string | Email_confirm string
  | Own_account
  | Password_change_form | Password_change string string string
  | Email_change_form | Email_change_request string string
  | User_show string | User_form user_action bool string
  | User_ban string string string string | User_unban string string | User_set_role string string string

primrec route_of_action :: "user_action \<Rightarrow> string \<times> bool" where
  "route_of_action Ban_action = (''Users.Ban'', True)"
| "route_of_action Unban_action = (''Users.Unban'', True)"
| "route_of_action Role_action = (''Users.SetRole'', False)"

text \<open>The tag of a request's route, and whether the route is hidden from those it turns away.\<close>

primrec route_of :: "account_request \<Rightarrow> string \<times> bool" where
  "route_of Register_form = (''Account.Register'', False)"
| "route_of (Register c) = (''Account.Register'', False)"
| "route_of (Login_form n) = (''Account.Login'', False)"
| "route_of (Login u p) = (''Account.Login'', False)"
| "route_of Logout = (''Account.Logout'', False)"
| "route_of Forgot_form = (''Account.ForgotPassword'', False)"
| "route_of (Forgot e) = (''Account.ForgotPassword'', False)"
| "route_of (Reset_link t) = (''Account.ResetPassword'', False)"
| "route_of (Reset t p c) = (''Account.ResetPassword'', False)"
| "route_of (Verify_page n) = (''Account.Verify'', False)"
| "route_of (Verify_link t) = (''Account.Verify'', False)"
| "route_of (Verify t) = (''Account.Verify'', False)"
| "route_of Resend = (''Account.Verify'', False)"
| "route_of (Email_link t) = (''Account.VerifyEmailChange'', False)"
| "route_of (Email_confirm t) = (''Account.VerifyEmailChange'', False)"
| "route_of Own_account = (''Account.View'', False)"
| "route_of Password_change_form = (''Account.ChangePassword'', False)"
| "route_of (Password_change p n c) = (''Account.ChangePassword'', False)"
| "route_of Email_change_form = (''Account.ChangeEmail'', False)"
| "route_of (Email_change_request p e) = (''Account.ChangeEmail'', False)"
| "route_of (User_show i) = (''Users.View'', True)"
| "route_of (User_form a x i) = route_of_action a"
| "route_of (User_ban i d p r) = (''Users.Ban'', True)"
| "route_of (User_unban i r) = (''Users.Unban'', True)"
| "route_of (User_set_role i g r) = (''Users.SetRole'', False)"

text \<open>The handler of a request, with the session and snapshot its route's gate found.\<close>

primrec handler_of :: "handlers \<Rightarrow> envelope \<Rightarrow> account_request \<Rightarrow> session option \<Rightarrow> account_snapshot option \<Rightarrow> answering" where
  "handler_of h en Register_form = (\<lambda>sess snap. showRegister h en)"
| "handler_of h en (Register c) = (\<lambda>sess snap. doRegister h en c)"
| "handler_of h en (Login_form n) = (\<lambda>sess snap. showLogin h en n)"
| "handler_of h en (Login u p) = (\<lambda>sess snap. doLogin h en u p)"
| "handler_of h en Logout = (\<lambda>sess snap. doLogout h en)"
| "handler_of h en Forgot_form = (\<lambda>sess snap. showForgotPassword h en)"
| "handler_of h en (Forgot e) = (\<lambda>sess snap. doForgotPassword h en e)"
| "handler_of h en (Reset_link t) = (\<lambda>sess snap. showResetPassword h t)"
| "handler_of h en (Reset t p c) = (\<lambda>sess snap. doResetPassword h en t p c)"
| "handler_of h en (Verify_page n) = (\<lambda>sess snap. showVerifyAccount h en n)"
| "handler_of h en (Verify_link t) = (\<lambda>sess snap. showVerify h en t)"
| "handler_of h en (Verify t) = (\<lambda>sess snap. doVerify h en t)"
| "handler_of h en Resend = (\<lambda>sess snap. doResendVerification h en)"
| "handler_of h en (Email_link t) = (\<lambda>sess snap. showVerifyEmailChange h t)"
| "handler_of h en (Email_confirm t) = (\<lambda>sess snap. doVerifyEmailChange h en t)"
| "handler_of h en Own_account = (\<lambda>sess snap. showAccount sess)"
| "handler_of h en Password_change_form = (\<lambda>sess snap. page (Password_form []))"
| "handler_of h en (Password_change p n c) = (\<lambda>sess snap. doChangePassword h en sess p n c)"
| "handler_of h en Email_change_form = (\<lambda>sess snap. page (Email_form []))"
| "handler_of h en (Email_change_request p e) = (\<lambda>sess snap. doChangeEmail h en sess p e)"
| "handler_of h en (User_show i) = (\<lambda>sess snap. showDetail snap i)"
| "handler_of h en (User_form a x i) = (\<lambda>sess snap. showActionModal x i)"
| "handler_of h en (User_ban i d p r) = (\<lambda>sess snap. doBan en snap i d p r)"
| "handler_of h en (User_unban i r) = (\<lambda>sess snap. doUnban en snap i r)"
| "handler_of h en (User_set_role i g r) = (\<lambda>sess snap. doSetRole h en snap i g r)"

definition turned :: "turned_away \<Rightarrow> shown" where
  "turned t = (case t of To url \<Rightarrow> Redirected url | Hidden_404 \<Rightarrow> Page_404 | Status n \<Rightarrow> Failed n)"

text \<open>A route behind the API key gate lets through what that gate does; one whose mounting panics is not served.\<close>

definition through_route ::
    "handlers \<Rightarrow> envelope \<Rightarrow> string \<Rightarrow> bool \<Rightarrow> (session option \<Rightarrow> account_snapshot option \<Rightarrow> answering) \<Rightarrow> answering" where
  "through_route h en tag hidden k =
     (case registry_wrap (hd_registry h) tag hidden of
        None \<Rightarrow> page Page_404
      | Some Open_to_all \<Rightarrow> k None None
      | Some Behind_api_key \<Rightarrow> if en_api_key en then k None None else page (Failed 401)
      | Some (Behind_roles hid policy allowed) \<Rightarrow>
          requireRoleCore (hd_sess h) (rg_resolver (hd_registry h)) hid policy allowed (en_cookie en)
            (\<lambda>sess snap. k (Some sess) (Some snap)) (\<lambda>(c, t). ret (c, turned t)))"

definition handle_account :: "handlers \<Rightarrow> envelope \<times> account_request \<Rightarrow> answering" where
  "handle_account h q = (case q of (en, r) \<Rightarrow> through_route h en (fst (route_of r)) (snd (route_of r)) (handler_of h en r))"

definition run_accounts ::
    "handlers \<Rightarrow> (envelope \<times> account_request) move list \<Rightarrow> site \<Rightarrow> (site, account_failure, cookie_change \<times> shown) panel" where
  "run_accounts h xs s = run_panel let_pass (handle_account h) xs (s, [])"

end
