(* ===== verification/Account_Runs.thy ===== *)
theory Account_Runs
  imports Account_Handlers
begin

text \<open>
  Requests one at a time: what a task does when it has the site to itself and no connection
  loses anything, computed statement by statement.
\<close>

definition stmt :: "'d \<Rightarrow> ('d conn, 'e, 'a) prog \<Rightarrow> ('e + 'a) \<times> 'd" where
  "stmt d m = (case m \<lparr>data = d, faults = []\<rparr> of (r, c) \<Rightarrow> (r, data c))"

lemma stmt_simps [simp]:
  "stmt d (query e f) = (Inr (f d), d)"
  "stmt d (exec e g) = (Inr (), g d)"
  "stmt d (sql e h) = (case h d of None \<Rightarrow> (Inl e, d) | Some (x, d') \<Rightarrow> (Inr x, d'))"
  "stmt d (exec_opt e k) = (case k d of None \<Rightarrow> (Inl e, d) | Some d' \<Rightarrow> (Inr (), d'))"
  "stmt d (query_row e n l) = (case l d of None \<Rightarrow> (Inl n, d) | Some x \<Rightarrow> (Inr x, d))"
  by (auto simp: stmt_def query_def exec_def exec_opt_def query_row_def bindE_def sql_def no_fault retE_def failE_def split: option.split)

lemma stmt_counted [simp]:
  "stmt d (found_one (sql e h)) = (case h d of None \<Rightarrow> (Inl e, d) | Some (n, d') \<Rightarrow> (if n = 0 then Inl (Account ErrUserNotFound) else Inr (), d'))"
  "stmt p (affected a (sql e j)) = (case j p of None \<Rightarrow> (Inl e, p) | Some (m, p') \<Rightarrow> (if m = 0 then Inl (Account a) else Inr (), p'))"
  by (auto simp: stmt_def found_one_def affected_def bindE_def sql_def no_fault retE_def failE_def split: option.split)

lemma stmt_VerifyPassword [simp]:
  "stmt d (VerifyPassword i p) = (case find (\<lambda>r. lo_account_id r = i) (lo_login d) of
     None \<Rightarrow> (Inl (Account ErrUserNotFound), d) | Some r \<Rightarrow> (Inr (lo_user_pass r = p), d))"
  by (auto simp: stmt_def VerifyPassword_def bindE_def query_row_def query_def sql_def no_fault retE_def failE_def split: option.split)

lemma alone_stmt [simp]:
  "alone (on_panel m) s = (case stmt (st_panel s) m of (r, d) \<Rightarrow> Some (r, s\<lparr>st_panel := d\<rparr>))"
  "alone (on_login l) s = (case stmt (st_login s) l of (r', d') \<Rightarrow> Some (r', s\<lparr>st_login := d'\<rparr>))"
  by (simp_all add: on_panel_def on_login_def alone_atomic stmt_def split: prod.split)

lemma alone_site [simp]:
  "alone time_Now s = Some (Inr (db_now (st_panel s)), s)"
  "alone (draw w) s = Some (Inr (wo_random w (st_drawn s)), s\<lparr>st_drawn := st_drawn s + 1\<rparr>)"
  "alone (SendAsync to subject url) s = Some (Inr (), s\<lparr>st_mail := (to, subject, url) # st_mail s\<rparr>)"
  by (simp_all add: time_Now_def draw_def SendAsync_def ret_def)

lemma same_db [simp]: "s\<lparr>st_panel := st_panel s\<rparr> = s" "s\<lparr>st_login := st_login s\<rparr> = s"
  by (cases s, simp)+

lemmas alone_defs = alone_andThen alone_bind

end
