(* ===== verification/Account_Logins.thy ===== *)
theory Account_Logins
  imports Account_Runs
begin

text \<open>
  Logins one after another: how many passwords of an account can be tried. A login is alone
  with the site while it runs, time passes between one and the next.
\<close>

section \<open>Logins in a row\<close>

text \<open>What each of a list of logins was answered, and when; each comes some time after the one before it.\<close>

primrec run_logins :: "account_service \<Rightarrow> (nat \<times> login_command) list \<Rightarrow> site \<Rightarrow>
    (int \<times> login_command \<times> (account_failure + get_dto \<times> tier)) list" where
  "run_logins s [] st = []"
| "run_logins s (x # xs) st =
     (let st1 = let_pass (fst x) st
      in case alone (Authenticate s (snd x)) st1 of
           None \<Rightarrow> []
         | Some (r, st2) \<Rightarrow> (db_now (st_panel st1), snd x, r) # run_logins s xs st2)"

definition login_name :: "login_command \<Rightarrow> string" where "login_name cmd = TrimSpace (lc_Username cmd)"

definition wrong_password :: "account_failure + get_dto \<times> tier \<Rightarrow> bool" where
  "wrong_password r \<longleftrightarrow> r = Inl (Account ErrInvalidCredentials)"

definition logged_in :: "account_failure + get_dto \<times> tier \<Rightarrow> bool" where "logged_in r \<longleftrightarrow> (case r of Inl _ \<Rightarrow> False | Inr _ \<Rightarrow> True)"

definition password_of :: "world \<Rightarrow> string \<Rightarrow> site \<Rightarrow> string option" where
  "password_of w u st = map_option lo_user_pass (find (\<lambda>r. wo_same w (lo_userid r) u) (lo_login (st_login st)))"

text \<open>The times of the failed attempts kept for a name.\<close>

definition failed_at :: "world \<Rightarrow> string \<Rightarrow> site \<Rightarrow> int list" where
  "failed_at w k st = map la_attempted_at (filter (\<lambda>a. sql_LOWER w (la_username a) = k \<and> \<not> la_success a) (cp_login_attempts (st_panel st)))"

lemma failures_since_eq: "failures_since w k c0 (cp_login_attempts (st_panel st)) = filter (\<lambda>t. c0 < t) (failed_at w k st)"
  unfolding failures_since_def failed_at_def filter_map comp_def filter_filter by (rule arg_cong [where f = "map _"]) (rule filter_cong, auto)

lemma failed_at_let_pass [simp]: "failed_at w k (let_pass n st) = failed_at w k st"
  by (simp add: failed_at_def let_pass_def)

text \<open>How one login ends: locked out, refused and recorded, or through.\<close>

definition locked_out :: "int list \<Rightarrow> int \<Rightarrow> bool" where
  "locked_out ts now \<longleftrightarrow>
     (let us = filter (\<lambda>t. now - seconds 900 < t) ts; b = Backoff DefaultLockoutPolicy (int (length us))
      in 0 < b \<and> now - (case latest us of None \<Rightarrow> 0 | Some t \<Rightarrow> t) < b)"

definition attempt_row :: "string \<Rightarrow> int option \<Rightarrow> login_command \<Rightarrow> bool \<Rightarrow> int \<Rightarrow> attempt" where
  "attempt_row u i cmd ok now =
     \<lparr>la_username = u, la_account_id = i, la_ip = (case lc_IP cmd of None \<Rightarrow> ''0.0.0.0'' | Some a \<Rightarrow> a),
      la_user_agent = lc_UserAgent cmd, la_success = ok, la_attempted_at = now\<rparr>"

text \<open>The site after an attempt was recorded, if its texts can be stored.\<close>

definition recorded :: "world \<Rightarrow> string \<Rightarrow> int option \<Rightarrow> login_command \<Rightarrow> bool \<Rightarrow> site \<Rightarrow> site" where
  "recorded w u i cmd ok st =
     (let a = attempt_row u i cmd ok (db_now (st_panel st));
          d = (st_panel st)\<lparr>cp_login_attempts := cp_login_attempts (st_panel st) @ [a]\<rparr>; k = ToLower w u
      in if \<not> attempt_check a then st
         else if ok \<and> storable k
           then st\<lparr>st_panel := d\<lparr>cp_login_attempts := del_where (\<lambda>a. sql_LOWER w (la_username a) = k \<and> \<not> la_success a) (cp_login_attempts d)\<rparr>\<rparr>
         else st\<lparr>st_panel := d\<rparr>)"

lemma alone_recorded: "alone (record_attempt s u i cmd ok) st = Some (Inr (), recorded (as_world s) u i cmd ok st)"
  by (simp add: record_attempt_def attempt_Record_def alone_defs insert_attempt_def clear_failures_def Let_def recorded_def attempt_row_def)

lemma recorded_now [simp]: "db_now (st_panel (recorded w u i cmd ok st)) = db_now (st_panel st)"
  by (simp add: recorded_def Let_def)

lemma to_lower_zero [simp]: "CHR 0x00 \<in> set (to_lower u) \<longleftrightarrow> CHR 0x00 \<in> set u"
proof -
  have "char_of (of_char c + 32 :: nat) \<noteq> CHR 0x00" if "65 \<le> (of_char c :: nat)" "(of_char c :: nat) \<le> 90" for c
  proof
    assume "char_of (of_char c + 32 :: nat) = CHR 0x00"
    then have "of_char (char_of (of_char c + 32 :: nat)) = (of_char CHR 0x00 :: nat)" by (rule arg_cong)
    with that show False by (simp add: of_char_of)
  qed
  then have "(if of_char c \<in> {65 .. 90 :: nat} then char_of (of_char c + 32 :: nat) else c) = CHR 0x00 \<longleftrightarrow> c = CHR 0x00" for c
    by auto
  then show ?thesis by (simp only: to_lower_def set_map image_iff) metis
qed

text \<open>A name in ASCII is compared as the database compares it.\<close>

lemma ascii_key:
  assumes "ascii u"
  shows "sql_LOWER w u = to_lower u" "ToLower w u = to_lower u" "storable (to_lower u) \<Longrightarrow> length u \<le> 64 \<Longrightarrow> varchar 64 u"
proof -
  show "sql_LOWER w u = to_lower u" "ToLower w u = to_lower u" using assms by (simp_all add: sql_LOWER_def ToLower_def)
  assume "storable (to_lower u)" and "length u \<le> 64"
  with assms show "varchar 64 u" by (simp add: varchar_def storable_def ascii_def ascii_text)
qed

text \<open>What a login does, statement by statement.\<close>

lemma alone_Authenticate:
  assumes "login_name cmd \<noteq> []" and "length (login_name cmd) \<le> 23"
  shows "alone (Authenticate s cmd) st =
    (let w = as_world s; u = login_name cmd; k = ToLower w u
     in if \<not> storable k then Some (Inl Account_store, st)
        else if locked_out (failed_at w k st) (db_now (st_panel st)) then Some (Inl (Account ErrAccountLocked), st)
        else case find (\<lambda>r. wo_same w (lo_userid r) u) (lo_login (st_login st)) of
            None \<Rightarrow> Some (Inl (Account ErrInvalidCredentials), recorded w u None cmd False st)
          | Some r \<Rightarrow>
              if lo_user_pass r \<noteq> lc_Password cmd then Some (Inl (Account ErrInvalidCredentials), recorded w u (Some (lo_account_id r)) cmd False st)
              else Some (Inr (dto_of (user_of r), ClassifyTier (us_State (user_of r)) (us_UnbanTime (user_of r)) (db_now (st_panel st))),
                   recorded w u (Some (lo_account_id r)) cmd True st))"
  using assms
  by (auto simp: user_of_def Authenticate_def Let_def login_name_def [symmetric] UsernameMaxLen_def alone_defs ConsecutiveFailures_def alone_recorded
      failures_since_eq DefaultLockoutPolicy_def GetCredentials_def locked_out_def
      split: option.splits)
section \<open>The failed attempts a login leaves\<close>

definition fair_login :: "login_command \<Rightarrow> bool" where
  "fair_login cmd \<longleftrightarrow> ascii (login_name cmd) \<and> storable (lc_UserAgent cmd)"

lemma failed_recorded:
  assumes "fair_login cmd" and "length (login_name cmd) \<le> 64" and "storable (to_lower (login_name cmd))"
  shows "failed_at w k (recorded w (login_name cmd) i cmd ok st) =
    (if k = to_lower (login_name cmd) then (if ok then [] else failed_at w k st @ [db_now (st_panel st)]) else failed_at w k st)"
proof -
  note key = ascii_key [where u = "login_name cmd"] and a = assms(1) [unfolded fair_login_def]
  from key(3) a assms(2,3) have "attempt_check (attempt_row (login_name cmd) i cmd ok now)" for now
    by (simp add: attempt_check_def attempt_row_def)
  with a assms(3) key(1,2) show ?thesis
    by (auto simp: recorded_def failed_at_def Let_def del_where_def attempt_row_def filter_empty_conv intro!: arg_cong [where f = "map _"] filter_cong)
qed

text \<open>A login of a name of the form's length, in letters of ASCII, from an agent whose name can be stored.\<close>

lemma login_leaves:
  assumes "login_name cmd \<noteq> []" and "length (login_name cmd) \<le> 23" and "fair_login cmd"
    and run: "alone (Authenticate s cmd) st = Some (r, st')"
  defines "now \<equiv> db_now (st_panel st)" and "u \<equiv> to_lower (login_name cmd)" and "ts \<equiv> \<lambda>k. failed_at (as_world s) k st"
  shows "db_now (st_panel st') = now" and "wrong_password r \<Longrightarrow> \<not> locked_out (ts u) now"
    and "logged_in r \<Longrightarrow> k \<noteq> u \<Longrightarrow> failed_at (as_world s) k st' = ts k"
    and "\<not> logged_in r \<Longrightarrow> failed_at (as_world s) k st' = ts k @ (if wrong_password r \<and> k = u then [now] else [])"
proof -
  note key = ascii_key(2) [where u = "login_name cmd" and w = "as_world s"]
  note f = failed_recorded [OF assms(3), of "as_world s"]
  from assms(3) have a: "ascii (login_name cmd)" by (simp add: fair_login_def)
  note run = run [unfolded alone_Authenticate [OF assms(1,2)] Let_def key [OF a]]
  show "db_now (st_panel st') = now" using run by (auto simp: now_def split: if_splits option.splits)
  show "wrong_password r \<Longrightarrow> \<not> locked_out (ts u) now"
    using run by (auto simp: wrong_password_def ts_def now_def u_def split: if_splits option.splits)
  show "logged_in r \<Longrightarrow> k \<noteq> u \<Longrightarrow> failed_at (as_world s) k st' = ts k"
    using run f assms(2) by (auto simp: logged_in_def ts_def u_def split: if_splits option.splits)
  show "\<not> logged_in r \<Longrightarrow> failed_at (as_world s) k st' = ts k @ (if wrong_password r \<and> k = u then [now] else [])"
    using run f assms(2) by (auto simp: logged_in_def wrong_password_def ts_def now_def u_def split: if_splits option.splits)
qed

lemma bad_name_leaves:
  assumes "login_name cmd = [] \<or> 23 < length (login_name cmd)"
  shows "alone (Authenticate s cmd) st = Some (Inl (Account ErrInvalidCredentials), st)"
  using assms by (auto simp: Authenticate_def Let_def login_name_def [symmetric] UsernameMaxLen_def)

section \<open>Guesses keep their distance\<close>

lemma Backoff_closed:
  "Backoff DefaultLockoutPolicy (int n) = (if n < 5 then 0 else min (seconds 30 * 2 ^ min (n - 5) 16) (seconds 1800))"
proof (cases "n < 5")
  case False
  let ?k = "min (n - 5) 16"
  have k: "nat (min (int n - 5) 16) = ?k" using False by linarith
  have "(2 :: int) ^ ?k \<le> 2 ^ 16" by (rule power_increasing) simp_all
  then have le: "seconds 30 * 2 ^ ?k < 2 ^ 63" by (simp add: seconds_def)
  have pos: "0 < seconds 30 * 2 ^ ?k" by (simp add: seconds_def)
  from le pos have w: "wrap64 (seconds 30 * 2 ^ ?k) = seconds 30 * 2 ^ ?k" by (intro wrap64_id) linarith+
  show ?thesis using False pos by (simp add: Backoff_def DefaultLockoutPolicy_def Let_def k w)
qed (simp add: Backoff_def DefaultLockoutPolicy_def)

lemma Backoff_mono: "m \<le> n \<Longrightarrow> Backoff DefaultLockoutPolicy (int m) \<le> Backoff DefaultLockoutPolicy (int n)"
proof -
  assume "m \<le> n"
  then have "(2 :: int) ^ min (m - 5) 16 \<le> 2 ^ min (n - 5) 16" by (intro power_increasing) auto
  then have "seconds 30 * 2 ^ min (m - 5) 16 \<le> seconds 30 * 2 ^ min (n - 5) 16" by (simp add: seconds_def)
  moreover have "0 \<le> min (seconds 30 * 2 ^ k) (seconds 1800)" for k by (simp add: seconds_def)
  ultimately show ?thesis using \<open>m \<le> n\<close> by (auto simp: Backoff_closed intro: min.mono)
qed

lemma latest_ge: "t \<in> set ts \<Longrightarrow> \<exists>u. latest ts = Some u \<and> t \<le> u"
proof -
  have "t \<in> set (x # xs) \<Longrightarrow> t \<le> foldr max xs x" for x xs by (induction xs) (auto simp: le_max_iff_disj)
  then show "t \<in> set ts \<Longrightarrow> ?thesis" by (cases ts) (auto simp: latest_def)
qed

lemma latest_in: "latest ts = Some t \<Longrightarrow> t \<in> set ts"
proof -
  have "foldr max xs x \<in> set (x # xs)" for x :: int and xs by (induction xs) (auto simp: max_def)
  then show "latest ts = Some t \<Longrightarrow> t \<in> set ts" by (cases ts) (auto simp: latest_def)
qed

definition recent :: "int \<Rightarrow> int list \<Rightarrow> int list" where "recent now = filter (\<lambda>t. now - seconds 900 < t)"

text \<open>A failure more only makes a lock longer.\<close>

lemma locked_out_more:
  assumes "locked_out gs now" and "\<And>p. length (filter p gs) \<le> length (filter p ts)" and "set gs \<subseteq> set ts"
  shows "locked_out ts now"
proof -
  from assms(1) obtain b where b: "b = Backoff DefaultLockoutPolicy (int (length (recent now gs)))" "0 < b"
    and l: "now - (case latest (recent now gs) of None \<Rightarrow> 0 | Some t \<Rightarrow> t) < b"
    by (auto simp: locked_out_def recent_def Let_def)
  from b have "recent now gs \<noteq> []" by (auto simp: Backoff_closed split: if_splits)
  then obtain t where t: "latest (recent now gs) = Some t" by (auto simp: latest_def)
  with latest_in have "t \<in> set (recent now gs)" by blast
  with assms(3) have "t \<in> set (recent now ts)" by (auto simp: recent_def)
  with latest_ge obtain u where u: "latest (recent now ts) = Some u" "t \<le> u" by blast
  from assms(2) Backoff_mono have "b \<le> Backoff DefaultLockoutPolicy (int (length (recent now ts)))" by (simp add: b recent_def)
  with b(2) l t u show ?thesis by (simp add: locked_out_def Let_def recent_def [symmetric])
qed

text \<open>Times of guesses, the last one first, none of which came during a lock.\<close>

primrec spaced :: "int list \<Rightarrow> bool" where
  "spaced [] \<longleftrightarrow> True"
| "spaced (t # gs) \<longleftrightarrow> \<not> locked_out gs t \<and> (\<forall>g \<in> set gs. g \<le> t) \<and> spaced gs"

lemma spaced_append: "spaced (xs @ ys) \<Longrightarrow> spaced ys" by (induction xs) auto

lemma gap:
  assumes "spaced (t # g # gs)" and "5 \<le> n" and "n \<le> length (recent t (g # gs))"
  shows "Backoff DefaultLockoutPolicy (int n) \<le> t - g"
proof -
  let ?b = "Backoff DefaultLockoutPolicy (int (length (recent t (g # gs))))"
  from assms(3) Backoff_mono have b: "Backoff DefaultLockoutPolicy (int n) \<le> ?b" by blast
  with assms(2) have "0 < ?b" by (auto simp: Backoff_closed seconds_def min_def split: if_splits)
  moreover from assms(2,3) have "recent t (g # gs) \<noteq> []" by auto
  then obtain u where u: "latest (recent t (g # gs)) = Some u" by (auto simp: latest_def)
  then have "u \<in> set (recent t (g # gs))" by (rule latest_in)
  with assms(1) have "g \<in> set (recent t (g # gs))" by (auto simp: recent_def split: if_splits)
  with latest_ge u have "g \<le> u" by fastforce
  ultimately show ?thesis using assms(1) b u by (simp add: locked_out_def Let_def recent_def [symmetric])
qed

lemma ten_guesses:
  assumes "spaced (a # b # c # d # e # f # g # h # i # j # gs)"
  shows "seconds 900 \<le> a - j"
proof (rule ccontr)
  note vals = Backoff_closed [of 9, simplified] Backoff_closed [of 8, simplified] Backoff_closed [of 7, simplified]
    Backoff_closed [of 6, simplified] Backoff_closed [of 5, simplified]
  assume near: "\<not> seconds 900 \<le> a - j"
  have "seconds 480 \<le> a - b" using gap [of a b "c # d # e # f # g # h # i # j # gs" 9] assms near by (simp add: recent_def vals seconds_def)
  moreover have "seconds 240 \<le> b - c" using gap [of b c "d # e # f # g # h # i # j # gs" 8] assms near by (simp add: recent_def vals seconds_def)
  moreover have "seconds 120 \<le> c - d" using gap [of c d "e # f # g # h # i # j # gs" 7] assms near by (simp add: recent_def vals seconds_def)
  moreover have "seconds 60 \<le> d - e" using gap [of d e "f # g # h # i # j # gs" 6] assms near by (simp add: recent_def vals seconds_def)
  moreover have "seconds 30 \<le> e - f" using gap [of e f "g # h # i # j # gs" 5] assms near by (simp add: recent_def vals seconds_def)
  ultimately show False using assms near by (simp add: seconds_def)
qed

lemma nine_guesses:
  assumes "spaced gs"
  shows "length (filter (\<lambda>t. a \<le> t \<and> t < a + seconds 900) gs) \<le> 9"
proof (rule ccontr)
  assume many: "\<not> ?thesis"
  define hs where "hs = dropWhile (\<lambda>t. a + seconds 900 \<le> t) gs"
  from spaced_append [of "takeWhile (\<lambda>t. a + seconds 900 \<le> t) gs" hs] assms have hs: "spaced hs" by (simp add: hs_def)
  have "filter (\<lambda>t. a \<le> t \<and> t < a + seconds 900) gs = filter (\<lambda>t. a \<le> t \<and> t < a + seconds 900) hs"
    unfolding hs_def by (induction gs) auto
  also have "\<dots> = takeWhile (\<lambda>t. a \<le> t) hs"
  proof -
    have below: "\<forall>t \<in> set hs. t < a + seconds 900"
      using assms unfolding hs_def by (induction gs) auto
    have "spaced ks \<Longrightarrow> filter (\<lambda>t. a \<le> t) ks = takeWhile (\<lambda>t. a \<le> t) ks" for ks
    proof (induction ks)
      case (Cons t ks)
      from Cons.prems have "\<not> a \<le> t \<Longrightarrow> filter (\<lambda>t. a \<le> t) ks = []" by (auto simp: filter_empty_conv)
      with Cons show ?case by (cases "a \<le> t") simp_all
    qed simp
    with hs have "filter (\<lambda>t. a \<le> t) hs = takeWhile (\<lambda>t. a \<le> t) hs" by blast
    moreover from below have "filter (\<lambda>t. a \<le> t \<and> t < a + seconds 900) hs = filter (\<lambda>t. a \<le> t) hs" by (intro filter_cong) auto
    ultimately show ?thesis by simp
  qed
  finally have "10 \<le> length (takeWhile (\<lambda>t. a \<le> t) hs)" using many by simp
  then have 10: "10 \<le> length hs" and in_window: "\<forall>i < 10. a \<le> hs ! i"
    using length_takeWhile_le [of "\<lambda>t. a \<le> t" hs] by (simp, metis (mono_tags, lifting) nth_mem order_less_le_trans set_takeWhileD takeWhile_nth)
  then obtain h0 h1 h2 h3 h4 h5 h6 h7 h8 h9 rest where h: "hs = h0 # h1 # h2 # h3 # h4 # h5 # h6 # h7 # h8 # h9 # rest"
    by (auto simp: numeral_eq_Suc Suc_le_length_iff)
  with ten_guesses hs have "seconds 900 \<le> h0 - h9" by blast
  moreover from in_window h have "a \<le> h9" by (auto dest: spec [of _ 9])
  moreover have "h0 < a + seconds 900" using h hd_dropWhile [of "\<lambda>t. a + seconds 900 \<le> t" gs] by (simp add: hs_def [symmetric])
  ultimately show False by simp
qed

section \<open>The guesses of a row of logins\<close>

definition guesses :: "string \<Rightarrow> (int \<times> login_command \<times> (account_failure + get_dto \<times> tier)) list \<Rightarrow> int list" where
  "guesses k out = map fst (filter (\<lambda>(t, cmd, r). to_lower (login_name cmd) = k \<and> wrong_password r) out)"

definition no_login :: "string \<Rightarrow> (int \<times> login_command \<times> (account_failure + get_dto \<times> tier)) list \<Rightarrow> bool" where
  "no_login k out \<longleftrightarrow> list_all (\<lambda>(t, cmd, r). to_lower (login_name cmd) = k \<longrightarrow> \<not> logged_in r) out"

lemma guesses_spaced:
  assumes "k \<noteq> []" and "length k \<le> 23" and "list_all (\<lambda>x. fair_login (snd x)) xs" and "no_login k (run_logins s xs st)"
    and "spaced gs" and "\<forall>g \<in> set gs. g \<le> db_now (st_panel st)" and "set gs \<subseteq> set (failed_at (as_world s) k st)"
    and "\<And>p. length (filter p gs) \<le> length (filter p (failed_at (as_world s) k st))"
  shows "spaced (rev (guesses k (run_logins s xs st)) @ gs)"
  using assms(3-)
proof (induction xs arbitrary: st gs)
  case Nil
  then show ?case by (simp add: guesses_def)
next
  case (Cons x xs)
  let ?w = "as_world s" and ?cmd = "snd x" and ?st = "let_pass (fst x) st"
  let ?now = "db_now (st_panel ?st)" and ?u = "to_lower (login_name ?cmd)"
  have now: "db_now (st_panel st) \<le> ?now" by (simp add: let_pass_def)
  have fair: "fair_login ?cmd" using Cons.prems(1) by simp
  have len: "length ?u = length (login_name ?cmd)" "?u = [] \<longleftrightarrow> login_name ?cmd = []" by (simp_all add: to_lower_def)
  show ?case
  proof (cases "alone (Authenticate s ?cmd) ?st")
    case None
    with Cons.prems show ?thesis by (simp add: guesses_def)
  next
    case (Some a)
    then obtain r st2 where run: "alone (Authenticate s ?cmd) ?st = Some (r, st2)" by (cases a) auto
    let ?out = "run_logins s xs st2"
    have out: "run_logins s (x # xs) st = (?now, ?cmd, r) # ?out" by (simp add: run)
    let ?g = "?u = k \<and> wrong_password r"
    have no: "?u = k \<longrightarrow> \<not> logged_in r" "no_login k ?out" using Cons.prems(2) out by (simp_all add: no_login_def)
    have st2: "db_now (st_panel st2) = ?now" "?g \<Longrightarrow> \<not> locked_out (failed_at ?w k st) ?now"
      "failed_at ?w k st2 = failed_at ?w k st @ (if ?g then [?now] else [])"
    proof -
      show "db_now (st_panel st2) = ?now"
      proof (cases "login_name ?cmd = [] \<or> 23 < length (login_name ?cmd)")
        case False
        with login_leaves(1) [OF _ _ fair run] show ?thesis by simp
      qed (use run bad_name_leaves in auto)
      show "?g \<Longrightarrow> \<not> locked_out (failed_at ?w k st) ?now"
        using login_leaves(2) [OF _ _ fair run] assms(1,2) len by auto
      show "failed_at ?w k st2 = failed_at ?w k st @ (if ?g then [?now] else [])"
      proof (cases "login_name ?cmd = [] \<or> 23 < length (login_name ?cmd)")
        case True
        then have "?u \<noteq> k" using assms(1,2) len by auto
        moreover have "st2 = ?st" using run bad_name_leaves [OF True] by simp
        ultimately show ?thesis by simp
      next
        case False
        show ?thesis
        proof (cases "logged_in r")
          case True
          then have "\<not> wrong_password r" by (auto simp: logged_in_def wrong_password_def)
          with login_leaves(3) [OF _ _ fair run] False True no(1) show ?thesis by auto
        next
          case nok: False
          with login_leaves(4) [OF _ _ fair run, of k] False show ?thesis by auto
        qed
      qed
    qed
    let ?gs = "(if ?g then [?now] else []) @ gs"
    have "spaced ?gs" using Cons.prems(3,4) now st2(2) locked_out_more [OF _ Cons.prems(6,5)] by force
    moreover have "\<forall>g \<in> set ?gs. g \<le> db_now (st_panel st2)" using Cons.prems(4) now st2(1) by force
    moreover have "set ?gs \<subseteq> set (failed_at ?w k st2)" using Cons.prems(5) st2(3) by auto
    moreover have "length (filter p ?gs) \<le> length (filter p (failed_at ?w k st2))" for p using Cons.prems(6) st2(3) by simp
    ultimately have "spaced (rev (guesses k ?out) @ ?gs)" using Cons.prems(1) no(2) by (intro Cons.IH) auto
    then show ?thesis by (cases ?g) (auto simp: out guesses_def simp del: run_logins.simps)
  qed
qed

lemma nine_guesses_answered:
  assumes "k \<noteq> []" and "length k \<le> 23" and "list_all (\<lambda>x. fair_login (snd x)) xs" and "no_login k (run_logins s xs st)"
  shows "length (filter (\<lambda>t. a \<le> t \<and> t < a + seconds 900) (guesses k (run_logins s xs st))) \<le> 9"
proof -
  from guesses_spaced [OF assms, of "[]"] have "spaced (rev (guesses k (run_logins s xs st)))" by simp
  from nine_guesses [OF this, of a] show ?thesis by (simp add: rev_filter [symmetric])
qed

end
