(* ===== verification/Access_Gate.thy ===== *)
theory Access_Gate
  imports Account_Runs
begin

text \<open>
  The access configuration as it is read, and the gate that is built from it: which accounts an
  entry admits, and that the gate admits those.
\<close>

section \<open>What a configuration says\<close>

text \<open>
  A custom role is an account's group; \<open>Member\<close> is every account, \<open>Verified\<close> every account that
  confirmed its address, and administrators may do all that an account may do.
\<close>

definition role_admits :: "(string \<times> int) list \<Rightarrow> int \<Rightarrow> string \<Rightarrow> bool" where
  "role_admits roles gid name \<longleftrightarrow> name = ''Member'' \<or> name = ''Verified'' \<or> (name, gid) \<in> set roles"

definition entry_admits :: "(string \<times> int) list \<Rightarrow> bool \<Rightarrow> access_entry \<Rightarrow> int \<Rightarrow> tier \<Rightarrow> bool" where
  "entry_admits roles allowTemp e gid t \<longleftrightarrow>
     (if ae_Roles e = [''Admin''] then gid = 99 \<and> t = TierActive
      else (t = TierActive \<or> t = TierUnverified \<and> ae_Roles e = [''Member''] \<or> t = TierTempBanned \<and> allowTemp \<and> \<not> RequiresUnrestricted e) \<and>
           (gid = 99 \<or> list_ex (role_admits roles gid) (ae_Roles e)))"

section \<open>Names and roles\<close>

text \<open>The configuration of the roles is a map: a name stands in it once.\<close>

definition roles_ok :: "(string \<times> int) list \<Rightarrow> bool" where
  "roles_ok roles \<longleftrightarrow> validateRolesConfig roles \<and> distinct (map fst roles)"

lemma resolver_lists:
  "rr_byGroupID (fold add_role roles r) = rev (map (\<lambda>x. (snd x, \<lparr>ro_Name = fst x, ro_GroupID = snd x\<rparr>)) roles) @ rr_byGroupID r"
  "rr_byName (fold add_role roles r) = rev (map (\<lambda>x. (fst x, \<lparr>ro_Name = fst x, ro_GroupID = snd x\<rparr>)) roles) @ rr_byName r"
  by (induction roles arbitrary: r) (auto simp: add_role_def Let_def)

lemma map_of_rev_map:
  assumes "distinct (map f xs)"
  shows "map_of (rev (map (\<lambda>x. (f x, h x)) xs)) k = Some v \<longleftrightarrow> (\<exists>x \<in> set xs. f x = k \<and> h x = v)"
proof -
  have "distinct (map fst (rev (map (\<lambda>x. (f x, h x)) xs)))" using assms by (simp add: rev_map [symmetric] comp_def)
  then show ?thesis by (auto simp: map_of_eq_Some_iff)
qed

lemma Resolve_ok:
  assumes "roles_ok roles"
  shows "(n, g) \<in> set roles \<Longrightarrow> Resolve (NewRoleResolver roles) g = \<lparr>ro_Name = n, ro_GroupID = g\<rparr>"
    and "Resolve (NewRoleResolver roles) 99 = RoleAdmin"
    and "g \<noteq> 99 \<Longrightarrow> \<forall>n. (n, g) \<notin> set roles \<Longrightarrow> Resolve (NewRoleResolver roles) g = RolePlayer"
proof -
  let ?m = "rev (map (\<lambda>x. (snd x, \<lparr>ro_Name = fst x, ro_GroupID = snd x\<rparr>)) roles)"
  have m: "map_of ?m k = Some v \<longleftrightarrow> (\<exists>n. (n, k) \<in> set roles \<and> v = \<lparr>ro_Name = n, ro_GroupID = k\<rparr>)" for k v
    using map_of_rev_map [of snd roles "\<lambda>x. \<lparr>ro_Name = fst x, ro_GroupID = snd x\<rparr>" k v] assms
    by (force simp: roles_ok_def validateRolesConfig_def)
  have r: "Resolve (NewRoleResolver roles) g =
      (case map_of ?m g of Some r \<Rightarrow> r | None \<Rightarrow> if g = 99 then RoleAdmin else RolePlayer)" for g
    by (simp add: Resolve_def NewRoleResolver_def resolver_lists map_add_def RoleAdmin_def split: option.split)
  show "(n, g) \<in> set roles \<Longrightarrow> Resolve (NewRoleResolver roles) g = \<lparr>ro_Name = n, ro_GroupID = g\<rparr>"
  proof -
    assume "(n, g) \<in> set roles"
    with m have "map_of ?m g = Some \<lparr>ro_Name = n, ro_GroupID = g\<rparr>" by blast
    with r show ?thesis by simp
  qed
  have "(n, 99) \<notin> set roles" for n using assms by (auto simp: roles_ok_def validateRolesConfig_def list_all_iff)
  with m have "map_of ?m 99 = None" by (cases "map_of ?m 99") auto
  with r show "Resolve (NewRoleResolver roles) 99 = RoleAdmin" by simp
  show "g \<noteq> 99 \<Longrightarrow> \<forall>n. (n, g) \<notin> set roles \<Longrightarrow> Resolve (NewRoleResolver roles) g = RolePlayer"
  proof -
    assume "g \<noteq> 99" "\<forall>n. (n, g) \<notin> set roles"
    with m have "map_of ?m g = None" by (cases "map_of ?m g") auto
    with r \<open>g \<noteq> 99\<close> show ?thesis by simp
  qed
qed

lemma GetRole_ok:
  assumes "roles_ok roles"
  shows "GetRole (NewRoleResolver roles) name = Some r \<longleftrightarrow>
    name = ''Public'' \<and> r = RolePublic \<or> (name = ''Member'' \<or> name = ''Verified'') \<and> r = RoleAuthenticated \<or>
    name = ''Admin'' \<and> r = RoleAdmin \<or> (\<exists>g. (name, g) \<in> set roles \<and> r = \<lparr>ro_Name = name, ro_GroupID = g\<rparr>)"
proof -
  let ?m = "rev (map (\<lambda>x. (fst x, \<lparr>ro_Name = fst x, ro_GroupID = snd x\<rparr>)) roles)"
  have m: "map_of ?m k = Some v \<longleftrightarrow> (\<exists>g. (k, g) \<in> set roles \<and> v = \<lparr>ro_Name = k, ro_GroupID = g\<rparr>)" for k v
    using map_of_rev_map [of fst roles "\<lambda>x. \<lparr>ro_Name = fst x, ro_GroupID = snd x\<rparr>" k v] assms
    by (force simp: roles_ok_def)
  have names: "(n, g) \<notin> set roles" if "n \<in> {''Public'', ''Member'', ''Verified'', ''Admin''}" for n g
    using assms that by (auto simp: roles_ok_def validateRolesConfig_def list_all_iff reservedRoleNames_def)
  have "map_of ?m ''Admin'' = None" using m names by (cases "map_of ?m ''Admin''") auto
  then have "GetRole (NewRoleResolver roles) name =
      (if name = ''Public'' then Some RolePublic else if name = ''Member'' \<or> name = ''Verified'' then Some RoleAuthenticated
       else if name = ''Admin'' then Some RoleAdmin else map_of ?m name)"
    by (auto simp: GetRole_def NewRoleResolver_def resolver_lists map_add_def RoleAdmin_def RolePublic_def split: option.split)
  moreover have "name \<in> {''Public'', ''Member'', ''Verified'', ''Admin''} \<Longrightarrow> (name, g) \<notin> set roles" for g by (rule names)
  ultimately show ?thesis by (cases "name \<in> {''Public'', ''Member'', ''Verified'', ''Admin''}") (auto simp: m [of name r])
qed

lemma all_roles_set: "all_roles r ns = Some rs \<Longrightarrow> set rs = {x. \<exists>n \<in> set ns. GetRole r n = Some x}"
  by (induction ns arbitrary: rs) (auto split: option.splits)

lemma roleAllowed_ok:
  assumes "roles_ok roles" and "all_roles (NewRoleResolver roles) ns = Some rs" and "''Public'' \<notin> set ns" and "''Admin'' \<notin> set ns"
  shows "roleAllowed (Resolve (NewRoleResolver roles) g) rs \<longleftrightarrow> g = 99 \<or> list_ex (role_admits roles g) ns"
proof -
  note get = GetRole_ok [OF assms(1)] and all = all_roles_set [OF assms(2)]
  have ids: "(n, g) \<in> set roles \<Longrightarrow> 0 < g \<and> g \<noteq> 99" for n g
    using assms(1) by (auto simp: roles_ok_def validateRolesConfig_def list_all_iff)
  have one: "(n, g) \<in> set roles \<Longrightarrow> (n', g) \<in> set roles \<Longrightarrow> n = n'" for n n' g
    using assms(1) eq_key_imp_eq_value [of "map prod.swap roles" g n n'] by (simp add: roles_ok_def validateRolesConfig_def comp_def prod.swap_def rev_image_eqI)
  consider "g = 99" | n where "(n, g) \<in> set roles" | "g \<noteq> 99" "\<forall>n. (n, g) \<notin> set roles" by blast
  then show ?thesis
  proof cases
    case 1
    with Resolve_ok(2) [OF assms(1)] show ?thesis by (simp add: roleAllowed_def)
  next
    case (2 n)
    have "g \<noteq> 99" using ids [OF 2] by simp
    moreover have "Resolve (NewRoleResolver roles) g = \<lparr>ro_Name = n, ro_GroupID = g\<rparr>" using Resolve_ok(1) [OF assms(1) 2] .
    ultimately show ?thesis using 2 ids one assms(3,4)
      by (auto simp: roleAllowed_def all get role_admits_def list_ex_iff RoleAdmin_def RoleAuthenticated_def RolePublic_def; fastforce)
  next
    case 3
    moreover have "Resolve (NewRoleResolver roles) g = RolePlayer" using Resolve_ok(3) [OF assms(1) 3] .
    ultimately show ?thesis using ids assms(3,4)
      by (auto simp: roleAllowed_def all get role_admits_def list_ex_iff RoleAdmin_def RoleAuthenticated_def RolePublic_def RolePlayer_def; fastforce)
  qed
qed

section \<open>A visitor at the gate\<close>

text \<open>Someone whose cookie holds the token of a session that has not expired, of an account that exists.\<close>

definition visits :: "session_service \<Rightarrow> string option \<Rightarrow> site \<Rightarrow> session \<Rightarrow> login_row \<Rightarrow> bool" where
  "visits ss cookie st se row \<longleftrightarrow>
     (case cookie of None \<Rightarrow> False | Some v \<Rightarrow> v \<noteq> [] \<and> decodeTokenToHash (ss_world ss) v = Some (se_TokenHash se)) \<and>
     find (\<lambda>s. se_TokenHash s = se_TokenHash se) (cp_sessions (st_panel st)) = Some se \<and>
     \<not> session_IsExpired se (db_now (st_panel st)) \<and>
     find (\<lambda>r. lo_account_id r = se_UserID se) (lo_login (st_login st)) = Some row"

definition tier_of :: "login_row \<Rightarrow> int \<Rightarrow> tier" where
  "tier_of row now = ClassifyTier (us_State (user_of row)) (us_UnbanTime (user_of row)) now"

text \<open>The session, and the site, once the gate has seen them: the session lasts from now on again.\<close>

definition seen_session :: "session_service \<Rightarrow> session \<Rightarrow> int \<Rightarrow> session" where
  "seen_session ss se now = se\<lparr>se_ExpiresAt := now + ss_ttl ss, se_LastSeenAt := now\<rparr>"

definition seen_site :: "session_service \<Rightarrow> session \<Rightarrow> site \<Rightarrow> site" where
  "seen_site ss se st =
     (let d = st_panel st
      in st\<lparr>st_panel := d\<lparr>cp_sessions := upd_where (\<lambda>s. se_TokenHash s = se_TokenHash se)
           (\<lambda>s. s\<lparr>se_LastSeenAt := db_now d, se_ExpiresAt := db_now d + ss_ttl ss\<rparr>) (cp_sessions d)\<rparr>\<rparr>)"

definition snapshot_of :: "login_row \<Rightarrow> account_snapshot" where
  "snapshot_of row = \<lparr>sn_UnbanTime = us_UnbanTime (user_of row), sn_Username = lo_userid row, sn_UserID = lo_account_id row,
     sn_GroupID = lo_group_id row, sn_State = lo_state row\<rparr>"

text \<open>Whom a mounted gate lets through.\<close>

definition policy_admits :: "role_resolver \<Rightarrow> auth_policy \<Rightarrow> role list \<Rightarrow> int \<Rightarrow> tier \<Rightarrow> bool" where
  "policy_admits res p allowed gid t \<longleftrightarrow>
     t \<noteq> TierPermaBanned \<and> \<not> (t = TierUnverified \<and> ap_RequireVerified p) \<and>
     \<not> (t = TierTempBanned \<and> (\<not> ap_AllowTempBannedLogin p \<or> ap_Unrestricted p)) \<and> roleAllowed (Resolve res gid) allowed"

lemma validate_visit:
  assumes "visits ss (Some v) st se row"
  shows "alone (sessions_Validate ss v) st = Some (Inr (seen_session ss se (db_now (st_panel st))), seen_site ss se st)"
proof -
  from assms have f: "find (\<lambda>s. se_TokenHash s = se_TokenHash se) (cp_sessions (st_panel st)) = Some se"
    "decodeTokenToHash (ss_world ss) v = Some (se_TokenHash se)" "\<not> session_IsExpired se (db_now (st_panel st))"
    by (auto simp: visits_def)
  from f(1) have "filter (\<lambda>s. se_TokenHash s = se_TokenHash se) (cp_sessions (st_panel st)) \<noteq> []"
    by (auto simp: find_Some_iff filter_empty_conv)
  with f show ?thesis
    by (simp add: sessions_Validate_def alone_defs GetByTokenHash_def session_Refresh_def Let_def seen_session_def seen_site_def)
qed

lemma Destroy_alone: "\<exists>s'. alone (sessions_Destroy ss v) st = Some (Inr (), s')"
  by (auto simp: sessions_Destroy_def alone_defs session_Delete_def split: option.split)

lemma gate_visit:
  assumes v: "visits ss (Some v) st se row" and rej: "\<And>c t s. alone (reject (c, t)) s = Some (Inr (c, turned t), s)"
  defines "now \<equiv> db_now (st_panel st)"
  shows "policy_admits res p allowed (lo_group_id row) (tier_of row now) \<Longrightarrow>
      alone (requireRoleCore ss res hid p allowed (Some v) next' reject) st =
      alone (next' (seen_session ss se now) (snapshot_of row)) (seen_site ss se st)"
    and "\<not> policy_admits res p allowed (lo_group_id row) (tier_of row now) \<Longrightarrow>
      \<exists>c t s'. \<forall>next'. alone (requireRoleCore ss res hid p allowed (Some v) next' reject) st = Some (Inr (c, turned t), s')"
proof -
  let ?st = "seen_site ss se st"
  have keep: "st_login ?st = st_login st" "db_now (st_panel ?st) = now" "?st\<lparr>st_login := st_login st\<rparr> = ?st"
    by (simp_all add: seen_site_def Let_def now_def)
  have row: "find (\<lambda>r. lo_account_id r = se_UserID se) (lo_login (st_login st)) = Some row" "v \<noteq> []"
    using v by (auto simp: visits_def)
  have id: "se_UserID (seen_session ss se t) = se_UserID se" for t by (simp add: seen_session_def)
  have banned: "\<exists>c t s'. alone (andThen (rejectBanned ss hid notice v) reject) s = Some (Inr (c, turned t), s')" for notice s
    using Destroy_alone [of ss v s] by (auto simp: rejectBanned_def alone_defs rej)
  note run = requireRoleCore_def alone_defs validate_visit [OF v, folded now_def] user_GetByID_def selectLoginRow_def keep row id Let_def
  note pol = policy_admits_def tier_of_def snapshot_of_def
  show "policy_admits res p allowed (lo_group_id row) (tier_of row now) \<Longrightarrow>
      alone (requireRoleCore ss res hid p allowed (Some v) next' reject) st =
      alone (next' (seen_session ss se now) (snapshot_of row)) ?st"
    by (auto simp: run pol user_of_def)
  have "\<exists>c t s'. alone (requireRoleCore ss res hid p allowed (Some v) undefined reject) st = Some (Inr (c, turned t), s')"
    if "\<not> policy_admits res p allowed (lo_group_id row) (tier_of row now)"
    using that banned by (auto simp: run pol rej alone_defs user_of_def)
  moreover have "alone (requireRoleCore ss res hid p allowed (Some v) next' reject) st = alone (requireRoleCore ss res hid p allowed (Some v) undefined reject) st"
    if "\<not> policy_admits res p allowed (lo_group_id row) (tier_of row now)" for next'
    using that by (auto simp: run pol user_of_def)
  ultimately show "\<not> policy_admits res p allowed (lo_group_id row) (tier_of row now) \<Longrightarrow>
      \<exists>c t s'. \<forall>next'. alone (requireRoleCore ss res hid p allowed (Some v) next' reject) st = Some (Inr (c, turned t), s')"
    by metis
qed

lemma validated:
  assumes "alone (sessions_Validate ss v) st = Some (Inr sess, s1)"
  obtains se where "decodeTokenToHash (ss_world ss) v = Some (se_TokenHash se)"
    "find (\<lambda>s. se_TokenHash s = se_TokenHash se) (cp_sessions (st_panel st)) = Some se" "\<not> session_IsExpired se (db_now (st_panel st))"
    "se_UserID sess = se_UserID se" "st_login s1 = st_login st"
proof -
  obtain h where h: "decodeTokenToHash (ss_world ss) v = Some h"
    using assms by (cases "decodeTokenToHash (ss_world ss) v") (auto simp: sessions_Validate_def)
  obtain se where se: "find (\<lambda>s. se_TokenHash s = h) (cp_sessions (st_panel st)) = Some se"
    using assms h by (cases "find (\<lambda>s. se_TokenHash s = h) (cp_sessions (st_panel st))") (auto simp: sessions_Validate_def alone_defs GetByTokenHash_def)
  then have "se_TokenHash se = h" by (auto dest: find_key_Some)
  moreover from assms h se have "\<not> session_IsExpired se (db_now (st_panel st))" "se_UserID sess = se_UserID se" "st_login s1 = st_login st"
    by (auto simp: sessions_Validate_def alone_defs GetByTokenHash_def session_Delete_def session_Refresh_def Let_def split: if_splits)
  ultimately show ?thesis using that h se by blast
qed

text \<open>Everyone else is turned away.\<close>

lemma gate_stranger:
  assumes none: "\<And>se row. \<not> visits ss cookie st se row" and rej: "\<And>c t s. alone (reject (c, t)) s = Some (Inr (c, turned t), s)"
  shows "\<exists>c t s'. \<forall>next'. alone (requireRoleCore ss res hid p allowed cookie next' reject) st = Some (Inr (c, turned t), s')"
proof (cases "cookie = None \<or> cookie = Some []")
  case True
  then show ?thesis by (auto simp: requireRoleCore_def rej)
next
  case False
  then obtain v where v: "cookie = Some v" "v \<noteq> []" by auto
  have banned: "\<exists>c t s'. alone (andThen (rejectBanned ss hid notice v) reject) s = Some (Inr (c, turned t), s')" for notice s
    using Destroy_alone [of ss v s] by (auto simp: rejectBanned_def alone_defs rej)
  have refused: "\<exists>c t s'. \<forall>next'. alone (requireRoleCore ss res hid p allowed cookie next' reject) st = Some (Inr (c, turned t), s')"
    if "alone (sessions_Validate ss v) st = Some (Inl e, s1)" for e s1
    using that v rej by (cases "handleSessionError hid e") (auto simp: requireRoleCore_def alone_bind)
  show ?thesis
  proof (cases "alone (sessions_Validate ss v) st")
    case None
    then show ?thesis
      by (auto simp: sessions_Validate_def alone_defs GetByTokenHash_def session_Delete_def session_Refresh_def Let_def split: option.splits if_splits)
  next
    case (Some a)
    then obtain r s1 where val: "alone (sessions_Validate ss v) st = Some (r, s1)" by (cases a) auto
    show ?thesis
    proof (cases r)
      case (Inl e)
      with val show ?thesis by (intro refused) simp
    next
      case (Inr sess)
      have "find (\<lambda>r. lo_account_id r = se_UserID sess) (lo_login (st_login s1)) = None"
      proof (rule ccontr)
        assume "\<not> ?thesis"
        then obtain row where "find (\<lambda>r. lo_account_id r = se_UserID sess) (lo_login (st_login s1)) = Some row" by auto
        moreover from val Inr have "alone (sessions_Validate ss v) st = Some (Inr sess, s1)" by simp
        then obtain se where "decodeTokenToHash (ss_world ss) v = Some (se_TokenHash se)"
          "find (\<lambda>s. se_TokenHash s = se_TokenHash se) (cp_sessions (st_panel st)) = Some se" "\<not> session_IsExpired se (db_now (st_panel st))"
          "se_UserID sess = se_UserID se" "st_login s1 = st_login st" by (rule validated)
        ultimately have "visits ss cookie st se row" using v by (simp add: visits_def)
        with none show False by blast
      qed
      then show ?thesis using v val Inr rej banned [of "''deleted''" s1]
        by (auto simp: requireRoleCore_def alone_bind user_GetByID_def selectLoginRow_def)
    qed
  qed
qed

section \<open>The gate of an entry\<close>

text \<open>What holds for a route: \<open>Admin\<close> is not in the configuration, its routes are the administrators'.\<close>

definition entry_of :: "access_config \<Rightarrow> string \<Rightarrow> string \<Rightarrow> access_entry option" where
  "entry_of cfg grp action =
     (if grp = ''Admin'' then Some \<lparr>ae_Roles = [''Admin''], ae_RateLimit = None, ae_Requires = []\<rparr>
      else case map_of cfg grp of None \<Rightarrow> None | Some actions \<Rightarrow> map_of actions action)"

lemma valid_entry:
  assumes "validateAccessConfig cfg" and "entry_of cfg grp action = Some e"
  shows "entry_ok e"
proof (cases "grp = ''Admin''")
  case True
  with assms(2) show ?thesis by (auto simp: entry_of_def entry_ok_def combined_role_def RequiresAPIKey_def RequiresUnrestricted_def)
next
  case False
  then obtain actions where "(grp, actions) \<in> set cfg" "(action, e) \<in> set actions"
    using assms(2) by (auto simp: entry_of_def split: option.splits dest!: map_of_SomeD)
  with assms(1) show ?thesis by (fastforce simp: validateAccessConfig_def list_all_iff)
qed

lemma sole_role:
  assumes "roles_ok roles" and "all_roles (NewRoleResolver roles) ns = Some rs"
  shows "rs = [RoleAdmin] \<longleftrightarrow> ns = [''Admin'']" and "rs = [RolePublic] \<longleftrightarrow> ns = [''Public'']"
proof -
  have names: "(n, g) \<in> set roles \<Longrightarrow> n \<notin> {''Public'', ''Member'', ''Verified'', ''Admin''}" for n g
    using assms(1) by (auto simp: roles_ok_def validateRolesConfig_def list_all_iff reservedRoleNames_def)
  have 1: "\<exists>n. ns = [n] \<and> GetRole (NewRoleResolver roles) n = Some r" if "rs = [r]" for r
    using assms(2) that by (cases ns; cases "tl ns") (auto split: option.splits)
  note get = GetRole_ok [OF assms(1)]
  note r = RoleAdmin_def RolePublic_def RoleAuthenticated_def
  show "rs = [RoleAdmin] \<longleftrightarrow> ns = [''Admin'']"
  proof
    assume "rs = [RoleAdmin]"
    with 1 get names show "ns = [''Admin'']" by (fastforce simp: r)
  qed (use assms(2) get [of "''Admin''" RoleAdmin] in auto)
  show "rs = [RolePublic] \<longleftrightarrow> ns = [''Public'']"
  proof
    assume "rs = [RolePublic]"
    with 1 get names show "ns = [''Public'']" by (fastforce simp: r)
  qed (use assms(2) get [of "''Public''" RolePublic] in auto)
qed

lemma wrap_ok:
  assumes "roles_ok roles" and res: "rg_resolver rg = NewRoleResolver roles" and cfg: "validateAccessConfig (rg_cfg rg)"
    and tag: "parseTag tag = Some (grp, action)" and e: "entry_of (rg_cfg rg) grp action = Some e" and m: "registry_wrap rg tag hidden = Some m"
  shows "''Public'' \<in> set (ae_Roles e) \<Longrightarrow> m = (if RequiresAPIKey e then Behind_api_key else Open_to_all)"
    and "''Public'' \<notin> set (ae_Roles e) \<Longrightarrow> \<exists>hid p allowed. m = Behind_roles hid p allowed \<and>
      (\<forall>gid t. t \<noteq> TierDeleted \<longrightarrow>
         policy_admits (rg_resolver rg) p allowed gid t = entry_admits roles (rg_allowTempBannedLogin rg) e gid t)"
proof -
  have ok: "entry_ok e" by (rule valid_entry [OF cfg e])
  have sole: "Resolve (NewRoleResolver roles) gid = RoleAdmin \<longleftrightarrow> gid = 99" for gid
    using roleAllowed_ok [OF assms(1), of "[]" "[]" gid] by (simp add: roleAllowed_def)
  define admin where "admin \<longleftrightarrow> grp = ''Admin'' \<or> ae_Roles e = [''Admin'']"
  show "''Public'' \<in> set (ae_Roles e) \<Longrightarrow> m = (if RequiresAPIKey e then Behind_api_key else Open_to_all)"
  proof -
    assume pub: "''Public'' \<in> set (ae_Roles e)"
    with ok have "ae_Roles e = [''Public'']"
      by (cases "ae_Roles e"; cases "tl (ae_Roles e)") (auto simp: entry_ok_def combined_role_def Let_def)
    moreover have "GetRole (NewRoleResolver roles) ''Public'' = Some RolePublic" "RolePublic \<noteq> RoleAdmin"
      by (simp_all add: GetRole_def RolePublic_def RoleAdmin_def)
    ultimately show ?thesis using m tag e res
      by (auto simp: registry_wrap_def registry_lookup_def entry_of_def mountPublic_def split: if_splits option.splits sum.splits)
  qed
  show "\<exists>hid p allowed. m = Behind_roles hid p allowed \<and>
      (\<forall>gid t. t \<noteq> TierDeleted \<longrightarrow>
         policy_admits (rg_resolver rg) p allowed gid t = entry_admits roles (rg_allowTempBannedLogin rg) e gid t)"
    if pub: "''Public'' \<notin> set (ae_Roles e)"
  proof (cases "ae_Roles e = [''Admin'']")
    case True
    have "all_roles (NewRoleResolver roles) [''Admin''] = Some [RoleAdmin]"
      using GetRole_ok [OF assms(1), of "''Admin''" RoleAdmin] by simp
    with True have "m = mountAdminOnly rg" using m tag e res
      by (auto simp: registry_wrap_def registry_lookup_def entry_of_def split: if_splits option.splits sum.splits)
    moreover have "t \<noteq> TierDeleted \<Longrightarrow>
        policy_admits (rg_resolver rg) \<lparr>ap_AllowTempBannedLogin = a, ap_Unrestricted = True, ap_RequireVerified = True\<rparr> [] gid t =
        entry_admits roles b e gid t" for a b gid t
      using True by (cases t) (auto simp: policy_admits_def entry_admits_def res roleAllowed_def sole)
    ultimately show ?thesis by (auto simp: mountAdminOnly_def)
  next
    case False
    have other: "grp \<noteq> ''Admin''" using e False by (auto simp: entry_of_def)
    with e have look: "registry_lookup rg grp action = (if ae_Roles e = [] then Inl () else case all_roles (NewRoleResolver roles) (ae_Roles e) of
        None \<Rightarrow> Inl () | Some rs \<Rightarrow> Inr (Some \<lparr>re_roles = rs, re_unrestricted = RequiresUnrestricted e,
          re_requiresAPIKey = RequiresAPIKey e, re_requireVerified = RequiresVerified e\<rparr>))"
      by (auto simp: registry_lookup_def entry_of_def res split: option.splits)
    with m tag other obtain rs where rs: "all_roles (NewRoleResolver roles) (ae_Roles e) = Some rs" "ae_Roles e \<noteq> []"
      by (auto simp: registry_wrap_def split: if_splits option.splits)
    have "rs \<noteq> [RoleAdmin]" "rs \<noteq> [RolePublic]" using sole_role [OF assms(1) rs(1)] False pub by auto
    with m tag other rs have m': "m = Behind_roles hidden \<lparr>ap_AllowTempBannedLogin = rg_allowTempBannedLogin rg,
                   ap_Unrestricted = RequiresUnrestricted e, ap_RequireVerified = RequiresVerified e\<rparr> rs"
      by (simp add: registry_wrap_def look)
    from rs have "''Admin'' \<notin> set (ae_Roles e)" using ok False by (auto simp: entry_ok_def list_all_iff Let_def)
    with rs(1) have allowed: "roleAllowed (Resolve (rg_resolver rg) gid) rs \<longleftrightarrow> gid = 99 \<or> list_ex (role_admits roles gid) (ae_Roles e)" for gid
      unfolding res using assms(1) pub by (intro roleAllowed_ok) auto
    have ver: "RequiresVerified e \<longleftrightarrow> ae_Roles e \<noteq> [''Member'']"
    proof -
      have "RequiresVerified e \<longleftrightarrow> ''Member'' \<notin> set (ae_Roles e)" using pub by (auto simp: RequiresVerified_def list_all_iff)
      moreover have "''Member'' \<in> set (ae_Roles e) \<Longrightarrow> length (ae_Roles e) \<le> 1"
        using ok rs(2) by (auto simp: entry_ok_def combined_role_def Let_def)
      then have "''Member'' \<in> set (ae_Roles e) \<Longrightarrow> ae_Roles e = [''Member'']"
        by (cases "ae_Roles e") auto
      ultimately show ?thesis by auto
    qed
    have "t \<noteq> TierDeleted \<Longrightarrow> policy_admits (rg_resolver rg)
        \<lparr>ap_AllowTempBannedLogin = rg_allowTempBannedLogin rg, ap_Unrestricted = RequiresUnrestricted e, ap_RequireVerified = RequiresVerified e\<rparr> rs gid t =
        entry_admits roles (rg_allowTempBannedLogin rg) e gid t" for gid t
      using False by (cases t) (auto simp: policy_admits_def entry_admits_def allowed ver)
    then show ?thesis using m' by blast
  qed
qed

lemma tier_not_deleted: "tier_of row now \<noteq> TierDeleted"
  by (simp add: tier_of_def ClassifyTier_def split: option.split)

text \<open>A visitor whom the entry of a route admits.\<close>

definition admitted :: "handlers \<Rightarrow> (string \<times> int) list \<Rightarrow> access_entry \<Rightarrow> string option \<Rightarrow> site \<Rightarrow> session \<Rightarrow> login_row \<Rightarrow> bool" where
  "admitted h roles e cookie st se row \<longleftrightarrow>
     visits (hd_sess h) cookie st se row \<and>
     entry_admits roles (rg_allowTempBannedLogin (hd_registry h)) e (lo_group_id row) (tier_of row (db_now (st_panel st)))"

lemma visits_one: "visits ss cookie st se row \<Longrightarrow> visits ss cookie st se' row' \<Longrightarrow> se' = se \<and> row' = row"
  by (auto simp: visits_def split: option.splits)

lemma gate_decides:
  assumes p: "\<forall>gid t. t \<noteq> TierDeleted \<longrightarrow> policy_admits res p allowed gid t = entry_admits roles b e gid t"
    and rej: "\<And>c t s. alone (reject (c, t)) s = Some (Inr (c, turned t), s)"
    and adm: "\<And>se row. adm se row = (visits ss cookie st se row \<and> entry_admits roles b e (lo_group_id row) (tier_of row (db_now (st_panel st))))"
  shows "adm se row \<Longrightarrow> alone (requireRoleCore ss res hid p allowed cookie next' reject) st =
      alone (next' (seen_session ss se (db_now (st_panel st))) (snapshot_of row)) (seen_site ss se st)"
    and "\<nexists>se row. adm se row \<Longrightarrow>
      \<exists>c t st'. \<forall>next'. alone (requireRoleCore ss res hid p allowed cookie next' reject) st = Some (Inr (c, turned t), st')"
proof -
  let ?now = "db_now (st_panel st)"
  show "alone (requireRoleCore ss res hid p allowed cookie next' reject) st = alone (next' (seen_session ss se ?now) (snapshot_of row)) (seen_site ss se st)"
    if "adm se row"
  proof -
    from that have vis: "visits ss cookie st se row" by (simp add: adm)
    then obtain v where v: "cookie = Some v" by (auto simp: visits_def split: option.splits)
    have "policy_admits res p allowed (lo_group_id row) (tier_of row ?now)" using that p [rule_format, OF tier_not_deleted] by (simp add: adm)
    from gate_visit(1) [OF _ rej this] vis v show ?thesis by simp
  qed
  show "\<exists>c t st'. \<forall>next'. alone (requireRoleCore ss res hid p allowed cookie next' reject) st = Some (Inr (c, turned t), st')"
    if "\<nexists>se row. adm se row"
  proof (cases "\<exists>se row. visits ss cookie st se row")
    case True
    then obtain se row where vis: "visits ss cookie st se row" by blast
    then obtain v where v: "cookie = Some v" by (auto simp: visits_def split: option.splits)
    from that vis p [rule_format, OF tier_not_deleted] have "\<not> policy_admits res p allowed (lo_group_id row) (tier_of row ?now)" by (auto simp: adm)
    from gate_visit(2) [OF _ rej this] vis v show ?thesis by simp
  next
    case False
    with gate_stranger [OF _ rej] show ?thesis by blast
  qed
qed

end
