(* ===== verification/Task_Locks.thy ===== *)
theory Task_Locks
  imports Tasks
begin

text \<open>
  Two ways in which requests that run at the same time hold each other back: something that only
  one of them can take, and a lock that only one of them holds. Both go with \<open>rely_guarantee\<close>.
\<close>

section \<open>What can be taken once\<close>

text \<open>
  \<open>opened\<close> says that the thing is still there; nothing puts it back. \<open>once W t b s\<close>: the task's
  next steps take it at most once, and when \<open>b\<close> holds it has taken it. It ends with a result in
  \<open>W\<close> only if it took it.
\<close>

locale once_only = rely_guarantee inv may does
  for inv :: "'s \<Rightarrow> bool" and may :: "'s \<Rightarrow> 's \<Rightarrow> bool" and does :: "'s \<Rightarrow> 's \<Rightarrow> bool" +
  fixes opened :: "'s \<Rightarrow> bool"
  assumes opened_may: "may a b \<Longrightarrow> opened b \<Longrightarrow> opened a"
begin

primrec once :: "('e + 'a \<Rightarrow> bool) \<Rightarrow> ('s, 'e, 'a) task \<Rightarrow> bool \<Rightarrow> 's \<Rightarrow> bool" where
  "once W (Ended r) = (\<lambda>b s. W r \<longrightarrow> b)"
| "once W (Step e k) = (\<lambda>b s. \<forall>s'. may s s' \<longrightarrow> inv s' \<longrightarrow>
     (\<forall>fs. inv (e fs s') \<and> does s' (e fs s') \<and>
        (once W (k fs s') b (e fs s') \<or>
         \<not> b \<and> opened s' \<and> \<not> opened (e fs s') \<and> once W (k fs s') True (e fs s'))))"
| "once W (Await c e k) = (\<lambda>b s. \<forall>s'. may s s' \<longrightarrow> inv s' \<longrightarrow> c s' \<longrightarrow> inv (e s') \<and> does s' (e s') \<and> once W k b (e s'))"

lemma once_later: "once W t b s \<Longrightarrow> may s s' \<Longrightarrow> once W t b s'"
  by (cases t) (auto intro: may_trans)

lemma once_more: "once W t False s \<Longrightarrow> once W t True s"
  by (induction t arbitrary: s rule: task_induct) (simp, fastforce, simp)

lemma safe_once: "safe Q t s \<Longrightarrow> (\<And>r. Q r \<Longrightarrow> W r \<Longrightarrow> b) \<Longrightarrow> once W t b s"
  by (induction t arbitrary: s rule: task_induct) auto

lemma once_ended [simp]: "once W (ret x) b s = (W (Inr x) \<longrightarrow> b)" "once W (fail e) b s = (W (Inl e) \<longrightarrow> b)"
  by (simp_all add: ret_def fail_def)

lemma once_bind:
  assumes "once V m b s" and "\<And>r t. \<not> V r \<Longrightarrow> once W (g r) False t" and "\<And>r t. V r \<Longrightarrow> once W (g r) True t"
  shows "once W (bindT m g) b s"
  using assms(1)
proof (induction m arbitrary: b s rule: task_induct)
  case (Ended r)
  show ?case
  proof (cases "V r")
    case True
    with Ended assms(3) show ?thesis by simp
  next
    case False
    then have f: "once W (g r) False s" by (rule assms(2))
    with once_more [OF f] show ?thesis by (cases b) simp_all
  qed
next
  case (Step e k)
  then show ?case by simp blast
qed simp

lemma safe_bind_once:
  assumes "safe Q m s" and "\<And>r t. Q r \<Longrightarrow> once W (g r) b t"
  shows "once W (bindT m g) b s"
  using assms(1) by (induction m arbitrary: s rule: task_induct) (use assms(2) in auto)

text \<open>At most one request of a panel ends with a result that says it took the thing.\<close>

definition taker_ok :: "('q \<Rightarrow> 'e + 'a \<Rightarrow> bool) \<Rightarrow> 'q list \<Rightarrow> ('s, 'e, 'a) task list \<Rightarrow> nat option \<Rightarrow> 's \<Rightarrow> bool" where
  "taker_ok W qs ts w s \<longleftrightarrow> inv s \<and> length qs = length ts \<and> (w \<noteq> None \<longrightarrow> \<not> opened s) \<and> (\<forall>j. w = Some j \<longrightarrow> j < length ts) \<and>
     (\<forall>i < length ts. once (W (qs ! i)) (ts ! i) (w = Some i) s)"

lemma step_task_once:
  assumes "once W t b s" and "inv s" and "step_task fs t s = (s1, t1)"
  shows "inv s1 \<and> may s s1 \<and> (once W t1 b s1 \<or> \<not> b \<and> opened s \<and> \<not> opened s1 \<and> once W t1 True s1)"
  using assms may_refl does_may by (cases t) (auto split: if_splits)

lemma run_move_once:
  assumes env: "\<And>n s. inv s \<Longrightarrow> inv (elapse n s) \<and> may s (elapse n s)" and new: "\<And>q s. once (W q) (handle q) False s"
    and ok: "taker_ok W qs ts w s" and x: "run_move elapse handle x (s, ts) = (s', ts')"
  shows "\<exists>w. taker_ok W (qs @ arrivals [x]) ts' w s'"
proof (cases x)
  case (Advance i fs)
  show ?thesis
  proof (cases "i < length ts")
    case True
    obtain s1 t1 where t: "step_task fs (ts ! i) s = (s1, t1)" by fastforce
    have eq: "s' = s1" "ts' = ts[i := t1]" using x Advance True t by (auto simp: run_move_def)
    have i: "once (W (qs ! i)) (ts ! i) (w = Some i) s" and "inv s" using ok True by (simp_all add: taker_ok_def)
    from step_task_once [OF this t] consider "inv s1" "may s s1" "once (W (qs ! i)) t1 (w = Some i) s1"
      | "inv s1" "may s s1" "w \<noteq> Some i" "opened s" "\<not> opened s1" "once (W (qs ! i)) t1 True s1" by blast
    then show ?thesis
    proof cases
      case 1
      then have "taker_ok W qs (ts[i := t1]) w s1"
        using ok True opened_may [OF 1(2)] by (auto simp: taker_ok_def nth_list_update intro: once_later [OF _ 1(2)])
      then show ?thesis using eq Advance by (auto simp: arrivals_def)
    next
      case 2
      then have "w = None" using ok by (auto simp: taker_ok_def)
      with 2 have "taker_ok W qs (ts[i := t1]) (Some i) s1"
        using ok True by (auto simp: taker_ok_def nth_list_update intro: once_later [OF _ 2(2)])
      then show ?thesis using eq Advance by (auto simp: arrivals_def)
    qed
  next
    case False
    with x Advance ok show ?thesis by (auto simp: run_move_def arrivals_def)
  qed
next
  case (Arrive q)
  from ok have "w \<noteq> Some (length ts)" by (auto simp: taker_ok_def)
  then have "taker_ok W (qs @ [q]) (ts @ [handle q]) w s"
    using ok new by (auto simp: taker_ok_def nth_append less_Suc_eq)
  then show ?thesis using x Arrive by (auto simp: run_move_def arrivals_def)
next
  case (Elapse n)
  have "inv s" using ok by (simp add: taker_ok_def)
  from env [OF this] have later: "may s (elapse n s)" "inv (elapse n s)" by auto
  then have "taker_ok W qs ts w (elapse n s)" using ok opened_may [OF later(1)] by (auto simp: taker_ok_def intro: once_later [OF _ later(1)])
  then show ?thesis using x Elapse by (auto simp: run_move_def arrivals_def)
qed

lemma run_panel_once:
  assumes "\<And>n s. inv s \<Longrightarrow> inv (elapse n s) \<and> may s (elapse n s)" and "\<And>q s. once (W q) (handle q) False s" and "inv s"
    and "run_panel elapse handle xs (s, []) = (s', ts')"
    and "i < length ts'" "j < length ts'" "ts' ! i = Ended r" "ts' ! j = Ended r'" "W (arrivals xs ! i) r" "W (arrivals xs ! j) r'"
  shows "i = j"
proof -
  have "\<exists>w. taker_ok W (qs @ arrivals xs) ts' w s'"
    if "taker_ok W qs ts w s" "fold (run_move elapse handle) xs (s, ts) = (s', ts')" for s qs ts w
    using that
  proof (induction xs arbitrary: s qs ts w)
    case (Cons x xs)
    obtain s1 ts1 where x: "run_move elapse handle x (s, ts) = (s1, ts1)" by fastforce
    from run_move_once [OF assms(1,2) Cons.prems(1) x] obtain w1 where "taker_ok W (qs @ arrivals [x]) ts1 w1 s1" by blast
    from Cons.IH [OF this] Cons.prems(2) x show ?case by (auto simp: arrivals_def)
  qed (auto simp: arrivals_def)
  from this [of "[]" "[]" None s] assms(3,4) obtain w where "taker_ok W (arrivals xs) ts' w s'"
    by (auto simp: taker_ok_def run_panel_def)
  with assms(5-) have "w = Some i" "w = Some j" by (force simp: taker_ok_def)+
  then show ?thesis by simp
qed

end

section \<open>A lock\<close>

text \<open>
  \<open>locked\<close> is the lock's flag, \<open>good\<close> what it protects, \<open>calm\<close> what everybody does without it.
  \<open>keeps_lock Q t h s\<close>: a task that does not hold the lock (\<open>h\<close>) takes calm steps and leaves the
  flag alone, until it finds the lock free and takes it; one that holds it relies on the others
  being calm, and before it ends it gives the lock back.
\<close>

locale one_holder = rely_guarantee inv may does
  for inv :: "'s \<Rightarrow> bool" and may :: "'s \<Rightarrow> 's \<Rightarrow> bool" and does :: "'s \<Rightarrow> 's \<Rightarrow> bool" +
  fixes locked :: "'s \<Rightarrow> bool" and good :: "'s \<Rightarrow> bool" and calm :: "'s \<Rightarrow> 's \<Rightarrow> bool"
  assumes calm_refl: "calm s s"
    and calm_trans: "calm a b \<Longrightarrow> calm b c \<Longrightarrow> calm a c"
    and calm_good: "calm a b \<Longrightarrow> good a \<Longrightarrow> good b"
    and does_calm: "does a b \<Longrightarrow> calm a b \<and> locked b = locked a"
begin

primrec keeps_lock :: "('e + 'a \<Rightarrow> bool) \<Rightarrow> ('s, 'e, 'a) task \<Rightarrow> bool \<Rightarrow> 's \<Rightarrow> bool" where
  "keeps_lock Q (Ended r) = (\<lambda>h s. Q r \<and> \<not> h)"
| "keeps_lock Q (Step e k) = (\<lambda>h s. \<forall>s'. may s s' \<longrightarrow> inv s' \<longrightarrow> (h \<longrightarrow> calm s s' \<and> locked s' \<and> good s') \<longrightarrow>
     (\<forall>fs. inv (e fs s') \<and> may s' (e fs s') \<and>
        (if h then good (e fs s') \<and> keeps_lock Q (k fs s') (locked (e fs s')) (e fs s')
         else does s' (e fs s') \<and> keeps_lock Q (k fs s') False (e fs s'))))"
| "keeps_lock Q (Await c e k) = (\<lambda>h s. \<not> h \<and> (\<forall>s'. may s s' \<longrightarrow> inv s' \<longrightarrow> good s' \<longrightarrow> c s' \<longrightarrow>
     inv (e s') \<and> may s' (e s') \<and> calm s' (e s') \<and>
     (if locked (e s') = locked s' then does s' (e s') \<and> keeps_lock Q k False (e s')
      else \<not> locked s' \<and> keeps_lock Q k True (e s'))))"

lemma keeps_lock_later:
  assumes "keeps_lock Q t h s" and "may s s'" and "h \<Longrightarrow> calm s s'"
  shows "keeps_lock Q t h s'"
proof (cases t)
  case (Step e k)
  have from_s: "may s u" "h \<longrightarrow> calm s u" if "may s' u" "h \<longrightarrow> calm s' u" for u
    using that assms(2,3) may_trans calm_trans by blast+
  have "inv (e fs u) \<and> may u (e fs u) \<and> (if h then good (e fs u) \<and> keeps_lock Q (k fs u) (locked (e fs u)) (e fs u)
        else does u (e fs u) \<and> keeps_lock Q (k fs u) False (e fs u))"
    if "may s' u" "inv u" "h \<longrightarrow> calm s' u \<and> locked u \<and> good u" for u fs
    using assms(1) from_s [of u] that unfolding Step by simp
  then show ?thesis unfolding Step by simp
qed (use assms may_trans in \<open>auto split: if_splits\<close>)

lemma safe_keeps_lock: "safe P t s \<Longrightarrow> (\<And>r. P r \<Longrightarrow> Q r) \<Longrightarrow> keeps_lock Q t False s"
  by (induction t arbitrary: s rule: task_induct) (auto simp: does_may dest: does_calm)

text \<open>A part of a task that runs without the lock, and one that runs with it.\<close>

lemma keeps_lock_bind: "keeps_lock P m False s \<Longrightarrow> (\<And>r t. P r \<Longrightarrow> keeps_lock Q (g r) False t) \<Longrightarrow> keeps_lock Q (bindT m g) False s"
proof -
  have "keeps_lock P m h s \<Longrightarrow> (\<And>r t. P r \<Longrightarrow> keeps_lock Q (g r) False t) \<Longrightarrow> keeps_lock Q (bindT m g) h s" for h
    by (induction m arbitrary: h s rule: task_induct) auto
  then show "keeps_lock P m False s \<Longrightarrow> (\<And>r t. P r \<Longrightarrow> keeps_lock Q (g r) False t) \<Longrightarrow> keeps_lock Q (bindT m g) False s" by blast
qed

text \<open>
  \<open>inside P t s\<close>: a task that holds the lock throughout, from a state where the others have been
  calm, and ends with a result and a state in \<open>P\<close>.
\<close>

primrec inside :: "('e + 'a \<Rightarrow> 's \<Rightarrow> bool) \<Rightarrow> ('s, 'e, 'a) task \<Rightarrow> 's \<Rightarrow> bool" where
  "inside P (Ended r) = (\<lambda>s. P r s)"
| "inside P (Step e k) = (\<lambda>s. \<forall>s'. may s s' \<longrightarrow> calm s s' \<longrightarrow> inv s' \<longrightarrow> good s' \<longrightarrow> locked s' \<longrightarrow>
     (\<forall>fs. inv (e fs s') \<and> may s' (e fs s') \<and> good (e fs s') \<and> locked (e fs s') \<and> inside P (k fs s') (e fs s')))"
| "inside P (Await c e k) = (\<lambda>s. False)"

lemma inside_bind: "inside P m s \<Longrightarrow> (\<And>r t. P r t \<Longrightarrow> inside R (g r) t) \<Longrightarrow> inside R (bindT m g) s"
  by (induction m arbitrary: s rule: task_induct) auto

lemma inside_ended [simp]: "inside P (ret x) s = P (Inr x) s" "inside P (fail e) s = P (Inl e) s"
  by (simp_all add: ret_def fail_def)

lemma inside_andThen:
  assumes "inside P m s" and "\<And>x t. P (Inr x) t \<Longrightarrow> inside R (g x) t" and "\<And>e t. P (Inl e) t \<Longrightarrow> R (Inl e) t"
  shows "inside R (andThen m g) s"
  unfolding andThen_def by (rule inside_bind [OF assms(1)]) (auto split: sum.split intro: assms(2,3))

lemma inside_mono: "inside P t s \<Longrightarrow> (\<And>r s. P r s \<Longrightarrow> R r s) \<Longrightarrow> inside R t s"
  by (induction t arbitrary: s rule: task_induct) auto

text \<open>What a calm part of the holder's task leaves is what was there.\<close>

primrec waits :: "('s, 'e, 'a) task \<Rightarrow> bool" where
  "waits (Ended r) \<longleftrightarrow> False"
| "waits (Step e k) \<longleftrightarrow> (\<exists>fs s. waits (k fs s))"
| "waits (Await c e k) \<longleftrightarrow> True"

lemma safe_inside: "safe Q t s \<Longrightarrow> \<not> waits t \<Longrightarrow> inside (\<lambda>r s'. Q r \<and> calm s s') t s"
proof -
  have "safe Q t s \<Longrightarrow> \<not> waits t \<Longrightarrow> calm s0 s \<Longrightarrow> inside (\<lambda>r s'. Q r \<and> calm s0 s') t s" for s0
  proof (induction t arbitrary: s rule: task_induct)
    case (Step e k)
    show ?case
    proof (simp, intro allI impI)
      fix s' fs assume s': "may s s'" "calm s s'" "inv s'" "good s'" "locked s'"
      with Step.prems have d: "inv (e fs s')" "does s' (e fs s')" "safe Q (k fs s') (e fs s')" by auto
      with does_calm s' have c: "calm s' (e fs s')" "locked (e fs s')" by blast+
      with s' Step.prems(3) calm_trans have "calm s0 (e fs s')" by blast
      with Step.IH d Step.prems(2) have "inside (\<lambda>r s'. Q r \<and> calm s0 s') (k fs s') (e fs s')" by auto
      with d c s' does_may calm_good
      show "inv (e fs s') \<and> may s' (e fs s') \<and> good (e fs s') \<and> locked (e fs s') \<and> inside (\<lambda>r s'. Q r \<and> calm s0 s') (k fs s') (e fs s')"
        by blast
    qed
  qed simp_all
  then show "safe Q t s \<Longrightarrow> \<not> waits t \<Longrightarrow> inside (\<lambda>r s'. Q r \<and> calm s s') t s" using calm_refl by blast
qed

lemma inside_keeps_lock:
  assumes "inside P m s" and "\<And>r t. P r t \<Longrightarrow> keeps_lock Q (g r) True t"
  shows "keeps_lock Q (bindT m g) True s"
  using assms(1) by (induction m arbitrary: s rule: task_induct) (use assms(2) in auto)

definition holder_ok :: "('q \<Rightarrow> 'e + 'a \<Rightarrow> bool) \<Rightarrow> 'q list \<Rightarrow> ('s, 'e, 'a) task list \<Rightarrow> nat option \<Rightarrow> 's \<Rightarrow> bool" where
  "holder_ok Q qs ts w s \<longleftrightarrow> inv s \<and> good s \<and> length qs = length ts \<and> locked s = (w \<noteq> None) \<and> (\<forall>j. w = Some j \<longrightarrow> j < length ts) \<and>
     (\<forall>i < length ts. keeps_lock (Q (qs ! i)) (ts ! i) (w = Some i) s)"

lemma step_task_holder:
  assumes "keeps_lock Q t True s" and "inv s" and "good s" and "locked s" and "step_task fs t s = (s1, t1)"
  shows "inv s1 \<and> may s s1 \<and> good s1 \<and> keeps_lock Q t1 (locked s1) s1"
  using assms may_refl calm_refl by (cases t) auto

lemma step_task_other:
  assumes "keeps_lock Q t False s" and "inv s" and "good s" and "step_task fs t s = (s1, t1)"
  shows "inv s1 \<and> may s s1 \<and> calm s s1 \<and> good s1 \<and>
    (locked s1 = locked s \<and> keeps_lock Q t1 False s1 \<or> \<not> locked s \<and> locked s1 \<and> keeps_lock Q t1 True s1)"
proof (cases t)
  case (Ended r)
  then show ?thesis using assms may_refl calm_refl by auto
next
  case (Step e k)
  then have "inv s1" "does s s1" "keeps_lock Q t1 False s1" using assms may_refl by auto
  then show ?thesis using does_calm does_may calm_good assms(3) by blast
next
  case (Await c e k)
  then show ?thesis using assms may_refl calm_refl calm_good by (auto split: if_splits)
qed

lemma run_move_holder:
  assumes env: "\<And>n s. inv s \<Longrightarrow> inv (elapse n s) \<and> does s (elapse n s)" and new: "\<And>q s. keeps_lock (Q q) (handle q) False s"
    and ok: "holder_ok Q qs ts w s" and x: "run_move elapse handle x (s, ts) = (s', ts')"
  shows "\<exists>w. holder_ok Q (qs @ arrivals [x]) ts' w s'"
proof (cases x)
  case (Advance i fs)
  show ?thesis
  proof (cases "i < length ts")
    case True
    obtain s1 t1 where t: "step_task fs (ts ! i) s = (s1, t1)" by fastforce
    have eq: "s' = s1" "ts' = ts[i := t1]" using x Advance True t by (auto simp: run_move_def)
    have i: "keeps_lock (Q (qs ! i)) (ts ! i) (w = Some i) s" "inv s" "good s" "locked s = (w \<noteq> None)"
      using ok True by (simp_all add: holder_ok_def)
    show ?thesis
    proof (cases "w = Some i")
      case w: True
      with i step_task_holder [OF _ _ _ _ t, of "Q (qs ! i)"] have 1: "inv s1" "may s s1" "good s1" "keeps_lock (Q (qs ! i)) t1 (locked s1) s1" by auto
      have "keeps_lock (Q (qs ! j)) (ts ! j) False s1" if "j < length ts" "j \<noteq> i" for j
      proof (rule keeps_lock_later [OF _ 1(2)])
        have "keeps_lock (Q (qs ! j)) (ts ! j) (w = Some j) s" using ok that(1) by (simp add: holder_ok_def)
        moreover have "(w = Some j) = False" using w that(2) by simp
        ultimately show "keeps_lock (Q (qs ! j)) (ts ! j) False s" by simp
      qed simp
      then have "holder_ok Q qs (ts[i := t1]) (if locked s1 then Some i else None) s1"
        using ok w True 1 by (auto simp: holder_ok_def nth_list_update)
      then show ?thesis using eq Advance by (auto simp: arrivals_def)
    next
      case w: False
      with i step_task_other [OF _ _ _ t, of "Q (qs ! i)"]
      have 1: "inv s1" "may s s1" "calm s s1" "good s1" and
        "locked s1 = locked s \<and> keeps_lock (Q (qs ! i)) t1 False s1 \<or> \<not> locked s \<and> locked s1 \<and> keeps_lock (Q (qs ! i)) t1 True s1" by auto
      then consider "locked s1 = locked s" "keeps_lock (Q (qs ! i)) t1 False s1"
        | "\<not> locked s" "locked s1" "keeps_lock (Q (qs ! i)) t1 True s1" by blast
      then show ?thesis
      proof cases
        case 1
        then have "holder_ok Q qs (ts[i := t1]) w s1"
          using ok w True \<open>inv s1\<close> \<open>good s1\<close> by (auto simp: holder_ok_def nth_list_update intro: keeps_lock_later [OF _ \<open>may s s1\<close> \<open>calm s s1\<close>])
        then show ?thesis using eq Advance by (auto simp: arrivals_def)
      next
        case 2
        with i have "w = None" by simp
        moreover have "keeps_lock (Q (qs ! j)) (ts ! j) False s1" if "j < length ts" for j
          using ok \<open>w = None\<close> that keeps_lock_later [OF _ \<open>may s s1\<close>, of "Q (qs ! j)" "ts ! j" False] by (simp add: holder_ok_def)
        ultimately have "holder_ok Q qs (ts[i := t1]) (Some i) s1"
          using ok True \<open>inv s1\<close> \<open>good s1\<close> 2 by (auto simp: holder_ok_def nth_list_update)
        then show ?thesis using eq Advance by (auto simp: arrivals_def)
      qed
    qed
  next
    case False
    with x Advance ok show ?thesis by (auto simp: run_move_def arrivals_def)
  qed
next
  case (Arrive q)
  from ok have "w \<noteq> Some (length ts)" by (auto simp: holder_ok_def)
  then have "holder_ok Q (qs @ [q]) (ts @ [handle q]) w s"
    using ok new by (auto simp: holder_ok_def nth_append less_Suc_eq)
  then show ?thesis using x Arrive by (auto simp: run_move_def arrivals_def)
next
  case (Elapse n)
  have "inv s" "good s" using ok by (simp_all add: holder_ok_def)
  with env have "inv (elapse n s)" "does s (elapse n s)" by auto
  moreover from this does_may does_calm have later: "may s (elapse n s)" "calm s (elapse n s)" "locked (elapse n s) = locked s" by blast+
  ultimately have "holder_ok Q qs ts w (elapse n s)"
    using ok \<open>good s\<close> calm_good by (auto simp: holder_ok_def intro: keeps_lock_later [OF _ later(1,2)])
  then show ?thesis using x Elapse by (auto simp: run_move_def arrivals_def)
qed

lemma run_panel_holder:
  assumes "\<And>n s. inv s \<Longrightarrow> inv (elapse n s) \<and> does s (elapse n s)" and "\<And>q s. keeps_lock (Q q) (handle q) False s"
    and "inv s" and "good s" and "\<not> locked s" and "run_panel elapse handle xs (s, []) = (s', ts')"
  shows "inv s'" and "good s'" and "i < length ts' \<Longrightarrow> ts' ! i = Ended r \<Longrightarrow> Q (arrivals xs ! i) r"
proof -
  have run: "\<exists>w. holder_ok Q (qs @ arrivals xs) ts' w s'"
    if "holder_ok Q qs ts w s" "fold (run_move elapse handle) xs (s, ts) = (s', ts')" for s qs ts w
    using that
  proof (induction xs arbitrary: s qs ts w)
    case (Cons x xs)
    obtain s1 ts1 where x: "run_move elapse handle x (s, ts) = (s1, ts1)" by fastforce
    from run_move_holder [OF assms(1,2) Cons.prems(1) x] obtain w1 where "holder_ok Q (qs @ arrivals [x]) ts1 w1 s1" by blast
    from Cons.IH [OF this] Cons.prems(2) x show ?case by (auto simp: arrivals_def)
  qed (auto simp: arrivals_def)
  have "holder_ok Q [] [] None s" using assms(3-5) by (simp add: holder_ok_def)
  from run [OF this] assms(6) obtain w where "holder_ok Q (arrivals xs) ts' w s'"
    by (auto simp: run_panel_def)
  then show "inv s'" and "good s'" and "i < length ts' \<Longrightarrow> ts' ! i = Ended r \<Longrightarrow> Q (arrivals xs ! i) r"
    by (force simp: holder_ok_def)+
qed

end

section \<open>One after another\<close>

text \<open>Requests of which each runs alone are one schedule of a panel.\<close>

lemma run_one:
  assumes "alone t s = Some (r, s')" and "i = length ts"
  shows "\<exists>xs. arrivals xs = [] \<and> run_panel elapse handle xs (s, ts @ [t]) = (s', ts @ [Ended r])"
  using assms(1)
proof (induction t arbitrary: s rule: task_induct)
  case (Ended r)
  then show ?case by (intro exI [of _ "[]"]) (simp add: run_panel_def arrivals_def)
next
  case (Step e k)
  from Step.IH [of "[]" s "e [] s"] Step.prems
  obtain xs where "arrivals xs = []" "run_panel elapse handle xs (e [] s, ts @ [k [] s]) = (s', ts @ [Ended r])" by auto
  then show ?case by (intro exI [of _ "Advance i [] # xs"]) (simp add: run_panel_def arrivals_def run_move_def assms(2))
next
  case (Await c e k)
  from Await.IH [of "e s"] Await.prems
  obtain xs where "c s" "arrivals xs = []" "run_panel elapse handle xs (e s, ts @ [k]) = (s', ts @ [Ended r])" by (auto split: if_splits)
  then show ?case by (intro exI [of _ "Advance i [] # xs"]) (simp add: run_panel_def arrivals_def run_move_def assms(2))
qed

fun one_by_one :: "('q \<Rightarrow> ('s, 'e, 'a) task) \<Rightarrow> 'q list \<Rightarrow> 's \<Rightarrow> (('e + 'a) list \<times> 's) option" where
  "one_by_one handle [] s = Some ([], s)"
| "one_by_one handle (q # qs) s = (case alone (handle q) s of None \<Rightarrow> None
     | Some (r, t) \<Rightarrow> (case one_by_one handle qs t of None \<Rightarrow> None | Some (rs, u) \<Rightarrow> Some (r # rs, u)))"

lemma run_panel_append: "run_panel elapse handle (xs @ ys) p = run_panel elapse handle ys (run_panel elapse handle xs p)"
  by (simp add: run_panel_def)

lemma arrivals_append: "arrivals (xs @ ys) = arrivals xs @ arrivals ys"
  by (simp add: arrivals_def)

lemma run_one_by_one:
  assumes "one_by_one handle qs s = Some (rs, s')"
  shows "\<exists>xs. arrivals xs = qs \<and> run_panel elapse handle xs (s, ts) = (s', ts @ map Ended rs)"
  using assms
proof (induction qs arbitrary: s rs ts)
  case Nil
  then show ?case by (intro exI [of _ "[]"]) (simp add: run_panel_def arrivals_def)
next
  case (Cons q qs)
  then obtain r u rs' where r: "alone (handle q) s = Some (r, u)" "one_by_one handle qs u = Some (rs', s')" "rs = r # rs'"
    by (auto split: option.splits)
  from run_one [OF r(1) refl, of elapse handle ts] obtain xs where
    xs: "arrivals xs = []" "run_panel elapse handle xs (s, ts @ [handle q]) = (u, ts @ [Ended r])" by blast
  from Cons.IH [OF r(2), of "ts @ [Ended r]"] obtain ys where
    ys: "arrivals ys = qs" "run_panel elapse handle ys (u, ts @ [Ended r]) = (s', (ts @ [Ended r]) @ map Ended rs')" by blast
  have "run_panel elapse handle (Arrive q # xs @ ys) (s, ts) = (s', ts @ map Ended rs)"
    using xs(2) ys(2) r(3) by (simp add: run_panel_append) (simp add: run_panel_def run_move_def)
  moreover have "arrivals (Arrive q # xs @ ys) = q # qs" using xs(1) ys(1) arrivals_append by (simp add: arrivals_def)
  ultimately show ?case by blast
qed

end
