(* ===== verification/Account_Steps.thy ===== *)
theory Account_Steps
  imports Account_Handlers Task_Locks
begin

text \<open>
  What the requests of the accounts do to the site, statement by statement, whatever the others do
  in between and whatever the connections lose: no session and no link comes back whose token is
  not drawn anew, administrators stay as they are, and names and mail addresses change only under
  the lock.
\<close>

section \<open>What stays\<close>

text \<open>The hash of a token that is drawn from now on.\<close>

definition fresh :: "world \<Rightarrow> nat \<Rightarrow> string \<Rightarrow> bool" where
  "fresh w n h \<longleftrightarrow> (\<exists>m \<ge> n. h = wo_sha256 w (wo_random w m))"

definition open_token :: "string \<Rightarrow> paneldb \<Rightarrow> bool" where
  "open_token h d \<longleftrightarrow> (\<exists>t \<in> set (cp_action_tokens d). ak_TokenHash t = h \<and> \<not> token_IsConsumed t)"

definition is_admin_row :: "login_row \<Rightarrow> bool" where "is_admin_row r \<longleftrightarrow> lo_group_id r = 99"

text \<open>An administrator's account later: confirmed perhaps, but neither banned nor set free.\<close>

definition kept_row :: "login_row \<Rightarrow> login_row \<Rightarrow> bool" where
  "kept_row r r' \<longleftrightarrow> lo_account_id r' = lo_account_id r \<and>
     (is_admin_row r \<longrightarrow> is_admin_row r' \<and> lo_unban_time r' = lo_unban_time r \<and>
        (lo_state r' = lo_state r \<or> lo_state r = StateUnverified \<and> lo_state r' = StateActive))"

text \<open>The accounts, seen from those that were there at the start.\<close>

definition logins_ok :: "login_row list \<Rightarrow> logindb \<Rightarrow> bool" where
  "logins_ok base d \<longleftrightarrow> uniq lo_account_id (lo_login d) \<and>
     (\<forall>r \<in> set (lo_login d) \<union> set base. lo_account_id r \<le> lo_seq d) \<and>
     (\<forall>r \<in> set base. \<exists>r' \<in> set (lo_login d). kept_row r r') \<and>
     (\<forall>r' \<in> set (lo_login d). is_admin_row r' \<longrightarrow> (\<exists>r \<in> set base. lo_account_id r = lo_account_id r' \<and> is_admin_row r))"

definition logins_wf :: "logindb \<Rightarrow> bool" where
  "logins_wf d \<longleftrightarrow> uniq lo_account_id (lo_login d) \<and> (\<forall>r \<in> set (lo_login d). lo_account_id r \<le> lo_seq d)"

lemma logins_ok_start: "logins_wf d \<Longrightarrow> logins_ok (lo_login d) d"
  by (auto simp: logins_ok_def logins_wf_def kept_row_def)

definition gone :: "string set \<Rightarrow> paneldb \<Rightarrow> bool" where
  "gone lost d \<longleftrightarrow> (\<forall>se \<in> set (cp_sessions d). se_TokenHash se \<notin> lost)"

definition names :: "logindb \<Rightarrow> (int \<times> string \<times> string) list" where
  "names d = map (\<lambda>r. (lo_account_id r, lo_userid r, lo_email r)) (lo_login d)"

definition site_inv :: "world \<Rightarrow> nat \<Rightarrow> string set \<Rightarrow> login_row list \<Rightarrow> site \<Rightarrow> bool" where
  "site_inv w n lost base s \<longleftrightarrow> n \<le> st_drawn s \<and> (\<forall>h \<in> lost. \<not> fresh w n h) \<and> gone lost (st_panel s) \<and> logins_ok base (st_login s)"

definition site_may :: "world \<Rightarrow> nat \<Rightarrow> site \<Rightarrow> site \<Rightarrow> bool" where
  "site_may w n s s' \<longleftrightarrow> (\<forall>h. \<not> fresh w n h \<longrightarrow> open_token h (st_panel s') \<longrightarrow> open_token h (st_panel s))"

definition site_calm :: "site \<Rightarrow> site \<Rightarrow> bool" where "site_calm s s' \<longleftrightarrow> names (st_login s') = names (st_login s)"

definition site_does :: "world \<Rightarrow> nat \<Rightarrow> site \<Rightarrow> site \<Rightarrow> bool" where
  "site_does w n s s' \<longleftrightarrow> site_may w n s s' \<and> site_calm s s' \<and> st_emailUniqueMu s' = st_emailUniqueMu s"

text \<open>No two accounts have names or mail addresses that the database takes for the same.\<close>

definition names_unique :: "world \<Rightarrow> logindb \<Rightarrow> bool" where
  "names_unique w d \<longleftrightarrow> (\<forall>(i, u, m) \<in> set (names d). \<forall>(j, v, n) \<in> set (names d). i \<noteq> j \<longrightarrow> \<not> wo_same w u v \<and> \<not> wo_same w m n)"

interpretation free: rely_guarantee "site_inv w n lost base" "site_may w n" "site_may w n" for w n lost base
  by unfold_locales (auto simp: site_may_def)

interpretation mutex: one_holder "site_inv w n lost base" "site_may w n" "site_does w n" st_emailUniqueMu "\<lambda>s. names_unique w (st_login s)" site_calm
  for w n lost base
  by unfold_locales (auto simp: site_may_def site_does_def site_calm_def names_unique_def)

interpretation link: once_only "site_inv w n lost base" "site_may w n" "site_may w n" "\<lambda>s. \<not> fresh w n h \<and> open_token h (st_panel s)" for w n lost base h
  by unfold_locales (auto simp: site_may_def)

lemma safe_free: "mutex.safe w n lost base Q t s \<Longrightarrow> free.safe w n lost base Q t s"
  by (induction t arbitrary: s rule: task_induct) (auto simp: site_does_def)

section \<open>Statements\<close>

definition panel_rel :: "world \<Rightarrow> nat \<Rightarrow> string set \<Rightarrow> paneldb \<Rightarrow> paneldb \<Rightarrow> bool" where
  "panel_rel w n lost d d' \<longleftrightarrow> (\<forall>h. \<not> fresh w n h \<longrightarrow> open_token h d' \<longrightarrow> open_token h d) \<and>
     ((\<forall>h \<in> lost. \<not> fresh w n h) \<longrightarrow> gone lost d \<longrightarrow> gone lost d')"

definition login_rel :: "login_row list \<Rightarrow> logindb \<Rightarrow> logindb \<Rightarrow> bool" where
  "login_rel base d d' \<longleftrightarrow> (logins_ok base d \<longrightarrow> logins_ok base d') \<and> names d' = names d"

interpretation pan: store "\<lambda>a b. a" "panel_rel w n lost" for w n lost
  by unfold_locales (auto simp: panel_rel_def)

interpretation log: store "\<lambda>a b. a" "login_rel base" for base
  by unfold_locales (auto simp: login_rel_def)

lemma panel_same [simp]:
  "panel_rel w n lost d (d\<lparr>cp_account_record := x\<rparr>)" "panel_rel w n lost d (d\<lparr>cp_login_attempts := y\<rparr>)"
  "panel_rel w n lost d (d\<lparr>cp_audit_log := z, audit_seq := k\<rparr>)" "panel_rel w n lost d d"
  by (simp_all add: panel_rel_def gone_def open_token_def)

lemmas pan_intro = pan.grows_exec pan.grows_exec_opt pan.grows_sql pan.grows_bind pan.grows_query pan.grows_query_row pan.grows_ret pan.grows_fail
lemmas log_intro = log.grows_exec log.grows_exec_opt log.grows_sql log.grows_bind log.grows_query log.grows_query_row log.grows_ret log.grows_fail

lemma steps_panel_reads:
  "steps (panel_rel w n lost) (GetByTokenHash h)" "steps (panel_rel w n lost) (GetByHash h)"
  "steps (panel_rel w n lost) (token_MostRecentIssuedAt i a)" "steps (panel_rel w n lost) (MostRecent i k)"
  "steps (panel_rel w n lost) (ConsecutiveFailures w' u win now)" "steps (panel_rel w n lost) (ListByTarget i l)"
  "steps (panel_rel w n lost) (record_Record i k now)" "steps (panel_rel w n lost) (insert_attempt u j ip ok agent)"
  "steps (panel_rel w n lost) (clear_failures w' u)" "steps (panel_rel w n lost) (audit_Record x)"
  by (auto simp: GetByTokenHash_def GetByHash_def token_MostRecentIssuedAt_def MostRecent_def ConsecutiveFailures_def ListByTarget_def
      record_Record_def insert_attempt_def clear_failures_def audit_Record_def Let_def intro!: pan_intro split: if_splits)

lemma steps_panel_writes:
  "fresh w n (se_TokenHash se) \<Longrightarrow> steps (panel_rel w n lost) (session_Create se)"
  "steps (panel_rel w n lost) (session_Refresh h now e)" "steps (panel_rel w n lost) (session_Delete h)"
  "steps (panel_rel w n lost) (DeleteByUserID i)" "steps (panel_rel w n lost) (DeleteByUserIDExcept i h)"
  "fresh w n (ak_TokenHash t) \<Longrightarrow> steps (panel_rel w n lost) (token_Insert t)"
  "steps (panel_rel w n lost) (DeleteUnconsumed i a)" "steps (panel_rel w n lost) (MarkConsumed h now)"
  by (auto simp: session_Create_def session_Refresh_def session_Delete_def DeleteByUserID_def DeleteByUserIDExcept_def token_Insert_def
      DeleteUnconsumed_def MarkConsumed_def affected_def panel_rel_def gone_def open_token_def set_upd_where token_IsConsumed_def
      intro!: pan_intro split: if_splits) (blast+)

lemma names_upd: "(\<And>r. lo_account_id (f r) = lo_account_id r \<and> lo_userid (f r) = lo_userid r \<and> lo_email (f r) = lo_email r) \<Longrightarrow>
    names (d\<lparr>lo_login := upd_where p f (lo_login d)\<rparr>) = names d"
  by (simp add: names_def upd_where_def)

lemma logins_upd:
  assumes "logins_ok base d" and "\<And>r. lo_account_id (f r) = lo_account_id r"
    and "\<And>r. r \<in> set (lo_login d) \<Longrightarrow> p r \<Longrightarrow> is_admin_row (f r) = is_admin_row r \<and> kept_row r (f r)"
  shows "logins_ok base (d\<lparr>lo_login := upd_where p f (lo_login d)\<rparr>)"
proof -
  let ?u = "\<lambda>r. if p r then f r else r"
  have set: "set (upd_where p f (lo_login d)) = ?u ` set (lo_login d)" by (rule set_upd_where)
  have "uniq lo_account_id (upd_where p f (lo_login d))" using assms(1,2) by (simp add: logins_ok_def uniq_upd_where)
  moreover have "\<exists>r' \<in> set (upd_where p f (lo_login d)). kept_row r r'" if "r \<in> set base" for r
  proof -
    from assms(1) that obtain r' where r': "r' \<in> set (lo_login d)" "kept_row r r'" by (auto simp: logins_ok_def)
    then have "kept_row r (?u r')" using assms(3) [of r'] by (auto simp: kept_row_def StateUnverified_def StateActive_def)
    moreover from r'(1) have "?u r' \<in> set (upd_where p f (lo_login d))" unfolding set by (rule imageI)
    ultimately show ?thesis by blast
  qed
  ultimately show ?thesis using assms by (auto simp: logins_ok_def set)
qed

lemma steps_login_reads:
  "steps (login_rel base) (user_GetByID i)" "steps (login_rel base) (GetByUsername w u)" "steps (login_rel base) (user_GetByEmail w u)"
  "steps (login_rel base) (VerifyPassword i pw)" "steps (login_rel base) (GetCredentials w u)" "steps (login_rel base) (account_exists i)"
  "steps (login_rel base) (ListByAccount i)"
  by (auto simp: user_GetByID_def GetByUsername_def user_GetByEmail_def selectLoginRow_def VerifyPassword_def GetCredentials_def
      account_exists_def ListByAccount_def intro!: log_intro)

definition base_admin :: "login_row list \<Rightarrow> int \<Rightarrow> bool" where
  "base_admin base i \<longleftrightarrow> (\<exists>r \<in> set base. lo_account_id r = i \<and> is_admin_row r)"

lemma admin_then: "logins_ok base d \<Longrightarrow> r \<in> set (lo_login d) \<Longrightarrow> is_admin_row r \<Longrightarrow> base_admin base (lo_account_id r)"
  by (auto simp: logins_ok_def base_admin_def)

lemma admin_upd [simp]:
  "is_admin_row (r\<lparr>lo_state := a\<rparr>) = is_admin_row r" "is_admin_row (r\<lparr>lo_user_pass := b\<rparr>) = is_admin_row r"
  "is_admin_row (r\<lparr>lo_email := b\<rparr>) = is_admin_row r"
  "is_admin_row (r\<lparr>lo_state := a, lo_unban_time := c\<rparr>) = is_admin_row r" "is_admin_row (r\<lparr>lo_group_id := g\<rparr>) = (g = 99)"
  by (simp_all add: is_admin_row_def)

lemma steps_login_writes:
  "steps (login_rel base) (set_verified i)" "steps (login_rel base) (user_UpdatePassword w i pw)"
  by (auto simp: set_verified_def user_UpdatePassword_def found_one_def update_login_def login_rel_def Let_def
      intro!: log_intro names_upd logins_upd split: if_splits simp: kept_row_def StateUnverified_def StateActive_def)

lemma moderated:
  assumes "\<not> base_admin base i" and "\<And>r. lo_account_id (f r) = lo_account_id r \<and> lo_userid (f r) = lo_userid r \<and> lo_email (f r) = lo_email r"
    and "\<And>r. \<not> is_admin_row r \<Longrightarrow> \<not> is_admin_row (f r)"
  shows "steps (login_rel base) (found_one (sql Account_store (update_login i (\<lambda>_. True) f)))"
proof -
  have "login_rel base d (d\<lparr>lo_login := upd_where (\<lambda>r. lo_account_id r = i) f (lo_login d)\<rparr>)" for d
    unfolding login_rel_def
  proof (intro conjI impI)
    show "names (d\<lparr>lo_login := upd_where (\<lambda>r. lo_account_id r = i) f (lo_login d)\<rparr>) = names d" by (rule names_upd) (rule assms(2))
    assume ok: "logins_ok base d"
    show "logins_ok base (d\<lparr>lo_login := upd_where (\<lambda>r. lo_account_id r = i) f (lo_login d)\<rparr>)"
    proof (rule logins_upd [OF ok])
      fix r assume r: "r \<in> set (lo_login d)" "lo_account_id r = i"
      with ok assms(1) have "\<not> is_admin_row r" by (auto simp: logins_ok_def base_admin_def)
      with assms(2,3) show "is_admin_row (f r) = is_admin_row r \<and> kept_row r (f r)" by (simp add: kept_row_def)
    qed (use assms(2) in simp)
  qed
  then show ?thesis by (auto simp: found_one_def update_login_def Let_def intro!: log_intro split: if_splits)
qed

lemma steps_login_moderation:
  "\<not> base_admin base i \<Longrightarrow> steps (login_rel base) (UpdateBan i st un)"
  "\<not> base_admin base i \<Longrightarrow> g \<noteq> 99 \<Longrightarrow> steps (login_rel base) (UpdateGroup i g)"
  unfolding UpdateBan_def UpdateGroup_def by (rule moderated; simp)+

section \<open>Tasks\<close>

named_theorems careful_intro \<open>tasks that go about the site carefully\<close>

abbreviation careful :: "world \<Rightarrow> nat \<Rightarrow> string set \<Rightarrow> login_row list \<Rightarrow> 'a serving \<Rightarrow> site \<Rightarrow> bool" where
  "careful w n lost base t s \<equiv> mutex.safe w n lost base (\<lambda>_. True) t s"

lemma safe_on_panel:
  assumes "steps (panel_rel w n lost) m" and "\<And>s' fs r c. site_inv w n lost base s' \<Longrightarrow> m \<lparr>data = st_panel s', faults = fs\<rparr> = (r, c) \<Longrightarrow> P r"
  shows "mutex.safe w n lost base P (on_panel m) s"
proof -
  have "site_inv w n lost base (s'\<lparr>st_panel := d\<rparr>) \<and> site_does w n s' (s'\<lparr>st_panel := d\<rparr>)"
    if "site_inv w n lost base s'" "panel_rel w n lost (st_panel s') d" for s' d
    using that by (auto simp: site_inv_def site_does_def site_may_def site_calm_def panel_rel_def)
  moreover have "panel_rel w n lost (st_panel s') (data (snd (m \<lparr>data = st_panel s', faults = fs\<rparr>)))" for s' fs
    using assms(1) [unfolded steps_def, rule_format, of "\<lparr>data = st_panel s', faults = fs\<rparr>"] by simp
  moreover have "P (fst (m \<lparr>data = st_panel s', faults = fs\<rparr>))" if "site_inv w n lost base s'" for s' fs
    using assms(2) [OF that, of fs] by (cases "m \<lparr>data = st_panel s', faults = fs\<rparr>") auto
  ultimately show ?thesis by (simp add: on_panel_def atomic_def) blast
qed

lemma safe_on_login:
  assumes "steps (login_rel base) m" and "\<And>s' fs r c. site_inv w n lost base s' \<Longrightarrow> m \<lparr>data = st_login s', faults = fs\<rparr> = (r, c) \<Longrightarrow> P r"
  shows "mutex.safe w n lost base P (on_login m) s"
proof -
  have "site_inv w n lost base (s'\<lparr>st_login := d\<rparr>) \<and> site_does w n s' (s'\<lparr>st_login := d\<rparr>)"
    if "site_inv w n lost base s'" "login_rel base (st_login s') d" for s' d
    using that by (auto simp: site_inv_def site_does_def site_may_def site_calm_def login_rel_def)
  moreover have "login_rel base (st_login s') (data (snd (m \<lparr>data = st_login s', faults = fs\<rparr>)))" for s' fs
    using assms(1) [unfolded steps_def, rule_format, of "\<lparr>data = st_login s', faults = fs\<rparr>"] by simp
  moreover have "P (fst (m \<lparr>data = st_login s', faults = fs\<rparr>))" if "site_inv w n lost base s'" for s' fs
    using assms(2) [OF that, of fs] by (cases "m \<lparr>data = st_login s', faults = fs\<rparr>") auto
  ultimately show ?thesis by (simp add: on_login_def atomic_def) blast
qed

lemma careful_on [careful_intro]:
  "steps (panel_rel w n lost) m \<Longrightarrow> careful w n lost base (on_panel m) s"
  "steps (login_rel base) l \<Longrightarrow> careful w n lost base (on_login l) s"
  by (rule safe_on_panel; simp) (rule safe_on_login; simp)

lemma site_step_simps [simp]:
  "site_inv w n lost base (s\<lparr>st_mail := m\<rparr>) = site_inv w n lost base s" "site_does w n s (s\<lparr>st_mail := m\<rparr>)"
  "site_inv w n lost base s \<Longrightarrow> site_inv w n lost base (s\<lparr>st_drawn := Suc (st_drawn s)\<rparr>)" "site_does w n s (s\<lparr>st_drawn := k\<rparr>)"
  "site_does w n s s"
  by (auto simp: site_inv_def site_does_def site_may_def site_calm_def)

lemma careful_plain [careful_intro]:
  "careful w n lost base (ret x) s" "careful w n lost base (fail e) s" "careful w n lost base time_Now s"
  "careful w n lost base (SendAsync to subject url) s"
  by (simp_all add: time_Now_def look_def SendAsync_def change_def ret_def)

lemma safe_draw:
  assumes "\<And>raw t. fresh w n (wo_sha256 w raw) \<Longrightarrow> mutex.safe w n lost base Q (g raw) t"
  shows "mutex.safe w n lost base Q (andThen (draw w) g) s"
proof -
  have "fresh w n (wo_sha256 w (wo_random w (st_drawn s')))" if "site_inv w n lost base s'" for s'
    using that by (auto simp: site_inv_def fresh_def)
  with assms show ?thesis by (simp add: draw_def andThen_def ret_def)
qed

lemma careful_draw [careful_intro]:
  "(\<And>raw t. fresh w n (wo_sha256 w raw) \<Longrightarrow> careful w n lost base (g raw) t) \<Longrightarrow> careful w n lost base (andThen (draw w) g) s"
  by (rule safe_draw)

lemma careful_bind [careful_intro]:
  "careful w n lost base m s \<Longrightarrow> (\<And>r t. careful w n lost base (g r) t) \<Longrightarrow> careful w n lost base (bindT m g) s"
  by (rule mutex.safe_bind [where P = "\<lambda>_. True"])

lemma careful_andThen [careful_intro]:
  "careful w n lost base m s \<Longrightarrow> (\<And>x t. careful w n lost base (g x) t) \<Longrightarrow> careful w n lost base (andThen m g) s"
  by (rule mutex.safe_andThen [where P = "\<lambda>_. True"]) auto

lemma careful_cases [careful_intro]:
  "(b \<Longrightarrow> careful w n lost base m s) \<Longrightarrow> (\<not> b \<Longrightarrow> careful w n lost base m' s) \<Longrightarrow> careful w n lost base (if b then m else m') s"
  "(x = None \<Longrightarrow> careful w n lost base m s) \<Longrightarrow> (\<And>y. x = Some y \<Longrightarrow> careful w n lost base (f y) s) \<Longrightarrow>
   careful w n lost base (case x of None \<Rightarrow> m | Some y \<Rightarrow> f y) s"
  "(\<And>e. r = Inl e \<Longrightarrow> careful w n lost base (g e) s) \<Longrightarrow> (\<And>y. r = Inr y \<Longrightarrow> careful w n lost base (h y) s) \<Longrightarrow>
   careful w n lost base (case r of Inl e \<Rightarrow> g e | Inr y \<Rightarrow> h y) s"
  "(\<And>a b. p = (a, b) \<Longrightarrow> careful w n lost base (k a b) s) \<Longrightarrow> careful w n lost base (case p of (a, b) \<Rightarrow> k a b) s"
  "(\<And>a. e = Account a \<Longrightarrow> careful w n lost base (f1 a) s) \<Longrightarrow> (\<And>fe. e = Invalid fe \<Longrightarrow> careful w n lost base (f2 fe) s) \<Longrightarrow>
   (e = Account_store \<Longrightarrow> careful w n lost base f3 s) \<Longrightarrow> careful w n lost base (case e of Account a \<Rightarrow> f1 a | Invalid fe \<Rightarrow> f2 fe | Account_store \<Rightarrow> f3) s"
  by (auto split: option.split sum.split prod.split account_failure.split)

lemmas careful_steps [careful_intro] = steps_panel_reads steps_panel_writes steps_login_reads steps_login_writes

section \<open>The services\<close>

lemma careful_manager [careful_intro]:
  "careful w n lost base (MarkVerified i) s" "careful w n lost base (attempt_Record w u j ip ok agent) s"
  "careful w n lost base (token_Issue w a i p ttl) s" "careful w n lost base (token_lookup w' a raw now) s"
  "careful w n lost base (token_Consume w' a raw) s" "careful w n lost base (token_Peek w' a raw) s"
  unfolding MarkVerified_def attempt_Record_def token_Issue_def token_lookup_def token_Consume_def token_Peek_def
  by (intro careful_intro; simp)+

lemma careful_sessions [careful_intro]:
  "ss_world ss = w \<Longrightarrow> careful w n lost base (sessions_Create ss i) s"
  "careful w n lost base (sessions_Validate ss raw) s" "careful w n lost base (sessions_Destroy ss raw) s"
  "careful w n lost base (InvalidateAll i) s" "careful w n lost base (InvalidateOthers ss i raw) s"
  unfolding sessions_Create_def sessions_Validate_def sessions_Destroy_def InvalidateAll_def InvalidateOthers_def Let_def
  by (simp, intro careful_intro; simp) (intro careful_intro; simp)+

lemma careful_found [careful_intro]: "careful w n lost base m s \<Longrightarrow> careful w n lost base (if_found m) s"
  unfolding if_found_def by (intro careful_intro)

lemma careful_checks [careful_intro]:
  "careful w n lost base (checkRegistrationUniqueness w' u m) s" "careful w n lost base (assertUnrestricted i) s"
  unfolding checkRegistrationUniqueness_def assertUnrestricted_def Let_def
  by (intro careful_intro) (auto intro!: careful_intro split: tier.split)

lemma careful_service [careful_intro]:
  assumes "as_world sv = w"
  shows "careful w n lost base (IssueVerification sv i email) s"
    and "careful w n lost base (ConsumeVerification sv raw) s" and "careful w n lost base (ResendVerification sv i) s"
    and "careful w n lost base (RequestPasswordReset sv email) s" and "careful w n lost base (ConsumePasswordReset sv raw pw) s"
    and "careful w n lost base (record_attempt sv u j cmd ok) s" and "careful w n lost base (Authenticate sv cmd) s"
    and "careful w n lost base (GetAccount i) s"
    and "careful w n lost base (UpdatePassword sv ss i cur pw new' conf) s" and "careful w n lost base (RequestEmailChange sv i pw email) s"
proof -
  show issue: "careful w n lost base (IssueVerification sv i email) s" for i email s
    unfolding IssueVerification_def assms by (intro careful_intro)
  show kept: "careful w n lost base (record_attempt sv u j cmd ok) s" for u j cmd ok s
    unfolding record_attempt_def assms by (intro careful_intro)
  show "careful w n lost base (ConsumeVerification sv raw) s" unfolding ConsumeVerification_def by (intro careful_intro)
  show "careful w n lost base (ResendVerification sv i) s" unfolding ResendVerification_def by (intro careful_intro issue)
  show "careful w n lost base (RequestPasswordReset sv email) s" unfolding RequestPasswordReset_def assms by (intro careful_intro)
  show "careful w n lost base (ConsumePasswordReset sv raw pw) s" unfolding ConsumePasswordReset_def by (intro careful_intro)
  show "careful w n lost base (Authenticate sv cmd) s" unfolding Authenticate_def Let_def by (intro careful_intro kept)
  show "careful w n lost base (GetAccount i) s" unfolding GetAccount_def Let_def by (intro careful_intro)
  show "careful w n lost base (UpdatePassword sv ss i cur pw new' conf) s" unfolding UpdatePassword_def by (intro careful_intro)
  show "careful w n lost base (RequestEmailChange sv i pw email) s" unfolding RequestEmailChange_def assms by (intro careful_intro)
qed

section \<open>Moderation\<close>

lemma find_not_admin:
  assumes "logins_ok base d" and "find (\<lambda>r. lo_account_id r = i) (lo_login d) = Some r" and "\<not> is_admin_row r"
  shows "\<not> base_admin base i"
proof
  assume "base_admin base i"
  then obtain b where "b \<in> set base" "lo_account_id b = i" "is_admin_row b" by (auto simp: base_admin_def)
  with assms(1) obtain r' where r': "r' \<in> set (lo_login d)" "lo_account_id r' = i" "is_admin_row r'" by (force simp: logins_ok_def kept_row_def)
  have "uniq lo_account_id (lo_login d)" using assms(1) by (simp add: logins_ok_def)
  from find_key_uniq [OF this r'(1)] r' assms(2,3) show False by simp
qed

lemma safe_loadMutableTarget:
  "mutex.safe w n lost base (\<lambda>r. (\<exists>u. r = Inr u) \<longrightarrow> \<not> base_admin base i) (loadMutableTarget actor i adm) s"
proof -
  have "mutex.safe w n lost base (\<lambda>r. \<forall>u. r = Inr u \<longrightarrow> \<not> user_IsAdmin u \<longrightarrow> \<not> base_admin base i) (on_login (user_GetByID i)) s" for s
  proof (rule safe_on_login [OF steps_login_reads(1)])
    fix s' fs r c
    assume "site_inv w n lost base s'" and m: "user_GetByID i \<lparr>data = st_login s', faults = fs\<rparr> = (r, c)"
    then have ok: "logins_ok base (st_login s')" by (simp add: site_inv_def)
    show "\<forall>u. r = Inr u \<longrightarrow> \<not> user_IsAdmin u \<longrightarrow> \<not> base_admin base i"
    proof (intro allI impI)
      fix u assume "r = Inr u" and u: "\<not> user_IsAdmin u"
      with m obtain row where row: "find (\<lambda>r. lo_account_id r = i) (lo_login (st_login s')) = Some row" "u = user_of row"
        by (auto simp: user_GetByID_def selectLoginRow_def query_row_Inr)
      with u have "\<not> is_admin_row row" by (simp add: user_IsAdmin_def user_of_def is_admin_row_def)
      with find_not_admin [OF ok row(1)] show "\<not> base_admin base i" by blast
    qed
  qed
  then show ?thesis
    unfolding loadMutableTarget_def
    by (auto intro!: mutex.safe_andThen [where P = "\<lambda>r. \<forall>u. r = Inr u \<longrightarrow> \<not> user_IsAdmin u \<longrightarrow> \<not> base_admin base i"])
qed

lemma careful_load:
  "(\<And>u t. \<not> base_admin base i \<Longrightarrow> careful w n lost base (g u) t) \<Longrightarrow> careful w n lost base (andThen (loadMutableTarget actor i adm) g) s"
  by (rule mutex.safe_andThen [OF safe_loadMutableTarget]) auto

lemma careful_moderation [careful_intro]:
  "careful w n lost base (moderation_Get i) s" "careful w n lost base (GetUser i) s" "careful w n lost base (recordAudit a i k r b c) s"
  "careful w n lost base (Ban bc) s" "careful w n lost base (Unban uc) s"
  "list_all (\<lambda>(g, _). g \<noteq> 99) allowed \<Longrightarrow> careful w n lost base (SetRole allowed rc) s"
proof -
  show get: "careful w n lost base (moderation_Get i) s" for i s unfolding moderation_Get_def by (intro careful_intro)
  show "careful w n lost base (GetUser i) s" unfolding GetUser_def by (intro careful_intro)
  show kept: "careful w n lost base (recordAudit a i k r b c) s" for a i k r b c s unfolding recordAudit_def by (intro careful_intro)
  note mod = careful_intro careful_load get kept steps_login_moderation
  show "careful w n lost base (Ban bc) s" unfolding Ban_def Let_def by (intro mod)
  show "careful w n lost base (Unban uc) s" unfolding Unban_def Let_def by (intro mod)
  assume "list_all (\<lambda>(g, _). g \<noteq> 99) allowed"
  then have "map_of allowed g \<noteq> None \<Longrightarrow> g \<noteq> 99" for g by (fastforce simp: list_all_iff dest: map_of_SomeD)
  then show "careful w n lost base (SetRole allowed rc) s" unfolding SetRole_def Let_def by (intro mod)
qed

section \<open>Gate and handlers\<close>

lemma careful_gate [careful_intro]:
  assumes "\<And>se sn t. careful w n lost base (k se sn) t" and "\<And>x t. careful w n lost base (reject x) t"
  shows "careful w n lost base (requireRoleCore ss res hid p allowed cookie k reject) s"
  unfolding requireRoleCore_def rejectBanned_def Let_def by (intro careful_intro assms)

lemma careful_page [careful_intro]: "careful w n lost base (page p) s" "careful w n lost base (hasActiveSession h en) s"
  unfolding page_def hasActiveSession_def by (intro careful_intro)+

text \<open>The parts of the handlers are about one world, and no role to be given is the administrators'.\<close>

definition handlers_ok :: "world \<Rightarrow> handlers \<Rightarrow> bool" where
  "handlers_ok w h \<longleftrightarrow> as_world (hd_svc h) = w \<and> ss_world (hd_sess h) = w \<and> list_all (\<lambda>(g, _). g \<noteq> 99) (hd_allowed h)"

lemma careful_link [careful_intro]: "careful w n lost base (validateTokenLink h k raw p q) s"
  unfolding validateTokenLink_def by (intro careful_intro)

lemma careful_unverified [careful_intro]: "(\<And>u t. careful w n lost base (k u) t) \<Longrightarrow> careful w n lost base (requireUnverifiedSession h en k) s"
  unfolding requireUnverifiedSession_def by (intro careful_intro)

lemma careful_self:
  assumes "handlers_ok w h"
  shows "careful w n lost base (showRegister h en) s" "careful w n lost base (showLogin h en m) s" "careful w n lost base (doLogin h en u pw) s"
    "careful w n lost base (doLogout h en) s" "careful w n lost base (showForgotPassword h en) s" "careful w n lost base (doForgotPassword h en email) s"
    "careful w n lost base (showResetPassword h raw) s" "careful w n lost base (doResetPassword h en raw pw conf) s"
    "careful w n lost base (showVerifyAccount h en m) s" "careful w n lost base (showVerify h en raw) s" "careful w n lost base (doVerify h en raw) s"
    "careful w n lost base (doResendVerification h en) s" "careful w n lost base (showVerifyEmailChange h raw) s"
    "careful w n lost base (showAccount sess) s" "careful w n lost base (doChangePassword h en sess cur pw conf) s"
    "careful w n lost base (doChangeEmail h en sess cur email) s"
proof -
  have wo: "as_world (hd_svc h) = w" "ss_world (hd_sess h) = w" using assms by (simp_all add: handlers_ok_def)
  note i = careful_intro careful_service [OF wo(1)] careful_sessions(1) [OF wo(2)]
  show "careful w n lost base (showRegister h en) s" unfolding showRegister_def by (intro i)
  show "careful w n lost base (showLogin h en m) s" unfolding showLogin_def by (intro i)
  show "careful w n lost base (doLogin h en u pw) s" unfolding doLogin_def Let_def by (intro i)
  show "careful w n lost base (doLogout h en) s" unfolding doLogout_def by (intro i)
  show "careful w n lost base (showForgotPassword h en) s" unfolding showForgotPassword_def by (intro i)
  show "careful w n lost base (doForgotPassword h en email) s" unfolding doForgotPassword_def by (intro i)
  show "careful w n lost base (showResetPassword h raw) s" unfolding showResetPassword_def by (intro i)
  show "careful w n lost base (doResetPassword h en raw pw conf) s" unfolding doResetPassword_def by (intro i)
  show "careful w n lost base (showVerifyAccount h en m) s" unfolding showVerifyAccount_def by (intro i)
  show "careful w n lost base (showVerify h en raw) s" unfolding showVerify_def by (intro i)
  show "careful w n lost base (doVerify h en raw) s" unfolding doVerify_def Let_def by (intro i)
  show "careful w n lost base (doResendVerification h en) s" unfolding doResendVerification_def by (intro i)
  show "careful w n lost base (showVerifyEmailChange h raw) s" unfolding showVerifyEmailChange_def by (intro i)
  show "careful w n lost base (showAccount sess) s" unfolding showAccount_def by (intro i wo)
  show "careful w n lost base (doChangePassword h en sess cur pw conf) s" unfolding doChangePassword_def by (intro i)
  show "careful w n lost base (doChangeEmail h en sess cur email) s" unfolding doChangeEmail_def by (intro i)
qed

lemma careful_staff:
  assumes "handlers_ok w h"
  shows "careful w n lost base (doBan en snap i d p r) s" "careful w n lost base (doUnban en snap i r) s"
    "careful w n lost base (doSetRole h en snap i g r) s" "careful w n lost base (showDetail snap i) s" "careful w n lost base (showActionModal x i) s"
proof -
  have allowed: "list_all (\<lambda>(g, _). g \<noteq> 99) (hd_allowed h)" using assms by (simp add: handlers_ok_def)
  have modal: "careful w n lost base (actionModalError j m) s" for j m s unfolding actionModalError_def by (intro careful_intro)
  have acted: "careful w n lost base t s' \<Longrightarrow> careful w n lost base (acted j v t) s'" for j v t s' unfolding acted_def by (intro careful_intro modal)
  have target: "(\<And>a b c t. careful w n lost base (k a b c) t) \<Longrightarrow> careful w n lost base (targetAndActor raw sn k) s'" for k raw sn s'
    unfolding targetAndActor_def by (intro careful_intro)
  note i = target acted modal careful_intro careful_moderation(6) [OF allowed]
  show "careful w n lost base (doBan en snap i d p r) s" unfolding doBan_def by (intro i)
  show "careful w n lost base (doUnban en snap i r) s" unfolding doUnban_def by (intro i)
  show "careful w n lost base (doSetRole h en snap i g r) s" unfolding doSetRole_def by (intro i)
  show "careful w n lost base (showDetail snap i) s" unfolding showDetail_def by (intro i)
  show "careful w n lost base (showActionModal x i) s" unfolding showActionModal_def by (intro i)
qed

text \<open>Every request but the two that change names and mail addresses.\<close>

definition takes_lock :: "account_request \<Rightarrow> bool" where
  "takes_lock r \<longleftrightarrow> (case r of Register _ \<Rightarrow> True | Email_confirm _ \<Rightarrow> True | _ \<Rightarrow> False)"

lemma careful_handlers:
  assumes "handlers_ok w h" and "\<not> takes_lock r"
  shows "careful w n lost base (handler_of h en r se sn) s"
  using assms(2) careful_self [OF assms(1)] careful_staff [OF assms(1)]
  by (cases r) (auto simp: takes_lock_def intro: careful_intro)

lemma careful_route:
  assumes "\<And>se sn t. careful w n lost base (k se sn) t"
  shows "careful w n lost base (through_route h en tag hidden k) s"
  unfolding through_route_def by (auto intro!: careful_intro assms split: mounting.split option.split)

end
