(* ===== verification/Account_Locks.thy ===== *)
theory Account_Locks
  imports Account_Steps
begin

text \<open>
  The two requests that change names and mail addresses, registration and the confirmation of a
  new mail address: they look and write under the lock, so no two accounts get the same.
\<close>

section \<open>Without the lock's rule\<close>

abbreviation steady :: "world \<Rightarrow> nat \<Rightarrow> string set \<Rightarrow> login_row list \<Rightarrow> 'a serving \<Rightarrow> site \<Rightarrow> bool" where
  "steady w n lost base t s \<equiv> free.safe w n lost base (\<lambda>_. True) t s"

named_theorems steady_intro \<open>tasks that keep what stays\<close>

lemma steady_careful: "careful w n lost base t s \<Longrightarrow> steady w n lost base t s"
  by (rule safe_free)

lemma steady_bind [steady_intro]:
  "steady w n lost base m s \<Longrightarrow> (\<And>r t. steady w n lost base (g r) t) \<Longrightarrow> steady w n lost base (bindT m g) s"
  by (rule free.safe_bind [where P = "\<lambda>_. True"])

lemma steady_andThen [steady_intro]:
  "steady w n lost base m s \<Longrightarrow> (\<And>x t. steady w n lost base (g x) t) \<Longrightarrow> steady w n lost base (andThen m g) s"
  by (rule free.safe_andThen [where P = "\<lambda>_. True"]) auto

lemma steady_cases [steady_intro]:
  "(b \<Longrightarrow> steady w n lost base m s) \<Longrightarrow> (\<not> b \<Longrightarrow> steady w n lost base m' s) \<Longrightarrow> steady w n lost base (if b then m else m') s"
  "(x = None \<Longrightarrow> steady w n lost base m s) \<Longrightarrow> (\<And>y. x = Some y \<Longrightarrow> steady w n lost base (f y) s) \<Longrightarrow>
   steady w n lost base (case x of None \<Rightarrow> m | Some y \<Rightarrow> f y) s"
  "(\<And>e. r = Inl e \<Longrightarrow> steady w n lost base (g e) s) \<Longrightarrow> (\<And>y. r = Inr y \<Longrightarrow> steady w n lost base (h y) s) \<Longrightarrow>
   steady w n lost base (case r of Inl e \<Rightarrow> g e | Inr y \<Rightarrow> h y) s"
  "(\<And>a b. p = (a, b) \<Longrightarrow> steady w n lost base (k a b) s) \<Longrightarrow> steady w n lost base (case p of (a, b) \<Rightarrow> k a b) s"
  by (auto split: option.split sum.split prod.split)

lemma steady_exclusively [steady_intro]: "(\<And>t. steady w n lost base m t) \<Longrightarrow> steady w n lost base (exclusively m) s"
proof -
  assume m: "\<And>t. steady w n lost base m t"
  have flag: "site_inv w n lost base (t\<lparr>st_emailUniqueMu := b\<rparr>) = site_inv w n lost base t" "site_may w n t (t\<lparr>st_emailUniqueMu := b\<rparr>)" for t b
    by (simp_all add: site_inv_def site_may_def)
  have "steady w n lost base (bindT m (\<lambda>r. Step (\<lambda>_ s. s\<lparr>st_emailUniqueMu := False\<rparr>) (\<lambda>_ _. Ended r))) t" for t
    by (rule steady_bind [OF m]) (simp add: flag)
  then show ?thesis by (simp add: exclusively_def flag)
qed

text \<open>The statements that change names.\<close>

lemma logins_insert:
  assumes "logins_ok base d" and "insert_login w u m pw g b d = Some (i, d')"
  shows "logins_ok base d'"
proof -
  let ?r = "\<lparr>lo_account_id = lo_seq d + 1, lo_userid = u, lo_user_pass = pw, lo_sex = g, lo_email = m, lo_group_id = 0, lo_state = 1,
      lo_unban_time = 0, lo_last_ip = None, lo_lastlogin = None, lo_birthdate = b\<rparr>"
  have d': "lo_login d' = lo_login d @ [?r]" "lo_seq d' = lo_seq d + 1"
    using assms(2) by (auto simp: insert_login_def Let_def split: if_splits)
  have ids: "r \<in> set (lo_login d) \<union> set base \<Longrightarrow> lo_account_id r \<le> lo_seq d" for r using assms(1) by (auto simp: logins_ok_def)
  then have "uniq lo_account_id (lo_login d')" using assms(1) by (force simp: d' logins_ok_def uniq_def)
  moreover have "\<not> is_admin_row ?r" by (simp add: is_admin_row_def)
  ultimately show ?thesis using assms(1) ids by (force simp: logins_ok_def d')
qed

lemma steady_on_login:
  assumes "\<And>d fs. logins_ok base d \<Longrightarrow> logins_ok base (data (snd (m \<lparr>data = d, faults = fs\<rparr>)))"
  shows "steady w n lost base (on_login m) s"
  using assms by (simp add: on_login_def atomic_def site_inv_def site_may_def)

lemma keeps_logins:
  "keeps (logins_ok base) (user_Create w u m pw g b)" "keeps (logins_ok base) (UpdateEmail w i m)"
proof -
  show "keeps (logins_ok base) (user_Create w u m pw g b)" unfolding user_Create_def by (rule keeps_sql) (rule logins_insert)
  have "keeps (logins_ok base) (sql e (update_login i (row_ok w) (\<lambda>r. r\<lparr>lo_email := m\<rparr>)))" for e
  proof (rule keeps_sql)
    fix d x d' assume d: "logins_ok base d" "update_login i (row_ok w) (\<lambda>r. r\<lparr>lo_email := m\<rparr>) d = Some (x, d')"
    then have "d' = d\<lparr>lo_login := upd_where (\<lambda>r. lo_account_id r = i) (\<lambda>r. r\<lparr>lo_email := m\<rparr>) (lo_login d)\<rparr>"
      by (simp add: update_login_def Let_def split: if_splits)
    then show "logins_ok base d'" using logins_upd [OF d(1), of "\<lambda>r. r\<lparr>lo_email := m\<rparr>" "\<lambda>r. lo_account_id r = i"] by (simp add: kept_row_def)
  qed
  then show "keeps (logins_ok base) (UpdateEmail w i m)" unfolding UpdateEmail_def found_one_def by (auto intro!: keeps_bind)
qed

lemma steady_names [steady_intro]:
  "steady w n lost base (on_login (user_Create w' u m pw g b)) s" "steady w n lost base (on_login (UpdateEmail w' i m)) s"
proof -
  show "steady w n lost base (on_login (user_Create w' u m pw g b)) s"
    by (rule steady_on_login) (use keeps_logins(1) in \<open>simp add: keeps_def\<close>)
  show "steady w n lost base (on_login (UpdateEmail w' i m)) s"
    by (rule steady_on_login) (use keeps_logins(2) in \<open>simp add: keeps_def\<close>)
qed

lemma steady_create [steady_intro]:
  assumes "as_world sv = w"
  shows "steady w n lost base (account_Create sv cmd) s" "steady w n lost base (ConsumeEmailChange sv raw) s"
proof -
  note c = steady_careful [OF careful_plain(1)] steady_careful [OF careful_plain(2)] steady_careful [OF careful_plain(3)]
    steady_careful [OF careful_checks(1)] steady_careful [OF careful_checks(2)] steady_careful [OF careful_manager(5)]
    steady_careful [OF careful_service(1) [OF assms]]
    steady_careful [OF careful_on(1) [OF steps_panel_reads(7)]] steady_careful [OF careful_on(2) [OF steps_login_reads(1)]]
    steady_careful [OF careful_found [OF careful_on(2) [OF steps_login_reads(3)]]]
  show "steady w n lost base (account_Create sv cmd) s" unfolding account_Create_def by (intro steady_intro c)
  show "steady w n lost base (ConsumeEmailChange sv raw) s" unfolding ConsumeEmailChange_def Let_def by (intro steady_intro c)
qed

lemma steady_account_request:
  assumes "handlers_ok w h"
  shows "steady w n lost base (handle_account h q) s"
proof -
  have wo: "as_world (hd_svc h) = w" "ss_world (hd_sess h) = w" using assms by (simp_all add: handlers_ok_def)
  note c = steady_careful [OF careful_page(1)] steady_careful [OF careful_plain(1)] steady_careful [OF careful_sessions(1) [OF wo(2)]]
  have locks: "steady w n lost base (doRegister h en cmd) t" "steady w n lost base (doVerifyEmailChange h en raw) t" for en cmd raw t
    unfolding doRegister_def doVerifyEmailChange_def
    by (intro steady_intro steady_create wo c; auto split: account_failure.split intro: c)+
  have handler: "steady w n lost base (handler_of h en r se sn) t" for en r se sn t
  proof (cases "takes_lock r")
    case True
    then show ?thesis using locks by (cases r) (auto simp: takes_lock_def)
  next
    case False
    with careful_handlers [OF assms] show ?thesis by (intro steady_careful) blast
  qed
  have gate: "steady w n lost base (requireRoleCore ss res hid p allowed cookie k reject) t"
    if k: "\<And>se sn t. steady w n lost base (k se sn) t" and reject: "\<And>x t. steady w n lost base (reject x) t" for ss res hid p allowed cookie k t and reject :: "cookie_change \<times> turned_away \<Rightarrow> answering"
    unfolding requireRoleCore_def rejectBanned_def Let_def
    by (intro steady_intro k reject c steady_careful [OF careful_plain(3)] steady_careful [OF careful_sessions(2)] steady_careful [OF careful_sessions(3)]
        steady_careful [OF careful_on(2) [OF steps_login_reads(1)]])
  show ?thesis
    by (cases q) (auto simp: handle_account_def through_route_def intro!: gate handler c split: mounting.split option.split)
qed

section \<open>Under the lock\<close>

text \<open>What the holder knows: a name nobody has, a mail address that nobody but an account has.\<close>

definition name_free :: "world \<Rightarrow> string \<Rightarrow> site \<Rightarrow> bool" where
  "name_free w u s \<longleftrightarrow> (\<forall>(i, v, m) \<in> set (names (st_login s)). \<not> wo_same w v u)"

definition mail_free :: "world \<Rightarrow> string \<Rightarrow> int option \<Rightarrow> site \<Rightarrow> bool" where
  "mail_free w m own s \<longleftrightarrow> (\<forall>(i, v, k) \<in> set (names (st_login s)). wo_same w k m \<longrightarrow> own = Some i)"

lemma free_calm: "site_calm s s' \<Longrightarrow> name_free w u s' = name_free w u s" "site_calm s s' \<Longrightarrow> mail_free w m own s' = mail_free w m own s"
  by (simp_all add: site_calm_def name_free_def mail_free_def)

lemma inside_on_login:
  assumes "\<And>d fs r c. logins_ok base d \<Longrightarrow> names_unique w d \<Longrightarrow> m \<lparr>data = d, faults = fs\<rparr> = (r, c) \<Longrightarrow>
      names d = names (st_login s) \<Longrightarrow> logins_ok base (data c) \<and> names_unique w (data c) \<and> (\<forall>t. st_login t = data c \<longrightarrow> P r t)"
  shows "mutex.inside w n lost base P (on_login m) s"
proof -
  have "let c = snd (m \<lparr>data = st_login s', faults = fs\<rparr>)
      in logins_ok base (data c) \<and> names_unique w (data c) \<and> P (fst (m \<lparr>data = st_login s', faults = fs\<rparr>)) (s'\<lparr>st_login := data c\<rparr>)"
    if "site_inv w n lost base s'" "names_unique w (st_login s')" "site_calm s s'" for s' fs
    using assms [of "st_login s'" fs "fst (m \<lparr>data = st_login s', faults = fs\<rparr>)" "snd (m \<lparr>data = st_login s', faults = fs\<rparr>)"] that
    by (simp add: site_inv_def site_calm_def Let_def)
  then show ?thesis by (simp add: on_login_def atomic_def site_inv_def site_may_def Let_def)
qed

lemma read_login:
  assumes "query_row e q l \<lparr>data = d, faults = fs\<rparr> = (r, c)"
  shows "data c = d" and "r = Inl e \<or> (case l d of None \<Rightarrow> r = Inl q | Some x \<Rightarrow> r = Inr x)"
  using assms by (auto simp: query_row_def bindE_def query_def sql_def retE_def failE_def split: option.splits fault.splits)

lemma inside_lookup:
  "mutex.inside w n lost base (\<lambda>r t. r = Inr None \<longrightarrow> name_free w u t) (if_found (on_login (GetByUsername w u))) s"
  "equivp (wo_same w) \<Longrightarrow> mutex.inside w n lost base
     (\<lambda>r t. names (st_login t) = names (st_login s) \<and> (\<forall>x. r = Inr x \<longrightarrow> mail_free w m (map_option us_ID x) t)) (if_found (on_login (user_GetByEmail w m))) s"
proof -
  have "mutex.inside w n lost base (\<lambda>r t. r = Inl (Account ErrUserNotFound) \<longrightarrow> name_free w u t) (on_login (GetByUsername w u)) s"
  proof (rule inside_on_login)
    fix d fs r c assume d: "logins_ok base d" "names_unique w d" and "GetByUsername w u \<lparr>data = d, faults = fs\<rparr> = (r, c)"
    note read = read_login [OF this(3) [unfolded GetByUsername_def selectLoginRow_def]]
    show "logins_ok base (data c) \<and> names_unique w (data c) \<and> (\<forall>t. st_login t = data c \<longrightarrow> r = Inl (Account ErrUserNotFound) \<longrightarrow> name_free w u t)"
      using d read by (auto simp: name_free_def names_def find_None_iff split: option.splits)
  qed
  then show "mutex.inside w n lost base (\<lambda>r t. r = Inr None \<longrightarrow> name_free w u t) (if_found (on_login (GetByUsername w u))) s"
    unfolding if_found_def by (rule mutex.inside_bind) (auto split: sum.split)
  assume eq: "equivp (wo_same w)"
  have "mutex.inside w n lost base (\<lambda>r t. names (st_login t) = names (st_login s) \<and>
        (r = Inl (Account ErrUserNotFound) \<longrightarrow> mail_free w m None t) \<and> (\<forall>x. r = Inr x \<longrightarrow> mail_free w m (Some (us_ID x)) t))
      (on_login (user_GetByEmail w m)) s"
  proof (rule inside_on_login)
    fix d fs r c assume d: "logins_ok base d" "names_unique w d" and "user_GetByEmail w m \<lparr>data = d, faults = fs\<rparr> = (r, c)" and same: "names d = names (st_login s)"
    note read = read_login [OF this(3) [unfolded user_GetByEmail_def selectLoginRow_def]]
    have "mail_free w m (Some (lo_account_id a)) t" if "find (\<lambda>r. wo_same w (lo_email r) m) (lo_login d) = Some a" "st_login t = d" for a t
    proof -
      from that have a: "a \<in> set (lo_login d)" "wo_same w (lo_email a) m" by (auto simp: find_Some_iff)
      have "lo_account_id r = lo_account_id a" if "r \<in> set (lo_login d)" "wo_same w (lo_email r) m" for r
      proof (rule ccontr)
        assume "lo_account_id r \<noteq> lo_account_id a"
        with d(2) that a have "\<not> wo_same w (lo_email r) (lo_email a)" by (fastforce simp: names_unique_def names_def)
        with that(2) a(2) equivp_symp [OF eq] equivp_transp [OF eq] show False by blast
      qed
      with that(2) show ?thesis by (auto simp: mail_free_def names_def)
    qed
    moreover have "mail_free w m None t" if "find (\<lambda>r. wo_same w (lo_email r) m) (lo_login d) = None" "st_login t = d" for t
      using that by (auto simp: mail_free_def names_def find_None_iff)
    ultimately show "logins_ok base (data c) \<and> names_unique w (data c) \<and> (\<forall>t. st_login t = data c \<longrightarrow> names (st_login t) = names (st_login s) \<and>
        (r = Inl (Account ErrUserNotFound) \<longrightarrow> mail_free w m None t) \<and> (\<forall>x. r = Inr x \<longrightarrow> mail_free w m (Some (us_ID x)) t))"
      using d read same by (auto simp: user_of_def split: option.splits)
  qed
  then show "mutex.inside w n lost base (\<lambda>r t. names (st_login t) = names (st_login s) \<and> (\<forall>x. r = Inr x \<longrightarrow> mail_free w m (map_option us_ID x) t)) (if_found (on_login (user_GetByEmail w m))) s"
    unfolding if_found_def by (rule mutex.inside_bind) (auto split: sum.split)
qed

lemma inside_check:
  assumes "equivp (wo_same w)"
  shows "mutex.inside w n lost base (\<lambda>r t. r = Inr () \<longrightarrow> name_free w u t \<and> mail_free w m None t) (checkRegistrationUniqueness w u m) s"
  unfolding checkRegistrationUniqueness_def
proof (rule mutex.inside_andThen [OF inside_lookup(1)])
  fix x t assume name: "Inr x = Inr None \<longrightarrow> name_free w u t"
  show "mutex.inside w n lost base (\<lambda>r t. r = Inr () \<longrightarrow> name_free w u t \<and> mail_free w m None t)
      (andThen (if_found (on_login (user_GetByEmail w m))) (\<lambda>byEmail.
         let fe1 = if x \<noteq> None then fe_Add ''username'' (Says ''username already taken'') [] else [];
             fe = if byEmail \<noteq> None then fe_Add ''email'' (Says ''email already in use'') fe1 else fe1
         in if fe_Has fe then fail (Invalid fe) else ret ())) t"
    by (rule mutex.inside_andThen [OF inside_lookup(2) [OF assms]])
      (use name in \<open>auto simp: fe_Has_def fe_Add_def Let_def name_free_def split: if_splits\<close>)
qed simp

lemma inside_create:
  assumes "equivp (wo_same w)" and "name_free w u s" and "mail_free w m None s"
  shows "mutex.inside w n lost base (\<lambda>_ _. True) (on_login (user_Create w u m pw g b)) s"
proof (rule inside_on_login)
  fix d fs r c
  assume d: "logins_ok base d" "names_unique w d" and run: "user_Create w u m pw g b \<lparr>data = d, faults = fs\<rparr> = (r, c)"
    and same: "names d = names (st_login s)"
  have "data c = d \<or> (\<exists>i. insert_login w u m pw g b d = Some (i, data c))"
    using sql_data [of Account_store "insert_login w u m pw g b" "\<lparr>data = d, faults = fs\<rparr>"] run by (auto simp: user_Create_def)
  moreover have "names_unique w d'" if "insert_login w u m pw g b d = Some (i, d')" for i d'
  proof -
    have new: "names d' = names d @ [(lo_seq d + 1, u, m)]" using that by (auto simp: insert_login_def names_def Let_def split: if_splits)
    have "\<not> wo_same w v u \<and> \<not> wo_same w k m \<and> \<not> wo_same w u v \<and> \<not> wo_same w m k" if "(j, v, k) \<in> set (names d)" for j v k
      using assms(2,3) that same equivp_symp [OF assms(1)] by (fastforce simp: name_free_def mail_free_def)
    with d(2) show ?thesis by (fastforce simp: names_unique_def new)
  qed
  ultimately show "logins_ok base (data c) \<and> names_unique w (data c) \<and> (\<forall>t. st_login t = data c \<longrightarrow> True)"
    using d(1,2) logins_insert [OF d(1)] by blast
qed

lemma found_one_data: "data (snd (found_one m s)) = data (snd (m s))"
  by (auto simp: found_one_def bindE_def retE_def failE_def split: prod.split sum.split)

lemma inside_change:
  assumes "equivp (wo_same w)" and "mail_free w m (Some i) s \<or> mail_free w m None s"
  shows "mutex.inside w n lost base (\<lambda>_ _. True) (on_login (UpdateEmail w i m)) s"
proof (rule inside_on_login)
  fix d fs r c
  assume d: "logins_ok base d" "names_unique w d" and run: "UpdateEmail w i m \<lparr>data = d, faults = fs\<rparr> = (r, c)"
    and same: "names d = names (st_login s)"
  have ok: "logins_ok base (data c)" using keepsD [OF keeps_logins(2) _ run] d(1) by simp
  let ?d = "d\<lparr>lo_login := upd_where (\<lambda>r. lo_account_id r = i) (\<lambda>r. r\<lparr>lo_email := m\<rparr>) (lo_login d)\<rparr>"
  have "data c = d \<or> data c = ?d"
    using sql_data [of Account_store "update_login i (row_ok w) (\<lambda>r. r\<lparr>lo_email := m\<rparr>)" "\<lparr>data = d, faults = fs\<rparr>"] run
      found_one_data [of "sql Account_store (update_login i (row_ok w) (\<lambda>r. r\<lparr>lo_email := m\<rparr>))" "\<lparr>data = d, faults = fs\<rparr>"]
    by (auto simp: UpdateEmail_def update_login_def Let_def split: if_splits)
  moreover have "names_unique w ?d"
  proof -
    have new: "names ?d = map (\<lambda>(j, v, k). (j, v, if j = i then m else k)) (names d)"
      by (simp add: names_def upd_where_def)
    have other: "\<not> wo_same w k m \<and> \<not> wo_same w m k" if "(j, v, k) \<in> set (names d)" "j \<noteq> i" for j v k
      using assms(2) that same equivp_symp [OF assms(1)] by (fastforce simp: mail_free_def)
    have "\<not> wo_same w v v' \<and> \<not> wo_same w (if j = i then m else k) (if j' = i then m else k')"
      if "(j, v, k) \<in> set (names d)" "(j', v', k') \<in> set (names d)" "j \<noteq> j'" for j v k j' v' k'
    proof -
      from that d(2) have "\<not> wo_same w v v'" "\<not> wo_same w k k'" by (fastforce simp: names_unique_def)+
      with other that show ?thesis by auto
    qed
    then show ?thesis by (force simp: names_unique_def new)
  qed
  ultimately show "logins_ok base (data c) \<and> names_unique w (data c) \<and> (\<forall>t. st_login t = data c \<longrightarrow> True)"
    using ok d(2) by auto
qed

section \<open>Every request keeps the lock's rule\<close>

abbreviation orderly :: "world \<Rightarrow> nat \<Rightarrow> string set \<Rightarrow> login_row list \<Rightarrow> 'a serving \<Rightarrow> site \<Rightarrow> bool" where
  "orderly w n lost base t s \<equiv> mutex.keeps_lock w n lost base (\<lambda>_. True) t False s"

named_theorems orderly_intro \<open>tasks that keep the rule of the lock\<close>

lemma orderly_careful: "careful w n lost base t s \<Longrightarrow> orderly w n lost base t s"
  by (rule mutex.safe_keeps_lock)

lemma orderly_bind [orderly_intro]:
  "orderly w n lost base m s \<Longrightarrow> (\<And>r t. orderly w n lost base (g r) t) \<Longrightarrow> orderly w n lost base (bindT m g) s"
  by (rule mutex.keeps_lock_bind [where P = "\<lambda>_. True"])

lemma orderly_andThen [orderly_intro]:
  "orderly w n lost base m s \<Longrightarrow> (\<And>x t. orderly w n lost base (g x) t) \<Longrightarrow> orderly w n lost base (andThen m g) s"
  unfolding andThen_def by (rule mutex.keeps_lock_bind [where P = "\<lambda>_. True"]) (auto split: sum.split intro: orderly_careful careful_intro)

lemma orderly_cases [orderly_intro]:
  "(b \<Longrightarrow> orderly w n lost base m s) \<Longrightarrow> (\<not> b \<Longrightarrow> orderly w n lost base m' s) \<Longrightarrow> orderly w n lost base (if b then m else m') s"
  "(x = None \<Longrightarrow> orderly w n lost base m s) \<Longrightarrow> (\<And>y. x = Some y \<Longrightarrow> orderly w n lost base (f y) s) \<Longrightarrow>
   orderly w n lost base (case x of None \<Rightarrow> m | Some y \<Rightarrow> f y) s"
  "(\<And>e. r = Inl e \<Longrightarrow> orderly w n lost base (g e) s) \<Longrightarrow> (\<And>y. r = Inr y \<Longrightarrow> orderly w n lost base (h y) s) \<Longrightarrow>
   orderly w n lost base (case r of Inl e \<Rightarrow> g e | Inr y \<Rightarrow> h y) s"
  "(\<And>a b. p = (a, b) \<Longrightarrow> orderly w n lost base (k a b) s) \<Longrightarrow> orderly w n lost base (case p of (a, b) \<Rightarrow> k a b) s"
  by (auto split: option.split sum.split prod.split)

lemma orderly_exclusively:
  assumes "\<And>t. mutex.inside w n lost base (\<lambda>_ _. True) m t"
  shows "orderly w n lost base (exclusively m) s"
proof -
  have flag: "site_inv w n lost base (t\<lparr>st_emailUniqueMu := b\<rparr>) = site_inv w n lost base t" "site_may w n t (t\<lparr>st_emailUniqueMu := b\<rparr>)"
    "site_calm t (t\<lparr>st_emailUniqueMu := b\<rparr>)" for t b
    by (simp_all add: site_inv_def site_may_def site_calm_def)
  have "mutex.keeps_lock w n lost base (\<lambda>_. True) (bindT m (\<lambda>r. Step (\<lambda>_ s. s\<lparr>st_emailUniqueMu := False\<rparr>) (\<lambda>_ _. Ended r))) True t" for t
    by (rule mutex.inside_keeps_lock [OF assms]) (simp add: flag)
  then show ?thesis by (simp add: exclusively_def flag)
qed

lemma waits_bind: "mutex.waits (bindT m g) \<Longrightarrow> mutex.waits m \<or> (\<exists>r. mutex.waits (g r))"
  by (induction m rule: task_induct) auto

lemma inside_careful:
  "careful w n lost base t s \<Longrightarrow> \<not> mutex.waits t \<Longrightarrow> mutex.inside w n lost base (\<lambda>_ _. True) t s"
  using mutex.safe_inside [of w n lost base "\<lambda>_. True" t s] by (rule mutex.inside_mono) auto

lemma waits_simps [simp]:
  "\<not> mutex.waits (ret x)" "\<not> mutex.waits (fail e)" "\<not> mutex.waits (on_panel p)" "\<not> mutex.waits (on_login l)"
  "\<not> mutex.waits time_Now" "\<not> mutex.waits (draw w)" "\<not> mutex.waits (SendAsync to subject url)"
  by (simp_all add: ret_def fail_def on_panel_def on_login_def atomic_def time_Now_def look_def draw_def SendAsync_def change_def)

lemma waits_andThen: "mutex.waits (andThen m g) \<Longrightarrow> mutex.waits m \<or> (\<exists>x. mutex.waits (g x))"
proof -
  assume "mutex.waits (andThen m g)"
  then consider "mutex.waits m" | r where "mutex.waits (case r of Inl e \<Rightarrow> fail e | Inr x \<Rightarrow> g x)"
    unfolding andThen_def using waits_bind by blast
  then show ?thesis
  proof cases
    case (2 r)
    then show ?thesis by (cases r) auto
  qed simp
qed

lemma orderly_create:
  assumes "as_world sv = w" and "equivp (wo_same w)"
  shows "orderly w n lost base (account_Create sv cmd) s"
proof -
  have issue: "\<not> mutex.waits (IssueVerification sv i email)" for i email
    by (auto simp: IssueVerification_def token_Issue_def dest!: waits_andThen)
  have "mutex.inside w n lost base (\<lambda>_ _. True)
      (andThen (checkRegistrationUniqueness w (cc_Username cmd) email) (\<lambda>_.
       andThen (on_login (user_Create w (cc_Username cmd) email (cc_Password cmd) (cc_Gender cmd) birthdate)) (\<lambda>i.
       andThen (if as_enableVerify sv then IssueVerification sv i email else ret ()) (\<lambda>_.
       ret \<lparr>gd_Username = cc_Username cmd, gd_Email = email, gd_ID = i\<rparr>)))) t" for email birthdate t
  proof (rule mutex.inside_andThen [OF inside_check [OF assms(2)]])
    fix x t assume free: "Inr x = Inr () \<longrightarrow> name_free w (cc_Username cmd) t \<and> mail_free w email None t"
    show "mutex.inside w n lost base (\<lambda>_ _. True)
       (andThen (on_login (user_Create w (cc_Username cmd) email (cc_Password cmd) (cc_Gender cmd) birthdate)) (\<lambda>i.
        andThen (if as_enableVerify sv then IssueVerification sv i email else ret ()) (\<lambda>_.
        ret \<lparr>gd_Username = cc_Username cmd, gd_Email = email, gd_ID = i\<rparr>))) t"
    proof (rule mutex.inside_andThen [OF inside_create [OF assms(2)]])
      fix i t
      have "mutex.inside w n lost base (\<lambda>_ _. True) (if as_enableVerify sv then IssueVerification sv i email else ret ()) t"
        using inside_careful [OF careful_service(1) [OF assms(1)] issue] by simp
      then show "mutex.inside w n lost base (\<lambda>_ _. True) (andThen (if as_enableVerify sv then IssueVerification sv i email else ret ()) (\<lambda>_.
          ret \<lparr>gd_Username = cc_Username cmd, gd_Email = email, gd_ID = i\<rparr>)) t"
        by (rule mutex.inside_andThen) simp_all
    qed (use free in auto)
  qed simp
  then have "orderly w n lost base (exclusively
      (andThen (checkRegistrationUniqueness w (cc_Username cmd) email) (\<lambda>_.
       andThen (on_login (user_Create w (cc_Username cmd) email (cc_Password cmd) (cc_Gender cmd) birthdate)) (\<lambda>i.
       andThen (if as_enableVerify sv then IssueVerification sv i email else ret ()) (\<lambda>_.
       ret \<lparr>gd_Username = cc_Username cmd, gd_Email = email, gd_ID = i\<rparr>))))) t" for email birthdate t
    by (rule orderly_exclusively)
  then show ?thesis unfolding account_Create_def assms(1)
    by (intro orderly_intro orderly_careful [OF careful_plain(3)] orderly_careful [OF careful_plain(2)])
qed

lemma orderly_change:
  assumes "as_world sv = w" and "equivp (wo_same w)"
  shows "orderly w n lost base (ConsumeEmailChange sv raw) s"
proof -
  have rest: "mutex.inside w n lost base (\<lambda>_ _. True)
      (andThen time_Now (\<lambda>now. andThen (on_panel (record_Record i ChangeTypeEmail now)) (\<lambda>_. on_login (user_GetByID i)))) t" for i t
    by (rule inside_careful) (auto intro!: careful_intro dest!: waits_andThen)
  have "mutex.inside w n lost base (\<lambda>_ _. True)
      (andThen (if_found (on_login (user_GetByEmail w m))) (\<lambda>existing.
         if (case existing of None \<Rightarrow> False | Some e \<Rightarrow> us_ID e \<noteq> i) then fail (Account ErrEmailTaken)
         else andThen (on_login (UpdateEmail w i m)) (\<lambda>_. andThen time_Now (\<lambda>now.
           andThen (on_panel (record_Record i ChangeTypeEmail now)) (\<lambda>_. on_login (user_GetByID i)))))) t" for m i t
  proof (rule mutex.inside_andThen [OF inside_lookup(2) [OF assms(2)]])
    fix existing t' assume "names (st_login t') = names (st_login t) \<and> (\<forall>x. Inr existing = Inr x \<longrightarrow> mail_free w m (map_option us_ID x) t')"
    then have free: "mail_free w m (map_option us_ID existing) t'" by auto
    show "mutex.inside w n lost base (\<lambda>_ _. True)
        (if (case existing of None \<Rightarrow> False | Some e \<Rightarrow> us_ID e \<noteq> i) then fail (Account ErrEmailTaken)
         else andThen (on_login (UpdateEmail w i m)) (\<lambda>_. andThen time_Now (\<lambda>now.
           andThen (on_panel (record_Record i ChangeTypeEmail now)) (\<lambda>_. on_login (user_GetByID i))))) t'"
    proof (cases "case existing of None \<Rightarrow> False | Some e \<Rightarrow> us_ID e \<noteq> i")
      case False
      with free have "mail_free w m (Some i) t' \<or> mail_free w m None t'" by (auto split: option.splits)
      with False show ?thesis using mutex.inside_andThen [OF inside_change [OF assms(2)] rest] by simp
    qed simp
  qed simp
  note body = orderly_exclusively [OF this]
  show ?thesis unfolding ConsumeEmailChange_def assms(1) Let_def
    by (intro orderly_intro body orderly_careful [OF careful_plain(2)] orderly_careful [OF careful_manager(5)] orderly_careful [OF careful_checks(2)])
qed

lemma orderly_account_request:
  assumes "handlers_ok w h" and "equivp (wo_same w)"
  shows "orderly w n lost base (handle_account h q) s"
proof -
  have wo: "as_world (hd_svc h) = w" "ss_world (hd_sess h) = w" using assms(1) by (simp_all add: handlers_ok_def)
  note c = orderly_careful [OF careful_page(1)] orderly_careful [OF careful_plain(1)] orderly_careful [OF careful_sessions(1) [OF wo(2)]]
  have locks: "orderly w n lost base (doRegister h en cmd) t" "orderly w n lost base (doVerifyEmailChange h en raw) t" for en cmd raw t
    unfolding doRegister_def doVerifyEmailChange_def
    by (intro orderly_intro orderly_create orderly_change wo assms(2) c; auto split: account_failure.split intro: c)+
  have handler: "orderly w n lost base (handler_of h en r se sn) t" for en r se sn t
  proof (cases "takes_lock r")
    case True
    then show ?thesis using locks by (cases r) (auto simp: takes_lock_def)
  next
    case False
    with careful_handlers [OF assms(1)] show ?thesis by (intro orderly_careful) blast
  qed
  have gate: "orderly w n lost base (requireRoleCore ss res hid p allowed cookie k reject) t"
    if k: "\<And>se sn t. orderly w n lost base (k se sn) t" and reject: "\<And>x t. orderly w n lost base (reject x) t" for ss res hid p allowed cookie k t and reject :: "cookie_change \<times> turned_away \<Rightarrow> answering"
    unfolding requireRoleCore_def rejectBanned_def Let_def
    by (intro orderly_intro k reject c orderly_careful [OF careful_plain(3)] orderly_careful [OF careful_sessions(2)] orderly_careful [OF careful_sessions(3)]
        orderly_careful [OF careful_on(2) [OF steps_login_reads(1)]])
  show ?thesis
    by (cases q) (auto simp: handle_account_def through_route_def intro!: gate handler c split: mounting.split option.split)
qed

section \<open>Panels\<close>

lemma elapse_ok: "site_inv w n lost base s \<Longrightarrow> site_inv w n lost base (let_pass k s) \<and> site_does w n s (let_pass k s)"
  by (simp add: let_pass_def site_inv_def site_does_def site_may_def site_calm_def gone_def open_token_def)

lemma panel_steady:
  assumes "handlers_ok w h" and "site_inv w n lost base s" and "run_accounts h xs s = (s', ts)"
  shows "site_inv w n lost base s'"
  using free.run_panel_safe [where Q = "\<lambda>_ _. True" and elapse = let_pass and handle = "handle_account h" and xs = xs, OF _ steady_account_request [OF assms(1)] assms(2)]
    elapse_ok assms(3)
  unfolding run_accounts_def site_does_def by blast

lemma panel_names:
  assumes "handlers_ok w h" and "equivp (wo_same w)" and "logins_wf (st_login s)" and "names_unique w (st_login s)" and "\<not> st_emailUniqueMu s"
    and "run_accounts h xs s = (s', ts)"
  shows "names_unique w (st_login s')"
proof -
  have "site_inv w (st_drawn s) {} (lo_login (st_login s)) s" using logins_ok_start [OF assms(3)] by (simp add: site_inv_def gone_def)
  from mutex.run_panel_holder(2) [where Q = "\<lambda>_ _. True", OF elapse_ok orderly_account_request [OF assms(1,2)] this assms(4,5) assms(6) [unfolded run_accounts_def]]
  show ?thesis .
qed

end
