(* ===== verification/Account_Links.thy ===== *)
theory Account_Links
  imports Account_Locks Account_Runs
begin

text \<open>
  The links of mails: a token that was sent is used at most once, whatever requests run at the
  same time.
\<close>

section \<open>Consuming a token\<close>

text \<open>A request that ends with a result in \<open>W\<close> took the token of the hash \<open>h\<close>.\<close>

abbreviation uses :: "world \<Rightarrow> nat \<Rightarrow> login_row list \<Rightarrow> string \<Rightarrow> (account_failure + 'a \<Rightarrow> bool) \<Rightarrow> 'a serving \<Rightarrow> site \<Rightarrow> bool" where
  "uses w n base h W t s \<equiv> link.once w n {} base h W t False s"

lemma uses_mark:
  assumes "\<not> fresh w n h" and "\<And>t. link.once w n {} base h W (g (Inr ())) True t" and "\<And>e t. uses w n base h W (g (Inl e)) t"
  shows "uses w n base h W (bindT (on_panel (MarkConsumed h now)) g) s"
proof -
  have kept: "site_inv w n {} base (s'\<lparr>st_panel := d\<rparr>) \<and> site_may w n s' (s'\<lparr>st_panel := d\<rparr>)"
    if "site_inv w n {} base s'" "panel_rel w n {} (st_panel s') d" for s' d
    using that by (auto simp: site_inv_def site_may_def panel_rel_def gone_def)
  have rel: "panel_rel w n {} (st_panel s') (data (snd (MarkConsumed h now \<lparr>data = st_panel s', faults = fs\<rparr>)))" for s' fs
  proof -
    have "steps (panel_rel w n {}) (MarkConsumed h now)" by (rule steps_panel_writes)
    from this [unfolded steps_def, rule_format, of "\<lparr>data = st_panel s', faults = fs\<rparr>"] show ?thesis by simp
  qed
  have took: "open_token h (st_panel s') \<and> \<not> open_token h (data c)"
    if "MarkConsumed h now \<lparr>data = st_panel s', faults = fs\<rparr> = (Inr (), c)" for s' fs c
    using that by (auto simp: MarkConsumed_def affected_def bindE_Inr sql_Inr retE_Inr failE_Inr open_token_def set_upd_where token_IsConsumed_def
        filter_empty_conv split: if_splits)
  have "link.once w n {} base h W (g r) False t \<or>
      open_token h (st_panel s') \<and> \<not> open_token h (data c) \<and> link.once w n {} base h W (g r) True t"
    if "MarkConsumed h now \<lparr>data = st_panel s', faults = fs\<rparr> = (r, c)" for s' fs r c t
    using that took [of s' fs c] assms(2,3) by (cases r) auto
  note step = this
  let ?run = "\<lambda>s' fs. MarkConsumed h now \<lparr>data = st_panel s', faults = fs\<rparr>"
  have all: "site_inv w n {} base (s'\<lparr>st_panel := data (snd (?run s' fs))\<rparr>) \<and> site_may w n s' (s'\<lparr>st_panel := data (snd (?run s' fs))\<rparr>) \<and>
      (link.once w n {} base h W (g (fst (?run s' fs))) False (s'\<lparr>st_panel := data (snd (?run s' fs))\<rparr>) \<or>
       (\<not> fresh w n h \<and> open_token h (st_panel s')) \<and> \<not> (\<not> fresh w n h \<and> open_token h (data (snd (?run s' fs)))) \<and>
       link.once w n {} base h W (g (fst (?run s' fs))) True (s'\<lparr>st_panel := data (snd (?run s' fs))\<rparr>))"
    if "site_inv w n {} base s'" for s' fs
    using kept [OF that rel [of s' fs]] step [OF surjective_pairing, of s' fs "s'\<lparr>st_panel := data (snd (?run s' fs))\<rparr>"] assms(1) by blast
  show ?thesis using all by (simp add: on_panel_def atomic_def)
qed

text \<open>Steps that have nothing to do with the token, and the result of a lookup.\<close>

lemma uses_steady: "steady w n {} base t s \<Longrightarrow> (\<And>r. \<not> W r) \<Longrightarrow> uses w n base h W t s"
  by (rule link.safe_once [where Q = "\<lambda>_. True"]) auto

lemma uses_bind: "steady w n {} base m s \<Longrightarrow> (\<And>r t. uses w n base h W (g r) t) \<Longrightarrow> uses w n base h W (bindT m g) s"
  by (rule link.safe_bind_once [where Q = "\<lambda>_. True"])

lemma uses_andThen:
  "steady w n {} base m s \<Longrightarrow> (\<And>x t. uses w n base h W (g x) t) \<Longrightarrow> (\<And>e. \<not> W (Inl e)) \<Longrightarrow> uses w n base h W (andThen m g) s"
  unfolding andThen_def by (rule uses_bind) (auto split: sum.split)

lemma found_token: "free.safe w n lost base (\<lambda>r. \<forall>t. r = Inr t \<longrightarrow> ak_TokenHash t = h) (on_panel (GetByHash h)) s"
proof (rule safe_free, rule safe_on_panel)
  fix s' :: site and fs r c assume "GetByHash h \<lparr>data = st_panel s', faults = fs\<rparr> = (r, c)"
  then show "\<forall>t. r = Inr t \<longrightarrow> ak_TokenHash t = h"
    by (auto simp: GetByHash_def query_row_Inr dest: find_key_Some)
qed (rule steps_panel_reads)

lemma looked_up:
  assumes "decodeTokenToHash w' raw = Some h"
  shows "free.safe w n lost base (\<lambda>r. \<forall>t. r = Inr t \<longrightarrow> ak_TokenHash t = h) (token_lookup w' a raw now) s"
  unfolding token_lookup_def assms by (simp, rule free.safe_andThen [OF found_token]) auto

definition succeeds :: "account_failure + 'a \<Rightarrow> bool" where "succeeds r \<longleftrightarrow> (case r of Inl _ \<Rightarrow> False | Inr _ \<Rightarrow> True)"

lemma succeeds_simps [simp]: "succeeds (Inr x)" "\<not> succeeds (Inl e)"
  by (simp_all add: succeeds_def)

lemma taken_steady: "steady w n {} base t s \<Longrightarrow> link.once w n {} base h W t True s"
  by (rule link.safe_once [where Q = "\<lambda>_. True"]) auto

lemma uses_consume:
  assumes "\<not> fresh w n h" and "decodeTokenToHash w' raw = Some h"
  shows "uses w n base h succeeds (token_Consume w' a raw) s"
  unfolding token_Consume_def
proof (rule uses_andThen)
  fix now t
  show "uses w n base h succeeds (andThen (token_lookup w' a raw now) (\<lambda>token.
      andThen (on_panel (MarkConsumed (ak_TokenHash token) now)) (\<lambda>_. ret (token\<lparr>ak_ConsumedAt := Some now\<rparr>)))) t"
    unfolding andThen_def [of "token_lookup w' a raw now"]
  proof (rule link.safe_bind_once [OF looked_up [OF assms(2)]])
    fix r :: "account_failure + action_token" and t assume r: "\<forall>t. r = Inr t \<longrightarrow> ak_TokenHash t = h"
    show "uses w n base h succeeds (case r of Inl e \<Rightarrow> fail e | Inr token \<Rightarrow>
        andThen (on_panel (MarkConsumed (ak_TokenHash token) now)) (\<lambda>_. ret (token\<lparr>ak_ConsumedAt := Some now\<rparr>))) t"
    proof (cases r)
      case (Inr token)
      with r have hash: "ak_TokenHash token = h" by simp
      show ?thesis unfolding Inr andThen_def hash sum.case by (rule uses_mark [OF assms(1)]) simp_all
    qed simp
  qed
qed (auto intro: steady_careful careful_intro)

section \<open>Requests that use a link\<close>

text \<open>What follows a token that was consumed does not matter, what comes before is not a success.\<close>

lemma uses_then:
  assumes "uses w n base h succeeds m s" and "\<And>x t. steady w n {} base (g x) t"
  shows "uses w n base h succeeds (andThen m g) s"
  unfolding andThen_def
proof (rule link.once_bind [OF assms(1)])
  fix r t
  show "succeeds r \<Longrightarrow> link.once w n {} base h succeeds (case r of Inl e \<Rightarrow> fail e | Inr x \<Rightarrow> g x) True t"
    by (cases r) (auto intro: taken_steady assms(2))
  show "\<not> succeeds r \<Longrightarrow> uses w n base h succeeds (case r of Inl e \<Rightarrow> fail e | Inr x \<Rightarrow> g x) t"
    by (cases r) auto
qed

lemma steady_exclusive_change:
  assumes "as_world sv = w"
  shows "steady w n lost base
    (case ValidateEmail (as_world sv) newEmail of Inl _ \<Rightarrow> fail (Account ErrTokenInvalid)
     | Inr _ \<Rightarrow> andThen (assertUnrestricted accountID) (\<lambda>_. exclusively
         (andThen (if_found (on_login (user_GetByEmail (as_world sv) newEmail))) (\<lambda>existing.
            if (case existing of None \<Rightarrow> False | Some e \<Rightarrow> us_ID e \<noteq> accountID) then fail (Account ErrEmailTaken)
            else andThen (on_login (UpdateEmail (as_world sv) accountID newEmail)) (\<lambda>_. andThen time_Now (\<lambda>now.
              andThen (on_panel (record_Record accountID ChangeTypeEmail now)) (\<lambda>_. on_login (user_GetByID accountID)))))))) s"
  by (intro steady_intro steady_careful [OF careful_plain(2)] steady_careful [OF careful_plain(3)] steady_careful [OF careful_checks(2)]
      steady_careful [OF careful_on(1) [OF steps_panel_reads(7)]] steady_careful [OF careful_on(2) [OF steps_login_reads(1)]]
      steady_careful [OF careful_found [OF careful_on(2) [OF steps_login_reads(3)]]])

lemma uses_services:
  assumes "as_world sv = w" and "\<not> fresh w n h" and "decodeTokenToHash w raw = Some h"
  shows "uses w n base h succeeds (ConsumeVerification sv raw) s" "uses w n base h succeeds (ConsumePasswordReset sv raw pw) s"
    "uses w n base h succeeds (ConsumeEmailChange sv raw) s"
proof -
  note c = uses_consume [OF assms(2), unfolded assms(1)] 
  show "uses w n base h succeeds (ConsumeVerification sv raw) s"
    unfolding ConsumeVerification_def assms(1)
    by (rule uses_then [OF uses_consume [OF assms(2,3)]]) (rule steady_careful [OF careful_manager(1)])
  show "uses w n base h succeeds (ConsumePasswordReset sv raw pw) s"
    unfolding ConsumePasswordReset_def assms(1)
    by (cases "new_password_error w pw")
      (auto intro!: uses_then [OF uses_consume [OF assms(2,3)]] steady_careful careful_intro)
  show "uses w n base h succeeds (ConsumeEmailChange sv raw) s"
    unfolding ConsumeEmailChange_def Let_def
    by (rule uses_then) (use uses_consume [OF assms(2,3)] assms(1) steady_exclusive_change [OF assms(1)] in auto)
qed

definition token_of :: "account_request \<Rightarrow> string option" where
  "token_of r = (case r of Reset t p c \<Rightarrow> Some t | Verify t \<Rightarrow> Some t | Email_confirm t \<Rightarrow> Some t | _ \<Rightarrow> None)"

text \<open>The pages that tell a visitor that the link has worked.\<close>

definition link_worked :: "shown \<Rightarrow> bool" where
  "link_worked p \<longleftrightarrow> (case p of Reset_result r \<Rightarrow> r = Link_success | Verify_result r \<Rightarrow> r = Link_success | Email_change_result r e \<Rightarrow> r = Link_success | _ \<Rightarrow> False)"

definition used_link :: "world \<Rightarrow> string \<Rightarrow> envelope \<times> account_request \<Rightarrow> account_failure + cookie_change \<times> shown \<Rightarrow> bool" where
  "used_link w h q a \<longleftrightarrow>
     (case token_of (snd q) of None \<Rightarrow> False | Some raw \<Rightarrow> decodeTokenToHash w raw = Some h) \<and>
     (case a of Inl _ \<Rightarrow> False | Inr (c, p) \<Rightarrow> link_worked p)"

abbreviation worked :: "account_failure + cookie_change \<times> shown \<Rightarrow> bool" where
  "worked a \<equiv> (case a of Inl _ \<Rightarrow> False | Inr (c, p) \<Rightarrow> link_worked p)"

lemma link_failure_not: "link_failure e \<noteq> Link_success"
  by (simp add: link_failure_def)

lemma uses_handler:
  assumes "handlers_ok w h" and "\<not> fresh w n th" and "token_of r = Some raw" and "decodeTokenToHash w raw = Some th"
  shows "uses w n base th worked (handler_of h en r se sn) s"
proof -
  have wo: "as_world (hd_svc h) = w" using assms(1) by (simp add: handlers_ok_def)
  note svc = uses_services [OF wo assms(2,4)]
  have "uses w n base th worked (doResetPassword h en raw pw conf) s" for pw conf
    unfolding doResetPassword_def
    by (auto simp: page_def link_worked_def link_failure_not split: sum.split account_failure.split intro!: link.once_bind [OF svc(2)])
  moreover have "uses w n base th worked (doVerify h en raw) s"
  proof -
    have active: "steady w n {} base (hasActiveSession h en) t" for t by (rule steady_careful [OF careful_page(2)])
    have shown: "steady w n {} base (andThen (hasActiveSession h en) (\<lambda>a. page (if a then Redirected ''/'' else Verify_result res))) t" for res t
      by (intro steady_intro active steady_careful [OF careful_page(1)])
    define g :: "account_failure + unit \<Rightarrow> answering" where "g = (\<lambda>r.
        let result = (case r of Inr _ \<Rightarrow> Link_success | Inl e \<Rightarrow> if e = Account ErrTokenExpired then Link_expired else Link_invalid)
        in if r = Inr () \<or> r = Inl (Account ErrTokenAlreadyUsed)
           then andThen (hasActiveSession h en) (\<lambda>active. page (if active then Redirected ''/'' else Verify_result result))
           else page (Verify_result result))"
    have verify: "doVerify h en raw =
        (if \<not> en_form_read en \<or> raw = [] then page (Verify_result Link_invalid) else bindT (ConsumeVerification (hd_svc h) raw) g)"
      by (simp add: doVerify_def g_def)
    have "link.once w n {} base th worked (g r) True t" if "succeeds r" for r t
      using that shown by (cases r) (auto simp: g_def intro!: taken_steady)
    moreover have "uses w n base th worked (g r) t" if "\<not> succeeds r" for r t
      using that by (cases r) (auto simp: g_def page_def link_worked_def intro!: uses_andThen active)
    ultimately have "uses w n base th worked (bindT (ConsumeVerification (hd_svc h) raw) g) s" by (intro link.once_bind [OF svc(1)])
    then show ?thesis by (simp add: verify page_def link_worked_def)
  qed
  moreover have "uses w n base th worked (doVerifyEmailChange h en raw) s"
    unfolding doVerifyEmailChange_def
    by (auto simp: page_def link_worked_def link_failure_not split: sum.split intro!: link.once_bind [OF svc(3)])
  ultimately show ?thesis using assms(3) by (auto simp: token_of_def split: account_request.splits)
qed

lemma turned_not_worked: "\<not> link_worked (turned t)"
  by (simp add: turned_def link_worked_def split: turned_away.split)

lemma uses_cases:
  "(x = None \<Longrightarrow> uses w n base h W m s) \<Longrightarrow> (\<And>y. x = Some y \<Longrightarrow> uses w n base h W (f y) s) \<Longrightarrow>
   uses w n base h W (case x of None \<Rightarrow> m | Some y \<Rightarrow> f y) s"
  "(b \<Longrightarrow> uses w n base h W m s) \<Longrightarrow> (\<not> b \<Longrightarrow> uses w n base h W m' s) \<Longrightarrow> uses w n base h W (if b then m else m') s"
  "(\<And>e. r = Inl e \<Longrightarrow> uses w n base h W (g e) s) \<Longrightarrow> (\<And>y. r = Inr y \<Longrightarrow> uses w n base h W (k y) s) \<Longrightarrow>
   uses w n base h W (case r of Inl e \<Rightarrow> g e | Inr y \<Rightarrow> k y) s"
  by (auto split: option.split sum.split)

lemma uses_route:
  assumes "\<And>se sn t. uses w n base th worked (k se sn) t"
  shows "uses w n base th worked (through_route h en tag hidden k) s"
proof -
  have rej: "uses w n base th worked ((\<lambda>(c, t). ret (c, turned t)) x) s'" for x s'
    using turned_not_worked by (cases x) simp
  have gate: "uses w n base th worked (requireRoleCore ss res hid p allowed cookie (\<lambda>se sn. k (Some se) (Some sn)) (\<lambda>(c, t). ret (c, turned t))) s'"
    for ss res hid p allowed cookie s'
    unfolding requireRoleCore_def rejectBanned_def Let_def
    by (intro uses_cases uses_bind uses_andThen assms rej steady_intro steady_careful [OF careful_plain(1)] steady_careful [OF careful_plain(3)]
        steady_careful [OF careful_sessions(2)] steady_careful [OF careful_sessions(3)] steady_careful [OF careful_on(2) [OF steps_login_reads(1)]];
        simp)
  show ?thesis unfolding through_route_def
    by (auto simp: page_def link_worked_def intro!: gate assms split: option.split mounting.split)
qed

text \<open>Of the requests that carry a token, at most one is told that it worked.\<close>

lemma panel_links:
  assumes "handlers_ok w h" and "logins_wf (st_login s)" and "\<not> fresh w (st_drawn s) th"
    and "run_accounts h xs s = (s', ts)" and "i < length ts" "j < length ts" "ts ! i = Ended a" "ts ! j = Ended b"
    and "used_link w th (arrivals xs ! i) a" "used_link w th (arrivals xs ! j) b"
  shows "i = j"
proof -
  let ?n = "st_drawn s" and ?base = "lo_login (st_login s)"
  have inv: "site_inv w ?n {} ?base s" using logins_ok_start [OF assms(2)] by (simp add: site_inv_def gone_def)
  have env: "site_inv w ?n {} ?base t \<Longrightarrow> site_inv w ?n {} ?base (let_pass k t) \<and> site_may w ?n t (let_pass k t)" for k t
    using elapse_ok by (auto simp: site_does_def)
  have "uses w ?n ?base th (used_link w th q) (handle_account h q) t" for q t
  proof (cases "token_of (snd q)")
    case None
    then show ?thesis by (intro uses_steady steady_account_request assms(1)) (simp add: used_link_def)
  next
    case (Some raw)
    show ?thesis
    proof (cases "decodeTokenToHash w raw = Some th")
      case True
      obtain en r where q: "q = (en, r)" by (cases q)
      have "uses w ?n ?base th worked (handle_account h q) t"
        unfolding handle_account_def q prod.case
        by (rule uses_route, rule uses_handler [OF assms(1,3) _ True]) (use Some q in simp)
      moreover have "used_link w th q = worked" using Some True by (auto simp: used_link_def)
      ultimately show ?thesis by simp
    next
      case False
      with Some show ?thesis by (intro uses_steady steady_account_request assms(1)) (simp add: used_link_def)
    qed
  qed
  from link.run_panel_once [where W = "used_link w th", OF env this inv assms(4) [unfolded run_accounts_def] assms(5-)] show ?thesis .
qed

section \<open>Sessions that have ended\<close>

lemma free_mono: "free.safe w n lost base P t s \<Longrightarrow> (\<And>a. Q a) \<Longrightarrow> free.safe w n lost base Q t s"
  by (induction t arbitrary: s rule: task_induct) auto

lemma steady_alone: "steady w n lost base t s \<Longrightarrow> site_inv w n lost base s \<Longrightarrow> alone t s = Some (r, s') \<Longrightarrow> site_inv w n lost base s'"
proof (induction t arbitrary: s rule: task_induct)
  case (Step e k)
  have "site_may w n s s" by (simp add: site_may_def)
  with Step.prems have "site_inv w n lost base (e [] s)" "steady w n lost base (k [] s) (e [] s)" by auto
  with Step show ?case by simp
next
  case (Await c e k)
  have "site_may w n s s" by (simp add: site_may_def)
  with Await show ?case by (auto split: if_splits)
qed simp

text \<open>A visitor whose session is gone is turned away at every gate, before the handler.\<close>

lemma lost_session:
  assumes "decodeTokenToHash (ss_world ss) v = Some h" and "h \<in> lost"
  shows "free.safe w n lost base (\<lambda>r. r = Inl (Account ErrSessionNotFound) \<or> r = Inl Account_store) (sessions_Validate ss v) s"
proof -
  have get: "mutex.safe w n lost base (\<lambda>r. r = Inl (Account ErrSessionNotFound) \<or> r = Inl Account_store) (on_panel (GetByTokenHash h)) s"
  proof (rule safe_on_panel)
    fix s' fs r c assume "site_inv w n lost base s'" and run: "GetByTokenHash h \<lparr>data = st_panel s', faults = fs\<rparr> = (r, c)"
    with assms(2) have none: "find (\<lambda>s. se_TokenHash s = h) (cp_sessions (st_panel s')) = None"
      by (auto simp: site_inv_def gone_def find_None_iff)
    show "r = Inl (Account ErrSessionNotFound) \<or> r = Inl Account_store"
      using read_login(2) [OF run [unfolded GetByTokenHash_def]] none by auto
  qed (rule steps_panel_reads)
  show ?thesis unfolding sessions_Validate_def assms(1) option.case
    by (rule free.safe_andThen [OF safe_free [OF get]]) auto
qed

text \<open>After a reset of the password, by itself, the account has no session left.\<close>

lemma token_Consume_alone:
  assumes "alone (token_Consume w a raw) s = Some (Inr t, s')"
  shows "\<exists>tok. find (\<lambda>t. Some (ak_TokenHash t) = decodeTokenToHash w raw) (cp_action_tokens (st_panel s)) = Some tok \<and>
      ak_AccountID t = ak_AccountID tok \<and> cp_sessions (st_panel s') = cp_sessions (st_panel s) \<and> st_login s' = st_login s"
proof -
  obtain h where h: "decodeTokenToHash w raw = Some h"
    using assms by (cases "decodeTokenToHash w raw") (auto simp: token_Consume_def token_lookup_def alone_andThen)
  show ?thesis using assms
    by (auto simp: h token_Consume_def token_lookup_def GetByHash_def MarkConsumed_def alone_andThen split: option.splits if_splits)
qed

lemma MarkVerified_sessions: "alone (MarkVerified i) s = Some (r, s') \<Longrightarrow> cp_sessions (st_panel s') = cp_sessions (st_panel s)"
  by (auto simp: MarkVerified_def alone_andThen account_exists_def set_verified_def split: option.splits)

lemma assertUnrestricted_alone: "alone (assertUnrestricted i) s = Some (r, s') \<Longrightarrow> s' = s"
  by (auto simp: assertUnrestricted_def alone_defs user_GetByID_def selectLoginRow_def split: option.splits tier.splits)

lemma reset_sessions:
  assumes "alone (ConsumePasswordReset sv raw pw) s = Some (Inr (), s')" and "as_world sv = w"
  shows "\<exists>tok. find (\<lambda>t. Some (ak_TokenHash t) = decodeTokenToHash w raw) (cp_action_tokens (st_panel s)) = Some tok \<and>
    set (cp_sessions (st_panel s')) = {se \<in> set (cp_sessions (st_panel s)). se_UserID se \<noteq> ak_AccountID tok}"
proof -
  have none: "new_password_error w pw = None" using assms by (cases "new_password_error w pw") (auto simp: ConsumePasswordReset_def)
  then obtain t s1 where c: "alone (token_Consume w PasswordReset raw) s = Some (Inr t, s1)"
    using assms by (auto simp: ConsumePasswordReset_def alone_andThen split: option.splits prod.splits sum.splits)
  from token_Consume_alone [OF c] obtain tok where tok: "find (\<lambda>t. Some (ak_TokenHash t) = decodeTokenToHash w raw) (cp_action_tokens (st_panel s)) = Some tok"
      "ak_AccountID t = ak_AccountID tok" "cp_sessions (st_panel s1) = cp_sessions (st_panel s)" by blast
  note rest = assms(1) [unfolded ConsumePasswordReset_def assms(2) none option.case alone_andThen, simplified c, simplified]
  show ?thesis
    using rest tok
    by (auto simp: alone_andThen InvalidateAll_def DeleteByUserID_def record_Record_def user_UpdatePassword_def update_login_def Let_def del_where_def
        split: option.splits prod.splits sum.splits if_splits dest!: MarkVerified_sessions assertUnrestricted_alone)
qed

end
