(* ===== verification/Account_Example.thy ===== *)
theory Account_Example
  imports Account_Logins Access_Gate Account_Links
begin

text \<open>
  A small panel on which the properties of the accounts are tried: two accounts, their sessions,
  the links they were sent, one access configuration, and what some requests do there.
\<close>

section \<open>A panel with two accounts\<close>

definition small_world :: world where
  "small_world = \<lparr>wo_lower = id, wo_sql_lower = id, wo_fold = (=), wo_IsUpper = (\<lambda>_. False), wo_IsDigit = (\<lambda>_. False), wo_ParseAddress = (\<lambda>_. True),
     wo_civil = (\<lambda>_. (2026, 1, 1)), wo_sha256 = id, wo_random = (\<lambda>n. replicate 32 (char_of n)), wo_same = (=), wo_like = (=), wo_row_ok = (\<lambda>_ _ _. True)\<rparr>"

definition plain_row :: "int \<Rightarrow> string \<Rightarrow> int \<Rightarrow> int \<Rightarrow> login_row" where
  "plain_row i name gid state = \<lparr>lo_account_id = i, lo_userid = name, lo_user_pass = ''Secret1!'', lo_sex = ''F'', lo_email = name, lo_group_id = gid,
     lo_state = state, lo_unban_time = 0, lo_last_ip = None, lo_lastlogin = None, lo_birthdate = (2000, 1, 1)\<rparr>"

text \<open>
  An administrator, a player who has not confirmed, a session of each, and the links to confirm
  and to reset that the player was sent. Hashes are the tokens themselves here.
\<close>

definition small_hash :: "char \<Rightarrow> string" where "small_hash c = c # replicate 31 (CHR 0x01)"

definition small_session :: "char \<Rightarrow> int \<Rightarrow> session" where
  "small_session c i = \<lparr>se_ExpiresAt = 100, se_CreatedAt = 0, se_LastSeenAt = 0, se_TokenHash = small_hash c, se_UserID = i\<rparr>"

definition small_token :: "char \<Rightarrow> action_kind \<Rightarrow> action_token" where
  "small_token c a = \<lparr>ak_ExpiresAt = 100, ak_CreatedAt = 0, ak_ConsumedAt = None, ak_Payload = None, ak_TokenHash = small_hash c, ak_AccountID = 2, ak_Action = a\<rparr>"

definition small_site :: site where
  "small_site = \<lparr>st_login = \<lparr>lo_login = [plain_row 1 ''root'' 99 0, plain_row 2 ''player'' 0 1], lo_char = [], lo_seq = 2\<rparr>,
     st_panel = \<lparr>cp_sessions = [small_session (CHR 0x00) 1, small_session (CHR 0x04) 2],
       cp_action_tokens = [small_token (CHR 0x07) EmailVerification, small_token (CHR 0x08) PasswordReset], cp_account_record = [],
       cp_login_attempts = [], cp_audit_log = [], audit_seq = 0, db_now = 10\<rparr>, st_mail = [], st_drawn = 0, st_emailUniqueMu = False\<rparr>"

definition small_mail :: mail_config where
  "small_mail = \<lparr>mc_AppURL = ''http://x'', mc_ServerName = ''x'', mc_TokenTTL = 60, mc_ResendCooldown = 5, mc_ChangeCooldown = 5, mc_PasswordCooldown = 5\<rparr>"

definition small_sessions :: session_service where "small_sessions = \<lparr>ss_world = small_world, ss_ttl = 50\<rparr>"

definition small_service :: account_service where
  "small_service = the (NewAccountService small_world True
     [WithVerification True True small_mail, WithPasswordReset True True small_mail, WithEmailChange True True small_mail,
      WithChangeLog, WithSessionInvalidator small_sessions, WithLoginAttempts True])"

definition small_entry :: "string \<Rightarrow> access_entry" where "small_entry role = \<lparr>ae_Roles = [role], ae_RateLimit = None, ae_Requires = []\<rparr>"

definition small_access :: access_config where
  "small_access = [(''Account'', [(''Verify'', small_entry ''Public''), (''Register'', small_entry ''Public''), (''View'', small_entry ''Member'')]),
     (''Users'', [(''Ban'', small_entry ''Support'')])]"

definition small_handlers :: handlers where
  "small_handlers = \<lparr>hd_svc = small_service, hd_sess = small_sessions,
     hd_registry = \<lparr>rg_cfg = small_access, rg_resolver = NewRoleResolver [(''Support'', 10)], rg_allowTempBannedLogin = True, rg_apiKeyGate = True\<rparr>,
     hd_allowTempBannedLogin = True, hd_allowed = [(0, ''Player''), (10, ''Support'')]\<rparr>"

text \<open>What is drawn later is 32 times the same byte, which no hash here is.\<close>

lemma small_not_fresh: "c \<noteq> CHR 0x01 \<Longrightarrow> \<not> fresh small_world n (small_hash c)"
proof
  assume c: "c \<noteq> CHR 0x01" and "fresh small_world n (small_hash c)"
  then obtain m :: nat where "small_hash c = replicate 32 (char_of m)" by (auto simp: fresh_def small_world_def)
  then have "c = char_of m" "replicate 31 (CHR 0x01) = replicate 31 (char_of m :: char)"
    by (simp_all add: small_hash_def numeral_eq_Suc)
  with c show False by (simp add: numeral_eq_Suc)
qed

definition small_envelope :: "string option \<Rightarrow> envelope" where
  "small_envelope cookie = \<lparr>en_cookie = cookie, en_api_key = True, en_form_read = True, en_ip = None, en_agent = ''agent''\<rparr>"

lemma small_ok: "handlers_ok small_world small_handlers" "logins_wf (st_login small_site)" "equivp (wo_same small_world)"
    "names_unique small_world (st_login small_site)"
proof -
  have "wo_same small_world = (=)" by (simp add: small_world_def)
  then show "equivp (wo_same small_world)" using identity_equivp by simp
qed (simp_all add: handlers_ok_def small_handlers_def small_service_def small_sessions_def NewAccountService_def small_mail_def Let_def
      logins_wf_def small_site_def plain_row_def uniq_def small_world_def names_unique_def names_def)

section \<open>What requests do there\<close>

lemma small_raw: "decodeTokenToHash small_world (base64url (small_hash c)) = Some (small_hash c)"
  by (simp add: decode_issued small_hash_def) (simp add: small_world_def)

lemma small_world_of: "as_world small_service = small_world" "hd_svc small_handlers = small_service" "hd_sess small_handlers = small_sessions"
    "ss_world small_sessions = small_world"
  by (simp_all add: small_service_def small_sessions_def small_handlers_def NewAccountService_def Let_def small_mail_def)

lemma small_fields [simp]: "wo_lower small_world = id" "wo_sql_lower small_world = id" "wo_same small_world = (=)" "wo_sha256 small_world = id"
  by (simp_all add: small_world_def)

definition small_login :: "string \<Rightarrow> string \<Rightarrow> login_command" where
  "small_login pw agent = \<lparr>lc_Username = ''player'', lc_Password = pw, lc_UserAgent = agent, lc_IP = None\<rparr>"

lemma small_ascii: "ascii ''player''" "ascii ''agent''"
  by (simp_all add: ascii_def byte_def)

lemma small_lower: "to_lower ''player'' = ''player''"
  by (simp add: to_lower_def byte_def)

lemma small_name: "login_name (small_login pw a) = ''player''"
  using ascii_text(3) [of "''player''"] small_ascii(1) by (simp add: login_name_def small_login_def ascii_def IsSpace_def byte_def)

lemma small_stored: "storable ''player''" "storable ''agent''"
  using small_ascii ascii_text(1) [of "''player''"] ascii_text(1) [of "''agent''"]
  by (simp_all add: storable_def ascii_def)

lemma small_varchar: "varchar 64 ''player''" "varchar 64 ''agent''"
  using small_stored small_ascii ascii_text(2) [of "''player''"] ascii_text(2) [of "''agent''"]
  by (simp_all add: varchar_def ascii_def)

lemma small_backoff: "Backoff DefaultLockoutPolicy 0 = 0" "Backoff DefaultLockoutPolicy 1 = 0"
  by (simp_all add: Backoff_def DefaultLockoutPolicy_def)

lemma not_stored: "\<not> storable [CHR 0xFF]"
  by (simp add: storable_def valid_utf8_def runes.simps DecodeRune.simps byte_def RuneError_def)

lemma small_logins:
  "lo_login (st_login small_site) = [plain_row 1 ''root'' 99 0, plain_row 2 ''player'' 0 1]" "cp_login_attempts (st_panel small_site) = []"
  "db_now (st_panel small_site) = 10"
  by (simp_all add: small_site_def)

lemma small_login_simps: "lc_UserAgent (small_login pw a) = a" "lc_Password (small_login pw a) = pw" "lc_IP (small_login pw a) = None"
  by (simp_all add: small_login_def)

definition small_guesses :: "(nat \<times> login_command) list" where
  "small_guesses = [(0, small_login ''Secret0!'' ''agent''), (7, small_login ''Secret2!'' ''agent'')]"

definition small_ban :: ban_command where
  "small_ban = \<lparr>bc_Reason = ''bots'', bc_Days = 3, bc_ActorUserID = 1, bc_TargetUserID = 2, bc_ActorIsAdmin = True, bc_Permanent = False\<rparr>"

lemma accounts_one_by_one:
  assumes "one_by_one (handle_account h) qs s = Some (rs, s')"
  shows "\<exists>xs. arrivals xs = qs \<and> run_accounts h xs s = (s', map Ended rs)"
  using run_one_by_one [OF assms, of let_pass "[]"] unfolding run_accounts_def by auto

abbreviation small_verify :: "envelope \<times> account_request" where
  "small_verify \<equiv> (small_envelope None, Verify (base64url (small_hash (CHR 0x07))))"

lemma small_parsed: "parseTag ''Account.Verify'' = Some (''Account'', ''Verify'')" "parseTag ''Account.View'' = Some (''Account'', ''View'')"
  by (simp_all add: parseTag_def)

lemma small_wrap:
  "registry_wrap (hd_registry small_handlers) ''Account.Verify'' False = Some Open_to_all"
  "registry_wrap (hd_registry small_handlers) ''Account.View'' False = Some (Behind_roles False \<lparr>ap_AllowTempBannedLogin = True, ap_Unrestricted = False, ap_RequireVerified = False\<rparr> [RoleAuthenticated])"
  by (simp_all add: registry_wrap_def small_parsed registry_lookup_def small_handlers_def small_access_def small_entry_def NewRoleResolver_def GetRole_def
      mountPublic_def RequiresAPIKey_def RequiresVerified_def RequiresUnrestricted_def RolePublic_def RoleAdmin_def RoleAuthenticated_def)

lemma small_raw_not_empty: "base64url (small_hash c) \<noteq> []"
  using small_raw [of c] by (auto simp: decodeTokenToHash_def unbase64url_def)

lemma small_hash_eq [simp]: "small_hash c = small_hash d \<longleftrightarrow> c = d"
  by (simp add: small_hash_def)

lemmas small_tokens = token_Consume_def token_lookup_def GetByHash_def MarkConsumed_def token_IsConsumed_def token_IsExpired_def

lemma small_twice:
  "\<exists>b s'. one_by_one (handle_account small_handlers) [small_verify, small_verify] small_site = Some ([Inr (Keep_cookie, Verify_result Link_success), b], s')"
  by (simp add: handle_account_def through_route_def small_wrap doVerify_def small_world_of ConsumeVerification_def alone_defs small_tokens small_raw small_raw_not_empty
     small_envelope_def page_def Let_def MarkVerified_def account_exists_def set_verified_def update_login_def small_site_def small_token_def plain_row_def hasActiveSession_def upd_where_def StateActive_def StateUnverified_def
     split: sum.split)

lemma small_cookie: "en_cookie (small_envelope c) = c"
  by (simp add: small_envelope_def)

abbreviation small_visit :: "char \<Rightarrow> envelope \<times> account_request" where
  "small_visit c \<equiv> (small_envelope (Some (base64url (small_hash c))), Own_account)"

definition small_reset :: site where
  "small_reset = (case alone (ConsumePasswordReset small_service (base64url (small_hash (CHR 0x08))) ''Secret2!'') small_site of Some (_, s) \<Rightarrow> s)"

lemma small_password: "new_password_error small_world ''Secret2!'' = None"
  by (simp add: new_password_error_def ValidatePassword_def CheckRegistrationPassword_def RuneCount_def runes_ascii byte_def
      passwordMaxLen_def regPasswordMinLen_def IsUpper_def IsDigit_def passwordSpecials_def Let_def)

lemma small_row_ok [simp]: "row_ok small_world r"
  by (simp add: row_ok_def small_world_def)

lemma small_change:
  "alone (ConsumePasswordReset small_service (base64url (small_hash (CHR 0x08))) ''Secret2!'') small_site = Some (Inr (), small_reset)"
  "cp_sessions (st_panel small_reset) = [small_session (CHR 0x00) 1]" 
  by (simp_all add: small_reset_def ConsumePasswordReset_def small_world_of small_password alone_defs small_tokens small_raw Let_def assertUnrestricted_def user_GetByID_def selectLoginRow_def
    user_UpdatePassword_def record_Record_def InvalidateAll_def DeleteByUserID_def MarkVerified_def account_exists_def set_verified_def update_login_def
    small_site_def small_token_def plain_row_def upd_where_def del_where_def small_session_def user_of_def ClassifyTier_def StateActive_def StateUnverified_def StatePermaBanned_def unbanTimeFromSeconds_def)
  

lemma small_roles: "roles_ok [(''Support'', 10)]"
  by (simp add: roles_ok_def validateRolesConfig_def reservedRoleNames_def)

lemma small_config: "validateAccessConfig (rg_cfg (hd_registry small_handlers))"
  by (simp add: small_handlers_def small_access_def small_entry_def validateAccessConfig_def entry_ok_def combined_role_def RequiresUnrestricted_def RequiresAPIKey_def)

definition small_register :: "envelope \<times> account_request" where
  "small_register = (small_envelope None, Register
     \<lparr>cc_Username = ''newone'', cc_Password = ''Secret2!'', cc_PasswordConfirm = ''Secret2!'', cc_Email = ''n@x'', cc_Gender = ''F'', cc_Birthdate = ''1999-01-01''\<rparr>)"

lemma small_wrap_register: "registry_wrap (hd_registry small_handlers) ''Account.Register'' False = Some Open_to_all"
  by (simp add: registry_wrap_def parseTag_def registry_lookup_def small_handlers_def small_access_def small_entry_def NewRoleResolver_def GetRole_def
      mountPublic_def RequiresAPIKey_def RolePublic_def RoleAdmin_def)

lemma small_civil: "wo_civil small_world now = (2026, 1, 1)"
  by (simp add: small_world_def)

lemma small_registration:
  "validateRegistration small_world (case snd small_register of Register c \<Rightarrow> c) now = Inr (''n@x'', (1999, 1, 1))"
proof -
  have l: "runes ''newone'' = map (\<lambda>c. (byte c, [c])) ''newone''" "runes ''Secret2!'' = map (\<lambda>c. (byte c, [c])) ''Secret2!''"
      "runes ''n@x'' = map (\<lambda>c. (byte c, [c])) ''n@x''"
    by (rule runes_ascii; simp add: byte_def)+
  have e: "ValidateEmail small_world ''n@x'' = Inr ''n@x''"
    by (simp add: ValidateEmail_def ToLower_def ascii_def byte_def to_lower_def emailMaxLen_def RuneCount_def l) (simp add: small_world_def)
  have b: "ValidateBirthdate small_world ''1999-01-01'' now = Inr (1999, 1, 1)"
  proof -
    have "Parse_date ''1999-01-01'' = Some (1999, 1, 1)"
      by (simp add: Parse_date_def Let_def number_of_def hex_value_def is_digit_def days_in_def)
    then show ?thesis by (simp add: ValidateBirthdate_def Let_def small_civil date_before_def AddYears_def BirthdateMaxAgeYears_def days_in_def)
  qed
  have u: "ValidateUsername ''newone'' = None" "CheckRegistrationUsername ''newone'' = None"
    by (simp_all add: ValidateUsername_def RuneCount_def l UsernameMaxLen_def usernameCharset_def byte_def CheckRegistrationUsername_def regUsernameMinLen_def)
  have p: "ValidatePassword ''Secret2!'' = None" "CheckRegistrationPassword small_world ''Secret2!'' = None"
    using small_password by (auto simp: new_password_error_def split: option.splits)
  show ?thesis
    by (simp add: small_register_def validateRegistration_def applyRegistrationPolicies_def validateRegistrationInvariants_def e b u p ValidateGender_def
       add_broken_def error_of_def fe_Has_def Let_def)
qed

lemma small_joins:
  assumes c: "snd small_register = Register c"
  shows "\<exists>g s. alone (account_Create small_service c) small_site = Some (Inr g, s) \<and> length (lo_login (st_login s)) = 3"
proof -
  have r: "cc_Username c = ''newone''" "cc_Email c = ''n@x''" "cc_Password c = ''Secret2!''" "cc_Gender c = ''F''"
    "validateRegistration small_world c 10 = Inr (''n@x'', (1999, 1, 1))"
    using small_registration [of 10] c by (simp_all add: small_register_def) auto
  have names: "alone (checkRegistrationUniqueness small_world ''newone'' ''n@x'') (small_site\<lparr>st_emailUniqueMu := True\<rparr>) = Some (Inr (), small_site\<lparr>st_emailUniqueMu := True\<rparr>)"
    by (simp add: checkRegistrationUniqueness_def if_found_def GetByUsername_def user_GetByEmail_def selectLoginRow_def alone_defs small_logins plain_row_def fe_Has_def)
  have issue: "\<exists>s'. alone (IssueVerification small_service i e) s = Some (Inr (), s') \<and> st_login s' = st_login s"
    if "st_drawn s = 0" "cp_action_tokens (st_panel s) = cp_action_tokens (st_panel small_site)" "\<bar>i\<bar> \<le> max_int32" for i e s
  proof -
    have w: "wo_random small_world 0 = replicate 32 (CHR 0x00)" by (simp add: small_world_def char_of_def)
    have "ak_TokenHash t \<noteq> replicate 32 (CHR 0x00)" if "t \<in> set (cp_action_tokens (st_panel small_site))" for t
      using that by (auto simp: small_site_def small_token_def small_hash_def numeral_eq_Suc)
    then show ?thesis using that
      by (auto simp: IssueVerification_def small_world_of token_Issue_def alone_defs DeleteUnconsumed_def token_Insert_def token_check_def w list_ex_iff del_where_def)
  qed
  have verify: "as_enableVerify small_service" by (simp add: small_service_def NewAccountService_def Let_def small_mail_def small_sessions_def)
  let ?d = "\<lparr>lo_login = lo_login (st_login small_site) @
           [\<lparr>lo_account_id = 3, lo_userid = ''newone'', lo_user_pass = ''Secret2!'', lo_sex = ''F'', lo_email = ''n@x'', lo_group_id = 0,
             lo_state = 1, lo_unban_time = 0, lo_last_ip = None, lo_lastlogin = None, lo_birthdate = (1999, 1, 1)\<rparr>], lo_char = [], lo_seq = 3\<rparr>"
  let ?s = "small_site\<lparr>st_emailUniqueMu := True, st_login := ?d\<rparr>"
  have "wo_row_ok small_world a b p" for a b p by (simp add: small_world_def)
  then have create: "stmt (st_login small_site) (user_Create small_world ''newone'' ''n@x'' ''Secret2!'' ''F'' (1999, 1, 1)) = (Inr 3, ?d)"
    by (simp add: user_Create_def insert_login_def) (simp add: small_site_def)
  obtain s' where s': "alone (IssueVerification small_service 3 ''n@x'') ?s = Some (Inr (), s')" "st_login s' = st_login ?s"
    using issue [of ?s 3 "''n@x''"] by (auto simp: small_site_def max_int32_def)
  have "\<not> st_emailUniqueMu small_site" by (simp add: small_site_def)
  then show ?thesis using s' by (simp add: account_Create_def alone_defs small_logins small_world_of r names exclusively_def create verify)
qed

lemma small_joined:
  "\<exists>a s'. one_by_one (handle_account small_handlers) [small_register] small_site = Some ([a], s') \<and> length (lo_login (st_login s')) = 3"
proof -
  obtain c where c: "snd small_register = Register c" "small_register = (small_envelope None, Register c)" by (simp add: small_register_def)
  obtain g s where "alone (account_Create small_service c) small_site = Some (Inr g, s)" "length (lo_login (st_login s)) = 3"
    using small_joins [OF c(1)] by blast
  then show ?thesis
    by (auto simp: c(2) handle_account_def through_route_def small_wrap_register doRegister_def small_envelope_def small_world_of alone_defs
      sessions_Create_def session_Create_def page_def Let_def split: sum.split)
qed

end
