(* ===== verification/Account_Claims.thy ===== *)
theory Account_Claims
  imports Account_Example
begin

text \<open>
  The properties of the accounts: guesses of a password, links that are used once, sessions that
  end, the gate and the access configuration, the staff's powers, and names that stay unique.
\<close>

section \<open>Guesses\<close>

text \<open>
  C32. With attempts one after another, none of which logs in under the name, and all of them with
  names in ASCII and user agents the database can store: the answers ErrInvalidCredentials for a name
  of the form's length that fall into a window of fifteen minutes are nine at most, whatever is sent
  for other names and however long the callers wait, since each failure from the fifth on locks the
  name for twice as long as the one before. (A login empties the record of failures, and an agent the
  database refuses leaves none: \<open>unrecorded_guesses_never_lock\<close>.)
\<close>

theorem guesses_are_bounded:
  assumes "k \<noteq> []" and "length k \<le> 23" and "list_all (\<lambda>x. fair_login (snd x)) xs" and "no_login k (run_logins s xs st)"
  shows "length (filter (\<lambda>t. a \<le> t \<and> t < a + seconds (15 * 60)) (guesses k (run_logins s xs st))) \<le> 9"
  using nine_guesses_answered [OF assms, of a] by simp

theorem guesses_are_bounded_witness:
  "guesses ''player'' (run_logins small_service small_guesses small_site) = [10, 17] \<and>
   length (filter (\<lambda>t. 0 \<le> t \<and> t < seconds (15 * 60)) (guesses ''player'' (run_logins small_service small_guesses small_site))) \<le> 9"
proof -
  note [simp] = small_name small_lower small_stored small_ascii small_world_of small_logins small_login_simps small_varchar small_backoff
  have fair: "fair_login (small_login pw ''agent'')" for pw by (simp add: fair_login_def)
  have wrong: "run_logins small_service small_guesses small_site =
      [(10, small_login ''Secret0!'' ''agent'', Inl (Account ErrInvalidCredentials)), (17, small_login ''Secret2!'' ''agent'', Inl (Account ErrInvalidCredentials))]"
    by (simp add: small_guesses_def alone_Authenticate Let_def ToLower_def failed_at_def let_pass_def locked_out_def sql_LOWER_def
      recorded_def attempt_check_def attempt_row_def plain_row_def seconds_def)
  have "no_login ''player'' (run_logins small_service small_guesses small_site)" by (simp add: wrong no_login_def logged_in_def)
  moreover have "guesses ''player'' (run_logins small_service small_guesses small_site) = [10, 17]"
    by (simp add: wrong guesses_def wrong_password_def)
  ultimately show ?thesis
    using guesses_are_bounded [where k = "''player''" and xs = small_guesses and s = small_service and st = small_site and a = 0] fair
    by (simp add: small_guesses_def)
qed

text \<open>
  A guess whose agent's name the database does not take (bytes that are not UTF-8) is
  answered like any other, but its failure is not kept: the insert fails, the error is logged,
  and the name is never locked. However many passwords are tried for a name this way, each one
  is compared, and the right one is let in.
\<close>

theorem unrecorded_guesses_never_lock:
  assumes "u \<noteq> []" and "length u \<le> 23" and "ascii u" and "storable (to_lower u)"
    and "failed_at (as_world s) (to_lower u) st = []"
    and "list_all (\<lambda>x. login_name (snd x) = u \<and> \<not> storable (lc_UserAgent (snd x))) xs"
  shows "map (\<lambda>(t, cmd, r). (cmd, logged_in r)) (run_logins s xs st) =
    map (\<lambda>x. (snd x, password_of (as_world s) u st = Some (lc_Password (snd x)))) xs"
  using assms(5,6)
proof (induction xs arbitrary: st)
  case (Cons x xs)
  let ?w = "as_world s"
  have u: "login_name (snd x) = u" and a: "\<not> storable (lc_UserAgent (snd x))" using Cons.prems(2) by simp_all
  have key: "ToLower ?w u = to_lower u" using assms(3) by (rule ascii_key)
  have "\<not> attempt_check (attempt_row u i (snd x) ok now)" for i ok now using a by (simp add: attempt_check_def attempt_row_def)
  then have same: "recorded ?w u i (snd x) ok t = t" for i ok t by (simp add: recorded_def Let_def)
  have login_st: "st_login (let_pass (fst x) st) = st_login st" by (simp add: let_pass_def)
  have "\<not> locked_out [] now" for now by (simp add: locked_out_def Backoff_def DefaultLockoutPolicy_def Let_def)
  then have "\<exists>r. alone (Authenticate s (snd x)) (let_pass (fst x) st) = Some (r, let_pass (fst x) st) \<and>
      logged_in r = (password_of ?w u st = Some (lc_Password (snd x)))"
    using Cons.prems(1) assms(1,2,4) u login_st
    by (cases "find (\<lambda>r. wo_same ?w (lo_userid r) u) (lo_login (st_login st))")
      (auto simp: alone_Authenticate key same Let_def logged_in_def password_of_def)
  then obtain r where r: "alone (Authenticate s (snd x)) (let_pass (fst x) st) = Some (r, let_pass (fst x) st)"
      "logged_in r = (password_of ?w u st = Some (lc_Password (snd x)))" by blast
  have "password_of ?w u (let_pass (fst x) st) = password_of ?w u st" by (simp add: let_pass_def password_of_def)
  with Cons.IH [of "let_pass (fst x) st"] Cons.prems r show ?case by (simp add: Let_def)
qed simp

theorem unrecorded_guesses_never_lock_witness:
  "map (\<lambda>(t, cmd, r). logged_in r) (run_logins small_service
     [(0, small_login ''Secret0!'' [CHR 0xFF]), (1, small_login ''Secret1!'' [CHR 0xFF])] small_site) = [False, True]"
proof -
  note [simp] = small_name small_lower small_stored small_ascii small_world_of small_logins not_stored small_login_simps
  have "map (\<lambda>(t, cmd, r). (cmd, logged_in r)) (run_logins small_service
     [(0, small_login ''Secret0!'' [CHR 0xFF]), (1, small_login ''Secret1!'' [CHR 0xFF])] small_site) =
     [(small_login ''Secret0!'' [CHR 0xFF], False), (small_login ''Secret1!'' [CHR 0xFF], True)]"
    by (subst unrecorded_guesses_never_lock [where u = "''player''"]) (simp_all add: failed_at_def password_of_def plain_row_def)
  from arg_cong [where f = "map snd", OF this] show ?thesis by (simp add: case_prod_unfold comp_def)
qed

section \<open>Moderation\<close>

lemma tier_after_ban:
  assumes "0 \<le> now" and "0 \<le> d" and "now + d \<le> later"
  shows "ClassifyTier StateActive (unbanTimeFromSeconds (unbanSeconds (Some (now + d)))) later = TierActive"
proof -
  have "seconds (((now + d) div seconds 1) mod 2 ^ 32) \<le> now + d"
  proof -
    have "((now + d) div seconds 1) mod 2 ^ 32 \<le> (now + d) div seconds 1"
      using assms by (intro zmod_le_nonneg_dividend) (simp add: seconds_def pos_imp_zdiv_nonneg_iff)
    moreover have "seconds ((now + d) div seconds 1) \<le> now + d" by (simp add: seconds_def minus_mod_eq_div_mult [symmetric])
    ultimately show ?thesis by (simp add: seconds_def)
  qed
  with assms(3) show ?thesis
    by (simp add: ClassifyTier_def StateActive_def StateUnverified_def StatePermaBanned_def unbanTimeFromSeconds_def unbanSeconds_def)
qed

text \<open>
  A ban for some days sets the state of the account to active and lets only the unban time
  tell the ban, without looking at what the state was: an account that never confirmed its mail
  address is a confirmed one from the end of the ban on, with no link of a mail ever used.
\<close>

theorem temporary_ban_verifies:
  assumes row: "find (\<lambda>r. lo_account_id r = bc_TargetUserID cmd) (lo_login (st_login st)) = Some row"
    and "lo_state row = StateUnverified" and "lo_group_id row = 0" and "bc_ActorUserID cmd \<noteq> bc_TargetUserID cmd"
    and "TrimSpace (bc_Reason cmd) \<noteq> ''''" and "0 < bc_Days cmd" and "bc_Days cmd \<le> 3650" and "\<not> bc_Permanent cmd"
    and "0 \<le> db_now (st_panel st)"
  shows "\<exists>detail st' row'. alone (Ban cmd) st = Some (Inr detail, st') \<and>
    find (\<lambda>r. lo_account_id r = bc_TargetUserID cmd) (lo_login (st_login st')) = Some row' \<and>
    cp_action_tokens (st_panel st') = cp_action_tokens (st_panel st) \<and> lo_state row' = StateActive \<and>
    (\<forall>later. db_now (st_panel st) + seconds (24 * 3600 * bc_Days cmd) \<le> later \<longrightarrow>
       ClassifyTier (us_State (user_of row')) (us_UnbanTime (user_of row')) later = TierActive)"
proof -
  let ?now = "db_now (st_panel st)" and ?i = "bc_TargetUserID cmd"
  have "wrap64 (bc_Days cmd * seconds (24 * 3600)) = seconds (24 * 3600 * bc_Days cmd)"
    using assms(6,7) by (simp add: seconds_def wrap64_id)
  then have len: "ban_length cmd = Inr \<lparr>bd_Duration = seconds (24 * 3600 * bc_Days cmd), bd_Permanent = False\<rparr>"
    using assms(6-8) by (simp add: ban_length_def ParseBanDays_def maxBanDays_def)
  let ?until = "unbanSeconds (Some (?now + seconds (24 * 3600 * bc_Days cmd)))"
  let ?f = "\<lambda>r. r\<lparr>lo_state := StateActive, lo_unban_time := ?until\<rparr>"
  have mem: "filter (\<lambda>r. lo_account_id r = ?i) (lo_login (st_login st)) \<noteq> []"
    using row by (auto simp: find_Some_iff filter_empty_conv)
  have upd: "find (\<lambda>r. lo_account_id r = ?i) (upd_where (\<lambda>r. lo_account_id r = ?i) ?f (lo_login (st_login st))) = Some (?f row)"
    using find_upd_row [where key = lo_account_id and f = ?f and k = ?i and t = "lo_login (st_login st)"] row by simp
  have "user_IsAdmin (user_of row) = False" "user_IsPlayer (user_of row)"
    using assms(3) by (simp_all add: user_IsAdmin_def user_IsPlayer_def user_of_def)
  then have "\<exists>detail st'. alone (Ban cmd) st = Some (Inr detail, st') \<and>
      lo_login (st_login st') = upd_where (\<lambda>r. lo_account_id r = ?i) ?f (lo_login (st_login st)) \<and>
      cp_action_tokens (st_panel st') = cp_action_tokens (st_panel st)"
    using assms(4,5) len row upd mem
    by (auto simp add: Ban_def Let_def loadMutableTarget_def alone_defs user_GetByID_def selectLoginRow_def UpdateBan_def update_login_def
        recordAudit_def audit_Record_def moderation_Get_def ListByAccount_def ListByTarget_def list.pred_True)
  then show ?thesis
    using upd tier_after_ban [OF assms(9), of "seconds (24 * 3600 * bc_Days cmd)"] assms(6) by (force simp: user_of_def seconds_def)
qed

theorem temporary_ban_verifies_witness:
  "\<exists>detail st' row'. alone (Ban small_ban) small_site = Some (Inr detail, st') \<and>
    find (\<lambda>r. lo_account_id r = 2) (lo_login (st_login st')) = Some row' \<and>
    cp_action_tokens (st_panel st') = cp_action_tokens (st_panel small_site) \<and> lo_state row' = StateActive \<and>
    (\<forall>later. 10 + seconds 259200 \<le> later \<longrightarrow> ClassifyTier (us_State (user_of row')) (us_UnbanTime (user_of row')) later = TierActive)"
proof -
  have ban: "bc_Reason small_ban = ''bots''" "bc_Days small_ban = 3" "bc_ActorUserID small_ban = 1" "bc_TargetUserID small_ban = 2" "\<not> bc_Permanent small_ban"
    by (simp_all add: small_ban_def)
  have "TrimSpace ''bots'' = ''bots''" using ascii_text(3) [of "''bots''"] by (simp add: IsSpace_def byte_def)
  then show ?thesis
    using temporary_ban_verifies [of small_ban small_site "plain_row 2 ''player'' 0 1"]
    by (simp add: ban small_logins plain_row_def StateUnverified_def)
qed

section \<open>The gate\<close>

text \<open>
  C31. Behind a route the handler runs for exactly those whom the access configuration admits: an
  entry that is public for everyone (who passes the API key gate, where it asks for that), any
  other for the visitors with a session that has not expired, of an account that exists, is not
  banned, has confirmed its address unless the entry is \<open>Member\<close>'s, and either is an
  administrator's or has a role the entry names. Everyone else is turned away, whatever the
  handler is; and nobody but an administrator gets to the routes of the group \<open>Admin\<close>. (The
  configuration is one that starts up: roles and entries pass their checks, the route mounts.)
\<close>

theorem gate_follows_configuration:
  assumes "roles_ok roles" and "rg_resolver (hd_registry h) = NewRoleResolver roles" and "validateAccessConfig (rg_cfg (hd_registry h))"
    and "parseTag tag = Some (grp, action)" and "entry_of (rg_cfg (hd_registry h)) grp action = Some e"
    and "registry_wrap (hd_registry h) tag hidden = Some m"
  shows "if ''Public'' \<in> set (ae_Roles e)
    then through_route h en tag hidden k = (if RequiresAPIKey e \<and> \<not> en_api_key en then page (Failed 401) else k None None)
    else (\<forall>se row. admitted h roles e (en_cookie en) st se row \<longrightarrow> alone (through_route h en tag hidden k) st =
        alone (k (Some (seen_session (hd_sess h) se (db_now (st_panel st)))) (Some (snapshot_of row))) (seen_site (hd_sess h) se st)) \<and>
      ((\<nexists>se row. admitted h roles e (en_cookie en) st se row) \<longrightarrow>
        (\<exists>c t st'. \<forall>k. alone (through_route h en tag hidden k) st = Some (Inr (c, turned t), st')))"
proof -
  note wrap = wrap_ok [OF assms(1-6)]
  have "''Public'' \<in> set (ae_Roles e) \<Longrightarrow> through_route h en tag hidden k =
      (if RequiresAPIKey e \<and> \<not> en_api_key en then page (Failed 401) else k None None)"
    using wrap(1) assms(6) by (simp add: through_route_def)
  moreover have "(\<forall>se row. admitted h roles e (en_cookie en) st se row \<longrightarrow> alone (through_route h en tag hidden k) st =
        alone (k (Some (seen_session (hd_sess h) se (db_now (st_panel st)))) (Some (snapshot_of row))) (seen_site (hd_sess h) se st)) \<and>
      ((\<nexists>se row. admitted h roles e (en_cookie en) st se row) \<longrightarrow>
        (\<exists>c t st'. \<forall>k. alone (through_route h en tag hidden k) st = Some (Inr (c, turned t), st')))"
    if "''Public'' \<notin> set (ae_Roles e)"
  proof -
    from wrap(2) [OF that] obtain hid p allowed where m: "m = Behind_roles hid p allowed"
      and p: "\<forall>gid t. t \<noteq> TierDeleted \<longrightarrow> policy_admits (rg_resolver (hd_registry h)) p allowed gid t =
        entry_admits roles (rg_allowTempBannedLogin (hd_registry h)) e gid t" by blast
    let ?b = "rg_allowTempBannedLogin (hd_registry h)"
    have rej: "alone ((\<lambda>(c, t). ret (c, turned t) :: answering) (c, t)) s = Some (Inr (c, turned t), s)" for c t s by simp
    note gate = gate_decides [where adm = "admitted h roles e (en_cookie en) st" and ss = "hd_sess h" and cookie = "en_cookie en" and hid = hid,
        OF p rej admitted_def]
    show ?thesis
    proof (intro conjI allI impI)
      fix se row assume "admitted h roles e (en_cookie en) st se row"
      from gate(1) [OF this] show "alone (through_route h en tag hidden k) st =
          alone (k (Some (seen_session (hd_sess h) se (db_now (st_panel st)))) (Some (snapshot_of row))) (seen_site (hd_sess h) se st)"
        by (simp add: through_route_def assms(6) m)
    next
      assume "\<nexists>se row. admitted h roles e (en_cookie en) st se row"
      from gate(2) [OF this] show "\<exists>c t st'. \<forall>k. alone (through_route h en tag hidden k) st = Some (Inr (c, turned t), st')"
        by (simp add: through_route_def assms(6) m) blast
    qed
  qed
  ultimately show ?thesis by simp
qed

theorem gate_follows_configuration_witness:
  "alone (through_route small_handlers (small_envelope (Some (base64url (small_hash (CHR 0x00))))) ''Account.View'' False (\<lambda>se sn. showAccount se)) small_site =
     alone (showAccount (Some (seen_session small_sessions (small_session (CHR 0x00) 1) 10))) (seen_site small_sessions (small_session (CHR 0x00) 1) small_site) \<and>
   (\<exists>c t st'. \<forall>k. alone (through_route small_handlers (small_envelope None) ''Account.View'' False k) small_site = Some (Inr (c, turned t), st'))"
proof -
  let ?en = "\<lambda>c. small_envelope c" and ?e = "small_entry ''Member''"
  have cfg: "rg_resolver (hd_registry small_handlers) = NewRoleResolver [(''Support'', 10)]"
      "entry_of (rg_cfg (hd_registry small_handlers)) ''Account'' ''View'' = Some ?e"
    by (simp_all add: small_handlers_def entry_of_def small_access_def)
  note gate = gate_follows_configuration [OF small_roles cfg(1) small_config small_parsed(2) cfg(2) small_wrap(2)]
  have roles: "''Public'' \<notin> set (ae_Roles ?e)" by (simp add: small_entry_def)
  have "admitted small_handlers [(''Support'', 10)] ?e (Some (base64url (small_hash (CHR 0x00)))) small_site (small_session (CHR 0x00) 1) (plain_row 1 ''root'' 99 0)"
    by (simp add: admitted_def visits_def small_world_of small_raw small_raw_not_empty small_site_def small_session_def session_IsExpired_def plain_row_def
       entry_admits_def small_entry_def tier_of_def user_of_def ClassifyTier_def StateActive_def StateUnverified_def StatePermaBanned_def unbanTimeFromSeconds_def)
  then have "alone (through_route small_handlers (?en (Some (base64url (small_hash (CHR 0x00))))) ''Account.View'' False (\<lambda>se sn. showAccount se)) small_site =
     alone (showAccount (Some (seen_session small_sessions (small_session (CHR 0x00) 1) 10))) (seen_site small_sessions (small_session (CHR 0x00) 1) small_site)"
    using gate [of "?en (Some (base64url (small_hash (CHR 0x00))))" "\<lambda>se sn. showAccount se" small_site] roles
    by (simp add: small_world_of small_cookie small_logins del: split_paired_All) blast
  moreover have "\<nexists>se row. admitted small_handlers [(''Support'', 10)] ?e None small_site se row"
    by (simp add: admitted_def visits_def)
  ultimately show ?thesis using gate [of "?en None" _ small_site] roles by (simp add: small_cookie)
qed

section \<open>Links and sessions\<close>

text \<open>
  C27. The link of a mail works once. Whatever requests run at the same time, in whatever order
  their statements interleave and whatever the connections lose: of the requests that carry the
  token of a link that was sent before (to confirm an address, to reset the password, to change
  the address), at most one is answered that it worked.
\<close>

theorem links_work_once:
  assumes "handlers_ok w h" and "logins_wf (st_login s)" and "\<not> fresh w (st_drawn s) th"
    and "run_accounts h xs s = (s', ts)" and "i < length ts" "j < length ts" "ts ! i = Ended a" "ts ! j = Ended b"
    and "used_link w th (arrivals xs ! i) a" "used_link w th (arrivals xs ! j) b"
  shows "i = j"
  by (rule panel_links [OF assms])

theorem links_work_once_witness:
  "\<exists>xs s' b. arrivals xs = [small_verify, small_verify] \<and>
     run_accounts small_handlers xs small_site = (s', [Ended (Inr (Keep_cookie, Verify_result Link_success)), Ended b]) \<and>
     \<not> used_link small_world (small_hash (CHR 0x07)) small_verify b"
proof -
  obtain b s' where runs: "one_by_one (handle_account small_handlers) [small_verify, small_verify] small_site =
      Some ([Inr (Keep_cookie, Verify_result Link_success), b], s')" using small_twice by blast
  then obtain xs where xs: "arrivals xs = [small_verify, small_verify]"
      "run_accounts small_handlers xs small_site = (s', [Ended (Inr (Keep_cookie, Verify_result Link_success)), Ended b])"
    using accounts_one_by_one [OF runs] by auto
  have first: "used_link small_world (small_hash (CHR 0x07)) small_verify (Inr (Keep_cookie, Verify_result Link_success))"
    by (simp add: used_link_def token_of_def small_raw link_worked_def)
  have "(0 :: nat) = 1" if "used_link small_world (small_hash (CHR 0x07)) small_verify b"
    by (rule links_work_once [OF small_ok(1,2) small_not_fresh xs(2), of "CHR 0x07" 0 1 "Inr (Keep_cookie, Verify_result Link_success)" b])
      (use first that in \<open>simp_all add: xs(1)\<close>)
  with xs show ?thesis by auto
qed

lemma find_append_new: "(\<forall>t \<in> set xs. \<not> P t) \<Longrightarrow> P x \<Longrightarrow> find P (xs @ [x]) = Some x"
  by (induction xs) auto

text \<open>
  C33. The newest link works, and it alone. A token that was just issued is found again from the
  text in its link for as long as it was made for: it gives the account and the payload
  (the new address, of a change of address), and a second use is answered with
  ErrTokenAlreadyUsed; every earlier link of the same kind to the same account is dead from
  then on.
\<close>

theorem newest_link_opens:
  assumes "length (wo_random w (st_drawn s)) = 32" and "alone (token_Issue w a i payload ttl) s = Some (Inr raw, s')" and "int n < ttl"
  shows "(\<exists>tok s2. alone (token_Consume w a raw) (let_pass n s') = Some (Inr tok, s2) \<and> ak_AccountID tok = i \<and> ak_Payload tok = payload \<and>
      alone (token_Consume w a raw) s2 = Some (Inl (Account ErrTokenAlreadyUsed), s2)) \<and>
    (\<forall>raw' tok s2. alone (token_Consume w a raw') s' = Some (Inr tok, s2) \<and> ak_AccountID tok = i \<longrightarrow>
      decodeTokenToHash w raw' = decodeTokenToHash w raw)"
proof -
  let ?h = "wo_sha256 w (wo_random w (st_drawn s))" and ?now = "db_now (st_panel s)"
  define old where "old = del_where (\<lambda>t. ak_AccountID t = i \<and> ak_Action t = a \<and> \<not> token_IsConsumed t) (cp_action_tokens (st_panel s))"
  define tok where "tok = \<lparr>ak_ExpiresAt = ?now + ttl, ak_CreatedAt = ?now, ak_ConsumedAt = None, ak_Payload = payload, ak_TokenHash = ?h, ak_AccountID = i, ak_Action = a\<rparr>"
  have issued: "raw = base64url (wo_random w (st_drawn s))" "\<forall>t \<in> set old. ak_TokenHash t \<noteq> ?h"
      "cp_action_tokens (st_panel s') = old @ [tok]" "db_now (st_panel s') = ?now"
    using assms(2) by (auto simp: token_Issue_def alone_defs DeleteUnconsumed_def token_Insert_def old_def tok_def list_ex_iff split: if_splits)
  have raw: "decodeTokenToHash w raw = Some ?h" using assms(1) by (simp add: issued(1) decode_issued)
  have found: "find (\<lambda>t. ak_TokenHash t = ?h) (old @ [t]) = Some t" if "ak_TokenHash t = ?h" for t
    using issued(2) that by (intro find_append_new) auto
  have marked: "upd_where (\<lambda>t. ak_TokenHash t = ?h \<and> ak_ConsumedAt t = None) f (old @ [tok]) = old @ [f tok]" for f
    using issued(2) by (auto simp: upd_where_def tok_def intro: map_idI)
  have fields: "ak_ExpiresAt tok = ?now + ttl" "ak_ConsumedAt tok = None" "ak_Payload tok = payload" "ak_TokenHash tok = ?h" "ak_AccountID tok = i" "ak_Action tok = a"
    by (simp_all add: tok_def)
  have "\<exists>tok' s2. alone (token_Consume w a raw) (let_pass n s') = Some (Inr tok', s2) \<and> ak_AccountID tok' = i \<and> ak_Payload tok' = payload \<and>
      alone (token_Consume w a raw) s2 = Some (Inl (Account ErrTokenAlreadyUsed), s2)"
    using assms(3) found [of tok] found [of "tok\<lparr>ak_ConsumedAt := Some (?now + int n)\<rparr>"]
    by (simp add: token_Consume_def token_lookup_def raw alone_defs GetByHash_def MarkConsumed_def issued(3,4) let_pass_def
      token_IsConsumed_def token_IsExpired_def fields marked)
  moreover have "decodeTokenToHash w raw' = decodeTokenToHash w raw"
    if used: "alone (token_Consume w a raw') s' = Some (Inr tok', s2)" "ak_AccountID tok' = i" for raw' tok' s2
  proof -
    obtain h' t where h': "decodeTokenToHash w raw' = Some h'" "find (\<lambda>t. ak_TokenHash t = h') (old @ [tok]) = Some t"
        "ak_Action t = a" "\<not> token_IsConsumed t" "ak_AccountID t = i"
      using used by (auto simp: token_Consume_def token_lookup_def alone_defs GetByHash_def MarkConsumed_def issued(3) split: option.splits if_splits)
    then have "t \<in> set (old @ [tok])" "ak_TokenHash t = h'" by (auto dest: find_key_Some)
    with h' have "t = tok" by (auto simp: old_def del_where_def)
    with h' \<open>ak_TokenHash t = h'\<close> raw show ?thesis by (simp add: tok_def)
  qed
  ultimately show ?thesis by blast
qed

theorem newest_link_opens_witness:
  "\<exists>raw s' tok s2. alone (token_Issue small_world EmailVerification 2 None 60) small_site = Some (Inr raw, s') \<and>
     alone (token_Consume small_world EmailVerification raw) (let_pass 59 s') = Some (Inr tok, s2) \<and> ak_AccountID tok = 2 \<and>
     fst (the (alone (token_Consume small_world EmailVerification (base64url (small_hash (CHR 0x07)))) s')) = Inl (Account ErrTokenInvalid)"
proof -
  have w: "wo_random small_world 0 = replicate 32 (CHR 0x00)" by (simp add: small_world_def char_of_def)
  have other: "small_hash (CHR 0x07) \<noteq> replicate 32 (CHR 0x00)" "small_hash (CHR 0x08) \<noteq> replicate 32 (CHR 0x00)" by (simp_all add: small_hash_def numeral_eq_Suc)
  obtain raw s' where issue: "alone (token_Issue small_world EmailVerification 2 None 60) small_site = Some (Inr raw, s')"
      "find (\<lambda>t. ak_TokenHash t = small_hash (CHR 0x07)) (cp_action_tokens (st_panel s')) = None"
    using other by (auto simp: token_Issue_def alone_defs DeleteUnconsumed_def token_Insert_def token_check_def token_IsConsumed_def w small_site_def small_token_def del_where_def max_int32_def)
  have "alone (token_Consume small_world EmailVerification (base64url (small_hash (CHR 0x07)))) s' = Some (Inl (Account ErrTokenInvalid), s')"
    using issue(2) by (simp add: token_Consume_def token_lookup_def alone_defs small_raw GetByHash_def)
  moreover have "length (wo_random small_world (st_drawn small_site)) = 32" by (simp add: small_world_def)
  ultimately show ?thesis using newest_link_opens [OF _ issue(1), of 59] issue(1) by auto
qed

text \<open>
  C28. A reset of the password ends every session of the account for good. Once it has been
  answered, whatever requests come and however they interleave: a request with the cookie of one of
  those sessions, on a route behind a gate, is sent to log in, or told of an error, and its
  handler is not reached. (No token drawn later has the same hash.)
\<close>

theorem reset_ends_sessions:
  assumes "handlers_ok w h" and "logins_wf (st_login st)" and "uniq se_TokenHash (cp_sessions (st_panel st))"
    and "alone (ConsumePasswordReset (hd_svc h) raw pw) st = Some (Inr (), s)"
    and "find (\<lambda>t. Some (ak_TokenHash t) = decodeTokenToHash w raw) (cp_action_tokens (st_panel st)) = Some tok"
    and "se \<in> set (cp_sessions (st_panel st))" and "se_UserID se = ak_AccountID tok" and "\<not> fresh w (st_drawn st) (se_TokenHash se)"
    and "run_accounts h xs s = (s', ts)" and "i < length ts" and "arrivals xs ! i = (en, r)"
    and "en_cookie en = Some v" and "decodeTokenToHash w v = Some (se_TokenHash se)"
    and "registry_wrap (hd_registry h) (fst (route_of r)) (snd (route_of r)) = Some (Behind_roles hid p allowed)"
    and "ts ! i = Ended a"
  shows "a = Inr (Clear_session, turned (rejectUnauthenticated hid)) \<or> a = Inr (Keep_cookie, Failed 500)"
proof -
  let ?h = "se_TokenHash se" and ?n = "st_drawn st" and ?base = "lo_login (st_login st)"
  have wo: "as_world (hd_svc h) = w" "ss_world (hd_sess h) = w" using assms(1) by (simp_all add: handlers_ok_def)
  have "site_inv w ?n {} ?base st" using logins_ok_start [OF assms(2)] by (simp add: site_inv_def gone_def)
  with steady_alone [OF steady_careful [OF careful_service(5) [OF wo(1)]] _ assms(4)] have inv: "site_inv w ?n {} ?base s" by blast
  have "gone {?h} (st_panel s)"
  proof -
    have "set (cp_sessions (st_panel s)) = {se \<in> set (cp_sessions (st_panel st)). se_UserID se \<noteq> ak_AccountID tok}"
      using reset_sessions [OF assms(4) wo(1)] assms(5) by auto
    moreover have "q = se" if "q \<in> set (cp_sessions (st_panel st))" "se_TokenHash q = ?h" for q
    proof -
      have "find (\<lambda>s. se_TokenHash s = ?h) (cp_sessions (st_panel st)) = Some q"
        using find_key_uniq [OF assms(3) that(1)] unfolding that(2) .
      with find_key_uniq [OF assms(3,6)] show ?thesis by (metis option.inject)
    qed
    ultimately show ?thesis using assms(7) by (auto simp: gone_def)
  qed
  with inv assms(8) have lost: "site_inv w ?n {?h} ?base s" by (simp add: site_inv_def)
  define Q where "Q = (\<lambda>(q :: envelope \<times> account_request) (a :: account_failure + cookie_change \<times> shown). q = (en, r) \<longrightarrow>
    a = Inr (Clear_session, turned (rejectUnauthenticated hid)) \<or> a = Inr (Keep_cookie, Failed 500))"
  have v: "v \<noteq> []" using assms(13) by (auto simp: decodeTokenToHash_def unbase64url_def)
  have "free.safe w ?n {?h} ?base (Q q) (handle_account h q) t" for q t
  proof (cases "q = (en, r)")
    case True
    have "free.safe w ?n {?h} ?base (Q q) (through_route h en (fst (route_of r)) (snd (route_of r)) k) t" for k
      unfolding through_route_def assms(14) using v assms(12)
      by (simp add: requireRoleCore_def, intro free.safe_bind [OF lost_session])
        (use assms(13) wo in \<open>auto simp: Q_def handleSessionError_def turned_def\<close>)
    then show ?thesis using True by (simp add: handle_account_def)
  next
    case False
    have "Q q a" for a using False by (simp add: Q_def)
    then show ?thesis by (intro free_mono [OF steady_account_request [OF assms(1)]])
  qed
  from free.run_panel_safe [where Q = Q and elapse = let_pass, OF _ this lost assms(9) [unfolded run_accounts_def]] elapse_ok
  have "free.all_safe w ?n {?h} ?base Q (arrivals xs) ts s'" by (auto simp: site_does_def)
  from free.ended_answer [OF this assms(10,15)] assms(11) show ?thesis by (simp add: Q_def)
qed

theorem reset_ends_sessions_witness:
  "\<exists>s xs s' a. alone (ConsumePasswordReset small_service (base64url (small_hash (CHR 0x08))) ''Secret2!'') small_site = Some (Inr (), s) \<and>
     arrivals xs = [small_visit (CHR 0x04)] \<and> run_accounts small_handlers xs s = (s', [Ended a]) \<and>
     (a = Inr (Clear_session, Redirected ''/login'') \<or> a = Inr (Keep_cookie, Failed 500))"
proof -
  have "\<exists>a s'. one_by_one (handle_account small_handlers) [small_visit (CHR 0x04)] small_reset = Some ([a], s')"
    by (simp add: handle_account_def through_route_def small_wrap requireRoleCore_def sessions_Validate_def small_raw small_raw_not_empty small_envelope_def
      small_world_of alone_defs GetByTokenHash_def small_change small_session_def handleSessionError_def)
  then obtain a s' where runs: "one_by_one (handle_account small_handlers) [small_visit (CHR 0x04)] small_reset = Some ([a], s')" by blast
  then obtain xs where xs: "arrivals xs = [small_visit (CHR 0x04)]" "run_accounts small_handlers xs small_reset = (s', [Ended a])"
    using accounts_one_by_one [OF runs] by auto
  have "a = Inr (Clear_session, turned (rejectUnauthenticated False)) \<or> a = Inr (Keep_cookie, Failed 500)"
    using small_change(1)
    by (intro reset_ends_sessions [OF small_ok(1,2) _ _ _ _ _ _ xs(2), where i = 0 and se = "small_session (CHR 0x04) 2" and tok = "small_token (CHR 0x08) PasswordReset"
        and raw = "base64url (small_hash (CHR 0x08))" and pw = "''Secret2!''" and r = Own_account and en = "small_envelope (Some (base64url (small_hash (CHR 0x04))))" and v = "base64url (small_hash (CHR 0x04))"])
      (simp_all add: small_world_of xs(1) small_raw small_wrap small_not_fresh small_site_def small_session_def small_token_def uniq_def small_cookie)
  with small_change(1) xs show ?thesis by (auto simp: turned_def rejectUnauthenticated_def)
qed

section \<open>Accounts\<close>

text \<open>
  C29. No two accounts get names or mail addresses that the database takes for the same: the
  database has no such key, each registration and each change of an address looks first and writes
  afterwards, and the lock keeps the two together, whatever else interleaves. (The database's
  comparison is an equivalence; one process serves the panel.)
\<close>

theorem names_stay_unique:
  assumes "handlers_ok w h" and "equivp (wo_same w)" and "logins_wf (st_login s)" and "names_unique w (st_login s)" and "\<not> st_emailUniqueMu s"
    and "run_accounts h xs s = (s', ts)"
  shows "names_unique w (st_login s')"
  by (rule panel_names [OF assms])

theorem names_stay_unique_witness:
  "\<exists>xs s' a. arrivals xs = [small_register] \<and> run_accounts small_handlers xs small_site = (s', [Ended a]) \<and>
     length (lo_login (st_login s')) = 3 \<and> names_unique small_world (st_login s')"
proof -
  obtain a s' where runs: "one_by_one (handle_account small_handlers) [small_register] small_site = Some ([a], s')" "length (lo_login (st_login s')) = 3"
    using small_joined by blast
  then obtain xs where xs: "arrivals xs = [small_register]" "run_accounts small_handlers xs small_site = (s', [Ended a])"
    using accounts_one_by_one [OF runs(1)] by auto
  have "\<not> st_emailUniqueMu small_site" by (simp add: small_site_def)
  with names_stay_unique [OF small_ok(1,3,2,4) _ xs(2)] runs(2) xs show ?thesis by blast
qed

text \<open>
  C30. The accounts stay well formed, and administrators are out of the panel's reach: whatever
  requests interleave, ids stay distinct and below the sequence, the administrators are those of
  the start, none is banned, set free, or given another group, and their state at most goes from
  unverified to active.
\<close>

theorem administrators_are_out_of_reach:
  assumes "handlers_ok w h" and "logins_wf (st_login s)" and "run_accounts h xs s = (s', ts)"
  shows "logins_wf (st_login s') \<and>
    (\<forall>r \<in> set (lo_login (st_login s)). \<exists>r' \<in> set (lo_login (st_login s')). kept_row r r') \<and>
    (\<forall>r' \<in> set (lo_login (st_login s')). is_admin_row r' \<longrightarrow> (\<exists>r \<in> set (lo_login (st_login s)). lo_account_id r = lo_account_id r' \<and> is_admin_row r))"
proof -
  have "site_inv w (st_drawn s) {} (lo_login (st_login s)) s" using logins_ok_start [OF assms(2)] by (simp add: site_inv_def gone_def)
  from panel_steady [OF assms(1) this assms(3)] have "logins_ok (lo_login (st_login s)) (st_login s')" by (simp add: site_inv_def)
  then show ?thesis by (auto simp: logins_ok_def logins_wf_def)
qed

theorem administrators_are_out_of_reach_witness:
  "\<exists>xs s' ts. arrivals xs = [small_register] \<and> run_accounts small_handlers xs small_site = (s', ts) \<and> logins_wf (st_login s') \<and>
     (\<exists>r' \<in> set (lo_login (st_login s')). kept_row (plain_row 1 ''root'' 99 0) r')"
proof -
  obtain a s' where runs: "one_by_one (handle_account small_handlers) [small_register] small_site = Some ([a], s')" using small_joined by blast
  then obtain xs where xs: "arrivals xs = [small_register]" "run_accounts small_handlers xs small_site = (s', [Ended a])"
    using accounts_one_by_one [OF runs(1)] by auto
  from administrators_are_out_of_reach [OF small_ok(1,2) xs(2)] have "logins_wf (st_login s')"
    "\<exists>r' \<in> set (lo_login (st_login s')). kept_row (plain_row 1 ''root'' 99 0) r'" by (auto simp: small_logins)
  with xs show ?thesis by blast
qed

end
