(* ===== verification/Api_Keys.thy ===== *)
theory Api_Keys
  imports Account_Domain Tasks Rate_Limiter
begin

text \<open>
  \<open>internal/features/apikey\<close>: keys for programs that read the panel's public routes. The keys are
  rows in Postgres; the service keeps the ones that are not revoked in memory, and the gate looks
  only there. A row holds the hash of the key, the gate limits how often a key is used by the
  limiter of its tier.

  Requests are tasks: each statement, each access to the map under its lock and each access to a
  key's time of last use is a step. The limiters are those of \<open>Rate_Limiter\<close>.
\<close>

section \<open>domain\<close>

record api_key =
  ky_CreatedAt :: int
  ky_LastUsedAt :: "int option"
  ky_RevokedAt :: "int option"
  ky_Name :: string
  ky_RateTier :: string
  ky_KeyHash :: string
  ky_ID :: int

definition IsRevoked :: "api_key \<Rightarrow> bool" where "IsRevoked k \<longleftrightarrow> ky_RevokedAt k \<noteq> None"

datatype key_error = ErrKeyNotFound | ErrKeyRevoked | ErrNameRequired | ErrUnknownTier

datatype key_failure = Key key_error | Key_fields "(string \<times> string) list" | Key_store

record key_tier =
  kt_Name :: string
  kt_RatePerMinute :: int
  kt_Burst :: int

record tier_set =
  ts_byName :: "(string \<times> key_tier) list"
  ts_order :: "string list"

fun text_before :: "string \<Rightarrow> string \<Rightarrow> bool" where
  "text_before [] t = True"
| "text_before (a # s) [] = False"
| "text_before (a # s) (b # t) = (byte a < byte b \<or> a = b \<and> text_before s t)"

fun put_in_order :: "string \<Rightarrow> string list \<Rightarrow> string list" where
  "put_in_order x [] = [x]"
| "put_in_order x (y # ys) = (if text_before x y then x # y # ys else y # put_in_order x ys)"

text \<open>The newest tier of a name stands for it; \<open>sort.Strings\<close> orders by bytes.\<close>

definition NewTierSet :: "key_tier list \<Rightarrow> tier_set" where
  "NewTierSet tiers = \<lparr>ts_byName = rev (map (\<lambda>t. (kt_Name t, t)) tiers), ts_order = foldr put_in_order (map kt_Name tiers) []\<rparr>"

definition tiers_Has :: "tier_set \<Rightarrow> string \<Rightarrow> bool" where "tiers_Has s name \<longleftrightarrow> map_of (ts_byName s) name \<noteq> None"
definition tiers_Get :: "tier_set \<Rightarrow> string \<Rightarrow> key_tier option" where "tiers_Get s name = map_of (ts_byName s) name"
definition tiers_List :: "tier_set \<Rightarrow> key_tier list" where "tiers_List s = List.map_filter (tiers_Get s) (ts_order s)"

section \<open>infra/postgres_apikey.go\<close>

record keydb =
  cp_api_keys :: "api_key list"
  key_seq :: int
  key_now :: int

type_synonym 'a key_prog = "(keydb conn, key_failure, 'a) prog"

definition key_check :: "api_key \<Rightarrow> bool" where
  "key_check k \<longleftrightarrow> length (ky_KeyHash k) = 32 \<and> varchar 100 (ky_Name k) \<and> varchar 64 (ky_RateTier k)"

text \<open>The identity of a row that is refused is used up.\<close>

definition key_Create :: "string \<Rightarrow> string \<Rightarrow> string \<Rightarrow> api_key key_prog" where
  "key_Create hash name tier =
     bindE (sql Key_store (\<lambda>d.
       let i = key_seq d + 1; d' = d\<lparr>key_seq := i\<rparr>;
           k = \<lparr>ky_CreatedAt = key_now d, ky_LastUsedAt = None, ky_RevokedAt = None, ky_Name = name, ky_RateTier = tier, ky_KeyHash = hash, ky_ID = i\<rparr>
       in if \<not> key_check k \<or> list_ex (\<lambda>r. ky_KeyHash r = hash) (cp_api_keys d) then Some (None, d')
          else Some (Some k, d'\<lparr>cp_api_keys := cp_api_keys d @ [k]\<rparr>)))
     (\<lambda>r. case r of None \<Rightarrow> failE Key_store | Some k \<Rightarrow> retE k)"

definition newest_keys :: "api_key list \<Rightarrow> api_key list" where "newest_keys = sort_key (\<lambda>k. - ky_CreatedAt k)"

definition key_List :: "api_key list key_prog" where
  "key_List = query Key_store (\<lambda>d. newest_keys (cp_api_keys d))"

definition key_Revoke :: "int \<Rightarrow> unit key_prog" where
  "key_Revoke i =
     bindE (sql Key_store (\<lambda>d.
       Some (length (filter (\<lambda>k. ky_ID k = i \<and> ky_RevokedAt k = None) (cp_api_keys d)),
         d\<lparr>cp_api_keys := upd_where (\<lambda>k. ky_ID k = i \<and> ky_RevokedAt k = None) (\<lambda>k. k\<lparr>ky_RevokedAt := Some (key_now d)\<rparr>) (cp_api_keys d)\<rparr>)))
     (\<lambda>n. if n = 0 then failE (Key ErrKeyNotFound) else retE ())"

definition LoadActive :: "api_key list key_prog" where
  "LoadActive = query Key_store (\<lambda>d. newest_keys (filter (\<lambda>k. ky_RevokedAt k = None) (cp_api_keys d)))"

definition TouchLastUsed :: "int \<Rightarrow> int \<Rightarrow> unit key_prog" where
  "TouchLastUsed i used = exec Key_store (\<lambda>d.
     d\<lparr>cp_api_keys := upd_where (\<lambda>k. ky_ID k = i) (\<lambda>k. k\<lparr>ky_LastUsedAt := Some used\<rparr>) (cp_api_keys d)\<rparr>)"

section \<open>app/service.go\<close>

text \<open>Times are nanoseconds since 1970 here, as \<open>UnixNano\<close> has them.\<close>

definition lastUsedFlushInterval :: int where "lastUsedFlushInterval = seconds 60"

record cached_key =
  ck_name :: string
  ck_tier :: string
  ck_lastFlushed :: int
  ck_id :: int

text \<open>A write of the time of last use that was started in the background.\<close>

record touch =
  to_entry :: nat
  to_id :: int
  to_at :: int
  to_begun :: bool

text \<open>
  The entries stand at their addresses; the map leads from hashes to addresses. The random bytes
  drawn and the writes that were started are counted.
\<close>

record 'l keysite =
  ks_db :: keydb
  ks_entries :: "cached_key list"
  ks_byHash :: "(string \<times> nat) list"
  ks_touches :: "touch list"
  ks_drawn :: nat
  ks_limiters :: "(string \<times> 'l rate_limiter) list"
  ks_invalid :: "'l rate_limiter"

type_synonym ('l, 'a) keying = "('l keysite, key_failure, 'a) task"

record key_service =
  kv_world :: world
  kv_tiers :: tier_set

definition on_keys :: "'a key_prog \<Rightarrow> ('l, 'a) keying" where "on_keys = atomic ks_db (\<lambda>d s. s\<lparr>ks_db := d\<rparr>)"
definition key_clock :: "('l, int) keying" where "key_clock = look (\<lambda>s. key_now (ks_db s))"

definition keys_pass :: "nat \<Rightarrow> 'l keysite \<Rightarrow> 'l keysite" where
  "keys_pass n s = s\<lparr>ks_db := (ks_db s)\<lparr>key_now := key_now (ks_db s) + int n\<rparr>\<rparr>"

definition cached :: "api_key \<Rightarrow> cached_key" where
  "cached k = \<lparr>ck_name = ky_Name k, ck_tier = ky_RateTier k, ck_lastFlushed = (case ky_LastUsedAt k of None \<Rightarrow> 0 | Some t \<Rightarrow> t), ck_id = ky_ID k\<rparr>"

text \<open>The keys in the order they were read; a later one of the same hash would take the place of an earlier.\<close>

definition Warm :: "('l, unit) keying" where
  "Warm = andThen (on_keys LoadActive) (\<lambda>keys. change (\<lambda>s.
     s\<lparr>ks_entries := ks_entries s @ map cached keys,
       ks_byHash := rev (zip (map ky_KeyHash keys) [length (ks_entries s) ..< length (ks_entries s) + length keys])\<rparr>))"

text \<open>\<open>s.byHash[string(hash[:])] = entry\<close>\<close>

definition put_key :: "string \<Rightarrow> cached_key \<Rightarrow> 'l keysite \<Rightarrow> 'l keysite" where
  "put_key h e s = s\<lparr>ks_entries := ks_entries s @ [e], ks_byHash := (h, length (ks_entries s)) # filter (\<lambda>x. fst x \<noteq> h) (ks_byHash s)\<rparr>"

definition Generate :: "key_service \<Rightarrow> string \<Rightarrow> string \<Rightarrow> ('l, string \<times> api_key) keying" where
  "Generate v name0 tier =
     (let name = TrimSpace name0;
          fe1 = (if name = '''' then [(''name'', ''name is required'')] else []);
          fe = (if \<not> tiers_Has (kv_tiers v) tier then (''tier'', ''unknown rate tier'') # fe1 else fe1)
      in if fe \<noteq> [] then fail (Key_fields fe)
         else
           andThen (Step (\<lambda>_ s. s\<lparr>ks_drawn := ks_drawn s + 1\<rparr>) (\<lambda>_ s. ret (wo_random (kv_world v) (ks_drawn s)))) (\<lambda>raw.
           andThen (on_keys (key_Create (wo_sha256 (kv_world v) raw) name tier)) (\<lambda>key.
           andThen (change (put_key (wo_sha256 (kv_world v) raw) (cached key))) (\<lambda>_.
           ret (base64url raw, key)))))"

definition keys_List :: "('l, api_key list) keying" where "keys_List = on_keys key_List"

fun drop_first :: "('a \<Rightarrow> bool) \<Rightarrow> 'a list \<Rightarrow> 'a list" where
  "drop_first p [] = []"
| "drop_first p (x # xs) = (if p x then xs else x # drop_first p xs)"

definition drop_key :: "int \<Rightarrow> 'l keysite \<Rightarrow> 'l keysite" where
  "drop_key i s = s\<lparr>ks_byHash := drop_first (\<lambda>e. ck_id (ks_entries s ! snd e) = i) (ks_byHash s)\<rparr>"

definition Revoke :: "int \<Rightarrow> ('l, unit) keying" where
  "Revoke i = andThen (on_keys (key_Revoke i)) (\<lambda>_. change (drop_key i))"

definition decodeKeyToHash :: "world \<Rightarrow> string \<Rightarrow> string option" where
  "decodeKeyToHash w rawKey =
     (case unbase64url rawKey of
        None \<Rightarrow> None
      | Some raw \<Rightarrow> if length raw \<noteq> 32 then None else Some (wo_sha256 w raw))"

text \<open>\<open>CompareAndSwap\<close> on the time of last use; the write that follows runs on its own.\<close>

definition swap_flushed :: "nat \<Rightarrow> int \<Rightarrow> int \<Rightarrow> 'l keysite \<Rightarrow> 'l keysite" where
  "swap_flushed entry previous now s =
     (if ck_lastFlushed (ks_entries s ! entry) \<noteq> previous then s
      else s\<lparr>ks_entries := (ks_entries s)[entry := (ks_entries s ! entry)\<lparr>ck_lastFlushed := now\<rparr>],
             ks_touches := ks_touches s @ [\<lparr>to_entry = entry, to_id = ck_id (ks_entries s ! entry), to_at = now, to_begun = False\<rparr>]\<rparr>)"

definition scheduleTouch :: "nat \<Rightarrow> ('l, unit) keying" where
  "scheduleTouch entry =
     andThen key_clock (\<lambda>now.
     andThen (look (\<lambda>s. ck_lastFlushed (ks_entries s ! entry))) (\<lambda>previous.
       if now - previous < lastUsedFlushInterval then ret () else change (swap_flushed entry previous now)))"

text \<open>The body of the goroutine, for the write at a place of the log: its error is only logged.\<close>

definition touch_waits :: "nat \<Rightarrow> 'l keysite \<Rightarrow> bool" where
  "touch_waits n s \<longleftrightarrow> n < length (ks_touches s) \<and> \<not> to_begun (ks_touches s ! n)"

definition begin_touch :: "nat \<Rightarrow> 'l keysite \<Rightarrow> 'l keysite" where
  "begin_touch n s = (if touch_waits n s then s\<lparr>ks_touches := (ks_touches s)[n := (ks_touches s ! n)\<lparr>to_begun := True\<rparr>]\<rparr> else s)"

definition run_touch :: "nat \<Rightarrow> ('l, unit) keying" where
  "run_touch n =
     andThen (Step (\<lambda>_. begin_touch n) (\<lambda>_ s. ret (if touch_waits n s then Some (ks_touches s ! n) else None))) (\<lambda>found.
       case found of
         None \<Rightarrow> ret ()
       | Some t \<Rightarrow> bindT (on_keys (TouchLastUsed (to_id t) (to_at t))) (\<lambda>_. ret ()))"

definition Validate :: "key_service \<Rightarrow> string \<Rightarrow> ('l, api_key) keying" where
  "Validate v rawKey =
     (case decodeKeyToHash (kv_world v) rawKey of
        None \<Rightarrow> fail (Key ErrKeyNotFound)
      | Some h \<Rightarrow>
          andThen (look (\<lambda>s. map_option (\<lambda>a. (a, ks_entries s ! a)) (map_of (ks_byHash s) h))) (\<lambda>found.
            case found of
              None \<Rightarrow> fail (Key ErrKeyNotFound)
            | Some (a, entry) \<Rightarrow>
                andThen (scheduleTouch a) (\<lambda>_.
                ret \<lparr>ky_CreatedAt = 0, ky_LastUsedAt = None, ky_RevokedAt = None, ky_Name = ck_name entry,
                     ky_RateTier = ck_tier entry, ky_KeyHash = '''', ky_ID = ck_id entry\<rparr>)))"

section \<open>transport/middleware/gate.go\<close>

definition bearerToken :: "world \<Rightarrow> request \<Rightarrow> string option" where
  "bearerToken w r =
     (let header = header_Get ''Authorization'' (rq_Header r)
      in if length header < 7 \<or> \<not> EqualFold w (take 7 header) ''Bearer '' then None
         else let token = TrimSpace (drop 7 header) in if token = '''' then None else Some token)"

definition retryAfterSeconds :: "int \<Rightarrow> string" where "retryAfterSeconds delay = FormatInt (max (round_seconds delay) 1)"

datatype key_shown =
    Served
  | Limited string
  | Invalid_key
  | Keys_page "api_key list" "key_tier list" "(string \<times> string) list" "string option"
  | Key_status nat

text \<open>A limiter is asked in one step; each limiter reads the clock for itself.\<close>

definition ask_limiter :: "('l, 'r) rate_pkg \<Rightarrow> reads \<Rightarrow> string \<Rightarrow> string \<Rightarrow> ('l, int option) keying" where
  "ask_limiter P t tier key = Step
     (\<lambda>_ s. case map_of (ks_limiters s) tier of None \<Rightarrow> s
        | Some rl \<Rightarrow> s\<lparr>ks_limiters := map (\<lambda>e. if fst e = tier then (tier, snd (Allow P t key rl)) else e) (ks_limiters s)\<rparr>)
     (\<lambda>_ s. ret (case map_of (ks_limiters s) tier of None \<Rightarrow> None | Some rl \<Rightarrow> fst (Allow P t key rl)))"

definition rejectInvalid :: "('l, 'r) rate_pkg \<Rightarrow> reads \<Rightarrow> request \<Rightarrow> ('l, key_shown) keying" where
  "rejectInvalid P t r =
     andThen (Step (\<lambda>_ s. s\<lparr>ks_invalid := snd (AllowRequest P t r (ks_invalid s))\<rparr>) (\<lambda>_ s. ret (fst (AllowRequest P t r (ks_invalid s))))) (\<lambda>delay.
       ret (case delay of None \<Rightarrow> Invalid_key | Some d \<Rightarrow> Limited (retryAfterSeconds d)))"

text \<open>A tier without a limiter of its own has that of the tier \<open>Standard\<close>, which there always is.\<close>

definition apiKeyStandardTier :: string where "apiKeyStandardTier = ''Standard''"

definition APIKeyGate :: "('l, 'r) rate_pkg \<Rightarrow> key_service \<Rightarrow> reads \<Rightarrow> request \<Rightarrow> ('l, key_shown) keying" where
  "APIKeyGate P v t r =
     (case bearerToken (kv_world v) r of
        None \<Rightarrow> rejectInvalid P t r
      | Some rawKey \<Rightarrow>
          bindT (Validate v rawKey) (\<lambda>validated. case validated of
              Inl _ \<Rightarrow> rejectInvalid P t r
            | Inr key \<Rightarrow>
                andThen (look (\<lambda>s. map_of (ks_limiters s) (ky_RateTier key) \<noteq> None)) (\<lambda>has.
                andThen (ask_limiter P t (if has then ky_RateTier key else apiKeyStandardTier) (FormatInt (ky_ID key))) (\<lambda>delay.
                  ret (case delay of None \<Rightarrow> Served | Some d \<Rightarrow> Limited (retryAfterSeconds d))))))"

section \<open>transport/handler.go\<close>

definition keys_page :: "key_service \<Rightarrow> (string \<times> string) list \<Rightarrow> string option \<Rightarrow> ('l, key_shown) keying" where
  "keys_page v fe revealed =
     bindT keys_List (\<lambda>r. ret (case r of Inl _ \<Rightarrow> Key_status 500 | Inr keys \<Rightarrow> Keys_page keys (tiers_List (kv_tiers v)) fe revealed))"

definition keys_create :: "key_service \<Rightarrow> bool \<Rightarrow> string \<Rightarrow> string \<Rightarrow> ('l, key_shown) keying" where
  "keys_create v form_read name tier =
     (if \<not> form_read then ret (Key_status 400)
      else bindT (Generate v name tier) (\<lambda>r. case r of
          Inl (Key_fields fe) \<Rightarrow> keys_page v fe None
        | Inl _ \<Rightarrow> ret (Key_status 500)
        | Inr (raw, _) \<Rightarrow> keys_page v [] (Some raw)))"

definition keys_revoke :: "key_service \<Rightarrow> string \<Rightarrow> ('l, key_shown) keying" where
  "keys_revoke v rawID =
     (case ParseInt rawID of
        None \<Rightarrow> ret (Key_status 400)
      | Some i \<Rightarrow> if i \<le> 0 then ret (Key_status 400)
          else bindT (Revoke i) (\<lambda>r.
            if r = Inr () \<or> r = Inl (Key ErrKeyNotFound) then keys_page v [] None else ret (Key_status 500)))"

datatype key_request =
    Use_key reads request
  | Keys_show
  | Keys_create bool string string
  | Keys_revoke string
  | Key_touch nat

primrec handle_key :: "('l, 'r) rate_pkg \<Rightarrow> key_service \<Rightarrow> key_request \<Rightarrow> ('l, key_shown) keying" where
  "handle_key P v (Use_key t r) = APIKeyGate P v t r"
| "handle_key P v Keys_show = keys_page v [] None"
| "handle_key P v (Keys_create b name tier) = keys_create v b name tier"
| "handle_key P v (Keys_revoke i) = keys_revoke v i"
| "handle_key P v (Key_touch n) = andThen (run_touch n) (\<lambda>_. ret (Key_status 204))"

definition run_keys ::
    "('l, 'r) rate_pkg \<Rightarrow> key_service \<Rightarrow> key_request move list \<Rightarrow> 'l keysite \<Rightarrow> ('l keysite, key_failure, key_shown) panel" where
  "run_keys P v xs s = run_panel keys_pass (handle_key P v) xs (s, [])"

end
