(* ===== verification/Api_Key_Safety.thy ===== *)
theory Api_Key_Safety
  imports Api_Keys
begin

text \<open>What every step of a request keeps of the keys, whatever the other requests do in between.\<close>

section \<open>Keys that are right\<close>

definition key_rows_ok :: "keydb \<Rightarrow> bool" where
  "key_rows_ok d \<longleftrightarrow> uniq ky_KeyHash (cp_api_keys d) \<and> uniq ky_ID (cp_api_keys d) \<and> (\<forall>k \<in> set (cp_api_keys d). ky_ID k \<le> key_seq d)"

text \<open>The writes of a key's last use, in the order they were started.\<close>

definition uses_of :: "nat \<Rightarrow> 'l keysite \<Rightarrow> int list" where
  "uses_of e s = map to_at (filter (\<lambda>t. to_entry t = e) (ks_touches s))"

definition touches_ok :: "'l keysite \<Rightarrow> bool" where
  "touches_ok s \<longleftrightarrow> (\<forall>t \<in> set (ks_touches s). to_entry t < length (ks_entries s)) \<and>
     (\<forall>e < length (ks_entries s). successively (\<lambda>a b. a + lastUsedFlushInterval \<le> b) (uses_of e s) \<and>
        (uses_of e s \<noteq> [] \<longrightarrow> ck_lastFlushed (ks_entries s ! e) = last (uses_of e s)))"

definition cache_ok :: "'l keysite \<Rightarrow> bool" where
  "cache_ok s \<longleftrightarrow> distinct (map fst (ks_byHash s)) \<and>
     (\<forall>(h, a) \<in> set (ks_byHash s). a < length (ks_entries s) \<and>
        (\<exists>k \<in> set (cp_api_keys (ks_db s)). ky_KeyHash k = h \<and> ky_ID k = ck_id (ks_entries s ! a)))"

definition keys_ok :: "'l keysite \<Rightarrow> bool" where
  "keys_ok s \<longleftrightarrow> key_rows_ok (ks_db s) \<and> cache_ok s \<and> touches_ok s"

text \<open>
  What is to be kept of one hash: the row it has, with its number; whether it is in the map, and
  where. A hash that is in the map is followed only while its row is revoked. The empty hash, which
  no key has, follows none.
\<close>

definition pinned :: "string \<Rightarrow> int \<Rightarrow> nat option \<Rightarrow> 'l keysite \<Rightarrow> bool" where
  "pinned h i c s \<longleftrightarrow> (h \<noteq> [] \<longrightarrow>
     (\<exists>k \<in> set (cp_api_keys (ks_db s)). ky_KeyHash k = h \<and> ky_ID k = i \<and> (c \<noteq> None \<longrightarrow> IsRevoked k)) \<and> map_of (ks_byHash s) h = c)"

text \<open>Where the keys may go: rows keep hash and number and stay revoked, entries stay where they are.\<close>

definition rows_go :: "keydb \<Rightarrow> keydb \<Rightarrow> bool" where
  "rows_go d d' \<longleftrightarrow> (\<forall>k \<in> set (cp_api_keys d). \<exists>k' \<in> set (cp_api_keys d'). ky_KeyHash k' = ky_KeyHash k \<and> ky_ID k' = ky_ID k \<and> (IsRevoked k \<longrightarrow> IsRevoked k'))"

definition keys_go :: "'l keysite \<Rightarrow> 'l keysite \<Rightarrow> bool" where
  "keys_go s s' \<longleftrightarrow> rows_go (ks_db s) (ks_db s') \<and> (\<exists>es. map ck_id (ks_entries s') = map ck_id (ks_entries s) @ es)"

lemma rows_go_refl [simp]: "rows_go d d" by (auto simp: rows_go_def)

lemma rows_go_trans: "rows_go a b \<Longrightarrow> rows_go b c \<Longrightarrow> rows_go a c"
  unfolding rows_go_def by metis

lemma keys_go_refl [simp]: "keys_go s s" by (simp add: keys_go_def)

lemma keys_go_trans: "keys_go a b \<Longrightarrow> keys_go b c \<Longrightarrow> keys_go a c"
  unfolding keys_go_def using rows_go_trans by (metis append_assoc)

abbreviation keys_inv :: "string \<Rightarrow> int \<Rightarrow> nat option \<Rightarrow> 'l keysite \<Rightarrow> bool" where
  "keys_inv h i c s \<equiv> keys_ok s \<and> pinned h i c s"

interpretation ring: rely_guarantee "keys_inv h i c" keys_go keys_go for h i c
  by unfold_locales (auto intro: keys_go_trans)

section \<open>The statements\<close>

definition rows_keep :: "'a key_prog \<Rightarrow> bool" where
  "rows_keep m \<longleftrightarrow> (\<forall>s r c. m s = (r, c) \<longrightarrow> key_rows_ok (data s) \<longrightarrow> key_rows_ok (data c) \<and> rows_go (data s) (data c))"

lemma rows_keep_sql:
  assumes "\<And>d x d'. key_rows_ok d \<Longrightarrow> f d = Some (x, d') \<Longrightarrow> key_rows_ok d' \<and> rows_go d d'"
  shows "rows_keep (sql e f)"
  using assms by (auto simp: rows_keep_def sql_def split: option.splits fault.splits)

lemma rows_keep_bind: "rows_keep m \<Longrightarrow> (\<And>x. rows_keep (f x)) \<Longrightarrow> rows_keep (bindE m f)"
  unfolding rows_keep_def bindE_def by (fastforce split: prod.splits sum.splits intro: rows_go_trans)

lemma rows_keep_simps [simp]: "rows_keep (retE x)" "rows_keep (failE e)" "rows_keep (query e q)"
  by (simp_all add: rows_keep_def retE_def failE_def) (auto simp: query_def sql_def split: fault.splits)

lemma rows_upd:
  assumes "key_rows_ok d" and "\<And>k. ky_KeyHash (f k) = ky_KeyHash k \<and> ky_ID (f k) = ky_ID k \<and> (IsRevoked k \<longrightarrow> IsRevoked (f k))"
  shows "key_rows_ok (d\<lparr>cp_api_keys := upd_where p f (cp_api_keys d)\<rparr>) \<and> rows_go d (d\<lparr>cp_api_keys := upd_where p f (cp_api_keys d)\<rparr>)"
proof
  show "key_rows_ok (d\<lparr>cp_api_keys := upd_where p f (cp_api_keys d)\<rparr>)"
    using assms by (auto simp: key_rows_ok_def uniq_upd_where set_upd_where)
  have "\<exists>k' \<in> set (upd_where p f (cp_api_keys d)). ky_KeyHash k' = ky_KeyHash k \<and> ky_ID k' = ky_ID k \<and> (IsRevoked k \<longrightarrow> IsRevoked k')"
    if "k \<in> set (cp_api_keys d)" for k
    using that assms(2) [of k] by (cases "p k") (auto simp: set_upd_where intro!: bexI [of _ "if p k then f k else k"])
  then show "rows_go d (d\<lparr>cp_api_keys := upd_where p f (cp_api_keys d)\<rparr>)" by (simp add: rows_go_def)
qed

lemma rows_keep_writes: "rows_keep (key_Revoke j)" "rows_keep (TouchLastUsed j t)"
  unfolding key_Revoke_def TouchLastUsed_def exec_def
  by (auto intro!: rows_keep_bind rows_keep_sql intro: rows_upd [THEN conjunct1] rows_upd [THEN conjunct2] simp: IsRevoked_def)

lemma rows_keep_reads: "rows_keep key_List" "rows_keep LoadActive"
  by (simp_all add: key_List_def LoadActive_def)

lemma rows_add:
  assumes "key_rows_ok d" and "ky_KeyHash k \<notin> ky_KeyHash ` set (cp_api_keys d)" and "ky_ID k = key_seq d + 1"
  shows "key_rows_ok (d\<lparr>key_seq := key_seq d + 1, cp_api_keys := cp_api_keys d @ [k]\<rparr>)"
  using assms by (fastforce simp: key_rows_ok_def uniq_def)

lemma rows_keep_Create: "rows_keep (key_Create h' name t)"
  unfolding key_Create_def
proof (intro rows_keep_bind rows_keep_sql)
  fix d x d' assume ok: "key_rows_ok d" and eq: "(let i = key_seq d + 1; d' = d\<lparr>key_seq := i\<rparr>;
           k = \<lparr>ky_CreatedAt = key_now d, ky_LastUsedAt = None, ky_RevokedAt = None, ky_Name = name, ky_RateTier = t, ky_KeyHash = h', ky_ID = i\<rparr>
       in if \<not> key_check k \<or> list_ex (\<lambda>r. ky_KeyHash r = h') (cp_api_keys d) then Some (None, d')
          else Some (Some k, d'\<lparr>cp_api_keys := cp_api_keys d @ [k]\<rparr>)) = Some (x, d')"
  from ok have "key_rows_ok (d\<lparr>key_seq := key_seq d + 1\<rparr>)" by (auto simp: key_rows_ok_def)
  with eq show "key_rows_ok d' \<and> rows_go d d'"
    by (auto simp: Let_def rows_go_def list_ex_iff image_iff intro!: rows_add [OF ok] split: if_splits)
qed (auto split: option.split)

text \<open>What a statement tells the task that ran it.\<close>

lemma Create_says:
  assumes "key_Create h' name t s = (Inr k, c)"
  shows "k \<in> set (cp_api_keys (data c)) \<and> ky_KeyHash k = h' \<and> h' \<noteq> [] \<and> h' \<notin> ky_KeyHash ` set (cp_api_keys (data s))"
  using assms by (auto simp: key_Create_def key_check_def bindE_Inr sql_Inr Let_def list_ex_iff retE_def failE_def split: if_splits option.splits)

lemma Revoke_says: "key_Revoke j s = (Inr (), c) \<Longrightarrow> \<exists>k \<in> set (cp_api_keys (data s)). ky_ID k = j \<and> \<not> IsRevoked k"
  by (auto simp: key_Revoke_def bindE_Inr sql_Inr retE_def failE_def IsRevoked_def filter_empty_conv split: if_splits)

section \<open>The steps\<close>

lemma inv_rows:
  assumes "keys_inv h i c s" and "key_rows_ok d" and "rows_go (ks_db s) d"
  shows "keys_inv h i c (s\<lparr>ks_db := d\<rparr>) \<and> keys_go s (s\<lparr>ks_db := d\<rparr>)"
proof -
  have "\<exists>k' \<in> set (cp_api_keys d). ky_KeyHash k' = g \<and> ky_ID k' = n"
    if "k \<in> set (cp_api_keys (ks_db s))" "ky_KeyHash k = g" "ky_ID k = n" for k g n
    using assms(3) that by (force simp: rows_go_def)
  then have "cache_ok (s\<lparr>ks_db := d\<rparr>)" using assms(1) by (force simp: keys_ok_def cache_ok_def)
  moreover have "pinned h i c (s\<lparr>ks_db := d\<rparr>)" using assms(1,3) by (force simp: pinned_def rows_go_def)
  ultimately show ?thesis using assms by (auto simp: keys_ok_def touches_ok_def uses_of_def keys_go_def)
qed

lemma keep_on_keys:
  assumes "rows_keep m" 
    and "\<And>s' fs r c'. keys_inv h i c s' \<Longrightarrow> keys_inv h i c (s'\<lparr>ks_db := data c'\<rparr>) \<Longrightarrow> m \<lparr>data = ks_db s', faults = fs\<rparr> = (r, c') \<Longrightarrow>
      ring.safe h i c Q (g r) (s'\<lparr>ks_db := data c'\<rparr>)"
  shows "ring.safe h i c Q (bindT (on_keys m) g) s"
  unfolding on_keys_def
proof (rule ring.safe_atomic_bind)
  fix s' :: "'b keysite" and fs r c'
  assume s': "keys_inv h i c s'" and run: "m \<lparr>data = ks_db s', faults = fs\<rparr> = (r, c')"
  have "key_rows_ok (ks_db s')" using s' by (simp add: keys_ok_def)
  with assms(1) run have "key_rows_ok (data c') \<and> rows_go (ks_db s') (data c')" by (force simp: rows_keep_def)
  with inv_rows [OF s'] have "keys_inv h i c (s'\<lparr>ks_db := data c'\<rparr>) \<and> keys_go s' (s'\<lparr>ks_db := data c'\<rparr>)" by blast
  with assms(2) [OF s' _ run] show "keys_inv h i c (s'\<lparr>ks_db := data c'\<rparr>) \<and> keys_go s' (s'\<lparr>ks_db := data c'\<rparr>) \<and>
      ring.safe h i c Q (g r) (s'\<lparr>ks_db := data c'\<rparr>)" by blast
qed

lemma keep_change:
  assumes "\<And>s'. keys_go s s' \<Longrightarrow> keys_inv h i c s' \<Longrightarrow> keys_inv h i c (f s') \<and> keys_go s' (f s') \<and> ring.safe h i c Q (g (Inr ())) (f s')"
  shows "ring.safe h i c Q (bindT (change f) g) s"
  using assms by (simp add: change_def ret_def)

lemma keep_look:
  assumes "\<And>s'. keys_go s s' \<Longrightarrow> keys_inv h i c s' \<Longrightarrow> ring.safe h i c Q (g (Inr (f s'))) s'"
  shows "ring.safe h i c Q (bindT (look f) g) s"
  using assms by (simp add: look_def ret_def)

text \<open>Steps at the limiters leave the keys alone.\<close>

definition same_keys :: "'l keysite \<Rightarrow> 'l keysite \<Rightarrow> bool" where
  "same_keys s s' \<longleftrightarrow> ks_db s' = ks_db s \<and> ks_entries s' = ks_entries s \<and> ks_byHash s' = ks_byHash s \<and> ks_touches s' = ks_touches s"

lemma inv_same: "keys_inv h i c s \<Longrightarrow> same_keys s s' \<Longrightarrow> keys_inv h i c s' \<and> keys_go s s'"
  by (simp add: same_keys_def keys_ok_def cache_ok_def touches_ok_def uses_of_def pinned_def keys_go_def)

lemma keep_aside:
  assumes "\<And>fs s. same_keys s (e fs s)" and "\<And>fs s' s''. ring.safe h i c Q (g fs s') s''"
  shows "ring.safe h i c Q (Step e g) s"
  using inv_same assms by (simp) blast

section \<open>Uses\<close>

lemma swap_inv:
  assumes inv: "keys_inv h i c s" and a: "a < length (ks_entries s)" and t: "previous + lastUsedFlushInterval \<le> now"
  shows "keys_inv h i c (swap_flushed a previous now s) \<and> keys_go s (swap_flushed a previous now s)"
proof (cases "ck_lastFlushed (ks_entries s ! a) = previous")
  case True
  define s' where "s' = s\<lparr>ks_entries := (ks_entries s)[a := (ks_entries s ! a)\<lparr>ck_lastFlushed := now\<rparr>],
                ks_touches := ks_touches s @ [\<lparr>to_entry = a, to_id = ck_id (ks_entries s ! a), to_at = now, to_begun = False\<rparr>]\<rparr>"
  have ids: "map ck_id (ks_entries s') = map ck_id (ks_entries s)" using a by (simp add: s'_def map_update list_update_same_conv)
  have at_b: "ck_id (ks_entries s' ! b) = ck_id (ks_entries s ! b)" if "b < length (ks_entries s)" for b
    using that a by (simp add: s'_def nth_list_update)
  have same: "ks_db s' = ks_db s" "ks_byHash s' = ks_byHash s" "length (ks_entries s') = length (ks_entries s)" by (simp_all add: s'_def)
  have "cache_ok s'" using inv at_b unfolding keys_ok_def cache_ok_def same by fastforce
  moreover have uses: "uses_of e s' = (if e = a then uses_of e s @ [now] else uses_of e s)" for e by (simp add: uses_of_def s'_def)
  have "touches_ok s'"
    using inv a t True unfolding keys_ok_def touches_ok_def uses
    by (auto simp: s'_def successively_append_iff nth_list_update uses_of_def)
  ultimately have "keys_inv h i c s' \<and> keys_go s s'" using inv ids same by (simp add: keys_ok_def pinned_def keys_go_def)
  then show ?thesis using True by (simp add: swap_flushed_def s'_def)
qed (simp add: swap_flushed_def inv)

lemma keys_go_length: "keys_go s s' \<Longrightarrow> length (ks_entries s) \<le> length (ks_entries s')"
  by (auto simp: keys_go_def dest: arg_cong [where f = length])

lemma keep_scheduleTouch:
  assumes "a < length (ks_entries s)" and "\<And>s'. ring.safe h i c Q (g (Inr ())) s'"
  shows "ring.safe h i c Q (bindT (scheduleTouch a) g) s"
  unfolding scheduleTouch_def key_clock_def andThen_def bindT_assoc
proof (rule keep_look, unfold sum.case bindT_assoc, rule keep_look)
  fix s1 s2 :: "'a keysite" assume "keys_go s s1" "keys_go s1 s2"
  with assms(1) have a: "a < length (ks_entries s2)" by (auto dest!: keys_go_length)
  let ?now = "key_now (ks_db s1)" and ?previous = "ck_lastFlushed (ks_entries s2 ! a)"
  have "keys_inv h i c (swap_flushed a ?previous ?now u) \<and> keys_go u (swap_flushed a ?previous ?now u)"
    if "keys_go s2 u" "keys_inv h i c u" "\<not> ?now - ?previous < lastUsedFlushInterval" for u :: "'a keysite"
    using swap_inv [OF that(2)] that(3) keys_go_length [OF that(1)] a by (simp add: not_less algebra_simps)
  with assms(2) show "ring.safe h i c Q (bindT (case Inr ?previous of Inl e \<Rightarrow> fail e
      | Inr previous \<Rightarrow> if ?now - previous < lastUsedFlushInterval then ret () else change (swap_flushed a previous ?now)) g) s2"
    by (auto simp: ret_def intro!: keep_change)
qed

lemma keep_rejectInvalid:
  "(\<And>d. Q (Inr (Limited d))) \<Longrightarrow> Q (Inr Invalid_key) \<Longrightarrow> ring.safe h i c Q (rejectInvalid P t r) s"
  unfolding rejectInvalid_def andThen_def bindT.simps
  by (rule keep_aside) (simp_all add: same_keys_def ret_def split: option.split)

lemma keep_ask_limiter:
  "(\<And>d s'. ring.safe h i c Q (g (Inr d)) s') \<Longrightarrow> ring.safe h i c Q (bindT (ask_limiter P t tier key) g) s"
  unfolding ask_limiter_def bindT.simps
  by (rule keep_aside) (simp_all add: same_keys_def ret_def split: option.split)

text \<open>A key of the pinned hash is found where it is, or not at all.\<close>

lemma keep_Validate:
  fixes s :: "'l keysite"
  assumes "decodeKeyToHash (kv_world v) raw = Some h'"
    and "\<And>e s'. h' = h \<and> h \<noteq> [] \<longrightarrow> c = None \<Longrightarrow> ring.safe h i c Q (g (Inl e)) s'"
    and "\<And>k s'. h' = h \<and> h \<noteq> [] \<longrightarrow> c \<noteq> None \<Longrightarrow> ring.safe h i c Q (g (Inr k)) s'"
  shows "ring.safe h i c Q (bindT (Validate v raw) g) s"
proof -
  have bound: "a < length (ks_entries s')" if "keys_inv h i c s'" "map_of (ks_byHash s') h' = Some a" for s' :: "'l keysite" and a
    using that by (auto simp: keys_ok_def cache_ok_def dest!: map_of_SomeD)
  have at_h: "map_of (ks_byHash s') h = c" if "keys_inv h i c s'" "h \<noteq> []" for s' :: "'l keysite"
    using that by (simp add: pinned_def)
  show ?thesis
    unfolding Validate_def andThen_def assms(1) option.case bindT_assoc
  proof (rule keep_look)
    fix s' :: "'l keysite" assume s': "keys_inv h i c s'"
    show "ring.safe h i c Q (bindT (case Inr (map_option (\<lambda>a. (a, ks_entries s' ! a)) (map_of (ks_byHash s') h')) of Inl e \<Rightarrow> fail e
      | Inr found \<Rightarrow> (case found of None \<Rightarrow> fail (Key ErrKeyNotFound)
        | Some (a, entry) \<Rightarrow> bindT (scheduleTouch a) (\<lambda>r. case r of Inl e \<Rightarrow> fail e | Inr x \<Rightarrow> ret
             \<lparr>ky_CreatedAt = 0, ky_LastUsedAt = None, ky_RevokedAt = None, ky_Name = ck_name entry,
              ky_RateTier = ck_tier entry, ky_KeyHash = [], ky_ID = ck_id entry\<rparr>))) g) s'"
    proof (cases "map_of (ks_byHash s') h'")
      case None
      with at_h [OF s'] have "h' = h \<and> h \<noteq> [] \<longrightarrow> c = None" by auto
      from assms(2) [OF this] None show ?thesis by (simp add: fail_def)
    next
      case (Some a)
      with at_h [OF s'] have "h' = h \<and> h \<noteq> [] \<longrightarrow> c \<noteq> None" by auto
      from assms(3) [OF this] have "ring.safe h i c Q (g (Inr k)) u" for k u by blast
      then show ?thesis using Some bound [OF s' Some]
        by (simp add: bindT_assoc) (rule keep_scheduleTouch, auto simp: ret_def)
    qed
  qed
qed

section \<open>Generated and revoked\<close>

lemma put_inv:
  assumes inv: "keys_inv h i c s" and k: "k \<in> set (cp_api_keys (ks_db s))" "ky_KeyHash k = h'" "ky_ID k = ck_id e" and "h' \<noteq> h"
  shows "keys_inv h i c (put_key h' e s) \<and> keys_go s (put_key h' e s)"
proof -
  define s' where "s' = put_key h' e s"
  note s'_def = s'_def [unfolded put_key_def]
  let ?n = "length (ks_entries s)"
  have "map_of (filter (\<lambda>x. fst x \<noteq> h') m) h = map_of m h" for m :: "(string \<times> nat) list"
    using assms(5) by (induction m) auto
  then have "pinned h i c s'" using inv assms(5) by (simp add: pinned_def s'_def)
  moreover have "distinct (map fst (filter (\<lambda>x. fst x \<noteq> h') (ks_byHash s)))"
    using inv distinct_map_filter by (auto simp: keys_ok_def cache_ok_def)
  then have "cache_ok s'"
    using inv k unfolding keys_ok_def cache_ok_def s'_def by (auto simp: nth_append)
  moreover have "uses_of e' s' = uses_of e' s" for e' by (simp add: uses_of_def s'_def)
  moreover have "uses_of ?n s = []" using inv by (auto simp: keys_ok_def touches_ok_def uses_of_def filter_empty_conv)
  ultimately have "keys_inv h i c s' \<and> keys_go s s'"
    using inv by (auto simp: keys_ok_def touches_ok_def nth_append less_Suc_eq keys_go_def s'_def)
  then show ?thesis by (simp add: s'_def put_key_def)
qed

lemma drop_first_subset: "set (drop_first p xs) \<subseteq> set xs" "distinct (map fst xs) \<Longrightarrow> distinct (map fst (drop_first p xs))"
  by (induction xs) auto

text \<open>A key that is dropped is one whose number is its row's: another's stays.\<close>

lemma map_of_drop_first: "distinct (map fst xs) \<Longrightarrow> (\<And>a. map_of xs h = Some a \<Longrightarrow> \<not> p (h, a)) \<Longrightarrow> map_of (drop_first p xs) h = map_of xs h"
proof (induction xs)
  case (Cons x xs)
  then show ?case by (cases x) (auto simp: map_of_eq_None_iff)
qed simp

lemma drop_inv:
  assumes inv: "keys_inv h i c s" and other: "h = [] \<or> c = None \<or> j \<noteq> i"
  shows "keys_inv h i c (drop_key j s) \<and> keys_go s (drop_key j s)"
proof -
  define s' where "s' = drop_key j s"
  note s'_def = s'_def [unfolded drop_key_def]
  have d: "distinct (map fst (ks_byHash s))" and u: "uniq ky_KeyHash (cp_api_keys (ks_db s))"
    using inv by (auto simp: keys_ok_def cache_ok_def key_rows_ok_def)
  have "map_of (ks_byHash s') h = c" if "h \<noteq> []"
  proof -
    have "ck_id (ks_entries s ! a) = i" if a: "map_of (ks_byHash s) h = Some a" for a
    proof -
      obtain k where k: "k \<in> set (cp_api_keys (ks_db s))" "ky_KeyHash k = h" "ky_ID k = ck_id (ks_entries s ! a)"
        using inv map_of_SomeD [OF a] by (fastforce simp: keys_ok_def cache_ok_def)
      obtain k' where "k' \<in> set (cp_api_keys (ks_db s))" "ky_KeyHash k' = h" "ky_ID k' = i"
        using inv \<open>h \<noteq> []\<close> by (auto simp: pinned_def)
      with find_key_uniq [OF u this(1)] find_key_uniq [OF u k(1)] k show ?thesis by simp
    qed
    moreover have "map_of (ks_byHash s) h = c" using inv that by (simp add: pinned_def)
    ultimately show ?thesis unfolding s'_def using that other map_of_drop_first [OF d, of h] by auto
  qed
  then have "pinned h i c s'" using inv by (simp add: pinned_def s'_def)
  moreover have "cache_ok s'"
    using inv drop_first_subset(1) drop_first_subset(2) [OF d] unfolding keys_ok_def cache_ok_def s'_def by fastforce
  ultimately have "keys_inv h i c s' \<and> keys_go s s'" using inv by (simp add: keys_ok_def touches_ok_def uses_of_def keys_go_def s'_def)
  then show ?thesis by (simp add: s'_def drop_key_def)
qed

end
