(* ===== verification/Api_Key_Requests.thy ===== *)
theory Api_Key_Requests
  imports Api_Key_Safety
begin

text \<open>Every request, in any interleaving with the others, keeps a pinned key as it is, and answers its uses accordingly.\<close>

section \<open>The pages of the staff\<close>

lemma keep_keys_page: "(\<And>r. Q r) \<Longrightarrow> ring.safe h i c Q (keys_page v fe revealed) s"
  unfolding keys_page_def keys_List_def by (rule keep_on_keys [OF rows_keep_reads(1)]) simp

text \<open>A key that is created has a hash that no row had, so it is not the pinned one.\<close>

lemma keep_put_key:
  assumes "k \<in> set (cp_api_keys (ks_db s))" "ky_KeyHash k = h'" "h' \<noteq> h" and "\<And>r s'. ring.safe h i c Q (g r) s'"
  shows "ring.safe h i c Q (bindT (change (put_key h' (cached k))) g) s"
proof (rule keep_change)
  fix s' assume s': "keys_go s s'" "keys_inv h i c s'"
  obtain k' where "k' \<in> set (cp_api_keys (ks_db s'))" "ky_KeyHash k' = h'" "ky_ID k' = ck_id (cached k)"
    using s'(1) assms(1,2) by (fastforce simp: keys_go_def rows_go_def cached_def)
  from put_inv [OF s'(2) this assms(3)] assms(4)
  show "keys_inv h i c (put_key h' (cached k) s') \<and> keys_go s' (put_key h' (cached k) s') \<and> ring.safe h i c Q (g (Inr ())) (put_key h' (cached k) s')"
    by simp
qed

lemma keep_create:
  fixes s :: "'l keysite"
  assumes "\<And>k s'. k \<in> set (cp_api_keys (ks_db s')) \<Longrightarrow> ky_KeyHash k = h' \<Longrightarrow> h' \<noteq> h \<Longrightarrow> ring.safe h i c Q (g (Inr k)) s'"
    and "\<And>e s'. ring.safe h i c Q (g (Inl e)) s'"
  shows "ring.safe h i c Q (bindT (on_keys (key_Create h' name t)) g) s"
proof (rule keep_on_keys [OF rows_keep_Create])
  fix s' :: "'l keysite" and fs r c'
  assume "keys_inv h i c s'" and run: "key_Create h' name t \<lparr>data = ks_db s', faults = fs\<rparr> = (r, c')"
  then show "ring.safe h i c Q (g r) (s'\<lparr>ks_db := data c'\<rparr>)"
  proof (cases r)
    case (Inr k)
    from Create_says [OF run [unfolded Inr]] have k: "k \<in> set (cp_api_keys (data c'))" "ky_KeyHash k = h'" "h' \<notin> ky_KeyHash ` set (cp_api_keys (ks_db s'))" "h' \<noteq> []"
      by simp_all
    have "h \<noteq> [] \<longrightarrow> h \<in> ky_KeyHash ` set (cp_api_keys (ks_db s'))"
      using \<open>keys_inv h i c s'\<close> by (auto simp: pinned_def)
    with k(3,4) have "h' \<noteq> h" by metis
    with assms(1) k Inr show ?thesis by simp
  qed (simp add: assms(2))
qed

lemma keep_Generate:
  fixes s :: "'l keysite"
  assumes "\<And>r s'. ring.safe h i c Q (g r) s'"
  shows "ring.safe h i c Q (bindT (Generate v name0 tier) g) s"
  unfolding Generate_def Let_def andThen_def
proof (split if_split, intro conjI impI)
  show "ring.safe h i c Q (bindT (fail e) g) s" for e by (simp add: fail_def assms)
next
  have put: "ring.safe h i c Q (bindT (bindT (change (put_key h' (cached k))) (\<lambda>r. case r of Inl e \<Rightarrow> fail e | Inr _ \<Rightarrow> ret (x, k))) g) u"
    if "k \<in> set (cp_api_keys (ks_db u))" "ky_KeyHash k = h'" "h' \<noteq> h" for k h' x and u :: "'l keysite"
    unfolding bindT_assoc by (rule keep_put_key [OF that]) (simp add: assms fail_def ret_def split: sum.split)
  show "ring.safe h i c Q (bindT (bindT (Step (\<lambda>_ s. s\<lparr>ks_drawn := ks_drawn s + 1\<rparr>) (\<lambda>_ s. ret (wo_random (kv_world v) (ks_drawn s))))
     (\<lambda>r. case r of Inl e \<Rightarrow> fail e | Inr raw \<Rightarrow>
        bindT (on_keys (key_Create (wo_sha256 (kv_world v) raw) (TrimSpace name0) tier)) (\<lambda>r. case r of Inl e \<Rightarrow> fail e | Inr key \<Rightarrow>
           bindT (change (put_key (wo_sha256 (kv_world v) raw) (cached key))) (\<lambda>r. case r of Inl e \<Rightarrow> fail e | Inr _ \<Rightarrow> ret (base64url raw, key))))) g) s"
    unfolding bindT.simps
  proof (rule keep_aside)
    show "same_keys u (u\<lparr>ks_drawn := ks_drawn u + 1\<rparr>)" for u :: "'l keysite" by (simp add: same_keys_def)
    show "ring.safe h i c Q (bindT (bindT (ret (wo_random (kv_world v) (ks_drawn s'))) (\<lambda>r. case r of Inl e \<Rightarrow> fail e | Inr raw \<Rightarrow>
        bindT (on_keys (key_Create (wo_sha256 (kv_world v) raw) (TrimSpace name0) tier)) (\<lambda>r. case r of Inl e \<Rightarrow> fail e | Inr key \<Rightarrow>
           bindT (change (put_key (wo_sha256 (kv_world v) raw) (cached key))) (\<lambda>r. case r of Inl e \<Rightarrow> fail e | Inr _ \<Rightarrow> ret (base64url raw, key))))) g) u"
      for s' u :: "'l keysite"
      unfolding ret_def bindT.simps sum.case unfolding bindT_assoc [of "on_keys m" for m] ret_def [symmetric]
      by (rule keep_create, unfold sum.case, rule put) (simp_all add: fail_def assms)
  qed
qed

lemma keep_keys_create: "(\<And>r. Q r) \<Longrightarrow> ring.safe h i c Q (keys_create v b name tier) s"
  unfolding keys_create_def
proof (split if_split, intro conjI impI keep_Generate)
  fix r s' assume "\<And>r. Q r"
  then show "ring.safe h i c Q (case r of Inl (Key_fields fe) \<Rightarrow> keys_page v fe None
        | Inl _ \<Rightarrow> ret (Key_status 500) | Inr (raw, _) \<Rightarrow> keys_page v [] (Some raw)) s'"
    by (auto simp: keep_keys_page split: sum.split key_failure.split)
qed simp

text \<open>While the pinned key is in the map its row is revoked: nothing revokes it any more.\<close>

lemma keep_Revoke:
  fixes s :: "'l keysite"
  assumes "\<And>r s'. ring.safe h i c Q (g r) s'"
  shows "ring.safe h i c Q (bindT (Revoke j) g) s"
  unfolding Revoke_def andThen_def bindT_assoc
proof (rule keep_on_keys [OF rows_keep_writes(1)])
  fix s' :: "'l keysite" and fs r c'
  assume s': "keys_inv h i c s'" and run: "key_Revoke j \<lparr>data = ks_db s', faults = fs\<rparr> = (r, c')"
  have "h = [] \<or> c = None \<or> j \<noteq> i" if ended: "r = Inr ()"
  proof (cases "h = []")
    case False
    obtain k where k: "k \<in> set (cp_api_keys (ks_db s'))" "ky_ID k = j" "\<not> IsRevoked k"
      using Revoke_says [OF run [unfolded ended]] by auto
    obtain k' where k': "k' \<in> set (cp_api_keys (ks_db s'))" "ky_ID k' = i" "c \<noteq> None \<longrightarrow> IsRevoked k'" using s' False by (auto simp: pinned_def)
    have "uniq ky_ID (cp_api_keys (ks_db s'))" using s' by (simp add: keys_ok_def key_rows_ok_def)
    with find_key_uniq [OF this k(1)] find_key_uniq [OF this k'(1)] have "ky_ID k = ky_ID k' \<longrightarrow> k = k'" by (metis option.inject)
    with k(2,3) k'(2,3) show ?thesis by metis
  qed simp
  then show "ring.safe h i c Q (bindT (case r of Inl e \<Rightarrow> fail e | Inr _ \<Rightarrow> change (drop_key j)) g) (s'\<lparr>ks_db := data c'\<rparr>)"
  proof (cases r)
    case (Inr x)
    with \<open>r = Inr () \<Longrightarrow> h = [] \<or> c = None \<or> j \<noteq> i\<close> have other: "h = [] \<or> c = None \<or> j \<noteq> i" by simp
    show ?thesis unfolding Inr sum.case
      by (rule keep_change) (use drop_inv other assms in blast)
  qed (simp add: fail_def assms)
qed

lemma keep_keys_revoke:
  assumes "\<And>r. Q r"
  shows "ring.safe h i c Q (keys_revoke v rawID) s"
proof (cases "ParseInt rawID")
  case None
  then show ?thesis by (simp add: keys_revoke_def assms)
next
  case (Some j)
  have "ring.safe h i c Q (bindT (Revoke j) (\<lambda>r. if r = Inr () \<or> r = Inl (Key ErrKeyNotFound) then keys_page v [] None else ret (Key_status 500))) s"
    by (rule keep_Revoke) (simp add: keep_keys_page assms)
  with Some show ?thesis by (simp add: keys_revoke_def assms)
qed

section \<open>Uses\<close>

text \<open>The key that a use presents has the hash.\<close>

definition presents :: "world \<Rightarrow> string \<Rightarrow> request \<Rightarrow> bool" where
  "presents w h r \<longleftrightarrow> (case bearerToken w r of None \<Rightarrow> False | Some raw \<Rightarrow> decodeKeyToHash w raw = Some h)"

text \<open>Not in the map: turned away. In the map: let in, as its limiter allows.\<close>

definition key_answer :: "key_service \<Rightarrow> string \<Rightarrow> nat option \<Rightarrow> key_request \<Rightarrow> key_failure + key_shown \<Rightarrow> bool" where
  "key_answer v h c q res \<longleftrightarrow> (case q of
     Use_key t r \<Rightarrow> presents (kv_world v) h r \<and> h \<noteq> [] \<longrightarrow>
       (\<exists>d. res = Inr (Limited d)) \<or> res = Inr (if c = None then Invalid_key else Served)
   | _ \<Rightarrow> True)"

lemma keep_let_in:
  fixes s :: "'l keysite"
  assumes "Q (Inr Served)" and "\<And>d. Q (Inr (Limited d))"
  shows "ring.safe h i c Q (andThen (look has) (\<lambda>x. andThen (ask_limiter P t (tier x) key) (\<lambda>delay.
    ret (case delay of None \<Rightarrow> Served | Some d \<Rightarrow> Limited (retryAfterSeconds d))))) s"
  unfolding andThen_def
  by (rule keep_look, unfold sum.case, rule keep_ask_limiter) (simp add: assms split: option.split)

lemma keep_APIKeyGate: "ring.safe h i c (key_answer v h c (Use_key t r)) (APIKeyGate P v t r) s"
proof (cases "bearerToken (kv_world v) r")
  case None
  then show ?thesis unfolding APIKeyGate_def by (simp add: key_answer_def presents_def keep_rejectInvalid)
next
  case (Some raw)
  have reject: "ring.safe h i c (key_answer v h c (Use_key t r)) (rejectInvalid P t r) u" if "presents (kv_world v) h r \<and> h \<noteq> [] \<longrightarrow> c = None" for u
    using that by (intro keep_rejectInvalid) (auto simp: key_answer_def)
  have let_in: "ring.safe h i c (key_answer v h c (Use_key t r)) (andThen (look has) (\<lambda>x. andThen (ask_limiter P t (tier x) key) (\<lambda>delay.
    ret (case delay of None \<Rightarrow> Served | Some d \<Rightarrow> Limited (retryAfterSeconds d))))) u"
    if "presents (kv_world v) h r \<and> h \<noteq> [] \<longrightarrow> c \<noteq> None" for u has tier key
    using that by (intro keep_let_in) (auto simp: key_answer_def)
  show ?thesis
  proof (cases "decodeKeyToHash (kv_world v) raw")
    case None
    then have "\<not> presents (kv_world v) h r" using Some by (simp add: presents_def)
    with None Some reject show ?thesis by (simp add: APIKeyGate_def Validate_def fail_def)
  next
    case (Some h')
    with \<open>bearerToken (kv_world v) r = Some raw\<close> have p: "presents (kv_world v) h r \<longleftrightarrow> h' = h" by (simp add: presents_def)
    show ?thesis
      unfolding APIKeyGate_def \<open>bearerToken (kv_world v) r = Some raw\<close> option.case
      by (rule keep_Validate [OF Some], unfold sum.case) (rule reject let_in, simp add: p)+
  qed
qed

lemma begin_inv: "keys_inv h i c s \<Longrightarrow> keys_inv h i c (begin_touch n s) \<and> keys_go s (begin_touch n s)"
proof (cases "touch_waits n s")
  case True
  define s' where "s' = begin_touch n s"
  assume inv: "keys_inv h i c s"
  have "map (\<lambda>t. (to_entry t, to_at t)) (ks_touches s') = map (\<lambda>t. (to_entry t, to_at t)) (ks_touches s)"
    using True by (simp add: s'_def begin_touch_def touch_waits_def map_update list_update_same_conv)
  then have same: "uses_of e s' = uses_of e s" "to_entry ` set (ks_touches s') = to_entry ` set (ks_touches s)" for e
  proof -
    have uses: "map to_at (filter (\<lambda>t. to_entry t = e) ts) = map snd (filter (\<lambda>x. fst x = e) (map (\<lambda>t. (to_entry t, to_at t)) ts))" for ts
      by (induction ts) auto
    have ent: "to_entry ` set ts = fst ` set (map (\<lambda>t. (to_entry t, to_at t)) ts)" for ts by force
    show "uses_of e s' = uses_of e s" "to_entry ` set (ks_touches s') = to_entry ` set (ks_touches s)"
      unfolding uses_of_def uses ent by (simp_all add: \<open>map _ (ks_touches s') = _\<close>)
  qed
  moreover have "ks_db s' = ks_db s" "ks_entries s' = ks_entries s" "ks_byHash s' = ks_byHash s"
    by (simp_all add: s'_def begin_touch_def)
  moreover have "to_entry t < length (ks_entries s)" if "t \<in> set (ks_touches s')" for t
  proof -
    from imageI [OF that, of to_entry] same(2) have "to_entry t \<in> to_entry ` set (ks_touches s)" by simp
    with inv show ?thesis by (auto simp: keys_ok_def touches_ok_def)
  qed
  ultimately have "keys_inv h i c s' \<and> keys_go s s'"
    using inv by (simp add: keys_ok_def cache_ok_def touches_ok_def pinned_def keys_go_def)
  then show ?thesis by (simp add: s'_def)
qed (simp add: begin_touch_def)

lemma keep_run_touch:
  fixes s :: "'l keysite"
  assumes "\<And>r. Q r"
  shows "ring.safe h i c Q (andThen (run_touch n) (\<lambda>_. ret x)) s"
proof -
  have rest: "ring.safe h i c (\<lambda>_. True) (case found of None \<Rightarrow> ret () | Some t \<Rightarrow> bindT (on_keys (TouchLastUsed (to_id t) (to_at t))) (\<lambda>_. ret ())) u" for found and u :: "'l keysite"
    by (cases found) (auto intro!: keep_on_keys rows_keep_writes)
  have "ring.safe h i c (\<lambda>_. True) (run_touch n) s"
    unfolding run_touch_def andThen_def ret_def bindT.simps sum.case
    unfolding ring.safe.simps using rest [unfolded ret_def] begin_inv by blast
  then show ?thesis by (rule ring.safe_andThen) (simp_all add: assms)
qed

theorem keep_handle_key: "ring.safe h i c (key_answer v h c q) (handle_key P v q) s"
proof (cases q)
  case (Use_key t r)
  then show ?thesis by (simp add: keep_APIKeyGate)
next
  case (Key_touch n)
  then show ?thesis by (simp add: key_answer_def keep_run_touch)
qed (auto simp: key_answer_def intro: keep_keys_page keep_keys_create keep_keys_revoke)

text \<open>As time goes by, and whatever is requested meanwhile.\<close>

lemma elapse_keeps: "keys_inv h i c s \<Longrightarrow> keys_inv h i c (keys_pass n s) \<and> keys_go s (keys_pass n s)"
  unfolding keys_pass_def by (rule inv_rows) (auto simp: keys_ok_def key_rows_ok_def rows_go_def)

lemma run_keys_safe:
  assumes "keys_inv h i c s" and "run_keys P v xs s = (s', ts)"
  shows "keys_inv h i c s' \<and> ring.all_safe h i c (key_answer v h c) (arrivals xs) ts s'"
  using ring.run_panel_safe [where Q = "key_answer v h c" and elapse = keys_pass and handle = "handle_key P v", OF elapse_keeps keep_handle_key assms(1)]
    assms(2) unfolding run_keys_def by blast

text \<open>Nothing followed: the keys stay right.\<close>

lemma keys_stay_ok: "keys_ok s \<Longrightarrow> run_keys P v xs s = (s', ts) \<Longrightarrow> keys_ok s'"
  using run_keys_safe [where h = "[]" and i = 0 and c = None and s = s and P = P and v = v and xs = xs] by (simp add: pinned_def)

section \<open>Before the run\<close>

text \<open>A service that has just read the keys.\<close>

lemma Warm_ok:
  assumes "key_rows_ok (ks_db s)" and "ks_entries s = []" and "ks_touches s = []"
  shows "\<exists>s'. alone Warm s = Some (Inr (), s') \<and> keys_ok s' \<and> ks_db s' = ks_db s"
proof -
  define keys where "keys = newest_keys (filter (\<lambda>k. ky_RevokedAt k = None) (cp_api_keys (ks_db s)))"
  define m where "m = zip (map ky_KeyHash keys) [0 ..< length keys]"
  define s' where "s' = s\<lparr>ks_entries := map cached keys, ks_byHash := rev m\<rparr>"
  have run: "alone Warm s = Some (Inr (), s')"
    using assms by (simp add: Warm_def alone_andThen on_keys_def alone_atomic LoadActive_def query_def sql_def next_fault_def
        pop_fault_def keys_def m_def s'_def)
  have sub: "set keys \<subseteq> set (cp_api_keys (ks_db s))" by (auto simp: keys_def newest_keys_def)
  have "uniq ky_KeyHash (filter (\<lambda>k. ky_RevokedAt k = None) (cp_api_keys (ks_db s)))"
    using assms(1) by (simp add: key_rows_ok_def uniq_def distinct_map_filter)
  then have "distinct (map ky_KeyHash keys)"
    unfolding keys_def newest_keys_def uniq_def distinct_map by (simp add: set_sort)
  then have "distinct (map fst (ks_byHash s'))" by (simp add: s'_def m_def rev_map [symmetric])
  moreover have "a < length (ks_entries s') \<and> (\<exists>k \<in> set (cp_api_keys (ks_db s')). ky_KeyHash k = h \<and> ky_ID k = ck_id (ks_entries s' ! a))"
    if "(h, a) \<in> set (ks_byHash s')" for h a
    using that sub by (auto simp: s'_def m_def in_set_zip cached_def intro!: bexI [of _ "keys ! a"])
  ultimately have "cache_ok s'" by (auto simp: cache_ok_def)
  then have "keys_ok s'" using assms by (simp add: keys_ok_def touches_ok_def uses_of_def s'_def)
  with run show ?thesis by (auto simp: s'_def)
qed

text \<open>A revocation that was answered took the key from the map.\<close>

lemma drop_first_one:
  "(\<And>x. x \<in> set xs \<Longrightarrow> p x \<Longrightarrow> fst x = h) \<Longrightarrow> distinct (map fst xs) \<Longrightarrow> (\<And>a. (h, a) \<in> set xs \<Longrightarrow> p (h, a)) \<Longrightarrow>
   map_of (drop_first p xs) h = None"
proof (induction xs)
  case (Cons x xs)
  show ?case
  proof (cases "p x")
    case True
    with Cons.prems(1) [of x] Cons.prems(2) show ?thesis by (auto simp: map_of_eq_None_iff)
  next
    case False
    with Cons.prems(3) [of "snd x"] have "fst x \<noteq> h" by (cases x) auto
    with False Cons.IH Cons.prems show ?thesis by (auto simp: map_of_eq_None_iff)
  qed
qed simp

lemma entries_of_key:
  assumes "keys_ok s" and "k \<in> set (cp_api_keys (ks_db s))" and "(h, a) \<in> set (ks_byHash s)"
  shows "ck_id (ks_entries s ! a) = ky_ID k \<longleftrightarrow> h = ky_KeyHash k"
proof -
  obtain k' where k': "k' \<in> set (cp_api_keys (ks_db s))" "ky_KeyHash k' = h" "ky_ID k' = ck_id (ks_entries s ! a)"
    using assms(1,3) by (fastforce simp: keys_ok_def cache_ok_def)
  have u: "uniq ky_KeyHash (cp_api_keys (ks_db s))" "uniq ky_ID (cp_api_keys (ks_db s))" using assms(1) by (auto simp: keys_ok_def key_rows_ok_def)
  have "ky_ID k' = ky_ID k \<longrightarrow> k' = k" "ky_KeyHash k' = ky_KeyHash k \<longrightarrow> k' = k"
    using find_key_uniq [OF u(2)] find_key_uniq [OF u(1)] k'(1) assms(2) by (metis option.inject)+
  with k'(2,3) show ?thesis by auto
qed

lemma alone_Revoke:
  assumes "keys_ok s" and "k \<in> set (cp_api_keys (ks_db s))" and "ky_KeyHash k \<noteq> []" and "alone (Revoke (ky_ID k)) s = Some (Inr (), s')"
  shows "keys_inv (ky_KeyHash k) (ky_ID k) None s'"
proof -
  obtain c where c: "key_Revoke (ky_ID k) \<lparr>data = ks_db s, faults = []\<rparr> = (Inr (), c)" "s' = drop_key (ky_ID k) (s\<lparr>ks_db := data c\<rparr>)"
    using assms(4) by (auto simp: Revoke_def alone_andThen on_keys_def alone_atomic split: prod.splits sum.splits)
  let ?s1 = "s\<lparr>ks_db := data c\<rparr>"
  have "key_rows_ok (data c)" "rows_go (ks_db s) (data c)"
    using rows_keep_writes(1) c(1) assms(1) by (force simp: rows_keep_def keys_ok_def)+
  with inv_rows [where h = "[]" and i = 0 and c = None] assms(1) have ok1: "keys_ok ?s1" by (auto simp: pinned_def)
  obtain k1 where k1: "k1 \<in> set (cp_api_keys (ks_db ?s1))" "ky_KeyHash k1 = ky_KeyHash k" "ky_ID k1 = ky_ID k"
    using \<open>rows_go (ks_db s) (data c)\<close> assms(2) by (auto simp: rows_go_def)
  have "map_of (ks_byHash s') (ky_KeyHash k) = None"
    unfolding c(2) drop_key_def using entries_of_key [OF ok1 k1(1)] k1 ok1
    by (auto simp: keys_ok_def cache_ok_def intro!: drop_first_one)
  moreover have "keys_ok s'" using drop_inv [where h = "[]" and i = 0 and c = None and s = ?s1] ok1 c(2) by (simp add: pinned_def)
  moreover have "cp_api_keys (ks_db s') = cp_api_keys (ks_db ?s1)" by (simp add: c(2) drop_key_def)
  ultimately show ?thesis using k1 assms(3) by (auto simp: pinned_def)
qed

text \<open>One whose reply was lost: the row is revoked, the map as it was, and the request over.\<close>

lemma lost_Revoke:
  assumes "keys_ok s" and "k \<in> set (cp_api_keys (ks_db s))" and "map_of (ks_byHash s) (ky_KeyHash k) = Some a"
    and "ParseInt n = Some (ky_ID k)" and "0 < ky_ID k" and "ky_RevokedAt k = None"
  shows "\<exists>s1. run_keys P v [Arrive (Keys_revoke n), Advance 0 [Lost_after]] s = (s1, [Ended (Inr (Key_status 500))]) \<and>
    keys_inv (ky_KeyHash k) (ky_ID k) (Some a) s1"
proof -
  let ?f = "\<lambda>r. r\<lparr>ky_RevokedAt := Some (key_now (ks_db s))\<rparr>" and ?p = "\<lambda>r. ky_ID r = ky_ID k \<and> ky_RevokedAt r = None"
  define s1 where "s1 = s\<lparr>ks_db := (ks_db s)\<lparr>cp_api_keys := upd_where ?p ?f (cp_api_keys (ks_db s))\<rparr>\<rparr>"
  have "keys_inv [] 0 None s" using assms(1) by (simp add: pinned_def)
  from inv_rows [OF this rows_upd [THEN conjunct1] rows_upd [THEN conjunct2]] assms(1)
  have ok: "keys_ok s1" by (auto simp: s1_def keys_ok_def IsRevoked_def)
  have "?f k \<in> set (cp_api_keys (ks_db s1))" using assms(2,6) by (auto simp: s1_def set_upd_where)
  then have "pinned (ky_KeyHash k) (ky_ID k) (Some a) s1"
    using assms(3) by (auto simp: pinned_def s1_def IsRevoked_def intro!: bexI [of _ "?f k"])
  moreover have "run_keys P v [Arrive (Keys_revoke n), Advance 0 [Lost_after]] s = (s1, [Ended (Inr (Key_status 500))])"
    using assms(4,5)
    by (simp add: run_keys_def run_panel_def run_move_def keys_revoke_def Revoke_def andThen_def on_keys_def atomic_def key_Revoke_def
        bindE_def sql_def next_fault_def pop_fault_def fail_def ret_def s1_def)
  ultimately show ?thesis using ok by blast
qed

text \<open>Whatever follows, it is let in.\<close>

lemma lost_Revoke_stays:
  assumes "keys_ok s" and "k \<in> set (cp_api_keys (ks_db s))" and "ky_KeyHash k \<noteq> ''''" and "map_of (ks_byHash s) (ky_KeyHash k) = Some a"
    and "ParseInt n = Some (ky_ID k)" and "0 < ky_ID k" and "ky_RevokedAt k = None"
    and "run_keys P v ([Arrive (Keys_revoke n), Advance 0 [Lost_after]] @ xs) s = (s', ts)"
  shows "(\<exists>k' \<in> set (cp_api_keys (ks_db s')). ky_ID k' = ky_ID k \<and> IsRevoked k') \<and>
    (\<forall>j t req r. arrivals xs ! j = Use_key t req \<and> presents (kv_world v) (ky_KeyHash k) req \<and> Suc j < length ts \<and> ts ! Suc j = Ended r \<longrightarrow>
       r = Inr Served \<or> (\<exists>seconds. r = Inr (Limited seconds)))"
proof -
  let ?h = "ky_KeyHash k" and ?i = "ky_ID k" and ?c = "Some a" and ?q = "Keys_revoke n" and ?lost = "Ended (Inr (Key_status 500))"
  obtain s1 where s1: "run_keys P v [Arrive ?q, Advance 0 [Lost_after]] s = (s1, [?lost])" "keys_inv ?h ?i ?c s1"
    using lost_Revoke [OF assms(1,2,4-7)] by blast
  have "ring.all_safe ?h ?i ?c (key_answer v ?h ?c) [?q] [?lost] s1"
    by (simp add: ring.all_safe_def key_answer_def)
  moreover have "run_panel keys_pass (handle_key P v) xs (s1, [?lost]) = (s', ts)"
    using s1(1) assms(8) by (simp add: run_keys_def run_panel_def)
  ultimately have end_: "keys_inv ?h ?i ?c s' \<and> ring.all_safe ?h ?i ?c (key_answer v ?h ?c) ([?q] @ arrivals xs) ts s'"
    using ring.run_moves_safe [where Q = "key_answer v ?h ?c" and elapse = keys_pass and handle = "handle_key P v", OF elapse_keeps keep_handle_key s1(2)]
    by blast
  have "r = Inr Served \<or> (\<exists>seconds. r = Inr (Limited seconds))"
    if "arrivals xs ! j = Use_key t req" "presents (kv_world v) ?h req" "Suc j < length ts" "ts ! Suc j = Ended r" for j t req r
    using ring.ended_answer [OF end_ [THEN conjunct2] that(3,4)] that(1,2) assms(3) by (auto simp: key_answer_def)
  moreover have "\<exists>k' \<in> set (cp_api_keys (ks_db s')). ky_ID k' = ?i \<and> IsRevoked k'"
    using end_ assms(3) by (auto simp: pinned_def)
  ultimately show ?thesis by blast
qed

end
