(* ===== verification/Api_Key_Claims.thy ===== *)
theory Api_Key_Claims
  imports Api_Key_Requests Account_Example
begin

text \<open>
  The properties of the API keys, tried on a panel with one tier, one key and limiters that
  never refuse.
\<close>

section \<open>A panel with one key\<close>

definition free_rate :: "(unit, unit) rate_pkg" where
  "free_rate = \<lparr>NewLimiter = (\<lambda>_ _. ()), Reserve = (\<lambda>_ _. ((), ())), Delay = (\<lambda>_ _. 0), Cancel = (\<lambda>_ _ l. l)\<rparr>"

definition free_limiter :: "unit rate_limiter" where
  "free_limiter = \<lparr>rl_keyFn = None, rl_buckets = Mapping.empty, rl_head = None, rl_tail = None, rl_trusted = [], rl_limit = 60, rl_burst = 1,
     rl_mem = Map.empty, rl_fresh = 0\<rparr>"

definition small_key :: api_key where
  "small_key = \<lparr>ky_CreatedAt = 0, ky_LastUsedAt = None, ky_RevokedAt = None, ky_Name = ''feed'', ky_RateTier = ''Standard'',
     ky_KeyHash = small_hash (CHR 0x41), ky_ID = 1\<rparr>"

definition small_keys :: key_service where
  "small_keys = \<lparr>kv_world = small_world, kv_tiers = NewTierSet [\<lparr>kt_Name = ''Standard'', kt_RatePerMinute = 60, kt_Burst = 1\<rparr>]\<rparr>"

definition key_site :: "unit keysite" where
  "key_site = \<lparr>ks_db = \<lparr>cp_api_keys = [small_key], key_seq = 1, key_now = seconds 1000\<rparr>, ks_entries = [], ks_byHash = [], ks_touches = [], ks_drawn = 0,
     ks_limiters = [(''Standard'', free_limiter)], ks_invalid = free_limiter\<rparr>"

definition small_use :: request where
  "small_use = \<lparr>rq_Method = ''GET'', rq_Path = ''/api'', rq_Query = '''', rq_Host = ''x'', rq_RemoteAddr = ''1.2.3.4:5'',
     rq_Header = [(''Authorization'', ''Bearer '' @ base64url (small_hash (CHR 0x41)))], rq_Cookies = [], rq_Body = ''''\<rparr>"

definition some_reads :: reads where "some_reads = \<lparr>rd_bucket = 0, rd_reserve = 0, rd_delay = 0, rd_cancel = 0\<rparr>"

lemma free_allows: "fst (Allow free_rate t key rl) = None"
  by (simp add: Allow_def reserve_on_def free_rate_def split: prod.split)

text \<open>What is sent after \<open>Bearer\<close> is the key.\<close>

lemma sextet_visible: "33 \<le> byte (sextet n) \<and> byte (sextet n) < 128"
proof -
  have "list_all (\<lambda>c. 33 \<le> byte c \<and> byte c < 128) url_alphabet" by (simp add: url_alphabet_def byte_def)
  moreover have "n mod 64 < length url_alphabet" using alphabet_back(1) by (metis length_map length_upt diff_zero mod_less_divisor zero_less_numeral)
  ultimately show ?thesis by (simp add: sextet_def list_all_length)
qed

lemma bearer_of:
  assumes "map_of (rq_Header r) ''Authorization'' = Some (''Bearer '' @ base64url raw)" and "length raw = 32"
  shows "bearerToken w r = Some (base64url raw)" "presents w (wo_sha256 w raw) r"
proof -
  have "list_all (\<lambda>c. byte c < 128) (base64url raw)" using sextet_visible by (auto simp: list_all_iff dest!: base64url_chars)
  moreover have "33 \<le> byte c \<and> byte c < 128" if "c \<in> set (base64url raw)" for c
    using base64url_chars [OF that] sextet_visible by auto
  then have "list_all (\<lambda>c. \<not> IsSpace (byte c)) (base64url raw)" by (fastforce simp: list_all_iff IsSpace_def)
  ultimately have "TrimSpace (base64url raw) = base64url raw" by (rule ascii_text(3))
  moreover have "base64url raw \<noteq> []" using assms(2) by (cases raw rule: base64url.cases) (auto simp: Let_def)
  moreover have "EqualFold w ''Bearer '' ''Bearer ''" by (simp add: EqualFold_def ascii_def byte_def)
  ultimately show "bearerToken w r = Some (base64url raw)" using assms(1) by (simp add: bearerToken_def header_Get_def)
  then show "presents w (wo_sha256 w raw) r"
    using assms(2) by (simp add: presents_def decodeKeyToHash_def unbase64url_base64url)
qed

lemma small_raw_key: "unbase64url (base64url (small_hash c)) = Some (small_hash c)" "length (small_hash c) = 32"
  by (simp_all add: unbase64url_base64url small_hash_def)

lemma small_presents: "bearerToken small_world small_use = Some (base64url (small_hash (CHR 0x41)))" "presents small_world (small_hash (CHR 0x41)) small_use"
  using bearer_of [of small_use "small_hash (CHR 0x41)" small_world] small_raw_key(2) by (simp_all add: small_use_def)

text \<open>The key read from the database; revoked; and revoked with the reply lost.\<close>

definition warm_site :: "unit keysite" where
  "warm_site = key_site\<lparr>ks_entries := [cached small_key], ks_byHash := [(small_hash (CHR 0x41), 0)]\<rparr>"

lemma small_warm: "alone Warm key_site = Some (Inr (), warm_site)"
  by (simp add: Warm_def alone_andThen on_keys_def alone_atomic LoadActive_def query_def sql_def next_fault_def pop_fault_def
      key_site_def warm_site_def newest_keys_def small_key_def)

lemma small_ok_keys: "keys_ok warm_site"
  using Warm_ok [of key_site] small_warm by (simp add: key_site_def key_rows_ok_def uniq_def small_key_def)

text \<open>A key to be generated: its name and tier fit, and what is drawn for it is no hash that there is.\<close>

lemma small_new:
  "TrimSpace ''bot'' = ''bot''" "varchar 100 ''bot''" "varchar 64 ''Standard''" "CHR ''A'' # xs \<noteq> replicate 32 (char_of (0 :: nat))"
proof -
  show "TrimSpace ''bot'' = ''bot''" using ascii_text(3) [of "''bot''"] by (simp add: IsSpace_def byte_def)
  show "varchar 100 ''bot''" "varchar 64 ''Standard''"
    using ascii_text(1,2) [of "''bot''"] ascii_text(1,2) [of "''Standard''"] by (simp_all add: varchar_def storable_def byte_def)
  show "CHR ''A'' # xs \<noteq> replicate 32 (char_of (0 :: nat))" by (auto dest: arg_cong [where f = "\<lambda>s. of_char (hd s) :: nat"])
qed

section \<open>Revoked keys\<close>

text \<open>
  C34. A key that was revoked stays out. Once \<open>Revoke\<close> has returned, and nothing else was under
  way, no request that carries the key is served, whatever requests follow in whatever order their
  steps interleave, keys generated and revoked among them, and whatever the connections lose: each
  is answered that the key is not valid, or that too many such requests came.
\<close>

theorem revoked_key_stays_out:
  assumes "keys_ok s" and "k \<in> set (cp_api_keys (ks_db s))" and "ky_KeyHash k \<noteq> ''''" and "alone (Revoke (ky_ID k)) s = Some (Inr (), s1)"
    and "run_keys P v xs s1 = (s', ts)" and "j < length ts" and "ts ! j = Ended r"
    and "arrivals xs ! j = Use_key t req" and "presents (kv_world v) (ky_KeyHash k) req"
  shows "r = Inr Invalid_key \<or> (\<exists>seconds. r = Inr (Limited seconds))"
  using ring.ended_answer [OF run_keys_safe [OF alone_Revoke [OF assms(1-4)] assms(5), THEN conjunct2] assms(6,7)] assms(3,8,9)
  by (auto simp: key_answer_def)

theorem revoked_key_stays_out_witness:
  "\<exists>s1 s' r. alone (Revoke 1) warm_site = Some (Inr (), s1) \<and>
     run_keys free_rate small_keys [Arrive (Use_key some_reads small_use), Advance 0 [], Advance 0 []] s1 = (s', [Ended r]) \<and>
     (r = Inr Invalid_key \<or> (\<exists>seconds. r = Inr (Limited seconds)))"
proof -
  obtain s1 where s1: "alone (Revoke 1) warm_site = Some (Inr (), s1)" "ks_byHash s1 = []"
    by (simp add: Revoke_def alone_andThen on_keys_def alone_atomic key_Revoke_def bindE_def sql_def next_fault_def pop_fault_def retE_def
        warm_site_def key_site_def small_key_def cached_def drop_key_def upd_where_def)
  obtain s' r where run: "run_keys free_rate small_keys [Arrive (Use_key some_reads small_use), Advance 0 [], Advance 0 []] s1 = (s', [Ended r])"
    using s1(2) by (simp add: run_keys_def run_panel_def run_move_def APIKeyGate_def small_keys_def small_presents Validate_def decodeKeyToHash_def
        small_raw_key look_def ret_def andThen_def fail_def rejectInvalid_def)
  have "r = Inr Invalid_key \<or> (\<exists>seconds. r = Inr (Limited seconds))"
    using revoked_key_stays_out [OF small_ok_keys, of small_key s1 free_rate small_keys _ s' "[Ended r]" 0 r some_reads small_use] run s1 small_presents
    by (simp add: arrivals_def small_keys_def small_key_def warm_site_def key_site_def small_hash_def)
  with s1 run show ?thesis by blast
qed

text \<open>
  C35. A revocation whose reply is lost never takes. The row says that the key is revoked, the
  member of the staff is shown an error, and the service goes on to let the key in: whatever is
  requested afterwards, revoking it again included, every request that carries the key is served,
  as its limiter allows.
\<close>

theorem lost_revocation_never_takes:
  assumes "keys_ok s" and "k \<in> set (cp_api_keys (ks_db s))" and "ky_KeyHash k \<noteq> ''''" and "map_of (ks_byHash s) (ky_KeyHash k) = Some a"
    and "ParseInt n = Some (ky_ID k)" and "0 < ky_ID k" and "ky_RevokedAt k = None"
    and "run_keys P v ([Arrive (Keys_revoke n), Advance 0 [Lost_after]] @ xs) s = (s', ts)"
  shows "snd (run_keys P v [Arrive (Keys_revoke n), Advance 0 [Lost_after]] s) = [Ended (Inr (Key_status 500))] \<and>
    (\<exists>k' \<in> set (cp_api_keys (ks_db s')). ky_ID k' = ky_ID k \<and> IsRevoked k') \<and>
    (\<forall>j t req r. arrivals xs ! j = Use_key t req \<and> presents (kv_world v) (ky_KeyHash k) req \<and> Suc j < length ts \<and> ts ! Suc j = Ended r \<longrightarrow>
       r = Inr Served \<or> (\<exists>seconds. r = Inr (Limited seconds)))"
  using lost_Revoke [OF assms(1,2,4-7), of P v] lost_Revoke_stays [OF assms] by auto

theorem lost_revocation_never_takes_witness:
  "\<exists>s' t1 r. run_keys free_rate small_keys ([Arrive (Keys_revoke ''1''), Advance 0 [Lost_after]] @
       [Arrive (Use_key some_reads small_use), Advance 1 [], Advance 1 [], Advance 1 [], Advance 1 [], Advance 1 [], Advance 1 []]) warm_site = (s', [t1, Ended r]) \<and>
     (r = Inr Served \<or> (\<exists>seconds. r = Inr (Limited seconds)))"
proof -
  have one: "ParseInt ''1'' = Some 1" by code_simp
  let ?xs = "[Arrive (Use_key some_reads small_use), Advance 1 [], Advance 1 [], Advance 1 [], Advance 1 [], Advance 1 [], Advance 1 []]"
  have "\<exists>s' r. run_keys free_rate small_keys ([Arrive (Keys_revoke ''1''), Advance 0 [Lost_after]] @ ?xs) warm_site = (s', [Ended (Inr (Key_status 500)), Ended r])"
    by (simp add: run_keys_def run_panel_def run_move_def keys_revoke_def Revoke_def andThen_def on_keys_def atomic_def key_Revoke_def
        bindE_def sql_def next_fault_def pop_fault_def fail_def ret_def APIKeyGate_def small_keys_def small_presents Validate_def decodeKeyToHash_def
        small_raw_key look_def change_def warm_site_def key_site_def scheduleTouch_def key_clock_def lastUsedFlushInterval_def seconds_def
        cached_def small_key_def ask_limiter_def one Let_def upd_where_def)
  then obtain s' r where run: "run_keys free_rate small_keys ([Arrive (Keys_revoke ''1''), Advance 0 [Lost_after]] @ ?xs) warm_site =
      (s', [Ended (Inr (Key_status 500)), Ended r])" by blast
  from one have "r = Inr Served \<or> (\<exists>seconds. r = Inr (Limited seconds))"
    using lost_revocation_never_takes [OF small_ok_keys, of small_key 0 "''1''" free_rate small_keys ?xs s' "[Ended (Inr (Key_status 500)), Ended r]"] run small_presents
    by (auto simp: arrivals_def small_keys_def small_key_def warm_site_def key_site_def small_hash_def)
  with run show ?thesis by blast
qed

section \<open>Keys in use\<close>

text \<open>
  C36. Started on a table of keys that are told apart by their hashes and numbers, the service
  writes the last use of a key it holds at most once a minute, and every key it holds has a row
  with its hash and number, after any requests in any order and with whatever the connections lose.
\<close>

theorem key_uses_spaced:
  assumes "uniq ky_KeyHash (cp_api_keys (ks_db s))" and "uniq ky_ID (cp_api_keys (ks_db s))" and "\<forall>k \<in> set (cp_api_keys (ks_db s)). ky_ID k \<le> key_seq (ks_db s)"
    and "ks_entries s = []" and "ks_touches s = []" and "alone Warm s = Some (Inr (), s1)" and "run_keys P v xs s1 = (s', ts)"
  shows "(\<forall>e < length (ks_entries s'). successively (\<lambda>a b. a + 60 * 10 ^ 9 \<le> b) (map to_at (filter (\<lambda>t. to_entry t = e) (ks_touches s')))) \<and>
    (\<forall>h a. map_of (ks_byHash s') h = Some a \<longrightarrow> a < length (ks_entries s') \<and>
       (\<exists>k \<in> set (cp_api_keys (ks_db s')). ky_KeyHash k = h \<and> ky_ID k = ck_id (ks_entries s' ! a)))"
proof -
  have "keys_ok s1" using Warm_ok [of s] assms(1-6) by (simp add: key_rows_ok_def)
  then have "keys_ok s'" using assms(7) by (rule keys_stay_ok)
  then show ?thesis
    by (auto simp: keys_ok_def touches_ok_def cache_ok_def uses_of_def lastUsedFlushInterval_def seconds_def dest!: map_of_SomeD)
qed

theorem key_uses_spaced_witness:
  "\<exists>s' ts. run_keys free_rate small_keys [Arrive (Use_key some_reads small_use), Advance 0 [], Advance 0 [], Advance 0 [], Advance 0 []] warm_site = (s', ts) \<and>
     length (ks_touches s') = 1 \<and> successively (\<lambda>a b. a + 60 * 10 ^ 9 \<le> b) (map to_at (filter (\<lambda>t. to_entry t = 0) (ks_touches s')))"
proof -
  let ?xs = "[Arrive (Use_key some_reads small_use), Advance 0 [], Advance 0 [], Advance 0 [], Advance 0 []]"
  have "\<exists>s' ts. run_keys free_rate small_keys ?xs warm_site = (s', ts) \<and> length (ks_touches s') = 1 \<and> length (ks_entries s') = 1"
    by (simp add: run_keys_def run_panel_def run_move_def andThen_def fail_def ret_def APIKeyGate_def small_keys_def small_presents Validate_def
        decodeKeyToHash_def small_raw_key look_def change_def warm_site_def key_site_def scheduleTouch_def key_clock_def lastUsedFlushInterval_def
        seconds_def cached_def small_key_def swap_flushed_def)
  then obtain s' ts where run: "run_keys free_rate small_keys ?xs warm_site = (s', ts)" "length (ks_touches s') = 1" "length (ks_entries s') = 1" by blast
  from key_uses_spaced [OF _ _ _ _ _ small_warm run(1)] run(3)
  have "successively (\<lambda>a b. a + 60 * 10 ^ 9 \<le> b) (map to_at (filter (\<lambda>t. to_entry t = 0) (ks_touches s')))"
    by (simp add: key_site_def uniq_def small_key_def)
  with run show ?thesis by blast
qed

text \<open>
  A key that was issued opens: what \<open>Generate\<close> shows to the staff is accepted when it is
  sent, with the number, the name (without the space around it) and the tier that were stored. (The
  random bytes drawn are 32.)
\<close>

theorem issued_key_validates:
  assumes "keys_ok s" and "\<And>n. length (wo_random (kv_world v) n) = 32" and "alone (Generate v name tier) s = Some (Inr (raw, key), s1)"
  shows "\<exists>s2 k. alone (Validate v raw) s1 = Some (Inr k, s2) \<and> ky_ID k = ky_ID key \<and> ky_Name k = TrimSpace name \<and> ky_RateTier k = tier"
proof -
  let ?raw = "wo_random (kv_world v) (ks_drawn s)" let ?h = "wo_sha256 (kv_world v) ?raw"
  obtain c where c: "key_Create ?h (TrimSpace name) tier \<lparr>data = ks_db s, faults = []\<rparr> = (Inr key, c)" and raw: "raw = base64url ?raw"
    and s1: "s1 = put_key ?h (cached key) (s\<lparr>ks_drawn := ks_drawn s + 1, ks_db := data c\<rparr>)"
    using assms(3) by (auto simp: Generate_def Let_def alone_andThen on_keys_def alone_atomic split: if_splits prod.splits sum.splits)
  have key: "ky_Name key = TrimSpace name" "ky_RateTier key = tier"
    using c by (auto simp: key_Create_def bindE_Inr sql_Inr Let_def retE_def failE_def split: if_splits option.splits)
  have h: "decodeKeyToHash (kv_world v) raw = Some ?h" using assms(2) by (simp add: raw decodeKeyToHash_def unbase64url_base64url)
  have at_h: "map_of (ks_byHash s1) ?h = Some (length (ks_entries s))" "ks_entries s1 ! length (ks_entries s) = cached key"
    by (simp_all add: s1 put_key_def)
  have "\<exists>s2. alone (scheduleTouch n) s1 = Some (Inr (), s2)" for n by (simp add: scheduleTouch_def alone_andThen key_clock_def)
  then obtain s2 where "alone (scheduleTouch (length (ks_entries s))) s1 = Some (Inr (), s2)" by blast
  then have "alone (Validate v raw) s1 = Some (Inr \<lparr>ky_CreatedAt = 0, ky_LastUsedAt = None, ky_RevokedAt = None, ky_Name = ck_name (cached key),
      ky_RateTier = ck_tier (cached key), ky_KeyHash = '''', ky_ID = ck_id (cached key)\<rparr>, s2)"
    by (simp add: Validate_def h alone_andThen at_h)
  then show ?thesis using key by (auto simp: cached_def)
qed

theorem issued_key_validates_witness:
  "\<exists>raw key s1 s2 k. alone (Generate small_keys ''bot'' ''Standard'') warm_site = Some (Inr (raw, key), s1) \<and>
     alone (Validate small_keys raw) s1 = Some (Inr k, s2) \<and> ky_ID k = 2 \<and> ky_Name k = ''bot''"
proof -
  have "\<exists>raw key s1. alone (Generate small_keys ''bot'' ''Standard'') warm_site = Some (Inr (raw, key), s1) \<and> ky_ID key = 2"
    by (simp add: Generate_def small_new small_keys_def Let_def tiers_Has_def NewTierSet_def alone_andThen on_keys_def alone_atomic key_Create_def bindE_def sql_def
        next_fault_def pop_fault_def retE_def failE_def warm_site_def key_site_def small_key_def key_check_def small_world_def small_hash_def)
  then obtain raw key s1 where g: "alone (Generate small_keys ''bot'' ''Standard'') warm_site = Some (Inr (raw, key), s1)" "ky_ID key = 2" by blast
  have "\<And>n. length (wo_random (kv_world small_keys) n) = 32" by (simp add: small_keys_def small_world_def)
  from issued_key_validates [OF small_ok_keys this g(1)] g small_new(1) show ?thesis by auto
qed

text \<open>
  A key that is revoked between its row being stored and the service taking it up is taken up
  all the same: \<open>Revoke\<close> finds nothing in the map to remove.
\<close>

lemma revoked_while_generated:
  "\<exists>s' ts. run_keys free_rate small_keys
       ([Arrive (Keys_create True ''bot'' ''Standard''), Advance 0 [], Advance 0 [], Arrive (Keys_revoke ''2''), Advance 1 [], Advance 1 [], Advance 0 []])
       warm_site = (s', ts) \<and>
     (\<exists>k \<in> set (cp_api_keys (ks_db s')). ky_ID k = 2 \<and> IsRevoked k \<and> map_of (ks_byHash s') (ky_KeyHash k) = Some 1)"
proof -
  have two: "ParseInt ''2'' = Some 2" by code_simp
  then show ?thesis
    by (simp add: small_new run_keys_def run_panel_def run_move_def keys_create_def Generate_def small_keys_def Let_def tiers_Has_def NewTierSet_def andThen_def
        on_keys_def atomic_def key_Create_def bindE_def sql_def next_fault_def pop_fault_def retE_def failE_def warm_site_def key_site_def small_key_def
        key_check_def small_world_def small_hash_def keys_revoke_def Revoke_def key_Revoke_def change_def ret_def fail_def upd_where_def drop_key_def
        put_key_def cached_def IsRevoked_def)
qed

end
