(* ===== verification/Notifications.thy ===== *)
theory Notifications
  imports Tasks Http Utf8
begin

text \<open>
  \<open>internal/platform/notification\<close>: notices for an account, in a table and as events on the
  streams (server-sent events) that the account's browsers hold open.

  Requests are tasks. A stream is opened by a request; the loop that serves it is a request for each
  turn that takes an event from its channel, and one for its end. The sends of one \<open>Publish\<close>, each
  to a channel of its own, are one step.
\<close>

section \<open>domain\<close>

record notification =
  nt_CreatedAt :: int
  nt_ReadAt :: "int option"
  nt_Category :: string
  nt_Title :: string
  nt_Body :: string
  nt_Link :: string
  nt_ID :: int
  nt_AccountID :: int

definition IsRead :: "notification \<Rightarrow> bool" where "IsRead n \<longleftrightarrow> nt_ReadAt n \<noteq> None"

datatype note_error = ErrInvalidAccount | Note_store

section \<open>infra/postgres.go\<close>

record notedb =
  cp_notification :: "notification list"
  note_seq :: int
  note_now :: int

type_synonym 'a note_prog = "(notedb conn, note_error, 'a) prog"

definition note_ok :: "notification \<Rightarrow> bool" where
  "note_ok n \<longleftrightarrow> - (2 ^ 31) \<le> nt_AccountID n \<and> nt_AccountID n < 2 ^ 31 \<and>
     storable (nt_Category n) \<and> storable (nt_Title n) \<and> storable (nt_Body n) \<and> storable (nt_Link n)"

text \<open>The number of a row that is refused is used up.\<close>

definition note_Create :: "int \<Rightarrow> string \<Rightarrow> string \<Rightarrow> string \<Rightarrow> string \<Rightarrow> notification note_prog" where
  "note_Create accountID category title body link =
     bindE (sql Note_store (\<lambda>d.
       let i = note_seq d + 1; d' = d\<lparr>note_seq := i\<rparr>;
           n = \<lparr>nt_CreatedAt = note_now d, nt_ReadAt = None, nt_Category = category, nt_Title = title, nt_Body = body, nt_Link = link,
             nt_ID = i, nt_AccountID = accountID\<rparr>
       in if note_ok n then Some (Some n, d'\<lparr>cp_notification := cp_notification d @ [n]\<rparr>) else Some (None, d')))
     (\<lambda>r. case r of None \<Rightarrow> failE Note_store | Some n \<Rightarrow> retE n)"

text \<open>\<open>ORDER BY created_at DESC, id DESC\<close>\<close>

definition newest_notes :: "notification list \<Rightarrow> notification list" where
  "newest_notes ns = sort_key (\<lambda>n. - nt_CreatedAt n) (sort_key (\<lambda>n. - nt_ID n) ns)"

definition notes_of :: "int \<Rightarrow> bool \<Rightarrow> notedb \<Rightarrow> notification list" where
  "notes_of accountID unreadOnly d = filter (\<lambda>n. nt_AccountID n = accountID \<and> (unreadOnly \<longrightarrow> nt_ReadAt n = None)) (cp_notification d)"

definition RecentByAccount :: "int \<Rightarrow> nat \<Rightarrow> notification list note_prog" where
  "RecentByAccount accountID limit = query Note_store (\<lambda>d. take limit (newest_notes (notes_of accountID False d)))"

definition count_notes :: "int \<Rightarrow> bool \<Rightarrow> int note_prog" where
  "count_notes accountID unreadOnly = query Note_store (\<lambda>d. int (length (notes_of accountID unreadOnly d)))"

text \<open>The database refuses a negative \<open>OFFSET\<close>.\<close>

definition list_notes :: "int \<Rightarrow> bool \<Rightarrow> nat \<Rightarrow> int \<Rightarrow> notification list note_prog" where
  "list_notes accountID unreadOnly limit offset = sql Note_store (\<lambda>d.
     if offset < 0 then None else Some (take limit (drop (nat offset) (newest_notes (notes_of accountID unreadOnly d))), d))"

definition note_UnreadCount :: "int \<Rightarrow> int note_prog" where
  "note_UnreadCount accountID = count_notes accountID True"

definition note_MarkRead :: "int \<Rightarrow> int \<Rightarrow> int \<Rightarrow> string note_prog" where
  "note_MarkRead accountID i now = sql Note_store (\<lambda>d.
     let hit = (\<lambda>n. nt_ID n = i \<and> nt_AccountID n = accountID)
     in Some (case find hit (cp_notification d) of None \<Rightarrow> '''' | Some n \<Rightarrow> nt_Link n,
          d\<lparr>cp_notification := upd_where hit (\<lambda>n. n\<lparr>nt_ReadAt := (case nt_ReadAt n of None \<Rightarrow> Some now | Some t \<Rightarrow> Some t)\<rparr>) (cp_notification d)\<rparr>))"

definition note_MarkAllRead :: "int \<Rightarrow> int \<Rightarrow> unit note_prog" where
  "note_MarkAllRead accountID now = exec Note_store (\<lambda>d.
     d\<lparr>cp_notification := upd_where (\<lambda>n. nt_AccountID n = accountID \<and> nt_ReadAt n = None) (\<lambda>n. n\<lparr>nt_ReadAt := Some now\<rparr>) (cp_notification d)\<rparr>)"

definition PruneOlderThan :: "int \<Rightarrow> unit note_prog" where
  "PruneOlderThan cutoff = exec Note_store (\<lambda>d. d\<lparr>cp_notification := del_where (\<lambda>n. nt_CreatedAt n < cutoff) (cp_notification d)\<rparr>)"

section \<open>app/broadcaster.go\<close>

text \<open>\<open>PublishUnread\<close> sends an event without a notification.\<close>

record note_event =
  ev_Notification :: "notification option"
  ev_Unread :: int

record stream =
  sm_account :: int
  sm_queue :: "note_event list"
  sm_written :: "int list"

record notesite =
  nb_db :: notedb
  nb_subs :: "(int \<times> nat list) list"
  nb_streams :: "stream list"

type_synonym 'a noting = "(notesite, note_error, 'a) task"

definition on_notes :: "'a note_prog \<Rightarrow> 'a noting" where "on_notes = atomic nb_db (\<lambda>d s. s\<lparr>nb_db := d\<rparr>)"
definition note_clock :: "int noting" where "note_clock = look (\<lambda>s. note_now (nb_db s))"

definition notes_pass :: "nat \<Rightarrow> notesite \<Rightarrow> notesite" where
  "notes_pass n s = s\<lparr>nb_db := (nb_db s)\<lparr>note_now := note_now (nb_db s) + int n\<rparr>\<rparr>"

definition channel_size :: nat where "channel_size = 8"

definition subscribe :: "int \<Rightarrow> nat \<Rightarrow> (int \<times> nat list) list \<Rightarrow> (int \<times> nat list) list" where
  "subscribe accountID c subs =
     (case map_of subs accountID of
        None \<Rightarrow> (accountID, [c]) # subs
      | Some cs \<Rightarrow> map (\<lambda>e. if fst e = accountID then (accountID, snd e @ [c]) else e) subs)"

definition unsubscribe :: "int \<Rightarrow> nat \<Rightarrow> (int \<times> nat list) list \<Rightarrow> (int \<times> nat list) list" where
  "unsubscribe accountID c subs =
     (case map_of subs accountID of
        None \<Rightarrow> subs
      | Some cs \<Rightarrow>
          if filter (\<lambda>x. x \<noteq> c) cs = [] then filter (\<lambda>e. fst e \<noteq> accountID) subs
          else map (\<lambda>e. if fst e = accountID then (accountID, filter (\<lambda>x. x \<noteq> c) (snd e)) else e) subs)"

definition Subscribe :: "int \<Rightarrow> nat noting" where
  "Subscribe accountID = Step
     (\<lambda>_ s. s\<lparr>nb_streams := nb_streams s @ [\<lparr>sm_account = accountID, sm_queue = [], sm_written = []\<rparr>],
        nb_subs := subscribe accountID (length (nb_streams s)) (nb_subs s)\<rparr>)
     (\<lambda>_ s. ret (length (nb_streams s)))"

text \<open>A channel that is full misses the event.\<close>

definition send :: "note_event \<Rightarrow> nat \<Rightarrow> stream list \<Rightarrow> stream list" where
  "send e c sts =
     (if length (sm_queue (sts ! c)) < channel_size then sts[c := (sts ! c)\<lparr>sm_queue := sm_queue (sts ! c) @ [e]\<rparr>] else sts)"

definition publish :: "int \<Rightarrow> note_event \<Rightarrow> notesite \<Rightarrow> notesite" where
  "publish accountID e s =
     s\<lparr>nb_streams := fold (send e) (case map_of (nb_subs s) accountID of None \<Rightarrow> [] | Some cs \<Rightarrow> cs) (nb_streams s)\<rparr>"

definition Publish :: "int \<Rightarrow> note_event \<Rightarrow> unit noting" where
  "Publish accountID e = change (publish accountID e)"

section \<open>app/service.go\<close>

record note_service =
  ns_recentLimit :: nat
  ns_retention :: int

definition inboxPageSize :: int where "inboxPageSize = 50"

record note_page =
  pg_Items :: "notification list"
  pg_Total :: int
  pg_Page :: int
  pg_TotalPages :: int

definition Emit :: "int \<Rightarrow> string \<Rightarrow> string \<Rightarrow> string \<Rightarrow> string \<Rightarrow> unit noting" where
  "Emit accountID category title body link =
     (if accountID \<le> 0 then fail ErrInvalidAccount
      else
        andThen (on_notes (note_Create accountID category title body link)) (\<lambda>created.
        andThen (on_notes (note_UnreadCount accountID)) (\<lambda>unread.
        Publish accountID \<lparr>ev_Notification = Some created, ev_Unread = unread\<rparr>)))"

definition Recent :: "note_service \<Rightarrow> int \<Rightarrow> notification list noting" where
  "Recent v accountID = on_notes (RecentByAccount accountID (ns_recentLimit v))"

definition ListPage :: "int \<Rightarrow> bool \<Rightarrow> nat \<Rightarrow> int \<Rightarrow> (notification list \<times> int) noting" where
  "ListPage accountID unreadOnly limit offset =
     andThen (on_notes (count_notes accountID unreadOnly)) (\<lambda>total.
     andThen (on_notes (list_notes accountID unreadOnly limit offset)) (\<lambda>items.
     ret (items, total)))"

text \<open>The offset is computed in 64 bits.\<close>

definition page_offset :: "int \<Rightarrow> int" where "page_offset page = wrap64 ((page - 1) * inboxPageSize)"

definition inbox_page :: "int \<Rightarrow> bool \<Rightarrow> int \<Rightarrow> note_page noting" where
  "inbox_page accountID unreadOnly page0 =
     (let page = max page0 1 in
      andThen (ListPage accountID unreadOnly (nat inboxPageSize) (page_offset page)) (\<lambda>(items, total).
        let totalPages = max ((total + inboxPageSize - 1) div inboxPageSize) 1 in
        if totalPages < page then
          andThen (ListPage accountID unreadOnly (nat inboxPageSize) (page_offset totalPages)) (\<lambda>(items, _).
            ret \<lparr>pg_Items = items, pg_Total = total, pg_Page = totalPages, pg_TotalPages = totalPages\<rparr>)
        else ret \<lparr>pg_Items = items, pg_Total = total, pg_Page = page, pg_TotalPages = totalPages\<rparr>))"

definition UnreadCount :: "int \<Rightarrow> int noting" where
  "UnreadCount accountID = on_notes (note_UnreadCount accountID)"

text \<open>An error is only logged.\<close>

definition PublishUnread :: "int \<Rightarrow> unit noting" where
  "PublishUnread accountID =
     bindT (on_notes (note_UnreadCount accountID)) (\<lambda>r. case r of
         Inl _ \<Rightarrow> ret ()
       | Inr unread \<Rightarrow> Publish accountID \<lparr>ev_Notification = None, ev_Unread = unread\<rparr>)"

definition MarkRead :: "int \<Rightarrow> int \<Rightarrow> string noting" where
  "MarkRead accountID i =
     andThen note_clock (\<lambda>now.
     andThen (on_notes (note_MarkRead accountID i now)) (\<lambda>link.
     andThen (PublishUnread accountID) (\<lambda>_.
     ret link)))"

definition MarkAllRead :: "int \<Rightarrow> unit noting" where
  "MarkAllRead accountID =
     andThen note_clock (\<lambda>now.
     andThen (on_notes (note_MarkAllRead accountID now)) (\<lambda>_.
     PublishUnread accountID))"

definition Prune :: "note_service \<Rightarrow> unit noting" where
  "Prune v =
     (if ns_retention v \<le> 0 then ret ()
      else andThen note_clock (\<lambda>now. on_notes (PruneOlderThan (now - ns_retention v))))"

section \<open>transport\<close>

datatype note_shown =
    Menu "notification list"
  | Inbox note_page bool
  | Unread_count int
  | Marked "string option"
  | To_inbox
  | Streaming nat
  | Note_status nat

definition ParsePositiveInt :: "string \<Rightarrow> int \<Rightarrow> int" where
  "ParsePositiveInt t fallback =
     (if t = '''' then fallback
      else case ParseInt t of None \<Rightarrow> fallback | Some n \<Rightarrow> if n < 1 then fallback else n)"

definition note_menu :: "note_service \<Rightarrow> int \<Rightarrow> note_shown noting" where
  "note_menu v accountID =
     bindT (Recent v accountID) (\<lambda>r. ret (case r of Inl _ \<Rightarrow> Note_status 500 | Inr items \<Rightarrow> Menu items))"

definition note_inbox :: "int \<Rightarrow> string \<Rightarrow> string \<Rightarrow> note_shown noting" where
  "note_inbox accountID shown page =
     bindT (inbox_page accountID (shown = ''unread'') (ParsePositiveInt page 1)) (\<lambda>r.
       ret (case r of Inl _ \<Rightarrow> Note_status 500 | Inr p \<Rightarrow> Inbox p (shown = ''unread'')))"

definition note_count :: "int \<Rightarrow> note_shown noting" where
  "note_count accountID =
     bindT (UnreadCount accountID) (\<lambda>r. ret (case r of Inl _ \<Rightarrow> Note_status 500 | Inr n \<Rightarrow> Unread_count n))"

text \<open>The header \<open>HX-Redirect\<close> is set for a link within the panel.\<close>

definition markRead :: "int \<Rightarrow> string \<Rightarrow> note_shown noting" where
  "markRead accountID rawID =
     (case ParseInt rawID of
        None \<Rightarrow> ret (Note_status 400)
      | Some i \<Rightarrow> bindT (MarkRead accountID i) (\<lambda>r. ret (case r of
            Inl _ \<Rightarrow> Note_status 500
          | Inr link \<Rightarrow> Marked (if has_prefix ''/'' link \<and> \<not> has_prefix ''//'' link then Some link else None))))"

definition markAllRead :: "note_service \<Rightarrow> int \<Rightarrow> bool \<Rightarrow> note_shown noting" where
  "markAllRead v accountID htmx =
     bindT (MarkAllRead accountID) (\<lambda>r. case r of
         Inl _ \<Rightarrow> ret (Note_status 500)
       | Inr _ \<Rightarrow> if \<not> htmx then ret To_inbox else note_menu v accountID)"

definition stream_open :: "int \<Rightarrow> note_shown noting" where
  "stream_open accountID =
     andThen (Subscribe accountID) (\<lambda>c.
     andThen (PublishUnread accountID) (\<lambda>_.
     ret (Streaming c)))"

text \<open>One turn of the loop: the count of the next event is written. The loop ends when that fails or the client is gone.\<close>

definition take_event :: "nat \<Rightarrow> notesite \<Rightarrow> notesite" where
  "take_event c s =
     (if c < length (nb_streams s) \<and> sm_queue (nb_streams s ! c) \<noteq> [] then
        s\<lparr>nb_streams := (nb_streams s)[c := (nb_streams s ! c)\<lparr>sm_queue := tl (sm_queue (nb_streams s ! c)),
            sm_written := sm_written (nb_streams s ! c) @ [ev_Unread (hd (sm_queue (nb_streams s ! c)))]\<rparr>]\<rparr>
      else s)"

definition end_stream :: "nat \<Rightarrow> notesite \<Rightarrow> notesite" where
  "end_stream c s =
     (if c < length (nb_streams s) then s\<lparr>nb_subs := unsubscribe (sm_account (nb_streams s ! c)) c (nb_subs s)\<rparr> else s)"

datatype note_request =
    Note_menu
  | Note_inbox string string
  | Note_unread
  | Note_stream
  | Note_read string
  | Note_read_all bool
  | Stream_turn nat
  | Stream_end nat
  | Note_emit int string string string string
  | Note_prune

text \<open>A request comes with the account of its session.\<close>

definition with_account :: "int option \<Rightarrow> (int \<Rightarrow> note_shown noting) \<Rightarrow> note_shown noting" where
  "with_account session k = (case session of None \<Rightarrow> ret (Note_status 401) | Some accountID \<Rightarrow> k accountID)"

definition handle_note :: "note_service \<Rightarrow> int option \<times> note_request \<Rightarrow> note_shown noting" where
  "handle_note v q = (case q of (session, x) \<Rightarrow> (case x of
       Note_menu \<Rightarrow> with_account session (note_menu v)
     | Note_inbox shown page \<Rightarrow> with_account session (\<lambda>a. note_inbox a shown page)
     | Note_unread \<Rightarrow> with_account session note_count
     | Note_stream \<Rightarrow> with_account session stream_open
     | Note_read i \<Rightarrow> with_account session (\<lambda>a. markRead a i)
     | Note_read_all htmx \<Rightarrow> with_account session (\<lambda>a. markAllRead v a htmx)
     | Stream_turn c \<Rightarrow> andThen (change (take_event c)) (\<lambda>_. ret (Note_status 200))
     | Stream_end c \<Rightarrow> andThen (change (end_stream c)) (\<lambda>_. ret (Note_status 200))
     | Note_emit a category title body link \<Rightarrow> andThen (Emit a category title body link) (\<lambda>_. ret (Note_status 200))
     | Note_prune \<Rightarrow> andThen (Prune v) (\<lambda>_. ret (Note_status 200))))"

definition run_notes ::
    "note_service \<Rightarrow> (int option \<times> note_request) move list \<Rightarrow> notesite \<Rightarrow> (notesite, note_error, note_shown) panel" where
  "run_notes v xs s = run_panel notes_pass (handle_note v) xs (s, [])"

end
