(* ===== verification/Note_Safety.thy ===== *)
theory Note_Safety
  imports Notifications
begin

text \<open>What every step of a request keeps of the notifications and of the streams, whatever the others do in between.\<close>

section \<open>Notifications and streams that are right\<close>

definition notes_wf :: "notedb \<Rightarrow> bool" where
  "notes_wf d \<longleftrightarrow> uniq nt_ID (cp_notification d) \<and> (\<forall>n \<in> set (cp_notification d). nt_ID n \<le> note_seq d)"

definition stream_ok :: "stream \<Rightarrow> bool" where
  "stream_ok st \<longleftrightarrow> length (sm_queue st) \<le> channel_size \<and>
     (\<forall>e \<in> set (sm_queue st). \<forall>n. ev_Notification e = Some n \<longrightarrow> nt_AccountID n = sm_account st)"

definition bus_ok :: "notesite \<Rightarrow> bool" where
  "bus_ok s \<longleftrightarrow> (\<forall>st \<in> set (nb_streams s). stream_ok st) \<and>
     (\<forall>(a, cs) \<in> set (nb_subs s). \<forall>c \<in> set cs. c < length (nb_streams s) \<and> sm_account (nb_streams s ! c) = a)"

definition notes_inv :: "notesite \<Rightarrow> bool" where "notes_inv s \<longleftrightarrow> notes_wf (nb_db s) \<and> bus_ok s"

text \<open>The same notification, but for the time when it was read, which is set once.\<close>

definition note_goes :: "notification \<Rightarrow> notification \<Rightarrow> bool" where
  "note_goes n n' \<longleftrightarrow> n'\<lparr>nt_ReadAt := None\<rparr> = n\<lparr>nt_ReadAt := None\<rparr> \<and> (nt_ReadAt n \<noteq> None \<longrightarrow> nt_ReadAt n' = nt_ReadAt n)"

definition notes_go :: "notedb \<Rightarrow> notedb \<Rightarrow> bool" where
  "notes_go d d' \<longleftrightarrow> note_seq d \<le> note_seq d' \<and>
     (\<forall>n' \<in> set (cp_notification d'). note_seq d < nt_ID n' \<or> (\<exists>n \<in> set (cp_notification d). note_goes n n'))"

definition site_goes :: "notesite \<Rightarrow> notesite \<Rightarrow> bool" where
  "site_goes s s' \<longleftrightarrow> notes_go (nb_db s) (nb_db s') \<and> (\<exists>l. map sm_account (nb_streams s') = map sm_account (nb_streams s) @ l)"

lemma note_goes_refl [simp]: "note_goes n n" by (simp add: note_goes_def)

lemma note_goes_trans: "note_goes a b \<Longrightarrow> note_goes b c \<Longrightarrow> note_goes a c" by (auto simp: note_goes_def)

lemma notes_go_refl [simp]: "notes_go d d" unfolding notes_go_def using note_goes_refl by blast

lemma notes_go_trans:
  assumes "notes_go a b" and "notes_go b c"
  shows "notes_go a c"
proof -
  have "note_seq a < nt_ID n \<or> (\<exists>m \<in> set (cp_notification a). note_goes m n)" if n: "n \<in> set (cp_notification c)" for n
  proof (cases "note_seq b < nt_ID n")
    case True
    with assms(1) show ?thesis by (auto simp: notes_go_def)
  next
    case False
    with assms(2) n obtain m where m: "m \<in> set (cp_notification b)" "note_goes m n" by (auto simp: notes_go_def)
    then have "nt_ID n = nt_ID m" by (metis note_goes_def notification.select_convs(7) notification.surjective notification.update_convs(2))
    with assms(1) m note_goes_trans show ?thesis unfolding notes_go_def by metis
  qed
  with assms show ?thesis by (auto simp: notes_go_def)
qed

lemma site_goes_refl [simp]: "site_goes s s" by (simp add: site_goes_def)

lemma site_goes_trans: "site_goes a b \<Longrightarrow> site_goes b c \<Longrightarrow> site_goes a c"
  unfolding site_goes_def using notes_go_trans by (metis append_assoc)

interpretation bell: rely_guarantee notes_inv site_goes site_goes
  by unfold_locales (auto intro: site_goes_trans)

section \<open>The statements\<close>

definition notes_keep :: "'a note_prog \<Rightarrow> bool" where
  "notes_keep m \<longleftrightarrow> (\<forall>s r c. m s = (r, c) \<longrightarrow> notes_wf (data s) \<longrightarrow> notes_wf (data c) \<and> notes_go (data s) (data c))"

lemma notes_keep_sql:
  assumes "\<And>d x d'. notes_wf d \<Longrightarrow> f d = Some (x, d') \<Longrightarrow> notes_wf d' \<and> notes_go d d'"
  shows "notes_keep (sql e f)"
  using assms by (auto simp: notes_keep_def sql_def split: option.splits fault.splits)

lemma notes_keep_bind: "notes_keep m \<Longrightarrow> (\<And>x. notes_keep (f x)) \<Longrightarrow> notes_keep (bindE m f)"
  unfolding notes_keep_def bindE_def by (fastforce split: prod.splits sum.splits intro: notes_go_trans)

lemma notes_keep_simps [simp]: "notes_keep (retE x)" "notes_keep (failE e)" "notes_keep (query e q)"
  by (simp_all add: notes_keep_def retE_def failE_def) (auto simp: query_def sql_def split: fault.splits)

lemma notes_upd:
  assumes "notes_wf d" and "\<And>n. n \<in> set (cp_notification d) \<Longrightarrow> p n \<Longrightarrow> note_goes n (f n)" and "\<And>n. nt_ID (f n) = nt_ID n"
  shows "notes_wf (d\<lparr>cp_notification := upd_where p f (cp_notification d)\<rparr>) \<and> notes_go d (d\<lparr>cp_notification := upd_where p f (cp_notification d)\<rparr>)"
proof
  show "notes_wf (d\<lparr>cp_notification := upd_where p f (cp_notification d)\<rparr>)"
    using assms(1,3) by (auto simp: notes_wf_def uniq_upd_where set_upd_where)
  show "notes_go d (d\<lparr>cp_notification := upd_where p f (cp_notification d)\<rparr>)"
    using assms(2) by (auto simp: notes_go_def set_upd_where intro: note_goes_refl)
qed

lemma notes_keep_marks: "notes_keep (note_MarkRead a i now)" "notes_keep (note_MarkAllRead a now)"
proof -
  have "notes_wf d \<Longrightarrow> notes_wf (d\<lparr>cp_notification := upd_where (\<lambda>n. nt_ID n = i \<and> nt_AccountID n = a)
      (\<lambda>n. n\<lparr>nt_ReadAt := (case nt_ReadAt n of None \<Rightarrow> Some now | Some t \<Rightarrow> Some t)\<rparr>) (cp_notification d)\<rparr>) \<and>
    notes_go d (d\<lparr>cp_notification := upd_where (\<lambda>n. nt_ID n = i \<and> nt_AccountID n = a)
      (\<lambda>n. n\<lparr>nt_ReadAt := (case nt_ReadAt n of None \<Rightarrow> Some now | Some t \<Rightarrow> Some t)\<rparr>) (cp_notification d)\<rparr>)" for d
    by (rule notes_upd) (auto simp: note_goes_def split: option.split)
  then show "notes_keep (note_MarkRead a i now)" unfolding note_MarkRead_def by (intro notes_keep_sql) (auto simp: Let_def)
  have "notes_wf d \<Longrightarrow> notes_wf (d\<lparr>cp_notification := upd_where (\<lambda>n. nt_AccountID n = a \<and> nt_ReadAt n = None) (\<lambda>n. n\<lparr>nt_ReadAt := Some now\<rparr>) (cp_notification d)\<rparr>) \<and>
    notes_go d (d\<lparr>cp_notification := upd_where (\<lambda>n. nt_AccountID n = a \<and> nt_ReadAt n = None) (\<lambda>n. n\<lparr>nt_ReadAt := Some now\<rparr>) (cp_notification d)\<rparr>)" for d
    by (rule notes_upd) (auto simp: note_goes_def)
  then show "notes_keep (note_MarkAllRead a now)" unfolding note_MarkAllRead_def exec_def by (intro notes_keep_sql) auto
qed

lemma notes_keep_Prune: "notes_keep (PruneOlderThan cutoff)"
proof -
  have "notes_wf d \<Longrightarrow> notes_wf (d\<lparr>cp_notification := del_where (\<lambda>n. nt_CreatedAt n < cutoff) (cp_notification d)\<rparr>) \<and>
    notes_go d (d\<lparr>cp_notification := del_where (\<lambda>n. nt_CreatedAt n < cutoff) (cp_notification d)\<rparr>)" for d
    using uniq_del_where [of nt_ID "cp_notification d" "\<lambda>n. nt_CreatedAt n < cutoff"]
    by (auto simp: notes_wf_def notes_go_def del_where_def intro: note_goes_refl)
  then show ?thesis unfolding PruneOlderThan_def exec_def by (intro notes_keep_sql) auto
qed

lemma notes_keep_Create: "notes_keep (note_Create a category title body link)"
  unfolding note_Create_def
proof (intro notes_keep_bind notes_keep_sql)
  fix d x d' assume ok: "notes_wf d" and eq: "(let i = note_seq d + 1; d' = d\<lparr>note_seq := i\<rparr>;
           n = \<lparr>nt_CreatedAt = note_now d, nt_ReadAt = None, nt_Category = category, nt_Title = title, nt_Body = body, nt_Link = link,
             nt_ID = i, nt_AccountID = a\<rparr>
       in if note_ok n then Some (Some n, d'\<lparr>cp_notification := cp_notification d @ [n]\<rparr>) else Some (None, d')) = Some (x, d')"
  then show "notes_wf d' \<and> notes_go d d'"
    by (fastforce simp: Let_def notes_wf_def notes_go_def uniq_def intro: note_goes_refl split: if_splits)
qed (auto split: option.split)

lemma notes_keep_reads: "notes_keep (count_notes a u)" "notes_keep (note_UnreadCount a)" "notes_keep (RecentByAccount a limit)" "notes_keep (list_notes a u limit offset)"
  by (simp_all add: count_notes_def note_UnreadCount_def RecentByAccount_def)
    (auto simp: list_notes_def intro!: notes_keep_sql split: if_splits)

text \<open>What the reads and the insert answer is of the account asked for.\<close>

lemma set_newest_notes [simp]: "set (newest_notes ns) = set ns" by (simp add: newest_notes_def)

lemma reads_own:
  "RecentByAccount a limit s = (Inr items, c) \<Longrightarrow> (\<forall>n \<in> set items. nt_AccountID n = a) \<and> length items \<le> limit"
  "list_notes a u limit offset s = (Inr items, c) \<Longrightarrow> (\<forall>n \<in> set items. nt_AccountID n = a) \<and> length items \<le> limit"
  by (auto simp: RecentByAccount_def list_notes_def query_def sql_Inr notes_of_def dest!: in_set_takeD in_set_dropD split: if_splits)

lemma Create_own: "note_Create a category title body link s = (Inr n, c) \<Longrightarrow> nt_AccountID n = a"
  by (auto simp: note_Create_def bindE_Inr sql_Inr Let_def retE_def failE_def split: if_splits option.splits)

section \<open>The streams\<close>

lemma send_same: "length (send e c sts) = length sts" "map sm_account (send e c sts) = map sm_account sts"
proof -
  show "length (send e c sts) = length sts" by (simp add: send_def)
  show "map sm_account (send e c sts) = map sm_account sts"
    by (cases "c < length sts") (simp_all add: send_def map_update list_update_same_conv list_update_beyond)
qed

lemma send_ok:
  assumes "\<forall>st \<in> set sts. stream_ok st" and "c < length sts" and "\<And>n. ev_Notification e = Some n \<Longrightarrow> nt_AccountID n = sm_account (sts ! c)"
  shows "\<forall>st \<in> set (send e c sts). stream_ok st"
proof -
  have "stream_ok (sts ! c)" using assms(1,2) by simp
  with assms show ?thesis by (auto simp: send_def stream_ok_def dest!: set_update_subset_insert [THEN subsetD])
qed

lemma sends_ok:
  assumes "\<forall>st \<in> set sts. stream_ok st" and "\<forall>c \<in> set cs. c < length sts \<and> sm_account (sts ! c) = a" and "\<And>n. ev_Notification e = Some n \<Longrightarrow> nt_AccountID n = a"
  shows "(\<forall>st \<in> set (fold (send e) cs sts). stream_ok st) \<and> map sm_account (fold (send e) cs sts) = map sm_account sts"
  using assms(1,2)
proof (induction cs arbitrary: sts)
  case (Cons c cs)
  have acc: "sm_account (send e c sts ! x) = sm_account (sts ! x)" if "x < length sts" for x
    using send_same [of e c sts] that by (metis nth_map)
  have "\<forall>st \<in> set (send e c sts). stream_ok st" using Cons.prems assms(3) by (intro send_ok) auto
  with Cons.IH [of "send e c sts"] Cons.prems acc send_same show ?case by simp
qed simp

lemma publish_inv:
  assumes "notes_inv s" and "\<And>n. ev_Notification e = Some n \<Longrightarrow> nt_AccountID n = a"
  shows "notes_inv (publish a e s) \<and> site_goes s (publish a e s)"
proof -
  let ?cs = "case map_of (nb_subs s) a of None \<Rightarrow> [] | Some cs \<Rightarrow> cs"
  have bus: "\<forall>st \<in> set (nb_streams s). stream_ok st" "\<forall>(b, cs) \<in> set (nb_subs s). \<forall>c \<in> set cs. c < length (nb_streams s) \<and> sm_account (nb_streams s ! c) = b"
    using assms(1) by (auto simp: notes_inv_def bus_ok_def)
  have "\<forall>c \<in> set ?cs. c < length (nb_streams s) \<and> sm_account (nb_streams s ! c) = a"
    using bus(2) map_of_SomeD [of "nb_subs s" a] by (cases "map_of (nb_subs s) a") auto
  from sends_ok [OF bus(1) this, of e] assms(2)
  have sent: "\<forall>st \<in> set (fold (send e) ?cs (nb_streams s)). stream_ok st" "map sm_account (fold (send e) ?cs (nb_streams s)) = map sm_account (nb_streams s)" by auto
  then have "length (fold (send e) ?cs (nb_streams s)) = length (nb_streams s)" by (metis length_map)
  moreover have "sm_account (fold (send e) ?cs (nb_streams s) ! x) = sm_account (nb_streams s ! x)" if "x < length (nb_streams s)" for x
    using sent(2) that calculation by (metis nth_map)
  ultimately have "bus_ok (publish a e s)" using bus(2) sent(1) by (fastforce simp: bus_ok_def publish_def)
  with assms(1) sent(2) show ?thesis by (simp add: notes_inv_def publish_def site_goes_def)
qed

lemma set_subscribe: "(b, cs) \<in> set (subscribe a c subs) \<Longrightarrow> \<forall>x \<in> set cs. x = c \<and> b = a \<or> (\<exists>cs'. (b, cs') \<in> set subs \<and> x \<in> set cs')"
  by (fastforce simp: subscribe_def split: option.splits if_splits)

lemma set_unsubscribe: "(b, cs) \<in> set (unsubscribe a c subs) \<Longrightarrow> \<forall>x \<in> set cs. \<exists>cs'. (b, cs') \<in> set subs \<and> x \<in> set cs'"
  by (fastforce simp: unsubscribe_def split: option.splits if_splits)

lemma subscribe_inv:
  assumes "notes_inv s"
  shows "notes_inv (s\<lparr>nb_streams := nb_streams s @ [\<lparr>sm_account = a, sm_queue = [], sm_written = []\<rparr>],
        nb_subs := subscribe a (length (nb_streams s)) (nb_subs s)\<rparr>) \<and>
    site_goes s (s\<lparr>nb_streams := nb_streams s @ [\<lparr>sm_account = a, sm_queue = [], sm_written = []\<rparr>],
        nb_subs := subscribe a (length (nb_streams s)) (nb_subs s)\<rparr>)"
proof -
  define s' where "s' = s\<lparr>nb_streams := nb_streams s @ [\<lparr>sm_account = a, sm_queue = [], sm_written = []\<rparr>],
        nb_subs := subscribe a (length (nb_streams s)) (nb_subs s)\<rparr>"
  have "c < length (nb_streams s') \<and> sm_account (nb_streams s' ! c) = b" if "(b, cs) \<in> set (nb_subs s')" "c \<in> set cs" for b cs c
  proof -
    from that set_subscribe [of b cs a "length (nb_streams s)" "nb_subs s"] consider "c = length (nb_streams s)" "b = a"
      | cs' where "(b, cs') \<in> set (nb_subs s)" "c \<in> set cs'" unfolding s'_def by auto
    then show ?thesis using assms(1) by cases (auto simp: s'_def nth_append notes_inv_def bus_ok_def)
  qed
  then have "bus_ok s'" using assms(1) by (auto simp: bus_ok_def notes_inv_def s'_def stream_ok_def)
  with assms(1) have "notes_inv s' \<and> site_goes s s'" by (simp add: notes_inv_def s'_def site_goes_def)
  then show ?thesis by (simp add: s'_def)
qed

lemma end_stream_inv: "notes_inv s \<Longrightarrow> notes_inv (end_stream c s) \<and> site_goes s (end_stream c s)"
  unfolding end_stream_def notes_inv_def site_goes_def bus_ok_def using set_unsubscribe by (fastforce split: if_splits)

lemma take_event_inv:
  assumes "notes_inv s"
  shows "notes_inv (take_event c s) \<and> site_goes s (take_event c s)"
proof (cases "c < length (nb_streams s) \<and> sm_queue (nb_streams s ! c) \<noteq> []")
  case True
  define st where "st = nb_streams s ! c"
  define st' where "st' = st\<lparr>sm_queue := tl (sm_queue st), sm_written := sm_written st @ [ev_Unread (hd (sm_queue st))]\<rparr>"
  have t: "take_event c s = s\<lparr>nb_streams := (nb_streams s)[c := st']\<rparr>" using True by (simp add: take_event_def st_def st'_def)
  have "stream_ok st" using assms True by (auto simp: notes_inv_def bus_ok_def st_def)
  then have "stream_ok st'" by (cases "sm_queue st") (auto simp: stream_ok_def st'_def)
  then have "\<forall>x \<in> set ((nb_streams s)[c := st']). stream_ok x"
    using assms by (auto simp: notes_inv_def bus_ok_def dest!: set_update_subset_insert [THEN subsetD])
  moreover have acc: "map sm_account ((nb_streams s)[c := st']) = map sm_account (nb_streams s)"
    using True by (simp add: map_update list_update_same_conv st'_def st_def)
  then have "sm_account ((nb_streams s)[c := st'] ! x) = sm_account (nb_streams s ! x)" if "x < length (nb_streams s)" for x
    using that by (metis length_list_update nth_map)
  ultimately show ?thesis using assms acc unfolding t notes_inv_def bus_ok_def site_goes_def by fastforce
next
  case False
  then show ?thesis using assms by (auto simp: take_event_def)
qed

end
