(* ===== verification/Note_Requests.thy ===== *)
theory Note_Requests
  imports Note_Safety
begin

text \<open>Every request, in any interleaving with the others, keeps the notifications and the streams right and shows an account its own.\<close>

section \<open>Steps\<close>

lemma keep_on_notes:
  assumes "notes_keep m" and "\<And>d r c s'. m \<lparr>data = d, faults = c\<rparr> = (r, s') \<Longrightarrow> \<forall>u. bell.safe Q (g r) u"
  shows "bell.safe Q (bindT (on_notes m) g) s"
  unfolding on_notes_def
proof (rule bell.safe_atomic_bind)
  fix s' fs r c
  assume s': "notes_inv s'" and run: "m \<lparr>data = nb_db s', faults = fs\<rparr> = (r, c)"
  have "notes_wf (nb_db s')" using s' by (simp add: notes_inv_def)
  with assms(1) run have "notes_wf (data c) \<and> notes_go (nb_db s') (data c)" by (force simp: notes_keep_def)
  with s' assms(2) [OF run] show "notes_inv (s'\<lparr>nb_db := data c\<rparr>) \<and> site_goes s' (s'\<lparr>nb_db := data c\<rparr>) \<and> bell.safe Q (g r) (s'\<lparr>nb_db := data c\<rparr>)"
    by (simp add: notes_inv_def bus_ok_def site_goes_def)
qed

lemma keep_site_change:
  assumes "\<And>u. notes_inv u \<Longrightarrow> notes_inv (f u) \<and> site_goes u (f u)" and "\<And>u. bell.safe Q (g (Inr ())) u"
  shows "bell.safe Q (bindT (change f) g) s"
  using assms by (simp add: change_def ret_def)

lemma keep_Publish:
  assumes "\<And>n. ev_Notification e = Some n \<Longrightarrow> nt_AccountID n = a" and "\<And>u. bell.safe Q (g (Inr ())) u"
  shows "bell.safe Q (bindT (Publish a e) g) s"
  unfolding Publish_def by (rule keep_site_change) (use publish_inv assms in blast)+

lemma keep_clock: "(\<And>t u. bell.safe Q (g (Inr t)) u) \<Longrightarrow> bell.safe Q (bindT note_clock g) s"
  by (simp add: note_clock_def look_def ret_def)

text \<open>A part of a request of which only the account matters is safe before anything that is.\<close>

lemma keep_PublishUnread: "(\<And>u. bell.safe Q (g (Inr ())) u) \<Longrightarrow> bell.safe Q (bindT (PublishUnread a) g) s"
  unfolding PublishUnread_def bindT_assoc
  by (rule keep_on_notes [OF notes_keep_reads(2)]) (auto intro: keep_Publish split: sum.split)

lemma keep_MarkRead:
  assumes "\<And>r u. bell.safe Q (g r) u"
  shows "bell.safe Q (bindT (MarkRead a i) g) s"
  unfolding MarkRead_def andThen_def bindT_assoc
proof (rule keep_clock, unfold sum.case bindT_assoc, rule keep_on_notes [OF notes_keep_marks(1)], rule allI)
  fix r u
  show "bell.safe Q (bindT (case r of Inl e \<Rightarrow> fail e | Inr link \<Rightarrow>
      bindT (PublishUnread a) (\<lambda>r. case r of Inl e \<Rightarrow> fail e | Inr _ \<Rightarrow> ret link)) g) u"
    by (cases r) (simp_all add: assms bindT_assoc keep_PublishUnread)
qed

lemma keep_MarkAllRead:
  assumes "\<And>r u. bell.safe Q (g r) u"
  shows "bell.safe Q (bindT (MarkAllRead a) g) s"
  unfolding MarkAllRead_def andThen_def bindT_assoc
proof (rule keep_clock, unfold sum.case bindT_assoc, rule keep_on_notes [OF notes_keep_marks(2)], rule allI)
  fix r u
  show "bell.safe Q (bindT (case r of Inl e \<Rightarrow> fail e | Inr _ \<Rightarrow> PublishUnread a) g) u"
    by (cases r) (simp_all add: assms keep_PublishUnread)
qed

lemma keep_Emit:
  assumes "\<And>r u. bell.safe Q (g r) u"
  shows "bell.safe Q (bindT (Emit a category title body link) g) s"
proof (cases "a \<le> 0")
  case False
  have rest: "bell.safe Q (bindT (bindT (on_notes (note_UnreadCount a)) (\<lambda>r. case r of Inl e \<Rightarrow> fail e | Inr unread \<Rightarrow>
      Publish a \<lparr>ev_Notification = Some n, ev_Unread = unread\<rparr>)) g) u" if "nt_AccountID n = a" for n u
    unfolding bindT_assoc
  proof (rule keep_on_notes [OF notes_keep_reads(2)], rule allI)
    fix r u
    show "bell.safe Q (bindT (case r of Inl e \<Rightarrow> fail e | Inr unread \<Rightarrow> Publish a \<lparr>ev_Notification = Some n, ev_Unread = unread\<rparr>) g) u"
      using that assms by (cases r) (auto intro: keep_Publish)
  qed
  have "bell.safe Q (bindT (on_notes (note_Create a category title body link)) (\<lambda>r. bindT (case r of Inl e \<Rightarrow> fail e | Inr n \<Rightarrow>
      bindT (on_notes (note_UnreadCount a)) (\<lambda>r. case r of Inl e \<Rightarrow> fail e | Inr unread \<Rightarrow> Publish a \<lparr>ev_Notification = Some n, ev_Unread = unread\<rparr>)) g)) s"
  proof (rule keep_on_notes [OF notes_keep_Create], rule allI)
    fix d r c s' u
    assume "note_Create a category title body link \<lparr>data = d, faults = c\<rparr> = (r, s')"
    then show "bell.safe Q (bindT (case r of Inl e \<Rightarrow> fail e | Inr n \<Rightarrow>
      bindT (on_notes (note_UnreadCount a)) (\<lambda>r. case r of Inl e \<Rightarrow> fail e | Inr unread \<Rightarrow> Publish a \<lparr>ev_Notification = Some n, ev_Unread = unread\<rparr>)) g) u"
      using assms rest Create_own by (cases r) auto
  qed
  with False show ?thesis by (simp add: Emit_def andThen_def bindT_assoc)
qed (simp add: Emit_def assms)

lemma keep_Prune:
  assumes "\<And>r u. bell.safe Q (g r) u"
  shows "bell.safe Q (bindT (Prune v) g) s"
  unfolding Prune_def andThen_def
  using assms by (auto simp: bindT_assoc intro!: keep_clock keep_on_notes notes_keep_Prune)

section \<open>What is shown\<close>

definition shown_notes :: "note_error + note_shown \<Rightarrow> notification list" where
  "shown_notes r = (case r of Inr (Menu ns) \<Rightarrow> ns | Inr (Inbox p _) \<Rightarrow> pg_Items p | _ \<Rightarrow> [])"

definition own_notes :: "note_service \<Rightarrow> int option \<times> note_request \<Rightarrow> note_error + note_shown \<Rightarrow> bool" where
  "own_notes v q r \<longleftrightarrow> (\<forall>n \<in> set (shown_notes r). fst q = Some (nt_AccountID n)) \<and> length (shown_notes r) \<le> max 50 (ns_recentLimit v)"

lemma own_simps [simp]:
  "own_notes v q (Inl e)" "own_notes v q (Inr (Note_status n))" "own_notes v q (Inr (Unread_count k))" "own_notes v q (Inr (Marked l))"
  "own_notes v q (Inr To_inbox)" "own_notes v q (Inr (Streaming c))"
  by (simp_all add: own_notes_def shown_notes_def)

lemma keep_menu: "bell.safe (own_notes v (Some a, x)) (note_menu v a) s"
  unfolding note_menu_def Recent_def
proof (rule keep_on_notes [OF notes_keep_reads(3)], rule allI)
  fix d r c s' u
  assume "RecentByAccount a (ns_recentLimit v) \<lparr>data = d, faults = c\<rparr> = (r, s')"
  then show "bell.safe (own_notes v (Some a, x)) (ret (case r of Inl _ \<Rightarrow> Note_status 500 | Inr items \<Rightarrow> Menu items)) u"
    using reads_own(1) by (cases r) (fastforce simp: own_notes_def shown_notes_def)+
qed

text \<open>The items of a page are the account's, and no more than the limit.\<close>

lemma keep_ListPage:
  assumes "\<And>items found u. (\<forall>n \<in> set items. nt_AccountID n = a) \<and> length items \<le> limit \<Longrightarrow> bell.safe Q (g (Inr (items, found))) u" and "\<And>e u. bell.safe Q (g (Inl e)) u"
  shows "bell.safe Q (bindT (ListPage a u limit offset) g) s"
  unfolding ListPage_def andThen_def bindT_assoc
proof (rule keep_on_notes [OF notes_keep_reads(1)], rule allI)
  fix r1 s1
  have list: "bell.safe Q (bindT (on_notes (list_notes a u limit offset)) (\<lambda>r. bindT (case r of Inl e \<Rightarrow> fail e | Inr items \<Rightarrow> ret (items, found)) g)) s1" for found
  proof (rule keep_on_notes [OF notes_keep_reads(4)], rule allI)
    fix d r c s' u'
    assume "list_notes a u limit offset \<lparr>data = d, faults = c\<rparr> = (r, s')"
    then show "bell.safe Q (bindT (case r of Inl e \<Rightarrow> fail e | Inr items \<Rightarrow> ret (items, found)) g) u'"
      using assms reads_own(2) by (cases r) auto
  qed
  then show "bell.safe Q (bindT (case r1 of Inl e \<Rightarrow> fail e | Inr found \<Rightarrow>
      bindT (on_notes (list_notes a u limit offset)) (\<lambda>r. case r of Inl e \<Rightarrow> fail e | Inr items \<Rightarrow> ret (items, found))) g) s1"
    using assms(2) by (cases r1) (simp_all add: bindT_assoc)
qed

lemma keep_inbox: "bell.safe (own_notes v (Some a, x)) (note_inbox a shown page) s"
proof -
  let ?Q = "own_notes v (Some a, x)"
  let ?g = "\<lambda>r. ret (case r of Inl _ \<Rightarrow> Note_status 500 | Inr p \<Rightarrow> Inbox p (shown = ''unread''))"
  have own: "?Q (Inr (Inbox p b))" if "(\<forall>n \<in> set (pg_Items p). nt_AccountID n = a) \<and> length (pg_Items p) \<le> nat inboxPageSize" for p b
    using that by (auto simp: own_notes_def shown_notes_def inboxPageSize_def)
  show ?thesis
    unfolding note_inbox_def inbox_page_def Let_def andThen_def bindT_assoc
    by (rule keep_ListPage) (auto simp: bindT_assoc own intro!: keep_ListPage)
qed

lemma keep_handle_note: "bell.safe (own_notes v q) (handle_note v q) s"
proof (cases q)
  case (Pair session x)
  have "bell.safe (own_notes v (session, x)) (handle_note v (session, x)) s"
  proof (cases x)
    case Note_menu
    then show ?thesis using keep_menu by (cases session) (simp_all add: handle_note_def with_account_def)
  next
    case (Note_inbox shown page)
    then show ?thesis using keep_inbox by (cases session) (simp_all add: handle_note_def with_account_def)
  next
    case Note_unread
    have "bell.safe (own_notes v (session, x)) (note_count a) s" for a
      unfolding note_count_def UnreadCount_def
      by (rule keep_on_notes [OF notes_keep_reads(2)]) (simp split: sum.split)
    with Note_unread show ?thesis by (cases session) (simp_all add: handle_note_def with_account_def)
  next
    case Note_stream
    have "bell.safe (own_notes v (session, x)) (stream_open a) s" for a
      unfolding stream_open_def andThen_def Subscribe_def bindT.simps
      using subscribe_inv by (simp add: keep_PublishUnread)
    with Note_stream show ?thesis by (cases session) (simp_all add: handle_note_def with_account_def)
  next
    case (Note_read i)
    have "bell.safe (own_notes v (session, x)) (markRead a i) s" for a
      unfolding markRead_def by (cases "ParseInt i") (auto intro!: keep_MarkRead split: sum.split)
    with Note_read show ?thesis by (cases session) (simp_all add: handle_note_def with_account_def)
  next
    case (Note_read_all htmx)
    have "bell.safe (own_notes v (Some a, x)) (markAllRead v a htmx) s" for a
      unfolding markAllRead_def by (rule keep_MarkAllRead) (auto simp: keep_menu split: sum.split)
    with Note_read_all show ?thesis by (cases session) (simp_all add: handle_note_def with_account_def)
  next
    case (Stream_turn c)
    then show ?thesis using take_event_inv by (auto simp: handle_note_def andThen_def intro!: keep_site_change)
  next
    case (Stream_end c)
    then show ?thesis using end_stream_inv by (auto simp: handle_note_def andThen_def intro!: keep_site_change)
  next
    case (Note_emit a category title body link)
    then show ?thesis by (auto simp: handle_note_def andThen_def intro!: keep_Emit split: sum.split)
  next
    case Note_prune
    then show ?thesis by (auto simp: handle_note_def andThen_def intro!: keep_Prune split: sum.split)
  qed
  with Pair show ?thesis by simp
qed

lemma notes_elapse: "notes_inv s \<Longrightarrow> notes_inv (notes_pass n s) \<and> site_goes s (notes_pass n s)"
  using note_goes_refl by (fastforce simp: notes_pass_def notes_inv_def notes_wf_def bus_ok_def site_goes_def notes_go_def)

lemma run_notes_safe:
  assumes "notes_inv s" and "run_notes v xs s = (s', ts)"
  shows "notes_inv s' \<and> site_goes s s' \<and> bell.all_safe (own_notes v) (arrivals xs) ts s'"
  using bell.run_panel_safe [where Q = "own_notes v" and elapse = notes_pass and handle = "handle_note v", OF notes_elapse keep_handle_note assms(1)]
    assms(2) unfolding run_notes_def by blast

end
