(* ===== verification/Note_Claims.thy ===== *)
theory Note_Claims
  imports Note_Requests Task_Locks "HOL-Library.Multiset"
begin

text \<open>The properties of the notifications, tried on a table of three for two accounts.\<close>

section \<open>A small table\<close>

definition small_note :: "int \<Rightarrow> int \<Rightarrow> int option \<Rightarrow> notification" where
  "small_note i a read = \<lparr>nt_CreatedAt = 10 + i, nt_ReadAt = read, nt_Category = ''ticket'', nt_Title = ''answer'', nt_Body = '''', nt_Link = ''/tickets/1'',
     nt_ID = i, nt_AccountID = a\<rparr>"

definition small_notes :: notesite where
  "small_notes = \<lparr>nb_db = \<lparr>cp_notification = [small_note 1 7 (Some 12), small_note 2 8 None, small_note 3 7 None], note_seq = 3, note_now = 20\<rparr>,
     nb_subs = [(7, [0])], nb_streams = [\<lparr>sm_account = 7, sm_queue = [], sm_written = []\<rparr>]\<rparr>"

definition small_notifier :: note_service where "small_notifier = \<lparr>ns_recentLimit = 20, ns_retention = 0\<rparr>"

lemma small_notes_ok: "notes_inv small_notes"
  by (simp add: notes_inv_def notes_wf_def bus_ok_def stream_ok_def small_notes_def small_note_def uniq_def)

section \<open>Whose notifications\<close>

text \<open>
  C37. Notifications stay with their account. Whatever requests interleave, and whatever the
  connections lose: every request that was answered was shown notifications of the account of its
  session only, and no more than fifty or the limit of the menu; and every event that waits on a
  stream carries, when it carries a notification, one of the account that opened the stream, eight at most.
\<close>

theorem notifications_stay_private:
  assumes "notes_inv s" and "run_notes v xs s = (s', ts)"
  shows "(\<forall>i < length ts. \<forall>r. ts ! i = Ended r \<longrightarrow>
      (\<forall>n \<in> set (shown_notes r). fst (arrivals xs ! i) = Some (nt_AccountID n)) \<and> length (shown_notes r) \<le> max 50 (ns_recentLimit v)) \<and>
    (\<forall>st \<in> set (nb_streams s'). length (sm_queue st) \<le> 8 \<and> (\<forall>e \<in> set (sm_queue st). \<forall>n. ev_Notification e = Some n \<longrightarrow> nt_AccountID n = sm_account st))"
proof -
  note run = run_notes_safe [OF assms]
  have "own_notes v (arrivals xs ! i) r" if "i < length ts" "ts ! i = Ended r" for i r
    using bell.ended_answer that run by blast
  moreover have "\<forall>st \<in> set (nb_streams s'). stream_ok st" using run by (auto simp: notes_inv_def bus_ok_def)
  ultimately show ?thesis by (auto simp: own_notes_def stream_ok_def channel_size_def)
qed

theorem notifications_stay_private_witness:
  "\<exists>s' ns. run_notes small_notifier [Arrive (Some 7, Note_menu), Advance 0 []] small_notes = (s', [Ended (Inr (Menu ns))]) \<and> length ns = 2 \<and>
     (\<forall>n \<in> set ns. nt_AccountID n = 7)"
proof -
  let ?xs = "[Arrive (Some 7, Note_menu), Advance 0 []]"
  obtain s' ns where run: "run_notes small_notifier ?xs small_notes = (s', [Ended (Inr (Menu ns))])" "length ns = 2"
    by (simp add: run_notes_def run_panel_def run_move_def handle_note_def with_account_def note_menu_def Recent_def on_notes_def atomic_def
        RecentByAccount_def query_def sql_def next_fault_def pop_fault_def small_notes_def small_note_def notes_of_def small_notifier_def newest_notes_def ret_def)
  from notifications_stay_private [OF small_notes_ok run(1)] have "\<forall>n \<in> set ns. nt_AccountID n = 7"
    by (auto simp: shown_notes_def arrivals_def)
  with run show ?thesis by blast
qed

text \<open>
  C38. What was read stays read. Whatever requests interleave, and whatever is lost, the
  notifications keep numbers of their own, and one that is in the table and was there before, or whose
  number was taken before, is the one that was there, of the same account with the same text, link and time
  of creation: the time when it was read is set once and then never changes, and one that was
  removed does not come back.
\<close>

theorem reads_stick:
  assumes "notes_inv s" and "run_notes v xs s = (s', ts)"
  shows "distinct (map nt_ID (cp_notification (nb_db s'))) \<and>
    (\<forall>n' \<in> set (cp_notification (nb_db s')). nt_ID n' \<le> note_seq (nb_db s) \<longrightarrow>
      (\<exists>n \<in> set (cp_notification (nb_db s)). n'\<lparr>nt_ReadAt := nt_ReadAt n\<rparr> = n \<and> (nt_ReadAt n \<noteq> None \<longrightarrow> nt_ReadAt n' = nt_ReadAt n)))"
proof -
  have "notes_wf (nb_db s')" "notes_go (nb_db s) (nb_db s')" using run_notes_safe [OF assms] by (auto simp: notes_inv_def site_goes_def)
  moreover have "n'\<lparr>nt_ReadAt := nt_ReadAt n\<rparr> = n" if "note_goes n n'" for n n' :: notification
    using that by (cases n; cases n') (simp add: note_goes_def)
  ultimately show ?thesis by (fastforce simp: notes_wf_def uniq_def notes_go_def note_goes_def)
qed

theorem reads_stick_witness:
  "\<exists>s' ts. run_notes small_notifier [Arrive (Some 7, Note_read ''1''), Advance 0 [], Advance 0 []] small_notes = (s', ts) \<and>
     (\<exists>n' \<in> set (cp_notification (nb_db s')). nt_ID n' = 1 \<and> nt_ReadAt n' = Some 12)"
proof -
  let ?xs = "[Arrive (Some 7, Note_read ''1''), Advance 0 [], Advance 0 []]"
  have one: "ParseInt ''1'' = Some 1" by code_simp
  obtain s' ts where run: "run_notes small_notifier ?xs small_notes = (s', ts)" by fastforce
  have "\<exists>n' \<in> set (cp_notification (nb_db s')). nt_ID n' = 1"
    using run by (auto simp: run_notes_def run_panel_def run_move_def handle_note_def with_account_def markRead_def one MarkRead_def note_clock_def look_def
        andThen_def on_notes_def atomic_def note_MarkRead_def sql_def next_fault_def pop_fault_def small_notes_def small_note_def upd_where_def ret_def Let_def)
  then obtain n' where n': "n' \<in> set (cp_notification (nb_db s'))" "nt_ID n' = 1" by blast
  with reads_stick [OF small_notes_ok run] obtain n where "n \<in> set (cp_notification (nb_db small_notes))" "n'\<lparr>nt_ReadAt := nt_ReadAt n\<rparr> = n"
    "nt_ReadAt n \<noteq> None \<longrightarrow> nt_ReadAt n' = nt_ReadAt n" by (force simp: small_notes_def)
  moreover from this(2) n'(2) have "nt_ID n = 1" by (metis notification.select_convs(7) notification.surjective notification.update_convs(2))
  ultimately show ?thesis using run n' by (auto simp: small_notes_def small_note_def)
qed

section \<open>The inbox\<close>

lemma newest_notes_length [simp]: "length (newest_notes ns) = length ns" by (simp add: newest_notes_def)

lemma alone_on_notes: "alone (on_notes m) s = (case m \<lparr>data = nb_db s, faults = []\<rparr> of (r, c) \<Rightarrow> Some (r, s\<lparr>nb_db := data c\<rparr>))"
  by (simp add: on_notes_def alone_atomic)

lemma alone_ListPage:
  assumes "0 \<le> offset"
  shows "alone (ListPage a u limit offset) s =
    Some (Inr (take limit (drop (nat offset) (newest_notes (notes_of a u (nb_db s)))), int (length (notes_of a u (nb_db s)))), s)"
  using assms by (simp add: ListPage_def alone_andThen alone_on_notes count_notes_def list_notes_def query_def sql_def next_fault_def pop_fault_def)

definition pages_of :: "int \<Rightarrow> bool \<Rightarrow> notesite \<Rightarrow> int" where
  "pages_of a u s = max ((int (length (notes_of a u (nb_db s))) + 49) div 50) 1"

text \<open>A page beyond the last is the last.\<close>

lemma alone_inbox:
  assumes "1 \<le> k" and "k \<le> 2 ^ 57" and "length (notes_of a u (nb_db s)) \<le> 2 ^ 57"
  shows "alone (inbox_page a u k) s = Some (Inr \<lparr>
      pg_Items = take 50 (drop (nat ((min k (pages_of a u s) - 1) * 50)) (newest_notes (notes_of a u (nb_db s)))),
      pg_Total = int (length (notes_of a u (nb_db s))), pg_Page = min k (pages_of a u s), pg_TotalPages = pages_of a u s\<rparr>, s)"
proof -
  let ?l = "notes_of a u (nb_db s)"
  have bound: "1 \<le> pages_of a u s" "pages_of a u s \<le> 2 ^ 57" using assms(3) by (auto simp: pages_of_def)
  have off: "page_offset p = (p - 1) * 50" if "1 \<le> p" "p \<le> 2 ^ 57" for p
    using that by (simp add: page_offset_def inboxPageSize_def wrap64_id)
  define m where "m = pages_of a u s"
  have total: "max ((int (length ?l) + inboxPageSize - 1) div inboxPageSize) 1 = m" by (simp add: m_def pages_of_def inboxPageSize_def)
  have page: "alone (ListPage a u (nat inboxPageSize) (page_offset p)) s =
      Some (Inr (take 50 (drop (nat ((p - 1) * 50)) (newest_notes ?l)), int (length ?l)), s)" if "1 \<le> p" "p \<le> 2 ^ 57" for p
    using that by (simp add: alone_ListPage off inboxPageSize_def)
  have m: "1 \<le> m" "m \<le> 2 ^ 57" using bound by (simp_all add: m_def)
  have "max k 1 = k" using assms(1) by simp
  then show ?thesis
    unfolding m_def [symmetric] inbox_page_def Let_def alone_andThen using page [OF assms(1,2)] page [OF m] total
    by (cases "m < k") (simp_all add: alone_andThen del: max_less_iff_conj)
qed

lemma chunks: "length l \<le> n * m \<Longrightarrow> concat (map (\<lambda>k. take m (drop (k * m) l)) [0 ..< n]) = l"
proof (induction n arbitrary: l)
  case (Suc n)
  have "concat (map (\<lambda>k. take m (drop (k * m) l)) [0 ..< Suc n]) = take m l @ concat (map (\<lambda>k. take m (drop (k * m) (drop m l))) [0 ..< n])"
    by (simp only: upt_conv_Cons [of 0 "Suc n"] map_Suc_upt [symmetric]) (simp add: comp_def add.commute)
  also have "... = take m l @ drop m l" using Suc.IH [of "drop m l"] Suc.prems by simp
  finally show ?case by simp
qed simp

text \<open>Newest first, and of the same time the one with the higher number.\<close>

definition before :: "notification \<Rightarrow> notification \<Rightarrow> bool" where
  "before m n \<longleftrightarrow> nt_CreatedAt n < nt_CreatedAt m \<or> nt_CreatedAt n = nt_CreatedAt m \<and> nt_ID n < nt_ID m"

lemma before_insort:
  assumes "sorted_wrt before ns" and "\<forall>m \<in> set ns. nt_ID m < nt_ID n"
  shows "sorted_wrt before (insort_key (\<lambda>n. - nt_CreatedAt n) n ns)"
  using assms by (induction ns) (auto simp: before_def set_insort_key)

lemma newest_notes_sorted:
  assumes "uniq nt_ID ns"
  shows "sorted_wrt before (newest_notes ns)"
proof -
  let ?l = "sort_key (\<lambda>n. - nt_ID n) ns"
  have "distinct (map (\<lambda>n. - nt_ID n) ns)" using assms by (auto simp: uniq_def distinct_map inj_on_def)
  then have "distinct (map (\<lambda>n. - nt_ID n) ?l)" by (simp add: distinct_map)
  then have "sorted_wrt (<) (map (\<lambda>n. - nt_ID n) ?l)" by (simp add: strict_sorted_iff)
  then have "sorted_wrt (\<lambda>m n. nt_ID n < nt_ID m) ?l" by (simp add: sorted_wrt_map)
  moreover have "sorted_wrt before (sort_key (\<lambda>n. - nt_CreatedAt n) l)" if "sorted_wrt (\<lambda>m n. nt_ID n < nt_ID m) l" for l
    using that by (induction l) (simp_all add: before_insort)
  ultimately show ?thesis by (simp add: newest_notes_def)
qed

text \<open>
  C39. The pages of the inbox show everything once. While nothing else happens, and for fewer than
  \<open>2 ^ 57\<close> notifications and page numbers, every page after the last is the last, the pages from the
  first to the last put one after the other are the notifications of the account (or those it has not
  read), each once, newest first, and no page has more than fifty.
\<close>

theorem inbox_pages_show_all:
  assumes "notes_inv s" and "length (notes_of a u (nb_db s)) \<le> 2 ^ 57"
  shows "\<exists>page. (\<forall>k. 1 \<le> k \<and> k \<le> 2 ^ 57 \<longrightarrow> alone (inbox_page a u k) s = Some (Inr (page (min k (pages_of a u s))), s)) \<and>
    (let shown = concat (map (\<lambda>k. pg_Items (page (int k))) [1 ..< Suc (nat (pages_of a u s))])
     in mset shown = filter_mset (\<lambda>n. nt_AccountID n = a \<and> (u \<longrightarrow> \<not> IsRead n)) (mset (cp_notification (nb_db s))) \<and> sorted_wrt before shown) \<and>
    (\<forall>k. length (pg_Items (page k)) \<le> 50)"
proof -
  let ?l = "newest_notes (notes_of a u (nb_db s))" let ?p = "pages_of a u s"
  define page where "page k = \<lparr>pg_Items = take 50 (drop (nat ((k - 1) * 50)) ?l), pg_Total = int (length (notes_of a u (nb_db s))), pg_Page = k, pg_TotalPages = ?p\<rparr>" for k
  have "alone (inbox_page a u k) s = Some (Inr (page (min k ?p)), s)" if "1 \<le> k \<and> k \<le> 2 ^ 57" for k
    using alone_inbox [of k a u s] that assms(2) by (simp add: page_def)
  moreover have "map (\<lambda>k. pg_Items (page (int k))) [1 ..< Suc (nat ?p)] = map (\<lambda>k. take 50 (drop (k * 50) ?l)) [0 ..< nat ?p]"
    by (simp only: One_nat_def map_Suc_upt [symmetric]) (simp add: comp_def page_def nat_mult_distrib mult.commute)
  moreover have "length ?l \<le> nat ?p * 50" by (simp add: pages_of_def)
  moreover have "sorted_wrt before ?l" using assms(1) by (intro newest_notes_sorted) (auto simp: notes_of_def notes_inv_def notes_wf_def uniq_def distinct_map_filter)
  moreover have "mset ?l = filter_mset (\<lambda>n. nt_AccountID n = a \<and> (u \<longrightarrow> \<not> IsRead n)) (mset (cp_notification (nb_db s)))"
    by (simp add: newest_notes_def notes_of_def IsRead_def)
  ultimately show ?thesis by (intro exI [of _ page]) (simp add: chunks Let_def page_def del: upt_Suc)
qed

theorem inbox_pages_show_all_witness:
  "\<exists>p. alone (inbox_page 7 True 9) small_notes = Some (Inr p, small_notes) \<and> length (pg_Items p) \<le> 50 \<and> pages_of 7 True small_notes = 1"
proof -
  have "length (notes_of 7 True (nb_db small_notes)) \<le> 2 ^ 57" by (simp add: small_notes_def small_note_def notes_of_def)
  from inbox_pages_show_all [OF small_notes_ok this] obtain page where
    page: "\<forall>k. 1 \<le> k \<and> k \<le> 2 ^ 57 \<longrightarrow> alone (inbox_page 7 True k) small_notes = Some (Inr (page (min k (pages_of 7 True small_notes))), small_notes)"
    and "\<forall>k. length (pg_Items (page k)) \<le> 50" by blast
  moreover have "pages_of 7 True small_notes = 1" by (simp add: pages_of_def small_notes_def small_note_def notes_of_def)
  ultimately show ?thesis using page [rule_format, of 9] by auto
qed

section \<open>What goes wrong\<close>

text \<open>A page number whose offset wraps to a negative one is an error instead of the last page.\<close>

lemma inbox_offset_wraps: "alone (inbox_page a u (2 ^ 63 - 1)) s = Some (Inl Note_store, s)"
proof -
  have "page_offset (2 ^ 63 - 1) = - 100" by (simp add: page_offset_def inboxPageSize_def wrap64_def)
  then show ?thesis
    by (simp add: inbox_page_def Let_def alone_andThen ListPage_def alone_on_notes count_notes_def list_notes_def query_def sql_def
        next_fault_def pop_fault_def)
qed

text \<open>
  A stream whose client is slow misses the newest events: after \<open>k\<close> notifications of which none was
  taken, and whatever then is taken, the last count it is sent is 8 when there are more than 8.
\<close>

definition flooded :: "int \<Rightarrow> nat \<Rightarrow> notesite \<Rightarrow> bool" where
  "flooded a k s \<longleftrightarrow> nb_subs s = [(a, [0])] \<and> length (notes_of a True (nb_db s)) = k \<and>
     (\<exists>st. nb_streams s = [st] \<and> map ev_Unread (sm_queue st) = map int [1 ..< Suc (min k 8)] \<and> sm_written st = [])"

lemma emit_floods:
  assumes "flooded a k s" and "0 < a" "a < 2 ^ 31" and "storable category" "storable title" "storable body" "storable link"
  shows "\<exists>s'. alone (handle_note v (session, Note_emit a category title body link)) s = Some (Inr (Note_status 200), s') \<and> flooded a (Suc k) s'"
proof -
  let ?i = "note_seq (nb_db s) + 1"
  define n where "n = \<lparr>nt_CreatedAt = note_now (nb_db s), nt_ReadAt = None, nt_Category = category, nt_Title = title, nt_Body = body, nt_Link = link,
             nt_ID = ?i, nt_AccountID = a\<rparr>"
  define d where "d = (nb_db s)\<lparr>note_seq := ?i, cp_notification := cp_notification (nb_db s) @ [n]\<rparr>"
  have ok: "note_ok n" using assms(2-) by (simp add: note_ok_def n_def)
  have count: "length (notes_of a True d) = Suc k" using assms(1) by (simp add: flooded_def notes_of_def d_def n_def)
  obtain st where st: "nb_streams s = [st]" "map ev_Unread (sm_queue st) = map int [1 ..< Suc (min k 8)]" "sm_written st = []"
    using assms(1) by (auto simp: flooded_def)
  have len: "length (sm_queue st) = min k 8" using arg_cong [OF st(2), of length] by simp
  let ?e = "\<lparr>ev_Notification = Some n, ev_Unread = int (Suc k)\<rparr>"
  have "alone (handle_note v (session, Note_emit a category title body link)) s = Some (Inr (Note_status 200), publish a ?e (s\<lparr>nb_db := d\<rparr>))"
    using assms(2) ok count
    by (simp add: handle_note_def alone_andThen Emit_def alone_on_notes note_Create_def bindE_def sql_def next_fault_def pop_fault_def retE_def Let_def
        n_def [symmetric] note_UnreadCount_def count_notes_def query_def Publish_def) (simp add: d_def)
  moreover have "flooded a (Suc k) (publish a ?e (s\<lparr>nb_db := d\<rparr>))"
  proof (cases "k < 8")
    case True
    with assms(1) count st len show ?thesis by (simp add: flooded_def publish_def send_def channel_size_def)
  next
    case False
    then have "min k 8 = 8" "min (Suc k) 8 = 8" by simp_all
    with assms(1) count st len show ?thesis by (simp add: flooded_def publish_def send_def channel_size_def del: upt_Suc)
  qed
  ultimately show ?thesis by blast
qed

lemma emits_flood:
  assumes "flooded a 0 s" and "0 < a" "a < 2 ^ 31" and "storable category" "storable title" "storable body" "storable link"
  shows "\<exists>rs s'. one_by_one (handle_note v) (replicate k (session, Note_emit a category title body link)) s = Some (rs, s') \<and> flooded a k s'"
proof -
  have "\<exists>rs s'. one_by_one (handle_note v) (replicate k (session, Note_emit a category title body link)) s = Some (rs, s') \<and> flooded a (m + k) s'"
    if "flooded a m s" for m s
    using that
  proof (induction k arbitrary: m s)
    case (Suc k)
    obtain s1 where "alone (handle_note v (session, Note_emit a category title body link)) s = Some (Inr (Note_status 200), s1)" "flooded a (Suc m) s1"
      using emit_floods [OF Suc.prems assms(2-)] by blast
    with Suc.IH [of "Suc m" s1] show ?case by auto
  qed simp
  from this [of 0 s] assms(1) show ?thesis by simp
qed

lemma slow_stream_ends_behind:
  assumes "flooded a 0 s" and "0 < a" "a < 2 ^ 31" and "storable category" "storable title" "storable body" "storable link" and "8 < k"
  shows "\<exists>rs s' s''. one_by_one (handle_note v) (replicate k (session, Note_emit a category title body link)) s = Some (rs, s') \<and>
    (take_event 0 ^^ m) s' = s'' \<and> (\<forall>n \<in> set (sm_written (nb_streams s'' ! 0)). n \<le> 8) \<and> alone (UnreadCount a) s'' = Some (Inr (int k), s'')"
proof -
  obtain rs s' where run: "one_by_one (handle_note v) (replicate k (session, Note_emit a category title body link)) s = Some (rs, s')" "flooded a k s'"
    using emits_flood [OF assms(1-7)] by blast
  define small where "small u \<longleftrightarrow> length (nb_streams u) = 1 \<and> length (notes_of a True (nb_db u)) = k \<and>
    (\<forall>n \<in> set (sm_written (nb_streams u ! 0)) \<union> ev_Unread ` set (sm_queue (nb_streams u ! 0)). n \<le> 8)" for u :: notesite
  have "small (take_event 0 u)" if "small u" for u
    using that by (cases "sm_queue (nb_streams u ! 0)") (auto simp: small_def take_event_def nth_list_update)
  moreover have "small s'"
  proof -
    obtain st where st: "nb_streams s' = [st]" "map ev_Unread (sm_queue st) = map int [1 ..< Suc (min k 8)]" "sm_written st = []" using run(2) by (auto simp: flooded_def)
    from arg_cong [OF st(2), of set] have "\<forall>n \<in> ev_Unread ` set (sm_queue st). n \<le> 8" by auto
    with st run(2) show ?thesis by (simp add: small_def flooded_def)
  qed
  ultimately have "small ((take_event 0 ^^ m) s')" by (induction m) simp_all
  then show ?thesis using run(1)
    by (auto simp: small_def UnreadCount_def alone_on_notes note_UnreadCount_def count_notes_def query_def sql_def next_fault_def pop_fault_def)
qed

end
