(* ===== verification/Characters.thy ===== *)
theory Characters
  imports Task_Locks Http
begin

text \<open>
  \<open>internal/features/character\<close>: a player looks at the characters of the account and resets the look
  or the place of one that is not online, once in a while. The characters are rows of the game's
  database, the times of the resets rows of the panel's.

  Requests are tasks, a step for each statement; the game writes the characters in between. Which
  places the game's columns can hold is a parameter.
\<close>

section \<open>domain\<close>

record game_char =
  ch_Name :: string
  ch_Gender :: string
  ch_CurrentMap :: string
  ch_SaveMap :: string
  ch_ID :: int
  ch_AccountID :: int
  ch_Slot :: int
  ch_Zeny :: int
  ch_JobID :: int
  ch_BaseLevel :: int
  ch_JobLevel :: int
  ch_HairStyle :: int
  ch_HairColor :: int
  ch_ClothesColor :: int
  ch_BodyID :: int
  ch_CurrentX :: int
  ch_CurrentY :: int
  ch_SaveX :: int
  ch_SaveY :: int
  ch_CostumeTop :: int
  ch_CostumeMid :: int
  ch_CostumeBottom :: int
  ch_CostumeRobe :: int
  ch_Online :: bool

datatype char_change = ChangeTypeUnknown | ChangeTypeLook | ChangeTypeLocation

datatype char_error = ErrCharacterNotFound | ErrNotOwner | ErrCharacterOnline | ErrCooldown | Char_store

section \<open>infra\<close>

record chardb = ch_table :: "game_char list"

record coolingdb =
  cp_character_record :: "((int \<times> char_change) \<times> int) list"
  cooling_now :: int

type_synonym 'a char_prog = "(chardb conn, char_error, 'a) prog"
type_synonym 'a cooling_prog = "(coolingdb conn, char_error, 'a) prog"

definition ListByAccount :: "int \<Rightarrow> game_char list char_prog" where
  "ListByAccount accountID = query Char_store (\<lambda>d. sort_key ch_Slot (filter (\<lambda>c. ch_AccountID c = accountID) (ch_table d)))"

definition char_GetByID :: "int \<Rightarrow> game_char char_prog" where
  "char_GetByID charID =
     bindE (query Char_store (\<lambda>d. find (\<lambda>c. ch_ID c = charID) (ch_table d)))
       (\<lambda>r. case r of None \<Rightarrow> failE ErrCharacterNotFound | Some c \<Rightarrow> retE c)"

text \<open>The client counts the rows found, changed or not.\<close>

definition update_char :: "int \<Rightarrow> (game_char \<Rightarrow> game_char option) \<Rightarrow> unit char_prog" where
  "update_char charID f =
     bindE (sql Char_store (\<lambda>d.
       let hit = filter (\<lambda>c. ch_ID c = charID) (ch_table d)
       in if \<exists>c \<in> set hit. f c = None then None
          else Some (length hit, d\<lparr>ch_table := upd_where (\<lambda>c. ch_ID c = charID) (\<lambda>c. the (f c)) (ch_table d)\<rparr>)))
     (\<lambda>n. if n = 0 then failE ErrCharacterNotFound else retE ())"

definition UpdateLook :: "int \<Rightarrow> int \<Rightarrow> int \<Rightarrow> int \<Rightarrow> unit char_prog" where
  "UpdateLook charID hair hairColor clothesColor =
     update_char charID (\<lambda>c. Some (c\<lparr>ch_HairStyle := hair, ch_HairColor := hairColor, ch_ClothesColor := clothesColor\<rparr>))"

definition UpdateLocation :: "(string \<Rightarrow> int \<Rightarrow> int \<Rightarrow> bool) \<Rightarrow> int \<Rightarrow> string \<Rightarrow> int \<Rightarrow> int \<Rightarrow> unit char_prog" where
  "UpdateLocation fits charID mapName x y =
     update_char charID (\<lambda>c. if fits mapName x y then Some (c\<lparr>ch_CurrentMap := mapName, ch_CurrentX := x, ch_CurrentY := y\<rparr>) else None)"

text \<open>\<open>internal/infra/postgres/record.go\<close>, on the table of characters.\<close>

definition cooling_Record :: "int \<Rightarrow> char_change \<Rightarrow> int \<Rightarrow> unit cooling_prog" where
  "cooling_Record i kind now = exec Char_store (\<lambda>d.
     d\<lparr>cp_character_record := ((i, kind), now) # filter (\<lambda>r. fst r \<noteq> (i, kind)) (cp_character_record d)\<rparr>)"

definition cooling_MostRecent :: "int \<Rightarrow> char_change \<Rightarrow> int option cooling_prog" where
  "cooling_MostRecent i kind = query Char_store (\<lambda>d. map_of (cp_character_record d) (i, kind))"

section \<open>app/service.go\<close>

record charsite =
  cs_game :: chardb
  cs_panel :: coolingdb

type_synonym 'a charing = "(charsite, char_error, 'a) task"

definition on_game :: "'a char_prog \<Rightarrow> 'a charing" where "on_game = atomic cs_game (\<lambda>d s. s\<lparr>cs_game := d\<rparr>)"
definition on_cooling :: "'a cooling_prog \<Rightarrow> 'a charing" where "on_cooling = atomic cs_panel (\<lambda>d s. s\<lparr>cs_panel := d\<rparr>)"
definition char_clock :: "int charing" where "char_clock = look (\<lambda>s. cooling_now (cs_panel s))"

definition chars_pass :: "nat \<Rightarrow> charsite \<Rightarrow> charsite" where
  "chars_pass n s = s\<lparr>cs_panel := (cs_panel s)\<lparr>cooling_now := cooling_now (cs_panel s) + int n\<rparr>\<rparr>"

record char_service =
  cv_fits :: "string \<Rightarrow> int \<Rightarrow> int \<Rightarrow> bool"
  cv_Map :: string
  cv_X :: int
  cv_Y :: int
  cv_lookCooldown :: int
  cv_locationCooldown :: int

record char_dto =
  dto_Char :: game_char
  dto_LookCDUntil :: "int option"
  dto_LocCDUntil :: "int option"

definition cooldownUntil :: "int option \<Rightarrow> int \<Rightarrow> int option" where
  "cooldownUntil last_change window = map_option (\<lambda>t. t + window) last_change"

definition OnCooldown :: "int option \<Rightarrow> int \<Rightarrow> bool" where
  "OnCooldown until now \<longleftrightarrow> (case until of None \<Rightarrow> False | Some t \<Rightarrow> now < t)"

definition decorate :: "char_service \<Rightarrow> game_char \<Rightarrow> char_dto charing" where
  "decorate v c =
     andThen (on_cooling (cooling_MostRecent (ch_ID c) ChangeTypeLook)) (\<lambda>lookAt.
     andThen (on_cooling (cooling_MostRecent (ch_ID c) ChangeTypeLocation)) (\<lambda>locAt.
     ret \<lparr>dto_Char = c, dto_LookCDUntil = cooldownUntil lookAt (cv_lookCooldown v), dto_LocCDUntil = cooldownUntil locAt (cv_locationCooldown v)\<rparr>))"

fun decorate_all :: "char_service \<Rightarrow> game_char list \<Rightarrow> char_dto list charing" where
  "decorate_all v [] = ret []"
| "decorate_all v (c # cs) = andThen (decorate v c) (\<lambda>dto. andThen (decorate_all v cs) (\<lambda>dtos. ret (dto # dtos)))"

definition chars_List :: "char_service \<Rightarrow> int \<Rightarrow> char_dto list charing" where
  "chars_List v accountID = andThen (on_game (ListByAccount accountID)) (decorate_all v)"

definition chars_Get :: "char_service \<Rightarrow> int \<Rightarrow> int \<Rightarrow> char_dto charing" where
  "chars_Get v accountID charID =
     andThen (on_game (char_GetByID charID)) (\<lambda>c.
       if ch_AccountID c \<noteq> accountID then fail ErrNotOwner else decorate v c)"

definition guardMutation :: "int \<Rightarrow> int \<Rightarrow> char_change \<Rightarrow> int \<Rightarrow> unit charing" where
  "guardMutation accountID charID t window =
     andThen (on_game (char_GetByID charID)) (\<lambda>c.
       if ch_AccountID c \<noteq> accountID then fail ErrNotOwner
       else if ch_Online c then fail ErrCharacterOnline
       else
         andThen (on_cooling (cooling_MostRecent charID t)) (\<lambda>r. case r of
             None \<Rightarrow> ret ()
           | Some t0 \<Rightarrow> andThen char_clock (\<lambda>now. if now - t0 < window then fail ErrCooldown else ret ())))"

definition ResetLook :: "char_service \<Rightarrow> int \<Rightarrow> int \<Rightarrow> unit charing" where
  "ResetLook v accountID charID =
     andThen (guardMutation accountID charID ChangeTypeLook (cv_lookCooldown v)) (\<lambda>_.
     andThen (on_game (UpdateLook charID 0 0 0)) (\<lambda>_.
     andThen char_clock (\<lambda>now.
     on_cooling (cooling_Record charID ChangeTypeLook now))))"

definition ResetLocation :: "char_service \<Rightarrow> int \<Rightarrow> int \<Rightarrow> unit charing" where
  "ResetLocation v accountID charID =
     andThen (guardMutation accountID charID ChangeTypeLocation (cv_locationCooldown v)) (\<lambda>_.
     andThen (on_game (UpdateLocation (cv_fits v) charID (cv_Map v) (cv_X v) (cv_Y v))) (\<lambda>_.
     andThen char_clock (\<lambda>now.
     on_cooling (cooling_Record charID ChangeTypeLocation now))))"

section \<open>transport\<close>

datatype char_shown =
    Char_detail char_dto
  | To_account string
  | To_character int string
  | To_login
  | Char_status nat

definition parseCharID :: "string \<Rightarrow> int option" where
  "parseCharID raw = (case ParseInt raw of None \<Rightarrow> None | Some i \<Rightarrow> if i \<le> 0 then None else Some i)"

definition char_showDetail :: "char_service \<Rightarrow> int option \<Rightarrow> string \<Rightarrow> char_shown charing" where
  "char_showDetail v session raw =
     (case session of None \<Rightarrow> ret To_login | Some accountID \<Rightarrow>
      case parseCharID raw of None \<Rightarrow> ret (Char_status 404) | Some charID \<Rightarrow>
        bindT (chars_Get v accountID charID) (\<lambda>r. ret (case r of
            Inr dto \<Rightarrow> Char_detail dto
          | Inl e \<Rightarrow> if e = ErrCharacterNotFound \<or> e = ErrNotOwner then To_account ''not_found'' else Char_status 500)))"

definition runReset :: "int option \<Rightarrow> string \<Rightarrow> (int \<Rightarrow> int \<Rightarrow> unit charing) \<Rightarrow> string \<Rightarrow> char_shown charing" where
  "runReset session raw reset success =
     (case session of None \<Rightarrow> ret To_login | Some accountID \<Rightarrow>
      case parseCharID raw of None \<Rightarrow> ret (Char_status 404) | Some charID \<Rightarrow>
        bindT (reset accountID charID) (\<lambda>r. ret (case r of
            Inr _ \<Rightarrow> To_character charID success
          | Inl ErrCharacterNotFound \<Rightarrow> To_account ''not_found''
          | Inl ErrNotOwner \<Rightarrow> To_account ''not_found''
          | Inl ErrCharacterOnline \<Rightarrow> To_character charID ''online_locked''
          | Inl ErrCooldown \<Rightarrow> To_character charID ''cooldown_active''
          | Inl Char_store \<Rightarrow> Char_status 500)))"

text \<open>What comes in: the pages, and the game that writes a character of its own.\<close>

datatype char_request =
    Char_view string
  | Look_reset string
  | Location_reset string
  | Game_writes game_char

definition game_write :: "game_char \<Rightarrow> charsite \<Rightarrow> charsite" where
  "game_write c s = s\<lparr>cs_game := (cs_game s)\<lparr>ch_table :=
     upd_where (\<lambda>x. ch_ID x = ch_ID c \<and> ch_AccountID x = ch_AccountID c) (\<lambda>_. c) (ch_table (cs_game s))\<rparr>\<rparr>"

definition handle_char :: "char_service \<Rightarrow> int option \<times> char_request \<Rightarrow> char_shown charing" where
  "handle_char v q = (case q of (session, x) \<Rightarrow> (case x of
       Char_view raw \<Rightarrow> char_showDetail v session raw
     | Look_reset raw \<Rightarrow> runReset session raw (ResetLook v) ''look_reset''
     | Location_reset raw \<Rightarrow> runReset session raw (ResetLocation v) ''location_reset''
     | Game_writes c \<Rightarrow> andThen (change (game_write c)) (\<lambda>_. ret (Char_status 200))))"

definition run_chars ::
    "char_service \<Rightarrow> (int option \<times> char_request) move list \<Rightarrow> charsite \<Rightarrow> (charsite, char_error, char_shown) panel" where
  "run_chars v xs s = run_panel chars_pass (handle_char v) xs (s, [])"

end
