(* ===== verification/Character_Claims.thy ===== *)
theory Character_Claims
  imports Characters
begin

text \<open>
  What the resets of characters keep, whatever interleaves: the characters of others. How often they
  succeed, one at a time; and that two at a time both do.
\<close>

section \<open>The characters of others\<close>

text \<open>
  \<open>kept b R s\<close>: the characters of the account \<open>b\<close> are \<open>R\<close>. Rows keep their numbers and owners.
\<close>

definition kept :: "int \<Rightarrow> game_char list \<Rightarrow> charsite \<Rightarrow> bool" where
  "kept b R s \<longleftrightarrow> uniq ch_ID (ch_table (cs_game s)) \<and> filter (\<lambda>c. ch_AccountID c = b) (ch_table (cs_game s)) = R"

definition owners :: "charsite \<Rightarrow> (int \<times> int) list" where
  "owners s = map (\<lambda>c. (ch_ID c, ch_AccountID c)) (ch_table (cs_game s))"

definition same_owners :: "charsite \<Rightarrow> charsite \<Rightarrow> bool" where "same_owners s s' \<longleftrightarrow> owners s' = owners s"

interpretation guarded: rely_guarantee "kept b R" same_owners same_owners for b R
  by unfold_locales (simp_all add: same_owners_def)

text \<open>A write to characters of other accounts that keeps numbers and owners.\<close>

lemma write_keeps:
  assumes "kept b R s" and "\<And>c. c \<in> set (ch_table (cs_game s)) \<Longrightarrow> p c \<Longrightarrow> ch_ID (f c) = ch_ID c \<and> ch_AccountID (f c) = ch_AccountID c \<and> ch_AccountID c \<noteq> b"
  defines "s' \<equiv> s\<lparr>cs_game := (cs_game s)\<lparr>ch_table := upd_where p f (ch_table (cs_game s))\<rparr>\<rparr>"
  shows "kept b R s' \<and> same_owners s s'"
proof -
  let ?t = "ch_table (cs_game s)"
  have own: "map (\<lambda>c. (ch_ID c, ch_AccountID c)) (upd_where p f ?t) = map (\<lambda>c. (ch_ID c, ch_AccountID c)) ?t"
    using assms(2) by (auto simp: upd_where_def)
  from arg_cong [OF own, of "map fst"] have "uniq ch_ID (upd_where p f ?t) = uniq ch_ID ?t" by (simp add: uniq_def comp_def)
  moreover have "filter (\<lambda>c. ch_AccountID c = b) (map (\<lambda>c. if p c then f c else c) l) = filter (\<lambda>c. ch_AccountID c = b) l" if "set l \<subseteq> set ?t" for l
    using that assms(2) by (induction l) auto
  ultimately show ?thesis using assms(1) own by (simp add: kept_def same_owners_def owners_def s'_def upd_where_def)
qed

lemma owner_of: "find (\<lambda>c. ch_ID c = i) (ch_table (cs_game s)) = Some c \<Longrightarrow> kept b R s \<Longrightarrow> x \<in> set (ch_table (cs_game s)) \<Longrightarrow> ch_ID x = i \<Longrightarrow> x = c"
  using find_key_uniq [of ch_ID "ch_table (cs_game s)" x] by (auto simp: kept_def)

lemma same_owner:
  assumes "same_owners s s'" and "\<forall>x \<in> set (ch_table (cs_game s)). ch_ID x = i \<longrightarrow> ch_AccountID x = a" and "x \<in> set (ch_table (cs_game s'))" "ch_ID x = i"
  shows "ch_AccountID x = a"
proof -
  have "(i, ch_AccountID x) \<in> set (owners s')" using assms(3,4) by (force simp: owners_def)
  then have "(i, ch_AccountID x) \<in> set (owners s)" using assms(1) by (simp add: same_owners_def)
  with assms(2) show ?thesis by (auto simp: owners_def)
qed

lemma keep_on_game:
  assumes "\<And>s' fs r c. same_owners s s' \<Longrightarrow> kept b R s' \<Longrightarrow> m \<lparr>data = cs_game s', faults = fs\<rparr> = (r, c) \<Longrightarrow>
    kept b R (s'\<lparr>cs_game := data c\<rparr>) \<and> same_owners s' (s'\<lparr>cs_game := data c\<rparr>) \<and> guarded.safe b R Q (g r) (s'\<lparr>cs_game := data c\<rparr>)"
  shows "guarded.safe b R Q (bindT (on_game m) g) s"
  unfolding on_game_def by (rule guarded.safe_atomic_bind) (use assms in blast)

text \<open>Statements on the panel's side, and looks at the clock, leave the characters alone.\<close>

lemma keep_on_cooling:
  assumes "\<And>r s'. same_owners s s' \<Longrightarrow> guarded.safe b R Q (g r) s'"
  shows "guarded.safe b R Q (bindT (on_cooling m) g) s"
  unfolding on_cooling_def
  by (rule guarded.safe_atomic_bind) (use assms in \<open>auto simp: kept_def same_owners_def owners_def\<close>)

lemma keep_char_clock:
  assumes "\<And>n s'. same_owners s s' \<Longrightarrow> guarded.safe b R Q (g (Inr n)) s'"
  shows "guarded.safe b R Q (bindT char_clock g) s"
  using assms by (simp add: char_clock_def look_def ret_def same_owners_def)

abbreviation of_account :: "int \<Rightarrow> int \<Rightarrow> charsite \<Rightarrow> bool" where
  "of_account a i s \<equiv> \<forall>x \<in> set (ch_table (cs_game s)). ch_ID x = i \<longrightarrow> ch_AccountID x = a"

lemma of_account_later: "of_account a i s \<Longrightarrow> same_owners s s' \<Longrightarrow> of_account a i s'"
  using same_owner by blast

lemma keep_GetByID:
  assumes "\<And>c s'. same_owners s s' \<Longrightarrow> of_account (ch_AccountID c) i s' \<Longrightarrow> guarded.safe b R Q (g (Inr c)) s'" and "\<And>e s'. guarded.safe b R Q (g (Inl e)) s'"
  shows "guarded.safe b R Q (bindT (on_game (char_GetByID i)) g) s"
proof (rule keep_on_game)
  fix s' fs r c
  assume s': "same_owners s s'" "kept b R s'" and run: "char_GetByID i \<lparr>data = cs_game s', faults = fs\<rparr> = (r, c)"
  then have d: "data c = cs_game s'" by (auto simp: char_GetByID_def bindE_def query_def sql_def retE_def failE_def split: prod.splits sum.splits fault.splits option.splits)
  then have "s'\<lparr>cs_game := data c\<rparr> = s'" by simp
  moreover have "guarded.safe b R Q (g r) s'"
  proof (cases r)
    case (Inr x)
    then have "find (\<lambda>c. ch_ID c = i) (ch_table (cs_game s')) = Some x"
      using run by (auto simp: char_GetByID_def bindE_Inr query_def sql_Inr retE_def failE_def split: option.splits)
    with owner_of [OF this s'(2)] have "of_account (ch_AccountID x) i s'" by auto
    with assms(1) s'(1) Inr show ?thesis by blast
  qed (use assms(2) in simp)
  ultimately show "kept b R (s'\<lparr>cs_game := data c\<rparr>) \<and> same_owners s' (s'\<lparr>cs_game := data c\<rparr>) \<and> guarded.safe b R Q (g r) (s'\<lparr>cs_game := data c\<rparr>)"
    using s' by (simp add: same_owners_def)
qed

lemma keep_guard:
  assumes "\<And>r s'. (r = Inr () \<Longrightarrow> of_account a i s') \<Longrightarrow> guarded.safe b R Q (g r) s'"
  shows "guarded.safe b R Q (bindT (guardMutation a i t w) g) s"
  unfolding guardMutation_def andThen_def bindT_assoc
proof (rule keep_GetByID)
  fix c s' assume own: "of_account (ch_AccountID c) i s'"
  have no: "guarded.safe b R Q (bindT (fail e) g) u" for e u unfolding fail_def bindT.simps by (rule assms) simp
  have cool: "guarded.safe b R Q (bindT (bindT (on_cooling (cooling_MostRecent i t)) (\<lambda>r. case r of Inl e \<Rightarrow> fail e | Inr r \<Rightarrow> (case r of None \<Rightarrow> ret ()
      | Some t0 \<Rightarrow> bindT char_clock (\<lambda>r. case r of Inl e \<Rightarrow> fail e | Inr now \<Rightarrow> if now - t0 < w then fail ErrCooldown else ret ())))) g) s'"
    if "ch_AccountID c = a"
    unfolding bindT_assoc
  proof (rule keep_on_cooling)
    fix r u assume u: "same_owners s' u"
    have yes: "guarded.safe b R Q (g (Inr ())) u'" if "same_owners u u'" for u'
      using assms of_account_later [OF of_account_later [OF own u] that] \<open>ch_AccountID c = a\<close> by blast
    show "guarded.safe b R Q (bindT (case r of Inl e \<Rightarrow> fail e | Inr r \<Rightarrow> (case r of None \<Rightarrow> ret ()
      | Some t0 \<Rightarrow> bindT char_clock (\<lambda>r. case r of Inl e \<Rightarrow> fail e | Inr now \<Rightarrow> if now - t0 < w then fail ErrCooldown else ret ()))) g) u"
      using yes no by (auto simp: ret_def same_owners_def bindT_assoc split: sum.split option.split intro!: keep_char_clock)
  qed
  show "guarded.safe b R Q (bindT (case Inr c of Inl e \<Rightarrow> fail e | Inr c \<Rightarrow> if ch_AccountID c \<noteq> a then fail ErrNotOwner
      else if ch_Online c then fail ErrCharacterOnline
      else bindT (on_cooling (cooling_MostRecent i t)) (\<lambda>r. case r of Inl e \<Rightarrow> fail e | Inr r \<Rightarrow> (case r of None \<Rightarrow> ret ()
        | Some t0 \<Rightarrow> bindT char_clock (\<lambda>r. case r of Inl e \<Rightarrow> fail e | Inr now \<Rightarrow> if now - t0 < w then fail ErrCooldown else ret ())))) g) s'"
    using no cool by simp
next
  show "guarded.safe b R Q (bindT (case Inl e of Inl e \<Rightarrow> fail e | Inr c \<Rightarrow> if ch_AccountID c \<noteq> a then fail ErrNotOwner
      else if ch_Online c then fail ErrCharacterOnline
      else bindT (on_cooling (cooling_MostRecent i t)) (\<lambda>r. case r of Inl e \<Rightarrow> fail e | Inr r \<Rightarrow> (case r of None \<Rightarrow> ret ()
        | Some t0 \<Rightarrow> bindT char_clock (\<lambda>r. case r of Inl e \<Rightarrow> fail e | Inr now \<Rightarrow> if now - t0 < w then fail ErrCooldown else ret ())))) g) s'" for e s'
    unfolding sum.case fail_def bindT.simps by (rule assms) simp
qed

lemma keep_update_char:
  assumes "of_account a i s" and "a \<noteq> b" and "\<And>c c'. f c = Some c' \<Longrightarrow> ch_ID c' = ch_ID c \<and> ch_AccountID c' = ch_AccountID c" and "\<And>r s'. guarded.safe b R Q (g r) s'"
  shows "guarded.safe b R Q (bindT (on_game (update_char i f)) g) s"
proof (rule keep_on_game)
  fix s' fs r c
  assume s': "same_owners s s'" "kept b R s'" and run: "update_char i f \<lparr>data = cs_game s', faults = fs\<rparr> = (r, c)"
  let ?d = "(cs_game s')\<lparr>ch_table := upd_where (\<lambda>c. ch_ID c = i) (\<lambda>c. the (f c)) (ch_table (cs_game s'))\<rparr>"
  have d: "data c = cs_game s' \<or> data c = ?d \<and> (\<forall>x \<in> set (ch_table (cs_game s')). ch_ID x = i \<longrightarrow> f x \<noteq> None)"
    using run by (auto simp: update_char_def bindE_def sql_def Let_def retE_def failE_def split: prod.splits sum.splits fault.splits option.splits if_splits)
  have own: "of_account a i s'" using of_account_later assms(1) s'(1) by blast
  have "kept b R (s'\<lparr>cs_game := ?d\<rparr>) \<and> same_owners s' (s'\<lparr>cs_game := ?d\<rparr>)" if "\<forall>x \<in> set (ch_table (cs_game s')). ch_ID x = i \<longrightarrow> f x \<noteq> None"
    by (rule write_keeps [OF s'(2)]) (use own assms(2,3) that in fastforce)
  with d s' assms(4) show "kept b R (s'\<lparr>cs_game := data c\<rparr>) \<and> same_owners s' (s'\<lparr>cs_game := data c\<rparr>) \<and> guarded.safe b R Q (g r) (s'\<lparr>cs_game := data c\<rparr>)"
    by (auto simp: same_owners_def)
qed

lemma keep_reset:
  assumes "a \<noteq> b" and "\<And>r u. guarded.safe b R Q (g r) u"
    and m: "m = update_char i f" and f: "\<And>c c'. f c = Some c' \<Longrightarrow> ch_ID c' = ch_ID c \<and> ch_AccountID c' = ch_AccountID c"
  shows "guarded.safe b R Q (bindT (andThen (guardMutation a i t w) (\<lambda>_. andThen (on_game m) (\<lambda>_. andThen char_clock (\<lambda>now. on_cooling (cooling_Record i t now))))) g) s"
  unfolding andThen_def bindT_assoc m
proof (rule keep_guard)
  fix r :: "char_error + unit" and s' assume own: "r = Inr () \<Longrightarrow> of_account a i s'"
  have rest: "guarded.safe b R Q (bindT (bindT char_clock (\<lambda>r. case r of Inl e \<Rightarrow> fail e | Inr now \<Rightarrow> on_cooling (cooling_Record i t now))) g) u" for u
    unfolding bindT_assoc by (rule keep_char_clock, unfold sum.case, rule keep_on_cooling) (rule assms(2))
  have "guarded.safe b R Q (bindT (on_game (update_char i f)) (\<lambda>r. bindT (case r of Inl e \<Rightarrow> fail e
      | Inr _ \<Rightarrow> bindT char_clock (\<lambda>r. case r of Inl e \<Rightarrow> fail e | Inr now \<Rightarrow> on_cooling (cooling_Record i t now))) g)) s'" if "r = Inr ()"
    by (rule keep_update_char [OF own [OF that] assms(1) f]) (simp_all add: rest fail_def assms(2) split: sum.split)
  then show "guarded.safe b R Q (bindT (case r of Inl e \<Rightarrow> fail e | Inr _ \<Rightarrow> bindT (on_game (update_char i f)) (\<lambda>r. case r of Inl e \<Rightarrow> fail e
      | Inr _ \<Rightarrow> bindT char_clock (\<lambda>r. case r of Inl e \<Rightarrow> fail e | Inr now \<Rightarrow> on_cooling (cooling_Record i t now)))) g) s'"
    by (cases r) (simp_all add: fail_def assms(2) bindT_assoc)
qed

lemma keep_resets:
  assumes "a \<noteq> b" and "\<And>r u. guarded.safe b R Q (g r) u"
  shows "guarded.safe b R Q (bindT (ResetLook v a i) g) s" "guarded.safe b R Q (bindT (ResetLocation v a i) g) s"
proof -
  show "guarded.safe b R Q (bindT (ResetLook v a i) g) s"
    unfolding ResetLook_def by (rule keep_reset [OF assms UpdateLook_def]) auto
  show "guarded.safe b R Q (bindT (ResetLocation v a i) g) s"
    unfolding ResetLocation_def by (rule keep_reset [OF assms UpdateLocation_def]) (auto split: if_splits)
qed

lemma keep_decorate:
  assumes "\<And>r u. guarded.safe b R Q (g r) u"
  shows "guarded.safe b R Q (bindT (decorate v c) g) s"
proof -
  have "guarded.safe b R Q (bindT (bindT (on_cooling (cooling_MostRecent i t)) (\<lambda>r. case r of Inl e \<Rightarrow> fail e | Inr x \<Rightarrow> ret (k x))) g) u" for i t k u
    unfolding bindT_assoc by (rule keep_on_cooling) (simp add: fail_def ret_def assms split: sum.split)
  then show ?thesis
    unfolding decorate_def andThen_def bindT_assoc by (intro keep_on_cooling) (simp add: fail_def assms bindT_assoc split: sum.split)
qed

lemma keep_view: "guarded.safe b R (\<lambda>_. True) (char_showDetail v session raw) s"
proof (cases "session = None \<or> parseCharID raw = None")
  case False
  then obtain a i where "session = Some a" "parseCharID raw = Some i" by auto
  moreover have "guarded.safe b R (\<lambda>_. True) (bindT (chars_Get v a i) (\<lambda>r. ret (k r))) s" for k :: "char_error + char_dto \<Rightarrow> char_shown"
    unfolding chars_Get_def andThen_def bindT_assoc
    by (rule keep_GetByID) (simp_all add: fail_def keep_decorate)
  ultimately show ?thesis by (simp add: char_showDetail_def)
next
  case True
  then show ?thesis by (cases session) (auto simp: char_showDetail_def)
qed

text \<open>A request of the account \<open>b\<close>, or the game writing a character of \<open>b\<close>.\<close>

definition concerns :: "int \<Rightarrow> int option \<times> char_request \<Rightarrow> bool" where
  "concerns b q \<longleftrightarrow> (case snd q of Game_writes c \<Rightarrow> ch_AccountID c = b | Char_view _ \<Rightarrow> False | _ \<Rightarrow> fst q = Some b)"

lemma keep_handle_char: "\<not> concerns b q \<Longrightarrow> guarded.safe b R (\<lambda>_. True) (handle_char v q) s"
proof (cases q)
  case (Pair session x)
  assume c: "\<not> concerns b q"
  have run: "guarded.safe b R (\<lambda>_. True) (runReset session raw reset done) s"
    if "session \<noteq> Some b" "\<And>a i k. a \<noteq> b \<Longrightarrow> guarded.safe b R (\<lambda>_. True) (bindT (reset a i) (\<lambda>r. ret (k r)) :: char_shown charing) s" for raw reset "done"
    using that by (cases session; cases "parseCharID raw") (auto simp: runReset_def)
  show ?thesis
  proof (cases x)
    case (Game_writes d)
    have "kept b R (game_write d u) \<and> same_owners u (game_write d u)" if "kept b R u" for u
      unfolding game_write_def by (rule write_keeps [OF that]) (use c Pair Game_writes in \<open>auto simp: concerns_def\<close>)
    then show ?thesis using Pair Game_writes by (simp add: handle_char_def andThen_def change_def ret_def)
  qed (use c Pair in \<open>auto simp: handle_char_def keep_view concerns_def intro!: run keep_resets\<close>)
qed

lemma others_stay:
  assumes "uniq ch_ID (ch_table (cs_game s))" and "\<forall>q \<in> set (arrivals xs). \<not> concerns b q" and "run_chars v xs s = (s', ts)"
  shows "filter (\<lambda>c. ch_AccountID c = b) (ch_table (cs_game s')) = filter (\<lambda>c. ch_AccountID c = b) (ch_table (cs_game s))"
proof -
  let ?R = "filter (\<lambda>c. ch_AccountID c = b) (ch_table (cs_game s))"
  let ?h = "\<lambda>q. if concerns b q then ret (Char_status 400) else handle_char v q"
  have "run_panel chars_pass ?h xs (s, []) = (s', ts)"
    using run_panel_cong [of xs ?h "handle_char v" chars_pass] assms(2,3) by (simp add: run_chars_def)
  moreover have "kept b ?R s" using assms(1) by (simp add: kept_def)
  moreover have "guarded.safe b ?R (\<lambda>_. True) (?h q) u" for q u by (simp add: keep_handle_char)
  moreover have "kept b R u \<Longrightarrow> kept b R (chars_pass n u) \<and> same_owners u (chars_pass n u)" for R u n
    by (simp add: kept_def same_owners_def owners_def chars_pass_def)
  ultimately have "kept b ?R s'"
    using guarded.run_panel_safe [where b = b and R = ?R and Q = "\<lambda>_ _. True" and elapse = chars_pass and handle = ?h and s = s] by blast
  then show ?thesis by (simp add: kept_def)
qed

section \<open>How often\<close>

definition last_reset :: "int \<times> char_change \<Rightarrow> charsite \<Rightarrow> int option" where
  "last_reset x s = map_of (cp_character_record (cs_panel s)) x"

definition char_now :: "charsite \<Rightarrow> int" where "char_now s = cooling_now (cs_panel s)"

definition reset_of :: "int \<Rightarrow> int \<Rightarrow> char_change \<Rightarrow> int \<Rightarrow> unit char_prog \<Rightarrow> unit charing" where
  "reset_of a i t w m = andThen (guardMutation a i t w) (\<lambda>_. andThen (on_game m) (\<lambda>_. andThen char_clock (\<lambda>now. on_cooling (cooling_Record i t now))))"

lemma alone_on: "alone (on_game m) s = (case m \<lparr>data = cs_game s, faults = []\<rparr> of (r, c) \<Rightarrow> Some (r, s\<lparr>cs_game := data c\<rparr>))"
  "alone (on_cooling p) s = (case p \<lparr>data = cs_panel s, faults = []\<rparr> of (q, c) \<Rightarrow> Some (q, s\<lparr>cs_panel := data c\<rparr>))"
  "alone char_clock s = Some (Inr (char_now s), s)"
  by (simp_all add: on_game_def on_cooling_def char_clock_def alone_atomic char_now_def)

lemma alone_cooling: "alone (on_cooling (cooling_MostRecent i t)) s = Some (Inr (last_reset (i, t) s), s)"
  by (simp add: alone_on cooling_MostRecent_def query_def sql_def next_fault_def pop_fault_def last_reset_def)

lemma alone_Record: "\<exists>s'. alone (on_cooling (cooling_Record i t now)) s = Some (Inr (), s') \<and> char_now s' = char_now s \<and>
    (\<forall>x. last_reset x s' = (if x = (i, t) then Some now else last_reset x s))"
proof -
  have "x \<noteq> (i, t) \<Longrightarrow> map_of (filter (\<lambda>r. fst r \<noteq> (i, t)) l) x = map_of l x" for l x
    by (induction l) auto
  then show ?thesis
    by (auto simp: alone_on cooling_Record_def exec_def sql_def next_fault_def pop_fault_def last_reset_def char_now_def)
qed

lemma alone_GetByID: "\<exists>r. alone (on_game (char_GetByID i)) s = Some (r, s)"
  by (auto simp: alone_on char_GetByID_def bindE_def query_def sql_def next_fault_def pop_fault_def retE_def failE_def split: option.split)

lemma alone_guard:
  assumes "alone (guardMutation a i t w) s = Some (r, s')"
  shows "s' = s \<and> (r = Inr () \<longrightarrow> (\<forall>t0. last_reset (i, t) s = Some t0 \<longrightarrow> t0 + w \<le> char_now s))"
proof -
  obtain c where "alone (on_game (char_GetByID i)) s = Some (c, s)" using alone_GetByID by blast
  with assms show ?thesis
    by (cases c) (auto simp: guardMutation_def alone_andThen alone_cooling alone_on(3) split: if_splits option.splits)
qed

lemma alone_reset_of:
  assumes "alone (reset_of a i t w m) s = Some (r, s')"
  shows "char_now s' = char_now s \<and> (\<forall>x. last_reset x s' = (if r = Inr () \<and> x = (i, t) then Some (char_now s) else last_reset x s)) \<and>
    (r = Inr () \<longrightarrow> (\<forall>t0. last_reset (i, t) s = Some t0 \<longrightarrow> t0 + w \<le> char_now s))"
proof -
  obtain g where g: "alone (guardMutation a i t w) s = Some (g, s)"
    using assms alone_guard by (fastforce simp: reset_of_def alone_andThen split: option.splits prod.splits sum.splits)
  show ?thesis
  proof (cases g)
    case (Inl e)
    with g assms show ?thesis by (auto simp: reset_of_def alone_andThen)
  next
    case (Inr u)
    obtain q c where q: "m \<lparr>data = cs_game s, faults = []\<rparr> = (q, c)" by fastforce
    let ?s1 = "s\<lparr>cs_game := data c\<rparr>"
    have same: "char_now ?s1 = char_now s" "last_reset x ?s1 = last_reset x s" for x by (simp_all add: char_now_def last_reset_def)
    obtain s2 where "alone (on_cooling (cooling_Record i t (char_now s))) ?s1 = Some (Inr (), s2)" "char_now s2 = char_now ?s1"
      "\<forall>x. last_reset x s2 = (if x = (i, t) then Some (char_now s) else last_reset x ?s1)" using alone_Record by blast
    with g Inr q assms same alone_guard [OF g] show ?thesis
      by (cases q) (auto simp: reset_of_def alone_andThen alone_on(1,3))
  qed
qed

lemma resets_of:
  "ResetLook v a i = reset_of a i ChangeTypeLook (cv_lookCooldown v) (UpdateLook i 0 0 0)"
  "ResetLocation v a i = reset_of a i ChangeTypeLocation (cv_locationCooldown v) (UpdateLocation (cv_fits v) i (cv_Map v) (cv_X v) (cv_Y v))"
  by (simp_all add: ResetLook_def ResetLocation_def reset_of_def)

text \<open>Requests one after another, after waits: each with the time at which it was answered.\<close>

fun run_resets :: "char_service \<Rightarrow> (nat \<times> int option \<times> char_request) list \<Rightarrow> charsite \<Rightarrow> ((int option \<times> char_request) \<times> int \<times> char_shown) list" where
  "run_resets v [] s = []"
| "run_resets v ((n, q) # xs) s =
     (case alone (handle_char v q) (chars_pass n s) of
        Some (Inr x, s') \<Rightarrow> (q, char_now s', x) # run_resets v xs s'
      | _ \<Rightarrow> [])"

text \<open>Whether an answer says that the look or the place of a character was reset.\<close>

fun reset_done :: "int \<times> char_change \<Rightarrow> (int option \<times> char_request) \<times> int \<times> char_shown \<Rightarrow> bool" where
  "reset_done (i, ChangeTypeLook) ((_, Look_reset raw), _, x) = (x = To_character i ''look_reset'')"
| "reset_done (i, ChangeTypeLocation) ((_, Location_reset raw), _, x) = (x = To_character i ''location_reset'')"
| "reset_done _ _ = False"

definition window_of :: "char_service \<Rightarrow> char_change \<Rightarrow> int" where
  "window_of v t = (case t of ChangeTypeUnknown \<Rightarrow> 0 | ChangeTypeLook \<Rightarrow> cv_lookCooldown v | ChangeTypeLocation \<Rightarrow> cv_locationCooldown v)"

lemma alone_runReset:
  assumes "alone (runReset session raw reset success) s = Some (Inr x, s')" and "success \<notin> {''online_locked'', ''cooldown_active''}"
  shows "s' = s \<and> (\<forall>i. x \<noteq> To_character i success) \<or>
    (\<exists>a i r. alone (reset a i) s = Some (r, s') \<and> (\<forall>j. x = To_character j success \<longleftrightarrow> r = Inr () \<and> j = i))"
proof (cases "session = None \<or> parseCharID raw = None")
  case True
  with assms show ?thesis by (cases session) (auto simp: runReset_def)
next
  case False
  then obtain a i where ai: "session = Some a" "parseCharID raw = Some i" by auto
  then obtain r where "alone (reset a i) s = Some (r, s')" "x = (case r of Inr _ \<Rightarrow> To_character i success | Inl ErrCharacterNotFound \<Rightarrow> To_account ''not_found''
      | Inl ErrNotOwner \<Rightarrow> To_account ''not_found'' | Inl ErrCharacterOnline \<Rightarrow> To_character i ''online_locked''
      | Inl ErrCooldown \<Rightarrow> To_character i ''cooldown_active'' | Inl Char_store \<Rightarrow> Char_status 500)"
    using assms(1) by (auto simp: runReset_def alone_bind split: option.splits prod.splits)
  with assms(2) show ?thesis by (auto split: sum.splits char_error.splits)
qed

text \<open>What one request does to the time of the last reset.\<close>

lemma alone_handle_char:
  assumes "alone (handle_char v q) s = Some (Inr x, s')"
  shows "char_now s' = char_now s \<and>
    (if reset_done (i, t) (q, n, x) then last_reset (i, t) s' = Some (char_now s) \<and> (\<forall>t0. last_reset (i, t) s = Some t0 \<longrightarrow> t0 + window_of v t \<le> char_now s)
     else last_reset (i, t) s' = last_reset (i, t) s)"
proof (cases q)
  case (Pair session y)
  have other: "char_now s' = char_now s \<and> last_reset (i, t) s' = last_reset (i, t) s" if "s' = s \<or> s' = game_write c s" for c
    using that by (auto simp: game_write_def char_now_def last_reset_def)
  show ?thesis
  proof (cases y)
    case (Char_view raw)
    have dec: "\<exists>d. alone (decorate v c) s = Some (d, s)" for c by (simp add: decorate_def alone_andThen alone_cooling)
    have "s' = s"
    proof (cases "session = None \<or> parseCharID raw = None")
      case True
      with assms Pair Char_view show ?thesis by (cases session) (auto simp: handle_char_def char_showDetail_def)
    next
      case False
      then obtain a j where aj: "session = Some a" "parseCharID raw = Some j" by auto
      obtain g where "alone (on_game (char_GetByID j)) s = Some (g, s)" using alone_GetByID by blast
      then have "\<exists>z. alone (chars_Get v a j) s = Some (z, s)" using dec by (cases g) (auto simp: chars_Get_def alone_andThen)
      with assms Pair Char_view aj show ?thesis by (auto simp: handle_char_def char_showDetail_def alone_bind)
    qed
    with other [of undefined] Pair Char_view show ?thesis by (cases t) auto
  next
    case (Game_writes c)
    then have "s' = game_write c s" using assms Pair by (simp add: handle_char_def alone_andThen)
    with other [of c] Pair Game_writes show ?thesis by (cases t) auto
  next
    case (Look_reset raw)
    with assms Pair have run: "alone (runReset session raw (ResetLook v) ''look_reset'') s = Some (Inr x, s')" by (simp add: handle_char_def)
    from alone_runReset [OF run] consider "s' = s" "\<forall>j. x \<noteq> To_character j ''look_reset''"
      | a j r where "alone (ResetLook v a j) s = Some (r, s')" "\<forall>k. x = To_character k ''look_reset'' \<longleftrightarrow> r = Inr () \<and> k = j" by auto
    then show ?thesis
    proof cases
      case 1
      with Pair Look_reset show ?thesis by (cases t) auto
    next
      case 2
      from alone_reset_of [OF 2(1) [unfolded resets_of]] 2(2) Pair Look_reset show ?thesis by (cases t) (auto simp: window_of_def)
    qed
  next
    case (Location_reset raw)
    with assms Pair have run: "alone (runReset session raw (ResetLocation v) ''location_reset'') s = Some (Inr x, s')" by (simp add: handle_char_def)
    from alone_runReset [OF run] consider "s' = s" "\<forall>j. x \<noteq> To_character j ''location_reset''"
      | a j r where "alone (ResetLocation v a j) s = Some (r, s')" "\<forall>k. x = To_character k ''location_reset'' \<longleftrightarrow> r = Inr () \<and> k = j" by auto
    then show ?thesis
    proof cases
      case 1
      with Pair Location_reset show ?thesis by (cases t) auto
    next
      case 2
      from alone_reset_of [OF 2(1) [unfolded resets_of]] 2(2) Pair Location_reset show ?thesis by (cases t) (auto simp: window_of_def)
    qed
  qed
qed

definition reset_times :: "int \<Rightarrow> char_change \<Rightarrow> ((int option \<times> char_request) \<times> int \<times> char_shown) list \<Rightarrow> int list" where
  "reset_times i t h = map (\<lambda>x. fst (snd x)) (filter (reset_done (i, t)) h)"

lemma resets_apart:
  "successively (\<lambda>a b. a + window_of v t \<le> b) (reset_times i t (run_resets v xs s)) \<and>
   (\<forall>t0. last_reset (i, t) s = Some t0 \<and> reset_times i t (run_resets v xs s) \<noteq> [] \<longrightarrow> t0 + window_of v t \<le> hd (reset_times i t (run_resets v xs s)))"
proof (induction xs arbitrary: s)
  case (Cons x xs)
  obtain n q where x: "x = (n, q)" by (cases x)
  let ?s1 = "chars_pass n s"
  have same: "last_reset (i, t) ?s1 = last_reset (i, t) s" by (simp add: last_reset_def chars_pass_def)
  show ?case
  proof (cases "\<exists>a s'. alone (handle_char v q) ?s1 = Some (Inr a, s')")
    case True
    then obtain a s' where run: "alone (handle_char v q) ?s1 = Some (Inr a, s')" by blast
    from Cons.IH [of s'] alone_handle_char [OF run, of i t "char_now s'"] same show ?thesis
      by (cases "reset_times i t (run_resets v xs s')") (auto simp: x run reset_times_def)
  next
    case False
    then have "run_resets v (x # xs) s = []" by (auto simp: x split: option.splits sum.splits)
    then show ?thesis by (simp add: reset_times_def)
  qed
qed (simp add: reset_times_def)

section \<open>A small game\<close>

definition small_char :: "int \<Rightarrow> int \<Rightarrow> game_char" where
  "small_char i a = \<lparr>ch_Name = ''hero'', ch_Gender = ''M'', ch_CurrentMap = ''geffen'', ch_SaveMap = ''prontera'', ch_ID = i, ch_AccountID = a, ch_Slot = 0,
     ch_Zeny = 0, ch_JobID = 0, ch_BaseLevel = 1, ch_JobLevel = 1, ch_HairStyle = 3, ch_HairColor = 1, ch_ClothesColor = 0, ch_BodyID = 0, ch_CurrentX = 50,
     ch_CurrentY = 50, ch_SaveX = 1, ch_SaveY = 1, ch_CostumeTop = 0, ch_CostumeMid = 0, ch_CostumeBottom = 0, ch_CostumeRobe = 0, ch_Online = False\<rparr>"

definition small_game :: charsite where
  "small_game = \<lparr>cs_game = \<lparr>ch_table = [small_char 1 7, small_char 2 8]\<rparr>, cs_panel = \<lparr>cp_character_record = [], cooling_now = 100\<rparr>\<rparr>"

definition small_chars :: char_service where
  "small_chars = \<lparr>cv_fits = (\<lambda>m _ _. length m \<le> 11), cv_Map = ''prontera'', cv_X = 156, cv_Y = 191, cv_lookCooldown = 60, cv_locationCooldown = 60\<rparr>"

lemma small_id: "parseCharID ''1'' = Some 1"
proof -
  have "ParseInt ''1'' = Some 1" by code_simp
  then show ?thesis by (simp add: parseCharID_def)
qed

lemmas small_game_defs = run_chars_def run_panel_def run_move_def handle_char_def runReset_def small_id ResetLook_def ResetLocation_def guardMutation_def andThen_def
  on_game_def on_cooling_def char_clock_def atomic_def look_def ret_def fail_def char_GetByID_def cooling_MostRecent_def cooling_Record_def UpdateLook_def
  update_char_def query_def exec_def bindE_def sql_def next_fault_def pop_fault_def retE_def failE_def small_game_def small_char_def small_chars_def upd_where_def Let_def

text \<open>
  C40. Nobody resets a character of others. As long as an account asks for no reset and the game
  does not write its characters, these stay as they are, whatever all the others ask for, with
  whatever numbers, in whatever order the steps of their requests interleave, and whatever the
  connections lose.
\<close>

theorem characters_of_others_stay:
  assumes "uniq ch_ID (ch_table (cs_game s))" and "\<forall>q \<in> set (arrivals xs). \<not> concerns b q" and "run_chars v xs s = (s', ts)"
  shows "filter (\<lambda>c. ch_AccountID c = b) (ch_table (cs_game s')) = filter (\<lambda>c. ch_AccountID c = b) (ch_table (cs_game s))"
  using others_stay [OF assms] .

theorem characters_of_others_stay_witness:
  "\<exists>s' ts. run_chars small_chars [Arrive (Some 8, Look_reset ''1''), Advance 0 []] small_game = (s', ts) \<and> ts = [Ended (Inr (To_account ''not_found''))] \<and>
     filter (\<lambda>c. ch_AccountID c = 7) (ch_table (cs_game s')) = [small_char 1 7]"
proof -
  let ?xs = "[Arrive (Some 8, Look_reset ''1''), Advance 0 []]"
  obtain s' where run: "run_chars small_chars ?xs small_game = (s', [Ended (Inr (To_account ''not_found''))])"
    by (simp add: small_game_defs)
  have "\<forall>q \<in> set (arrivals ?xs). \<not> concerns 7 q" by (simp add: arrivals_def concerns_def)
  from characters_of_others_stay [OF _ this run] have "filter (\<lambda>c. ch_AccountID c = 7) (ch_table (cs_game s')) = [small_char 1 7]"
    by (simp add: small_game_def small_char_def uniq_def)
  with run show ?thesis by blast
qed

text \<open>
  One after another, the resets of the look of a character that succeed are the cooldown
  apart, and so are the resets of its place: whatever is asked for in between, of other characters and of
  this one, by whomever, with the game writing the characters meanwhile. Resets of the one do not count
  against the other.
\<close>

theorem resets_are_spaced:
  "successively (\<lambda>a b. a + cv_lookCooldown v \<le> b) (reset_times i ChangeTypeLook (run_resets v xs s)) \<and>
   successively (\<lambda>a b. a + cv_locationCooldown v \<le> b) (reset_times i ChangeTypeLocation (run_resets v xs s))"
  using resets_apart [of v ChangeTypeLook i xs s] resets_apart [of v ChangeTypeLocation i xs s] by (simp add: window_of_def)

text \<open>At the same time they are not: both requests compare with the reset before.\<close>

lemma two_resets_at_once:
  "\<exists>s'. run_chars small_chars
       ([Arrive (Some 7, Look_reset ''1''), Arrive (Some 7, Look_reset ''1'')] @ concat (replicate 6 [Advance 0 [], Advance 1 []])) small_game =
     (s', [Ended (Inr (To_character 1 ''look_reset'')), Ended (Inr (To_character 1 ''look_reset''))])"
  by (simp add: small_game_defs numeral_eq_Suc)

end
