(* ===== verification/Spec2Isabelle.thy ===== *)
theory Spec2Isabelle
  imports Market_Claims Currency_Claims Security_Claims Billing_Claims Ticket_Claims Account_Claims Api_Key_Claims Note_Claims
    Character_Claims
begin

text \<open>
  A verification library for the control panel of a game server: the Go program whose features
  live under \<open>internal/features\<close> and whose request handling lives under \<open>internal/platform\<close>.

  \<^bold>\<open>The program.\<close> The panel keeps its own state in Postgres and shares MariaDB with the game
  server. Players move money between the game and the panel (\<open>account/app/currency\<close>): the game's
  scripts put deposits in a table the panel's deposit worker drains, and read withdrawals from
  one the withdrawal worker fills. On the panel they trade items and money (\<open>market\<close>): items are
  moved from the game's storage to an escrow table, money is held on the panel's balances, a
  purchase settles the money in one transaction and leaves deliveries to a worker. They buy cash
  points for real money (\<open>billing\<close>): the payment providers report payments to webhooks. They write
  tickets the staff answers (\<open>tickets\<close>). Accounts are registered, confirmed by mail, logged in to and banned
  (\<open>account\<close>), behind routes that an access configuration opens to roles (\<open>platform/routes\<close>); programs read the panel with API keys
  (\<open>apikey\<close>). Every request
  passes the origin check, the token check and, on limited routes, a rate limiter
  (\<open>platform/security\<close>).

  \<^bold>\<open>How code is modelled.\<close> \<open>Prelude\<close> has Go's 64-bit integers, programs that return an error, and
  database statements. A function of the code is a definition of the same name (prefixed where
  two features share one); a struct is a record, a table the list of its rows
  (\<open>Trade_Schema\<close>, with the \<open>CHECK\<close> constraints and column ranges as predicates, and sequences,
  which a rollback does not undo, apart). A statement may be lost before it runs or its reply
  after: each connection carries a list of such faults, and what is proved for all lists holds
  however the network behaves. A transaction restores the rows unless its commit ran.

  \<^bold>\<open>Money and items.\<close>
  \<^item> \<open>Currency_Domain\<close>, \<open>Market_Domain\<close>: \<open>account/domain/currency.go\<close>, \<open>market/domain\<close>.
  \<^item> \<open>Wallet\<close> (\<open>postgres_wallet.go\<close>): the operations on balances and holds refine an abstract ledger
    (\<open>wallet_refines_ledger\<close>), no history of them creates money.
  \<^item> \<open>Escrow_Repo\<close> and \<open>Escrow_Ledger\<close> (\<open>mysql_escrow.go\<close>, \<open>mysql_stash.go\<close>): the operations refine an
    abstract item ledger, conserve items of each exact kind, respect slot and stack limits, and
    deliver a leg once.
  \<^item> \<open>Listing_Repo\<close>, \<open>Offer\<close>, \<open>Market_Workers\<close> (\<open>postgres_listing.go\<close>, \<open>postgres_settlement.go\<close>, the
    services of \<open>market/app\<close>): offers, purchases, closing, delivery, reconciliation, expiry.
  \<^item> \<open>Market_Books\<close>, \<open>Market_Safety\<close>, \<open>Market_Progress\<close>, \<open>Market_Claims\<close>: the books of a listing balance
    in every history, owed deliveries are covered and succeed when they can, and the flaws found.

  \<^bold>\<open>The currency bridge.\<close>
  \<^item> \<open>Currency_Repo\<close> (\<open>postgres_currency.go\<close>, \<open>mysql_deposit.go\<close>, \<open>mysql_withdraw.go\<close>) and \<open>Currency_Bridge\<close>
    (\<open>account/app/currency\<close>): store, queues, service and the two workers. The workers run beside the game, the
    players, the wallet and each other: a schedule says, call by call, what these do in between.
  \<^item> \<open>Currency_Ledger\<close>: the store refines an abstract bank; \<open>Currency_Safety\<close> and \<open>Deposit_Safety\<close>: what a
    worker's calls keep, as Hoare triples stable under the others; \<open>Currency_Claims\<close>: a withdrawal is paid once, a
    deposit credited once, money is backed, the cooldown holds, the history is complete. What a paid purchase of cash points
    does to the balances meanwhile is \<open>buyPoints\<close>; \<open>purchase_is_points_bought\<close> below shows that it is what \<open>Complete\<close> does.

  \<^bold>\<open>Buying cash points.\<close>
  \<^item> \<open>Billing_Repo\<close> (\<open>billing/domain\<close>, \<open>postgres_purchase.go\<close>), \<open>Billing_Service\<close> (\<open>service.go\<close>, the three webhooks): a
    purchase is pending, then completed or failed, and completed ones may be disputed or refunded. A provider is
    what its calls answer, an event what its signed message decodes to; a history comes with new answers for each call.
  \<^item> \<open>Billing_Safety\<close>: every program is shown to move along the books (\<open>books\<close>: points are credited as purchases come to be
    paid), by rules for its parts. \<open>Billing_Claims\<close>: the properties, and the payments that are lost.

  \<^bold>\<open>Tickets.\<close>
  \<^item> \<open>Tasks\<close>: a request as a task that does one step at a time, and a panel on which the steps of many requests
    interleave in any order; the rely-guarantee rules for them. A step is one database call or one transaction.
  \<^item> \<open>Roles\<close> (\<open>account/domain/role.go\<close>), \<open>Utf8\<close> (strings as Go and Postgres count them), \<open>Ticket_Domain\<close>, \<open>Ticket_Repo\<close>,
    \<open>Ticket_Service\<close>, \<open>Ticket_Handlers\<close>: the layers of \<open>tickets\<close>, from the rules of a ticket to the answers of the pages.
    That a shown ticket was viewed is noted beside the answer, as a request of its own. Each route stands behind the gate that
    the registry mounts for its tag (\<open>Access_Control\<close>); a request carries what the gate finds out about its visitor, and
    \<open>ticket_gate_agrees\<close> below shows that it decides as the accounts' gate does.
  \<^item> \<open>Ticket_Safety\<close>: every handler keeps the threads right and answers within the bounds of its requester.
    \<open>Ticket_Claims\<close>: the properties, and the change that two requests at a time lose.

  \<^bold>\<open>Accounts.\<close> Requests are tasks here too; \<open>Task_Locks\<close> adds what can be taken once and what one task holds.
  \<^item> \<open>Account_Domain\<close> (\<open>account/domain\<close>, \<open>actiontoken/domain\<close>): tiers, validation, lockout, and tokens as text, with the
    round trip of base64. What neither the code nor Go's documentation fixes byte by byte (letters beyond ASCII, hashes, random
    bytes, the database's collation) are the functions of a record \<open>world\<close>.
  \<^item> \<open>Account_Repo\<close> (\<open>mysql_user.go\<close>, the stores in Postgres), \<open>Account_Site\<close> (the site all share; sessions and action tokens:
    \<open>session_service.go\<close>, \<open>actiontoken/app/manager.go\<close>), \<open>Account_Service\<close> (\<open>account/app/self/service.go\<close> and its registration), \<open>Account_Moderation\<close>
    (\<open>moderation/service.go\<close>), \<open>Access_Control\<close> (\<open>config/access.go\<close>, \<open>routes/registry.go\<close>, \<open>middleware/require_role.go\<close>),
    \<open>Account_Handlers\<close> (the pages' handlers and their routes).
  \<^item> \<open>Account_Runs\<close>, \<open>Account_Logins\<close>, \<open>Access_Gate\<close>: one request at a time, computed; guesses; who passes a gate.
  \<^item> \<open>Account_Steps\<close>, \<open>Account_Locks\<close>, \<open>Account_Links\<close>: what every step of every handler keeps when they interleave, the
    lock around names, links that are used once, sessions that stay ended.
  \<^item> \<open>Account_Example\<close>, \<open>Account_Claims\<close>: a small panel, and the properties on it and in general.

  \<^bold>\<open>API keys.\<close>
  \<^item> \<open>Api_Keys\<close> (\<open>apikey\<close>): keys for programs; the rows, the service's map of the keys that are not revoked, the gate that looks only
    there and asks the limiter of the key's tier, the writes of the last use in the background, and the staff's pages.
  \<^item> \<open>Api_Key_Safety\<close>, \<open>Api_Key_Requests\<close>: what every step keeps of the map and of one key that is followed. \<open>Api_Key_Claims\<close>: a
    revoked key stays out, unless the reply to its revocation is lost; uses are written a minute apart; a key that was issued opens.

  \<^bold>\<open>Notifications and characters.\<close>
  \<^item> \<open>Notifications\<close> (\<open>platform/notification\<close>): the table, the channels of the streams, which hold eight events and miss what
    comes when they are full, the pages, and the turns of a stream's loop as requests. \<open>Note_Safety\<close>, \<open>Note_Requests\<close>: what every
    step keeps; \<open>Note_Claims\<close>: notifications stay with their account, what was read stays read, the pages show all.
  \<^item> \<open>Characters\<close> (\<open>features/character\<close>): the characters in the game's table, which the game writes too, and the resets
    with their guards. \<open>Character_Claims\<close>: those of others stay as they are, resets one at a time keep the cooldown apart,
    two at a time do not.

  \<^bold>\<open>Request protection.\<close>
  \<^item> \<open>Http\<close>, \<open>Client_IP\<close> (\<open>clientip.go\<close>): strings, paths, headers, addresses and networks of the standard library, and
    the address of a client behind proxies.
  \<^item> \<open>Rate_Limiter\<close> (\<open>ratelimit.go\<close>): the entries are nodes of a doubly linked list in a memory.
    \<open>Limiter_Refine\<close> relates them to a list of clients, \<open>Limiter_Clients\<close> that list to one limiter for each client;
    both are simulations (\<open>Simulation\<close>). \<open>Address_Keys\<close>: which addresses share a bucket.
  \<^item> \<open>Route_Match\<close>, \<open>Csrf\<close> (\<open>routematch.go\<close>, \<open>origin.go\<close>, \<open>csrf.go\<close>): open routes, the two checks and their order.
  \<^item> \<open>Security_Claims\<close>: the properties of these.

  \<^bold>\<open>Interfaces.\<close> The locale \<open>repository\<close> of \<open>Prelude\<close> states what a store owes its clients (an invariant each
    operation keeps and an abstract step each performs or leaves out with an error); it is interpreted by the wallet, the
  escrow and the currency store. The locale \<open>simulation\<close> is interpreted by the limiter and its list, the locale
  \<open>rely_guarantee\<close> of \<open>Tasks\<close> by the tickets, the accounts, the API keys, the notifications
  and the characters, its extensions \<open>once_only\<close> and \<open>one_holder\<close> by the accounts' links
  and their lock.

  \<^bold>\<open>Bounds.\<close> Loops of the code that scan a list are recursion on it. The worker loops of the code run for ever:
  \<open>runLoop n\<close> is their first \<open>n + 1\<close> ticks, and the properties hold for every \<open>n\<close>. The limiter's collector follows pointers
  without a bound of its own; that it ends is proved. Nothing uses fuel.

  \<^bold>\<open>Not modelled.\<close> Logging, request decoding, page rendering and wiring; scanning of rows; indices. The two statements of
  \<open>MarkWithdrawDelivered\<close> count as one call when others interfere, and a pay-out of the game's poller (its update of the row
  and the credit) is one event. The limiters of single routes are left out of the registry. The market's calls do not overlap. Requests reach the
  limiter one at a time. The token bucket of \<open>golang.org/x/time/rate\<close>, HMAC, and the media type, form and URL decoders
  are parameters, as are the payment providers; nothing is assumed of them beyond the named hypotheses of a property. For tickets,
  the accounts are a lookup, and whether the account at the gate has a session is part of the request. Of accounts, the mails' text,
  the welcome notification, the lists of accounts and characters, and what the account's page shows of other features; a request holds one connection
  and panics nowhere. Of characters, the names of jobs. The read-only pages (guilds, items, mobs, statistics), news,
  stalls, themes and the generated templates, which hold no rules of their own beyond queries and layout. Of billing, the
  clients of the providers and the pages.
\<close>

section \<open>Purchases and the bridge\<close>

text \<open>
  The event of the bridge that stands for a paid purchase: whenever \<open>Complete\<close> leaves other
  balances behind than it found, the purchase was pending and they are those of \<open>buyPoints\<close>.
\<close>

lemma purchase_is_points_bought:
  assumes "purchase_Complete i p now s = (r, t)" and changed: "bl_pg (data t) \<noteq> bl_pg (data s)"
  shows "\<exists>q \<in> set (cp_purchases (data s)). pr_id q = i \<and> pr_status q = 1 \<and>
    buyPoints (pr_account_id q) (pr_cash_points q) \<lparr>data = bl_pg (data s), faults = []\<rparr> = (Inr (), \<lparr>data = bl_pg (data t), faults = []\<rparr>)"
  using assms(1)
proof (cases rule: Complete_cases)
  case (committed u x v)
  obtain k a c where "x = (k, a, c)" by (cases x)
  with committed(1) have "completeTx i p now u = (Inr (k, a, c), v)" by simp
  then show ?thesis
  proof (cases rule: completeTx_Inr)
    case (credit q C)
    from credit(4) have "q \<in> set (cp_purchases (data s))" "pr_id q = i" "pr_status q = 1"
      using committed(2) by (auto simp: find_Some_iff)
    moreover have "buyPoints (pr_account_id q) (pr_cash_points q) \<lparr>data = bl_pg (data s), faults = []\<rparr> =
        (Inr (), \<lparr>data = bl_pg (data t), faults = []\<rparr>)"
      using credit(5,6) committed(2,3)
      by (simp add: buyPoints_def pgTx_def transaction_def thenE_def bindE_def query_def clean_exec clean_exec_opt
          next_fault_def pop_fault_def sql_def)
    ultimately show ?thesis by blast
  qed (use changed committed in simp)
qed (use changed in simp)

section \<open>The tickets and the gate\<close>

text \<open>The tickets' gate lets through whom the accounts' gate lets through (\<open>gate_visit\<close>).\<close>

lemma ticket_gate_agrees:
  "gate_refuses resolver hidden policy allowed (Visitor i groupID t) = None \<longleftrightarrow> policy_admits resolver policy allowed groupID t"
  by (auto simp: gate_refuses_def policy_admits_def)

end
